(* ===== verification/Prelude.thy ===== *)
theory Prelude
  imports Complex_Main "HOL-Library.AList" "HOL-Library.Sublist"
begin

text \<open>
  What the components share. A JavaScript \<open>Map\<close> is an association list with distinct
  keys in insertion order: \<open>get\<close> is \<open>map_of\<close>, \<open>set\<close> is \<open>AList.update\<close> (an
  existing key keeps its place, a new one goes to the end, as the language prescribes),
  \<open>delete\<close> is \<open>AList.delete\<close>, \<open>size\<close> is \<open>length\<close>, and iteration is the
  list itself. \<open>Array.prototype.sort\<close> with a numeric comparator is the stable
  \<open>sort_key\<close>. Numbers that may be non-finite are \<open>jsnum\<close>; parsed JSON is
  \<open>json\<close>; instants and durations are integral milliseconds.
\<close>

named_theorems jsmap_simps \<open>lookup, keys and sums of association-list maps\<close>

type_synonym millis = int

type_synonym ('k, 'v) jsmap = "('k \<times> 'v) list"

abbreviation jm_wf :: "('k, 'v) jsmap \<Rightarrow> bool" where
  "jm_wf m \<equiv> distinct (map fst m)"

abbreviation jm_has :: "('k, 'v) jsmap \<Rightarrow> 'k \<Rightarrow> bool" where
  "jm_has m k \<equiv> map_of m k \<noteq> None"

abbreviation nullish :: "'a option \<Rightarrow> 'a \<Rightarrow> 'a" where
  "nullish x d \<equiv> (case x of None \<Rightarrow> d | Some v \<Rightarrow> v)"


section \<open>Numbers and parsed JSON\<close>

datatype jsnum = Fin rat | PosInf | NegInf | NaN

fun js_is_finite :: "jsnum \<Rightarrow> bool" where
  "js_is_finite (Fin _) = True"
| "js_is_finite _ = False"

text \<open>\<open>Math.trunc\<close>: round towards zero.\<close>

definition js_trunc :: "rat \<Rightarrow> rat" where
  "js_trunc x = of_int (if x < 0 then \<lceil>x\<rceil> else \<lfloor>x\<rfloor>)"

datatype json =
    JNull
  | JBool bool
  | JNum jsnum
  | JStr string
  | JArr "json list"
  | JObj "(string \<times> json) list"

text \<open>Reading a property of an object: a missing one is \<open>undefined\<close>, here None.\<close>

fun json_get :: "string \<Rightarrow> json \<Rightarrow> json option" where
  "json_get k (JObj kvs) = map_of kvs k"
| "json_get k _ = None"


section \<open>Text\<close>

text \<open>\<open>String.prototype.trim\<close> on characters below 256.\<close>

definition is_js_space :: "char \<Rightarrow> bool" where
  "is_js_space c \<longleftrightarrow> of_char c \<in> {9, 10, 11, 12, 13, 32, 160 :: nat}"

definition js_trim :: "string \<Rightarrow> string" where
  "js_trim s = rev (dropWhile is_js_space (rev (dropWhile is_js_space s)))"


section \<open>Association-list maps\<close>

lemma map_of_AList_update [simp, jsmap_simps]:
  "map_of (AList.update k v m) = (map_of m)(k \<mapsto> v)"
  by (rule update_conv')

lemma map_of_AList_delete [simp, jsmap_simps]:
  "map_of (AList.delete k m) = (map_of m)(k := None)"
  by (rule delete_conv')

lemma jm_wf_update [simp, intro]: "jm_wf m \<Longrightarrow> jm_wf (AList.update k v m)"
  by (rule distinct_update)

lemma jm_wf_delete [simp, intro]: "jm_wf m \<Longrightarrow> jm_wf (AList.delete k m)"
  by (rule distinct_delete)

lemma jm_wf_filter [simp, intro]: "jm_wf m \<Longrightarrow> jm_wf (filter P m)"
  by (rule distinct_map_filter)

declare map_of_eq_Some_iff [simp del]

lemma jm_in_iff: "jm_wf m \<Longrightarrow> (k, v) \<in> set m \<longleftrightarrow> map_of m k = Some v"
  by (simp add: map_of_eq_Some_iff)

lemma map_of_filter_wf:
  assumes "jm_wf m"
  shows "map_of (filter P m) k =
    (case map_of m k of None \<Rightarrow> None | Some v \<Rightarrow> if P (k, v) then Some v else None)"
  using assms
  by (induction m) (auto simp: map_of_eq_None_iff split: option.splits)

lemma map_of_filter_keys: "map_of (filter (\<lambda>(k, _). P k) m) k = (if P k then map_of m k else None)"
  by (induction m) auto

lemma length_update_present:
  "jm_has m k \<Longrightarrow> length (AList.update k v m) = length m"
  by (induction m) auto

lemma length_update_absent:
  "map_of m k = None \<Longrightarrow> length (AList.update k v m) = Suc (length m)"
  by (induction m) (auto split: if_splits)

lemma length_update_le: "length (AList.update k v m) \<le> Suc (length m)"
  by (induction m) auto

lemma update_absent:
  "map_of m k = None \<Longrightarrow> AList.update k v m = m @ [(k, v)]"
  by (induction m) (auto split: if_splits)

lemma length_delete_present:
  assumes "jm_wf m" "jm_has m k"
  shows "Suc (length (AList.delete k m)) = length m"
  using assms
proof (induction m)
  case Nil
  then show ?case by simp
next
  case (Cons p m)
  show ?case
  proof (cases "fst p = k")
    case True
    with Cons.prems have "k \<notin> fst ` set m" by auto
    then have "AList.delete k m = m" by (rule delete_id)
    with True show ?thesis by (cases p) simp
  next
    case False
    with Cons show ?thesis by (cases p) auto
  qed
qed

lemma delete_absent: "map_of m k = None \<Longrightarrow> AList.delete k m = m"
  by (simp add: map_of_eq_None_iff delete_id)

text \<open>Sums over the values of a map, and what one update or deletion does to them.\<close>

definition jm_sum :: "('k \<Rightarrow> 'v \<Rightarrow> rat) \<Rightarrow> ('k, 'v) jsmap \<Rightarrow> rat" where
  "jm_sum f m = (\<Sum>(k, v)\<leftarrow>m. f k v)"

lemma jm_sum_Nil [simp, jsmap_simps]: "jm_sum f [] = 0"
  by (simp add: jm_sum_def)

lemma jm_sum_Cons [simp, jsmap_simps]: "jm_sum f ((k, v) # m) = f k v + jm_sum f m"
  by (simp add: jm_sum_def)

lemma jm_sum_append [simp, jsmap_simps]: "jm_sum f (m @ m') = jm_sum f m + jm_sum f m'"
  by (simp add: jm_sum_def)

lemma jm_sum_nonneg: "(\<And>k v. (k, v) \<in> set m \<Longrightarrow> 0 \<le> f k v) \<Longrightarrow> 0 \<le> jm_sum f m"
  unfolding jm_sum_def by (rule sum_list_nonneg) auto

lemma jm_sum_delete_absent: "k \<notin> fst ` set m \<Longrightarrow> jm_sum f (AList.delete k m) = jm_sum f m"
  by (simp add: delete_id)

lemma jm_sum_delete:
  assumes "jm_wf m"
  shows "jm_sum f (AList.delete k m) =
    jm_sum f m - (case map_of m k of None \<Rightarrow> 0 | Some v \<Rightarrow> f k v)"
  using assms
proof (induction m)
  case Nil
  then show ?case by simp
next
  case (Cons p m)
  obtain k' v' where p: "p = (k', v')" by (cases p)
  show ?case
  proof (cases "k' = k")
    case True
    with Cons.prems p have "k \<notin> fst ` set m" by simp
    then show ?thesis using True p by (simp add: delete_id)
  next
    case False
    with Cons p show ?thesis by (simp split: option.splits)
  qed
qed

lemma jm_sum_update:
  assumes "jm_wf m"
  shows "jm_sum f (AList.update k v m) =
    jm_sum f m - (case map_of m k of None \<Rightarrow> 0 | Some v' \<Rightarrow> f k v') + f k v"
  using assms
proof (induction m)
  case Nil
  then show ?case by simp
next
  case (Cons p m)
  obtain k' v' where p: "p = (k', v')" by (cases p)
  show ?case
  proof (cases "k' = k")
    case True
    then show ?thesis using p by simp
  next
    case False
    with Cons p show ?thesis by (simp split: option.splits)
  qed
qed

lemma jm_sum_cong:
  "(\<And>k v. (k, v) \<in> set m \<Longrightarrow> f k v = g k v) \<Longrightarrow> jm_sum f m = jm_sum g m"
  unfolding jm_sum_def by (rule arg_cong [where f = sum_list]) auto

lemma jm_sum_member_le:
  assumes "\<And>k v. (k, v) \<in> set m \<Longrightarrow> 0 \<le> f k v" and "(k, v) \<in> set m"
  shows "f k v \<le> jm_sum f m"
proof -
  have "f k v \<in> set (map (\<lambda>(k, v). f k v) m)"
    using assms(2) by force
  moreover have "\<forall>x \<in> set (map (\<lambda>(k, v). f k v) m). 0 \<le> x"
    using assms(1) by auto
  ultimately show ?thesis
    unfolding jm_sum_def by (auto intro!: member_le_sum_list)
qed


section \<open>Lists\<close>

lemma length_filter_split: "length (filter P xs) + length (filter (\<lambda>x. \<not> P x) xs) = length xs"
  by (rule sum_length_filter_compl)

end
