(* ===== verification/Pool_Backpressure.thy ===== *)
theory Pool_Backpressure
  imports Prelude
begin

text \<open>
  The pool-wide recovery limiter of \<open>src/routing/probe-lease.ts\<close>: a bucketed sliding
  window that admits a retry or a probe only while recovery sends stay under a ratio of the
  initial sends observed in the window. \<open>recovery_limiter\<close> is the interface its clients
  rely on (\<open>PoolBackpressureLimiter\<close>). The ratio is a rational; the code's double
  multiplication is taken without rounding.
\<close>

section \<open>State and policy\<close>

record backpressure_policy =
  window_ms :: millis
  max_retry_ratio :: rat
  min_recovery_allowance :: int

definition default_backpressure_policy :: backpressure_policy where
  "default_backpressure_policy =
     \<lparr>window_ms = 10000, max_retry_ratio = 1 / 5, min_recovery_allowance = 3\<rparr>"

record bucket =
  start :: millis
  initials :: int
  recoveries :: int

record limiter =
  policy :: backpressure_policy
  buckets :: "bucket list"
  refused_total :: int

definition create_limiter :: "backpressure_policy \<Rightarrow> limiter" where
  "create_limiter p = \<lparr>policy = p, buckets = [], refused_total = 0\<rparr>"

definition bucket_ms :: "backpressure_policy \<Rightarrow> millis" where
  "bucket_ms p = max 1 (window_ms p div 10)"

text \<open>
  \<open>bucketFor\<close> returns a reference to the last bucket of the array, which its callers
  mutate; here the limiter comes back with that bucket last, and \<open>bump_last\<close> is the
  mutation.
\<close>

definition bucket_for :: "millis \<Rightarrow> limiter \<Rightarrow> limiter" where
  "bucket_for now l =
     (let bm = bucket_ms (policy l); st = (now div bm) * bm
      in if buckets l \<noteq> [] \<and> start (last (buckets l)) = st then l
         else l\<lparr>buckets := dropWhile (\<lambda>b. start b \<le> st - window_ms (policy l)) (buckets l)
                  @ [\<lparr>start = st, initials = 0, recoveries = 0\<rparr>]\<rparr>)"

fun bump_last :: "(bucket \<Rightarrow> bucket) \<Rightarrow> bucket list \<Rightarrow> bucket list" where
  "bump_last f [] = []"
| "bump_last f [b] = [f b]"
| "bump_last f (b # bs) = b # bump_last f bs"

fun totals_from :: "millis \<Rightarrow> bucket list \<Rightarrow> int \<times> int" where
  "totals_from cutoff [] = (0, 0)"
| "totals_from cutoff (b # bs) =
     (let (i, r) = totals_from cutoff bs
      in if start b \<le> cutoff then (i, r) else (initials b + i, recoveries b + r))"

definition totals :: "millis \<Rightarrow> limiter \<Rightarrow> int \<times> int" where
  "totals now l = totals_from (now - window_ms (policy l)) (buckets l)"

definition allowance_for :: "backpressure_policy \<Rightarrow> int \<Rightarrow> int" where
  "allowance_for p i = max (min_recovery_allowance p) \<lfloor>of_int i * max_retry_ratio p\<rfloor>"

definition record_initial_send :: "millis \<Rightarrow> limiter \<Rightarrow> limiter" where
  "record_initial_send now l =
     (let l1 = bucket_for now l
      in l1\<lparr>buckets := bump_last (\<lambda>b. b\<lparr>initials := initials b + 1\<rparr>) (buckets l1)\<rparr>)"

definition try_permit :: "millis \<Rightarrow> limiter \<Rightarrow> bool \<times> limiter" where
  "try_permit now l =
     (let l1 = bucket_for now l; (i, r) = totals now l1
      in if r + 1 > allowance_for (policy l1) i
         then (False, l1\<lparr>refused_total := refused_total l1 + 1\<rparr>)
         else (True, l1\<lparr>buckets :=
                 bump_last (\<lambda>b. b\<lparr>recoveries := recoveries b + 1\<rparr>) (buckets l1)\<rparr>))"

fun first_in_window :: "millis \<Rightarrow> bucket list \<Rightarrow> bucket option" where
  "first_in_window cutoff [] = None"
| "first_in_window cutoff (b # bs) =
     (if start b \<le> cutoff then first_in_window cutoff bs else Some b)"

definition next_recovery_at :: "millis \<Rightarrow> limiter \<Rightarrow> millis" where
  "next_recovery_at now l =
     (let (i, r) = totals now l
      in if r + 1 \<le> allowance_for (policy l) i then now
         else (case first_in_window (now - window_ms (policy l)) (buckets l) of
                 Some b \<Rightarrow> start b + window_ms (policy l)
               | None \<Rightarrow> now + window_ms (policy l)))"

record backpressure_state =
  bs_window_ms :: millis
  bs_initial_sends :: int
  bs_recovery_dispatches :: int
  bs_allowance :: int
  bs_refused_total :: int
  bs_ratio_limit :: rat

definition limiter_state :: "millis \<Rightarrow> limiter \<Rightarrow> backpressure_state" where
  "limiter_state now l =
     (let (i, r) = totals now l
      in \<lparr>bs_window_ms = window_ms (policy l), bs_initial_sends = i,
          bs_recovery_dispatches = r, bs_allowance = allowance_for (policy l) i,
          bs_refused_total = refused_total l, bs_ratio_limit = max_retry_ratio (policy l)\<rparr>)"

text \<open>The process-wide limiter: built lazily, replaced by a new policy, dropped on reset.\<close>

definition shared_backpressure :: "limiter option \<Rightarrow> limiter" where
  "shared_backpressure s =
     (case s of None \<Rightarrow> create_limiter default_backpressure_policy | Some l \<Rightarrow> l)"

definition configure_shared :: "backpressure_policy \<Rightarrow> limiter option \<Rightarrow> limiter option" where
  "configure_shared p s = Some (create_limiter p)"


section \<open>Classification of one physical send\<close>

datatype dispatch_class = InitialSend | RetrySend | ProbeSend

record dispatch_decision =
  admitted :: bool
  retry_at :: millis

definition classify_dispatch ::
    "dispatch_class \<Rightarrow> millis \<Rightarrow> limiter \<Rightarrow> dispatch_decision \<times> limiter" where
  "classify_dispatch c now l =
     (case c of
        InitialSend \<Rightarrow> (\<lparr>admitted = True, retry_at = now\<rparr>, record_initial_send now l)
      | ProbeSend \<Rightarrow> (\<lparr>admitted = True, retry_at = now\<rparr>, l)
      | RetrySend \<Rightarrow>
          (let (ok, l1) = try_permit now l
           in if ok then (\<lparr>admitted = True, retry_at = now\<rparr>, l1)
              else (\<lparr>admitted = False, retry_at = next_recovery_at now l1\<rparr>, l1)))"


section \<open>The window arithmetic\<close>

named_theorems window_simps \<open>bucket lookup and window totals\<close>

definition policy_ok :: "backpressure_policy \<Rightarrow> bool" where
  "policy_ok p \<longleftrightarrow> 0 < window_ms p"

lemma bucket_ms_pos [simp, intro]: "0 < bucket_ms p"
  by (simp add: bucket_ms_def)

lemma bucket_ms_le_window: "policy_ok p \<Longrightarrow> bucket_ms p \<le> window_ms p"
  by (auto simp: bucket_ms_def policy_ok_def)

definition bucket_start :: "backpressure_policy \<Rightarrow> millis \<Rightarrow> millis" where
  "bucket_start p t = (t div bucket_ms p) * bucket_ms p"

lemma bucket_start_le: "bucket_start p t \<le> t"
proof -
  have "bucket_start p t + t mod bucket_ms p = t"
    by (simp add: bucket_start_def)
  with pos_mod_sign [OF bucket_ms_pos, of t p] show ?thesis by linarith
qed

lemma bucket_start_gt: "t - bucket_ms p < bucket_start p t"
proof -
  have "bucket_start p t + t mod bucket_ms p = t"
    by (simp add: bucket_start_def)
  with pos_mod_bound [OF bucket_ms_pos, of t p] show ?thesis by linarith
qed

lemma bucket_start_in_window: "policy_ok p \<Longrightarrow> t - window_ms p < bucket_start p t"
  using bucket_start_gt [of t p] bucket_ms_le_window [of p] by linarith

lemma totals_from_append [window_simps]:
  "totals_from c (bs @ bs') =
     (fst (totals_from c bs) + fst (totals_from c bs'),
      snd (totals_from c bs) + snd (totals_from c bs'))"
  by (induction bs) (auto simp: split_beta)

lemma totals_from_dropWhile:
  "c' \<le> c \<Longrightarrow> totals_from c (dropWhile (\<lambda>b. start b \<le> c') bs) = totals_from c bs"
  by (induction bs) (auto simp: split_beta)

lemma bump_last_snoc [window_simps]: "bump_last f (bs @ [b]) = bs @ [f b]"
  by (induction f bs rule: bump_last.induct) auto

lemma policy_bucket_for [simp]: "policy (bucket_for now l) = policy l"
  by (simp add: bucket_for_def Let_def)

lemma refused_total_bucket_for [simp]: "refused_total (bucket_for now l) = refused_total l"
  by (simp add: bucket_for_def Let_def)

text \<open>After \<open>bucketFor\<close> the last bucket is the one of the instant.\<close>

lemma bucket_for_last:
  obtains bs b where "buckets (bucket_for now l) = bs @ [b]"
    and "start b = bucket_start (policy l) now"
proof (cases "buckets l \<noteq> [] \<and> start (last (buckets l)) = bucket_start (policy l) now")
  case True
  then have "buckets (bucket_for now l) = butlast (buckets l) @ [last (buckets l)]"
    by (simp add: bucket_for_def bucket_start_def)
  with True that show ?thesis by blast
next
  case False
  then show ?thesis
    using that by (auto simp: bucket_for_def bucket_start_def Let_def)
qed

text \<open>It forgets only what has left the window, now and at every later instant.\<close>

lemma totals_bucket_for:
  assumes "now - window_ms (policy l) \<le> c"
  shows "totals_from c (buckets (bucket_for now l)) = totals_from c (buckets l)"
proof -
  have "bucket_start (policy l) now - window_ms (policy l) \<le> c"
    using assms bucket_start_le [of "policy l" now] by linarith
  then show ?thesis
    by (auto simp: bucket_for_def Let_def bucket_start_def [symmetric] totals_from_append
        totals_from_dropWhile)
qed

lemma totals_bump_last:
  assumes f: "\<And>b. start (f b) = start b" "\<And>b. initials (f b) = initials b + i"
    "\<And>b. recoveries (f b) = recoveries b + r"
  shows "totals_from c (bump_last f (buckets (bucket_for now l))) =
    (let (i0, r0) = totals_from c (buckets (bucket_for now l))
     in if bucket_start (policy l) now \<le> c then (i0, r0) else (i0 + i, r0 + r))"
proof -
  obtain bs b where "buckets (bucket_for now l) = bs @ [b]"
    and "start b = bucket_start (policy l) now" by (rule bucket_for_last)
  then show ?thesis by (simp add: window_simps f split_beta)
qed

lemma policy_record_initial_send [simp]: "policy (record_initial_send now l) = policy l"
  by (simp add: record_initial_send_def Let_def)

lemma totals_record_initial_send:
  assumes "now - window_ms (policy l) \<le> c"
  shows "totals_from c (buckets (record_initial_send now l)) =
    (let (i, r) = totals_from c (buckets l)
     in if bucket_start (policy l) now \<le> c then (i, r) else (i + 1, r))"
  using totals_bump_last [of "\<lambda>b. b\<lparr>initials := initials b + 1\<rparr>" 1 0 c now l]
    totals_bucket_for [OF assms]
  by (simp add: record_initial_send_def Let_def split_beta)

lemma policy_try_permit [simp]: "policy (snd (try_permit now l)) = policy l"
  by (simp add: try_permit_def Let_def split_beta)

lemma totals_now_bucket_for:
  "totals now (bucket_for now l) = totals now l"
  by (simp add: totals_def totals_bucket_for)

text \<open>The decision of \<open>tryPermit\<close>, and the totals it leaves at every later instant.\<close>

lemma try_permit_decision:
  "fst (try_permit now l) \<longleftrightarrow>
     snd (totals now l) + 1 \<le> allowance_for (policy l) (fst (totals now l))"
  by (auto simp: try_permit_def Let_def split_beta totals_now_bucket_for)

lemma totals_try_permit:
  assumes "now - window_ms (policy l) \<le> c"
  shows "totals_from c (buckets (snd (try_permit now l))) =
    (let (i, r) = totals_from c (buckets l)
     in if fst (try_permit now l) \<and> c < bucket_start (policy l) now then (i, r + 1) else (i, r))"
proof (cases "fst (try_permit now l)")
  case True
  then have "buckets (snd (try_permit now l)) =
      bump_last (\<lambda>b. b\<lparr>recoveries := recoveries b + 1\<rparr>) (buckets (bucket_for now l))"
    by (auto simp: try_permit_def Let_def split_beta split: if_splits)
  with True totals_bump_last [of "\<lambda>b. b\<lparr>recoveries := recoveries b + 1\<rparr>" 0 1 c now l]
    totals_bucket_for [OF assms]
  show ?thesis by (simp add: Let_def split_beta not_less)
next
  case False
  then have "buckets (snd (try_permit now l)) = buckets (bucket_for now l)"
    by (auto simp: try_permit_def Let_def split_beta split: if_splits)
  with False totals_bucket_for [OF assms] show ?thesis by (simp add: split_beta)
qed

lemma totals_now_try_permit:
  assumes "policy_ok (policy l)"
  shows "totals now (snd (try_permit now l)) =
    (fst (totals now l), snd (totals now l) + (if fst (try_permit now l) then 1 else 0))"
  using totals_try_permit [of now l "now - window_ms (policy l)"]
    bucket_start_in_window [OF assms, of now]
  by (simp add: totals_def split_beta)

lemma first_in_window_start: "first_in_window c bs = Some b \<Longrightarrow> c < start b"
  by (induction bs) (auto split: if_splits)

lemma next_recovery_at_ge: "policy_ok (policy l) \<Longrightarrow> now \<le> next_recovery_at now l"
  by (auto simp: next_recovery_at_def policy_ok_def split_beta split: option.splits
      dest!: first_in_window_start)

lemma refused_next_recovery_at:
  assumes "policy_ok (policy l)" "\<not> fst (try_permit now l)"
  shows "now < next_recovery_at now (snd (try_permit now l))"
proof -
  have "totals now (snd (try_permit now l)) = totals now l"
    using totals_now_try_permit [OF assms(1), of now] assms(2) by simp
  then show ?thesis
    using assms
    by (auto simp: next_recovery_at_def try_permit_decision policy_ok_def split_beta
        split: option.splits dest!: first_in_window_start)
qed


section \<open>The interface its clients rely on\<close>

text \<open>
  \<open>PoolBackpressureLimiter\<close> as the held-account dispatcher uses it: a permit that may be
  refused, and the instant to wait for. The laws are what makes a refusal safe to hand back:
  it changes no policy, and the instant offered after it is strictly in the future.
\<close>

locale recovery_limiter =
  fixes permit :: "millis \<Rightarrow> 'l \<Rightarrow> bool \<times> 'l"
    and next_at :: "millis \<Rightarrow> 'l \<Rightarrow> millis"
    and ok :: "'l \<Rightarrow> bool"
  assumes permit_ok: "ok l \<Longrightarrow> ok (snd (permit now l))"
    and next_at_ge: "ok l \<Longrightarrow> now \<le> next_at now l"
    and refused_waits: "ok l \<Longrightarrow> \<not> fst (permit now l) \<Longrightarrow> now < next_at now (snd (permit now l))"
begin

lemma refused_waitsD:
  assumes "ok l" "permit now l = (False, l')"
  shows "now < next_at now l'" "ok l'"
  using refused_waits [of l now] permit_ok [of l now] assms by auto

end

interpretation window_limiter: recovery_limiter try_permit next_recovery_at "\<lambda>l. policy_ok (policy l)"
  by unfold_locales (auto intro: next_recovery_at_ge refused_next_recovery_at)


section \<open>Runs of the limiter and the storm bound\<close>

text \<open>
  A run serves initial sends and recovery attempts in clock order. The run keeps two ghost
  logs the code does not have: the instants of the initial sends and of the admitted
  recoveries.
\<close>

datatype limiter_event = InitialAt millis | RecoveryAt millis

fun event_time :: "limiter_event \<Rightarrow> millis" where
  "event_time (InitialAt t) = t"
| "event_time (RecoveryAt t) = t"

record limiter_run =
  run_limiter :: limiter
  initial_log :: "millis list"
  admitted_log :: "millis list"

fun serve :: "limiter_event \<Rightarrow> limiter_run \<Rightarrow> limiter_run" where
  "serve (InitialAt t) s =
     s\<lparr>run_limiter := record_initial_send t (run_limiter s),
       initial_log := t # initial_log s\<rparr>"
| "serve (RecoveryAt t) s =
     (let (ok, l) = try_permit t (run_limiter s)
      in s\<lparr>run_limiter := l,
           admitted_log := (if ok then t # admitted_log s else admitted_log s)\<rparr>)"

definition fresh_run :: "backpressure_policy \<Rightarrow> limiter_run" where
  "fresh_run p = \<lparr>run_limiter = create_limiter p, initial_log = [], admitted_log = []\<rparr>"

definition serve_all :: "limiter_event list \<Rightarrow> backpressure_policy \<Rightarrow> limiter_run" where
  "serve_all es p = fold serve es (fresh_run p)"

definition in_clock_order :: "limiter_event list \<Rightarrow> bool" where
  "in_clock_order es \<longleftrightarrow> sorted (map event_time es)"

text \<open>How many logged instants fall into a bucket that starts after \<open>c\<close>.\<close>

definition count_after :: "backpressure_policy \<Rightarrow> millis \<Rightarrow> millis list \<Rightarrow> int" where
  "count_after p c ts = int (length (filter (\<lambda>t. c < bucket_start p t) ts))"

lemma count_after_Cons [simp]:
  "count_after p c (t # ts) = count_after p c ts + (if c < bucket_start p t then 1 else 0)"
  by (simp add: count_after_def)

definition logs_agree :: "backpressure_policy \<Rightarrow> millis \<Rightarrow> limiter_run \<Rightarrow> bool" where
  "logs_agree p now s \<longleftrightarrow> policy (run_limiter s) = p
     \<and> (\<forall>c \<ge> now - window_ms p. totals_from c (buckets (run_limiter s)) =
          (count_after p c (initial_log s), count_after p c (admitted_log s)))"

lemma logs_agree_mono: "logs_agree p now s \<Longrightarrow> now \<le> now' \<Longrightarrow> logs_agree p now' s"
  by (auto simp: logs_agree_def)

lemma logs_agree_serve:
  assumes "logs_agree p now s" "now \<le> event_time e"
  shows "logs_agree p (event_time e) (serve e s)"
proof -
  have "logs_agree p (event_time e) s" using assms by (rule logs_agree_mono)
  then show ?thesis
    by (cases e)
      (auto simp: logs_agree_def Let_def split_beta totals_record_initial_send totals_try_permit)
qed

lemma logs_agree_fold:
  assumes "logs_agree p now s" "sorted (map event_time es)" "\<forall>e \<in> set es. now \<le> event_time e"
    "\<forall>e \<in> set es. event_time e \<le> now'" "now \<le> now'"
  shows "logs_agree p now' (fold serve es s)"
  using assms
proof (induction es arbitrary: s now)
  case Nil
  then show ?case by (auto intro: logs_agree_mono)
next
  case (Cons e es)
  have "logs_agree p (event_time e) (serve e s)"
    using Cons.prems by (intro logs_agree_serve) auto
  with Cons.prems show ?case by (auto intro!: Cons.IH [of "event_time e"])
qed

lemma logs_agree_serve_all:
  assumes "in_clock_order es" "\<forall>e \<in> set es. event_time e \<le> now"
  shows "logs_agree p now (serve_all es p)"
proof -
  define t0 where "t0 = min now (if es = [] then now else event_time (hd es))"
  have "logs_agree p t0 (fresh_run p)"
    by (simp add: logs_agree_def fresh_run_def create_limiter_def count_after_def)
  moreover have "\<forall>e \<in> set es. t0 \<le> event_time e"
    using assms(1) by (cases es) (auto simp: t0_def in_clock_order_def)
  ultimately show ?thesis
    using assms by (auto simp: serve_all_def in_clock_order_def t0_def intro: logs_agree_fold)
qed

lemma count_after_le:
  "count_after p c ts \<le> int (length (filter (\<lambda>t. c < t) ts))"
proof -
  have "filter (\<lambda>t. c < bucket_start p t) ts
      = filter (\<lambda>t. c < bucket_start p t) (filter (\<lambda>t. c < t) ts)"
    using bucket_start_le [of p] by (auto intro: filter_cong order.strict_trans2)
  then show ?thesis
    unfolding count_after_def by (metis length_filter_le of_nat_le_iff)
qed

lemma count_after_ge:
  "int (length (filter (\<lambda>t. c + bucket_ms p \<le> t) ts)) \<le> count_after p c ts"
proof -
  have "c < bucket_start p t" if "c + bucket_ms p \<le> t" for t
    using that bucket_start_gt [of t p] by linarith
  then have "filter (\<lambda>t. c + bucket_ms p \<le> t) ts
      = filter (\<lambda>t. c + bucket_ms p \<le> t) (filter (\<lambda>t. c < bucket_start p t) ts)"
    by (auto intro: filter_cong)
  then show ?thesis
    unfolding count_after_def by (metis length_filter_le of_nat_le_iff)
qed

lemma allowance_mono:
  assumes "i \<le> i'" "0 \<le> max_retry_ratio p"
  shows "allowance_for p i \<le> allowance_for p i'"
proof -
  have "of_int i * max_retry_ratio p \<le> of_int i' * max_retry_ratio p"
    using assms by (intro mult_right_mono) auto
  then have "\<lfloor>of_int i * max_retry_ratio p\<rfloor> \<le> \<lfloor>of_int i' * max_retry_ratio p\<rfloor>"
    by (rule floor_mono)
  then show ?thesis by (simp add: allowance_for_def)
qed


text \<open>
  C3. The storm bound, stated over the events alone. Serve any sequence of initial sends and
  recovery attempts in clock order, then a recovery attempt at an instant not before them. If
  it is admitted, the recoveries admitted within the last window less one bucket span,
  this one included, stay within the policy's allowance for the initial sends of the last
  window: the larger of the floor and the ratio of the demand. The bucket span is the width of
  the code's buckets; over the whole window the bound fails (\<open>whole_window_not_bounded\<close>).
\<close>

theorem admitted_recoveries_bounded:
  assumes "policy_ok p" "0 \<le> max_retry_ratio p"
    and "in_clock_order (es @ [RecoveryAt now])"
    and "fst (try_permit now (run_limiter (serve_all es p)))"
  shows "int (length (filter (\<lambda>t. now - window_ms p + bucket_ms p \<le> t)
            (admitted_log (serve_all (es @ [RecoveryAt now]) p))))
       \<le> allowance_for p (int (length (filter (\<lambda>t. now - window_ms p < t)
            (initial_log (serve_all es p)))))"
proof -
  let ?s = "serve_all es p" and ?c = "now - window_ms p"
  have "logs_agree p now ?s"
    using assms(3) by (intro logs_agree_serve_all) (auto simp: in_clock_order_def sorted_append)
  then have pol: "policy (run_limiter ?s) = p"
    and tot: "totals now (run_limiter ?s) =
      (count_after p ?c (initial_log ?s), count_after p ?c (admitted_log ?s))"
    by (auto simp: logs_agree_def totals_def)
  have log: "admitted_log (serve_all (es @ [RecoveryAt now]) p) = now # admitted_log ?s"
    using assms(4) by (simp add: serve_all_def Let_def split_beta)
  have "count_after p ?c (now # admitted_log ?s)
      \<le> allowance_for p (count_after p ?c (initial_log ?s))"
    using assms(4) bucket_start_in_window [OF assms(1), of now]
    by (simp add: try_permit_decision pol tot)
  also have "\<dots> \<le> allowance_for p (int (length (filter (\<lambda>t. ?c < t) (initial_log ?s))))"
    by (rule allowance_mono [OF count_after_le assms(2)])
  finally show ?thesis
    using count_after_ge [where c = ?c and p = p and ts = "now # admitted_log ?s"]
    by (simp add: log algebra_simps)
qed

lemma admitted_recoveries_bounded_witness:
  "int (length (filter (\<lambda>t. 500 - window_ms default_backpressure_policy
          + bucket_ms default_backpressure_policy \<le> t)
        (admitted_log (serve_all ([InitialAt 0, RecoveryAt 100] @ [RecoveryAt 500])
           default_backpressure_policy)))) \<le>
   allowance_for default_backpressure_policy
     (int (length (filter (\<lambda>t. 500 - window_ms default_backpressure_policy < t)
        (initial_log (serve_all [InitialAt 0, RecoveryAt 100] default_backpressure_policy)))))"
  by (rule admitted_recoveries_bounded; code_simp)

text \<open>
  Over the whole window the allowance is not kept, because a bucket leaves the sum by its start:
  under the default policy, without any demand, the floor of three is admitted at the end of the
  bucket that starts at zero and three more at the instant that bucket leaves the window, nine
  seconds later.
\<close>

lemma whole_window_not_bounded:
  "int (length (filter (\<lambda>t. 10000 - window_ms default_backpressure_policy < t)
        (admitted_log (serve_all (replicate 3 (RecoveryAt 999) @ replicate 3 (RecoveryAt 10000))
           default_backpressure_policy)))) = 6
   \<and> allowance_for default_backpressure_policy
       (int (length (initial_log (serve_all (replicate 3 (RecoveryAt 999) @ replicate 3 (RecoveryAt 10000))
         default_backpressure_policy)))) = 3"
  by code_simp

text \<open>A caller that keeps trying: the answers of successive attempts.\<close>

fun permits :: "limiter \<Rightarrow> millis list \<Rightarrow> bool list" where
  "permits l [] = []"
| "permits l (t # ts) = (let (ok, l1) = try_permit t l in ok # permits l1 ts)"

definition buckets_ordered :: "limiter \<Rightarrow> bool" where
  "buckets_ordered l \<longleftrightarrow> sorted (map start (buckets l))"

lemma totals_until_first:
  assumes "sorted (map start bs)" "c \<le> c'"
    "\<And>b. first_in_window c bs = Some b \<Longrightarrow> c' < start b"
  shows "totals_from c' bs = totals_from c bs"
  using assms
proof (induction bs)
  case Nil
  then show ?case by simp
next
  case (Cons b bs)
  show ?case
  proof (cases "start b \<le> c")
    case True
    with Cons show ?thesis by (simp add: split_beta)
  next
    case False
    with Cons.prems have "c' < start b" by auto
    moreover from this Cons.prems have "\<forall>x \<in> set bs. c' < start x" by auto
    moreover have "totals_from c' xs = totals_from c xs" if "\<forall>x \<in> set xs. c' < start x" for xs
      using that Cons.prems(2) by (induction xs) (auto simp: split_beta)
    ultimately show ?thesis using False by (simp add: split_beta)
  qed
qed

lemma refused_later_totals:
  assumes "\<not> fst (try_permit t l)" "t \<le> t'"
  shows "totals t' (snd (try_permit t l)) = totals t' l"
  using totals_try_permit [of t l "t' - window_ms (policy l)"] assms
  by (simp add: totals_def split_beta)

lemma permits_refused:
  assumes "sorted ts"
    and "\<forall>t \<in> set ts. snd (totals t l) + 1 > allowance_for (policy l) (fst (totals t l))"
  shows "permits l ts = replicate (length ts) False"
  using assms
proof (induction ts arbitrary: l)
  case Nil
  then show ?case by simp
next
  case (Cons t ts)
  then have no: "\<not> fst (try_permit t l)" by (simp add: try_permit_decision)
  have "permits (snd (try_permit t l)) ts = replicate (length ts) False"
    using Cons.prems by (intro Cons.IH) (auto simp: refused_later_totals [OF no])
  with no show ?case by (simp add: split_beta Let_def)
qed

text \<open>
  A refusal holds until the instant it names. After a recovery attempt was refused, any
  further attempts made in clock order before the \<open>nextRecoveryAt\<close> the refusal hands back
  are refused as well, when no new initial send intervenes and the buckets are in clock order:
  the instant is a real change point, and waiting until it loses nothing.
\<close>

theorem refusal_holds_until_next_recovery:
  assumes "try_permit now l = (False, l1)" "buckets_ordered l1"
    and "sorted ts" "\<forall>t \<in> set ts. now \<le> t \<and> t < next_recovery_at now l1"
  shows "permits l1 ts = replicate (length ts) False"
proof (rule permits_refused [OF assms(3)], rule ballI)
  fix t assume "t \<in> set ts"
  then have t: "now \<le> t" "t < next_recovery_at now l1" using assms(4) by auto
  let ?c = "now - window_ms (policy l1)"
  have "\<not> fst (try_permit now l)" "policy l1 = policy l" "totals now l1 = totals now l"
    using assms(1) refused_later_totals [of now l now] policy_try_permit [of now l] by auto
  then have over: "snd (totals now l1) + 1 > allowance_for (policy l1) (fst (totals now l1))"
    by (simp add: try_permit_decision)
  have "totals_from (t - window_ms (policy l1)) (buckets l1) = totals_from ?c (buckets l1)"
  proof (rule totals_until_first)
    fix b assume "first_in_window ?c (buckets l1) = Some b"
    with t over show "t - window_ms (policy l1) < start b"
      by (simp add: next_recovery_at_def split_beta split: if_splits)
  qed (use assms(2) t in \<open>auto simp: buckets_ordered_def\<close>)
  with over show "snd (totals t l1) + 1 > allowance_for (policy l1) (fst (totals t l1))"
    by (simp add: totals_def)
qed

definition spent_limiter :: limiter where
  "spent_limiter = snd (try_permit 300 (snd (try_permit 200 (snd (try_permit 100
     (create_limiter default_backpressure_policy))))))"

lemma refusal_holds_until_next_recovery_witness:
  "permits (snd (try_permit 350 spent_limiter)) [400, 9999] = replicate (length [400, 9999 :: millis]) False"
  by (rule refusal_holds_until_next_recovery [where now = 350 and l = spent_limiter]; code_simp)


text \<open>
  A refused retry never tells its caller to try again at once: whatever the limiter's
  state and clock history, under a policy with a positive window the \<open>retryAt\<close> of a
  refusal is strictly in the future, and an admitted send's is the present.
\<close>

theorem classify_retry_at:
  assumes "policy_ok (policy l)"
  shows "let d = fst (classify_dispatch c now l)
         in if admitted d then retry_at d = now else c = RetrySend \<and> now < retry_at d"
proof (cases c)
  case RetrySend
  then show ?thesis
    using window_limiter.refused_waitsD(1) [OF assms, of now]
    by (auto simp: classify_dispatch_def Let_def split: prod.splits)
qed (simp_all add: classify_dispatch_def)

lemma classify_retry_at_witness:
  "let d = fst (classify_dispatch RetrySend 400 spent_limiter)
   in if admitted d then retry_at d = 400 else RetrySend = RetrySend \<and> 400 < retry_at d"
  by (rule classify_retry_at) code_simp

end
