(* ===== verification/Probe_Lease.thy ===== *)
theory Probe_Lease
  imports Prelude
begin

text \<open>
  The half-open probe lease of \<open>src/routing/probe-lease.ts\<close>: for an account that is held
  after failures, at most one trial request is in flight, its result is fenced by a lease id
  and a generation, and the table of remembered accounts is bounded by a sweep. The module
  variables \<open>probeStates\<close> and \<open>probeLeaseSeq\<close> are the record \<open>probe_table\<close>.
\<close>

section \<open>Lease ids\<close>

text \<open>\<open>Number.prototype.toString(36)\<close> on a natural number.\<close>

definition digits36 :: string where
  "digits36 = ''0123456789abcdefghijklmnopqrstuvwxyz''"

fun base36 :: "nat \<Rightarrow> string" where
  "base36 n = (if n < 36 then [digits36 ! n] else base36 (n div 36) @ [digits36 ! (n mod 36)])"

declare base36.simps [simp del]

definition lease_name :: "nat \<Rightarrow> string" where
  "lease_name n = ''tprobe-'' @ base36 n"

definition digit36_value :: "char \<Rightarrow> nat" where
  "digit36_value c = length (takeWhile (\<lambda>d. d \<noteq> c) digits36)"

lemma digit36_value: "n < 36 \<Longrightarrow> digit36_value (digits36 ! n) = n"
proof -
  have "list_all (\<lambda>n. digit36_value (digits36 ! n) = n) [0..<36]"
    by code_simp
  then show "n < 36 \<Longrightarrow> digit36_value (digits36 ! n) = n"
    by (simp add: list_all_iff)
qed

definition value36 :: "string \<Rightarrow> nat" where
  "value36 s = foldl (\<lambda>a c. 36 * a + digit36_value c) 0 s"

lemma value36_base36: "value36 (base36 n) = n"
proof (induction n rule: base36.induct)
  case (1 n)
  show ?case
  proof (cases "n < 36")
    case True
    then show ?thesis
      by (subst base36.simps) (simp add: value36_def digit36_value)
  next
    case False
    with 1 show ?thesis
      by (subst base36.simps) (simp add: value36_def digit36_value)
  qed
qed

lemma lease_name_inject [simp]: "lease_name m = lease_name n \<longleftrightarrow> m = n"
  by (metis append_same_eq lease_name_def same_append_eq value36_base36)


section \<open>State\<close>

definition transient_probe_lease_ms :: millis where
  "transient_probe_lease_ms = 30000"

definition transient_probe_interval_ms :: millis where
  "transient_probe_interval_ms = 15000"

definition probe_state_retention_ms :: millis where
  "probe_state_retention_ms = 60000"

definition max_transient_probe_states :: nat where
  "max_transient_probe_states = 1024"

definition probe_state_sweep_threshold :: nat where
  "probe_state_sweep_threshold = 64"

text \<open>\<open>Math.floor(MAX\_TRANSIENT\_PROBE\_STATES * 0.9)\<close>.\<close>

definition probe_state_eviction_low_water :: nat where
  "probe_state_eviction_low_water = max_transient_probe_states * 9 div 10"

record probe_lease =
  account_id :: string
  lease_id :: string
  lease_generation :: nat
  expires_at :: millis

datatype probe_outcome = Recovered | Failed

datatype probe_settle = Applied | Stale | Expired

record probe_state =
  generation :: nat
  held_lease :: "string option"
  lease_expires_at :: "millis option"
  last_probe_at :: "millis option"
  paced_until :: "millis option"
  last_outcome :: "probe_outcome option"

record probe_table =
  states :: "(string, probe_state) jsmap"
  lease_seq :: nat

definition empty_probe_table :: probe_table where
  "empty_probe_table = \<lparr>states = [], lease_seq = 0\<rparr>"

definition new_probe_state :: probe_state where
  "new_probe_state = \<lparr>generation = 0, held_lease = None, lease_expires_at = None,
     last_probe_at = None, paced_until = None, last_outcome = None\<rparr>"

definition probe_state_for :: "string \<Rightarrow> probe_table \<Rightarrow> probe_state \<times> probe_table" where
  "probe_state_for a tb = (case map_of (states tb) a of
     Some s \<Rightarrow> (s, tb)
   | None \<Rightarrow> (new_probe_state, tb\<lparr>states := AList.update a new_probe_state (states tb)\<rparr>))"

definition live_lease :: "probe_state \<Rightarrow> millis \<Rightarrow> bool" where
  "live_lease s now \<longleftrightarrow> held_lease s \<noteq> None \<and>
     (case lease_expires_at s of None \<Rightarrow> False | Some e \<Rightarrow> e > now)"

definition probe_state_retires_at :: "probe_state \<Rightarrow> millis" where
  "probe_state_retires_at s =
     max (nullish (paced_until s) 0) (nullish (lease_expires_at s) 0) + probe_state_retention_ms"


section \<open>The sweep\<close>

definition drop_retired :: "millis \<Rightarrow> (string, probe_state) jsmap \<Rightarrow> (string, probe_state) jsmap" where
  "drop_retired now m = filter (\<lambda>(a, s). live_lease s now \<or> now < probe_state_retires_at s) m"

definition evictable :: "millis \<Rightarrow> (string, probe_state) jsmap \<Rightarrow> (string, probe_state) jsmap" where
  "evictable now m = sort_key (\<lambda>(a, s). probe_state_retires_at s)
     (filter (\<lambda>(a, s). \<not> live_lease s now) m)"

fun evict_excess ::
    "int \<Rightarrow> (string, probe_state) jsmap \<Rightarrow> (string, probe_state) jsmap \<Rightarrow> (string, probe_state) jsmap" where
  "evict_excess excess [] m = m"
| "evict_excess excess ((a, s) # rest) m =
     (if excess \<le> 0 then m else evict_excess (excess - 1) rest (AList.delete a m))"

definition sweep_states :: "millis \<Rightarrow> (string, probe_state) jsmap \<Rightarrow> (string, probe_state) jsmap" where
  "sweep_states now m =
     (if length m \<le> probe_state_sweep_threshold then m
      else let m1 = drop_retired now m
           in if length m1 \<le> max_transient_probe_states then m1
              else evict_excess (int (length m1) - int probe_state_eviction_low_water)
                     (evictable now m1) m1)"


section \<open>Operations\<close>

definition try_acquire ::
    "string \<Rightarrow> millis \<Rightarrow> millis option \<Rightarrow> millis option \<Rightarrow> probe_table
      \<Rightarrow> probe_lease option \<times> probe_table" where
  "try_acquire a now lease_ms min_interval tb =
     (let (s, tb1) = probe_state_for a tb;
          interval = nullish min_interval transient_probe_interval_ms
      in if live_lease s now then (None, tb1)
         else if (case last_probe_at s of None \<Rightarrow> False | Some l \<Rightarrow> now - l < interval)
         then (None, tb1)
         else
           let seq = lease_seq tb1 + 1;
               name = lease_name seq;
               expires = now + max 1 (nullish lease_ms transient_probe_lease_ms);
               s1 = s\<lparr>generation := generation s + 1, held_lease := Some name,
                      lease_expires_at := Some expires, last_probe_at := Some now,
                      paced_until := Some (now + max 0 interval)\<rparr>
           in (Some \<lparr>account_id = a, lease_id = name, lease_generation = generation s1,
                     expires_at = expires\<rparr>,
               \<lparr>states = sweep_states now (AList.update a s1 (states tb1)), lease_seq = seq\<rparr>))"

definition can_acquire :: "string \<Rightarrow> millis \<Rightarrow> millis option \<Rightarrow> probe_table \<Rightarrow> bool" where
  "can_acquire a now min_interval tb = (case map_of (states tb) a of
     None \<Rightarrow> True
   | Some s \<Rightarrow> \<not> live_lease s now \<and>
       (case last_probe_at s of None \<Rightarrow> True
        | Some l \<Rightarrow> now - l \<ge> nullish min_interval transient_probe_interval_ms))"

definition holds :: "probe_lease \<Rightarrow> probe_state \<Rightarrow> bool" where
  "holds l s \<longleftrightarrow> held_lease s = Some (lease_id l) \<and> generation s = lease_generation l"

definition settle_probe ::
    "probe_lease \<Rightarrow> probe_outcome \<Rightarrow> millis \<Rightarrow> probe_table \<Rightarrow> probe_settle \<times> probe_table" where
  "settle_probe l out now tb = (case map_of (states tb) (account_id l) of
     None \<Rightarrow> (Stale, tb)
   | Some s \<Rightarrow>
       if \<not> holds l s then (Stale, tb)
       else if now \<ge> expires_at l then (Expired, tb)
       else (Applied, tb\<lparr>states := AList.update (account_id l)
               (s\<lparr>held_lease := None, lease_expires_at := None, last_outcome := Some out\<rparr>)
               (states tb)\<rparr>))"

definition release_probe :: "probe_lease \<Rightarrow> probe_table \<Rightarrow> probe_table" where
  "release_probe l tb = (case map_of (states tb) (account_id l) of
     None \<Rightarrow> tb
   | Some s \<Rightarrow>
       if \<not> holds l s then tb
       else tb\<lparr>states := AList.update (account_id l)
              (s\<lparr>held_lease := None, lease_expires_at := None\<rparr>) (states tb)\<rparr>)"

definition invalidate_probe :: "string \<Rightarrow> probe_table \<Rightarrow> probe_table" where
  "invalidate_probe a tb = (case map_of (states tb) a of
     None \<Rightarrow> tb
   | Some s \<Rightarrow> tb\<lparr>states := AList.update a
       (s\<lparr>generation := generation s + 1, held_lease := None, lease_expires_at := None\<rparr>)
       (states tb)\<rparr>)"

record probe_diagnostics =
  diag_held :: bool
  diag_generation :: nat
  diag_lease :: "(string \<times> millis option) option"
  diag_last_probe_at :: "millis option"
  diag_last_outcome :: "probe_outcome option"

definition probe_diagnostics :: "string \<Rightarrow> millis \<Rightarrow> probe_table \<Rightarrow> probe_diagnostics" where
  "probe_diagnostics a now tb = (case map_of (states tb) a of
     None \<Rightarrow> \<lparr>diag_held = False, diag_generation = 0, diag_lease = None,
             diag_last_probe_at = None, diag_last_outcome = None\<rparr>
   | Some s \<Rightarrow> \<lparr>diag_held = live_lease s now, diag_generation = generation s,
        diag_lease = (case held_lease s of None \<Rightarrow> None | Some n \<Rightarrow> Some (n, lease_expires_at s)),
        diag_last_probe_at = last_probe_at s, diag_last_outcome = last_outcome s\<rparr>)"

text \<open>\<open>probeStates.clear()\<close>; the sequence number is never reset.\<close>

definition clear_probes :: "probe_table \<Rightarrow> probe_table" where
  "clear_probes tb = tb\<lparr>states := []\<rparr>"

definition probe_state_count :: "probe_table \<Rightarrow> nat" where
  "probe_state_count tb = length (states tb)"

text \<open>\<open>nextProbeAt\<close>.\<close>

definition next_probe_at :: "string \<Rightarrow> millis \<Rightarrow> millis option \<Rightarrow> probe_table \<Rightarrow> millis" where
  "next_probe_at a now min_interval tb = (case map_of (states tb) a of
     None \<Rightarrow> now
   | Some s \<Rightarrow>
       max (case last_probe_at s of None \<Rightarrow> now
            | Some l \<Rightarrow> l + nullish min_interval transient_probe_interval_ms)
           (if live_lease s now then nullish (lease_expires_at s) now else now))"


section \<open>What the sweep keeps\<close>

lemma evict_excess_filter:
  "evict_excess e es m = filter (\<lambda>p. fst p \<notin> fst ` set (take (nat e) es)) m"
proof (induction e es m rule: evict_excess.induct)
  case (1 e m)
  then show ?case by simp
next
  case (2 e a s rest m)
  show ?case
  proof (cases "e \<le> 0")
    case False
    then have "nat e = Suc (nat (e - 1))" by simp
    with False 2 show ?thesis
      by (auto simp: AList.delete_eq filter_filter intro!: filter_cong)
  qed simp
qed

lemma jm_wf_evict_excess [simp, intro]: "jm_wf m \<Longrightarrow> jm_wf (evict_excess e es m)"
  by (simp add: evict_excess_filter)

lemma length_evict_excess:
  assumes "jm_wf m" "jm_wf es" "set es \<subseteq> set m"
  shows "length (evict_excess e es m) = length m - min (nat e) (length es)"
proof -
  let ?ks = "fst ` set (take (nat e) es)"
  have "distinct (map fst (take (nat e) es))"
    using assms(2) by (metis distinct_take take_map)
  then have k: "card ?ks = min (nat e) (length es)"
    by (metis distinct_card length_map length_take list.set_map min.commute)
  have sub: "?ks \<subseteq> fst ` set m"
    using assms(3) by (meson image_mono in_set_takeD subset_code(1) subset_trans)
  have "length (evict_excess e es m) = card (fst ` set m - ?ks)"
  proof -
    have "fst ` set (evict_excess e es m) = fst ` set m - ?ks"
      by (force simp: evict_excess_filter)
    then show ?thesis
      using jm_wf_evict_excess [OF assms(1), of e es]
      by (metis distinct_card length_map list.set_map)
  qed
  also have "\<dots> = card (fst ` set m) - card ?ks"
    using sub by (simp add: card_Diff_subset finite_subset)
  also have "card (fst ` set m) = length m"
    using assms(1) by (metis distinct_card length_map list.set_map)
  finally show ?thesis by (simp only: k)
qed

lemma jm_wf_evictable: "jm_wf m \<Longrightarrow> jm_wf (evictable now m)"
proof -
  assume "jm_wf m"
  then have "distinct m" "inj_on fst (set m)" by (auto simp: distinct_map)
  then show ?thesis
    by (auto simp: evictable_def distinct_map intro: inj_on_subset)
qed

lemma jm_wf_sweep_states [simp, intro]: "jm_wf m \<Longrightarrow> jm_wf (sweep_states now m)"
  by (simp add: sweep_states_def Let_def drop_retired_def)

lemma sweep_states_subset: "set (sweep_states now m) \<subseteq> set m"
  by (auto simp: sweep_states_def Let_def drop_retired_def evict_excess_filter)

lemma sweep_states_some:
  "jm_wf m \<Longrightarrow> map_of (sweep_states now m) a = Some s \<Longrightarrow> map_of m a = Some s"
  using sweep_states_subset [of now m] by (meson map_of_SomeD map_of_is_SomeI subsetD)

lemma sweep_states_live:
  assumes "jm_wf m" "map_of m a = Some s" "live_lease s now"
  shows "map_of (sweep_states now m) a = Some s"
proof -
  have mem: "(a, s) \<in> set m" using assms(2) by (rule map_of_SomeD)
  have no: "a \<notin> fst ` set (take k (evictable now (drop_retired now m)))" for k
  proof
    assume "a \<in> fst ` set (take k (evictable now (drop_retired now m)))"
    then obtain s' where "(a, s') \<in> set (evictable now (drop_retired now m))"
      by (force dest: in_set_takeD)
    then have "(a, s') \<in> set m" "\<not> live_lease s' now"
      by (auto simp: evictable_def drop_retired_def)
    with map_of_is_SomeI [OF assms(1)] assms(2,3) show False by fastforce
  qed
  have "(a, s) \<in> set (sweep_states now m)"
  proof -
    have "(a, s) \<in> set (drop_retired now m)"
      using mem assms(3) by (simp add: drop_retired_def)
    then show ?thesis
      using mem no by (simp add: sweep_states_def Let_def evict_excess_filter)
  qed
  then show ?thesis using assms(1) by (simp add: map_of_is_SomeI)
qed

definition live_count :: "millis \<Rightarrow> (string, probe_state) jsmap \<Rightarrow> nat" where
  "live_count now m = length (filter (\<lambda>(a, s). live_lease s now) m)"

lemma live_count_drop_retired: "live_count now (drop_retired now m) = live_count now m"
  by (induction m) (auto simp: live_count_def drop_retired_def)

lemma length_sweep_states:
  assumes "jm_wf m"
  shows "length (sweep_states now m) \<le> max max_transient_probe_states (live_count now m)"
proof (cases "length m \<le> probe_state_sweep_threshold \<or> length (drop_retired now m) \<le> max_transient_probe_states")
  case True
  then show ?thesis
    by (auto simp: sweep_states_def Let_def probe_state_sweep_threshold_def
        max_transient_probe_states_def)
next
  case False
  let ?m = "drop_retired now m"
  have wf: "jm_wf ?m" using assms by (simp add: drop_retired_def)
  have "length (evictable now ?m) + live_count now ?m = length ?m"
    using length_filter_split [of "\<lambda>(a, s). live_lease s now" ?m]
    by (simp add: evictable_def live_count_def case_prod_unfold)
  moreover have "length (sweep_states now m) =
      length ?m - min (nat (int (length ?m) - int probe_state_eviction_low_water))
        (length (evictable now ?m))"
  proof -
    have "set (evictable now ?m) \<subseteq> set ?m" by (auto simp: evictable_def)
    from length_evict_excess [OF wf jm_wf_evictable [OF wf] this] False show ?thesis
      by (simp add: sweep_states_def Let_def)
  qed
  ultimately show ?thesis
    using False
    by (auto simp: live_count_drop_retired max_transient_probe_states_def
        probe_state_eviction_low_water_def)
qed


lemma live_count_sweep:
  assumes "jm_wf m"
  shows "live_count now (sweep_states now m) = live_count now m"
proof -
  have "(a, s) \<in> set (sweep_states now m)" if "(a, s) \<in> set m" "live_lease s now" for a s
    using sweep_states_live [OF assms map_of_is_SomeI [OF assms that(1)] that(2)]
    by (rule map_of_SomeD)
  then have "set (filter (\<lambda>(a, s). live_lease s now) (sweep_states now m))
      = set (filter (\<lambda>(a, s). live_lease s now) m)"
    using sweep_states_subset [of now m] by auto
  moreover have "distinct m" "distinct (sweep_states now m)"
    using assms jm_wf_sweep_states [OF assms] by (auto simp: distinct_map)
  ultimately show ?thesis
    unfolding live_count_def by (metis distinct_card distinct_filter)
qed


section \<open>Runs\<close>

text \<open>
  A run applies the module's operations in any order and at any instants; it remembers the
  leases it handed out, which the code's callers hold.
\<close>

datatype probe_event =
    Acquire string millis "millis option" "millis option"
  | Settle probe_lease probe_outcome millis
  | Release probe_lease
  | Invalidate string
  | ClearAll

record probe_run =
  table :: probe_table
  issued :: "probe_lease list"

fun probe_step :: "probe_event \<Rightarrow> probe_run \<Rightarrow> probe_run" where
  "probe_step (Acquire a now lm mi) r =
     (let (l, tb) = try_acquire a now lm mi (table r)
      in \<lparr>table = tb, issued = (case l of None \<Rightarrow> issued r | Some x \<Rightarrow> x # issued r)\<rparr>)"
| "probe_step (Settle l out now) r = r\<lparr>table := snd (settle_probe l out now (table r))\<rparr>"
| "probe_step (Release l) r = r\<lparr>table := release_probe l (table r)\<rparr>"
| "probe_step (Invalidate a) r = r\<lparr>table := invalidate_probe a (table r)\<rparr>"
| "probe_step ClearAll r = r\<lparr>table := clear_probes (table r)\<rparr>"

inductive reachable_probe :: "probe_run \<Rightarrow> bool" where
  start: "reachable_probe \<lparr>table = empty_probe_table, issued = []\<rparr>"
| step: "reachable_probe r \<Longrightarrow> reachable_probe (probe_step e r)"

lemma reachable_probe_fold: "reachable_probe r \<Longrightarrow> reachable_probe (fold probe_step es r)"
  by (induction es arbitrary: r) (auto intro: reachable_probe.step)

text \<open>What a grant does, and when it happens.\<close>

lemma try_acquire_iff: "fst (try_acquire a now lm mi tb) = None \<longleftrightarrow> \<not> can_acquire a now mi tb"
  by (auto simp: try_acquire_def can_acquire_def probe_state_for_def Let_def split_beta
      live_lease_def new_probe_state_def split: option.splits)

definition granted_state ::
    "string \<Rightarrow> millis \<Rightarrow> millis option \<Rightarrow> millis option \<Rightarrow> probe_table \<Rightarrow> probe_state" where
  "granted_state a now lm mi tb =
     (fst (probe_state_for a tb))\<lparr>generation := generation (fst (probe_state_for a tb)) + 1,
       held_lease := Some (lease_name (lease_seq tb + 1)),
       lease_expires_at := Some (now + max 1 (nullish lm transient_probe_lease_ms)),
       last_probe_at := Some now,
       paced_until := Some (now + max 0 (nullish mi transient_probe_interval_ms))\<rparr>"

lemma granted_state_simps [simp]:
  "held_lease (granted_state a now lm mi tb) = Some (lease_name (lease_seq tb + 1))"
  "lease_expires_at (granted_state a now lm mi tb) =
     Some (now + max 1 (nullish lm transient_probe_lease_ms))"
  "last_probe_at (granted_state a now lm mi tb) = Some now"
  "paced_until (granted_state a now lm mi tb) =
     Some (now + max 0 (nullish mi transient_probe_interval_ms))"
  "live_lease (granted_state a now lm mi tb) now"
  by (auto simp: granted_state_def live_lease_def)

lemma update_twice: "AList.update k v (AList.update k w m) = AList.update k v m"
  by (induction m) auto

lemma try_acquire_granted:
  assumes "can_acquire a now mi tb"
  shows "try_acquire a now lm mi tb =
    (Some \<lparr>account_id = a, lease_id = lease_name (lease_seq tb + 1),
           lease_generation = generation (granted_state a now lm mi tb),
           expires_at = now + max 1 (nullish lm transient_probe_lease_ms)\<rparr>,
     \<lparr>states = sweep_states now (AList.update a (granted_state a now lm mi tb) (states tb)),
      lease_seq = lease_seq tb + 1\<rparr>)"
  using assms
  by (auto simp: try_acquire_def can_acquire_def probe_state_for_def Let_def split_beta
      granted_state_def live_lease_def new_probe_state_def update_twice split: option.splits)

lemma try_acquire_refused:
  assumes "\<not> can_acquire a now mi tb"
  shows "try_acquire a now lm mi tb = (None, tb)"
  using assms
  by (auto simp: try_acquire_def can_acquire_def probe_state_for_def Let_def split_beta
      split: option.splits)

lemma try_acquire_cases:
  obtains (refused) "\<not> can_acquire a now mi tb" "try_acquire a now lm mi tb = (None, tb)"
  | (granted) "can_acquire a now mi tb"
      "fst (try_acquire a now lm mi tb) = Some \<lparr>account_id = a,
         lease_id = lease_name (lease_seq tb + 1),
         lease_generation = generation (granted_state a now lm mi tb),
         expires_at = now + max 1 (nullish lm transient_probe_lease_ms)\<rparr>"
      "snd (try_acquire a now lm mi tb) =
        \<lparr>states = sweep_states now (AList.update a (granted_state a now lm mi tb) (states tb)),
         lease_seq = lease_seq tb + 1\<rparr>"
  using try_acquire_granted try_acquire_refused by (metis fst_conv snd_conv)


section \<open>The invariant of the table\<close>

definition issued_id :: "probe_table \<Rightarrow> string \<Rightarrow> bool" where
  "issued_id tb n \<longleftrightarrow> (\<exists>k \<le> lease_seq tb. n = lease_name k)"

definition table_ok :: "probe_table \<Rightarrow> bool" where
  "table_ok tb \<longleftrightarrow> jm_wf (states tb)
     \<and> (\<forall>a s. map_of (states tb) a = Some s \<longrightarrow>
          (\<forall>n. held_lease s = Some n \<longrightarrow> issued_id tb n)
          \<and> (\<forall>l. last_probe_at s = Some l \<longrightarrow> (\<exists>p. paced_until s = Some p \<and> l \<le> p)))"

lemma table_ok_wf: "table_ok tb \<Longrightarrow> jm_wf (states tb)"
  by (simp add: table_ok_def)

lemma table_ok_empty: "table_ok empty_probe_table"
  by (simp add: table_ok_def empty_probe_table_def)

lemma issued_id_fresh: "issued_id tb n \<Longrightarrow> n \<noteq> lease_name (lease_seq tb + 1)"
  by (auto simp: issued_id_def)

lemma table_ok_acquire:
  assumes "table_ok tb"
  shows "table_ok (snd (try_acquire a now lm mi tb))"
proof (cases rule: try_acquire_cases [of a now mi tb lm])
  case refused
  then show ?thesis using assms by simp
next
  case granted
  have wf: "jm_wf (AList.update a (granted_state a now lm mi tb) (states tb))"
    using assms by (auto simp: table_ok_def)
  show ?thesis
    using assms
    by (auto simp: granted(3) table_ok_def issued_id_def le_Suc_eq split: if_splits
        dest!: sweep_states_some [OF wf]; blast)
qed

lemma table_ok_settle: "table_ok tb \<Longrightarrow> table_ok (snd (settle_probe l out now tb))"
  by (auto simp: settle_probe_def table_ok_def issued_id_def split: option.splits)

lemma table_ok_release: "table_ok tb \<Longrightarrow> table_ok (release_probe l tb)"
  by (auto simp: release_probe_def table_ok_def issued_id_def split: option.splits)

lemma table_ok_invalidate: "table_ok tb \<Longrightarrow> table_ok (invalidate_probe a tb)"
  by (auto simp: invalidate_probe_def table_ok_def issued_id_def split: option.splits)

lemma table_ok_clear: "table_ok tb \<Longrightarrow> table_ok (clear_probes tb)"
  by (auto simp: clear_probes_def table_ok_def)

lemmas table_ok_ops = table_ok_acquire table_ok_settle table_ok_release table_ok_invalidate
  table_ok_clear

lemma table_ok_step: "table_ok (table r) \<Longrightarrow> table_ok (table (probe_step e r))"
  by (cases e) (auto simp: Let_def split_beta intro: table_ok_ops)

lemma lease_seq_settle [simp]: "lease_seq (snd (settle_probe l out now tb)) = lease_seq tb"
  by (auto simp: settle_probe_def split: option.splits)

lemma lease_seq_release [simp]: "lease_seq (release_probe l tb) = lease_seq tb"
  by (auto simp: release_probe_def split: option.splits)

lemma lease_seq_invalidate [simp]: "lease_seq (invalidate_probe a tb) = lease_seq tb"
  by (auto simp: invalidate_probe_def split: option.splits)

lemma lease_seq_clear [simp]: "lease_seq (clear_probes tb) = lease_seq tb"
  by (auto simp: clear_probes_def)

lemma lease_seq_acquire: "lease_seq tb \<le> lease_seq (snd (try_acquire a now lm mi tb))"
  by (cases rule: try_acquire_cases [of a now mi tb lm]) auto

lemma issued_id_mono: "issued_id tb n \<Longrightarrow> lease_seq tb \<le> lease_seq tb' \<Longrightarrow> issued_id tb' n"
  unfolding issued_id_def using order.trans by blast

lemma lease_seq_step: "lease_seq (table r) \<le> lease_seq (table (probe_step e r))"
  by (cases e) (auto simp: Let_def split_beta intro: lease_seq_acquire)

text \<open>Every issued lease bears an issued id, and no two bear the same.\<close>

definition run_ok :: "probe_run \<Rightarrow> bool" where
  "run_ok r \<longleftrightarrow> table_ok (table r)
     \<and> (\<forall>l \<in> set (issued r). issued_id (table r) (lease_id l))
     \<and> distinct (map lease_id (issued r))"

lemma run_ok_step:
  assumes "run_ok r"
  shows "run_ok (probe_step e r)"
proof -
  have old: "\<forall>l \<in> set (issued r). issued_id (table (probe_step e r)) (lease_id l)"
    using assms lease_seq_step [of r e] by (auto simp: run_ok_def intro: issued_id_mono)
  show ?thesis
  proof (cases e)
    case (Acquire a now lm mi)
    show ?thesis
    proof (cases rule: try_acquire_cases [of a now mi "table r" lm])
      case refused
      with Acquire assms show ?thesis by (simp add: run_ok_def)
    next
      case granted
      have "lease_name (lease_seq (table r) + 1) \<notin> lease_id ` set (issued r)"
        using assms issued_id_fresh by (fastforce simp: run_ok_def)
      with Acquire granted old assms table_ok_step [of r e] show ?thesis
        by (auto simp: run_ok_def Let_def split_beta issued_id_def)
    qed
  qed (use assms old table_ok_step [of r e] in \<open>auto simp: run_ok_def\<close>)
qed

lemma reachable_run_ok: "reachable_probe r \<Longrightarrow> run_ok r"
proof (induction rule: reachable_probe.induct)
  case start
  then show ?case by (simp add: run_ok_def table_ok_empty)
next
  case (step r e)
  then show ?case by (blast intro: run_ok_step)
qed


section \<open>A lost lease stays lost\<close>

definition lost :: "probe_lease \<Rightarrow> probe_table \<Rightarrow> bool" where
  "lost l tb \<longleftrightarrow> (case map_of (states tb) (account_id l) of None \<Rightarrow> True | Some s \<Rightarrow> \<not> holds l s)"

lemma settle_stale_iff: "fst (settle_probe l out now tb) = Stale \<longleftrightarrow> lost l tb"
  by (auto simp: settle_probe_def lost_def split: option.splits)

lemma lost_acquire:
  assumes "table_ok tb" "issued_id tb (lease_id l)" "lost l tb"
  shows "lost l (snd (try_acquire a now lm mi tb))"
proof (cases rule: try_acquire_cases [of a now mi tb lm])
  case refused
  then show ?thesis using assms by simp
next
  case granted
  have wf: "jm_wf (AList.update a (granted_state a now lm mi tb) (states tb))"
    using assms by (auto simp: table_ok_def)
  have "\<not> holds l (granted_state a now lm mi tb)"
    using issued_id_fresh [OF assms(2)] by (auto simp: holds_def)
  with assms(3) show ?thesis
    by (auto simp: granted(3) lost_def split: option.splits if_splits
        dest!: sweep_states_some [OF wf])
qed

lemma lost_step:
  assumes "table_ok (table r)" "issued_id (table r) (lease_id l)" "lost l (table r)"
  shows "lost l (table (probe_step e r))"
proof (cases e)
  case (Acquire a now lm mi)
  then show ?thesis using lost_acquire [OF assms] by (simp add: Let_def split_beta)
qed (use assms(3) in \<open>auto simp: lost_def settle_probe_def release_probe_def
      invalidate_probe_def clear_probes_def holds_def split: option.splits\<close>)

lemma lost_fold:
  assumes "table_ok (table r)" "issued_id (table r) (lease_id l)" "lost l (table r)"
  shows "lost l (table (fold probe_step es r))"
  using assms
proof (induction es arbitrary: r)
  case (Cons e es)
  then show ?case
    using issued_id_mono [OF Cons.prems(2) lease_seq_step [of r e]]
    by (auto intro!: Cons.IH table_ok_step lost_step)
qed simp



section \<open>Properties\<close>

text \<open>
  C1. One holder: in every state a run can reach, at most one of the leases issued for an
  account can still be settled with effect, whatever the instants the two are asked at.
\<close>

theorem one_holder_per_account:
  assumes "reachable_probe r" "l \<in> set (issued r)" "l' \<in> set (issued r)"
    and "account_id l = account_id l'"
    and "fst (settle_probe l out now (table r)) = Applied"
    and "fst (settle_probe l' out' now' (table r)) = Applied"
  shows "l = l'"
proof -
  have "lease_id l = lease_id l'"
    using assms(4-6) by (auto simp: settle_probe_def holds_def split: option.splits if_splits)
  moreover have "inj_on lease_id (set (issued r))"
    using reachable_run_ok [OF assms(1)] by (auto simp: run_ok_def distinct_map)
  ultimately show ?thesis using assms(2,3) by (auto dest: inj_onD)
qed

definition two_account_run :: probe_run where
  "two_account_run = fold probe_step [Acquire ''a'' 0 None None, Acquire ''b'' 10 None None,
     Acquire ''a'' 40000 None None] \<lparr>table = empty_probe_table, issued = []\<rparr>"

definition newest_lease :: probe_lease where
  "newest_lease = \<lparr>account_id = ''a'', lease_id = ''tprobe-3'', lease_generation = 2,
     expires_at = 70000\<rparr>"

lemma reachable_two_account_run: "reachable_probe two_account_run"
  unfolding two_account_run_def by (rule reachable_probe_fold) (rule reachable_probe.start)

lemma one_holder_per_account_witness: "newest_lease = newest_lease"
  by (rule one_holder_per_account [OF reachable_two_account_run,
        where out = Failed and now = 50000 and out' = Recovered and now' = 60000];
      code_simp)

fun fences :: "probe_event \<Rightarrow> probe_lease \<Rightarrow> probe_run \<Rightarrow> bool" where
  "fences (Acquire a now lm mi) l r \<longleftrightarrow>
     a = account_id l \<and> fst (try_acquire a now lm mi (table r)) \<noteq> None"
| "fences (Settle l' out now) l r \<longleftrightarrow>
     l' = l \<and> fst (settle_probe l' out now (table r)) = Applied"
| "fences (Release l') l r \<longleftrightarrow> l' = l"
| "fences (Invalidate a) l r \<longleftrightarrow> a = account_id l"
| "fences ClearAll l r \<longleftrightarrow> True"

lemma fences_lost:
  assumes "run_ok r" "l \<in> set (issued r)" "fences e l r"
  shows "lost l (table (probe_step e r))"
proof (cases e)
  case (Acquire a now lm mi)
  let ?g = "granted_state a now lm mi (table r)"
  have "can_acquire a now mi (table r)"
    using assms(3) Acquire by (auto simp: try_acquire_iff)
  moreover have "lease_id l \<noteq> lease_name (lease_seq (table r) + 1)"
    using assms(1,2) issued_id_fresh unfolding run_ok_def by blast
  then have "\<not> holds l ?g" by (auto simp: holds_def)
  moreover have "jm_wf (AList.update a ?g (states (table r)))"
    using assms(1) by (auto simp: run_ok_def table_ok_def)
  ultimately show ?thesis
    using Acquire assms(3)
    by (auto simp: try_acquire_granted lost_def split: option.splits dest!: sweep_states_some)
qed (use assms(3) in \<open>auto simp: lost_def settle_probe_def release_probe_def
      invalidate_probe_def clear_probes_def holds_def split: option.splits if_splits\<close>)

text \<open>
  The fence. Each of the following makes a lease lost: its own applied settle, its
  release, a newer grant for its account, an invalidation of its account, and the reset of
  the table. From then on, whatever operations follow, settling it answers
  \<open>stale\<close> and leaves the table as it is.
\<close>

theorem fenced_lease_stays_stale:
  fixes es :: "probe_event list"
  assumes "reachable_probe r" "l \<in> set (issued r)" "fences e l r"
  defines "tb \<equiv> table (fold probe_step es (probe_step e r))"
  shows "settle_probe l out now tb = (Stale, tb)"
proof -
  have ok: "run_ok r" using assms(1) by (rule reachable_run_ok)
  then have "issued_id (table (probe_step e r)) (lease_id l)"
    using assms(2) lease_seq_step [of r e] by (auto simp: run_ok_def intro: issued_id_mono)
  moreover have "table_ok (table (probe_step e r))"
    using ok by (simp add: run_ok_def table_ok_step)
  ultimately have "lost l tb"
    unfolding tb_def using fences_lost [OF ok assms(2,3)] by (intro lost_fold)
  then show ?thesis by (auto simp: lost_def settle_probe_def split: option.splits)
qed

lemma fenced_lease_stays_stale_witness:
  "settle_probe newest_lease Recovered 60000
      (table (fold probe_step [Acquire ''a'' 80000 None None]
         (probe_step (Invalidate ''a'') two_account_run)))
   = (Stale, table (fold probe_step [Acquire ''a'' 80000 None None]
         (probe_step (Invalidate ''a'') two_account_run)))"
  by (rule fenced_lease_stays_stale [OF reachable_two_account_run]; code_simp)

fun leaves_alone :: "probe_lease \<Rightarrow> probe_event \<Rightarrow> bool" where
  "leaves_alone l (Acquire a now lm mi) \<longleftrightarrow> now < expires_at l"
| "leaves_alone l (Settle l' out now) \<longleftrightarrow> lease_id l' \<noteq> lease_id l"
| "leaves_alone l (Release l') \<longleftrightarrow> lease_id l' \<noteq> lease_id l"
| "leaves_alone l (Invalidate a) \<longleftrightarrow> a \<noteq> account_id l"
| "leaves_alone l ClearAll \<longleftrightarrow> False"

definition held_by :: "probe_lease \<Rightarrow> probe_table \<Rightarrow> bool" where
  "held_by l tb \<longleftrightarrow> (case map_of (states tb) (account_id l) of None \<Rightarrow> False
     | Some s \<Rightarrow> holds l s \<and> lease_expires_at s = Some (expires_at l))"

lemma held_by_refuses:
  "held_by l tb \<Longrightarrow> now < expires_at l \<Longrightarrow> \<not> can_acquire (account_id l) now mi tb"
  by (auto simp: held_by_def can_acquire_def live_lease_def holds_def split: option.splits)

lemma held_by_acquire:
  assumes "table_ok tb" "held_by l tb" "now < expires_at l"
  shows "held_by l (snd (try_acquire a now lm mi tb))"
proof (cases rule: try_acquire_cases [of a now mi tb lm])
  case refused
  then show ?thesis using assms by simp
next
  case granted
  with assms have a: "a \<noteq> account_id l" by (auto dest: held_by_refuses)
  from assms obtain s where s: "map_of (states tb) (account_id l) = Some s"
    "holds l s" "lease_expires_at s = Some (expires_at l)"
    by (auto simp: held_by_def split: option.splits)
  have "map_of (sweep_states now (AList.update a (granted_state a now lm mi tb) (states tb)))
      (account_id l) = Some s"
    using assms s a by (intro sweep_states_live) (auto simp: table_ok_def live_lease_def holds_def)
  with s granted(3) show ?thesis by (simp add: held_by_def)
qed

lemma held_by_step:
  assumes "table_ok (table r)" "held_by l (table r)" "leaves_alone l e"
  shows "held_by l (table (probe_step e r))"
proof (cases e)
  case (Acquire a now lm mi)
  with held_by_acquire [OF assms(1,2)] assms(3) show ?thesis
    by (simp add: Let_def split_beta)
qed (use assms(2,3) in \<open>auto simp: held_by_def settle_probe_def release_probe_def
      invalidate_probe_def holds_def split: option.splits\<close>)

lemma held_by_fold:
  assumes "table_ok (table r)" "held_by l (table r)" "list_all (leaves_alone l) es"
  shows "held_by l (table (fold probe_step es r))"
  using assms by (induction es arbitrary: r) (auto intro!: held_by_step table_ok_step)

lemma held_by_granted:
  assumes "table_ok tb" "try_acquire a t lm mi tb = (Some l, tb')"
  shows "held_by l tb'" "account_id l = a"
proof -
  have can: "can_acquire a t mi tb" using assms(2) try_acquire_iff [of a t lm mi tb] by simp
  note g = try_acquire_granted [OF can, of lm]
  from g assms(2) show a: "account_id l = a" by auto
  have "map_of (sweep_states t (AList.update a (granted_state a t lm mi tb) (states tb))) a
      = Some (granted_state a t lm mi tb)"
    using assms(1) by (intro sweep_states_live) (auto simp: table_ok_def)
  with g assms(2) a show "held_by l tb'" by (auto simp: held_by_def holds_def)
qed

text \<open>
  C2. The holder keeps its lease. Once granted, a lease survives every sweep and every other
  account's traffic until its deadline: while nobody settles, releases, invalidates or resets
  it, every further attempt on the account before the deadline is refused, and the holder's
  own settle before the deadline is applied.
\<close>

theorem holder_keeps_lease:
  assumes "reachable_probe r" "fst (try_acquire a t lm mi (table r)) = Some l"
    and "list_all (leaves_alone l) es" "now < expires_at l"
  defines "tb \<equiv> table (fold probe_step es (probe_step (Acquire a t lm mi) r))"
  shows "fst (try_acquire a now lm' mi' tb) = None \<and> fst (settle_probe l out now tb) = Applied"
proof -
  let ?r = "probe_step (Acquire a t lm mi) r"
  have ok: "table_ok (table r)" using reachable_run_ok [OF assms(1)] by (simp add: run_ok_def)
  obtain tb' where "try_acquire a t lm mi (table r) = (Some l, tb')"
    using assms(2) by (metis prod.collapse)
  with held_by_granted [OF ok this] have "held_by l (table ?r)" "account_id l = a" by simp_all
  then have "held_by l tb"
    unfolding tb_def using ok assms(3) by (auto intro!: held_by_fold table_ok_step simp del: probe_step.simps)
  with \<open>account_id l = a\<close> assms(4) held_by_refuses [of l tb now mi'] show ?thesis
    by (auto simp: try_acquire_refused held_by_def settle_probe_def split: option.splits)
qed

lemma holder_keeps_lease_witness:
  "fst (try_acquire ''a'' 69999 None None (table (fold probe_step
        [Acquire ''a'' 60000 None None, Acquire ''c'' 60001 None None, Invalidate ''b'']
        (probe_step (Acquire ''a'' 40000 None None)
           \<lparr>table = empty_probe_table, issued = []\<rparr>)))) = None
   \<and> fst (settle_probe \<lparr>account_id = ''a'', lease_id = ''tprobe-1'', lease_generation = 1,
        expires_at = 70000\<rparr> Recovered 69999 (table (fold probe_step
        [Acquire ''a'' 60000 None None, Acquire ''c'' 60001 None None, Invalidate ''b'']
        (probe_step (Acquire ''a'' 40000 None None)
           \<lparr>table = empty_probe_table, issued = []\<rparr>)))) = Applied"
  by (rule holder_keeps_lease [OF reachable_probe.start]; code_simp)

text \<open>
  The table is bounded: right after any grant, the remembered accounts are at most the
  ceiling, or as many as hold a live lease at that instant if those are more.
\<close>

theorem probe_table_bounded:
  assumes "reachable_probe r" "fst (try_acquire a now lm mi (table r)) \<noteq> None"
  defines "tb \<equiv> table (probe_step (Acquire a now lm mi) r)"
  shows "probe_state_count tb \<le> max max_transient_probe_states (live_count now (states tb))"
proof -
  let ?m = "AList.update a (granted_state a now lm mi (table r)) (states (table r))"
  have wf: "jm_wf ?m" using reachable_run_ok [OF assms(1)] by (auto simp: run_ok_def table_ok_def)
  have tb: "states tb = sweep_states now ?m"
    using assms(2) by (simp add: tb_def try_acquire_iff try_acquire_granted)
  show ?thesis
    using length_sweep_states [OF wf, of now] tb live_count_sweep [OF wf, of now]
    by (simp add: probe_state_count_def)
qed


lemma probe_table_bounded_witness:
  "probe_state_count (table (probe_step (Acquire ''z'' 90000 None None) two_account_run))
   \<le> max max_transient_probe_states
       (live_count 90000 (states (table (probe_step (Acquire ''z'' 90000 None None) two_account_run))))"
  by (rule probe_table_bounded [OF reachable_two_account_run]; code_simp)

definition interval_covered :: "millis option \<Rightarrow> string \<Rightarrow> probe_table \<Rightarrow> bool" where
  "interval_covered mi a tb \<longleftrightarrow> (case map_of (states tb) a of None \<Rightarrow> True
     | Some s \<Rightarrow> (case (last_probe_at s, paced_until s) of
         (Some l, Some p) \<Rightarrow> l + nullish mi transient_probe_interval_ms \<le> p + probe_state_retention_ms
       | _ \<Rightarrow> True))"

text \<open>
  Forgetting retired accounts changes no decision. When the sweep has no ceiling to
  enforce, every eligibility question asked at or after it, for any account and any interval
  up to the granted one plus the retention grace, is answered as if nothing had been dropped.
\<close>

theorem sweep_transparent:
  assumes "reachable_probe r" "length (drop_retired now (states (table r))) \<le> max_transient_probe_states"
    and "now \<le> t" "interval_covered mi a (table r)"
  shows "can_acquire a t mi ((table r)\<lparr>states := sweep_states now (states (table r))\<rparr>)
     \<longleftrightarrow> can_acquire a t mi (table r)"
proof -
  let ?m = "states (table r)"
  have ok: "table_ok (table r)" using reachable_run_ok [OF assms(1)] by (simp add: run_ok_def)
  have "map_of (drop_retired now ?m) a = (case map_of ?m a of None \<Rightarrow> None
      | Some s \<Rightarrow> if live_lease s now \<or> now < probe_state_retires_at s then Some s else None)"
    using table_ok_wf [OF ok]
    by (simp add: drop_retired_def map_of_filter_wf split: option.splits)
  moreover have "can_acquire a t mi (table r)"
    if s: "map_of ?m a = Some s" "\<not> live_lease s now" "probe_state_retires_at s \<le> now" for s
  proof -
    have "\<not> live_lease s t" using s(2) assms(3) by (auto simp: live_lease_def split: option.splits)
    moreover have "t - l \<ge> nullish mi transient_probe_interval_ms" if "last_probe_at s = Some l" for l
    proof -
      obtain p where "paced_until s = Some p" using ok s(1) \<open>last_probe_at s = Some l\<close>
        unfolding table_ok_def by blast
      with that s assms(3,4) show ?thesis
        by (auto simp: interval_covered_def probe_state_retires_at_def)
    qed
    ultimately show ?thesis using s(1) by (auto simp: can_acquire_def split: option.splits)
  qed
  ultimately show ?thesis
    using assms(2)
    by (auto simp: sweep_states_def Let_def can_acquire_def split: option.splits)
qed

lemma sweep_transparent_witness:
  "can_acquire ''a'' 200000 None ((table two_account_run)
       \<lparr>states := sweep_states 150000 (states (table two_account_run))\<rparr>)
   \<longleftrightarrow> can_acquire ''a'' 200000 None (table two_account_run)"
  by (rule sweep_transparent [OF reachable_two_account_run]; code_simp)

text \<open>
  The eligibility check is an exact mirror of the grant: it answers yes just when the
  grant would be given, a refused attempt leaves the table as it was, and
  \<open>nextProbeAt\<close> then names an instant strictly in the future.
\<close>

theorem can_acquire_mirrors_grant:
  "if can_acquire a now mi tb then fst (try_acquire a now lm mi tb) \<noteq> None
   else try_acquire a now lm mi tb = (None, tb) \<and> now < next_probe_at a now mi tb"
proof (cases "can_acquire a now mi tb")
  case True
  then show ?thesis by (auto simp: try_acquire_iff)
next
  case False
  then have "now < next_probe_at a now mi tb"
    by (auto simp: can_acquire_def next_probe_at_def live_lease_def split: option.splits)
  with False show ?thesis by (simp add: try_acquire_refused)
qed

end
