(* ===== verification/Held_Dispatch.thy ===== *)
theory Held_Dispatch
  imports Pool_Backpressure Probe_Lease
begin

text \<open>
  \<open>resolveHeldAccountDispatch\<close> of \<open>src/routing/probe-lease.ts\<close>: what a request bound to a
  held account may do this turn. The limiter is an argument with the interface
  \<open>PoolBackpressureLimiter\<close>, as in the code; its properties are proved in the locale
  \<open>recovery_limiter\<close> and hold of the window limiter and of the process-wide one.
\<close>

datatype held_dispatch =
    Probe probe_lease
  | Detour string
  | Withheld string "string option" millis

record held_input =
  bound_account :: string
  detour_account :: "string option"
  asked_at :: millis
  lease_ms :: "millis option"
  min_probe_interval_ms :: "millis option"

text \<open>
  The first two arguments are the limiter's \<open>tryPermitProbeDispatch\<close> and
  \<open>nextRecoveryAt\<close>; the state is the limiter with the probe table.
\<close>

definition resolve_held_with ::
    "(millis \<Rightarrow> 'l \<Rightarrow> bool \<times> 'l) \<Rightarrow> (millis \<Rightarrow> 'l \<Rightarrow> millis) \<Rightarrow> held_input
      \<Rightarrow> 'l \<times> probe_table \<Rightarrow> held_dispatch \<times> 'l \<times> probe_table" where
  "resolve_held_with permit next_at inp st =
     (let (l, tb) = st;
          now = asked_at inp;
          (permitted, l1) =
            (if can_acquire (bound_account inp) now (min_probe_interval_ms inp) tb
             then permit now l else (False, l));
          (lease, tb1) =
            (if permitted
             then try_acquire (bound_account inp) now (lease_ms inp) (min_probe_interval_ms inp) tb
             else (None, tb))
      in case lease of
           Some x \<Rightarrow> (Probe x, l1, tb1)
         | None \<Rightarrow>
             (case detour_account inp of
                Some d \<Rightarrow>
                  if d \<noteq> bound_account inp then (Detour d, l1, tb1)
                  else (Withheld (bound_account inp) (Some d)
                          (max (next_probe_at (bound_account inp) now (min_probe_interval_ms inp) tb1)
                               (next_at now l1)), l1, tb1)
              | None \<Rightarrow>
                  (Withheld (bound_account inp) None
                     (max (next_probe_at (bound_account inp) now (min_probe_interval_ms inp) tb1)
                          (next_at now l1)), l1, tb1)))"

definition resolve_held_dispatch ::
    "held_input \<Rightarrow> limiter \<times> probe_table \<Rightarrow> held_dispatch \<times> limiter \<times> probe_table" where
  "resolve_held_dispatch = resolve_held_with try_permit next_recovery_at"

text \<open>
  The module state: the process-wide limiter, built on first use, and the probe table. The
  reset drops the limiter and every probe entry, but not the lease sequence.
\<close>

record pool_recovery =
  shared_limiter :: "limiter option"
  probe_entries :: probe_table

definition shared_permit :: "millis \<Rightarrow> limiter option \<Rightarrow> bool \<times> limiter option" where
  "shared_permit now s = (let (ok, l) = try_permit now (shared_backpressure s) in (ok, Some l))"

definition shared_next_at :: "millis \<Rightarrow> limiter option \<Rightarrow> millis" where
  "shared_next_at now s = next_recovery_at now (shared_backpressure s)"

definition resolve_held_shared :: "held_input \<Rightarrow> pool_recovery \<Rightarrow> held_dispatch \<times> pool_recovery" where
  "resolve_held_shared inp s =
     (let (d, l, tb) = resolve_held_with shared_permit shared_next_at inp
                         (shared_limiter s, probe_entries s)
      in (d, \<lparr>shared_limiter = l, probe_entries = tb\<rparr>))"

definition clear_pool_recovery :: "pool_recovery \<Rightarrow> pool_recovery" where
  "clear_pool_recovery s = \<lparr>shared_limiter = None, probe_entries = clear_probes (probe_entries s)\<rparr>"


section \<open>What any limiter with the interface gives\<close>

context recovery_limiter
begin

lemma resolve_withheld_waits:
  assumes "ok l" "resolve_held_with permit next_at inp (l, tb) = (Withheld b d t, l', tb')"
  shows "asked_at inp < t"
proof (cases "can_acquire (bound_account inp) (asked_at inp) (min_probe_interval_ms inp) tb")
  case True
  then have "fst (try_acquire (bound_account inp) (asked_at inp) (lease_ms inp)
      (min_probe_interval_ms inp) tb) \<noteq> None"
    by (simp add: try_acquire_iff)
  with True assms refused_waits [OF assms(1), of "asked_at inp"] show ?thesis
    by (auto simp: resolve_held_with_def Let_def split_beta split: option.splits if_splits)
next
  case False
  then have "asked_at inp < next_probe_at (bound_account inp) (asked_at inp) (min_probe_interval_ms inp) tb"
    by (auto simp: can_acquire_def next_probe_at_def live_lease_def split: option.splits)
  with False assms(2) show ?thesis
    by (auto simp: resolve_held_with_def Let_def split: option.splits if_splits)
qed

lemma resolve_probe_grant:
  assumes "resolve_held_with permit next_at inp (l, tb) = (Probe x, l', tb')"
  shows "permit (asked_at inp) l = (True, l')"
    and "try_acquire (bound_account inp) (asked_at inp) (lease_ms inp) (min_probe_interval_ms inp) tb
         = (Some x, tb')"
  using assms
  by (auto simp: resolve_held_with_def Let_def split: option.splits if_splits prod.splits)

lemma resolve_no_probe:
  assumes "resolve_held_with permit next_at inp (l, tb) = (d, l', tb')" "\<And>x. d \<noteq> Probe x"
  shows "tb' = tb" "l' = l \<or> permit (asked_at inp) l = (False, l')"
  using assms try_acquire_iff [of "bound_account inp" "asked_at inp" "lease_ms inp"
      "min_probe_interval_ms inp" tb]
  by (auto simp: resolve_held_with_def Let_def split: option.splits if_splits prod.splits)

end

lemma policy_ok_default [simp]: "policy_ok default_backpressure_policy"
  by (simp add: policy_ok_def default_backpressure_policy_def)

lemma policy_shared_None [simp]:
  "policy (shared_backpressure None) = default_backpressure_policy"
  by (simp add: shared_backpressure_def create_limiter_def)

lemma shared_backpressure_Some [simp]: "shared_backpressure (Some l) = l"
  by (simp add: shared_backpressure_def)

interpretation shared: recovery_limiter shared_permit shared_next_at
  "\<lambda>s. policy_ok (policy (shared_backpressure s))"
  by unfold_locales
    (auto simp: shared_permit_def shared_next_at_def split_beta
      intro: next_recovery_at_ge refused_next_recovery_at)


section \<open>Properties\<close>

text \<open>
  No busy loop: when a held account's request is told to wait, the instant it is given is
  strictly in the future, whether the lease, the pacing interval or the pool-wide ratio
  refused it. This holds of the process-wide limiter under any policy with a positive window.
\<close>

theorem withheld_waits:
  assumes "case shared_limiter s of None \<Rightarrow> True | Some l \<Rightarrow> policy_ok (policy l)"
    and "resolve_held_shared inp s = (Withheld b d t, s')"
  shows "asked_at inp < t"
proof -
  have "policy_ok (policy (shared_backpressure (shared_limiter s)))"
    using assms(1) by (cases "shared_limiter s") auto
  then show ?thesis
    using assms(2)
    by (auto simp: resolve_held_shared_def split: prod.splits
        intro: shared.resolve_withheld_waits)
qed

definition busy_input :: held_input where
  "busy_input = \<lparr>bound_account = ''a'', detour_account = None, asked_at = 100, lease_ms = None,
     min_probe_interval_ms = None\<rparr>"

definition quiet_recovery :: pool_recovery where
  "quiet_recovery = \<lparr>shared_limiter = None, probe_entries = empty_probe_table\<rparr>"

lemma withheld_waits_witness:
  "asked_at (busy_input\<lparr>asked_at := 200\<rparr>) < (30100 :: millis)"
  by (rule withheld_waits [where s = "snd (resolve_held_shared busy_input quiet_recovery)"
        and b = "''a''" and d = None
        and s' = "snd (resolve_held_shared (busy_input\<lparr>asked_at := 200\<rparr>)
                    (snd (resolve_held_shared busy_input quiet_recovery)))"]; code_simp)

text \<open>
  A probe is dispatched only with both permissions, and each is spent exactly once: the
  answer \<open>probe\<close> means the limiter admitted one recovery send and the account's lease was
  granted to this caller; any other answer leaves the probe table as it was and charges the
  limiter nothing but, possibly, a counted refusal.
\<close>

theorem probe_needs_lease_and_permit:
  assumes "resolve_held_dispatch inp (l, tb) = (d, l', tb')"
  shows "(case d of
      Probe x \<Rightarrow> try_permit (asked_at inp) l = (True, l')
        \<and> try_acquire (bound_account inp) (asked_at inp) (lease_ms inp) (min_probe_interval_ms inp) tb
            = (Some x, tb')
    | _ \<Rightarrow> tb' = tb \<and> (l' = l \<or> try_permit (asked_at inp) l = (False, l')))"
  using assms window_limiter.resolve_probe_grant [of inp l tb _ l' tb']
    window_limiter.resolve_no_probe [of inp l tb d l' tb']
  by (auto simp: resolve_held_dispatch_def split: held_dispatch.splits)

lemma probe_needs_lease_and_permit_witness:
  "let l = create_limiter default_backpressure_policy;
       r = resolve_held_dispatch busy_input (l, empty_probe_table)
   in (case fst r of
      Probe x \<Rightarrow> try_permit (asked_at busy_input) l = (True, fst (snd r))
        \<and> try_acquire (bound_account busy_input) (asked_at busy_input) (lease_ms busy_input)
            (min_probe_interval_ms busy_input) empty_probe_table = (Some x, snd (snd r))
    | _ \<Rightarrow> snd (snd r) = empty_probe_table
        \<and> (fst (snd r) = l \<or> try_permit (asked_at busy_input) l = (False, fst (snd r))))"
  unfolding Let_def by (rule probe_needs_lease_and_permit) simp

end
