(* ===== verification/Spend_Journal.thy ===== *)
theory Spend_Journal
  imports Prelude "HOL-Library.Monad_Syntax"
begin

text \<open>
  The journal format of \<open>src/lib/spend-reservation-ledger.ts\<close>: the record kinds, what
  \<open>JSON.stringify\<close> writes for each, and the field-by-field validation of
  \<open>parseSpendJournalRecord\<close>. Amounts and instants are rationals, because the validation
  admits any finite non-negative number. A line is the parsed JSON, or None for text that
  \<open>JSON.parse\<close> rejects, which is what a torn write leaves.
\<close>

section \<open>Records\<close>

type_synonym amount = rat
type_synonym instant = rat

datatype spend_scope = Root | Identity | Pool

type_synonym scope_ref = "spend_scope \<times> string"

datatype send_status = Open | Dispatched | Settled | Lost | Abandoned

record checkpoint_scope =
  cs_ref :: scope_ref
  cs_settled :: amount
  cs_unresolved :: amount
  cs_seen_at :: instant

record checkpoint_send =
  cd_send :: string
  cd_status :: send_status
  cd_targets :: "scope_ref list"
  cd_tokens :: amount
  cd_at :: instant
  cd_resolved_at :: instant

datatype journal_record =
    RReserve string "scope_ref list" amount instant
  | RDispatch string instant
  | RSettle string amount instant
  | RLost string instant
  | RAbandon string instant
  | RForget string instant
  | RDrop spend_scope string instant
  | RCheckpoint instant "checkpoint_scope list" "checkpoint_send list"

type_synonym journal_line = "json option"


section \<open>Writing a record\<close>

fun scope_name :: "spend_scope \<Rightarrow> string" where
  "scope_name Root = ''root''"
| "scope_name Identity = ''identity''"
| "scope_name Pool = ''pool''"

fun status_name :: "send_status \<Rightarrow> string" where
  "status_name Open = ''open''"
| "status_name Dispatched = ''dispatched''"
| "status_name Settled = ''settled''"
| "status_name Lost = ''lost''"
| "status_name Abandoned = ''abandoned''"

abbreviation jnum :: "rat \<Rightarrow> json" where
  "jnum q \<equiv> JNum (Fin q)"

fun encode_ref :: "scope_ref \<Rightarrow> json" where
  "encode_ref (s, a) = JObj [(''scope'', JStr (scope_name s)), (''alias'', JStr a)]"

definition encode_cp_scope :: "checkpoint_scope \<Rightarrow> json" where
  "encode_cp_scope c = JObj [(''scope'', JStr (scope_name (fst (cs_ref c)))),
     (''alias'', JStr (snd (cs_ref c))), (''settled'', jnum (cs_settled c)),
     (''unresolved'', jnum (cs_unresolved c)), (''seenAt'', jnum (cs_seen_at c))]"

definition encode_cp_send :: "checkpoint_send \<Rightarrow> json" where
  "encode_cp_send c = JObj [(''send'', JStr (cd_send c)),
     (''status'', JStr (status_name (cd_status c))),
     (''targets'', JArr (map encode_ref (cd_targets c))), (''tokens'', jnum (cd_tokens c)),
     (''at'', jnum (cd_at c)), (''resolvedAt'', jnum (cd_resolved_at c))]"

abbreviation record_object :: "string \<Rightarrow> (string \<times> json) list \<Rightarrow> json" where
  "record_object kind props \<equiv> JObj ((''v'', jnum 1) # (''kind'', JStr kind) # props)"

fun encode_record :: "journal_record \<Rightarrow> json" where
  "encode_record (RReserve send targets tokens stamp) = record_object ''reserve''
     [(''send'', JStr send), (''targets'', JArr (map encode_ref targets)),
      (''tokens'', jnum tokens), (''at'', jnum stamp)]"
| "encode_record (RDispatch send stamp) = record_object ''dispatch''
     [(''send'', JStr send), (''at'', jnum stamp)]"
| "encode_record (RSettle send tokens stamp) = record_object ''settle''
     [(''send'', JStr send), (''tokens'', jnum tokens), (''at'', jnum stamp)]"
| "encode_record (RLost send stamp) = record_object ''lost''
     [(''send'', JStr send), (''at'', jnum stamp)]"
| "encode_record (RAbandon send stamp) = record_object ''abandon''
     [(''send'', JStr send), (''at'', jnum stamp)]"
| "encode_record (RForget send stamp) = record_object ''forget''
     [(''send'', JStr send), (''at'', jnum stamp)]"
| "encode_record (RDrop scope alias stamp) = record_object ''drop''
     [(''scope'', JStr (scope_name scope)), (''alias'', JStr alias), (''at'', jnum stamp)]"
| "encode_record (RCheckpoint stamp ss ds) = record_object ''checkpoint''
     [(''at'', jnum stamp), (''scopes'', JArr (map encode_cp_scope ss)),
      (''sends'', JArr (map encode_cp_send ds))]"


section \<open>Validating a line\<close>

fun is_countable :: "json option \<Rightarrow> rat option" where
  "is_countable (Some (JNum (Fin q))) = (if q \<ge> 0 then Some q else None)"
| "is_countable _ = None"

fun is_alias :: "json option \<Rightarrow> string option" where
  "is_alias (Some (JStr s)) = (if length s > 0 \<and> length s \<le> 256 then Some s else None)"
| "is_alias _ = None"

fun is_scope_name :: "json option \<Rightarrow> spend_scope option" where
  "is_scope_name (Some (JStr s)) =
     (if s = ''root'' then Some Root else if s = ''identity'' then Some Identity
      else if s = ''pool'' then Some Pool else None)"
| "is_scope_name _ = None"

fun is_status :: "json option \<Rightarrow> send_status option" where
  "is_status (Some (JStr s)) =
     (if s = ''open'' then Some Open else if s = ''dispatched'' then Some Dispatched
      else if s = ''settled'' then Some Settled else if s = ''lost'' then Some Lost
      else if s = ''abandoned'' then Some Abandoned else None)"
| "is_status _ = None"

text \<open>All entries of an array, or nothing when one of them is rejected.\<close>

fun all_some :: "('a \<Rightarrow> 'b option) \<Rightarrow> 'a list \<Rightarrow> 'b list option" where
  "all_some f [] = Some []"
| "all_some f (x # xs) = (case f x of None \<Rightarrow> None
     | Some y \<Rightarrow> (case all_some f xs of None \<Rightarrow> None | Some ys \<Rightarrow> Some (y # ys)))"

text \<open>\<open>typeof entry === "object" \&\& entry !== null\<close>, which an array satisfies as well.\<close>

fun is_object :: "json \<Rightarrow> bool" where
  "is_object (JObj _) = True"
| "is_object (JArr _) = True"
| "is_object _ = False"

definition parse_ref :: "json \<Rightarrow> scope_ref option" where
  "parse_ref e = (if \<not> is_object e then None else do {
     s \<leftarrow> is_scope_name (json_get ''scope'' e);
     a \<leftarrow> is_alias (json_get ''alias'' e);
     Some (s, a) })"

fun parse_targets :: "json option \<Rightarrow> scope_ref list option" where
  "parse_targets (Some (JArr es)) = (if length es > 3 then None else all_some parse_ref es)"
| "parse_targets _ = None"

definition parse_cp_scope :: "json \<Rightarrow> checkpoint_scope option" where
  "parse_cp_scope e = (if \<not> is_object e then None else do {
     s \<leftarrow> is_scope_name (json_get ''scope'' e);
     a \<leftarrow> is_alias (json_get ''alias'' e);
     x \<leftarrow> is_countable (json_get ''settled'' e);
     u \<leftarrow> is_countable (json_get ''unresolved'' e);
     t \<leftarrow> is_countable (json_get ''seenAt'' e);
     Some \<lparr>cs_ref = (s, a), cs_settled = x, cs_unresolved = u, cs_seen_at = t\<rparr> })"

definition parse_cp_send :: "json \<Rightarrow> checkpoint_send option" where
  "parse_cp_send e = (if \<not> is_object e then None else do {
     ts \<leftarrow> parse_targets (json_get ''targets'' e);
     s \<leftarrow> is_alias (json_get ''send'' e);
     st \<leftarrow> is_status (json_get ''status'' e);
     n \<leftarrow> is_countable (json_get ''tokens'' e);
     a \<leftarrow> is_countable (json_get ''at'' e);
     r \<leftarrow> is_countable (json_get ''resolvedAt'' e);
     Some \<lparr>cd_send = s, cd_status = st, cd_targets = ts, cd_tokens = n, cd_at = a,
           cd_resolved_at = r\<rparr> })"

fun parse_entries :: "(json \<Rightarrow> 'a option) \<Rightarrow> json option \<Rightarrow> 'a list option" where
  "parse_entries f (Some (JArr es)) = all_some f es"
| "parse_entries f _ = None"

definition parse_kind :: "string \<Rightarrow> instant \<Rightarrow> json \<Rightarrow> journal_record option" where
  "parse_kind kind stamp r =
     (if kind = ''reserve'' then do {
        ts \<leftarrow> parse_targets (json_get ''targets'' r);
        s \<leftarrow> is_alias (json_get ''send'' r);
        n \<leftarrow> is_countable (json_get ''tokens'' r);
        Some (RReserve s ts n stamp) }
      else if kind = ''settle'' then do {
        s \<leftarrow> is_alias (json_get ''send'' r);
        n \<leftarrow> is_countable (json_get ''tokens'' r);
        Some (RSettle s n stamp) }
      else if kind = ''dispatch'' then do {
        s \<leftarrow> is_alias (json_get ''send'' r); Some (RDispatch s stamp) }
      else if kind = ''lost'' then do {
        s \<leftarrow> is_alias (json_get ''send'' r); Some (RLost s stamp) }
      else if kind = ''abandon'' then do {
        s \<leftarrow> is_alias (json_get ''send'' r); Some (RAbandon s stamp) }
      else if kind = ''forget'' then do {
        s \<leftarrow> is_alias (json_get ''send'' r); Some (RForget s stamp) }
      else if kind = ''drop'' then do {
        sc \<leftarrow> is_scope_name (json_get ''scope'' r);
        a \<leftarrow> is_alias (json_get ''alias'' r);
        Some (RDrop sc a stamp) }
      else if kind = ''checkpoint'' then do {
        ss \<leftarrow> parse_entries parse_cp_scope (json_get ''scopes'' r);
        ds \<leftarrow> parse_entries parse_cp_send (json_get ''sends'' r);
        Some (RCheckpoint stamp ss ds) }
      else None)"

fun parse_record :: "journal_line \<Rightarrow> journal_record option" where
  "parse_record (Some (JObj kvs)) = (let r = JObj kvs in
     if json_get ''v'' r \<noteq> Some (jnum 1) then None
     else (case is_countable (json_get ''at'' r) of None \<Rightarrow> None
       | Some stamp \<Rightarrow> (case json_get ''kind'' r of
           Some (JStr kind) \<Rightarrow> parse_kind kind stamp r
         | _ \<Rightarrow> None)))"
| "parse_record _ = None"


section \<open>Round trip\<close>

definition alias_ok :: "string \<Rightarrow> bool" where
  "alias_ok s \<longleftrightarrow> 0 < length s \<and> length s \<le> 256"

definition refs_ok :: "scope_ref list \<Rightarrow> bool" where
  "refs_ok ts \<longleftrightarrow> length ts \<le> 3 \<and> list_all (\<lambda>(s, a). alias_ok a) ts"

definition cp_scope_ok :: "checkpoint_scope \<Rightarrow> bool" where
  "cp_scope_ok c \<longleftrightarrow> alias_ok (snd (cs_ref c)) \<and> 0 \<le> cs_settled c \<and> 0 \<le> cs_unresolved c
     \<and> 0 \<le> cs_seen_at c"

definition cp_send_ok :: "checkpoint_send \<Rightarrow> bool" where
  "cp_send_ok c \<longleftrightarrow> alias_ok (cd_send c) \<and> refs_ok (cd_targets c) \<and> 0 \<le> cd_tokens c
     \<and> 0 \<le> cd_at c \<and> 0 \<le> cd_resolved_at c"

text \<open>What the writer promises of a record: usable aliases and non-negative figures.\<close>

fun record_ok :: "journal_record \<Rightarrow> bool" where
  "record_ok (RReserve s ts n stamp) \<longleftrightarrow> alias_ok s \<and> refs_ok ts \<and> 0 \<le> n \<and> 0 \<le> stamp"
| "record_ok (RDispatch s stamp) \<longleftrightarrow> alias_ok s \<and> 0 \<le> stamp"
| "record_ok (RSettle s n stamp) \<longleftrightarrow> alias_ok s \<and> 0 \<le> n \<and> 0 \<le> stamp"
| "record_ok (RLost s stamp) \<longleftrightarrow> alias_ok s \<and> 0 \<le> stamp"
| "record_ok (RAbandon s stamp) \<longleftrightarrow> alias_ok s \<and> 0 \<le> stamp"
| "record_ok (RForget s stamp) \<longleftrightarrow> alias_ok s \<and> 0 \<le> stamp"
| "record_ok (RDrop sc a stamp) \<longleftrightarrow> alias_ok a \<and> 0 \<le> stamp"
| "record_ok (RCheckpoint stamp ss ds) \<longleftrightarrow> 0 \<le> stamp \<and> list_all cp_scope_ok ss \<and> list_all cp_send_ok ds"

lemma is_alias_ok [simp]: "alias_ok s \<Longrightarrow> is_alias (Some (JStr s)) = Some s"
  by (simp add: alias_ok_def)

lemma is_scope_name_name [simp]: "is_scope_name (Some (JStr (scope_name s))) = Some s"
  by (cases s) auto

lemma is_status_name [simp]: "is_status (Some (JStr (status_name s))) = Some s"
  by (cases s) auto

declare is_alias.simps(1) [simp del] is_scope_name.simps(1) [simp del] is_status.simps(1) [simp del]

lemma all_some_map:
  "list_all P xs \<Longrightarrow> (\<And>x. P x \<Longrightarrow> f (g x) = Some x) \<Longrightarrow> all_some f (map g xs) = Some xs"
  by (induction xs) auto

lemma parse_targets_encode [simp]:
  assumes "refs_ok ts"
  shows "parse_targets (Some (JArr (map encode_ref ts))) = Some ts"
proof -
  have "parse_ref (encode_ref r) = Some r" if "(\<lambda>(s, a). alias_ok a) r" for r
    using that by (cases r) (simp add: parse_ref_def)
  with assms have "all_some parse_ref (map encode_ref ts) = Some ts"
    unfolding refs_ok_def by (intro all_some_map [where P = "\<lambda>(s, a). alias_ok a"]) auto
  with assms show ?thesis by (simp add: refs_ok_def)
qed

declare parse_targets.simps(1) [simp del]

lemma parse_cp_scope_encode: "cp_scope_ok c \<Longrightarrow> parse_cp_scope (encode_cp_scope c) = Some c"
  by (simp add: parse_cp_scope_def encode_cp_scope_def cp_scope_ok_def)

lemma parse_cp_send_encode: "cp_send_ok c \<Longrightarrow> parse_cp_send (encode_cp_send c) = Some c"
  by (simp add: parse_cp_send_def encode_cp_send_def cp_send_ok_def)

lemma parse_encode: "record_ok r \<Longrightarrow> parse_record (Some (encode_record r)) = Some r"
  by (cases r)
    (auto simp: parse_kind_def all_some_map parse_cp_scope_encode parse_cp_send_encode)

text \<open>
  C9. Every record the ledger writes is read back as itself: for records with usable aliases
  and non-negative figures, the validation of the written JSON accepts it and rebuilds the
  very record, checkpoints with all their scopes and sends included.
\<close>

theorem parse_encode_record:
  assumes "record_ok r"
  shows "parse_record (Some (encode_record r)) = Some r"
  using assms by (rule parse_encode)

lemma parse_encode_record_witness:
  "parse_record (Some (encode_record (RReserve ''ab'' [(Root, ''r''), (Pool, ''p'')] 12 5)))
   = Some (RReserve ''ab'' [(Root, ''r''), (Pool, ''p'')] 12 5)"
  by (rule parse_encode_record) code_simp

end
