(* ===== verification/Spend_Pool.thy ===== *)
theory Spend_Pool
  imports Spend_Journal
begin

text \<open>
  Pool continuity, from \<open>src/lib/spend-pool-alias-validation.ts\<close> and
  \<open>src/lib/spend-pool-continuity.ts\<close>: the validation of the operator's alias map, the
  ownership check, and the read-time graph that says which historical pool bucket belongs to
  which configured provider. \<open>hashSpendAlias\<close> is SHA-256 of the platform; here it is the
  parameter \<open>h\<close>, the hash with the install's salt applied, of a domain and an id.
\<close>

type_synonym alias_hash = "string \<Rightarrow> string \<Rightarrow> string"


section \<open>Validation\<close>

datatype alias_error = NotAnObject | TooManyEntries | BadEntry | UnknownProvider | ForeignOwner

definition is_hex_digit :: "char \<Rightarrow> bool" where
  "is_hex_digit c \<longleftrightarrow> c \<in> set ''0123456789abcdef''"

definition is_pool_alias :: "string \<Rightarrow> bool" where
  "is_pool_alias s \<longleftrightarrow> length s = 32 \<and> list_all is_hex_digit s"

fun entry_error :: "string list option \<Rightarrow> string \<times> json \<Rightarrow> alias_error option" where
  "entry_error providers (a, JStr p) =
     (if \<not> is_pool_alias a \<or> js_trim p = [] \<or> js_trim p \<noteq> p \<or> length p > 256 then Some BadEntry
      else (case providers of None \<Rightarrow> None
        | Some ps \<Rightarrow> if p \<notin> set ps then Some UnknownProvider else None))"
| "entry_error providers (a, _) = Some BadEntry"

fun first_error :: "('a \<Rightarrow> 'e option) \<Rightarrow> 'a list \<Rightarrow> 'e option" where
  "first_error f [] = None"
| "first_error f (x # xs) = (case f x of None \<Rightarrow> first_error f xs | Some e \<Rightarrow> Some e)"

fun pool_aliases_error :: "json option \<Rightarrow> string list option \<Rightarrow> alias_error option" where
  "pool_aliases_error None providers = None"
| "pool_aliases_error (Some (JObj kvs)) providers =
     (if length kvs > 4096 then Some TooManyEntries else first_error (entry_error providers) kvs)"
| "pool_aliases_error (Some _) providers = Some NotAnObject"

fun alias_entries :: "json option \<Rightarrow> (string \<times> string) list" where
  "alias_entries (Some (JObj kvs)) = map (\<lambda>(a, v). (a, case v of JStr p \<Rightarrow> p | _ \<Rightarrow> [])) kvs"
| "alias_entries _ = []"

definition validate_pool_alias_owners ::
    "alias_hash \<Rightarrow> json option \<Rightarrow> string list \<Rightarrow> alias_error option" where
  "validate_pool_alias_owners h aliases providers =
     (case pool_aliases_error aliases None of Some e \<Rightarrow> Some e
      | None \<Rightarrow> first_error (\<lambda>p. case map_of (alias_entries aliases) (h ''pool'' p) of
            None \<Rightarrow> None
          | Some target \<Rightarrow> if target \<noteq> p then Some ForeignOwner else None) providers)"


section \<open>The binding graph\<close>

type_synonym bindings = "(string, string) jsmap"

lemma unseen_decreases:
  assumes "map_of b a = Some a'" "a \<notin> set seen"
  shows "card (fst ` set b - set (a # seen)) < card (fst ` set b - set seen)"
proof -
  have "a \<in> fst ` set b" using assms(1) by (force dest: map_of_SomeD)
  with assms(2) show ?thesis by (intro psubset_card_mono) auto
qed

text \<open>
  \<open>resolve\<close>: follow the bindings until a bucket that is unbound or bound to itself. A
  revisited bucket is a cycle, on which the code throws; None here.
\<close>

function resolve_from :: "bindings \<Rightarrow> string list \<Rightarrow> string \<Rightarrow> string option" where
  "resolve_from b seen a = (case map_of b a of
     None \<Rightarrow> Some a
   | Some a' \<Rightarrow> if a' = a then Some a
       else if a \<in> set seen then None
       else resolve_from b (a # seen) a')"
  by pat_completeness auto

termination
  by (relation "measure (\<lambda>(b, seen, a). card (fst ` set b - set seen))")
    (simp, simp only: in_measure prod.case unseen_decreases not_False_eq_True)

declare resolve_from.simps [simp del]

record continuity =
  valid :: bool
  bound :: bindings

definition resolve_pool_aliases :: "alias_hash \<Rightarrow> json option \<Rightarrow> string list option \<Rightarrow> continuity" where
  "resolve_pool_aliases h config providers =
     (let ps = nullish providers [];
          err = (case pool_aliases_error config providers of Some e \<Rightarrow> Some e
                 | None \<Rightarrow> validate_pool_alias_owners h config ps);
          b1 = (if err = None
                then fold (\<lambda>(a, p) b. AList.update a (h ''pool'' p) b) (alias_entries config) []
                else []);
          b2 = (if err = None
                then fold (\<lambda>p b. AList.update (h ''pool'' p) (h ''pool'' p) b) ps b1 else b1);
          invalid = (err \<noteq> None \<or> list_ex (\<lambda>(a, _). resolve_from b2 [] a = None) b2)
      in \<lparr>valid = \<not> invalid, bound = (if invalid then [] else b2)\<rparr>)"

definition pool_resolve :: "continuity \<Rightarrow> string \<Rightarrow> string" where
  "pool_resolve c a = nullish (resolve_from (bound c) [] a) a"

definition pool_known :: "continuity \<Rightarrow> string \<Rightarrow> bool" where
  "pool_known c a \<longleftrightarrow> jm_has (bound c) a"


section \<open>Resolution\<close>

lemma resolve_from_end:
  "resolve_from b seen a = Some g \<Longrightarrow> map_of b g = None \<or> map_of b g = Some g"
proof (induction b seen a rule: resolve_from.induct)
  case (1 b seen a)
  show ?case
  proof (cases "map_of b a")
    case None
    with "1.prems" show ?thesis by (subst (asm) resolve_from.simps) simp
  next
    case (Some a')
    with "1.prems" "1.IH" [OF Some] show ?thesis
      by (subst (asm) resolve_from.simps) (auto split: if_splits)
  qed
qed

lemma resolve_from_fixed: "map_of b g = None \<or> map_of b g = Some g \<Longrightarrow> resolve_from b seen g = Some g"
  by (subst resolve_from.simps) auto

lemma resolve_valid:
  assumes "c = resolve_pool_aliases h config providers"
  shows "resolve_from (bound c) [] a \<noteq> None"
proof (cases "map_of (bound c) a")
  case None
  then show ?thesis by (simp add: resolve_from_fixed)
next
  case (Some a')
  then have "(a, a') \<in> set (bound c)" by (rule map_of_SomeD)
  then show ?thesis
    using assms by (auto simp: resolve_pool_aliases_def Let_def list_ex_iff split: if_splits)
qed

text \<open>
  Resolution is total and canonical: whatever the operator configured, once the alias map
  has been read no later lookup can hit a cycle, the bucket it ends in is not bound elsewhere,
  and resolving that bucket again gives the same bucket.
\<close>

theorem pool_resolution_total:
  fixes h :: alias_hash and config :: "json option" and providers :: "string list option"
  defines "c \<equiv> resolve_pool_aliases h config providers"
  shows "resolve_from (bound c) [] a = Some (pool_resolve c a)
    \<and> (map_of (bound c) (pool_resolve c a) \<in> {None, Some (pool_resolve c a)})
    \<and> pool_resolve c (pool_resolve c a) = pool_resolve c a"
proof -
  obtain g where g: "resolve_from (bound c) [] a = Some g"
    using resolve_valid [of c h config providers a] by (auto simp: c_def)
  with resolve_from_end [OF g] resolve_from_fixed [of "bound c" g "[]"] show ?thesis
    by (auto simp: pool_resolve_def)
qed

lemma first_error_None: "first_error f xs = None \<longleftrightarrow> (\<forall>x \<in> set xs. f x = None)"
  by (induction xs) (auto split: option.splits)

lemma map_of_fold_self:
  "map_of (fold (\<lambda>p b. AList.update (k p) (k p) b) ps b) a =
     (if a \<in> k ` set ps then Some a else map_of b a)"
  by (induction ps arbitrary: b) auto

text \<open>
  A configured provider owns its own pool bucket: in a valid configuration no alias entry
  can move a configured provider's history into another provider's pool, so the bucket of each
  configured provider resolves to itself.
\<close>

theorem provider_owns_its_bucket:
  assumes "p \<in> set ps" and "valid (resolve_pool_aliases h config (Some ps))"
  shows "pool_resolve (resolve_pool_aliases h config (Some ps)) (h ''pool'' p) = h ''pool'' p
    \<and> pool_known (resolve_pool_aliases h config (Some ps)) (h ''pool'' p)"
proof -
  let ?c = "resolve_pool_aliases h config (Some ps)"
  have "map_of (bound ?c) (h ''pool'' p) = Some (h ''pool'' p)"
    using assms by (auto simp: resolve_pool_aliases_def Let_def map_of_fold_self split: if_splits)
  then show ?thesis
    by (simp add: pool_resolve_def pool_known_def resolve_from_fixed)
qed

definition toy_hash :: alias_hash where
  "toy_hash k i = take 32 (k @ ''-'' @ i @ replicate 32 CHR ''0'')"

lemma provider_owns_its_bucket_witness:
  "pool_resolve (resolve_pool_aliases toy_hash
       (Some (JObj [(replicate 32 CHR ''a'', JStr ''openai'')])) (Some [''openai'', ''x'']))
     (toy_hash ''pool'' ''openai'') = toy_hash ''pool'' ''openai''
   \<and> pool_known (resolve_pool_aliases toy_hash
       (Some (JObj [(replicate 32 CHR ''a'', JStr ''openai'')])) (Some [''openai'', ''x'']))
     (toy_hash ''pool'' ''openai'')"
  by (rule provider_owns_its_bucket; code_simp)

end
