(* ===== verification/Spend_Ledger.thy ===== *)
theory Spend_Ledger
  imports Spend_Pool
begin

text \<open>
  The core of \<open>createSpendReservationLedger\<close> (\<open>src/lib/spend-reservation-ledger.ts\<close>): the
  closure's variables as one record, the journal writes with their failures, the \<open>apply\<close>
  functions that move the counters, eviction, compaction and room making. A map key
  \<open>scope \\0 alias\<close> is the pair of the two. A write to the journal consumes one entry of
  \<open>faults\<close>: True fails it, an empty list lets every write succeed.
\<close>

section \<open>Policy\<close>

record spend_limits =
  root_max :: "amount option"
  identity_max :: "amount option"
  pool_max :: "amount option"

record spend_policy =
  limits :: spend_limits
  pool_aliases :: "json option"
  canonical_providers :: "string list option"
  retention_ms :: instant
  max_tracked_scopes :: "nat option"
  max_tracked_sends :: "nat option"
  compact_after :: "nat option"

definition default_max_tracked_scopes :: nat where "default_max_tracked_scopes = 4096"
definition default_max_tracked_sends :: nat where "default_max_tracked_sends = 16384"
definition default_compact_after :: nat where "default_compact_after = 8192"

definition default_spend_policy :: spend_policy where
  "default_spend_policy =
     \<lparr>limits = \<lparr>root_max = None, identity_max = None, pool_max = None\<rparr>, pool_aliases = None,
      canonical_providers = None, retention_ms = 7 * 24 * 60 * 60000, max_tracked_scopes = None,
      max_tracked_sends = None, compact_after = None\<rparr>"

fun scope_limit :: "spend_limits \<Rightarrow> spend_scope \<Rightarrow> amount option" where
  "scope_limit p Root = root_max p"
| "scope_limit p Identity = identity_max p"
| "scope_limit p Pool = pool_max p"

definition spend_ceilings_configured :: "spend_policy \<Rightarrow> bool" where
  "spend_ceilings_configured p \<longleftrightarrow> root_max (limits p) \<noteq> None \<or> identity_max (limits p) \<noteq> None
     \<or> pool_max (limits p) \<noteq> None"

definition sanitize_tokens :: "jsnum \<Rightarrow> amount" where
  "sanitize_tokens x = (case x of Fin q \<Rightarrow> max 0 (js_trunc q) | _ \<Rightarrow> 0)"


section \<open>State\<close>

record scope_state =
  settled :: amount
  reserved :: amount
  unresolved :: amount
  last_seen_at :: instant

definition zero_scope :: scope_state where
  "zero_scope = \<lparr>settled = 0, reserved = 0, unresolved = 0, last_seen_at = 0\<rparr>"

definition spent :: "scope_state \<Rightarrow> amount" where
  "spent s = settled s + reserved s + unresolved s"

record reservation =
  targets :: "scope_ref list"
  tokens :: amount
  status :: send_status
  reserved_at :: instant
  resolved_at :: instant

record seed_state =
  seed_anchor :: string
  seed_targets :: "scope_ref list"
  seed_sends :: "string list"
  seed_abandoned :: bool
  seed_owner :: "nat option"

type_synonym scope_map = "(scope_ref, scope_state) jsmap"
type_synonym reservation_map = "(string, reservation) jsmap"

record ledger =
  policy :: spend_policy
  scopes :: scope_map
  reservations :: reservation_map
  seeds :: "(nat, seed_state) jsmap"
  next_seed :: nat
  seed_by_send :: "(string, nat) jsmap"
  pinned_keys :: "(scope_ref, nat) jsmap"
  pending :: "journal_record list"
  nondurable :: "(string, journal_record) jsmap"
  retained :: "string list"
  reporters :: nat
  owner_reporters :: "(nat, nat) jsmap"
  continuity :: continuity
  persist_failures :: nat
  corrupt :: nat
  on_disk :: nat
  disk :: "journal_line list option"
  can_rewrite :: bool
  faults :: "bool list"

definition is_live :: "send_status \<Rightarrow> bool" where
  "is_live st \<longleftrightarrow> st = Open \<or> st = Dispatched"

definition scope_at :: "scope_map \<Rightarrow> scope_ref \<Rightarrow> scope_state" where
  "scope_at m k = nullish (map_of m k) zero_scope"


section \<open>Pool views and limits\<close>

definition add_scope :: "scope_state \<Rightarrow> scope_state \<Rightarrow> scope_state" where
  "add_scope t s = \<lparr>settled = settled t + settled s, reserved = reserved t + reserved s,
     unresolved = unresolved t + unresolved s, last_seen_at = max (last_seen_at t) (last_seen_at s)\<rparr>"

definition total_scope :: "scope_map \<Rightarrow> scope_state" where
  "total_scope m = fold (\<lambda>(k, s) t. add_scope t s) m zero_scope"

definition pool_members :: "continuity \<Rightarrow> string \<Rightarrow> scope_map \<Rightarrow> scope_map" where
  "pool_members c a m = filter (\<lambda>(k, s). fst k = Pool \<and>
     (if pool_known c (snd k) then pool_resolve c (snd k) = pool_resolve c a else spent s \<noteq> 0)) m"

definition pool_state :: "continuity \<Rightarrow> string \<Rightarrow> scope_map \<Rightarrow> (scope_state \<times> bool) option" where
  "pool_state c a m = (let ms = pool_members c a m in
     if ms = [] then None
     else Some (total_scope ms, list_ex (\<lambda>(k, s). \<not> pool_known c (snd k)) ms))"

definition historical_pools :: "scope_map \<Rightarrow> string list" where
  "historical_pools m = map (\<lambda>(k, s). snd k) (filter (\<lambda>(k, s). fst k = Pool \<and> spent s > 0) m)"

definition has_unbound_positive_pool_history :: "ledger \<Rightarrow> bool" where
  "has_unbound_positive_pool_history l \<longleftrightarrow>
     list_ex (\<lambda>a. \<not> pool_known (continuity l) a) (historical_pools (scopes l))"

definition state_for :: "spend_scope \<Rightarrow> string \<Rightarrow> ledger \<Rightarrow> scope_state option" where
  "state_for s a l = (if s = Pool then map_option fst (pool_state (continuity l) a (scopes l))
     else map_of (scopes l) (s, a))"

definition is_exhausted :: "spend_policy \<Rightarrow> spend_scope \<Rightarrow> scope_state \<Rightarrow> bool" where
  "is_exhausted p s st \<longleftrightarrow>
     (case scope_limit (limits p) s of None \<Rightarrow> False | Some m \<Rightarrow> spent st \<ge> m)"

record spend_scopes =
  root_id :: "string option"
  identity_id :: "string option"
  pool_id :: "string option"

definition refs_for :: "alias_hash \<Rightarrow> spend_scopes \<Rightarrow> scope_ref list" where
  "refs_for h t =
     (case root_id t of None \<Rightarrow> [] | Some i \<Rightarrow> [(Root, h ''root'' i)]) @
     (case identity_id t of None \<Rightarrow> [] | Some i \<Rightarrow> [(Identity, h ''identity'' i)]) @
     (case pool_id t of None \<Rightarrow> [] | Some i \<Rightarrow> [(Pool, h ''pool'' i)])"


section \<open>Journal writes\<close>

definition append_record :: "journal_record \<Rightarrow> ledger \<Rightarrow> bool \<times> ledger" where
  "append_record r l = (case disk l of
     None \<Rightarrow> (True, l)
   | Some d \<Rightarrow>
       if faults l \<noteq> [] \<and> hd (faults l)
       then (False, l\<lparr>faults := tl (faults l), persist_failures := persist_failures l + 1\<rparr>)
       else (True, l\<lparr>faults := tl (faults l), disk := Some (d @ [Some (encode_record r)]),
                     on_disk := on_disk l + 1\<rparr>))"

definition append_reported :: "journal_record \<Rightarrow> ledger \<Rightarrow> ledger" where
  "append_reported r l =
     (let l1 = l\<lparr>pending := pending l @ [r]\<rparr>
      in if length (pending l1) = 1
         then (let (ok, l2) = append_record r l1
               in if ok then l2\<lparr>pending := tl (pending l2)\<rparr> else l2)
         else l1)"

fun flush_from :: "journal_record list \<Rightarrow> ledger \<Rightarrow> bool \<times> ledger" where
  "flush_from [] l = (True, l\<lparr>pending := []\<rparr>)"
| "flush_from (r # rs) l =
     (let (ok, l1) = append_record r (l\<lparr>pending := r # rs\<rparr>)
      in if ok then flush_from rs l1 else (False, l1))"

definition flush_pending :: "ledger \<Rightarrow> bool \<times> ledger" where
  "flush_pending l = flush_from (pending l) l"

text \<open>\<open>flushPending() \&\& append(record)\<close>, the guard of every tombstone.\<close>

definition flush_append :: "journal_record \<Rightarrow> ledger \<Rightarrow> bool \<times> ledger" where
  "flush_append r l = (let (ok, l1) = flush_pending l
     in if ok then append_record r l1 else (False, l1))"

definition repair_reserve_prefix :: "string \<Rightarrow> reservation \<Rightarrow> ledger \<Rightarrow> ledger" where
  "repair_reserve_prefix send r l = (case map_of (nondurable l) send of
     None \<Rightarrow> l
   | Some rec \<Rightarrow> l\<lparr>pending := pending l @ [rec] @
          (if status r = Dispatched then [RDispatch send (resolved_at r)] else []),
        nondurable := AList.delete send (nondurable l),
        retained := List.insert send (retained l)\<rparr>)"


section \<open>Moving the counters\<close>

fun book_targets :: "(scope_state \<Rightarrow> scope_state) \<Rightarrow> scope_ref list \<Rightarrow> scope_map \<Rightarrow> scope_map" where
  "book_targets f [] m = m"
| "book_targets f (k # ks) m = book_targets f ks (AList.update k (f (scope_at m k)) m)"

definition reserve_scope :: "amount \<Rightarrow> instant \<Rightarrow> scope_state \<Rightarrow> scope_state" where
  "reserve_scope n t s = s\<lparr>reserved := reserved s + n, last_seen_at := max (last_seen_at s) t\<rparr>"

definition apply_reserve ::
    "string \<Rightarrow> scope_ref list \<Rightarrow> amount \<Rightarrow> instant \<Rightarrow> ledger \<Rightarrow> ledger" where
  "apply_reserve send ts n t l =
     (if jm_has (reservations l) send then l
      else l\<lparr>reservations := AList.update send
               \<lparr>targets = ts, tokens = n, status = Open, reserved_at = t, resolved_at = t\<rparr>
               (reservations l),
             scopes := book_targets (reserve_scope n t) ts (scopes l)\<rparr>)"

text \<open>One target of a resolution; \<open>n\<close> is the reservation's size, \<open>actual\<close> the settled figure.\<close>

definition resolve_scope ::
    "send_status \<Rightarrow> amount \<Rightarrow> amount \<Rightarrow> instant \<Rightarrow> scope_state \<Rightarrow> scope_state" where
  "resolve_scope outcome n actual t s =
     s\<lparr>reserved := max 0 (reserved s - n),
       unresolved := (if outcome = Lost then unresolved s + n else unresolved s),
       settled := (if outcome = Settled then settled s + actual else settled s),
       last_seen_at := max (last_seen_at s) t\<rparr>"

definition forget_memory :: "string \<Rightarrow> ledger \<Rightarrow> ledger" where
  "forget_memory send l = l\<lparr>nondurable := AList.delete send (nondurable l),
     retained := removeAll send (retained l)\<rparr>"

definition apply_resolve :: "string \<Rightarrow> send_status \<Rightarrow> amount \<Rightarrow> instant \<Rightarrow> ledger \<Rightarrow> ledger" where
  "apply_resolve send outcome actual t l = (case map_of (reservations l) send of
     None \<Rightarrow> l
   | Some r \<Rightarrow>
       if \<not> is_live (status r) then l
       else (forget_memory send l)
         \<lparr>reservations := AList.update send (r\<lparr>status := outcome, resolved_at := t\<rparr>) (reservations l),
          scopes := book_targets (resolve_scope outcome (tokens r) actual t) (targets r) (scopes l)\<rparr>)"

definition apply_dispatch :: "string \<Rightarrow> instant \<Rightarrow> ledger \<Rightarrow> ledger" where
  "apply_dispatch send t l = (case map_of (reservations l) send of
     None \<Rightarrow> l
   | Some r \<Rightarrow>
       if status r \<noteq> Open then l
       else l\<lparr>reservations :=
         AList.update send (r\<lparr>status := Dispatched, resolved_at := t\<rparr>) (reservations l)\<rparr>)"

definition apply_forget :: "string \<Rightarrow> ledger \<Rightarrow> ledger" where
  "apply_forget send l = (case map_of (reservations l) send of
     None \<Rightarrow> l
   | Some r \<Rightarrow>
       if is_live (status r) then l
       else (forget_memory send l)\<lparr>reservations := AList.delete send (reservations l)\<rparr>)"

definition apply_drop :: "scope_ref \<Rightarrow> ledger \<Rightarrow> ledger" where
  "apply_drop k l = (case map_of (scopes l) k of
     None \<Rightarrow> l
   | Some s \<Rightarrow> if reserved s > 0 then l else l\<lparr>scopes := AList.delete k (scopes l)\<rparr>)"

definition checkpoint_scope_state :: "checkpoint_scope \<Rightarrow> scope_state" where
  "checkpoint_scope_state c = \<lparr>settled = cs_settled c, reserved = 0,
     unresolved = cs_unresolved c, last_seen_at = cs_seen_at c\<rparr>"

definition restore_send :: "checkpoint_send \<Rightarrow> ledger \<Rightarrow> ledger" where
  "restore_send c l =
     (if is_live (cd_status c)
      then (let l1 = apply_reserve (cd_send c) (cd_targets c) (cd_tokens c) (cd_at c) l
            in if cd_status c = Dispatched then apply_dispatch (cd_send c) (cd_resolved_at c) l1
               else l1)
      else l\<lparr>reservations := AList.update (cd_send c)
               \<lparr>targets = cd_targets c, tokens = cd_tokens c, status = cd_status c,
                reserved_at = cd_at c, resolved_at = cd_resolved_at c\<rparr> (reservations l)\<rparr>)"

definition apply_checkpoint :: "checkpoint_scope list \<Rightarrow> checkpoint_send list \<Rightarrow> ledger \<Rightarrow> ledger" where
  "apply_checkpoint ss ds l =
     fold restore_send ds
       (l\<lparr>scopes := fold (\<lambda>c. AList.update (cs_ref c) (checkpoint_scope_state c)) ss [],
          reservations := []\<rparr>)"


section \<open>Eviction\<close>

definition active_refs :: "reservation_map \<Rightarrow> scope_ref list" where
  "active_refs m = concat (map (\<lambda>(k, r). if is_live (status r) then targets r else []) m)"

definition scope_idle :: "ledger \<Rightarrow> scope_ref \<Rightarrow> scope_state \<Rightarrow> bool" where
  "scope_idle l k s \<longleftrightarrow> reserved s = 0 \<and> k \<notin> set (active_refs (reservations l))
     \<and> \<not> jm_has (pinned_keys l) k"

definition try_drop :: "instant \<Rightarrow> scope_ref \<Rightarrow> nat \<times> ledger \<Rightarrow> nat \<times> ledger" where
  "try_drop t k = (\<lambda>(n, l). let (ok, l1) = flush_append (RDrop (fst k) (snd k) t) l
     in if ok then (n + 1, l1\<lparr>scopes := AList.delete k (scopes l1)\<rparr>) else (n, l1))"

definition expired_unbound :: "instant \<Rightarrow> ledger \<Rightarrow> scope_ref list" where
  "expired_unbound t l = map fst (filter (\<lambda>(k, s). fst k = Pool
     \<and> \<not> pool_known (continuity l) (snd k) \<and> scope_idle l k s
     \<and> last_seen_at s < t - retention_ms (policy l)) (scopes l))"

definition pinned_pool_groups :: "ledger \<Rightarrow> string list" where
  "pinned_pool_groups l = map (\<lambda>k. pool_resolve (continuity l) (snd k))
     (filter (\<lambda>k. fst k = Pool)
        (active_refs (reservations l) @ concat (map (\<lambda>(i, s). seed_targets s) (seeds l))))"

definition group_members :: "continuity \<Rightarrow> string \<Rightarrow> scope_map \<Rightarrow> scope_map" where
  "group_members c g m = filter (\<lambda>(k, s). fst k = Pool \<and> pool_known c (snd k)
     \<and> pool_resolve c (snd k) = g) m"

definition overlay_members :: "continuity \<Rightarrow> scope_map \<Rightarrow> scope_map" where
  "overlay_members c m = filter (\<lambda>(k, s). fst k = Pool \<and> \<not> pool_known c (snd k)) m"

text \<open>What a scope counts as for eviction: a bound pool bucket counts as its whole group.\<close>

definition effective_state :: "ledger \<Rightarrow> scope_ref \<Rightarrow> scope_state \<Rightarrow> scope_state" where
  "effective_state l k s =
     (if fst k = Pool \<and> pool_known (continuity l) (snd k)
      then let g = total_scope (group_members (continuity l)
                     (pool_resolve (continuity l) (snd k)) (scopes l));
               o' = total_scope (overlay_members (continuity l) (scopes l))
           in \<lparr>settled = settled g + settled o', reserved = reserved g + reserved o',
               unresolved = unresolved g + unresolved o', last_seen_at = last_seen_at g\<rparr>
      else s)"

definition evictable_scope :: "instant \<Rightarrow> bool \<Rightarrow> ledger \<Rightarrow> scope_ref \<Rightarrow> scope_state \<Rightarrow> bool" where
  "evictable_scope t force l k s \<longleftrightarrow> scope_idle l k s
     \<and> \<not> (fst k = Pool \<and> \<not> pool_known (continuity l) (snd k) \<and> spent s > 0)
     \<and> \<not> reserved (effective_state l k s) > 0
     \<and> \<not> (fst k = Pool \<and> pool_resolve (continuity l) (snd k) \<in> set (pinned_pool_groups l))
     \<and> \<not> is_exhausted (policy l) (fst k) (effective_state l k s)
     \<and> (force \<or> last_seen_at (effective_state l k s) < t - retention_ms (policy l))"

definition oldest_one :: "('a \<Rightarrow> instant) \<Rightarrow> bool \<Rightarrow> 'a list \<Rightarrow> 'a list" where
  "oldest_one f force xs = (if force then take 1 (sort_key f xs) else xs)"

definition scope_candidates :: "instant \<Rightarrow> bool \<Rightarrow> ledger \<Rightarrow> scope_ref list" where
  "scope_candidates t force l = map fst (oldest_one (\<lambda>(k, s). last_seen_at s) force
     (filter (\<lambda>(k, s). evictable_scope t force l k s) (scopes l)))"

definition evict_scopes :: "instant \<Rightarrow> bool \<Rightarrow> ledger \<Rightarrow> nat \<times> ledger" where
  "evict_scopes t force l =
     (let (n1, l1) = fold (try_drop t) (expired_unbound t l) (0, l)
      in fold (try_drop t) (scope_candidates t force l1) (n1, l1))"

definition try_forget :: "instant \<Rightarrow> string \<Rightarrow> nat \<times> ledger \<Rightarrow> nat \<times> ledger" where
  "try_forget t send = (\<lambda>(n, l). let (ok, l1) = flush_append (RForget send t) l
     in if ok then (n + 1, (forget_memory send l1)\<lparr>reservations :=
                       AList.delete send (reservations l1)\<rparr>) else (n, l1))"

definition send_candidates :: "instant \<Rightarrow> bool \<Rightarrow> ledger \<Rightarrow> string list" where
  "send_candidates t force l = map fst (oldest_one (\<lambda>(k, r). resolved_at r) force
     (filter (\<lambda>(k, r). \<not> is_live (status r) \<and> \<not> jm_has (seed_by_send l) k
        \<and> (force \<or> resolved_at r < t - retention_ms (policy l))) (reservations l)))"

definition evict_sends :: "instant \<Rightarrow> bool \<Rightarrow> ledger \<Rightarrow> nat \<times> ledger" where
  "evict_sends t force l = fold (try_forget t) (send_candidates t force l) (0, l)"


section \<open>Compaction\<close>

definition checkpoint_of :: "instant \<Rightarrow> scope_map \<Rightarrow> reservation_map \<Rightarrow> journal_record" where
  "checkpoint_of t sm rm = RCheckpoint t
     (map (\<lambda>(k, s). \<lparr>cs_ref = k, cs_settled = settled s, cs_unresolved = unresolved s,
        cs_seen_at = last_seen_at s\<rparr>) sm)
     (map (\<lambda>(k, r). \<lparr>cd_send = k, cd_status = status r, cd_targets = targets r,
        cd_tokens = tokens r, cd_at = reserved_at r, cd_resolved_at = resolved_at r\<rparr>) rm)"

definition compact :: "instant \<Rightarrow> ledger \<Rightarrow> ledger" where
  "compact t l =
     (if disk l = None \<or> \<not> can_rewrite l \<or> pending l \<noteq> []
         \<or> on_disk l < nullish (compact_after (policy l)) default_compact_after
      then l
      else if faults l \<noteq> [] \<and> hd (faults l)
      then l\<lparr>faults := tl (faults l), persist_failures := persist_failures l + 1\<rparr>
      else l\<lparr>faults := tl (faults l),
             disk := Some [Some (encode_record (checkpoint_of t (scopes l) (reservations l)))],
             on_disk := 1\<rparr>)"

end
