(* ===== verification/Spend_Ops.thy ===== *)
theory Spend_Ops
  imports Spend_Ledger
begin

text \<open>
  The operations of \<open>SpendReservationLedger\<close> and the replay that builds one, from
  \<open>src/lib/spend-reservation-ledger.ts\<close>. Every operation takes the instant the code reads
  from its clock. The ownership assertion at each entry is the caller's obligation here, and
  cleanups deferred by a tracker are further calls of these operations.
\<close>

section \<open>Writes and deletions the proofs of termination need\<close>

lemma reservations_append_record [simp]: "reservations (snd (append_record r l)) = reservations l"
  by (simp add: append_record_def split: option.splits)

lemma scopes_append_record [simp]: "scopes (snd (append_record r l)) = scopes l"
  by (simp add: append_record_def split: option.splits)

lemma reservations_flush_from [simp]: "reservations (snd (flush_from rs l)) = reservations l"
  by (induction rs arbitrary: l) (simp_all add: split_beta Let_def)

lemma scopes_flush_from [simp]: "scopes (snd (flush_from rs l)) = scopes l"
  by (induction rs arbitrary: l) (simp_all add: split_beta Let_def)

lemma reservations_flush_append [simp]: "reservations (snd (flush_append r l)) = reservations l"
  by (simp add: flush_append_def flush_pending_def split_beta Let_def)

lemma scopes_flush_append [simp]: "scopes (snd (flush_append r l)) = scopes l"
  by (simp add: flush_append_def flush_pending_def split_beta Let_def)

lemma length_delete_member: "k \<in> fst ` set m \<Longrightarrow> length (AList.delete k m) < length m"
  by (induction m) (auto simp: less_Suc_eq_le length_delete_le Suc_le_eq rev_image_eqI)

lemma evict_sends_progress:
  assumes "fst (evict_sends t True l) \<noteq> 0"
  shows "length (reservations (snd (evict_sends t True l))) < length (reservations l)"
proof -
  let ?cs = "sort_key (\<lambda>(k, r). resolved_at r) (filter (\<lambda>(k, r). \<not> is_live (status r)
    \<and> \<not> jm_has (seed_by_send l) k) (reservations l))"
  have c: "send_candidates t True l = map fst (take 1 ?cs)"
    by (simp add: send_candidates_def oldest_one_def)
  show ?thesis
  proof (cases ?cs)
    case Nil
    with assms c show ?thesis by (simp add: evict_sends_def)
  next
    case (Cons x xs)
    then have "x \<in> set ?cs" by simp
    then have "x \<in> set (reservations l)" by auto
    with Cons c assms show ?thesis
      by (auto simp: evict_sends_def try_forget_def forget_memory_def split_beta Let_def
          split: if_splits intro!: length_delete_member)
  qed
qed

lemma length_scopes_try_drop: "length (scopes (snd (try_drop t k nl))) \<le> length (scopes (snd nl))"
  by (cases nl) (auto simp: try_drop_def split_beta Let_def length_delete_le)

lemma fst_try_drop: "fst nl \<le> fst (try_drop t k nl)"
  by (cases nl) (auto simp: try_drop_def split_beta Let_def)

lemma try_drop_cases:
  obtains (kept) "fst (try_drop t k nl) = fst nl" "scopes (snd (try_drop t k nl)) = scopes (snd nl)"
  | (dropped) "fst (try_drop t k nl) = Suc (fst nl)"
      "scopes (snd (try_drop t k nl)) = AList.delete k (scopes (snd nl))"
proof (cases "fst (flush_append (RDrop (fst k) (snd k) t) (snd nl))")
  case True
  then show ?thesis by (intro dropped) (simp_all add: try_drop_def split_beta Let_def)
next
  case False
  then show ?thesis by (intro kept) (simp_all add: try_drop_def split_beta Let_def)
qed

lemma length_scopes_fold_try_drop:
  "length (scopes (snd (fold (try_drop t) ks nl))) \<le> length (scopes (snd nl))"
proof (induction ks arbitrary: nl)
  case (Cons k ks)
  from Cons [of "try_drop t k nl"] length_scopes_try_drop [of t k nl] show ?case
    by (simp del: fold_simps add: fold_Cons)
qed simp

lemma fst_fold_try_drop: "fst nl \<le> fst (fold (try_drop t) ks nl)"
proof (induction ks arbitrary: nl)
  case (Cons k ks)
  from Cons [of "try_drop t k nl"] fst_try_drop [of nl t k] show ?case by simp
qed simp

lemma fold_try_drop_progress:
  assumes "set ks \<subseteq> fst ` set (scopes (snd nl))" "fst (fold (try_drop t) ks nl) \<noteq> fst nl"
  shows "length (scopes (snd (fold (try_drop t) ks nl))) < length (scopes (snd nl))"
  using assms
proof (induction ks arbitrary: nl)
  case Nil
  then show ?case by simp
next
  case (Cons k ks)
  show ?case
  proof (cases rule: try_drop_cases [of t k nl])
    case kept
    with Cons.IH [of "try_drop t k nl"] Cons.prems show ?thesis by simp
  next
    case dropped
    have "length (AList.delete k (scopes (snd nl))) < length (scopes (snd nl))"
      using Cons.prems(1) by (intro length_delete_member) simp
    with dropped length_scopes_fold_try_drop [of t ks "try_drop t k nl"] show ?thesis by simp
  qed
qed

lemma evict_scopes_progress:
  assumes "fst (evict_scopes t force l) \<noteq> 0"
  shows "length (scopes (snd (evict_scopes t force l))) < length (scopes l)"
proof -
  let ?nl1 = "fold (try_drop t) (expired_unbound t l) (0, l)"
  let ?l1 = "snd ?nl1"
  have e: "evict_scopes t force l = fold (try_drop t) (scope_candidates t force ?l1) ?nl1"
    by (simp add: evict_scopes_def split_beta Let_def)
  have sub: "set (expired_unbound t l) \<subseteq> fst ` set (scopes l)"
    by (auto simp: expired_unbound_def)
  have "set (scope_candidates t force ?l1) \<subseteq> fst ` set (scopes ?l1)"
    by (auto simp: scope_candidates_def oldest_one_def dest!: in_set_takeD)
  then have 2: "length (scopes (snd (evict_scopes t force l))) < length (scopes ?l1)"
    if "fst (evict_scopes t force l) \<noteq> fst ?nl1"
    using that unfolding e by (intro fold_try_drop_progress) auto
  have 1: "length (scopes ?l1) < length (scopes l)" if "fst ?nl1 \<noteq> 0"
    using fold_try_drop_progress [of "expired_unbound t l" "(0, l)" t] sub that by simp
  have "length (scopes ?l1) \<le> length (scopes l)"
    using length_scopes_fold_try_drop [of t _ "(0, l)"] by simp
  moreover have "length (scopes (snd (evict_scopes t force l))) \<le> length (scopes ?l1)"
    unfolding e by (rule length_scopes_fold_try_drop)
  ultimately show ?thesis
    using assms 1 2 by (cases "fst ?nl1 = 0") auto
qed


section \<open>Making room\<close>

datatype spend_denial =
    PoolHistoryUnresolved
  | LimitExceeded spend_scope string amount amount bool
  | DuplicateSendId string
  | ReserveNotDurable string
  | JournalCorrupt nat
  | CapacityExhausted "spend_scope option"

definition max_sends :: "ledger \<Rightarrow> nat" where
  "max_sends l = nullish (max_tracked_sends (policy l)) default_max_tracked_sends"

definition max_scopes :: "ledger \<Rightarrow> nat" where
  "max_scopes l = nullish (max_tracked_scopes (policy l)) default_max_tracked_scopes"

function room_for_send :: "instant \<Rightarrow> ledger \<Rightarrow> bool \<times> ledger" where
  "room_for_send t l =
     (if length (reservations l) \<ge> max_sends l
      then if fst (evict_sends t True l) = 0 then (False, snd (evict_sends t True l))
           else room_for_send t (snd (evict_sends t True l))
      else (True, l))"
  by pat_completeness auto

termination
  by (relation "measure (\<lambda>(t, l). length (reservations l))") (auto intro: evict_sends_progress)

definition fresh_count :: "scope_ref list \<Rightarrow> ledger \<Rightarrow> nat" where
  "fresh_count refs l = length (filter (\<lambda>k. \<not> jm_has (scopes l) k) refs)"

function room_for_scopes :: "scope_ref list \<Rightarrow> instant \<Rightarrow> ledger \<Rightarrow> bool \<times> ledger" where
  "room_for_scopes refs t l =
     (if length (scopes l) + fresh_count refs l > max_scopes l
      then if fst (evict_scopes t True l) = 0 then (False, snd (evict_scopes t True l))
           else room_for_scopes refs t (snd (evict_scopes t True l))
      else (True, l))"
  by pat_completeness auto

termination
  by (relation "measure (\<lambda>(refs, t, l). length (scopes l))") (auto intro: evict_scopes_progress)

declare room_for_send.simps [simp del] room_for_scopes.simps [simp del]

definition make_room :: "scope_ref list \<Rightarrow> instant \<Rightarrow> ledger \<Rightarrow> spend_denial option \<times> ledger" where
  "make_room refs t l =
     (let l1 = snd (evict_sends t False l);
          l2 = snd (evict_scopes t False l1);
          (ok, l3) = room_for_send t l2
      in if \<not> ok then (Some (CapacityExhausted None), l3)
         else (let (ok', l4) = room_for_scopes refs t l3
               in if \<not> ok'
                  then (Some (CapacityExhausted
                         (case refs of [] \<Rightarrow> None | r # rs \<Rightarrow> Some (fst r))), l4)
                  else (None, l4)))"


section \<open>Admission\<close>

definition prepare_pool_continuity ::
    "alias_hash \<Rightarrow> string option \<Rightarrow> ledger \<Rightarrow> spend_denial option" where
  "prepare_pool_continuity h requested l =
     (if \<not> valid (continuity l)
        \<or> validate_pool_alias_owners h (pool_aliases (policy l))
            (nullish (canonical_providers (policy l)) [] @
             (case requested of None \<Rightarrow> [] | Some p \<Rightarrow> [p])) \<noteq> None
      then Some PoolHistoryUnresolved else None)"

record spend_request =
  admission_policy :: "spend_limits option"
  send_id :: string
  req_scopes :: spend_scopes
  input_tokens :: jsnum
  output_ceiling_tokens :: jsnum
  req_at :: "instant option"
  already_sent :: bool

datatype spend_decision =
    Reserved string amount bool
  | Refused spend_denial

definition request_tokens :: "spend_request \<Rightarrow> amount" where
  "request_tokens q = sanitize_tokens (input_tokens q) + sanitize_tokens (output_ceiling_tokens q)"

definition admission_limit :: "spend_request \<Rightarrow> ledger \<Rightarrow> spend_scope \<Rightarrow> amount option" where
  "admission_limit q l s = scope_limit (nullish (admission_policy q) (limits (policy l))) s"

definition scope_id_of :: "spend_scopes \<Rightarrow> spend_scope \<Rightarrow> string" where
  "scope_id_of t s = nullish (case s of Root \<Rightarrow> root_id t | Identity \<Rightarrow> identity_id t
     | Pool \<Rightarrow> pool_id t) []"

text \<open>The totals a limit is compared with: of the scope, or of the candidate pool's view.\<close>

definition view_of :: "ledger \<Rightarrow> scope_ref \<Rightarrow> scope_state \<times> bool" where
  "view_of l k =
     (if fst k = Pool then nullish (pool_state (continuity l) (snd k) (scopes l)) (zero_scope, False)
      else (scope_at (scopes l) k, False))"

definition limit_denial :: "spend_request \<Rightarrow> ledger \<Rightarrow> scope_ref \<Rightarrow> spend_denial option" where
  "limit_denial q l k =
     (case (if already_sent q then None else admission_limit q l (fst k)) of
        None \<Rightarrow> None
      | Some limit \<Rightarrow>
          (let (st, unbound) = view_of l k; projected = spent st + request_tokens q
           in if projected > limit
              then Some (LimitExceeded (fst k) (scope_id_of (req_scopes q) (fst k)) limit projected
                           unbound)
              else None))"

definition reserve :: "alias_hash \<Rightarrow> spend_request \<Rightarrow> instant \<Rightarrow> ledger \<Rightarrow> spend_decision \<times> ledger" where
  "reserve h q clock l0 =
     (let (pending_durable, l) = flush_pending l0;
          n = request_tokens q;
          t = nullish (req_at q) clock;
          send = h ''send'' (send_id q);
          refs = refs_for h (req_scopes q);
          enforced = list_ex (\<lambda>k. admission_limit q l (fst k) \<noteq> None) refs
      in if jm_has (reservations l) send \<or> jm_has (seed_by_send l) send
         then (Refused (DuplicateSendId (send_id q)), l)
         else if enforced \<and> corrupt l > 0 then (Refused (JournalCorrupt (corrupt l)), l)
         else if enforced \<and> \<not> already_sent q \<and> \<not> pending_durable
         then (Refused (ReserveNotDurable (send_id q)), l)
         else if prepare_pool_continuity h (pool_id (req_scopes q)) l \<noteq> None
                 \<and> enforced \<and> \<not> already_sent q
         then (Refused PoolHistoryUnresolved, l)
         else (case make_room refs t l of
             (Some d, l1) \<Rightarrow> (Refused d, l1)
           | (None, l1) \<Rightarrow>
               (case first_error (limit_denial q l1) refs of
                  Some d \<Rightarrow> (Refused d, l1)
                | None \<Rightarrow>
                    (let rec = RReserve send refs n t;
                         (durable, l2) = append_record rec l1
                     in if \<not> durable \<and> enforced \<and> \<not> already_sent q
                        then (Refused (ReserveNotDurable (send_id q)), l2)
                        else (let l3 = apply_reserve send refs n t l2;
                                  l4 = (if durable then l3
                                        else l3\<lparr>nondurable := AList.update send rec (nondurable l3)\<rparr>)
                              in (Reserved (send_id q) n durable, compact t l4))))))"

definition mark_dispatched :: "alias_hash \<Rightarrow> string \<Rightarrow> instant \<Rightarrow> ledger \<Rightarrow> bool \<times> ledger" where
  "mark_dispatched h i t l =
     (let send = h ''send'' i
      in case map_of (reservations l) send of
           None \<Rightarrow> (False, l)
         | Some r \<Rightarrow>
             if status r = Dispatched \<and> jm_has (seed_by_send l) send then (True, l)
             else if status r \<noteq> Open then (False, l)
             else (let l1 = apply_dispatch send t (repair_reserve_prefix send r l);
                       rec = RDispatch send t
                   in (True, if jm_has (seed_by_send l1) send \<or> send \<in> set (retained l1)
                             then append_reported rec l1 else snd (append_record rec l1))))"

definition abandon :: "alias_hash \<Rightarrow> string \<Rightarrow> instant \<Rightarrow> ledger \<Rightarrow> bool \<times> ledger" where
  "abandon h i t l =
     (let send = h ''send'' i
      in case map_of (reservations l) send of
           None \<Rightarrow> (False, l)
         | Some r \<Rightarrow>
             if status r \<noteq> Open then (False, l)
             else (case map_of (seed_by_send l) send of
                 None \<Rightarrow> (True, snd (append_record (RAbandon send t)
                                  (apply_resolve send Abandoned 0 t l)))
               | Some sid \<Rightarrow>
                   (let (ok, l1) = flush_append (RAbandon send t) l
                    in if \<not> ok then (False, l1)
                       else (let l2 = apply_resolve send Abandoned 0 t l1
                             in (True, l2\<lparr>seeds := map (\<lambda>(j, s). (j, if j = sid
                                    then s\<lparr>seed_abandoned := True\<rparr> else s)) (seeds l2)\<rparr>)))))"

text \<open>The common part of \<open>settle\<close> and \<open>markLost\<close>: book the outcome, write its record.\<close>

definition finish_send ::
    "string \<Rightarrow> send_status \<Rightarrow> amount \<Rightarrow> journal_record \<Rightarrow> instant \<Rightarrow> ledger \<Rightarrow> bool \<times> ledger" where
  "finish_send send outcome actual rec t l =
     (case map_of (reservations l) send of
        None \<Rightarrow> (False, l)
      | Some r \<Rightarrow>
          if \<not> is_live (status r) then (False, l)
          else (let l1 = repair_reserve_prefix send r l;
                    seeded = (jm_has (seed_by_send l1) send \<or> send \<in> set (retained l1));
                    l2 = (if seeded
                          then (if pending l1 \<noteq> [] then l1\<lparr>pending := pending l1 @ [rec]\<rparr>
                                else (let (ok, l') = append_record rec l1
                                      in if ok then l' else l'\<lparr>pending := pending l' @ [rec]\<rparr>))
                          else l1);
                    l3 = apply_resolve send outcome actual t l2
                in (True, if seeded then l3 else snd (append_record rec l3))))"

definition usage_tokens :: "jsnum \<Rightarrow> jsnum \<Rightarrow> amount" where
  "usage_tokens i out = sanitize_tokens i + sanitize_tokens out"

definition settle :: "alias_hash \<Rightarrow> string \<Rightarrow> jsnum \<Rightarrow> jsnum \<Rightarrow> instant \<Rightarrow> ledger \<Rightarrow> bool \<times> ledger" where
  "settle h i inp out t l =
     (let send = h ''send'' i
      in finish_send send Settled (usage_tokens inp out)
           (RSettle send (usage_tokens inp out) t) t l)"

definition mark_lost :: "alias_hash \<Rightarrow> string \<Rightarrow> instant \<Rightarrow> ledger \<Rightarrow> bool \<times> ledger" where
  "mark_lost h i t l =
     (let send = h ''send'' i in finish_send send Lost 0 (RLost send t) t l)"


section \<open>Seeds and reporters\<close>

text \<open>
  A seed is an object whose identity is the capability; here a number that is never reused.
  An owner is an object as well, here a number.
\<close>

datatype seed_decision = SeedReserved nat | SeedRefused spend_denial

definition pin :: "scope_ref \<Rightarrow> (scope_ref, nat) jsmap \<Rightarrow> (scope_ref, nat) jsmap" where
  "pin k m = AList.update k (nullish (map_of m k) 0 + 1) m"

definition unpin :: "scope_ref \<Rightarrow> (scope_ref, nat) jsmap \<Rightarrow> (scope_ref, nat) jsmap" where
  "unpin k m = (let n = nullish (map_of m k) 0 - 1
     in if n = 0 then AList.delete k m else AList.update k n m)"

definition reserve_seed ::
    "alias_hash \<Rightarrow> spend_request \<Rightarrow> nat option \<Rightarrow> instant \<Rightarrow> ledger \<Rightarrow> seed_decision \<times> ledger" where
  "reserve_seed h q owner clock l =
     (case reserve h (q\<lparr>already_sent := False\<rparr>) clock l of
        (Refused d, l1) \<Rightarrow> (SeedRefused d, l1)
      | (Reserved i n dur, l1) \<Rightarrow>
          (let send = h ''send'' (send_id q);
               ts = (case map_of (reservations l1) send of Some r \<Rightarrow> targets r | None \<Rightarrow> []);
               sid = next_seed l1
           in (SeedReserved sid,
               l1\<lparr>seeds := AList.update sid \<lparr>seed_anchor = send_id q, seed_targets = ts, seed_sends = [send],
                      seed_abandoned = False, seed_owner = owner\<rparr> (seeds l1),
                  next_seed := sid + 1,
                  seed_by_send := AList.update send sid (seed_by_send l1),
                  pinned_keys := fold pin ts (pinned_keys l1)\<rparr>)))"

definition reserve_reported_from_seed ::
    "alias_hash \<Rightarrow> nat \<Rightarrow> string \<Rightarrow> jsnum \<Rightarrow> jsnum \<Rightarrow> instant \<Rightarrow> ledger \<Rightarrow> bool \<times> ledger" where
  "reserve_reported_from_seed h sid i inp out t l =
     (let send = h ''send'' i in
      case map_of (seeds l) sid of
        None \<Rightarrow> (False, l)
      | Some s \<Rightarrow>
          if seed_abandoned s \<or> list_ex (\<lambda>k. \<not> jm_has (scopes l) k) (seed_targets s)
          then (False, l)
          else (let n = usage_tokens inp out in
            if jm_has (reservations l) send \<or> jm_has (seed_by_send l) send
            then (map_of (seed_by_send l) send = Some sid \<and>
                  (case map_of (reservations l) send of None \<Rightarrow> False
                   | Some r \<Rightarrow> is_live (status r) \<and> tokens r = n), l)
            else
              (let l1 = apply_reserve send (seed_targets s) n t l;
                   l2 = l1\<lparr>seeds := AList.update sid (s\<lparr>seed_sends := send # seed_sends s\<rparr>) (seeds l1),
                           seed_by_send := AList.update send sid (seed_by_send l1)\<rparr>
               in (True, compact t (append_reported (RReserve send (seed_targets s) n t) l2)))))"

definition active_reporters :: "nat option \<Rightarrow> ledger \<Rightarrow> nat" where
  "active_reporters owner l = (case owner of None \<Rightarrow> reporters l
     | Some w \<Rightarrow> nullish (map_of (owner_reporters l) w) 0)"

fun forget_all :: "instant \<Rightarrow> string list \<Rightarrow> ledger \<Rightarrow> bool \<times> ledger" where
  "forget_all t [] l = (True, l)"
| "forget_all t (send # rest) l =
     (if \<not> jm_has (reservations l) send then forget_all t rest l
      else (let (ok, l1) = append_record (RForget send t) l
            in if \<not> ok then (False, l1) else forget_all t rest (apply_forget send l1)))"

definition forget_resolved ::
    "alias_hash \<Rightarrow> string list \<Rightarrow> nat option \<Rightarrow> instant \<Rightarrow> ledger \<Rightarrow> bool \<times> ledger" where
  "forget_resolved h ids owner t l =
     (if active_reporters owner l > 0 then (False, l)
      else (let sends = remdups (map (h ''send'') ids)
        in if list_ex (\<lambda>s. case map_of (seed_by_send l) s of None \<Rightarrow> False
                 | Some sid \<Rightarrow> (case map_of (seeds l) sid of None \<Rightarrow> False
                     | Some sd \<Rightarrow> seed_owner sd \<noteq> owner)) sends
           then (False, l)
           else (let (ok, l1) = flush_pending l
             in if \<not> ok then (False, l1)
                else if list_ex (\<lambda>s. case map_of (reservations l1) s of None \<Rightarrow> False
                       | Some r \<Rightarrow> is_live (status r)) sends
                then (False, l1)
                else forget_all t sends l1)))"

definition release_seed :: "nat \<Rightarrow> seed_state \<Rightarrow> ledger \<Rightarrow> ledger" where
  "release_seed sid s l = l\<lparr>seeds := AList.delete sid (seeds l),
     seed_by_send := fold AList.delete (seed_sends s) (seed_by_send l),
     pinned_keys := fold unpin (seed_targets s) (pinned_keys l)\<rparr>"

definition finish_seed ::
    "alias_hash \<Rightarrow> nat \<Rightarrow> nat option \<Rightarrow> instant \<Rightarrow> ledger \<Rightarrow> bool \<times> ledger" where
  "finish_seed h sid owner t l =
     (case map_of (seeds l) sid of
        None \<Rightarrow> (False, l)
      | Some s \<Rightarrow>
          if seed_owner s \<noteq> owner then (False, l)
          else (let (ok, l1) = flush_pending l
            in if \<not> ok then (False, l1)
               else
                 (let (go, l2) =
                    (if seed_abandoned s
                     then (if jm_has (reservations l1) (h ''send'' (seed_anchor s))
                           then (let (ok2, l') = append_record (RForget (h ''send'' (seed_anchor s)) t) l1
                                 in if ok2 then (True, apply_forget (h ''send'' (seed_anchor s)) l')
                                    else (False, l'))
                           else (True, l1))
                     else (active_reporters owner l1 = 0, l1))
                  in if \<not> go then (False, l2)
                     else if list_ex (\<lambda>x. jm_has (reservations l2) x) (seed_sends s) then (False, l2)
                     else (True, release_seed sid s l2))))"

definition register_reporter :: "nat option \<Rightarrow> ledger \<Rightarrow> ledger" where
  "register_reporter owner l =
     (let l1 = l\<lparr>reporters := reporters l + 1\<rparr>
      in case owner of None \<Rightarrow> l1
         | Some w \<Rightarrow> l1\<lparr>owner_reporters :=
             AList.update w (active_reporters owner l1 + 1) (owner_reporters l1)\<rparr>)"

definition close_reporter :: "nat option \<Rightarrow> ledger \<Rightarrow> ledger" where
  "close_reporter owner l =
     (let l1 = l\<lparr>reporters := reporters l - 1\<rparr>
      in case owner of None \<Rightarrow> l1
         | Some w \<Rightarrow> (let n = active_reporters owner l1 - 1
             in l1\<lparr>owner_reporters := (if n = 0 then AList.delete w (owner_reporters l1)
                                        else AList.update w n (owner_reporters l1))\<rparr>))"


section \<open>Views and maintenance\<close>

definition check_pool_continuity :: "alias_hash \<Rightarrow> ledger \<Rightarrow> spend_denial option" where
  "check_pool_continuity h l =
     (if pool_max (limits (policy l)) = None then None
      else if corrupt l > 0 then Some (JournalCorrupt (corrupt l))
      else prepare_pool_continuity h None l)"

definition knows :: "alias_hash \<Rightarrow> string \<Rightarrow> ledger \<Rightarrow> bool" where
  "knows h i l \<longleftrightarrow> jm_has (reservations l) (h ''send'' i) \<or> jm_has (seed_by_send l) (h ''send'' i)"

record scope_snapshot =
  snap_settled :: amount
  snap_reserved :: amount
  snap_unresolved :: amount
  snap_exhausted :: bool

definition snapshot :: "alias_hash \<Rightarrow> spend_scope \<Rightarrow> string \<Rightarrow> ledger \<Rightarrow> scope_snapshot option" where
  "snapshot h s i l = map_option (\<lambda>st. \<lparr>snap_settled = settled st, snap_reserved = reserved st,
       snap_unresolved = unresolved st, snap_exhausted = is_exhausted (policy l) s st\<rparr>)
     (state_for s (h (scope_name s) i) l)"

definition own_open_tokens ::
    "alias_hash \<Rightarrow> spend_scope \<Rightarrow> string \<Rightarrow> string option \<Rightarrow> ledger \<Rightarrow> amount option" where
  "own_open_tokens h s a excluding l =
     (case excluding of None \<Rightarrow> None
      | Some i \<Rightarrow> (case map_of (reservations l) (h ''send'' i) of None \<Rightarrow> None
          | Some r \<Rightarrow>
              if status r = Open \<and> list_ex (\<lambda>(ts, ta). ts = s \<and>
                   (if s = Pool then \<not> pool_known (continuity l) ta
                      \<or> pool_resolve (continuity l) ta = pool_resolve (continuity l) a
                    else ta = a)) (targets r)
              then Some (tokens r) else None))"

definition exhausted ::
    "alias_hash \<Rightarrow> spend_scope \<Rightarrow> string \<Rightarrow> string option \<Rightarrow> spend_limits option \<Rightarrow> ledger \<Rightarrow> bool" where
  "exhausted h s i excluding adm l =
     (let a = h (scope_name s) i
      in case state_for s a l of None \<Rightarrow> False
         | Some st \<Rightarrow>
             (let st1 = (case own_open_tokens h s a excluding l of None \<Rightarrow> st
                         | Some n \<Rightarrow> st\<lparr>reserved := max 0 (reserved st - n)\<rparr>)
              in case scope_limit (nullish adm (limits (policy l))) s of
                   None \<Rightarrow> False | Some m \<Rightarrow> spent st1 \<ge> m))"

definition prune :: "instant \<Rightarrow> ledger \<Rightarrow> ledger" where
  "prune t l = snd (evict_scopes t False (snd (evict_sends t False (snd (flush_pending l)))))"

definition reconfigure :: "alias_hash \<Rightarrow> spend_policy \<Rightarrow> ledger \<Rightarrow> ledger" where
  "reconfigure h p l = l\<lparr>policy := p,
     continuity := resolve_pool_aliases h (pool_aliases p) (canonical_providers p)\<rparr>"

definition degraded :: "ledger \<Rightarrow> bool" where
  "degraded l \<longleftrightarrow> persist_failures l > 0 \<or> corrupt l > 0"


section \<open>Construction and replay\<close>

definition apply_record :: "journal_record \<Rightarrow> ledger \<Rightarrow> ledger" where
  "apply_record rec l = (case rec of
       RReserve s ts n t \<Rightarrow> apply_reserve s ts (sanitize_tokens (Fin n)) t l
     | RDispatch s t \<Rightarrow> apply_dispatch s t l
     | RSettle s n t \<Rightarrow> apply_resolve s Settled (sanitize_tokens (Fin n)) t l
     | RLost s t \<Rightarrow> apply_resolve s Lost 0 t l
     | RAbandon s t \<Rightarrow> apply_resolve s Abandoned 0 t l
     | RForget s t \<Rightarrow> apply_forget s l
     | RDrop sc a t \<Rightarrow> apply_drop (sc, a) l
     | RCheckpoint t ss ds \<Rightarrow> apply_checkpoint ss ds l)"

text \<open>A rejected line is a torn tail only when it is the last one and not complete JSON.\<close>

fun replay_lines :: "journal_line list \<Rightarrow> ledger \<Rightarrow> ledger" where
  "replay_lines [] l = l"
| "replay_lines (x # xs) l =
     replay_lines xs (case parse_record x of
        None \<Rightarrow> if x \<noteq> None \<or> xs \<noteq> [] then l\<lparr>corrupt := corrupt l + 1\<rparr> else l
      | Some rec \<Rightarrow> apply_record rec l)"

definition fresh_ledger ::
    "alias_hash \<Rightarrow> spend_policy \<Rightarrow> journal_line list option \<Rightarrow> bool \<Rightarrow> bool list \<Rightarrow> ledger" where
  "fresh_ledger h p d rw fs =
     \<lparr>policy = p, scopes = [], reservations = [], seeds = [], next_seed = 0, seed_by_send = [],
      pinned_keys = [], pending = [], nondurable = [], retained = [], reporters = 0,
      owner_reporters = [], continuity = resolve_pool_aliases h (pool_aliases p) (canonical_providers p),
      persist_failures = 0, corrupt = 0, on_disk = length (nullish d []), disk = d,
      can_rewrite = rw, faults = fs\<rparr>"

text \<open>
  What becomes of one reservation that survived replay: a live one is recorded and booked as
  lost; under a configured ceiling its id is forgotten once the journal says so. The code
  iterates over the map while it deletes the current key only.
\<close>

definition reconcile_one :: "instant \<Rightarrow> bool \<Rightarrow> string \<Rightarrow> ledger \<Rightarrow> ledger" where
  "reconcile_one t enforced send l =
     (let l1 = (case map_of (reservations l) send of
            Some r \<Rightarrow>
              if is_live (status r)
              then (let (durable, l') = append_record (RLost send t) l;
                        l'' = apply_resolve send Lost 0 t l'
                    in if \<not> durable \<and> enforced then l''\<lparr>pending := pending l'' @ [RLost send t]\<rparr> else l'')
              else l
          | None \<Rightarrow> l)
      in if \<not> enforced then l1
         else (let (ok, l2) = flush_append (RForget send t) l1
               in if ok then apply_forget send l2 else l2))"

definition reconcile :: "instant \<Rightarrow> ledger \<Rightarrow> ledger" where
  "reconcile t l = fold (\<lambda>(send, r). reconcile_one t (spend_ceilings_configured (policy l)) send)
     (reservations l) l"

definition create_ledger ::
    "alias_hash \<Rightarrow> spend_policy \<Rightarrow> journal_line list option \<Rightarrow> bool \<Rightarrow> bool list \<Rightarrow> instant \<Rightarrow> ledger" where
  "create_ledger h p d rw fs t =
     (let l = fresh_ledger h p d rw fs
      in case d of None \<Rightarrow> l | Some lines \<Rightarrow> reconcile t (replay_lines lines l))"


section \<open>The operator's policy\<close>

record spend_config =
  cfg_root :: "jsnum option"
  cfg_identity :: "jsnum option"
  cfg_pool :: "jsnum option"
  cfg_retention_days :: "jsnum option"

fun spend_scope_limit_from_config :: "jsnum option \<Rightarrow> amount option" where
  "spend_scope_limit_from_config (Some (Fin q)) = (if q > 0 then Some (js_trunc q) else None)"
| "spend_scope_limit_from_config _ = None"

fun retention_from_config :: "jsnum option \<Rightarrow> instant" where
  "retention_from_config (Some (Fin d)) =
     (if d > 0 then js_trunc d * 24 * 60 * 60000 else retention_ms default_spend_policy)"
| "retention_from_config _ = retention_ms default_spend_policy"

definition spend_policy_from_config ::
    "spend_config option \<Rightarrow> json option \<Rightarrow> string list option \<Rightarrow> spend_policy" where
  "spend_policy_from_config c aliases ids =
     \<lparr>limits =
        \<lparr>root_max = spend_scope_limit_from_config (Option.bind c cfg_root),
         identity_max = spend_scope_limit_from_config (Option.bind c cfg_identity),
         pool_max = spend_scope_limit_from_config (Option.bind c cfg_pool)\<rparr>,
      pool_aliases = aliases, canonical_providers = ids,
      retention_ms = retention_from_config (Option.bind c cfg_retention_days),
      max_tracked_scopes = None, max_tracked_sends = None, compact_after = None\<rparr>"

text \<open>The process-wide ledger: absent until first use; its policy is remembered beside it.\<close>

record shared_spend =
  shared_ledger :: "ledger option"
  shared_policy :: spend_policy

definition configure_shared_spend :: "alias_hash \<Rightarrow> spend_policy \<Rightarrow> shared_spend \<Rightarrow> shared_spend" where
  "configure_shared_spend h p s =
     \<lparr>shared_ledger = map_option (reconfigure h p) (shared_ledger s), shared_policy = p\<rparr>"

definition shared_spend_ledger ::
    "alias_hash \<Rightarrow> journal_line list \<Rightarrow> bool list \<Rightarrow> instant \<Rightarrow> shared_spend \<Rightarrow> ledger \<times> shared_spend" where
  "shared_spend_ledger h lines fs t s = (case shared_ledger s of
     Some l \<Rightarrow> (l, s)
   | None \<Rightarrow> (let l = create_ledger h (shared_policy s) (Some lines) True fs t
             in (l, s\<lparr>shared_ledger := Some l\<rparr>)))"

record spend_diagnostics =
  sd_initialized :: bool
  sd_configured :: bool
  sd_degraded :: bool
  sd_persist_failures :: nat
  sd_corrupt_records :: nat

definition spend_diagnostics_snapshot :: "shared_spend \<Rightarrow> spend_diagnostics" where
  "spend_diagnostics_snapshot s =
     \<lparr>sd_initialized = (shared_ledger s \<noteq> None),
      sd_configured = spend_ceilings_configured (shared_policy s),
      sd_degraded = (case shared_ledger s of None \<Rightarrow> False | Some l \<Rightarrow> degraded l),
      sd_persist_failures = min 1000000 (case shared_ledger s of None \<Rightarrow> 0 | Some l \<Rightarrow> persist_failures l),
      sd_corrupt_records = min 1000000 (case shared_ledger s of None \<Rightarrow> 0 | Some l \<Rightarrow> corrupt l)\<rparr>"

end
