(* ===== verification/Workflow_Window.thy ===== *)
theory Workflow_Window
  imports Spend_Ops
begin

text \<open>
  The data of \<open>lib/workflow-budget.ts\<close>: its policy, the per-root state with the ring of
  send counts and the map of children, the two counts over the rolling window, the refusal
  reasons with the sentences an operator reads, and the bounded list of recent decisions.
  \<open>Number.NEGATIVE_INFINITY\<close> in a ring slot, which names no slot, is None.
\<close>

section \<open>Policy and refusals\<close>

record workflow_policy =
  max_concurrent_children :: int
  max_physical_sends :: int
  max_distinct_children :: int
  window_declared :: "jsnum option"
  interactive_reserve :: int
  max_tracked_roots :: int

definition workflow_default_window_ms :: instant where
  "workflow_default_window_ms = 10 * 60000"

definition default_workflow_budget_policy :: workflow_policy where
  "default_workflow_budget_policy =
     \<lparr>max_concurrent_children = 8, max_physical_sends = 256, max_distinct_children = 64,
      window_declared = Some (Fin workflow_default_window_ms), interactive_reserve = 1,
      max_tracked_roots = 512\<rparr>"

definition workflow_window_ms :: "workflow_policy \<Rightarrow> instant" where
  "workflow_window_ms p = (case window_declared p of
     Some (Fin w) \<Rightarrow> if w > 0 then w else workflow_default_window_ms
   | _ \<Rightarrow> workflow_default_window_ms)"

text \<open>What a token refusal says: the scope, its ceiling, the projected total if known.\<close>

record spend_detail =
  wd_scope :: spend_scope
  wd_limit :: amount
  wd_projected :: "amount option"
  wd_unbound :: bool

datatype workflow_denial =
    ConcurrencyExhausted
  | SendsExhausted
  | ChildrenExhausted
  | WorkflowSpendExhausted
  | TrackingExhausted
  | SendReplayed
  | SpendUndurable
  | HistoryUnresolved

definition spend_scope_label :: "spend_scope \<Rightarrow> string" where
  "spend_scope_label s = (case s of Root \<Rightarrow> ''task'' | Identity \<Rightarrow> ''account''
     | Pool \<Rightarrow> ''provider pool'')"

text \<open>
  Decimal digits, most significant first, and a comma before every group of three counted
  from the right. The code does the second with a regular expression on the printed number;
  numbers of \<open>10\<^sup>2\<^sup>1\<close> and above, which the language prints with an exponent, are outside.
\<close>

definition digit_char :: "nat \<Rightarrow> char" where
  "digit_char d = char_of (48 + d)"

fun digits_of :: "nat \<Rightarrow> string" where
  "digits_of n = (if n < 10 then [digit_char n] else digits_of (n div 10) @ [digit_char (n mod 10)])"

declare digits_of.simps [simp del]

function thousands :: "string \<Rightarrow> string" where
  "thousands ds = (if length ds \<le> 3 then ds
     else thousands (take (length ds - 3) ds) @ '','' @ drop (length ds - 3) ds)"
  by pat_completeness auto

termination
  by (relation "measure length") auto

declare thousands.simps [simp del]

definition format_token_count :: "rat \<Rightarrow> string" where
  "format_token_count x =
     (let n = (if x < 0 then \<lceil>x\<rceil> else \<lfloor>x\<rfloor>)
      in (if n < 0 then ''-'' else []) @ thousands (digits_of (nat \<bar>n\<bar>)))"

definition spend_summary :: "spend_detail \<Rightarrow> string" where
  "spend_summary d =
     ''This proxy refused the request locally: the configured '' @ spend_scope_label (wd_scope d)
     @ '' token ceiling of '' @ format_token_count (wd_limit d) @ '' is spent''
     @ (case wd_projected d of None \<Rightarrow> []
        | Some n \<Rightarrow> '' (this send would have taken it to '' @ format_token_count n @ '')'')
     @ (if wd_unbound d
        then ''. The total includes unassigned historical provider-pool balances, conservatively counted against every provider pool until verified mappings assign them; this can overrestrict otherwise unused pools''
        else [])
     @ '', so this send was refused before contacting a provider. Spend is durable, so it does not roll forward''
     @ '' with the send window: raise or remove spend.'' @ scope_name (wd_scope d)
     @ ''.maxTokens in config.json to grant more.''"

definition workflow_denial_summary :: "workflow_denial \<Rightarrow> spend_detail option \<Rightarrow> string \<times> string" where
  "workflow_denial_summary r d = (case r of
     SendsExhausted \<Rightarrow> (''workflow_sends_exhausted'',
       ''This proxy refused the request locally: the task reached its send ceiling for''
       @ '' the current window, so no provider was contacted. The window rolls forward on its''
       @ '' own; work already in flight settles as it finishes.'')
   | ChildrenExhausted \<Rightarrow> (''workflow_children_exhausted'',
       ''This proxy refused the request locally: the task reached its ceiling on''
       @ '' distinct child threads for the current window, so no provider was contacted.''
       @ '' A child that goes quiet ages out of the count.'')
   | ConcurrencyExhausted \<Rightarrow> (''workflow_concurrency_exhausted'',
       ''This proxy refused the request locally: the task has no free concurrency slot,''
       @ '' so no provider was contacted. Slots are released as the turns holding them finish.'')
   | WorkflowSpendExhausted \<Rightarrow> (''workflow_spend_exhausted'',
       (case d of Some x \<Rightarrow> spend_summary x
        | None \<Rightarrow> ''This proxy refused the request locally: the task reached a configured token''
            @ '' ceiling, so no provider was contacted.''))
   | TrackingExhausted \<Rightarrow> (''workflow_tracking_exhausted'',
       ''This proxy refused the request locally: it is already tracking as many tasks as''
       @ '' it may, and every one of them is busy or over its own ceiling, so no provider was''
       @ '' contacted.'')
   | SendReplayed \<Rightarrow> (''workflow_send_replayed'',
       ''This proxy refused the request locally: this send was already reserved once, and''
       @ '' a repeat buys no second dispatch.'')
   | HistoryUnresolved \<Rightarrow> (''workflow_pool_history_unresolved'',
       ''Historical provider-pool spend needs verified alias mappings before dispatch. No provider was contacted.'')
   | SpendUndurable \<Rightarrow> (''workflow_spend_undurable'',
       ''This proxy refused the request locally: the token reservation could not be made''
       @ '' durable and a configured ceiling requires it, so no provider was contacted.''))"


section \<open>The state of one root and its window\<close>

record workflow_state =
  active :: int
  lifetime_sends :: int
  send_slot_count :: "int list"
  send_slot_at :: "int option list"
  children :: "(string, instant) jsmap"
  last_seen_ms :: instant
  window_ms :: instant

definition workflow_window_slots :: nat where "workflow_window_slots = 12"

definition new_workflow_state :: "instant \<Rightarrow> workflow_policy \<Rightarrow> workflow_state" where
  "new_workflow_state now p =
     \<lparr>active = 0, lifetime_sends = 0, send_slot_count = replicate workflow_window_slots 0,
      send_slot_at = replicate workflow_window_slots None, children = [], last_seen_ms = now,
      window_ms = workflow_window_ms p\<rparr>"

definition window_slot_ms :: "instant \<Rightarrow> int" where
  "window_slot_ms w = max 1 \<lceil>w / of_nat workflow_window_slots\<rceil>"

text \<open>The language's remainder takes the sign of the dividend; the code corrects for it.\<close>

definition js_rem :: "int \<Rightarrow> int \<Rightarrow> int" where
  "js_rem a b = (if a < 0 then - ((- a) mod b) else a mod b)"

definition slot_of :: "instant \<Rightarrow> instant \<Rightarrow> int" where
  "slot_of w now = \<lfloor>now / of_int (window_slot_ms w)\<rfloor>"

definition ring_index :: "int \<Rightarrow> nat" where
  "ring_index slot = nat (js_rem (js_rem slot (int workflow_window_slots)
      + int workflow_window_slots) (int workflow_window_slots))"

definition record_windowed_sends :: "instant \<Rightarrow> int \<Rightarrow> workflow_state \<Rightarrow> workflow_state" where
  "record_windowed_sends now n st =
     (let slot = slot_of (window_ms st) now;
          i = ring_index slot;
          st1 = (if send_slot_at st ! i \<noteq> Some slot
                 then st\<lparr>send_slot_at := (send_slot_at st)[i := Some slot],
                         send_slot_count := (send_slot_count st)[i := 0]\<rparr>
                 else st)
      in st1\<lparr>send_slot_count := (send_slot_count st1)[i := send_slot_count st1 ! i + n]\<rparr>)"

definition windowed_sends :: "workflow_state \<Rightarrow> instant \<Rightarrow> int" where
  "windowed_sends st now =
     (let oldest = slot_of (window_ms st) now - (int workflow_window_slots - 1)
      in \<Sum>i\<leftarrow>[0..<workflow_window_slots].
           (case send_slot_at st ! i of None \<Rightarrow> 0
            | Some s \<Rightarrow> if s \<ge> oldest then send_slot_count st ! i else 0))"

text \<open>Reading the children prunes them, so the reader returns the state as well.\<close>

definition windowed_children :: "workflow_state \<Rightarrow> instant \<Rightarrow> nat \<times> workflow_state" where
  "windowed_children st now =
     (let kept = filter (\<lambda>(c, seen). \<not> seen \<le> now - window_ms st) (children st)
      in (length kept, st\<lparr>children := kept\<rparr>))"


section \<open>Recent decisions\<close>

datatype budget_event_kind = RefusedEvent | ClearedEvent

record budget_event =
  ev_at :: instant
  ev_kind :: budget_event_kind
  ev_root :: string
  ev_reason :: "workflow_denial option"
  ev_spend :: "(spend_scope \<times> amount) option"
  ev_unbound :: bool
  ev_sends :: int
  ev_children :: nat

definition workflow_event_capacity :: nat where "workflow_event_capacity = 64"

fun shift_events :: "budget_event list \<Rightarrow> budget_event list" where
  "shift_events [] = []"
| "shift_events (e # es) =
     (if length (e # es) > workflow_event_capacity then shift_events es else e # es)"

definition record_budget_event :: "budget_event \<Rightarrow> budget_event list \<Rightarrow> budget_event list" where
  "record_budget_event e es = shift_events (es @ [e])"

fun wanted_count :: "jsnum \<Rightarrow> nat" where
  "wanted_count (Fin q) = (if q > 0 then nat \<lfloor>q\<rfloor> else 0)"
| "wanted_count _ = 0"

definition list_workflow_budget_events :: "jsnum \<Rightarrow> budget_event list \<Rightarrow> budget_event list" where
  "list_workflow_budget_events limit es =
     (let wanted = min (wanted_count limit) workflow_event_capacity
      in if wanted = 0 then [] else rev (drop (length es - wanted) es))"


section \<open>Facts about the ring\<close>

lemma ring_index_mod: "ring_index s = nat (s mod 12)"
proof -
  have "s mod 12 = (12 - (- s) mod 12) mod 12"
    by (metis add.inverse_inverse diff_0 mod_diff_right_eq mod_minus_cong mod_mod_trivial
        minus_mod_self1)
  then show ?thesis
    by (auto simp: ring_index_def js_rem_def workflow_window_slots_def)
qed

lemma ring_index_less: "ring_index s < 12"
  by (simp add: ring_index_mod nat_less_iff)

lemma slot_mono: "t \<le> u \<Longrightarrow> slot_of w t \<le> slot_of w u"
  unfolding slot_of_def by (intro floor_mono divide_right_mono) (auto simp: window_slot_ms_def)

lemma record_windowed_frame [simp]:
  "active (record_windowed_sends t n st) = active st"
  "lifetime_sends (record_windowed_sends t n st) = lifetime_sends st"
  "children (record_windowed_sends t n st) = children st"
  "last_seen_ms (record_windowed_sends t n st) = last_seen_ms st"
  "window_ms (record_windowed_sends t n st) = window_ms st"
  by (simp_all add: record_windowed_sends_def Let_def)

lemma windowed_children_frame [simp]:
  "active (snd (windowed_children st t)) = active st"
  "lifetime_sends (snd (windowed_children st t)) = lifetime_sends st"
  "send_slot_count (snd (windowed_children st t)) = send_slot_count st"
  "send_slot_at (snd (windowed_children st t)) = send_slot_at st"
  "last_seen_ms (snd (windowed_children st t)) = last_seen_ms st"
  "window_ms (snd (windowed_children st t)) = window_ms st"
  by (simp_all add: windowed_children_def Let_def)

text \<open>The window's count depends on the ring and its geometry only.\<close>

lemma windowed_sends_cong:
  "send_slot_count st = send_slot_count st' \<Longrightarrow> send_slot_at st = send_slot_at st' \<Longrightarrow>
   window_ms st = window_ms st' \<Longrightarrow> windowed_sends st t = windowed_sends st' t"
  by (simp add: windowed_sends_def cong: option.case_cong if_cong)

lemma shift_events_drop:
  "shift_events es = drop (length es - workflow_event_capacity) es"
  by (induction es) (auto simp: Suc_diff_le)

lemma length_record_event: "length (record_budget_event e es) \<le> workflow_event_capacity"
  by (simp add: record_budget_event_def shift_events_drop)

lemma record_event_last: "record_budget_event e es \<noteq> [] \<and> last (record_budget_event e es) = e"
  by (auto simp: record_budget_event_def shift_events_drop workflow_event_capacity_def)


section \<open>The ring refines the log of sends\<close>

text \<open>
  Specification: the log of all charges, as pairs of instant and number of sends. The ring
  entry of a residue holds the newest slot with that residue and the sends charged in it.
\<close>

type_synonym send_log = "(instant \<times> int) list"

definition log_sum :: "((instant \<times> int) \<Rightarrow> bool) \<Rightarrow> send_log \<Rightarrow> int" where
  "log_sum P lg = (\<Sum>e\<leftarrow>lg. if P e then snd e else 0)"

definition charge_all :: "send_log \<Rightarrow> workflow_state \<Rightarrow> workflow_state" where
  "charge_all lg st = fold (\<lambda>(t, n). record_windowed_sends t n) lg st"

definition entry_ok :: "instant \<Rightarrow> send_log \<Rightarrow> nat \<Rightarrow> int option \<Rightarrow> int \<Rightarrow> bool" where
  "entry_ok w lg i a c = (case a of
       None \<Rightarrow> \<forall>e\<in>set lg. ring_index (slot_of w (fst e)) \<noteq> i
     | Some s \<Rightarrow> ring_index s = i \<and> (\<exists>e\<in>set lg. slot_of w (fst e) = s)
         \<and> (\<forall>e\<in>set lg. ring_index (slot_of w (fst e)) = i \<longrightarrow> slot_of w (fst e) \<le> s)
         \<and> c = log_sum (\<lambda>e. slot_of w (fst e) = s) lg)"

definition ring_ok :: "workflow_state \<Rightarrow> send_log \<Rightarrow> bool" where
  "ring_ok st lg \<longleftrightarrow> length (send_slot_count st) = 12 \<and> length (send_slot_at st) = 12 \<and>
     (\<forall>i<12. entry_ok (window_ms st) lg i (send_slot_at st ! i) (send_slot_count st ! i))"

lemma log_sum_snoc [simp]: "log_sum P (lg @ [e]) = log_sum P lg + (if P e then snd e else 0)"
  by (simp add: log_sum_def)

lemma log_sum_none: "(\<And>e. e \<in> set lg \<Longrightarrow> \<not> P e) \<Longrightarrow> log_sum P lg = 0"
  unfolding log_sum_def by (induction lg) auto

lemma log_sum_cong: "(\<And>e. e \<in> set lg \<Longrightarrow> P e = Q e) \<Longrightarrow> log_sum P lg = log_sum Q lg"
  unfolding log_sum_def by (rule arg_cong [where f = sum_list]) auto

lemma log_sum_split:
  "(\<Sum>i\<leftarrow>[0..<12]. log_sum (\<lambda>e. ring_index (f e) = i \<and> P e) lg) = log_sum P lg"
proof (induction lg rule: rev_induct)
  case Nil
  show ?case by (simp add: log_sum_def)
next
  case (snoc e lg)
  have "(\<Sum>i\<leftarrow>[0..<12]. if ring_index (f e) = i \<and> P e then snd e else 0)
      = (if P e then snd e else 0)"
    using ring_index_less [of "f e"]
    by (simp add: interv_sum_list_conv_sum_set_nat sum.delta' flip: if_if_eq_conj)
  then show ?case by (simp add: sum_list_addf snoc)
qed

lemma same_residue:
  "ring_index s = ring_index u \<Longrightarrow> s \<le> u \<Longrightarrow> u < s + 12 \<Longrightarrow> s = u"
proof -
  assume "ring_index s = ring_index u" and le: "s \<le> u" "u < s + 12"
  then have "s mod 12 = u mod 12" by (simp add: ring_index_mod eq_nat_nat_iff)
  then have "12 dvd u - s" by (simp add: mod_eq_dvd_iff dvd_diff_commute)
  with le show "s = u" using zdvd_imp_le [of 12 "u - s"] by force
qed

lemma entry_charged:
  assumes ok: "entry_ok w lg i a c" and i: "i = ring_index (slot_of w t)"
    and mono: "\<forall>e\<in>set lg. fst e \<le> t"
  shows "entry_ok w (lg @ [(t, n)]) i (Some (slot_of w t))
    ((if a \<noteq> Some (slot_of w t) then 0 else c) + n)"
proof -
  have le: "slot_of w (fst e) \<le> slot_of w t" if "e \<in> set lg" for e
    using mono that by (blast intro: slot_mono)
  have "log_sum (\<lambda>e. slot_of w (fst e) = slot_of w t) lg
      = (if a \<noteq> Some (slot_of w t) then 0 else c)"
  proof (cases a)
    case None
    with ok i have "log_sum (\<lambda>e. slot_of w (fst e) = slot_of w t) lg = 0"
      by (intro log_sum_none) (auto simp: entry_ok_def)
    with None show ?thesis by simp
  next
    case (Some s)
    show ?thesis
    proof (cases "s = slot_of w t")
      case True
      with ok Some show ?thesis by (simp add: entry_ok_def)
    next
      case False
      from ok Some le have "s \<le> slot_of w t" by (auto simp: entry_ok_def)
      with ok Some i False have "log_sum (\<lambda>e. slot_of w (fst e) = slot_of w t) lg = 0"
        by (intro log_sum_none) (auto simp: entry_ok_def)
      with Some False show ?thesis by simp
    qed
  qed
  with le i show ?thesis by (auto simp: entry_ok_def)
qed

lemma entry_other:
  "entry_ok w lg i a c \<Longrightarrow> i \<noteq> ring_index (slot_of w t) \<Longrightarrow> entry_ok w (lg @ [(t, n)]) i a c"
  by (auto simp: entry_ok_def split: option.splits)

lemma ring_ok_record:
  assumes ok: "ring_ok st lg" and mono: "\<forall>e\<in>set lg. fst e \<le> t"
  shows "ring_ok (record_windowed_sends t n st) (lg @ [(t, n)])"
proof -
  let ?i = "ring_index (slot_of (window_ms st) t)"
  have i: "?i < 12" by (rule ring_index_less)
  have lens: "length (send_slot_count st) = 12" "length (send_slot_at st) = 12"
    and en: "\<And>j. j < 12 \<Longrightarrow> entry_ok (window_ms st) lg j (send_slot_at st ! j) (send_slot_count st ! j)"
    using ok by (simp_all add: ring_ok_def)
  have "entry_ok (window_ms st) (lg @ [(t, n)]) j
      (send_slot_at (record_windowed_sends t n st) ! j)
      (send_slot_count (record_windowed_sends t n st) ! j)" if j: "j < 12" for j
  proof (cases "j = ?i")
    case True
    with entry_charged [OF en [OF i] refl mono, of n] lens i show ?thesis
      by (simp add: record_windowed_sends_def Let_def split: if_splits)
  next
    case False
    with entry_other [OF en [OF j] False] show ?thesis
      by (simp add: record_windowed_sends_def Let_def)
  qed
  with lens show ?thesis
    by (simp add: ring_ok_def) (simp add: record_windowed_sends_def Let_def)
qed

lemma ring_ok_new: "ring_ok (new_workflow_state now p) []"
  by (simp add: ring_ok_def new_workflow_state_def entry_ok_def workflow_window_slots_def)

lemma ring_ok_charge_all:
  assumes "ring_ok st lg" "sorted (map fst (lg @ es))"
  shows "ring_ok (charge_all es st) (lg @ es) \<and> window_ms (charge_all es st) = window_ms st"
  using assms
proof (induction es arbitrary: st lg)
  case Nil
  then show ?case by (simp add: charge_all_def)
next
  case (Cons e es)
  obtain t n where e: "e = (t, n)" by (cases e)
  have "ring_ok (record_windowed_sends t n st) (lg @ [(t, n)])"
    using Cons.prems e by (intro ring_ok_record) (auto simp: sorted_append)
  from Cons.IH [OF this] Cons.prems(2) e show ?case
    by (simp add: charge_all_def)
qed

text \<open>Reading a sound ring counts the log over the last twelve slots.\<close>

lemma windowed_sends_log:
  assumes ok: "ring_ok st lg" and now: "\<forall>e\<in>set lg. fst e \<le> now"
  shows "windowed_sends st now =
    log_sum (\<lambda>e. slot_of (window_ms st) (fst e) \<ge> slot_of (window_ms st) now - 11) lg"
proof -
  let ?w = "window_ms st" and ?old = "slot_of (window_ms st) now - 11"
  have each: "(case send_slot_at st ! i of None \<Rightarrow> 0
      | Some s \<Rightarrow> if s \<ge> ?old then send_slot_count st ! i else 0) =
    log_sum (\<lambda>e. ring_index (slot_of ?w (fst e)) = i \<and> slot_of ?w (fst e) \<ge> ?old) lg"
    if i: "i < 12" for i
  proof (cases "send_slot_at st ! i")
    case None
    with ok i have "log_sum (\<lambda>e. ring_index (slot_of ?w (fst e)) = i \<and> slot_of ?w (fst e) \<ge> ?old) lg = 0"
      by (intro log_sum_none) (force simp: ring_ok_def entry_ok_def)
    with None show ?thesis by simp
  next
    case (Some s)
    with ok i have s: "ring_index s = i" "\<exists>e\<in>set lg. slot_of ?w (fst e) = s"
      "\<forall>e\<in>set lg. ring_index (slot_of ?w (fst e)) = i \<longrightarrow> slot_of ?w (fst e) \<le> s"
      "send_slot_count st ! i = log_sum (\<lambda>e. slot_of ?w (fst e) = s) lg"
      by (fastforce simp: ring_ok_def entry_ok_def dest!: spec [of _ i])+
    from s(2) now have top: "s \<le> slot_of ?w now" by (auto intro: slot_mono)
    show ?thesis
    proof (cases "s \<ge> ?old")
      case True
      have "log_sum (\<lambda>e. slot_of ?w (fst e) = s) lg =
          log_sum (\<lambda>e. ring_index (slot_of ?w (fst e)) = i \<and> slot_of ?w (fst e) \<ge> ?old) lg"
      proof (rule log_sum_cong)
        fix e assume e: "e \<in> set lg"
        show "(slot_of ?w (fst e) = s) =
            (ring_index (slot_of ?w (fst e)) = i \<and> slot_of ?w (fst e) \<ge> ?old)"
        proof
          assume r: "ring_index (slot_of ?w (fst e)) = i \<and> slot_of ?w (fst e) \<ge> ?old"
          with s(3) e have "slot_of ?w (fst e) \<le> s" by blast
          moreover have "s < slot_of ?w (fst e) + 12" using r top by linarith
          ultimately show "slot_of ?w (fst e) = s"
            using r s(1) by (intro same_residue) simp_all
        qed (use s(1) True in auto)
      qed
      with True Some s(4) show ?thesis by simp
    next
      case False
      with s(3) have "log_sum (\<lambda>e. ring_index (slot_of ?w (fst e)) = i \<and> slot_of ?w (fst e) \<ge> ?old) lg = 0"
        by (intro log_sum_none) force
      with False Some show ?thesis by simp
    qed
  qed
  have eleven: "int 12 - 1 = 11" by simp
  have "windowed_sends st now = (\<Sum>i\<leftarrow>[0..<12].
      log_sum (\<lambda>e. ring_index (slot_of ?w (fst e)) = i \<and> slot_of ?w (fst e) \<ge> ?old) lg)"
    unfolding windowed_sends_def Let_def workflow_window_slots_def eleven
    by (rule arg_cong [where f = sum_list], rule map_cong) (use each in auto)
  then show ?thesis by (simp add: log_sum_split)
qed

end
