(* ===== verification/Spend_Books.thy ===== *)
theory Spend_Books
  imports Spend_Ops
begin

text \<open>
  The books of the ledger, that is its scopes and reservations, as a specification: what one
  journal record does to them, the invariant that every record a ledger writes preserves, and
  the proof that the compaction checkpoint rebuilds them exactly.
\<close>

named_theorems book_simps \<open>effect of a record on the books\<close>

type_synonym books = "scope_map \<times> reservation_map"

definition books_of :: "ledger \<Rightarrow> books" where
  "books_of l = (scopes l, reservations l)"

lemma books_of_simps [simp]: "fst (books_of l) = scopes l" "snd (books_of l) = reservations l"
  by (simp_all add: books_of_def)

section \<open>One target at a time\<close>

lemma scope_at_update [book_simps]:
  "scope_at (AList.update k s m) k' = (if k' = k then s else scope_at m k')"
  by (simp add: scope_at_def)

lemma scope_at_delete [book_simps]:
  "scope_at (AList.delete k m) k' = (if k' = k then zero_scope else scope_at m k')"
  by (simp add: scope_at_def)

lemma scope_at_Nil [book_simps]: "scope_at [] k = zero_scope"
  by (simp add: scope_at_def)

lemma scope_at_book_targets [book_simps]:
  "distinct ts \<Longrightarrow> scope_at (book_targets f ts m) k =
     (if k \<in> set ts then f (scope_at m k) else scope_at m k)"
  by (induction ts arbitrary: m) (auto simp: scope_at_update)

lemma jm_has_book_targets [book_simps]:
  "map_of (book_targets f ts m) k = None \<longleftrightarrow> map_of m k = None \<and> k \<notin> set ts"
  by (induction ts arbitrary: m) auto

lemma jm_wf_book_targets [simp]: "jm_wf m \<Longrightarrow> jm_wf (book_targets f ts m)"
  by (induction ts arbitrary: m) auto

definition tokens_on :: "scope_ref \<Rightarrow> reservation \<Rightarrow> amount" where
  "tokens_on k r = (if is_live (status r) \<and> k \<in> set (targets r) then tokens r else 0)"

definition live_tokens :: "reservation_map \<Rightarrow> scope_ref \<Rightarrow> amount" where
  "live_tokens m k = jm_sum (\<lambda>i r. tokens_on k r) m"

lemma live_tokens_update:
  "jm_wf m \<Longrightarrow> live_tokens (AList.update i r m) k =
     live_tokens m k - (case map_of m i of None \<Rightarrow> 0 | Some r' \<Rightarrow> tokens_on k r') + tokens_on k r"
  by (simp add: live_tokens_def jm_sum_update)

lemma live_tokens_delete:
  "jm_wf m \<Longrightarrow> live_tokens (AList.delete i m) k =
     live_tokens m k - (case map_of m i of None \<Rightarrow> 0 | Some r \<Rightarrow> tokens_on k r)"
  by (simp add: live_tokens_def jm_sum_delete)


section \<open>Records as transformations of the books\<close>

definition book_resolve :: "string \<Rightarrow> send_status \<Rightarrow> amount \<Rightarrow> instant \<Rightarrow> books \<Rightarrow> books" where
  "book_resolve send outcome actual t = (\<lambda>(sm, rm). case map_of rm send of
     None \<Rightarrow> (sm, rm)
   | Some r \<Rightarrow> if \<not> is_live (status r) then (sm, rm)
       else (book_targets (resolve_scope outcome (tokens r) actual t) (targets r) sm,
             AList.update send (r\<lparr>status := outcome, resolved_at := t\<rparr>) rm))"

fun book :: "journal_record \<Rightarrow> books \<Rightarrow> books" where
  "book (RReserve send ts n t) (sm, rm) =
     (if jm_has rm send then (sm, rm)
      else (book_targets (reserve_scope n t) ts sm,
            AList.update send \<lparr>targets = ts, tokens = n, status = Open, reserved_at = t,
                               resolved_at = t\<rparr> rm))"
| "book (RDispatch send t) (sm, rm) = (case map_of rm send of
     None \<Rightarrow> (sm, rm)
   | Some r \<Rightarrow> if status r \<noteq> Open then (sm, rm)
       else (sm, AList.update send (r\<lparr>status := Dispatched, resolved_at := t\<rparr>) rm))"
| "book (RSettle send n t) b = book_resolve send Settled n t b"
| "book (RLost send t) b = book_resolve send Lost 0 t b"
| "book (RAbandon send t) b = book_resolve send Abandoned 0 t b"
| "book (RForget send t) (sm, rm) = (case map_of rm send of
     None \<Rightarrow> (sm, rm)
   | Some r \<Rightarrow> if is_live (status r) then (sm, rm) else (sm, AList.delete send rm))"
| "book (RDrop sc a t) (sm, rm) = (case map_of sm (sc, a) of
     None \<Rightarrow> (sm, rm)
   | Some s \<Rightarrow> if reserved s > 0 then (sm, rm) else (AList.delete (sc, a) sm, rm))"
| "book (RCheckpoint t ss ds) b =
     (let l = apply_checkpoint ss ds (fresh_ledger (\<lambda>_ _. []) default_spend_policy None False [])
      in books_of l)"

lemma books_apply_reserve [book_simps]:
  "books_of (apply_reserve send ts n t l) = book (RReserve send ts n t) (books_of l)"
  by (simp add: apply_reserve_def books_of_def)

lemma books_apply_dispatch [book_simps]:
  "books_of (apply_dispatch send t l) = book (RDispatch send t) (books_of l)"
  by (simp add: apply_dispatch_def books_of_def split: option.splits)

lemma books_apply_resolve [book_simps]:
  "books_of (apply_resolve send o' n t l) = book_resolve send o' n t (books_of l)"
  by (simp add: apply_resolve_def books_of_def book_resolve_def forget_memory_def
      split: option.splits)

lemma books_apply_forget [book_simps]:
  "books_of (apply_forget send l) = book (RForget send t) (books_of l)"
  by (simp add: apply_forget_def books_of_def forget_memory_def split: option.splits)

lemma books_apply_drop [book_simps]:
  "books_of (apply_drop (sc, a) l) = book (RDrop sc a t) (books_of l)"
  by (simp add: apply_drop_def books_of_def split: option.splits)

lemma books_restore_send:
  "books_of l = books_of l' \<Longrightarrow> books_of (restore_send c l) = books_of (restore_send c l')"
  by (auto simp: restore_send_def Let_def apply_reserve_def apply_dispatch_def books_of_def
      split: option.splits)

lemma books_fold_restore:
  "books_of l = books_of l' \<Longrightarrow> books_of (fold restore_send ds l) = books_of (fold restore_send ds l')"
proof (induction ds arbitrary: l l')
  case (Cons c ds)
  from Cons.IH [OF books_restore_send [OF Cons.prems]] show ?case by simp
qed simp

lemma books_apply_checkpoint [book_simps]:
  "books_of (apply_checkpoint ss ds l) = book (RCheckpoint t ss ds) b"
  unfolding apply_checkpoint_def book.simps Let_def
  by (rule books_fold_restore) (simp add: books_of_def)

lemma sanitize_nonneg [simp]: "0 \<le> sanitize_tokens x"
  by (simp add: sanitize_tokens_def split: jsnum.splits)

lemma sanitize_int: "\<exists>i. 0 \<le> i \<and> sanitize_tokens x = of_int i"
proof (cases x)
  case (Fin q)
  let ?i = "if q < 0 then \<lceil>q\<rceil> else \<lfloor>q\<rfloor>"
  have "sanitize_tokens x = of_int (max 0 ?i)"
    by (simp add: Fin sanitize_tokens_def js_trunc_def max_def)
  then show ?thesis by (metis max.cobounded1)
qed (auto simp: sanitize_tokens_def intro: exI [of _ 0])

lemma sanitize_of_int: "0 \<le> i \<Longrightarrow> sanitize_tokens (Fin (of_int i)) = of_int i"
  by (simp add: sanitize_tokens_def js_trunc_def)

definition whole :: "amount \<Rightarrow> bool" where
  "whole n \<longleftrightarrow> 0 \<le> n \<and> sanitize_tokens (Fin n) = n"

lemma whole_usage [simp, intro]: "whole (sanitize_tokens x + sanitize_tokens y)"
proof -
  obtain i j where "0 \<le> i" "sanitize_tokens x = of_int i" "0 \<le> j" "sanitize_tokens y = of_int j"
    using sanitize_int by metis
  then show ?thesis
    using sanitize_of_int [of "i + j"] by (simp add: whole_def)
qed

lemma whole_nonneg: "whole n \<Longrightarrow> 0 \<le> n"
  by (simp add: whole_def)

fun whole_figures :: "journal_record \<Rightarrow> bool" where
  "whole_figures (RReserve send ts n t) = whole n"
| "whole_figures (RSettle send n t) = whole n"
| "whole_figures _ = True"

lemma books_apply_record:
  "whole_figures rec \<Longrightarrow> books_of (apply_record rec l) = book rec (books_of l)"
  unfolding apply_record_def
  using books_apply_forget books_apply_drop books_apply_checkpoint
  by (cases rec) (simp_all add: whole_def books_apply_reserve books_apply_dispatch
      books_apply_resolve del: book.simps(1,2,6-8))


section \<open>The invariant of the books\<close>

definition scope_ok :: "scope_ref \<Rightarrow> scope_state \<Rightarrow> bool" where
  "scope_ok k s \<longleftrightarrow> alias_ok (snd k) \<and> 0 \<le> settled s \<and> 0 \<le> unresolved s \<and> 0 \<le> last_seen_at s"

definition reservation_ok :: "string \<Rightarrow> reservation \<Rightarrow> bool" where
  "reservation_ok i r \<longleftrightarrow> alias_ok i \<and> refs_ok (targets r) \<and> distinct (targets r) \<and> 0 \<le> tokens r
     \<and> 0 \<le> reserved_at r \<and> 0 \<le> resolved_at r \<and> (status r = Open \<longrightarrow> resolved_at r = reserved_at r)"

definition covered :: "scope_map \<Rightarrow> reservation \<Rightarrow> bool" where
  "covered sm r \<longleftrightarrow> (is_live (status r) \<longrightarrow>
     (\<forall>k \<in> set (targets r). jm_has sm k \<and> reserved_at r \<le> last_seen_at (scope_at sm k)))"

definition books_ok :: "books \<Rightarrow> bool" where
  "books_ok b \<longleftrightarrow> jm_wf (fst b) \<and> jm_wf (snd b)
     \<and> (\<forall>k s. map_of (fst b) k = Some s \<longrightarrow> scope_ok k s)
     \<and> (\<forall>i r. map_of (snd b) i = Some r \<longrightarrow> reservation_ok i r \<and> covered (fst b) r)
     \<and> (\<forall>k. reserved (scope_at (fst b) k) = live_tokens (snd b) k)"

lemma books_okD:
  assumes "books_ok b"
  shows "jm_wf (fst b)" "jm_wf (snd b)"
    "map_of (fst b) k = Some s \<Longrightarrow> scope_ok k s"
    "map_of (snd b) i = Some r \<Longrightarrow> reservation_ok i r"
    "map_of (snd b) i = Some r \<Longrightarrow> covered (fst b) r"
    "reserved (scope_at (fst b) k) = live_tokens (snd b) k"
  using assms unfolding books_ok_def by blast+

lemma books_ok_empty: "books_ok ([], [])"
  by (simp add: books_ok_def live_tokens_def scope_at_def zero_scope_def)

lemma scope_ok_at: "books_ok b \<Longrightarrow> jm_has (fst b) k \<Longrightarrow> scope_ok k (scope_at (fst b) k)"
  by (auto simp: scope_at_def dest: books_okD(3))

lemma tokens_on_le:
  assumes "books_ok b" "map_of (snd b) i = Some r"
  shows "tokens_on k r \<le> reserved (scope_at (fst b) k)"
proof -
  have "tokens_on k r \<le> live_tokens (snd b) k"
    unfolding live_tokens_def
  proof (rule jm_sum_member_le [where f = "\<lambda>i r. tokens_on k r" and k = i])
    fix j r' assume "(j, r') \<in> set (snd b)"
    then have "map_of (snd b) j = Some r'" using books_okD(2) [OF assms(1)] by simp
    with books_okD(4) [OF assms(1) this] show "0 \<le> tokens_on k r'"
      by (simp add: tokens_on_def reservation_ok_def)
  qed (use assms(2) in \<open>rule map_of_SomeD\<close>)
  with books_okD(6) [OF assms(1)] show ?thesis by simp
qed

text \<open>What a ledger promises of a record it writes, seen against its books.\<close>

fun legit :: "journal_record \<Rightarrow> books \<Rightarrow> bool" where
  "legit (RReserve send ts n t) b \<longleftrightarrow> \<not> jm_has (snd b) send \<and> alias_ok send \<and> refs_ok ts
     \<and> distinct ts \<and> whole n \<and> 0 \<le> t"
| "legit (RDispatch send t) b \<longleftrightarrow> alias_ok send \<and> 0 \<le> t"
| "legit (RSettle send n t) b \<longleftrightarrow> alias_ok send \<and> whole n \<and> 0 \<le> t"
| "legit (RLost send t) b \<longleftrightarrow> alias_ok send \<and> 0 \<le> t"
| "legit (RAbandon send t) b \<longleftrightarrow> alias_ok send \<and> 0 \<le> t"
| "legit (RForget send t) b \<longleftrightarrow> alias_ok send \<and> 0 \<le> t"
| "legit (RDrop sc a t) b \<longleftrightarrow> alias_ok a \<and> 0 \<le> t \<and> (sc, a) \<notin> set (active_refs (snd b))"
| "legit (RCheckpoint t ss ds) b \<longleftrightarrow> 0 \<le> t \<and> RCheckpoint t ss ds = checkpoint_of t (fst b) (snd b)"


section \<open>Every legitimate record preserves the invariant\<close>

lemma active_refs_iff:
  "k \<in> set (active_refs m) \<longleftrightarrow> (\<exists>i r. (i, r) \<in> set m \<and> is_live (status r) \<and> k \<in> set (targets r))"
  by (force simp: active_refs_def split: if_splits)

lemma live_tokens_inactive: "k \<notin> set (active_refs m) \<Longrightarrow> live_tokens m k = 0"
proof -
  assume "k \<notin> set (active_refs m)"
  then have "jm_sum (\<lambda>i r. tokens_on k r) m = jm_sum (\<lambda>i r. 0) m"
    by (intro jm_sum_cong) (auto simp: tokens_on_def active_refs_iff)
  also have "\<dots> = 0" by (induction m) auto
  finally show ?thesis by (simp add: live_tokens_def)
qed

lemma covered_mono:
  assumes "covered sm r"
    and "\<And>k. jm_has sm k \<Longrightarrow> jm_has sm' k \<and> last_seen_at (scope_at sm k) \<le> last_seen_at (scope_at sm' k)"
  shows "covered sm' r"
  using assms by (force simp: covered_def)

lemma scope_at_some: "map_of m k = Some s \<Longrightarrow> scope_at m k = s"
  by (simp add: scope_at_def)

lemma scope_at_amounts:
  assumes "books_ok (sm, rm)"
  shows "0 \<le> settled (scope_at sm k)" "0 \<le> unresolved (scope_at sm k)"
    "0 \<le> last_seen_at (scope_at sm k)"
proof -
  have "scope_ok k (scope_at sm k) \<or> scope_at sm k = zero_scope"
    using books_okD(3) [OF assms, of k] by (auto simp: scope_at_def split: option.splits)
  then show "0 \<le> settled (scope_at sm k)" "0 \<le> unresolved (scope_at sm k)"
    "0 \<le> last_seen_at (scope_at sm k)"
    by (auto simp: scope_ok_def zero_scope_def)
qed

lemma reserve_scope_simps [simp]:
  "settled (reserve_scope n t s) = settled s" "unresolved (reserve_scope n t s) = unresolved s"
  "reserved (reserve_scope n t s) = reserved s + n"
  "last_seen_at (reserve_scope n t s) = max (last_seen_at s) t"
  by (simp_all add: reserve_scope_def)

lemma resolve_scope_simps [simp]:
  "settled (resolve_scope o' n a t s) = (if o' = Settled then settled s + a else settled s)"
  "unresolved (resolve_scope o' n a t s) = (if o' = Lost then unresolved s + n else unresolved s)"
  "reserved (resolve_scope o' n a t s) = max 0 (reserved s - n)"
  "last_seen_at (resolve_scope o' n a t s) = max (last_seen_at s) t"
  by (simp_all add: resolve_scope_def)

text \<open>Rebuilding the invariant from its parts after one entry of each map changed.\<close>

lemma scope_ok_book_targets:
  assumes ok: "books_ok (sm, rm)" and ts: "distinct ts" "refs_ok ts"
    and f: "\<And>s. settled s \<le> settled (f s)" "\<And>s. unresolved s \<le> unresolved (f s)"
      "\<And>s. last_seen_at s \<le> last_seen_at (f s)"
    and k: "map_of (book_targets f ts sm) k = Some s"
  shows "scope_ok k s"
proof (cases "k \<in> set ts")
  case True
  have s: "s = f (scope_at sm k)"
    using scope_at_book_targets [OF ts(1), of f sm k] scope_at_some [OF k] True by simp
  have "alias_ok (snd k)" using ts(2) True by (auto simp: refs_ok_def list_all_iff)
  with scope_at_amounts [OF ok, of k] f show ?thesis
    by (auto simp: s scope_ok_def intro: order.trans)
next
  case False
  have "jm_has sm k" using jm_has_book_targets [of f ts sm k] k False by auto
  moreover have "s = scope_at sm k"
    using scope_at_book_targets [OF ts(1), of f sm k] scope_at_some [OF k] False by simp
  ultimately show ?thesis using scope_ok_at [OF ok, of k] by simp
qed

lemma covered_book_targets:
  assumes "distinct ts" "covered sm r" "\<And>s. last_seen_at s \<le> last_seen_at (f s)"
  shows "covered (book_targets f ts sm) r"
  using assms(2)
proof (rule covered_mono)
  fix k assume "jm_has sm k"
  then show "jm_has (book_targets f ts sm) k
      \<and> last_seen_at (scope_at sm k) \<le> last_seen_at (scope_at (book_targets f ts sm) k)"
    using assms(3) jm_has_book_targets [of f ts sm k]
    by (auto simp: scope_at_book_targets [OF assms(1)])
qed

lemma books_ok_reserve:
  assumes ok: "books_ok (sm, rm)" and l: "legit (RReserve send ts n t) (sm, rm)"
  shows "books_ok (book (RReserve send ts n t) (sm, rm))"
proof -
  let ?r = "\<lparr>targets = ts, tokens = n, status = Open, reserved_at = t, resolved_at = t\<rparr>"
  let ?sm = "book_targets (reserve_scope n t) ts sm"
  have new: "map_of rm send = None" and ts: "distinct ts" "refs_ok ts" and n: "0 \<le> n"
    using l by (auto dest: whole_nonneg)
  have wf: "jm_wf sm" "jm_wf rm" using books_okD(1,2) [OF ok] by simp_all
  have "scope_ok k s" if "map_of ?sm k = Some s" for k s
    using scope_ok_book_targets [OF ok ts _ _ _ that] by simp
  moreover have "reservation_ok i r \<and> covered ?sm r"
    if "map_of (AList.update send ?r rm) i = Some r" for i r
  proof (cases "i = send")
    case True
    with that l show ?thesis
      by (auto simp: reservation_ok_def covered_def jm_has_book_targets scope_at_book_targets [OF ts(1)]
          dest: whole_nonneg)
  next
    case False
    with that books_okD(4,5) [OF ok, of i r] show ?thesis
      by (auto intro: covered_book_targets [OF ts(1)])
  qed
  moreover have "reserved (scope_at ?sm k) = live_tokens (AList.update send ?r rm) k" for k
    using books_okD(6) [OF ok, of k] new
    by (simp add: scope_at_book_targets [OF ts(1)] live_tokens_update [OF wf(2)] tokens_on_def
        is_live_def)
  ultimately show ?thesis using new wf by (simp add: books_ok_def)
qed

lemma books_ok_status:
  assumes ok: "books_ok (sm, rm)" and r: "map_of rm send = Some r"
    and r': "status r' \<noteq> Open" "targets r' = targets r" "tokens r' = tokens r" "reserved_at r' = reserved_at r"
      "0 \<le> resolved_at r'" "is_live (status r') \<Longrightarrow> is_live (status r)"
    and sm: "jm_wf sm'" "\<And>k s. map_of sm' k = Some s \<Longrightarrow> scope_ok k s"
      "\<And>r. covered sm r \<Longrightarrow> covered sm' r"
    and res: "\<And>k. reserved (scope_at sm' k) = reserved (scope_at sm k) - tokens_on k r + tokens_on k r'"
  shows "books_ok (sm', AList.update send r' rm)"
proof -
  have wf: "jm_wf rm" using books_okD(2) [OF ok] by simp
  have "reservation_ok i x \<and> covered sm' x" if "map_of (AList.update send r' rm) i = Some x" for i x
  proof (cases "i = send")
    case True
    then have "x = r'" using that by simp
    moreover have "reservation_ok send r" "covered sm r" using books_okD(4,5) [OF ok] r by auto
    moreover have "covered sm r'" using \<open>covered sm r\<close> r' by (simp add: covered_def)
    ultimately show ?thesis using r' sm(3) True by (simp add: reservation_ok_def)
  next
    case False
    with that books_okD(4,5) [OF ok, of i x] sm(3) show ?thesis by auto
  qed
  moreover have "reserved (scope_at sm' k) = live_tokens (AList.update send r' rm) k" for k
    using books_okD(6) [OF ok, of k] r by (simp add: live_tokens_update [OF wf] res)
  ultimately show ?thesis using sm wf by (simp add: books_ok_def)
qed

lemma books_ok_resolve:
  assumes ok: "books_ok (sm, rm)" and "o' \<in> {Settled, Lost, Abandoned}" "0 \<le> n" "0 \<le> t"
  shows "books_ok (book_resolve send o' n t (sm, rm))"
proof (cases "\<exists>r. map_of rm send = Some r \<and> is_live (status r)")
  case True
  then obtain r where r: "map_of rm send = Some r" "is_live (status r)" by blast
  let ?f = "resolve_scope o' (tokens r) n t"
  have rok: "reservation_ok send r" using books_okD(4) [OF ok] r(1) by simp
  then have ts: "distinct (targets r)" "refs_ok (targets r)" and tk: "0 \<le> tokens r"
    by (auto simp: reservation_ok_def)
  have dead: "\<not> is_live o'" using assms(2) by (auto simp: is_live_def)
  have res: "reserved (scope_at (book_targets ?f (targets r) sm) k)
      = reserved (scope_at sm k) - tokens_on k r" for k
    using tokens_on_le [OF ok, of send r k] r
    by (auto simp: scope_at_book_targets [OF ts(1)] tokens_on_def)
  have "books_ok (book_targets ?f (targets r) sm,
      AList.update send (r\<lparr>status := o', resolved_at := t\<rparr>) rm)"
  proof (rule books_ok_status [OF ok r(1)])
    show "scope_ok k s" if "map_of (book_targets ?f (targets r) sm) k = Some s" for k s
      using scope_ok_book_targets [OF ok ts _ _ _ that] assms(3) tk by simp
  qed (use assms dead books_okD(1) [OF ok] res in
      \<open>auto simp: tokens_on_def intro: covered_book_targets [OF ts(1)]\<close>)
  then show ?thesis using r by (simp add: book_resolve_def)
next
  case False
  then show ?thesis using ok by (auto simp: book_resolve_def split: option.splits)
qed

lemma books_ok_dispatch:
  assumes ok: "books_ok (sm, rm)" and "0 \<le> t"
  shows "books_ok (book (RDispatch send t) (sm, rm))"
proof (cases "\<exists>r. map_of rm send = Some r \<and> status r = Open")
  case True
  then obtain r where r: "map_of rm send = Some r" "status r = Open" by blast
  have "books_ok (sm, AList.update send (r\<lparr>status := Dispatched, resolved_at := t\<rparr>) rm)"
    by (rule books_ok_status [OF ok r(1)])
      (use assms r books_okD(1,3) [OF ok] in \<open>auto simp: tokens_on_def is_live_def\<close>)
  then show ?thesis using r by simp
next
  case False
  then show ?thesis using ok by (auto split: option.splits)
qed

lemma books_ok_forget:
  assumes ok: "books_ok (sm, rm)"
  shows "books_ok (book (RForget send t) (sm, rm))"
proof (cases "\<exists>r. map_of rm send = Some r \<and> \<not> is_live (status r)")
  case True
  then obtain r where r: "map_of rm send = Some r" "\<not> is_live (status r)" by blast
  have wf: "jm_wf rm" using books_okD(2) [OF ok] by simp
  have "live_tokens (AList.delete send rm) k = live_tokens rm k" for k
    using r by (simp add: live_tokens_delete [OF wf] tokens_on_def)
  moreover have "books_ok (sm, AList.delete send rm)"
    if "\<And>k. live_tokens (AList.delete send rm) k = live_tokens rm k"
    using ok wf that unfolding books_ok_def fst_conv snd_conv
    by (auto split: if_splits)
  ultimately show ?thesis using r by simp
next
  case False
  then show ?thesis using ok by (auto split: option.splits)
qed

lemma books_ok_drop:
  assumes ok: "books_ok (sm, rm)" and "k \<notin> set (active_refs rm)"
  shows "books_ok (AList.delete k sm, rm)"
proof -
  have wf: "jm_wf sm" "jm_wf rm" using books_okD(1,2) [OF ok] by simp_all
  have "covered (AList.delete k sm) r" if "map_of rm i = Some r" for i r
  proof -
    have "k \<notin> set (targets r)" if "is_live (status r)"
      using assms(2) that map_of_SomeD [OF \<open>map_of rm i = Some r\<close>] by (auto simp: active_refs_iff)
    with books_okD(5) [OF ok, of i r] that show ?thesis
      by (fastforce simp: covered_def scope_at_delete)
  qed
  moreover have "reserved (scope_at (AList.delete k sm) k') = live_tokens rm k'" for k'
    using books_okD(6) [OF ok, of k'] live_tokens_inactive [OF assms(2)]
    by (simp add: scope_at_delete zero_scope_def)
  ultimately show ?thesis
    using ok wf by (auto simp: books_ok_def split: if_splits)
qed


section \<open>The checkpoint rebuilds the books\<close>

definition with_reserved :: "(scope_ref \<Rightarrow> amount) \<Rightarrow> scope_map \<Rightarrow> scope_map" where
  "with_reserved f m = map (\<lambda>(k, s). (k, s\<lparr>reserved := f k\<rparr>)) m"

lemma map_of_with_reserved:
  "map_of (with_reserved f m) k = map_option (\<lambda>s. s\<lparr>reserved := f k\<rparr>) (map_of m k)"
  by (induction m) (auto simp: with_reserved_def)

lemma with_reserved_id:
  assumes "jm_wf m" "\<And>k. jm_has m k \<Longrightarrow> reserved (scope_at m k) = f k"
  shows "with_reserved f m = m"
proof -
  have "s\<lparr>reserved := f k\<rparr> = s" if "(k, s) \<in> set m" for k s
  proof -
    have "map_of m k = Some s" using assms(1) that by (rule map_of_is_SomeI)
    with assms(2) [of k] have "reserved s = f k" by (simp add: scope_at_def)
    then show ?thesis by (metis (full_types) scope_state.surjective scope_state.update_convs(2))
  qed
  then show ?thesis unfolding with_reserved_def by (intro map_idI) auto
qed

lemma update_with_reserved:
  assumes "jm_wf m" "map_of m k = Some s"
  shows "AList.update k (s\<lparr>reserved := v\<rparr>) (with_reserved f m) = with_reserved (f(k := v)) m"
  using assms
proof (induction m)
  case (Cons p m)
  obtain k' s' where p: "p = (k', s')" by (cases p)
  show ?case
  proof (cases "k' = k")
    case True
    with Cons.prems p have "\<forall>q \<in> set m. fst q \<noteq> k" by auto
    then have "with_reserved (f(k := v)) m = with_reserved f m"
      unfolding with_reserved_def by (intro map_cong) auto
    with True Cons.prems p show ?thesis by (simp add: with_reserved_def)
  next
    case False
    with Cons p show ?thesis by (simp add: with_reserved_def)
  qed
qed simp

lemma book_reserve_with_reserved:
  assumes "jm_wf m" "distinct ts"
    and "\<And>k. k \<in> set ts \<Longrightarrow> jm_has m k \<and> t \<le> last_seen_at (scope_at m k)"
  shows "book_targets (reserve_scope n t) ts (with_reserved f m) =
    with_reserved (\<lambda>k. if k \<in> set ts then f k + n else f k) m"
  using assms(2,3)
proof (induction ts arbitrary: f)
  case Nil
  then show ?case by simp
next
  case (Cons k ts)
  obtain s where s: "map_of m k = Some s" "t \<le> last_seen_at s"
    using Cons.prems(2) [of k] by (auto simp: scope_at_def)
  then have "reserve_scope n t (scope_at (with_reserved f m) k) = s\<lparr>reserved := f k + n\<rparr>"
    by (simp add: scope_at_def map_of_with_reserved reserve_scope_def max_def)
  then have "book_targets (reserve_scope n t) (k # ts) (with_reserved f m) =
      book_targets (reserve_scope n t) ts (with_reserved (f(k := f k + n)) m)"
    by (simp add: update_with_reserved [OF assms(1) s(1)])
  also have "\<dots> = with_reserved
      (\<lambda>k'. if k' \<in> set ts then (f(k := f k + n)) k' + n else (f(k := f k + n)) k') m"
    using Cons.prems by (intro Cons.IH) auto
  also have "\<dots> = with_reserved (\<lambda>k'. if k' \<in> set (k # ts) then f k' + n else f k') m"
    using Cons.prems(1) by (intro arg_cong2 [where f = with_reserved]) auto
  finally show ?case .
qed

lemma fold_update_distinct:
  "jm_wf (m @ m') \<Longrightarrow> fold (\<lambda>(k, v). AList.update k v) m' m = m @ m'"
proof (induction m' arbitrary: m)
  case (Cons p m')
  obtain k v where p: "p = (k, v)" by (cases p)
  have "map_of m k = None" using Cons.prems p by (auto simp: map_of_eq_None_iff)
  then have "AList.update k v m = m @ [(k, v)]" by (rule update_absent)
  with Cons.IH [of "m @ [(k, v)]"] Cons.prems p show ?case by simp
qed simp

abbreviation cp_scopes_of :: "scope_map \<Rightarrow> checkpoint_scope list" where
  "cp_scopes_of sm \<equiv> map (\<lambda>(k, s). \<lparr>cs_ref = k, cs_settled = settled s,
     cs_unresolved = unresolved s, cs_seen_at = last_seen_at s\<rparr>) sm"

abbreviation cp_send_of :: "string \<times> reservation \<Rightarrow> checkpoint_send" where
  "cp_send_of p \<equiv> (case p of (k, r) \<Rightarrow> \<lparr>cd_send = k, cd_status = status r,
     cd_targets = targets r, cd_tokens = tokens r, cd_at = reserved_at r,
     cd_resolved_at = resolved_at r\<rparr>)"

lemma checkpoint_cp_scope:
  "checkpoint_scope_state \<lparr>cs_ref = k, cs_settled = settled s, cs_unresolved = unresolved s,
     cs_seen_at = last_seen_at s\<rparr> = s\<lparr>reserved := 0\<rparr>"
  by (cases s) (simp add: checkpoint_scope_state_def)

lemma restored_scopes:
  assumes "jm_wf sm"
  shows "fold (\<lambda>c. AList.update (cs_ref c) (checkpoint_scope_state c)) (cp_scopes_of sm) []
    = with_reserved (\<lambda>k. 0) sm"
proof -
  have "fold (\<lambda>c. AList.update (cs_ref c) (checkpoint_scope_state c)) (cp_scopes_of sm) []
    = fold (\<lambda>(k, v). AList.update k v) (with_reserved (\<lambda>k. 0) sm) []"
    by (simp add: with_reserved_def fold_map comp_def case_prod_unfold checkpoint_cp_scope)
  also have "\<dots> = with_reserved (\<lambda>k. 0) sm"
    using assms by (subst fold_update_distinct) (auto simp: with_reserved_def comp_def case_prod_unfold)
  finally show ?thesis .
qed

lemma restore_send_step:
  assumes "jm_wf sm" "reservation_ok i r" "covered sm r"
    and "books_of l = (with_reserved f sm, rm)" "map_of rm i = None"
  shows "books_of (restore_send (cp_send_of (i, r)) l) =
    (with_reserved (\<lambda>k. f k + tokens_on k r) sm, rm @ [(i, r)])"
proof -
  have b: "scopes l = with_reserved f sm" "reservations l = rm"
    using assms(4) by (simp_all add: books_of_def)
  have up: "AList.update i x rm = rm @ [(i, x)]" for x using assms(5) by (rule update_absent)
  show ?thesis
  proof (cases "is_live (status r)")
    case False
    then show ?thesis
      by (simp add: restore_send_def books_of_def b up tokens_on_def)
  next
    case True
    have d: "distinct (targets r)" using assms(2) by (simp add: reservation_ok_def)
    have "book_targets (reserve_scope (tokens r) (reserved_at r)) (targets r) (with_reserved f sm)
        = with_reserved (\<lambda>k. if k \<in> set (targets r) then f k + tokens r else f k) sm"
      using assms(3) True by (intro book_reserve_with_reserved [OF assms(1) d]) (simp add: covered_def)
    moreover have "(\<lambda>k. if k \<in> set (targets r) then f k + tokens r else f k)
        = (\<lambda>k. f k + tokens_on k r)"
      using True by (auto simp: tokens_on_def)
    moreover have upd: "AList.update i x (rm @ [(i, y)]) = rm @ [(i, x)]"
      "map_of (rm @ [(i, y)]) i = Some y" for x y
      using assms(5) by (induction rm) (auto split: if_splits)
    ultimately show ?thesis
      using True assms(2,5)
      by (cases "status r")
        (auto simp: restore_send_def books_of_def apply_reserve_def apply_dispatch_def Let_def b up
          is_live_def reservation_ok_def upd)
  qed
qed

lemma live_tokens_snoc: "live_tokens (m @ [(i, r)]) k = live_tokens m k + tokens_on k r"
  by (simp add: live_tokens_def)

lemma restore_all:
  assumes "jm_wf sm" "jm_wf (rm @ rm')"
    and "\<And>i r. (i, r) \<in> set rm' \<Longrightarrow> reservation_ok i r \<and> covered sm r"
    and "books_of l = (with_reserved (live_tokens rm) sm, rm)"
  shows "books_of (fold restore_send (map cp_send_of rm') l) =
    (with_reserved (live_tokens (rm @ rm')) sm, rm @ rm')"
  using assms(2-)
proof (induction rm' arbitrary: rm l)
  case (Cons p rm')
  obtain i r where p: "p = (i, r)" by (cases p)
  have "map_of rm i = None" using Cons.prems(1) p by (auto simp: map_of_eq_None_iff)
  moreover have "reservation_ok i r" "covered sm r"
    using Cons.prems(2) [of i r] p by auto
  ultimately have "books_of (restore_send (cp_send_of p) l) =
      (with_reserved (\<lambda>k. live_tokens rm k + tokens_on k r) sm, rm @ [p])"
    using restore_send_step [OF assms(1) _ _ Cons.prems(3)] p by simp
  then have "books_of (restore_send (cp_send_of p) l) =
      (with_reserved (live_tokens (rm @ [p])) sm, rm @ [p])"
    by (simp add: p live_tokens_snoc [abs_def])
  moreover have "jm_wf ((rm @ [p]) @ rm')" using Cons.prems(1) by simp
  ultimately have "books_of (fold restore_send (map cp_send_of rm') (restore_send (cp_send_of p) l)) =
      (with_reserved (live_tokens ((rm @ [p]) @ rm')) sm, (rm @ [p]) @ rm')"
    using Cons.prems(2) by (intro Cons.IH) auto
  then show ?case by simp
qed simp

lemma book_checkpoint:
  assumes ok: "books_ok (sm, rm)"
  shows "book (checkpoint_of t sm rm) b = (sm, rm)"
proof -
  have wf: "jm_wf sm" "jm_wf rm" using books_okD(1,2) [OF ok] by simp_all
  let ?l = "(fresh_ledger (\<lambda>_ _. []) default_spend_policy None False [])
      \<lparr>scopes := with_reserved (\<lambda>k. 0) sm, reservations := []\<rparr>"
  have "books_of (fold restore_send (map cp_send_of rm) ?l) =
      (with_reserved (live_tokens ([] @ rm)) sm, [] @ rm)"
  proof (rule restore_all [OF wf(1)])
    show "books_of ?l = (with_reserved (live_tokens []) sm, [])"
      by (simp add: books_of_def live_tokens_def [abs_def])
    fix i r assume "(i, r) \<in> set rm"
    then have "map_of rm i = Some r" using wf(2) by simp
    with books_okD(4,5) [OF ok, of i r]
    show "reservation_ok i r \<and> covered sm r" by auto
  qed (use wf in simp)
  moreover have "with_reserved (live_tokens rm) sm = sm"
    using books_okD(6) [OF ok] by (intro with_reserved_id [OF wf(1)]) simp
  ultimately show ?thesis
    using restored_scopes [OF wf(1)]
    by (simp add: checkpoint_of_def apply_checkpoint_def Let_def)
qed


lemma books_ok_book:
  assumes ok: "books_ok b" and l: "legit rec b"
  shows "books_ok (book rec b)"
proof -
  obtain sm rm where b: "b = (sm, rm)" by (cases b)
  show ?thesis
  proof (cases rec)
    case (RReserve send ts n t)
    then show ?thesis using books_ok_reserve ok l unfolding b by blast
  next
    case (RDispatch send t)
    then show ?thesis using books_ok_dispatch ok l unfolding b by (simp del: book.simps)
  next
    case (RSettle send n t)
    then show ?thesis using ok l unfolding b by (auto intro: books_ok_resolve whole_nonneg)
  next
    case (RLost send t)
    then show ?thesis using ok l unfolding b by (auto intro: books_ok_resolve)
  next
    case (RAbandon send t)
    then show ?thesis using ok l unfolding b by (auto intro: books_ok_resolve)
  next
    case (RForget send t)
    then show ?thesis using books_ok_forget ok unfolding b by blast
  next
    case (RDrop sc a t)
    then show ?thesis using ok l books_ok_drop [of sm rm "(sc, a)"] unfolding b
      by (auto split: option.splits)
  next
    case (RCheckpoint t ss ds)
    then have "rec = checkpoint_of t sm rm" using l b by simp
    then show ?thesis using book_checkpoint ok b by simp
  qed
qed

lemma cp_of_ok:
  assumes "books_ok (sm, rm)" "0 \<le> t"
  shows "record_ok (checkpoint_of t sm rm)"
proof -
  have "list_all cp_scope_ok (cp_scopes_of sm)"
  proof (clarsimp simp: list_all_iff)
    fix sc a s assume "((sc, a), s) \<in> set sm"
    then have "map_of sm (sc, a) = Some s" using books_okD(1) [OF assms(1)] by simp
    with books_okD(3) [OF assms(1), of "(sc, a)" s]
    show "cp_scope_ok \<lparr>cs_ref = (sc, a), cs_settled = settled s, cs_unresolved = unresolved s,
        cs_seen_at = last_seen_at s\<rparr>"
      by (simp add: scope_ok_def cp_scope_ok_def)
  qed
  moreover have "list_all cp_send_ok (map cp_send_of rm)"
  proof (clarsimp simp: list_all_iff)
    fix i r assume "(i, r) \<in> set rm"
    then have "map_of rm i = Some r" using books_okD(2) [OF assms(1)] by simp
    with books_okD(4) [OF assms(1), of i r]
    show "cp_send_ok \<lparr>cd_send = i, cd_status = status r, cd_targets = targets r,
        cd_tokens = tokens r, cd_at = reserved_at r, cd_resolved_at = resolved_at r\<rparr>"
      by (simp add: reservation_ok_def cp_send_ok_def)
  qed
  ultimately show ?thesis using assms(2) by (simp add: checkpoint_of_def)
qed

lemma legit_record_ok: "books_ok b \<Longrightarrow> legit rec b \<Longrightarrow> record_ok rec"
  using cp_of_ok [of "fst b" "snd b"]
  by (cases rec) (auto dest: whole_nonneg)

lemma legit_whole: "legit rec b \<Longrightarrow> whole_figures rec"
  by (cases rec) (auto simp: checkpoint_of_def)


section \<open>Replay of written records\<close>

definition written :: "journal_record list \<Rightarrow> journal_line list" where
  "written recs = map (\<lambda>r. Some (encode_record r)) recs"

lemma replay_written:
  assumes "list_all (\<lambda>r. record_ok r \<and> whole_figures r) recs"
  shows "books_of (replay_lines (written recs) l) = fold book recs (books_of l)
    \<and> corrupt (replay_lines (written recs) l) = corrupt l"
  using assms
proof (induction recs arbitrary: l)
  case (Cons r recs)
  have "corrupt (apply_record r l) = corrupt l"
  proof -
    have "corrupt (restore_send c l) = corrupt l" for c l
      by (simp add: restore_send_def apply_reserve_def apply_dispatch_def Let_def split: option.splits)
    then have "corrupt (fold restore_send ds l) = corrupt l" for ds l
      by (induction ds arbitrary: l) auto
    then show ?thesis
      by (simp add: apply_record_def apply_reserve_def apply_dispatch_def apply_resolve_def
          apply_forget_def apply_drop_def apply_checkpoint_def forget_memory_def
          split: journal_record.splits option.splits)
  qed
  with Cons show ?case
    by (simp add: written_def parse_encode books_apply_record)
qed (simp add: written_def)

end
