(* ===== verification/Spend_Steps.thy ===== *)
theory Spend_Steps
  imports Spend_Books
begin

text \<open>
  The ledger's invariant \<open>good\<close>: the books are well-formed, and as long as no write has
  failed the journal alone rebuilds them. Each operation is a sequence of two kinds of step,
  one that keeps the books and one that writes a legitimate record and applies it; both
  preserve \<open>good\<close>, and so does compaction. The section on reachable ledgers closes the
  argument over every operation and over restarts.
\<close>

section \<open>Steps\<close>

definition synced :: "ledger \<Rightarrow> bool" where
  "synced l \<longleftrightarrow> (\<forall>d. disk l = Some d \<longrightarrow> (\<exists>recs. d = written recs
     \<and> list_all (\<lambda>r. record_ok r \<and> whole_figures r) recs \<and> fold book recs ([], []) = books_of l))"

definition quiet :: "ledger \<Rightarrow> bool" where
  "quiet l \<longleftrightarrow> pending l = [] \<and> nondurable l = []"

definition good :: "ledger \<Rightarrow> bool" where
  "good l \<longleftrightarrow> books_ok (books_of l) \<and> (persist_failures l = 0 \<longrightarrow> quiet l \<and> synced l)"

definition kept :: "ledger \<Rightarrow> ledger \<Rightarrow> bool" where
  "kept l l' \<longleftrightarrow> books_of l' = books_of l \<and> persist_failures l \<le> persist_failures l'
     \<and> (persist_failures l' = 0 \<and> quiet l \<longrightarrow> quiet l' \<and> disk l' = disk l)"

definition wrote :: "journal_record \<Rightarrow> ledger \<Rightarrow> ledger \<Rightarrow> bool" where
  "wrote rec l l' \<longleftrightarrow> legit rec (books_of l) \<and> books_of l' = book rec (books_of l)
     \<and> persist_failures l \<le> persist_failures l'
     \<and> (persist_failures l' = 0 \<and> quiet l \<longrightarrow>
          quiet l' \<and> disk l' = map_option (\<lambda>d. d @ [Some (encode_record rec)]) (disk l))"

lemma good_books: "good l \<Longrightarrow> books_ok (books_of l)"
  by (simp add: good_def)

lemma kept_refl [simp]: "kept l l"
  by (simp add: kept_def)

lemma kept_trans: "kept l l1 \<Longrightarrow> kept l1 l2 \<Longrightarrow> kept l l2"
  by (auto simp: kept_def)

lemma good_kept: "good l \<Longrightarrow> kept l l' \<Longrightarrow> good l'"
  by (auto simp: good_def kept_def synced_def)

lemma wrote_kept: "wrote rec l l1 \<Longrightarrow> kept l1 l2 \<Longrightarrow> wrote rec l l2"
  by (auto simp: wrote_def kept_def)

lemma kept_wrote: "kept l l1 \<Longrightarrow> wrote rec l1 l2 \<Longrightarrow> wrote rec l l2"
  by (auto simp: wrote_def kept_def)

lemma good_wrote:
  assumes "good l" "wrote rec l l'"
  shows "good l'"
proof -
  have ok: "books_ok (books_of l)" and legit: "legit rec (books_of l)"
    and b: "books_of l' = book rec (books_of l)"
    using assms by (auto simp: good_def wrote_def)
  have "quiet l' \<and> synced l'" if z: "persist_failures l' = 0"
  proof -
    from z assms have q: "quiet l" "synced l" by (auto simp: good_def wrote_def)
    with z assms(2) have q': "quiet l'"
      and d': "disk l' = map_option (\<lambda>d. d @ [Some (encode_record rec)]) (disk l)"
      by (auto simp: wrote_def)
    have "synced l'"
      unfolding synced_def
    proof (intro allI impI)
      fix d' assume "disk l' = Some d'"
      with d' obtain d where d: "disk l = Some d" "d' = d @ [Some (encode_record rec)]"
        by (cases "disk l") auto
      with q(2) obtain recs where recs: "d = written recs"
        "list_all (\<lambda>r. record_ok r \<and> whole_figures r) recs" "fold book recs ([], []) = books_of l"
        unfolding synced_def by blast
      have "d' = written (recs @ [rec])" by (simp add: d recs written_def)
      moreover have "list_all (\<lambda>r. record_ok r \<and> whole_figures r) (recs @ [rec])"
        using recs(2) legit_record_ok [OF ok legit] legit_whole [OF legit] by simp
      moreover have "fold book (recs @ [rec]) ([], []) = books_of l'"
        by (simp add: recs(3) b)
      ultimately show "\<exists>recs. d' = written recs
          \<and> list_all (\<lambda>r. record_ok r \<and> whole_figures r) recs \<and> fold book recs ([], []) = books_of l'"
        by blast
    qed
    with q' show ?thesis by simp
  qed
  with books_ok_book [OF ok legit] b show ?thesis by (simp add: good_def)
qed

lemma good_compact:
  assumes "good l" "0 \<le> t"
  shows "good (compact t l)"
proof -
  let ?cp = "checkpoint_of t (scopes l) (reservations l)"
  have ok: "books_ok (scopes l, reservations l)" using good_books [OF assms(1)] by (simp add: books_of_def)
  have "fold book [?cp] ([], []) = (scopes l, reservations l)"
    using book_checkpoint [OF ok] by simp
  moreover have "list_all (\<lambda>r. record_ok r \<and> whole_figures r) [?cp]"
    using cp_of_ok [OF ok assms(2)] by (simp add: checkpoint_of_def)
  moreover have "[Some (encode_record ?cp)] = written [?cp]" by (simp add: written_def)
  ultimately have "synced (l\<lparr>faults := fs, disk := Some [Some (encode_record ?cp)], on_disk := n\<rparr>)"
    for fs n
    unfolding synced_def books_of_def by auto
  then show ?thesis
    using assms(1) by (auto simp: good_def compact_def quiet_def books_of_def)
qed


section \<open>Journal writes\<close>

lemma append_record_simps [simp]:
  "pending (snd (append_record r l)) = pending l"
  "nondurable (snd (append_record r l)) = nondurable l"
  "retained (snd (append_record r l)) = retained l"
  "seeds (snd (append_record r l)) = seeds l"
  "seed_by_send (snd (append_record r l)) = seed_by_send l"
  "pinned_keys (snd (append_record r l)) = pinned_keys l"
  "policy (snd (append_record r l)) = policy l"
  "continuity (snd (append_record r l)) = continuity l"
  "corrupt (snd (append_record r l)) = corrupt l"
  "next_seed (snd (append_record r l)) = next_seed l"
  "books_of (snd (append_record r l)) = books_of l"
  by (auto simp: append_record_def books_of_def split: option.splits)

lemma append_ok:
  "fst (append_record r l) \<Longrightarrow> persist_failures (snd (append_record r l)) = persist_failures l
    \<and> disk (snd (append_record r l)) = map_option (\<lambda>d. d @ [Some (encode_record r)]) (disk l)"
  by (auto simp: append_record_def split: option.splits if_splits)

lemma append_fail:
  "\<not> fst (append_record r l) \<Longrightarrow>
     persist_failures (snd (append_record r l)) = Suc (persist_failures l)"
  by (auto simp: append_record_def split: option.splits if_splits)

lemma append_persist_le: "persist_failures l \<le> persist_failures (snd (append_record r l))"
  using append_ok append_fail by (metis le_SucI order_refl)

lemma flush_from_simps [simp]:
  "nondurable (snd (flush_from rs l)) = nondurable l"
  "retained (snd (flush_from rs l)) = retained l"
  "seeds (snd (flush_from rs l)) = seeds l"
  "seed_by_send (snd (flush_from rs l)) = seed_by_send l"
  "pinned_keys (snd (flush_from rs l)) = pinned_keys l"
  "policy (snd (flush_from rs l)) = policy l"
  "continuity (snd (flush_from rs l)) = continuity l"
  "corrupt (snd (flush_from rs l)) = corrupt l"
  "next_seed (snd (flush_from rs l)) = next_seed l"
  by (induction rs arbitrary: l) (simp_all add: split_beta Let_def)

lemma books_flush_from [simp]: "books_of (snd (flush_from rs l)) = books_of l"
  by (simp add: books_of_def)

lemma flush_from_persist:
  "persist_failures l \<le> persist_failures (snd (flush_from rs l))
   \<and> (fst (flush_from rs l) \<or> 0 < persist_failures (snd (flush_from rs l)))"
proof (induction rs arbitrary: l)
  case (Cons r rs)
  let ?l = "l\<lparr>pending := r # rs\<rparr>"
  show ?case
  proof (cases "fst (append_record r ?l)")
    case True
    with Cons [of "snd (append_record r ?l)"] append_persist_le [of ?l r] show ?thesis
      by (auto simp: split_beta Let_def)
  next
    case False
    with append_fail [OF False] show ?thesis by (simp add: split_beta Let_def)
  qed
qed simp

lemma flush_pending_simps [simp]:
  "nondurable (snd (flush_pending l)) = nondurable l"
  "retained (snd (flush_pending l)) = retained l"
  "seeds (snd (flush_pending l)) = seeds l"
  "seed_by_send (snd (flush_pending l)) = seed_by_send l"
  "pinned_keys (snd (flush_pending l)) = pinned_keys l"
  "policy (snd (flush_pending l)) = policy l"
  "continuity (snd (flush_pending l)) = continuity l"
  "corrupt (snd (flush_pending l)) = corrupt l"
  "books_of (snd (flush_pending l)) = books_of l"
  "reservations (snd (flush_pending l)) = reservations l"
  "scopes (snd (flush_pending l)) = scopes l"
  "next_seed (snd (flush_pending l)) = next_seed l"
  by (simp_all add: flush_pending_def)

lemma kept_flush: "kept l (snd (flush_pending l))"
  using flush_from_persist [of l "pending l"]
  by (auto simp: kept_def flush_pending_def quiet_def)

lemma flush_fail: "\<not> fst (flush_pending l) \<Longrightarrow> 0 < persist_failures (snd (flush_pending l))"
  using flush_from_persist [of l "pending l"] by (simp add: flush_pending_def)

lemma flush_append_simps [simp]:
  "nondurable (snd (flush_append r l)) = nondurable l"
  "retained (snd (flush_append r l)) = retained l"
  "seeds (snd (flush_append r l)) = seeds l"
  "seed_by_send (snd (flush_append r l)) = seed_by_send l"
  "pinned_keys (snd (flush_append r l)) = pinned_keys l"
  "policy (snd (flush_append r l)) = policy l"
  "continuity (snd (flush_append r l)) = continuity l"
  "corrupt (snd (flush_append r l)) = corrupt l"
  "books_of (snd (flush_append r l)) = books_of l"
  "next_seed (snd (flush_append r l)) = next_seed l"
  by (simp_all add: flush_append_def split_beta Let_def)

lemma flush_append_fail:
  assumes "\<not> fst (flush_append r l)"
  shows "kept l (snd (flush_append r l)) \<and> 0 < persist_failures (snd (flush_append r l))"
proof (cases "fst (flush_pending l)")
  case True
  with assms kept_flush [of l] append_fail [of r "snd (flush_pending l)"] show ?thesis
    by (auto simp: flush_append_def split_beta Let_def kept_def quiet_def)
next
  case False
  with kept_flush [of l] flush_fail [of l] show ?thesis
    by (auto simp: flush_append_def split_beta Let_def)
qed

text \<open>A record that reached the journal, followed by the change it stands for.\<close>

lemma wrote_append:
  assumes "fst (append_record rec l)" "legit rec (books_of l)"
    and "books_of l' = book rec (books_of l)" "persist_failures l' = persist_failures lj"
      "pending l' = pending lj" "disk l' = disk lj"
      "nondurable lj = [] \<Longrightarrow> nondurable l' = []"
    and "lj = snd (append_record rec l)"
  shows "wrote rec l l'"
  using assms append_ok [OF assms(1)] by (auto simp: wrote_def quiet_def)

lemma wrote_flush_append:
  assumes "fst (flush_append rec l)" "legit rec (books_of l)"
    and "books_of l' = book rec (books_of l)" "persist_failures l' = persist_failures lj"
      "pending l' = pending lj" "disk l' = disk lj"
      "nondurable lj = [] \<Longrightarrow> nondurable l' = []"
    and "lj = snd (flush_append rec l)"
  shows "wrote rec l l'"
proof (rule kept_wrote [OF kept_flush])
  have *: "fst (flush_pending l)" "fst (append_record rec (snd (flush_pending l)))"
    "lj = snd (append_record rec (snd (flush_pending l)))"
    using assms(1,8) by (auto simp: flush_append_def split_beta Let_def split: if_splits)
  show "wrote rec (snd (flush_pending l)) l'"
    using assms * by (intro wrote_append [OF *(2)]) auto
qed

text \<open>The change first and the record, whose write may fail, afterwards.\<close>

lemma wrote_then_append:
  assumes "legit rec (books_of l)" "books_of l1 = book rec (books_of l)"
    "persist_failures l1 = persist_failures l" "quiet l \<Longrightarrow> quiet l1" "disk l1 = disk l"
  shows "wrote rec l (snd (append_record rec l1))"
  using assms append_ok [of rec l1] append_fail [of rec l1]
  by (cases "fst (append_record rec l1)") (auto simp: wrote_def quiet_def)

lemma wrote_append_reported:
  assumes "legit rec (books_of l)" "books_of l1 = book rec (books_of l)"
    "persist_failures l1 = persist_failures l" "quiet l \<Longrightarrow> quiet l1" "disk l1 = disk l"
  shows "wrote rec l (append_reported rec l1)"
proof -
  let ?l = "l1\<lparr>pending := pending l1 @ [rec]\<rparr>"
  have "books_of ?l = books_of l1" by (simp add: books_of_def)
  then show ?thesis
    using assms append_ok [of rec ?l] append_fail [of rec ?l] append_persist_le [of ?l rec]
    by (cases "fst (append_record rec ?l)")
      (auto simp: wrote_def quiet_def append_reported_def split_beta Let_def books_of_def)
qed


section \<open>Eviction and room\<close>

definition hash_ok :: "alias_hash \<Rightarrow> bool" where
  "hash_ok h \<longleftrightarrow> (\<forall>k i. alias_ok (h k i))"

lemma good_try_drop:
  assumes "good (snd nl)" "k \<notin> set (active_refs (reservations (snd nl)))"
    "jm_has (scopes (snd nl)) k" "0 \<le> t"
  shows "good (snd (try_drop t k nl))"
proof -
  obtain n l where nl: "nl = (n, l)" by (cases nl)
  let ?rec = "RDrop (fst k) (snd k) t"
  let ?l1 = "snd (flush_append ?rec l)"
  show ?thesis
  proof (cases "fst (flush_append ?rec l)")
    case True
    let ?l2 = "?l1\<lparr>scopes := AList.delete k (scopes ?l1)\<rparr>"
    have ok: "books_ok (scopes l, reservations l)"
      using good_books [of l] assms(1) by (simp add: nl books_of_def)
    obtain s where s: "map_of (scopes l) k = Some s" using assms(3) nl by auto
    have "reserved s = 0"
      using books_okD(6) [OF ok, of k] live_tokens_inactive [of k "reservations l"] assms(2) s
      by (simp add: scope_at_def nl)
    then have "books_of ?l2 = book ?rec (books_of l)"
      using s by (cases k) (simp add: books_of_def)
    moreover have "legit ?rec (books_of l)"
      using books_okD(3) [OF ok, of k s] s assms(2,4) nl by (simp add: scope_ok_def)
    ultimately have "wrote ?rec l ?l2"
      using True by (intro wrote_flush_append [where lj = ?l1]) auto
    then have "good ?l2" using good_wrote assms(1) nl by auto
    with True show ?thesis by (simp add: nl try_drop_def split_beta Let_def)
  next
    case False
    with flush_append_fail [OF False] good_kept [of l ?l1] assms(1) show ?thesis
      by (simp add: nl try_drop_def split_beta Let_def)
  qed
qed

lemma reservations_try_drop [simp]: "reservations (snd (try_drop t k nl)) = reservations (snd nl)"
  by (cases nl) (simp add: try_drop_def split_beta Let_def)

lemma jm_has_try_drop:
  "k' \<noteq> k \<Longrightarrow> map_of (scopes (snd (try_drop t k nl))) k' = map_of (scopes (snd nl)) k'"
  by (cases nl) (simp add: try_drop_def split_beta Let_def)

lemma good_fold_try_drop:
  assumes "good (snd nl)" "distinct ks" "0 \<le> t"
    "\<And>k. k \<in> set ks \<Longrightarrow> k \<notin> set (active_refs (reservations (snd nl))) \<and> jm_has (scopes (snd nl)) k"
  shows "good (snd (fold (try_drop t) ks nl))
    \<and> reservations (snd (fold (try_drop t) ks nl)) = reservations (snd nl)"
  using assms
proof (induction ks arbitrary: nl)
  case (Cons k ks)
  have "good (snd (try_drop t k nl))" using Cons.prems by (intro good_try_drop) auto
  moreover have "k' \<notin> set (active_refs (reservations (snd (try_drop t k nl))))
      \<and> jm_has (scopes (snd (try_drop t k nl))) k'" if "k' \<in> set ks" for k'
  proof -
    have "k' \<noteq> k" using that Cons.prems(2) by auto
    then show ?thesis using Cons.prems(4) [of k'] that by (simp add: jm_has_try_drop)
  qed
  ultimately show ?case using Cons.IH [of "try_drop t k nl"] Cons.prems by simp
qed simp

lemma in_set_has: "(k, s) \<in> set m \<Longrightarrow> jm_has m k"
  by (metis not_None_eq weak_map_of_SomeI)

lemma expired_unbound_idle:
  assumes "k \<in> set (expired_unbound t l)"
  shows "k \<notin> set (active_refs (reservations l)) \<and> jm_has (scopes l) k"
proof -
  obtain s where "(k, s) \<in> set (scopes l)" "scope_idle l k s"
    using assms by (auto simp: expired_unbound_def)
  with in_set_has [of k s "scopes l"] show ?thesis by (simp add: scope_idle_def)
qed

lemma scope_candidates_idle:
  assumes "k \<in> set (scope_candidates t force l)"
  shows "k \<notin> set (active_refs (reservations l)) \<and> jm_has (scopes l) k"
proof -
  obtain s where "(k, s) \<in> set (scopes l)" "evictable_scope t force l k s"
    using assms
    by (auto simp: scope_candidates_def oldest_one_def split: if_splits dest!: in_set_takeD)
  then show ?thesis
    using in_set_has [of k s "scopes l"] by (simp add: evictable_scope_def scope_idle_def)
qed

lemma distinct_oldest_one:
  "jm_wf m \<Longrightarrow> distinct (map fst (oldest_one f force (filter P m)))"
proof -
  assume wf: "jm_wf m"
  then have "jm_wf (filter P m)" by simp
  then have "distinct (filter P m)" "inj_on fst (set (filter P m))"
    unfolding distinct_map by auto
  then have "jm_wf (sort_key f (filter P m))" by (simp add: distinct_map)
  then have "distinct (take 1 (map fst (sort_key f (filter P m))))" by (rule distinct_take)
  with \<open>jm_wf (filter P m)\<close> show ?thesis by (simp add: oldest_one_def take_map)
qed

lemma good_evict_scopes:
  assumes "good l" "0 \<le> t"
  shows "good (snd (evict_scopes t force l))
    \<and> reservations (snd (evict_scopes t force l)) = reservations l"
proof -
  let ?nl = "fold (try_drop t) (expired_unbound t l) (0, l)"
  have wf: "jm_wf (scopes l')" if "good l'" for l'
    using books_okD(1) [OF good_books [OF that]] by simp
  have "distinct (expired_unbound t l)"
    using wf [OF assms(1)] by (simp add: expired_unbound_def)
  then have 1: "good (snd ?nl)" "reservations (snd ?nl) = reservations l"
    using good_fold_try_drop [of "(0, l)" "expired_unbound t l" t] assms expired_unbound_idle [of _ t l]
    by auto
  have "distinct (scope_candidates t force (snd ?nl))"
    unfolding scope_candidates_def by (rule distinct_oldest_one) (rule wf [OF 1(1)])
  then show ?thesis
    using good_fold_try_drop [of ?nl "scope_candidates t force (snd ?nl)" t] 1 assms(2)
      scope_candidates_idle [of _ t force "snd ?nl"]
    by (simp add: evict_scopes_def split_beta Let_def)
qed

lemma good_try_forget:
  assumes "good (snd nl)" "map_of (reservations (snd nl)) i = Some r" "\<not> is_live (status r)" "0 \<le> t"
  shows "good (snd (try_forget t i nl))"
proof -
  obtain n l where nl: "nl = (n, l)" by (cases nl)
  let ?rec = "RForget i t"
  let ?l1 = "snd (flush_append ?rec l)"
  show ?thesis
  proof (cases "fst (flush_append ?rec l)")
    case True
    let ?l2 = "(forget_memory i ?l1)\<lparr>reservations := AList.delete i (reservations ?l1)\<rparr>"
    have "books_of ?l2 = book ?rec (books_of l)"
      using assms(2,3) nl by (simp add: books_of_def forget_memory_def)
    moreover have "legit ?rec (books_of l)"
      using books_okD(4) [OF good_books, of l i r] assms nl by (simp add: reservation_ok_def)
    ultimately have "wrote ?rec l ?l2"
      using True by (intro wrote_flush_append [where lj = ?l1]) (auto simp: forget_memory_def)
    then have "good ?l2" using good_wrote assms(1) nl by auto
    with True show ?thesis by (simp add: nl try_forget_def split_beta Let_def)
  next
    case False
    with flush_append_fail [OF False] good_kept [of l ?l1] assms(1) show ?thesis
      by (simp add: nl try_forget_def split_beta Let_def)
  qed
qed

lemma try_forget_simps [simp]:
  "scopes (snd (try_forget t i nl)) = scopes (snd nl)"
  by (cases nl) (simp add: try_forget_def split_beta Let_def forget_memory_def)

lemma reservations_try_forget:
  "j \<noteq> i \<Longrightarrow> map_of (reservations (snd (try_forget t i nl))) j = map_of (reservations (snd nl)) j"
  by (cases nl) (simp add: try_forget_def split_beta Let_def forget_memory_def)

lemma good_fold_try_forget:
  assumes "good (snd nl)" "distinct is" "0 \<le> t"
    "\<And>i. i \<in> set is \<Longrightarrow> \<exists>r. map_of (reservations (snd nl)) i = Some r \<and> \<not> is_live (status r)"
  shows "good (snd (fold (try_forget t) is nl))"
  using assms
proof (induction "is" arbitrary: nl)
  case (Cons i "is")
  obtain r where "map_of (reservations (snd nl)) i = Some r" "\<not> is_live (status r)"
    using Cons.prems(4) [of i] by auto
  then have "good (snd (try_forget t i nl))" using Cons.prems by (intro good_try_forget) auto
  moreover have "\<exists>r. map_of (reservations (snd (try_forget t i nl))) j = Some r \<and> \<not> is_live (status r)"
    if "j \<in> set is" for j
  proof -
    have "j \<noteq> i" using that Cons.prems(2) by auto
    then show ?thesis using Cons.prems(4) [of j] that by (simp add: reservations_try_forget)
  qed
  ultimately show ?case using Cons.IH [of "try_forget t i nl"] Cons.prems by simp
qed simp

lemma send_candidates_dead:
  assumes "jm_wf (reservations l)" "i \<in> set (send_candidates t force l)"
  shows "\<exists>r. map_of (reservations l) i = Some r \<and> \<not> is_live (status r)
    \<and> \<not> jm_has (seed_by_send l) i"
proof -
  obtain r where "(i, r) \<in> set (reservations l)" "\<not> is_live (status r)" "\<not> jm_has (seed_by_send l) i"
    using assms(2)
    by (auto simp: send_candidates_def oldest_one_def split: if_splits dest!: in_set_takeD)
  with assms(1) show ?thesis by auto
qed

lemma good_evict_sends:
  assumes "good l" "0 \<le> t"
  shows "good (snd (evict_sends t force l))"
proof -
  have wf: "jm_wf (reservations l)" using books_okD(2) [OF good_books [OF assms(1)]] by simp
  then have "distinct (send_candidates t force l)"
    unfolding send_candidates_def by (rule distinct_oldest_one)
  then show ?thesis
    using good_fold_try_forget [of "(0, l)" "send_candidates t force l" t]
      send_candidates_dead [OF wf, of _ t force] assms
    by (auto simp: evict_sends_def)
qed

lemma good_room_for_send: "good l \<Longrightarrow> 0 \<le> t \<Longrightarrow> good (snd (room_for_send t l))"
proof (induction t l rule: room_for_send.induct)
  case (1 t l)
  have "good (snd (evict_sends t True l))" using 1(2,3) by (rule good_evict_sends)
  with 1 show ?case by (subst room_for_send.simps) auto
qed

lemma good_room_for_scopes: "good l \<Longrightarrow> 0 \<le> t \<Longrightarrow> good (snd (room_for_scopes refs t l))"
proof (induction refs t l rule: room_for_scopes.induct)
  case (1 refs t l)
  have "good (snd (evict_scopes t True l))" using good_evict_scopes 1(2,3) by blast
  with 1 show ?case by (subst room_for_scopes.simps) auto
qed

lemma good_make_room:
  assumes "good l" "0 \<le> t"
  shows "good (snd (make_room refs t l))"
proof -
  have "good (snd (evict_sends t False l))" using assms by (rule good_evict_sends)
  then have "good (snd (evict_scopes t False (snd (evict_sends t False l))))"
    using good_evict_scopes assms(2) by blast
  then have 3: "good (snd (room_for_send t (snd (evict_scopes t False (snd (evict_sends t False l))))))"
    using assms(2) by (rule good_room_for_send)
  show ?thesis
    using 3 good_room_for_scopes [OF 3 assms(2), of refs]
    by (auto simp: make_room_def Let_def split_beta)
qed


section \<open>What making room may remove\<close>

definition shrinks :: "ledger \<Rightarrow> ledger \<Rightarrow> bool" where
  "shrinks l l' \<longleftrightarrow> (\<forall>i. map_of (reservations l') i \<in> {None, map_of (reservations l) i})
     \<and> (\<forall>k. map_of (scopes l') k \<in> {None, map_of (scopes l) k})
     \<and> policy l' = policy l \<and> continuity l' = continuity l \<and> corrupt l' = corrupt l
     \<and> seeds l' = seeds l \<and> seed_by_send l' = seed_by_send l \<and> pinned_keys l' = pinned_keys l
     \<and> next_seed l' = next_seed l"

lemma shrinks_refl [simp]: "shrinks l l"
  by (simp add: shrinks_def)

lemma shrinks_trans:
  assumes "shrinks l l1" "shrinks l1 l2"
  shows "shrinks l l2"
proof -
  have "map_of (reservations l2) i \<in> {None, map_of (reservations l) i}" for i
    using assms unfolding shrinks_def by (metis insertE insertI1 insert_absorb2 singletonD insertCI)
  moreover have "map_of (scopes l2) k \<in> {None, map_of (scopes l) k}" for k
    using assms unfolding shrinks_def by (metis insertE insertI1 insert_absorb2 singletonD insertCI)
  ultimately show ?thesis using assms by (simp add: shrinks_def)
qed

lemma shrinks_try_drop: "shrinks (snd nl) (snd (try_drop t k nl))"
  by (cases nl) (simp add: try_drop_def split_beta Let_def shrinks_def)

lemma shrinks_try_forget: "shrinks (snd nl) (snd (try_forget t i nl))"
  by (cases nl) (simp add: try_forget_def split_beta Let_def shrinks_def forget_memory_def)

lemma shrinks_fold:
  assumes "\<And>x nl. shrinks (snd nl) (snd (f x nl))"
  shows "shrinks (snd nl) (snd (fold f xs nl))"
proof (induction xs arbitrary: nl)
  case (Cons x xs)
  from shrinks_trans [OF assms [of nl x] Cons.IH [of "f x nl"]] show ?case by simp
qed simp

lemma shrinks_evict_scopes: "shrinks l (snd (evict_scopes t force l))"
proof -
  let ?nl = "fold (try_drop t) (expired_unbound t l) (0, l)"
  have "shrinks l (snd ?nl)"
    using shrinks_fold [of "try_drop t" "(0, l)"] shrinks_try_drop by simp
  moreover have "shrinks (snd ?nl) (snd (fold (try_drop t) (scope_candidates t force (snd ?nl)) ?nl))"
    by (rule shrinks_fold) (rule shrinks_try_drop)
  ultimately show ?thesis
    by (simp add: evict_scopes_def split_beta Let_def shrinks_trans)
qed

lemma shrinks_evict_sends: "shrinks l (snd (evict_sends t force l))"
  using shrinks_fold [of "try_forget t" "(0, l)"] shrinks_try_forget by (simp add: evict_sends_def)

lemma shrinks_room_for_send: "shrinks l (snd (room_for_send t l))"
proof (induction t l rule: room_for_send.induct)
  case (1 t l)
  then show ?case
    using shrinks_evict_sends [of l t True]
    by (subst room_for_send.simps) (auto intro: shrinks_trans)
qed

lemma shrinks_room_for_scopes: "shrinks l (snd (room_for_scopes refs t l))"
proof (induction refs t l rule: room_for_scopes.induct)
  case (1 refs t l)
  then show ?case
    using shrinks_evict_scopes [of l t True]
    by (subst room_for_scopes.simps) (auto intro: shrinks_trans)
qed

lemma shrinks_flush: "shrinks l (snd (flush_pending l))"
  by (simp add: shrinks_def)

lemma shrinks_make_room: "shrinks l (snd (make_room refs t l))"
proof -
  let ?l1 = "snd (evict_sends t False l)"
  let ?l2 = "snd (evict_scopes t False ?l1)"
  let ?l3 = "snd (room_for_send t ?l2)"
  have "shrinks l ?l3"
    using shrinks_trans [OF shrinks_evict_sends shrinks_trans [OF shrinks_evict_scopes
        shrinks_room_for_send]] .
  moreover from this have "shrinks l (snd (room_for_scopes refs t ?l3))"
    by (rule shrinks_trans [OF _ shrinks_room_for_scopes])
  ultimately show ?thesis by (simp add: make_room_def Let_def split_beta)
qed

lemma shrinks_absent: "shrinks l l' \<Longrightarrow> map_of (reservations l) i = None \<Longrightarrow> map_of (reservations l') i = None"
  unfolding shrinks_def by (metis insertE singletonD)


section \<open>Every operation keeps the ledger good\<close>

lemma good_same:
  assumes "good l" "books_of l' = books_of l" "persist_failures l' = persist_failures l"
    "pending l' = pending l" "nondurable l' = nondurable l" "disk l' = disk l"
  shows "good l'"
  using assms by (intro good_kept [of l l']) (simp_all add: kept_def quiet_def)

lemma refs_for_ok: "hash_ok h \<Longrightarrow> refs_ok (refs_for h sc) \<and> distinct (refs_for h sc)"
  by (auto simp: refs_for_def refs_ok_def hash_ok_def split: option.splits)

lemma whole_request [simp]: "whole (request_tokens q)"
  by (simp add: request_tokens_def whole_usage)

text \<open>
  The outcome of \<open>reserve\<close> in one place: refused, with a ledger that only shrank, or
  admitted, with the steps that led there.
\<close>

definition enforced :: "alias_hash \<Rightarrow> spend_request \<Rightarrow> ledger \<Rightarrow> bool" where
  "enforced h q l \<longleftrightarrow> list_ex (\<lambda>k. admission_limit q l (fst k) \<noteq> None) (refs_for h (req_scopes q))"

lemma reserve_cases:
  obtains (refused) d l' where "reserve h q clock l = (Refused d, l')" "shrinks l l'"
      "\<lbrakk>good l; 0 \<le> nullish (req_at q) clock\<rbrakk> \<Longrightarrow> good l'"
  | (admitted) l1 durable l2 l3 where
      "l1 = snd (make_room (refs_for h (req_scopes q)) (nullish (req_at q) clock) (snd (flush_pending l)))"
      "fst (make_room (refs_for h (req_scopes q)) (nullish (req_at q) clock) (snd (flush_pending l))) = None"
      "\<not> jm_has (reservations l) (h ''send'' (send_id q))"
      "\<not> jm_has (seed_by_send l) (h ''send'' (send_id q))"
      "enforced h q l \<Longrightarrow> corrupt l = 0"
      "first_error (limit_denial q l1) (refs_for h (req_scopes q)) = None"
      "append_record (RReserve (h ''send'' (send_id q)) (refs_for h (req_scopes q)) (request_tokens q)
         (nullish (req_at q) clock)) l1 = (durable, l2)"
      "enforced h q l \<Longrightarrow> \<not> already_sent q \<Longrightarrow> durable"
      "l3 = (let l' = apply_reserve (h ''send'' (send_id q)) (refs_for h (req_scopes q))
               (request_tokens q) (nullish (req_at q) clock) l2
         in if durable then l' else l'\<lparr>nondurable := AList.update (h ''send'' (send_id q))
              (RReserve (h ''send'' (send_id q)) (refs_for h (req_scopes q)) (request_tokens q)
                (nullish (req_at q) clock)) (nondurable l')\<rparr>)"
      "reserve h q clock l = (Reserved (send_id q) (request_tokens q) durable,
         compact (nullish (req_at q) clock) l3)"
proof -
  define lf where "lf = snd (flush_pending l)"
  define refs where "refs = refs_for h (req_scopes q)"
  define t where "t = nullish (req_at q) clock"
  define l1 where "l1 = snd (make_room refs t lf)"
  define room where "room = fst (make_room refs t lf)"
  define send where "send = h ''send'' (send_id q)"
  define rec where "rec = RReserve send refs (request_tokens q) t"
  define durable where "durable = fst (append_record rec l1)"
  define l2 where "l2 = snd (append_record rec l1)"
  define l3 where "l3 = (let l' = apply_reserve send refs (request_tokens q) t l2
     in if durable then l' else l'\<lparr>nondurable := AList.update send rec (nondurable l')\<rparr>)"
  define pre where "pre = (enforced h q l \<and> \<not> already_sent q)"
  define cont where "cont = prepare_pool_continuity h (pool_id (req_scopes q)) lf"
  define fe where "fe = first_error (limit_denial q l1) refs"
  note l3E = l3_def [unfolded rec_def send_def refs_def t_def]
  have mr: "make_room refs t lf = (room, l1)" by (simp add: room_def l1_def)
  have ap: "append_record rec l1 = (durable, l2)" by (simp add: durable_def l2_def)
  have en: "list_ex (\<lambda>k. admission_limit q lf (fst k) \<noteq> None) refs = enforced h q l"
    by (cases "admission_policy q") (simp_all add: lf_def refs_def enforced_def admission_limit_def)
  have fl: "flush_pending l = (fst (flush_pending l), lf)" by (simp add: lf_def)
  have same: "reservations lf = reservations l" "seed_by_send lf = seed_by_send l" "corrupt lf = corrupt l"
    by (simp_all add: lf_def)
  have R: "reserve h q clock l =
     (if jm_has (reservations l) send \<or> jm_has (seed_by_send l) send
      then (Refused (DuplicateSendId (send_id q)), lf)
      else if enforced h q l \<and> corrupt l > 0 then (Refused (JournalCorrupt (corrupt l)), lf)
      else if enforced h q l \<and> \<not> already_sent q \<and> \<not> fst (flush_pending l)
      then (Refused (ReserveNotDurable (send_id q)), lf)
      else if cont \<noteq> None \<and> enforced h q l \<and> \<not> already_sent q
      then (Refused PoolHistoryUnresolved, lf)
      else (case room of Some d \<Rightarrow> (Refused d, l1)
        | None \<Rightarrow> (case fe of Some d \<Rightarrow> (Refused d, l1)
            | None \<Rightarrow> if \<not> durable \<and> enforced h q l \<and> \<not> already_sent q
                then (Refused (ReserveNotDurable (send_id q)), l2)
                else (Reserved (send_id q) (request_tokens q) durable, compact t l3))))"
    unfolding reserve_def Let_def
    by (subst fl, simp only: prod.case same en [unfolded refs_def] mr [unfolded refs_def t_def]
        send_def [symmetric] refs_def [symmetric] t_def [symmetric] en mr rec_def [symmetric] ap
        cont_def [symmetric] fe_def [symmetric] l3_def [unfolded Let_def, symmetric])
  have sf: "shrinks l lf" unfolding lf_def by (rule shrinks_flush)
  have sm: "shrinks l l1" unfolding l1_def by (rule shrinks_trans [OF sf shrinks_make_room])
  have sa: "shrinks l l2" using sm by (simp add: shrinks_def l2_def)
  have gf: "good l \<Longrightarrow> good lf" unfolding lf_def using good_kept [OF _ kept_flush] .
  have gm: "good l \<Longrightarrow> 0 \<le> t \<Longrightarrow> good l1" unfolding l1_def using good_make_room [OF gf] .
  have ga: "good l2" if "good l" "0 \<le> t" "\<not> durable"
  proof (rule good_kept [OF gm [OF that(1,2)]])
    show "kept l1 l2"
      using append_fail [of rec l1] that(3) by (simp add: kept_def l2_def durable_def)
  qed
  have no: thesis if "reserve h q clock l = (Refused d, l')" "shrinks l l'"
    "good l \<Longrightarrow> 0 \<le> t \<Longrightarrow> good l'" for d l'
    using refused [OF that(1,2)] that(3) t_def by blast
  let ?early = "jm_has (reservations l) send \<or> jm_has (seed_by_send l) send
     \<or> enforced h q l \<and> corrupt l > 0 \<or> enforced h q l \<and> \<not> already_sent q \<and> \<not> fst (flush_pending l)
     \<or> cont \<noteq> None \<and> enforced h q l \<and> \<not> already_sent q"
  show thesis
  proof (cases ?early)
    case True
    then have "\<exists>d. reserve h q clock l = (Refused d, lf)" unfolding R by auto
    then obtain d where "reserve h q clock l = (Refused d, lf)" ..
    then show ?thesis using sf gf by (intro no)
  next
    case False
    then have R': "reserve h q clock l = (case room of Some d \<Rightarrow> (Refused d, l1)
        | None \<Rightarrow> (case fe of Some d \<Rightarrow> (Refused d, l1)
            | None \<Rightarrow> if \<not> durable \<and> enforced h q l \<and> \<not> already_sent q
                then (Refused (ReserveNotDurable (send_id q)), l2)
                else (Reserved (send_id q) (request_tokens q) durable, compact t l3)))"
      unfolding R by (simp only: de_Morgan_disj if_False simp_thms)
    show ?thesis
    proof (cases "room = None \<and> fe = None")
      case f: False
      then have "\<exists>d. reserve h q clock l = (Refused d, l1)"
        unfolding R' by (cases room; cases fe) simp_all
      then obtain d where "reserve h q clock l = (Refused d, l1)" ..
      then show ?thesis using sm gm by (rule no)
    next
      case t: True
      show ?thesis
      proof (cases "\<not> durable \<and> enforced h q l \<and> \<not> already_sent q")
        case True
        then have "reserve h q clock l = (Refused (ReserveNotDurable (send_id q)), l2)"
          unfolding R' using t by simp
        then show ?thesis using sa ga True by (intro no) auto
      next
        case d: False
        then have e: "reserve h q clock l =
            (Reserved (send_id q) (request_tokens q) durable, compact t l3)"
          unfolding R' using t by simp
        show ?thesis
          by (intro admitted [of l1 durable l2 l3])
            (rule l3E | use e t d False ap in \<open>simp add: l1_def room_def fe_def rec_def
              lf_def [symmetric] refs_def [symmetric] t_def [symmetric] send_def [symmetric]\<close>)+
      qed
    qed
  qed
qed


lemma good_reserve:
  assumes "hash_ok h" "good l" "0 \<le> nullish (req_at q) clock"
  shows "good (snd (reserve h q clock l))"
proof (cases rule: reserve_cases [of h q clock l])
  case (refused d l')
  then show ?thesis using assms by simp
next
  case (admitted l1 durable l2 l3)
  let ?send = "h ''send'' (send_id q)" and ?refs = "refs_for h (req_scopes q)"
  let ?t = "nullish (req_at q) clock"
  let ?rec = "RReserve ?send ?refs (request_tokens q) ?t"
  have g1: "good l1"
    using admitted(1) good_make_room [OF good_kept [OF assms(2) kept_flush] assms(3)] by simp
  have "map_of (reservations l1) ?send = None"
    using shrinks_absent [OF shrinks_trans [OF shrinks_flush shrinks_make_room]] admitted(1,3) by simp
  then have legit: "legit ?rec (books_of l1)"
    using refs_for_ok [OF assms(1)] assms(1,3) by (simp add: hash_ok_def)
  have l2: "l2 = snd (append_record ?rec l1)" "durable = fst (append_record ?rec l1)"
    using admitted(7) by simp_all
  have b: "books_of l3 = book ?rec (books_of l1)"
    using books_apply_reserve [of ?send ?refs "request_tokens q" ?t l2]
    by (auto simp: admitted(9) Let_def l2 books_of_def)
  have o': "persist_failures l3 = persist_failures l2" "pending l3 = pending l2" "disk l3 = disk l2"
    "durable \<Longrightarrow> nondurable l3 = nondurable l2"
    by (auto simp: admitted(9) Let_def apply_reserve_def)
  have "wrote ?rec l1 l3"
  proof (cases durable)
    case True
    show ?thesis
      by (rule wrote_append [where lj = l2]) (use True l2 legit b o' in auto)
  next
    case False
    then have "persist_failures l3 = Suc (persist_failures l1)"
      using append_fail [of ?rec l1] l2 o' by simp
    then show ?thesis using legit b by (simp add: wrote_def)
  qed
  then have "good l3" by (rule good_wrote [OF g1])
  then show ?thesis using admitted(10) good_compact assms(3) by simp
qed

lemma good_retarget:
  "good l \<Longrightarrow> good (l\<lparr>seeds := a, next_seed := b, seed_by_send := c, pinned_keys := d\<rparr>)"
  by (rule good_same [of l]) (simp_all add: books_of_def)

lemma good_reserve_seed:
  assumes "hash_ok h" "good l" "0 \<le> nullish (req_at q) clock"
  shows "good (snd (reserve_seed h q owner clock l))"
proof -
  have "good (snd (reserve h (q\<lparr>already_sent := False\<rparr>) clock l))"
    using assms by (intro good_reserve) auto
  then show ?thesis
    by (auto simp: reserve_seed_def Let_def good_retarget split: prod.splits spend_decision.splits)
qed

lemma repair_quiet: "nondurable l = [] \<Longrightarrow> repair_reserve_prefix send r l = l"
  by (simp add: repair_reserve_prefix_def)

lemma repair_simps [simp]:
  "books_of (repair_reserve_prefix send r l) = books_of l"
  "persist_failures (repair_reserve_prefix send r l) = persist_failures l"
  "disk (repair_reserve_prefix send r l) = disk l"
  "seed_by_send (repair_reserve_prefix send r l) = seed_by_send l"
  "reservations (repair_reserve_prefix send r l) = reservations l"
  "scopes (repair_reserve_prefix send r l) = scopes l"
  by (simp_all add: repair_reserve_prefix_def books_of_def split: option.splits)

lemma kept_repair: "kept l (repair_reserve_prefix send r l)"
  by (auto simp: kept_def quiet_def repair_quiet)

lemma apply_dispatch_simps [simp]:
  "persist_failures (apply_dispatch send t l) = persist_failures l"
  "disk (apply_dispatch send t l) = disk l" "pending (apply_dispatch send t l) = pending l"
  "nondurable (apply_dispatch send t l) = nondurable l"
  by (simp_all add: apply_dispatch_def split: option.splits)

lemma good_mark_dispatched:
  assumes "hash_ok h" "good l" "0 \<le> t"
  shows "good (snd (mark_dispatched h i t l))"
proof (cases "map_of (reservations l) (h ''send'' i)")
  case None
  then show ?thesis using assms by (simp add: mark_dispatched_def)
next
  case (Some r)
  let ?send = "h ''send'' i"
  let ?l0 = "repair_reserve_prefix ?send r l"
  let ?l1 = "apply_dispatch ?send t ?l0"
  let ?rec = "RDispatch ?send t"
  have legit: "legit ?rec (books_of ?l0)" using assms by (simp add: hash_ok_def)
  have b: "books_of ?l1 = book ?rec (books_of ?l0)" by (rule books_apply_dispatch)
  have "wrote ?rec ?l0 (append_reported ?rec ?l1)" "wrote ?rec ?l0 (snd (append_record ?rec ?l1))"
    using legit b by (auto intro!: wrote_append_reported wrote_then_append simp: quiet_def)
  moreover have "good ?l0" by (rule good_kept [OF assms(2) kept_repair])
  ultimately have "good (append_reported ?rec ?l1)" "good (snd (append_record ?rec ?l1))"
    using good_wrote by blast+
  then show ?thesis using Some assms(2) by (simp add: mark_dispatched_def Let_def)
qed

lemma forget_memory_simps [simp]:
  "persist_failures (forget_memory send l) = persist_failures l"
  "disk (forget_memory send l) = disk l" "pending (forget_memory send l) = pending l"
  "nondurable l = [] \<Longrightarrow> nondurable (forget_memory send l) = []"
  by (simp_all add: forget_memory_def)

lemma apply_resolve_simps [simp]:
  "persist_failures (apply_resolve send o' n t l) = persist_failures l"
  "disk (apply_resolve send o' n t l) = disk l" "pending (apply_resolve send o' n t l) = pending l"
  "nondurable l = [] \<Longrightarrow> nondurable (apply_resolve send o' n t l) = []"
  by (simp_all add: apply_resolve_def split: option.splits)

lemma good_abandon:
  assumes "hash_ok h" "good l" "0 \<le> t"
  shows "good (snd (abandon h i t l))"
proof (cases "map_of (reservations l) (h ''send'' i)")
  case None
  then show ?thesis using assms by (simp add: abandon_def)
next
  case (Some r)
  let ?send = "h ''send'' i"
  let ?rec = "RAbandon ?send t"
  have legit: "legit ?rec (books_of l)" using assms by (simp add: hash_ok_def)
  have b: "books_of (apply_resolve ?send Abandoned 0 t l') = book ?rec (books_of l')" for l'
    by (simp add: books_apply_resolve)
  show ?thesis
  proof (cases "map_of (seed_by_send l) ?send")
    case None
    have "wrote ?rec l (snd (append_record ?rec (apply_resolve ?send Abandoned 0 t l)))"
      by (rule wrote_then_append) (use legit b in \<open>auto simp: quiet_def\<close>)
    with None Some good_wrote [OF assms(2)] assms(2) show ?thesis by (simp add: abandon_def Let_def)
  next
    case (Some sid)
    let ?l1 = "snd (flush_append ?rec l)"
    let ?l2 = "apply_resolve ?send Abandoned 0 t ?l1"
    have "good (?l2\<lparr>seeds := ss\<rparr>)" if "fst (flush_append ?rec l)" for ss
    proof -
      have "wrote ?rec l ?l2"
        by (rule wrote_flush_append [where lj = ?l1]) (use that legit b in auto)
      from good_wrote [OF assms(2) this] show ?thesis
        by (rule good_same) (simp_all add: books_of_def)
    qed
    moreover have "good ?l1" if "\<not> fst (flush_append ?rec l)"
      using good_kept [OF assms(2)] flush_append_fail [OF that] by blast
    ultimately show ?thesis
      using Some \<open>map_of (reservations l) ?send = Some r\<close> assms(2)
      by (simp add: abandon_def Let_def split_beta)
  qed
qed

lemma good_finish_send:
  assumes "good l" and legit: "legit rec (books_of l)"
    and rec: "\<And>l'. books_of (apply_resolve send out n t l') = book rec (books_of l')"
  shows "good (snd (finish_send send out n rec t l))"
proof (cases "map_of (reservations l) send")
  case None
  then show ?thesis using assms by (simp add: finish_send_def)
next
  case (Some r)
  let ?l1 = "repair_reserve_prefix send r l"
  have g1: "good ?l1" by (rule good_kept [OF assms(1) kept_repair])
  have legit1: "legit rec (books_of ?l1)" using legit by simp
  have res: "books_of (l'\<lparr>pending := p\<rparr>) = books_of l'" for l' :: ledger and p
    by (simp add: books_of_def)
  have 1: "wrote rec ?l1 (apply_resolve send out n t (?l1\<lparr>pending := pending ?l1 @ [rec]\<rparr>))"
    if "pending ?l1 \<noteq> []"
    using that legit1 rec by (auto simp: wrote_def quiet_def res)
  have 2: "wrote rec ?l1 (apply_resolve send out n t (snd (append_record rec ?l1)))"
    if "fst (append_record rec ?l1)"
    by (rule wrote_append [OF that legit1, where lj = "snd (append_record rec ?l1)"]) (use rec in auto)
  have 3: "wrote rec ?l1 (apply_resolve send out n t
      ((snd (append_record rec ?l1))\<lparr>pending := pending ?l1 @ [rec]\<rparr>))"
    if "\<not> fst (append_record rec ?l1)"
    using append_fail [OF that] legit1 rec by (auto simp: wrote_def res)
  have 4: "wrote rec ?l1 (snd (append_record rec (apply_resolve send out n t ?l1)))"
    by (rule wrote_then_append) (use legit1 rec in \<open>auto simp: quiet_def\<close>)
  show ?thesis
    using good_wrote [OF g1 1] good_wrote [OF g1 2] good_wrote [OF g1 3] good_wrote [OF g1 4] Some assms(1)
    by (auto simp: finish_send_def Let_def split_beta)
qed

lemma good_settle: "hash_ok h \<Longrightarrow> good l \<Longrightarrow> 0 \<le> t \<Longrightarrow> good (snd (settle h i inp out t l))"
  unfolding settle_def Let_def
  by (rule good_finish_send) (simp_all add: hash_ok_def usage_tokens_def whole_usage books_apply_resolve)

lemma good_mark_lost: "hash_ok h \<Longrightarrow> good l \<Longrightarrow> 0 \<le> t \<Longrightarrow> good (snd (mark_lost h i t l))"
  unfolding mark_lost_def Let_def
  by (rule good_finish_send) (simp_all add: hash_ok_def books_apply_resolve)


section \<open>Seeds\<close>

definition seeds_ok :: "ledger \<Rightarrow> bool" where
  "seeds_ok l \<longleftrightarrow> (\<forall>sid s. map_of (seeds l) sid = Some s \<longrightarrow>
     refs_ok (seed_targets s) \<and> distinct (seed_targets s))"

lemma seeds_ok_same: "seeds l' = seeds l \<Longrightarrow> seeds_ok l' = seeds_ok l"
  by (simp add: seeds_ok_def)

lemma seeds_simps [simp]:
  "seeds (compact t l) = seeds l" "seeds (apply_reserve send ts n t l) = seeds l"
  "seeds (apply_resolve send o' n t l) = seeds l" "seeds (apply_dispatch send t l) = seeds l"
  "seeds (apply_forget send l) = seeds l" "seeds (repair_reserve_prefix send r l) = seeds l"
  "seeds (append_reported rec l) = seeds l"
  by (auto simp: compact_def apply_reserve_def apply_resolve_def apply_dispatch_def apply_forget_def
      repair_reserve_prefix_def append_reported_def forget_memory_def split_beta Let_def
      split: option.splits)

lemma seeds_reserve: "seeds (snd (reserve h q clock l)) = seeds l"
proof (cases rule: reserve_cases [of h q clock l])
  case (refused d l')
  then show ?thesis by (simp add: shrinks_def)
next
  case (admitted l1 durable l2 l3)
  have "shrinks l l1" unfolding admitted(1) by (rule shrinks_trans [OF shrinks_flush shrinks_make_room])
  moreover have "seeds l2 = seeds l1" using admitted(7) append_record_simps(4) by (metis snd_conv)
  ultimately show ?thesis
    by (simp add: admitted(10) admitted(9) Let_def shrinks_def)
qed

lemma seeds_mark_dispatched [simp]: "seeds (snd (mark_dispatched h i t l)) = seeds l"
  by (simp add: mark_dispatched_def Let_def split: option.splits)

lemma seeds_finish_send [simp]: "seeds (snd (finish_send send out n rec t l)) = seeds l"
  by (simp add: finish_send_def Let_def split_beta split: option.splits)

lemma seeds_ok_abandon: "seeds_ok l \<Longrightarrow> seeds_ok (snd (abandon h i t l))"
proof -
  have m: "map_of (map (\<lambda>(j, s). (j, if j = sid then f s else s)) ss) k =
      map_option (\<lambda>s. if k = sid then f s else s) (map_of ss k)" for sid :: nat and f and ss and k
    by (induction ss) auto
  assume "seeds_ok l"
  then show ?thesis
    by (auto simp: abandon_def Let_def split_beta seeds_ok_def m split: option.splits)
qed

lemma seeds_ok_reserve_seed:
  assumes "hash_ok h" "good l" "0 \<le> nullish (req_at q) clock" "seeds_ok l"
  shows "seeds_ok (snd (reserve_seed h q owner clock l))"
proof -
  let ?r = "reserve h (q\<lparr>already_sent := False\<rparr>) clock l"
  have "good (snd ?r)" using assms by (intro good_reserve) auto
  then have "reservation_ok i r" if "map_of (reservations (snd ?r)) i = Some r" for i r
    using books_okD(4) [OF good_books, of "snd ?r" i r] that by simp
  then show ?thesis
    using assms(4) seeds_reserve [of h "q\<lparr>already_sent := False\<rparr>" clock l]
    by (auto simp: reserve_seed_def Let_def seeds_ok_def reservation_ok_def refs_ok_def
        split: prod.splits spend_decision.splits option.splits)
qed

lemma good_reserve_reported:
  assumes "hash_ok h" "good l" "seeds_ok l" "0 \<le> t"
  shows "good (snd (reserve_reported_from_seed h sid i inp out t l))"
proof -
  let ?send = "h ''send'' i" and ?n = "usage_tokens inp out"
  have "good (compact t (append_reported (RReserve ?send (seed_targets s) ?n t)
      ((apply_reserve ?send (seed_targets s) ?n t l)\<lparr>seeds := a, seed_by_send := b\<rparr>)))"
    if "map_of (seeds l) sid = Some s" "map_of (reservations l) ?send = None" for s a b
  proof (rule good_compact [OF good_wrote [OF assms(2)] assms(4)])
    let ?l1 = "(apply_reserve ?send (seed_targets s) ?n t l)\<lparr>seeds := a, seed_by_send := b\<rparr>"
    have "books_of ?l1 = book (RReserve ?send (seed_targets s) ?n t) (books_of l)"
      using books_apply_reserve [of ?send "seed_targets s" ?n t l] by (simp add: books_of_def)
    then show "wrote (RReserve ?send (seed_targets s) ?n t) l
        (append_reported (RReserve ?send (seed_targets s) ?n t) ?l1)"
      using assms that
      by (intro wrote_append_reported)
        (auto simp: seeds_ok_def hash_ok_def usage_tokens_def quiet_def apply_reserve_def)
  qed
  then show ?thesis
    using assms(2) by (auto simp: reserve_reported_from_seed_def Let_def split: option.splits)
qed

lemma seeds_ok_reserve_reported:
  "seeds_ok l \<Longrightarrow> seeds_ok (snd (reserve_reported_from_seed h sid i inp out t l))"
  by (auto simp: reserve_reported_from_seed_def Let_def seeds_ok_def split: option.splits)

text \<open>Forgetting one resolved send, with its tombstone.\<close>

lemma wrote_forget:
  assumes "hash_ok h" "0 \<le> t" "fst (append_record (RForget (h ''send'' i) t) l)"
  shows "wrote (RForget (h ''send'' i) t) l
    (apply_forget (h ''send'' i) (snd (append_record (RForget (h ''send'' i) t) l)))"
proof (rule wrote_append [OF assms(3), where lj = "snd (append_record (RForget (h ''send'' i) t) l)"])
  show "books_of (apply_forget (h ''send'' i) (snd (append_record (RForget (h ''send'' i) t) l)))
      = book (RForget (h ''send'' i) t) (books_of l)"
    using books_apply_forget [of "h ''send'' i" "snd (append_record (RForget (h ''send'' i) t) l)" t]
    by simp
qed (use assms in \<open>auto simp: hash_ok_def apply_forget_def split: option.splits\<close>)

lemma good_forget_one:
  assumes "hash_ok h" "0 \<le> t" "good l"
  shows "fst (append_record (RForget (h ''send'' i) t) l) \<Longrightarrow>
      good (apply_forget (h ''send'' i) (snd (append_record (RForget (h ''send'' i) t) l)))"
    and "good (snd (append_record (RForget (h ''send'' i) t) l))
      \<or> fst (append_record (RForget (h ''send'' i) t) l)"
proof -
  show "good (apply_forget (h ''send'' i) (snd (append_record (RForget (h ''send'' i) t) l)))"
    if "fst (append_record (RForget (h ''send'' i) t) l)"
    using good_wrote [OF assms(3) wrote_forget [OF assms(1,2) that]] .
  have "kept l (snd (append_record rec l))" if "\<not> fst (append_record rec l)" for rec
    using append_fail [OF that] by (simp add: kept_def)
  then show "good (snd (append_record (RForget (h ''send'' i) t) l))
      \<or> fst (append_record (RForget (h ''send'' i) t) l)"
    using good_kept [OF assms(3)] by blast
qed

lemma good_forget_all:
  assumes "hash_ok h" "0 \<le> t" "good l"
  shows "good (snd (forget_all t (map (h ''send'') is) l))"
  using assms(3)
proof (induction "is" arbitrary: l)
  case (Cons i "is")
  from good_forget_one [OF assms(1,2) Cons.prems, of i] Cons show ?case
    by (auto simp: split_beta Let_def)
qed simp

lemma remdups_map_hash: "\<exists>is. remdups (map (h ''send'') ids) = map (h ''send'') is"
proof (induction ids)
  case (Cons i ids)
  then obtain "is" where "remdups (map (h ''send'') ids) = map (h ''send'') is" by blast
  then have "remdups (map (h ''send'') (i # ids)) = map (h ''send'') (if h ''send'' i \<in> set (map (h ''send'') ids)
      then is else i # is)"
    by auto
  then show ?case by blast
qed simp

lemma good_forget_resolved:
  assumes "hash_ok h" "0 \<le> t" "good l"
  shows "good (snd (forget_resolved h ids owner t l))"
proof -
  obtain "is" where i: "remdups (map (h ''send'') ids) = map (h ''send'') is"
    using remdups_map_hash by metis
  have "good (snd (flush_pending l))" by (rule good_kept [OF assms(3) kept_flush])
  from this good_forget_all [OF assms(1,2) this, of "is"] assms(3) show ?thesis
    by (simp add: forget_resolved_def Let_def split_beta i)
qed

lemma good_release_seed: "good l \<Longrightarrow> good (release_seed sid s l)"
  by (rule good_same [of l]) (simp_all add: release_seed_def books_of_def)

lemma good_finish_seed:
  assumes "hash_ok h" "0 \<le> t" "good l"
  shows "good (snd (finish_seed h sid owner t l))"
proof (cases "map_of (seeds l) sid")
  case None
  then show ?thesis using assms by (simp add: finish_seed_def)
next
  case (Some s)
  let ?l1 = "snd (flush_pending l)" and ?i = "seed_anchor s"
  have 1: "good ?l1" by (rule good_kept [OF assms(3) kept_flush])
  show ?thesis
    using Some assms(3) 1 good_forget_one [OF assms(1,2) 1, of ?i]
    by (auto simp: finish_seed_def Let_def split_beta good_release_seed)
qed

lemma seeds_forget_all [simp]: "seeds (snd (forget_all t ss l)) = seeds l"
  by (induction ss arbitrary: l) (simp_all add: split_beta Let_def)

lemma seeds_forget_resolved [simp]: "seeds (snd (forget_resolved h ids owner t l)) = seeds l"
  by (simp add: forget_resolved_def Let_def split_beta)

lemma seeds_ok_release: "seeds_ok l \<Longrightarrow> seeds_ok (release_seed sid s l)"
  by (auto simp: seeds_ok_def release_seed_def)

lemma seeds_ok_finish_seed:
  assumes "seeds_ok l"
  shows "seeds_ok (snd (finish_seed h sid owner t l))"
proof -
  have f: "seeds_ok (snd (flush_pending l))"
    and a: "seeds_ok (snd (append_record x (snd (flush_pending l))))"
    and g: "seeds_ok (apply_forget y (snd (append_record x (snd (flush_pending l)))))" for x y
    using assms by (simp_all add: seeds_ok_def)
  show ?thesis
    using assms f a g by (simp add: finish_seed_def Let_def split_beta seeds_ok_release split: option.split)
qed


section \<open>Maintenance and construction\<close>

lemma good_register: "good l \<Longrightarrow> good (register_reporter owner l)"
  by (rule good_same [of l]) (simp_all add: register_reporter_def Let_def books_of_def split: option.splits)

lemma good_close: "good l \<Longrightarrow> good (close_reporter owner l)"
  by (rule good_same [of l]) (simp_all add: close_reporter_def Let_def books_of_def split: option.splits)

lemma good_reconfigure: "good l \<Longrightarrow> good (reconfigure h p l)"
  by (rule good_same [of l]) (simp_all add: reconfigure_def books_of_def)

lemma shrinks_prune: "shrinks l (prune t l)"
  unfolding prune_def
  by (rule shrinks_trans [OF shrinks_flush shrinks_trans [OF shrinks_evict_sends shrinks_evict_scopes]])

lemma good_prune: "good l \<Longrightarrow> 0 \<le> t \<Longrightarrow> good (prune t l)"
  unfolding prune_def
  using good_evict_scopes good_evict_sends good_kept [OF _ kept_flush] by blast

lemma good_reconcile_one:
  assumes "good l" "0 \<le> t" "alias_ok send"
  shows "good (reconcile_one t en send l)"
proof -
  let ?lost = "RLost send t" and ?forget = "RForget send t"
  define l1 where "l1 = (case map_of (reservations l) send of
      Some r \<Rightarrow> if is_live (status r)
        then (let (durable, l') = append_record ?lost l; l'' = apply_resolve send Lost 0 t l'
              in if \<not> durable \<and> en then l''\<lparr>pending := pending l'' @ [?lost]\<rparr> else l'')
        else l
    | None \<Rightarrow> l)"
  let ?la = "apply_resolve send Lost 0 t (snd (append_record ?lost l))"
  have res: "books_of (l'\<lparr>pending := p\<rparr>) = books_of l'" for l' :: ledger and p
    by (simp add: books_of_def)
  have "wrote ?lost l ?la" if "fst (append_record ?lost l)"
    by (rule wrote_append [OF that, where lj = "snd (append_record ?lost l)"])
      (use assms in \<open>auto simp: books_apply_resolve\<close>)
  moreover have "wrote ?lost l ?la \<and> wrote ?lost l (?la\<lparr>pending := p\<rparr>)"
    if "\<not> fst (append_record ?lost l)" for p
    using append_fail [OF that] assms by (simp add: wrote_def books_apply_resolve res)
  ultimately have g1: "good l1"
    using assms(1) good_wrote [OF assms(1)]
    by (auto simp: l1_def Let_def split_beta split: option.splits)
  let ?l2 = "snd (flush_append ?forget l1)"
  have "good (apply_forget send ?l2)" if "fst (flush_append ?forget l1)"
  proof (rule good_wrote [OF g1 wrote_flush_append [OF that, where lj = ?l2]])
    show "books_of (apply_forget send ?l2) = book ?forget (books_of l1)"
      using books_apply_forget [of send ?l2 t] by simp
  qed (use assms in \<open>auto simp: apply_forget_def split: option.splits\<close>)
  moreover have "good ?l2" if "\<not> fst (flush_append ?forget l1)"
    using good_kept [OF g1] flush_append_fail [OF that] by blast
  ultimately show ?thesis
    using g1 by (simp add: reconcile_one_def l1_def [symmetric] Let_def split_beta)
qed

lemma good_reconcile:
  assumes "good l" "0 \<le> t"
  shows "good (reconcile t l)"
proof -
  have "alias_ok send" if "(send, r) \<in> set (reservations l)" for send r
  proof -
    have ok: "books_ok (books_of l)" using assms(1) by (rule good_books)
    have "map_of (reservations l) send = Some r" using books_okD(2) [OF ok] that by simp
    with books_okD(4) [OF ok, of send r] show ?thesis by (simp add: reservation_ok_def)
  qed
  then have "\<forall>(send, r) \<in> set rm. alias_ok send \<Longrightarrow> good l' \<Longrightarrow>
      good (fold (\<lambda>(send, r). reconcile_one t e send) rm l')" for rm l' e
    using good_reconcile_one [OF _ assms(2)]
    by (induction rm arbitrary: l') (auto simp: split_beta)
  moreover have "\<forall>(send, r) \<in> set (reservations l). alias_ok send"
    using \<open>\<And>send r. (send, r) \<in> set (reservations l) \<Longrightarrow> alias_ok send\<close> by auto
  ultimately show ?thesis using assms(1) by (simp add: reconcile_def)
qed

end
