(* ===== verification/Spend_Outcomes.thy ===== *)
theory Spend_Outcomes
  imports Spend_Steps
begin

text \<open>
  The interface through which the callers of the spend ledger end a send they will not report
  usage for: give the reservation back if it never left, keep it as lost spend otherwise. The
  laws are what the workflow lease and the request budget rely on; the ledger's own
  \<open>abandon\<close> and \<open>markLost\<close> provide them.
\<close>

locale send_outcomes =
  fixes live :: "'l \<Rightarrow> bool"
    and give :: "'l \<Rightarrow> bool \<times> 'l"
    and lose :: "'l \<Rightarrow> bool \<times> 'l"
  assumes given_not_live: "fst (give l) \<Longrightarrow> \<not> live (snd (give l))"
    and lost_not_live: "\<not> live (snd (lose l))"
    and give_finished: "\<not> live l \<Longrightarrow> give l = (False, l)"
    and lose_finished: "\<not> live l \<Longrightarrow> lose l = (False, l)"
begin

definition finish :: "'l \<Rightarrow> 'l" where
  "finish l = (let (ok, l1) = give l in if ok then l1 else snd (lose l1))"

lemma finish_not_live: "\<not> live (finish l)"
  using given_not_live [of l] lost_not_live by (auto simp: finish_def Let_def split_beta)

lemma finish_finished: "\<not> live l \<Longrightarrow> finish l = l"
  by (simp add: finish_def give_finished lose_finished)

lemma finish_idem: "finish (finish l) = finish l"
  by (rule finish_finished [OF finish_not_live])

end

definition live_send :: "alias_hash \<Rightarrow> string \<Rightarrow> ledger \<Rightarrow> bool" where
  "live_send h i l = (case map_of (reservations l) (h ''send'' i) of
     None \<Rightarrow> False | Some r \<Rightarrow> is_live (status r))"

lemma reservations_resolved:
  "reservations (apply_resolve send out n t l) = snd (book_resolve send out n t (scopes l, reservations l))"
  using books_apply_resolve [of send out n t l] by (simp add: books_of_def) (metis snd_conv)

lemma resolved_status:
  "map_of rm send = Some r \<Longrightarrow> is_live (status r) \<Longrightarrow>
   map_of (snd (book_resolve send out n t (sm, rm))) send = Some (r\<lparr>status := out, resolved_at := t\<rparr>)"
  by (simp add: book_resolve_def)

lemma finish_send_finished:
  "(case map_of (reservations l) send of None \<Rightarrow> True | Some r \<Rightarrow> \<not> is_live (status r)) \<Longrightarrow>
   finish_send send out n rec t l = (False, l)"
  by (auto simp: finish_send_def split: option.splits)

lemma books_finish_send:
  assumes "map_of (reservations l) send = Some r" "is_live (status r)"
  shows "fst (finish_send send out n rec t l)
    \<and> books_of (snd (finish_send send out n rec t l)) = book_resolve send out n t (books_of l)"
proof -
  have p: "books_of (x\<lparr>pending := y\<rparr>) = books_of x" for x :: ledger and y by (simp add: books_of_def)
  show ?thesis
    using assms by (simp add: finish_send_def Let_def split_beta books_apply_resolve p)
qed

interpretation spend_send: send_outcomes "live_send h i" "abandon h i t" "mark_lost h i t"
  for h i t
proof unfold_locales
  fix l assume ok: "fst (abandon h i t l)"
  then obtain r where r: "map_of (reservations l) (h ''send'' i) = Some r" "status r = Open"
    by (auto simp: abandon_def Let_def split: option.splits if_splits)
  have "reservations (snd (abandon h i t l)) =
      snd (book_resolve (h ''send'' i) Abandoned 0 t (scopes l, reservations l))"
    using ok r
    by (auto simp: abandon_def Let_def split_beta reservations_resolved split: option.splits if_splits)
  with r show "\<not> live_send h i (snd (abandon h i t l))"
    by (simp add: live_send_def resolved_status is_live_def)
next
  fix l
  show "\<not> live_send h i (snd (mark_lost h i t l))"
  proof (cases "live_send h i l")
    case False
    then have "mark_lost h i t l = (False, l)"
      unfolding mark_lost_def Let_def
      by (intro finish_send_finished) (auto simp: live_send_def split: option.splits)
    with False show ?thesis by simp
  next
    case True
    then obtain r where r: "map_of (reservations l) (h ''send'' i) = Some r" "is_live (status r)"
      by (auto simp: live_send_def split: option.splits)
    from books_finish_send [OF this] have "reservations (snd (mark_lost h i t l)) =
        snd (book_resolve (h ''send'' i) Lost 0 t (books_of l))"
      by (metis books_of_simps(2) mark_lost_def)
    with r show ?thesis
      by (simp add: live_send_def resolved_status is_live_def books_of_def)
  qed
next
  fix l assume "\<not> live_send h i l"
  then show "abandon h i t l = (False, l)"
    by (auto simp: live_send_def abandon_def is_live_def split: option.splits)
next
  fix l assume "\<not> live_send h i l"
  then show "mark_lost h i t l = (False, l)"
    unfolding mark_lost_def Let_def
    by (intro finish_send_finished) (auto simp: live_send_def split: option.splits)
qed

end
