(* ===== verification/Workflow_Budget.thy ===== *)
theory Workflow_Budget
  imports Workflow_Window Spend_Outcomes
begin

text \<open>
  The operations of \<open>lib/workflow-budget.ts\<close>: admission of a turn under a root, its lease,
  charging sends, the pre-dispatch ceiling checks, the operator's views and the clear of one
  root. The module's tables are explicit state; the spend ledger of an admission is passed in
  (resolved by \<open>resolve_ledger\<close>) and returned. A lease is a value with the flag its closure
  keeps; the ledger it captured is the one its caller passes back.
\<close>

record workflow =
  wf_roots :: "(string, workflow_state) jsmap"
  wf_events :: "budget_event list"

datatype workflow_lane = Interactive | Worker

record workflow_spend =
  ws_send :: string
  ws_identity :: "string option"
  ws_pool :: "string option"
  ws_input :: jsnum
  ws_output :: jsnum

record workflow_lease =
  lease_root :: string
  lease_send :: "string option"
  lease_released :: bool

datatype workflow_decision =
    Admitted workflow_lease
  | Denied workflow_denial string "spend_detail option"

definition put_root :: "string \<Rightarrow> workflow_state \<Rightarrow> workflow \<Rightarrow> workflow" where
  "put_root r st w = w\<lparr>wf_roots := AList.update r st (wf_roots w)\<rparr>"

definition push_event :: "budget_event \<Rightarrow> workflow \<Rightarrow> workflow" where
  "push_event e w = w\<lparr>wf_events := record_budget_event e (wf_events w)\<rparr>"

text \<open>The counts an event carries; reading them prunes the root's children.\<close>

definition read_counts :: "string \<Rightarrow> instant \<Rightarrow> workflow \<Rightarrow> (int \<times> nat) \<times> workflow" where
  "read_counts r now w = (case map_of (wf_roots w) r of
     None \<Rightarrow> ((0, 0), w)
   | Some st \<Rightarrow> (let (n, st') = windowed_children st now
       in ((windowed_sends st now, n), put_root r st' w)))"

text \<open>The event of a refusal inside an admission does not carry the unbound-history flag.\<close>

definition refuse ::
    "string \<Rightarrow> workflow_denial \<Rightarrow> spend_detail option \<Rightarrow> instant \<Rightarrow> workflow
      \<Rightarrow> workflow_decision \<times> workflow" where
  "refuse r d x now w =
     (let ((sends, kids), w1) = read_counts r now w
      in (Denied d r x,
          push_event \<lparr>ev_at = now, ev_kind = RefusedEvent, ev_root = r, ev_reason = Some d,
            ev_spend = map_option (\<lambda>x. (wd_scope x, wd_limit x)) x, ev_unbound = False,
            ev_sends = sends, ev_children = kids\<rparr> w1))"

definition record_workflow_refusal_event ::
    "string option \<Rightarrow> workflow_denial \<Rightarrow> instant \<Rightarrow> spend_detail option \<Rightarrow> workflow \<Rightarrow> workflow" where
  "record_workflow_refusal_event rid d now x w = (case rid of
     None \<Rightarrow> w
   | Some r \<Rightarrow> if r = [] then w
       else (let ((sends, kids), w1) = read_counts r now w
         in push_event \<lparr>ev_at = now, ev_kind = RefusedEvent, ev_root = r, ev_reason = Some d,
            ev_spend = map_option (\<lambda>x. (wd_scope x, wd_limit x)) x,
            ev_unbound = (case x of None \<Rightarrow> False | Some x \<Rightarrow> wd_unbound x),
            ev_sends = sends, ev_children = kids\<rparr> w1))"


section \<open>Making room for a root\<close>

definition root_spent :: "alias_hash \<Rightarrow> string \<Rightarrow> ledger option \<Rightarrow> bool" where
  "root_spent h r lo = (case lo of None \<Rightarrow> False | Some l \<Rightarrow> exhausted h Root r None None l)"

definition evictable_root ::
    "alias_hash \<Rightarrow> workflow_policy \<Rightarrow> ledger option \<Rightarrow> instant \<Rightarrow> string \<Rightarrow> workflow_state \<Rightarrow> bool" where
  "evictable_root h p lo now r st \<longleftrightarrow> \<not> active st > 0
     \<and> \<not> windowed_sends st now \<ge> max_physical_sends p \<and> \<not> root_spent h r lo"

fun oldest_root ::
    "(string \<Rightarrow> workflow_state \<Rightarrow> bool) \<Rightarrow> (string, workflow_state) jsmap
      \<Rightarrow> (string \<times> instant) option \<Rightarrow> string option" where
  "oldest_root ok [] best = map_option fst best"
| "oldest_root ok ((r, st) # rest) best =
     oldest_root ok rest
       (if ok r st \<and> (case best of None \<Rightarrow> True | Some (b, seen) \<Rightarrow> last_seen_ms st < seen)
        then Some (r, last_seen_ms st) else best)"

definition evict_one_root ::
    "alias_hash \<Rightarrow> workflow_policy \<Rightarrow> ledger option \<Rightarrow> instant \<Rightarrow> workflow \<Rightarrow> bool \<times> workflow" where
  "evict_one_root h p lo now w =
     (case oldest_root (evictable_root h p lo now) (wf_roots w) None of
        None \<Rightarrow> (False, w)
      | Some r \<Rightarrow> (True, w\<lparr>wf_roots := AList.delete r (wf_roots w)\<rparr>))"


section \<open>Token ceilings\<close>

definition resolve_ledger ::
    "alias_hash \<Rightarrow> journal_line list \<Rightarrow> bool list \<Rightarrow> instant \<Rightarrow> ledger option \<Rightarrow> bool
      \<Rightarrow> shared_spend \<Rightarrow> ledger option \<times> shared_spend" where
  "resolve_ledger h lines fs t explicit wanted s = (case explicit of
     Some l \<Rightarrow> (Some l, s)
   | None \<Rightarrow> if wanted \<or> spend_ceilings_configured (shared_policy s)
       then (let (l, s') = shared_spend_ledger h lines fs t s in (Some l, s'))
       else (None, s))"

definition spent_root_ceiling ::
    "alias_hash \<Rightarrow> string \<Rightarrow> string option \<Rightarrow> spend_limits option \<Rightarrow> ledger \<Rightarrow> spend_detail option" where
  "spent_root_ceiling h r excluding adm l =
     (case root_max (nullish adm (limits (policy l))) of
        None \<Rightarrow> None
      | Some limit \<Rightarrow> if exhausted h Root r excluding adm l
          then Some \<lparr>wd_scope = Root, wd_limit = limit, wd_projected = None, wd_unbound = False\<rparr>
          else None)"

text \<open>
  The check before dispatch. \<open>excluding\<close> is the send of a reservation proof on this ledger.
  An id that is the empty string is as good as none.
\<close>

definition given :: "string option \<Rightarrow> string option" where
  "given i = (if i = Some [] then None else i)"

definition workflow_spend_ceiling_reached ::
    "alias_hash \<Rightarrow> string option \<Rightarrow> ledger option \<Rightarrow> string option \<Rightarrow> string option
      \<Rightarrow> spend_limits option \<Rightarrow> spend_detail option" where
  "workflow_spend_ceiling_reached h rid lo pool excluding adm =
     (if given rid = None \<and> given pool = None then None
      else if (case adm of None \<Rightarrow> False | Some a \<Rightarrow> root_max a = None \<and> pool_max a = None) then None
      else (case lo of None \<Rightarrow> None
        | Some l \<Rightarrow>
            (case Option.bind (given rid) (\<lambda>r. spent_root_ceiling h r excluding adm l) of
               Some d \<Rightarrow> Some d
             | None \<Rightarrow>
                 (case (given pool, pool_max (nullish adm (limits (policy l)))) of
                    (Some q, Some limit) \<Rightarrow>
                      if exhausted h Pool q excluding adm l
                      then Some \<lparr>wd_scope = Pool, wd_limit = limit, wd_projected = None,
                                 wd_unbound = has_unbound_positive_pool_history l\<rparr>
                      else None
                  | _ \<Rightarrow> None))))"

definition request_of :: "string \<Rightarrow> instant \<Rightarrow> workflow_spend \<Rightarrow> spend_request" where
  "request_of r now s =
     \<lparr>admission_policy = None, send_id = ws_send s,
      req_scopes = \<lparr>root_id = Some r, identity_id = ws_identity s, pool_id = ws_pool s\<rparr>,
      input_tokens = ws_input s, output_ceiling_tokens = ws_output s, req_at = Some now,
      already_sent = False\<rparr>"

definition denial_of :: "spend_denial \<Rightarrow> workflow_denial" where
  "denial_of d = (case d of
     DuplicateSendId _ \<Rightarrow> SendReplayed
   | PoolHistoryUnresolved \<Rightarrow> HistoryUnresolved
   | ReserveNotDurable _ \<Rightarrow> SpendUndurable
   | JournalCorrupt _ \<Rightarrow> SpendUndurable
   | CapacityExhausted _ \<Rightarrow> TrackingExhausted
   | LimitExceeded _ _ _ _ _ \<Rightarrow> WorkflowSpendExhausted)"

definition detail_of :: "spend_denial \<Rightarrow> spend_detail option" where
  "detail_of d = (case d of
     LimitExceeded s i limit projected unbound \<Rightarrow>
       Some \<lparr>wd_scope = s, wd_limit = limit, wd_projected = Some projected, wd_unbound = unbound\<rparr>
   | _ \<Rightarrow> None)"


section \<open>Admission\<close>

definition lane_ceiling :: "workflow_policy \<Rightarrow> workflow_lane \<Rightarrow> int" where
  "lane_ceiling p lane = (case lane of
     Worker \<Rightarrow> max 0 (max_concurrent_children p - interactive_reserve p)
   | Interactive \<Rightarrow> max_concurrent_children p)"

text \<open>The root's state, created when there is none; None when there is no room for it.\<close>

definition enter_root ::
    "alias_hash \<Rightarrow> workflow_policy \<Rightarrow> ledger option \<Rightarrow> instant \<Rightarrow> string \<Rightarrow> workflow
      \<Rightarrow> workflow_state option \<times> workflow" where
  "enter_root h p lo now r w =
     (case map_of (wf_roots w) r of
        Some st \<Rightarrow> (Some st, w)
      | None \<Rightarrow>
          (let (room, w1) = (if int (length (wf_roots w)) \<ge> max_tracked_roots p
                             then evict_one_root h p lo now w else (True, w))
           in if \<not> room then (None, w1)
              else (Some (new_workflow_state now p), put_root r (new_workflow_state now p) w1)))"

definition count_denial ::
    "workflow_policy \<Rightarrow> workflow_lane \<Rightarrow> string option \<Rightarrow> instant \<Rightarrow> workflow_state
      \<Rightarrow> workflow_denial option \<times> workflow_state" where
  "count_denial p lane child now st =
     (if windowed_sends st now \<ge> max_physical_sends p then (Some SendsExhausted, st)
      else (let (full, st1) = (case child of
              None \<Rightarrow> (False, st)
            | Some c \<Rightarrow> if jm_has (children st) c then (False, st)
                else (let (n, st') = windowed_children st now
                      in (int n \<ge> max_distinct_children p, st')))
        in if full then (Some ChildrenExhausted, st1)
           else if active st1 \<ge> lane_ceiling p lane then (Some ConcurrencyExhausted, st1)
           else (None, st1)))"

definition token_gate ::
    "alias_hash \<Rightarrow> string \<Rightarrow> instant \<Rightarrow> workflow_spend option \<Rightarrow> ledger option
      \<Rightarrow> (workflow_denial \<times> spend_detail option) option \<times> ledger option" where
  "token_gate h r now sp lo = (case (sp, lo) of
     (None, Some l) \<Rightarrow>
       (map_option (\<lambda>d. (WorkflowSpendExhausted, Some d)) (spent_root_ceiling h r None None l), lo)
   | (Some s, Some l) \<Rightarrow>
       (case reserve h (request_of r now s) now l of
          (Refused d, l') \<Rightarrow> (Some (denial_of d, detail_of d), Some l')
        | (Reserved _ _ _, l') \<Rightarrow> (None, Some l'))
   | (_, None) \<Rightarrow> (None, None))"

definition admit_root ::
    "alias_hash \<Rightarrow> string \<Rightarrow> workflow_lane \<Rightarrow> workflow_policy \<Rightarrow> string option \<Rightarrow> instant
      \<Rightarrow> workflow_spend option \<Rightarrow> ledger option \<Rightarrow> workflow
      \<Rightarrow> workflow_decision \<times> ledger option \<times> workflow" where
  "admit_root h r lane p child now sp lo w =
     (case enter_root h p lo now r w of
        (None, w1) \<Rightarrow> (let (d, w2) = refuse r TrackingExhausted None now w1 in (d, lo, w2))
      | (Some st, w1) \<Rightarrow>
          (case count_denial p lane child now (st\<lparr>last_seen_ms := now\<rparr>) of
             (Some reason, st1) \<Rightarrow>
               (let (d, w2) = refuse r reason None now (put_root r st1 w1) in (d, lo, w2))
           | (None, st1) \<Rightarrow>
               (case token_gate h r now sp lo of
                  (Some (reason, x), lo') \<Rightarrow>
                    (let (d, w2) = refuse r reason x now (put_root r st1 w1) in (d, lo', w2))
                | (None, lo') \<Rightarrow>
                    (let st2 = st1\<lparr>active := active st1 + 1\<rparr>;
                         st3 = (case child of None \<Rightarrow> st2
                                | Some c \<Rightarrow> st2\<lparr>children := AList.update c now (children st2)\<rparr>)
                     in (Admitted \<lparr>lease_root = r,
                           lease_send = (if lo = None then None else map_option ws_send sp),
                           lease_released = False\<rparr>,
                         lo', put_root r st3 w1)))))"

definition admit_workflow_turn ::
    "alias_hash \<Rightarrow> string option \<Rightarrow> workflow_lane \<Rightarrow> workflow_policy \<Rightarrow> string option \<Rightarrow> instant
      \<Rightarrow> workflow_spend option \<Rightarrow> ledger option \<Rightarrow> workflow
      \<Rightarrow> workflow_decision option \<times> ledger option \<times> workflow" where
  "admit_workflow_turn h rid lane p child now sp lo w = (case given rid of
     None \<Rightarrow> (None, lo, w)
   | Some r \<Rightarrow> (let (d, lo', w') = admit_root h r lane p child now sp lo w in (Some d, lo', w')))"


section \<open>The lease\<close>

definition lease_mark_dispatched ::
    "alias_hash \<Rightarrow> workflow_lease \<Rightarrow> instant \<Rightarrow> ledger option \<Rightarrow> ledger option" where
  "lease_mark_dispatched h le t lo = (case (lease_send le, lo) of
     (Some i, Some l) \<Rightarrow> Some (snd (mark_dispatched h i t l)) | _ \<Rightarrow> lo)"

text \<open>\<open>if (!ledger.abandon(id)) ledger.markLost(id)\<close>\<close>

definition give_back :: "alias_hash \<Rightarrow> string \<Rightarrow> instant \<Rightarrow> ledger \<Rightarrow> ledger" where
  "give_back h i t l =
     (let (ok, l1) = abandon h i t l in if ok then l1 else snd (mark_lost h i t l1))"

definition lease_release ::
    "alias_hash \<Rightarrow> workflow_lease \<Rightarrow> instant \<Rightarrow> ledger option \<Rightarrow> workflow
      \<Rightarrow> workflow_lease \<times> ledger option \<times> workflow" where
  "lease_release h le t lo w =
     (if lease_released le then (le, lo, w)
      else (le\<lparr>lease_released := True\<rparr>,
            (case (lease_send le, lo) of (Some i, Some l) \<Rightarrow> Some (give_back h i t l) | _ \<Rightarrow> lo),
            (case map_of (wf_roots w) (lease_root le) of
               None \<Rightarrow> w
             | Some st \<Rightarrow> put_root (lease_root le)
                 (st\<lparr>active := max 0 (active st - 1), last_seen_ms := t\<rparr>) w)))"


section \<open>Charging, settling and the views\<close>

definition charge_workflow_sends :: "string option \<Rightarrow> int \<Rightarrow> instant \<Rightarrow> workflow \<Rightarrow> workflow" where
  "charge_workflow_sends rid n now w = (case given rid of
     None \<Rightarrow> w
   | Some r \<Rightarrow> if n \<le> 0 then w else (case map_of (wf_roots w) r of
         None \<Rightarrow> w
       | Some st \<Rightarrow> put_root r ((record_windowed_sends now n
             (st\<lparr>lifetime_sends := lifetime_sends st + n\<rparr>))\<lparr>last_seen_ms := now\<rparr>) w))"

definition settle_workflow_spend ::
    "alias_hash \<Rightarrow> string \<Rightarrow> jsnum \<Rightarrow> jsnum \<Rightarrow> instant \<Rightarrow> ledger \<Rightarrow> bool \<times> ledger" where
  "settle_workflow_spend h i inp out t l = settle h i inp out t l"

definition dispatch_workflow_spend ::
    "alias_hash \<Rightarrow> string \<Rightarrow> instant \<Rightarrow> ledger \<Rightarrow> bool \<times> ledger" where
  "dispatch_workflow_spend h i t l = mark_dispatched h i t l"

definition abandon_workflow_spend ::
    "alias_hash \<Rightarrow> string \<Rightarrow> instant \<Rightarrow> ledger \<Rightarrow> bool \<times> ledger" where
  "abandon_workflow_spend h i t l = abandon h i t l"

definition workflow_send_ceiling_reached ::
    "string option \<Rightarrow> workflow_policy \<Rightarrow> instant \<Rightarrow> workflow \<Rightarrow> bool" where
  "workflow_send_ceiling_reached rid p now w = (case Option.bind (given rid) (map_of (wf_roots w)) of
     None \<Rightarrow> False | Some st \<Rightarrow> windowed_sends st now \<ge> max_physical_sends p)"

record workflow_snapshot =
  ss_active :: int
  ss_sends :: int
  ss_children :: nat
  ss_lifetime :: int
  ss_window_ms :: instant
  ss_max_sends :: int
  ss_max_children :: int

definition workflow_budget_snapshot ::
    "string \<Rightarrow> workflow_policy \<Rightarrow> instant \<Rightarrow> workflow \<Rightarrow> workflow_snapshot option \<times> workflow" where
  "workflow_budget_snapshot r p now w = (case map_of (wf_roots w) r of
     None \<Rightarrow> (None, w)
   | Some st \<Rightarrow> (let (n, st') = windowed_children st now
       in (Some \<lparr>ss_active = active st, ss_sends = windowed_sends st now, ss_children = n,
                 ss_lifetime = lifetime_sends st, ss_window_ms = window_ms st,
                 ss_max_sends = max_physical_sends p, ss_max_children = max_distinct_children p\<rparr>,
           put_root r st' w)))"

fun snapshots ::
    "string list \<Rightarrow> workflow_policy \<Rightarrow> instant \<Rightarrow> workflow
      \<Rightarrow> (string \<times> workflow_snapshot) list \<times> workflow" where
  "snapshots [] p now w = ([], w)"
| "snapshots (r # rs) p now w =
     (let (s, w1) = workflow_budget_snapshot r p now w; (rest, w2) = snapshots rs p now w1
      in ((case s of None \<Rightarrow> [] | Some x \<Rightarrow> [(r, x)]) @ rest, w2))"

definition list_tracked_workflow_roots ::
    "jsnum \<Rightarrow> workflow_policy \<Rightarrow> instant \<Rightarrow> workflow
      \<Rightarrow> (string \<times> workflow_snapshot) list \<times> workflow" where
  "list_tracked_workflow_roots limit p now w =
     (if wanted_count limit = 0 then ([], w)
      else snapshots (map fst (take (wanted_count limit)
        (sort_key (\<lambda>(r, st). - last_seen_ms st) (wf_roots w)))) p now w)"

definition clear_workflow_budget_for_root ::
    "string \<Rightarrow> workflow_policy \<Rightarrow> instant \<Rightarrow> workflow \<Rightarrow> workflow_snapshot option \<times> workflow" where
  "clear_workflow_budget_for_root r p now w = (case map_of (wf_roots w) r of
     None \<Rightarrow> (None, w)
   | Some st \<Rightarrow>
       (let (before, w1) = workflow_budget_snapshot r p now w;
            st1 = st\<lparr>send_slot_count := replicate (length (send_slot_count st)) 0,
                     send_slot_at := replicate (length (send_slot_at st)) None,
                     children := [], last_seen_ms := now\<rparr>
        in (before, push_event \<lparr>ev_at = now, ev_kind = ClearedEvent, ev_root = r, ev_reason = None,
              ev_spend = None, ev_unbound = False,
              ev_sends = (case before of None \<Rightarrow> 0 | Some s \<Rightarrow> ss_sends s),
              ev_children = (case before of None \<Rightarrow> 0 | Some s \<Rightarrow> ss_children s)\<rparr>
            (put_root r st1 w1))))"

definition empty_workflow :: workflow where
  "empty_workflow = \<lparr>wf_roots = [], wf_events = []\<rparr>"

end
