(* ===== verification/Spend_Properties.thy ===== *)
theory Spend_Properties
  imports Spend_Outcomes
begin

text \<open>
  What the spend ledger promises, over every ledger its operations can reach, restarts from
  its own journal included: the accounting invariant, restarts that forget no spend, admission
  within every ceiling, durability before admission, bounded tracking, no laundering of an
  exhausted scope, and one outcome per send.
\<close>

section \<open>Reachable ledgers\<close>

inductive ledger_reachable :: "alias_hash \<Rightarrow> ledger \<Rightarrow> bool" for h where
  created: "d \<in> {None, Some []} \<Longrightarrow> 0 \<le> t \<Longrightarrow> ledger_reachable h (create_ledger h p d rw fs t)"
| restarted: "ledger_reachable h l \<Longrightarrow> persist_failures l = 0 \<Longrightarrow> 0 \<le> t \<Longrightarrow>
    ledger_reachable h (create_ledger h p (disk l) rw fs t)"
| reserved: "ledger_reachable h l \<Longrightarrow> 0 \<le> nullish (req_at q) clock \<Longrightarrow>
    ledger_reachable h (snd (reserve h q clock l))"
| dispatched: "ledger_reachable h l \<Longrightarrow> 0 \<le> t \<Longrightarrow> ledger_reachable h (snd (mark_dispatched h i t l))"
| abandoned: "ledger_reachable h l \<Longrightarrow> 0 \<le> t \<Longrightarrow> ledger_reachable h (snd (abandon h i t l))"
| settled: "ledger_reachable h l \<Longrightarrow> 0 \<le> t \<Longrightarrow> ledger_reachable h (snd (settle h i inp out t l))"
| lost: "ledger_reachable h l \<Longrightarrow> 0 \<le> t \<Longrightarrow> ledger_reachable h (snd (mark_lost h i t l))"
| seeded: "ledger_reachable h l \<Longrightarrow> 0 \<le> nullish (req_at q) clock \<Longrightarrow>
    ledger_reachable h (snd (reserve_seed h q owner clock l))"
| reported: "ledger_reachable h l \<Longrightarrow> 0 \<le> t \<Longrightarrow>
    ledger_reachable h (snd (reserve_reported_from_seed h sid i inp out t l))"
| forgotten: "ledger_reachable h l \<Longrightarrow> 0 \<le> t \<Longrightarrow>
    ledger_reachable h (snd (forget_resolved h ids owner t l))"
| finished: "ledger_reachable h l \<Longrightarrow> 0 \<le> t \<Longrightarrow> ledger_reachable h (snd (finish_seed h sid owner t l))"
| registered: "ledger_reachable h l \<Longrightarrow> ledger_reachable h (register_reporter owner l)"
| closed: "ledger_reachable h l \<Longrightarrow> ledger_reachable h (close_reporter owner l)"
| pruned: "ledger_reachable h l \<Longrightarrow> 0 \<le> t \<Longrightarrow> ledger_reachable h (prune t l)"
| reconfigured: "ledger_reachable h l \<Longrightarrow> ledger_reachable h (reconfigure h p l)"

lemma disk_reconcile_kept:
  "quiet l \<Longrightarrow> books_of l = ([], []) \<Longrightarrow> reconcile t l = l"
  by (simp add: reconcile_def books_of_def)

lemma fresh_ledger_simps [simp]:
  "books_of (fresh_ledger h p d rw fs) = ([], [])" "persist_failures (fresh_ledger h p d rw fs) = 0"
  "pending (fresh_ledger h p d rw fs) = []" "nondurable (fresh_ledger h p d rw fs) = []"
  "disk (fresh_ledger h p d rw fs) = d" "corrupt (fresh_ledger h p d rw fs) = 0"
  "seeds (fresh_ledger h p d rw fs) = []" "policy (fresh_ledger h p d rw fs) = p"
  by (simp_all add: fresh_ledger_def books_of_def)

lemma apply_record_frame [simp]:
  "persist_failures (apply_record rec l) = persist_failures l"
  "pending (apply_record rec l) = pending l" "disk (apply_record rec l) = disk l"
  "seeds (apply_record rec l) = seeds l" "policy (apply_record rec l) = policy l"
  "nondurable l = [] \<Longrightarrow> nondurable (apply_record rec l) = []"
proof -
  have r: "persist_failures (restore_send c l) = persist_failures l \<and> pending (restore_send c l) = pending l
    \<and> disk (restore_send c l) = disk l \<and> seeds (restore_send c l) = seeds l
    \<and> policy (restore_send c l) = policy l \<and> nondurable (restore_send c l) = nondurable l" for c l
    by (simp add: restore_send_def apply_reserve_def apply_dispatch_def Let_def split: option.splits)
  have f: "persist_failures (fold restore_send ds l) = persist_failures l
    \<and> pending (fold restore_send ds l) = pending l \<and> disk (fold restore_send ds l) = disk l
    \<and> seeds (fold restore_send ds l) = seeds l \<and> policy (fold restore_send ds l) = policy l
    \<and> nondurable (fold restore_send ds l) = nondurable l" for ds l
    using r by (induction ds arbitrary: l) auto
  show "persist_failures (apply_record rec l) = persist_failures l"
    "pending (apply_record rec l) = pending l" "disk (apply_record rec l) = disk l"
    "seeds (apply_record rec l) = seeds l" "policy (apply_record rec l) = policy l"
    "nondurable l = [] \<Longrightarrow> nondurable (apply_record rec l) = []"
    using f
    by (auto simp: apply_record_def apply_reserve_def apply_dispatch_def apply_resolve_def
        apply_forget_def apply_drop_def apply_checkpoint_def forget_memory_def
        split: journal_record.splits option.splits)
qed

lemma replay_frame:
  "persist_failures (replay_lines xs l) = persist_failures l
   \<and> pending (replay_lines xs l) = pending l \<and> disk (replay_lines xs l) = disk l
   \<and> seeds (replay_lines xs l) = seeds l \<and> policy (replay_lines xs l) = policy l
   \<and> (nondurable l = [] \<longrightarrow> nondurable (replay_lines xs l) = [])"
  by (induction xs arbitrary: l) (auto split: option.splits)

text \<open>A journal in step with the books is replayed to those books, and to a good ledger.\<close>

definition journal_of :: "journal_line list \<Rightarrow> books \<Rightarrow> bool" where
  "journal_of d b \<longleftrightarrow> (\<exists>recs. d = written recs
     \<and> list_all (\<lambda>r. record_ok r \<and> whole_figures r) recs \<and> fold book recs ([], []) = b)"

lemma synced_iff: "synced l \<longleftrightarrow> (\<forall>d. disk l = Some d \<longrightarrow> journal_of d (books_of l))"
  by (simp add: synced_def journal_of_def)

lemma replay_journal:
  fixes h p rw fs
  assumes "journal_of d b" "books_ok b"
  defines "l \<equiv> replay_lines d (fresh_ledger h p (Some d) rw fs)"
  shows "books_of l = b" "corrupt l = 0" "good l"
proof -
  obtain recs where r: "d = written recs" "list_all (\<lambda>r. record_ok r \<and> whole_figures r) recs"
    "fold book recs ([], []) = b"
    using assms(1) unfolding journal_of_def by blast
  from replay_written [OF r(2), of "fresh_ledger h p (Some d) rw fs"] r(1,3)
  show b: "books_of l = b" and "corrupt l = 0" by (simp_all add: l_def)
  have "quiet l" "disk l = Some d"
    using replay_frame [of d "fresh_ledger h p (Some d) rw fs"] by (simp_all add: l_def quiet_def)
  with b assms(1,2) show "good l" by (auto simp: good_def synced_iff)
qed

lemma good_create:
  assumes "0 \<le> t" "case d of None \<Rightarrow> True | Some x \<Rightarrow> \<exists>b. journal_of x b \<and> books_ok b"
  shows "good (create_ledger h p d rw fs t) \<and> seeds_ok (create_ledger h p d rw fs t)"
proof (cases d)
  case None
  then show ?thesis
    by (simp add: create_ledger_def good_def books_ok_empty quiet_def synced_def seeds_ok_def)
next
  case (Some x)
  then obtain b where "journal_of x b" "books_ok b" using assms(2) by auto
  note r = replay_journal [OF this]
  have "seeds (reconcile_one t' e send l) = seeds l" for t' e send l
    by (simp add: reconcile_one_def Let_def split_beta split: option.splits)
  then have "seeds (fold (\<lambda>(send, r). reconcile_one t' e send) rm l) = seeds l" for t' e rm l
    by (induction rm arbitrary: l) (auto simp: split_beta)
  then have "seeds (reconcile t l) = seeds l" for l by (simp add: reconcile_def)
  then show ?thesis
    using good_reconcile [OF r(3) assms(1)] replay_frame [of x "fresh_ledger h p (Some x) rw fs"]
    by (simp add: Some create_ledger_def seeds_ok_def)
qed

lemma reachable_good:
  assumes "ledger_reachable h l" "hash_ok h"
  shows "good l \<and> seeds_ok l"
  using assms(1)
proof induction
  case (created d t p rw fs)
  have "journal_of [] ([], [])" by (auto simp: journal_of_def written_def)
  with created books_ok_empty good_create [of t d h p rw fs] show ?case by fastforce
next
  case (restarted l t p rw fs)
  then have "case disk l of None \<Rightarrow> True | Some x \<Rightarrow> \<exists>b. journal_of x b \<and> books_ok b"
    by (auto simp: good_def synced_iff simp del: split_paired_Ex split: option.splits)
  with restarted good_create show ?case by blast
next
  case (reserved l q clock)
  then show ?case using good_reserve [OF assms(2)] seeds_reserve [of h q clock l]
    by (auto simp: seeds_ok_def)
next
  case (dispatched l t i)
  then show ?case using good_mark_dispatched [OF assms(2)] by (auto simp: seeds_ok_def)
next
  case (abandoned l t i)
  then show ?case using good_abandon [OF assms(2)] seeds_ok_abandon by blast
next
  case (settled l t i inp out)
  then show ?case using good_settle [OF assms(2)] by (auto simp: seeds_ok_def settle_def Let_def)
next
  case (lost l t i)
  then show ?case using good_mark_lost [OF assms(2)] by (auto simp: seeds_ok_def mark_lost_def Let_def)
next
  case (seeded l q clock owner)
  then show ?case using good_reserve_seed [OF assms(2)] seeds_ok_reserve_seed [OF assms(2)] by blast
next
  case (reported l t sid i inp out)
  then show ?case using good_reserve_reported [OF assms(2)] seeds_ok_reserve_reported by blast
next
  case (forgotten l t ids owner)
  then show ?case using good_forget_resolved [OF assms(2)] by (auto simp: seeds_ok_def)
next
  case (finished l t sid owner)
  then show ?case using good_finish_seed [OF assms(2)] seeds_ok_finish_seed by blast
next
  case (registered l owner)
  then show ?case using good_register [of l owner]
    by (auto simp: seeds_ok_def register_reporter_def Let_def split: option.splits)
next
  case (closed l owner)
  then show ?case using good_close [of l owner]
    by (auto simp: seeds_ok_def close_reporter_def Let_def split: option.splits)
next
  case (pruned l t)
  then show ?case using good_prune shrinks_prune [of l t] by (auto simp: seeds_ok_def shrinks_def)
next
  case (reconfigured l p)
  then show ?case using good_reconfigure by (auto simp: seeds_ok_def reconfigure_def)
qed

lemma reachable_books: "ledger_reachable h l \<Longrightarrow> hash_ok h \<Longrightarrow> books_ok (scopes l, reservations l)"
  using good_books [of l] reachable_good by (simp add: books_of_def)



section \<open>Accounting\<close>

text \<open>
  C5. The in-flight counter of every scope is exact: in every reachable ledger it is the sum
  of the tokens of the live reservations that target the scope, no counter is negative, and
  every live reservation's targets are tracked. So the clamp at zero in a resolution never
  hides a loss.
\<close>

theorem reserved_is_sum_of_live:
  assumes "hash_ok h" "ledger_reachable h l"
  shows "reserved (scope_at (scopes l) k) =
      (\<Sum>(i, r)\<leftarrow>reservations l. if is_live (status r) \<and> k \<in> set (targets r) then tokens r else 0)
    \<and> 0 \<le> settled (scope_at (scopes l) k) \<and> 0 \<le> unresolved (scope_at (scopes l) k)
    \<and> set (active_refs (reservations l)) \<subseteq> dom (map_of (scopes l))"
proof -
  have ok: "books_ok (scopes l, reservations l)" using reachable_books assms by blast
  have "set (active_refs (reservations l)) \<subseteq> dom (map_of (scopes l))"
  proof
    fix k' assume "k' \<in> set (active_refs (reservations l))"
    then obtain i r where r: "(i, r) \<in> set (reservations l)" "is_live (status r)" "k' \<in> set (targets r)"
      by (auto simp: active_refs_iff)
    then have "map_of (reservations l) i = Some r" using books_okD(2) [OF ok] by simp
    with books_okD(5) [OF ok, of i r] r(2,3) show "k' \<in> dom (map_of (scopes l))"
      by (simp add: covered_def dom_def)
  qed
  then show ?thesis
    using books_okD(6) [OF ok, of k] scope_at_amounts [OF ok, of k]
    by (simp add: live_tokens_def jm_sum_def tokens_on_def)
qed

definition two_scopes :: spend_scopes where
  "two_scopes = \<lparr>root_id = Some ''r'', identity_id = None, pool_id = Some ''p''\<rparr>"

definition sample_request :: spend_request where
  "sample_request = \<lparr>admission_policy = None, send_id = ''s1'', req_scopes = two_scopes,
     input_tokens = Fin 60, output_ceiling_tokens = Fin 40, req_at = None, already_sent = False\<rparr>"

definition capped_policy :: spend_policy where
  "capped_policy = default_spend_policy
     \<lparr>limits := \<lparr>root_max = Some 150, identity_max = None, pool_max = Some 500\<rparr>\<rparr>"

definition empty_ledger :: ledger where
  "empty_ledger = create_ledger toy_hash capped_policy (Some []) True [] 1"

definition one_reserved :: ledger where
  "one_reserved = snd (reserve toy_hash sample_request 2 empty_ledger)"

text \<open>The two sample ledgers in normal form, so that evaluation starts from there.\<close>

lemma empty_ledger_eq [code]:
  "empty_ledger = \<lparr>policy = capped_policy, scopes = [], reservations = [], seeds = [], next_seed = 0,
     seed_by_send = [], pinned_keys = [], pending = [], nondurable = [], retained = [], reporters = 0,
     owner_reporters = [], continuity = \<lparr>valid = True, bound = []\<rparr>, persist_failures = 0,
     corrupt = 0, on_disk = 0, disk = Some [], can_rewrite = True, faults = []\<rparr>"
  by code_simp

definition sample_targets :: "scope_ref list" where
  "sample_targets = [(Root, ''root-r00000000000000000000000000''), (Pool, ''pool-p00000000000000000000000000'')]"

definition sample_reservation :: reservation where
  "sample_reservation = \<lparr>targets = sample_targets, tokens = 100, status = Open, reserved_at = 2, resolved_at = 2\<rparr>"

lemma one_reserved_eq [code]:
  "one_reserved = \<lparr>policy = capped_policy,
     scopes = map (\<lambda>k. (k, \<lparr>settled = 0, reserved = 100, unresolved = 0, last_seen_at = 2\<rparr>)) sample_targets,
     reservations = [(''send-s10000000000000000000000000'', sample_reservation)],
     seeds = [], next_seed = 0, seed_by_send = [], pinned_keys = [], pending = [], nondurable = [],
     retained = [], reporters = 0, owner_reporters = [], continuity = \<lparr>valid = True, bound = []\<rparr>,
     persist_failures = 0, corrupt = 0, on_disk = 1,
     disk = Some [Some (encode_record (RReserve ''send-s10000000000000000000000000'' sample_targets 100 2))],
     can_rewrite = True, faults = []\<rparr>"
  by code_simp

lemma hash_ok_toy: "hash_ok toy_hash"
  by (auto simp: hash_ok_def toy_hash_def alias_ok_def)

lemma reachable_empty: "ledger_reachable toy_hash empty_ledger"
  unfolding empty_ledger_def by (rule ledger_reachable.created) auto

lemma reachable_one: "ledger_reachable toy_hash one_reserved"
  unfolding one_reserved_def
  by (rule ledger_reachable.reserved [OF reachable_empty]) (simp add: sample_request_def)

lemma reserve_sample: "reserve toy_hash sample_request 2 empty_ledger = (Reserved ''s1'' 100 True, one_reserved)"
  unfolding one_reserved_def prod_eq_iff by (intro conjI; simp only: fst_conv snd_conv; code_simp)

lemma reserved_is_sum_of_live_witness:
  "reserved (scope_at (scopes one_reserved) (Root, toy_hash ''root'' ''r'')) =
      (\<Sum>(i, r)\<leftarrow>reservations one_reserved. if is_live (status r)
         \<and> (Root, toy_hash ''root'' ''r'') \<in> set (targets r) then tokens r else 0)
    \<and> 0 \<le> settled (scope_at (scopes one_reserved) (Root, toy_hash ''root'' ''r''))
    \<and> 0 \<le> unresolved (scope_at (scopes one_reserved) (Root, toy_hash ''root'' ''r''))
    \<and> set (active_refs (reservations one_reserved)) \<subseteq> dom (map_of (scopes one_reserved))"
  by (rule reserved_is_sum_of_live [OF hash_ok_toy reachable_one])


section \<open>Restart\<close>

lemma spent_book_resolve:
  assumes ok: "books_ok (sm, rm)" and r: "map_of rm send = Some r" "is_live (status r)"
  shows "spent (scope_at (book_targets (resolve_scope o' (tokens r) n t) (targets r) sm) k) =
    spent (scope_at sm k) + (if k \<in> set (targets r)
      then (if o' = Settled then n else 0) - (if o' = Lost then 0 else tokens r) else 0)"
proof -
  have d: "distinct (targets r)" "0 \<le> tokens r"
    using books_okD(4) [OF ok, of send r] r(1) by (simp_all add: reservation_ok_def)
  show ?thesis
    using tokens_on_le [OF ok, of send r k] r
    by (auto simp: scope_at_book_targets [OF d(1)] spent_def tokens_on_def)
qed

lemma spent_resolve_lost:
  assumes "books_ok (sm, rm)"
  shows "spent (scope_at (fst (book_resolve send Lost 0 t (sm, rm))) k) = spent (scope_at sm k)"
  using spent_book_resolve [OF assms, where o' = Lost and n = 0]
  by (auto simp: book_resolve_def split: option.splits)

definition live_ids :: "ledger \<Rightarrow> string set" where
  "live_ids l = {i. \<exists>r. map_of (reservations l) i = Some r \<and> is_live (status r)}"

lemma reconcile_one_effect:
  assumes "good l"
  shows "spent (scope_at (scopes (reconcile_one t e send l)) k) = spent (scope_at (scopes l) k)
    \<and> live_ids (reconcile_one t e send l) = live_ids l - {send}
    \<and> corrupt (reconcile_one t e send l) = corrupt l"
proof -
  have ok: "books_ok (scopes l, reservations l)" using good_books [OF assms] by (simp add: books_of_def)
  define l1 where "l1 = (case map_of (reservations l) send of
      Some r \<Rightarrow> if is_live (status r)
        then (let (durable, l') = append_record (RLost send t) l; l'' = apply_resolve send Lost 0 t l'
              in if \<not> durable \<and> e then l''\<lparr>pending := pending l'' @ [RLost send t]\<rparr> else l'')
        else l
    | None \<Rightarrow> l)"
  have b: "books_of l1 = book_resolve send Lost 0 t (books_of l)"
  proof (cases "\<exists>r. map_of (reservations l) send = Some r \<and> is_live (status r)")
    case True
    have p: "books_of (x\<lparr>pending := y\<rparr>) = books_of x" for x :: ledger and y by (simp add: books_of_def)
    from True show ?thesis by (auto simp: l1_def Let_def split_beta books_apply_resolve p)
  next
    case False
    then show ?thesis by (auto simp: l1_def book_resolve_def books_of_def split: option.splits)
  qed
  then have s1: "scopes l1 = fst (book_resolve send Lost 0 t (scopes l, reservations l))"
    and r1: "reservations l1 = snd (book_resolve send Lost 0 t (scopes l, reservations l))"
    by (metis books_of_def fst_conv) (metis b books_of_def snd_conv)
  have live1: "live_ids l1 = live_ids l - {send}"
    by (auto simp: live_ids_def r1 book_resolve_def is_live_def split: option.splits if_splits)
  have c1: "corrupt l1 = corrupt l"
    by (auto simp: l1_def Let_def split_beta apply_resolve_def forget_memory_def split: option.splits)
  define l2 where "l2 = (if \<not> e then l1 else (let (ok, l2) = flush_append (RForget send t) l1
               in if ok then apply_forget send l2 else l2))"
  have "scopes l2 = scopes l1" "corrupt l2 = corrupt l1"
    by (simp_all add: l2_def Let_def split_beta apply_forget_def forget_memory_def split: option.splits)
  moreover have "live_ids l2 = live_ids l1"
    by (auto simp: l2_def Let_def split_beta apply_forget_def forget_memory_def live_ids_def
        split: option.splits if_splits)
  moreover have "reconcile_one t e send l = l2"
    unfolding reconcile_one_def l2_def l1_def Let_def by (rule refl)
  ultimately show ?thesis
    using live1 c1 spent_resolve_lost [OF ok] s1 by simp
qed

lemma reconcile_fold_effect:
  assumes "good l" "0 \<le> t" "\<forall>(send, r) \<in> set rm. alias_ok send"
  shows "spent (scope_at (scopes (fold (\<lambda>(send, r). reconcile_one t e send) rm l)) k)
      = spent (scope_at (scopes l) k)
    \<and> live_ids (fold (\<lambda>(send, r). reconcile_one t e send) rm l) = live_ids l - fst ` set rm
    \<and> corrupt (fold (\<lambda>(send, r). reconcile_one t e send) rm l) = corrupt l"
  using assms
proof (induction rm arbitrary: l)
  case (Cons p rm)
  obtain i r where p: "p = (i, r)" by (cases p)
  have "good (reconcile_one t e i l)" using Cons.prems p by (intro good_reconcile_one) auto
  from Cons.IH [OF this Cons.prems(2)] Cons.prems(3) reconcile_one_effect [OF Cons.prems(1), of t e i]
  show ?case by (auto simp: p)
qed simp


text \<open>
  C4. A restart forgets no spend. From a reachable ledger whose journal never failed a write,
  the ledger that the next process builds from that journal has, in every scope, exactly the
  spend of the old one, with nothing left in flight: what was open or dispatched is now
  unresolved spend. Replay rejects no record, whatever policy the new process configures and
  whatever of its own writes fail.
\<close>

theorem restart_preserves_spend:
  fixes p rw fs
  assumes "hash_ok h" "ledger_reachable h l" "persist_failures l = 0" "disk l = Some d" "0 \<le> t"
  defines "l' \<equiv> create_ledger h p (Some d) rw fs t"
  shows "spent (scope_at (scopes l') k) = spent (scope_at (scopes l) k)
    \<and> reserved (scope_at (scopes l') k) = 0 \<and> corrupt l' = 0"
proof -
  have g: "good l" "books_ok (books_of l)"
    using reachable_good [OF assms(2,1)] by (auto simp: good_def)
  have j: "journal_of d (books_of l)" using g(1) assms(3,4) by (simp add: good_def synced_iff)
  define m where "m = replay_lines d (fresh_ledger h p (Some d) rw fs)"
  have m: "books_of m = books_of l" "corrupt m = 0" "good m"
    using replay_journal [OF j g(2)] by (simp_all add: m_def)
  have l': "l' = reconcile t m" by (simp add: l'_def create_ledger_def m_def)
  have rm: "(i, r) \<in> set (reservations m) \<Longrightarrow> map_of (reservations m) i = Some r" for i r
    using books_okD(2) [OF good_books [OF m(3)]] by simp
  have al: "\<forall>(i, r) \<in> set (reservations m). alias_ok i"
    using rm books_okD(4) [OF good_books [OF m(3)]] by (auto simp: reservation_ok_def)
  note e = reconcile_fold_effect [OF m(3) assms(5) al]
  have "live_ids m \<subseteq> fst ` set (reservations m)"
    by (auto simp: live_ids_def dest!: map_of_SomeD intro: rev_image_eqI)
  then have none: "live_ids l' = {}" using e by (simp add: l' reconcile_def)
  have "active_refs (reservations l') = []"
  proof -
    have "good l'" unfolding l' using m(3) assms(5) by (rule good_reconcile)
    then have "(i, r) \<in> set (reservations l') \<Longrightarrow> map_of (reservations l') i = Some r" for i r
      using books_okD(2) [OF good_books] by simp
    with none have "\<not> is_live (status r)" if "(i, r) \<in> set (reservations l')" for i r
      using that unfolding live_ids_def by blast
    then show ?thesis by (auto simp: active_refs_def)
  qed
  moreover have "good l'" unfolding l' using m(3) assms(5) by (rule good_reconcile)
  ultimately have "reserved (scope_at (scopes l') k) = 0"
    using books_okD(6) [OF good_books, of l' k] live_tokens_inactive [of k "reservations l'"] by simp
  moreover have "scopes m = scopes l" using m(1) by (simp add: books_of_def)
  ultimately show ?thesis using e m(2) by (simp add: l' reconcile_def)
qed

lemma restart_preserves_spend_witness:
  "spent (scope_at (scopes (create_ledger toy_hash default_spend_policy
       (Some (the (disk one_reserved))) True [True] 9)) (Root, toy_hash ''root'' ''r''))
     = spent (scope_at (scopes one_reserved) (Root, toy_hash ''root'' ''r''))
   \<and> reserved (scope_at (scopes (create_ledger toy_hash default_spend_policy
       (Some (the (disk one_reserved))) True [True] 9)) (Root, toy_hash ''root'' ''r'')) = 0
   \<and> corrupt (create_ledger toy_hash default_spend_policy (Some (the (disk one_reserved))) True [True] 9) = 0"
  by (rule restart_preserves_spend [OF hash_ok_toy reachable_one]) (code_simp, code_simp, simp)


section \<open>Admission\<close>

text \<open>What a pool's view weighs: every bucket that counts towards it, by its spend.\<close>

definition pool_weight :: "continuity \<Rightarrow> string \<Rightarrow> scope_ref \<Rightarrow> scope_state \<Rightarrow> amount" where
  "pool_weight c a k s = (if fst k = Pool \<and> (pool_known c (snd k) \<longrightarrow>
     pool_resolve c (snd k) = pool_resolve c a) then spent s else 0)"

lemma spent_zero [simp]: "spent zero_scope = 0"
  by (simp add: spent_def zero_scope_def)

lemma spent_add_scope [simp]: "spent (add_scope t s) = spent t + spent s"
  by (simp add: spent_def add_scope_def)

lemma spent_total_scope: "spent (total_scope m) = jm_sum (\<lambda>k s. spent s) m"
proof -
  have "spent (fold (\<lambda>(k, s) t. add_scope t s) m t) = spent t + jm_sum (\<lambda>k s. spent s) m" for t
    by (induction m arbitrary: t) (auto simp: split_beta jm_sum_def)
  then show ?thesis by (simp add: total_scope_def)
qed

lemma spent_pool_view:
  "spent (fst (nullish (pool_state c a m) (zero_scope, False))) = jm_sum (pool_weight c a) m"
proof -
  have "jm_sum (\<lambda>k s. spent s) (pool_members c a m) = jm_sum (pool_weight c a) m"
    by (induction m) (auto simp: pool_members_def pool_weight_def jm_sum_def split: if_splits)
  then show ?thesis
    by (cases "pool_members c a m = []")
      (simp_all add: pool_state_def Let_def spent_total_scope)
qed

lemma view_of_spent:
  "spent (fst (view_of l k)) = (if fst k = Pool
     then jm_sum (pool_weight (continuity l) (snd k)) (scopes l) else spent (scope_at (scopes l) k))"
  using spent_pool_view [of "continuity l" "snd k" "scopes l"] by (simp add: view_of_def)

lemma pool_weight_reserve:
  "pool_weight c a k (reserve_scope n t s) = pool_weight c a k s + pool_weight c a k
     \<lparr>settled = n, reserved = 0, unresolved = 0, last_seen_at = 0\<rparr>"
  by (auto simp: pool_weight_def spent_def)

lemma pool_weight_zero [simp]: "pool_weight c a k zero_scope = 0"
  by (simp add: pool_weight_def)

lemma pool_weight_update:
  assumes "jm_wf m"
  shows "jm_sum (pool_weight c a) (AList.update k (reserve_scope n t (scope_at m k)) m) =
      jm_sum (pool_weight c a) m + pool_weight c a k
        \<lparr>settled = n, reserved = 0, unresolved = 0, last_seen_at = 0\<rparr>"
  using jm_sum_update [OF assms, of "pool_weight c a" k]
  by (cases "map_of m k") (simp_all add: scope_at_def pool_weight_reserve)

lemma pool_weight_amount:
  "pool_weight c a k \<lparr>settled = n, reserved = 0, unresolved = 0, last_seen_at = 0\<rparr> =
     (if fst k = Pool \<and> (pool_known c (snd k) \<longrightarrow> pool_resolve c (snd k) = pool_resolve c a)
      then n else 0)"
  by (auto simp: pool_weight_def spent_def)

lemma pool_weight_off:
  assumes "jm_wf m" "\<forall>k \<in> set ts. fst k \<noteq> Pool"
  shows "jm_sum (pool_weight c a) (book_targets (reserve_scope n t) ts m) = jm_sum (pool_weight c a) m"
  using assms
proof (induction ts arbitrary: m)
  case (Cons k ts)
  have "jm_sum (pool_weight c a) (AList.update k (reserve_scope n t (scope_at m k)) m)
      = jm_sum (pool_weight c a) m"
    using pool_weight_update [OF Cons.prems(1), of c a k n t] Cons.prems(2)
    by (simp add: pool_weight_amount)
  moreover have "jm_wf (AList.update k (reserve_scope n t (scope_at m k)) m)"
    using Cons.prems(1) by simp
  ultimately show ?case using Cons.IH Cons.prems(2) by simp
qed simp

lemma pool_weight_book_targets:
  assumes "jm_wf m" "distinct ts" "k \<in> set ts" "fst k = Pool"
    "\<And>k'. k' \<in> set ts \<Longrightarrow> fst k' = Pool \<Longrightarrow> k' = k"
  shows "jm_sum (pool_weight c (snd k)) (book_targets (reserve_scope n t) ts m) =
    jm_sum (pool_weight c (snd k)) m + n"
  using assms
proof (induction ts arbitrary: m)
  case (Cons k' ts)
  let ?m = "AList.update k' (reserve_scope n t (scope_at m k')) m"
  have wf: "jm_wf ?m" using Cons.prems(1) by simp
  note u = pool_weight_update [OF Cons.prems(1), of c "snd k" k' n t, unfolded pool_weight_amount]
  show ?case
  proof (cases "k' = k")
    case True
    have "\<forall>x \<in> set ts. fst x \<noteq> Pool" using Cons.prems(2,5) True by fastforce
    from pool_weight_off [OF wf this, of c "snd k" n t] u True Cons.prems(4) show ?thesis by simp
  next
    case False
    then have "fst k' \<noteq> Pool" using Cons.prems(5) [of k'] by auto
    moreover have "k \<in> set ts" using Cons.prems(3) False by simp
    ultimately show ?thesis
      using Cons.IH [OF wf _ _ Cons.prems(4)] u Cons.prems(2,5) by simp
  qed
qed simp

lemma refs_for_pool_unique:
  "k \<in> set (refs_for h sc) \<Longrightarrow> k' \<in> set (refs_for h sc) \<Longrightarrow> fst k = fst k' \<Longrightarrow> k = k'"
  by (cases "root_id sc"; cases "identity_id sc"; cases "pool_id sc") (auto simp: refs_for_def)

lemma compact_frame [simp]:
  "scopes (compact t l) = scopes l" "reservations (compact t l) = reservations l"
  "continuity (compact t l) = continuity l" "policy (compact t l) = policy l"
  by (simp_all add: compact_def)

lemma append_record_scopes:
  "append_record r l = (ok, l') \<Longrightarrow> scopes l' = scopes l \<and> reservations l' = reservations l
     \<and> continuity l' = continuity l \<and> policy l' = policy l"
  by (metis append_record_simps(7,8) reservations_append_record scopes_append_record snd_conv)

text \<open>
  The ledger after an admission, in terms of the one room was made in.
\<close>

lemma admitted_books:
  assumes "reserve h q clock l = (Reserved i n dur, l')"
  obtains l1 where
    "l1 = snd (make_room (refs_for h (req_scopes q)) (nullish (req_at q) clock) (snd (flush_pending l)))"
    "fst (make_room (refs_for h (req_scopes q)) (nullish (req_at q) clock) (snd (flush_pending l))) = None"
    "shrinks l l1" "map_of (reservations l) (h ''send'' (send_id q)) = None"
    "map_of (reservations l1) (h ''send'' (send_id q)) = None"
    "first_error (limit_denial q l1) (refs_for h (req_scopes q)) = None"
    "scopes l' = book_targets (reserve_scope (request_tokens q) (nullish (req_at q) clock))
       (refs_for h (req_scopes q)) (scopes l1)"
    "reservations l' = AList.update (h ''send'' (send_id q))
       \<lparr>targets = refs_for h (req_scopes q), tokens = request_tokens q, status = Open,
        reserved_at = nullish (req_at q) clock, resolved_at = nullish (req_at q) clock\<rparr>
       (reservations l1)"
    "continuity l' = continuity l" "policy l' = policy l" "n = request_tokens q" "i = send_id q"
proof (cases rule: reserve_cases [of h q clock l])
  case (refused d l'')
  then show ?thesis using assms by simp
next
  case (admitted l1 durable l2 l3)
  have s: "shrinks l l1" unfolding admitted(1) by (rule shrinks_trans [OF shrinks_flush shrinks_make_room])
  have abs: "map_of (reservations l1) (h ''send'' (send_id q)) = None"
    using shrinks_absent [OF s] admitted(3) by simp
  note a = append_record_scopes [OF admitted(7)]
  have l': "l' = compact (nullish (req_at q) clock) l3" "n = request_tokens q" "i = send_id q"
    using admitted(10) assms by simp_all
  show ?thesis
    by (rule that [OF admitted(1,2) s _ abs admitted(6)])
      (use admitted(3) a abs s in \<open>simp_all add: l' admitted(9) Let_def apply_reserve_def shrinks_def\<close>)
qed

text \<open>
  C6. Admission never crosses a ceiling. After an ordinary send was admitted, at every scope
  it touches at once the settled, reserved and unresolved tokens, this send's included, are
  within the ceiling in force for it; for a pool they are those of the whole view, the
  buckets of its provider and all history that has no known owner.
\<close>

theorem admission_within_limits:
  assumes "hash_ok h" "ledger_reachable h l" "0 \<le> nullish (req_at q) clock"
    and "reserve h q clock l = (Reserved i n dur, l')" "\<not> already_sent q"
    and "k \<in> set (refs_for h (req_scopes q))" "admission_limit q l (fst k) = Some m"
  shows "spent (fst (view_of l' k)) \<le> m"
  using assms(4)
proof (rule admitted_books)
  fix l1
  assume l1: "l1 = snd (make_room (refs_for h (req_scopes q)) (nullish (req_at q) clock) (snd (flush_pending l)))"
    and s: "shrinks l l1"
    and fe: "first_error (limit_denial q l1) (refs_for h (req_scopes q)) = None"
    and sc: "scopes l' = book_targets (reserve_scope (request_tokens q) (nullish (req_at q) clock))
       (refs_for h (req_scopes q)) (scopes l1)" and c: "continuity l' = continuity l"
  have "good l1"
    unfolding l1 using reachable_good [OF assms(2,1)] assms(3) good_kept [OF _ kept_flush]
    by (blast intro: good_make_room)
  then have wf: "jm_wf (scopes l1)" using books_okD(1) [OF good_books] by simp
  have d: "distinct (refs_for h (req_scopes q))" using refs_for_ok [OF assms(1)] by simp
  have "admission_limit q l1 (fst k) = Some m"
    using assms(7) s by (cases "admission_policy q") (simp_all add: admission_limit_def shrinks_def)
  moreover have "limit_denial q l1 k = None" using fe assms(6) by (simp add: first_error_None)
  ultimately have "spent (fst (view_of l1 k)) + request_tokens q \<le> m"
    using assms(5) by (simp add: limit_denial_def Let_def split_beta split: if_splits)
  moreover have "spent (fst (view_of l' k)) = spent (fst (view_of l1 k)) + request_tokens q"
  proof (cases "fst k = Pool")
    case True
    have "continuity l1 = continuity l" using s by (simp add: shrinks_def)
    with True pool_weight_book_targets [OF wf d assms(6) True] refs_for_pool_unique [OF _ assms(6)]
    show ?thesis by (simp add: view_of_spent sc c)
  next
    case False
    with assms(6) show ?thesis
      by (simp add: view_of_def sc scope_at_book_targets [OF d] spent_def)
  qed
  ultimately show ?thesis by simp
qed

lemma admission_within_limits_witness:
  "spent (fst (view_of one_reserved (Root, toy_hash ''root'' ''r''))) \<le> 150"
  by (rule admission_within_limits [OF hash_ok_toy reachable_empty, where q = sample_request
        and clock = 2 and i = "''s1''" and n = 100 and dur = True]) (rule reserve_sample | code_simp)+


text \<open>
  C7. Durable before admitted. Under a ceiling, a send that has not left yet is admitted only
  with its record in the journal: the answer says so, the reservation is booked with the full
  amount, and the last line of the journal is its reserve record, or the checkpoint of the
  books that hold it.
\<close>

theorem admission_is_durable:
  assumes "reserve h q clock l = (Reserved i n dur, l')"
    and "enforced h q l" "\<not> already_sent q" "disk lr = Some d"
    and "lr = snd (make_room (refs_for h (req_scopes q)) (nullish (req_at q) clock) (snd (flush_pending l)))"
  shows "dur \<and> (\<exists>r. map_of (reservations l') (h ''send'' (send_id q)) = Some r
      \<and> status r = Open \<and> tokens r = request_tokens q \<and> targets r = refs_for h (req_scopes q))
    \<and> (\<exists>d'. disk l' = Some d' \<and> d' \<noteq> [] \<and> last d' \<in>
        {Some (encode_record (RReserve (h ''send'' (send_id q)) (refs_for h (req_scopes q))
            (request_tokens q) (nullish (req_at q) clock))),
         Some (encode_record (checkpoint_of (nullish (req_at q) clock) (scopes l') (reservations l')))})"
proof (cases rule: reserve_cases [of h q clock l])
  case (refused x l'')
  then show ?thesis using assms(1) by simp
next
  case (admitted m durable l2 l3)
  have m: "m = lr" using admitted(1) assms(5) by simp
  have dur: "durable" using admitted(8) assms(2,3) by simp
  let ?rec = "RReserve (h ''send'' (send_id q)) (refs_for h (req_scopes q))
    (request_tokens q) (nullish (req_at q) clock)"
  have l2: "l2 = snd (append_record ?rec lr)" "fst (append_record ?rec lr)"
    using admitted(7) dur m by simp_all
  have "disk l2 = Some (d @ [Some (encode_record ?rec)])"
    using append_ok [OF l2(2)] l2(1) assms(4) by simp
  then have d3: "disk l3 = Some (d @ [Some (encode_record ?rec)])"
    by (simp add: admitted(9) dur Let_def apply_reserve_def)
  have l': "l' = compact (nullish (req_at q) clock) l3" "dur = durable"
    using admitted(10) assms(1) by simp_all
  have abs: "map_of (reservations l2) (h ''send'' (send_id q)) = None"
    using shrinks_absent [OF shrinks_trans [OF shrinks_flush shrinks_make_room]] admitted(1,3)
      append_record_scopes [OF admitted(7)] by simp
  then have "map_of (reservations l3) (h ''send'' (send_id q)) =
      Some \<lparr>targets = refs_for h (req_scopes q), tokens = request_tokens q, status = Open,
        reserved_at = nullish (req_at q) clock, resolved_at = nullish (req_at q) clock\<rparr>"
    by (simp add: admitted(9) dur Let_def apply_reserve_def)
  then show ?thesis
    using d3 dur by (auto simp: l' compact_def)
qed

lemma admission_is_durable_witness:
  "True \<and> (\<exists>r. map_of (reservations one_reserved) (toy_hash ''send'' (send_id sample_request)) = Some r
      \<and> status r = Open \<and> tokens r = request_tokens sample_request
      \<and> targets r = refs_for toy_hash (req_scopes sample_request))
    \<and> (\<exists>d'. disk one_reserved = Some d' \<and> d' \<noteq> [] \<and> last d' \<in>
        {Some (encode_record (RReserve (toy_hash ''send'' (send_id sample_request))
            (refs_for toy_hash (req_scopes sample_request)) (request_tokens sample_request)
            (nullish (req_at sample_request) 2))),
         Some (encode_record (checkpoint_of (nullish (req_at sample_request) 2)
            (scopes one_reserved) (reservations one_reserved)))})"
proof (rule admission_is_durable [where l = empty_ledger and i = "''s1''" and n = 100 and d = "[]"
      and lr = "snd (make_room (refs_for toy_hash (req_scopes sample_request))
        (nullish (req_at sample_request) 2) (snd (flush_pending empty_ledger)))"])
  show "reserve toy_hash sample_request 2 empty_ledger = (Reserved ''s1'' 100 True, one_reserved)"
    by (rule reserve_sample)
  show "enforced toy_hash sample_request empty_ledger" by code_simp
  show "\<not> already_sent sample_request" by code_simp
  show "disk (snd (make_room (refs_for toy_hash (req_scopes sample_request))
      (nullish (req_at sample_request) 2) (snd (flush_pending empty_ledger)))) = Some []"
    by code_simp
qed (rule refl)

lemma room_for_send_bound:
  "fst (room_for_send t l) \<Longrightarrow> length (reservations (snd (room_for_send t l))) < max_sends l"
proof (induction t l rule: room_for_send.induct)
  case (1 t l)
  have "max_sends (snd (evict_sends t True l)) = max_sends l"
    using shrinks_evict_sends [of l t True] by (simp add: max_sends_def shrinks_def)
  with 1 show ?case
    by (subst room_for_send.simps, subst (asm) (2) room_for_send.simps)
      (auto split: if_splits simp: not_le)
qed

lemma room_for_scopes_bound:
  "fst (room_for_scopes refs t l) \<Longrightarrow>
     length (scopes (snd (room_for_scopes refs t l))) + fresh_count refs (snd (room_for_scopes refs t l))
       \<le> max_scopes l"
proof (induction refs t l rule: room_for_scopes.induct)
  case (1 refs t l)
  have "max_scopes (snd (evict_scopes t True l)) = max_scopes l"
    using shrinks_evict_scopes [of l t True] by (simp add: max_scopes_def shrinks_def)
  with 1 show ?case
    by (subst room_for_scopes.simps, subst (2) room_for_scopes.simps,
        subst (asm) (2) room_for_scopes.simps)
      (auto split: if_splits simp: not_le)
qed

lemma reservations_evict_scopes: "good l \<Longrightarrow> 0 \<le> t \<Longrightarrow>
    reservations (snd (room_for_scopes refs t l)) = reservations l"
proof (induction refs t l rule: room_for_scopes.induct)
  case (1 refs t l)
  have "good (snd (evict_scopes t True l)) \<and> reservations (snd (evict_scopes t True l)) = reservations l"
    using 1(2,3) by (rule good_evict_scopes)
  with 1 show ?case by (subst room_for_scopes.simps) auto
qed

lemma length_book_targets:
  "distinct ts \<Longrightarrow> length (book_targets f ts m) = length m + length (filter (\<lambda>k. \<not> jm_has m k) ts)"
proof (induction ts arbitrary: m)
  case (Cons k ts)
  have "filter (\<lambda>k'. \<not> jm_has (AList.update k (f (scope_at m k)) m) k') ts
      = filter (\<lambda>k'. \<not> jm_has m k') ts"
    using Cons.prems by (intro filter_cong) auto
  with Cons show ?case
    by (cases "map_of m k") (simp_all add: length_update_present length_update_absent)
qed simp

text \<open>
  Tracking is bounded: every admission leaves at most the configured number of remembered
  sends and of tracked scopes.
\<close>

theorem tracking_bounded:
  assumes "hash_ok h" "ledger_reachable h l" "0 \<le> nullish (req_at q) clock"
    and "reserve h q clock l = (Reserved i n dur, l')"
  shows "length (reservations l') \<le> max_sends l \<and> length (scopes l') \<le> max_scopes l"
  using assms(4)
proof (rule admitted_books)
  let ?refs = "refs_for h (req_scopes q)" and ?t = "nullish (req_at q) clock"
  let ?lf = "snd (flush_pending l)"
  let ?la = "snd (evict_scopes ?t False (snd (evict_sends ?t False ?lf)))"
  let ?lb = "snd (room_for_send ?t ?la)"
  fix l1
  assume l1: "l1 = snd (make_room ?refs ?t ?lf)" and room: "fst (make_room ?refs ?t ?lf) = None"
    and abs: "map_of (reservations l1) (h ''send'' (send_id q)) = None"
    and sc: "scopes l' = book_targets (reserve_scope (request_tokens q) ?t) ?refs (scopes l1)"
    and rs: "reservations l' = AList.update (h ''send'' (send_id q)) \<lparr>targets = ?refs,
      tokens = request_tokens q, status = Open, reserved_at = ?t, resolved_at = ?t\<rparr> (reservations l1)"
  have ok: "fst (room_for_send ?t ?la)" "fst (room_for_scopes ?refs ?t ?lb)"
    "l1 = snd (room_for_scopes ?refs ?t ?lb)"
    using room l1 by (auto simp: make_room_def Let_def split_beta split: if_splits)
  have "good ?lf" using reachable_good [OF assms(2,1)] good_kept [OF _ kept_flush] by blast
  then have "good ?lb"
    using assms(3) good_evict_sends good_evict_scopes good_room_for_send by blast
  then have "reservations l1 = reservations ?lb"
    using reservations_evict_scopes assms(3) ok(3) by simp
  moreover have s: "shrinks l ?la" "shrinks l ?lb"
    using shrinks_trans [OF shrinks_flush shrinks_trans [OF shrinks_evict_sends shrinks_evict_scopes]]
      shrinks_trans [OF _ shrinks_room_for_send] by blast+
  then have "max_sends ?la = max_sends l" "max_scopes ?lb = max_scopes l"
    by (simp_all add: max_sends_def max_scopes_def shrinks_def)
  ultimately have "length (reservations l1) < max_sends l"
    "length (scopes l1) + fresh_count ?refs l1 \<le> max_scopes l"
    using room_for_send_bound [OF ok(1)] room_for_scopes_bound [OF ok(2)] ok(3) by simp_all
  moreover have "length (scopes l') = length (scopes l1) + fresh_count ?refs l1"
    using refs_for_ok [OF assms(1)] by (simp add: sc length_book_targets fresh_count_def)
  moreover have "length (reservations l') = Suc (length (reservations l1))"
    unfolding rs by (rule length_update_absent) (rule abs)
  ultimately show ?thesis by simp
qed

lemma tracking_bounded_witness:
  "length (reservations one_reserved) \<le> max_sends empty_ledger
   \<and> length (scopes one_reserved) \<le> max_scopes empty_ledger"
  by (rule tracking_bounded [OF hash_ok_toy reachable_empty, where q = sample_request
        and clock = 2 and i = "''s1''" and n = 100 and dur = True]) (rule reserve_sample | code_simp)+


section \<open>No laundering\<close>

definition protected :: "ledger \<Rightarrow> scope_ref \<Rightarrow> scope_state \<Rightarrow> bool" where
  "protected l k s \<longleftrightarrow> map_of (scopes l) k = Some s
     \<and> (jm_has (pinned_keys l) k \<or> fst k \<noteq> Pool \<and> is_exhausted (policy l) (fst k) s)"

lemma protected_shrinks:
  "protected l k s \<Longrightarrow> shrinks l l' \<Longrightarrow> map_of (scopes l') k = Some s \<Longrightarrow> protected l' k s"
  by (auto simp: protected_def shrinks_def)

lemma fold_try_drop_other:
  "k \<notin> set ks \<Longrightarrow> map_of (scopes (snd (fold (try_drop t) ks nl))) k = map_of (scopes (snd nl)) k"
  by (induction ks arbitrary: nl) (auto simp: jm_has_try_drop)

lemma protected_evict_scopes:
  assumes "good l" "0 \<le> t" "protected l k s"
  shows "protected (snd (evict_scopes t force l)) k s"
proof -
  let ?nl = "fold (try_drop t) (expired_unbound t l) (0, l)"
  have wf: "jm_wf (scopes l)" using books_okD(1) [OF good_books [OF assms(1)]] by simp
  have s: "(k, x) \<in> set (scopes l) \<Longrightarrow> x = s" for x
    using assms(3) map_of_is_SomeI [OF wf] by (fastforce simp: protected_def)
  have "k \<notin> set (expired_unbound t l)"
    using assms(3) s by (auto simp: expired_unbound_def protected_def scope_idle_def)
  then have 1: "map_of (scopes (snd ?nl)) k = Some s"
    using assms(3) by (simp add: fold_try_drop_other protected_def)
  have sh: "shrinks l (snd ?nl)"
    using shrinks_fold [of "try_drop t" "(0, l)"] shrinks_try_drop by simp
  have p1: "protected (snd ?nl) k s" by (rule protected_shrinks [OF assms(3) sh 1])
  have "good (snd ?nl)"
    using good_fold_try_drop [of "(0, l)" "expired_unbound t l" t] assms(1,2) wf
      expired_unbound_idle [of _ t l] by (auto simp: expired_unbound_def)
  then have wf1: "jm_wf (scopes (snd ?nl))" using books_okD(1) [OF good_books] by simp
  have "k \<notin> set (scope_candidates t force (snd ?nl))"
  proof
    assume "k \<in> set (scope_candidates t force (snd ?nl))"
    then obtain x where x: "(k, x) \<in> set (scopes (snd ?nl))" "evictable_scope t force (snd ?nl) k x"
      by (auto simp: scope_candidates_def oldest_one_def split: if_splits dest!: in_set_takeD)
    then have "x = s" using map_of_is_SomeI [OF wf1] 1 by fastforce
    with x(2) p1 show False
      by (auto simp: evictable_scope_def scope_idle_def protected_def effective_state_def)
  qed
  then have "map_of (scopes (snd (evict_scopes t force l))) k = Some s"
    using 1 by (simp add: evict_scopes_def split_beta Let_def fold_try_drop_other)
  then show ?thesis using protected_shrinks [OF assms(3) shrinks_evict_scopes] by blast
qed

lemma scopes_fold_try_forget [simp]: "scopes (snd (fold (try_forget t) is nl)) = scopes (snd nl)"
  by (induction "is" arbitrary: nl) simp_all

lemma protected_evict_sends: "protected l k s \<Longrightarrow> protected (snd (evict_sends t force l)) k s"
  by (rule protected_shrinks [OF _ shrinks_evict_sends]) (simp_all add: evict_sends_def protected_def)

lemma protected_room_for_send: "protected l k s \<Longrightarrow> protected (snd (room_for_send t l)) k s"
proof (induction t l rule: room_for_send.induct)
  case (1 t l)
  then show ?case using protected_evict_sends by (subst room_for_send.simps) auto
qed

lemma protected_room_for_scopes:
  "good l \<Longrightarrow> 0 \<le> t \<Longrightarrow> protected l k s \<Longrightarrow> protected (snd (room_for_scopes refs t l)) k s"
proof (induction refs t l rule: room_for_scopes.induct)
  case (1 refs t l)
  have "good (snd (evict_scopes t True l))" using good_evict_scopes 1(2,3) by blast
  moreover have "protected (snd (evict_scopes t True l)) k s"
    using 1(2-4) by (rule protected_evict_scopes)
  ultimately show ?case using 1 by (subst room_for_scopes.simps) auto
qed

text \<open>
  C8. No laundering: an exhausted root or identity scope, and any scope a seed pins, survives
  every cleanup with its figures unchanged, the periodic one as well as the one that makes
  room at capacity; its id never gets a fresh allowance.
\<close>

theorem exhausted_scope_never_forgotten:
  assumes "hash_ok h" "ledger_reachable h l" "0 \<le> t" "map_of (scopes l) k = Some s"
    and "jm_has (pinned_keys l) k \<or> fst k \<noteq> Pool \<and> is_exhausted (policy l) (fst k) s"
  shows "map_of (scopes (prune t l)) k = Some s
    \<and> map_of (scopes (snd (make_room refs t l))) k = Some s"
proof -
  let ?l1 = "snd (evict_sends t False l)" and ?lf = "snd (flush_pending l)"
  have g: "good l" using reachable_good [OF assms(2,1)] by simp
  have p: "protected l k s" using assms(4,5) by (simp add: protected_def)
  have gf: "good ?lf" by (rule good_kept [OF g kept_flush])
  have "protected ?lf k s" using protected_shrinks [OF p shrinks_flush] assms(4) by simp
  then have "protected (prune t l) k s"
    unfolding prune_def using good_evict_sends [OF gf assms(3)] assms(3)
    by (blast intro: protected_evict_scopes protected_evict_sends)
  moreover have "good (snd (evict_scopes t False ?l1))"
    using good_evict_scopes [OF good_evict_sends [OF g assms(3)] assms(3)] by simp
  moreover have 2: "protected (snd (evict_scopes t False ?l1)) k s"
    using good_evict_sends [OF g assms(3)] assms(3) protected_evict_sends [OF p]
    by (blast intro: protected_evict_scopes)
  ultimately have "protected (snd (room_for_scopes refs t (snd (room_for_send t
      (snd (evict_scopes t False ?l1)))))) k s"
    "protected (snd (room_for_send t (snd (evict_scopes t False ?l1)))) k s" "protected (prune t l) k s"
    using assms(3) good_room_for_send protected_room_for_scopes protected_room_for_send by blast+
  then show ?thesis by (simp add: make_room_def Let_def split_beta protected_def)
qed

definition spent_up :: ledger where
  "spent_up = snd (settle toy_hash ''s1'' (Fin 100) (Fin 70) 3 one_reserved)"

lemma reachable_spent_up: "ledger_reachable toy_hash spent_up"
  unfolding spent_up_def by (rule ledger_reachable.settled [OF reachable_one]) simp

lemma exhausted_scope_never_forgotten_witness:
  "map_of (scopes (prune 999999999 spent_up)) (Root, toy_hash ''root'' ''r'')
     = Some \<lparr>settled = 170, reserved = 0, unresolved = 0, last_seen_at = 3\<rparr>
   \<and> map_of (scopes (snd (make_room [] 999999999 spent_up))) (Root, toy_hash ''root'' ''r'')
     = Some \<lparr>settled = 170, reserved = 0, unresolved = 0, last_seen_at = 3\<rparr>"
  by (rule exhausted_scope_never_forgotten [OF hash_ok_toy reachable_spent_up]) code_simp+


section \<open>Refusals\<close>

text \<open>
  A refusal books nothing: whatever the reason, no reservation and no scope of the refused
  ledger is new or changed, and a send id that is already known, open or resolved, is always
  refused with the books untouched.
\<close>

theorem refusal_books_nothing:
  assumes "reserve h q clock l = (Refused d, l')"
  shows "map_of (reservations l') i \<in> {None, map_of (reservations l) i}
    \<and> map_of (scopes l') k \<in> {None, map_of (scopes l) k}"
proof (cases rule: reserve_cases [of h q clock l])
  case (refused d' l'')
  then have "shrinks l l'" using assms by simp
  then show ?thesis unfolding shrinks_def by blast
next
  case (admitted l1 durable l2 l3)
  then show ?thesis using assms by simp
qed

lemma refusal_books_nothing_witness:
  "map_of (reservations (snd (reserve toy_hash sample_request 5 one_reserved))) ''x''
     \<in> {None, map_of (reservations one_reserved) ''x''}
   \<and> map_of (scopes (snd (reserve toy_hash sample_request 5 one_reserved))) (Root, toy_hash ''root'' ''r'')
     \<in> {None, map_of (scopes one_reserved) (Root, toy_hash ''root'' ''r'')}"
  by (rule refusal_books_nothing [where h = toy_hash and q = sample_request and clock = 5
        and d = "DuplicateSendId ''s1''"]) code_simp

fun integrity_denial :: "spend_denial \<Rightarrow> bool" where
  "integrity_denial (DuplicateSendId i) = True"
| "integrity_denial (JournalCorrupt n) = True"
| "integrity_denial (CapacityExhausted s) = True"
| "integrity_denial _ = False"

lemma make_room_denial: "fst (make_room refs t l) = Some d \<Longrightarrow> integrity_denial d"
  by (auto simp: make_room_def Let_def split_beta split: if_splits)

lemma first_error_already_sent: "already_sent q \<Longrightarrow> first_error (limit_denial q l) refs = None"
  by (simp add: first_error_None limit_denial_def)

text \<open>
  A send that already left is never dropped from the books for a reason that cannot stop
  it: recording one fails only for an id already known, for a journal whose totals cannot be
  proven, or when nothing can be evicted; never for a ceiling, a failed write or an unresolved
  pool history.
\<close>

theorem already_sent_always_booked:
  assumes "already_sent q" "reserve h q clock l = (Refused d, l')"
  shows "integrity_denial d"
proof (rule ccontr)
  assume no: "\<not> integrity_denial d"
  let ?mr = "make_room (refs_for h (req_scopes q)) (nullish (req_at q) clock) (snd (flush_pending l))"
  have "\<not> integrity_denial x \<Longrightarrow> fst ?mr \<noteq> Some x" for x using make_room_denial by blast
  with no assms show False
    by (auto simp: reserve_def Let_def split_beta first_error_already_sent
        split: if_splits option.splits)
qed

lemma already_sent_always_booked_witness: "integrity_denial (DuplicateSendId ''s1'')"
  by (rule already_sent_always_booked [where q = "sample_request\<lparr>already_sent := True\<rparr>" and h = toy_hash
        and clock = 5 and l = one_reserved
        and l' = "snd (reserve toy_hash (sample_request\<lparr>already_sent := True\<rparr>) 5 one_reserved)"]) code_simp+


section \<open>Outcomes\<close>

text \<open>
  Every outcome moves the spend of each target by the right amount: a settle replaces the
  reservation by the real usage, a lost usage frame keeps the whole reservation as spend, and
  an abandoned send gives it back. Scopes the send does not target keep theirs.
\<close>

theorem outcomes_conserve_spend:
  assumes "hash_ok h" "ledger_reachable h l"
    and "map_of (reservations l) (h ''send'' i) = Some r" "is_live (status r)"
  shows "fst (settle h i inp out t l) \<and> spent (scope_at (scopes (snd (settle h i inp out t l))) k) =
      spent (scope_at (scopes l) k) + (if k \<in> set (targets r) then usage_tokens inp out - tokens r else 0)
    \<and> fst (mark_lost h i t l) \<and> spent (scope_at (scopes (snd (mark_lost h i t l))) k)
      = spent (scope_at (scopes l) k)
    \<and> (if fst (abandon h i t l)
       then spent (scope_at (scopes (snd (abandon h i t l))) k) =
         spent (scope_at (scopes l) k) - (if k \<in> set (targets r) then tokens r else 0)
       else scopes (snd (abandon h i t l)) = scopes l)"
proof -
  let ?send = "h ''send'' i"
  have ok: "books_ok (scopes l, reservations l)" using reachable_books assms(1,2) by blast
  note sp = spent_book_resolve [OF ok assms(3,4)]
  have br: "fst (book_resolve ?send o' n t (books_of l)) =
      book_targets (resolve_scope o' (tokens r) n t) (targets r) (scopes l)" for o' n
    using assms(3,4) by (simp add: books_of_def book_resolve_def)
  note fin = books_finish_send [OF assms(3,4)]
  have ab: "if fst (abandon h i t l)
      then books_of (snd (abandon h i t l)) = book_resolve ?send Abandoned 0 t (books_of l)
      else books_of (snd (abandon h i t l)) = books_of l"
  proof -
    have p: "books_of (x\<lparr>seeds := y\<rparr>) = books_of x" for x :: ledger and y by (simp add: books_of_def)
    show ?thesis
      using assms(3) by (auto simp: abandon_def Let_def split_beta books_apply_resolve p split: option.splits)
  qed
  have s: "fst (settle h i inp out t l)" "scopes (snd (settle h i inp out t l)) =
      book_targets (resolve_scope Settled (tokens r) (usage_tokens inp out) t) (targets r) (scopes l)"
    using fin br by (simp_all add: settle_def Let_def flip: books_of_simps)
  have m: "fst (mark_lost h i t l)" "scopes (snd (mark_lost h i t l)) =
      book_targets (resolve_scope Lost (tokens r) 0 t) (targets r) (scopes l)"
    using fin br by (simp_all add: mark_lost_def Let_def flip: books_of_simps)
  have a: "scopes (snd (abandon h i t l)) = (if fst (abandon h i t l)
      then book_targets (resolve_scope Abandoned (tokens r) 0 t) (targets r) (scopes l) else scopes l)"
    using ab br by (simp flip: books_of_simps split: if_splits)
  show ?thesis
    by (simp add: s m a sp)
qed

lemma outcomes_conserve_spend_witness:
  "fst (settle toy_hash ''s1'' (Fin 10) (Fin 7) 3 one_reserved)
   \<and> spent (scope_at (scopes (snd (settle toy_hash ''s1'' (Fin 10) (Fin 7) 3 one_reserved)))
       (Root, toy_hash ''root'' ''r'')) =
      spent (scope_at (scopes one_reserved) (Root, toy_hash ''root'' ''r'')) +
      (if (Root, toy_hash ''root'' ''r'') \<in> set (targets (the (map_of (reservations one_reserved) (toy_hash ''send'' ''s1''))))
       then usage_tokens (Fin 10) (Fin 7)
         - tokens (the (map_of (reservations one_reserved) (toy_hash ''send'' ''s1''))) else 0)
    \<and> fst (mark_lost toy_hash ''s1'' 3 one_reserved)
    \<and> spent (scope_at (scopes (snd (mark_lost toy_hash ''s1'' 3 one_reserved))) (Root, toy_hash ''root'' ''r''))
      = spent (scope_at (scopes one_reserved) (Root, toy_hash ''root'' ''r''))
    \<and> (if fst (abandon toy_hash ''s1'' 3 one_reserved)
       then spent (scope_at (scopes (snd (abandon toy_hash ''s1'' 3 one_reserved))) (Root, toy_hash ''root'' ''r'')) =
         spent (scope_at (scopes one_reserved) (Root, toy_hash ''root'' ''r'')) -
         (if (Root, toy_hash ''root'' ''r'') \<in> set (targets (the (map_of (reservations one_reserved) (toy_hash ''send'' ''s1''))))
          then tokens (the (map_of (reservations one_reserved) (toy_hash ''send'' ''s1''))) else 0)
       else scopes (snd (abandon toy_hash ''s1'' 3 one_reserved)) = scopes one_reserved)"
  by (rule outcomes_conserve_spend [OF hash_ok_toy reachable_one]) code_simp+

text \<open>
  One outcome per send: after a settle took effect, settling, losing or abandoning the
  same send again is answered no and leaves the ledger exactly as it is.
\<close>

theorem resolved_once:
  assumes "fst (settle h i inp out t l)"
  defines "l1 \<equiv> snd (settle h i inp out t l)"
  shows "settle h i inp' out' t' l1 = (False, l1) \<and> mark_lost h i t' l1 = (False, l1)
    \<and> abandon h i t' l1 = (False, l1) \<and> mark_dispatched h i t' l1 = (False, l1)"
proof -
  obtain r where r: "map_of (reservations l) (h ''send'' i) = Some r" "is_live (status r)"
    using assms(1) by (auto simp: settle_def finish_send_def Let_def split: option.splits if_splits)
  have "books_of l1 = book_resolve (h ''send'' i) Settled (usage_tokens inp out) t (books_of l)"
    using books_finish_send [OF r] by (simp add: l1_def settle_def Let_def)
  then have "reservations l1 = snd (book_resolve (h ''send'' i) Settled (usage_tokens inp out) t (books_of l))"
    by (metis books_of_simps(2))
  then have "map_of (reservations l1) (h ''send'' i) = Some (r\<lparr>status := Settled, resolved_at := t\<rparr>)"
    using r by (simp add: book_resolve_def books_of_def)
  then show ?thesis
    by (simp add: settle_def mark_lost_def abandon_def mark_dispatched_def finish_send_def is_live_def)
qed

lemma resolved_once_witness:
  "settle toy_hash ''s1'' (Fin 9) (Fin 9) 7 (snd (settle toy_hash ''s1'' (Fin 10) (Fin 7) 3 one_reserved))
     = (False, snd (settle toy_hash ''s1'' (Fin 10) (Fin 7) 3 one_reserved))
   \<and> mark_lost toy_hash ''s1'' 7 (snd (settle toy_hash ''s1'' (Fin 10) (Fin 7) 3 one_reserved))
     = (False, snd (settle toy_hash ''s1'' (Fin 10) (Fin 7) 3 one_reserved))
   \<and> abandon toy_hash ''s1'' 7 (snd (settle toy_hash ''s1'' (Fin 10) (Fin 7) 3 one_reserved))
     = (False, snd (settle toy_hash ''s1'' (Fin 10) (Fin 7) 3 one_reserved))
   \<and> mark_dispatched toy_hash ''s1'' 7 (snd (settle toy_hash ''s1'' (Fin 10) (Fin 7) 3 one_reserved))
     = (False, snd (settle toy_hash ''s1'' (Fin 10) (Fin 7) 3 one_reserved))"
  by (rule resolved_once) code_simp

end
