(* ===== verification/Workflow_Properties.thy ===== *)
theory Workflow_Properties
  imports Workflow_Budget Spend_Properties
begin

text \<open>
  What the workflow budget promises, over every state its operations can reach while the spend
  ledger moves under it: exact concurrency counters, the bounds of a constant policy, the ring
  as a refinement of the log of sends, no laundering of a busy or spent root, refusals that
  take nothing, and leases that end their send once.
\<close>

section \<open>The world: the tables, the ledger and the leases handed out\<close>

record workflow_world =
  ww_budget :: workflow
  ww_ledger :: "ledger option"
  ww_leases :: "(workflow_lane \<times> workflow_lease) list"

text \<open>
  \<open>ok\<close> says which policies the callers pass. The ledger may move by any other client between
  two steps. A lease is released through its own closure, any number of times.
\<close>

inductive workflow_reachable ::
    "alias_hash \<Rightarrow> (workflow_policy \<Rightarrow> bool) \<Rightarrow> workflow_world \<Rightarrow> bool" for h ok where
  start: "workflow_reachable h ok \<lparr>ww_budget = empty_workflow, ww_ledger = lo, ww_leases = []\<rparr>"
| admit: "workflow_reachable h ok w \<Longrightarrow> ok p \<Longrightarrow>
    admit_workflow_turn h rid lane p child now sp (ww_ledger w) (ww_budget w) = (d, lo, b) \<Longrightarrow>
    workflow_reachable h ok \<lparr>ww_budget = b, ww_ledger = lo,
      ww_leases = ww_leases w @ (case d of Some (Admitted le) \<Rightarrow> [(lane, le)] | _ \<Rightarrow> [])\<rparr>"
| release: "workflow_reachable h ok w \<Longrightarrow> i < length (ww_leases w) \<Longrightarrow>
    lease_release h (snd (ww_leases w ! i)) t (ww_ledger w) (ww_budget w) = (le, lo, b) \<Longrightarrow>
    workflow_reachable h ok \<lparr>ww_budget = b, ww_ledger = lo,
      ww_leases = (ww_leases w)[i := (fst (ww_leases w ! i), le)]\<rparr>"
| charge: "workflow_reachable h ok w \<Longrightarrow>
    workflow_reachable h ok (w\<lparr>ww_budget := charge_workflow_sends rid n now (ww_budget w)\<rparr>)"
| clear: "workflow_reachable h ok w \<Longrightarrow>
    workflow_reachable h ok (w\<lparr>ww_budget := snd (clear_workflow_budget_for_root r p now (ww_budget w))\<rparr>)"
| note_refusal: "workflow_reachable h ok w \<Longrightarrow>
    workflow_reachable h ok (w\<lparr>ww_budget := record_workflow_refusal_event rid d now x (ww_budget w)\<rparr>)"
| look: "workflow_reachable h ok w \<Longrightarrow>
    workflow_reachable h ok (w\<lparr>ww_budget := snd (list_tracked_workflow_roots n p now (ww_budget w))\<rparr>)"
| look_one: "workflow_reachable h ok w \<Longrightarrow>
    workflow_reachable h ok (w\<lparr>ww_budget := snd (workflow_budget_snapshot r p now (ww_budget w))\<rparr>)"
| ledger_moved: "workflow_reachable h ok w \<Longrightarrow> workflow_reachable h ok (w\<lparr>ww_ledger := lo\<rparr>)"

definition held :: "(workflow_lane \<times> workflow_lease) list \<Rightarrow> string \<Rightarrow> int" where
  "held ls r = int (length (filter (\<lambda>(lane, le). lease_root le = r \<and> \<not> lease_released le) ls))"

definition active_of :: "workflow \<Rightarrow> string \<Rightarrow> int" where
  "active_of b r = (case map_of (wf_roots b) r of None \<Rightarrow> 0 | Some st \<Rightarrow> active st)"

lemma held_nonneg: "0 \<le> held ls r"
  by (simp add: held_def)

lemma held_snoc: "held (ls @ [(lane, le)]) r =
  held ls r + (if lease_root le = r \<and> \<not> lease_released le then 1 else 0)"
  by (simp add: held_def)

lemma held_pos:
  assumes "i < length ls" "\<not> lease_released (snd (ls ! i))"
  shows "0 < held ls (lease_root (snd (ls ! i)))"
proof -
  have "ls ! i \<in> set (filter (\<lambda>(lane, le). lease_root le = lease_root (snd (ls ! i)) \<and> \<not> lease_released le) ls)"
    using assms by (simp add: split_beta)
  then show ?thesis unfolding held_def using length_pos_if_in_set by fastforce
qed

lemma held_update:
  assumes "i < length ls"
  shows "held (ls[i := (lane, le')]) r =
    held ls r - (if lease_root (snd (ls ! i)) = r \<and> \<not> lease_released (snd (ls ! i)) then 1 else 0)
      + (if lease_root le' = r \<and> \<not> lease_released le' then 1 else 0)"
proof -
  obtain a b x where "ls = a @ x # b" "length a = i"
    using assms id_take_nth_drop [of i ls] by (metis length_take less_imp_le min.absorb2)
  then show ?thesis
    by (cases x) (auto simp: held_def nth_append list_update_append)
qed


section \<open>What each operation does to the counters\<close>

lemma active_put [simp]: "active_of (put_root r st b) r' = (if r' = r then active st else active_of b r')"
  by (simp add: active_of_def put_root_def)

lemma active_push [simp]: "active_of (push_event e b) r = active_of b r"
  by (simp add: active_of_def push_event_def)

lemma roots_put: "wf_roots (put_root r st b) = AList.update r st (wf_roots b)"
  by (simp add: put_root_def)

lemma roots_push [simp]: "wf_roots (push_event e b) = wf_roots b"
  by (simp add: push_event_def)

lemma events_put [simp]: "wf_events (put_root r st b) = wf_events b"
  by (simp add: put_root_def)

lemma active_root: "map_of (wf_roots b) r = Some st \<Longrightarrow> active st = active_of b r"
  by (simp add: active_of_def)

lemma active_counts [simp]: "active_of (snd (read_counts r now b)) r' = active_of b r'"
  by (auto simp: read_counts_def Let_def split_beta active_root split: option.splits)

lemma active_refuse [simp]: "active_of (snd (refuse r d x now b)) r' = active_of b r'"
  by (simp add: refuse_def Let_def split_beta)

lemma active_note [simp]: "active_of (record_workflow_refusal_event rid d now x b) r' = active_of b r'"
  by (auto simp: record_workflow_refusal_event_def Let_def split_beta split: option.splits)

lemma active_snapshot [simp]: "active_of (snd (workflow_budget_snapshot r p now b)) r' = active_of b r'"
  by (auto simp: workflow_budget_snapshot_def Let_def split_beta active_root split: option.splits)

lemma active_snapshots [simp]: "active_of (snd (snapshots rs p now b)) r' = active_of b r'"
  by (induction rs arbitrary: b) (simp_all add: Let_def split_beta)

lemma active_list [simp]: "active_of (snd (list_tracked_workflow_roots n p now b)) r' = active_of b r'"
  by (simp add: list_tracked_workflow_roots_def)

lemma active_charge [simp]: "active_of (charge_workflow_sends rid n now b) r' = active_of b r'"
  by (auto simp: charge_workflow_sends_def active_root split: option.splits)

lemma active_clear [simp]: "active_of (snd (clear_workflow_budget_for_root r p now b)) r' = active_of b r'"
  by (auto simp: clear_workflow_budget_for_root_def Let_def split_beta active_root split: option.splits)

lemma oldest_root_ok:
  "oldest_root ok m best = Some r \<Longrightarrow>
   (\<exists>st. (r, st) \<in> set m \<and> ok r st) \<or> map_option fst best = Some r"
proof (induction m arbitrary: best)
  case Nil
  then show ?case by simp
next
  case (Cons e m)
  obtain k st where e: "e = (k, st)" by fastforce
  define best' where "best' = (if ok k st \<and> (case best of None \<Rightarrow> True
      | Some (b, seen) \<Rightarrow> last_seen_ms st < seen) then Some (k, last_seen_ms st) else best)"
  have "oldest_root ok m best' = Some r" using Cons.prems by (simp add: e best'_def)
  from Cons.IH [OF this] e show ?case
    by (auto simp: best'_def split: if_splits)
qed

lemma evicted:
  assumes "jm_wf (wf_roots b)" "evict_one_root h p lo now b = (True, b')"
  obtains r st where "map_of (wf_roots b) r = Some st" "evictable_root h p lo now r st"
    "b' = b\<lparr>wf_roots := AList.delete r (wf_roots b)\<rparr>"
proof -
  obtain r where r: "oldest_root (evictable_root h p lo now) (wf_roots b) None = Some r"
  proof (cases "oldest_root (evictable_root h p lo now) (wf_roots b) None")
    case None
    with assms(2) show thesis by (simp add: evict_one_root_def)
  qed
  have b': "b' = b\<lparr>wf_roots := AList.delete r (wf_roots b)\<rparr>"
    using assms(2) by (simp add: evict_one_root_def r)
  obtain st where st: "(r, st) \<in> set (wf_roots b)" "evictable_root h p lo now r st"
    using oldest_root_ok [OF r] by (elim disjE exE conjE) simp_all
  show thesis
    using that [OF _ st(2) b'] jm_in_iff [OF assms(1)] st(1) by blast
qed

text \<open>An eviction never changes what a root in use holds.\<close>

lemma active_evict:
  assumes "jm_wf (wf_roots b)" "\<And>r. 0 \<le> active_of b r" "evict_one_root h p lo now b = (True, b')"
  shows "active_of b' r = active_of b r"
proof -
  obtain r' st where *: "map_of (wf_roots b) r' = Some st" "evictable_root h p lo now r' st"
    "b' = b\<lparr>wf_roots := AList.delete r' (wf_roots b)\<rparr>"
    using evicted [OF assms(1,3)] .
  from *(1,2) assms(2) [of r'] have "active_of b r' = 0"
    by (simp add: evictable_root_def active_of_def)
  with * show ?thesis by (auto simp: active_of_def)
qed

lemma enter_root_cases:
  assumes "enter_root h p lo now r b = (so, b1)"
  obtains (known) st where "map_of (wf_roots b) r = Some st" "so = Some st" "b1 = b"
  | (full) "map_of (wf_roots b) r = None" "so = None" "b1 = b"
      "int (length (wf_roots b)) \<ge> max_tracked_roots p" "\<not> fst (evict_one_root h p lo now b)"
  | (made) b0 where "map_of (wf_roots b) r = None" "so = Some (new_workflow_state now p)"
      "b1 = put_root r (new_workflow_state now p) b0"
      "if int (length (wf_roots b)) \<ge> max_tracked_roots p
       then evict_one_root h p lo now b = (True, b0) else b0 = b"
proof -
  have stay: "\<not> fst (evict_one_root h p lo now b) \<Longrightarrow> snd (evict_one_root h p lo now b) = b"
    by (simp add: evict_one_root_def split: option.splits)
  show thesis
    using assms that stay
    by (auto simp: enter_root_def Let_def split_beta split: option.splits if_splits) (metis prod.collapse)+
qed

text \<open>After entering, the root is tracked with its old count, everything else is as it was.\<close>

lemma active_enter:
  assumes "jm_wf (wf_roots b)" "\<And>r. 0 \<le> active_of b r" "enter_root h p lo now r b = (so, b1)"
  shows "active_of b1 r' = active_of b r' \<and> jm_wf (wf_roots b1)
    \<and> (case so of None \<Rightarrow> True | Some st \<Rightarrow> map_of (wf_roots b1) r = Some st)"
  using assms(3)
proof (cases rule: enter_root_cases)
  case (made b0)
  have b0: "active_of b0 x = active_of b x" "jm_wf (wf_roots b0)" for x
  proof -
    show "active_of b0 x = active_of b x"
      using made(4) active_evict [OF assms(1,2)] by (auto split: if_splits)
    show "jm_wf (wf_roots b0)"
      using made(4) assms(1) by (auto split: if_splits elim!: evicted [OF assms(1)])
  qed
  have "active_of b r = 0" using made(1) by (simp add: active_of_def)
  with made b0 show ?thesis by (auto simp: new_workflow_state_def roots_put)
qed (use assms(1) in auto)

lemma count_denial_frame:
  "active (snd (count_denial p lane child now st)) = active st
   \<and> lifetime_sends (snd (count_denial p lane child now st)) = lifetime_sends st
   \<and> send_slot_count (snd (count_denial p lane child now st)) = send_slot_count st
   \<and> send_slot_at (snd (count_denial p lane child now st)) = send_slot_at st
   \<and> window_ms (snd (count_denial p lane child now st)) = window_ms st
   \<and> last_seen_ms (snd (count_denial p lane child now st)) = last_seen_ms st"
  by (auto simp: count_denial_def Let_def split_beta split: option.splits)

text \<open>One admission, seen from outside: the three ways it can end.\<close>

lemma admit_root_cases:
  assumes "admit_root h r lane p child now sp lo b = (d, lo', b')"
  obtains (full) b1 where "enter_root h p lo now r b = (None, b1)"
      "d = Denied TrackingExhausted r None" "lo' = lo"
      "b' = snd (refuse r TrackingExhausted None now b1)"
  | (refused) st b1 st1 reason x where "enter_root h p lo now r b = (Some st, b1)"
      "st1 = snd (count_denial p lane child now (st\<lparr>last_seen_ms := now\<rparr>))"
      "d = Denied reason r x" "b' = snd (refuse r reason x now (put_root r st1 b1))"
      "if lo' = lo then True else token_gate h r now sp lo = (Some (reason, x), lo')"
  | (admitted) st b1 st1 where "enter_root h p lo now r b = (Some st, b1)"
      "count_denial p lane child now (st\<lparr>last_seen_ms := now\<rparr>) = (None, st1)"
      "token_gate h r now sp lo = (None, lo')"
      "d = Admitted \<lparr>lease_root = r, lease_send = (if lo = None then None else map_option ws_send sp),
                      lease_released = False\<rparr>"
      "b' = put_root r (st1\<lparr>active := active st1 + 1,
           children := (case child of None \<Rightarrow> children st1 | Some c \<Rightarrow> AList.update c now (children st1))\<rparr>) b1"
proof -
  obtain so b1 where e: "enter_root h p lo now r b = (so, b1)" by fastforce
  have fr: "fst (refuse r q x now c) = Denied q r x" for q x c
    by (simp add: refuse_def Let_def split_beta)
  show thesis
  proof (cases so)
    case None
    show thesis
      using assms None e fr by (intro full) (auto simp: admit_root_def Let_def split_beta)
  next
    case (Some st)
    obtain cd st1 where c: "count_denial p lane child now (st\<lparr>last_seen_ms := now\<rparr>) = (cd, st1)"
      by fastforce
    obtain tg lt where g: "token_gate h r now sp lo = (tg, lt)" by fastforce
    show thesis
    proof (cases cd)
      case (Some reason)
      with assms \<open>so = Some st\<close> e c fr show thesis
        by (intro refused) (auto simp: admit_root_def Let_def split_beta)
    next
      case None
      show thesis
      proof (cases tg)
        case (Some y)
        with assms \<open>so = Some st\<close> None e c g fr show thesis
          by (cases y) (auto simp: admit_root_def Let_def split_beta intro!: refused)
      next
        case gone: None
        with assms \<open>so = Some st\<close> None e c g show thesis
          by (cases child) (auto simp: admit_root_def Let_def intro!: admitted)
      qed
    qed
  qed
qed

lemma roots_wf_put [simp]: "jm_wf (wf_roots b) \<Longrightarrow> jm_wf (wf_roots (put_root r st b))"
  by (simp add: roots_put)

lemma roots_wf_counts [simp]: "jm_wf (wf_roots b) \<Longrightarrow> jm_wf (wf_roots (snd (read_counts r now b)))"
  by (auto simp: read_counts_def Let_def split_beta split: option.splits)

lemma roots_wf_refuse [simp]: "jm_wf (wf_roots b) \<Longrightarrow> jm_wf (wf_roots (snd (refuse r d x now b)))"
  by (simp add: refuse_def Let_def split_beta)

lemma roots_wf_note [simp]:
  "jm_wf (wf_roots b) \<Longrightarrow> jm_wf (wf_roots (record_workflow_refusal_event rid d now x b))"
  by (auto simp: record_workflow_refusal_event_def Let_def split_beta split: option.splits)

lemma roots_wf_snapshot [simp]:
  "jm_wf (wf_roots b) \<Longrightarrow> jm_wf (wf_roots (snd (workflow_budget_snapshot r p now b)))"
  by (auto simp: workflow_budget_snapshot_def Let_def split_beta split: option.splits)

lemma roots_wf_snapshots: "jm_wf (wf_roots b) \<Longrightarrow> jm_wf (wf_roots (snd (snapshots rs p now b)))"
  by (induction rs arbitrary: b) (simp_all add: Let_def split_beta)

lemma roots_wf_list [simp]:
  "jm_wf (wf_roots b) \<Longrightarrow> jm_wf (wf_roots (snd (list_tracked_workflow_roots n p now b)))"
  by (simp add: list_tracked_workflow_roots_def roots_wf_snapshots)

lemma roots_wf_charge [simp]: "jm_wf (wf_roots b) \<Longrightarrow> jm_wf (wf_roots (charge_workflow_sends rid n now b))"
  by (auto simp: charge_workflow_sends_def split: option.splits)

lemma roots_wf_clear [simp]:
  "jm_wf (wf_roots b) \<Longrightarrow> jm_wf (wf_roots (snd (clear_workflow_budget_for_root r p now b)))"
  by (auto simp: clear_workflow_budget_for_root_def Let_def split_beta split: option.splits)

lemma admit_counts:
  assumes "jm_wf (wf_roots b)" "\<And>r. 0 \<le> active_of b r"
    and "admit_root h r lane p child now sp lo b = (d, lo', b')"
  shows "jm_wf (wf_roots b') \<and> active_of b' r' =
    active_of b r' + (case d of Admitted le \<Rightarrow> if r' = r then 1 else 0 | Denied _ _ _ \<Rightarrow> 0)"
  using assms(3)
proof (cases rule: admit_root_cases)
  case (full b1)
  with active_enter [OF assms(1,2) full(1)] show ?thesis by simp
next
  case (refused st b1 st1 reason x)
  have "active st1 = active_of b1 r"
    using refused(2) active_enter [OF assms(1,2) refused(1)]
    by (auto simp: count_denial_frame active_of_def)
  with refused(3,4) active_enter [OF assms(1,2) refused(1)] show ?thesis by auto
next
  case (admitted st b1 st1)
  have "active st1 = active_of b1 r"
    using count_denial_frame [of p lane child now "st\<lparr>last_seen_ms := now\<rparr>"] admitted(2)
      active_enter [OF assms(1,2) admitted(1)]
    by (auto simp: active_of_def)
  with admitted(4,5) active_enter [OF assms(1,2) admitted(1)] show ?thesis by auto
qed

lemma release_counts:
  assumes "lease_release h le t lo b = (le', lo', b')"
  shows "active_of b' r = (if r = lease_root le \<and> \<not> lease_released le \<and> jm_has (wf_roots b) r
      then max 0 (active_of b r - 1) else active_of b r)
    \<and> lease_root le' = lease_root le \<and> lease_released le' \<and> (jm_wf (wf_roots b) \<longrightarrow> jm_wf (wf_roots b'))"
proof (cases "lease_released le")
  case True
  with assms show ?thesis by (simp add: lease_release_def)
next
  case False
  define b1 where "b1 = (case map_of (wf_roots b) (lease_root le) of None \<Rightarrow> b
    | Some st \<Rightarrow> put_root (lease_root le) (st\<lparr>active := max 0 (active st - 1), last_seen_ms := t\<rparr>) b)"
  have "b' = b1" "le' = le\<lparr>lease_released := True\<rparr>"
    using assms False by (simp_all add: lease_release_def b1_def)
  with False show ?thesis
    by (cases "map_of (wf_roots b) (lease_root le)") (auto simp: b1_def active_root)
qed

lemma world_counts:
  assumes "workflow_reachable h ok w"
  shows "jm_wf (wf_roots (ww_budget w)) \<and> (\<forall>r. active_of (ww_budget w) r = held (ww_leases w) r)"
  using assms
proof induction
  case (start lo)
  then show ?case by (simp add: empty_workflow_def active_of_def held_def)
next
  case (admit w p rid lane child now sp d lo b)
  have nn: "\<And>r. 0 \<le> active_of (ww_budget w) r" using admit.IH held_nonneg by simp
  show ?case
  proof (cases "given rid")
    case None
    with admit show ?thesis by (auto simp: admit_workflow_turn_def)
  next
    case (Some r)
    with admit.hyps(3) obtain d' where d': "d = Some d'"
      "admit_root h r lane p child now sp (ww_ledger w) (ww_budget w) = (d', lo, b)"
      by (cases "admit_root h r lane p child now sp (ww_ledger w) (ww_budget w)")
        (auto simp: admit_workflow_turn_def)
    have le: "case d' of Admitted le \<Rightarrow> lease_root le = r \<and> \<not> lease_released le | Denied _ _ _ \<Rightarrow> True"
      using d'(2) by (cases rule: admit_root_cases) auto
    show ?thesis
      using admit_counts [OF conjunct1 [OF admit.IH] nn d'(2)] admit.IH le d'(1)
      by (cases d') (auto simp: held_snoc)
  qed
next
  case (release w i t le lo b)
  note c = release_counts [OF release.hyps(3)]
  show ?case
  proof (intro conjI allI)
    show "jm_wf (wf_roots (ww_budget \<lparr>ww_budget = b, ww_ledger = lo,
        ww_leases = (ww_leases w)[i := (fst (ww_leases w ! i), le)]\<rparr>))"
      using c release.IH by simp
    fix r
    have "jm_has (wf_roots (ww_budget w)) (lease_root (snd (ww_leases w ! i)))
        \<and> 0 < active_of (ww_budget w) (lease_root (snd (ww_leases w ! i)))"
      if "\<not> lease_released (snd (ww_leases w ! i))"
      using held_pos [OF release.hyps(2) that] release.IH
      by (auto simp: active_of_def split: option.splits)
    then show "active_of (ww_budget \<lparr>ww_budget = b, ww_ledger = lo,
        ww_leases = (ww_leases w)[i := (fst (ww_leases w ! i), le)]\<rparr>) r =
      held (ww_leases \<lparr>ww_budget = b, ww_ledger = lo,
        ww_leases = (ww_leases w)[i := (fst (ww_leases w ! i), le)]\<rparr>) r"
      using c [of r] release.IH release.hyps(2)
      by (cases "lease_root (snd (ww_leases w ! i)) = r \<and> \<not> lease_released (snd (ww_leases w ! i))")
        (auto simp: held_update)
  qed
qed auto


section \<open>Exact counters\<close>

text \<open>
  C10. A root's active counter is exact: in every reachable state, whatever the callers and the
  ledger did, it is the number of leases handed out under that root and not yet released. A
  root that still holds a lease is tracked, so an eviction never drops a turn in flight.
\<close>

theorem active_counts_leases:
  assumes "workflow_reachable h ok w"
  shows "active_of (ww_budget w) r = held (ww_leases w) r
    \<and> (if 0 < held (ww_leases w) r then jm_has (wf_roots (ww_budget w)) r else True)"
proof -
  have "active_of (ww_budget w) r = held (ww_leases w) r"
    using world_counts [OF assms] by blast
  then show ?thesis by (auto simp: active_of_def split: option.splits)
qed

definition first_turn :: "workflow_decision option \<times> ledger option \<times> workflow" where
  "first_turn = admit_workflow_turn toy_hash (Some ''r'') Worker default_workflow_budget_policy
     (Some ''c'') 5
     (Some \<lparr>ws_send = ''s1'', ws_identity = None, ws_pool = Some ''p'', ws_input = Fin 60, ws_output = Fin 40\<rparr>)
     (Some empty_ledger) empty_workflow"

definition first_lease :: workflow_lease where
  "first_lease = \<lparr>lease_root = ''r'', lease_send = Some ''s1'', lease_released = False\<rparr>"

definition one_turn :: workflow_world where
  "one_turn = \<lparr>ww_budget = snd (snd first_turn), ww_ledger = fst (snd first_turn),
     ww_leases = [(Worker, first_lease)]\<rparr>"

lemma first_turn_admitted: "fst first_turn = Some (Admitted first_lease)"
  by code_simp

lemma reachable_one_turn: "workflow_reachable toy_hash (\<lambda>p. p = default_workflow_budget_policy) one_turn"
proof -
  have "workflow_reachable toy_hash (\<lambda>p. p = default_workflow_budget_policy)
      \<lparr>ww_budget = snd (snd first_turn), ww_ledger = fst (snd first_turn),
       ww_leases = [] @ (case fst first_turn of Some (Admitted le) \<Rightarrow> [(Worker, le)] | _ \<Rightarrow> [])\<rparr>"
    using workflow_reachable.admit [where ok = "\<lambda>p. p = default_workflow_budget_policy",
        OF workflow_reachable.start [of _ _ "Some empty_ledger"], where p = default_workflow_budget_policy
        and d = "fst first_turn" and lo = "fst (snd first_turn)" and b = "snd (snd first_turn)"]
    by (simp add: first_turn_def)
  then show ?thesis by (simp add: one_turn_def first_turn_admitted)
qed

lemma active_counts_leases_witness:
  "active_of (ww_budget one_turn) ''r'' = held (ww_leases one_turn) ''r''
    \<and> (if 0 < held (ww_leases one_turn) ''r'' then jm_has (wf_roots (ww_budget one_turn)) ''r'' else True)"
  by (rule active_counts_leases [OF reachable_one_turn])


section \<open>The bounds of one policy\<close>

definition fits :: "workflow_policy \<Rightarrow> workflow \<Rightarrow> bool" where
  "fits p b \<longleftrightarrow> jm_wf (wf_roots b) \<and> int (length (wf_roots b)) \<le> max 0 (max_tracked_roots p)
     \<and> (\<forall>r st. map_of (wf_roots b) r = Some st \<longrightarrow>
          int (length (children st)) \<le> max 0 (max_distinct_children p))"

lemma within_put:
  assumes "fits p b" "jm_has (wf_roots b) r" "int (length (children st)) \<le> max 0 (max_distinct_children p)"
  shows "fits p (put_root r st b)"
  using assms by (simp add: fits_def roots_put length_update_present)

lemma within_push [simp]: "fits p (push_event e b) = fits p b"
  by (simp add: fits_def)

lemma within_kids:
  "fits p b \<Longrightarrow> map_of (wf_roots b) r = Some st \<Longrightarrow>
   int (length (children st)) \<le> max 0 (max_distinct_children p)"
  by (auto simp: fits_def)

lemma pruned_length: "length (children (snd (windowed_children st now))) \<le> length (children st)"
  by (simp add: windowed_children_def Let_def)

lemma within_pruned:
  assumes "fits p b" "map_of (wf_roots b) r = Some st"
  shows "fits p (put_root r (snd (windowed_children st now)) b)"
proof (rule within_put [OF assms(1)])
  show "int (length (children (snd (windowed_children st now)))) \<le> max 0 (max_distinct_children p)"
    using within_kids [OF assms] pruned_length [of st now] by linarith
qed (use assms(2) in simp)

lemma within_counts: "fits p b \<Longrightarrow> fits p (snd (read_counts r now b))"
  by (cases "map_of (wf_roots b) r") (simp_all add: read_counts_def Let_def split_beta within_pruned)

lemma within_refuse: "fits p b \<Longrightarrow> fits p (snd (refuse r d x now b))"
  by (simp add: refuse_def Let_def split_beta within_counts)

lemma within_note: "fits p b \<Longrightarrow> fits p (record_workflow_refusal_event rid d now x b)"
  by (cases rid) (simp_all add: record_workflow_refusal_event_def Let_def split_beta within_counts)

lemma within_snapshot: "fits p b \<Longrightarrow> fits p (snd (workflow_budget_snapshot r q now b))"
  by (cases "map_of (wf_roots b) r")
    (simp_all add: workflow_budget_snapshot_def Let_def split_beta within_pruned)

lemma within_snapshots: "fits p b \<Longrightarrow> fits p (snd (snapshots rs q now b))"
  by (induction rs arbitrary: b) (simp_all add: Let_def split_beta within_snapshot)

lemma within_list: "fits p b \<Longrightarrow> fits p (snd (list_tracked_workflow_roots n q now b))"
  by (simp add: list_tracked_workflow_roots_def within_snapshots)

lemma within_charge: "fits p b \<Longrightarrow> fits p (charge_workflow_sends rid n now b)"
  by (auto simp: charge_workflow_sends_def intro!: within_put dest: within_kids split: option.splits)

lemma within_clear:
  assumes "fits p b"
  shows "fits p (snd (clear_workflow_budget_for_root r q now b))"
proof (cases "map_of (wf_roots b) r")
  case None
  with assms show ?thesis by (simp add: clear_workflow_budget_for_root_def)
next
  case (Some st)
  then have "jm_has (wf_roots (snd (workflow_budget_snapshot r q now b))) r"
    by (simp add: workflow_budget_snapshot_def Let_def split_beta roots_put)
  then have "fits p (put_root r (st\<lparr>send_slot_count := replicate (length (send_slot_count st)) 0,
      send_slot_at := replicate (length (send_slot_at st)) None, children := [], last_seen_ms := now\<rparr>)
    (snd (workflow_budget_snapshot r q now b)))"
    by (intro within_put within_snapshot [OF assms]) simp_all
  with Some show ?thesis
    by (simp add: clear_workflow_budget_for_root_def Let_def split_beta)
qed

lemma within_release:
  "fits p b \<Longrightarrow> lease_release h le t lo b = (le', lo', b') \<Longrightarrow> fits p b'"
  by (cases "map_of (wf_roots b) (lease_root le)")
    (auto simp: lease_release_def intro!: within_put dest: within_kids split: if_splits)

lemma within_enter:
  assumes "fits p b" "enter_root h p lo now r b = (so, b1)"
  shows "fits p b1 \<and> (case so of None \<Rightarrow> True | Some st \<Rightarrow> map_of (wf_roots b1) r = Some st)"
  using assms(2)
proof (cases rule: enter_root_cases)
  case (made b0)
  have wf: "jm_wf (wf_roots b)" using assms(1) by (simp add: fits_def)
  have "int (length (wf_roots b0)) < max 0 (max_tracked_roots p) \<and> fits p b0
      \<and> map_of (wf_roots b0) r = None"
  proof (cases "int (length (wf_roots b)) \<ge> max_tracked_roots p")
    case True
    with made(4) have "evict_one_root h p lo now b = (True, b0)" by simp
    then obtain r' st where v: "map_of (wf_roots b) r' = Some st"
      "b0 = b\<lparr>wf_roots := AList.delete r' (wf_roots b)\<rparr>"
      using evicted [OF wf] by metis
    from length_delete_present [OF wf, of r'] v have "Suc (length (wf_roots b0)) = length (wf_roots b)"
      by simp
    with assms(1) v made(1) show ?thesis by (auto simp: fits_def split: if_splits)
  qed (use made assms(1) in \<open>simp add: fits_def\<close>)
  with made show ?thesis
    by (auto simp: fits_def roots_put length_update_absent new_workflow_state_def)
qed (use assms(1) in auto)

lemma count_denial_kids:
  assumes "count_denial p lane child now st = (d, st1)"
  shows "length (children st1) \<le> length (children st)
    \<and> (if d = None then windowed_sends st now < max_physical_sends p \<and> active st < lane_ceiling p lane
         \<and> (case child of None \<Rightarrow> True
            | Some c \<Rightarrow> jm_has (children st1) c \<or> int (length (children st1)) < max_distinct_children p)
       else True)"
proof -
  have n: "fst (windowed_children st now) = length (children (snd (windowed_children st now)))"
    by (simp add: windowed_children_def Let_def)
  show ?thesis
    using assms n pruned_length [of st now]
    by (auto simp: count_denial_def Let_def split_beta split: option.splits if_splits)
qed

lemma within_admit:
  assumes "fits p b" "admit_root h r lane p child now sp lo b = (d, lo', b')"
  shows "fits p b'"
  using assms(2)
proof (cases rule: admit_root_cases)
  case (full b1)
  with within_enter [OF assms(1) full(1)] show ?thesis by (simp add: within_refuse)
next
  case (refused st b1 st1 reason x)
  note e = within_enter [OF assms(1) refused(1)]
  have "length (children st1) \<le> length (children st)"
    using count_denial_kids [of p lane child now "st\<lparr>last_seen_ms := now\<rparr>"
        "fst (count_denial p lane child now (st\<lparr>last_seen_ms := now\<rparr>))"] refused(2)
    by simp
  with e within_kids [of p b1 r st] have "fits p (put_root r st1 b1)"
    by (intro within_put) auto
  with refused(4) show ?thesis by (simp add: within_refuse)
next
  case (admitted st b1 st1)
  note e = within_enter [OF assms(1) admitted(1)]
  note k = count_denial_kids [OF admitted(2)]
  have "length (children st1) \<le> length (children st)" using k by simp
  with e within_kids [of p b1 r st] have le: "int (length (children st1)) \<le> max 0 (max_distinct_children p)"
    by auto
  have "int (length (case child of None \<Rightarrow> children st1 | Some c \<Rightarrow> AList.update c now (children st1)))
      \<le> max 0 (max_distinct_children p)"
  proof (cases child)
    case (Some c)
    show ?thesis
    proof (cases "jm_has (children st1) c")
      case True
      with le Some show ?thesis by (simp add: length_update_present)
    next
      case False
      with k Some have "int (length (children st1)) < max_distinct_children p" by simp
      with length_update_le [of c now "children st1"] Some show ?thesis by simp
    qed
  qed (use le in simp)
  with e admitted(5) show ?thesis by (auto intro!: within_put)
qed

definition working :: "(workflow_lane \<times> workflow_lease) list \<Rightarrow> string \<Rightarrow> int" where
  "working ls r = held (filter (\<lambda>(lane, le). lane = Worker) ls) r"

lemma working_le: "working ls r \<le> held ls r"
  unfolding working_def held_def by (induction ls) auto

lemma working_snoc: "working (ls @ [(lane, le)]) r =
  working ls r + (if lane = Worker \<and> lease_root le = r \<and> \<not> lease_released le then 1 else 0)"
  by (simp add: working_def held_snoc)

lemma working_release:
  assumes "i < length ls" "lease_released le"
  shows "working (ls[i := (fst (ls ! i), le)]) r \<le> working ls r
    \<and> held (ls[i := (fst (ls ! i), le)]) r \<le> held ls r"
proof -
  obtain a b x where "ls = a @ x # b" "length a = i"
    using assms(1) id_take_nth_drop [of i ls] by (metis length_take less_imp_le min.absorb2)
  with assms(2) show ?thesis
    by (cases x) (auto simp: working_def held_def nth_append list_update_append)
qed

lemma constant_policy_bounds:
  assumes "workflow_reachable h (\<lambda>q. q = p) w" "0 \<le> interactive_reserve p"
  shows "fits p (ww_budget w) \<and> (\<forall>r. held (ww_leases w) r \<le> max 0 (max_concurrent_children p)
    \<and> working (ww_leases w) r \<le> max 0 (max_concurrent_children p - interactive_reserve p))"
  using assms(1)
proof induction
  case (start lo)
  then show ?case by (simp add: fits_def empty_workflow_def held_def working_def)
next
  case (admit w q rid lane child now sp d lo b)
  note exact = world_counts [OF admit.hyps(1)]
  show ?case
  proof (cases "given rid")
    case None
    with admit show ?thesis by (auto simp: admit_workflow_turn_def)
  next
    case (Some r)
    with admit.hyps(2,3) obtain d' where d': "d = Some d'"
      "admit_root h r lane p child now sp (ww_ledger w) (ww_budget w) = (d', lo, b)"
      by (cases "admit_root h r lane q child now sp (ww_ledger w) (ww_budget w)")
        (auto simp: admit_workflow_turn_def)
    note b = within_admit [OF conjunct1 [OF admit.IH] d'(2)]
    from d'(2) show ?thesis
    proof (cases rule: admit_root_cases)
      case (admitted st b1 st1)
      have nn: "\<And>r. 0 \<le> active_of (ww_budget w) r" using exact held_nonneg by simp
      have "map_of (wf_roots b1) r = Some st" "active_of b1 r = held (ww_leases w) r"
        using active_enter [OF conjunct1 [OF exact] nn admitted(1), of r] exact by simp_all
      then have "active st = held (ww_leases w) r" by (simp add: active_of_def)
      with count_denial_kids [OF admitted(2)]
      have "held (ww_leases w) r < lane_ceiling p lane" by simp
      with b admitted(4) d'(1) admit.IH working_le [of "ww_leases w" r] assms(2) show ?thesis
        by (auto simp: held_snoc working_snoc lane_ceiling_def split: workflow_lane.splits)
    qed (use b d'(1) admit.IH in auto)
  qed
next
  case (release w i t le lo b)
  have "lease_released le" using release_counts [OF release.hyps(3)] by simp
  with working_release [OF release.hyps(2) this] release.IH within_release [OF _ release.hyps(3)]
  show ?case by (auto intro: order_trans)
qed (auto intro: within_charge within_clear within_note within_list within_snapshot)

text \<open>
  C11. Under one policy every bound it states holds at every moment: at most so many tracked
  roots, at most so many turns in flight under one root, worker turns never take the slots
  reserved for the interactive lane, and at most so many children recorded per root.
\<close>

theorem workflow_within_policy:
  assumes "workflow_reachable h (\<lambda>q. q = p) w" "0 \<le> interactive_reserve p"
  shows "int (length (wf_roots (ww_budget w))) \<le> max 0 (max_tracked_roots p)
    \<and> active_of (ww_budget w) r \<le> max 0 (max_concurrent_children p)
    \<and> working (ww_leases w) r \<le> max 0 (max_concurrent_children p - interactive_reserve p)
    \<and> (case map_of (wf_roots (ww_budget w)) r of None \<Rightarrow> True
       | Some st \<Rightarrow> int (length (children st)) \<le> max 0 (max_distinct_children p))"
  using constant_policy_bounds [OF assms] world_counts [OF assms(1)]
  by (auto simp: fits_def split: option.splits)

lemma workflow_within_policy_witness:
  "int (length (wf_roots (ww_budget one_turn))) \<le> max 0 (max_tracked_roots default_workflow_budget_policy)
    \<and> active_of (ww_budget one_turn) ''r'' \<le> max 0 (max_concurrent_children default_workflow_budget_policy)
    \<and> working (ww_leases one_turn) ''r'' \<le> max 0 (max_concurrent_children default_workflow_budget_policy
        - interactive_reserve default_workflow_budget_policy)
    \<and> (case map_of (wf_roots (ww_budget one_turn)) ''r'' of None \<Rightarrow> True
       | Some st \<Rightarrow> int (length (children st)) \<le> max 0 (max_distinct_children default_workflow_budget_policy))"
  by (rule workflow_within_policy [OF reachable_one_turn])
    (simp add: default_workflow_budget_policy_def)


section \<open>The rolling window\<close>

definition charge_log :: "string \<Rightarrow> send_log \<Rightarrow> workflow \<Rightarrow> workflow" where
  "charge_log r lg b = fold (\<lambda>(t, n). charge_workflow_sends (Some r) n t) lg b"

abbreviation ring :: "workflow_state \<Rightarrow> int list \<times> int option list \<times> instant" where
  "ring st \<equiv> (send_slot_count st, send_slot_at st, window_ms st)"

lemma record_ring_cong:
  "ring st = ring st' \<Longrightarrow> ring (record_windowed_sends t n st) = ring (record_windowed_sends t n st')"
  by (simp add: record_windowed_sends_def Let_def)

lemma charge_all_ring_cong: "ring st = ring st' \<Longrightarrow> ring (charge_all lg st) = ring (charge_all lg st')"
proof (induction lg arbitrary: st st')
  case Nil
  then show ?case by (simp add: charge_all_def)
next
  case (Cons e lg)
  obtain t n where e: "e = (t, n)" by fastforce
  have "ring (record_windowed_sends t n st) = ring (record_windowed_sends t n st')"
    by (rule record_ring_cong [OF Cons.prems])
  from Cons.IH [OF this] show ?case by (simp add: charge_all_def e)
qed

lemma charge_log_root:
  assumes "map_of (wf_roots b) r = Some st" "r \<noteq> []" "\<forall>e\<in>set lg. 0 < snd e"
  obtains st' where "map_of (wf_roots (charge_log r lg b)) r = Some st'"
    "ring st' = ring (charge_all lg st)" "lifetime_sends st' = lifetime_sends st + (\<Sum>e\<leftarrow>lg. snd e)"
    "active st' = active st"
  using assms(1,3)
proof (induction lg arbitrary: b st thesis)
  case Nil
  then show ?case by (simp add: charge_log_def charge_all_def)
next
  case (Cons e lg)
  obtain t n where e: "e = (t, n)" by fastforce
  define st1 where "st1 = (record_windowed_sends t n
      (st\<lparr>lifetime_sends := lifetime_sends st + n\<rparr>))\<lparr>last_seen_ms := t\<rparr>"
  have b1: "charge_workflow_sends (Some r) n t b = put_root r st1 b"
    using Cons.prems e assms(2) by (simp add: charge_workflow_sends_def given_def st1_def)
  have r1: "ring st1 = ring (record_windowed_sends t n st)"
    using record_ring_cong [of "st\<lparr>lifetime_sends := lifetime_sends st + n\<rparr>" st t n]
    by (simp add: st1_def)
  have "map_of (wf_roots (put_root r st1 b)) r = Some st1" by (simp add: roots_put)
  then obtain st' where *: "map_of (wf_roots (charge_log r lg (put_root r st1 b))) r = Some st'"
    "ring st' = ring (charge_all lg st1)"
    "lifetime_sends st' = lifetime_sends st1 + (\<Sum>e\<leftarrow>lg. snd e)" "active st' = active st1"
    using Cons.IH [of "put_root r st1 b" st1] Cons.prems(3) by force
  have "charge_log r (e # lg) b = charge_log r lg (put_root r st1 b)"
    using b1 by (simp add: charge_log_def e)
  moreover have "ring (charge_all lg st1) = ring (charge_all (e # lg) st)"
    using charge_all_ring_cong [OF r1, of lg] by (simp add: charge_all_def e)
  ultimately show ?case
    using Cons.prems(1) [of st'] * by (simp add: e st1_def)
qed

lemma slot_bounds:
  "of_int (slot_of w t) * of_int (window_slot_ms w) \<le> t
   \<and> t < (of_int (slot_of w t) + 1) * of_int (window_slot_ms w)"
proof -
  have "0 < (of_int (window_slot_ms w) :: rat)" by (simp add: window_slot_ms_def)
  then show ?thesis
    by (simp add: slot_of_def floor_divide_lower floor_divide_upper)
qed

lemma log_sum_mono:
  assumes "\<forall>e\<in>set lg. 0 \<le> snd e" "\<And>e. e \<in> set lg \<Longrightarrow> P e \<Longrightarrow> Q e"
  shows "log_sum P lg \<le> log_sum Q lg"
  unfolding log_sum_def by (rule sum_list_mono) (use assms in auto)

text \<open>Twelve slots, seen as time: whole inside the last eleven, nothing before the last twelve.\<close>

lemma recent_slots:
  assumes "s = of_int (window_slot_ms w)"
  shows "now - 11 * s < t \<Longrightarrow> slot_of w t \<ge> slot_of w now - 11"
    and "slot_of w t \<ge> slot_of w now - 11 \<Longrightarrow> now - 12 * s < t"
proof -
  have s: "0 < s" by (simp add: assms window_slot_ms_def)
  note bn = slot_bounds [of w now, folded assms] and bt = slot_bounds [of w t, folded assms]
  show "slot_of w t \<ge> slot_of w now - 11" if "now - 11 * s < t"
  proof -
    have "(of_int (slot_of w now) - 11) * s < (of_int (slot_of w t) + 1) * s"
      using that bn bt by (simp add: algebra_simps)
    then have "of_int (slot_of w now) - 11 < (of_int (slot_of w t) + 1 :: rat)" using s by simp
    then have "slot_of w now - 11 < slot_of w t + 1" by linarith
    then show ?thesis by simp
  qed
  show "now - 12 * s < t" if "slot_of w t \<ge> slot_of w now - 11"
  proof -
    have "of_int (slot_of w now) - 11 \<le> (of_int (slot_of w t) :: rat)" using that by linarith
    then have "(of_int (slot_of w now) - 11) * s \<le> of_int (slot_of w t) * s" using s by simp
    with bn bt show ?thesis by (simp add: algebra_simps)
  qed
qed

text \<open>
  C12. The ring is a faithful rolling window. Charge a new root any log of sends with a clock
  that does not run back, then read the window: it counts every send of the last eleven slots,
  none older than twelve, and the pre-dispatch check fires exactly when that count reaches the
  policy's ceiling. The lifetime total counts them all.
\<close>

theorem ring_counts_rolling_window:
  fixes now born :: instant and lg :: send_log
  assumes "r \<noteq> []" "map_of (wf_roots b) r = Some (new_workflow_state born p)"
    and "sorted (map fst lg)" "\<forall>e\<in>set lg. 0 < snd e \<and> fst e \<le> now"
    and "s = of_int (window_slot_ms (workflow_window_ms p))"
  shows "\<exists>st n. map_of (wf_roots (charge_log r lg b)) r = Some st \<and> n = windowed_sends st now
    \<and> log_sum (\<lambda>e. now - 11 * s < fst e) lg \<le> n \<and> n \<le> log_sum (\<lambda>e. now - 12 * s < fst e) lg
    \<and> workflow_send_ceiling_reached (Some r) q now (charge_log r lg b) = (max_physical_sends q \<le> n)
    \<and> lifetime_sends st = (\<Sum>e\<leftarrow>lg. snd e)"
proof -
  let ?w = "workflow_window_ms p"
  have w: "window_ms (new_workflow_state born p) = ?w" by (simp add: new_workflow_state_def)
  obtain st where st: "map_of (wf_roots (charge_log r lg b)) r = Some st"
    "ring st = ring (charge_all lg (new_workflow_state born p))" "lifetime_sends st = (\<Sum>e\<leftarrow>lg. snd e)"
    using charge_log_root [OF assms(2,1), of lg] assms(4) by (auto simp: new_workflow_state_def)
  have ok: "ring_ok (charge_all lg (new_workflow_state born p)) lg"
    "window_ms (charge_all lg (new_workflow_state born p)) = ?w"
    using ring_ok_charge_all [OF ring_ok_new, of lg born p] assms(3) w by simp_all
  have "windowed_sends st now = windowed_sends (charge_all lg (new_workflow_state born p)) now"
    using st(2) by (intro windowed_sends_cong) simp_all
  also have "\<dots> = log_sum (\<lambda>e. slot_of ?w (fst e) \<ge> slot_of ?w now - 11) lg"
    using windowed_sends_log [OF ok(1), of now] assms(4) ok(2) by simp
  finally have n: "windowed_sends st now = log_sum (\<lambda>e. slot_of ?w (fst e) \<ge> slot_of ?w now - 11) lg" .
  have pos: "\<forall>e\<in>set lg. 0 \<le> snd e" using assms(4) by auto
  have "log_sum (\<lambda>e. now - 11 * s < fst e) lg \<le> windowed_sends st now"
    unfolding n by (rule log_sum_mono [OF pos]) (rule recent_slots(1) [OF assms(5)])
  moreover have "windowed_sends st now \<le> log_sum (\<lambda>e. now - 12 * s < fst e) lg"
    unfolding n by (rule log_sum_mono [OF pos]) (rule recent_slots(2) [OF assms(5)])
  moreover have "workflow_send_ceiling_reached (Some r) q now (charge_log r lg b)
      = (max_physical_sends q \<le> windowed_sends st now)"
    using st(1) assms(1) by (simp add: workflow_send_ceiling_reached_def given_def)
  ultimately show ?thesis using st(1,3) by blast
qed

definition fresh_budget :: workflow where
  "fresh_budget = put_root ''r'' (new_workflow_state 0 default_workflow_budget_policy) empty_workflow"

lemma ring_counts_rolling_window_witness:
  "\<exists>st n. map_of (wf_roots (charge_log ''r'' [(0, 5), (60000, 2), (640000, 3)] fresh_budget)) ''r'' = Some st
    \<and> n = windowed_sends st 650000
    \<and> log_sum (\<lambda>e. 650000 - 11 * 50000 < fst e) [(0, 5), (60000, 2), (640000, 3)] \<le> n
    \<and> n \<le> log_sum (\<lambda>e. 650000 - 12 * 50000 < fst e) [(0, 5), (60000, 2), (640000, 3)]
    \<and> workflow_send_ceiling_reached (Some ''r'') default_workflow_budget_policy 650000
        (charge_log ''r'' [(0, 5), (60000, 2), (640000, 3)] fresh_budget)
      = (max_physical_sends default_workflow_budget_policy \<le> n)
    \<and> lifetime_sends st = (\<Sum>e\<leftarrow>[(0 :: instant, 5), (60000, 2), (640000, 3)]. snd e)"
  by (rule ring_counts_rolling_window [where born = 0 and p = default_workflow_budget_policy])
    (simp_all add: fresh_budget_def put_root_def empty_workflow_def workflow_window_ms_def
      default_workflow_budget_policy_def workflow_default_window_ms_def window_slot_ms_def
      workflow_window_slots_def)


section \<open>No laundering\<close>

lemma roots_other_counts:
  "r' \<noteq> r \<Longrightarrow> map_of (wf_roots (snd (read_counts r now b))) r' = map_of (wf_roots b) r'"
  by (cases "map_of (wf_roots b) r") (simp_all add: read_counts_def Let_def split_beta roots_put)

lemma roots_other_refuse:
  "r' \<noteq> r \<Longrightarrow> map_of (wf_roots (snd (refuse r d x now b))) r' = map_of (wf_roots b) r'"
  by (simp add: refuse_def Let_def split_beta roots_other_counts)

lemma roots_refuse_same:
  assumes "map_of (wf_roots b) r = Some st"
  shows "\<exists>st'. map_of (wf_roots (snd (refuse r d x now b))) r = Some st' \<and> ring st' = ring st
    \<and> lifetime_sends st' = lifetime_sends st \<and> active st' = active st"
  using assms by (simp add: refuse_def read_counts_def Let_def split_beta roots_put)

lemma enter_keeps:
  assumes "jm_wf (wf_roots b)" "enter_root h p lo now r b = (so, b1)"
    and "map_of (wf_roots b) k = Some st" "\<not> evictable_root h p lo now k st"
  shows "map_of (wf_roots b1) k = Some st"
  using assms(2)
proof (cases rule: enter_root_cases)
  case (made b0)
  have "map_of (wf_roots b0) k = Some st"
  proof (cases "int (length (wf_roots b)) \<ge> max_tracked_roots p")
    case True
    with made(4) have "evict_one_root h p lo now b = (True, b0)" by simp
    then obtain v st' where "map_of (wf_roots b) v = Some st'" "evictable_root h p lo now v st'"
      "b0 = b\<lparr>wf_roots := AList.delete v (wf_roots b)\<rparr>" using evicted [OF assms(1)] by metis
    with assms(3,4) show ?thesis by auto
  qed (use made assms(3) in simp)
  with made(1,3) assms(3) show ?thesis by (auto simp: roots_put)
qed (use assms(3) in auto)

text \<open>
  C13. No laundering. Whatever an admission decides, a root that has a turn in flight, whose
  window is full, or whose token ceiling is spent is not forgotten to make room: it stays
  tracked with the same ring and lifetime total and at least its turns in flight. And if it
  is the admitted root itself whose window is full, the answer is the send refusal.
\<close>

theorem no_laundering:
  assumes "jm_wf (wf_roots b)" "admit_workflow_turn h rid lane p child now sp lo b = (d, lo', b')"
    and "map_of (wf_roots b) k = Some st"
    and "0 < active st \<or> max_physical_sends p \<le> windowed_sends st now \<or> root_spent h k lo"
  shows "\<exists>st'. map_of (wf_roots b') k = Some st' \<and> lifetime_sends st' = lifetime_sends st
    \<and> windowed_sends st' t = windowed_sends st t \<and> active st \<le> active st'
    \<and> (if given rid = Some k \<and> max_physical_sends p \<le> windowed_sends st now
        then d = Some (Denied SendsExhausted k None) \<and> lo' = lo else True)"
proof (cases "given rid")
  case None
  with assms show ?thesis by (auto simp: admit_workflow_turn_def)
next
  case (Some r)
  have ne: "\<not> evictable_root h p lo now k st" using assms(4) by (auto simp: evictable_root_def)
  obtain d' where d': "d = Some d'" "admit_root h r lane p child now sp lo b = (d', lo', b')"
    using assms(2) Some by (cases "admit_root h r lane p child now sp lo b")
      (auto simp: admit_workflow_turn_def)
  show ?thesis
  proof (cases "k = r")
    case False
    have "map_of (wf_roots b') k = Some st"
      using d'(2)
    proof (cases rule: admit_root_cases)
      case (full b1)
      with enter_keeps [OF assms(1) full(1) assms(3) ne] False show ?thesis by (simp add: roots_other_refuse)
    next
      case (refused s1 b1 st1 reason x)
      with enter_keeps [OF assms(1) refused(1) assms(3) ne] False show ?thesis
        by (simp add: roots_other_refuse roots_put)
    next
      case (admitted s1 b1 st1)
      with enter_keeps [OF assms(1) admitted(1) assms(3) ne] False show ?thesis by (simp add: roots_put)
    qed
    with Some False show ?thesis by auto
  next
    case True
    have e: "enter_root h p lo now r b = (Some st, b)" using assms(3) True by (simp add: enter_root_def)
    define st0 where "st0 = st\<lparr>last_seen_ms := now\<rparr>"
    have w0: "windowed_sends st0 now = windowed_sends st now"
      unfolding st0_def by (rule windowed_sends_cong) simp_all
    have full: "d' = Denied SendsExhausted r None \<and> lo' = lo" if "max_physical_sends p \<le> windowed_sends st now"
    proof -
      have "count_denial p lane child now st0 = (Some SendsExhausted, st0)"
        using that w0 by (simp add: count_denial_def)
      with d'(2) e show ?thesis
        by (auto simp: admit_root_def st0_def refuse_def Let_def split_beta)
    qed
    have "\<exists>st'. map_of (wf_roots b') r = Some st' \<and> ring st' = ring st
        \<and> lifetime_sends st' = lifetime_sends st \<and> active st \<le> active st'"
      using d'(2)
    proof (cases rule: admit_root_cases)
      case (full b1)
      with e show ?thesis by simp
    next
      case (refused s1 b1 st1 reason x)
      with e have s: "ring st1 = ring st" "lifetime_sends st1 = lifetime_sends st" "active st1 = active st"
        by (simp_all add: count_denial_frame)
      have "map_of (wf_roots (put_root r st1 b1)) r = Some st1" by (simp add: roots_put)
      from roots_refuse_same [OF this, of reason x now] refused(4) s show ?thesis by force
    next
      case (admitted s1 b1 st1)
      have "ring st1 = ring st" "lifetime_sends st1 = lifetime_sends st" "active st1 = active st"
        using count_denial_frame [of p lane child now "s1\<lparr>last_seen_ms := now\<rparr>"] admitted(1,2) e
        by simp_all
      with admitted(5) show ?thesis by (simp add: roots_put)
    qed
    then obtain st' where st': "map_of (wf_roots b') k = Some st'" "ring st' = ring st"
      "lifetime_sends st' = lifetime_sends st" "active st \<le> active st'" using True by blast
    moreover have "windowed_sends st' t = windowed_sends st t"
      using st'(2) by (intro windowed_sends_cong) simp_all
    ultimately show ?thesis using full True d'(1) by auto
  qed
qed

definition tiny_policy :: workflow_policy where
  "tiny_policy = default_workflow_budget_policy\<lparr>max_tracked_roots := 1\<rparr>"

definition busy_root :: workflow_state where
  "busy_root = (new_workflow_state 0 tiny_policy)\<lparr>active := 1\<rparr>"

definition busy_budget :: workflow where
  "busy_budget = put_root ''r'' busy_root empty_workflow"

definition intruder :: "workflow_decision option \<times> ledger option \<times> workflow" where
  "intruder = admit_workflow_turn toy_hash (Some ''q'') Interactive tiny_policy None 9 None None busy_budget"

lemma no_laundering_witness:
  "\<exists>st'. map_of (wf_roots (snd (snd intruder))) ''r'' = Some st'
    \<and> lifetime_sends st' = lifetime_sends busy_root
    \<and> windowed_sends st' 10 = windowed_sends busy_root 10 \<and> active busy_root \<le> active st'
    \<and> (if given (Some ''q'') = Some ''r'' \<and> max_physical_sends tiny_policy \<le> windowed_sends busy_root 9
        then fst intruder = Some (Denied SendsExhausted ''r'' None) \<and> fst (snd intruder) = None else True)"
  by (rule no_laundering [where h = toy_hash and rid = "Some ''q''" and lane = Interactive
        and p = tiny_policy and child = None and now = 9 and sp = None and lo = None
        and b = busy_budget])
    (simp_all add: intruder_def busy_budget_def busy_root_def put_root_def empty_workflow_def)


section \<open>Admissions and refusals\<close>

lemma events_counts [simp]: "wf_events (snd (read_counts r now b)) = wf_events b"
  by (cases "map_of (wf_roots b) r") (simp_all add: read_counts_def Let_def split_beta)

lemma enter_events: "enter_root h p lo now r b = (so, b1) \<Longrightarrow> wf_events b1 = wf_events b"
  by (auto simp: enter_root_def evict_one_root_def Let_def split_beta split: option.splits if_splits)

lemma refuse_event:
  "\<exists>e. wf_events (snd (refuse r d x now b)) = record_budget_event e (wf_events b)
     \<and> ev_kind e = RefusedEvent \<and> ev_root e = r \<and> ev_reason e = Some d"
  by (auto simp: refuse_def Let_def split_beta push_event_def)

lemma token_gate_refused:
  assumes "token_gate h r now sp (Some l) = (Some y, lo')"
  obtains l' where "lo' = Some l'" "shrinks l l'"
proof (cases sp)
  case None
  with assms that shrinks_refl show thesis by (auto simp: token_gate_def)
next
  case (Some s)
  show thesis
  proof (cases rule: reserve_cases [of h "request_of r now s" now l])
    case (refused d l')
    with assms Some that show thesis by (auto simp: token_gate_def)
  next
    case (admitted l1 durable l2 l3)
    with assms Some show thesis by (simp add: token_gate_def)
  qed
qed

text \<open>
  A refusal takes nothing: no root's turns in flight change, no reservation and no scope of
  the ledger is new or changed, the answer names the root, and exactly one event, the refusal
  with its reason, is recorded.
\<close>

theorem refused_turn_takes_nothing:
  assumes "workflow_reachable h ok w"
    and "admit_workflow_turn h (Some r) lane p child now sp (ww_ledger w) (ww_budget w)
        = (Some (Denied reason r' x), lo, b)"
  shows "r' = r \<and> active_of b k = active_of (ww_budget w) k
    \<and> (case (ww_ledger w, lo) of
         (Some l, Some l') \<Rightarrow> map_of (reservations l') i \<in> {None, map_of (reservations l) i}
           \<and> map_of (scopes l') s \<in> {None, map_of (scopes l) s}
       | (None, None) \<Rightarrow> True | _ \<Rightarrow> False)
    \<and> (\<exists>e. wf_events b = record_budget_event e (wf_events (ww_budget w))
         \<and> ev_kind e = RefusedEvent \<and> ev_root e = r \<and> ev_reason e = Some reason)"
proof -
  have r: "given (Some r) = Some r"
    and a: "admit_root h r lane p child now sp (ww_ledger w) (ww_budget w) = (Denied reason r' x, lo, b)"
    using assms(2) by (auto simp: admit_workflow_turn_def Let_def split_beta given_def prod_eq_iff
        split: option.splits if_splits)
  note exact = world_counts [OF assms(1)]
  have nn: "\<And>r. 0 \<le> active_of (ww_budget w) r" using exact held_nonneg by simp
  have act: "active_of b k = active_of (ww_budget w) k"
    using admit_counts [OF conjunct1 [OF exact] nn a, of k] by simp
  have same: "case (ww_ledger w, ww_ledger w) of
         (Some l, Some l') \<Rightarrow> map_of (reservations l') i \<in> {None, map_of (reservations l) i}
           \<and> map_of (scopes l') s \<in> {None, map_of (scopes l) s}
       | (None, None) \<Rightarrow> True | _ \<Rightarrow> False"
    by (cases "ww_ledger w") simp_all
  from a show ?thesis
  proof (cases rule: admit_root_cases)
    case (full b1)
    with act same enter_events [OF full(1)] refuse_event [of r TrackingExhausted None now b1]
    show ?thesis by auto
  next
    case (refused st b1 st1 reason' x')
    have ev: "\<exists>e. wf_events b = record_budget_event e (wf_events (ww_budget w))
         \<and> ev_kind e = RefusedEvent \<and> ev_root e = r \<and> ev_reason e = Some reason"
      using refused(3,4) enter_events [OF refused(1)]
        refuse_event [of r reason x now "put_root r st1 b1"] by auto
    have "case (ww_ledger w, lo) of
         (Some l, Some l') \<Rightarrow> map_of (reservations l') i \<in> {None, map_of (reservations l) i}
           \<and> map_of (scopes l') s \<in> {None, map_of (scopes l) s}
       | (None, None) \<Rightarrow> True | _ \<Rightarrow> False"
    proof (cases "lo = ww_ledger w")
      case True
      with same show ?thesis by simp
    next
      case False
      with refused(5) have g: "token_gate h r now sp (ww_ledger w) = (Some (reason', x'), lo)" by simp
      show ?thesis
      proof (cases "ww_ledger w")
        case None
        with g show ?thesis by (cases sp) (simp_all add: token_gate_def)
      next
        case (Some l)
        with g obtain l' where "lo = Some l'" "shrinks l l'" by (metis token_gate_refused)
        with Some show ?thesis by (cases s) (simp add: shrinks_def)
      qed
    qed
    with ev act refused(3) show ?thesis by auto
  qed simp
qed

definition idle_world :: workflow_world where
  "idle_world = \<lparr>ww_budget = empty_workflow, ww_ledger = None, ww_leases = []\<rparr>"

lemma reachable_idle: "workflow_reachable toy_hash (\<lambda>p. p = default_workflow_budget_policy) idle_world"
  unfolding idle_world_def by (rule workflow_reachable.start)

definition crowded :: "workflow_decision option \<times> ledger option \<times> workflow" where
  "crowded = admit_workflow_turn toy_hash (Some ''r'') Worker
     (tiny_policy\<lparr>max_concurrent_children := 1\<rparr>) None 9 None (ww_ledger idle_world) (ww_budget idle_world)"

lemma crowded_refused: "fst crowded = Some (Denied ConcurrencyExhausted ''r'' None)"
  by code_simp

lemma refused_turn_takes_nothing_witness:
  "''r'' = ''r'' \<and> active_of (snd (snd crowded)) ''r'' = active_of (ww_budget idle_world) ''r''
    \<and> (case (ww_ledger idle_world, fst (snd crowded)) of
         (Some l, Some l') \<Rightarrow> map_of (reservations l') ''s1'' \<in> {None, map_of (reservations l) ''s1''}
           \<and> map_of (scopes l') (Root, ''r'') \<in> {None, map_of (scopes l) (Root, ''r'')}
       | (None, None) \<Rightarrow> True | _ \<Rightarrow> False)
    \<and> (\<exists>e. wf_events (snd (snd crowded)) = record_budget_event e (wf_events (ww_budget idle_world))
         \<and> ev_kind e = RefusedEvent \<and> ev_root e = ''r'' \<and> ev_reason e = Some ConcurrencyExhausted)"
proof (rule refused_turn_takes_nothing [OF reachable_idle])
  show "admit_workflow_turn toy_hash (Some ''r'') Worker (tiny_policy\<lparr>max_concurrent_children := 1\<rparr>)
      None 9 None (ww_ledger idle_world) (ww_budget idle_world)
    = (Some (Denied ConcurrencyExhausted ''r'' None), fst (snd crowded), snd (snd crowded))"
    using crowded_refused by (simp add: crowded_def prod_eq_iff)
qed

text \<open>
  A turn is admitted only inside every ceiling at once: the window has room, the lane has a
  slot, with a token request its send is reserved in the ledger and live, and without one the
  root's token ceiling, if there is one, is not yet spent. The root then holds one more turn.
\<close>

theorem admitted_turn_within_ceilings:
  assumes "workflow_reachable h ok w"
    and "admit_workflow_turn h rid lane p child now sp (ww_ledger w) (ww_budget w)
        = (Some (Admitted le), lo, b)"
  shows "given rid = Some (lease_root le) \<and> \<not> lease_released le
    \<and> active_of (ww_budget w) (lease_root le) < lane_ceiling p lane
    \<and> active_of b (lease_root le) = active_of (ww_budget w) (lease_root le) + 1
    \<and> (case map_of (wf_roots (ww_budget w)) (lease_root le) of None \<Rightarrow> True
       | Some st \<Rightarrow> windowed_sends st now < max_physical_sends p)
    \<and> (case (sp, lo) of
         (Some s, Some l) \<Rightarrow> lease_send le = Some (ws_send s) \<and> live_send h (ws_send s) l
       | (None, Some l) \<Rightarrow> lo = ww_ledger w \<and> (root_max (limits (policy l)) = None
           \<or> \<not> root_spent h (lease_root le) lo)
       | (_, None) \<Rightarrow> ww_ledger w = None)"
proof -
  obtain r where r: "given rid = Some r"
    and a: "admit_root h r lane p child now sp (ww_ledger w) (ww_budget w) = (Admitted le, lo, b)"
    using assms(2) by (auto simp: admit_workflow_turn_def Let_def split_beta prod_eq_iff
        split: option.splits if_splits)
  note exact = world_counts [OF assms(1)]
  have nn: "\<And>r. 0 \<le> active_of (ww_budget w) r" using exact held_nonneg by simp
  from a show ?thesis
  proof (cases rule: admit_root_cases)
    case (admitted st b1 st1)
    have le: "lease_root le = r" "\<not> lease_released le"
      "lease_send le = (if ww_ledger w = None then None else map_option ws_send sp)"
      using admitted(4) by auto
    note e = active_enter [OF conjunct1 [OF exact] nn admitted(1), of r]
    have "map_of (wf_roots b1) r = Some st" "active_of b1 r = active_of (ww_budget w) r" using e by simp_all
    then have st: "active st = active_of (ww_budget w) r" by (simp add: active_of_def)
    note k = count_denial_kids [OF admitted(2)]
    have "windowed_sends (st\<lparr>last_seen_ms := now\<rparr>) now = windowed_sends st now"
      by (rule windowed_sends_cong) simp_all
    with k have win: "windowed_sends st now < max_physical_sends p" by simp
    have old: "case map_of (wf_roots (ww_budget w)) r of None \<Rightarrow> True
       | Some st \<Rightarrow> windowed_sends st now < max_physical_sends p"
      using admitted(1) win by (auto simp: enter_root_def split: option.splits)
    have cnt: "active_of b r = active_of (ww_budget w) r + 1"
      using admit_counts [OF conjunct1 [OF exact] nn a, of r] by simp
    have tok: "case (sp, lo) of
         (Some s, Some l) \<Rightarrow> lease_send le = Some (ws_send s) \<and> live_send h (ws_send s) l
       | (None, Some l) \<Rightarrow> lo = ww_ledger w \<and> (root_max (limits (policy l)) = None
           \<or> \<not> root_spent h r lo)
       | (_, None) \<Rightarrow> ww_ledger w = None"
    proof (cases "ww_ledger w")
      case None
      with admitted(3) show ?thesis by (cases sp) (auto simp: token_gate_def)
    next
      case (Some l)
      show ?thesis
      proof (cases sp)
        case None
        with Some admitted(3) have lo: "lo = Some l" "spent_root_ceiling h r None None l = None"
          by (simp_all add: token_gate_def)
        then have "root_max (limits (policy l)) = None \<or> \<not> exhausted h Root r None None l"
          by (auto simp: spent_root_ceiling_def split: option.splits if_splits)
        with lo(1) Some None show ?thesis by (simp add: root_spent_def)
      next
        case sp: (Some s)
        with Some admitted(3) obtain i n dur l' where
          res: "reserve h (request_of r now s) now l = (Reserved i n dur, l')" and lo: "lo = Some l'"
          by (cases "reserve h (request_of r now s) now l"; cases "fst (reserve h (request_of r now s) now l)")
            (simp_all add: token_gate_def)
        from res have "\<exists>rv. map_of (reservations l') (h ''send'' (ws_send s)) = Some rv \<and> status rv = Open"
          by (rule admitted_books) (simp add: request_of_def)
        then have "live_send h (ws_send s) l'" by (auto simp: live_send_def is_live_def)
        with sp lo le(3) Some show ?thesis by simp
      qed
    qed
    have "active_of (ww_budget w) r < lane_ceiling p lane" using st k by simp
    then show ?thesis unfolding le(1) using r le(2) old cnt tok by simp
  qed auto
qed

lemma admitted_turn_within_ceilings_witness:
  "given (Some ''r'') = Some (lease_root first_lease) \<and> \<not> lease_released first_lease
    \<and> active_of empty_workflow (lease_root first_lease) < lane_ceiling default_workflow_budget_policy Worker
    \<and> active_of (snd (snd first_turn)) (lease_root first_lease) = active_of empty_workflow (lease_root first_lease) + 1
    \<and> (case map_of (wf_roots empty_workflow) (lease_root first_lease) of None \<Rightarrow> True
       | Some st \<Rightarrow> windowed_sends st 5 < max_physical_sends default_workflow_budget_policy)
    \<and> (case fst (snd first_turn) of
         Some l \<Rightarrow> lease_send first_lease = Some ''s1'' \<and> live_send toy_hash ''s1'' l | None \<Rightarrow> False)"
proof -
  have "admit_workflow_turn toy_hash (Some ''r'') Worker default_workflow_budget_policy (Some ''c'') 5
     (Some \<lparr>ws_send = ''s1'', ws_identity = None, ws_pool = Some ''p'', ws_input = Fin 60, ws_output = Fin 40\<rparr>)
     (ww_ledger \<lparr>ww_budget = empty_workflow, ww_ledger = Some empty_ledger, ww_leases = []\<rparr>)
     (ww_budget \<lparr>ww_budget = empty_workflow, ww_ledger = Some empty_ledger, ww_leases = []\<rparr>)
     = (Some (Admitted first_lease), fst (snd first_turn), snd (snd first_turn))"
    using first_turn_admitted by (simp add: first_turn_def prod_eq_iff)
  from admitted_turn_within_ceilings [OF workflow_reachable.start this]
  show ?thesis by (auto split: option.splits)
qed


section \<open>The end of a lease\<close>

lemma give_back_finish: "give_back h i t = spend_send.finish h i t"
  by (rule ext) (simp add: give_back_def spend_send.finish_def)

text \<open>
  A lease is released once. Its release ends its send, given back if it never left and kept
  as lost otherwise, and from then on every further release of the same lease, and every
  second release of the send, changes neither the tables nor the ledger.
\<close>

theorem lease_released_once:
  assumes "lease_release h le t lo b = (le1, lo1, b1)"
  shows "lease_release h le1 t' lo' b' = (le1, lo', b')
    \<and> (if lease_released le then lo1 = lo \<and> b1 = b
        else (case (lease_send le, lo, lo1) of
            (Some i, Some l, Some l1) \<Rightarrow> \<not> live_send h i l1 \<and> give_back h i t'' l1 = l1
              \<and> (if live_send h i l then True else l1 = l)
          | (_, _, _) \<Rightarrow> lo1 = lo))"
proof (cases "lease_released le")
  case True
  with assms show ?thesis by (simp add: lease_release_def)
next
  case False
  have le1: "lease_released le1"
    and lo1: "lo1 = (case (lease_send le, lo) of (Some i, Some l) \<Rightarrow> Some (give_back h i t l) | _ \<Rightarrow> lo)"
    using assms False by (auto simp: lease_release_def)
  have "case (lease_send le, lo, lo1) of
            (Some i, Some l, Some l1) \<Rightarrow> \<not> live_send h i l1 \<and> give_back h i t'' l1 = l1
              \<and> (if live_send h i l then True else l1 = l)
          | (_, _, _) \<Rightarrow> lo1 = lo"
    using lo1 spend_send.finish_not_live [of h] spend_send.finish_finished [of h]
    by (auto simp: give_back_finish split: option.splits)
  with le1 False show ?thesis by (simp add: lease_release_def)
qed

lemma lease_released_once_witness:
  "lease_release toy_hash (first_lease\<lparr>lease_released := True\<rparr>) 9 (ww_ledger one_turn) (ww_budget one_turn)
     = (first_lease\<lparr>lease_released := True\<rparr>, ww_ledger one_turn, ww_budget one_turn)
    \<and> (if lease_released first_lease
        then fst (snd (lease_release toy_hash first_lease 8 (ww_ledger one_turn) (ww_budget one_turn))) = ww_ledger one_turn
          \<and> snd (snd (lease_release toy_hash first_lease 8 (ww_ledger one_turn) (ww_budget one_turn))) = ww_budget one_turn
        else (case (lease_send first_lease, ww_ledger one_turn,
              fst (snd (lease_release toy_hash first_lease 8 (ww_ledger one_turn) (ww_budget one_turn)))) of
            (Some i, Some l, Some l1) \<Rightarrow> \<not> live_send toy_hash i l1 \<and> give_back toy_hash i 10 l1 = l1
              \<and> (if live_send toy_hash i l then True else l1 = l)
          | (_, _, _) \<Rightarrow> fst (snd (lease_release toy_hash first_lease 8 (ww_ledger one_turn) (ww_budget one_turn)))
              = ww_ledger one_turn))"
  by (rule lease_released_once) (simp add: lease_release_def first_lease_def)

end
