(* ===== verification/Request_Budget.thy ===== *)
theory Request_Budget
  imports Prelude
begin

text \<open>
  \<open>lib/request-execution-budget.ts\<close>: the budget of one logical request. A ledger of
  physical sends is shared by the request's scopes; each scope keeps its own policy and
  recovery counters. A reservation is the charge and returns a permit that is used once or
  given back. The spend observer is an interface of the source, a record of functions on its
  own state \<open>'o\<close>; the objects whose identity matters (receipts) are numbers.
\<close>

section \<open>Policy, intents and denials\<close>

datatype send_class =
    Initial | Transient | AuthRecovery | Repair | AccountFailover | ComboFailover | Prewarm

record budget_policy =
  max_total_model_sends :: int
  base_send_allowance :: int
  final_recovery_allowance :: int
  max_alternate_target_sends :: int
  max_target_transitions :: int

definition codex_text_guarded_budget_policy :: budget_policy where
  "codex_text_guarded_budget_policy =
     \<lparr>max_total_model_sends = 4, base_send_allowance = 3, final_recovery_allowance = 1,
      max_alternate_target_sends = 1, max_target_transitions = 1\<rparr>"

datatype budget_denial =
    TotalExhausted
  | BaseAllowanceExhausted
  | FinalRecoverySpent
  | AlternateTargetExhausted
  | TargetTransitionExhausted
  | SpendExhausted
  | NotReplaySafe

record dispatch_intent =
  in_class :: send_class
  in_target :: string
  in_replay_safe :: "bool option"
  in_external :: bool
  in_rebased :: bool

definition reserve_funded_classes :: "send_class list" where
  "reserve_funded_classes = [AccountFailover, ComboFailover, Repair, AuthRecovery]"


section \<open>The observer and the shared ledger\<close>

text \<open>
  What an observer is asked to do: charge a send (a reservation names its target and defers
  the dispatch; a report says the send already left), dispatch and refund a proof, capture the
  request's policy, anchor a seed, and run a reporter for one physical start.
\<close>

datatype charge_kind = ChargeReservation string | ChargeReported

type_synonym spend_proof = nat
type_synonym seed = nat

record 'o observer =
  ob_charge :: "charge_kind \<Rightarrow> 'o \<Rightarrow> bool \<times> spend_proof option \<times> 'o"
  ob_enforced :: "'o \<Rightarrow> bool"
  ob_start :: "string option \<Rightarrow> 'o \<Rightarrow> 'o"
  ob_seed :: "string \<Rightarrow> spend_proof option \<Rightarrow> 'o \<Rightarrow> seed option \<times> 'o"
  ob_begin :: "'o \<Rightarrow> nat \<times> 'o"
  ob_begun :: "nat \<Rightarrow> seed \<Rightarrow> nat \<Rightarrow> 'o \<Rightarrow> 'o"
  ob_report :: "nat \<Rightarrow> nat \<Rightarrow> 'o \<Rightarrow> 'o"
  ob_close :: "nat \<Rightarrow> 'o \<Rightarrow> 'o"
  ob_dispatch :: "spend_proof \<Rightarrow> 'o \<Rightarrow> 'o"
  ob_refund :: "spend_proof option \<Rightarrow> 'o \<Rightarrow> 'o"

record resend_grant =
  claimed_resends :: nat
  resend_ceiling :: "int option"

record 'o send_ledger =
  sl_spent :: int
  sl_physical_started :: nat
  sl_physical_limit :: "int option"
  sl_pending :: "nat list"
  sl_next_receipt :: nat
  sl_grant :: resend_grant
  sl_obs :: 'o

record budget_scope =
  sc_policy :: budget_policy
  sc_reserve_spent :: bool
  sc_alternate_sends :: int
  sc_transitions :: int
  sc_last_target :: "string option"
  sc_reservations :: "(nat \<times> string) list"

datatype permit_state = PermitOpen | PermitUsed | PermitReleased

record permit =
  pm_class :: send_class
  pm_target :: string
  pm_external :: bool
  pm_receipt :: nat
  pm_draws_reserve :: bool
  pm_charges_alternate :: bool
  pm_charges_transition :: bool
  pm_proof :: "spend_proof option"
  pm_state :: permit_state
  pm_claimed :: bool
  pm_executing :: bool
  pm_producer :: "nat option"

definition fresh_grant :: resend_grant where
  "fresh_grant = \<lparr>claimed_resends = 0, resend_ceiling = None\<rparr>"

definition fresh_send_ledger :: "'o \<Rightarrow> 'o send_ledger" where
  "fresh_send_ledger s = \<lparr>sl_spent = 0, sl_physical_started = 0, sl_physical_limit = None,
     sl_pending = [], sl_next_receipt = 0, sl_grant = fresh_grant, sl_obs = s\<rparr>"

definition fresh_scope :: "budget_policy \<Rightarrow> budget_scope" where
  "fresh_scope p = \<lparr>sc_policy = p, sc_reserve_spent = False, sc_alternate_sends = 0,
     sc_transitions = 0, sc_last_target = None, sc_reservations = []\<rparr>"

definition create_request_execution_budget ::
    "budget_policy \<Rightarrow> 'o \<Rightarrow> budget_scope \<times> 'o send_ledger" where
  "create_request_execution_budget p s = (fresh_scope p, fresh_send_ledger s)"

text \<open>A derived budget is a fresh scope over the parent's ledger.\<close>

definition derive_request_execution_budget ::
    "budget_policy \<Rightarrow> 'o send_ledger \<Rightarrow> budget_scope \<times> 'o send_ledger" where
  "derive_request_execution_budget p l = (fresh_scope p, l)"


section \<open>Replacements for an ambiguous failure\<close>

fun trunc_finite :: "jsnum \<Rightarrow> int" where
  "trunc_finite (Fin q) = (if q < 0 then \<lceil>q\<rceil> else \<lfloor>q\<rfloor>)"
| "trunc_finite _ = 0"

definition claim_ambiguous_resend :: "jsnum \<Rightarrow> resend_grant \<Rightarrow> bool \<times> resend_grant" where
  "claim_ambiguous_resend limit g =
     (let presented = trunc_finite limit
      in if presented \<le> 0 then (False, g)
         else (let c = (case resend_ceiling g of None \<Rightarrow> presented | Some m \<Rightarrow> min m presented);
                   g1 = g\<lparr>resend_ceiling := Some c\<rparr>
               in if int (claimed_resends g1) \<ge> c then (False, g1)
                  else (True, g1\<lparr>claimed_resends := claimed_resends g1 + 1\<rparr>)))"

definition ambiguous_resend_spent :: "resend_grant \<Rightarrow> bool" where
  "ambiguous_resend_spent g \<longleftrightarrow> claimed_resends g > 0"


section \<open>Physical starts\<close>

definition observe :: "('o \<Rightarrow> 'o) \<Rightarrow> 'o send_ledger \<Rightarrow> 'o send_ledger" where
  "observe f l = l\<lparr>sl_obs := f (sl_obs l)\<rparr>"

definition enforced_by :: "'o observer option \<Rightarrow> 'o send_ledger \<Rightarrow> bool" where
  "enforced_by ob l = (case ob of None \<Rightarrow> False | Some w \<Rightarrow> ob_enforced w (sl_obs l))"

definition max_safe_integer :: int where "max_safe_integer = 2 ^ 53 - 1"

definition start_request ::
    "'o observer option \<Rightarrow> budget_policy \<Rightarrow> string option \<Rightarrow> 'o send_ledger \<Rightarrow> 'o send_ledger" where
  "start_request ob p target l =
     (let l1 = (case ob of None \<Rightarrow> l | Some w \<Rightarrow> observe (ob_start w target) l)
      in if enforced_by ob l1 \<and> sl_physical_limit l1 = None
         then l1\<lparr>sl_physical_limit := Some (if max_total_model_sends p \<le> max_safe_integer
                  \<and> max_total_model_sends p > 0 then max_total_model_sends p else 0)\<rparr>
         else l1)"

definition claim_physical_send ::
    "'o observer option \<Rightarrow> budget_policy \<Rightarrow> 'o send_ledger \<Rightarrow> nat option \<times> 'o send_ledger" where
  "claim_physical_send ob p l =
     (let l1 = start_request ob p None l
      in case (if enforced_by ob l1 then sl_physical_limit l1 else None) of
           None \<Rightarrow> (None, l1)
         | Some limit \<Rightarrow>
             if int (sl_physical_started l1) \<ge> limit then (None, l1)
             else (Some (sl_physical_started l1 + 1),
                   l1\<lparr>sl_physical_started := sl_physical_started l1 + 1\<rparr>))"

text \<open>Run by \<open>use\<close> and \<open>assumeCharge\<close> before the send leaves.\<close>

definition start_physical ::
    "'o observer option \<Rightarrow> budget_policy \<Rightarrow> permit \<Rightarrow> 'o send_ledger
      \<Rightarrow> bool \<times> permit \<times> 'o send_ledger" where
  "start_physical ob p pm l = (case ob of
     None \<Rightarrow> (True, pm, l)
   | Some w \<Rightarrow>
       if \<not> ob_enforced w (sl_obs l) then (True, pm, l)
       else (let (sd, s1) = ob_seed w (pm_target pm) (pm_proof pm) (sl_obs l);
                 l1 = l\<lparr>sl_obs := s1\<rparr>
             in case sd of None \<Rightarrow> (False, pm, l1)
                | Some sd \<Rightarrow>
                    (case claim_physical_send ob p l1 of
                       (None, l2) \<Rightarrow> (False, pm, l2)
                     | (Some ordinal, l2) \<Rightarrow>
                         (let (pr, s2) = ob_begin w (sl_obs l2);
                              l3 = l2\<lparr>sl_obs := ob_begun w pr sd ordinal s2\<rparr>;
                              l4 = (if pm_executing pm then l3
                                    else observe (\<lambda>s. ob_close w pr (ob_report w pr 1 s)) l3)
                          in (True, pm\<lparr>pm_producer := Some pr\<rparr>, l4)))))"


section \<open>Reserving a dispatch\<close>

definition changes_target :: "budget_scope \<Rightarrow> dispatch_intent \<Rightarrow> bool" where
  "changes_target sc i \<longleftrightarrow> (case sc_last_target sc of None \<Rightarrow> False | Some t \<Rightarrow> t \<noteq> in_target i)"

definition is_alternate_target :: "budget_scope \<Rightarrow> dispatch_intent \<Rightarrow> bool" where
  "is_alternate_target sc i \<longleftrightarrow> changes_target sc i \<or> in_class i = AccountFailover
     \<or> in_class i = ComboFailover"

definition charges_transition :: "budget_scope \<Rightarrow> dispatch_intent \<Rightarrow> bool" where
  "charges_transition sc i \<longleftrightarrow> changes_target sc i \<and> \<not> in_rebased i"

definition charges_alternate :: "budget_scope \<Rightarrow> dispatch_intent \<Rightarrow> bool" where
  "charges_alternate sc i \<longleftrightarrow> is_alternate_target sc i \<and> \<not> in_rebased i"

definition draws_reserve :: "budget_scope \<Rightarrow> 'o send_ledger \<Rightarrow> bool" where
  "draws_reserve sc l \<longleftrightarrow> base_send_allowance (sc_policy sc) - sl_spent l \<le> 0"

text \<open>The checks of \<open>reserveDispatch\<close> that only read, in their order.\<close>

definition dispatch_denial ::
    "budget_scope \<Rightarrow> 'o send_ledger \<Rightarrow> dispatch_intent \<Rightarrow> budget_denial option" where
  "dispatch_denial sc l i =
     (let p = sc_policy sc in
      if in_replay_safe i = Some False then Some NotReplaySafe
      else if sl_spent l \<ge> max_total_model_sends p then Some TotalExhausted
      else if is_alternate_target sc i \<and> charges_transition sc i
              \<and> sc_transitions sc \<ge> max_target_transitions p then Some TargetTransitionExhausted
      else if charges_alternate sc i \<and> sc_alternate_sends sc \<ge> max_alternate_target_sends p
           then Some AlternateTargetExhausted
      else if draws_reserve sc l \<and> in_class i \<notin> set reserve_funded_classes
           then Some BaseAllowanceExhausted
      else if draws_reserve sc l \<and> (sc_reserve_spent sc \<or> final_recovery_allowance p \<le> 0)
           then Some FinalRecoverySpent
      else None)"

definition charge_observer ::
    "'o observer option \<Rightarrow> charge_kind \<Rightarrow> 'o send_ledger \<Rightarrow> bool \<times> spend_proof option \<times> 'o send_ledger" where
  "charge_observer ob k l = (case ob of
     None \<Rightarrow> (True, None, l)
   | Some w \<Rightarrow> (let (ok, pf, s) = ob_charge w k (sl_obs l) in (ok, pf, l\<lparr>sl_obs := s\<rparr>)))"

definition book_dispatch ::
    "dispatch_intent \<Rightarrow> spend_proof option \<Rightarrow> budget_scope \<Rightarrow> 'o send_ledger
      \<Rightarrow> permit \<times> budget_scope \<times> 'o send_ledger" where
  "book_dispatch i pf sc l =
     (let r = sl_next_receipt l in
      (\<lparr>pm_class = in_class i, pm_target = in_target i, pm_external = in_external i, pm_receipt = r,
        pm_draws_reserve = draws_reserve sc l, pm_charges_alternate = charges_alternate sc i,
        pm_charges_transition = charges_transition sc i, pm_proof = pf, pm_state = PermitOpen,
        pm_claimed = False, pm_executing = False, pm_producer = None\<rparr>,
       sc\<lparr>sc_reserve_spent := sc_reserve_spent sc \<or> draws_reserve sc l,
          sc_alternate_sends := sc_alternate_sends sc + (if charges_alternate sc i then 1 else 0),
          sc_transitions := sc_transitions sc + (if charges_transition sc i then 1 else 0),
          sc_last_target := Some (in_target i),
          sc_reservations := sc_reservations sc @ [(r, in_target i)]\<rparr>,
       l\<lparr>sl_spent := sl_spent l + 1, sl_next_receipt := r + 1,
         sl_pending := (if in_external i then sl_pending l @ [r] else sl_pending l)\<rparr>))"

definition reserve_dispatch ::
    "'o observer option \<Rightarrow> dispatch_intent \<Rightarrow> budget_scope \<Rightarrow> 'o send_ledger
      \<Rightarrow> (budget_denial + permit) \<times> budget_scope \<times> 'o send_ledger" where
  "reserve_dispatch ob i sc l = (case dispatch_denial sc l i of
     Some d \<Rightarrow> (Inl d, sc, l)
   | None \<Rightarrow>
       (let l1 = start_request ob (sc_policy sc) (Some (in_target i)) l;
            (ok, pf, l2) = charge_observer ob (ChargeReservation (in_target i)) l1
        in if \<not> ok then (Inl SpendExhausted, sc, l2)
           else (let (pm, sc', l3) = book_dispatch i pf sc l2 in (Inr pm, sc', l3))))"


section \<open>The permit\<close>

definition dispatch_proof :: "'o observer option \<Rightarrow> spend_proof option \<Rightarrow> 'o send_ledger \<Rightarrow> 'o send_ledger" where
  "dispatch_proof ob pf l = (case (ob, pf) of
     (Some w, Some x) \<Rightarrow> observe (ob_dispatch w x) l | _ \<Rightarrow> l)"

definition permit_use ::
    "'o observer option \<Rightarrow> budget_policy \<Rightarrow> permit \<Rightarrow> 'o send_ledger \<Rightarrow> bool \<times> permit \<times> 'o send_ledger" where
  "permit_use ob p pm l =
     (if pm_state pm \<noteq> PermitOpen then (False, pm, l)
      else (let (ok, pm1, l1) = (if pm_external pm then (True, pm, l) else start_physical ob p pm l)
            in if \<not> ok then (False, pm1, l1)
               else (True, pm1\<lparr>pm_state := PermitUsed\<rparr>,
                     if pm_external pm then l1 else dispatch_proof ob (pm_proof pm) l1)))"

definition permit_assume_charge ::
    "'o observer option \<Rightarrow> budget_policy \<Rightarrow> permit \<Rightarrow> 'o send_ledger \<Rightarrow> bool \<times> permit \<times> 'o send_ledger" where
  "permit_assume_charge ob p pm l =
     (if pm_state pm \<noteq> PermitOpen \<or> (pm_external pm \<and> pm_receipt pm \<notin> set (sl_pending l))
      then (False, pm, l)
      else (let (ok, pm1, l1) = start_physical ob p pm l
            in if \<not> ok then (False, pm1, l1)
               else (True, pm1\<lparr>pm_state := PermitUsed\<rparr>,
                     dispatch_proof ob (pm_proof pm)
                       (if pm_external pm then l1\<lparr>sl_pending := removeAll (pm_receipt pm) (sl_pending l1)\<rparr>
                        else l1))))"

fun drop_receipt :: "nat \<Rightarrow> (nat \<times> string) list \<Rightarrow> (nat \<times> string) list" where
  "drop_receipt r [] = []"
| "drop_receipt r ((k, t) # rest) = (if k = r then rest else (k, t) # drop_receipt r rest)"

definition last_reserved :: "(nat \<times> string) list \<Rightarrow> string option" where
  "last_reserved rs = (if rs = [] then None else Some (snd (last rs)))"

definition permit_release ::
    "'o observer option \<Rightarrow> permit \<Rightarrow> budget_scope \<Rightarrow> 'o send_ledger
      \<Rightarrow> permit \<times> budget_scope \<times> 'o send_ledger" where
  "permit_release ob pm sc l =
     (if pm_state pm \<noteq> PermitOpen then (pm, sc, l)
      else (let pm1 = pm\<lparr>pm_state := PermitReleased\<rparr>
            in if pm_external pm \<and> pm_receipt pm \<notin> set (sl_pending l) then (pm1, sc, l)
               else (let l1 = (if pm_external pm
                               then l\<lparr>sl_pending := removeAll (pm_receipt pm) (sl_pending l)\<rparr> else l);
                         l2 = l1\<lparr>sl_spent := sl_spent l1 - 1\<rparr>;
                         l3 = (case ob of None \<Rightarrow> l2 | Some w \<Rightarrow> observe (ob_refund w (pm_proof pm)) l2);
                         rs = drop_receipt (pm_receipt pm) (sc_reservations sc)
                     in (pm1,
                         sc\<lparr>sc_reserve_spent := (if pm_draws_reserve pm then False else sc_reserve_spent sc),
                            sc_alternate_sends := sc_alternate_sends sc - (if pm_charges_alternate pm then 1 else 0),
                            sc_transitions := sc_transitions sc - (if pm_charges_transition pm then 1 else 0),
                            sc_reservations := rs, sc_last_target := last_reserved rs\<rparr>,
                         l3))))"

text \<open>\<open>execute\<close> brackets the run of an executor: a start made inside is reported at its end.\<close>

definition permit_execute_begin :: "permit \<Rightarrow> permit option" where
  "permit_execute_begin pm = (if pm_executing pm then None else Some (pm\<lparr>pm_executing := True\<rparr>))"

definition permit_execute_end ::
    "'o observer option \<Rightarrow> permit \<Rightarrow> 'o send_ledger \<Rightarrow> permit \<times> 'o send_ledger" where
  "permit_execute_end ob pm l =
     (pm\<lparr>pm_executing := False\<rparr>,
      case (ob, pm_producer pm) of
        (Some w, Some pr) \<Rightarrow> observe (\<lambda>s. ob_close w pr (ob_report w pr 1 s)) l
      | _ \<Rightarrow> l)"


section \<open>Reports and the remaining views\<close>

text \<open>A receipt is reported at most once; \<open>claim\<close> hands the proof to one preflight.\<close>

definition report_receipt ::
    "'o observer option \<Rightarrow> permit \<Rightarrow> 'o send_ledger \<Rightarrow> bool \<times> 'o send_ledger" where
  "report_receipt ob pm l =
     (if pm_receipt pm \<notin> set (sl_pending l) then (False, l)
      else (let l1 = dispatch_proof ob (pm_proof pm) l
            in (True, l1\<lparr>sl_pending := removeAll (pm_receipt pm) (sl_pending l1)\<rparr>)))"

definition claim_proof :: "permit \<Rightarrow> 'o send_ledger \<Rightarrow> spend_proof option \<times> permit" where
  "claim_proof pm l =
     (if pm_claimed pm \<or> pm_state pm = PermitReleased
         \<or> (if pm_external pm then pm_receipt pm \<notin> set (sl_pending l) else pm_state pm \<noteq> PermitOpen)
      then (None, pm) else (pm_proof pm, pm\<lparr>pm_claimed := True\<rparr>))"

fun charge_reported :: "nat \<Rightarrow> 'o observer option \<Rightarrow> 'o send_ledger \<Rightarrow> 'o send_ledger" where
  "charge_reported 0 ob l = l"
| "charge_reported (Suc n) ob l = charge_reported n ob (snd (snd (charge_observer ob ChargeReported l)))"

definition set_used :: "'o observer option \<Rightarrow> int \<Rightarrow> 'o send_ledger \<Rightarrow> 'o send_ledger" where
  "set_used ob next_used l =
     (if enforced_by ob l then l
      else charge_reported (nat (next_used - sl_spent l)) ob (l\<lparr>sl_spent := max 0 next_used\<rparr>))"

definition report_dispatch_sends ::
    "'o observer option \<Rightarrow> jsnum \<Rightarrow> permit option \<Rightarrow> 'o send_ledger \<Rightarrow> 'o send_ledger" where
  "report_dispatch_sends ob sends pm l =
     (let n = max 0 (trunc_finite sends)
      in if n = 0 then l
         else (let (prepaid, l1) = (case pm of None \<Rightarrow> (False, l) | Some x \<Rightarrow> report_receipt ob x l)
               in set_used ob (sl_spent l1 + (n - (if prepaid then 1 else 0))) l1))"

definition remaining_base_sends :: "jsnum \<Rightarrow> budget_scope \<Rightarrow> 'o send_ledger \<Rightarrow> int" where
  "remaining_base_sends cap sc l =
     max 0 (min (trunc_finite cap) (base_send_allowance (sc_policy sc) - sl_spent l))"

definition bind_prepaid_target :: "string \<Rightarrow> budget_scope \<Rightarrow> budget_scope" where
  "bind_prepaid_target t sc = (if sc_last_target sc = None then sc\<lparr>sc_last_target := Some t\<rparr> else sc)"

end
