(* ===== verification/Request_Properties.thy ===== *)
theory Request_Properties
  imports Request_Budget
begin

text \<open>
  What the request budget promises over every state its scopes and permits can reach: the
  recovery counters count exactly the charges not given back, no admission crosses a bound of
  its policy, a permit is spent once, the observer is told of every counted send once, and the
  replacement grant respects the strictest limit any leg presented.
\<close>

section \<open>A request: its ledger, scopes and permits\<close>

text \<open>
  A permit is kept with the number of its scope and whether its charge still stands.
  \<open>rw_outside\<close> is the net number of sends reported without a receipt.
\<close>

type_synonym permit_row = "nat \<times> permit \<times> bool"

record 'o request_world =
  rw_ledger :: "'o send_ledger"
  rw_scopes :: "budget_scope list"
  rw_permits :: "permit_row list"
  rw_outside :: int

definition gives_back :: "permit \<Rightarrow> 'o send_ledger \<Rightarrow> bool" where
  "gives_back pm l \<longleftrightarrow> pm_state pm = PermitOpen
     \<and> \<not> (pm_external pm \<and> pm_receipt pm \<notin> set (sl_pending l))"

inductive request_reachable :: "'o observer option \<Rightarrow> 'o \<Rightarrow> 'o request_world \<Rightarrow> bool" for ob s0 where
  opened: "create_request_execution_budget p s0 = (sc, l) \<Longrightarrow>
    request_reachable ob s0 \<lparr>rw_ledger = l, rw_scopes = [sc], rw_permits = [], rw_outside = 0\<rparr>"
| derived: "request_reachable ob s0 w \<Longrightarrow> derive_request_execution_budget p (rw_ledger w) = (sc, l) \<Longrightarrow>
    request_reachable ob s0 (w\<lparr>rw_ledger := l, rw_scopes := rw_scopes w @ [sc]\<rparr>)"
| denied: "request_reachable ob s0 w \<Longrightarrow> i < length (rw_scopes w) \<Longrightarrow>
    reserve_dispatch ob x (rw_scopes w ! i) (rw_ledger w) = (Inl d, sc, l) \<Longrightarrow>
    request_reachable ob s0 (w\<lparr>rw_ledger := l, rw_scopes := (rw_scopes w)[i := sc]\<rparr>)"
| allowed: "request_reachable ob s0 w \<Longrightarrow> i < length (rw_scopes w) \<Longrightarrow>
    reserve_dispatch ob x (rw_scopes w ! i) (rw_ledger w) = (Inr pm, sc, l) \<Longrightarrow>
    request_reachable ob s0 (w\<lparr>rw_ledger := l, rw_scopes := (rw_scopes w)[i := sc],
      rw_permits := rw_permits w @ [(i, pm, True)]\<rparr>)"
| used: "request_reachable ob s0 w \<Longrightarrow> rw_permits w = a @ (i, pm, c) # b \<Longrightarrow>
    permit_use ob (sc_policy (rw_scopes w ! i)) pm (rw_ledger w) = (r, pm', l) \<Longrightarrow>
    request_reachable ob s0 (w\<lparr>rw_ledger := l, rw_permits := a @ (i, pm', c) # b\<rparr>)"
| assumed: "request_reachable ob s0 w \<Longrightarrow> rw_permits w = a @ (i, pm, c) # b \<Longrightarrow>
    permit_assume_charge ob (sc_policy (rw_scopes w ! i)) pm (rw_ledger w) = (r, pm', l) \<Longrightarrow>
    request_reachable ob s0 (w\<lparr>rw_ledger := l, rw_permits := a @ (i, pm', c) # b\<rparr>)"
| released: "request_reachable ob s0 w \<Longrightarrow> rw_permits w = a @ (i, pm, c) # b \<Longrightarrow>
    permit_release ob pm (rw_scopes w ! i) (rw_ledger w) = (pm', sc, l) \<Longrightarrow>
    request_reachable ob s0 (w\<lparr>rw_ledger := l, rw_scopes := (rw_scopes w)[i := sc],
      rw_permits := a @ (i, pm', c \<and> \<not> gives_back pm (rw_ledger w)) # b\<rparr>)"
| executing: "request_reachable ob s0 w \<Longrightarrow> rw_permits w = a @ (i, pm, c) # b \<Longrightarrow>
    permit_execute_begin pm = Some pm' \<Longrightarrow>
    request_reachable ob s0 (w\<lparr>rw_permits := a @ (i, pm', c) # b\<rparr>)"
| executed: "request_reachable ob s0 w \<Longrightarrow> rw_permits w = a @ (i, pm, c) # b \<Longrightarrow>
    permit_execute_end ob pm (rw_ledger w) = (pm', l) \<Longrightarrow>
    request_reachable ob s0 (w\<lparr>rw_ledger := l, rw_permits := a @ (i, pm', c) # b\<rparr>)"
| preflight: "request_reachable ob s0 w \<Longrightarrow> rw_permits w = a @ (i, pm, c) # b \<Longrightarrow>
    claim_proof pm (rw_ledger w) = (pf, pm') \<Longrightarrow>
    request_reachable ob s0 (w\<lparr>rw_permits := a @ (i, pm', c) # b\<rparr>)"
| reported: "request_reachable ob s0 w \<Longrightarrow> report_dispatch_sends ob n pm (rw_ledger w) = l \<Longrightarrow>
    request_reachable ob s0 (w\<lparr>rw_ledger := l,
      rw_outside := rw_outside w + (sl_spent l - sl_spent (rw_ledger w))\<rparr>)"
| started: "request_reachable ob s0 w \<Longrightarrow>
    request_reachable ob s0 (w\<lparr>rw_ledger := start_request ob p t (rw_ledger w)\<rparr>)"
| claimed: "request_reachable ob s0 w \<Longrightarrow>
    request_reachable ob s0 (w\<lparr>rw_ledger := snd (claim_physical_send ob p (rw_ledger w))\<rparr>)"
| resent: "request_reachable ob s0 w \<Longrightarrow>
    request_reachable ob s0 (w\<lparr>rw_ledger := (rw_ledger w)\<lparr>sl_grant :=
      snd (claim_ambiguous_resend n (sl_grant (rw_ledger w)))\<rparr>\<rparr>)"
| bound: "request_reachable ob s0 w \<Longrightarrow> i < length (rw_scopes w) \<Longrightarrow>
    request_reachable ob s0 (w\<lparr>rw_scopes := (rw_scopes w)[i := bind_prepaid_target t (rw_scopes w ! i)]\<rparr>)"

definition standing :: "(permit \<Rightarrow> bool) \<Rightarrow> nat \<Rightarrow> permit_row list \<Rightarrow> int" where
  "standing P i ps = (\<Sum>(k, pm, c)\<leftarrow>ps. if k = i \<and> c \<and> P pm then 1 else 0)"

definition all_standing :: "permit_row list \<Rightarrow> int" where
  "all_standing ps = (\<Sum>(k, pm, c)\<leftarrow>ps. if c then 1 else 0)"

definition rows :: "nat \<Rightarrow> permit_row list \<Rightarrow> (nat \<times> string) list" where
  "rows i ps = map (\<lambda>(k, pm, c). (pm_receipt pm, pm_target pm)) (filter (\<lambda>(k, pm, c). k = i \<and> c) ps)"

lemma standing_simps [simp]:
  "standing P i [] = 0" "all_standing [] = 0" "rows i [] = []"
  "standing P i (a @ b) = standing P i a + standing P i b"
  "all_standing (a @ b) = all_standing a + all_standing b"
  "rows i (a @ b) = rows i a @ rows i b"
  "standing P i ((k, pm, c) # b) = (if k = i \<and> c \<and> P pm then 1 else 0) + standing P i b"
  "all_standing ((k, pm, c) # b) = (if c then 1 else 0) + all_standing b"
  "rows i ((k, pm, c) # b) = (if k = i \<and> c then [(pm_receipt pm, pm_target pm)] else []) @ rows i b"
  by (simp_all add: standing_def all_standing_def rows_def)

lemma standing_nonneg: "0 \<le> standing P i ps" "0 \<le> all_standing ps"
  unfolding standing_def all_standing_def by (auto intro!: sum_list_nonneg)


section \<open>What the operations leave alone\<close>

lemma observe_simps [simp]:
  "sl_spent (observe f l) = sl_spent l" "sl_pending (observe f l) = sl_pending l"
  "sl_next_receipt (observe f l) = sl_next_receipt l" "sl_grant (observe f l) = sl_grant l"
  "sl_obs (observe f l) = f (sl_obs l)"
  by (simp_all add: observe_def)

lemma start_request_simps [simp]:
  "sl_spent (start_request ob p t l) = sl_spent l"
  "sl_pending (start_request ob p t l) = sl_pending l"
  "sl_next_receipt (start_request ob p t l) = sl_next_receipt l"
  "sl_grant (start_request ob p t l) = sl_grant l"
  by (cases ob; simp add: start_request_def Let_def)+

lemma claim_physical_simps [simp]:
  "sl_spent (snd (claim_physical_send ob p l)) = sl_spent l"
  "sl_pending (snd (claim_physical_send ob p l)) = sl_pending l"
  "sl_next_receipt (snd (claim_physical_send ob p l)) = sl_next_receipt l"
  "sl_grant (snd (claim_physical_send ob p l)) = sl_grant l"
  by (simp_all add: claim_physical_send_def Let_def split: option.splits)

lemma charge_observer_simps [simp]:
  "sl_spent (snd (snd (charge_observer ob k l))) = sl_spent l"
  "sl_pending (snd (snd (charge_observer ob k l))) = sl_pending l"
  "sl_next_receipt (snd (snd (charge_observer ob k l))) = sl_next_receipt l"
  by (simp_all add: charge_observer_def split_beta split: option.splits)

lemma dispatch_proof_simps [simp]:
  "sl_spent (dispatch_proof ob pf l) = sl_spent l"
  "sl_pending (dispatch_proof ob pf l) = sl_pending l"
  "sl_next_receipt (dispatch_proof ob pf l) = sl_next_receipt l"
  by (simp_all add: dispatch_proof_def split: option.splits)

text \<open>The part of a permit that says what it charged.\<close>

definition charge_of :: "permit \<Rightarrow> nat \<times> string \<times> bool \<times> bool \<times> bool \<times> bool \<times> spend_proof option" where
  "charge_of pm = (pm_receipt pm, pm_target pm, pm_external pm, pm_draws_reserve pm,
     pm_charges_alternate pm, pm_charges_transition pm, pm_proof pm)"

lemma start_physical_frame:
  assumes "start_physical ob p pm l = (r, pm', l')"
  shows "charge_of pm' = charge_of pm \<and> pm_state pm' = pm_state pm \<and> sl_spent l' = sl_spent l
    \<and> sl_pending l' = sl_pending l \<and> sl_next_receipt l' = sl_next_receipt l"
proof (cases ob)
  case None
  with assms show ?thesis by (simp add: start_physical_def)
next
  case (Some ow)
  obtain sd s1 where sd: "ob_seed ow (pm_target pm) (pm_proof pm) (sl_obs l) = (sd, s1)" by fastforce
  obtain oo l2 where cl: "claim_physical_send ob p (l\<lparr>sl_obs := s1\<rparr>) = (oo, l2)" by fastforce
  have "sl_spent l2 = sl_spent l" "sl_pending l2 = sl_pending l" "sl_next_receipt l2 = sl_next_receipt l"
    using claim_physical_simps [of ob p "l\<lparr>sl_obs := s1\<rparr>"] cl by simp_all
  with assms Some sd cl show ?thesis
    by (cases sd; cases oo) (auto simp: start_physical_def charge_of_def Let_def split_beta split: if_splits)
qed

lemma permit_use_frame:
  assumes "permit_use ob p pm l = (r, pm', l')"
  shows "charge_of pm' = charge_of pm \<and> (pm_state pm' = PermitOpen \<longrightarrow> pm_state pm = PermitOpen)
    \<and> sl_spent l' = sl_spent l \<and> sl_next_receipt l' = sl_next_receipt l
    \<and> (r \<longrightarrow> pm_state pm = PermitOpen \<and> pm_state pm' = PermitUsed)"
proof -
  obtain ok pm1 l1 where st: "start_physical ob p pm l = (ok, pm1, l1)" by (metis prod.exhaust)
  from assms start_physical_frame [OF st] st show ?thesis
    by (auto simp: permit_use_def charge_of_def split: if_splits)
qed

lemma permit_assume_frame:
  assumes "permit_assume_charge ob p pm l = (r, pm', l')"
  shows "charge_of pm' = charge_of pm \<and> (pm_state pm' = PermitOpen \<longrightarrow> pm_state pm = PermitOpen)
    \<and> sl_spent l' = sl_spent l \<and> sl_next_receipt l' = sl_next_receipt l
    \<and> (r \<longrightarrow> pm_state pm = PermitOpen \<and> pm_state pm' = PermitUsed)"
proof -
  obtain ok pm1 l1 where st: "start_physical ob p pm l = (ok, pm1, l1)" by (metis prod.exhaust)
  from assms start_physical_frame [OF st] st show ?thesis
    by (auto simp: permit_assume_charge_def charge_of_def split: if_splits)
qed

lemma execute_frame:
  "permit_execute_begin pm = Some pm' \<Longrightarrow> charge_of pm' = charge_of pm \<and> pm_state pm' = pm_state pm"
  "permit_execute_end ob pm l = (pm', l') \<Longrightarrow> charge_of pm' = charge_of pm \<and> pm_state pm' = pm_state pm
     \<and> sl_spent l' = sl_spent l \<and> sl_next_receipt l' = sl_next_receipt l"
  "claim_proof pm l = (pf, pm') \<Longrightarrow> charge_of pm' = charge_of pm \<and> pm_state pm' = pm_state pm"
  by (auto simp: permit_execute_begin_def permit_execute_end_def claim_proof_def charge_of_def
      split: if_splits option.splits)

lemma charge_reported_simps [simp]:
  "sl_spent (charge_reported n ob l) = sl_spent l"
  "sl_next_receipt (charge_reported n ob l) = sl_next_receipt l"
  by (induction n ob l rule: charge_reported.induct) simp_all

lemma report_receipt_frame:
  "report_receipt ob pm l = (r, l') \<Longrightarrow> sl_spent l' = sl_spent l \<and> sl_next_receipt l' = sl_next_receipt l"
  by (auto simp: report_receipt_def Let_def split: if_splits)

lemma report_frame:
  assumes "0 \<le> sl_spent l"
  shows "sl_spent l \<le> sl_spent (report_dispatch_sends ob n pm l)
    \<and> sl_next_receipt (report_dispatch_sends ob n pm l) = sl_next_receipt l"
proof -
  obtain r l1 where r: "(case pm of None \<Rightarrow> (False, l) | Some x \<Rightarrow> report_receipt ob x l) = (r, l1)" by fastforce
  have "sl_spent l1 = sl_spent l \<and> sl_next_receipt l1 = sl_next_receipt l"
    using r by (cases pm) (auto dest: report_receipt_frame)
  with r assms show ?thesis
    by (auto simp: report_dispatch_sends_def set_used_def Let_def)
qed


section \<open>The invariant\<close>

definition scope_ok :: "nat \<Rightarrow> budget_scope \<Rightarrow> permit_row list \<Rightarrow> bool" where
  "scope_ok i sc ps \<longleftrightarrow> sc_alternate_sends sc = standing pm_charges_alternate i ps
     \<and> sc_transitions sc = standing pm_charges_transition i ps
     \<and> standing pm_draws_reserve i ps = (if sc_reserve_spent sc then 1 else 0)
     \<and> sc_alternate_sends sc \<le> max 0 (max_alternate_target_sends (sc_policy sc))
     \<and> sc_transitions sc \<le> max 0 (max_target_transitions (sc_policy sc))
     \<and> sc_reservations sc = rows i ps
     \<and> (sc_reservations sc \<noteq> [] \<longrightarrow> sc_last_target sc = last_reserved (sc_reservations sc))"

definition request_ok :: "'o request_world \<Rightarrow> bool" where
  "request_ok w \<longleftrightarrow> (\<forall>i < length (rw_scopes w). scope_ok i (rw_scopes w ! i) (rw_permits w))
     \<and> (\<forall>(k, pm, c) \<in> set (rw_permits w). k < length (rw_scopes w) \<and> pm_receipt pm < sl_next_receipt (rw_ledger w)
          \<and> (pm_state pm = PermitOpen \<longrightarrow> c))
     \<and> distinct (map (\<lambda>(k, pm, c). pm_receipt pm) (rw_permits w))
     \<and> sl_spent (rw_ledger w) = all_standing (rw_permits w) + rw_outside w \<and> 0 \<le> rw_outside w"

lemma request_okD:
  assumes "request_ok w"
  shows "i < length (rw_scopes w) \<Longrightarrow> scope_ok i (rw_scopes w ! i) (rw_permits w)"
    and "sl_spent (rw_ledger w) = all_standing (rw_permits w) + rw_outside w" "0 \<le> rw_outside w"
    and "0 \<le> sl_spent (rw_ledger w)"
  using assms standing_nonneg(2) [of "rw_permits w"] by (auto simp: request_ok_def)

lemma scope_ok_same_charge:
  assumes "charge_of pm' = charge_of pm"
  shows "scope_ok j sc (a @ (i, pm', c) # b) = scope_ok j sc (a @ (i, pm, c) # b)"
proof -
  have "standing P j (a @ (i, pm', c) # b) = standing P j (a @ (i, pm, c) # b)"
    if "P \<in> {pm_charges_alternate, pm_charges_transition, pm_draws_reserve}" for P
    using that assms by (auto simp: charge_of_def)
  then show ?thesis using assms by (simp add: scope_ok_def charge_of_def)
qed

text \<open>A step that changes one permit but not its charge, and the ledger but not its count.\<close>

lemma request_ok_same_charge:
  assumes ok: "request_ok w" and ps: "rw_permits w = a @ (i, pm, c) # b"
    and ch: "charge_of pm' = charge_of pm" "pm_state pm' = PermitOpen \<longrightarrow> pm_state pm = PermitOpen"
    and l: "sl_spent l = sl_spent (rw_ledger w)" "sl_next_receipt l = sl_next_receipt (rw_ledger w)"
  shows "request_ok (w\<lparr>rw_ledger := l, rw_permits := a @ (i, pm', c) # b\<rparr>)"
  using ok ch l scope_ok_same_charge [OF ch(1)]
  by (auto simp: request_ok_def ps charge_of_def)

lemma request_ok_ledger:
  assumes "request_ok w" "sl_spent l = sl_spent (rw_ledger w)" "sl_next_receipt l = sl_next_receipt (rw_ledger w)"
  shows "request_ok (w\<lparr>rw_ledger := l\<rparr>)"
  using assms by (simp add: request_ok_def)

lemma reserve_denied:
  assumes "reserve_dispatch ob x sc l = (Inl d, sc', l')"
  shows "sc' = sc \<and> sl_spent l' = sl_spent l \<and> sl_next_receipt l' = sl_next_receipt l"
proof (cases "dispatch_denial sc l x")
  case (Some d')
  with assms show ?thesis by (simp add: reserve_dispatch_def)
next
  case None
  obtain ok pf l2 where c: "charge_observer ob (ChargeReservation (in_target x))
      (start_request ob (sc_policy sc) (Some (in_target x)) l) = (ok, pf, l2)" by (metis prod.exhaust)
  with charge_observer_simps [of ob "ChargeReservation (in_target x)"
      "start_request ob (sc_policy sc) (Some (in_target x)) l"] assms None show ?thesis
    by (auto simp: reserve_dispatch_def Let_def book_dispatch_def split: if_splits)
qed

lemma reserve_allowed:
  assumes "reserve_dispatch ob x sc l = (Inr pm, sc', l')"
  obtains pf l2 where "dispatch_denial sc l x = None" "book_dispatch x pf sc l2 = (pm, sc', l')"
    "sl_spent l2 = sl_spent l" "sl_next_receipt l2 = sl_next_receipt l" "sl_pending l2 = sl_pending l"
    "charge_observer ob (ChargeReservation (in_target x))
      (start_request ob (sc_policy sc) (Some (in_target x)) l) = (True, pf, l2)"
proof (cases "dispatch_denial sc l x")
  case (Some d')
  with assms show ?thesis by (simp add: reserve_dispatch_def)
next
  case None
  obtain ok pf l2 where c: "charge_observer ob (ChargeReservation (in_target x))
      (start_request ob (sc_policy sc) (Some (in_target x)) l) = (ok, pf, l2)" by (metis prod.exhaust)
  note f = charge_observer_simps [of ob "ChargeReservation (in_target x)"
      "start_request ob (sc_policy sc) (Some (in_target x)) l", unfolded c]
  have "ok" "book_dispatch x pf sc l2 = (pm, sc', l')"
    using assms None c by (auto simp: reserve_dispatch_def Let_def split: if_splits prod.splits)
  with that [OF None, of pf l2] f c show ?thesis by simp
qed

lemma denial_none:
  assumes "dispatch_denial sc l x = None"
  shows "in_replay_safe x \<noteq> Some False \<and> sl_spent l < max_total_model_sends (sc_policy sc)
    \<and> (charges_transition sc x \<longrightarrow> sc_transitions sc < max_target_transitions (sc_policy sc))
    \<and> (charges_alternate sc x \<longrightarrow> sc_alternate_sends sc < max_alternate_target_sends (sc_policy sc))
    \<and> (draws_reserve sc l \<longrightarrow> in_class x \<in> set reserve_funded_classes \<and> \<not> sc_reserve_spent sc
        \<and> 0 < final_recovery_allowance (sc_policy sc))"
proof -
  have "charges_transition sc x \<Longrightarrow> is_alternate_target sc x"
    by (simp add: charges_transition_def is_alternate_target_def)
  with assms show ?thesis by (auto simp: dispatch_denial_def Let_def split: if_splits)
qed

lemma book_dispatch_scope:
  assumes "book_dispatch x pf sc l = (pm, sc', l')"
  shows "sc' = sc\<lparr>sc_reserve_spent := sc_reserve_spent sc \<or> draws_reserve sc l,
          sc_alternate_sends := sc_alternate_sends sc + (if charges_alternate sc x then 1 else 0),
          sc_transitions := sc_transitions sc + (if charges_transition sc x then 1 else 0),
          sc_last_target := Some (in_target x),
          sc_reservations := sc_reservations sc @ [(sl_next_receipt l, in_target x)]\<rparr>"
    and "sl_spent l' = sl_spent l + 1"
proof -
  have "sc' = fst (snd (book_dispatch x pf sc l))" and "l' = snd (snd (book_dispatch x pf sc l))"
    using assms by simp_all
  then show "sc' = sc\<lparr>sc_reserve_spent := sc_reserve_spent sc \<or> draws_reserve sc l,
          sc_alternate_sends := sc_alternate_sends sc + (if charges_alternate sc x then 1 else 0),
          sc_transitions := sc_transitions sc + (if charges_transition sc x then 1 else 0),
          sc_last_target := Some (in_target x),
          sc_reservations := sc_reservations sc @ [(sl_next_receipt l, in_target x)]\<rparr>"
    and "sl_spent l' = sl_spent l + 1"
    by (simp_all only: book_dispatch_def Let_def fst_conv snd_conv) simp
qed

lemma drop_receipt_middle:
  "r \<notin> fst ` set xs \<Longrightarrow> drop_receipt r (xs @ (r, t) # ys) = xs @ ys"
  by (induction xs) auto

lemma rows_receipts: "fst ` set (rows i ps) \<subseteq> set (map (\<lambda>(k, pm, c). pm_receipt pm) ps)"
  by (force simp: rows_def)

lemma no_rows:
  assumes "\<forall>(k, pm, c) \<in> set ps. k < n"
  shows "standing P n ps = 0" "rows n ps = []"
  using assms by (induction ps) auto

lemma released_back:
  assumes ok: "request_ok w" and ps: "rw_permits w = a @ (i, pm, c) # b"
    and rel: "permit_release ob pm (rw_scopes w ! i) (rw_ledger w) = (pm', sc, l)"
    and gb: "gives_back pm (rw_ledger w)"
  shows "request_ok (w\<lparr>rw_ledger := l, rw_scopes := (rw_scopes w)[i := sc],
      rw_permits := a @ (i, pm', False) # b\<rparr>)"
proof -
  have i: "i < length (rw_scopes w)" and c: "c" and dist: "pm_receipt pm \<notin> set (map (\<lambda>(k, pm, c). pm_receipt pm) (a @ b))"
    using ok gb by (auto simp: request_ok_def ps gives_back_def)
  have fr: "pm_receipt pm \<notin> fst ` set (rows i a)"
    using dist rows_receipts [of i a] by auto
  have rs: "drop_receipt (pm_receipt pm) (sc_reservations (rw_scopes w ! i)) = rows i a @ rows i b"
    using request_okD(1) [OF ok i] c drop_receipt_middle [OF fr] by (simp add: scope_ok_def ps)
  have st: "pm_state pm = PermitOpen" "(pm_external pm \<and> pm_receipt pm \<notin> set (sl_pending (rw_ledger w))) = False"
    using gb by (simp_all add: gives_back_def)
  have parts: "pm' = fst (permit_release ob pm (rw_scopes w ! i) (rw_ledger w))"
    "sc = fst (snd (permit_release ob pm (rw_scopes w ! i) (rw_ledger w)))"
    "l = snd (snd (permit_release ob pm (rw_scopes w ! i) (rw_ledger w)))"
    using rel by simp_all
  have pm': "charge_of pm' = charge_of pm" "pm_state pm' = PermitReleased"
    and l: "sl_spent l = sl_spent (rw_ledger w) - 1" "sl_next_receipt l = sl_next_receipt (rw_ledger w)"
    and sc: "sc = (rw_scopes w ! i)\<lparr>sc_reserve_spent := (if pm_draws_reserve pm then False else sc_reserve_spent (rw_scopes w ! i)),
        sc_alternate_sends := sc_alternate_sends (rw_scopes w ! i) - (if pm_charges_alternate pm then 1 else 0),
        sc_transitions := sc_transitions (rw_scopes w ! i) - (if pm_charges_transition pm then 1 else 0),
        sc_reservations := rows i a @ rows i b, sc_last_target := last_reserved (rows i a @ rows i b)\<rparr>"
    unfolding parts by (simp_all add: permit_release_def st Let_def rs charge_of_def observe_def split: option.split)
  have "scope_ok i sc (a @ (i, pm', False) # b)"
    using request_okD(1) [OF ok i] c standing_nonneg(1) [of pm_draws_reserve i a]
      standing_nonneg(1) [of pm_draws_reserve i b]
    unfolding scope_ok_def ps sc by (auto split: if_splits)
  moreover have "scope_ok j s (a @ (i, pm', False) # b) = scope_ok j s (a @ (i, pm, c) # b)" if "j \<noteq> i" for j s
    using that by (simp add: scope_ok_def)
  ultimately show ?thesis
    using ok pm' l c i by (auto simp: request_ok_def ps nth_list_update charge_of_def)
qed

lemma reserved_ok:
  assumes ok: "request_ok w" and i: "i < length (rw_scopes w)"
    and res: "reserve_dispatch ob x (rw_scopes w ! i) (rw_ledger w) = (Inr pm, sc, l)"
  shows "request_ok (w\<lparr>rw_ledger := l, rw_scopes := (rw_scopes w)[i := sc],
      rw_permits := rw_permits w @ [(i, pm, True)]\<rparr>)"
proof -
  obtain pf l2 where d: "dispatch_denial (rw_scopes w ! i) (rw_ledger w) x = None"
    and b: "book_dispatch x pf (rw_scopes w ! i) l2 = (pm, sc, l)"
    and l2: "sl_spent l2 = sl_spent (rw_ledger w)" "sl_next_receipt l2 = sl_next_receipt (rw_ledger w)"
    by (rule reserve_allowed [OF res])
  have dr: "draws_reserve (rw_scopes w ! i) l2 = draws_reserve (rw_scopes w ! i) (rw_ledger w)"
    by (simp add: draws_reserve_def l2)
  note n = denial_none [OF d, folded dr]
  let ?o = "rw_scopes w ! i"
  have pmf: "pm_draws_reserve pm = draws_reserve ?o l2" "pm_charges_alternate pm = charges_alternate ?o x"
    "pm_charges_transition pm = charges_transition ?o x" "pm_target pm = in_target x"
    "pm_receipt pm = sl_next_receipt l2" and scf: "sc = ?o\<lparr>sc_reserve_spent := sc_reserve_spent ?o \<or> draws_reserve ?o l2,
          sc_alternate_sends := sc_alternate_sends ?o + (if charges_alternate ?o x then 1 else 0),
          sc_transitions := sc_transitions ?o + (if charges_transition ?o x then 1 else 0),
          sc_last_target := Some (in_target x),
          sc_reservations := sc_reservations ?o @ [(sl_next_receipt l2, in_target x)]\<rparr>"
    using b by (auto simp: book_dispatch_def Let_def)
  have scok: "scope_ok i sc (rw_permits w @ [(i, pm, True)])"
    using n request_okD(1) [OF ok i]
    unfolding scope_ok_def scf by (simp add: pmf last_reserved_def) (auto simp: max_def)
  have other: "scope_ok j sc' (rw_permits w @ [(i, pm, True)]) = scope_ok j sc' (rw_permits w)"
    if "j \<noteq> i" for j sc'
    using that by (simp add: scope_ok_def)
  have l: "sl_spent l = sl_spent (rw_ledger w) + 1" "sl_next_receipt l = sl_next_receipt (rw_ledger w) + 1"
    "pm_receipt pm = sl_next_receipt (rw_ledger w)"
    using b l2 by (auto simp: book_dispatch_def Let_def)
  have "\<forall>j < length (rw_scopes w). scope_ok j ((rw_scopes w)[i := sc] ! j) (rw_permits w @ [(i, pm, True)])"
  proof (intro allI impI)
    fix j assume j: "j < length (rw_scopes w)"
    show "scope_ok j ((rw_scopes w)[i := sc] ! j) (rw_permits w @ [(i, pm, True)])"
    proof (cases "j = i")
      case True
      with scok i show ?thesis by simp
    next
      case False
      with other request_okD(1) [OF ok j] show ?thesis by simp
    qed
  qed
  moreover have "pm_receipt pm \<notin> set (map (\<lambda>(k, pm, c). pm_receipt pm) (rw_permits w))"
    using ok l(3) by (force simp: request_ok_def)
  moreover have "\<forall>(k, pm', c) \<in> set (rw_permits w @ [(i, pm, True)]). k < length (rw_scopes w)
      \<and> pm_receipt pm' < sl_next_receipt l \<and> (pm_state pm' = PermitOpen \<longrightarrow> c)"
    using ok l i by (force simp: request_ok_def)
  ultimately show ?thesis
    using ok l(1) by (simp add: request_ok_def)
qed

lemma reachable_request_ok:
  assumes "request_reachable ob s0 w"
  shows "request_ok w"
  using assms
proof induction
  case (opened p sc l)
  then show ?case
    by (auto simp: create_request_execution_budget_def request_ok_def scope_ok_def fresh_scope_def
        fresh_send_ledger_def)
next
  case (derived w p sc l)
  have "\<forall>(k, pm, c) \<in> set (rw_permits w). k < length (rw_scopes w)" using derived.IH by (auto simp: request_ok_def)
  note none = no_rows [OF this]
  with derived show ?case
    by (auto simp: request_ok_def derive_request_execution_budget_def fresh_scope_def scope_ok_def
        nth_append less_Suc_eq)
next
  case (denied w i x d sc l)
  from reserve_denied [OF denied.hyps(3)] request_ok_ledger [OF denied.IH, of l] show ?case
    by (simp add: list_update_id)
next
  case (allowed w i x pm sc l)
  then show ?case by (intro reserved_ok)
next
  case (used w a i pm c b r pm' l)
  show ?case
    using request_ok_same_charge [OF used.IH used.hyps(2), of pm' l] permit_use_frame [OF used.hyps(3)]
    by simp
next
  case (assumed w a i pm c b r pm' l)
  show ?case
    using request_ok_same_charge [OF assumed.IH assumed.hyps(2), of pm' l] permit_assume_frame [OF assumed.hyps(3)]
    by simp
next
  case (executing w a i pm c b pm')
  show ?case
    using request_ok_same_charge [OF executing.IH executing.hyps(2), of pm' "rw_ledger w"]
      execute_frame(1) [OF executing.hyps(3)]
    by simp
next
  case (executed w a i pm c b pm' l)
  show ?case
    using request_ok_same_charge [OF executed.IH executed.hyps(2), of pm' l] execute_frame(2) [OF executed.hyps(3)]
    by simp
next
  case (preflight w a i pm c b pf pm')
  show ?case
    using request_ok_same_charge [OF preflight.IH preflight.hyps(2), of pm' "rw_ledger w"]
      execute_frame(3) [OF preflight.hyps(3)]
    by simp
next
  case (reported w n pm l)
  show ?case
    using report_frame [OF request_okD(4) [OF reported.IH], of ob n pm] reported.IH
    unfolding reported.hyps(2) by (simp add: request_ok_def)
next
  case (bound w i t)
  have "scope_ok i (bind_prepaid_target t sc) ps" if "scope_ok i sc ps" for sc ps
    using that by (auto simp: bind_prepaid_target_def scope_ok_def last_reserved_def)
  with bound show ?case by (auto simp: request_ok_def nth_list_update)
next
  case (released w a i pm c b pm' sc l)
  have ok: "request_ok w" by (rule released.IH)
  show ?case
  proof (cases "gives_back pm (rw_ledger w)")
    case True
    with released_back [OF ok released.hyps(2,3) True] show ?thesis by simp
  next
    case False
    with released.hyps(3) have *: "charge_of pm' = charge_of pm" "sc = rw_scopes w ! i" "l = rw_ledger w"
      "pm_state pm' = PermitOpen \<longrightarrow> pm_state pm = PermitOpen"
      by (auto simp: permit_release_def gives_back_def charge_of_def Let_def split: if_splits)
    from request_ok_same_charge [OF ok released.hyps(2) *(1,4), of l] *(2,3) False show ?thesis
      by (simp add: list_update_id)
  qed
qed (auto intro: request_ok_ledger)


section \<open>The properties\<close>

text \<open>
  C14. The recovery counters of every scope are exact. In every reachable state of a request the
  alternate-target and transition counters are the numbers of the scope's charges not given
  back and within the policy, at most one standing charge drew the final reserve, exactly when
  the scope says so, and the shared counter is the standing charges of all scopes plus the
  sends reported without a receipt.
\<close>

theorem scope_counters_exact:
  assumes "request_reachable ob s0 w" "i < length (rw_scopes w)"
  shows "sc_alternate_sends (rw_scopes w ! i) = standing pm_charges_alternate i (rw_permits w)
    \<and> sc_alternate_sends (rw_scopes w ! i) \<le> max 0 (max_alternate_target_sends (sc_policy (rw_scopes w ! i)))
    \<and> sc_transitions (rw_scopes w ! i) = standing pm_charges_transition i (rw_permits w)
    \<and> sc_transitions (rw_scopes w ! i) \<le> max 0 (max_target_transitions (sc_policy (rw_scopes w ! i)))
    \<and> standing pm_draws_reserve i (rw_permits w) = (if sc_reserve_spent (rw_scopes w ! i) then 1 else 0)
    \<and> sl_spent (rw_ledger w) = all_standing (rw_permits w) + rw_outside w \<and> 0 \<le> rw_outside w"
  using request_okD [OF reachable_request_ok [OF assms(1)]] assms(2) unfolding scope_ok_def by blast

definition counting_observer :: "int observer" where
  "counting_observer = \<lparr>ob_charge = (\<lambda>k s. (True, Some 0, s + 1)), ob_enforced = (\<lambda>s. False),
     ob_start = (\<lambda>t s. s), ob_seed = (\<lambda>t pf s. (Some 0, s)), ob_begin = (\<lambda>s. (0, s)),
     ob_begun = (\<lambda>r sd n s. s), ob_report = (\<lambda>r n s. s), ob_close = (\<lambda>r s. s),
     ob_dispatch = (\<lambda>pf s. s), ob_refund = (\<lambda>pf s. s - 1)\<rparr>"

definition first_send :: dispatch_intent where
  "first_send = \<lparr>in_class = Initial, in_target = ''a'', in_replay_safe = None, in_external = False,
     in_rebased = False\<rparr>"

definition new_request :: "int request_world" where
  "new_request = \<lparr>rw_ledger = fresh_send_ledger 0, rw_scopes = [fresh_scope codex_text_guarded_budget_policy],
     rw_permits = [], rw_outside = 0\<rparr>"

definition first_reserved :: "(budget_denial + permit) \<times> budget_scope \<times> int send_ledger" where
  "first_reserved = reserve_dispatch (Some counting_observer) first_send
     (fresh_scope codex_text_guarded_budget_policy) (fresh_send_ledger 0)"

definition one_dispatch :: "int request_world" where
  "one_dispatch = \<lparr>rw_ledger = snd (snd first_reserved), rw_scopes = [fst (snd first_reserved)],
     rw_permits = [(0, projr (fst first_reserved), True)], rw_outside = 0\<rparr>"

lemma first_reserved_eq: "first_reserved = (Inr (projr (fst first_reserved)), snd first_reserved)"
proof -
  have "isl (fst first_reserved) = False" by code_simp
  then show ?thesis by (simp add: prod_eq_iff)
qed

lemma reachable_new_request: "request_reachable (Some counting_observer) 0 new_request"
  unfolding new_request_def
  by (rule request_reachable.opened [where p = codex_text_guarded_budget_policy])
    (simp add: create_request_execution_budget_def)

lemma reachable_one_dispatch: "request_reachable (Some counting_observer) 0 one_dispatch"
proof -
  have "reserve_dispatch (Some counting_observer) first_send (rw_scopes new_request ! 0) (rw_ledger new_request)
      = (Inr (projr (fst first_reserved)), fst (snd first_reserved), snd (snd first_reserved))"
    using first_reserved_eq by (simp add: new_request_def first_reserved_def)
  from request_reachable.allowed [OF reachable_new_request _ this] show ?thesis
    by (simp add: new_request_def one_dispatch_def)
qed

lemma scope_counters_exact_witness:
  "sc_alternate_sends (rw_scopes one_dispatch ! 0) = standing pm_charges_alternate 0 (rw_permits one_dispatch)
    \<and> sc_alternate_sends (rw_scopes one_dispatch ! 0)
        \<le> max 0 (max_alternate_target_sends (sc_policy (rw_scopes one_dispatch ! 0)))
    \<and> sc_transitions (rw_scopes one_dispatch ! 0) = standing pm_charges_transition 0 (rw_permits one_dispatch)
    \<and> sc_transitions (rw_scopes one_dispatch ! 0)
        \<le> max 0 (max_target_transitions (sc_policy (rw_scopes one_dispatch ! 0)))
    \<and> standing pm_draws_reserve 0 (rw_permits one_dispatch) = (if sc_reserve_spent (rw_scopes one_dispatch ! 0) then 1 else 0)
    \<and> sl_spent (rw_ledger one_dispatch) = all_standing (rw_permits one_dispatch) + rw_outside one_dispatch
    \<and> 0 \<le> rw_outside one_dispatch"
  by (rule scope_counters_exact [OF reachable_one_dispatch]) (simp add: one_dispatch_def)

text \<open>
  C15. The reservation is the charge, and no charge crosses a bound. An allowed dispatch is
  replay-safe, found total allowance left and booked one send at once; past the base allowance
  it is of a recovery class and takes the one final reserve, which was free; a move to another
  target is still within the transition and alternate-target bounds after it. A refused one
  changes no counter of the scope or the ledger.
\<close>

theorem dispatch_within_policy:
  "case reserve_dispatch ob x sc l of
     (Inl d, sc', l') \<Rightarrow> sc' = sc \<and> sl_spent l' = sl_spent l \<and> sl_pending l' = sl_pending l
   | (Inr pm, sc', l') \<Rightarrow> in_replay_safe x \<noteq> Some False
       \<and> sl_spent l < max_total_model_sends (sc_policy sc) \<and> sl_spent l' = sl_spent l + 1
       \<and> (if base_send_allowance (sc_policy sc) \<le> sl_spent l
           then in_class x \<in> set reserve_funded_classes \<and> \<not> sc_reserve_spent sc \<and> sc_reserve_spent sc'
             \<and> 0 < final_recovery_allowance (sc_policy sc)
           else sc_reserve_spent sc' = sc_reserve_spent sc)
       \<and> (if charges_transition sc x
           then sc_transitions sc' = sc_transitions sc + 1
             \<and> sc_transitions sc' \<le> max_target_transitions (sc_policy sc)
           else sc_transitions sc' = sc_transitions sc)
       \<and> (if charges_alternate sc x
           then sc_alternate_sends sc' = sc_alternate_sends sc + 1
             \<and> sc_alternate_sends sc' \<le> max_alternate_target_sends (sc_policy sc)
           else sc_alternate_sends sc' = sc_alternate_sends sc)
       \<and> sc_last_target sc' = Some (in_target x)"
proof (cases "reserve_dispatch ob x sc l")
  case (fields r sc' l')
  show ?thesis
  proof (cases r)
    case (Inl d)
    have "sl_pending l' = sl_pending l"
    proof (cases "dispatch_denial sc l x")
      case None
      obtain ok pf l2 where c: "charge_observer ob (ChargeReservation (in_target x))
          (start_request ob (sc_policy sc) (Some (in_target x)) l) = (ok, pf, l2)" by (metis prod.exhaust)
      with charge_observer_simps(2) [of ob "ChargeReservation (in_target x)"
          "start_request ob (sc_policy sc) (Some (in_target x)) l"] fields Inl None show ?thesis
        by (auto simp: reserve_dispatch_def Let_def book_dispatch_def split: if_splits)
    qed (use fields Inl in \<open>simp add: reserve_dispatch_def\<close>)
    with reserve_denied fields Inl show ?thesis by fastforce
  next
    case (Inr pm)
    from fields Inr have res: "reserve_dispatch ob x sc l = (Inr pm, sc', l')" by simp
    obtain pf l2 where d: "dispatch_denial sc l x = None" and b: "book_dispatch x pf sc l2 = (pm, sc', l')"
      and l2: "sl_spent l2 = sl_spent l"
      by (rule reserve_allowed [OF res])
    have "draws_reserve sc l2 = draws_reserve sc l" "draws_reserve sc l = (base_send_allowance (sc_policy sc) \<le> sl_spent l)"
      by (simp_all add: draws_reserve_def l2)
    note dr = this
    from denial_none [OF d] have ok: "in_replay_safe x \<noteq> Some False" "sl_spent l < max_total_model_sends (sc_policy sc)"
      and mv: "charges_transition sc x \<Longrightarrow> sc_transitions sc < max_target_transitions (sc_policy sc)"
      and al: "charges_alternate sc x \<Longrightarrow> sc_alternate_sends sc < max_alternate_target_sends (sc_policy sc)"
      and fr: "draws_reserve sc l \<Longrightarrow> in_class x \<in> set reserve_funded_classes \<and> \<not> sc_reserve_spent sc
        \<and> 0 < final_recovery_allowance (sc_policy sc)" by blast+
    have tr: "if charges_transition sc x then sc_transitions sc' = sc_transitions sc + 1
        \<and> sc_transitions sc' \<le> max_target_transitions (sc_policy sc) else sc_transitions sc' = sc_transitions sc"
      using mv unfolding book_dispatch_scope(1) [OF b] by (cases "charges_transition sc x") auto
    have alt: "if charges_alternate sc x then sc_alternate_sends sc' = sc_alternate_sends sc + 1
        \<and> sc_alternate_sends sc' \<le> max_alternate_target_sends (sc_policy sc)
        else sc_alternate_sends sc' = sc_alternate_sends sc"
      using al unfolding book_dispatch_scope(1) [OF b] by (cases "charges_alternate sc x") auto
    have rsv: "sc_reserve_spent sc' = (sc_reserve_spent sc \<or> draws_reserve sc l)" "sc_last_target sc' = Some (in_target x)"
      unfolding book_dispatch_scope(1) [OF b] dr(1) by simp_all
    show ?thesis
      unfolding res prod.case sum.case
      using ok tr alt rsv fr dr(2) book_dispatch_scope(2) [OF b] l2 by (cases "draws_reserve sc l") simp_all
  qed
qed

text \<open>
  C16. A permit is spent once. After a use, an assumed charge or a release, further uses and
  charges are refused and further releases do nothing, whatever the ledger is by then. A receipt
  an external reporter settled is settled once and can no longer be given back.
\<close>

theorem permit_spent_once:
  assumes "permit_use ob p pm l = (True, pm1, l1) \<or> permit_assume_charge ob p pm l = (True, pm1, l1)
    \<or> permit_release ob pm sc l = (pm1, sc1, l1)"
  shows "permit_use ob p' pm1 l2 = (False, pm1, l2) \<and> permit_assume_charge ob p' pm1 l2 = (False, pm1, l2)
    \<and> permit_release ob pm1 sc2 l2 = (pm1, sc2, l2)
    \<and> report_receipt ob pm (snd (report_receipt ob pm l)) = (False, snd (report_receipt ob pm l))
    \<and> (if pm_external pm then snd (snd (permit_release ob pm sc (snd (report_receipt ob pm l))))
          = snd (report_receipt ob pm l) else True)"
proof -
  have "pm_state pm1 \<noteq> PermitOpen"
    using assms permit_use_frame [of ob p pm l True pm1 l1] permit_assume_frame [of ob p pm l True pm1 l1]
    by (auto simp: permit_release_def Let_def split: if_splits)
  moreover have "pm_receipt pm \<notin> set (sl_pending (snd (report_receipt ob pm l)))"
    by (simp add: report_receipt_def Let_def)
  ultimately show ?thesis
    by (auto simp: permit_use_def permit_assume_charge_def permit_release_def report_receipt_def Let_def)
qed

lemma permit_spent_once_witness:
  "permit_use (Some counting_observer) codex_text_guarded_budget_policy
      ((projr (fst first_reserved))\<lparr>pm_state := PermitUsed\<rparr>) (rw_ledger one_dispatch)
     = (False, (projr (fst first_reserved))\<lparr>pm_state := PermitUsed\<rparr>, rw_ledger one_dispatch)
   \<and> permit_assume_charge (Some counting_observer) codex_text_guarded_budget_policy
      ((projr (fst first_reserved))\<lparr>pm_state := PermitUsed\<rparr>) (rw_ledger one_dispatch)
     = (False, (projr (fst first_reserved))\<lparr>pm_state := PermitUsed\<rparr>, rw_ledger one_dispatch)
   \<and> permit_release (Some counting_observer) ((projr (fst first_reserved))\<lparr>pm_state := PermitUsed\<rparr>)
      (rw_scopes one_dispatch ! 0) (rw_ledger one_dispatch)
     = ((projr (fst first_reserved))\<lparr>pm_state := PermitUsed\<rparr>, rw_scopes one_dispatch ! 0, rw_ledger one_dispatch)
   \<and> report_receipt (Some counting_observer) (projr (fst first_reserved))
      (snd (report_receipt (Some counting_observer) (projr (fst first_reserved)) (rw_ledger one_dispatch)))
     = (False, snd (report_receipt (Some counting_observer) (projr (fst first_reserved)) (rw_ledger one_dispatch)))
   \<and> (if pm_external (projr (fst first_reserved)) then
        snd (snd (permit_release (Some counting_observer) (projr (fst first_reserved)) (rw_scopes one_dispatch ! 0)
          (snd (report_receipt (Some counting_observer) (projr (fst first_reserved)) (rw_ledger one_dispatch)))))
        = snd (report_receipt (Some counting_observer) (projr (fst first_reserved)) (rw_ledger one_dispatch)) else True)"
proof (rule permit_spent_once)
  have "pm_state (projr (fst first_reserved)) = PermitOpen" "\<not> pm_external (projr (fst first_reserved))"
    by code_simp+
  then have "permit_use (Some counting_observer) codex_text_guarded_budget_policy (projr (fst first_reserved)) (rw_ledger one_dispatch)
      = (True, (projr (fst first_reserved))\<lparr>pm_state := PermitUsed\<rparr>,
         dispatch_proof (Some counting_observer) (pm_proof (projr (fst first_reserved))) (rw_ledger one_dispatch))"
    by (simp add: permit_use_def start_physical_def counting_observer_def)
  then show "permit_use (Some counting_observer) codex_text_guarded_budget_policy (projr (fst first_reserved)) (rw_ledger one_dispatch)
      = (True, (projr (fst first_reserved))\<lparr>pm_state := PermitUsed\<rparr>,
         dispatch_proof (Some counting_observer) (pm_proof (projr (fst first_reserved))) (rw_ledger one_dispatch))
    \<or> permit_assume_charge (Some counting_observer) codex_text_guarded_budget_policy (projr (fst first_reserved)) (rw_ledger one_dispatch)
      = (True, (projr (fst first_reserved))\<lparr>pm_state := PermitUsed\<rparr>,
         dispatch_proof (Some counting_observer) (pm_proof (projr (fst first_reserved))) (rw_ledger one_dispatch))
    \<or> permit_release (Some counting_observer) (projr (fst first_reserved)) (rw_scopes one_dispatch ! 0) (rw_ledger one_dispatch)
      = ((projr (fst first_reserved))\<lparr>pm_state := PermitUsed\<rparr>, rw_scopes one_dispatch ! 0,
         dispatch_proof (Some counting_observer) (pm_proof (projr (fst first_reserved))) (rw_ledger one_dispatch))"
    by blast
qed

text \<open>
  The replacement grant after a list of claims, and whether it was ever exceeded.
\<close>

definition claims :: "jsnum list \<Rightarrow> resend_grant" where
  "claims ls = fold (\<lambda>n g. snd (claim_ambiguous_resend n g)) ls fresh_grant"

lemma claims_snoc: "claims (ls @ [n]) = snd (claim_ambiguous_resend n (claims ls))"
  by (simp add: claims_def)

lemma claims_ceiling:
  "case resend_ceiling (claims ls) of
     None \<Rightarrow> claimed_resends (claims ls) = 0 \<and> (\<forall>n \<in> set ls. trunc_finite n \<le> 0)
   | Some c \<Rightarrow> \<forall>n \<in> set ls. 0 < trunc_finite n \<longrightarrow> c \<le> trunc_finite n"
proof (induction ls rule: rev_induct)
  case Nil
  then show ?case by (simp add: claims_def fresh_grant_def)
next
  case (snoc n ls)
  then show ?case
    by (cases "resend_ceiling (claims ls)")
      (auto simp: claims_snoc claim_ambiguous_resend_def Let_def split: if_splits)
qed

text \<open>
  An ambiguous failure is replaced within the strictest grant. Whatever limits the legs of
  a request presented before, a claim that is granted leaves the number of replacements within
  every usable limit presented so far, its own included; a limit below one grants nothing and
  binds nobody.
\<close>

theorem resends_within_every_grant:
  "if fst (claim_ambiguous_resend n (claims ls))
   then 0 < trunc_finite n
     \<and> claimed_resends (claims (ls @ [n])) = claimed_resends (claims ls) + 1
     \<and> list_all (\<lambda>m. trunc_finite m \<le> 0 \<or> int (claimed_resends (claims (ls @ [n]))) \<le> trunc_finite m) (ls @ [n])
   else claimed_resends (claims (ls @ [n])) = claimed_resends (claims ls)
     \<and> (if trunc_finite n \<le> 0 then claims (ls @ [n]) = claims ls else True)"
proof (cases "fst (claim_ambiguous_resend n (claims ls))")
  case False
  then show ?thesis by (auto simp: claims_snoc claim_ambiguous_resend_def Let_def split: if_splits)
next
  case True
  then have p: "0 < trunc_finite n" by (auto simp: claim_ambiguous_resend_def Let_def split: if_splits)
  obtain c where c: "resend_ceiling (claims (ls @ [n])) = Some c"
    "int (claimed_resends (claims (ls @ [n]))) \<le> c"
    "claimed_resends (claims (ls @ [n])) = claimed_resends (claims ls) + 1"
    using True p by (auto simp: claims_snoc claim_ambiguous_resend_def Let_def split: if_splits)
  have "trunc_finite m \<le> 0 \<or> int (claimed_resends (claims (ls @ [n]))) \<le> trunc_finite m"
    if "m \<in> set (ls @ [n])" for m
    using claims_ceiling [of "ls @ [n]"] c that by (cases "0 < trunc_finite m") force+
  with True p c(3) show ?thesis by (simp add: list_all_iff)
qed


section \<open>The observer hears what the counter counts\<close>

text \<open>
  A measure of the observer's state that follows its calls: a granted charge, and every report
  of a send that already left, adds one; a refund takes one back; nothing else changes it.
\<close>

definition books_by_charge :: "'o observer \<Rightarrow> ('o \<Rightarrow> int) \<Rightarrow> bool" where
  "books_by_charge ob booked \<longleftrightarrow>
     (\<forall>k s. booked (snd (snd (ob_charge ob k s))) =
        booked s + (if fst (ob_charge ob k s) \<or> k = ChargeReported then 1 else 0))
     \<and> (\<forall>t s. booked (ob_start ob t s) = booked s) \<and> (\<forall>t pf s. booked (snd (ob_seed ob t pf s)) = booked s)
     \<and> (\<forall>s. booked (snd (ob_begin ob s)) = booked s) \<and> (\<forall>r sd n s. booked (ob_begun ob r sd n s) = booked s)
     \<and> (\<forall>r n s. booked (ob_report ob r n s) = booked s) \<and> (\<forall>r s. booked (ob_close ob r s) = booked s)
     \<and> (\<forall>pf s. booked (ob_dispatch ob pf s) = booked s) \<and> (\<forall>pf s. booked (ob_refund ob pf s) = booked s - 1)"

lemma booked_start:
  "books_by_charge ob booked \<Longrightarrow> booked (sl_obs (start_request (Some ob) p t l)) = booked (sl_obs l)"
  by (simp add: start_request_def books_by_charge_def Let_def)

lemma booked_claim_physical:
  "books_by_charge ob booked \<Longrightarrow> booked (sl_obs (snd (claim_physical_send (Some ob) p l))) = booked (sl_obs l)"
  by (auto simp: claim_physical_send_def Let_def booked_start split: option.splits)

lemma booked_dispatch:
  "books_by_charge ob booked \<Longrightarrow> booked (sl_obs (dispatch_proof (Some ob) pf l)) = booked (sl_obs l)"
  by (simp add: dispatch_proof_def books_by_charge_def split: option.splits)

lemma booked_start_physical:
  assumes b: "books_by_charge ob booked" and st: "start_physical (Some ob) p pm l = (r, pm', l')"
  shows "booked (sl_obs l') = booked (sl_obs l)"
proof (cases "ob_enforced ob (sl_obs l)")
  case False
  with st show ?thesis by (simp add: start_physical_def)
next
  case True
  obtain sd s1 where sd: "ob_seed ob (pm_target pm) (pm_proof pm) (sl_obs l) = (sd, s1)" by fastforce
  obtain oo l2 where cl: "claim_physical_send (Some ob) p (l\<lparr>sl_obs := s1\<rparr>) = (oo, l2)" by fastforce
  obtain pr s2 where bg: "ob_begin ob (sl_obs l2) = (pr, s2)" by fastforce
  have s1: "booked s1 = booked (sl_obs l)" using b sd unfolding books_by_charge_def by (metis snd_conv)
  have l2: "booked (sl_obs l2) = booked s1"
    using booked_claim_physical [OF b, of p "l\<lparr>sl_obs := s1\<rparr>"] cl by simp
  have s2: "booked s2 = booked (sl_obs l2)" using b bg unfolding books_by_charge_def by (metis snd_conv)
  from st True sd cl bg s1 l2 s2 b show ?thesis
    by (cases sd; cases oo) (auto simp: start_physical_def books_by_charge_def Let_def split: if_splits)
qed

lemma booked_use:
  assumes "books_by_charge ob booked"
  shows "permit_use (Some ob) p pm l = (r, pm', l') \<Longrightarrow> booked (sl_obs l') = booked (sl_obs l)"
    and "permit_assume_charge (Some ob) p pm l = (r, pm', l') \<Longrightarrow> booked (sl_obs l') = booked (sl_obs l)"
    and "permit_execute_end (Some ob) pm l = (pm', l') \<Longrightarrow> booked (sl_obs l') = booked (sl_obs l)"
proof -
  obtain ok pm1 l1 where st: "start_physical (Some ob) p pm l = (ok, pm1, l1)" by (metis prod.exhaust)
  note b = booked_start_physical [OF assms st]
  show "permit_use (Some ob) p pm l = (r, pm', l') \<Longrightarrow> booked (sl_obs l') = booked (sl_obs l)"
    using st b by (auto simp: permit_use_def booked_dispatch [OF assms] split: if_splits)
  show "permit_assume_charge (Some ob) p pm l = (r, pm', l') \<Longrightarrow> booked (sl_obs l') = booked (sl_obs l)"
    using st b by (auto simp: permit_assume_charge_def booked_dispatch [OF assms] split: if_splits)
  show "permit_execute_end (Some ob) pm l = (pm', l') \<Longrightarrow> booked (sl_obs l') = booked (sl_obs l)"
    using assms by (auto simp: permit_execute_end_def books_by_charge_def split: option.splits)
qed

lemma booked_charge_reported:
  assumes b: "books_by_charge ob booked"
  shows "booked (sl_obs (charge_reported n (Some ob) l)) = booked (sl_obs l) + int n"
proof (induction n arbitrary: l)
  case (Suc n)
  have "booked (sl_obs (snd (snd (charge_observer (Some ob) ChargeReported l)))) = booked (sl_obs l) + 1"
    using b by (simp add: charge_observer_def books_by_charge_def split_beta)
  with Suc show ?case by simp
qed simp

lemma booked_report:
  assumes b: "books_by_charge ob booked" and "0 \<le> sl_spent l"
  shows "booked (sl_obs (report_dispatch_sends (Some ob) n pm l)) - booked (sl_obs l)
    = sl_spent (report_dispatch_sends (Some ob) n pm l) - sl_spent l"
proof -
  obtain r l1 where r: "(case pm of None \<Rightarrow> (False, l) | Some x \<Rightarrow> report_receipt (Some ob) x l) = (r, l1)" by fastforce
  have "sl_spent l1 = sl_spent l \<and> booked (sl_obs l1) = booked (sl_obs l)"
    using r by (cases pm) (auto simp: report_receipt_def Let_def booked_dispatch [OF b] split: if_splits)
  with r assms(2) show ?thesis
    by (auto simp: report_dispatch_sends_def set_used_def Let_def booked_charge_reported [OF b])
qed

lemma booked_release:
  assumes b: "books_by_charge ob booked" and "permit_release (Some ob) pm sc l = (pm', sc', l')"
  shows "booked (sl_obs l') - booked (sl_obs l) = sl_spent l' - sl_spent l"
  using assms by (auto simp: permit_release_def books_by_charge_def Let_def split: if_splits)

lemma booked_reserve:
  assumes b: "books_by_charge ob booked" and res: "reserve_dispatch (Some ob) x sc l = (r, sc', l')"
  shows "booked (sl_obs l') - booked (sl_obs l) = sl_spent l' - sl_spent l"
proof (cases "dispatch_denial sc l x")
  case (Some d)
  with res show ?thesis by (simp add: reserve_dispatch_def)
next
  case None
  define l1 where "l1 = start_request (Some ob) (sc_policy sc) (Some (in_target x)) l"
  obtain ok pf s where c: "ob_charge ob (ChargeReservation (in_target x)) (sl_obs l1) = (ok, pf, s)" by (metis prod.exhaust)
  have "booked (snd (snd (ob_charge ob (ChargeReservation (in_target x)) (sl_obs l1)))) = booked (sl_obs l1)
      + (if fst (ob_charge ob (ChargeReservation (in_target x)) (sl_obs l1)) then 1 else 0)"
    using b by (simp add: books_by_charge_def)
  then have s: "booked s = booked (sl_obs l1) + (if ok then 1 else 0)" by (simp add: c)
  have l1: "booked (sl_obs l1) = booked (sl_obs l)" "sl_spent l1 = sl_spent l"
    by (simp_all add: l1_def booked_start [OF b])
  have "reserve_dispatch (Some ob) x sc l = (if \<not> ok then (Inl SpendExhausted, sc, l1\<lparr>sl_obs := s\<rparr>)
      else (let (pm, sc', l3) = book_dispatch x pf sc (l1\<lparr>sl_obs := s\<rparr>) in (Inr pm, sc', l3)))"
    using None c by (simp add: reserve_dispatch_def charge_observer_def l1_def)
  then have l': "l' = (if \<not> ok then l1\<lparr>sl_obs := s\<rparr> else snd (snd (book_dispatch x pf sc (l1\<lparr>sl_obs := s\<rparr>))))"
    using res by (auto simp: split_beta) (metis snd_conv)
  show ?thesis
    by (cases ok) (simp_all add: l' s l1 book_dispatch_def Let_def)
qed

lemma bookings_follow_the_counter:
  assumes "request_reachable (Some ob) s0 w" "books_by_charge ob booked"
  shows "booked (sl_obs (rw_ledger w)) = booked s0 + sl_spent (rw_ledger w)"
  using assms(1)
proof induction
  case (opened p sc l)
  then show ?case by (auto simp: create_request_execution_budget_def fresh_send_ledger_def)
next
  case (derived w p sc l)
  then show ?case by (simp add: derive_request_execution_budget_def)
next
  case (denied w i x d sc l)
  then show ?case using booked_reserve [OF assms(2) denied.hyps(3)] by simp
next
  case (allowed w i x pm sc l)
  then show ?case using booked_reserve [OF assms(2) allowed.hyps(3)] by simp
next
  case (used w a i pm c b r pm' l)
  then show ?case using booked_use(1) [OF assms(2) used.hyps(3)] permit_use_frame [OF used.hyps(3)] by simp
next
  case (assumed w a i pm c b r pm' l)
  then show ?case using booked_use(2) [OF assms(2) assumed.hyps(3)] permit_assume_frame [OF assumed.hyps(3)] by simp
next
  case (released w a i pm c b pm' sc l)
  then show ?case using booked_release [OF assms(2) released.hyps(3)] by simp
next
  case (executed w a i pm c b pm' l)
  then show ?case using booked_use(3) [OF assms(2) executed.hyps(3)] execute_frame(2) [OF executed.hyps(3)] by simp
next
  case (reported w n pm l)
  have "0 \<le> sl_spent (rw_ledger w)" by (rule request_okD(4) [OF reachable_request_ok [OF reported.hyps(1)]])
  from booked_report [OF assms(2) this, of n pm] reported show ?case by simp
qed (simp_all add: booked_start [OF assms(2)] booked_claim_physical [OF assms(2)])

text \<open>
  The spend tracker itself (\<open>createRequestSpendTracker\<close>) is not bound by these laws: it may
  grant a charge without an entry, as when no ceiling applies and its ledger is full, and a
  refund without a proof takes nothing back. What the budget does owe it is the calls. So the
  laws are read on an observer that hears the calls: \<open>overheard ob\<close> passes every call on to
  \<open>ob\<close>, any observer at all, and keeps beside its state the charges it granted and the reports
  of sends that have left, less the refunds.
\<close>

definition overheard :: "'o observer \<Rightarrow> ('o \<times> int) observer" where
  "overheard ob = \<lparr>
     ob_charge = (\<lambda>k (s, n). let (ok, pf, s') = ob_charge ob k s in
       (ok, pf, s', n + (if ok \<or> k = ChargeReported then 1 else 0))),
     ob_enforced = (\<lambda>(s, n). ob_enforced ob s),
     ob_start = (\<lambda>t (s, n). (ob_start ob t s, n)),
     ob_seed = (\<lambda>t pf (s, n). let (sd, s') = ob_seed ob t pf s in (sd, s', n)),
     ob_begin = (\<lambda>(s, n). let (r, s') = ob_begin ob s in (r, s', n)),
     ob_begun = (\<lambda>r sd k (s, n). (ob_begun ob r sd k s, n)),
     ob_report = (\<lambda>r k (s, n). (ob_report ob r k s, n)),
     ob_close = (\<lambda>r (s, n). (ob_close ob r s, n)),
     ob_dispatch = (\<lambda>pf (s, n). (ob_dispatch ob pf s, n)),
     ob_refund = (\<lambda>pf (s, n). (ob_refund ob pf s, n - 1))\<rparr>"

lemma overheard_books: "books_by_charge (overheard ob) snd"
  by (auto simp: books_by_charge_def overheard_def split_beta)


text \<open>
  A witness with an observer that grants without booking: it keeps no count and no proof.
\<close>

definition lax_observer :: "unit observer" where
  "lax_observer = \<lparr>ob_charge = (\<lambda>k s. (True, None, s)), ob_enforced = (\<lambda>s. False),
     ob_start = (\<lambda>t s. s), ob_seed = (\<lambda>t pf s. (None, s)), ob_begin = (\<lambda>s. (0, s)),
     ob_begun = (\<lambda>r sd n s. s), ob_report = (\<lambda>r n s. s), ob_close = (\<lambda>r s. s),
     ob_dispatch = (\<lambda>pf s. s), ob_refund = (\<lambda>pf s. s)\<rparr>"

definition new_lax_request :: "(unit \<times> int) request_world" where
  "new_lax_request = \<lparr>rw_ledger = fresh_send_ledger ((), 0),
     rw_scopes = [fresh_scope codex_text_guarded_budget_policy], rw_permits = [], rw_outside = 0\<rparr>"

definition lax_reserved :: "(budget_denial + permit) \<times> budget_scope \<times> (unit \<times> int) send_ledger" where
  "lax_reserved = reserve_dispatch (Some (overheard lax_observer)) first_send
     (fresh_scope codex_text_guarded_budget_policy) (fresh_send_ledger ((), 0))"

definition one_lax_dispatch :: "(unit \<times> int) request_world" where
  "one_lax_dispatch = \<lparr>rw_ledger = snd (snd lax_reserved), rw_scopes = [fst (snd lax_reserved)],
     rw_permits = [(0, projr (fst lax_reserved), True)], rw_outside = 0\<rparr>"

lemma reachable_lax_dispatch: "request_reachable (Some (overheard lax_observer)) ((), 0) one_lax_dispatch"
proof -
  have new: "request_reachable (Some (overheard lax_observer)) ((), 0) new_lax_request"
    unfolding new_lax_request_def
    by (rule request_reachable.opened [where p = codex_text_guarded_budget_policy])
      (simp add: create_request_execution_budget_def)
  have "isl (fst lax_reserved) = False" by code_simp
  then have "reserve_dispatch (Some (overheard lax_observer)) first_send (rw_scopes new_lax_request ! 0)
      (rw_ledger new_lax_request)
    = (Inr (projr (fst lax_reserved)), fst (snd lax_reserved), snd (snd lax_reserved))"
    by (simp add: new_lax_request_def lax_reserved_def [symmetric] prod_eq_iff)
  from request_reachable.allowed [OF new _ this] show ?thesis
    by (simp add: new_lax_request_def one_lax_dispatch_def)
qed



section \<open>A prepaid target is forgotten by a release\<close>

text \<open>
  \<open>bindPrepaidTarget\<close> records the endpoint of an already-paid initial send, but \<open>release\<close>
  recomputes the last target from the reservations alone. A move that is given back therefore
  erases the prepaid endpoint, and the next dispatch to any target is no longer a transition.
\<close>

lemma release_forgets_prepaid_target:
  assumes "reserve_dispatch None x (bind_prepaid_target t (fresh_scope p)) l = (Inr pm, sc1, l1)"
    and "\<not> in_external x"
  shows "sc_last_target (fst (snd (permit_release None pm sc1 l1))) = None"
proof -
  obtain pf l2 where "book_dispatch x pf (bind_prepaid_target t (fresh_scope p)) l2 = (pm, sc1, l1)"
    by (rule reserve_allowed [OF assms(1)])
  then have pm: "pm_state pm = PermitOpen" "\<not> pm_external pm" "pm_receipt pm = sl_next_receipt l2"
    and sc: "sc_reservations sc1 = [(sl_next_receipt l2, in_target x)]"
    using assms(2) by (auto simp: book_dispatch_def bind_prepaid_target_def fresh_scope_def Let_def)
  show ?thesis by (simp add: permit_release_def pm sc last_reserved_def Let_def)
qed

end
