(* ===== verification/Retry_Timing.thy ===== *)
theory Retry_Timing
  imports Prelude
begin

text \<open>
  Upstream retry evidence: \<open>Retry-After\<close> as seconds or as one of the three HTTP date forms
  (\<open>combos/failover.ts\<close>), and quota reset timestamps (\<open>codex/routing/cooldown-math.ts\<close>).
  The regular expressions are fixed forms, here lists of field patterns matched left to right;
  calendar arithmetic is the language's own (\<open>Date.UTC\<close> and the UTC getters), by the
  formulas of its standard. Text is ASCII where letters are compared without case. Decimal text
  is read exactly; past the largest double it is infinite.
\<close>

definition is_digit_char :: "char \<Rightarrow> bool" where
  "is_digit_char c \<longleftrightarrow> 48 \<le> (of_char c :: nat) \<and> (of_char c :: nat) \<le> 57"

definition lower_char :: "char \<Rightarrow> char" where
  "lower_char c = (if 65 \<le> (of_char c :: nat) \<and> (of_char c :: nat) \<le> 90
     then char_of ((of_char c :: nat) + 32) else c)"

definition to_lower :: "string \<Rightarrow> string" where
  "to_lower = map lower_char"

fun digits_value :: "nat \<Rightarrow> string \<Rightarrow> nat" where
  "digits_value acc [] = acc"
| "digits_value acc (c # cs) = digits_value (10 * acc + ((of_char c :: nat) - 48)) cs"


section \<open>Dates\<close>

datatype date_field = Lit string | Skip "string list" | OneOf "string list" | Digits nat | SpacedDay

definition same_text :: "string \<Rightarrow> string \<Rightarrow> bool" where
  "same_text w s \<longleftrightarrow> to_lower (take (length w) s) = to_lower w"

fun scan :: "date_field list \<Rightarrow> string \<Rightarrow> string list option" where
  "scan [] s = (if s = [] then Some [] else None)"
| "scan (Lit t # ps) s = (if same_text t s then scan ps (drop (length t) s) else None)"
| "scan (Skip ws # ps) s = (case find (\<lambda>w. same_text w s) ws of
     None \<Rightarrow> None | Some w \<Rightarrow> scan ps (drop (length w) s))"
| "scan (OneOf ws # ps) s = (case find (\<lambda>w. same_text w s) ws of
     None \<Rightarrow> None | Some w \<Rightarrow> map_option (Cons (take (length w) s)) (scan ps (drop (length w) s)))"
| "scan (Digits n # ps) s =
     (if length (take n s) = n \<and> list_all is_digit_char (take n s)
      then map_option (Cons (take n s)) (scan ps (drop n s)) else None)"
| "scan (SpacedDay # ps) s = (case s of
     a # b # rest \<Rightarrow> if (a = CHR '' '' \<or> is_digit_char a) \<and> is_digit_char b
       then map_option (Cons [a, b]) (scan ps rest) else None
   | _ \<Rightarrow> None)"

definition short_days :: "string list" where
  "short_days = [''Mon'', ''Tue'', ''Wed'', ''Thu'', ''Fri'', ''Sat'', ''Sun'']"

definition long_days :: "string list" where
  "long_days = [''Monday'', ''Tuesday'', ''Wednesday'', ''Thursday'', ''Friday'', ''Saturday'', ''Sunday'']"

definition month_names :: "string list" where
  "month_names = [''Jan'', ''Feb'', ''Mar'', ''Apr'', ''May'', ''Jun'', ''Jul'', ''Aug'', ''Sep'',
     ''Oct'', ''Nov'', ''Dec'']"

definition clock_fields :: "date_field list" where
  "clock_fields = [Digits 2, Lit '':'', Digits 2, Lit '':'', Digits 2]"

definition imf_fixdate :: "date_field list" where
  "imf_fixdate = [Skip short_days, Lit '', '', Digits 2, Lit '' '', OneOf month_names, Lit '' '',
     Digits 4, Lit '' ''] @ clock_fields @ [Lit '' GMT'']"

definition rfc850_date :: "date_field list" where
  "rfc850_date = [Skip long_days, Lit '', '', Digits 2, Lit ''-'', OneOf month_names, Lit ''-'',
     Digits 2, Lit '' ''] @ clock_fields @ [Lit '' GMT'']"

definition asctime_date :: "date_field list" where
  "asctime_date = [Skip short_days, Lit '' '', OneOf month_names, Lit '' '', SpacedDay, Lit '' '']
     @ clock_fields @ [Lit '' '', Digits 4]"

definition month_index :: "string \<Rightarrow> nat option" where
  "month_index m = map_of (zip (map to_lower month_names) [0..<12]) (to_lower m)"

definition field_number :: "string \<Rightarrow> int" where
  "field_number s = int (digits_value 0 (dropWhile is_js_space s))"

definition leap_year :: "int \<Rightarrow> bool" where
  "leap_year y \<longleftrightarrow> y mod 4 = 0 \<and> (y mod 100 \<noteq> 0 \<or> y mod 400 = 0)"

definition days_before_year :: "int \<Rightarrow> int" where
  "days_before_year y = 365 * (y - 1970) + (y - 1969) div 4 - (y - 1901) div 100 + (y - 1601) div 400"

definition month_lengths :: "int \<Rightarrow> int list" where
  "month_lengths y = [31, if leap_year y then 29 else 28, 31, 30, 31, 30, 31, 31, 30, 31, 30, 31]"

definition days_before_month :: "int \<Rightarrow> nat \<Rightarrow> int" where
  "days_before_month y m = sum_list (take m (month_lengths y))"

text \<open>\<open>Date.UTC\<close>: two-digit years are of the 1900s, days and clock values may overflow.\<close>

definition date_utc :: "int \<Rightarrow> nat \<Rightarrow> int \<Rightarrow> int \<Rightarrow> int \<Rightarrow> int \<Rightarrow> int" where
  "date_utc year month day hour minute second =
     (let y = (if 0 \<le> year \<and> year \<le> 99 then 1900 + year else year);
          d = days_before_year y + days_before_month y month + (day - 1)
      in (((d * 24 + hour) * 60 + minute) * 60 + second) * 1000)"

definition year_from_day :: "int \<Rightarrow> int" where
  "year_from_day d =
     (let e = 1970 + (400 * d) div 146097
      in if days_before_year (e + 1) \<le> d then e + 1
         else if days_before_year e \<le> d then e else e - 1)"

fun month_from_day :: "int list \<Rightarrow> nat \<Rightarrow> int \<Rightarrow> nat \<times> int" where
  "month_from_day [] m d = (m, d)"
| "month_from_day (n # ns) m d = (if d < n then (m, d) else month_from_day ns (m + 1) (d - n))"

record utc_parts =
  ut_year :: int
  ut_month :: nat
  ut_day :: int
  ut_hour :: int
  ut_minute :: int
  ut_second :: int
  ut_ms :: int

definition utc_parts_of :: "int \<Rightarrow> utc_parts" where
  "utc_parts_of t =
     (let d = t div 86400000; r = t mod 86400000; y = year_from_day d;
          (m, k) = month_from_day (month_lengths y) 0 (d - days_before_year y)
      in \<lparr>ut_year = y, ut_month = m, ut_day = k + 1, ut_hour = r div 3600000,
          ut_minute = r div 60000 mod 60, ut_second = r div 1000 mod 60, ut_ms = r mod 1000\<rparr>)"

definition parse_utc_date_parts ::
    "int \<Rightarrow> string \<Rightarrow> int \<Rightarrow> int \<Rightarrow> int \<Rightarrow> int \<Rightarrow> int option" where
  "parse_utc_date_parts year month_name day hour minute second =
     (case month_index month_name of
        None \<Rightarrow> None
      | Some month \<Rightarrow>
          (let t = date_utc year month day hour minute second; p = utc_parts_of t
           in if ut_year p = year \<and> ut_month p = month \<and> ut_day p = day \<and> ut_hour p = hour
                 \<and> ut_minute p = minute \<and> ut_second p = second then Some t else None))"

text \<open>A two-digit year is placed within fifty years of now, to the millisecond.\<close>

definition rfc850_year :: "int \<Rightarrow> int \<Rightarrow> nat \<Rightarrow> int \<Rightarrow> int \<Rightarrow> int \<Rightarrow> int \<Rightarrow> int" where
  "rfc850_year now yy month day hour minute second =
     (let c = utc_parts_of now;
          year = (ut_year c div 100) * 100 + yy;
          delta = year - ut_year c;
          cand = date_utc 2000 month day hour minute second;
          cur = date_utc 2000 (ut_month c) (ut_day c) (ut_hour c) (ut_minute c) (ut_second c) + ut_ms c
      in if delta < -50 \<or> delta = -50 \<and> cand < cur then year + 100
         else if delta > 50 \<or> delta = 50 \<and> cand > cur then year - 100
         else year)"

definition parse_http_date :: "string \<Rightarrow> int \<Rightarrow> int option" where
  "parse_http_date s now = (case scan imf_fixdate s of
     Some [d, mo, y, h, mi, sec] \<Rightarrow>
       parse_utc_date_parts (field_number y) mo (field_number d) (field_number h) (field_number mi) (field_number sec)
   | _ \<Rightarrow> (case scan rfc850_date s of
       Some [d, mo, y, h, mi, sec] \<Rightarrow>
         (case month_index mo of
            None \<Rightarrow> None
          | Some m \<Rightarrow> parse_utc_date_parts
              (rfc850_year now (field_number y) m (field_number d) (field_number h) (field_number mi) (field_number sec))
              mo (field_number d) (field_number h) (field_number mi) (field_number sec))
     | _ \<Rightarrow> (case scan asctime_date s of
         Some [mo, d, h, mi, sec, y] \<Rightarrow>
           parse_utc_date_parts (field_number y) mo (field_number d) (field_number h) (field_number mi) (field_number sec)
       | _ \<Rightarrow> None)))"


section \<open>Retry-After\<close>

definition default_cooldown_ms :: rat where "default_cooldown_ms = 60000"
definition max_cooldown_ms :: rat where "max_cooldown_ms = 10 * 60000"
definition max_server_delay_ms :: rat where "max_server_delay_ms = 24 * 60 * 60000"

text \<open>Digits with an optional fraction, as a number.\<close>

definition decimal_seconds :: "string \<Rightarrow> rat option" where
  "decimal_seconds s =
     (let whole = takeWhile is_digit_char s; rest = dropWhile is_digit_char s
      in if whole = [] then None
         else (case rest of
             [] \<Rightarrow> Some (of_nat (digits_value 0 whole))
           | c # part \<Rightarrow>
               if c = CHR ''.'' \<and> part \<noteq> [] \<and> list_all is_digit_char part
               then Some (of_nat (digits_value 0 whole) + of_nat (digits_value 0 part) / 10 ^ length part)
               else None))"

definition double_overflow :: rat where "double_overflow = 2 ^ 1024 - 2 ^ 970"

record retry_options =
  preserve_immediate :: bool
  preserve_server_delay :: bool

definition parse_retry_after_ms :: "string option \<Rightarrow> int \<Rightarrow> retry_options \<Rightarrow> rat option" where
  "parse_retry_after_ms value now opts =
     (let text = js_trim (nullish value []);
          maximum = (if preserve_server_delay opts then max_server_delay_ms else max_cooldown_ms);
          by_date = (case parse_http_date text now of
              None \<Rightarrow> None
            | Some t \<Rightarrow> if t - now > 0 then Some (min (of_int (t - now)) maximum)
                else if preserve_immediate opts then Some 1 else None)
      in if text = [] then None
         else (case decimal_seconds text of
             Some seconds \<Rightarrow>
               if seconds < double_overflow \<and> (seconds > 0 \<or> preserve_immediate opts \<and> seconds = 0)
               then Some (min (max (of_int \<lceil>seconds * 1000\<rceil>) 1) maximum) else by_date
           | None \<Rightarrow> by_date))"


section \<open>Quota resets\<close>

definition codex_default_quota_cooldown_ms :: rat where "codex_default_quota_cooldown_ms = 60000"
definition codex_max_quota_cooldown_ms :: rat where "codex_max_quota_cooldown_ms = 24 * 60 * 60000"
definition codex_max_reset_derived_cooldown_ms :: rat where
  "codex_max_reset_derived_cooldown_ms = 15 * 60000"
definition codex_max_quota_avoid_ms :: rat where "codex_max_quota_avoid_ms = 6 * 60 * 60000"

definition clamp_cooldown_ms :: "rat \<Rightarrow> rat" where
  "clamp_cooldown_ms ms = min (max ms 1) codex_max_quota_cooldown_ms"

text \<open>\<open>read\<close> is the language's \<open>Number\<close> on text; below \<open>10\<^sup>1\<^sup>2\<close> a timestamp is in seconds.\<close>

definition reset_timestamp_ms :: "(string \<Rightarrow> jsnum) \<Rightarrow> json option \<Rightarrow> rat option" where
  "reset_timestamp_ms read v =
     (case (case v of Some (JNum n) \<Rightarrow> Some n
            | Some (JStr s) \<Rightarrow> if js_trim s = [] then None else Some (read s)
            | _ \<Rightarrow> None) of
        Some (Fin q) \<Rightarrow> if q \<le> 0 then None else Some (if q < 10 ^ 12 then q * 1000 else q)
      | _ \<Rightarrow> None)"

definition reset_values :: "json option \<Rightarrow> json option list" where
  "reset_values v = (case v of Some (JArr vs) \<Rightarrow> map Some vs | _ \<Rightarrow> [v])"

definition reset_delay :: "(string \<Rightarrow> jsnum) \<Rightarrow> rat \<Rightarrow> json option \<Rightarrow> rat option" where
  "reset_delay read now v = (case reset_timestamp_ms read v of
     None \<Rightarrow> None | Some t \<Rightarrow> if t - now \<le> 0 then None else Some (t - now))"

fun smallest :: "rat option \<Rightarrow> rat option list \<Rightarrow> rat option" where
  "smallest best [] = best"
| "smallest best (None # xs) = smallest best xs"
| "smallest best (Some x # xs) =
     smallest (case best of None \<Rightarrow> Some x | Some b \<Rightarrow> if x < b then Some x else Some b) xs"

definition parse_reset_cooldown_ms :: "(string \<Rightarrow> jsnum) \<Rightarrow> json option \<Rightarrow> rat \<Rightarrow> rat option" where
  "parse_reset_cooldown_ms read v now =
     smallest None (map (\<lambda>x. map_option
       (\<lambda>d. min (clamp_cooldown_ms d) codex_max_reset_derived_cooldown_ms) (reset_delay read now x))
       (reset_values v))"

datatype cooldown_source = FromRetryAfter | ResetDerived | DefaultSource

text \<open>
  The Codex parser of \<open>Retry-After\<close>; \<open>parse\<close> is the language's \<open>Date.parse\<close>, None for
  a text that is no date.
\<close>

definition codex_parse_retry_after_ms :: "(string \<Rightarrow> rat option) \<Rightarrow> string option \<Rightarrow> rat \<Rightarrow> rat option" where
  "codex_parse_retry_after_ms parse value now =
     (let text = js_trim (nullish value []);
          by_date = (case parse text of None \<Rightarrow> None
            | Some t \<Rightarrow> if t - now > 0 then Some (clamp_cooldown_ms (t - now)) else None)
      in if text = [] then None
         else (case decimal_seconds text of
             Some seconds \<Rightarrow> if seconds < double_overflow \<and> seconds > 0
               then Some (clamp_cooldown_ms (of_int \<lceil>seconds * 1000\<rceil>)) else by_date
           | None \<Rightarrow> by_date))"

definition compute_quota_cooldown ::
    "(string \<Rightarrow> rat option) \<Rightarrow> (string \<Rightarrow> jsnum) \<Rightarrow> string option \<Rightarrow> json option \<Rightarrow> rat
      \<Rightarrow> rat \<times> cooldown_source" where
  "compute_quota_cooldown parse read retry_after reset_at now =
     (case codex_parse_retry_after_ms parse retry_after now of
        Some d \<Rightarrow> (now + d, FromRetryAfter)
      | None \<Rightarrow> (case parse_reset_cooldown_ms read reset_at now of
          Some d \<Rightarrow> (now + d, ResetDerived)
        | None \<Rightarrow> (now + codex_default_quota_cooldown_ms, DefaultSource)))"

definition quota_avoid_until_for ::
    "(string \<Rightarrow> jsnum) \<Rightarrow> json option \<Rightarrow> rat \<Rightarrow> rat \<Rightarrow> rat" where
  "quota_avoid_until_for read reset_at now cooldown_until =
     max cooldown_until (nullish (smallest None (map (\<lambda>x. map_option
       (\<lambda>d. now + min d codex_max_quota_avoid_ms) (reset_delay read now x)) (reset_values reset_at))) 0)"

definition compute_quota_cooldown_until ::
    "(string \<Rightarrow> rat option) \<Rightarrow> (string \<Rightarrow> jsnum) \<Rightarrow> string option \<Rightarrow> json option \<Rightarrow> rat \<Rightarrow> rat" where
  "compute_quota_cooldown_until parse read retry_after reset_at now =
     fst (compute_quota_cooldown parse read retry_after reset_at now)"


section \<open>Sources of a delay\<close>

text \<open>What a cooldown may rely on: a delay read from a response is positive and has a ceiling.\<close>

locale delay_source =
  fixes delay :: "'a \<Rightarrow> rat option" and ceiling :: rat
  assumes positive: "delay x = Some d \<Longrightarrow> 1 \<le> d"
    and capped: "delay x = Some d \<Longrightarrow> d \<le> ceiling"
begin

lemma ends_later: "delay x = Some d \<Longrightarrow> now < now + d"
  using positive [of x d] by simp

lemma within_or_default:
  assumes "1 \<le> d" and "d \<le> most" and "ceiling \<le> most"
  shows "1 \<le> nullish (delay x) d \<and> nullish (delay x) d \<le> most"
  using assms positive [of x] capped [of x] by (fastforce split: option.splits)

end

definition retry_ceiling :: "retry_options \<Rightarrow> rat" where
  "retry_ceiling opts = (if preserve_server_delay opts then max_server_delay_ms else max_cooldown_ms)"

interpretation retry_after: delay_source "\<lambda>v. parse_retry_after_ms v now opts" "retry_ceiling opts"
  for now opts
proof
  fix v d
  assume a: "parse_retry_after_ms v now opts = Some d"
  have m: "1 \<le> retry_ceiling opts"
    by (simp add: retry_ceiling_def max_server_delay_ms_def max_cooldown_ms_def)
  have i: "1 \<le> (of_int (t - now) :: rat)" if "0 < t - now" for t :: int
    using that by linarith
  have "1 \<le> d \<and> d \<le> retry_ceiling opts"
    using a m i
    by (auto simp: parse_retry_after_ms_def Let_def retry_ceiling_def [symmetric] simp del: of_int_diff
        split: option.splits if_splits)
  then show "1 \<le> d" and "d \<le> retry_ceiling opts" by simp_all
qed

lemma smallest_in: "smallest best xs = Some r \<Longrightarrow> best = Some r \<or> Some r \<in> set xs"
  by (induction best xs rule: smallest.induct) (auto split: option.splits if_splits)

lemma reset_cooldown_bounds:
  assumes "parse_reset_cooldown_ms read v now = Some d"
  shows "1 \<le> d \<and> d \<le> codex_max_reset_derived_cooldown_ms"
proof -
  obtain x where "map_option (\<lambda>d. min (clamp_cooldown_ms d) codex_max_reset_derived_cooldown_ms)
      (reset_delay read now x) = Some d"
    using smallest_in [OF assms [unfolded parse_reset_cooldown_ms_def]] by (auto dest!: sym [of "Some d"])
  then show ?thesis
    by (auto simp: clamp_cooldown_ms_def codex_max_reset_derived_cooldown_ms_def
        codex_max_quota_cooldown_ms_def)
qed

interpretation reset_time: delay_source "\<lambda>v. parse_reset_cooldown_ms read v now" codex_max_reset_derived_cooldown_ms
  for read now
  by unfold_locales (auto dest: reset_cooldown_bounds)

interpretation codex_retry_after: delay_source "\<lambda>v. codex_parse_retry_after_ms parse v now" codex_max_quota_cooldown_ms
  for parse now
  by unfold_locales (auto simp: codex_parse_retry_after_ms_def Let_def clamp_cooldown_ms_def
      codex_max_quota_cooldown_ms_def split: option.splits if_splits)

lemma quota_cooldown_bounds:
  "now < fst (compute_quota_cooldown parse read ra at_reset now)
   \<and> fst (compute_quota_cooldown parse read ra at_reset now) \<le> now + codex_max_quota_cooldown_ms"
  using codex_retry_after.capped [of parse ra now] codex_retry_after.ends_later [of parse ra now _ now]
    reset_time.capped [of read at_reset now] reset_time.ends_later [of read at_reset now _ now]
  by (fastforce simp: compute_quota_cooldown_def codex_max_quota_cooldown_ms_def
      codex_max_reset_derived_cooldown_ms_def codex_default_quota_cooldown_ms_def split: option.splits)

end
