(* ===== verification/Failure_Text.thy ===== *)
theory Failure_Text
  imports Retry_Timing
begin

text \<open>
  Reading an upstream failure (\<open>combos/failover.ts\<close>): the code sets and the text needles
  that choose a cooldown. Text is of characters below 256; the three needles of
  \<open>isCapacityVerdict\<close> in other scripts never occur in it and have no entry. An absent
  status, code or message is None.
\<close>

section \<open>Text matching\<close>

fun str_includes :: "string \<Rightarrow> string \<Rightarrow> bool" where
  "str_includes pat [] = (pat = [])"
| "str_includes pat (c # cs) = (prefix pat (c # cs) \<or> str_includes pat cs)"

definition is_word_char :: "char \<Rightarrow> bool" where
  "is_word_char c \<longleftrightarrow> is_digit_char c \<or> c = CHR ''_''
     \<or> 97 \<le> (of_char (lower_char c) :: nat) \<and> (of_char (lower_char c) :: nat) \<le> 122"

text \<open>\<open>\bw\b\<close> for \<open>w\<close> that starts and ends inside a word; the flag says whether the character before is one of a word.\<close>

fun includes_word :: "bool \<Rightarrow> string \<Rightarrow> string \<Rightarrow> bool" where
  "includes_word inside w [] = False"
| "includes_word inside w (c # cs) =
     (\<not> inside \<and> prefix w (c # cs) \<and> \<not> list_ex is_word_char (take 1 (drop (length w) (c # cs)))
      \<or> includes_word (is_word_char c) w cs)"

definition is_line_end :: "char \<Rightarrow> bool" where
  "is_line_end c \<longleftrightarrow> of_char c \<in> {10, 13 :: nat}"

text \<open>\<open>a.*b\<close>, where the dot stops at a line end.\<close>

fun spans :: "string \<Rightarrow> string \<Rightarrow> string \<Rightarrow> bool" where
  "spans a b [] = False"
| "spans a b (c # cs) =
     (prefix a (c # cs) \<and> str_includes b (takeWhile (\<lambda>d. \<not> is_line_end d) (drop (length a) (c # cs)))
      \<or> spans a b cs)"

text \<open>\<open>a\s+\S+\s+b\<close>, for \<open>b\<close> that starts with no space.\<close>

fun spans_one_word :: "string \<Rightarrow> string \<Rightarrow> string \<Rightarrow> bool" where
  "spans_one_word a b [] = False"
| "spans_one_word a b (c # cs) =
     (prefix a (c # cs)
        \<and> (let t = drop (length a) (c # cs);
               u = dropWhile is_js_space t;
               v = dropWhile (\<lambda>d. \<not> is_js_space d) u;
               w = dropWhile is_js_space v
           in u \<noteq> t \<and> v \<noteq> u \<and> w \<noteq> v \<and> prefix b w)
      \<or> spans_one_word a b cs)"


section \<open>Codes and messages\<close>

definition normalized_failure_code :: "string option \<Rightarrow> string" where
  "normalized_failure_code code = (case code of
     None \<Rightarrow> []
   | Some c \<Rightarrow> map (\<lambda>x. if x = CHR ''-'' then CHR ''_'' else x) (to_lower (js_trim c)))"

definition is_local_fence_message :: "string option \<Rightarrow> bool" where
  "is_local_fence_message message =
     (let text = to_lower (nullish message [])
      in spans ''opencodex local '' ''maintenance is active'' text
         \<or> str_includes ''native-main profile'' text
         \<or> str_includes ''main profile maintenance'' text \<or> str_includes ''main profile drain'' text)"

definition is_capacity_verdict :: "int option \<Rightarrow> string option \<Rightarrow> string option \<Rightarrow> bool" where
  "is_capacity_verdict status code message =
     (let text = to_lower (nullish message [])
      in to_lower (js_trim (nullish code [])) \<in> set [''capacity'', ''capacity_exceeded'',
            ''capacity_reached'', ''at_capacity'', ''insufficient_capacity'']
         \<or> includes_word False ''capacity'' text \<or> str_includes ''at capacity'' text
         \<or> str_includes ''overloaded'' text \<or> str_includes ''over capacity'' text
         \<or> status = Some 429 \<and> (str_includes ''rate limit'' text \<or> str_includes ''quota'' text
              \<or> str_includes ''limit'' text))"

definition quota_limit_codes :: "string list" where
  "quota_limit_codes = [''1308'', ''1310'', ''1316'', ''1317'', ''1318'', ''1319'', ''1320'',
     ''1321'', ''insufficient_quota'']"

definition transient_request_rate_codes :: "string list" where
  "transient_request_rate_codes = [''1302'', ''1305'']"

definition account_exhaustion_codes :: "string list" where
  "account_exhaustion_codes = [''usage_limit_exceeded'', ''usage_limit_reached'', ''1308'']"

definition provider_scoped_failure_codes :: "string list" where
  "provider_scoped_failure_codes = [''invalid_api_key'', ''insufficient_quota'',
     ''subscription_required'', ''payment_required'', ''billing_error'', ''insufficient_balance'']"

definition request_shape_failure_codes :: "string list" where
  "request_shape_failure_codes = [''input_admission_refused'', ''context_length_exceeded'',
     ''tool_catalog_too_large'', ''cursor_root_envelope_limit'', ''target_incompatible'',
     ''unsupported_input_modality'']"

definition is_account_window_exhausted :: "string \<Rightarrow> string option \<Rightarrow> bool" where
  "is_account_window_exhausted message code =
     (let text = to_lower message
      in normalized_failure_code code \<in> set account_exhaustion_codes
         \<or> str_includes ''usage limit reached'' text \<or> str_includes ''usage limit has been reached'' text
         \<or> spans_one_word ''token-plan'' ''quota has been exhausted'' text)"

definition is_provider_scoped_quota_cap :: "int option \<Rightarrow> string \<Rightarrow> string option \<Rightarrow> bool" where
  "is_provider_scoped_quota_cap status message code =
     (let text = to_lower message
      in status = Some 429 \<and> (normalized_failure_code code = ''gousagelimiterror''
            \<or> str_includes ''monthly usage limit reached'' text)
         \<or> str_includes ''err_free_prompt_cap'' text
         \<or> str_includes ''free tier'' text \<and> str_includes ''single request'' text)"

definition is_request_local_free_prompt_cap :: "int \<Rightarrow> string \<Rightarrow> string option \<Rightarrow> bool" where
  "is_request_local_free_prompt_cap status message code =
     (let text = to_lower message
      in status = 400 \<and> (normalized_failure_code code = ''free_rate_limited''
           \<or> str_includes ''err_free_prompt_cap'' text
           \<or> str_includes ''free tier'' text
               \<and> (str_includes ''single request'' text \<or> str_includes ''prompt'' text)))"

definition is_transient_request_rate_limit :: "int option \<Rightarrow> string option \<Rightarrow> string option \<Rightarrow> bool" where
  "is_transient_request_rate_limit status code message =
     (let c = normalized_failure_code code; text = to_lower (nullish message [])
      in if is_provider_scoped_quota_cap status (nullish message []) code then False
         else if c \<in> set quota_limit_codes then False
         else if c \<in> set transient_request_rate_codes then True
         else if str_includes ''usage limit reached'' text \<or> str_includes ''insufficient_quota'' text
                 \<or> str_includes ''quota exhausted'' text then False
         else str_includes ''rate limit reached for requests'' text)"

definition target_capacity_codes :: "string list" where
  "target_capacity_codes = [''capacity'', ''capacity_exceeded'', ''capacity_reached'', ''at_capacity'']"

text \<open>\<open>^(?:provider error 400:\s*)?(?:...)[.!]?$\<close> without case.\<close>

definition is_target_capacity_rejection :: "int \<Rightarrow> string \<Rightarrow> string option \<Rightarrow> bool" where
  "is_target_capacity_rejection status message code =
     (let text = to_lower (js_trim message);
          rest = (if prefix ''provider error 400:'' text
            then dropWhile is_js_space (drop (length ''provider error 400:'') text) else text);
          core = (if rest \<noteq> [] \<and> last rest \<in> {CHR ''.'', CHR ''!''} then butlast rest else rest)
      in normalized_failure_code code \<in> set target_capacity_codes
         \<or> status = 400 \<and> core \<in> set [''capacity'', ''at capacity'', ''capacity reached'',
              ''capacity exceeded''])"

definition names_any :: "string list \<Rightarrow> string \<Rightarrow> bool" where
  "names_any ws text = list_ex (\<lambda>w. includes_word False w text) ws"

definition is_model_lifecycle_gone :: "int \<Rightarrow> string \<Rightarrow> string option \<Rightarrow> bool" where
  "is_model_lifecycle_gone status message code =
     (let text = to_lower message
      in status = 410
         \<and> (normalized_failure_code code \<in> set [''model_deprecated'', ''model_end_of_life'',
              ''model_eol'', ''model_not_found'', ''model_retired'']
            \<or> includes_word False ''model'' text
               \<and> names_any [''end of life'', ''end of-life'', ''end-of life'', ''end-of-life'',
                   ''no longer available'', ''deprecated'', ''retired'', ''retirement'', ''sunset'',
                   ''decommissioned''] text))"

end
