(* ===== verification/Combo_Failover.thy ===== *)
theory Combo_Failover
  imports Failure_Text
begin

text \<open>
  The cooldown, circuit-breaker and provider-hold state of combos (\<open>combos/failover.ts\<close>).
  Module variables are the fields of one record; every map is insertion ordered. Instants are
  rationals: resets and configured durations need not be whole milliseconds. Log lines are left
  out.
\<close>

section \<open>State\<close>

record combo_target =
  ct_provider :: string
  ct_model :: string

record target_cooldown =
  cooldown_until :: rat
  tc_status :: "int option"
  breaker_tripped :: bool

record breaker_policy =
  failure_threshold :: nat
  success_threshold :: nat
  open_ms :: rat

definition default_combo_breaker :: breaker_policy where
  "default_combo_breaker = \<lparr>failure_threshold = 3, success_threshold = 2, open_ms = 180000\<rparr>"

definition combo_breaker_policy ::
    "(nat option \<times> nat option \<times> rat option) option \<Rightarrow> breaker_policy" where
  "combo_breaker_policy combo = (case nullish combo (None, None, None) of
     (f, k, o_ms) \<Rightarrow> \<lparr>failure_threshold = nullish f (failure_threshold default_combo_breaker),
       success_threshold = nullish k (success_threshold default_combo_breaker),
       open_ms = nullish o_ms (open_ms default_combo_breaker)\<rparr>)"

record target_circuit =
  circ_failures :: nat
  circ_successes :: nat

datatype hold_kind = CapacityHold | FailuresHold

record provider_hold =
  hold_until :: rat
  escalations :: nat
  hold_reason :: string
  hold_kind :: "hold_kind option"
  last_hit_at :: "rat option"
  probing :: bool
  last_probe_at :: "rat option"
  probes :: "nat option"

record combo_state =
  cs_cooldowns :: "(string, target_cooldown) jsmap"
  cs_circuits :: "(string, target_circuit) jsmap"
  cs_stuck :: "(string, rat) jsmap"
  cs_holds :: "(string, provider_hold) jsmap"
  cs_failures :: "(string, rat list) jsmap"
  cs_streaks :: "(string, nat) jsmap"
  cs_hits :: "(string, rat list) jsmap"
  cs_generation :: nat
  cs_live :: "string list"

definition fresh_combo_state :: combo_state where
  "fresh_combo_state = \<lparr>cs_cooldowns = [], cs_circuits = [], cs_stuck = [], cs_holds = [],
     cs_failures = [], cs_streaks = [], cs_hits = [], cs_generation = 0, cs_live = []\<rparr>"

definition target_key :: "combo_target \<Rightarrow> string" where
  "target_key t = ct_provider t @ ''/'' @ ct_model t"

definition cooldown_map_key :: "string \<Rightarrow> combo_target \<Rightarrow> string" where
  "cooldown_map_key combo t = combo @ [CHR 0x00] @ target_key t"

definition target_stuck_defer_ms :: rat where "target_stuck_defer_ms = 10 * 60000"

definition combo_target_deferred :: "string \<Rightarrow> combo_target \<Rightarrow> rat \<Rightarrow> combo_state \<Rightarrow> bool" where
  "combo_target_deferred combo t now s = (case map_of (cs_stuck s) (cooldown_map_key combo t) of
     None \<Rightarrow> False | Some since \<Rightarrow> now - since < target_stuck_defer_ms)"


section \<open>Repeated failures of a provider\<close>

definition provider_failure_window_ms :: rat where "provider_failure_window_ms = 15 * 60000"
definition provider_failure_limit :: nat where "provider_failure_limit = 3"
definition provider_failure_hold_ms :: rat where "provider_failure_hold_ms = 90000"
definition relay_probe_max :: nat where "relay_probe_max = 5"
definition relay_probe_min_interval_ms :: rat where "relay_probe_min_interval_ms = 30000"
definition relay_probe_give_up_hold_ms :: rat where "relay_probe_give_up_hold_ms = 5 * 60000"

fun decimal_text :: "nat \<Rightarrow> string" where
  "decimal_text n = (if n < 10 then [] else decimal_text (n div 10)) @ [char_of (48 + n mod 10)]"

declare decimal_text.simps [simp del]

definition new_hold :: "rat \<Rightarrow> nat \<Rightarrow> string \<Rightarrow> hold_kind \<Rightarrow> rat option \<Rightarrow> provider_hold" where
  "new_hold until rung reason kind hit = \<lparr>hold_until = until, escalations = rung,
     hold_reason = reason, hold_kind = Some kind, last_hit_at = hit, probing = False,
     last_probe_at = None, probes = None\<rparr>"

definition recent :: "rat \<Rightarrow> rat \<Rightarrow> rat list option \<Rightarrow> rat list" where
  "recent window now stamps = filter (\<lambda>x. now - x < window) (nullish stamps []) @ [now]"

definition note_provider_failure :: "string \<Rightarrow> rat \<Rightarrow> combo_state \<Rightarrow> bool \<times> combo_state" where
  "note_provider_failure p now s =
     (let stamps = recent provider_failure_window_ms now (map_of (cs_failures s) p);
          s' = s\<lparr>cs_failures := AList.update p stamps (cs_failures s)\<rparr>;
          old = map_of (cs_holds s) p;
          until = now + provider_failure_hold_ms;
          h = new_hold until (nullish (map_option escalations old) 0 + 1)
            (''repeated failures ('' @ decimal_text (length stamps) @ '' in 15min)'') FailuresHold None
      in if length stamps < provider_failure_limit then (False, s')
         else if (case old of None \<Rightarrow> False | Some e \<Rightarrow> hold_until e \<ge> until) then (True, s')
         else (True, s'\<lparr>cs_holds := AList.update p h (cs_holds s)\<rparr>))"

definition is_provider_capacity_held :: "string \<Rightarrow> rat \<Rightarrow> combo_state \<Rightarrow> bool" where
  "is_provider_capacity_held p now s = (case map_of (cs_holds s) p of
     None \<Rightarrow> False | Some h \<Rightarrow> hold_until h > now \<or> probing h)"

definition provider_hold_kind :: "string \<Rightarrow> rat \<Rightarrow> combo_state \<Rightarrow> hold_kind option" where
  "provider_hold_kind p now s = (case map_of (cs_holds s) p of
     None \<Rightarrow> None
   | Some h \<Rightarrow> if hold_until h \<le> now \<and> \<not> probing h then None
       else if hold_kind h = Some FailuresHold then Some FailuresHold else Some CapacityHold)"

definition provider_capacity_hold :: "string \<Rightarrow> rat \<Rightarrow> combo_state \<Rightarrow> provider_hold option" where
  "provider_capacity_hold p now s = (case map_of (cs_holds s) p of
     None \<Rightarrow> None | Some h \<Rightarrow> if hold_until h > now then Some h else None)"


section \<open>The capacity ladder\<close>

definition capacity_hold_ladder_ms :: "rat list" where
  "capacity_hold_ladder_ms = map (\<lambda>m. m * 60000) [10, 60, 180, 360, 720, 1440]"

definition capacity_rung_reset_ms :: rat where "capacity_rung_reset_ms = 24 * 60 * 60 * 1000"
definition capacity_hit_window_ms :: rat where "capacity_hit_window_ms = 30 * 60000"
definition capacity_hit_limit :: nat where "capacity_hit_limit = 2"

definition ladder_ms :: "nat \<Rightarrow> rat" where
  "ladder_ms streak = capacity_hold_ladder_ms ! (min streak (length capacity_hold_ladder_ms) - 1)"

definition hold_provider_for_capacity ::
    "string \<Rightarrow> string \<Rightarrow> rat \<Rightarrow> combo_state \<Rightarrow> provider_hold \<times> combo_state" where
  "hold_provider_for_capacity p reason now s =
     (let old = map_of (cs_holds s) p;
          parked = (case old of Some e \<Rightarrow> if hold_until e > now then Some e else None | None \<Rightarrow> None)
      in case parked of
           Some e \<Rightarrow> (let h = e\<lparr>last_hit_at := Some now\<rparr>
             in (h, s\<lparr>cs_holds := AList.update p h (cs_holds s)\<rparr>))
         | None \<Rightarrow>
             (let quiet = (case old of Some e \<Rightarrow>
                     (case last_hit_at e of Some t \<Rightarrow> now - t > capacity_rung_reset_ms | None \<Rightarrow> False)
                   | None \<Rightarrow> False);
                  streak = (if quiet then 0 else nullish (map_of (cs_streaks s) p) 0) + 1;
                  h = new_hold (now + ladder_ms streak) streak reason CapacityHold (Some now)
              in (h, s\<lparr>cs_streaks := AList.update p streak (cs_streaks s),
                    cs_holds := AList.update p h (cs_holds s)\<rparr>)))"

definition note_provider_capacity_verdict ::
    "string \<Rightarrow> string \<Rightarrow> rat \<Rightarrow> combo_state \<Rightarrow> provider_hold option \<times> combo_state" where
  "note_provider_capacity_verdict p reason now s =
     (let hits = recent capacity_hit_window_ms now (map_of (cs_hits s) p);
          s' = s\<lparr>cs_hits := AList.update p hits (cs_hits s)\<rparr>
      in if length hits < capacity_hit_limit then (None, s')
         else (case hold_provider_for_capacity p reason now s' of (h, s'') \<Rightarrow> (Some h, s'')))"

definition note_provider_success :: "string \<Rightarrow> combo_state \<Rightarrow> combo_state" where
  "note_provider_success p s =
     s\<lparr>cs_holds := (case map_of (cs_holds s) p of
          Some h \<Rightarrow> if hold_kind h \<noteq> Some CapacityHold then AList.delete p (cs_holds s) else cs_holds s
        | None \<Rightarrow> AList.delete p (cs_holds s)),
       cs_failures := AList.delete p (cs_failures s)\<rparr>"


section \<open>Half-open probes\<close>

definition may_claim :: "rat \<Rightarrow> provider_hold \<Rightarrow> bool" where
  "may_claim now h \<longleftrightarrow> \<not> probing h \<and>
     (if hold_kind h = Some CapacityHold
      then hold_until h \<le> now \<and> nullish (last_probe_at h) 0 < hold_until h
      else nullish (probes h) 0 < relay_probe_max
        \<and> relay_probe_min_interval_ms \<le> now - nullish (last_probe_at h) 0)"

definition claim_provider_probe :: "string \<Rightarrow> rat \<Rightarrow> combo_state \<Rightarrow> bool \<times> combo_state" where
  "claim_provider_probe p now s = (case map_of (cs_holds s) p of
     None \<Rightarrow> (False, s)
   | Some h \<Rightarrow> if may_claim now h
       then (True, s\<lparr>cs_holds := AList.update p (h\<lparr>probing := True, last_probe_at := Some now\<rparr>) (cs_holds s)\<rparr>)
       else (False, s))"

definition rearm_relay :: "rat \<Rightarrow> provider_hold \<Rightarrow> provider_hold" where
  "rearm_relay now h = (let n = nullish (probes h) 0 + 1
     in h\<lparr>hold_until := now + (if n \<ge> relay_probe_max then relay_probe_give_up_hold_ms
            else provider_failure_hold_ms),
          probing := False, probes := Some n, last_hit_at := Some now\<rparr>)"

definition finish_provider_probe :: "string \<Rightarrow> bool \<Rightarrow> rat \<Rightarrow> combo_state \<Rightarrow> combo_state" where
  "finish_provider_probe p ok now s = (case map_of (cs_holds s) p of
     None \<Rightarrow> s
   | Some h0 \<Rightarrow>
       (let h = h0\<lparr>probing := False\<rparr>;
            s' = s\<lparr>cs_holds := AList.update p h (cs_holds s)\<rparr>
        in if ok then s'\<lparr>cs_holds := AList.delete p (cs_holds s'),
               cs_streaks := AList.delete p (cs_streaks s'), cs_hits := AList.delete p (cs_hits s')\<rparr>
           else if hold_kind h \<noteq> Some CapacityHold
             then s'\<lparr>cs_holds := AList.update p (rearm_relay now h) (cs_holds s')\<rparr>
           else snd (hold_provider_for_capacity p ''half-open probe failed'' now s')))"


section \<open>Cooldowns of targets\<close>

definition is_combo_target_in_cooldown ::
    "string \<Rightarrow> combo_target \<Rightarrow> rat \<Rightarrow> combo_state \<Rightarrow> bool \<times> combo_state" where
  "is_combo_target_in_cooldown combo t now s =
     (let key = cooldown_map_key combo t
      in case map_of (cs_cooldowns s) key of
           None \<Rightarrow> (False, s)
         | Some e \<Rightarrow> if cooldown_until e \<le> now
             then (False, s\<lparr>cs_cooldowns := AList.delete key (cs_cooldowns s)\<rparr>) else (True, s))"

definition is_combo_target_breaker_open ::
    "string \<Rightarrow> combo_target \<Rightarrow> rat \<Rightarrow> combo_state \<Rightarrow> bool" where
  "is_combo_target_breaker_open combo t now s =
     (case map_of (cs_cooldowns s) (cooldown_map_key combo t) of
        None \<Rightarrow> False | Some e \<Rightarrow> breaker_tripped e \<and> cooldown_until e > now)"

definition combo_prefix :: "string \<Rightarrow> string" where
  "combo_prefix combo = combo @ [CHR 0x00]"

definition remaining_combo_cooldown_ms ::
    "string \<Rightarrow> rat \<Rightarrow> combo_state \<Rightarrow> rat option \<times> combo_state" where
  "remaining_combo_cooldown_ms combo now s =
     (smallest None (map (\<lambda>(k, e). if prefix (combo_prefix combo) k \<and> cooldown_until e - now > 0
          then Some (cooldown_until e - now) else None) (cs_cooldowns s)),
      s\<lparr>cs_cooldowns := filter (\<lambda>(k, e). \<not> (prefix (combo_prefix combo) k \<and> cooldown_until e - now \<le> 0))
          (cs_cooldowns s)\<rparr>)"

text \<open>The header value, here the whole number its text spells.\<close>

definition combo_cooldown_retry_after_seconds ::
    "string \<Rightarrow> rat \<Rightarrow> combo_state \<Rightarrow> int option \<times> combo_state" where
  "combo_cooldown_retry_after_seconds combo now s =
     (case remaining_combo_cooldown_ms combo now s of
        (r, s') \<Rightarrow> (map_option (\<lambda>ms. max 1 \<lceil>ms / 1000\<rceil>) r, s'))"

definition snapshot_combo_quota_cooldowns ::
    "string \<Rightarrow> combo_target list \<Rightarrow> rat \<Rightarrow> combo_state \<Rightarrow> (combo_target \<times> rat) list" where
  "snapshot_combo_quota_cooldowns combo targets now s =
     List.map_filter (\<lambda>t. case map_of (cs_cooldowns s) (cooldown_map_key combo t) of
         None \<Rightarrow> None
       | Some e \<Rightarrow> if cooldown_until e \<le> now \<or> tc_status e \<noteq> Some 429 \<and> tc_status e \<noteq> Some 402
           then None else Some (t, cooldown_until e)) targets"

fun earliest_from ::
    "(rat \<times> combo_target) option \<Rightarrow> string \<Rightarrow> combo_target list \<Rightarrow> rat \<Rightarrow> combo_state
      \<Rightarrow> (rat \<times> combo_target) option" where
  "earliest_from best combo [] now s = best"
| "earliest_from best combo (t # ts) now s =
     earliest_from (case map_of (cs_cooldowns s) (cooldown_map_key combo t) of
         None \<Rightarrow> best
       | Some e \<Rightarrow> if cooldown_until e \<le> now then best
           else (case best of None \<Rightarrow> Some (cooldown_until e, t)
             | Some (x, _) \<Rightarrow> if cooldown_until e < x then Some (cooldown_until e, t) else best))
       combo ts now s"

definition earliest_combo_cooldown ::
    "string \<Rightarrow> combo_target list \<Rightarrow> rat \<Rightarrow> combo_state \<Rightarrow> (rat \<times> combo_target) option" where
  "earliest_combo_cooldown = earliest_from None"

definition earliest_combo_cooldown_expiry ::
    "string \<Rightarrow> combo_target list \<Rightarrow> rat \<Rightarrow> combo_state \<Rightarrow> rat option" where
  "earliest_combo_cooldown_expiry combo targets now s =
     map_option fst (earliest_combo_cooldown combo targets now s)"

text \<open>What reconciliation hands over: the generation and the live \<open>combo::provider/model\<close> keys.\<close>

definition reconcile_combo_target_cooldowns :: "nat \<Rightarrow> string list \<Rightarrow> combo_state \<Rightarrow> combo_state" where
  "reconcile_combo_target_cooldowns generation live s =
     (if generation \<le> cs_generation s then s
      else s\<lparr>cs_live := live, cs_generation := generation\<rparr>)"

definition sweep_expired_combo_target_cooldowns :: "rat \<Rightarrow> combo_state \<Rightarrow> nat \<times> combo_state" where
  "sweep_expired_combo_target_cooldowns now s =
     (let kept = filter (\<lambda>(k, e). cooldown_until e > now) (cs_cooldowns s)
      in (length (cs_cooldowns s) - length kept, s\<lparr>cs_cooldowns := kept\<rparr>))"

definition clear_combo_target_cooldowns :: "string option \<Rightarrow> combo_state \<Rightarrow> combo_state" where
  "clear_combo_target_cooldowns combo s = (case combo of
     None \<Rightarrow> s\<lparr>cs_cooldowns := [], cs_live := [], cs_generation := 0\<rparr>
   | Some c \<Rightarrow> s\<lparr>cs_cooldowns := filter (\<lambda>(k, e). \<not> prefix (combo_prefix c) k) (cs_cooldowns s)\<rparr>)"


section \<open>Recording an attempt\<close>

record cool_options =
  co_retry_after :: "string option"
  co_reset_at :: "json option"
  co_cooldown_ms :: "rat option"
  co_writer_generation :: "nat option"
  co_status :: "int option"
  co_code :: "string option"
  co_message :: "string option"
  co_breaker :: "breaker_policy option"
  co_ladder :: bool

definition combo_request_rate_cooldown_ms :: rat where "combo_request_rate_cooldown_ms = 5000"

definition owner_key :: "string \<Rightarrow> combo_target \<Rightarrow> string" where
  "owner_key combo t = combo @ ''::'' @ target_key t"

definition server_delay_ms :: "int \<Rightarrow> cool_options \<Rightarrow> rat option" where
  "server_delay_ms now opts = parse_retry_after_ms (co_retry_after opts) now
     \<lparr>preserve_immediate = True, preserve_server_delay = True\<rparr>"

definition guessed_cooldown_ms :: "cool_options \<Rightarrow> rat" where
  "guessed_cooldown_ms opts =
     (if is_account_window_exhausted (nullish (co_message opts) []) (co_code opts)
         \<or> normalized_failure_code (co_code opts) \<in> set provider_scoped_failure_codes
      then max_cooldown_ms
      else if is_transient_request_rate_limit (co_status opts) (co_code opts) (co_message opts)
      then combo_request_rate_cooldown_ms else default_cooldown_ms)"

definition fallback_cooldown_ms :: "(string \<Rightarrow> jsnum) \<Rightarrow> int \<Rightarrow> cool_options \<Rightarrow> rat" where
  "fallback_cooldown_ms read now opts =
     (case server_delay_ms now opts of
        Some d \<Rightarrow> d
      | None \<Rightarrow>
          (let ms = (case parse_reset_cooldown_ms read (co_reset_at opts) (of_int now) of
               Some d \<Rightarrow> d
             | None \<Rightarrow> nullish (co_cooldown_ms opts) (guessed_cooldown_ms opts))
           in min (max ms 1) max_cooldown_ms))"

definition bump_circuit :: "target_circuit option \<Rightarrow> target_circuit" where
  "bump_circuit c = \<lparr>circ_failures = nullish (map_option circ_failures c) 0 + 1, circ_successes = 0\<rparr>"

definition trips :: "breaker_policy option \<Rightarrow> target_circuit \<Rightarrow> bool" where
  "trips breaker c \<longleftrightarrow> (case breaker of None \<Rightarrow> False | Some b \<Rightarrow> circ_failures c \<ge> failure_threshold b)"

definition is_stuck_failure :: "cool_options \<Rightarrow> bool" where
  "is_stuck_failure opts \<longleftrightarrow> co_status opts = Some 504
     \<or> str_includes ''first-byte timeout'' (nullish (co_message opts) [])"

text \<open>The target's own share of \<open>coolComboTarget\<close>: stuck mark, circuit and cooldown.\<close>

definition cool_target ::
    "(string \<Rightarrow> jsnum) \<Rightarrow> string \<Rightarrow> combo_target \<Rightarrow> int \<Rightarrow> cool_options \<Rightarrow> combo_state \<Rightarrow> combo_state" where
  "cool_target read combo t now opts s =
     (let key = cooldown_map_key combo t;
          c = bump_circuit (map_of (cs_circuits s) key);
          tripped = trips (co_breaker opts) c;
          base = fallback_cooldown_ms read now opts;
          hold = (if tripped then max base (nullish (map_option open_ms (co_breaker opts)) 0) else base)
      in s\<lparr>cs_stuck := (if is_stuck_failure opts then AList.update key (of_int now) (cs_stuck s) else cs_stuck s),
           cs_circuits := AList.update key c (cs_circuits s),
           cs_cooldowns := AList.update key
             \<lparr>cooldown_until = of_int now + max hold 1, tc_status = co_status opts, breaker_tripped = tripped\<rparr>
             (cs_cooldowns s)\<rparr>)"

definition park_worthy :: "cool_options \<Rightarrow> bool" where
  "park_worthy opts \<longleftrightarrow> co_ladder opts \<and> \<not> is_local_fence_message (co_message opts)
     \<and> (is_capacity_verdict (co_status opts) (co_code opts) (co_message opts)
        \<or> nullish (co_status opts) 0 \<ge> 500)"

text \<open>The provider's share: a capacity verdict, or a failure in the shared ledger, or nothing.\<close>

definition cool_provider :: "string \<Rightarrow> int \<Rightarrow> cool_options \<Rightarrow> combo_state \<Rightarrow> combo_state" where
  "cool_provider p now opts s =
     (if park_worthy opts
      then snd (note_provider_capacity_verdict p (take 120 (nullish (co_message opts) ''capacity'')) (of_int now) s)
      else if (nullish (co_status opts) 0 \<ge> 500 \<or> co_status opts = Some 429)
              \<and> \<not> is_local_fence_message (co_message opts)
      then snd (note_provider_failure p (of_int now) s) else s)"

text \<open>
  \<open>config_generation\<close> is what \<open>captureConfigGeneration\<close> answers; \<open>retry\<close> is the context a
  pending reconciliation retry builds during \<open>sweepExpiredOnWrite\<close>, None when none is pending.
\<close>

definition sweep_expired_on_write :: "(nat \<times> string list) option \<Rightarrow> rat \<Rightarrow> combo_state \<Rightarrow> combo_state" where
  "sweep_expired_on_write retry now s =
     (let s' = snd (sweep_expired_combo_target_cooldowns now s)
      in case retry of None \<Rightarrow> s' | Some (g, live) \<Rightarrow> reconcile_combo_target_cooldowns g live s')"

definition cool_combo_target ::
    "(string \<Rightarrow> jsnum) \<Rightarrow> nat \<Rightarrow> (nat \<times> string list) option \<Rightarrow> string \<Rightarrow> combo_target \<Rightarrow> int
      \<Rightarrow> cool_options \<Rightarrow> combo_state \<Rightarrow> bool \<times> combo_state" where
  "cool_combo_target read config_generation retry combo t now opts s =
     (if nullish (co_writer_generation opts) config_generation < cs_generation s
         \<and> owner_key combo t \<notin> set (cs_live s)
      then (False, s)
      else (True, sweep_expired_on_write retry (of_int now)
             (cool_provider (ct_provider t) now opts (cool_target read combo t now opts s))))"

definition close_circuit :: "breaker_policy \<Rightarrow> target_circuit \<Rightarrow> target_circuit" where
  "close_circuit b c =
     (if circ_failures c \<ge> failure_threshold b
      then (if circ_successes c + 1 \<ge> success_threshold b
            then c\<lparr>circ_failures := 0, circ_successes := 0\<rparr>
            else c\<lparr>circ_successes := circ_successes c + 1\<rparr>)
      else c\<lparr>circ_failures := 0, circ_successes := 0\<rparr>)"

definition note_combo_target_success ::
    "string \<Rightarrow> combo_target \<Rightarrow> breaker_policy \<Rightarrow> combo_state \<Rightarrow> combo_state" where
  "note_combo_target_success combo t b s =
     (let key = cooldown_map_key combo t
      in s\<lparr>cs_stuck := AList.delete key (cs_stuck s),
           cs_cooldowns := AList.delete key (cs_cooldowns s),
           cs_circuits := (case map_of (cs_circuits s) key of
              None \<Rightarrow> cs_circuits s
            | Some c \<Rightarrow> AList.update key (close_circuit b c) (cs_circuits s))\<rparr>)"

text \<open>The state's share of \<open>noteComboSuccess\<close> in \<open>combos/resolve.ts\<close>.\<close>

definition record_success ::
    "string \<Rightarrow> combo_target \<Rightarrow> breaker_policy \<Rightarrow> combo_state \<Rightarrow> combo_state" where
  "record_success combo t b s =
     note_provider_success (ct_provider t) (note_combo_target_success combo t b s)"


section \<open>Recording a failed pick\<close>

text \<open>
  The cooling share of \<open>advanceComboAfterFailure\<close> (\<open>combos/resolve.ts\<close>): a scope of the
  whole provider cools every target of that provider in the combo, one after the other. The
  declared targets are None for an unknown combo; \<open>official\<close> is whether the provider is on the
  capacity ladder.
\<close>

datatype cooldown_scope = ScopeNone | ScopeTarget | ScopeProvider

definition is_account_scoped :: "bool \<Rightarrow> int option \<Rightarrow> cooldown_scope option \<Rightarrow> bool" where
  "is_account_scoped failed_account status scope \<longleftrightarrow> failed_account
     \<and> (if status = Some 429 then scope = Some ScopeTarget else status = Some 402)"

definition cooled_targets ::
    "cooldown_scope option \<Rightarrow> combo_target list option \<Rightarrow> combo_target \<Rightarrow> combo_target list" where
  "cooled_targets scope targets t = (case targets of
     Some ts \<Rightarrow> if scope = Some ScopeProvider then filter (\<lambda>u. ct_provider u = ct_provider t) ts else [t]
   | None \<Rightarrow> [t])"

fun cool_each ::
    "(string \<Rightarrow> jsnum) \<Rightarrow> nat \<Rightarrow> (nat \<times> string list) option \<Rightarrow> string \<Rightarrow> combo_target list \<Rightarrow> int
      \<Rightarrow> cool_options \<Rightarrow> combo_state \<Rightarrow> combo_target list \<times> combo_state" where
  "cool_each read g retry combo [] now opts s = ([], s)"
| "cool_each read g retry combo (t # ts) now opts s =
     (case cool_combo_target read g retry combo t now opts s of
        (recorded, s') \<Rightarrow> (case cool_each read g retry combo ts now opts s' of
          (logged, s'') \<Rightarrow> (if recorded then t # logged else logged, s'')))"

definition cool_failed_pick ::
    "(string \<Rightarrow> jsnum) \<Rightarrow> nat \<Rightarrow> (nat \<times> string list) option \<Rightarrow> string \<Rightarrow> combo_target list option
      \<Rightarrow> breaker_policy \<Rightarrow> rat option \<Rightarrow> bool \<Rightarrow> cooldown_scope option \<Rightarrow> bool \<Rightarrow> nat \<Rightarrow> combo_target
      \<Rightarrow> int \<Rightarrow> cool_options \<Rightarrow> combo_state \<Rightarrow> combo_target list \<times> combo_state" where
  "cool_failed_pick read g retry combo targets policy cooldown official scope failed_account writer t now opts s =
     (if scope = Some ScopeNone \<or> is_account_scoped failed_account (co_status opts) scope then ([], s)
      else cool_each read g retry combo (cooled_targets scope targets t) now
             (opts\<lparr>co_breaker := Some policy, co_ladder := official,
                co_cooldown_ms := (case co_cooldown_ms opts of None \<Rightarrow> cooldown | Some ms \<Rightarrow> Some ms),
                co_writer_generation := Some writer\<rparr>) s)"

end
