(* ===== verification/Combo_Steps.thy ===== *)
theory Combo_Steps
  imports Combo_Failover
begin

text \<open>
  The runs of the combo state under a clock that never goes back, and what they keep: the
  capacity rung of a provider against the time it took to climb there, and the shape of
  circuits and holds.
\<close>

inductive combo_step :: "(string \<Rightarrow> jsnum) \<Rightarrow> int \<Rightarrow> combo_state \<Rightarrow> combo_state \<Rightarrow> bool" for read where
  Cool: "cool_combo_target read g retry combo t now opts s = (r, s') \<Longrightarrow> combo_step read now s s'"
| Success: "combo_step read now s (record_success combo t b s)"
| Claim: "claim_provider_probe p (of_int now) s = (r, s') \<Longrightarrow> combo_step read now s s'"
| Finish: "combo_step read now s (finish_provider_probe p ok (of_int now) s)"
| Check: "is_combo_target_in_cooldown combo t (of_int now) s = (r, s') \<Longrightarrow> combo_step read now s s'"
| Remaining: "remaining_combo_cooldown_ms combo (of_int now) s = (r, s') \<Longrightarrow> combo_step read now s s'"
| Reconcile: "combo_step read now s (reconcile_combo_target_cooldowns g live s)"
| Sweep: "sweep_expired_combo_target_cooldowns (of_int now) s = (n, s') \<Longrightarrow> combo_step read now s s'"
| Clear: "combo_step read now s (clear_combo_target_cooldowns combo_or_all s)"

inductive combo_reach :: "(string \<Rightarrow> jsnum) \<Rightarrow> int \<Rightarrow> int \<Rightarrow> combo_state \<Rightarrow> bool" for read start where
  Start: "combo_reach read start start fresh_combo_state"
| Step: "\<lbrakk>combo_reach read start t s; t \<le> now; combo_step read now s s'\<rbrakk> \<Longrightarrow> combo_reach read start now s'"

inductive_cases combo_stepE: "combo_step read now s s'"


section \<open>The time a rung takes\<close>

text \<open>
  A rung is left only when its hold has run out, or when a relay-style hold replaced it in its
  last ninety seconds; \<open>climb k\<close> is the least time the first \<open>k\<close> rungs take.
\<close>

definition climb :: "nat \<Rightarrow> rat" where
  "climb k = (\<Sum>i\<leftarrow>[1..<Suc k]. ladder_ms i - provider_failure_hold_ms)"

lemma climb_0 [simp]: "climb 0 = 0"
  by (simp add: climb_def)

lemma climb_Suc: "climb (Suc k) = climb k + (ladder_ms (Suc k) - provider_failure_hold_ms)"
  by (simp add: climb_def)

lemma ladder_bounds: "600000 \<le> ladder_ms k" "ladder_ms k \<le> 86400000"
proof -
  have "ladder_ms k \<in> set capacity_hold_ladder_ms"
    unfolding ladder_ms_def by (rule nth_mem) (auto simp: capacity_hold_ladder_ms_def)
  then show "600000 \<le> ladder_ms k" "ladder_ms k \<le> 86400000"
    by (auto simp: capacity_hold_ladder_ms_def)
qed

lemma climb_mono: "climb k \<le> climb (Suc k)"
  using ladder_bounds(1) [of "Suc k"] by (simp add: climb_Suc provider_failure_hold_ms_def)

definition ladder_kept :: "rat \<Rightarrow> rat \<Rightarrow> provider_hold option \<Rightarrow> nat option \<Rightarrow> bool" where
  "ladder_kept start now hold streak \<longleftrightarrow>
     (case streak of None \<Rightarrow> True
      | Some n \<Rightarrow> 1 \<le> n \<and> climb (n - 1) \<le> now - start)
     \<and> (case hold of None \<Rightarrow> True
      | Some h \<Rightarrow> hold_until h \<le> now + 86400000
          \<and> (hold_kind h = Some CapacityHold \<longrightarrow> streak = Some (escalations h)))
     \<and> (case streak of None \<Rightarrow> True
      | Some n \<Rightarrow> (case hold of
            Some h \<Rightarrow> if hold_kind h = Some CapacityHold
              then start + climb (n - 1) + ladder_ms n \<le> hold_until h
              else climb n \<le> now - start
          | None \<Rightarrow> climb n \<le> now - start))"

definition ladder_inv :: "rat \<Rightarrow> rat \<Rightarrow> combo_state \<Rightarrow> bool" where
  "ladder_inv start now s \<longleftrightarrow>
     (\<forall>p. ladder_kept start now (map_of (cs_holds s) p) (map_of (cs_streaks s) p))"

lemma ladder_kept_later:
  assumes "ladder_kept start t h n" and "t \<le> now"
  shows "ladder_kept start now h n"
  using assms unfolding ladder_kept_def by (auto split: option.splits if_splits)

lemma ladder_inv_fresh: "ladder_inv t t fresh_combo_state"
  by (simp add: ladder_inv_def ladder_kept_def fresh_combo_state_def)

lemma ladder_inv_same:
  assumes "ladder_inv start now s" and "cs_holds s' = cs_holds s" and "cs_streaks s' = cs_streaks s"
  shows "ladder_inv start now s'"
  using assms by (simp add: ladder_inv_def)

text \<open>One provider's hold and streak change at a time.\<close>

lemma ladder_inv_at:
  assumes "ladder_inv start now s"
    and "\<And>q. q \<noteq> p \<Longrightarrow> map_of (cs_holds s') q = map_of (cs_holds s) q"
    and "\<And>q. q \<noteq> p \<Longrightarrow> map_of (cs_streaks s') q = map_of (cs_streaks s) q"
    and "ladder_kept start now (map_of (cs_holds s') p) (map_of (cs_streaks s') p)"
  shows "ladder_inv start now s'"
  unfolding ladder_inv_def
proof
  fix q
  show "ladder_kept start now (map_of (cs_holds s') q) (map_of (cs_streaks s') q)"
    using assms by (cases "q = p") (auto simp: ladder_inv_def)
qed

lemma ladder_kept_drop:
  assumes "ladder_kept start now (Some h) n" and "hold_kind h \<noteq> Some CapacityHold"
  shows "ladder_kept start now None n"
  using assms by (auto simp: ladder_kept_def split: option.splits)

lemma ladder_kept_touch:
  assumes "ladder_kept start now (Some h) n"
    and "hold_until h' = hold_until h" "hold_kind h' = hold_kind h" "escalations h' = escalations h"
  shows "ladder_kept start now (Some h') n"
  using assms by (auto simp: ladder_kept_def split: option.splits)

lemma ladder_kept_probing:
  "ladder_kept start now (Some h) n \<Longrightarrow> ladder_kept start now (Some (h\<lparr>probing := b, last_probe_at := x\<rparr>)) n"
  by (erule ladder_kept_touch) simp_all

lemma ladder_kept_relay:
  assumes "ladder_kept start now (Some h) n" and "hold_kind h \<noteq> Some CapacityHold"
    and "hold_kind h' = hold_kind h" and "hold_until h' \<le> now + 86400000"
  shows "ladder_kept start now (Some h') n"
  using assms by (auto simp: ladder_kept_def split: option.splits)

lemma ladder_kept_failures:
  assumes "ladder_kept start now old n"
    and "(case old of None \<Rightarrow> True | Some e \<Rightarrow> hold_until e < now + provider_failure_hold_ms)"
    and "hold_kind h = Some FailuresHold" and "hold_until h = now + provider_failure_hold_ms"
  shows "ladder_kept start now (Some h) n"
proof (cases n)
  case None
  with assms show ?thesis by (auto simp: ladder_kept_def provider_failure_hold_ms_def)
next
  case (Some k)
  then obtain j where j: "k = Suc j" using assms(1) by (cases k) (auto simp: ladder_kept_def)
  show ?thesis
    using assms Some j by (auto simp: ladder_kept_def climb_Suc provider_failure_hold_ms_def split: option.splits if_splits)
qed

lemma ladder_kept_escalate:
  assumes "ladder_kept start now old n" and "start \<le> now"
    and "(case old of None \<Rightarrow> True | Some e \<Rightarrow> hold_until e \<le> now)"
    and "k = 1 \<or> k = nullish n 0 + 1"
    and "hold_kind h = Some CapacityHold" "hold_until h = now + ladder_ms k" "escalations h = k"
  shows "ladder_kept start now (Some h) (Some k)"
proof -
  have "climb (k - 1) \<le> now - start"
  proof (cases n)
    case None
    with assms(2, 4) show ?thesis by auto
  next
    case (Some m)
    then obtain j where j: "m = Suc j" using assms(1) by (cases m) (auto simp: ladder_kept_def)
    have "climb m \<le> now - start"
      using assms(1, 3) Some j
      by (auto simp: ladder_kept_def climb_Suc provider_failure_hold_ms_def split: option.splits if_splits)
    with assms(2, 4) Some show ?thesis by auto
  qed
  with assms(4-7) ladder_bounds(2) [of k] show ?thesis by (auto simp: ladder_kept_def)
qed


section \<open>Every step keeps it\<close>

lemma ladder_hold_capacity:
  assumes "ladder_inv start now s" and "start \<le> now"
    and "hold_provider_for_capacity p reason now s = (h, s')"
  shows "ladder_inv start now s'"
proof -
  have k: "ladder_kept start now (map_of (cs_holds s) p) (map_of (cs_streaks s) p)"
    using assms(1) by (simp add: ladder_inv_def)
  show ?thesis
  proof (cases "\<exists>e. map_of (cs_holds s) p = Some e \<and> hold_until e > now")
    case True
    then obtain e where e: "map_of (cs_holds s) p = Some e" "hold_until e > now" by blast
    have s': "s' = s\<lparr>cs_holds := AList.update p (e\<lparr>last_hit_at := Some now\<rparr>) (cs_holds s)\<rparr>"
      using assms(3) e by (auto simp: hold_provider_for_capacity_def Let_def)
    show ?thesis
      using ladder_kept_touch [of start now e _ "e\<lparr>last_hit_at := Some now\<rparr>"] k e
      by (intro ladder_inv_at [OF assms(1), of p]) (auto simp: s')
  next
    case False
    define quiet where "quiet = (case map_of (cs_holds s) p of Some e \<Rightarrow>
        (case last_hit_at e of Some t \<Rightarrow> now - t > capacity_rung_reset_ms | None \<Rightarrow> False) | None \<Rightarrow> False)"
    define n where "n = (if quiet then 0 else nullish (map_of (cs_streaks s) p) 0) + 1"
    have pk: "(case map_of (cs_holds s) p of Some e \<Rightarrow> if hold_until e > now then Some e else None | None \<Rightarrow> None) = None"
      using False by (auto split: option.splits)
    have s': "s' = s\<lparr>cs_streaks := AList.update p n (cs_streaks s),
        cs_holds := AList.update p (new_hold (now + ladder_ms n) n reason CapacityHold (Some now)) (cs_holds s)\<rparr>"
      using assms(3) unfolding hold_provider_for_capacity_def Let_def pk n_def quiet_def by auto
    have "ladder_kept start now (Some (new_hold (now + ladder_ms n) n reason CapacityHold (Some now))) (Some n)"
      by (rule ladder_kept_escalate [OF k assms(2)])
        (use False in \<open>auto simp: n_def new_hold_def split: option.splits\<close>)
    then show ?thesis
      by (intro ladder_inv_at [OF assms(1), of p]) (auto simp: s')
  qed
qed

lemma ladder_capacity_verdict:
  assumes "ladder_inv start now s" and "start \<le> now"
  shows "ladder_inv start now (snd (note_provider_capacity_verdict p reason now s))"
proof -
  let ?hits = "recent capacity_hit_window_ms now (map_of (cs_hits s) p)"
  let ?s = "s\<lparr>cs_hits := AList.update p ?hits (cs_hits s)\<rparr>"
  have i: "ladder_inv start now ?s" by (rule ladder_inv_same [OF assms(1)]) simp_all
  obtain h s' where h: "hold_provider_for_capacity p reason now ?s = (h, s')" by fastforce
  have "ladder_inv start now s'" by (rule ladder_hold_capacity [OF i assms(2) h])
  with i h show ?thesis by (simp add: note_provider_capacity_verdict_def Let_def)
qed

lemma note_provider_failure_cases:
  obtains (Quiet) "cs_holds (snd (note_provider_failure p now s)) = cs_holds s"
  | (Held) h where "cs_holds (snd (note_provider_failure p now s)) = AList.update p h (cs_holds s)"
      "hold_kind h = Some FailuresHold" "hold_until h = now + provider_failure_hold_ms"
      "(case map_of (cs_holds s) p of None \<Rightarrow> True | Some e \<Rightarrow> hold_until e < now + provider_failure_hold_ms)"
proof -
  let ?n = "length (recent provider_failure_window_ms now (map_of (cs_failures s) p))"
  let ?early = "case map_of (cs_holds s) p of None \<Rightarrow> False
    | Some e \<Rightarrow> hold_until e \<ge> now + provider_failure_hold_ms"
  show thesis
  proof (cases "?n < provider_failure_limit \<or> ?early")
    case True
    then show thesis by (intro Quiet) (auto simp: note_provider_failure_def Let_def)
  next
    case False
    then show thesis
      by (intro Held [of "new_hold (now + provider_failure_hold_ms)
          (nullish (map_option escalations (map_of (cs_holds s) p)) 0 + 1)
          (''repeated failures ('' @ decimal_text ?n @ '' in 15min)'') FailuresHold None"])
        (auto simp: note_provider_failure_def Let_def new_hold_def split: option.splits)
  qed
qed

lemma note_provider_failure_streaks [simp]:
  "cs_streaks (snd (note_provider_failure p now s)) = cs_streaks s"
  by (simp add: note_provider_failure_def Let_def)

lemma ladder_provider_failure:
  assumes "ladder_inv start now s"
  shows "ladder_inv start now (snd (note_provider_failure p now s))"
proof (cases rule: note_provider_failure_cases [where p = p and now = now and s = s])
  case Quiet
  then show ?thesis by (intro ladder_inv_same [OF assms]) simp_all
next
  case (Held h)
  have "ladder_kept start now (map_of (cs_holds s) p) (map_of (cs_streaks s) p)"
    using assms by (simp add: ladder_inv_def)
  then have "ladder_kept start now (Some h) (map_of (cs_streaks s) p)"
    by (rule ladder_kept_failures [OF _ Held(4,2,3)])
  then show ?thesis
    by (intro ladder_inv_at [OF assms, of p]) (simp_all add: Held(1))
qed

lemma ladder_provider_success:
  assumes "ladder_inv start now s"
  shows "ladder_inv start now (note_provider_success p s)"
proof -
  have "ladder_kept start now (map_of (cs_holds s) p) (map_of (cs_streaks s) p)"
    using assms by (simp add: ladder_inv_def)
  then show ?thesis
    by (intro ladder_inv_at [OF assms, of p])
      (auto simp: note_provider_success_def intro: ladder_kept_drop split: option.splits)
qed

lemma ladder_claim:
  assumes "ladder_inv start now s" and "claim_provider_probe p t s = (r, s')"
  shows "ladder_inv start now s'"
proof -
  have "ladder_kept start now (map_of (cs_holds s) p) (map_of (cs_streaks s) p)"
    using assms by (simp add: ladder_inv_def)
  then show ?thesis
    using assms(2) by (intro ladder_inv_at [OF assms(1), of p])
      (auto simp: claim_provider_probe_def intro: ladder_kept_probing split: option.splits if_splits)
qed

lemma ladder_finish:
  assumes "ladder_inv start now s" and "start \<le> now"
  shows "ladder_inv start now (finish_provider_probe p ok now s)"
proof (cases "map_of (cs_holds s) p")
  case None
  with assms(1) show ?thesis by (simp add: finish_provider_probe_def)
next
  case (Some h)
  let ?h = "h\<lparr>probing := False\<rparr>"
  let ?s = "s\<lparr>cs_holds := AList.update p ?h (cs_holds s)\<rparr>"
  have k: "ladder_kept start now (Some ?h) (map_of (cs_streaks s) p)"
  proof (rule ladder_kept_touch [of _ _ h])
    show "ladder_kept start now (Some h) (map_of (cs_streaks s) p)"
      using assms(1) Some by (metis ladder_inv_def)
  qed simp_all
  then have i: "ladder_inv start now ?s"
    by (intro ladder_inv_at [OF assms(1), of p]) simp_all
  consider "ok" | "\<not> ok" "hold_kind h \<noteq> Some CapacityHold" | "\<not> ok" "hold_kind h = Some CapacityHold" by blast
  then show ?thesis
  proof cases
    case 1
    then show ?thesis using Some
      by (intro ladder_inv_at [OF i, of p]) (auto simp: finish_provider_probe_def Let_def ladder_kept_def)
  next
    case 2
    have "ladder_kept start now (Some (rearm_relay now ?h)) (map_of (cs_streaks s) p)"
      by (rule ladder_kept_relay [OF k]) (use 2 in \<open>simp_all add: rearm_relay_def Let_def
          relay_probe_give_up_hold_ms_def provider_failure_hold_ms_def\<close>)
    then show ?thesis using Some 2
      by (intro ladder_inv_at [OF i, of p]) (auto simp: finish_provider_probe_def Let_def)
  next
    case 3
    obtain g s' where g: "hold_provider_for_capacity p ''half-open probe failed'' now ?s = (g, s')" by fastforce
    have "ladder_inv start now s'" by (rule ladder_hold_capacity [OF i assms(2) g])
    then show ?thesis using Some 3 g by (simp add: finish_provider_probe_def)
  qed
qed

lemma cool_target_holds [simp]:
  "cs_holds (cool_target read combo t now opts s) = cs_holds s"
  "cs_streaks (cool_target read combo t now opts s) = cs_streaks s"
  by (simp_all add: cool_target_def Let_def)

lemma sweep_on_write_keeps [simp]:
  "cs_holds (sweep_expired_on_write retry now s) = cs_holds s"
  "cs_streaks (sweep_expired_on_write retry now s) = cs_streaks s"
  "cs_circuits (sweep_expired_on_write retry now s) = cs_circuits s"
  by (simp_all add: sweep_expired_on_write_def sweep_expired_combo_target_cooldowns_def
      reconcile_combo_target_cooldowns_def Let_def split: option.splits)

lemma ladder_cool:
  assumes "ladder_inv start (of_int now) s" and "start \<le> of_int now"
    and "cool_combo_target read g retry combo t now opts s = (r, s')"
  shows "ladder_inv start (of_int now) s'"
proof (cases r)
  case False
  with assms(1,3) show ?thesis by (auto simp: cool_combo_target_def split: if_splits)
next
  case True
  let ?c = "cool_target read combo t now opts s"
  let ?p = "cool_provider (ct_provider t) now opts ?c"
  have s': "s' = sweep_expired_on_write retry (of_int now) ?p"
    using assms(3) True by (auto simp: cool_combo_target_def split: if_splits)
  have c: "ladder_inv start (of_int now) ?c"
    by (rule ladder_inv_same [OF assms(1)]) simp_all
  have "ladder_inv start (of_int now) ?p"
    using ladder_capacity_verdict [OF c assms(2)] ladder_provider_failure [OF c] c
    by (simp add: cool_provider_def)
  then show ?thesis unfolding s' by (rule ladder_inv_same) simp_all
qed

lemma ladder_step:
  assumes "combo_step read now s s'" and "ladder_inv start (of_int now) s" and "start \<le> of_int now"
  shows "ladder_inv start (of_int now) s'"
  using assms(1)
proof cases
  case (Cool g retry combo t opts r)
  show ?thesis by (rule ladder_cool [OF assms(2,3) Cool])
next
  case (Success combo t b)
  have "ladder_inv start (of_int now) (note_combo_target_success combo t b s)"
    by (rule ladder_inv_same [OF assms(2)]) (simp_all add: note_combo_target_success_def Let_def)
  then show ?thesis unfolding Success record_success_def by (rule ladder_provider_success)
next
  case (Claim p r)
  show ?thesis by (rule ladder_claim [OF assms(2) Claim])
next
  case (Finish p ok)
  show ?thesis unfolding Finish by (rule ladder_finish [OF assms(2,3)])
next
  case (Check combo t r)
  then show ?thesis by (intro ladder_inv_same [OF assms(2)])
      (auto simp: is_combo_target_in_cooldown_def Let_def split: option.splits if_splits)
next
  case (Remaining combo r)
  then show ?thesis by (intro ladder_inv_same [OF assms(2)])
      (auto simp: remaining_combo_cooldown_ms_def)
next
  case (Reconcile g live)
  show ?thesis unfolding Reconcile by (intro ladder_inv_same [OF assms(2)])
      (auto simp: reconcile_combo_target_cooldowns_def)
next
  case (Sweep n)
  then show ?thesis by (intro ladder_inv_same [OF assms(2)])
      (auto simp: sweep_expired_combo_target_cooldowns_def Let_def)
next
  case (Clear c)
  show ?thesis unfolding Clear by (intro ladder_inv_same [OF assms(2)])
      (auto simp: clear_combo_target_cooldowns_def split: option.splits)
qed

lemma combo_reach_clock: "combo_reach read start now s \<Longrightarrow> start \<le> now"
  by (induction rule: combo_reach.induct) auto

lemma ladder_reach:
  assumes "combo_reach read start now s"
  shows "ladder_inv (of_int start) (of_int now) s"
  using assms
proof (induction rule: combo_reach.induct)
  case Start
  show ?case by (rule ladder_inv_fresh)
next
  case (Step t s now s')
  have "ladder_inv (of_int start) (of_int now) s"
    unfolding ladder_inv_def
  proof
    fix p
    show "ladder_kept (of_int start) (of_int now) (map_of (cs_holds s) p) (map_of (cs_streaks s) p)"
      by (rule ladder_kept_later [of _ "of_int t"])
        (use Step.IH Step.hyps(2) in \<open>simp_all add: ladder_inv_def\<close>)
  qed
  moreover have "(of_int start :: rat) \<le> of_int now"
    using combo_reach_clock [OF Step.hyps(1)] Step.hyps(2) by simp
  ultimately show ?case by (rule ladder_step [OF Step.hyps(3)])
qed

end
