(* ===== verification/Combo_Properties.thy ===== *)
theory Combo_Properties
  imports Combo_Steps
begin

text \<open>
  What the combo state guarantees: bounded cooldowns, a breaker that refines a small machine,
  a capacity ladder that cannot be climbed faster than its rungs, bounded probes, and a success
  that readmits what it should. Two lemmas record where the code leaves its own comments.
\<close>

section \<open>Cooldowns\<close>

lemma fallback_bounds:
  "1 \<le> fallback_cooldown_ms read now opts \<and>
   fallback_cooldown_ms read now opts \<le> (if server_delay_ms now opts = None then max_cooldown_ms else max_server_delay_ms)"
  using retry_after.positive [where opts = "\<lparr>preserve_immediate = True, preserve_server_delay = True\<rparr>",
      of "co_retry_after opts" now]
    retry_after.capped [where opts = "\<lparr>preserve_immediate = True, preserve_server_delay = True\<rparr>",
      of "co_retry_after opts" now]
  by (auto simp: fallback_cooldown_ms_def server_delay_ms_def Let_def max_cooldown_ms_def retry_ceiling_def
      split: option.splits)

definition cooled_entry :: "(string \<Rightarrow> jsnum) \<Rightarrow> int \<Rightarrow> cool_options \<Rightarrow> target_circuit option \<Rightarrow> target_cooldown" where
  "cooled_entry read now opts c =
     (let tripped = trips (co_breaker opts) (bump_circuit c); base = fallback_cooldown_ms read now opts
      in \<lparr>cooldown_until = of_int now + (if tripped
            then max base (nullish (map_option open_ms (co_breaker opts)) 0) else base),
          tc_status = co_status opts, breaker_tripped = tripped\<rparr>)"

lemma cool_target_cooldowns:
  "cs_cooldowns (cool_target read combo t now opts s) =
     AList.update (cooldown_map_key combo t)
       (cooled_entry read now opts (map_of (cs_circuits s) (cooldown_map_key combo t))) (cs_cooldowns s)"
proof -
  have m: "max b 1 = b" if "1 \<le> b" for b :: rat using that by simp
  have m2: "max (max b x) 1 = max b x" if "1 \<le> b" for b x :: rat using that by (simp add: max_def)
  show ?thesis
    using fallback_bounds [of read now opts] by (simp add: cool_target_def cooled_entry_def Let_def m m2)
qed

lemma cool_target_circuits [simp]:
  "cs_circuits (cool_target read combo t now opts s) =
     AList.update (cooldown_map_key combo t)
       (bump_circuit (map_of (cs_circuits s) (cooldown_map_key combo t))) (cs_circuits s)"
  by (simp add: cool_target_def Let_def)

lemma cool_provider_keeps [simp]:
  "cs_cooldowns (cool_provider p now opts s) = cs_cooldowns s"
  "cs_circuits (cool_provider p now opts s) = cs_circuits s"
  "cs_stuck (cool_provider p now opts s) = cs_stuck s"
  by (simp_all add: cool_provider_def note_provider_capacity_verdict_def note_provider_failure_def
      hold_provider_for_capacity_def Let_def split: option.splits)

lemma sweep_on_write_cooldowns:
  "cs_cooldowns (sweep_expired_on_write retry now s) = filter (\<lambda>(k, e). cooldown_until e > now) (cs_cooldowns s)"
  by (simp add: sweep_expired_on_write_def sweep_expired_combo_target_cooldowns_def
      reconcile_combo_target_cooldowns_def Let_def split: option.splits)

lemma cool_combo_accepted:
  assumes "cool_combo_target read g retry combo t now opts s = (True, s')"
  shows "s' = sweep_expired_on_write retry (of_int now)
    (cool_provider (ct_provider t) now opts (cool_target read combo t now opts s))"
  using assms by (auto simp: cool_combo_target_def split: if_splits)

lemma cooldowns_wf_step:
  assumes "combo_step read now s s'" and "jm_wf (cs_cooldowns s)"
  shows "jm_wf (cs_cooldowns s')"
  using assms(1)
proof cases
  case (Cool g retry combo t opts r)
  show ?thesis
  proof (cases r)
    case True
    then show ?thesis
      using assms(2) cool_combo_accepted [of read g retry combo t now opts s s'] Cool
      by (simp add: sweep_on_write_cooldowns cool_target_cooldowns jm_wf_filter)
  next
    case False
    then show ?thesis using assms(2) Cool by (auto simp: cool_combo_target_def split: if_splits)
  qed
next
  case (Success combo t b)
  then show ?thesis using assms(2)
    by (simp add: record_success_def note_provider_success_def note_combo_target_success_def Let_def)
next
  case (Claim p r)
  then show ?thesis using assms(2) by (auto simp: claim_provider_probe_def split: option.splits if_splits)
next
  case (Finish p ok)
  then show ?thesis using assms(2)
    by (auto simp: finish_provider_probe_def hold_provider_for_capacity_def Let_def split: option.splits)
next
  case (Check combo t r)
  then show ?thesis using assms(2)
    by (auto simp: is_combo_target_in_cooldown_def Let_def split: option.splits if_splits)
next
  case (Remaining combo r)
  then show ?thesis using assms(2) by (auto simp: remaining_combo_cooldown_ms_def jm_wf_filter)
next
  case (Reconcile g live)
  then show ?thesis using assms(2) by (simp add: reconcile_combo_target_cooldowns_def)
next
  case (Sweep n)
  then show ?thesis using assms(2)
    by (auto simp: sweep_expired_combo_target_cooldowns_def Let_def jm_wf_filter)
next
  case (Clear c)
  then show ?thesis using assms(2)
    by (auto simp: clear_combo_target_cooldowns_def jm_wf_filter split: option.splits)
qed

lemma cooldowns_wf_reach: "combo_reach read start now s \<Longrightarrow> jm_wf (cs_cooldowns s)"
  by (induction rule: combo_reach.induct)
    (simp_all add: fresh_combo_state_def cooldowns_wf_step)

lemma cooled_entry_bounds:
  fixes read now opts c
  defines "e \<equiv> cooled_entry read now opts c"
  shows "of_int now + 1 \<le> cooldown_until e"
    and "cooldown_until e \<le> of_int now + max (if server_delay_ms now opts = None then max_cooldown_ms else max_server_delay_ms)
        (if breaker_tripped e then nullish (map_option open_ms (co_breaker opts)) 0 else 0)"
  using fallback_bounds [of read now opts] unfolding e_def cooled_entry_def Let_def
  by (auto simp: le_max_iff_disj)

text \<open>
  Cooling a target, in every reachable state: the cooldown is recorded, runs, and ends
  between one millisecond and ten minutes later, a day when the response gave a delay, or the
  breaker's open window when that is longer and the breaker tripped. Every other cooldown that
  is still running is kept as it is, and the others are swept.
\<close>

theorem cooldown_bounded:
  assumes "combo_reach read start earlier s"
    and "cool_combo_target read g retry combo t now opts s = (True, s')"
  shows "(case map_of (cs_cooldowns s') (cooldown_map_key combo t) of
      None \<Rightarrow> False
    | Some e \<Rightarrow> of_int now + 1 \<le> cooldown_until e
        \<and> cooldown_until e \<le> of_int now + max (if server_delay_ms now opts = None then max_cooldown_ms else max_server_delay_ms)
            (if breaker_tripped e then nullish (map_option open_ms (co_breaker opts)) 0 else 0)
        \<and> tc_status e = co_status opts)
    \<and> fst (is_combo_target_in_cooldown combo t (of_int now) s')
    \<and> (k = cooldown_map_key combo t \<or> map_of (cs_cooldowns s') k = (case map_of (cs_cooldowns s) k of
         None \<Rightarrow> None | Some e \<Rightarrow> if cooldown_until e > of_int now then Some e else None))"
proof -
  let ?key = "cooldown_map_key combo t"
  let ?e = "cooled_entry read now opts (map_of (cs_circuits s) ?key)"
  have w: "jm_wf (AList.update ?key ?e (cs_cooldowns s))"
    using cooldowns_wf_reach [OF assms(1)] by (rule jm_wf_update)
  have m: "map_of (cs_cooldowns s') x = (case ((map_of (cs_cooldowns s))(?key \<mapsto> ?e)) x of
      None \<Rightarrow> None | Some e \<Rightarrow> if cooldown_until e > of_int now then Some e else None)" for x
    unfolding cool_combo_accepted [OF assms(2)]
    by (simp add: sweep_on_write_cooldowns cool_target_cooldowns map_of_filter_wf [OF w] split: option.splits)
  have live: "of_int now < cooldown_until ?e" and "tc_status ?e = co_status opts"
    using cooled_entry_bounds(1) [where now = now and read = read and opts = opts and c = "map_of (cs_circuits s) ?key"]
    by (simp_all add: cooled_entry_def Let_def)
  then show ?thesis
    using cooled_entry_bounds [where now = now and read = read and opts = opts and c = "map_of (cs_circuits s) ?key"]
    by (simp add: m is_combo_target_in_cooldown_def)
qed


section \<open>The breaker\<close>

datatype breaker = Closed nat | Tripped nat

definition breaker_view :: "breaker_policy \<Rightarrow> string \<Rightarrow> combo_state \<Rightarrow> breaker" where
  "breaker_view b k s = (case map_of (cs_circuits s) k of
     None \<Rightarrow> Closed 0
   | Some c \<Rightarrow> if circ_failures c < failure_threshold b then Closed (circ_failures c)
       else Tripped (circ_successes c))"

fun breaker_fails :: "breaker_policy \<Rightarrow> breaker \<Rightarrow> breaker" where
  "breaker_fails b (Closed n) = (if Suc n < failure_threshold b then Closed (Suc n) else Tripped 0)"
| "breaker_fails b (Tripped k) = Tripped 0"

fun breaker_succeeds :: "breaker_policy \<Rightarrow> breaker \<Rightarrow> breaker" where
  "breaker_succeeds b (Closed n) = Closed 0"
| "breaker_succeeds b (Tripped k) = (if Suc k < success_threshold b then Tripped (Suc k) else Closed 0)"

lemma breaker_cool:
  assumes "cool_combo_target read g retry combo t now opts s = (True, s')"
  shows "breaker_view b k s' = (if k = cooldown_map_key combo t
    then breaker_fails b (breaker_view b k s) else breaker_view b k s)"
  unfolding cool_combo_accepted [OF assms]
  by (auto simp: breaker_view_def bump_circuit_def split: option.splits)

lemma breaker_success:
  assumes "0 < failure_threshold b"
  shows "breaker_view b k (record_success combo t b s) = (if k = cooldown_map_key combo t
    then breaker_succeeds b (breaker_view b k s) else breaker_view b k s)"
  using assms
  by (auto simp: breaker_view_def record_success_def note_provider_success_def note_combo_target_success_def
      close_circuit_def Let_def split: option.splits)

text \<open>
  C18. The circuit of a target refines a breaker machine. Closed, it counts failures in a row and
  trips exactly at the failure threshold; tripped, a failure restarts the trial and the success
  threshold's worth of successes in a row closes it. No other target moves, and right after a
  recorded failure the target is reported open exactly when its machine is tripped.
\<close>

theorem breaker_refines:
  assumes "0 < failure_threshold b" and "co_breaker opts = Some b"
    and "combo_reach read start earlier s"
    and "cool_combo_target read g retry combo t now opts s = (True, s')"
  shows "breaker_view b k s' = (if k = cooldown_map_key combo t
      then breaker_fails b (breaker_view b k s) else breaker_view b k s)
    \<and> is_combo_target_breaker_open combo t (of_int now) s' =
      (case breaker_view b (cooldown_map_key combo t) s' of Closed _ \<Rightarrow> False | Tripped _ \<Rightarrow> True)
    \<and> breaker_view b k (record_success combo t b s) = (if k = cooldown_map_key combo t
      then breaker_succeeds b (breaker_view b k s) else breaker_view b k s)"
proof -
  let ?key = "cooldown_map_key combo t"
  let ?c = "map_of (cs_circuits s) ?key"
  let ?e = "cooled_entry read now opts ?c"
  have w: "jm_wf (AList.update ?key ?e (cs_cooldowns s))"
    using cooldowns_wf_reach [OF assms(3)] by (rule jm_wf_update)
  have live: "of_int now < cooldown_until ?e"
    using cooled_entry_bounds(1) [where now = now and read = read and opts = opts and c = ?c] by simp
  have "map_of (cs_cooldowns s') ?key = Some ?e"
    unfolding cool_combo_accepted [OF assms(4)]
    using live by (simp add: sweep_on_write_cooldowns cool_target_cooldowns map_of_filter_wf [OF w])
  moreover have "map_of (cs_circuits s') ?key = Some (bump_circuit ?c)"
    unfolding cool_combo_accepted [OF assms(4)] by simp
  ultimately have "is_combo_target_breaker_open combo t (of_int now) s' =
      (case breaker_view b ?key s' of Closed _ \<Rightarrow> False | Tripped _ \<Rightarrow> True)"
    using live assms(2)
    by (simp add: is_combo_target_breaker_open_def breaker_view_def cooled_entry_def trips_def Let_def)
  then show ?thesis
    using breaker_cool [OF assms(4)] breaker_success [OF assms(1)] by simp
qed


section \<open>The capacity ladder\<close>

text \<open>
  C19. The capacity ladder takes its time. However failures, verdicts, probes, successes and
  sweeps follow one another, a provider's rung is at least one and reaching rung \<open>n\<close> takes
  at least the holds of the rungs before it, each less ninety seconds: repeated failures in the
  last ninety seconds of a capacity hold replace it by a hold of their own, which a success
  ends at once (lemmas \<open>failures_replace_capacity_hold\<close> and
  \<open>success_drops_replaced_hold\<close>). A hold never ends more than a day ahead, and a capacity hold is on the current rung.
\<close>

theorem capacity_ladder_takes_time:
  assumes "combo_reach read start now s" and "map_of (cs_streaks s) p = Some n"
  shows "1 \<le> n \<and> climb (n - 1) \<le> of_int now - of_int start
    \<and> (case map_of (cs_holds s) p of None \<Rightarrow> True
       | Some h \<Rightarrow> hold_until h \<le> of_int now + 86400000
           \<and> (hold_kind h \<noteq> Some CapacityHold \<or> escalations h = n))"
proof -
  have "ladder_kept (of_int start) (of_int now) (map_of (cs_holds s) p) (map_of (cs_streaks s) p)"
    using ladder_reach [OF assms(1)] by (simp add: ladder_inv_def)
  with assms(2) show ?thesis by (auto simp: ladder_kept_def split: option.splits)
qed


section \<open>Success\<close>

text \<open>
  A success readmits its target at once: no cooldown, no open breaker, no deferral. It
  clears the provider's failure ledger and a relay's hold but leaves a capacity hold and its rung
  as they are, and touches no other target's cooldown and no other provider's hold.
\<close>

theorem success_readmits:
  "let s' = record_success combo t b s; p = ct_provider t; key = cooldown_map_key combo t in
     \<not> fst (is_combo_target_in_cooldown combo t now s')
     \<and> \<not> is_combo_target_breaker_open combo t now s'
     \<and> \<not> combo_target_deferred combo t now s'
     \<and> map_of (cs_failures s') p = None
     \<and> map_of (cs_holds s') p = (case map_of (cs_holds s) p of None \<Rightarrow> None
         | Some h \<Rightarrow> if hold_kind h = Some CapacityHold then Some h else None)
     \<and> cs_streaks s' = cs_streaks s \<and> cs_hits s' = cs_hits s
     \<and> (k = key \<or> map_of (cs_cooldowns s') k = map_of (cs_cooldowns s) k)
     \<and> (q = p \<or> map_of (cs_holds s') q = map_of (cs_holds s) q)"
  by (auto simp: Let_def record_success_def note_provider_success_def note_combo_target_success_def
      is_combo_target_in_cooldown_def is_combo_target_breaker_open_def combo_target_deferred_def
      split: option.splits)


section \<open>Probes\<close>

datatype probe_event = TryProbe rat | ProbeFailed rat

text \<open>The instants of the probes granted to a provider.\<close>

fun probe_grants :: "string \<Rightarrow> probe_event list \<Rightarrow> combo_state \<Rightarrow> rat list" where
  "probe_grants p [] s = []"
| "probe_grants p (TryProbe t # es) s = (case claim_provider_probe p t s of
     (True, s') \<Rightarrow> t # probe_grants p es s' | (False, s') \<Rightarrow> probe_grants p es s')"
| "probe_grants p (ProbeFailed t # es) s = probe_grants p es (finish_provider_probe p False t s)"

lemma relay_grants:
  assumes "map_of (cs_holds s) p = Some h" and "hold_kind h \<noteq> Some CapacityHold"
  shows "length (probe_grants p es s) + nullish (probes h) 0 + (if probing h then 1 else 0)
      \<le> max relay_probe_max (nullish (probes h) 0 + (if probing h then 1 else 0))
    \<and> sorted_wrt (\<lambda>x y. x + relay_probe_min_interval_ms \<le> y) (probe_grants p es s)
    \<and> list_all (\<lambda>x. nullish (last_probe_at h) 0 + relay_probe_min_interval_ms \<le> x) (probe_grants p es s)"
  using assms
proof (induction es arbitrary: s h)
  case Nil
  then show ?case by simp
next
  case (Cons e es)
  show ?case
  proof (cases e)
    case (TryProbe t)
    show ?thesis
    proof (cases "may_claim t h")
      case True
      let ?h = "h\<lparr>probing := True, last_probe_at := Some t\<rparr>"
      let ?s = "s\<lparr>cs_holds := AList.update p ?h (cs_holds s)\<rparr>"
      have c: "claim_provider_probe p t s = (True, ?s)"
        using Cons.prems True by (simp add: claim_provider_probe_def)
      have m: "\<not> probing h" "nullish (probes h) 0 < relay_probe_max"
        "nullish (last_probe_at h) 0 + relay_probe_min_interval_ms \<le> t"
        using True Cons.prems(2) by (simp_all add: may_claim_def)
      have i: "0 \<le> relay_probe_min_interval_ms" by (simp add: relay_probe_min_interval_ms_def)
      have "length (probe_grants p es ?s) + nullish (probes h) 0 + 1 \<le> max relay_probe_max (nullish (probes h) 0 + 1)
        \<and> sorted_wrt (\<lambda>x y. x + relay_probe_min_interval_ms \<le> y) (probe_grants p es ?s)
        \<and> list_all (\<lambda>x. t + relay_probe_min_interval_ms \<le> x) (probe_grants p es ?s)"
        using Cons.IH [of ?s ?h] Cons.prems(2) by simp
      then show ?thesis
        using m i by (auto simp: TryProbe c list_all_iff)
    next
      case False
      then have "claim_provider_probe p t s = (False, s)"
        using Cons.prems by (simp add: claim_provider_probe_def)
      then show ?thesis using Cons.IH [OF Cons.prems] TryProbe by simp
    qed
  next
    case (ProbeFailed t)
    let ?h = "rearm_relay t (h\<lparr>probing := False\<rparr>)"
    let ?s = "finish_provider_probe p False t s"
    have "map_of (cs_holds ?s) p = Some ?h"
      using Cons.prems by (simp add: finish_provider_probe_def Let_def)
    moreover have "hold_kind ?h \<noteq> Some CapacityHold" "probes ?h = Some (nullish (probes h) 0 + 1)"
      "last_probe_at ?h = last_probe_at h" "\<not> probing ?h"
      using Cons.prems(2) by (simp_all add: rearm_relay_def Let_def)
    ultimately have "length (probe_grants p es ?s) + (nullish (probes h) 0 + 1) \<le> max relay_probe_max (nullish (probes h) 0 + 1)
      \<and> sorted_wrt (\<lambda>x y. x + relay_probe_min_interval_ms \<le> y) (probe_grants p es ?s)
      \<and> list_all (\<lambda>x. nullish (last_probe_at h) 0 + relay_probe_min_interval_ms \<le> x) (probe_grants p es ?s)"
      using Cons.IH [of ?s ?h] by simp
    then show ?thesis using ProbeFailed by auto
  qed
qed

text \<open>
  A demoted relay is probed a bounded number of times and never in bursts: from the hold
  its failures set up, whatever the order of attempts to probe and of probes that fail, at most
  five probes are granted, each at least thirty seconds after the one before.
\<close>

theorem relay_probes_bounded:
  assumes "map_of (cs_holds s) p = Some h" and "hold_kind h = Some FailuresHold"
    and "probes h = None" and "\<not> probing h"
  shows "length (probe_grants p es s) \<le> 5
    \<and> sorted_wrt (\<lambda>x y. x + 30000 \<le> y) (probe_grants p es s)"
  using relay_grants [of s p h es] assms
  by (simp add: relay_probe_max_def relay_probe_min_interval_ms_def)


section \<open>Concrete runs\<close>

definition overload_options :: cool_options where
  "overload_options = \<lparr>co_retry_after = None, co_reset_at = None, co_cooldown_ms = None,
     co_writer_generation = None, co_status = Some 503, co_code = None,
     co_message = Some ''overloaded'', co_breaker = Some default_combo_breaker, co_ladder = True\<rparr>"

definition official_target :: combo_target where
  "official_target = \<lparr>ct_provider = ''openai'', ct_model = ''gpt''\<rparr>"

definition cool_official :: "int \<Rightarrow> cool_options \<Rightarrow> combo_state \<Rightarrow> combo_state" where
  "cool_official now opts s = snd (cool_combo_target (\<lambda>_. NaN) 0 None ''c'' official_target now opts s)"

lemma cool_official_reach:
  assumes "combo_reach (\<lambda>_. NaN) start t s" and "t \<le> now"
  shows "combo_reach (\<lambda>_. NaN) start now (cool_official now opts s)"
  unfolding cool_official_def
  by (rule combo_reach.Step [OF assms], rule combo_step.Cool, rule surjective_pairing)

definition twice_overloaded :: combo_state where
  "twice_overloaded = cool_official 60000 overload_options (cool_official 0 overload_options fresh_combo_state)"

lemma twice_overloaded_reach: "combo_reach (\<lambda>_. NaN) 0 60000 twice_overloaded"
  unfolding twice_overloaded_def
  by (intro cool_official_reach [of 0 0] cool_official_reach [of 0 0 fresh_combo_state 0] combo_reach.Start) simp_all

lemma fresh_accepts:
  "cool_combo_target (\<lambda>_. NaN) 0 None ''c'' official_target now opts fresh_combo_state =
     (True, cool_official now opts fresh_combo_state)"
  by (simp add: cool_official_def cool_combo_target_def fresh_combo_state_def)

lemma cooldown_bounded_witness:
  "fst (is_combo_target_in_cooldown ''c'' official_target 0 (cool_official 0 overload_options fresh_combo_state))"
  using cooldown_bounded [OF combo_reach.Start fresh_accepts, where now = 0 and opts = overload_options]
  by simp

lemma breaker_refines_witness:
  "breaker_view default_combo_breaker (cooldown_map_key ''c'' official_target)
     (cool_official 0 overload_options fresh_combo_state) = Closed 1"
  using breaker_refines [OF _ _ combo_reach.Start fresh_accepts, where b = default_combo_breaker
      and opts = overload_options and k = "cooldown_map_key ''c'' official_target"]
  by (simp add: default_combo_breaker_def overload_options_def breaker_view_def fresh_combo_state_def)

text \<open>Only the provider's share of a cooling moves holds, rungs, hits and failures.\<close>

definition provider_side ::
    "combo_state \<Rightarrow> (string, provider_hold) jsmap \<times> (string, nat) jsmap
      \<times> (string, rat list) jsmap \<times> (string, rat list) jsmap" where
  "provider_side s = (cs_holds s, cs_streaks s, cs_hits s, cs_failures s)"

lemma provider_side_cool_target [simp]: "provider_side (cool_target read combo t now opts s) = provider_side s"
  by (simp add: provider_side_def cool_target_def Let_def)

lemma provider_side_sweep [simp]: "provider_side (sweep_expired_on_write retry now s) = provider_side s"
  by (simp add: provider_side_def sweep_expired_on_write_def sweep_expired_combo_target_cooldowns_def
      reconcile_combo_target_cooldowns_def Let_def split: option.splits)

lemma provider_side_eq:
  "provider_side s = provider_side u \<longleftrightarrow> cs_holds s = cs_holds u \<and> cs_streaks s = cs_streaks u
     \<and> cs_hits s = cs_hits u \<and> cs_failures s = cs_failures u"
  by (simp add: provider_side_def)

lemma hold_side_cong:
  "provider_side s = provider_side u \<Longrightarrow>
   provider_side (snd (hold_provider_for_capacity p r now s)) = provider_side (snd (hold_provider_for_capacity p r now u))"
  by (simp add: provider_side_eq hold_provider_for_capacity_def Let_def split: option.split)

lemma verdict_side_cong:
  assumes "provider_side s = provider_side u"
  shows "provider_side (snd (note_provider_capacity_verdict p r now s)) =
    provider_side (snd (note_provider_capacity_verdict p r now u))"
proof -
  have "provider_side (s\<lparr>cs_hits := x\<rparr>) = provider_side (u\<lparr>cs_hits := x\<rparr>)" for x
    using assms by (simp add: provider_side_eq)
  note hold_side_cong [OF this]
  with assms show ?thesis
    by (simp add: note_provider_capacity_verdict_def Let_def provider_side_eq split_beta)
qed

lemma failure_side_cong:
  "provider_side s = provider_side u \<Longrightarrow>
   provider_side (snd (note_provider_failure p now s)) = provider_side (snd (note_provider_failure p now u))"
  by (simp add: provider_side_eq note_provider_failure_def Let_def)

lemma generation_provider [simp]: "cs_generation (cool_provider p now opts s) = cs_generation s"
  by (simp add: cool_provider_def note_provider_capacity_verdict_def note_provider_failure_def
      hold_provider_for_capacity_def Let_def split: option.split)

lemma generation_cool [simp]:
  "cs_generation (snd (cool_combo_target read g None combo t now opts s)) = cs_generation s"
  by (simp add: cool_combo_target_def sweep_expired_on_write_def sweep_expired_combo_target_cooldowns_def
      cool_target_def Let_def)

definition with_side ::
    "(string, provider_hold) jsmap \<times> (string, nat) jsmap \<times> (string, rat list) jsmap
      \<times> (string, rat list) jsmap \<Rightarrow> combo_state" where
  "with_side x = (case x of (holds, streaks, hits, fails) \<Rightarrow> fresh_combo_state
     \<lparr>cs_holds := holds, cs_streaks := streaks, cs_hits := hits, cs_failures := fails\<rparr>)"

lemma provider_side_with_side: "provider_side (with_side x) = x"
  by (cases x) (simp add: with_side_def provider_side_def)

lemma provider_side_cool:
  assumes "cs_generation s = 0"
  shows "provider_side (snd (cool_combo_target read g retry combo t now opts s)) =
    provider_side (cool_provider (ct_provider t) now opts (cool_target read combo t now opts s))"
  using assms by (simp add: cool_combo_target_def)

lemma provider_side_parked:
  assumes "cs_generation s = 0" and "park_worthy opts" and "co_message opts = Some msg"
    and "provider_side s = x"
  shows "provider_side (snd (cool_combo_target read g None combo t now opts s)) =
    provider_side (snd (note_provider_capacity_verdict (ct_provider t) (take 120 msg) (of_int now) (with_side x)))"
proof -
  have "provider_side (cool_target read combo t now opts s) = provider_side (with_side x)"
    by (simp add: assms(4) provider_side_with_side)
  note verdict_side_cong [OF this]
  with assms(2,3) show ?thesis by (simp add: provider_side_cool [OF assms(1)] cool_provider_def)
qed

lemma provider_side_failed:
  assumes "cs_generation s = 0" and "\<not> park_worthy opts"
    and "co_status opts = Some 429" and "\<not> is_local_fence_message (co_message opts)"
    and "provider_side s = x"
  shows "provider_side (snd (cool_combo_target read g None combo t now opts s)) =
    provider_side (snd (note_provider_failure (ct_provider t) (of_int now) (with_side x)))"
proof -
  have "provider_side (cool_target read combo t now opts s) = provider_side (with_side x)"
    by (simp add: assms(5) provider_side_with_side)
  note failure_side_cong [OF this]
  with assms(2-4) show ?thesis by (simp add: provider_side_cool [OF assms(1)] cool_provider_def)
qed

lemma overload_parks: "park_worthy overload_options"
  by code_simp

lemma overload_message: "co_message overload_options = Some ''overloaded''"
  by (simp add: overload_options_def)

lemma fresh_side: "provider_side fresh_combo_state = ([], [], [], [])" "cs_generation fresh_combo_state = 0"
  by (simp_all add: provider_side_def fresh_combo_state_def)

lemmas verdict_defs = note_provider_capacity_verdict_def hold_provider_for_capacity_def recent_def
  new_hold_def ladder_ms_def capacity_hold_ladder_ms_def capacity_hit_window_ms_def capacity_hit_limit_def
  provider_side_def with_side_def fresh_combo_state_def Let_def

lemma once_overloaded_side:
  "provider_side (cool_official 0 overload_options fresh_combo_state) = ([], [], [(''openai'', [0])], [])"
  unfolding cool_official_def provider_side_parked [OF fresh_side(2) overload_parks overload_message fresh_side(1)]
  by (simp add: verdict_defs official_target_def)

lemma generation_official: "cs_generation (cool_official now opts s) = cs_generation s"
  by (simp add: cool_official_def)

lemma twice_overloaded_side:
  "provider_side twice_overloaded = ([(''openai'', new_hold 660000 1 ''overloaded'' CapacityHold (Some 60000))],
     [(''openai'', 1)], [(''openai'', [0, 60000])], [])"
  unfolding twice_overloaded_def
  unfolding cool_official_def [of 60000] provider_side_parked [OF generation_official
      [of 0 overload_options fresh_combo_state, unfolded fresh_side] overload_parks overload_message once_overloaded_side]
  by (simp add: verdict_defs official_target_def)

lemma twice_overloaded_generation: "cs_generation twice_overloaded = 0"
  by (simp add: twice_overloaded_def generation_official fresh_side)

lemma rung_two: "map_of (cs_streaks (cool_official 700000 overload_options twice_overloaded)) ''openai'' = Some 2"
proof -
  have "fst (snd (provider_side (cool_official 700000 overload_options twice_overloaded))) = [(''openai'', 2)]"
    unfolding cool_official_def provider_side_parked
      [OF twice_overloaded_generation overload_parks overload_message twice_overloaded_side]
    by (simp add: verdict_defs official_target_def capacity_rung_reset_ms_def)
  then show ?thesis by (simp add: provider_side_def)
qed

lemma capacity_ladder_takes_time_witness:
  "climb 1 \<le> 700000 \<and> (600000 - 90000 :: rat) = climb 1"
  using capacity_ladder_takes_time [OF cool_official_reach [OF twice_overloaded_reach] rung_two]
  by (simp add: climb_def ladder_ms_def capacity_hold_ladder_ms_def provider_failure_hold_ms_def)

definition relay_held :: combo_state where
  "relay_held = snd (note_provider_failure ''r'' 1000002 (snd (note_provider_failure ''r'' 1000001
     (snd (note_provider_failure ''r'' 1000000 fresh_combo_state)))))"

lemma relay_held_hold:
  "map_of (cs_holds relay_held) ''r'' = Some (new_hold 1090002 1
     ''repeated failures (3 in 15min)'' FailuresHold None)"
  by code_simp

lemma relay_probes_bounded_witness:
  "length (probe_grants ''r'' (concat (map (\<lambda>i. [TryProbe (1100000 + of_nat i * 30000),
     ProbeFailed (1101000 + of_nat i * 30000)]) [0..<9])) relay_held) \<le> 5"
  using relay_probes_bounded [OF relay_held_hold] by (simp add: new_hold_def)

text \<open>
  A single refusal, cooled for the whole provider, is counted once per target: three targets of
  one relay trip the hold that stands for repeated failures, and two targets of the official
  provider make the several verdicts that park it.
\<close>

definition quota_refusal :: cool_options where
  "quota_refusal = \<lparr>co_retry_after = None, co_reset_at = None, co_cooldown_ms = None,
     co_writer_generation = None, co_status = Some 429, co_code = Some ''insufficient_quota'',
     co_message = Some ''quota'', co_breaker = None, co_ladder = False\<rparr>"

definition one_refusal :: "bool \<Rightarrow> combo_target list \<Rightarrow> combo_state" where
  "one_refusal official ts = snd (cool_failed_pick (\<lambda>_. NaN) 0 None ''c'' (Some ts)
     default_combo_breaker None official (Some ScopeProvider) False 0 (hd ts) 0 quota_refusal fresh_combo_state)"

definition three_targets :: "combo_target list" where
  "three_targets = map (\<lambda>m. \<lparr>ct_provider = ''r'', ct_model = m\<rparr>) [''a'', ''b'', ''d'']"

lemma three_targets_cooled: "cooled_targets (Some ScopeProvider) (Some three_targets) (hd three_targets) = three_targets"
  by (simp add: cooled_targets_def three_targets_def)

definition refused :: "bool \<Rightarrow> cool_options" where
  "refused official = quota_refusal\<lparr>co_breaker := Some default_combo_breaker, co_ladder := official,
     co_writer_generation := Some 0\<rparr>"

lemma refused_facts:
  "\<not> is_local_fence_message (co_message (refused official))"
  "co_status (refused official) = Some 429"
  "co_message (refused official) = Some ''quota''"
  by (simp add: refused_def quota_refusal_def, code_simp) (simp_all add: refused_def quota_refusal_def)

lemma refused_parks: "park_worthy (refused official) = official"
proof -
  have "is_capacity_verdict (Some 429) (Some ''insufficient_quota'') (Some ''quota'')" by code_simp
  then show ?thesis
    using refused_facts(1) [of official] by (simp add: park_worthy_def refused_def quota_refusal_def)
qed

lemma one_refusal_each:
  "one_refusal official (t # ts) = snd (cool_each (\<lambda>_. NaN) 0 None ''c''
     (filter (\<lambda>u. ct_provider u = ct_provider t) (t # ts)) 0 (refused official) fresh_combo_state)"
  by (simp add: one_refusal_def cool_failed_pick_def is_account_scoped_def quota_refusal_def refused_def
      cooled_targets_def)

lemma snd_cool_each:
  "snd (cool_each read g retry c (t # ts) now opts s) =
     snd (cool_each read g retry c ts now opts (snd (cool_combo_target read g retry c t now opts s)))"
  by (simp add: split_beta)

lemma cool_each_nil: "snd (cool_each read g retry c [] now opts s) = s"
  by simp

lemma decimal_three: "decimal_text (Suc (Suc (Suc 0))) = ''3''"
  by code_simp

lemmas failure_defs = note_provider_failure_def recent_def new_hold_def provider_failure_window_ms_def
  provider_failure_limit_def provider_failure_hold_ms_def provider_side_def with_side_def
  fresh_combo_state_def Let_def decimal_three

abbreviation refused_once :: "bool \<Rightarrow> combo_target \<Rightarrow> combo_state \<Rightarrow> combo_state" where
  "refused_once official t s \<equiv> snd (cool_combo_target (\<lambda>_. NaN) 0 None ''c'' t 0 (refused official) s)"

lemma one_refusal_counts_per_target: "provider_hold_kind ''r'' 0 (one_refusal False three_targets) = Some FailuresHold"
proof -
  let ?s1 = "refused_once False \<lparr>ct_provider = ''r'', ct_model = ''a''\<rparr> fresh_combo_state"
  let ?s2 = "refused_once False \<lparr>ct_provider = ''r'', ct_model = ''b''\<rparr> ?s1"
  let ?s3 = "refused_once False \<lparr>ct_provider = ''r'', ct_model = ''d''\<rparr> ?s2"
  have s: "one_refusal False three_targets = ?s3"
    by (simp add: three_targets_def one_refusal_each snd_cool_each del: cool_each.simps(2))
  note f = provider_side_failed [OF _ _ refused_facts(2,1)]
  have n: "\<not> park_worthy (refused False)" by (simp add: refused_parks)
  have 1: "provider_side ?s1 = ([], [], [], [(''r'', [0])])"
    unfolding f [OF fresh_side(2) n fresh_side(1)] by (simp add: failure_defs)
  have 2: "provider_side ?s2 = ([], [], [], [(''r'', [0, 0])])"
    unfolding f [OF _ n 1, simplified fresh_side generation_cool, OF refl] by (simp add: failure_defs)
  have 3: "fst (provider_side ?s3) = [(''r'', new_hold 90000 1 ''repeated failures (3 in 15min)'' FailuresHold None)]"
    unfolding f [OF _ n 2, simplified fresh_side generation_cool, OF refl] by (simp add: failure_defs)
  then show ?thesis by (simp add: s provider_side_def provider_hold_kind_def new_hold_def)
qed

lemma one_refusal_parks_official: "provider_hold_kind ''r'' 0 (one_refusal True (take 2 three_targets)) = Some CapacityHold"
proof -
  let ?s1 = "refused_once True \<lparr>ct_provider = ''r'', ct_model = ''a''\<rparr> fresh_combo_state"
  let ?s2 = "refused_once True \<lparr>ct_provider = ''r'', ct_model = ''b''\<rparr> ?s1"
  have s: "one_refusal True (take 2 three_targets) = ?s2"
    by (simp add: three_targets_def one_refusal_each snd_cool_each del: cool_each.simps(2))
  have n: "park_worthy (refused True)" by (simp add: refused_parks)
  have 1: "provider_side ?s1 = ([], [], [(''r'', [0])], [])"
    unfolding provider_side_parked [OF fresh_side(2) n refused_facts(3) fresh_side(1)] by (simp add: verdict_defs)
  have 2: "fst (provider_side ?s2) = [(''r'', new_hold 600000 1 ''quota'' CapacityHold (Some 0))]"
    unfolding provider_side_parked [OF _ n refused_facts(3) 1, simplified fresh_side generation_cool, OF refl]
    by (simp add: verdict_defs)
  then show ?thesis by (simp add: s provider_side_def provider_hold_kind_def new_hold_def)
qed

text \<open>
  Three rate limits without a capacity word, late in a capacity hold, replace it by a relay-style
  hold, which the next success deletes.
\<close>

definition rate_limited :: cool_options where
  "rate_limited = overload_options\<lparr>co_status := Some 429, co_message := Some ''Too Many Requests''\<rparr>"

definition limited_thrice :: combo_state where
  "limited_thrice = cool_official 640000 rate_limited (cool_official 630000 rate_limited
     (cool_official 620000 rate_limited twice_overloaded))"

lemma rate_limited_facts:
  "\<not> park_worthy rate_limited" "co_status rate_limited = Some 429"
  "\<not> is_local_fence_message (co_message rate_limited)"
  by (simp add: rate_limited_def overload_options_def; code_simp)+

lemma capacity_hold_stands: "provider_hold_kind ''openai'' 640000 twice_overloaded = Some CapacityHold"
  using twice_overloaded_side by (simp add: provider_side_def provider_hold_kind_def new_hold_def)

lemma failures_replace_capacity_hold: "provider_hold_kind ''openai'' 640000 limited_thrice = Some FailuresHold"
proof -
  let ?s1 = "cool_official 620000 rate_limited twice_overloaded"
  let ?s2 = "cool_official 630000 rate_limited ?s1"
  let ?h = "[(''openai'', new_hold 660000 1 ''overloaded'' CapacityHold (Some 60000))]"
  note f = provider_side_failed [OF _ rate_limited_facts, of _ _ "\<lambda>_. NaN" 0 "''c''" official_target,
      folded cool_official_def]
  have g: "cs_generation ?s1 = 0" "cs_generation ?s2 = 0"
    by (simp_all add: generation_official twice_overloaded_generation)
  have 1: "provider_side ?s1 = (?h, [(''openai'', 1)], [(''openai'', [0, 60000])], [(''openai'', [620000])])"
    unfolding f [OF twice_overloaded_generation twice_overloaded_side] by (simp add: failure_defs official_target_def)
  have 2: "provider_side ?s2 = (?h, [(''openai'', 1)], [(''openai'', [0, 60000])], [(''openai'', [620000, 630000])])"
    unfolding f [OF g(1) 1] by (simp add: failure_defs official_target_def)
  have "fst (provider_side limited_thrice) =
      [(''openai'', new_hold 730000 2 ''repeated failures (3 in 15min)'' FailuresHold None)]"
    unfolding limited_thrice_def f [OF g(2) 2] by (simp add: failure_defs official_target_def)
  then show ?thesis by (simp add: provider_side_def provider_hold_kind_def new_hold_def)
qed

lemma success_drops_replaced_hold:
  "provider_hold_kind ''openai'' 640000 (record_success ''c'' official_target default_combo_breaker limited_thrice) = None"
  using failures_replace_capacity_hold
  by (auto simp: provider_hold_kind_def record_success_def note_provider_success_def
      note_combo_target_success_def official_target_def Let_def split: option.splits if_splits)

end
