(* ===== verification/Combo_Pick.thy ===== *)
theory Combo_Pick
  imports Combo_Failover
begin

text \<open>
  Choosing a target of a combo (\<open>combos/resolve.ts\<close>, with the quota evidence of
  \<open>combos/reset-window.ts\<close>). The picker reads the combo state of \<open>Combo_Failover\<close> and drops
  expired cooldowns as it looks at them, so the state is threaded. What it reads from other
  modules (configuration, cached quotas, quality and panel verdicts) is one record of functions.
\<close>

section \<open>Quota evidence\<close>

record quota_window =
  qw_label :: string
  qw_percent :: jsnum
  qw_reset_at :: "jsnum option"
  qw_model_id :: "string option"
  qw_model_scope :: bool

record quota_credits =
  qc_remaining :: rat
  qc_percent :: "jsnum option"
  qc_unlimited :: bool

record provider_quota =
  pq_five_hour :: "jsnum option \<times> jsnum option"
  pq_weekly :: "jsnum option \<times> jsnum option"
  pq_monthly :: "jsnum option \<times> jsnum option"
  pq_windows :: "quota_window list"
  pq_credits :: "quota_credits option"

fun js_at_least :: "jsnum \<Rightarrow> rat \<Rightarrow> bool" where
  "js_at_least (Fin q) r = (q \<ge> r)"
| "js_at_least _ r = False"

definition quota_window_exhausted :: "jsnum option \<Rightarrow> jsnum option \<Rightarrow> rat \<Rightarrow> bool" where
  "quota_window_exhausted percent reset_at now \<longleftrightarrow>
     (case percent of None \<Rightarrow> False | Some p \<Rightarrow> js_at_least p 100)
     \<and> (case reset_at of Some (Fin t) \<Rightarrow> t > now | _ \<Rightarrow> True)"

definition model_family_window_labels :: "string list" where
  "model_family_window_labels = [''fable'', ''opus'', ''sonnet'']"

definition custom_window_applies_to_model :: "quota_window \<Rightarrow> string option \<Rightarrow> bool" where
  "custom_window_applies_to_model w model =
     (if qw_model_id w \<noteq> None then False
      else (case model of
          None \<Rightarrow> True
        | Some m \<Rightarrow> if \<not> qw_model_scope w then True
            else (let family = to_lower (js_trim (qw_label w))
              in if family \<notin> set model_family_window_labels then True
                 else str_includes family (to_lower m))))"

definition cached_provider_quota_is_exhausted ::
    "provider_quota option \<Rightarrow> rat \<Rightarrow> string option \<Rightarrow> bool" where
  "cached_provider_quota_is_exhausted quota now model = (case quota of
     None \<Rightarrow> False
   | Some q \<Rightarrow>
       list_ex (\<lambda>(p, r). quota_window_exhausted p r now) [pq_five_hour q, pq_weekly q, pq_monthly q]
       \<or> list_ex (\<lambda>w. custom_window_applies_to_model w model
            \<and> quota_window_exhausted (Some (qw_percent w)) (qw_reset_at w) now) (pq_windows q)
       \<or> (case pq_credits q of
            None \<Rightarrow> False
          | Some c \<Rightarrow> \<not> qc_unlimited c
              \<and> (case qc_percent c of None \<Rightarrow> False | Some p \<Rightarrow> js_at_least p 100)
              \<and> qc_remaining c \<le> 0))"

definition collect_reset_candidates :: "provider_quota \<Rightarrow> (quota_window \<Rightarrow> bool) \<Rightarrow> rat list" where
  "collect_reset_candidates q use =
     List.map_filter (\<lambda>v. case v of Some (Fin t) \<Rightarrow> Some t | _ \<Rightarrow> None)
       ([snd (pq_five_hour q), snd (pq_weekly q), snd (pq_monthly q)]
         @ map qw_reset_at (filter use (pq_windows q)))"

definition earliest_quota_reset_at ::
    "provider_quota option \<Rightarrow> rat \<Rightarrow> (quota_window \<Rightarrow> bool) \<Rightarrow> rat option" where
  "earliest_quota_reset_at quota now use = (case quota of
     None \<Rightarrow> None
   | Some q \<Rightarrow> (case filter (\<lambda>t. t > now) (collect_reset_candidates q use) of
       [] \<Rightarrow> None | t # ts \<Rightarrow> Some (fold min ts t)))"

text \<open>None is \<open>Infinity\<close>.\<close>

definition quota_reset_remaining_ms ::
    "provider_quota option \<Rightarrow> rat \<Rightarrow> (quota_window \<Rightarrow> bool) \<Rightarrow> rat option" where
  "quota_reset_remaining_ms quota now use =
     map_option (\<lambda>t. t - now) (earliest_quota_reset_at quota now use)"


section \<open>Configuration and state\<close>

record normalized_target = combo_target +
  nt_weight :: int
  nt_last_resort :: bool

datatype combo_strategy = Failover | RoundRobin | RandomPick | LeastUsed | ResetWindow | Jev

record combo_config =
  cb_strategy :: combo_strategy
  cb_sticky_limit :: nat
  cb_breaker :: breaker_policy
  cb_before_last_resort :: bool
  cb_targets :: "normalized_target list"

text \<open>A provider of the configuration: None when it is not an own property, else whether disabled.\<close>

record route_env =
  re_combo :: "string \<Rightarrow> combo_config option"
  re_disabled :: "string \<Rightarrow> bool option"
  re_quota :: "string \<Rightarrow> rat \<Rightarrow> provider_quota option"
  re_quality_held :: "string \<Rightarrow> rat \<Rightarrow> bool"
  re_hopeless :: "string \<Rightarrow> rat \<Rightarrow> bool"
  re_degraded :: "string \<Rightarrow> rat \<Rightarrow> bool"
  re_generation :: nat

record selection =
  sel_active :: "string option"
  sel_successes :: nat
  sel_weights :: "(string, int) jsmap"
  sel_uses :: "(string, nat) jsmap"

definition fresh_selection :: selection where
  "fresh_selection = \<lparr>sel_active = None, sel_successes = 0, sel_weights = [], sel_uses = []\<rparr>"

record pick_state =
  ps_combo :: combo_state
  ps_selection :: "(string, selection) jsmap"
  ps_generation :: nat
  ps_live :: "string list"

definition bare :: "normalized_target \<Rightarrow> combo_target" where
  "bare t = combo_target.truncate t"

definition key_of :: "normalized_target \<Rightarrow> string" where
  "key_of t = target_key (bare t)"

definition target_provider_is_routable :: "route_env \<Rightarrow> normalized_target \<Rightarrow> bool" where
  "target_provider_is_routable env t \<longleftrightarrow> re_disabled env (ct_provider t) = Some False"

definition target_provider_quota_exhausted :: "route_env \<Rightarrow> normalized_target \<Rightarrow> rat \<Rightarrow> bool" where
  "target_provider_quota_exhausted env t now \<longleftrightarrow> re_disabled env (ct_provider t) \<noteq> None
     \<and> cached_provider_quota_is_exhausted (re_quota env (ct_provider t) now) now (Some (ct_model t))"

datatype exclusion = ProviderDisabled | ProviderMissing | QuotaExhausted

definition provider_exclusion_reason :: "route_env \<Rightarrow> normalized_target \<Rightarrow> rat \<Rightarrow> exclusion option" where
  "provider_exclusion_reason env t now =
     (if \<not> target_provider_is_routable env t
      then Some (if re_disabled env (ct_provider t) \<noteq> None then ProviderDisabled else ProviderMissing)
      else if target_provider_quota_exhausted env t now then Some QuotaExhausted else None)"

definition target_provider_is_usable :: "route_env \<Rightarrow> normalized_target \<Rightarrow> rat \<Rightarrow> bool" where
  "target_provider_is_usable env t now \<longleftrightarrow> provider_exclusion_reason env t now = None"

text \<open>Whether every usable target is spent on positive evidence; \<open>True\<close> is \<open>no_credit\<close>.\<close>

definition quota_inactive :: "route_env \<Rightarrow> (string \<times> string option) list \<Rightarrow> rat \<Rightarrow> bool" where
  "quota_inactive env targets now =
     (let usable = filter (\<lambda>(p, m). re_disabled env p = Some False) targets
      in usable \<noteq> [] \<and> list_all (\<lambda>(p, m). re_quota env p now \<noteq> None
           \<and> cached_provider_quota_is_exhausted (re_quota env p now) now m) usable)"


section \<open>Ranks\<close>

text \<open>What a caller asks of a target; it may look at cooldowns and so drop expired ones.\<close>

type_synonym check = "normalized_target \<Rightarrow> combo_state \<Rightarrow> bool \<times> combo_state"

definition any_target :: check where
  "any_target t s = (True, s)"

record pick_options =
  po_exclude :: "string list"
  po_check :: check
  po_preview :: bool
  po_allow_parked :: bool

definition routable :: "route_env \<Rightarrow> pick_options \<Rightarrow> check" where
  "routable env po t s =
     (if \<not> target_provider_is_routable env t \<or> key_of t \<in> set (po_exclude po) then (False, s)
      else po_check po t s)"

definition always_demoted :: "route_env \<Rightarrow> string \<Rightarrow> rat \<Rightarrow> normalized_target \<Rightarrow> combo_state \<Rightarrow> bool" where
  "always_demoted env combo now t s \<longleftrightarrow> re_quality_held env (ct_provider t) now
     \<or> re_hopeless env (ct_provider t) now \<or> re_degraded env (ct_provider t) now
     \<or> combo_target_deferred combo (bare t) now s \<or> target_provider_quota_exhausted env t now"

definition rank_of ::
    "route_env \<Rightarrow> pick_options \<Rightarrow> string \<Rightarrow> rat \<Rightarrow> normalized_target \<Rightarrow> combo_state \<Rightarrow> int \<times> combo_state" where
  "rank_of env po combo now t s =
     (case routable env po t s of
        (False, s1) \<Rightarrow> (-1, s1)
      | (True, s1) \<Rightarrow>
          (let hold = provider_hold_kind (ct_provider t) now s1
           in if hold = Some CapacityHold then (if po_allow_parked po then 1 else -1, s1)
              else if is_combo_target_breaker_open combo (bare t) now s1 then (2, s1)
              else if hold = Some FailuresHold then (1, s1)
              else (case is_combo_target_in_cooldown combo (bare t) now s1 of
                  (True, s2) \<Rightarrow> (1, s2)
                | (False, s2) \<Rightarrow> (if always_demoted env combo now t s2 then 1 else 0, s2))))"

definition pick_eligible :: "route_env \<Rightarrow> pick_options \<Rightarrow> string \<Rightarrow> rat \<Rightarrow> check" where
  "pick_eligible env po combo now t s = (case rank_of env po combo now t s of (r, s') \<Rightarrow> (r \<ge> 0, s'))"


section \<open>Strategies\<close>

text \<open>Each search walks the targets in configured order; \<open>i\<close> is the index of the head.\<close>

fun failover_index ::
    "(normalized_target \<Rightarrow> combo_state \<Rightarrow> int \<times> combo_state) \<Rightarrow> nat \<Rightarrow> (nat \<times> int) option
      \<Rightarrow> normalized_target list \<Rightarrow> combo_state \<Rightarrow> (nat \<times> int) option \<times> combo_state" where
  "failover_index rank i best [] s = (best, s)"
| "failover_index rank i best (t # ts) s = (case rank t s of (r, s') \<Rightarrow>
     if r < 0 \<or> (case best of None \<Rightarrow> False | Some (_, b) \<Rightarrow> r \<ge> b)
     then failover_index rank (Suc i) best ts s'
     else if r = 0 then (Some (i, r), s')
     else failover_index rank (Suc i) (Some (i, r)) ts s')"

record weighing =
  wg_best :: "(nat \<times> string \<times> int) option"
  wg_total :: int
  wg_weights :: "(string, int) jsmap"

fun weigh ::
    "check \<Rightarrow> nat \<Rightarrow> normalized_target list \<Rightarrow> weighing \<Rightarrow> combo_state \<Rightarrow> weighing \<times> combo_state" where
  "weigh ok i [] g s = (g, s)"
| "weigh ok i (t # ts) g s = (case ok t s of
     (False, s') \<Rightarrow> weigh ok (Suc i) ts g s'
   | (True, s') \<Rightarrow>
       (let k = key_of t; score = nullish (map_of (wg_weights g) k) 0 + nt_weight t
        in weigh ok (Suc i) ts
             \<lparr>wg_best = (case wg_best g of
                None \<Rightarrow> Some (i, k, score)
              | Some (j, l, b) \<Rightarrow> if score > b then Some (i, k, score) else Some (j, l, b)),
              wg_total = wg_total g + nt_weight t,
              wg_weights = AList.update k score (wg_weights g)\<rparr> s'))"

definition smooth_weighted_index ::
    "check \<Rightarrow> normalized_target list \<Rightarrow> (string, int) jsmap \<Rightarrow> combo_state
      \<Rightarrow> nat option \<times> (string, int) jsmap \<times> combo_state" where
  "smooth_weighted_index ok ts weights s =
     (case weigh ok 0 ts \<lparr>wg_best = None, wg_total = 0, wg_weights = weights\<rparr> s of
        (g, s') \<Rightarrow> (case wg_best g of
            None \<Rightarrow> (None, wg_weights g, s')
          | Some (i, k, _) \<Rightarrow> (Some i,
              AList.update k (nullish (map_of (wg_weights g) k) 0 - wg_total g) (wg_weights g), s')))"

fun find_active :: "check \<Rightarrow> string \<Rightarrow> nat \<Rightarrow> normalized_target list \<Rightarrow> combo_state \<Rightarrow> nat option \<times> combo_state" where
  "find_active ok k i [] s = (None, s)"
| "find_active ok k i (t # ts) s =
     (if key_of t = k
      then (case ok t s of (True, s') \<Rightarrow> (Some i, s') | (False, s') \<Rightarrow> find_active ok k (Suc i) ts s')
      else find_active ok k (Suc i) ts s)"

definition round_robin_index ::
    "check \<Rightarrow> normalized_target list \<Rightarrow> selection \<Rightarrow> combo_state \<Rightarrow> nat option \<times> selection \<times> combo_state" where
  "round_robin_index ok ts st s =
     (case (case sel_active st of None \<Rightarrow> (None, s) | Some k \<Rightarrow> find_active ok k 0 ts s) of
        (Some i, s1) \<Rightarrow> (Some i, st, s1)
      | (None, s1) \<Rightarrow>
          (let st1 = (if sel_active st = None then st else st\<lparr>sel_active := None, sel_successes := 0\<rparr>)
           in case smooth_weighted_index ok ts (sel_weights st1) s1 of
                (None, w, s2) \<Rightarrow> (None, st1\<lparr>sel_weights := w\<rparr>, s2)
              | (Some i, w, s2) \<Rightarrow>
                  (Some i, st1\<lparr>sel_weights := w, sel_active := Some (key_of (ts ! i)), sel_successes := 0\<rparr>, s2)))"

fun eligible_indices ::
    "check \<Rightarrow> nat \<Rightarrow> normalized_target list \<Rightarrow> combo_state \<Rightarrow> (nat \<times> int) list \<times> combo_state" where
  "eligible_indices ok i [] s = ([], s)"
| "eligible_indices ok i (t # ts) s = (case ok t s of (b, s') \<Rightarrow>
     (case eligible_indices ok (Suc i) ts s' of (rest, s'') \<Rightarrow>
        (if b then (i, nt_weight t) # rest else rest, s'')))"

fun draw :: "rat \<Rightarrow> (nat \<times> int) list \<Rightarrow> nat option" where
  "draw x [] = None"
| "draw x ((i, w) # es) = (if x - of_int w \<le> 0 then Some i else draw (x - of_int w) es)"

text \<open>\<open>random\<close> is what \<open>Math.random\<close> answers.\<close>

definition random_index ::
    "check \<Rightarrow> rat \<Rightarrow> normalized_target list \<Rightarrow> combo_state \<Rightarrow> nat option \<times> combo_state" where
  "random_index ok random ts s = (case eligible_indices ok 0 ts s of (es, s') \<Rightarrow>
     (if es = [] then None
      else (case draw (random * of_int (\<Sum>(i, w)\<leftarrow>es. w)) es of
          Some i \<Rightarrow> Some i | None \<Rightarrow> Some (fst (last es))), s'))"

text \<open>The first eligible target with the least measure; None is infinite.\<close>

fun least_index ::
    "check \<Rightarrow> (normalized_target \<Rightarrow> rat option) \<Rightarrow> nat \<Rightarrow> (nat \<times> rat option) option
      \<Rightarrow> normalized_target list \<Rightarrow> combo_state \<Rightarrow> nat option \<times> combo_state" where
  "least_index ok f i best [] s = (map_option fst best, s)"
| "least_index ok f i best (t # ts) s = (case ok t s of
     (False, s') \<Rightarrow> least_index ok f (Suc i) best ts s'
   | (True, s') \<Rightarrow> least_index ok f (Suc i)
       (case best of
          None \<Rightarrow> Some (i, f t)
        | Some (j, b) \<Rightarrow>
            (if (case f t of None \<Rightarrow> False | Some x \<Rightarrow> (case b of None \<Rightarrow> True | Some y \<Rightarrow> x < y))
             then Some (i, f t) else Some (j, b))) ts s')"

definition uses_of :: "selection \<Rightarrow> normalized_target \<Rightarrow> rat option" where
  "uses_of st t = Some (of_nat (nullish (map_of (sel_uses st) (key_of t)) 0))"

definition remaining_of :: "route_env \<Rightarrow> rat \<Rightarrow> normalized_target \<Rightarrow> rat option" where
  "remaining_of env now t = quota_reset_remaining_ms (re_quota env (ct_provider t) now) now
     (\<lambda>w. custom_window_applies_to_model w (Some (ct_model t)))"


section \<open>The picker\<close>

record combo_pick =
  pk_combo :: string
  pk_target :: normalized_target
  pk_index :: nat
  pk_attempted :: "string list"
  pk_generation :: nat
  pk_rank :: int

datatype pick_result = UnknownCombo | NoTarget | Picked combo_pick

definition js_set :: "'a list \<Rightarrow> 'a list" where
  "js_set xs = rev (remdups (rev xs))"

definition choose_index ::
    "route_env \<Rightarrow> pick_options \<Rightarrow> string \<Rightarrow> rat \<Rightarrow> rat \<Rightarrow> combo_config
      \<Rightarrow> (string, selection) jsmap \<Rightarrow> combo_state
      \<Rightarrow> nat option \<times> (string, selection) jsmap \<times> combo_state" where
  "choose_index env po combo random now cfg sel s =
     (let ts = cb_targets cfg; ok = pick_eligible env po combo now
      in case cb_strategy cfg of
           RoundRobin \<Rightarrow>
             (case round_robin_index ok ts (nullish (map_of sel combo) fresh_selection) s of
                (i, st, s') \<Rightarrow> (i, if po_preview po then sel else AList.update combo st sel, s'))
         | RandomPick \<Rightarrow> (case random_index ok random ts s of (i, s') \<Rightarrow> (i, sel, s'))
         | LeastUsed \<Rightarrow>
             (let st = nullish (map_of sel combo) fresh_selection
              in case least_index ok (uses_of st) 0 None ts s of
                   (i, s') \<Rightarrow> (i, AList.update combo st sel, s'))
         | ResetWindow \<Rightarrow> (case least_index ok (remaining_of env now) 0 None ts s of (i, s') \<Rightarrow> (i, sel, s'))
         | _ \<Rightarrow> (case failover_index (rank_of env po combo now) 0 None ts s of
                  (b, s') \<Rightarrow> (map_option fst b, sel, s')))"

definition pick_combo_target ::
    "route_env \<Rightarrow> string \<Rightarrow> pick_options \<Rightarrow> rat \<Rightarrow> rat \<Rightarrow> pick_state \<Rightarrow> pick_result \<times> pick_state" where
  "pick_combo_target env combo po random now ps = (case re_combo env combo of
     None \<Rightarrow> (UnknownCombo, ps)
   | Some cfg \<Rightarrow>
       (case choose_index env po combo random now cfg (ps_selection ps) (ps_combo ps) of
          (None, sel, s) \<Rightarrow> (NoTarget, ps\<lparr>ps_selection := sel, ps_combo := s\<rparr>)
        | (Some i, sel, s) \<Rightarrow>
            (let t = cb_targets cfg ! i
             in case rank_of env po combo now t s of
                  (r, s') \<Rightarrow> (Picked \<lparr>pk_combo = combo, pk_target = t, pk_index = i,
                      pk_attempted = js_set (po_exclude po) @ [key_of t],
                      pk_generation = re_generation env, pk_rank = r\<rparr>,
                    ps\<lparr>ps_selection := sel, ps_combo := s'\<rparr>))))"


section \<open>Outcomes\<close>

definition may_commit_combo_state :: "string \<Rightarrow> string \<Rightarrow> nat \<Rightarrow> pick_state \<Rightarrow> bool" where
  "may_commit_combo_state combo key writer ps \<longleftrightarrow>
     writer \<ge> ps_generation ps \<or> combo @ ''::'' @ key \<in> set (ps_live ps)"

definition count_use :: "string \<Rightarrow> selection \<Rightarrow> selection" where
  "count_use key st = st\<lparr>sel_uses := AList.update key (nullish (map_of (sel_uses st) key) 0 + 1) (sel_uses st)\<rparr>"

definition count_success :: "nat \<Rightarrow> selection \<Rightarrow> selection" where
  "count_success sticky st =
     (if sel_successes st + 1 \<ge> sticky then st\<lparr>sel_active := None, sel_successes := 0\<rparr>
      else st\<lparr>sel_successes := sel_successes st + 1\<rparr>)"

definition note_combo_success ::
    "string \<Rightarrow> combo_config \<Rightarrow> normalized_target \<Rightarrow> nat \<Rightarrow> pick_state \<Rightarrow> pick_state" where
  "note_combo_success combo cfg t writer ps =
     (let key = key_of t; sel = ps_selection ps
      in if \<not> may_commit_combo_state combo key writer ps then ps
         else ps\<lparr>ps_combo := record_success combo (bare t) (cb_breaker cfg) (ps_combo ps),
                ps_selection :=
                  (if cb_strategy cfg = LeastUsed
                   then AList.update combo (count_use key (nullish (map_of sel combo) fresh_selection)) sel
                   else if cb_strategy cfg = RoundRobin then
                     (case map_of sel combo of
                        None \<Rightarrow> sel
                      | Some st \<Rightarrow> if sel_active st \<noteq> Some key then sel
                          else AList.update combo (count_success (cb_sticky_limit cfg) st) sel)
                   else sel)\<rparr>)"

definition note_combo_failure :: "string \<Rightarrow> normalized_target \<Rightarrow> nat \<Rightarrow> pick_state \<Rightarrow> pick_state" where
  "note_combo_failure combo t writer ps =
     (if \<not> may_commit_combo_state combo (key_of t) writer ps then ps
      else (case map_of (ps_selection ps) combo of
          None \<Rightarrow> ps
        | Some st \<Rightarrow> if sel_active st \<noteq> Some (key_of t) then ps
            else ps\<lparr>ps_selection := AList.update combo (st\<lparr>sel_active := None, sel_successes := 0\<rparr>)
                     (ps_selection ps)\<rparr>))"

text \<open>A target that is not cooling and that the caller and the policy accept.\<close>

definition cooling_check :: "string \<Rightarrow> rat \<Rightarrow> (normalized_target \<Rightarrow> bool) \<Rightarrow> check" where
  "cooling_check combo now accepts t s =
     (case is_combo_target_in_cooldown combo (bare t) now s of
        (True, s') \<Rightarrow> (False, s') | (False, s') \<Rightarrow> (accepts t, s'))"

definition plain_check :: "(normalized_target \<Rightarrow> bool) \<Rightarrow> check" where
  "plain_check accepts t s = (accepts t, s)"

definition defers_last_resort :: "combo_config option \<Rightarrow> bool" where
  "defers_last_resort combo = (case combo of
     None \<Rightarrow> False
   | Some cfg \<Rightarrow> cb_before_last_resort cfg \<and> list_ex (\<lambda>t. \<not> nt_last_resort t) (cb_targets cfg))"

record advance_request =
  ad_now :: int
  ad_options :: cool_options
  ad_scope :: "cooldown_scope option"
  ad_failed_account :: bool
  ad_eligible :: "normalized_target \<Rightarrow> bool"
  ad_official :: bool
  ad_cooldown :: "rat option"
  ad_retry :: "(nat \<times> string list) option"

text \<open>
  \<open>ad_official\<close> is \<open>providerUsesCapacityLadder\<close> of the failed provider and \<open>ad_cooldown\<close>
  the combo's configured cooldown, both read from the configuration.
\<close>

definition advance_combo_after_failure ::
    "(string \<Rightarrow> jsnum) \<Rightarrow> route_env \<Rightarrow> combo_pick \<Rightarrow> advance_request \<Rightarrow> rat \<Rightarrow> pick_state
      \<Rightarrow> combo_target list \<times> pick_result \<times> pick_state" where
  "advance_combo_after_failure read env pick rq random ps =
     (let combo = pk_combo pick;
          ps1 = note_combo_failure combo (pk_target pick) (pk_generation pick) ps;
          cfg = re_combo env combo;
          policy = (case cfg of None \<Rightarrow> default_combo_breaker | Some c \<Rightarrow> cb_breaker c);
          (logged, s) = cool_failed_pick read (re_generation env) (ad_retry rq) combo
            (map_option (\<lambda>c. map bare (cb_targets c)) cfg) policy (ad_cooldown rq) (ad_official rq)
            (ad_scope rq) (ad_failed_account rq) (pk_generation pick) (bare (pk_target pick))
            (ad_now rq) (ad_options rq) (ps_combo ps1);
          defers = defers_last_resort cfg;
          now = of_int (ad_now rq);
          po = \<lparr>po_exclude = pk_attempted pick,
                po_check = cooling_check combo now
                  (\<lambda>t. ad_eligible rq t \<and> (\<not> defers \<or> \<not> nt_last_resort t)),
                po_preview = False, po_allow_parked = False\<rparr>
      in (logged, pick_combo_target env combo po random now (ps1\<lparr>ps_combo := s\<rparr>)))"


section \<open>Housekeeping\<close>

definition reconcile_selection :: "string list \<Rightarrow> string \<Rightarrow> selection \<Rightarrow> nat \<times> selection" where
  "reconcile_selection live combo st =
     (let gone = (\<lambda>k. combo @ ''::'' @ k \<notin> set live);
          drop = (case sel_active st of None \<Rightarrow> False | Some k \<Rightarrow> gone k);
          w = filter (\<lambda>(k, _). \<not> gone k) (sel_weights st);
          u = filter (\<lambda>(k, _). \<not> gone k) (sel_uses st)
      in ((if drop then 1 else 0) + (length (sel_weights st) - length w) + (length (sel_uses st) - length u),
          \<lparr>sel_active = (if drop then None else sel_active st),
           sel_successes = (if drop then 0 else sel_successes st), sel_weights = w, sel_uses = u\<rparr>))"

definition reconcile_combo_rotation_state ::
    "nat \<Rightarrow> string list \<Rightarrow> string list \<Rightarrow> pick_state \<Rightarrow> nat \<times> pick_state" where
  "reconcile_combo_rotation_state generation combos live ps =
     (if generation \<le> ps_generation ps then (0, ps)
      else (let sel = ps_selection ps;
                kept = filter (\<lambda>(c, _). c \<in> set combos) sel
            in ((length sel - length kept) + (\<Sum>(c, st)\<leftarrow>kept. fst (reconcile_selection live c st)),
                ps\<lparr>ps_selection := map (\<lambda>(c, st). (c, snd (reconcile_selection live c st))) kept,
                   ps_live := live, ps_generation := generation\<rparr>)))"

definition clear_combo_selection_state :: "string option \<Rightarrow> pick_state \<Rightarrow> pick_state" where
  "clear_combo_selection_state combo ps = (case combo of
     None \<Rightarrow> ps\<lparr>ps_selection := [], ps_live := [], ps_generation := 0\<rparr>
   | Some c \<Rightarrow> ps\<lparr>ps_selection := AList.delete c (ps_selection ps)\<rparr>)"

text \<open>The seconds of a cooldown label; a caller's check that raises counts as a refusal.\<close>

definition exclusion_label :: "route_env \<Rightarrow> string \<Rightarrow> (normalized_target \<Rightarrow> bool) \<Rightarrow> rat \<Rightarrow> combo_state
      \<Rightarrow> normalized_target \<Rightarrow> string option" where
  "exclusion_label env combo accepts now s t =
     (case provider_exclusion_reason env t now of
        Some ProviderDisabled \<Rightarrow> Some ''provider disabled''
      | Some ProviderMissing \<Rightarrow> Some ''provider missing''
      | Some QuotaExhausted \<Rightarrow> Some ''quota exhausted''
      | None \<Rightarrow> (case earliest_combo_cooldown combo [bare t] now s of
          Some (expiry, _) \<Rightarrow>
            Some (''cooldown '' @ decimal_text (nat (max 1 \<lceil>(expiry - now) / 1000\<rceil>)) @ ''s'')
        | None \<Rightarrow> if \<not> accepts t then Some ''ineligible for this request'' else None))"

definition combo_exclusion_reasons ::
    "route_env \<Rightarrow> string \<Rightarrow> (normalized_target \<Rightarrow> bool) \<Rightarrow> rat \<Rightarrow> combo_state \<Rightarrow> string list" where
  "combo_exclusion_reasons env combo accepts now s =
     (case re_combo env combo of None \<Rightarrow> [] | Some cfg \<Rightarrow>
        List.map_filter (\<lambda>t. map_option (\<lambda>r. key_of t @ '': '' @ r)
          (exclusion_label env combo accepts now s t)) (cb_targets cfg))"

definition usable_quota_cooldowns ::
    "route_env \<Rightarrow> string \<Rightarrow> rat \<Rightarrow> combo_state \<Rightarrow> (combo_target \<times> rat) list" where
  "usable_quota_cooldowns env combo now s =
     (case re_combo env combo of None \<Rightarrow> [] | Some cfg \<Rightarrow>
        snapshot_combo_quota_cooldowns combo
          (map bare (filter (\<lambda>t. target_provider_is_usable env t now) (cb_targets cfg))) now s)"


section \<open>Waiting for a cooldown\<close>

text \<open>
  \<open>pickComboTargetWithWait\<close> in three stages, cut where it sleeps: the state and the
  configuration may be different when it wakes. \<open>aborted\<close> is the abort signal when it is read.
\<close>

record wait_request =
  wq_exclude :: "string list"
  wq_accepts :: "normalized_target \<Rightarrow> bool"
  wq_budget :: rat
  wq_now :: rat
  wq_parked :: bool

datatype waiting = Answer pick_result | AwaitNormal rat | AwaitAny rat rat

fun cooling_targets ::
    "route_env \<Rightarrow> string \<Rightarrow> string list \<Rightarrow> rat \<Rightarrow> (normalized_target \<Rightarrow> bool) \<Rightarrow> normalized_target list
      \<Rightarrow> combo_state \<Rightarrow> normalized_target list \<times> combo_state" where
  "cooling_targets env combo exclude now accepts [] s = ([], s)"
| "cooling_targets env combo exclude now accepts (t # ts) s =
     (if target_provider_is_usable env t now \<and> key_of t \<notin> set exclude
      then (case is_combo_target_in_cooldown combo (bare t) now s of
          (b, s1) \<Rightarrow> (case cooling_targets env combo exclude now accepts ts s1 of
            (rest, s2) \<Rightarrow> (if b \<and> accepts t then t # rest else rest, s2)))
      else cooling_targets env combo exclude now accepts ts s)"

definition plain_options :: "wait_request \<Rightarrow> pick_options" where
  "plain_options rq = \<lparr>po_exclude = wq_exclude rq, po_check = plain_check (wq_accepts rq),
     po_preview = False, po_allow_parked = wq_parked rq\<rparr>"

definition normal_check :: "string \<Rightarrow> rat \<Rightarrow> (normalized_target \<Rightarrow> bool) \<Rightarrow> check" where
  "normal_check combo now accepts t s =
     (if nt_last_resort t then (False, s) else cooling_check combo now accepts t s)"

definition normal_options :: "string \<Rightarrow> rat \<Rightarrow> wait_request \<Rightarrow> pick_options" where
  "normal_options combo now rq = \<lparr>po_exclude = wq_exclude rq,
     po_check = normal_check combo now (wq_accepts rq), po_preview = False, po_allow_parked = False\<rparr>"

definition wait_any ::
    "route_env \<Rightarrow> string \<Rightarrow> wait_request \<Rightarrow> rat \<Rightarrow> bool \<Rightarrow> rat \<Rightarrow> pick_state \<Rightarrow> waiting \<times> pick_state" where
  "wait_any env combo rq random aborted spent ps =
     (let clock = wq_now rq + spent; left = wq_budget rq - spent;
          (r, ps1) = pick_combo_target env combo (plain_options rq) random clock ps
      in case r of
           Picked p \<Rightarrow>
             if pk_rank p = 0 \<or> left \<le> 0 \<or> aborted then (Answer r, ps1)
             else (case re_combo env combo of
                 None \<Rightarrow> (Answer UnknownCombo, ps1)
               | Some cfg \<Rightarrow>
                   (let (ts, s) = cooling_targets env combo (wq_exclude rq) clock (wq_accepts rq)
                          (cb_targets cfg) (ps_combo ps1);
                        ps2 = ps1\<lparr>ps_combo := s\<rparr>
                    in case earliest_combo_cooldown combo (map bare ts) clock s of
                         None \<Rightarrow> (Answer r, ps2)
                       | Some (expiry, _) \<Rightarrow>
                           if expiry - clock > left then (Answer r, ps2)
                           else (AwaitAny spent (expiry - clock), ps2)))
         | _ \<Rightarrow> (Answer r, ps1))"

definition wait_start ::
    "route_env \<Rightarrow> string \<Rightarrow> wait_request \<Rightarrow> rat \<Rightarrow> bool \<Rightarrow> pick_state \<Rightarrow> waiting \<times> pick_state" where
  "wait_start env combo rq random aborted ps = (case re_combo env combo of
     Some cfg \<Rightarrow>
       if defers_last_resort (Some cfg) \<and> \<not> aborted
       then (let now = wq_now rq;
                 (r, ps1) = pick_combo_target env combo (normal_options combo now rq) random now ps
             in case r of
                  Picked p \<Rightarrow> (Answer r, ps1)
                | _ \<Rightarrow>
                    (let (ts, s) = cooling_targets env combo (wq_exclude rq) now (wq_accepts rq)
                           (filter (\<lambda>t. \<not> nt_last_resort t) (cb_targets cfg)) (ps_combo ps1);
                         ps2 = ps1\<lparr>ps_combo := s\<rparr>
                     in case earliest_combo_cooldown combo (map bare ts) now s of
                          Some (expiry, _) \<Rightarrow>
                            if expiry - now \<le> wq_budget rq then (AwaitNormal (expiry - now), ps2)
                            else wait_any env combo rq random aborted 0 ps2
                        | None \<Rightarrow> wait_any env combo rq random aborted 0 ps2))
       else wait_any env combo rq random aborted 0 ps
   | None \<Rightarrow> wait_any env combo rq random aborted 0 ps)"

definition wait_after_normal ::
    "route_env \<Rightarrow> string \<Rightarrow> wait_request \<Rightarrow> rat \<Rightarrow> bool \<Rightarrow> rat \<Rightarrow> pick_state \<Rightarrow> waiting \<times> pick_state" where
  "wait_after_normal env combo rq random aborted slept ps =
     (if aborted \<or> re_combo env combo = None then (Answer NoTarget, ps)
      else (let at_wake = wq_now rq + slept;
                (r, ps1) = pick_combo_target env combo (normal_options combo at_wake rq) random at_wake ps
            in case r of
                 Picked p \<Rightarrow> (Answer r, ps1)
               | _ \<Rightarrow> wait_any env combo rq random aborted slept ps1))"

definition wait_after_any ::
    "route_env \<Rightarrow> string \<Rightarrow> wait_request \<Rightarrow> rat \<Rightarrow> bool \<Rightarrow> rat \<Rightarrow> rat \<Rightarrow> pick_state \<Rightarrow> waiting \<times> pick_state" where
  "wait_after_any env combo rq random aborted spent slept ps =
     (if aborted \<or> re_combo env combo = None then (Answer NoTarget, ps)
      else (case pick_combo_target env combo (plain_options rq) random (wq_now rq + spent + slept) ps of
          (r, ps') \<Rightarrow> (Answer r, ps')))"

end
