(* ===== verification/Combo_Checks.thy ===== *)
theory Combo_Checks
  imports Combo_Pick
begin

text \<open>
  What the picker needs of the checks it calls. A check may drop cooldowns that have expired, so
  states are compared by what is observable at the instant of the pick: every field, and the
  cooldowns still running. \<open>live_check\<close> is the interface: a check keeps what is observable and
  answers from it alone. Every search of the picker then gives the answer it would give with
  nothing dropped.
\<close>

section \<open>The observable part of a combo state\<close>

definition live_part :: "rat \<Rightarrow> combo_state \<Rightarrow> (string \<Rightarrow> target_cooldown option) \<times> combo_state" where
  "live_part now s = (\<lambda>k. case map_of (cs_cooldowns s) k of
       None \<Rightarrow> None | Some e \<Rightarrow> if cooldown_until e > now then Some e else None,
     s\<lparr>cs_cooldowns := []\<rparr>)"

lemma live_part_fields:
  assumes "live_part now s = live_part now u"
  shows "cs_circuits s = cs_circuits u" "cs_stuck s = cs_stuck u" "cs_holds s = cs_holds u"
    "cs_failures s = cs_failures u" "cs_streaks s = cs_streaks u" "cs_hits s = cs_hits u"
    "cs_generation s = cs_generation u" "cs_live s = cs_live u"
  using arg_cong [OF assms, of "\<lambda>x. cs_circuits (snd x)"] arg_cong [OF assms, of "\<lambda>x. cs_stuck (snd x)"]
    arg_cong [OF assms, of "\<lambda>x. cs_holds (snd x)"] arg_cong [OF assms, of "\<lambda>x. cs_failures (snd x)"]
    arg_cong [OF assms, of "\<lambda>x. cs_streaks (snd x)"] arg_cong [OF assms, of "\<lambda>x. cs_hits (snd x)"]
    arg_cong [OF assms, of "\<lambda>x. cs_generation (snd x)"] arg_cong [OF assms, of "\<lambda>x. cs_live (snd x)"]
  by (simp_all add: live_part_def)

lemma live_part_cooldown:
  "live_part now s = live_part now u \<Longrightarrow> fst (live_part now s) k = fst (live_part now u) k"
  by simp

lemma cooldown_observed:
  "fst (is_combo_target_in_cooldown combo t now s) = (fst (live_part now s) (cooldown_map_key combo t) \<noteq> None)"
  by (simp add: is_combo_target_in_cooldown_def live_part_def Let_def split: option.split)

lemma cooldown_keeps [simp]:
  "live_part now (snd (is_combo_target_in_cooldown combo t now s)) = live_part now s"
  by (auto simp: is_combo_target_in_cooldown_def live_part_def Let_def fun_eq_iff split: option.split)

lemma breaker_observed:
  "is_combo_target_breaker_open combo t now s =
     (case fst (live_part now s) (cooldown_map_key combo t) of None \<Rightarrow> False | Some e \<Rightarrow> breaker_tripped e)"
  by (simp add: is_combo_target_breaker_open_def live_part_def split: option.split)

lemma hold_kind_observed: "live_part now s = live_part now u \<Longrightarrow> provider_hold_kind p now s = provider_hold_kind p now u"
  by (simp add: provider_hold_kind_def live_part_fields [of now s u])

lemma deferred_observed:
  "live_part now s = live_part now u \<Longrightarrow> combo_target_deferred c t now s = combo_target_deferred c t now u"
  by (simp add: combo_target_deferred_def live_part_fields [of now s u])


section \<open>The interface of a check\<close>

locale live_check =
  fixes ok :: check and now :: rat
  assumes keeps: "live_part now (snd (ok t s)) = live_part now s"
    and respects: "live_part now s = live_part now u \<Longrightarrow> fst (ok t s) = fst (ok t u)"
begin

text \<open>Nothing is dropped: the check as it answers in one fixed state.\<close>

lemma find_active_frozen:
  assumes "live_part now s = live_part now u"
  shows "fst (find_active ok k i ts s) = fst (find_active (plain_check (\<lambda>t. fst (ok t u))) k i ts u)
    \<and> live_part now (snd (find_active ok k i ts s)) = live_part now u"
  using assms
proof (induction ts arbitrary: i s)
  case Nil
  then show ?case by simp
next
  case (Cons t ts)
  have "fst (ok t s) = fst (ok t u)" using respects Cons.prems by blast
  moreover have "live_part now (snd (ok t s)) = live_part now u" using keeps Cons.prems by simp
  ultimately show ?case
    using Cons.IH [of s] Cons.IH [of "snd (ok t s)"] Cons.prems
    by (cases "ok t s") (auto simp: plain_check_def split: bool.split)
qed

lemma weigh_frozen:
  assumes "live_part now s = live_part now u"
  shows "fst (weigh ok i ts g s) = fst (weigh (plain_check (\<lambda>t. fst (ok t u))) i ts g u)
    \<and> live_part now (snd (weigh ok i ts g s)) = live_part now u"
  using assms
proof (induction ts arbitrary: i g s)
  case Nil
  then show ?case by simp
next
  case (Cons t ts)
  have "fst (ok t s) = fst (ok t u)" using respects Cons.prems by blast
  moreover have "live_part now (snd (ok t s)) = live_part now u" using keeps Cons.prems by simp
  ultimately show ?case
    using Cons.IH [of "snd (ok t s)"]
    by (cases "ok t s") (auto simp: plain_check_def Let_def split: bool.split)
qed

lemma eligible_frozen:
  assumes "live_part now s = live_part now u"
  shows "fst (eligible_indices ok i ts s) = fst (eligible_indices (plain_check (\<lambda>t. fst (ok t u))) i ts u)
    \<and> live_part now (snd (eligible_indices ok i ts s)) = live_part now u"
  using assms
proof (induction ts arbitrary: i s)
  case Nil
  then show ?case by simp
next
  case (Cons t ts)
  have "fst (ok t s) = fst (ok t u)" using respects Cons.prems by blast
  moreover have "live_part now (snd (ok t s)) = live_part now u" using keeps Cons.prems by simp
  ultimately show ?case
    using Cons.IH [of "snd (ok t s)" "Suc i"]
    by (simp add: plain_check_def split_beta)
qed

lemma least_frozen:
  assumes "live_part now s = live_part now u"
  shows "fst (least_index ok f i best ts s) = fst (least_index (plain_check (\<lambda>t. fst (ok t u))) f i best ts u)
    \<and> live_part now (snd (least_index ok f i best ts s)) = live_part now u"
  using assms
proof (induction ts arbitrary: i best s)
  case Nil
  then show ?case by simp
next
  case (Cons t ts)
  have "fst (ok t s) = fst (ok t u)" using respects Cons.prems by blast
  moreover have "live_part now (snd (ok t s)) = live_part now u" using keeps Cons.prems by simp
  ultimately show ?case
    using Cons.IH [of "snd (ok t s)"]
    by (cases "ok t s") (simp add: plain_check_def split: bool.split)
qed

end


section \<open>The checks of the program\<close>

interpretation any_live: live_check any_target now for now
  by unfold_locales (simp_all add: any_target_def)

interpretation plain_live: live_check "plain_check accepts" now for accepts now
  by unfold_locales (simp_all add: plain_check_def)

interpretation cooling_live: live_check "cooling_check combo now accepts" now for combo now accepts
proof
  fix t s
  show "live_part now (snd (cooling_check combo now accepts t s)) = live_part now s"
    using cooldown_keeps [of now combo "bare t" s]
    by (cases "is_combo_target_in_cooldown combo (bare t) now s")
      (auto simp: cooling_check_def split: bool.split)
next
  fix s u t
  assume "live_part now s = live_part now u"
  then have "fst (is_combo_target_in_cooldown combo (bare t) now s) = fst (is_combo_target_in_cooldown combo (bare t) now u)"
    by (simp add: cooldown_observed)
  then show "fst (cooling_check combo now accepts t s) = fst (cooling_check combo now accepts t u)"
    by (auto simp: cooling_check_def split: prod.split bool.split)
qed

interpretation normal_live: live_check "normal_check combo now accepts" now for combo now accepts
proof
  fix t s
  show "live_part now (snd (normal_check combo now accepts t s)) = live_part now s"
    by (simp add: normal_check_def cooling_live.keeps)
next
  fix s u t
  assume "live_part now s = live_part now u"
  then have "fst (cooling_check combo now accepts t s) = fst (cooling_check combo now accepts t u)"
    by (rule cooling_live.respects)
  then show "fst (normal_check combo now accepts t s) = fst (normal_check combo now accepts t u)"
    by (simp add: normal_check_def)
qed


section \<open>Ranks\<close>

text \<open>The rank of a target as it reads off the observable part, once the caller has accepted it.\<close>

definition seen_rank :: "route_env \<Rightarrow> pick_options \<Rightarrow> string \<Rightarrow> rat \<Rightarrow> normalized_target \<Rightarrow> combo_state \<Rightarrow> int" where
  "seen_rank env po combo now t s =
     (if \<not> fst (routable env po t s) then -1
      else if provider_hold_kind (ct_provider t) now s = Some CapacityHold
      then (if po_allow_parked po then 1 else -1)
      else if is_combo_target_breaker_open combo (bare t) now s then 2
      else if provider_hold_kind (ct_provider t) now s = Some FailuresHold
        \<or> fst (is_combo_target_in_cooldown combo (bare t) now s) \<or> always_demoted env combo now t s
      then 1 else 0)"

locale live_options = caller: live_check "po_check po" now for po :: pick_options and now
begin

lemma routable_keeps: "live_part now (snd (routable env po t s)) = live_part now s"
  by (simp add: routable_def caller.keeps)

lemma routable_respects:
  "live_part now s = live_part now u \<Longrightarrow> fst (routable env po t s) = fst (routable env po t u)"
  unfolding routable_def by (auto dest: caller.respects)

lemma rank_of_seen:
  "fst (rank_of env po combo now t s) = seen_rank env po combo now t s"
  "live_part now (snd (rank_of env po combo now t s)) = live_part now s"
proof -
  obtain b s1 where r: "routable env po t s = (b, s1)" by fastforce
  have l1: "live_part now s1 = live_part now s" using routable_keeps [of env t s] r by simp
  obtain c s2 where c: "is_combo_target_in_cooldown combo (bare t) now s1 = (c, s2)" by fastforce
  have l2: "live_part now s2 = live_part now s" using cooldown_keeps [of now combo "bare t" s1] c l1 by simp
  have e: "provider_hold_kind (ct_provider t) now s1 = provider_hold_kind (ct_provider t) now s"
    "is_combo_target_breaker_open combo (bare t) now s1 = is_combo_target_breaker_open combo (bare t) now s"
    "c = fst (is_combo_target_in_cooldown combo (bare t) now s)"
    "always_demoted env combo now t s2 = always_demoted env combo now t s"
    using hold_kind_observed [OF l1] deferred_observed [OF l2] l1 c
      cooldown_observed [of combo "bare t" now s1] cooldown_observed [of combo "bare t" now s]
    by (simp_all add: breaker_observed always_demoted_def)
  show "fst (rank_of env po combo now t s) = seen_rank env po combo now t s"
    using e by (cases b; cases c) (simp_all add: rank_of_def seen_rank_def r c Let_def)
  show "live_part now (snd (rank_of env po combo now t s)) = live_part now s"
    using l1 l2 by (cases b; cases c) (simp_all add: rank_of_def r c Let_def)
qed

lemma seen_rank_respects:
  assumes "live_part now s = live_part now u"
  shows "seen_rank env po combo now t s = seen_rank env po combo now t u"
  using routable_respects [OF assms] hold_kind_observed [OF assms] deferred_observed [OF assms] assms
  by (simp add: seen_rank_def cooldown_observed breaker_observed always_demoted_def)

sublocale eligible: live_check "pick_eligible env po combo now" now for env combo
proof
  fix t s
  show "live_part now (snd (pick_eligible env po combo now t s)) = live_part now s"
    by (simp add: pick_eligible_def split_beta rank_of_seen)
next
  fix s u t
  assume "live_part now s = live_part now u"
  then have "seen_rank env po combo now t s = seen_rank env po combo now t u"
    by (rule seen_rank_respects)
  then show "fst (pick_eligible env po combo now t s) = fst (pick_eligible env po combo now t u)"
    by (simp add: pick_eligible_def split_beta rank_of_seen)
qed

lemma eligible_seen: "fst (pick_eligible env po combo now t s) = (seen_rank env po combo now t s \<ge> 0)"
  by (simp add: pick_eligible_def split_beta rank_of_seen)

lemma failover_frozen:
  assumes "live_part now s = live_part now u"
  shows "fst (failover_index (rank_of env po combo now) i best ts s)
      = fst (failover_index (\<lambda>t x. (seen_rank env po combo now t u, x)) i best ts u)
    \<and> live_part now (snd (failover_index (rank_of env po combo now) i best ts s)) = live_part now u"
  using assms
proof (induction ts arbitrary: i best s)
  case Nil
  then show ?case by simp
next
  case (Cons t ts)
  obtain r s' where r: "rank_of env po combo now t s = (r, s')" by fastforce
  have e: "r = seen_rank env po combo now t u" and l: "live_part now s' = live_part now u"
    using rank_of_seen [of env combo t s] r seen_rank_respects [OF Cons.prems, of env combo t] Cons.prems
    by simp_all
  show ?case
    using Cons.IH [OF l] l by (simp add: r e)
qed

end

interpretation plain_options_live: live_options "plain_options rq" now for rq now
  unfolding live_options_def plain_options_def by (simp add: plain_live.live_check_axioms)

interpretation normal_options_live: live_options "normal_options combo now rq" now for combo now rq
  unfolding live_options_def normal_options_def by (simp add: normal_live.live_check_axioms)

end
