(* ===== verification/Combo_Pick_Properties.thy ===== *)
theory Combo_Pick_Properties
  imports Combo_Checks
begin

text \<open>
  The picker: every strategy answers an admissible target or, exactly when there is none, none;
  the failover strategy answers the least rank; waiting stays inside its budget.
\<close>

section \<open>The searches, with nothing dropped\<close>

lemma failover_plain:
  assumes "fst (failover_index (\<lambda>t x. (f t, x)) i best ts u) = r" and "\<And>j b. best = Some (j, b) \<Longrightarrow> 0 < b"
  shows "case r of
      None \<Rightarrow> best = None \<and> (\<forall>t \<in> set ts. f t < 0)
    | Some (m, b) \<Rightarrow> (best = Some (m, b) \<and> (\<forall>t \<in> set ts. f t < 0 \<or> b \<le> f t))
        \<or> (\<exists>k < length ts. m = i + k \<and> b = f (ts ! k) \<and> 0 \<le> b
            \<and> (\<forall>j c. best = Some (j, c) \<longrightarrow> b < c)
            \<and> (\<forall>t \<in> set ts. f t < 0 \<or> b \<le> f t)
            \<and> (\<forall>k' < k. f (ts ! k') < 0 \<or> b < f (ts ! k')))"
  using assms
proof (induction ts arbitrary: i best)
  case Nil
  then show ?case by (auto split: option.splits)
next
  case (Cons t ts)
  consider (skip) "f t < 0 \<or> (\<exists>j c. best = Some (j, c) \<and> c \<le> f t)"
    | (zero) "f t = 0" "\<forall>j c. best = Some (j, c) \<longrightarrow> 0 < c"
    | (better) "0 < f t" "\<forall>j c. best = Some (j, c) \<longrightarrow> f t < c"
    by (metis linorder_not_less not_less_iff_gr_or_eq)
  then show ?case
  proof cases
    case skip
    then have s: "fst (failover_index (\<lambda>t x. (f t, x)) (Suc i) best ts u) = r"
      using Cons.prems(1) by (auto split: option.splits if_splits)
    note ih = Cons.IH [OF s Cons.prems(2)]
    show ?thesis
    proof (cases r)
      case None
      with ih have "best = None" "\<forall>t \<in> set ts. f t < 0" by simp_all
      with None skip show ?thesis by simp
    next
      case (Some mb)
      obtain m b where mb: "mb = (m, b)" by fastforce
      from ih have "(best = Some (m, b) \<and> (\<forall>t \<in> set ts. f t < 0 \<or> b \<le> f t))
          \<or> (\<exists>k < length ts. m = Suc i + k \<and> b = f (ts ! k) \<and> 0 \<le> b
            \<and> (\<forall>j c. best = Some (j, c) \<longrightarrow> b < c) \<and> (\<forall>t \<in> set ts. f t < 0 \<or> b \<le> f t)
            \<and> (\<forall>k' < k. f (ts ! k') < 0 \<or> b < f (ts ! k')))"
        unfolding Some mb by (simp only: option.case prod.case)
      then consider
          (old) "best = Some (m, b)" "\<forall>t \<in> set ts. f t < 0 \<or> b \<le> f t"
        | (new) k where "k < length ts" "m = Suc i + k" "b = f (ts ! k)" "0 \<le> b"
            "\<forall>j c. best = Some (j, c) \<longrightarrow> b < c" "\<forall>t \<in> set ts. f t < 0 \<or> b \<le> f t"
            "\<forall>k' < k. f (ts ! k') < 0 \<or> b < f (ts ! k')"
        by blast
      then show ?thesis
      proof cases
        case old
        with skip Some mb show ?thesis by auto
      next
        case new
        have "f t < 0 \<or> b < f t" using skip new(5) by auto
        then have "\<exists>k < length (t # ts). m = i + k \<and> b = f ((t # ts) ! k) \<and> 0 \<le> b
            \<and> (\<forall>j c. best = Some (j, c) \<longrightarrow> b < c) \<and> (\<forall>x \<in> set (t # ts). f x < 0 \<or> b \<le> f x)
            \<and> (\<forall>k' < k. f ((t # ts) ! k') < 0 \<or> b < f ((t # ts) ! k'))"
          using new by (intro exI [of _ "Suc k"]) (auto simp: less_Suc_eq_0_disj)
        then show ?thesis using Some mb by simp
      qed
    qed
  next
    case zero
    then have "r = Some (i, 0)" using Cons.prems(1) by (auto split: option.splits if_splits)
    moreover have "f x < 0 \<or> 0 \<le> f x" for x by linarith
    ultimately show ?thesis using zero by (auto intro!: exI [of _ 0])
  next
    case better
    then have s: "fst (failover_index (\<lambda>t x. (f t, x)) (Suc i) (Some (i, f t)) ts u) = r"
      using Cons.prems(1) by (auto split: option.splits if_splits)
    have ih: "case r of None \<Rightarrow> False | Some (m, b) \<Rightarrow>
        (m = i \<and> b = f t \<and> (\<forall>x \<in> set ts. f x < 0 \<or> b \<le> f x))
        \<or> (\<exists>k < length ts. m = Suc i + k \<and> b = f (ts ! k) \<and> 0 \<le> b \<and> b < f t
            \<and> (\<forall>x \<in> set ts. f x < 0 \<or> b \<le> f x) \<and> (\<forall>k' < k. f (ts ! k') < 0 \<or> b < f (ts ! k')))"
      using Cons.IH [OF s] better(1) by (auto split: option.splits)
    then obtain m b where r: "r = Some (m, b)" by (auto split: option.splits)
    from ih r consider (this) "m = i" "b = f t" "\<forall>x \<in> set ts. f x < 0 \<or> b \<le> f x"
      | (later) k where "k < length ts" "m = Suc i + k" "b = f (ts ! k)" "0 \<le> b" "b < f t"
          "\<forall>x \<in> set ts. f x < 0 \<or> b \<le> f x" "\<forall>k' < k. f (ts ! k') < 0 \<or> b < f (ts ! k')"
      by auto
    then show ?thesis
    proof cases
      case this
      with better r show ?thesis by (auto intro!: exI [of _ 0])
    next
      case later
      then have "\<exists>k < length (t # ts). m = i + k \<and> b = f ((t # ts) ! k) \<and> 0 \<le> b
          \<and> (\<forall>j c. best = Some (j, c) \<longrightarrow> b < c) \<and> (\<forall>x \<in> set (t # ts). f x < 0 \<or> b \<le> f x)
          \<and> (\<forall>k' < k. f ((t # ts) ! k') < 0 \<or> b < f ((t # ts) ! k'))"
        using better by (intro exI [of _ "Suc k"]) (auto simp: less_Suc_eq_0_disj)
      then show ?thesis using r by simp
    qed
  qed
qed

lemma plain_check_apply: "plain_check P t s = (P t, s)"
  by (simp add: plain_check_def)

lemma find_active_plain:
  "fst (find_active (plain_check P) k i ts u) = Some j \<Longrightarrow> i \<le> j \<and> j < i + length ts \<and> P (ts ! (j - i))"
proof (induction ts arbitrary: i)
  case (Cons t ts)
  show ?case
  proof (cases "key_of t = k \<and> P t")
    case True
    with Cons.prems show ?thesis by (simp add: plain_check_apply [of P t u])
  next
    case False
    then have "fst (find_active (plain_check P) k (Suc i) ts u) = Some j"
      using Cons.prems by (auto simp: plain_check_apply [of P t u] split: if_splits)
    from Cons.IH [OF this] show ?thesis by (auto simp: nth_Cons' Suc_diff_le)
  qed
qed simp

lemma weigh_plain:
  "case wg_best (fst (weigh (plain_check P) i ts g u)) of
      None \<Rightarrow> wg_best g = None \<and> (\<forall>t \<in> set ts. \<not> P t)
    | Some (j, k, b) \<Rightarrow> wg_best g = Some (j, k, b)
        \<or> (i \<le> j \<and> j < i + length ts \<and> P (ts ! (j - i)) \<and> k = key_of (ts ! (j - i)))"
proof (induction ts arbitrary: i g)
  case Nil
  then show ?case by (auto split: option.split)
next
  case (Cons t ts)
  show ?case
  proof (cases "P t")
    case False
    with Cons.IH [where i = "Suc i" and g = g] show ?thesis
      by (auto simp: plain_check_apply [of P t u] nth_Cons' Suc_diff_le split: option.splits)
  next
    case True
    let ?score = "nullish (map_of (wg_weights g) (key_of t)) 0 + nt_weight t"
    let ?g = "\<lparr>wg_best = (case wg_best g of None \<Rightarrow> Some (i, key_of t, ?score)
        | Some (j, l, b) \<Rightarrow> if ?score > b then Some (i, key_of t, ?score) else Some (j, l, b)),
      wg_total = wg_total g + nt_weight t, wg_weights = AList.update (key_of t) ?score (wg_weights g)\<rparr>"
    have w: "weigh (plain_check P) i (t # ts) g u = weigh (plain_check P) (Suc i) ts ?g u"
      using True by (simp add: plain_check_apply [of P t u] Let_def)
    have g: "wg_best ?g = Some (i, key_of t, ?score) \<or> (wg_best ?g = wg_best g \<and> wg_best g \<noteq> None)"
      by (auto split: option.splits)
    show ?thesis
      using Cons.IH [where i = "Suc i" and g = ?g] g True unfolding w
      by (auto simp: nth_Cons' Suc_diff_le split: option.splits)
  qed
qed

lemma eligible_plain:
  "fst (eligible_indices (plain_check P) i ts u) =
     map (\<lambda>(j, t). (j, nt_weight t)) (filter (\<lambda>(j, t). P t) (enumerate i ts))"
proof (induction ts arbitrary: i)
  case (Cons t ts)
  then show ?case by (simp add: plain_check_apply [of P t u] split_beta)
qed simp

lemma draw_in: "draw x es = Some i \<Longrightarrow> i \<in> fst ` set es"
  by (induction x es rule: draw.induct) (auto split: if_splits)

lemma least_plain:
  "case fst (least_index (plain_check P) f i best ts u) of
      None \<Rightarrow> best = None \<and> (\<forall>t \<in> set ts. \<not> P t)
    | Some j \<Rightarrow> (\<exists>b. best = Some (j, b)) \<or> (i \<le> j \<and> j < i + length ts \<and> P (ts ! (j - i)))"
proof (induction ts arbitrary: i best)
  case Nil
  then show ?case by (auto split: option.split)
next
  case (Cons t ts)
  show ?case
  proof (cases "P t")
    case False
    with Cons.IH [where i = "Suc i" and best = best] show ?thesis
      by (auto simp: plain_check_apply [of P t u] nth_Cons' Suc_diff_le split: option.splits)
  next
    case True
    let ?best = "case best of None \<Rightarrow> Some (i, f t) | Some (j, b) \<Rightarrow>
      (if (case f t of None \<Rightarrow> False | Some x \<Rightarrow> (case b of None \<Rightarrow> True | Some y \<Rightarrow> x < y))
       then Some (i, f t) else Some (j, b))"
    have w: "least_index (plain_check P) f i best (t # ts) u = least_index (plain_check P) f (Suc i) ?best ts u"
      using True by (simp add: plain_check_apply [of P t u])
    have b: "(\<exists>b. ?best = Some (i, b)) \<or> (?best = best \<and> best \<noteq> None)"
      by (cases best) auto
    show ?thesis
      using Cons.IH [where i = "Suc i" and best = ?best] b True unfolding w
      by (auto simp: nth_Cons' Suc_diff_le split: option.splits)
  qed
qed


section \<open>Each strategy answers an admissible target\<close>

abbreviation sound_choice :: "(normalized_target \<Rightarrow> bool) \<Rightarrow> normalized_target list \<Rightarrow> nat option \<Rightarrow> bool" where
  "sound_choice P ts r \<equiv> (case r of
      None \<Rightarrow> \<forall>t \<in> set ts. \<not> P t
    | Some i \<Rightarrow> i < length ts \<and> P (ts ! i))"

lemma eligible_plain_in:
  "(i, w) \<in> set (fst (eligible_indices (plain_check P) 0 ts u)) \<Longrightarrow> i < length ts \<and> P (ts ! i)"
  by (auto simp: eligible_plain in_set_enumerate_eq)

lemma eligible_plain_empty:
  "fst (eligible_indices (plain_check P) 0 ts u) = [] \<Longrightarrow> \<forall>t \<in> set ts. \<not> P t"
proof
  fix t
  assume e: "fst (eligible_indices (plain_check P) 0 ts u) = []" and "t \<in> set ts"
  then obtain i where "i < length ts" "ts ! i = t" by (metis in_set_conv_nth)
  then have "(i, t) \<in> set (enumerate 0 ts)" by (auto simp: in_set_enumerate_eq)
  with e show "\<not> P t" by (auto simp: eligible_plain filter_empty_conv)
qed

context live_check
begin

lemma smooth_sound:
  assumes "live_part now s = live_part now u"
  shows "sound_choice (\<lambda>t. fst (ok t u)) ts (fst (smooth_weighted_index ok ts w s))
    \<and> live_part now (snd (snd (smooth_weighted_index ok ts w s))) = live_part now u"
proof -
  let ?g = "\<lparr>wg_best = None, wg_total = 0, wg_weights = w\<rparr>"
  obtain g s' where g: "weigh ok 0 ts ?g s = (g, s')" by fastforce
  have f: "fst (weigh (plain_check (\<lambda>t. fst (ok t u))) 0 ts ?g u) = g" "live_part now s' = live_part now u"
    using weigh_frozen [OF assms, of 0 ts ?g] g by simp_all
  show ?thesis
    using weigh_plain [where P = "\<lambda>t. fst (ok t u)" and i = 0 and ts = ts and g = ?g and u = u] f
    by (auto simp: smooth_weighted_index_def g split: option.splits)
qed

lemma find_active_sound:
  assumes "live_part now s = live_part now u"
    and "find_active ok k 0 ts s = (r, s')"
  shows "live_part now s' = live_part now u" "r = Some i \<Longrightarrow> i < length ts \<and> fst (ok (ts ! i) u)"
  using find_active_frozen [OF assms(1), of k 0 ts] find_active_plain [of "\<lambda>t. fst (ok t u)" k 0 ts u i] assms(2)
  by simp_all

lemma round_robin_sound:
  assumes "live_part now s = live_part now u"
  shows "sound_choice (\<lambda>t. fst (ok t u)) ts (fst (round_robin_index ok ts st s))
    \<and> live_part now (snd (snd (round_robin_index ok ts st s))) = live_part now u"
proof -
  obtain r s1 where f: "(case sel_active st of None \<Rightarrow> (None, s) | Some k \<Rightarrow> find_active ok k 0 ts s) = (r, s1)"
    by fastforce
  have l: "live_part now s1 = live_part now u" and i: "\<And>i. r = Some i \<Longrightarrow> i < length ts \<and> fst (ok (ts ! i) u)"
    using f assms find_active_sound [OF assms] by (auto split: option.splits)
  show ?thesis
  proof (cases r)
    case (Some i)
    with i [OF Some] l f show ?thesis by (simp add: round_robin_index_def)
  next
    case None
    let ?st = "if sel_active st = None then st else st\<lparr>sel_active := None, sel_successes := 0\<rparr>"
    obtain r' w s2 where sm: "smooth_weighted_index ok ts (sel_weights ?st) s1 = (r', w, s2)"
      using prod_cases3 by blast
    show ?thesis
      using smooth_sound [OF l, of ts "sel_weights ?st"] sm None f
      by (cases r') (simp_all add: round_robin_index_def Let_def)
  qed
qed

lemma random_sound:
  assumes "live_part now s = live_part now u"
  shows "sound_choice (\<lambda>t. fst (ok t u)) ts (fst (random_index ok x ts s))
    \<and> live_part now (snd (random_index ok x ts s)) = live_part now u"
proof -
  obtain es s' where e: "eligible_indices ok 0 ts s = (es, s')" by fastforce
  have f: "es = fst (eligible_indices (plain_check (\<lambda>t. fst (ok t u))) 0 ts u)" "live_part now s' = live_part now u"
    using eligible_frozen [OF assms, of 0 ts] e by simp_all
  have "i < length ts \<and> fst (ok (ts ! i) u)" if "i \<in> fst ` set es" for i
    using that eligible_plain_in [of _ _ "\<lambda>t. fst (ok t u)" ts u] unfolding f(1) by force
  moreover have "es \<noteq> [] \<Longrightarrow> fst (last es) \<in> fst ` set es" by simp
  moreover have "es = [] \<Longrightarrow> \<forall>t \<in> set ts. \<not> fst (ok t u)"
    using eligible_plain_empty f(1) by metis
  ultimately show ?thesis
    using f(2) draw_in [of "x * of_int (\<Sum>(i, w)\<leftarrow>es. w)" es]
    by (cases "draw (x * of_int (\<Sum>(i, w)\<leftarrow>es. w)) es") (simp_all add: random_index_def e)
qed

lemma least_sound:
  assumes "live_part now s = live_part now u"
  shows "sound_choice (\<lambda>t. fst (ok t u)) ts (fst (least_index ok f 0 None ts s))
    \<and> live_part now (snd (least_index ok f 0 None ts s)) = live_part now u"
  using least_frozen [OF assms, of f 0 None ts] least_plain [where P = "\<lambda>t. fst (ok t u)" and f = f and i = 0 and best = None and ts = ts and u = u]
  by (auto split: option.splits)

end

context live_options
begin

lemma failover_sound:
  assumes "live_part now s = live_part now u"
  shows "sound_choice (\<lambda>t. seen_rank env po combo now t u \<ge> 0) ts
      (map_option fst (fst (failover_index (rank_of env po combo now) 0 None ts s)))
    \<and> live_part now (snd (failover_index (rank_of env po combo now) 0 None ts s)) = live_part now u"
  using failover_frozen [OF assms, of env combo 0 None ts]
    failover_plain [OF refl, where f = "\<lambda>t. seen_rank env po combo now t u" and best = None and i = 0 and ts = ts and u = u]
  by (auto split: option.splits)

lemma choose_sound:
  assumes "choose_index env po combo random now cfg sel s = (r, sel', s')"
  shows "sound_choice (\<lambda>t. seen_rank env po combo now t s \<ge> 0) (cb_targets cfg) r
    \<and> live_part now s' = live_part now s"
proof -
  let ?ts = "cb_targets cfg" and ?ok = "pick_eligible env po combo now" and ?st = "nullish (map_of sel combo) fresh_selection"
  note rr = eligible.round_robin_sound [OF refl, where env = env and combo = combo and ts = ?ts and s = s and st = ?st,
      unfolded eligible_seen]
    and ra = eligible.random_sound [OF refl, where env = env and combo = combo and ts = ?ts and s = s and x = random,
      unfolded eligible_seen]
    and le = eligible.least_sound [OF refl, where env = env and combo = combo and ts = ?ts and s = s,
      unfolded eligible_seen]
    and fo = failover_sound [OF refl, where env = env and combo = combo and ts = ?ts and s = s]
  show ?thesis
  proof (cases "cb_strategy cfg")
    case RoundRobin
    then obtain st where "round_robin_index ?ok ?ts ?st s = (r, st, s')"
      using assms by (auto simp: choose_index_def split: prod.splits)
    with rr show ?thesis by simp
  next
    case RandomPick
    then have "random_index ?ok random ?ts s = (r, s')"
      using assms by (auto simp: choose_index_def split: prod.splits)
    with ra show ?thesis by simp
  next
    case LeastUsed
    then have "least_index ?ok (uses_of ?st) 0 None ?ts s = (r, s')"
      using assms by (auto simp: choose_index_def Let_def split: prod.splits)
    with le [of "uses_of ?st"] show ?thesis by simp
  next
    case ResetWindow
    then have "least_index ?ok (remaining_of env now) 0 None ?ts s = (r, s')"
      using assms by (auto simp: choose_index_def split: prod.splits)
    with le [of "remaining_of env now"] show ?thesis by simp
  next
    case Failover
    then have "map_option fst (fst (failover_index (rank_of env po combo now) 0 None ?ts s)) = r
      \<and> snd (failover_index (rank_of env po combo now) 0 None ?ts s) = s'"
      using assms by (auto simp: choose_index_def split: prod.splits)
    with fo show ?thesis by simp
  next
    case Jev
    then have "map_option fst (fst (failover_index (rank_of env po combo now) 0 None ?ts s)) = r
      \<and> snd (failover_index (rank_of env po combo now) 0 None ?ts s) = s'"
      using assms by (auto simp: choose_index_def split: prod.splits)
    with fo show ?thesis by simp
  qed
qed

end


section \<open>What the picker promises\<close>

text \<open>What makes a target a possible answer, before any preference.\<close>

definition admissible :: "route_env \<Rightarrow> pick_options \<Rightarrow> rat \<Rightarrow> combo_state \<Rightarrow> normalized_target \<Rightarrow> bool" where
  "admissible env po now s t \<longleftrightarrow> re_disabled env (ct_provider t) = Some False
     \<and> key_of t \<notin> set (po_exclude po) \<and> fst (po_check po t s)
     \<and> (po_allow_parked po \<or> provider_hold_kind (ct_provider t) now s \<noteq> Some CapacityHold)"

lemma seen_rank_admissible: "seen_rank env po combo now t s \<ge> 0 \<longleftrightarrow> admissible env po now s t"
  by (auto simp: seen_rank_def admissible_def routable_def target_provider_is_routable_def)

lemma js_set_members [simp]: "set (js_set xs) = set xs" "distinct (js_set xs)"
  by (simp_all add: js_set_def)

lemma pick_cases:
  assumes "pick_combo_target env combo po random now ps = (r, ps')"
  obtains (unknown) "re_combo env combo = None" "r = UnknownCombo" "ps' = ps"
  | (none) cfg sel s where "re_combo env combo = Some cfg" "r = NoTarget"
      "choose_index env po combo random now cfg (ps_selection ps) (ps_combo ps) = (None, sel, s)"
      "ps' = ps\<lparr>ps_selection := sel, ps_combo := s\<rparr>"
  | (picked) cfg sel s i p where "re_combo env combo = Some cfg" "r = Picked p"
      "choose_index env po combo random now cfg (ps_selection ps) (ps_combo ps) = (Some i, sel, s)"
      "p = \<lparr>pk_combo = combo, pk_target = cb_targets cfg ! i, pk_index = i,
          pk_attempted = js_set (po_exclude po) @ [key_of (cb_targets cfg ! i)],
          pk_generation = re_generation env,
          pk_rank = fst (rank_of env po combo now (cb_targets cfg ! i) s)\<rparr>"
      "ps' = ps\<lparr>ps_selection := sel, ps_combo := snd (rank_of env po combo now (cb_targets cfg ! i) s)\<rparr>"
proof (cases "re_combo env combo")
  case None
  with assms show ?thesis by (intro unknown) (simp_all add: pick_combo_target_def)
next
  case (Some cfg)
  obtain o' sel s where c: "choose_index env po combo random now cfg (ps_selection ps) (ps_combo ps) = (o', sel, s)"
    using prod_cases3 by blast
  show ?thesis
  proof (cases o')
    case None
    with assms Some c show ?thesis by (intro none) (auto simp: pick_combo_target_def)
  next
    case (Some i)
    with assms \<open>re_combo env combo = Some cfg\<close> c show ?thesis
      by (intro picked [of cfg _ i sel s]) (simp_all add: pick_combo_target_def Let_def split_beta)
  qed
qed

text \<open>A combo of two healthy channels and an emergency one, the breaker of the first tripped.\<close>

abbreviation demo_target :: "string \<Rightarrow> int \<Rightarrow> bool \<Rightarrow> normalized_target" where
  "demo_target p w lr \<equiv> \<lparr>ct_provider = p, ct_model = ''m'', nt_weight = w, nt_last_resort = lr\<rparr>"

definition demo_config :: "combo_strategy \<Rightarrow> combo_config" where
  "demo_config strategy = \<lparr>cb_strategy = strategy, cb_sticky_limit = 1, cb_breaker = default_combo_breaker,
     cb_before_last_resort = True,
     cb_targets = [demo_target ''a'' 2 False, demo_target ''b'' 1 False, demo_target ''c'' 1 True]\<rparr>"

definition demo_env :: "combo_strategy \<Rightarrow> route_env" where
  "demo_env strategy = \<lparr>re_combo = (\<lambda>c. if c = ''ladder'' then Some (demo_config strategy) else None),
     re_disabled = (\<lambda>p. if p = ''a'' \<or> p = ''b'' \<or> p = ''c'' then Some False else None),
     re_quota = (\<lambda>p now. None), re_quality_held = (\<lambda>p now. False), re_hopeless = (\<lambda>p now. False),
     re_degraded = (\<lambda>p now. False), re_generation = 1\<rparr>"

definition demo_request :: wait_request where
  "demo_request = \<lparr>wq_exclude = [], wq_accepts = (\<lambda>t. True), wq_budget = 5000, wq_now = 0, wq_parked = False\<rparr>"

definition tripped_state :: pick_state where
  "tripped_state = \<lparr>ps_combo = fresh_combo_state\<lparr>cs_cooldowns :=
       [(cooldown_map_key ''ladder'' (bare (demo_target ''a'' 2 False)),
         \<lparr>cooldown_until = 9000, tc_status = None, breaker_tripped = True\<rparr>)]\<rparr>,
     ps_selection = [], ps_generation = 0, ps_live = []\<rparr>"

abbreviation demo_pick :: "combo_strategy \<Rightarrow> pick_result" where
  "demo_pick strategy \<equiv>
     fst (pick_combo_target (demo_env strategy) ''ladder'' (plain_options demo_request) 0 0 tripped_state)"

lemmas demo_simps = demo_env_def demo_config_def demo_request_def tripped_state_def plain_options_def

lemma demo_failover: "demo_pick Failover = Picked \<lparr>pk_combo = ''ladder'', pk_target = demo_target ''b'' 1 False,
   pk_index = 1, pk_attempted = [''b/m''], pk_generation = 1, pk_rank = 0\<rparr>"
  by code_simp

text \<open>The other strategies do not look at the rank: the tripped target is picked beside a healthy one.\<close>

lemma rotation_ignores_ranks:
  "demo_pick RoundRobin = Picked \<lparr>pk_combo = ''ladder'', pk_target = demo_target ''a'' 2 False,
     pk_index = 0, pk_attempted = [''a/m''], pk_generation = 1, pk_rank = 2\<rparr>
   \<and> seen_rank (demo_env RoundRobin) (plain_options demo_request) ''ladder'' 0 (demo_target ''b'' 1 False)
       (ps_combo tripped_state) = 0"
  by code_simp

text \<open>C20. For every strategy the picker answers a target that is admissible at that moment, together with
its rank, and it answers that there is none only when no target of the combo is admissible; nothing
it returns was excluded by the request.\<close>

theorem pick_sound_complete:
  assumes "live_options po now"
    and "pick_combo_target env combo po random now ps = (r, ps')"
  shows "(case r of
      UnknownCombo \<Rightarrow> re_combo env combo = None
    | NoTarget \<Rightarrow> (case re_combo env combo of None \<Rightarrow> False | Some cfg \<Rightarrow>
        \<not> list_ex (admissible env po now (ps_combo ps)) (cb_targets cfg))
    | Picked p \<Rightarrow> (case re_combo env combo of None \<Rightarrow> False | Some cfg \<Rightarrow>
        pk_index p < length (cb_targets cfg) \<and> pk_target p = cb_targets cfg ! pk_index p
        \<and> admissible env po now (ps_combo ps) (pk_target p)
        \<and> pk_rank p = seen_rank env po combo now (pk_target p) (ps_combo ps)
        \<and> set (pk_attempted p) = insert (key_of (pk_target p)) (set (po_exclude po))
        \<and> distinct (pk_attempted p)))
    \<and> live_part now (ps_combo ps') = live_part now (ps_combo ps)"
  using assms(2)
proof (cases rule: pick_cases)
  case unknown
  then show ?thesis by simp
next
  case (none cfg sel s)
  from live_options.choose_sound [OF assms(1) none(3)] none show ?thesis
    by (simp add: seen_rank_admissible list_ex_iff)
next
  case (picked cfg sel s i p)
  note c = live_options.choose_sound [OF assms(1) picked(3)]
  then have a: "i < length (cb_targets cfg)" "admissible env po now (ps_combo ps) (cb_targets cfg ! i)"
    and l: "live_part now s = live_part now (ps_combo ps)"
    by (simp_all add: seen_rank_admissible)
  have "key_of (cb_targets cfg ! i) \<notin> set (po_exclude po)" using a(2) by (simp add: admissible_def)
  then show ?thesis
    using a l picked live_options.rank_of_seen [OF assms(1), of env combo "cb_targets cfg ! i" s]
      live_options.seen_rank_respects [OF assms(1) l, of env combo "cb_targets cfg ! i"]
    by simp
qed

theorem pick_sound_complete_witness:
  "re_combo (demo_env Failover) ''ladder'' = Some (demo_config Failover)
   \<and> 1 < length (cb_targets (demo_config Failover))
   \<and> admissible (demo_env Failover) (plain_options demo_request) 0 (ps_combo tripped_state) (demo_target ''b'' 1 False)"
proof -
  obtain r ps' where p: "pick_combo_target (demo_env Failover) ''ladder'' (plain_options demo_request) 0 0
      tripped_state = (r, ps')" by fastforce
  have c: "re_combo (demo_env Failover) ''ladder'' = Some (demo_config Failover)" by (simp add: demo_env_def)
  have "r = demo_pick Failover" using p by simp
  then show ?thesis
    using pick_sound_complete [OF plain_options_live.live_options_axioms p] c
    unfolding demo_failover by (simp add: demo_config_def)
qed

text \<open>The price-order strategy answers the first target of the least rank among the admissible ones.\<close>

theorem failover_takes_best_rank:
  assumes "live_options po now" and "re_combo env combo = Some cfg"
    and "cb_strategy cfg \<in> {Failover, Jev}"
    and "pick_combo_target env combo po random now ps = (Picked p, ps')"
  shows "list_all (\<lambda>t. if admissible env po now (ps_combo ps) t
        then pk_rank p \<le> seen_rank env po combo now t (ps_combo ps) else True) (cb_targets cfg)
    \<and> list_all (\<lambda>t. if admissible env po now (ps_combo ps) t
        then pk_rank p < seen_rank env po combo now t (ps_combo ps) else True)
      (take (pk_index p) (cb_targets cfg))"
  using assms(4)
proof (cases rule: pick_cases)
  case (picked cfg' sel s i p')
  let ?f = "\<lambda>t. seen_rank env po combo now t (ps_combo ps)"
  have cfg: "cfg' = cfg" using picked(1) assms(2) by simp
  note l = live_options.choose_sound [OF assms(1) picked(3), THEN conjunct2]
  have "map_option fst (fst (failover_index (rank_of env po combo now) 0 None (cb_targets cfg) (ps_combo ps))) = Some i"
    using picked(3) assms(3) cfg by (auto simp: choose_index_def split: prod.splits)
  then obtain b where "fst (failover_index (\<lambda>t x. (?f t, x)) 0 None (cb_targets cfg) (ps_combo ps)) = Some (i, b)"
    using live_options.failover_frozen [OF assms(1) refl, where env = env and combo = combo and i = 0
        and best = None and ts = "cb_targets cfg" and s = "ps_combo ps"] by auto
  from failover_plain [OF this] have b: "i < length (cb_targets cfg)" "b = ?f (cb_targets cfg ! i)"
    "\<forall>t \<in> set (cb_targets cfg). ?f t < 0 \<or> b \<le> ?f t"
    "\<forall>k < i. ?f (cb_targets cfg ! k) < 0 \<or> b < ?f (cb_targets cfg ! k)"
    by auto
  have "fst (rank_of env po combo now (cb_targets cfg ! i) s) = b"
    using live_options.rank_of_seen [OF assms(1)] live_options.seen_rank_respects [OF assms(1) l] b(2) cfg by simp
  then have p: "pk_index p = i" "pk_rank p = b" using picked cfg by simp_all
  have n: "admissible env po now (ps_combo ps) t \<Longrightarrow> \<not> ?f t < 0" for t
    by (simp add: seen_rank_admissible [symmetric, of env po now _ _ combo])
  show ?thesis
    using b p n by (fastforce simp: list_all_length list_all_iff)
qed simp_all

theorem failover_takes_best_rank_witness:
  "list_all (\<lambda>t. if admissible (demo_env Failover) (plain_options demo_request) 0 (ps_combo tripped_state) t
      then 0 < seen_rank (demo_env Failover) (plain_options demo_request) ''ladder'' 0 t (ps_combo tripped_state)
      else True) [demo_target ''a'' 2 False]"
proof -
  obtain r ps' where p: "pick_combo_target (demo_env Failover) ''ladder'' (plain_options demo_request) 0 0
      tripped_state = (r, ps')" by fastforce
  have c: "re_combo (demo_env Failover) ''ladder'' = Some (demo_config Failover)" by (simp add: demo_env_def)
  have st: "cb_strategy (demo_config Failover) \<in> {Failover, Jev}" by (simp add: demo_config_def)
  have "r = demo_pick Failover" using p by simp
  with p have "pick_combo_target (demo_env Failover) ''ladder'' (plain_options demo_request) 0 0 tripped_state
    = (Picked \<lparr>pk_combo = ''ladder'', pk_target = demo_target ''b'' 1 False, pk_index = 1,
        pk_attempted = [''b/m''], pk_generation = 1, pk_rank = 0\<rparr>, ps')"
    unfolding demo_failover by simp
  from failover_takes_best_rank [OF plain_options_live.live_options_axioms c st this]
  show ?thesis by (simp add: demo_config_def cong: if_cong)
qed

end
