(* ===== verification/Combo_Rotation.thy ===== *)
theory Combo_Rotation
  imports Combo_Pick_Properties
begin

text \<open>
  Smooth weighted round robin in sticky blocks is fair: while the verdicts on the targets stay the
  same and every pick is followed by a success, no target is ever a whole block ahead of its
  share, and over as many blocks as the weights sum to every admissible target serves exactly
  its weight many. Time and state may change between the picks.
\<close>

section \<open>One pick\<close>

abbreviation credit :: "(string, int) jsmap \<Rightarrow> string \<Rightarrow> int" where
  "credit w k \<equiv> nullish (map_of w k) 0"

lemma credit_update [simp]: "credit (AList.update k x w) l = (if l = k then x else credit w l)"
  by (simp add: update_conv')

lemma weigh_totals:
  "wg_total (fst (weigh (plain_check P) i ts g u)) = wg_total g + (\<Sum>t\<leftarrow>filter P ts. nt_weight t)
   \<and> credit (wg_weights (fst (weigh (plain_check P) i ts g u))) k
     = credit (wg_weights g) k + (\<Sum>t\<leftarrow>filter (\<lambda>t. P t \<and> key_of t = k) ts. nt_weight t)"
proof (induction ts arbitrary: i g)
  case (Cons t ts)
  then show ?case by (cases "P t") (simp_all add: plain_check_apply [of P t u] Let_def)
qed simp

lemma weigh_best:
  assumes "distinct (map key_of ts)" and "wg_best (fst (weigh (plain_check P) i ts g u)) = Some (j, k, b)"
  shows "(\<forall>j' k' b'. wg_best g = Some (j', k', b') \<longrightarrow> b' \<le> b)
    \<and> (\<forall>t \<in> set ts. P t \<longrightarrow> credit (wg_weights g) (key_of t) + nt_weight t \<le> b)
    \<and> (wg_best g = Some (j, k, b) \<or> (i \<le> j \<and> j < i + length ts \<and> P (ts ! (j - i)) \<and> k = key_of (ts ! (j - i))
        \<and> b = credit (wg_weights g) k + nt_weight (ts ! (j - i))))"
  using assms
proof (induction ts arbitrary: i g)
  case Nil
  then show ?case by simp
next
  case (Cons t ts)
  show ?case
  proof (cases "P t")
    case False
    then have "wg_best (fst (weigh (plain_check P) (Suc i) ts g u)) = Some (j, k, b)"
      using Cons.prems(2) by (simp add: plain_check_apply [of P t u])
    from Cons.IH [OF _ this] Cons.prems(1) False show ?thesis
      by (auto simp: nth_Cons' Suc_diff_le)
  next
    case True
    let ?score = "credit (wg_weights g) (key_of t) + nt_weight t"
    let ?g = "\<lparr>wg_best = (case wg_best g of None \<Rightarrow> Some (i, key_of t, ?score)
        | Some (j, l, b) \<Rightarrow> if ?score > b then Some (i, key_of t, ?score) else Some (j, l, b)),
      wg_total = wg_total g + nt_weight t, wg_weights = AList.update (key_of t) ?score (wg_weights g)\<rparr>"
    have "wg_best (fst (weigh (plain_check P) (Suc i) ts ?g u)) = Some (j, k, b)"
      using Cons.prems(2) True by (simp add: plain_check_apply [of P t u] Let_def)
    from Cons.IH [OF _ this] Cons.prems(1)
    have ih: "\<forall>j' k' b'. wg_best ?g = Some (j', k', b') \<longrightarrow> b' \<le> b"
      "\<forall>x \<in> set ts. P x \<longrightarrow> credit (wg_weights ?g) (key_of x) + nt_weight x \<le> b"
      "wg_best ?g = Some (j, k, b) \<or> (Suc i \<le> j \<and> j < Suc i + length ts \<and> P (ts ! (j - Suc i))
        \<and> k = key_of (ts ! (j - Suc i)) \<and> b = credit (wg_weights ?g) k + nt_weight (ts ! (j - Suc i)))"
      by auto
    have other: "credit (wg_weights ?g) (key_of x) = credit (wg_weights g) (key_of x)" if "x \<in> set ts" for x
      using that Cons.prems(1) by (auto simp: image_iff)
    have best: "?score \<le> b" "\<forall>j' k' b'. wg_best g = Some (j', k', b') \<longrightarrow> b' \<le> b"
      using ih(1) by (auto split: option.splits prod.splits if_splits)
    moreover have "\<forall>x \<in> set ts. P x \<longrightarrow> credit (wg_weights g) (key_of x) + nt_weight x \<le> b"
      using ih(2) other by (metis (no_types, lifting))
    moreover have "wg_best g = Some (j, k, b) \<or> (i \<le> j \<and> j < i + length (t # ts) \<and> P ((t # ts) ! (j - i))
        \<and> k = key_of ((t # ts) ! (j - i)) \<and> b = credit (wg_weights g) k + nt_weight ((t # ts) ! (j - i)))"
    proof (rule disjE [OF ih(3)])
      assume "wg_best ?g = Some (j, k, b)"
      with True show ?thesis by (auto split: option.splits prod.splits if_splits)
    next
      assume later: "Suc i \<le> j \<and> j < Suc i + length ts \<and> P (ts ! (j - Suc i))
        \<and> k = key_of (ts ! (j - Suc i)) \<and> b = credit (wg_weights ?g) k + nt_weight (ts ! (j - Suc i))"
      then have "credit (wg_weights ?g) k = credit (wg_weights g) k"
        using other [of "ts ! (j - Suc i)"] by (simp add: less_diff_conv2)
      with later show ?thesis by (auto simp: nth_Cons' Suc_diff_le)
    qed
    ultimately show ?thesis using True by auto
  qed
qed

text \<open>The admissible indices and the sum of their weights.\<close>

definition in_play :: "(normalized_target \<Rightarrow> bool) \<Rightarrow> normalized_target list \<Rightarrow> nat set" where
  "in_play P ts = {i. i < length ts \<and> P (ts ! i)}"

definition total_weight :: "(normalized_target \<Rightarrow> bool) \<Rightarrow> normalized_target list \<Rightarrow> int" where
  "total_weight P ts = (\<Sum>t\<leftarrow>filter P ts. nt_weight t)"

lemma in_play_finite [simp]: "finite (in_play P ts)"
  by (simp add: in_play_def)

lemma total_weight_sum: "total_weight P ts = (\<Sum>i\<in>in_play P ts. nt_weight (ts ! i))"
proof -
  have "total_weight P ts = (\<Sum>t\<leftarrow>ts. if P t then nt_weight t else 0)"
    by (simp add: total_weight_def sum_list_map_filter')
  also have "\<dots> = (\<Sum>i<length ts. if P (ts ! i) then nt_weight (ts ! i) else 0)"
    by (simp add: sum_list_sum_nth atLeast0LessThan)
  also have "\<dots> = (\<Sum>i\<in>in_play P ts. nt_weight (ts ! i))"
    unfolding in_play_def by (rule sum.mono_neutral_cong_right) auto
  finally show ?thesis .
qed

lemma own_weight:
  assumes "distinct (map key_of ts)" and "t \<in> set ts" and "P t"
  shows "(\<Sum>x\<leftarrow>filter (\<lambda>x. P x \<and> key_of x = key_of t) ts. nt_weight x) = nt_weight t"
proof -
  have e: "(P x \<and> key_of x = key_of t) \<longleftrightarrow> x = t" if "x \<in> set ts" for x
    using assms that by (auto simp: distinct_map inj_on_def)
  have "filter (\<lambda>x. P x \<and> key_of x = key_of t) ts = filter (\<lambda>x. x = t) ts"
    using e by (intro filter_cong) simp_all
  also have "\<dots> = [t]"
    using assms by (induction ts) (auto simp: filter_empty_conv)
  finally show ?thesis by simp
qed

lemma smooth_pick:
  assumes "distinct (map key_of ts)" and "in_play P ts \<noteq> {}"
    and "smooth_weighted_index (plain_check P) ts w u = (r, w', u')"
  obtains i where "r = Some i" "i \<in> in_play P ts"
    "\<And>j. j \<in> in_play P ts \<Longrightarrow> credit w (key_of (ts ! j)) + nt_weight (ts ! j)
       \<le> credit w (key_of (ts ! i)) + nt_weight (ts ! i)"
    "\<And>j. j \<in> in_play P ts \<Longrightarrow> credit w' (key_of (ts ! j)) = credit w (key_of (ts ! j)) + nt_weight (ts ! j)
       - (if j = i then total_weight P ts else 0)"
proof -
  let ?g = "\<lparr>wg_best = None, wg_total = 0, wg_weights = w\<rparr>"
  obtain g s' where g: "weigh (plain_check P) 0 ts ?g u = (g, s')" by fastforce
  have "wg_best g \<noteq> None"
    using weigh_plain [where P = P and i = 0 and ts = ts and g = ?g and u = u] g assms(2)
    by (auto simp: in_play_def split: option.splits)
  then obtain i k b where "wg_best g = Some (i, k, b)" by (metis option.exhaust surj_pair)
  then have "wg_best (fst (weigh (plain_check P) 0 ts ?g u)) = Some (i, k, b)" using g by simp
  from weigh_best [OF assms(1) this]
  have i: "i < length ts" "P (ts ! i)" "k = key_of (ts ! i)" "b = credit w k + nt_weight (ts ! i)"
    and top: "\<And>t. t \<in> set ts \<Longrightarrow> P t \<Longrightarrow> credit w (key_of t) + nt_weight t \<le> b"
    by auto
  have tot: "wg_total g = total_weight P ts"
    using weigh_totals [of P 0 ts ?g u] g by (simp add: total_weight_def)
  have own: "credit (wg_weights g) (key_of t) = credit w (key_of t) + nt_weight t" if "t \<in> set ts" "P t" for t
    using weigh_totals [of P 0 ts ?g u] own_weight [where P = P, OF assms(1) that(1,2)] g by simp
  have inj: "key_of (ts ! j) = key_of (ts ! i) \<longleftrightarrow> j = i" if "j < length ts" for j
    using assms(1) i(1) that nth_eq_iff_index_eq [of "map key_of ts" j i] by simp
  have rw: "r = Some i" "w' = AList.update k (credit (wg_weights g) k - wg_total g) (wg_weights g)"
    using assms(3) g \<open>wg_best g = Some (i, k, b)\<close> by (simp_all add: smooth_weighted_index_def)
  show ?thesis
  proof
    show "r = Some i" by (fact rw(1))
    show "i \<in> in_play P ts" using i by (simp add: in_play_def)
    fix j assume j: "j \<in> in_play P ts"
    show "credit w (key_of (ts ! j)) + nt_weight (ts ! j) \<le> credit w (key_of (ts ! i)) + nt_weight (ts ! i)"
      using top j i by (auto simp: in_play_def)
    show "credit w' (key_of (ts ! j)) = credit w (key_of (ts ! j)) + nt_weight (ts ! j)
       - (if j = i then total_weight P ts else 0)"
      using own [of "ts ! j"] j inj [of j] tot i unfolding rw(2) by (auto simp: in_play_def)
  qed
qed


section \<open>Many picks\<close>

text \<open>Each turn brings its own check and its own combo state, which agree on the verdicts.\<close>

definition same_verdicts :: "(normalized_target \<Rightarrow> bool) \<Rightarrow> normalized_target list \<Rightarrow> check \<Rightarrow> combo_state \<Rightarrow> bool" where
  "same_verdicts P ts ok s \<longleftrightarrow> (\<exists>now. live_check ok now) \<and> (\<forall>t \<in> set ts. fst (ok t s) = P t)"

lemma weigh_plain_cong:
  "\<forall>t \<in> set ts. P t = Q t \<Longrightarrow> fst (weigh (plain_check P) i ts g u) = fst (weigh (plain_check Q) i ts g v)"
proof (induction ts arbitrary: i g)
  case (Cons t ts)
  then show ?case
    by (cases "Q t") (simp_all add: plain_check_apply [of P t u] plain_check_apply [of Q t v] Let_def)
qed simp

lemma smooth_same_verdicts:
  assumes "same_verdicts P ts ok s"
  obtains s' u' where "smooth_weighted_index ok ts w s
    = (fst (smooth_weighted_index (plain_check P) ts w s), fst (snd (smooth_weighted_index (plain_check P) ts w s)), s')"
proof -
  obtain now where l: "live_check ok now" and v: "\<forall>t \<in> set ts. fst (ok t s) = P t"
    using assms by (auto simp: same_verdicts_def)
  let ?g = "\<lparr>wg_best = None, wg_total = 0, wg_weights = w\<rparr>"
  have "fst (weigh ok 0 ts ?g s) = fst (weigh (plain_check P) 0 ts ?g s)"
    using live_check.weigh_frozen [OF l refl, of 0 ts ?g s]
      weigh_plain_cong [OF v, where i = 0 and g = ?g and u = s and v = s] by simp
  then show ?thesis
    by (intro that [of "snd (snd (smooth_weighted_index ok ts w s))"])
      (auto simp: smooth_weighted_index_def split: prod.splits option.splits)
qed

text \<open>
  The credits after \<open>n\<close> picks: a target that was picked \<open>c i\<close> times has \<open>n\<close> times its weight
  less \<open>c i\<close> times the total, and never owes a whole turn.
\<close>

definition books_balance ::
    "(normalized_target \<Rightarrow> bool) \<Rightarrow> normalized_target list \<Rightarrow> int \<Rightarrow> (nat \<Rightarrow> int) \<Rightarrow> (string, int) jsmap \<Rightarrow> bool" where
  "books_balance P ts n c w \<longleftrightarrow> (\<Sum>i\<in>in_play P ts. c i) = n
     \<and> (\<forall>i \<in> in_play P ts. credit w (key_of (ts ! i)) = n * nt_weight (ts ! i) - c i * total_weight P ts
         \<and> credit w (key_of (ts ! i)) > - total_weight P ts)"

lemma balance_step:
  assumes "books_balance P ts n c w" and "i \<in> in_play P ts" and "0 < total_weight P ts"
    and "\<forall>j \<in> in_play P ts. 0 \<le> nt_weight (ts ! j)"
    and best: "\<And>j. j \<in> in_play P ts \<Longrightarrow> credit w (key_of (ts ! j)) + nt_weight (ts ! j)
       \<le> credit w (key_of (ts ! i)) + nt_weight (ts ! i)"
    and next_credit: "\<And>j. j \<in> in_play P ts \<Longrightarrow> credit w' (key_of (ts ! j)) = credit w (key_of (ts ! j)) + nt_weight (ts ! j)
       - (if j = i then total_weight P ts else 0)"
  shows "books_balance P ts (n + 1) (c(i := c i + 1)) w'"
proof -
  let ?E = "in_play P ts" and ?W = "total_weight P ts"
  let ?score = "\<lambda>j. credit w (key_of (ts ! j)) + nt_weight (ts ! j)"
  have "(\<Sum>j\<in>?E. credit w (key_of (ts ! j))) = (\<Sum>j\<in>?E. n * nt_weight (ts ! j) - c j * ?W)"
    using assms(1) by (intro sum.cong) (simp_all add: books_balance_def)
  also have "\<dots> = n * ?W - n * ?W"
    using assms(1) unfolding total_weight_sum
    by (simp add: sum_subtractf sum_distrib_left [symmetric] sum_distrib_right [symmetric] books_balance_def)
  finally have "(\<Sum>j\<in>?E. ?score j) = ?W" by (simp add: sum.distrib total_weight_sum)
  moreover have "(\<Sum>j\<in>?E. ?score j) \<le> of_nat (card ?E) * ?score i"
    using best by (intro sum_bounded_above) simp
  ultimately have "0 < of_nat (card ?E) * ?score i" using assms(3) by simp
  then have pos: "0 < ?score i" by (simp add: zero_less_mult_iff)
  have "(\<Sum>j\<in>?E. (c(i := c i + 1)) j) = (\<Sum>j\<in>?E. c j + (if j = i then 1 else 0))"
    by (intro sum.cong) simp_all
  also have "\<dots> = n + 1" using assms(1,2) by (simp add: sum.distrib books_balance_def)
  finally have sum: "(\<Sum>j\<in>?E. (c(i := c i + 1)) j) = n + 1" .
  have "credit w' (key_of (ts ! j)) = (n + 1) * nt_weight (ts ! j) - (c(i := c i + 1)) j * ?W
      \<and> credit w' (key_of (ts ! j)) > - ?W" if j: "j \<in> ?E" for j
  proof -
    have "credit w (key_of (ts ! j)) = n * nt_weight (ts ! j) - c j * ?W" "credit w (key_of (ts ! j)) > - ?W"
      "0 \<le> nt_weight (ts ! j)"
      using assms(1,4) j unfolding books_balance_def by blast+
    with next_credit [OF j] pos show ?thesis
      by (cases "j = i") (simp_all add: distrib_right)
  qed
  with sum show ?thesis unfolding books_balance_def by blast
qed

lemma block_starts:
  assumes "distinct (map key_of ts)" and "\<forall>i \<in> in_play P ts. 0 < nt_weight (ts ! i)" and "in_play P ts \<noteq> {}"
    and sv: "same_verdicts P ts ok s" and bal: "books_balance P ts q b w"
  obtains i w' s' where "smooth_weighted_index ok ts w s = (Some i, w', s')" "i \<in> in_play P ts"
    "books_balance P ts (q + 1) (b(i := b i + 1)) w'"
proof -
  obtain s' where sm: "smooth_weighted_index ok ts w s
    = (fst (smooth_weighted_index (plain_check P) ts w s), fst (snd (smooth_weighted_index (plain_check P) ts w s)), s')"
    using smooth_same_verdicts [OF sv] .
  obtain r w1 u1 where pl: "smooth_weighted_index (plain_check P) ts w s = (r, w1, u1)" using prod_cases3 by blast
  obtain i where i: "r = Some i" "i \<in> in_play P ts"
    "\<And>j. j \<in> in_play P ts \<Longrightarrow> credit w (key_of (ts ! j)) + nt_weight (ts ! j)
       \<le> credit w (key_of (ts ! i)) + nt_weight (ts ! i)"
    "\<And>j. j \<in> in_play P ts \<Longrightarrow> credit w1 (key_of (ts ! j)) = credit w (key_of (ts ! j)) + nt_weight (ts ! j)
       - (if j = i then total_weight P ts else 0)"
    using smooth_pick [OF assms(1,3) pl] by blast
  have W: "0 < total_weight P ts" unfolding total_weight_sum using assms(2,3) by (intro sum_pos) simp_all
  have nn: "\<forall>j \<in> in_play P ts. 0 \<le> nt_weight (ts ! j)" using assms(2) by force
  show ?thesis
    by (rule that [OF _ i(2) balance_step [OF bal i(2) W nn i(3,4)]]) (simp add: sm pl i(1))
qed

lemma active_found:
  assumes "distinct (map key_of ts)" and "same_verdicts P ts ok s" and i: "i \<in> in_play P ts"
  shows "fst (find_active ok (key_of (ts ! i)) 0 ts s) = Some i"
proof -
  obtain now where l: "live_check ok now" and v: "\<forall>t \<in> set ts. fst (ok t s) = P t"
    using assms(2) by (auto simp: same_verdicts_def)
  have found: "fst (find_active (plain_check Q) (key_of (us ! j)) n us u) = Some (n + j)"
    if "distinct (map key_of us)" "j < length us" "Q (us ! j)" for Q us j n and u :: combo_state
    using that
  proof (induction us arbitrary: j n)
    case (Cons t us)
    then show ?case
      by (cases j) (auto simp: plain_check_apply [of Q t u] dest!: nth_mem [of _ us])
  qed simp
  have "fst (find_active ok (key_of (ts ! i)) 0 ts s)
      = fst (find_active (plain_check (\<lambda>t. fst (ok t s))) (key_of (ts ! i)) 0 ts s)"
    using live_check.find_active_frozen [OF l refl] by blast
  also have "\<dots> = Some i"
    using found [of ts i "\<lambda>t. fst (ok t s)" 0 s] assms(1) i v by (simp add: in_play_def)
  finally show ?thesis .
qed


section \<open>Requests served in turn\<close>

text \<open>
  A request: what the picker reads, and the combo state it finds. It picks, and when it has a
  target it reports success.
\<close>

record request_turn =
  tn_env :: route_env
  tn_options :: pick_options
  tn_random :: rat
  tn_now :: rat
  tn_state :: combo_state

fun serve_turns ::
    "string \<Rightarrow> combo_config \<Rightarrow> request_turn list \<Rightarrow> pick_state \<Rightarrow> pick_result list \<times> pick_state" where
  "serve_turns combo cfg [] ps = ([], ps)"
| "serve_turns combo cfg (tn # turns) ps =
     (case pick_combo_target (tn_env tn) combo (tn_options tn) (tn_random tn) (tn_now tn)
         (ps\<lparr>ps_combo := tn_state tn\<rparr>) of
        (r, ps1) \<Rightarrow> (case serve_turns combo cfg turns (case r of
            Picked p \<Rightarrow> note_combo_success combo cfg (pk_target p) (pk_generation p) ps1 | _ \<Rightarrow> ps1) of
          (rs, ps2) \<Rightarrow> (r # rs, ps2)))"

definition picked_index :: "pick_result \<Rightarrow> nat option" where
  "picked_index r = (case r of Picked p \<Rightarrow> Some (pk_index p) | _ \<Rightarrow> None)"

definition selection_of :: "string \<Rightarrow> pick_state \<Rightarrow> selection" where
  "selection_of combo ps = nullish (map_of (ps_selection ps) combo) fresh_selection"

definition steady_turn ::
    "(normalized_target \<Rightarrow> bool) \<Rightarrow> string \<Rightarrow> combo_config \<Rightarrow> nat \<Rightarrow> request_turn \<Rightarrow> bool" where
  "steady_turn P combo cfg generation tn \<longleftrightarrow> re_combo (tn_env tn) combo = Some cfg
     \<and> live_options (tn_options tn) (tn_now tn) \<and> \<not> po_preview (tn_options tn)
     \<and> generation \<le> re_generation (tn_env tn)
     \<and> (\<forall>t \<in> set (cb_targets cfg). admissible (tn_env tn) (tn_options tn) (tn_now tn) (tn_state tn) t = P t)"

context live_options
begin

lemma eligible_live: "live_check (pick_eligible env po combo now) now"
  by (rule eligible.live_check_axioms)

end

lemma steady_same_verdicts:
  assumes "steady_turn P combo cfg g tn"
  shows "same_verdicts P (cb_targets cfg) (pick_eligible (tn_env tn) (tn_options tn) combo (tn_now tn)) (tn_state tn)"
proof -
  have l: "live_options (tn_options tn) (tn_now tn)" using assms by (simp add: steady_turn_def)
  have "live_check (pick_eligible (tn_env tn) (tn_options tn) combo (tn_now tn)) (tn_now tn)"
    using l by (rule live_options.eligible_live)
  then show ?thesis
    using assms by (auto simp: same_verdicts_def steady_turn_def live_options.eligible_seen [OF l] seen_rank_admissible)
qed


lemma serve_one:
  assumes "steady_turn P combo cfg (ps_generation ps) tn" and "cb_strategy cfg = RoundRobin"
    and "round_robin_index (pick_eligible (tn_env tn) (tn_options tn) combo (tn_now tn)) (cb_targets cfg)
      (selection_of combo ps) (tn_state tn) = (Some i, st1, s')"
    and "sel_active st1 = Some (key_of (cb_targets cfg ! i))"
    and "pick_combo_target (tn_env tn) combo (tn_options tn) (tn_random tn) (tn_now tn)
      (ps\<lparr>ps_combo := tn_state tn\<rparr>) = (r, ps1)"
    and "ps2 = (case r of Picked p \<Rightarrow> note_combo_success combo cfg (pk_target p) (pk_generation p) ps1 | _ \<Rightarrow> ps1)"
  shows "picked_index r = Some i \<and> selection_of combo ps2 = count_success (cb_sticky_limit cfg) st1
    \<and> ps_generation ps2 = ps_generation ps"
proof -
  have c: "re_combo (tn_env tn) combo = Some cfg" "\<not> po_preview (tn_options tn)"
    "ps_generation ps \<le> re_generation (tn_env tn)"
    using assms(1) by (simp_all add: steady_turn_def)
  show ?thesis
    using assms(2-6) c
    by (auto simp: pick_combo_target_def choose_index_def selection_of_def Let_def
        update_conv' picked_index_def note_combo_success_def may_commit_combo_state_def
        split: prod.splits)
qed

text \<open>
  The books while blocks of \<open>k\<close> requests are served. Between blocks the picks are \<open>k\<close> times the
  turns of the rotation. Inside one, the target \<open>j\<close> of the block has served \<open>r\<close> of it, and the books
  are kept of the turns before the block and of those with it.
\<close>

definition blocks_balance ::
    "(normalized_target \<Rightarrow> bool) \<Rightarrow> normalized_target list \<Rightarrow> int \<Rightarrow> int \<Rightarrow> (nat \<Rightarrow> int) \<Rightarrow> selection \<Rightarrow> bool" where
  "blocks_balance P ts k n c st \<longleftrightarrow> (\<exists>q b w. books_balance P ts q b w
     \<and> (case sel_active st of
          None \<Rightarrow> sel_weights st = w \<and> n = k * q \<and> (\<forall>i \<in> in_play P ts. c i = k * b i)
        | Some a \<Rightarrow> \<exists>j \<in> in_play P ts. a = key_of (ts ! j)
            \<and> books_balance P ts (q + 1) (b(j := b j + 1)) (sel_weights st)
            \<and> 0 < sel_successes st \<and> int (sel_successes st) < k \<and> n = k * q + int (sel_successes st)
            \<and> (\<forall>i \<in> in_play P ts. c i = k * b i + (if i = j then int (sel_successes st) else 0))))"

definition block_size :: "combo_config \<Rightarrow> int" where
  "block_size cfg = max 1 (int (cb_sticky_limit cfg))"

text \<open>The first request of a block, and the others of it.\<close>

lemma block_opens:
  assumes "books_balance P ts q b w" and "books_balance P ts (q + 1) (b(i := b i + 1)) (sel_weights st1)"
    and "i \<in> in_play P ts" and "sel_active st1 = Some (key_of (ts ! i))" and "sel_successes st1 = 0"
    and "\<forall>j \<in> in_play P ts. c j = block_size cfg * b j"
  shows "blocks_balance P ts (block_size cfg) (block_size cfg * q + 1) (c(i := c i + 1))
    (count_success (cb_sticky_limit cfg) st1)"
proof (cases "cb_sticky_limit cfg \<le> 1")
  case True
  then have "block_size cfg = 1" by (simp add: block_size_def)
  then show ?thesis using assms True
    by (auto simp: blocks_balance_def count_success_def intro!: exI [of _ "q + 1"] exI [of _ "b(i := b i + 1)"])
next
  case False
  then have "block_size cfg = int (cb_sticky_limit cfg)" by (simp add: block_size_def)
  then show ?thesis using assms False
    by (auto simp: blocks_balance_def count_success_def intro!: exI [of _ q] exI [of _ b] exI [of _ w] bexI [of _ i])
qed

lemma block_goes_on:
  assumes "books_balance P ts q b w" and "books_balance P ts (q + 1) (b(j := b j + 1)) (sel_weights st)"
    and "j \<in> in_play P ts" and "sel_active st = Some (key_of (ts ! j))"
    and "0 < sel_successes st" and "int (sel_successes st) < block_size cfg"
    and "\<forall>i \<in> in_play P ts. c i = block_size cfg * b i + (if i = j then int (sel_successes st) else 0)"
  shows "blocks_balance P ts (block_size cfg) (block_size cfg * q + int (sel_successes st) + 1) (c(j := c j + 1))
    (count_success (cb_sticky_limit cfg) st)"
proof -
  have k: "block_size cfg = int (cb_sticky_limit cfg)" using assms(5,6) by (auto simp: block_size_def max_def split: if_splits)
  show ?thesis
  proof (cases "cb_sticky_limit cfg \<le> sel_successes st + 1")
    case True
    then have "int (sel_successes st) + 1 = block_size cfg" using assms(6) k by linarith
    then show ?thesis using assms True
      by (auto simp: blocks_balance_def count_success_def algebra_simps intro!: exI [of _ "q + 1"] exI [of _ "b(j := b j + 1)"])
  next
    case False
    then have "int (sel_successes st) + 1 < block_size cfg" using k by linarith
    then show ?thesis using assms False
      by (auto simp: blocks_balance_def count_success_def intro!: exI [of _ q] exI [of _ b] exI [of _ w] bexI [of _ j])
  qed
qed

lemma serve_balances:
  assumes "distinct (map key_of (cb_targets cfg))" and "cb_strategy cfg = RoundRobin"
    and "\<forall>i \<in> in_play P (cb_targets cfg). 0 < nt_weight (cb_targets cfg ! i)" and "in_play P (cb_targets cfg) \<noteq> {}"
    and "\<forall>tn \<in> set turns. steady_turn P combo cfg (ps_generation ps) tn"
    and "blocks_balance P (cb_targets cfg) (block_size cfg) n c (selection_of combo ps)"
    and "serve_turns combo cfg turns ps = (rs, ps')"
  shows "length rs = length turns \<and> set (map picked_index rs) \<subseteq> Some ` in_play P (cb_targets cfg)
    \<and> blocks_balance P (cb_targets cfg) (block_size cfg) (n + int (length turns))
        (\<lambda>i. c i + int (count_list (map picked_index rs) (Some i))) (selection_of combo ps')"
  using assms(5-7)
proof (induction turns arbitrary: n c ps rs)
  case Nil
  then show ?case by simp
next
  case (Cons tn turns)
  let ?ts = "cb_targets cfg" and ?k = "block_size cfg" and ?st = "selection_of combo ps"
  let ?ok = "pick_eligible (tn_env tn) (tn_options tn) combo (tn_now tn)"
  have st: "steady_turn P combo cfg (ps_generation ps) tn" using Cons.prems(1) by simp
  note sv = steady_same_verdicts [OF st]
  obtain r ps1 where pk: "pick_combo_target (tn_env tn) combo (tn_options tn) (tn_random tn) (tn_now tn)
      (ps\<lparr>ps_combo := tn_state tn\<rparr>) = (r, ps1)" by fastforce
  define ps2 where "ps2 = (case r of Picked p \<Rightarrow> note_combo_success combo cfg (pk_target p) (pk_generation p) ps1 | _ \<Rightarrow> ps1)"
  obtain rs2 where more: "serve_turns combo cfg turns ps2 = (rs2, ps')" and rs: "rs = r # rs2"
    using Cons.prems(3) pk by (auto simp: ps2_def split: prod.splits)
  have "\<exists>i \<in> in_play P ?ts. picked_index r = Some i \<and> ps_generation ps2 = ps_generation ps
    \<and> blocks_balance P ?ts ?k (n + 1) (c(i := c i + 1)) (selection_of combo ps2)"
  proof (cases "sel_active ?st")
    case None
    then obtain q b where qb: "books_balance P ?ts q b (sel_weights ?st)" "n = ?k * q" "\<forall>i \<in> in_play P ?ts. c i = ?k * b i"
      using Cons.prems(2) by (auto simp: blocks_balance_def)
    obtain i w' s' where i: "smooth_weighted_index ?ok ?ts (sel_weights ?st) (tn_state tn) = (Some i, w', s')"
      "i \<in> in_play P ?ts" "books_balance P ?ts (q + 1) (b(i := b i + 1)) w'"
      using block_starts [OF assms(1,3,4) sv qb(1)] .
    let ?st1 = "?st\<lparr>sel_weights := w', sel_active := Some (key_of (?ts ! i)), sel_successes := 0\<rparr>"
    have "round_robin_index ?ok ?ts ?st (tn_state tn) = (Some i, ?st1, s')"
      using None i(1) by (simp add: round_robin_index_def)
    from serve_one [OF st assms(2) this _ pk ps2_def] block_opens [OF qb(1) _ i(2), of ?st1 c cfg] i(2,3) qb(2,3)
    show ?thesis by auto
  next
    case (Some a)
    then obtain q b w j where qb: "books_balance P ?ts q b w" "books_balance P ?ts (q + 1) (b(j := b j + 1)) (sel_weights ?st)"
      "j \<in> in_play P ?ts" "a = key_of (?ts ! j)" "0 < sel_successes ?st" "int (sel_successes ?st) < ?k"
      "n = ?k * q + int (sel_successes ?st)"
      "\<forall>i \<in> in_play P ?ts. c i = ?k * b i + (if i = j then int (sel_successes ?st) else 0)"
      using Cons.prems(2) by (auto simp: blocks_balance_def)
    have "fst (find_active ?ok a 0 ?ts (tn_state tn)) = Some j"
      using active_found [OF assms(1) sv qb(3)] qb(4) by simp
    then obtain s' where "round_robin_index ?ok ?ts ?st (tn_state tn) = (Some j, ?st, s')"
      using Some by (auto simp: round_robin_index_def prod_eq_iff split: prod.splits)
    from serve_one [OF st assms(2) this _ pk ps2_def] block_goes_on [OF qb(1-3) _ qb(5,6,8)] Some qb(3,4,7)
    show ?thesis by auto
  qed
  then obtain i where i: "i \<in> in_play P ?ts" "picked_index r = Some i" "ps_generation ps2 = ps_generation ps"
    "blocks_balance P ?ts ?k (n + 1) (c(i := c i + 1)) (selection_of combo ps2)" by blast
  have "\<forall>tn \<in> set turns. steady_turn P combo cfg (ps_generation ps2) tn" using i(3) Cons.prems(1) by simp
  from Cons.IH [OF this i(4) more]
  have ih: "length rs2 = length turns" "set (map picked_index rs2) \<subseteq> Some ` in_play P ?ts"
    "blocks_balance P ?ts ?k (n + 1 + int (length turns))
      (\<lambda>j. (c(i := c i + 1)) j + int (count_list (map picked_index rs2) (Some j))) (selection_of combo ps')"
    by auto
  have f: "(\<lambda>j. (c(i := c i + 1)) j + int (count_list (map picked_index rs2) (Some j)))
      = (\<lambda>j. c j + int (count_list (map picked_index rs) (Some j)))"
    by (simp add: rs i(2) fun_eq_iff)
  show ?case using ih i(1,2) unfolding f by (simp add: rs algebra_simps)
qed

lemma balance_fair:
  assumes "books_balance P ts n c w" and "0 < total_weight P ts" and "i \<in> in_play P ts"
  shows "c i * total_weight P ts < n * nt_weight (ts ! i) + total_weight P ts"
    and "n = m * total_weight P ts \<Longrightarrow> c i = m * nt_weight (ts ! i)"
proof -
  let ?W = "total_weight P ts"
  have b: "c j * ?W < n * nt_weight (ts ! j) + ?W" if "j \<in> in_play P ts" for j
  proof -
    have "credit w (key_of (ts ! j)) = n * nt_weight (ts ! j) - c j * ?W" "credit w (key_of (ts ! j)) > - ?W"
      using assms(1) that unfolding books_balance_def by blast+
    then show ?thesis by linarith
  qed
  show "c i * ?W < n * nt_weight (ts ! i) + ?W" using b assms(3) .
  assume n: "n = m * ?W"
  have le: "c j \<le> m * nt_weight (ts ! j)" if "j \<in> in_play P ts" for j
  proof -
    have "c j * ?W < (m * nt_weight (ts ! j) + 1) * ?W" using b [OF that] n by (simp add: algebra_simps)
    then show ?thesis using assms(2) by (simp add: mult_less_cancel_right)
  qed
  have "(\<Sum>j\<in>in_play P ts. c j) = (\<Sum>j\<in>in_play P ts. m * nt_weight (ts ! j))"
    using assms(1) n by (simp add: books_balance_def total_weight_sum sum_distrib_left)
  from sum_mono_inv [OF this le assms(3) in_play_finite] show "c i = m * nt_weight (ts ! i)" by simp
qed

lemma blocks_fair:
  assumes "blocks_balance P ts k n c st" and "0 < total_weight P ts" and "0 < k" and i: "i \<in> in_play P ts"
    and pos: "\<forall>j \<in> in_play P ts. 0 < nt_weight (ts ! j)"
  shows "c i * total_weight P ts < n * nt_weight (ts ! i) + k * total_weight P ts"
    and "n = m * (k * total_weight P ts) \<Longrightarrow> c i = m * (k * nt_weight (ts ! i))"
proof -
  let ?W = "total_weight P ts" and ?w = "nt_weight (ts ! i)"
  obtain q b w where qb: "books_balance P ts q b w"
    and kind: "case sel_active st of
          None \<Rightarrow> sel_weights st = w \<and> n = k * q \<and> (\<forall>i \<in> in_play P ts. c i = k * b i)
        | Some a \<Rightarrow> \<exists>j \<in> in_play P ts. a = key_of (ts ! j)
            \<and> books_balance P ts (q + 1) (b(j := b j + 1)) (sel_weights st)
            \<and> 0 < sel_successes st \<and> int (sel_successes st) < k \<and> n = k * q + int (sel_successes st)
            \<and> (\<forall>i \<in> in_play P ts. c i = k * b i + (if i = j then int (sel_successes st) else 0))"
    using assms(1) unfolding blocks_balance_def by blast
  have le: "?w \<le> ?W" unfolding total_weight_sum
    using i pos by (intro member_le_sum) (auto simp: less_imp_le)
  have b: "b i * ?W < q * ?w + ?W" by (rule balance_fair(1) [OF qb assms(2) i])
  have kb: "k * b i * ?W < k * q * ?w + k * ?W"
    using mult_strict_left_mono [OF b assms(3)] by (simp add: algebra_simps)
  show "c i * ?W < n * ?w + k * ?W"
  proof (cases "sel_active st")
    case None
    with kind kb i show ?thesis by simp
  next
    case (Some a)
    let ?r = "int (sel_successes st)"
    from kind Some obtain j where j: "books_balance P ts (q + 1) (b(j := b j + 1)) (sel_weights st)"
      "?r < k" "n = k * q + ?r" "c i = k * b i + (if i = j then ?r else 0)" using i by auto
    have rw: "0 \<le> ?r * ?w" using pos i by (simp add: less_imp_le)
    show ?thesis
    proof (cases "i = j")
      case False
      have "c i * ?W = k * b i * ?W" "n * ?w = k * q * ?w + ?r * ?w" using j(3,4) False by (simp_all add: algebra_simps)
      with kb rw show ?thesis by linarith
    next
      case True
      have "b i * ?W < (q + 1) * ?w" using balance_fair(1) [OF j(1) assms(2) i] True by (simp add: algebra_simps)
      from mult_strict_left_mono [OF this assms(3)] have "k * b i * ?W < k * q * ?w + k * ?w" by (simp add: algebra_simps)
      moreover have "(k - ?r) * ?w \<le> (k - ?r) * ?W" using j(2) le by (intro mult_left_mono) auto
      moreover have "c i * ?W = k * b i * ?W + ?r * ?W" "n * ?w = k * q * ?w + ?r * ?w"
        using j(3,4) True by (simp_all add: algebra_simps)
      ultimately show ?thesis by (simp add: left_diff_distrib)
    qed
  qed
  assume n: "n = m * (k * ?W)"
  show "c i = m * (k * ?w)"
  proof (cases "sel_active st")
    case None
    then have "k * q = k * (m * ?W)" using kind n by (simp only: option.case mult.left_commute)
    then have "q = m * ?W" using assms(3) by (simp only: mult_cancel_left) simp
    with balance_fair(2) [OF qb assms(2) i] None kind i show ?thesis by simp
  next
    case (Some a)
    then have "0 < int (sel_successes st)" "int (sel_successes st) < k" "n = k * q + int (sel_successes st)" using kind by auto
    then have "n mod k = int (sel_successes st)" by simp
    moreover have "n mod k = 0" using n by simp
    ultimately show ?thesis using \<open>0 < int (sel_successes st)\<close> by simp
  qed
qed

text \<open>
  C21. The share of every target. Requests are served one after another, each that finds a target
  followed by its success, and the verdicts on the targets stay the same. A block is as many
  requests as the sticky limit says, one without it. From a combo whose selection is not stored
  yet, no target is ever a whole block ahead of its weighted share, and over a multiple of
  the total weight in blocks each target has served exactly its share.
\<close>

theorem round_robin_fair:
  fixes m :: int
  assumes "distinct (map key_of (cb_targets cfg))" and "cb_strategy cfg = RoundRobin"
    and "list_ex P (cb_targets cfg)" and "\<forall>t \<in> set (cb_targets cfg). P t \<longrightarrow> 0 < nt_weight t"
    and "map_of (ps_selection ps) combo = None"
    and "\<forall>tn \<in> set turns. steady_turn P combo cfg (ps_generation ps) tn"
    and "serve_turns combo cfg turns ps = (rs, ps')"
    and "i < length (cb_targets cfg)"
  shows "if P (cb_targets cfg ! i)
    then int (count_list (map picked_index rs) (Some i)) * total_weight P (cb_targets cfg)
        < int (length turns) * nt_weight (cb_targets cfg ! i) + block_size cfg * total_weight P (cb_targets cfg)
      \<and> (if int (length turns) = m * (block_size cfg * total_weight P (cb_targets cfg))
         then int (count_list (map picked_index rs) (Some i)) = m * (block_size cfg * nt_weight (cb_targets cfg ! i)) else True)
    else count_list (map picked_index rs) (Some i) = 0"
proof -
  let ?ts = "cb_targets cfg"
  have f: "selection_of combo ps = fresh_selection" using assms(5) by (simp add: selection_of_def)
  have ne: "in_play P ?ts \<noteq> {}" using assms(3) by (auto simp: in_play_def list_ex_length)
  have pos: "\<forall>i \<in> in_play P ?ts. 0 < nt_weight (?ts ! i)" using assms(4) by (auto simp: in_play_def)
  have W: "0 < total_weight P ?ts" unfolding total_weight_sum using pos ne by (intro sum_pos) simp_all
  have k: "0 < block_size cfg" by (simp add: block_size_def)
  have "books_balance P ?ts 0 (\<lambda>i. 0) []" using W by (simp add: books_balance_def)
  then have z: "blocks_balance P ?ts (block_size cfg) 0 (\<lambda>i. 0) (selection_of combo ps)"
    by (auto simp: blocks_balance_def f fresh_selection_def intro!: exI [of _ "0::int"] exI [of _ "\<lambda>i. 0::int"])
  note served = serve_balances [OF assms(1,2) pos ne assms(6) z assms(7)]
  then have b: "blocks_balance P ?ts (block_size cfg) (int (length turns))
      (\<lambda>i. int (count_list (map picked_index rs) (Some i))) (selection_of combo ps')"
    by simp
  show ?thesis
  proof (cases "P (?ts ! i)")
    case True
    then have "i \<in> in_play P ?ts" using assms(8) by (simp add: in_play_def)
    with blocks_fair [OF b W k _ pos] True show ?thesis by simp
  next
    case False
    then have "Some i \<notin> set (map picked_index rs)" using served by (auto simp: in_play_def)
    then show ?thesis using False by (simp add: count_list_0_iff)
  qed
qed


definition demo_turn :: request_turn where
  "demo_turn = \<lparr>tn_env = demo_env RoundRobin, tn_options = plain_options demo_request, tn_random = 0,
     tn_now = 0, tn_state = fresh_combo_state\<rparr>"

lemma demo_steady: "steady_turn (\<lambda>t. True) ''ladder'' (demo_config RoundRobin) 0 demo_turn"
proof -
  have "live_options (tn_options demo_turn) (tn_now demo_turn)"
    by (simp add: demo_turn_def plain_options_live.live_options_axioms)
  then show ?thesis
    by (simp add: steady_turn_def demo_turn_def demo_simps admissible_def plain_check_def
        provider_hold_kind_def fresh_combo_state_def)
qed

text \<open>Four requests over the weights two, one and one: the first target serves two of them.\<close>

theorem round_robin_fair_witness:
  "count_list (map picked_index (fst (serve_turns ''ladder'' (demo_config RoundRobin) (replicate 4 demo_turn)
     \<lparr>ps_combo = fresh_combo_state, ps_selection = [], ps_generation = 0, ps_live = []\<rparr>))) (Some 0) = 2"
proof -
  let ?ps = "\<lparr>ps_combo = fresh_combo_state, ps_selection = [], ps_generation = 0, ps_live = []\<rparr>"
  obtain rs ps' where sv: "serve_turns ''ladder'' (demo_config RoundRobin) (replicate 4 demo_turn) ?ps = (rs, ps')"
    by fastforce
  have d: "distinct (map key_of (cb_targets (demo_config RoundRobin)))" "list_ex (\<lambda>t. True) (cb_targets (demo_config RoundRobin))"
    "\<forall>t \<in> set (cb_targets (demo_config RoundRobin)). True \<longrightarrow> 0 < nt_weight t"
    "total_weight (\<lambda>t. True) (cb_targets (demo_config RoundRobin)) = 4"
    "nt_weight (cb_targets (demo_config RoundRobin) ! 0) = 2" "0 < length (cb_targets (demo_config RoundRobin))"
    "cb_strategy (demo_config RoundRobin) = RoundRobin" "block_size (demo_config RoundRobin) = 1"
    by (simp_all add: demo_config_def block_size_def key_of_def target_key_def bare_def combo_target.truncate_def total_weight_def)
  have "\<forall>tn \<in> set (replicate 4 demo_turn). steady_turn (\<lambda>t. True) ''ladder'' (demo_config RoundRobin) (ps_generation ?ps) tn"
    using demo_steady by simp
  from round_robin_fair [OF d(1,7,2,3) _ this sv d(6), of 1] d(4,5,8) sv show ?thesis by simp
qed

end
