(* ===== verification/Combo_Waiting.thy ===== *)
theory Combo_Waiting
  imports Combo_Pick_Properties
begin

text \<open>
  Waiting for a cooldown: over every run of \<open>pickComboTargetWithWait\<close> the sleeps stay inside the
  budget of the selection, and the emergency target is answered only when no other target can be
  waited for.
\<close>

section \<open>The earliest cooldown\<close>

definition running_until :: "string \<Rightarrow> rat \<Rightarrow> combo_state \<Rightarrow> combo_target \<Rightarrow> rat option" where
  "running_until combo now s t =
     map_option cooldown_until (fst (live_part now s) (cooldown_map_key combo t))"

lemma running_until_eq:
  "running_until combo now s t = (case map_of (cs_cooldowns s) (cooldown_map_key combo t) of
     None \<Rightarrow> None | Some e \<Rightarrow> if cooldown_until e \<le> now then None else Some (cooldown_until e))"
  by (auto simp: running_until_def live_part_def split: option.split)

lemma running_until_later: "running_until combo now s t = Some x \<Longrightarrow> now < x"
  by (auto simp: running_until_eq split: option.splits if_splits)

lemma running_until_cooldown:
  "fst (is_combo_target_in_cooldown combo t now s) = (running_until combo now s t \<noteq> None)"
  by (auto simp: running_until_def cooldown_observed)

lemma earliest_from_running:
  "case earliest_from best combo ts now s of
     None \<Rightarrow> best = None \<and> (\<forall>t \<in> set ts. running_until combo now s t = None)
   | Some (x, t) \<Rightarrow> (best = Some (x, t) \<or> t \<in> set ts \<and> running_until combo now s t = Some x)
       \<and> (\<forall>b u. best = Some (b, u) \<longrightarrow> x \<le> b)
       \<and> (\<forall>u \<in> set ts. \<forall>b. running_until combo now s u = Some b \<longrightarrow> x \<le> b)"
proof (induction ts arbitrary: best)
  case Nil
  then show ?case by (auto split: option.split)
next
  case (Cons t ts)
  let ?best = "case running_until combo now s t of None \<Rightarrow> best
    | Some y \<Rightarrow> (case best of None \<Rightarrow> Some (y, t) | Some (x, _) \<Rightarrow> if y < x then Some (y, t) else best)"
  have e: "earliest_from best combo (t # ts) now s = earliest_from ?best combo ts now s"
    by (simp add: running_until_eq split: option.split)
  show ?case
  proof (cases "running_until combo now s t")
    case None
    with Cons.IH [of best] show ?thesis unfolding e by (auto split: option.splits)
  next
    case (Some y)
    show ?thesis
    proof (cases "best = None \<or> (\<exists>x u. best = Some (x, u) \<and> y < x)")
      case True
      then have "?best = Some (y, t)" using Some by (auto split: option.split)
      with Cons.IH [of "Some (y, t)"] Some True show ?thesis unfolding e
        by (auto split: option.splits)
    next
      case False
      then have "?best = best" using Some by (auto split: option.split)
      with Cons.IH [of best] Some False show ?thesis unfolding e
        by (force split: option.splits)
    qed
  qed
qed

lemma earliest_none:
  "earliest_combo_cooldown combo ts now s = None \<Longrightarrow> t \<in> set ts \<Longrightarrow> running_until combo now s t = None"
  using earliest_from_running [where best = None and combo = combo and ts = ts and now = now and s = s] by (simp add: earliest_combo_cooldown_def)

lemma earliest_some:
  assumes "earliest_combo_cooldown combo ts now s = Some (x, t)"
  shows "now < x" "u \<in> set ts \<Longrightarrow> running_until combo now s u = Some b \<Longrightarrow> x \<le> b"
  using earliest_from_running [where best = None and combo = combo and ts = ts and now = now and s = s] assms running_until_later
  by (auto simp: earliest_combo_cooldown_def)


section \<open>The sleeps of a selection\<close>

text \<open>
  A run of one selection: what it sleeps, and where it stands. Between the stages the environment
  and the state may change in any way, and the abort signal may be raised.
\<close>

inductive selection_run :: "string \<Rightarrow> wait_request \<Rightarrow> rat list \<Rightarrow> waiting \<Rightarrow> bool" for combo rq where
  begins: "wait_start env combo rq random aborted ps = (w, ps') \<Longrightarrow> selection_run combo rq [] w"
| woken_normal: "selection_run combo rq slept (AwaitNormal d)
    \<Longrightarrow> wait_after_normal env combo rq random aborted d ps = (w, ps')
    \<Longrightarrow> selection_run combo rq (slept @ [d]) w"
| woken_any: "selection_run combo rq slept (AwaitAny spent d)
    \<Longrightarrow> wait_after_any env combo rq random aborted spent d ps = (w, ps')
    \<Longrightarrow> selection_run combo rq (slept @ [d]) w"

inductive_cases begun: "selection_run combo rq slept w"

lemma wait_any_stops:
  assumes "wait_any env combo rq random aborted spent ps = (w, ps')"
  shows "case w of Answer r \<Rightarrow> True | AwaitNormal d \<Rightarrow> False
    | AwaitAny sp d \<Rightarrow> sp = spent \<and> 0 < d \<and> spent + d \<le> wq_budget rq"
  using assms earliest_some(1)
  by (fastforce simp: wait_any_def Let_def split: prod.splits pick_result.splits option.splits if_splits)

lemma wait_start_stops:
  assumes "wait_start env combo rq random aborted ps = (w, ps')"
  shows "case w of Answer r \<Rightarrow> True | AwaitNormal d \<Rightarrow> 0 < d \<and> d \<le> wq_budget rq
    | AwaitAny sp d \<Rightarrow> sp = 0 \<and> 0 < d \<and> d \<le> wq_budget rq"
proof -
  consider (any) ps1 where "wait_any env combo rq random aborted 0 ps1 = (w, ps')"
    | (answer) r where "w = Answer r"
    | (normal) ts s x t where "earliest_combo_cooldown combo ts (wq_now rq) s = Some (x, t)"
        "w = AwaitNormal (x - wq_now rq)" "x - wq_now rq \<le> wq_budget rq"
    using assms by (auto simp: wait_start_def Let_def split: prod.splits pick_result.splits option.splits if_splits)
  then show ?thesis
  proof cases
    case any
    from wait_any_stops [OF this] show ?thesis by (cases w) simp_all
  next
    case normal
    with earliest_some(1) [OF normal(1)] show ?thesis by simp
  qed simp
qed

lemma wait_after_normal_stops:
  assumes "wait_after_normal env combo rq random aborted d ps = (w, ps')"
  shows "case w of Answer r \<Rightarrow> True | AwaitNormal e \<Rightarrow> False
    | AwaitAny sp e \<Rightarrow> sp = d \<and> 0 < e \<and> d + e \<le> wq_budget rq"
proof -
  consider (any) ps1 where "wait_any env combo rq random aborted d ps1 = (w, ps')"
    | (answer) r where "w = Answer r"
    using assms by (auto simp: wait_after_normal_def Let_def split: prod.splits pick_result.splits if_splits)
  then show ?thesis
  proof cases
    case any
    from wait_any_stops [OF this] show ?thesis .
  qed simp
qed

text \<open>C22. Every run of a selection that may wait ends after at most two sleeps, and the sum of its sleeps
stays within the waiting budget, whatever other requests change while it sleeps.\<close>

theorem sleeps_within_budget:
  assumes "selection_run combo rq slept w"
  shows "length slept \<le> 2 \<and> list_all (\<lambda>d. 0 < d) slept
    \<and> (slept = [] \<or> sum_list slept \<le> wq_budget rq)
    \<and> (case w of
        Answer r \<Rightarrow> True
      | AwaitNormal d \<Rightarrow> slept = [] \<and> 0 < d \<and> d \<le> wq_budget rq
      | AwaitAny spent d \<Rightarrow> length slept \<le> 1 \<and> spent = sum_list slept \<and> 0 < d
          \<and> sum_list slept + d \<le> wq_budget rq)"
  using assms
proof (induction rule: selection_run.induct)
  case (begins env random aborted ps w ps')
  from wait_start_stops [OF this] show ?case by (cases w) simp_all
next
  case (woken_normal slept d env random aborted ps w ps')
  from wait_after_normal_stops [OF woken_normal(2)] woken_normal(3) show ?case
    by (cases w) simp_all
next
  case (woken_any slept spent d env random aborted ps w ps')
  then have "\<exists>r. w = Answer r"
    by (auto simp: wait_after_any_def split: prod.splits if_splits)
  with woken_any(3) show ?case by auto
qed


text \<open>The two ordinary targets of the demonstration combo cool until two instants.\<close>

definition cooling_state :: "rat \<Rightarrow> rat \<Rightarrow> pick_state" where
  "cooling_state x y = \<lparr>ps_combo = fresh_combo_state\<lparr>cs_cooldowns :=
       [(cooldown_map_key ''ladder'' (bare (demo_target ''a'' 2 False)),
         \<lparr>cooldown_until = x, tc_status = None, breaker_tripped = False\<rparr>),
        (cooldown_map_key ''ladder'' (bare (demo_target ''b'' 1 False)),
         \<lparr>cooldown_until = y, tc_status = None, breaker_tripped = False\<rparr>)]\<rparr>,
     ps_selection = [], ps_generation = 0, ps_live = []\<rparr>"

lemma demo_waits: "fst (wait_start (demo_env Failover) ''ladder'' demo_request 0 False (cooling_state 2000 9000)) = AwaitNormal 2000"
  by code_simp

theorem sleeps_within_budget_witness:
  "fst (wait_start (demo_env Failover) ''ladder'' demo_request 0 False (cooling_state 2000 9000)) = AwaitNormal 2000
   \<and> 2000 \<le> wq_budget demo_request"
proof -
  have "selection_run ''ladder'' demo_request [] (AwaitNormal 2000)"
    using demo_waits by (metis prod.collapse selection_run.begins)
  from sleeps_within_budget [OF this] demo_waits show ?thesis by simp
qed

section \<open>The emergency target comes last\<close>

lemma cooling_targets_live:
  assumes "cooling_targets env combo exclude now accepts ts s = (cs, s')"
  shows "live_part now s' = live_part now s
    \<and> cs = filter (\<lambda>t. target_provider_is_usable env t now \<and> key_of t \<notin> set exclude
        \<and> running_until combo now s (bare t) \<noteq> None \<and> accepts t) ts"
  using assms
proof (induction ts arbitrary: s cs)
  case Nil
  then show ?case by simp
next
  case (Cons t ts)
  show ?case
  proof (cases "target_provider_is_usable env t now \<and> key_of t \<notin> set exclude")
    case False
    with Cons.prems have "cooling_targets env combo exclude now accepts ts s = (cs, s')" by auto
    from Cons.IH [OF this] False show ?thesis by auto
  next
    case True
    obtain b s1 where b: "is_combo_target_in_cooldown combo (bare t) now s = (b, s1)" by fastforce
    obtain rest s2 where r: "cooling_targets env combo exclude now accepts ts s1 = (rest, s2)" by fastforce
    have e: "cs = (if b \<and> accepts t then t # rest else rest)" "s' = s2"
      using Cons.prems True b r by simp_all
    have l: "live_part now s1 = live_part now s"
      using cooldown_keeps [of now combo "bare t" s] b by simp
    have bb: "b = (running_until combo now s (bare t) \<noteq> None)"
      using running_until_cooldown [of combo "bare t" now s] b by simp
    have "running_until combo now s1 x = running_until combo now s x" for x
      using l by (simp add: running_until_def)
    with Cons.IH [OF r [folded e(2)]] l True bb show ?thesis unfolding e by auto
  qed
qed

text \<open>
  An ordinary target of the combo: not the emergency one, its provider usable, not yet tried and
  accepted by the request.
\<close>

definition ordinary :: "route_env \<Rightarrow> wait_request \<Rightarrow> normalized_target \<Rightarrow> bool" where
  "ordinary env rq t \<longleftrightarrow> \<not> nt_last_resort t \<and> target_provider_is_usable env t (wq_now rq)
     \<and> key_of t \<notin> set (wq_exclude rq) \<and> wq_accepts rq t"

text \<open>With before-last-resort set, the emergency target is answered without a wait only when every
ordinary target is excluded, parked, or cools for longer than the budget.\<close>

theorem last_resort_comes_last:
  assumes "re_combo env combo = Some cfg" and "cb_before_last_resort cfg"
    and "wait_start env combo rq random False ps = (Answer (Picked p), ps')"
    and "nt_last_resort (pk_target p)"
    and "t \<in> set (cb_targets cfg)" and "ordinary env rq t"
  shows "case running_until combo (wq_now rq) (ps_combo ps) (bare t) of
      None \<Rightarrow> provider_hold_kind (ct_provider t) (wq_now rq) (ps_combo ps) = Some CapacityHold
    | Some x \<Rightarrow> wq_budget rq < x - wq_now rq"
proof -
  let ?now = "wq_now rq" and ?po = "normal_options combo (wq_now rq) rq"
  have d: "defers_last_resort (Some cfg)"
    using assms(2,5,6) by (auto simp: defers_last_resort_def ordinary_def list_ex_iff)
  obtain r ps1 where pk: "pick_combo_target env combo ?po random ?now ps = (r, ps1)" by fastforce
  note sound = pick_sound_complete [OF normal_options_live.live_options_axioms pk]
  have t: "re_disabled env (ct_provider t) = Some False" "key_of t \<notin> set (wq_exclude rq)" "\<not> nt_last_resort t" "wq_accepts rq t"
    using assms(6) by (auto simp: ordinary_def target_provider_is_usable_def provider_exclusion_reason_def
        target_provider_is_routable_def split: if_splits)
  have adm: "admissible env ?po ?now (ps_combo ps) x \<longleftrightarrow> re_disabled env (ct_provider x) = Some False
      \<and> key_of x \<notin> set (wq_exclude rq) \<and> \<not> nt_last_resort x \<and> wq_accepts rq x
      \<and> running_until combo ?now (ps_combo ps) (bare x) = None
      \<and> provider_hold_kind (ct_provider x) ?now (ps_combo ps) \<noteq> Some CapacityHold" for x
    using running_until_cooldown [of combo "bare x" ?now "ps_combo ps"]
    by (auto simp: admissible_def normal_options_def normal_check_def cooling_check_def split: prod.splits bool.splits)
  obtain ts s where co: "cooling_targets env combo (wq_exclude rq) ?now (wq_accepts rq)
      (filter (\<lambda>t. \<not> nt_last_resort t) (cb_targets cfg)) (ps_combo ps1) = (ts, s)" by fastforce
  have not_picked: "r \<noteq> Picked q" for q
  proof
    assume q: "r = Picked q"
    with pk d assms(1,3) have "q = p" by (simp add: wait_start_def Let_def)
    with sound q assms(1,4) adm show False by simp
  qed
  then have none: "\<not> list_ex (admissible env ?po ?now (ps_combo ps)) (cb_targets cfg)"
    using sound assms(1) not_picked by (cases r) auto
  have live: "live_part ?now (ps_combo ps1) = live_part ?now (ps_combo ps)" using sound by simp
  have live': "live_part ?now s = live_part ?now (ps_combo ps)" using cooling_targets_live [OF co] live by simp
  have run: "running_until combo ?now s x = running_until combo ?now (ps_combo ps) x"
    "running_until combo ?now (ps_combo ps1) x = running_until combo ?now (ps_combo ps) x" for x
    using live live' by (simp_all add: running_until_def)
  have "case r of Picked q \<Rightarrow> False | _ \<Rightarrow> True" using not_picked by (auto split: pick_result.split)
  then have far: "case earliest_combo_cooldown combo (map bare ts) ?now s of None \<Rightarrow> True
      | Some (x, _) \<Rightarrow> wq_budget rq < x - ?now"
    using assms(1,3) d pk co
    by (cases r) (auto simp: wait_start_def Let_def split: option.splits if_splits)
  show ?thesis
  proof (cases "running_until combo ?now (ps_combo ps) (bare t)")
    case None
    then have "provider_hold_kind (ct_provider t) ?now (ps_combo ps) = Some CapacityHold"
      using none adm [of t] t assms(5) by (auto simp: list_ex_iff)
    with None show ?thesis by simp
  next
    case (Some x)
    then have "bare t \<in> set (map bare ts)"
      using cooling_targets_live [OF co] assms(5,6) run by (auto simp: ordinary_def)
    moreover have rs: "running_until combo ?now s (bare t) = Some x" using Some run by simp
    ultimately obtain y u where y: "earliest_combo_cooldown combo (map bare ts) ?now s = Some (y, u)"
      using earliest_none [of combo "map bare ts" ?now s "bare t"] by fastforce
    with earliest_some(2) [OF y \<open>bare t \<in> set (map bare ts)\<close> rs] far Some show ?thesis by simp
  qed
qed

lemma demo_last_resort:
  "fst (wait_start (demo_env Failover) ''ladder'' demo_request 0 False (cooling_state 8000 9000))
   = Answer (Picked \<lparr>pk_combo = ''ladder'', pk_target = demo_target ''c'' 1 True, pk_index = 2,
       pk_attempted = [''c/m''], pk_generation = 1, pk_rank = 0\<rparr>)"
  by code_simp

theorem last_resort_comes_last_witness:
  "case running_until ''ladder'' 0 (ps_combo (cooling_state 8000 9000)) (bare (demo_target ''a'' 2 False)) of
     None \<Rightarrow> False | Some x \<Rightarrow> wq_budget demo_request < x"
proof -
  let ?p = "\<lparr>pk_combo = ''ladder'', pk_target = demo_target ''c'' 1 True, pk_index = 2,
       pk_attempted = [''c/m''], pk_generation = 1, pk_rank = 0\<rparr>"
  obtain ps' where w: "wait_start (demo_env Failover) ''ladder'' demo_request 0 False (cooling_state 8000 9000)
      = (Answer (Picked ?p), ps')"
    using demo_last_resort by (metis prod.collapse)
  have o: "ordinary (demo_env Failover) demo_request (demo_target ''a'' 2 False)"
    by (simp add: ordinary_def demo_simps target_provider_is_usable_def provider_exclusion_reason_def
        target_provider_is_routable_def target_provider_quota_exhausted_def cached_provider_quota_is_exhausted_def)
  have c: "re_combo (demo_env Failover) ''ladder'' = Some (demo_config Failover)"
    "cb_before_last_resort (demo_config Failover)" "demo_target ''a'' 2 False \<in> set (cb_targets (demo_config Failover))"
    by (simp_all add: demo_env_def demo_config_def)
  have "running_until ''ladder'' 0 (ps_combo (cooling_state 8000 9000)) (bare (demo_target ''a'' 2 False)) = Some 8000"
    by (simp add: running_until_eq cooling_state_def)
  with last_resort_comes_last [OF c(1,2) w _ c(3) o] show ?thesis by (simp add: demo_request_def)
qed

end
