(* ===== verification/Combo_Config.thy ===== *)
theory Combo_Config
  imports Combo_Pick
begin

text \<open>
  The definition of a combo: names and aliases (\<open>combos/identifiers.ts\<close>), validation of a raw
  definition against the configured providers, and its normal form (\<open>combos/types.ts\<close>, with the
  JEV settings it validates). A raw definition is parsed JSON; validation answers the list of
  issues, and normalization None where the code raises.
\<close>

section \<open>Names\<close>

definition combo_namespace :: string where
  "combo_namespace = ''combo''"

definition id_start :: "char \<Rightarrow> bool" where
  "id_start c \<longleftrightarrow> of_char c \<in> {48..57 :: nat} \<union> {65..90} \<union> {97..122}"

definition id_char :: "char \<Rightarrow> bool" where
  "id_char c \<longleftrightarrow> id_start c \<or> c \<in> {CHR ''.'', CHR ''_'', CHR ''-''}"

definition is_valid_combo_id :: "string \<Rightarrow> bool" where
  "is_valid_combo_id s \<longleftrightarrow>
     (case s of [] \<Rightarrow> False | c # cs \<Rightarrow> id_start c \<and> list_all id_char cs \<and> length cs \<le> 63)"

text \<open>The public alias: one segment shaped like an id, or two with a slash between.\<close>

definition alias_shape :: "string \<Rightarrow> bool" where
  "alias_shape a \<longleftrightarrow> (case dropWhile (\<lambda>c. c \<noteq> CHR ''/'') a of
     [] \<Rightarrow> is_valid_combo_id a
   | _ # rest \<Rightarrow> is_valid_combo_id (takeWhile (\<lambda>c. c \<noteq> CHR ''/'') a) \<and> is_valid_combo_id rest)"

definition native_family :: "string \<Rightarrow> bool" where
  "native_family a \<longleftrightarrow> list_ex (\<lambda>p. prefix p a) [''gpt-'', ''o1-'', ''o3-'', ''o4-'', ''codex-'']"

text \<open>The alias of a stored definition, trimmed; the empty text when it has none.\<close>

definition trimmed_text :: "string \<Rightarrow> json \<Rightarrow> string" where
  "trimmed_text k raw = (case json_get k raw of Some (JStr s) \<Rightarrow> js_trim s | _ \<Rightarrow> [])"

definition flag_set :: "string \<Rightarrow> json \<Rightarrow> bool" where
  "flag_set k raw \<longleftrightarrow> json_get k raw = Some (JBool True)"

definition preserves_physical_combo_provider :: "(string, 'p) jsmap \<Rightarrow> (string, json) jsmap option \<Rightarrow> bool" where
  "preserves_physical_combo_provider providers combos \<longleftrightarrow>
     jm_has providers combo_namespace \<and> nullish combos [] = []"

text \<open>\<open>native\<close> is membership in the native models the runtime currently supports.\<close>

definition is_native_alias_combo :: "(string \<Rightarrow> bool) \<Rightarrow> json \<Rightarrow> bool" where
  "is_native_alias_combo native raw \<longleftrightarrow> flag_set ''nativeAlias'' raw \<and> native (trimmed_text ''alias'' raw)"

definition parse_combo_model_id :: "string \<Rightarrow> string option" where
  "parse_combo_model_id model =
     (case dropWhile (\<lambda>c. c \<noteq> CHR ''/'') model of
        [] \<Rightarrow> None
      | _ # rest \<Rightarrow> if takeWhile (\<lambda>c. c \<noteq> CHR ''/'') model \<noteq> combo_namespace then None
          else if rest \<noteq> [] then Some rest else None)"

definition combo_model_id :: "string \<Rightarrow> string" where
  "combo_model_id i = combo_namespace @ ''/'' @ i"

definition combo_public_model_id :: "string \<Rightarrow> json \<Rightarrow> string" where
  "combo_public_model_id i raw =
     (if trimmed_text ''alias'' raw \<noteq> [] then trimmed_text ''alias'' raw else combo_model_id i)"

definition combo_disabled_model_id :: "(string \<Rightarrow> bool) \<Rightarrow> string \<Rightarrow> json \<Rightarrow> string" where
  "combo_disabled_model_id native i raw =
     (if is_native_alias_combo native raw then combo_model_id i else combo_public_model_id i raw)"

definition combo_disabled_model_selectors :: "(string \<Rightarrow> bool) \<Rightarrow> string \<Rightarrow> json \<Rightarrow> string list" where
  "combo_disabled_model_selectors native i raw =
     (let canonical = combo_model_id i; preferred = combo_disabled_model_id native i raw
      in if preferred = canonical then [canonical] else [canonical, preferred])"

definition is_record :: "json \<Rightarrow> bool" where
  "is_record v = (case v of JObj _ \<Rightarrow> True | _ \<Rightarrow> False)"

definition resolve_combo_id :: "(string, json) jsmap option \<Rightarrow> string \<Rightarrow> string option" where
  "resolve_combo_id combos model = (case parse_combo_model_id model of
     Some i \<Rightarrow> Some i
   | None \<Rightarrow> (case combos of
       None \<Rightarrow> None
     | Some cs \<Rightarrow> map_option fst (find (\<lambda>(i, raw). trimmed_text ''alias'' raw \<noteq> []
           \<and> trimmed_text ''alias'' raw = model) cs)))"


section \<open>Issues\<close>

datatype path_step = PKey string | PIndex nat

record issue =
  is_path :: "path_step list"
  is_message :: string

abbreviation issue :: "path_step list \<Rightarrow> string \<Rightarrow> issue" where
  "issue p m \<equiv> \<lparr>is_path = p, is_message = m\<rparr>"

definition quoted :: "string \<Rightarrow> string" where
  "quoted s = [char_of (34 :: nat)] @ s @ [char_of (34 :: nat)]"

text \<open>What an option of a definition needs: a present value that fails is one issue.\<close>

definition field_issue :: "(json \<Rightarrow> bool) \<Rightarrow> string \<Rightarrow> json \<Rightarrow> path_step list \<Rightarrow> string \<Rightarrow> issue list" where
  "field_issue ok k raw p m = (case json_get k raw of None \<Rightarrow> [] | Some v \<Rightarrow> if ok v then [] else [issue p m])"

definition js_integer :: "json \<Rightarrow> int option" where
  "js_integer v = (case v of JNum (Fin q) \<Rightarrow> if of_int \<lfloor>q\<rfloor> = q then Some \<lfloor>q\<rfloor> else None | _ \<Rightarrow> None)"

definition int_between :: "int \<Rightarrow> int \<Rightarrow> json \<Rightarrow> bool" where
  "int_between lo hi v \<longleftrightarrow> (case js_integer v of None \<Rightarrow> False | Some n \<Rightarrow> lo \<le> n \<and> n \<le> hi)"

definition int_message :: "string \<Rightarrow> nat \<Rightarrow> nat \<Rightarrow> string" where
  "int_message k lo hi = k @ '' must be an integer from '' @ decimal_text lo @ '' to '' @ decimal_text hi"

definition int_issue :: "string \<Rightarrow> nat \<Rightarrow> nat \<Rightarrow> json \<Rightarrow> issue list" where
  "int_issue k lo hi raw = field_issue (int_between (int lo) (int hi)) k raw [PKey k] (int_message k lo hi)"

definition is_bool :: "json \<Rightarrow> bool" where
  "is_bool v = (case v of JBool _ \<Rightarrow> True | _ \<Rightarrow> False)"

definition one_of :: "string list \<Rightarrow> json \<Rightarrow> bool" where
  "one_of xs v = (case v of JStr s \<Rightarrow> s \<in> set xs | _ \<Rightarrow> False)"

definition codex_efforts :: "string list" where
  "codex_efforts = [''low'', ''medium'', ''high'', ''xhigh'', ''max'', ''ultra'']"

definition is_codex_reasoning_effort :: "string \<Rightarrow> bool" where
  "is_codex_reasoning_effort e \<longleftrightarrow> e \<in> set codex_efforts"

definition is_declared_reasoning_effort :: "string \<Rightarrow> bool" where
  "is_declared_reasoning_effort e \<longleftrightarrow> e = ''none'' \<or> e = ''minimal'' \<or> is_codex_reasoning_effort e"

definition is_effort :: "json \<Rightarrow> bool" where
  "is_effort v = (case v of JStr s \<Rightarrow> is_codex_reasoning_effort s | _ \<Rightarrow> False)"


section \<open>Aliases\<close>

definition combo_alias_issues ::
    "string \<Rightarrow> string \<Rightarrow> (string, json) jsmap option \<Rightarrow> string option \<Rightarrow> bool \<Rightarrow> issue list" where
  "combo_alias_issues i alias combos exclude allow_native =
     (if \<not> alias_shape alias
      then [issue [PKey ''alias''] (''alias must use letters, numbers, dot, underscore, or hyphen, with at most one ''
              @ quoted ''/'' @ '' segment'')]
      else (if alias = combo_namespace \<or> prefix (combo_namespace @ ''/'') alias
            then [issue [PKey ''alias''] (''alias must not use the reserved '' @ quoted ''combo/'' @ '' namespace'')] else [])
        @ (if CHR ''/'' \<notin> set alias \<and> native_family alias \<and> \<not> allow_native
           then [issue [PKey ''alias''] ''bare aliases in the OpenAI native family require nativeAlias=true''] else [])
        @ List.map_filter (\<lambda>(j, raw). if j = i \<or> exclude = Some j then None
            else if trimmed_text ''alias'' raw \<noteq> [] \<and> trimmed_text ''alias'' raw = alias
            then Some (issue [PKey ''alias''] (''alias '' @ quoted alias @ '' is already used by combo '' @ quoted j))
            else None) (nullish combos []))"

record provider_row =
  pr_alias :: "string option"
  pr_model_aliases :: "(string, string) jsmap"
  pr_adapter :: string
  pr_base_url :: string
  pr_disabled :: bool
  pr_default_model :: "string option"
  pr_models :: "string list"

text \<open>The alias as it was written against the aliases of providers and of their models.\<close>

definition provider_alias_issues :: "(string, provider_row) jsmap \<Rightarrow> json \<Rightarrow> issue list" where
  "provider_alias_issues providers raw = (case json_get ''alias'' raw of
     Some (JStr written) \<Rightarrow>
       (let alias = to_lower written
        in concat (map (\<lambda>(name, p).
          (case pr_alias p of None \<Rightarrow> [] | Some a \<Rightarrow> if to_lower a = alias
             then [issue [PKey ''alias''] (''alias '' @ quoted written @ '' is already used by provider '' @ quoted name)] else [])
          @ (case find (\<lambda>(_, v). to_lower v = alias) (pr_model_aliases p) of None \<Rightarrow> []
             | Some (mdl, _) \<Rightarrow> [issue [PKey ''alias''] (''alias '' @ quoted written @ '' is already used by model ''
                 @ quoted (name @ ''/'' @ mdl))])) providers))
   | _ \<Rightarrow> [])"


section \<open>Settings of the decision service\<close>

text \<open>The URL parser of the platform is a parameter: None when it raises.\<close>

record url =
  u_protocol :: string
  u_username :: string
  u_password :: string
  u_search :: string
  u_hash :: string
  u_hostname :: string
  u_pathname :: string

definition control_char :: "char \<Rightarrow> bool" where
  "control_char c \<longleftrightarrow> of_char c < (32 :: nat) \<or> of_char c = (127 :: nat)"

definition is_digit :: "char \<Rightarrow> bool" where
  "is_digit c \<longleftrightarrow> of_char c \<in> {48..57 :: nat}"

definition is_hex :: "char \<Rightarrow> bool" where
  "is_hex c \<longleftrightarrow> is_digit c \<or> of_char c \<in> {97..102 :: nat}"

fun split_dots :: "string \<Rightarrow> string list" where
  "split_dots [] = [[]]"
| "split_dots (c # cs) = (if c = CHR ''.'' then [] # split_dots cs
     else (case split_dots cs of [] \<Rightarrow> [[c]] | w # ws \<Rightarrow> (c # w) # ws))"

definition url_authority :: "string \<Rightarrow> string" where
  "url_authority raw =
     (let slash = (\<lambda>c. c = CHR ''/'' \<or> c = char_of (92 :: nat));
          scheme = takeWhile (\<lambda>c. c \<noteq> CHR '':'') raw;
          is_scheme = (case scheme of [] \<Rightarrow> False
            | c # cs \<Rightarrow> id_start c \<and> \<not> is_digit c \<and> list_all (\<lambda>x. id_start x \<or> x \<in> {CHR ''+'', CHR ''.'', CHR ''-''}) cs)
            \<and> scheme \<noteq> raw;
          body = (if is_scheme then dropWhile slash (drop (Suc (length scheme)) raw) else raw)
      in takeWhile (\<lambda>c. \<not> slash c) body)"

definition is_local_host :: "string \<Rightarrow> bool" where
  "is_local_host h \<longleftrightarrow>
     (let digits = (\<lambda>w. w \<noteq> [] \<and> list_all is_digit w)
      in h = ''localhost'' \<or> h = ''[::1]''
       \<or> (case split_dots h of
            [a, b, c, d] \<Rightarrow> digits c \<and> digits d
              \<and> ((a = ''127'' \<or> a = ''10'') \<and> digits b
                 \<or> a = ''172'' \<and> b \<in> set (map decimal_text [16..<32])
                 \<or> a = ''192'' \<and> b = ''168'')
          | _ \<Rightarrow> False)
       \<or> (case h of
            l # f # k # x # y # z # _ \<Rightarrow> l = CHR ''['' \<and> f = CHR ''f'' \<and> k \<in> {CHR ''c'', CHR ''d''}
              \<and> is_hex x \<and> is_hex y \<and> z = CHR '':''
          | _ \<Rightarrow> False)
       \<or> prefix ''[::ffff:7f'' h
          \<and> (case drop 10 h of x # y # z # _ \<Rightarrow> is_hex x \<and> is_hex y \<and> z = CHR '':'' | _ \<Rightarrow> False))"

definition is_system_one_endpoint :: "(string \<Rightarrow> url option) \<Rightarrow> string \<Rightarrow> bool" where
  "is_system_one_endpoint parse_url base =
     (let raw = js_trim base
      in if list_ex control_char raw then False
         else if CHR ''?'' \<in> set raw \<or> CHR ''#'' \<in> set raw \<or> CHR ''@'' \<in> set (url_authority raw) then False
         else (case parse_url raw of
             None \<Rightarrow> False
           | Some u \<Rightarrow>
               if u_username u \<noteq> [] \<or> u_password u \<noteq> [] \<or> u_search u \<noteq> [] \<or> u_hash u \<noteq> [] then False
               else u_protocol u = ''https:''
                 \<or> u_protocol u = ''http:'' \<and> is_local_host (u_hostname u)
                   \<and> suffix ''/systemone'' (rev (dropWhile (\<lambda>c. c = CHR ''/'') (rev (u_pathname u))))))"

record quota_tiers =
  qt_moderate :: "rat option"
  qt_limited :: rat
  qt_nearly_exhausted :: rat

definition percentage :: "json \<Rightarrow> rat option" where
  "percentage v = (case v of JNum (Fin q) \<Rightarrow> if 0 \<le> q \<and> q \<le> 100 then Some q else None | _ \<Rightarrow> None)"

text \<open>A threshold: its default when absent, None when it is no percentage.\<close>

definition tier_value :: "rat option \<Rightarrow> string \<Rightarrow> json \<Rightarrow> rat option option" where
  "tier_value standard k v = (case json_get k v of
     None \<Rightarrow> Some standard | Some x \<Rightarrow> map_option Some (percentage x))"

definition normalize_jev_quota_tiers :: "json \<Rightarrow> quota_tiers option" where
  "normalize_jev_quota_tiers v = (case v of
     JObj kvs \<Rightarrow>
       if list_ex (\<lambda>(k, _). k \<notin> {''moderate'', ''limited'', ''nearlyExhausted''}) kvs then None
       else (case (tier_value None ''moderate'' v, tier_value (Some 70) ''limited'' v,
                   tier_value (Some 90) ''nearlyExhausted'' v) of
           (Some mo, Some (Some li), Some (Some ne)) \<Rightarrow>
             if (case mo of None \<Rightarrow> True | Some x \<Rightarrow> x < li) \<and> li < ne
             then Some \<lparr>qt_moderate = mo, qt_limited = li, qt_nearly_exhausted = ne\<rparr> else None
         | _ \<Rightarrow> None)
   | _ \<Rightarrow> None)"

datatype quota_tier = TierUnknown | Healthy | Moderate | Limited | NearlyExhausted

definition jev_quota_tier :: "jsnum \<Rightarrow> quota_tiers \<Rightarrow> quota_tier" where
  "jev_quota_tier percent tiers = (case percent of
     Fin p \<Rightarrow> if p < 0 \<or> p > 100 then TierUnknown
       else if p \<ge> qt_nearly_exhausted tiers then NearlyExhausted
       else if p \<ge> qt_limited tiers then Limited
       else (case qt_moderate tiers of Some x \<Rightarrow> if p \<ge> x then Moderate else Healthy | None \<Rightarrow> Healthy)
   | _ \<Rightarrow> TierUnknown)"

fun jev_quota_rank :: "quota_tier \<Rightarrow> nat" where
  "jev_quota_rank TierUnknown = 0"
| "jev_quota_rank Healthy = 0"
| "jev_quota_rank Moderate = 1"
| "jev_quota_rank Limited = 2"
| "jev_quota_rank NearlyExhausted = 3"

text \<open>The one field of a session pin, in milliseconds.\<close>

definition normalize_jev_session_pin :: "json \<Rightarrow> int option" where
  "normalize_jev_session_pin v = (case v of
     JObj [(k, x)] \<Rightarrow> if k = ''ttlMs'' \<and> int_between 60000 86400000 x then js_integer x else None
   | _ \<Rightarrow> None)"

definition parse_jev_session_pin_duration :: "string \<Rightarrow> int option" where
  "parse_jev_session_pin_duration raw =
     (let s = js_trim raw; ds = takeWhile is_digit s; factor = map_of
          [([], 1), (''ms'', 1), (''s'', 1000), (''m'', 60000), (''h'', 3600000)] (drop (length ds) s)
      in case factor of
           None \<Rightarrow> None
         | Some f \<Rightarrow>
             (let ttl = foldl (\<lambda>n c. 10 * n + (of_char c - 48)) 0 ds * f
              in if ds \<noteq> [] \<and> length ds \<le> 9 \<and> 60000 \<le> ttl \<and> ttl \<le> 86400000 then Some ttl else None))"


section \<open>Validation of a definition\<close>

record validation_options =
  vo_require_enabled :: bool
  vo_require_usable_decision :: bool
  vo_combos :: "(string, json) jsmap option"
  vo_normalize_model :: "string \<Rightarrow> string"
  vo_exclude :: "string option"

text \<open>Parts of the validation, in the order of the code.\<close>

definition identity_issues :: "string \<Rightarrow> (string, provider_row) jsmap \<Rightarrow> issue list" where
  "identity_issues i providers =
     (if is_valid_combo_id i then [] else [issue []
        ''combo id must start with a letter/number and use letters, numbers, dot, underscore, or hyphen (max 64)''])
     @ (if jm_has providers combo_namespace then [issue [] (''provider name '' @ quoted ''combo''
          @ '' collides with the reserved '' @ quoted ''combo/'' @ '' namespace while combos are configured'')] else [])
     @ (if jm_has providers i then [issue [] (''combo id '' @ quoted i @ '' collides with configured provider name ''
          @ quoted i)] else [])"

definition strategy_names :: "string list" where
  "strategy_names = [''failover'', ''round-robin'', ''random'', ''least-used'', ''reset-window'', ''jev'']"

definition number_issues :: "json \<Rightarrow> issue list" where
  "number_issues raw = int_issue ''stickyLimit'' 1 100 raw @ int_issue ''cooldownMs'' 1 600000 raw
     @ int_issue ''firstByteTimeoutMs'' 1000 600000 raw @ int_issue ''ladderBudgetMs'' 1000 600000 raw
     @ int_issue ''breakerFailureThreshold'' 1 20 raw @ int_issue ''breakerSuccessThreshold'' 1 10 raw
     @ int_issue ''breakerOpenMs'' 1000 86400000 raw @ int_issue ''waitForCooldownMs'' 0 600000 raw"

definition or_null :: "(json \<Rightarrow> bool) \<Rightarrow> json \<Rightarrow> bool" where
  "or_null ok v \<longleftrightarrow> v = JNull \<or> ok v"

definition mode_issues :: "json \<Rightarrow> issue list" where
  "mode_issues raw =
     field_issue (or_null (one_of [''before-last-resort''])) ''cooldownWaitPolicy'' raw [PKey ''cooldownWaitPolicy'']
       (''cooldownWaitPolicy must be '' @ quoted ''before-last-resort'' @ '' when set'')
     @ field_issue (or_null is_effort) ''defaultEffort'' raw [PKey ''defaultEffort'']
       ''defaultEffort must be one of: low, medium, high, xhigh, max, ultra''
     @ field_issue (one_of [''fallback'', ''force'']) ''defaultEffortMode'' raw [PKey ''defaultEffortMode'']
       (''defaultEffortMode must be '' @ quoted ''fallback'' @ '' or '' @ quoted ''force'')
     @ (if json_get ''defaultEffortMode'' raw = Some (JStr ''force'')
           \<and> \<not> (case json_get ''defaultEffort'' raw of None \<Rightarrow> False | Some v \<Rightarrow> is_effort v)
        then [issue [PKey ''defaultEffort''] ''defaultEffort is required when defaultEffortMode is force''] else [])
     @ field_issue (one_of [''auto'', ''disabled'']) ''imageInput'' raw [PKey ''imageInput'']
       (''imageInput must be '' @ quoted ''auto'' @ '' or '' @ quoted ''disabled'')
     @ field_issue (one_of [''strict'', ''adaptive'']) ''reasoningEffortMode'' raw [PKey ''reasoningEffortMode'']
       (''reasoningEffortMode must be '' @ quoted ''strict'' @ '' or '' @ quoted ''adaptive'')"

definition own_alias_issues :: "string \<Rightarrow> validation_options \<Rightarrow> json \<Rightarrow> issue list" where
  "own_alias_issues i vo raw = (case json_get ''alias'' raw of
     None \<Rightarrow> []
   | Some (JStr s) \<Rightarrow> if js_trim s = [] then []
       else combo_alias_issues i (js_trim s) (vo_combos vo) (vo_exclude vo) (flag_set ''nativeAlias'' raw)
   | Some _ \<Rightarrow> [issue [PKey ''alias''] ''alias must be a string''])"

text \<open>The displayed texts; the description rejects the upper control characters too.\<close>

definition label_issue :: "(char \<Rightarrow> bool) \<Rightarrow> string \<Rightarrow> json \<Rightarrow> issue list" where
  "label_issue bad k raw = (case json_get k raw of
     None \<Rightarrow> []
   | Some (JStr s) \<Rightarrow> if length (js_trim s) > 128 \<or> list_ex bad s
       then [issue [PKey k] (k @ '' must be at most 128 characters and contain no control characters'')] else []
   | Some _ \<Rightarrow> [issue [PKey k] (k @ '' must be a string'')])"

definition unicode_control :: "char \<Rightarrow> bool" where
  "unicode_control c \<longleftrightarrow> of_char c < (32 :: nat) \<or> of_char c \<in> {127..159 :: nat}"

definition naming_issues :: "(string \<Rightarrow> bool) \<Rightarrow> json \<Rightarrow> issue list" where
  "naming_issues native raw =
     field_issue is_bool ''nativeAlias'' raw [PKey ''nativeAlias''] ''nativeAlias must be a boolean''
     @ label_issue control_char ''displayName'' raw @ label_issue unicode_control ''description'' raw
     @ (if flag_set ''nativeAlias'' raw \<and> \<not> native (trimmed_text ''alias'' raw)
        then [issue [PKey ''nativeAlias''] ''nativeAlias requires a currently supported bare OpenAI-native model alias''] else [])
     @ (if flag_set ''nativeAlias'' raw \<and> trimmed_text ''displayName'' raw = []
        then [issue [PKey ''displayName''] ''displayName is required for native aliases''] else [])"

definition is_jev :: "json \<Rightarrow> bool" where
  "is_jev raw \<longleftrightarrow> json_get ''strategy'' raw = Some (JStr ''jev'')"

text \<open>A setting that is present and not null.\<close>

definition given :: "string \<Rightarrow> json \<Rightarrow> json option" where
  "given k raw = (case json_get k raw of Some JNull \<Rightarrow> None | v \<Rightarrow> v)"

definition only_jev :: "string \<Rightarrow> issue" where
  "only_jev k = issue [PKey k] (k @ '' is only valid with strategy '' @ quoted ''jev'')"

definition quota_setting_issues :: "json \<Rightarrow> issue list" where
  "quota_setting_issues raw =
     (case given ''decisionQuotaSignals'' raw of None \<Rightarrow> [] | Some v \<Rightarrow>
        (if is_jev raw then [] else [only_jev ''decisionQuotaSignals''])
        @ (if is_bool v then [] else [issue [PKey ''decisionQuotaSignals''] ''decisionQuotaSignals must be a boolean'']))
     @ (case given ''decisionQuotaTiers'' raw of None \<Rightarrow> [] | Some v \<Rightarrow>
        (if is_jev raw then [] else [only_jev ''decisionQuotaTiers''])
        @ (if normalize_jev_quota_tiers v \<noteq> None then [] else [issue [PKey ''decisionQuotaTiers'']
            ''decisionQuotaTiers must contain finite 0..100 strictly ascending thresholds'']))"

definition session_pin_issues :: "json \<Rightarrow> issue list" where
  "session_pin_issues raw = (case given ''sessionPin'' raw of
     None \<Rightarrow> []
   | Some v \<Rightarrow> if \<not> is_jev raw then [only_jev ''sessionPin'']
       else if normalize_jev_session_pin v = None then [issue [PKey ''sessionPin''] (''sessionPin must be { ''
         @ quoted ''ttlMs'' @ '': <integer from 60000 to 86400000> }'')] else [])"

definition decision_provider_issues ::
    "(string \<Rightarrow> bool) \<Rightarrow> (string, provider_row) jsmap \<Rightarrow> validation_options \<Rightarrow> json \<Rightarrow> issue list" where
  "decision_provider_issues endpoint providers vo raw = (case given ''decisionProvider'' raw of
     None \<Rightarrow> []
   | Some _ \<Rightarrow>
       (let name = trimmed_text ''decisionProvider'' raw;
            refuse = (\<lambda>m. [issue [PKey ''decisionProvider''] m]);
            named = (\<lambda>m. refuse (''decisionProvider '' @ quoted name @ m))
        in if name = [] then refuse ''decisionProvider must be a non-empty provider name''
           else if \<not> is_jev raw then [only_jev ''decisionProvider'']
           else if name = ''jev'' then []
           else (case map_of providers name of
               None \<Rightarrow> named '' is not configured''
             | Some p \<Rightarrow>
                 if pr_adapter p \<noteq> ''jev-decision''
                 then named ('' is not a decision service (adapter must be '' @ quoted ''jev-decision'' @ '')'')
                 else if \<not> endpoint (pr_base_url p)
                 then named '' baseUrl must be a full HTTPS decision endpoint or an HTTP /systemone endpoint''
                 else if vo_require_usable_decision vo \<and> pr_disabled p then named '' is disabled''
                 else if vo_require_usable_decision vo \<and> js_trim (nullish (pr_default_model p) []) = []
                   \<and> (case pr_models p of [] \<Rightarrow> True | x # _ \<Rightarrow> js_trim x = [])
                 then named '' has no model (set defaultModel or models)'' else [])))"

definition decision_model_issues :: "string \<Rightarrow> validation_options \<Rightarrow> json \<Rightarrow> issue list" where
  "decision_model_issues i vo raw = (case given ''decisionModel'' raw of
     None \<Rightarrow> []
   | Some _ \<Rightarrow>
       (let mdl = trimmed_text ''decisionModel'' raw; here = [PKey ''decisionModel'']
        in if mdl = [] \<or> length mdl > 512
           then [issue here ''decisionModel must be a non-empty string of at most 512 characters'']
           else (if is_jev raw then [] else [only_jev ''decisionModel''])
             @ (if given ''decisionProvider'' raw = None then [] else [issue here ''decisionModel cannot coexist with decisionProvider''])
             @ (case resolve_combo_id (vo_combos vo) (vo_normalize_model vo mdl) of
                 None \<Rightarrow> []
               | Some j \<Rightarrow> if j = i \<or> (case map_of (nullish (vo_combos vo) []) j of None \<Rightarrow> False | Some r \<Rightarrow> is_jev r)
                   then [issue here (''decisionModel must not reference '' @ (if j = i then ''itself'' else ''a JEV combo'')
                     @ '' (combo '' @ quoted j @ '')'')] else [])))"

definition decision_timeout_issues :: "json \<Rightarrow> issue list" where
  "decision_timeout_issues raw = (case given ''decisionTimeoutMs'' raw of
     None \<Rightarrow> []
   | Some v \<Rightarrow> if \<not> int_between 1000 120000 v
       then [issue [PKey ''decisionTimeoutMs''] (int_message ''decisionTimeoutMs'' 1000 120000)]
       else if is_jev raw then [] else [only_jev ''decisionTimeoutMs''])"


section \<open>Targets\<close>

definition at_target :: "nat \<Rightarrow> string \<Rightarrow> string" where
  "at_target i rest = ''targets['' @ decimal_text i @ '']'' @ rest"

definition target_provider_issues :: "(string, provider_row) jsmap \<Rightarrow> nat \<Rightarrow> string \<Rightarrow> issue list" where
  "target_provider_issues providers i name =
     (let at_key = [PKey ''targets'', PIndex i, PKey ''provider'']
      in if name = [] then [issue at_key (at_target i ''.provider is required'')]
         else (case map_of providers name of
             None \<Rightarrow> [issue at_key (at_target i (''.provider '' @ quoted name @ '' is not configured''))]
           | Some p \<Rightarrow> if pr_adapter p = ''jev-decision''
               then [issue at_key (at_target i (''.provider '' @ quoted name
                 @ '' is a decision service and cannot be a model target''))] else []))"

fun effort_issues :: "nat \<Rightarrow> nat \<Rightarrow> string list \<Rightarrow> json list \<Rightarrow> issue list" where
  "effort_issues i j seen [] = []"
| "effort_issues i j seen (v # vs) =
     (let here = [PKey ''targets'', PIndex i, PKey ''reasoningEfforts'', PIndex j]
      in if \<not> is_effort v
         then issue here (at_target i (''.reasoningEfforts['' @ decimal_text j
                @ ''] must be one of: low, medium, high, xhigh, max, ultra'')) # effort_issues i (Suc j) seen vs
         else (case v of
             JStr e \<Rightarrow> if e \<in> set seen
               then issue here (at_target i ''.reasoningEfforts must not contain duplicates'') # effort_issues i (Suc j) seen vs
               else effort_issues i (Suc j) (e # seen) vs
           | _ \<Rightarrow> effort_issues i (Suc j) seen vs))"

definition efforts_issues :: "nat \<Rightarrow> json \<Rightarrow> issue list" where
  "efforts_issues i t = (case json_get ''reasoningEfforts'' t of
     None \<Rightarrow> []
   | Some (JArr (v # vs)) \<Rightarrow> effort_issues i 0 [] (v # vs)
   | Some _ \<Rightarrow> [issue [PKey ''targets'', PIndex i, PKey ''reasoningEfforts'']
       (at_target i ''.reasoningEfforts must be a non-empty array'')])"

definition profile_control :: "char \<Rightarrow> bool" where
  "profile_control c \<longleftrightarrow> control_char c \<and> of_char c \<notin> {9, 10, 13 :: nat}"

definition profile_ok :: "json \<Rightarrow> bool" where
  "profile_ok v = (case v of
     JStr s \<Rightarrow> js_trim s \<noteq> [] \<and> length s \<le> 512 \<and> \<not> list_ex profile_control s | _ \<Rightarrow> False)"

text \<open>The issues of one target apart from duplicates, then the loop with what it remembers.\<close>

definition target_field_issue :: "(json \<Rightarrow> bool) \<Rightarrow> nat \<Rightarrow> string \<Rightarrow> string \<Rightarrow> json \<Rightarrow> issue list" where
  "target_field_issue ok i k m t =
     field_issue ok k t [PKey ''targets'', PIndex i, PKey k] (at_target i (CHR ''.'' # k @ m))"

definition own_target_issues :: "(string, provider_row) jsmap \<Rightarrow> nat \<Rightarrow> json \<Rightarrow> issue list" where
  "own_target_issues providers i t =
     target_provider_issues providers i (trimmed_text ''provider'' t)
     @ (if trimmed_text ''model'' t = []
        then [issue [PKey ''targets'', PIndex i, PKey ''model''] (at_target i ''.model is required'')] else [])
     @ target_field_issue (int_between 1 10000) i ''weight'' '' must be an integer from 1 to 10000'' t
     @ efforts_issues i t
     @ target_field_issue is_bool i ''lastResort'' '' must be a boolean'' t
     @ target_field_issue is_bool i ''metered'' '' must be a boolean'' t
     @ target_field_issue profile_ok i ''modelProfile''
         '' must be a non-empty string of at most 512 characters; only tab, line feed and carriage return are allowed among control characters'' t
     @ target_field_issue (int_between 1000 600000) i ''firstByteTimeoutMs''
         '' must be an integer from 1000 to 600000'' t"

definition raw_target_key :: "json \<Rightarrow> string" where
  "raw_target_key t = trimmed_text ''provider'' t @ ''/'' @ trimmed_text ''model'' t"

text \<open>The issues, and how many targets name a configured and an enabled provider.\<close>

fun target_issues ::
    "(string, provider_row) jsmap \<Rightarrow> nat \<Rightarrow> string list \<Rightarrow> json list \<Rightarrow> issue list \<times> nat \<times> nat" where
  "target_issues providers i seen [] = ([], 0, 0)"
| "target_issues providers i seen (t # ts) =
     (if \<not> is_record t
      then (case target_issues providers (Suc i) seen ts of (is, c, e) \<Rightarrow>
        (issue [PKey ''targets'', PIndex i] (at_target i '' must be an object'') # is, c, e))
      else (let name = trimmed_text ''provider'' t; key = raw_target_key t;
                keyed = name \<noteq> [] \<and> trimmed_text ''model'' t \<noteq> [];
                known = target_provider_issues providers i name = [];
                enabled = known \<and> (case map_of providers name of None \<Rightarrow> False | Some p \<Rightarrow> \<not> pr_disabled p);
                twice = keyed \<and> key \<in> set seen
            in case target_issues providers (Suc i) (if keyed then key # seen else seen) ts of (is, c, e) \<Rightarrow>
              (own_target_issues providers i t
                 @ (if twice then [issue [PKey ''targets'', PIndex i] (''duplicate combo target '' @ quoted key)] else [])
                 @ is,
               (if known then c + 1 else c), (if enabled then e + 1 else e))))"

definition targets_issues :: "(string, provider_row) jsmap \<Rightarrow> validation_options \<Rightarrow> json \<Rightarrow> issue list" where
  "targets_issues providers vo raw = (case json_get ''targets'' raw of
     Some (JArr (t # ts)) \<Rightarrow>
       (case target_issues providers 0 [] (t # ts) of (is, c, e) \<Rightarrow>
          is @ (if vo_require_enabled vo \<and> c = length (t # ts) \<and> e = 0
                then [issue [PKey ''targets''] ''targets must include at least one enabled provider''] else []))
   | _ \<Rightarrow> [issue [PKey ''targets''] ''targets must be a non-empty array''])"

definition combo_config_issues ::
    "(string \<Rightarrow> bool) \<Rightarrow> (string \<Rightarrow> bool) \<Rightarrow> string \<Rightarrow> json \<Rightarrow> (string, provider_row) jsmap
      \<Rightarrow> validation_options \<Rightarrow> issue list" where
  "combo_config_issues native endpoint i raw providers vo =
     identity_issues i providers
     @ (if \<not> is_record raw then [issue [] ''combo must be an object'']
        else field_issue is_bool ''allowMeteredTargets'' raw [PKey ''allowMeteredTargets''] ''allowMeteredTargets must be a boolean''
          @ provider_alias_issues providers raw
          @ field_issue (one_of strategy_names) ''strategy'' raw [PKey ''strategy'']
              (''strategy must be '' @ quoted ''failover'' @ '', '' @ quoted ''round-robin'' @ '', '' @ quoted ''random''
               @ '', '' @ quoted ''least-used'' @ '', '' @ quoted ''reset-window'' @ '', or '' @ quoted ''jev'')
          @ number_issues raw @ mode_issues raw @ own_alias_issues i vo raw @ naming_issues native raw
          @ quota_setting_issues raw @ session_pin_issues raw @ decision_provider_issues endpoint providers vo raw
          @ decision_model_issues i vo raw @ decision_timeout_issues raw @ targets_issues providers vo raw)"

definition combo_config_error ::
    "(string \<Rightarrow> bool) \<Rightarrow> (string \<Rightarrow> bool) \<Rightarrow> string \<Rightarrow> json \<Rightarrow> (string, provider_row) jsmap
      \<Rightarrow> validation_options \<Rightarrow> string option" where
  "combo_config_error native endpoint i raw providers vo =
     (case combo_config_issues native endpoint i raw providers vo of [] \<Rightarrow> None | x # _ \<Rightarrow> Some (is_message x))"


section \<open>The normal form\<close>

record target_row = combo_target +
  tr_weight :: json
  tr_efforts :: "json list option"
  tr_profile :: "string option"
  tr_last_resort :: bool
  tr_first_byte :: "json option"
  tr_metered :: bool

record normalized_combo =
  nc_allow_metered :: bool
  nc_strategy :: json
  nc_sticky :: json
  nc_cooldown :: "json option"
  nc_first_byte :: "json option"
  nc_ladder :: "json option"
  nc_breaker_failures :: "json option"
  nc_breaker_successes :: "json option"
  nc_breaker_open :: "json option"
  nc_wait :: json
  nc_before_last_resort :: bool
  nc_effort :: "string option"
  nc_force_effort :: bool
  nc_adaptive :: bool
  nc_image_disabled :: bool
  nc_alias :: "string option"
  nc_native_alias :: bool
  nc_display_name :: "string option"
  nc_description :: "string option"
  nc_decision_provider :: "string option"
  nc_decision_model :: "string option"
  nc_decision_timeout :: "json option"
  nc_quota_signals :: bool
  nc_quota_tiers :: "quota_tiers option"
  nc_session_pin :: "int option"
  nc_targets :: "target_row list"

text \<open>\<open>??\<close>: the default for a missing field and for null.\<close>

definition or_default :: "string \<Rightarrow> json \<Rightarrow> json \<Rightarrow> json" where
  "or_default k d raw = nullish (given k raw) d"

definition some_text :: "string \<Rightarrow> string option" where
  "some_text s = (if s = [] then None else Some s)"

text \<open>Spreading a value: None where it is not iterable.\<close>

definition spread :: "json \<Rightarrow> json list option" where
  "spread v = (case v of JArr vs \<Rightarrow> Some vs | JStr s \<Rightarrow> Some (map (\<lambda>c. JStr [c]) s) | _ \<Rightarrow> None)"

definition normalize_target :: "json \<Rightarrow> target_row option" where
  "normalize_target t = (case (json_get ''provider'' t, json_get ''model'' t) of
     (Some (JStr p), Some (JStr mdl)) \<Rightarrow>
       map_option (\<lambda>efforts. \<lparr>ct_provider = js_trim p, ct_model = js_trim mdl, tr_weight = or_default ''weight'' (JNum (Fin 1)) t,
          tr_efforts = efforts, tr_profile = some_text (trimmed_text ''modelProfile'' t),
          tr_last_resort = flag_set ''lastResort'' t, tr_first_byte = json_get ''firstByteTimeoutMs'' t,
          tr_metered = flag_set ''metered'' t\<rparr>)
         (case json_get ''reasoningEfforts'' t of
            Some v \<Rightarrow> map_option Some (spread v) | None \<Rightarrow> Some None)
   | _ \<Rightarrow> None)"

fun all_some :: "'a option list \<Rightarrow> 'a list option" where
  "all_some [] = Some []"
| "all_some (None # xs) = None"
| "all_some (Some x # xs) = map_option (Cons x) (all_some xs)"

definition normalize_combo_config :: "json \<Rightarrow> normalized_combo option" where
  "normalize_combo_config raw =
     (let effort = (case json_get ''defaultEffort'' raw of
            Some (JStr e) \<Rightarrow> if is_codex_reasoning_effort e then Some e else None | _ \<Rightarrow> None);
          decider = trimmed_text ''decisionProvider'' raw
      in case json_get ''targets'' raw of
           Some (JArr ts) \<Rightarrow> map_option (\<lambda>rows.
             \<lparr>nc_allow_metered = flag_set ''allowMeteredTargets'' raw,
              nc_strategy = or_default ''strategy'' (JStr ''failover'') raw,
              nc_sticky = or_default ''stickyLimit'' (JNum (Fin 1)) raw,
              nc_cooldown = json_get ''cooldownMs'' raw, nc_first_byte = json_get ''firstByteTimeoutMs'' raw,
              nc_ladder = json_get ''ladderBudgetMs'' raw,
              nc_breaker_failures = json_get ''breakerFailureThreshold'' raw,
              nc_breaker_successes = json_get ''breakerSuccessThreshold'' raw,
              nc_breaker_open = json_get ''breakerOpenMs'' raw,
              nc_wait = or_default ''waitForCooldownMs'' (JNum (Fin 0)) raw,
              nc_before_last_resort = (json_get ''cooldownWaitPolicy'' raw = Some (JStr ''before-last-resort'')),
              nc_effort = effort,
              nc_force_effort = (json_get ''defaultEffortMode'' raw = Some (JStr ''force'') \<and> effort \<noteq> None),
              nc_adaptive = (json_get ''reasoningEffortMode'' raw = Some (JStr ''adaptive'')),
              nc_image_disabled = (json_get ''imageInput'' raw = Some (JStr ''disabled'')),
              nc_alias = some_text (trimmed_text ''alias'' raw), nc_native_alias = flag_set ''nativeAlias'' raw,
              nc_display_name = some_text (trimmed_text ''displayName'' raw),
              nc_description = some_text (trimmed_text ''description'' raw),
              nc_decision_provider = (if decider = ''jev'' then None else some_text decider),
              nc_decision_model = some_text (trimmed_text ''decisionModel'' raw),
              nc_decision_timeout = (case json_get ''decisionTimeoutMs'' raw of Some (JNum x) \<Rightarrow> Some (JNum x) | _ \<Rightarrow> None),
              nc_quota_signals = (is_jev raw \<and> flag_set ''decisionQuotaSignals'' raw),
              nc_quota_tiers = (if is_jev raw then Option.bind (json_get ''decisionQuotaTiers'' raw) normalize_jev_quota_tiers else None),
              nc_session_pin = (if is_jev raw then Option.bind (json_get ''sessionPin'' raw) normalize_jev_session_pin else None),
              nc_targets = rows\<rparr>) (all_some (map normalize_target ts))
         | _ \<Rightarrow> None)"

definition get_combo :: "(string, json) jsmap option \<Rightarrow> string \<Rightarrow> normalized_combo option option" where
  "get_combo combos i = map_option normalize_combo_config (map_of (nullish combos []) i)"

definition find_last_separator :: "string \<Rightarrow> nat option" where
  "find_last_separator s = find (\<lambda>k. prefix ''--'' (drop k s)) (rev [0..<length s])"

definition lexical_decision_model_base :: "string \<Rightarrow> bool \<Rightarrow> string" where
  "lexical_decision_model_base s effort_rows =
     (if suffix ''--fast'' s then take (length s - 6) s
      else if \<not> effort_rows then s
      else (case find_last_separator s of
          None \<Rightarrow> s
        | Some k \<Rightarrow> if k = 0 then s
            else (let e = drop (k + 2) s
                  in if e \<noteq> ''none'' \<and> is_declared_reasoning_effort e then take k s else s)))"

text \<open>Reads the stored targets as they are typed, without trimming.\<close>

definition combo_depends_on_provider :: "json \<Rightarrow> string \<Rightarrow> bool" where
  "combo_depends_on_provider raw name \<longleftrightarrow>
     (case json_get ''targets'' raw of
        Some (JArr ts) \<Rightarrow> list_ex (\<lambda>t. json_get ''provider'' t = Some (JStr name)) ts | _ \<Rightarrow> False)
     \<or> prefix (name @ ''/'') (trimmed_text ''decisionModel'' raw)
     \<or> trimmed_text ''decisionProvider'' raw = name \<and> name \<noteq> ''jev''"

definition combo_default_effort :: "(string, json) jsmap option \<Rightarrow> string \<Rightarrow> string option" where
  "combo_default_effort combos i = (case map_of (nullish combos []) i of
     None \<Rightarrow> None
   | Some raw \<Rightarrow> (case json_get ''defaultEffort'' raw of
       Some (JStr e) \<Rightarrow> if is_codex_reasoning_effort e then Some e else None | _ \<Rightarrow> None))"

text \<open>The live targets, by which stored state is reconciled; combos in the order given.\<close>

definition live_combo_target_keys :: "(string, json) jsmap \<Rightarrow> string list" where
  "live_combo_target_keys combos = js_set (concat (map (\<lambda>(i, raw).
     (case normalize_combo_config raw of
        None \<Rightarrow> [] | Some nc \<Rightarrow> map (\<lambda>r. i @ ''::'' @ target_key (combo_target.truncate r)) (nc_targets nc))) combos))"


section \<open>Picking by model name\<close>

datatype pick_failure = UnknownComboError string | NoAvailableComboTargets string "string list"

text \<open>What \<open>tryPickComboModel\<close> answers: an error it raises, or a pick when the name is a combo.\<close>

definition try_pick_combo_model ::
    "route_env \<Rightarrow> (string, json) jsmap option \<Rightarrow> string \<Rightarrow> bool \<Rightarrow> rat \<Rightarrow> rat \<Rightarrow> pick_state
      \<Rightarrow> (pick_failure + combo_pick option) \<times> pick_state" where
  "try_pick_combo_model env combos model preview random now ps =
     (case resolve_combo_id combos model of
        None \<Rightarrow> (Inr None, ps)
      | Some combo \<Rightarrow>
          (case pick_combo_target env combo \<lparr>po_exclude = [], po_check = any_target, po_preview = preview,
               po_allow_parked = False\<rparr> random now ps of
             (UnknownCombo, ps') \<Rightarrow> (Inl (UnknownComboError combo), ps')
           | (NoTarget, ps') \<Rightarrow> (Inl (NoAvailableComboTargets combo
               (combo_exclusion_reasons env combo (\<lambda>t. True) now (ps_combo ps'))), ps')
           | (Picked p, ps') \<Rightarrow> (Inr (Some p), ps')))"

end
