(* ===== verification/Combo_Config_Properties.thy ===== *)
theory Combo_Config_Properties
  imports Combo_Config
begin

text \<open>
  What an accepted definition is worth: it normalizes without an error to a well-typed combo, its
  public name leads back to it, and the thresholds of the decision service are ordered.
\<close>

section \<open>Shared facts\<close>

lemma field_issue_none [simp]:
  "field_issue ok k raw p m = [] \<longleftrightarrow> (\<forall>v. json_get k raw = Some v \<longrightarrow> ok v)"
  by (simp add: field_issue_def split: option.split)

lemma int_issue_none [simp]:
  "int_issue k lo hi raw = [] \<longleftrightarrow> (\<forall>v. json_get k raw = Some v \<longrightarrow> int_between (int lo) (int hi) v)"
  by (simp add: int_issue_def)

lemma trimmed_text_some: "trimmed_text k raw \<noteq> [] \<Longrightarrow> \<exists>s. json_get k raw = Some (JStr s) \<and> js_trim s = trimmed_text k raw"
  by (auto simp: trimmed_text_def split: option.splits json.splits)

lemma dropWhile_idem_rev: "dropWhile P (rev (dropWhile P (rev (dropWhile P s)))) = rev (dropWhile P (rev (dropWhile P s)))"
proof (cases "rev (dropWhile P (rev (dropWhile P s)))")
  case (Cons c cs)
  let ?t = "dropWhile P s"
  have "?t = rev (dropWhile P (rev ?t)) @ rev (takeWhile P (rev ?t))"
    by (metis rev_append rev_rev_ident takeWhile_dropWhile_id)
  then have "\<exists>rest. ?t = c # rest" unfolding Cons append_Cons by blast
  then obtain rest where t: "?t = c # rest" by blast
  have "\<not> P c" using t unfolding dropWhile_eq_Cons_conv by blast
  then show ?thesis using Cons by simp
next
  case Nil
  show ?thesis unfolding Nil by simp
qed

lemma js_trim_idem [simp]: "js_trim (js_trim s) = js_trim s"
  by (simp add: js_trim_def dropWhile_idem_rev)

lemma trimmed_text_idem [simp]: "js_trim (trimmed_text k raw) = trimmed_text k raw"
  by (simp add: trimmed_text_def js_trim_def [of "[]"] split: option.split json.split)

lemma int_between_not_null: "int_between lo hi v \<Longrightarrow> v \<noteq> JNull"
  by (auto simp: int_between_def js_integer_def)

lemma or_default_int:
  assumes "\<forall>v. json_get k raw = Some v \<longrightarrow> int_between lo hi v" and "int_between lo hi d"
  shows "int_between lo hi (or_default k d raw)"
  using assms int_between_not_null [of lo hi] by (auto simp: or_default_def given_def split: option.split json.split)

lemma all_some_iff: "all_some xs = Some ys \<longleftrightarrow> xs = map Some ys"
  by (induction xs arbitrary: ys rule: all_some.induct) auto


section \<open>Targets\<close>

definition well_typed_row :: "(string, provider_row) jsmap \<Rightarrow> target_row \<Rightarrow> bool" where
  "well_typed_row providers r \<longleftrightarrow>
     (case map_of providers (ct_provider r) of None \<Rightarrow> False | Some p \<Rightarrow> pr_adapter p \<noteq> ''jev-decision'')
     \<and> ct_provider r \<noteq> [] \<and> ct_model r \<noteq> [] \<and> js_trim (ct_provider r) = ct_provider r \<and> js_trim (ct_model r) = ct_model r
     \<and> int_between 1 10000 (tr_weight r)
     \<and> (case tr_efforts r of None \<Rightarrow> True | Some es \<Rightarrow> es \<noteq> [] \<and> distinct es \<and> list_all is_effort es)
     \<and> (case tr_profile r of None \<Rightarrow> True | Some s \<Rightarrow> s \<noteq> [] \<and> length s \<le> 512 \<and> \<not> list_ex profile_control s)
     \<and> (case tr_first_byte r of None \<Rightarrow> True | Some v \<Rightarrow> int_between 1000 600000 v)"

text \<open>What a target says is kept, and what it leaves out has its default.\<close>

definition target_kept :: "json \<Rightarrow> target_row \<Rightarrow> bool" where
  "target_kept t r \<longleftrightarrow> ct_provider r = trimmed_text ''provider'' t \<and> ct_model r = trimmed_text ''model'' t
     \<and> tr_weight r = nullish (given ''weight'' t) (JNum (Fin 1))
     \<and> map_option JArr (tr_efforts r) = json_get ''reasoningEfforts'' t
     \<and> tr_profile r = map_option (\<lambda>_. trimmed_text ''modelProfile'' t) (json_get ''modelProfile'' t)
     \<and> tr_first_byte r = json_get ''firstByteTimeoutMs'' t
     \<and> tr_last_resort r = (json_get ''lastResort'' t = Some (JBool True))
     \<and> tr_metered r = (json_get ''metered'' t = Some (JBool True))"

lemma effort_issues_none:
  "effort_issues i j seen vs = [] \<Longrightarrow> list_all is_effort vs \<and> distinct vs \<and> set vs \<inter> JStr ` set seen = {}"
proof (induction vs arbitrary: j seen)
  case (Cons v vs)
  then obtain e where v: "v = JStr e" "is_effort v" "e \<notin> set seen" "effort_issues i (Suc j) (e # seen) vs = []"
    by (cases v) (auto simp: is_effort_def Let_def split: if_splits)
  from Cons.IH [OF v(4)] v show ?case by auto
qed simp

lemma js_trim_length: "length (js_trim s) \<le> length s"
  unfolding js_trim_def
  by (metis (no_types, lifting) length_dropWhile_le length_rev order_trans)

lemma js_trim_chars: "set (js_trim s) \<subseteq> set s"
  unfolding js_trim_def by (auto dest!: set_dropWhileD)

lemma js_trim_free: "\<not> list_ex bad s \<Longrightarrow> \<not> list_ex bad (js_trim s)"
  using js_trim_chars [of s] by (auto simp: list_ex_iff)

lemma accepted_efforts:
  assumes "efforts_issues i t = []"
  obtains es where "(case json_get ''reasoningEfforts'' t of Some v \<Rightarrow> map_option Some (spread v) | None \<Rightarrow> Some None) = Some es"
    "map_option JArr es = json_get ''reasoningEfforts'' t"
    "case es of None \<Rightarrow> True | Some es \<Rightarrow> es \<noteq> [] \<and> distinct es \<and> list_all is_effort es"
proof (cases "json_get ''reasoningEfforts'' t")
  case None
  then show ?thesis by (intro that [of None]) simp_all
next
  case (Some v)
  obtain w ws where v: "v = JArr (w # ws)" "effort_issues i 0 [] (w # ws) = []"
    using assms Some by (auto simp: efforts_issues_def split: json.splits list.splits)
  then show ?thesis
    using Some effort_issues_none [OF v(2)] by (intro that [of "Some (w # ws)"]) (simp_all add: spread_def)
qed

lemma accepted_profile:
  assumes "\<forall>v. json_get ''modelProfile'' t = Some v \<longrightarrow> profile_ok v"
  shows "length (trimmed_text ''modelProfile'' t) \<le> 512" "\<not> list_ex profile_control (trimmed_text ''modelProfile'' t)"
    "trimmed_text ''modelProfile'' t = [] \<longleftrightarrow> json_get ''modelProfile'' t = None"
proof -
  have "length (trimmed_text ''modelProfile'' t) \<le> 512 \<and> \<not> list_ex profile_control (trimmed_text ''modelProfile'' t)
      \<and> (trimmed_text ''modelProfile'' t = [] \<longleftrightarrow> json_get ''modelProfile'' t = None)"
  proof (cases "json_get ''modelProfile'' t")
    case None
    then show ?thesis by (simp add: trimmed_text_def)
  next
    case (Some v)
    then obtain s where "v = JStr s" "js_trim s \<noteq> []" "length s \<le> 512" "\<not> list_ex profile_control s"
      using assms by (cases v) (simp_all add: profile_ok_def)
    then show ?thesis
      using Some order_trans [OF js_trim_length] js_trim_free [of profile_control s] by (simp add: trimmed_text_def)
  qed
  then show "length (trimmed_text ''modelProfile'' t) \<le> 512" "\<not> list_ex profile_control (trimmed_text ''modelProfile'' t)"
    "trimmed_text ''modelProfile'' t = [] \<longleftrightarrow> json_get ''modelProfile'' t = None" by blast+
qed

lemma accepted_target:
  assumes "own_target_issues providers i t = []"
  obtains r where "normalize_target t = Some r" "well_typed_row providers r" "target_kept t r"
    "target_key (combo_target.truncate r) = raw_target_key t" "trimmed_text ''provider'' t \<noteq> []" "trimmed_text ''model'' t \<noteq> []"
proof -
  have p: "trimmed_text ''provider'' t \<noteq> []" and pr: "case map_of providers (trimmed_text ''provider'' t) of
      None \<Rightarrow> False | Some p \<Rightarrow> pr_adapter p \<noteq> ''jev-decision''"
    and m: "trimmed_text ''model'' t \<noteq> []"
    using assms by (auto simp: own_target_issues_def target_provider_issues_def Let_def split: if_splits option.splits)
  obtain ps ms where ps: "json_get ''provider'' t = Some (JStr ps)" "js_trim ps = trimmed_text ''provider'' t"
    and ms: "json_get ''model'' t = Some (JStr ms)" "js_trim ms = trimmed_text ''model'' t"
    using trimmed_text_some [OF p] trimmed_text_some [OF m] by blast
  have w: "int_between 1 10000 (or_default ''weight'' (JNum (Fin 1)) t)"
    using assms by (intro or_default_int) (auto simp: own_target_issues_def target_field_issue_def int_between_def js_integer_def)
  have f: "\<forall>v. json_get ''firstByteTimeoutMs'' t = Some v \<longrightarrow> int_between 1000 600000 v"
    and prof: "\<forall>v. json_get ''modelProfile'' t = Some v \<longrightarrow> profile_ok v"
    and eff: "efforts_issues i t = []"
    using assms by (simp_all add: own_target_issues_def target_field_issue_def)
  obtain es where es: "(case json_get ''reasoningEfforts'' t of Some v \<Rightarrow> map_option Some (spread v) | None \<Rightarrow> Some None) = Some es"
    "map_option JArr es = json_get ''reasoningEfforts'' t"
    "case es of None \<Rightarrow> True | Some es \<Rightarrow> es \<noteq> [] \<and> distinct es \<and> list_all is_effort es"
    using accepted_efforts [OF eff] by blast
  note l = accepted_profile [OF prof]
  let ?r = "\<lparr>ct_provider = js_trim ps, ct_model = js_trim ms, tr_weight = or_default ''weight'' (JNum (Fin 1)) t,
          tr_efforts = es, tr_profile = some_text (trimmed_text ''modelProfile'' t),
          tr_last_resort = flag_set ''lastResort'' t, tr_first_byte = json_get ''firstByteTimeoutMs'' t,
          tr_metered = flag_set ''metered'' t\<rparr>"
  show ?thesis
  proof
    show "normalize_target t = Some ?r" using ps(1) ms(1) es(1) by (simp add: normalize_target_def)
    show "well_typed_row providers ?r"
      using p pr m ps(2) ms(2) w f es(3) l(1,2)
      by (simp add: well_typed_row_def some_text_def split: option.split)
    show "target_kept t ?r"
      using ps(2) ms(2) es(2) l(3)
      by (cases "json_get ''modelProfile'' t") (simp_all add: target_kept_def or_default_def some_text_def flag_set_def)
    show "target_key (combo_target.truncate ?r) = raw_target_key t"
      using ps(2) ms(2) by (simp add: target_key_def combo_target.truncate_def raw_target_key_def)
  qed (use p m in simp_all)
qed

lemma target_issues_none:
  assumes "fst (target_issues providers i seen ts) = []"
  shows "\<exists>rows. all_some (map normalize_target ts) = Some rows \<and> list_all (well_typed_row providers) rows
    \<and> list_all2 target_kept ts rows
    \<and> map (\<lambda>r. target_key (combo_target.truncate r)) rows = map raw_target_key ts
    \<and> distinct (map raw_target_key ts) \<and> set (map raw_target_key ts) \<inter> set seen = {}"
  using assms
proof (induction ts arbitrary: i seen)
  case (Cons t ts)
  obtain iss c e where rest: "target_issues providers (Suc i)
      (if trimmed_text ''provider'' t \<noteq> [] \<and> trimmed_text ''model'' t \<noteq> [] then raw_target_key t # seen else seen) ts = (iss, c, e)"
    using prod_cases3 by blast
  have r: "is_record t"
  proof (rule ccontr)
    assume "\<not> is_record t"
    with Cons.prems show False by (simp add: split_beta)
  qed
  have own: "own_target_issues providers i t = []" and none: "iss = []"
    and fresh: "trimmed_text ''provider'' t \<noteq> [] \<Longrightarrow> trimmed_text ''model'' t \<noteq> [] \<Longrightarrow> raw_target_key t \<notin> set seen"
    using Cons.prems r rest by (simp_all add: Let_def split: if_splits)
  obtain row where row: "normalize_target t = Some row" "well_typed_row providers row" "target_kept t row"
    "target_key (combo_target.truncate row) = raw_target_key t" "trimmed_text ''provider'' t \<noteq> []" "trimmed_text ''model'' t \<noteq> []"
    using accepted_target [OF own] by blast
  have "fst (target_issues providers (Suc i) (raw_target_key t # seen) ts) = []" using rest row none by simp
  from Cons.IH [OF this] row fresh show ?case by (auto simp: all_some_iff)
qed simp


section \<open>Accepted definitions\<close>

definition opt_between :: "int \<Rightarrow> int \<Rightarrow> json option \<Rightarrow> bool" where
  "opt_between lo hi v \<longleftrightarrow> (case v of None \<Rightarrow> True | Some x \<Rightarrow> int_between lo hi x)"

text \<open>
  The declared type of a normalized combo with the documented ranges: numbers are integers in
  range, modes and efforts are members, labels have at most 128 characters and no control
  characters, the JEV settings belong to the JEV strategy, its quota thresholds ascend within
  0 to 100, its decision service is configured, and the targets are distinct, configured and
  weighted.
\<close>

definition label_ok :: "(char \<Rightarrow> bool) \<Rightarrow> string option \<Rightarrow> bool" where
  "label_ok bad v \<longleftrightarrow> (case v of None \<Rightarrow> True
     | Some s \<Rightarrow> s \<noteq> [] \<and> js_trim s = s \<and> length s \<le> 128 \<and> \<not> list_ex bad s)"

definition tiers_ok :: "quota_tiers \<Rightarrow> bool" where
  "tiers_ok qt \<longleftrightarrow> 0 \<le> qt_limited qt \<and> qt_limited qt < qt_nearly_exhausted qt \<and> qt_nearly_exhausted qt \<le> 100
     \<and> (case qt_moderate qt of None \<Rightarrow> True | Some x \<Rightarrow> 0 \<le> x \<and> x < qt_limited qt)"

definition decision_service :: "(string \<Rightarrow> bool) \<Rightarrow> (string, provider_row) jsmap \<Rightarrow> string \<Rightarrow> bool" where
  "decision_service endpoint providers name \<longleftrightarrow> (case map_of providers name of None \<Rightarrow> False
     | Some p \<Rightarrow> pr_adapter p = ''jev-decision'' \<and> endpoint (pr_base_url p))"

definition well_typed_combo ::
    "(string \<Rightarrow> bool) \<Rightarrow> (string, provider_row) jsmap \<Rightarrow> normalized_combo \<Rightarrow> bool" where
  "well_typed_combo endpoint providers nc \<longleftrightarrow>
     nc_strategy nc \<in> JStr ` set strategy_names \<and> int_between 1 100 (nc_sticky nc)
     \<and> opt_between 1 600000 (nc_cooldown nc) \<and> opt_between 1000 600000 (nc_first_byte nc)
     \<and> opt_between 1000 600000 (nc_ladder nc) \<and> opt_between 1 20 (nc_breaker_failures nc)
     \<and> opt_between 1 10 (nc_breaker_successes nc) \<and> opt_between 1000 86400000 (nc_breaker_open nc)
     \<and> int_between 0 600000 (nc_wait nc) \<and> opt_between 1000 120000 (nc_decision_timeout nc)
     \<and> (case nc_effort nc of None \<Rightarrow> \<not> nc_force_effort nc | Some e \<Rightarrow> is_codex_reasoning_effort e)
     \<and> (case nc_alias nc of None \<Rightarrow> True | Some a \<Rightarrow> alias_shape a \<and> a \<noteq> combo_namespace)
     \<and> label_ok control_char (nc_display_name nc) \<and> label_ok unicode_control (nc_description nc)
     \<and> (if nc_native_alias nc then nc_display_name nc \<noteq> None else True)
     \<and> (case nc_decision_provider nc of None \<Rightarrow> True | Some d \<Rightarrow> d \<noteq> ''jev'' \<and> decision_service endpoint providers d)
     \<and> (case nc_decision_model nc of None \<Rightarrow> True | Some d \<Rightarrow> d \<noteq> [] \<and> js_trim d = d \<and> length d \<le> 512)
     \<and> (case nc_quota_tiers nc of None \<Rightarrow> True | Some qt \<Rightarrow> tiers_ok qt)
     \<and> (if nc_strategy nc = JStr ''jev'' then nc_decision_model nc = None \<or> nc_decision_provider nc = None
        else nc_decision_provider nc = None \<and> nc_decision_model nc = None \<and> nc_decision_timeout nc = None
          \<and> \<not> nc_quota_signals nc \<and> nc_quota_tiers nc = None \<and> nc_session_pin nc = None)
     \<and> (case nc_session_pin nc of None \<Rightarrow> True | Some ms \<Rightarrow> 60000 \<le> ms \<and> ms \<le> 86400000)
     \<and> nc_targets nc \<noteq> [] \<and> list_all (well_typed_row providers) (nc_targets nc)
     \<and> distinct (map (\<lambda>r. target_key (combo_target.truncate r)) (nc_targets nc))"

text \<open>
  Nothing that was written is lost, and what was left out, or written as null, has its documented
  default: failover, a sticky limit of one, no waiting, no effort and no labels, the plain modes,
  and a weight of one.
\<close>

definition settings_kept :: "json \<Rightarrow> normalized_combo \<Rightarrow> bool" where
  "settings_kept raw nc \<longleftrightarrow>
     nc_strategy nc = nullish (given ''strategy'' raw) (JStr ''failover'')
     \<and> nc_sticky nc = nullish (given ''stickyLimit'' raw) (JNum (Fin 1))
     \<and> nc_wait nc = nullish (given ''waitForCooldownMs'' raw) (JNum (Fin 0))
     \<and> nc_cooldown nc = given ''cooldownMs'' raw \<and> nc_first_byte nc = given ''firstByteTimeoutMs'' raw
     \<and> nc_ladder nc = given ''ladderBudgetMs'' raw
     \<and> nc_breaker_failures nc = given ''breakerFailureThreshold'' raw
     \<and> nc_breaker_successes nc = given ''breakerSuccessThreshold'' raw
     \<and> nc_breaker_open nc = given ''breakerOpenMs'' raw
     \<and> nc_decision_timeout nc = given ''decisionTimeoutMs'' raw
     \<and> nc_before_last_resort nc = (given ''cooldownWaitPolicy'' raw \<noteq> None)
     \<and> map_option JStr (nc_effort nc) = given ''defaultEffort'' raw
     \<and> nc_force_effort nc = (given ''defaultEffortMode'' raw = Some (JStr ''force''))
     \<and> nc_adaptive nc = (given ''reasoningEffortMode'' raw = Some (JStr ''adaptive''))
     \<and> nc_image_disabled nc = (given ''imageInput'' raw = Some (JStr ''disabled''))
     \<and> nc_allow_metered nc = (given ''allowMeteredTargets'' raw = Some (JBool True))
     \<and> nc_native_alias nc = (given ''nativeAlias'' raw = Some (JBool True))
     \<and> nc_quota_signals nc = (given ''decisionQuotaSignals'' raw = Some (JBool True))
     \<and> nc_alias nc = some_text (trimmed_text ''alias'' raw)
     \<and> nc_display_name nc = some_text (trimmed_text ''displayName'' raw)
     \<and> nc_description nc = some_text (trimmed_text ''description'' raw)
     \<and> map_option JStr (nc_decision_provider nc) = (if trimmed_text ''decisionProvider'' raw = ''jev'' then None
          else map_option (\<lambda>_. JStr (trimmed_text ''decisionProvider'' raw)) (given ''decisionProvider'' raw))
     \<and> map_option JStr (nc_decision_model nc)
         = map_option (\<lambda>_. JStr (trimmed_text ''decisionModel'' raw)) (given ''decisionModel'' raw)
     \<and> (nc_quota_tiers nc = None) = (given ''decisionQuotaTiers'' raw = None)
     \<and> (nc_session_pin nc = None) = (given ''sessionPin'' raw = None)
     \<and> (case json_get ''targets'' raw of Some (JArr ts) \<Rightarrow> list_all2 target_kept ts (nc_targets nc) | _ \<Rightarrow> False)"

lemma accepted_parts:
  assumes "combo_config_issues native endpoint i raw providers vo = []"
  shows "is_valid_combo_id i" "is_record raw" "number_issues raw = []" "mode_issues raw = []" "own_alias_issues i vo raw = []"
    "naming_issues native raw = []" "quota_setting_issues raw = []" "session_pin_issues raw = []"
    "decision_provider_issues endpoint providers vo raw = []" "decision_model_issues i vo raw = []"
    "decision_timeout_issues raw = []" "targets_issues providers vo raw = []"
    "\<forall>v. json_get ''strategy'' raw = Some v \<longrightarrow> one_of strategy_names v"
  using assms by (simp_all add: combo_config_issues_def identity_issues_def split: if_splits)

lemma accepted_alias:
  assumes "own_alias_issues i vo raw = []" and "trimmed_text ''alias'' raw \<noteq> []"
  shows "combo_alias_issues i (trimmed_text ''alias'' raw) (vo_combos vo) (vo_exclude vo) (flag_set ''nativeAlias'' raw) = []"
  using assms trimmed_text_some [OF assms(2)] by (auto simp: own_alias_issues_def split: if_splits)

lemma accepted_alias_shape:
  assumes "own_alias_issues i vo raw = []" and "trimmed_text ''alias'' raw \<noteq> []"
  shows "alias_shape (trimmed_text ''alias'' raw)" "trimmed_text ''alias'' raw \<noteq> combo_namespace"
    "\<not> prefix (combo_namespace @ ''/'') (trimmed_text ''alias'' raw)"
  using accepted_alias [OF assms] by (simp_all add: combo_alias_issues_def split: if_splits)

lemma given_some: "json_get k raw = Some v \<Longrightarrow> v \<noteq> JNull \<Longrightarrow> given k raw = Some v"
  by (simp add: given_def split: json.split)

lemma trimmed_given: "trimmed_text k raw \<noteq> [] \<Longrightarrow> given k raw \<noteq> None"
  using trimmed_text_some given_some by fastforce

lemma only_jev_settings:
  assumes "quota_setting_issues raw = []" "session_pin_issues raw = []"
    "decision_provider_issues endpoint providers vo raw = []" "decision_model_issues i vo raw = []"
    "decision_timeout_issues raw = []"
  shows "is_jev raw \<or> (trimmed_text ''decisionProvider'' raw = [] \<and> trimmed_text ''decisionModel'' raw = []
    \<and> given ''decisionTimeoutMs'' raw = None)"
    and "trimmed_text ''decisionProvider'' raw = [] \<or> trimmed_text ''decisionModel'' raw = []"
    and "given ''decisionTimeoutMs'' raw = Some v \<Longrightarrow> int_between 1000 120000 v"
proof -
  have p: "trimmed_text ''decisionProvider'' raw \<noteq> [] \<Longrightarrow> is_jev raw"
    using assms(3) trimmed_given [of "''decisionProvider''" raw]
    by (auto simp: decision_provider_issues_def Let_def split: option.splits if_splits)
  have m: "trimmed_text ''decisionModel'' raw \<noteq> [] \<Longrightarrow> is_jev raw \<and> given ''decisionProvider'' raw = None"
    using assms(4) trimmed_given [of "''decisionModel''" raw]
    by (auto simp: decision_model_issues_def Let_def split: option.splits if_splits)
  have t: "given ''decisionTimeoutMs'' raw = Some v \<Longrightarrow> is_jev raw \<and> int_between 1000 120000 v" for v
    using assms(5) by (auto simp: decision_timeout_issues_def split: if_splits)
  show "is_jev raw \<or> (trimmed_text ''decisionProvider'' raw = [] \<and> trimmed_text ''decisionModel'' raw = []
    \<and> given ''decisionTimeoutMs'' raw = None)"
    using p m t by (cases "given ''decisionTimeoutMs'' raw") auto
  show "trimmed_text ''decisionProvider'' raw = [] \<or> trimmed_text ''decisionModel'' raw = []"
    using m trimmed_given [of "''decisionProvider''" raw] by blast
  show "given ''decisionTimeoutMs'' raw = Some v \<Longrightarrow> int_between 1000 120000 v" using t by simp
qed

lemma accepted_strategy:
  assumes "\<forall>v. json_get ''strategy'' raw = Some v \<longrightarrow> one_of strategy_names v"
  shows "or_default ''strategy'' (JStr ''failover'') raw \<in> JStr ` set strategy_names"
    and "or_default ''strategy'' (JStr ''failover'') raw = JStr ''jev'' \<longleftrightarrow> is_jev raw"
  using assms
  by (auto simp: or_default_def given_def one_of_def is_jev_def strategy_names_def split: option.splits json.splits)


lemma accepted_tokens:
  assumes "mode_issues raw = []"
  shows "(case (case json_get ''defaultEffort'' raw of Some (JStr e) \<Rightarrow> if is_codex_reasoning_effort e then Some e else None
      | _ \<Rightarrow> None) of None \<Rightarrow> json_get ''defaultEffortMode'' raw \<noteq> Some (JStr ''force'') | Some e \<Rightarrow> is_codex_reasoning_effort e)"
  using assms by (auto simp: mode_issues_def is_effort_def split: option.splits json.splits if_splits)

lemma session_pin_range: "normalize_jev_session_pin v = Some ms \<Longrightarrow> 60000 \<le> ms \<and> ms \<le> 86400000"
  by (auto simp: normalize_jev_session_pin_def int_between_def split: json.splits list.splits prod.splits if_splits option.splits)

lemma normalized_fields:
  assumes "normalize_combo_config raw = Some nc"
  shows "nc_strategy nc = or_default ''strategy'' (JStr ''failover'') raw"
    "nc_sticky nc = or_default ''stickyLimit'' (JNum (Fin 1)) raw"
    "nc_cooldown nc = json_get ''cooldownMs'' raw" "nc_first_byte nc = json_get ''firstByteTimeoutMs'' raw"
    "nc_ladder nc = json_get ''ladderBudgetMs'' raw"
    "nc_breaker_failures nc = json_get ''breakerFailureThreshold'' raw"
    "nc_breaker_successes nc = json_get ''breakerSuccessThreshold'' raw"
    "nc_breaker_open nc = json_get ''breakerOpenMs'' raw"
    "nc_wait nc = or_default ''waitForCooldownMs'' (JNum (Fin 0)) raw"
    "nc_effort nc = (case json_get ''defaultEffort'' raw of
       Some (JStr e) \<Rightarrow> if is_codex_reasoning_effort e then Some e else None | _ \<Rightarrow> None)"
    "nc_force_effort nc \<longleftrightarrow> json_get ''defaultEffortMode'' raw = Some (JStr ''force'') \<and> nc_effort nc \<noteq> None"
    "nc_alias nc = some_text (trimmed_text ''alias'' raw)" "nc_native_alias nc = flag_set ''nativeAlias'' raw"
    "nc_display_name nc = some_text (trimmed_text ''displayName'' raw)"
    "nc_decision_provider nc = (if trimmed_text ''decisionProvider'' raw = ''jev'' then None
       else some_text (trimmed_text ''decisionProvider'' raw))"
    "nc_decision_model nc = some_text (trimmed_text ''decisionModel'' raw)"
    "nc_decision_timeout nc = (case json_get ''decisionTimeoutMs'' raw of Some (JNum x) \<Rightarrow> Some (JNum x) | _ \<Rightarrow> None)"
    "nc_quota_signals nc \<longleftrightarrow> is_jev raw \<and> flag_set ''decisionQuotaSignals'' raw"
    "nc_quota_tiers nc = (if is_jev raw then Option.bind (json_get ''decisionQuotaTiers'' raw) normalize_jev_quota_tiers else None)"
    "nc_session_pin nc = (if is_jev raw then Option.bind (json_get ''sessionPin'' raw) normalize_jev_session_pin else None)"
    "nc_description nc = some_text (trimmed_text ''description'' raw)"
    "nc_allow_metered nc = flag_set ''allowMeteredTargets'' raw"
    "nc_before_last_resort nc \<longleftrightarrow> json_get ''cooldownWaitPolicy'' raw = Some (JStr ''before-last-resort'')"
    "nc_adaptive nc \<longleftrightarrow> json_get ''reasoningEffortMode'' raw = Some (JStr ''adaptive'')"
    "nc_image_disabled nc \<longleftrightarrow> json_get ''imageInput'' raw = Some (JStr ''disabled'')"
proof -
  obtain ts where ts: "json_get ''targets'' raw = Some (JArr ts)"
    using assms by (auto simp: normalize_combo_config_def Let_def split: option.splits json.splits)
  then obtain rows where rows: "all_some (map normalize_target ts) = Some rows"
    using assms by (auto simp: normalize_combo_config_def Let_def)
  note eq = assms [unfolded normalize_combo_config_def Let_def ts option.case json.case rows option.map option.inject, symmetric]
  show "nc_strategy nc = or_default ''strategy'' (JStr ''failover'') raw"
    "nc_sticky nc = or_default ''stickyLimit'' (JNum (Fin 1)) raw"
    "nc_cooldown nc = json_get ''cooldownMs'' raw" "nc_first_byte nc = json_get ''firstByteTimeoutMs'' raw"
    "nc_ladder nc = json_get ''ladderBudgetMs'' raw"
    "nc_breaker_failures nc = json_get ''breakerFailureThreshold'' raw"
    "nc_breaker_successes nc = json_get ''breakerSuccessThreshold'' raw"
    "nc_breaker_open nc = json_get ''breakerOpenMs'' raw"
    "nc_wait nc = or_default ''waitForCooldownMs'' (JNum (Fin 0)) raw"
    "nc_effort nc = (case json_get ''defaultEffort'' raw of
       Some (JStr e) \<Rightarrow> if is_codex_reasoning_effort e then Some e else None | _ \<Rightarrow> None)"
    "nc_force_effort nc \<longleftrightarrow> json_get ''defaultEffortMode'' raw = Some (JStr ''force'') \<and> nc_effort nc \<noteq> None"
    "nc_alias nc = some_text (trimmed_text ''alias'' raw)" "nc_native_alias nc = flag_set ''nativeAlias'' raw"
    "nc_display_name nc = some_text (trimmed_text ''displayName'' raw)"
    "nc_decision_provider nc = (if trimmed_text ''decisionProvider'' raw = ''jev'' then None
       else some_text (trimmed_text ''decisionProvider'' raw))"
    "nc_decision_model nc = some_text (trimmed_text ''decisionModel'' raw)"
    "nc_decision_timeout nc = (case json_get ''decisionTimeoutMs'' raw of Some (JNum x) \<Rightarrow> Some (JNum x) | _ \<Rightarrow> None)"
    "nc_quota_signals nc \<longleftrightarrow> is_jev raw \<and> flag_set ''decisionQuotaSignals'' raw"
    "nc_quota_tiers nc = (if is_jev raw then Option.bind (json_get ''decisionQuotaTiers'' raw) normalize_jev_quota_tiers else None)"
    "nc_session_pin nc = (if is_jev raw then Option.bind (json_get ''sessionPin'' raw) normalize_jev_session_pin else None)"
    "nc_description nc = some_text (trimmed_text ''description'' raw)"
    "nc_allow_metered nc = flag_set ''allowMeteredTargets'' raw"
    "nc_before_last_resort nc \<longleftrightarrow> json_get ''cooldownWaitPolicy'' raw = Some (JStr ''before-last-resort'')"
    "nc_adaptive nc \<longleftrightarrow> json_get ''reasoningEffortMode'' raw = Some (JStr ''adaptive'')"
    "nc_image_disabled nc \<longleftrightarrow> json_get ''imageInput'' raw = Some (JStr ''disabled'')"
    unfolding eq normalized_combo.simps by (rule refl)+
qed

text \<open>Labels, quota thresholds and the decision service of an accepted definition.\<close>

lemma accepted_label:
  assumes "label_issue bad k raw = []"
  shows "label_ok bad (some_text (trimmed_text k raw))"
  using assms js_trim_free [of bad]
  by (auto simp: label_issue_def label_ok_def some_text_def trimmed_text_def split: option.splits json.splits if_splits)

lemma normalized_tiers:
  assumes "normalize_jev_quota_tiers v = Some qt"
  shows "tiers_ok qt"
proof -
  have r: "tier_value d k u = Some (Some x) \<Longrightarrow> d = Some x \<or> (0 \<le> x \<and> x \<le> 100)" for d k u x
    by (auto simp: tier_value_def percentage_def split: option.splits json.splits jsnum.splits if_splits)
  show ?thesis
    using assms
    by (auto simp: normalize_jev_quota_tiers_def tiers_ok_def split: json.splits option.splits if_splits dest!: r)
qed

lemma accepted_quota_tiers:
  assumes "quota_setting_issues raw = []"
  shows "flag_set ''decisionQuotaSignals'' raw \<Longrightarrow> is_jev raw"
    and "(if is_jev raw then Option.bind (json_get ''decisionQuotaTiers'' raw) normalize_jev_quota_tiers else None) = None
      \<longleftrightarrow> given ''decisionQuotaTiers'' raw = None"
proof -
  show "flag_set ''decisionQuotaSignals'' raw \<Longrightarrow> is_jev raw"
    using assms by (auto simp: quota_setting_issues_def flag_set_def given_def split: if_splits)
  have n: "normalize_jev_quota_tiers JNull = None" by (simp add: normalize_jev_quota_tiers_def)
  show "(if is_jev raw then Option.bind (json_get ''decisionQuotaTiers'' raw) normalize_jev_quota_tiers else None) = None
      \<longleftrightarrow> given ''decisionQuotaTiers'' raw = None"
    using assms n
    by (auto simp: quota_setting_issues_def given_def split: option.splits json.splits if_splits)
qed

lemma accepted_session_pin:
  assumes "session_pin_issues raw = []"
  shows "(if is_jev raw then Option.bind (json_get ''sessionPin'' raw) normalize_jev_session_pin else None) = None
    \<longleftrightarrow> given ''sessionPin'' raw = None"
proof -
  have n: "normalize_jev_session_pin JNull = None" by (simp add: normalize_jev_session_pin_def)
  show ?thesis
    using assms n by (auto simp: session_pin_issues_def given_def split: option.splits json.splits if_splits)
qed

lemma accepted_decision:
  assumes "decision_provider_issues endpoint providers vo raw = []" "decision_model_issues i vo raw = []"
  shows "trimmed_text ''decisionProvider'' raw \<noteq> [] \<longleftrightarrow> given ''decisionProvider'' raw \<noteq> None"
    and "trimmed_text ''decisionProvider'' raw \<noteq> [] \<Longrightarrow> trimmed_text ''decisionProvider'' raw \<noteq> ''jev''
      \<Longrightarrow> decision_service endpoint providers (trimmed_text ''decisionProvider'' raw)"
    and "trimmed_text ''decisionModel'' raw \<noteq> [] \<longleftrightarrow> given ''decisionModel'' raw \<noteq> None"
    and "length (trimmed_text ''decisionModel'' raw) \<le> 512"
proof -
  have p: "given ''decisionProvider'' raw \<noteq> None \<Longrightarrow> trimmed_text ''decisionProvider'' raw \<noteq> []
      \<and> (trimmed_text ''decisionProvider'' raw \<noteq> ''jev''
        \<longrightarrow> decision_service endpoint providers (trimmed_text ''decisionProvider'' raw))"
    using assms(1)
    by (auto simp: decision_provider_issues_def decision_service_def Let_def split: option.splits if_splits)
  have m: "given ''decisionModel'' raw \<noteq> None \<Longrightarrow> trimmed_text ''decisionModel'' raw \<noteq> []
      \<and> length (trimmed_text ''decisionModel'' raw) \<le> 512"
    using assms(2) by (auto simp: decision_model_issues_def Let_def split: option.splits if_splits)
  show "trimmed_text ''decisionProvider'' raw \<noteq> [] \<longleftrightarrow> given ''decisionProvider'' raw \<noteq> None"
    "trimmed_text ''decisionProvider'' raw \<noteq> [] \<Longrightarrow> trimmed_text ''decisionProvider'' raw \<noteq> ''jev''
      \<Longrightarrow> decision_service endpoint providers (trimmed_text ''decisionProvider'' raw)"
    "trimmed_text ''decisionModel'' raw \<noteq> [] \<longleftrightarrow> given ''decisionModel'' raw \<noteq> None"
    "length (trimmed_text ''decisionModel'' raw) \<le> 512"
    using p m trimmed_given [of "''decisionProvider''" raw] trimmed_given [of "''decisionModel''" raw] by force+
qed

lemma given_number:
  assumes "\<forall>v. json_get k raw = Some v \<longrightarrow> int_between lo hi v"
  shows "json_get k raw = given k raw"
  using assms int_between_not_null [of lo hi] by (auto simp: given_def split: option.split json.split)

lemma given_value: "v \<noteq> JNull \<Longrightarrow> json_get k raw = Some v \<longleftrightarrow> given k raw = Some v"
  by (auto simp: given_def split: option.splits json.splits)

lemma one_of_single: "one_of [x] v \<longleftrightarrow> v = JStr x"
  by (cases v) (auto simp: one_of_def)

lemma accepted_modes:
  assumes "mode_issues raw = []"
  shows "json_get ''cooldownWaitPolicy'' raw = Some (JStr ''before-last-resort'') \<longleftrightarrow> given ''cooldownWaitPolicy'' raw \<noteq> None"
    and "map_option JStr (case json_get ''defaultEffort'' raw of
       Some (JStr e) \<Rightarrow> if is_codex_reasoning_effort e then Some e else None | _ \<Rightarrow> None) = given ''defaultEffort'' raw"
proof -
  have w: "\<forall>v. json_get ''cooldownWaitPolicy'' raw = Some v \<longrightarrow> v = JNull \<or> v = JStr ''before-last-resort''"
    and e: "\<forall>v. json_get ''defaultEffort'' raw = Some v \<longrightarrow> v = JNull \<or> is_effort v"
  proof -
    have "\<forall>v. json_get ''cooldownWaitPolicy'' raw = Some v \<longrightarrow> or_null (one_of [''before-last-resort'']) v"
      "\<forall>v. json_get ''defaultEffort'' raw = Some v \<longrightarrow> or_null is_effort v"
      using assms unfolding mode_issues_def append_is_Nil_conv field_issue_none by blast+
    then show "\<forall>v. json_get ''cooldownWaitPolicy'' raw = Some v \<longrightarrow> v = JNull \<or> v = JStr ''before-last-resort''"
      "\<forall>v. json_get ''defaultEffort'' raw = Some v \<longrightarrow> v = JNull \<or> is_effort v"
      by (auto simp: or_null_def one_of_single)
  qed
  show "json_get ''cooldownWaitPolicy'' raw = Some (JStr ''before-last-resort'') \<longleftrightarrow> given ''cooldownWaitPolicy'' raw \<noteq> None"
    using w by (cases "json_get ''cooldownWaitPolicy'' raw") (auto simp: given_def)
  show "map_option JStr (case json_get ''defaultEffort'' raw of
       Some (JStr e) \<Rightarrow> if is_codex_reasoning_effort e then Some e else None | _ \<Rightarrow> None) = given ''defaultEffort'' raw"
    using e by (cases "json_get ''defaultEffort'' raw") (auto simp: given_def is_effort_def split: json.splits)
qed

lemma accepted_settings_kept:
  assumes acc: "number_issues raw = []" "mode_issues raw = []" "quota_setting_issues raw = []" "session_pin_issues raw = []"
    "decision_provider_issues endpoint providers vo raw = []" "decision_model_issues i vo raw = []" "decision_timeout_issues raw = []"
    and nc: "normalize_combo_config raw = Some nc" and ts: "json_get ''targets'' raw = Some (JArr ts)"
    and rows: "list_all2 target_kept ts (nc_targets nc)"
  shows "settings_kept raw nc"
proof -
  note fs = normalized_fields [OF nc] and d = accepted_decision [OF acc(5,6)] and m = accepted_modes [OF acc(2)]
    and q = accepted_quota_tiers [OF acc(3)] and sp = accepted_session_pin [OF acc(4)]
  have n: "nc_cooldown nc = given ''cooldownMs'' raw" "nc_first_byte nc = given ''firstByteTimeoutMs'' raw"
    "nc_ladder nc = given ''ladderBudgetMs'' raw" "nc_breaker_failures nc = given ''breakerFailureThreshold'' raw"
    "nc_breaker_successes nc = given ''breakerSuccessThreshold'' raw" "nc_breaker_open nc = given ''breakerOpenMs'' raw"
    using acc(1) unfolding fs(3-8) number_issues_def by (auto intro: given_number)
  have t: "nc_decision_timeout nc = given ''decisionTimeoutMs'' raw"
    using acc(7) unfolding fs(17)
    by (auto simp: decision_timeout_issues_def given_def int_between_def js_integer_def split: option.splits json.splits if_splits)
  have e: "map_option JStr (nc_effort nc) = given ''defaultEffort'' raw" unfolding fs(10) by (rule m(2))
  have f: "nc_force_effort nc = (given ''defaultEffortMode'' raw = Some (JStr ''force''))"
    using accepted_tokens [OF acc(2)] given_value [of "JStr ''force''" "''defaultEffortMode''" raw]
    unfolding fs(11) unfolding fs(10) by (simp split: option.splits)
  have s: "nc_quota_signals nc = (given ''decisionQuotaSignals'' raw = Some (JBool True))"
    using q(1) given_value [of "JBool True" "''decisionQuotaSignals''" raw] unfolding fs(18) by (auto simp: flag_set_def)
  have pr: "map_option JStr (nc_decision_provider nc) = (if trimmed_text ''decisionProvider'' raw = ''jev'' then None
          else map_option (\<lambda>_. JStr (trimmed_text ''decisionProvider'' raw)) (given ''decisionProvider'' raw))"
    using d(1) unfolding fs(15) by (cases "given ''decisionProvider'' raw") (auto simp: some_text_def)
  have md: "map_option JStr (nc_decision_model nc) = map_option (\<lambda>_. JStr (trimmed_text ''decisionModel'' raw)) (given ''decisionModel'' raw)"
    using d(3) unfolding fs(16) by (cases "given ''decisionModel'' raw") (auto simp: some_text_def)
  have k: "nc_adaptive nc = (given ''reasoningEffortMode'' raw = Some (JStr ''adaptive''))"
    "nc_image_disabled nc = (given ''imageInput'' raw = Some (JStr ''disabled''))"
    "nc_allow_metered nc = (given ''allowMeteredTargets'' raw = Some (JBool True))"
    "nc_native_alias nc = (given ''nativeAlias'' raw = Some (JBool True))"
    unfolding fs(13,22,24,25) by (simp_all add: flag_set_def given_value)
  have z: "nc_quota_tiers nc = None \<longleftrightarrow> given ''decisionQuotaTiers'' raw = None"
    "nc_session_pin nc = None \<longleftrightarrow> given ''sessionPin'' raw = None"
    unfolding fs(19,20) by (rule q(2), rule sp)
  have w: "nc_before_last_resort nc \<longleftrightarrow> given ''cooldownWaitPolicy'' raw \<noteq> None" unfolding fs(23) by (rule m(1))
  show ?thesis
    unfolding settings_kept_def
    by (intro conjI) (use n t e f s pr md k z w rows in \<open>simp_all add: fs(1,2,9,12,14,21) or_default_def ts\<close>)
qed



text \<open>Two relays and a combo over them.\<close>

definition plain_provider :: "string option \<Rightarrow> provider_row" where
  "plain_provider a = \<lparr>pr_alias = a, pr_model_aliases = [], pr_adapter = ''openai'', pr_base_url = [],
     pr_disabled = False, pr_default_model = None, pr_models = []\<rparr>"

definition two_relays :: "(string, provider_row) jsmap" where
  "two_relays = [(''a'', plain_provider None), (''b'', plain_provider (Some ''fast''))]"

definition raw_target :: "string \<Rightarrow> json" where
  "raw_target p = JObj [(''provider'', JStr p), (''model'', JStr ''m'')]"

definition raw_combo :: "string \<Rightarrow> json" where
  "raw_combo a = JObj [(''strategy'', JStr ''round-robin''), (''alias'', JStr a),
     (''targets'', JArr [raw_target ''a'', raw_target ''b''])]"

definition no_options :: "(string, json) jsmap \<Rightarrow> validation_options" where
  "no_options combos = \<lparr>vo_require_enabled = False, vo_require_usable_decision = False, vo_combos = Some combos,
     vo_normalize_model = (\<lambda>m. m), vo_exclude = None\<rparr>"

abbreviation demo_issues :: "string \<Rightarrow> issue list" where
  "demo_issues a \<equiv> combo_config_issues (\<lambda>m. False) (\<lambda>u. False) ''pair'' (raw_combo a) two_relays
     (no_options [(''pair'', raw_combo a)])"


lemmas demo_defs = raw_combo_def raw_target_def two_relays_def plain_provider_def no_options_def

lemma demo_trim: "js_trim ''quick'' = ''quick''" "js_trim ''a'' = ''a''" "js_trim ''b'' = ''b''" "js_trim ''m'' = ''m''"
  "js_trim ''fast'' = ''fast''" "js_trim '' fast'' = ''fast''"
  by (simp_all add: js_trim_def is_js_space_def)

lemma demo_lower: "to_lower ''quick'' = ''quick''" "to_lower ''fast'' = ''fast''" "to_lower '' fast'' = '' fast''"
  by (simp_all add: to_lower_def lower_char_def)

lemma demo_alias: "alias_shape ''quick''" "alias_shape ''fast''" "is_valid_combo_id ''pair''"
  by (simp_all add: alias_shape_def is_valid_combo_id_def id_start_def id_char_def)

lemma demo_own: "own_target_issues two_relays i (raw_target ''a'') = []" "own_target_issues two_relays i (raw_target ''b'') = []"
  by (simp_all add: own_target_issues_def demo_defs target_provider_issues_def Let_def trimmed_text_def demo_trim
      target_field_issue_def efforts_issues_def)

lemma demo_accepted:
  assumes "a = ''quick'' \<or> a = '' fast''"
  shows "demo_issues a = []"
proof -
  have t: "target_issues two_relays 0 [] [raw_target ''a'', raw_target ''b''] = ([], 2, 2)"
    apply (simp add: Let_def demo_own)
    by (simp add: demo_defs is_record_def raw_target_key_def trimmed_text_def demo_trim target_provider_issues_def Let_def)
  have "targets_issues two_relays (no_options cs) (raw_combo a) = []" for cs
    using t by (simp add: targets_issues_def raw_combo_def no_options_def)
  moreover have "identity_issues ''pair'' two_relays = []"
    by (simp add: identity_issues_def demo_alias demo_defs combo_namespace_def)
  moreover have "provider_alias_issues two_relays (raw_combo a) = []"
    using assms by (auto simp: provider_alias_issues_def demo_defs demo_lower)
  moreover have "own_alias_issues ''pair'' (no_options [(''pair'', raw_combo a)]) (raw_combo a) = []"
    using assms by (auto simp: own_alias_issues_def demo_defs demo_trim combo_alias_issues_def demo_alias combo_namespace_def
      native_family_def)
  ultimately show ?thesis
    by (simp add: combo_config_issues_def)
       (simp add: raw_combo_def is_record_def one_of_def strategy_names_def number_issues_def mode_issues_def naming_issues_def
        flag_set_def label_issue_def quota_setting_issues_def given_def session_pin_issues_def
        decision_provider_issues_def decision_model_issues_def decision_timeout_issues_def)
qed


text \<open>
  The alias is compared with the aliases of providers as it was written, and stored trimmed: a
  space in front hides the collision that is refused without it.
\<close>

lemma padded_alias_collides:
  "demo_issues ''fast'' \<noteq> [] \<and> demo_issues '' fast'' = []
   \<and> trimmed_text ''alias'' (raw_combo '' fast'') = ''fast''
   \<and> map_option pr_alias (map_of two_relays ''b'') = Some (Some ''fast'')"
proof -
  have "provider_alias_issues two_relays (raw_combo ''fast'') \<noteq> []"
    by (simp add: provider_alias_issues_def demo_defs demo_lower)
  then have "demo_issues ''fast'' \<noteq> []"
    by (simp add: combo_config_issues_def is_record_def raw_combo_def)
  then show ?thesis
    using demo_accepted [of "'' fast''"] by (simp add: trimmed_text_def demo_defs demo_trim)
qed


section \<open>Public names\<close>

lemma valid_id_no_slash: "is_valid_combo_id i \<Longrightarrow> i \<noteq> [] \<and> CHR ''/'' \<notin> set i"
proof -
  assume v: "is_valid_combo_id i"
  have "\<not> id_start (CHR ''/'')" "\<not> id_char (CHR ''/'')" by (simp_all add: id_start_def id_char_def)
  then show ?thesis using v by (cases i) (auto simp: is_valid_combo_id_def list_all_iff)
qed

lemma parse_combo_model: "i \<noteq> [] \<Longrightarrow> parse_combo_model_id (combo_model_id i) = Some i"
  by (simp add: parse_combo_model_id_def combo_model_id_def combo_namespace_def)

lemma parse_other:
  assumes "\<not> prefix (combo_namespace @ ''/'') m"
  shows "parse_combo_model_id m = None"
proof -
  have "m = takeWhile (\<lambda>c. c \<noteq> CHR ''/'') m @ dropWhile (\<lambda>c. c \<noteq> CHR ''/'') m" by simp
  moreover have "dropWhile (\<lambda>c. c \<noteq> CHR ''/'') m = c # cs \<Longrightarrow> c = CHR ''/''" for c cs
    by (simp add: dropWhile_eq_Cons_conv)
  ultimately have n: "takeWhile (\<lambda>c. c \<noteq> CHR ''/'') m \<noteq> combo_namespace"
    if "dropWhile (\<lambda>c. c \<noteq> CHR ''/'') m = c # cs" for c cs
    using assms that by (metis append.assoc append_Cons append_Nil prefixI)
  show ?thesis
  proof (cases "dropWhile (\<lambda>c. c \<noteq> CHR ''/'') m")
    case Nil
    then show ?thesis unfolding parse_combo_model_id_def Nil by (simp only: list.case)
  next
    case (Cons c cs)
    then show ?thesis unfolding parse_combo_model_id_def Cons by (simp add: n [OF Cons])
  qed
qed

lemma alias_unique:
  assumes "combo_alias_issues i a (Some cs) exclude allow = []" and "exclude \<in> {None, Some i}"
    and "(j, raw') \<in> set cs" and "trimmed_text ''alias'' raw' = a" and "a \<noteq> []"
  shows "j = i"
  using assms
  by (auto simp: combo_alias_issues_def map_filter_def filter_empty_conv split: if_splits)

lemma find_unique:
  assumes "x \<in> set xs" and "P x" and "\<And>y. y \<in> set xs \<Longrightarrow> P y \<Longrightarrow> fst y = fst x"
  shows "map_option fst (find P xs) = Some (fst x)"
  using assms
proof (induction xs)
  case (Cons y ys)
  show ?case
  proof (cases "P y")
    case True
    then show ?thesis using Cons.prems(3) [of y] by simp
  next
    case False
    then have "x \<in> set ys" using Cons.prems(1,2) by auto
    from Cons.IH [OF this Cons.prems(2)] Cons.prems(3) False show ?thesis by (metis find.simps(2) list.set_intros(2))
  qed
qed simp

lemma alias_resolves:
  assumes "(i, raw) \<in> set cs" and "trimmed_text ''alias'' raw = a" and "a \<noteq> []"
    and "combo_alias_issues i a (Some cs) exclude allow = []" and "exclude \<in> {None, Some i}"
    and "\<not> prefix (combo_namespace @ ''/'') a"
  shows "resolve_combo_id (Some cs) a = Some i"
proof -
  let ?P = "\<lambda>(j, raw'). trimmed_text ''alias'' raw' \<noteq> [] \<and> trimmed_text ''alias'' raw' = a"
  have u: "fst y = fst (i, raw)" if y: "y \<in> set cs" "?P y" for y
  proof -
    obtain j raw' where e: "y = (j, raw')" by (cases y)
    have "j = i"
      by (rule alias_unique [OF assms(4,5) y(1) [unfolded e] _ assms(3)]) (use y(2) [unfolded e] in simp)
    then show ?thesis by (simp add: e)
  qed
  have "?P (i, raw)" using assms(2,3) by simp
  from find_unique [where P = ?P, OF assms(1) this u]
  have "map_option fst (find ?P cs) = Some i" by (simp only: fst_conv)
  then show ?thesis unfolding resolve_combo_id_def parse_other [OF assms(6)] by (simp only: option.case)
qed

text \<open>C24. The public name of an accepted combo, and every selector that can hide it, resolve to that
combo and to no other combo. (A provider or a model may still share the name, see
\<open>padded_alias_collides\<close> below.)\<close>

theorem public_names_resolve:
  assumes "jm_wf cs" and "map_of cs i = Some raw"
    and "combo_config_issues native endpoint i raw providers vo = []"
    and "vo_combos vo = Some cs" and "vo_exclude vo \<in> {None, Some i}"
  shows "resolve_combo_id (Some cs) (combo_public_model_id i raw) = Some i
    \<and> list_all (\<lambda>m. resolve_combo_id (Some cs) m = Some i) (combo_disabled_model_selectors native i raw)"
proof -
  note acc = accepted_parts [OF assms(3)]
  have direct: "resolve_combo_id (Some cs) (combo_model_id i) = Some i"
    using valid_id_no_slash [OF acc(1)] by (simp add: resolve_combo_id_def parse_combo_model)
  have mem: "(i, raw) \<in> set cs" by (rule map_of_SomeD [OF assms(2)])
  have public: "resolve_combo_id (Some cs) (combo_public_model_id i raw) = Some i"
  proof (cases "trimmed_text ''alias'' raw = []")
    case True
    with direct show ?thesis by (simp add: combo_public_model_id_def)
  next
    case False
    have p: "combo_public_model_id i raw = trimmed_text ''alias'' raw" using False by (simp add: combo_public_model_id_def)
    show ?thesis unfolding p
      by (rule alias_resolves [OF mem refl False accepted_alias [OF acc(5) False, unfolded assms(4)] assms(5)
        accepted_alias_shape(3) [OF acc(5) False]])
  qed
  with direct show ?thesis
    by (simp add: combo_disabled_model_selectors_def combo_disabled_model_id_def Let_def)
qed

theorem public_names_resolve_witness:
  "resolve_combo_id (Some [(''pair'', raw_combo ''quick'')]) (combo_public_model_id ''pair'' (raw_combo ''quick'')) = Some ''pair''"
proof -
  have c: "jm_wf [(''pair'', raw_combo ''quick'')]" "map_of [(''pair'', raw_combo ''quick'')] ''pair'' = Some (raw_combo ''quick'')"
    "vo_combos (no_options [(''pair'', raw_combo ''quick'')]) = Some [(''pair'', raw_combo ''quick'')]"
    "vo_exclude (no_options [(''pair'', raw_combo ''quick'')]) \<in> {None, Some ''pair''}"
    by (simp_all add: no_options_def)
  from public_names_resolve [OF c(1,2) demo_accepted [OF disjI1 [OF refl]] c(3,4)] show ?thesis ..
qed


section \<open>Quota tiers\<close>

lemma normalized_tiers_ascend:
  assumes "normalize_jev_quota_tiers v = Some t"
  shows "0 \<le> qt_limited t \<and> qt_limited t < qt_nearly_exhausted t \<and> qt_nearly_exhausted t \<le> 100
    \<and> (case qt_moderate t of None \<Rightarrow> True | Some x \<Rightarrow> 0 \<le> x \<and> x < qt_limited t)"
  using assms
  by (auto simp: normalize_jev_quota_tiers_def tier_value_def percentage_def
      split: json.splits if_splits option.splits jsnum.splits)

text \<open>More use is never a better tier, and the top of the range is the last tier.\<close>

lemma quota_rank_monotone:
  assumes "normalize_jev_quota_tiers v = Some t" and "p \<le> q" and "q \<le> 100"
  shows "jev_quota_rank (jev_quota_tier (Fin p) t) \<le> jev_quota_rank (jev_quota_tier (Fin q) t)
    \<and> jev_quota_tier (Fin 100) t = NearlyExhausted"
  using assms(2,3) normalized_tiers_ascend [OF assms(1)]
  by (auto simp: jev_quota_tier_def split: option.splits)

end
