(* ===== verification/Request_Pacing.thy ===== *)
theory Request_Pacing
  imports Combo_Pick
begin

text \<open>
  Pacing of the requests to a provider (\<open>providers/request-pacing.ts\<close>): one queue per provider,
  spacing between starts and caps on requests in flight, per provider, model and key. A pacer is the
  state object of the module; the slots it has handed out and the microtasks it has scheduled are part
  of it, because they act on it later. Promises are settled by events. The clock is read where the
  code reads it, the loop over the retired keys reading it once; \<open>aborted\<close> tells whether the signal
  of a waiter has been raised. A model id that is absent or empty is \<open>None\<close>, and the digest of a key
  is a parameter.
\<close>

section \<open>Policy\<close>

record pacing_rule =
  rule_per_minute :: "rat option"
  rule_min_interval :: "rat option"
  rule_max_concurrent :: "rat option"

record pacing_policy = pacing_rule +
  pol_enabled :: bool
  pol_keys :: "pacing_rule option"
  pol_round_robin :: bool
  pol_models :: "(string, pacing_rule) jsmap"

text \<open>What pacing reads of a provider; \<open>pv_reference\<close> is the reference of the current key attempt, the pool
  holds the ids and keys of its credentials.\<close>

record paced_provider =
  pv_policy :: "pacing_policy option"
  pv_key_auth :: bool
  pv_api_key :: "string option"
  pv_reference :: "string option"
  pv_pool :: "(string \<times> string) list"

definition positive :: "rat option \<Rightarrow> rat" where
  "positive x = (case x of Some q \<Rightarrow> if q > 0 then q else 0 | None \<Rightarrow> 0)"

definition normalized_interval :: "'a pacing_rule_scheme option \<Rightarrow> rat" where
  "normalized_interval rule = (case rule of
     None \<Rightarrow> 0
   | Some r \<Rightarrow> max (if positive (rule_per_minute r) > 0 then 60000 / positive (rule_per_minute r) else 0)
       (positive (rule_min_interval r)))"

definition normalized_max_concurrent :: "'a pacing_rule_scheme option \<Rightarrow> nat" where
  "normalized_max_concurrent rule = (case rule of
     None \<Rightarrow> 0
   | Some r \<Rightarrow> if positive (rule_max_concurrent r) > 0
       then max 1 (nat \<lfloor>positive (rule_max_concurrent r)\<rfloor>) else 0)"

text \<open>The bucket of a key: its digest, when keys are paced or rotated.\<close>

definition key_bucket :: "(string \<Rightarrow> string) \<Rightarrow> paced_provider \<Rightarrow> string option" where
  "key_bucket digest pv = (case (pv_policy pv, pv_api_key pv) of
     (Some pol, Some k) \<Rightarrow>
       if \<not> pv_key_auth pv \<or> k = [] then None
       else if \<not> pol_enabled pol \<or> (pol_keys pol = None \<and> \<not> pol_round_robin pol) then None
       else Some (digest (nullish (pv_reference pv) k))
   | _ \<Rightarrow> None)"

definition pool_bucket :: "(string \<Rightarrow> string) \<Rightarrow> paced_provider \<Rightarrow> string \<Rightarrow> string option" where
  "pool_bucket digest pv k = key_bucket digest (pv\<lparr>pv_api_key := Some k, pv_reference := None\<rparr>)"

record limits =
  lm_key :: "string option"
  lm_key_lease :: bool
  lm_key_interval :: rat
  lm_key_max :: nat
  lm_provider_interval :: rat
  lm_model_interval :: rat
  lm_provider_max :: nat
  lm_model_max :: nat

definition model_rule :: "pacing_policy \<Rightarrow> string option \<Rightarrow> pacing_rule option" where
  "model_rule pol model = (case model of None \<Rightarrow> None | Some m \<Rightarrow> map_of (pol_models pol) m)"

definition request_pacing_interval_ms :: "(string \<Rightarrow> string) \<Rightarrow> paced_provider \<Rightarrow> string option \<Rightarrow> rat" where
  "request_pacing_interval_ms digest pv model = (case pv_policy pv of
     None \<Rightarrow> 0
   | Some pol \<Rightarrow> if \<not> pol_enabled pol then 0
       else max (max (normalized_interval (Some pol)) (normalized_interval (model_rule pol model)))
         (if key_bucket digest pv \<noteq> None then normalized_interval (pol_keys pol) else 0))"

definition no_limits :: limits where
  "no_limits = \<lparr>lm_key = None, lm_key_lease = False, lm_key_interval = 0, lm_key_max = 0,
     lm_provider_interval = 0, lm_model_interval = 0, lm_provider_max = 0, lm_model_max = 0\<rparr>"

definition request_pacing_intervals :: "(string \<Rightarrow> string) \<Rightarrow> paced_provider \<Rightarrow> string option \<Rightarrow> limits" where
  "request_pacing_intervals digest pv model = (case pv_policy pv of
     None \<Rightarrow> no_limits
   | Some pol \<Rightarrow> if \<not> pol_enabled pol then no_limits
       else (let k = key_bucket digest pv
         in \<lparr>lm_key = k, lm_key_lease = True,
             lm_key_interval = (if k \<noteq> None then normalized_interval (pol_keys pol) else 0),
             lm_key_max = (if k \<noteq> None then normalized_max_concurrent (pol_keys pol) else 0),
             lm_provider_interval = normalized_interval (Some pol),
             lm_model_interval = normalized_interval (model_rule pol model),
             lm_provider_max = normalized_max_concurrent (Some pol),
             lm_model_max = normalized_max_concurrent (model_rule pol model)\<rparr>))"

definition request_pacing_max_concurrent :: "(string \<Rightarrow> string) \<Rightarrow> paced_provider \<Rightarrow> string option \<Rightarrow> nat" where
  "request_pacing_max_concurrent digest pv model =
     (let l = request_pacing_intervals digest pv model in max (lm_provider_max l) (max (lm_model_max l) (lm_key_max l)))"

text \<open>A follow-up send of a turn that holds a lease is spaced but takes no lease.\<close>

definition without_leases :: "limits \<Rightarrow> limits" where
  "without_leases l = l\<lparr>lm_key_lease := False, lm_key_max := 0, lm_provider_max := 0, lm_model_max := 0\<rparr>"

definition is_paced :: "limits \<Rightarrow> bool \<Rightarrow> bool" where
  "is_paced l concurrency \<longleftrightarrow> max (lm_provider_interval l) (lm_model_interval l) > 0 \<or> lm_key l \<noteq> None
     \<or> concurrency \<and> (lm_provider_max l > 0 \<or> lm_model_max l > 0)"


section \<open>State\<close>

record waiter = limits +
  wt_id :: nat
  wt_model :: "string option"
  wt_queued_at :: rat

record slot =
  sl_waiter :: waiter
  sl_released :: bool
  sl_tracked :: bool

text \<open>A scheduled run of the queue; the one of a release first takes over a pending timer.\<close>

datatype microtask = Rerun | TakeOver

record pacer =
  pc_key_next :: "(string, rat) jsmap"
  pc_key_in_flight :: "(string, nat) jsmap"
  pc_key_starts :: "(string, nat) jsmap"
  pc_queue :: "waiter list"
  pc_provider_next :: rat
  pc_model_next :: "(string, rat) jsmap"
  pc_provider_in_flight :: nat
  pc_model_in_flight :: "(string, nat) jsmap"
  pc_timer :: "rat option"
  pc_last_started :: "rat option"
  pc_last_model :: "string option"
  pc_slots :: "slot list"
  pc_tasks :: "microtask list"

definition fresh_pacer :: pacer where
  "fresh_pacer = \<lparr>pc_key_next = [], pc_key_in_flight = [], pc_key_starts = [], pc_queue = [],
     pc_provider_next = 0, pc_model_next = [], pc_provider_in_flight = 0, pc_model_in_flight = [],
     pc_timer = None, pc_last_started = None, pc_last_model = None, pc_slots = [], pc_tasks = []\<rparr>"

text \<open>A grant names its slot and the instant the code takes as the start.\<close>

datatype settlement = Granted nat rat | QueueExpired int | QueueFull int | AbortedWait | ProviderRemoved

type_synonym event = "waiter \<times> settlement"

abbreviation lookup_time :: "(string, rat) jsmap \<Rightarrow> string option \<Rightarrow> rat" where
  "lookup_time m k \<equiv> (case k of None \<Rightarrow> 0 | Some x \<Rightarrow> nullish (map_of m x) 0)"

abbreviation lookup_count :: "(string, nat) jsmap \<Rightarrow> string option \<Rightarrow> nat" where
  "lookup_count m k \<equiv> (case k of None \<Rightarrow> 0 | Some x \<Rightarrow> nullish (map_of m x) 0)"

definition waiter_ready_at :: "pacer \<Rightarrow> string option \<Rightarrow> string option \<Rightarrow> rat" where
  "waiter_ready_at p model key =
     max (pc_provider_next p) (max (lookup_time (pc_model_next p) model) (lookup_time (pc_key_next p) key))"

definition concurrency_retry_after :: int where
  "concurrency_retry_after = 5"

definition pacing_retry_after_seconds :: "pacer \<Rightarrow> string option \<Rightarrow> rat \<Rightarrow> bool \<Rightarrow> string option \<Rightarrow> int" where
  "pacing_retry_after_seconds p model now capped key =
     (let s = max 1 \<lceil>max 0 (waiter_ready_at p model key - now) / 1000\<rceil>
      in if capped then max s concurrency_retry_after else s)"

definition is_capped :: "'a limits_scheme \<Rightarrow> bool" where
  "is_capped w \<longleftrightarrow> lm_provider_max w > 0 \<or> lm_model_max w > 0 \<or> lm_key_max w > 0"

definition is_leased :: "waiter \<Rightarrow> bool" where
  "is_leased w \<longleftrightarrow> lm_key w \<noteq> None \<and> lm_key_lease w \<or> lm_provider_max w > 0 \<or> lm_model_max w > 0"


section \<open>Slots\<close>

definition give_key_back :: "waiter \<Rightarrow> pacer \<Rightarrow> pacer" where
  "give_key_back w p = (case lm_key w of
     Some k \<Rightarrow> if lm_key_lease w
       then p\<lparr>pc_key_in_flight := AList.update k (nullish (map_of (pc_key_in_flight p) k) 0 - 1) (pc_key_in_flight p)\<rparr>
       else p
   | None \<Rightarrow> p)"

definition give_model_back :: "waiter \<Rightarrow> pacer \<Rightarrow> pacer" where
  "give_model_back w p = (case wt_model w of
     Some m \<Rightarrow> if lm_model_max w > 0
       then (let current = nullish (map_of (pc_model_in_flight p) m) 0
         in p\<lparr>pc_model_in_flight := (if current \<le> 1 then AList.delete m (pc_model_in_flight p)
                else AList.update m (current - 1) (pc_model_in_flight p))\<rparr>)
       else p
   | None \<Rightarrow> p)"

definition release_slot :: "nat \<Rightarrow> pacer \<Rightarrow> pacer" where
  "release_slot i p =
     (let s = pc_slots p ! i; w = sl_waiter s
      in if sl_released s then p
         else (let p1 = p\<lparr>pc_slots := (pc_slots p)[i := s\<lparr>sl_released := True\<rparr>],
                     pc_provider_in_flight := (if lm_provider_max w > 0 then pc_provider_in_flight p - 1
                       else pc_provider_in_flight p)\<rparr>;
                   p2 = give_model_back w (give_key_back w p1)
               in p2\<lparr>pc_tasks := pc_tasks p2 @ [TakeOver]\<rparr>))"

definition mark_body_tracked :: "nat \<Rightarrow> pacer \<Rightarrow> pacer" where
  "mark_body_tracked i p = p\<lparr>pc_slots := (pc_slots p)[i := (pc_slots p ! i)\<lparr>sl_tracked := True\<rparr>]\<rparr>"

text \<open>The boundary of a turn leaves a lease that a response body owns to that body.\<close>

definition release_at_boundary :: "nat \<Rightarrow> pacer \<Rightarrow> pacer" where
  "release_at_boundary i p = (if sl_tracked (pc_slots p ! i) then p else release_slot i p)"


section \<open>The queue\<close>

definition reject_expired :: "rat \<Rightarrow> rat \<Rightarrow> pacer \<Rightarrow> pacer \<times> event list" where
  "reject_expired max_age now p =
     (let expired = (\<lambda>w. now - wt_queued_at w \<ge> max_age)
      in (p\<lparr>pc_queue := filter (\<lambda>w. \<not> expired w) (pc_queue p)\<rparr>,
          map (\<lambda>w. (w, QueueExpired (pacing_retry_after_seconds p (wt_model w) now (is_capped w) (lm_key w))))
            (rev (filter expired (pc_queue p)))))"

definition within_caps :: "pacer \<Rightarrow> waiter \<Rightarrow> bool" where
  "within_caps p w \<longleftrightarrow>
     \<not> (lm_key w \<noteq> None \<and> lm_key_max w > 0 \<and> lookup_count (pc_key_in_flight p) (lm_key w) \<ge> lm_key_max w)
     \<and> \<not> (lm_provider_max w > 0 \<and> pc_provider_in_flight p \<ge> lm_provider_max w)
     \<and> \<not> (wt_model w \<noteq> None \<and> lm_model_max w > 0 \<and> lookup_count (pc_model_in_flight p) (wt_model w) \<ge> lm_model_max w)"

definition startable :: "rat \<Rightarrow> pacer \<Rightarrow> waiter \<Rightarrow> bool" where
  "startable now p w \<longleftrightarrow> within_caps p w \<and> max now (waiter_ready_at p (wt_model w) (lm_key w)) \<le> now"

text \<open>The wake-up: the first instant at which spacing or age changes the verdict on a waiter.\<close>

definition wake_candidates :: "rat \<Rightarrow> rat \<Rightarrow> pacer \<Rightarrow> waiter \<Rightarrow> rat list" where
  "wake_candidates max_age now p w =
     (let r = max now (waiter_ready_at p (wt_model w) (lm_key w))
      in (if r \<le> now then [] else [r]) @ [wt_queued_at w + max_age])"

definition set_wakeup :: "rat \<Rightarrow> rat \<Rightarrow> pacer \<Rightarrow> pacer" where
  "set_wakeup max_age now p = (case concat (map (wake_candidates max_age now p) (pc_queue p)) of
     [] \<Rightarrow> p
   | t # ts \<Rightarrow> p\<lparr>pc_timer := Some (now + max 0 (fold min ts t - now))\<rparr>)"

definition take_leases :: "waiter \<Rightarrow> pacer \<Rightarrow> pacer" where
  "take_leases w p =
     p\<lparr>pc_provider_in_flight := (if lm_provider_max w > 0 then pc_provider_in_flight p + 1 else pc_provider_in_flight p),
       pc_key_in_flight := (case lm_key w of
         Some k \<Rightarrow> if lm_key_lease w then AList.update k (nullish (map_of (pc_key_in_flight p) k) 0 + 1) (pc_key_in_flight p)
           else pc_key_in_flight p
       | None \<Rightarrow> pc_key_in_flight p),
       pc_model_in_flight := (case wt_model w of
         Some m \<Rightarrow> if lm_model_max w > 0 then AList.update m (nullish (map_of (pc_model_in_flight p) m) 0 + 1) (pc_model_in_flight p)
           else pc_model_in_flight p
       | None \<Rightarrow> pc_model_in_flight p)\<rparr>"

definition space_starts :: "rat \<Rightarrow> waiter \<Rightarrow> pacer \<Rightarrow> pacer" where
  "space_starts started w p =
     p\<lparr>pc_last_started := Some started, pc_last_model := wt_model w,
       pc_provider_next := started + lm_provider_interval w,
       pc_key_next := (case lm_key w of Some k \<Rightarrow> AList.update k (started + lm_key_interval w) (pc_key_next p)
         | None \<Rightarrow> pc_key_next p),
       pc_key_starts := (case lm_key w of Some k \<Rightarrow> AList.update k (nullish (map_of (pc_key_starts p) k) 0 + 1) (pc_key_starts p)
         | None \<Rightarrow> pc_key_starts p),
       pc_model_next := (case wt_model w of
         Some m \<Rightarrow> if lm_model_interval w > 0 then AList.update m (started + lm_model_interval w) (pc_model_next p) else pc_model_next p
       | None \<Rightarrow> pc_model_next p)\<rparr>"

definition start_waiter :: "(nat \<Rightarrow> bool) \<Rightarrow> rat \<Rightarrow> waiter \<Rightarrow> pacer \<Rightarrow> pacer \<times> event" where
  "start_waiter aborted started w p =
     (let p1 = take_leases w (space_starts started w p); i = length (pc_slots p1);
          p2 = p1\<lparr>pc_slots := pc_slots p1 @ [\<lparr>sl_waiter = w, sl_released = False, sl_tracked = False\<rparr>]\<rparr>;
          p3 = (if aborted (wt_id w) then release_slot i p2 else p2)
      in (p3\<lparr>pc_tasks := pc_tasks p3 @ [Rerun]\<rparr>, (w, Granted i started)))"

definition run_queue :: "rat \<Rightarrow> (nat \<Rightarrow> bool) \<Rightarrow> rat \<Rightarrow> rat \<Rightarrow> pacer \<Rightarrow> pacer \<times> event list" where
  "run_queue max_age aborted now started p =
     (if pc_queue p = [] then (p\<lparr>pc_timer := None\<rparr>, [])
      else if pc_timer p \<noteq> None then (p, [])
      else (case reject_expired max_age now (p\<lparr>pc_model_next := filter (\<lambda>(_, t). \<not> t \<le> now) (pc_model_next p)\<rparr>) of
        (p1, refused) \<Rightarrow>
          if pc_queue p1 = [] then (p1, refused)
          else (case dropWhile (\<lambda>w. \<not> startable now p1 w) (pc_queue p1) of
              [] \<Rightarrow> (set_wakeup max_age now p1, refused)
            | w # behind \<Rightarrow>
                (case start_waiter aborted started w
                    (p1\<lparr>pc_queue := takeWhile (\<lambda>w. \<not> startable now p1 w) (pc_queue p1) @ behind\<rparr>) of
                  (p2, e) \<Rightarrow> (p2, refused @ [e])))))"

definition run_task :: "rat \<Rightarrow> (nat \<Rightarrow> bool) \<Rightarrow> rat \<Rightarrow> rat \<Rightarrow> pacer \<Rightarrow> pacer \<times> event list" where
  "run_task max_age aborted now started p = (case pc_tasks p of
     [] \<Rightarrow> (p, [])
   | Rerun # ts \<Rightarrow> run_queue max_age aborted now started (p\<lparr>pc_tasks := ts\<rparr>)
   | TakeOver # ts \<Rightarrow> run_queue max_age aborted now started (p\<lparr>pc_tasks := ts, pc_timer := None\<rparr>))"

definition fire_timer :: "rat \<Rightarrow> (nat \<Rightarrow> bool) \<Rightarrow> rat \<Rightarrow> rat \<Rightarrow> pacer \<Rightarrow> pacer \<times> event list" where
  "fire_timer max_age aborted now started p = run_queue max_age aborted now started (p\<lparr>pc_timer := None\<rparr>)"

text \<open>The abort of a queued waiter.\<close>

definition abort_waiter :: "rat \<Rightarrow> (nat \<Rightarrow> bool) \<Rightarrow> rat \<Rightarrow> rat \<Rightarrow> waiter \<Rightarrow> pacer \<Rightarrow> pacer \<times> event list" where
  "abort_waiter max_age aborted now started w p =
     (case run_queue max_age aborted now started
         (p\<lparr>pc_queue := filter (\<lambda>x. wt_id x \<noteq> wt_id w) (pc_queue p), pc_timer := None\<rparr>) of
        (p', es) \<Rightarrow> (p', (w, AbortedWait) # es))"

definition retire_keys :: "string option list \<Rightarrow> rat \<Rightarrow> pacer \<Rightarrow> pacer" where
  "retire_keys current now p =
     (let keep = (\<lambda>k. Some k \<in> set current \<or> lookup_count (pc_key_in_flight p) (Some k) > 0
            \<or> lookup_time (pc_key_next p) (Some k) > now \<or> list_ex (\<lambda>w. lm_key w = Some k) (pc_queue p));
          gone = filter (\<lambda>k. \<not> keep k) (map fst (pc_key_starts p))
      in p\<lparr>pc_key_starts := filter (\<lambda>(k, _). k \<notin> set gone) (pc_key_starts p),
           pc_key_in_flight := filter (\<lambda>(k, _). k \<notin> set gone) (pc_key_in_flight p),
           pc_key_next := filter (\<lambda>(k, _). k \<notin> set gone) (pc_key_next p)\<rparr>)"

text \<open>The clock readings of one call, in the order of the code.\<close>

record readings =
  rd_retire :: rat
  rd_first :: rat
  rd_first_start :: rat
  rd_full :: rat
  rd_second :: rat
  rd_second_start :: rat

definition enqueue_waiter ::
    "nat \<Rightarrow> rat \<Rightarrow> (nat \<Rightarrow> bool) \<Rightarrow> string option list \<Rightarrow> readings \<Rightarrow> waiter \<Rightarrow> pacer \<Rightarrow> pacer \<times> event list" where
  "enqueue_waiter max_depth max_age aborted current rd w p =
     (case run_queue max_age aborted (rd_first rd) (rd_first_start rd)
         ((retire_keys current (rd_retire rd) p)\<lparr>pc_timer := None\<rparr>) of
        (p1, es1) \<Rightarrow>
          if length (pc_queue p1) \<ge> max_depth
          then (p1, es1 @ [(w, QueueFull (pacing_retry_after_seconds p1 (wt_model w) (rd_full rd) (is_capped w) (lm_key w)))])
          else (let p2 = p1\<lparr>pc_queue := pc_queue p1 @ [w]\<rparr>
            in case (if aborted (wt_id w) then abort_waiter max_age aborted (rd_second rd) (rd_second_start rd) w p2
                     else run_queue max_age aborted (rd_second rd) (rd_second_start rd) (p2\<lparr>pc_timer := None\<rparr>)) of
              (p3, es2) \<Rightarrow> (p3, es1 @ es2)))"

definition remove_pacer :: "pacer \<Rightarrow> pacer \<times> event list" where
  "remove_pacer p = (p\<lparr>pc_timer := None, pc_queue := []\<rparr>, map (\<lambda>w. (w, ProviderRemoved)) (pc_queue p))"


section \<open>The pacers of the providers\<close>

text \<open>
  Pacers are objects: slots and timers keep the one they were made by, also after its provider
  was removed. The names point into the list of all pacers ever made.
\<close>

record registry =
  rg_names :: "(string, nat) jsmap"
  rg_pacers :: "pacer list"
  rg_generation :: nat

datatype slot_answer = Inert | AlreadyAborted | Waits nat

definition new_waiter :: "limits \<Rightarrow> nat \<Rightarrow> string option \<Rightarrow> rat \<Rightarrow> waiter" where
  "new_waiter l i model queued = limits.extend l \<lparr>wt_id = i, wt_model = model, wt_queued_at = queued\<rparr>"

definition pacer_of :: "string \<Rightarrow> registry \<Rightarrow> nat \<times> registry" where
  "pacer_of name rg = (case map_of (rg_names rg) name of
     Some i \<Rightarrow> (i, rg)
   | None \<Rightarrow> (length (rg_pacers rg), rg\<lparr>rg_names := AList.update name (length (rg_pacers rg)) (rg_names rg),
       rg_pacers := rg_pacers rg @ [fresh_pacer]\<rparr>))"

definition wait_for_provider_request_slot ::
    "(string \<Rightarrow> string) \<Rightarrow> nat \<Rightarrow> rat \<Rightarrow> (nat \<Rightarrow> bool) \<Rightarrow> string \<Rightarrow> paced_provider \<Rightarrow> string option \<Rightarrow> bool
      \<Rightarrow> readings \<Rightarrow> rat \<Rightarrow> nat \<Rightarrow> registry \<Rightarrow> slot_answer \<times> event list \<times> registry" where
  "wait_for_provider_request_slot digest max_depth max_age aborted name pv model concurrency rd queued i rg =
     (let l = request_pacing_intervals digest pv model;
          wl = (if concurrency then l else without_leases l);
          current = map (\<lambda>(_, k). pool_bucket digest pv k) (pv_pool pv) @ [lm_key l]
      in if \<not> is_paced l concurrency then (Inert, [], rg)
         else if aborted i then (AlreadyAborted, [], rg)
         else (case pacer_of name rg of (n, rg1) \<Rightarrow>
           (case enqueue_waiter max_depth max_age aborted current rd (new_waiter wl i model queued) (rg_pacers rg1 ! n) of
             (p, es) \<Rightarrow> (Waits n, es, rg1\<lparr>rg_pacers := (rg_pacers rg1)[n := p]\<rparr>))))"

fun remove_pacers :: "string list \<Rightarrow> (string \<times> nat) list \<Rightarrow> pacer list \<Rightarrow> event list \<times> pacer list" where
  "remove_pacers live [] ps = ([], ps)"
| "remove_pacers live ((name, n) # rest) ps =
     (if name \<in> set live then remove_pacers live rest ps
      else (case remove_pacer (ps ! n) of (p, es) \<Rightarrow>
        (case remove_pacers live rest (ps[n := p]) of (es', ps') \<Rightarrow> (es @ es', ps'))))"

definition reconcile_provider_request_pacing ::
    "nat \<Rightarrow> string list \<Rightarrow> registry \<Rightarrow> nat \<times> event list \<times> registry" where
  "reconcile_provider_request_pacing generation live rg =
     (if generation \<le> rg_generation rg then (0, [], rg)
      else (case remove_pacers live (rg_names rg) (rg_pacers rg) of (es, ps) \<Rightarrow>
        (length (filter (\<lambda>(name, _). name \<notin> set live) (rg_names rg)), es,
         \<lparr>rg_names = filter (\<lambda>(name, _). name \<in> set live) (rg_names rg), rg_pacers = ps,
          rg_generation = generation\<rparr>)))"


section \<open>The status of a provider\<close>

record key_status =
  ks_id :: string
  ks_starts :: nat
  ks_in_flight :: nat
  ks_queued :: nat
  ks_next_slot :: int

record pacing_status =
  ps_enabled :: bool
  ps_queued :: nat
  ps_next_slot :: int
  ps_keys :: "key_status list option"
  ps_in_flight :: "nat option"
  ps_last_started :: "rat option"
  ps_last_model :: "string option"

definition policy_enabled :: "paced_provider \<Rightarrow> bool" where
  "policy_enabled pv = (case pv_policy pv of Some pol \<Rightarrow> pol_enabled pol | None \<Rightarrow> False)"

definition next_slot_at :: "pacer option \<Rightarrow> rat" where
  "next_slot_at state = (case state of
     None \<Rightarrow> 0
   | Some p \<Rightarrow> (case map (\<lambda>w. waiter_ready_at p (wt_model w) (lm_key w)) (pc_queue p) of
        [] \<Rightarrow> pc_provider_next p
      | t # ts \<Rightarrow> fold min ts t))"

definition key_row :: "(string \<Rightarrow> string) \<Rightarrow> paced_provider \<Rightarrow> pacer \<Rightarrow> rat \<Rightarrow> string \<times> string \<Rightarrow> key_status" where
  "key_row digest pv p now entry = (let bucket = pool_bucket digest pv (snd entry)
     in \<lparr>ks_id = fst entry, ks_starts = lookup_count (pc_key_starts p) bucket,
         ks_in_flight = lookup_count (pc_key_in_flight p) bucket,
         ks_queued = length (filter (\<lambda>w. lm_key w = bucket) (pc_queue p)),
         ks_next_slot = max 0 \<lceil>lookup_time (pc_key_next p) bucket - now\<rceil>\<rparr>)"

definition any_concurrency_cap :: "(string \<Rightarrow> string) \<Rightarrow> paced_provider \<Rightarrow> bool" where
  "any_concurrency_cap digest pv = (case pv_policy pv of
     None \<Rightarrow> False
   | Some pol \<Rightarrow> pol_enabled pol \<and> (key_bucket digest pv \<noteq> None \<or> normalized_max_concurrent (Some pol) > 0
       \<or> list_ex (\<lambda>(_, r). normalized_max_concurrent (Some r) > 0) (pol_models pol)))"

definition provider_request_pacing_status ::
    "(string \<Rightarrow> string) \<Rightarrow> paced_provider \<Rightarrow> pacer option \<Rightarrow> rat \<Rightarrow> pacing_status" where
  "provider_request_pacing_status digest pv state now = (let p = nullish state fresh_pacer
     in \<lparr>ps_enabled = policy_enabled pv, ps_queued = length (pc_queue p),
         ps_next_slot = max 0 \<lceil>next_slot_at state - now\<rceil>,
         ps_keys = (case pv_policy pv of
             Some pol \<Rightarrow> if pol_enabled pol \<and> (pol_keys pol \<noteq> None \<or> pol_round_robin pol)
               then Some (map (key_row digest pv p now) (pv_pool pv)) else None
           | None \<Rightarrow> None),
         ps_in_flight = (if any_concurrency_cap digest pv then Some (
             if policy_enabled pv \<and> key_bucket digest pv \<noteq> None then sum_list (map snd (pc_key_in_flight p))
             else if normalized_max_concurrent (pv_policy pv) > 0 then pc_provider_in_flight p
             else sum_list (map snd (pc_model_in_flight p))) else None),
         ps_last_started = pc_last_started p, ps_last_model = pc_last_model p\<rparr>)"

end
