(* ===== verification/Pacing_Steps.thy ===== *)
theory Pacing_Steps
  imports Request_Pacing "HOL-Library.Multiset"
begin

text \<open>
  Every history of a pacer: requests arrive, slots are released or tracked, signals are raised,
  timers fire and microtasks run, in any order, on a clock that never goes back; and the invariant
  that every operation keeps. The log holds how each wait was settled, in order.
\<close>

section \<open>Histories\<close>

inductive paced :: "nat \<Rightarrow> rat \<Rightarrow> (waiter \<Rightarrow> bool) \<Rightarrow> event list \<Rightarrow> rat \<Rightarrow> pacer \<Rightarrow> bool"
  for max_depth max_age accepts where
  begins: "paced max_depth max_age accepts [] 0 fresh_pacer"
| task: "paced max_depth max_age accepts h clock p \<Longrightarrow> clock \<le> now \<Longrightarrow> now \<le> started
    \<Longrightarrow> run_task max_age aborted now started p = (p', es)
    \<Longrightarrow> paced max_depth max_age accepts (h @ es) started p'"
| timer: "paced max_depth max_age accepts h clock p \<Longrightarrow> clock \<le> now \<Longrightarrow> now \<le> started
    \<Longrightarrow> pc_timer p \<noteq> None \<Longrightarrow> fire_timer max_age aborted now started p = (p', es)
    \<Longrightarrow> paced max_depth max_age accepts (h @ es) started p'"
| aborts: "paced max_depth max_age accepts h clock p \<Longrightarrow> clock \<le> now \<Longrightarrow> now \<le> started
    \<Longrightarrow> w \<in> set (pc_queue p) \<Longrightarrow> abort_waiter max_age aborted now started w p = (p', es)
    \<Longrightarrow> paced max_depth max_age accepts (h @ es) started p'"
| release: "paced max_depth max_age accepts h clock p \<Longrightarrow> i < length (pc_slots p)
    \<Longrightarrow> paced max_depth max_age accepts h clock (release_slot i p)"
| boundary: "paced max_depth max_age accepts h clock p \<Longrightarrow> i < length (pc_slots p)
    \<Longrightarrow> paced max_depth max_age accepts h clock (release_at_boundary i p)"
| tracked: "paced max_depth max_age accepts h clock p \<Longrightarrow> i < length (pc_slots p)
    \<Longrightarrow> paced max_depth max_age accepts h clock (mark_body_tracked i p)"
| arrives: "paced max_depth max_age accepts h clock p
    \<Longrightarrow> clock \<le> rd_retire rd \<Longrightarrow> rd_retire rd \<le> rd_first rd \<Longrightarrow> rd_first rd \<le> rd_first_start rd
    \<Longrightarrow> rd_first_start rd \<le> wt_queued_at w \<Longrightarrow> wt_queued_at w \<le> rd_second rd \<Longrightarrow> rd_second rd \<le> rd_second_start rd
    \<Longrightarrow> accepts w \<Longrightarrow> 0 \<le> lm_provider_interval w \<Longrightarrow> 0 \<le> lm_key_interval w
    \<Longrightarrow> wt_id w \<notin> wt_id ` set (pc_queue p) \<union> (\<lambda>e. wt_id (fst e)) ` set h
    \<Longrightarrow> enqueue_waiter max_depth max_age aborted current rd w p = (p', es)
    \<Longrightarrow> paced max_depth max_age accepts (h @ es) (rd_second_start rd) p'"
| removed: "paced max_depth max_age accepts h clock p \<Longrightarrow> remove_pacer p = (p', es)
    \<Longrightarrow> paced max_depth max_age accepts (h @ es) clock p'"


section \<open>The invariant\<close>

definition held :: "(waiter \<Rightarrow> bool) \<Rightarrow> pacer \<Rightarrow> nat" where
  "held f p = length (filter (\<lambda>s. \<not> sl_released s \<and> f (sl_waiter s)) (pc_slots p))"

text \<open>The counters are the numbers of leases that are out.\<close>

definition counts_exact :: "pacer \<Rightarrow> bool" where
  "counts_exact p \<longleftrightarrow> pc_provider_in_flight p = held (\<lambda>w. lm_provider_max w > 0) p
     \<and> (\<forall>m. nullish (map_of (pc_model_in_flight p) m) 0 = held (\<lambda>w. wt_model w = Some m \<and> lm_model_max w > 0) p)
     \<and> (\<forall>k. nullish (map_of (pc_key_in_flight p) k) 0 = held (\<lambda>w. lm_key w = Some k \<and> lm_key_lease w) p)"

text \<open>What is remembered of the starts in the log is enough to space the next one.\<close>

definition remembers :: "event list \<Rightarrow> rat \<Rightarrow> pacer \<Rightarrow> bool" where
  "remembers h clock p \<longleftrightarrow> (\<forall>w i t. (w, Granted i t) \<in> set h \<longrightarrow> t \<le> clock
     \<and> t + lm_provider_interval w \<le> pc_provider_next p
     \<and> (\<forall>k. lm_key w = Some k \<longrightarrow> t + lm_key_interval w \<le> max clock (lookup_time (pc_key_next p) (Some k)))
     \<and> (\<forall>m. wt_model w = Some m \<and> lm_model_interval w > 0
         \<longrightarrow> t + lm_model_interval w \<le> max clock (lookup_time (pc_model_next p) (Some m))))"

definition apart :: "waiter \<times> rat \<Rightarrow> waiter \<times> rat \<Rightarrow> bool" where
  "apart a b \<longleftrightarrow> snd a \<le> snd b \<and> snd a + lm_provider_interval (fst a) \<le> snd b
     \<and> (if lm_key (fst a) \<noteq> None \<and> lm_key (fst a) = lm_key (fst b)
        then snd a + lm_key_interval (fst a) \<le> snd b else True)
     \<and> (if wt_model (fst a) \<noteq> None \<and> wt_model (fst a) = wt_model (fst b)
        then snd a + lm_model_interval (fst a) \<le> snd b else True)"

definition starts :: "event list \<Rightarrow> (waiter \<times> rat) list" where
  "starts h = List.map_filter (\<lambda>(w, r). case r of Granted i t \<Rightarrow> Some (w, t) | _ \<Rightarrow> None) h"

text \<open>The wake-up instant is early enough for every waiter: its age, and its spacing when no cap holds it.\<close>

definition timely :: "rat \<Rightarrow> pacer \<Rightarrow> rat \<Rightarrow> bool" where
  "timely max_age p d \<longleftrightarrow> (\<forall>w \<in> set (pc_queue p). d \<le> wt_queued_at w + max_age
     \<and> (within_caps p w \<longrightarrow> d \<le> waiter_ready_at p (wt_model w) (lm_key w)))"

definition timer_timely :: "rat \<Rightarrow> pacer \<Rightarrow> bool" where
  "timer_timely max_age p \<longleftrightarrow> (\<forall>d. pc_timer p = Some d \<and> TakeOver \<notin> set (pc_tasks p) \<longrightarrow> timely max_age p d)"

definition awake :: "pacer \<Rightarrow> bool" where
  "awake p \<longleftrightarrow> pc_queue p = [] \<or> pc_timer p \<noteq> None \<or> pc_tasks p \<noteq> []"

definition caps_kept :: "(waiter \<Rightarrow> bool) \<Rightarrow> pacer \<Rightarrow> bool" where
  "caps_kept accepts p \<longleftrightarrow>
     (\<forall>c > 0. (\<forall>w. accepts w \<longrightarrow> lm_provider_max w \<in> {0, c}) \<longrightarrow> pc_provider_in_flight p \<le> c)
     \<and> (\<forall>m. \<forall>c > 0. (\<forall>w. accepts w \<and> wt_model w = Some m \<longrightarrow> lm_model_max w \<in> {0, c})
         \<longrightarrow> nullish (map_of (pc_model_in_flight p) m) 0 \<le> c)
     \<and> (\<forall>k. \<forall>c > 0. (\<forall>w. accepts w \<and> lm_key w = Some k \<and> lm_key_lease w \<longrightarrow> lm_key_max w = c)
         \<longrightarrow> nullish (map_of (pc_key_in_flight p) k) 0 \<le> c)"

definition sound_queue :: "nat \<Rightarrow> (waiter \<Rightarrow> bool) \<Rightarrow> event list \<Rightarrow> pacer \<Rightarrow> bool" where
  "sound_queue max_depth accepts h p \<longleftrightarrow> length (pc_queue p) \<le> max_depth
     \<and> (\<forall>w \<in> set (pc_queue p). accepts w \<and> 0 \<le> lm_provider_interval w \<and> 0 \<le> lm_key_interval w) \<and> (\<forall>e \<in> set h. accepts (fst e))
     \<and> distinct (map (\<lambda>e. wt_id (fst e)) h @ map wt_id (pc_queue p))"

definition pacer_inv :: "nat \<Rightarrow> rat \<Rightarrow> (waiter \<Rightarrow> bool) \<Rightarrow> event list \<Rightarrow> rat \<Rightarrow> pacer \<Rightarrow> bool" where
  "pacer_inv max_depth max_age accepts h clock p \<longleftrightarrow> counts_exact p \<and> remembers h clock p \<and> jm_wf (pc_model_next p)
     \<and> sorted_wrt apart (starts h) \<and> timer_timely max_age p \<and> caps_kept accepts p \<and> sound_queue max_depth accepts h p"


section \<open>Small steps that keep it\<close>

lemma inv_begins: "pacer_inv max_depth max_age accepts [] 0 fresh_pacer"
  by (simp add: pacer_inv_def counts_exact_def held_def remembers_def caps_kept_def sound_queue_def
      fresh_pacer_def starts_def map_filter_def timer_timely_def)

text \<open>Each part of the invariant looks at some fields only.\<close>

lemma part_updates [simp]:
  "counts_exact (p\<lparr>pc_tasks := ts\<rparr>) = counts_exact p" "counts_exact (p\<lparr>pc_timer := x\<rparr>) = counts_exact p"
  "counts_exact (p\<lparr>pc_queue := q\<rparr>) = counts_exact p" "counts_exact (p\<lparr>pc_model_next := m\<rparr>) = counts_exact p"
  "remembers h c (p\<lparr>pc_tasks := ts\<rparr>) = remembers h c p" "remembers h c (p\<lparr>pc_timer := x\<rparr>) = remembers h c p"
  "remembers h c (p\<lparr>pc_queue := q\<rparr>) = remembers h c p" "remembers h c (p\<lparr>pc_slots := sl\<rparr>) = remembers h c p"
  "caps_kept accepts (p\<lparr>pc_tasks := ts\<rparr>) = caps_kept accepts p" "caps_kept accepts (p\<lparr>pc_timer := x\<rparr>) = caps_kept accepts p"
  "caps_kept accepts (p\<lparr>pc_queue := q\<rparr>) = caps_kept accepts p" "caps_kept accepts (p\<lparr>pc_model_next := m\<rparr>) = caps_kept accepts p"
  "caps_kept accepts (p\<lparr>pc_slots := sl\<rparr>) = caps_kept accepts p"
  "sound_queue d accepts h (p\<lparr>pc_tasks := ts\<rparr>) = sound_queue d accepts h p"
  "sound_queue d accepts h (p\<lparr>pc_timer := x\<rparr>) = sound_queue d accepts h p"
  "sound_queue d accepts h (p\<lparr>pc_slots := sl\<rparr>) = sound_queue d accepts h p"
  "sound_queue d accepts h (p\<lparr>pc_model_next := m\<rparr>) = sound_queue d accepts h p"
  "timely a (p\<lparr>pc_tasks := ts\<rparr>) d' = timely a p d'" "timely a (p\<lparr>pc_timer := x\<rparr>) d' = timely a p d'"
  "timely a (p\<lparr>pc_slots := sl\<rparr>) d' = timely a p d'"
  by (simp_all add: counts_exact_def held_def remembers_def caps_kept_def sound_queue_def timely_def within_caps_def
      waiter_ready_at_def cong: option.case_cong)

lemma queue_updates [simp]:
  "within_caps (p\<lparr>pc_queue := q\<rparr>) w = within_caps p w" "within_caps (p\<lparr>pc_timer := x\<rparr>) w = within_caps p w"
  "within_caps (p\<lparr>pc_model_next := m\<rparr>) w = within_caps p w" "within_caps (p\<lparr>pc_tasks := ts\<rparr>) w = within_caps p w"
  "waiter_ready_at (p\<lparr>pc_queue := q\<rparr>) m' k = waiter_ready_at p m' k"
  "waiter_ready_at (p\<lparr>pc_timer := x\<rparr>) m' k = waiter_ready_at p m' k"
  "waiter_ready_at (p\<lparr>pc_tasks := ts\<rparr>) m' k = waiter_ready_at p m' k"
  by (simp_all add: within_caps_def waiter_ready_at_def cong: option.case_cong)

lemma no_timer_timely [simp]: "pc_timer p = None \<Longrightarrow> timer_timely max_age p"
  by (simp add: timer_timely_def)

lemma inv_no_timer [simp]:
  "pacer_inv max_depth max_age accepts h c p \<Longrightarrow> pacer_inv max_depth max_age accepts h c (p\<lparr>pc_timer := None\<rparr>)"
  by (simp add: pacer_inv_def)

lemma inv_task_done:
  assumes "pacer_inv max_depth max_age accepts h c p" and "pc_tasks p = Rerun # ts"
  shows "pacer_inv max_depth max_age accepts h c (p\<lparr>pc_tasks := ts\<rparr>)"
  using assms by (simp add: pacer_inv_def timer_timely_def)

lemma inv_takeover:
  assumes "pacer_inv max_depth max_age accepts h c p"
  shows "pacer_inv max_depth max_age accepts h c (p\<lparr>pc_tasks := ts, pc_timer := None\<rparr>)"
  using assms by (simp add: pacer_inv_def)

lemma inv_task_added:
  assumes "pacer_inv max_depth max_age accepts h c p"
  shows "pacer_inv max_depth max_age accepts h c (p\<lparr>pc_tasks := pc_tasks p @ [t]\<rparr>)"
  using assms by (simp add: pacer_inv_def timer_timely_def)

lemma remembers_later: "remembers h c p \<Longrightarrow> c \<le> c' \<Longrightarrow> remembers h c' p"
  unfolding remembers_def by (meson max.mono order_refl order_trans)

lemma inv_later:
  "pacer_inv max_depth max_age accepts h c p \<Longrightarrow> c \<le> c' \<Longrightarrow> pacer_inv max_depth max_age accepts h c' p"
  unfolding pacer_inv_def using remembers_later by blast

lemma starts_append [simp]: "starts (h @ es) = starts h @ starts es"
  by (simp add: starts_def map_filter_def)

definition no_grant :: "event list \<Rightarrow> bool" where
  "no_grant es \<longleftrightarrow> (\<forall>(w, r) \<in> set es. \<forall>i t. r \<noteq> Granted i t)"

lemma no_grant_starts: "no_grant es \<Longrightarrow> starts es = []"
  by (auto simp: no_grant_def starts_def map_filter_def filter_empty_conv split: settlement.splits)

lemma inv_dropped:
  assumes inv: "pacer_inv max_depth max_age accepts h c p"
    and es: "no_grant es" "set (map fst es) \<subseteq> set (pc_queue p)"
    and q: "set q \<subseteq> set (pc_queue p)" "length q \<le> length (pc_queue p)"
      "distinct (map wt_id (map fst es) @ map wt_id q)"
  shows "pacer_inv max_depth max_age accepts (h @ es) c (p\<lparr>pc_queue := q\<rparr>)"
proof -
  have g: "(w, Granted i t) \<in> set (h @ es) \<longleftrightarrow> (w, Granted i t) \<in> set h" for w i t
    using es(1) by (auto simp: no_grant_def)
  let ?A = "(\<lambda>e. wt_id (fst e)) ` set h" and ?D = "wt_id ` set (pc_queue p)"
  have s: "sound_queue max_depth accepts h p" using inv by (simp add: pacer_inv_def)
  have d: "distinct (map (\<lambda>e. wt_id (fst e)) h)" "?A \<inter> ?D = {}" using s by (simp_all add: sound_queue_def)
  have "wt_id ` set (map fst es @ q) \<subseteq> ?D" using es(2) q(1) by auto
  then have "?A \<inter> wt_id ` set (map fst es @ q) = {}" using d(2) by blast
  then have "distinct (map (\<lambda>e. wt_id (fst e)) (h @ es) @ map wt_id q)"
    using d(1) q(3) by (simp add: comp_def image_Un Int_Un_distrib image_image)
  then have "sound_queue max_depth accepts (h @ es) (p\<lparr>pc_queue := q\<rparr>)"
    using s q(1,2) es(2) unfolding sound_queue_def by (auto simp: subset_iff)
  moreover have "remembers (h @ es) c (p\<lparr>pc_queue := q\<rparr>)"
    using inv unfolding pacer_inv_def remembers_def g by simp
  moreover have "timer_timely max_age (p\<lparr>pc_queue := q\<rparr>)"
    using inv q(1) unfolding pacer_inv_def timer_timely_def timely_def
    by auto
  ultimately show ?thesis
    using inv no_grant_starts [OF es(1)] by (simp add: pacer_inv_def)
qed

lemma inv_pushed:
  assumes "pacer_inv max_depth max_age accepts h c p" and "pc_timer p = None"
    and "length (pc_queue p) < max_depth" and "accepts w" "0 \<le> lm_provider_interval w" "0 \<le> lm_key_interval w"
    and "wt_id w \<notin> wt_id ` set (pc_queue p) \<union> (\<lambda>e. wt_id (fst e)) ` set h"
  shows "pacer_inv max_depth max_age accepts h c (p\<lparr>pc_queue := pc_queue p @ [w]\<rparr>)"
  using assms unfolding pacer_inv_def sound_queue_def by (auto simp: image_iff)

lemma inv_refused:
  assumes inv: "pacer_inv max_depth max_age accepts h c p"
    and new: "wt_id w \<notin> wt_id ` set (pc_queue p) \<union> (\<lambda>e. wt_id (fst e)) ` set h" and acc: "accepts w" and r: "\<And>i t. r \<noteq> Granted i t"
  shows "pacer_inv max_depth max_age accepts (h @ [(w, r)]) c p"
proof -
  have g: "(x, Granted i t) \<in> set (h @ [(w, r)]) \<longleftrightarrow> (x, Granted i t) \<in> set h" for x i t using r by auto
  have "no_grant [(w, r)]" using r by (simp add: no_grant_def)
  moreover have "sound_queue max_depth accepts (h @ [(w, r)]) p"
    using inv new acc unfolding pacer_inv_def sound_queue_def by (auto simp: image_iff)
  moreover have "remembers (h @ [(w, r)]) c p"
    using inv unfolding pacer_inv_def remembers_def g by simp
  ultimately show ?thesis using inv no_grant_starts [of "[(w, r)]"] by (simp add: pacer_inv_def)
qed

text \<open>Entries that are no later than the clock may be forgotten.\<close>

definition at_most :: "rat \<Rightarrow> (string, rat) jsmap \<Rightarrow> (string, rat) jsmap \<Rightarrow> bool" where
  "at_most c m m' \<longleftrightarrow> (\<forall>k. lookup_time m (Some k) \<le> max c (lookup_time m' (Some k)))"

lemma max_chain: "x \<le> max c y \<Longrightarrow> y \<le> max c z \<Longrightarrow> x \<le> max c z" for x :: rat
  by (simp add: max_def split: if_splits)

lemma remembers_forgets:
  assumes "remembers h c p" and "at_most c (pc_key_next p) (pc_key_next p')" and "at_most c (pc_model_next p) (pc_model_next p')"
    and "pc_provider_next p' = pc_provider_next p"
  shows "remembers h c p'"
  unfolding remembers_def
proof (intro allI impI conjI)
  fix w i t assume e: "(w, Granted i t) \<in> set h"
  note m = assms(1) [unfolded remembers_def, rule_format, OF e]
  show "t \<le> c" "t + lm_provider_interval w \<le> pc_provider_next p'" using m assms(4) by simp_all
  show "t + lm_key_interval w \<le> max c (lookup_time (pc_key_next p') (Some k))" if "lm_key w = Some k" for k
    using m that assms(2) unfolding at_most_def by (blast intro: max_chain)
  show "t + lm_model_interval w \<le> max c (lookup_time (pc_model_next p') (Some k))"
    if "wt_model w = Some k \<and> lm_model_interval w > 0" for k
    using m that assms(3) unfolding at_most_def by (blast intro: max_chain)
qed

lemma at_most_refl [simp]: "at_most c m m"
  by (simp add: at_most_def)

lemma at_most_filter: "jm_wf m \<Longrightarrow> at_most c m (filter (\<lambda>(_, t). \<not> t \<le> c) m)"
  by (auto simp: at_most_def map_of_filter_wf split: option.split)


lemma inv_forgets_models:
  assumes "pacer_inv max_depth max_age accepts h c p" and "pc_timer p = None"
  shows "pacer_inv max_depth max_age accepts h c (p\<lparr>pc_model_next := filter (\<lambda>(_, t). \<not> t \<le> c) (pc_model_next p)\<rparr>)"
proof -
  have m: "remembers h c p" "jm_wf (pc_model_next p)" using assms(1) by (simp_all add: pacer_inv_def)
  have "remembers h c (p\<lparr>pc_model_next := filter (\<lambda>(_, t). \<not> t \<le> c) (pc_model_next p)\<rparr>)"
    by (rule remembers_forgets [OF m(1)]) (simp_all add: at_most_filter [OF m(2)])
  with assms show ?thesis by (simp add: pacer_inv_def)
qed

lemma retire_keys_fields [simp]:
  "pc_queue (retire_keys cur t p) = pc_queue p" "pc_timer (retire_keys cur t p) = pc_timer p"
  "pc_tasks (retire_keys cur t p) = pc_tasks p" "pc_slots (retire_keys cur t p) = pc_slots p"
  "pc_model_next (retire_keys cur t p) = pc_model_next p" "pc_provider_next (retire_keys cur t p) = pc_provider_next p"
  "pc_provider_in_flight (retire_keys cur t p) = pc_provider_in_flight p"
  "pc_model_in_flight (retire_keys cur t p) = pc_model_in_flight p"
  by (simp_all add: retire_keys_def Let_def)

lemma retire_keys_counts: "nullish (map_of (pc_key_in_flight (retire_keys cur t p)) k) 0 = nullish (map_of (pc_key_in_flight p) k) 0"
  by (auto simp: retire_keys_def Let_def map_of_filter_keys split: option.split)

lemma retire_keys_times: "at_most t (pc_key_next p) (pc_key_next (retire_keys cur t p))"
  by (auto simp: at_most_def retire_keys_def Let_def map_of_filter_keys split: option.split)

lemma inv_retired:
  assumes "pacer_inv max_depth max_age accepts h c p" and "pc_timer p = None"
  shows "pacer_inv max_depth max_age accepts h c (retire_keys cur c p)"
proof -
  have "remembers h c (retire_keys cur c p)"
    by (rule remembers_forgets [of h c p]) (use assms in \<open>simp_all add: pacer_inv_def retire_keys_times\<close>)
  moreover have "counts_exact (retire_keys cur c p) = counts_exact p"
    by (simp add: counts_exact_def held_def retire_keys_counts)
  moreover have "caps_kept accepts (retire_keys cur c p) = caps_kept accepts p"
    by (simp add: caps_kept_def retire_keys_counts)
  moreover have "sound_queue max_depth accepts h (retire_keys cur c p) = sound_queue max_depth accepts h p"
    by (simp add: sound_queue_def)
  ultimately show ?thesis using assms by (simp add: pacer_inv_def)
qed


section \<open>Leases\<close>

lemma length_filter_list_update:
  assumes "i < length xs" and "P (xs ! i)" and "\<not> P y"
  shows "Suc (length (filter P (xs[i := y]))) = length (filter P xs)"
  using assms by (induction xs arbitrary: i) (auto split: nat.splits)

lemma length_filter_list_same:
  assumes "i < length xs" and "P (xs ! i) = P y"
  shows "length (filter P (xs[i := y])) = length (filter P xs)"
  using assms by (induction xs arbitrary: i) (auto split: nat.splits)

text \<open>What the release of a slot that is out does to the number of leases of a kind.\<close>

lemma held_released:
  assumes "i < length (pc_slots p)" and "\<not> sl_released (pc_slots p ! i)"
    and "pc_slots p' = (pc_slots p)[i := (pc_slots p ! i)\<lparr>sl_released := True\<rparr>]"
  shows "held f p' = (if f (sl_waiter (pc_slots p ! i)) then held f p - 1 else held f p)"
proof -
  let ?P = "\<lambda>s. \<not> sl_released s \<and> f (sl_waiter s)" and ?s = "pc_slots p ! i"
  show ?thesis
  proof (cases "f (sl_waiter ?s)")
    case True
    then show ?thesis
      using length_filter_list_update [of i "pc_slots p" ?P "?s\<lparr>sl_released := True\<rparr>"] assms
      by (simp add: held_def)
  next
    case False
    then show ?thesis
      using length_filter_list_same [of i "pc_slots p" ?P "?s\<lparr>sl_released := True\<rparr>"] assms
      by (simp add: held_def)
  qed
qed

lemma give_key_back_fields [simp]:
  "pc_queue (give_key_back w p) = pc_queue p" "pc_timer (give_key_back w p) = pc_timer p"
  "pc_tasks (give_key_back w p) = pc_tasks p" "pc_slots (give_key_back w p) = pc_slots p"
  "pc_model_next (give_key_back w p) = pc_model_next p" "pc_provider_next (give_key_back w p) = pc_provider_next p"
  "pc_key_next (give_key_back w p) = pc_key_next p" "pc_provider_in_flight (give_key_back w p) = pc_provider_in_flight p"
  "pc_model_in_flight (give_key_back w p) = pc_model_in_flight p"
  by (simp_all add: give_key_back_def split: option.split)

lemma give_model_back_fields [simp]:
  "pc_queue (give_model_back w p) = pc_queue p" "pc_timer (give_model_back w p) = pc_timer p"
  "pc_tasks (give_model_back w p) = pc_tasks p" "pc_slots (give_model_back w p) = pc_slots p"
  "pc_model_next (give_model_back w p) = pc_model_next p" "pc_provider_next (give_model_back w p) = pc_provider_next p"
  "pc_key_next (give_model_back w p) = pc_key_next p" "pc_provider_in_flight (give_model_back w p) = pc_provider_in_flight p"
  "pc_key_in_flight (give_model_back w p) = pc_key_in_flight p"
  by (simp_all add: give_model_back_def Let_def split: option.split)

lemma give_key_back_count:
  "nullish (map_of (pc_key_in_flight (give_key_back w p)) k) 0
   = (if lm_key w = Some k \<and> lm_key_lease w then nullish (map_of (pc_key_in_flight p) k) 0 - 1
      else nullish (map_of (pc_key_in_flight p) k) 0)"
  by (simp add: give_key_back_def split: option.split)

lemma give_model_back_count:
  "nullish (map_of (pc_model_in_flight (give_model_back w p)) m) 0
   = (if wt_model w = Some m \<and> lm_model_max w > 0 then nullish (map_of (pc_model_in_flight p) m) 0 - 1
      else nullish (map_of (pc_model_in_flight p) m) 0)"
  by (simp add: give_model_back_def Let_def split: option.split)

lemma release_slot_fields [simp]:
  "pc_queue (release_slot i p) = pc_queue p" "pc_timer (release_slot i p) = pc_timer p"
  "pc_model_next (release_slot i p) = pc_model_next p" "pc_provider_next (release_slot i p) = pc_provider_next p"
  "pc_key_next (release_slot i p) = pc_key_next p"
  by (simp_all add: release_slot_def Let_def)

lemma release_slot_live:
  assumes "\<not> sl_released (pc_slots p ! i)"
  defines "w \<equiv> sl_waiter (pc_slots p ! i)"
  shows "pc_slots (release_slot i p) = (pc_slots p)[i := (pc_slots p ! i)\<lparr>sl_released := True\<rparr>]"
    and "pc_provider_in_flight (release_slot i p) = (if lm_provider_max w > 0 then pc_provider_in_flight p - 1 else pc_provider_in_flight p)"
    and "nullish (map_of (pc_model_in_flight (release_slot i p)) m) 0
      = (if wt_model w = Some m \<and> lm_model_max w > 0 then nullish (map_of (pc_model_in_flight p) m) 0 - 1
         else nullish (map_of (pc_model_in_flight p) m) 0)"
    and "nullish (map_of (pc_key_in_flight (release_slot i p)) k) 0
      = (if lm_key w = Some k \<and> lm_key_lease w then nullish (map_of (pc_key_in_flight p) k) 0 - 1
         else nullish (map_of (pc_key_in_flight p) k) 0)"
    and "pc_tasks (release_slot i p) = pc_tasks p @ [TakeOver]"
  using assms(1) unfolding w_def
  by (simp_all add: release_slot_def Let_def give_key_back_count give_model_back_count)

lemma inv_released:
  assumes inv: "pacer_inv max_depth max_age accepts h c p" and i: "i < length (pc_slots p)"
  shows "pacer_inv max_depth max_age accepts h c (release_slot i p)"
proof (cases "sl_released (pc_slots p ! i)")
  case True
  then have "release_slot i p = p" by (simp add: release_slot_def Let_def)
  with inv show ?thesis by simp
next
  case False
  note live = release_slot_live [OF False]
  have "counts_exact (release_slot i p)"
    using inv unfolding pacer_inv_def counts_exact_def
    by (simp only: live held_released [OF i False live(1)]) simp
  moreover have "caps_kept accepts (release_slot i p)"
  proof -
    have "nullish (map_of (pc_model_in_flight (release_slot i p)) m) 0 \<le> nullish (map_of (pc_model_in_flight p) m) 0"
      "nullish (map_of (pc_key_in_flight (release_slot i p)) k) 0 \<le> nullish (map_of (pc_key_in_flight p) k) 0" for m k
      unfolding live by simp_all
    moreover have "pc_provider_in_flight (release_slot i p) \<le> pc_provider_in_flight p" unfolding live by simp
    ultimately show ?thesis
      using inv unfolding pacer_inv_def caps_kept_def by (meson order_trans)
  qed
  moreover have "remembers h c (release_slot i p)"
    using inv by (simp add: pacer_inv_def remembers_def)
  moreover have "sound_queue max_depth accepts h (release_slot i p)"
    using inv by (simp add: pacer_inv_def sound_queue_def)
  moreover have "timer_timely max_age (release_slot i p)"
    by (simp add: timer_timely_def live(5))
  ultimately show ?thesis using inv by (simp add: pacer_inv_def)
qed

lemma inv_tracked:
  assumes inv: "pacer_inv max_depth max_age accepts h c p" and i: "i < length (pc_slots p)"
  shows "pacer_inv max_depth max_age accepts h c (mark_body_tracked i p)"
proof -
  have "held f (mark_body_tracked i p) = held f p" for f
    using length_filter_list_same [OF i, of "\<lambda>s. \<not> sl_released s \<and> f (sl_waiter s)" "(pc_slots p ! i)\<lparr>sl_tracked := True\<rparr>"]
    by (simp add: held_def mark_body_tracked_def)
  then have "counts_exact (mark_body_tracked i p) = counts_exact p"
    by (simp add: counts_exact_def) (simp add: mark_body_tracked_def)
  with inv show ?thesis
    by (simp add: pacer_inv_def) (simp add: mark_body_tracked_def timer_timely_def)
qed


section \<open>Starts\<close>

definition issue_slot :: "rat \<Rightarrow> waiter \<Rightarrow> pacer \<Rightarrow> pacer" where
  "issue_slot started w p = (take_leases w (space_starts started w p))
     \<lparr>pc_slots := pc_slots p @ [\<lparr>sl_waiter = w, sl_released = False, sl_tracked = False\<rparr>]\<rparr>"

lemma issue_slot_fields [simp]:
  "pc_queue (issue_slot t w p) = pc_queue p" "pc_timer (issue_slot t w p) = pc_timer p" "pc_tasks (issue_slot t w p) = pc_tasks p"
  "pc_slots (issue_slot t w p) = pc_slots p @ [\<lparr>sl_waiter = w, sl_released = False, sl_tracked = False\<rparr>]"
  "pc_provider_next (issue_slot t w p) = t + lm_provider_interval w"
  "pc_provider_in_flight (issue_slot t w p) = (if lm_provider_max w > 0 then pc_provider_in_flight p + 1 else pc_provider_in_flight p)"
  by (simp_all add: issue_slot_def take_leases_def space_starts_def)

lemma issue_slot_counts:
  "nullish (map_of (pc_model_in_flight (issue_slot t w p)) m) 0
   = (if wt_model w = Some m \<and> lm_model_max w > 0 then nullish (map_of (pc_model_in_flight p) m) 0 + 1
      else nullish (map_of (pc_model_in_flight p) m) 0)"
  "nullish (map_of (pc_key_in_flight (issue_slot t w p)) k) 0
   = (if lm_key w = Some k \<and> lm_key_lease w then nullish (map_of (pc_key_in_flight p) k) 0 + 1
      else nullish (map_of (pc_key_in_flight p) k) 0)"
  by (simp_all add: issue_slot_def take_leases_def space_starts_def split: option.split)

lemma issue_slot_times:
  "lookup_time (pc_key_next (issue_slot t w p)) (Some k)
   = (if lm_key w = Some k then t + lm_key_interval w else lookup_time (pc_key_next p) (Some k))"
  "lookup_time (pc_model_next (issue_slot t w p)) (Some m)
   = (if wt_model w = Some m \<and> lm_model_interval w > 0 then t + lm_model_interval w else lookup_time (pc_model_next p) (Some m))"
  "jm_wf (pc_model_next p) \<Longrightarrow> jm_wf (pc_model_next (issue_slot t w p))"
  by (simp_all add: issue_slot_def take_leases_def space_starts_def split: option.split)

lemma held_issued: "held f (issue_slot t w p) = (if f w then held f p + 1 else held f p)"
  by (simp add: held_def)

lemma start_waiter_issue:
  "start_waiter aborted started w p =
     (let p1 = issue_slot started w p; p2 = (if aborted (wt_id w) then release_slot (length (pc_slots p)) p1 else p1)
      in (p2\<lparr>pc_tasks := pc_tasks p2 @ [Rerun]\<rparr>, (w, Granted (length (pc_slots p)) started)))"
proof -
  have "pc_slots (take_leases w (space_starts started w p)) = pc_slots p" by (simp add: take_leases_def space_starts_def)
  then show ?thesis by (simp add: start_waiter_def issue_slot_def Let_def)
qed

lemma startable_spaced:
  assumes "startable now p w"
  shows "pc_provider_next p \<le> now" "lm_key w = Some k \<Longrightarrow> lookup_time (pc_key_next p) (Some k) \<le> now"
    "wt_model w = Some m \<Longrightarrow> lookup_time (pc_model_next p) (Some m) \<le> now"
  using assms by (auto simp: startable_def waiter_ready_at_def)

lemma startable_lane:
  "limits.truncate a = limits.truncate b \<Longrightarrow> wt_model a = wt_model b \<Longrightarrow> startable now p a = startable now p b"
  by (simp add: limits.defs startable_def within_caps_def)

lemma startable_capped:
  assumes "startable now p w"
  shows "lm_provider_max w > 0 \<Longrightarrow> pc_provider_in_flight p < lm_provider_max w"
    "lm_key w = Some k \<Longrightarrow> lm_key_max w > 0 \<Longrightarrow> nullish (map_of (pc_key_in_flight p) k) 0 < lm_key_max w"
    "wt_model w = Some m \<Longrightarrow> lm_model_max w > 0 \<Longrightarrow> nullish (map_of (pc_model_in_flight p) m) 0 < lm_model_max w"
  using assms by (auto simp: startable_def within_caps_def)

lemma starts_grant [simp]: "starts [(w, Granted i t)] = [(w, t)]"
  by (simp add: starts_def map_filter_def)

lemma starts_member: "(w, t) \<in> set (starts h) \<longleftrightarrow> (\<exists>i. (w, Granted i t) \<in> set h)"
  by (force simp: starts_def map_filter_def split: settlement.splits)

text \<open>A start keeps its distance from every start before it.\<close>

lemma start_apart:
  assumes "remembers h c p" and "c \<le> now" and "now \<le> started" and "startable now p w" and "(v, t) \<in> set (starts h)"
  shows "apart (v, t) (w, started)"
proof -
  obtain i where e: "(v, Granted i t) \<in> set h" using assms(5) by (auto simp: starts_member)
  note r = assms(1) [unfolded remembers_def, rule_format, OF e] and sp = startable_spaced [OF assms(4)]
  have k: "t + lm_key_interval v \<le> started" if "lm_key v = Some k" "lm_key w = Some k" for k
    using r that(1) sp(2) [OF that(2)] assms(2,3) by (fastforce simp: max_def split: if_splits)
  have m: "t + lm_model_interval v \<le> started" if "wt_model v = Some m" "wt_model w = Some m" for m
  proof (cases "lm_model_interval v > 0")
    case True
    then show ?thesis using r that(1) sp(3) [OF that(2)] assms(2,3) by (fastforce simp: max_def split: if_splits)
  next
    case False
    then show ?thesis using r assms(2,3) by linarith
  qed
  have "t \<le> started" "t + lm_provider_interval v \<le> started" using r sp(1) assms(2,3) by linarith+
  moreover have "t + lm_key_interval v \<le> started" if "lm_key v \<noteq> None \<and> lm_key v = lm_key w"
    using that k by (metis option.exhaust)
  moreover have "t + lm_model_interval v \<le> started" if "wt_model v \<noteq> None \<and> wt_model v = wt_model w"
    using that m by (metis option.exhaust)
  ultimately show ?thesis by (auto simp: apart_def simp del: not_None_eq)
qed

lemma remembers_start:
  assumes rem: "remembers h c p" and "c \<le> now" and "now \<le> started" and st: "startable now p w"
    and nn: "0 \<le> lm_provider_interval w" "0 \<le> lm_key_interval w"
  shows "remembers (h @ [(w, Granted i started)]) started (issue_slot started w p)"
  unfolding remembers_def
proof (intro allI impI)
  fix v j t assume "(v, Granted j t) \<in> set (h @ [(w, Granted i started)])"
  then consider (old) "(v, Granted j t) \<in> set h" | (new) "v = w" "t = started" by auto
  then show "t \<le> started \<and> t + lm_provider_interval v \<le> pc_provider_next (issue_slot started w p)
     \<and> (\<forall>k. lm_key v = Some k \<longrightarrow> t + lm_key_interval v \<le> max started (lookup_time (pc_key_next (issue_slot started w p)) (Some k)))
     \<and> (\<forall>m. wt_model v = Some m \<and> lm_model_interval v > 0
         \<longrightarrow> t + lm_model_interval v \<le> max started (lookup_time (pc_model_next (issue_slot started w p)) (Some m)))"
  proof cases
    case old
    note r = rem [unfolded remembers_def, rule_format, OF old]
    have a: "apart (v, t) (w, started)"
      by (rule start_apart [OF rem assms(2,3) st]) (use old in \<open>auto simp: starts_member\<close>)
    have k: "t + lm_key_interval v \<le> max started (lookup_time (pc_key_next (issue_slot started w p)) (Some k))"
      if kv: "lm_key v = Some k" for k
    proof (cases "lm_key w = Some k")
      case True
      then have "t + lm_key_interval v \<le> started" using a kv by (simp add: apart_def)
      then show ?thesis by (simp add: le_max_iff_disj)
    next
      case False
      have "t + lm_key_interval v \<le> max c (lookup_time (pc_key_next p) (Some k))" using r kv by blast
      then show ?thesis unfolding issue_slot_times using False assms(2,3) by (auto simp: le_max_iff_disj)
    qed
    have m: "t + lm_model_interval v \<le> max started (lookup_time (pc_model_next (issue_slot started w p)) (Some m))"
      if mv: "wt_model v = Some m" "lm_model_interval v > 0" for m
    proof (cases "wt_model w = Some m")
      case True
      then have "t + lm_model_interval v \<le> started" using a mv(1) by (simp add: apart_def)
      then show ?thesis by (simp add: le_max_iff_disj)
    next
      case False
      have "t + lm_model_interval v \<le> max c (lookup_time (pc_model_next p) (Some m))" using r mv by blast
      then show ?thesis unfolding issue_slot_times using False assms(2,3) by (auto simp: le_max_iff_disj)
    qed
    have "t + lm_provider_interval v \<le> started" "t \<le> started" using a by (simp_all add: apart_def)
    then show ?thesis using k m nn(1) by simp
  next
    case new
    then show ?thesis using issue_slot_times by (auto simp: le_max_iff_disj)
  qed
qed

lemma caps_start:
  assumes caps: "caps_kept accepts p" and st: "startable now p w" and acc: "accepts w"
  shows "caps_kept accepts (issue_slot started w p)"
  unfolding caps_kept_def
proof (intro conjI allI impI)
  fix c :: nat
  assume c: "0 < c" "\<forall>w. accepts w \<longrightarrow> lm_provider_max w \<in> {0, c}"
  then have "pc_provider_in_flight p \<le> c" using caps by (simp add: caps_kept_def)
  moreover have "lm_provider_max w \<in> {0, c}" using c(2) acc by blast
  ultimately show "pc_provider_in_flight (issue_slot started w p) \<le> c"
    using startable_capped(1) [OF st] by auto
next
  fix m and c :: nat
  assume c: "0 < c" "\<forall>w. accepts w \<and> wt_model w = Some m \<longrightarrow> lm_model_max w \<in> {0, c}"
  then have "nullish (map_of (pc_model_in_flight p) m) 0 \<le> c" using caps by (simp add: caps_kept_def)
  moreover have "wt_model w = Some m \<Longrightarrow> lm_model_max w \<in> {0, c}" using c(2) acc by blast
  ultimately show "nullish (map_of (pc_model_in_flight (issue_slot started w p)) m) 0 \<le> c"
    unfolding issue_slot_counts using startable_capped(3) [OF st, of m] by auto
next
  fix k and c :: nat
  assume c: "0 < c" "\<forall>w. accepts w \<and> lm_key w = Some k \<and> lm_key_lease w \<longrightarrow> lm_key_max w = c"
  then have "nullish (map_of (pc_key_in_flight p) k) 0 \<le> c" using caps by (simp add: caps_kept_def)
  moreover have "lm_key w = Some k \<Longrightarrow> lm_key_lease w \<Longrightarrow> lm_key_max w = c" using c(2) acc by blast
  ultimately show "nullish (map_of (pc_key_in_flight (issue_slot started w p)) k) 0 \<le> c"
    unfolding issue_slot_counts using startable_capped(2) [OF st, of k] c(1) by auto
qed


lemma inv_started:
  assumes inv: "pacer_inv max_depth max_age accepts h c p" and "c \<le> now" "now \<le> started" and timer: "pc_timer p = None"
    and q: "pc_queue p = before @ w # behind" and st: "startable now p w"
  shows "pacer_inv max_depth max_age accepts (h @ [(w, Granted i started)]) started
    (issue_slot started w (p\<lparr>pc_queue := before @ behind\<rparr>))"
proof -
  let ?p = "p\<lparr>pc_queue := before @ behind\<rparr>"
  have s: "sound_queue max_depth accepts h p" and rem: "remembers h c p" using inv by (simp_all add: pacer_inv_def)
  have w: "accepts w" "0 \<le> lm_provider_interval w" "0 \<le> lm_key_interval w"
    using s q by (simp_all add: sound_queue_def)
  have st': "startable now ?p w" using st by (simp add: startable_def)
  have "remembers (h @ [(w, Granted i started)]) started (issue_slot started w ?p)"
    by (rule remembers_start [OF _ assms(2,3) st' w(2,3)]) (use rem in simp)
  moreover have "caps_kept accepts (issue_slot started w ?p)"
    by (rule caps_start [where accepts = accepts and p = ?p and now = now, OF _ st' w(1)])
      (use inv in \<open>simp add: pacer_inv_def\<close>)
  moreover have "counts_exact (issue_slot started w ?p)"
    using inv unfolding pacer_inv_def counts_exact_def issue_slot_counts held_issued
    by (simp add: held_def)
  moreover have "sorted_wrt apart (starts (h @ [(w, Granted i started)]))"
    using inv start_apart [OF rem assms(2,3) st] by (auto simp: pacer_inv_def sorted_wrt_append)
  moreover have "sound_queue max_depth accepts (h @ [(w, Granted i started)]) (issue_slot started w ?p)"
    using s q by (auto simp: sound_queue_def)
  ultimately show ?thesis
    using inv timer by (simp add: pacer_inv_def issue_slot_times(3))
qed


section \<open>The run of a queue\<close>

definition expire_queue :: "rat \<Rightarrow> rat \<Rightarrow> pacer \<Rightarrow> pacer \<times> event list" where
  "expire_queue max_age now p =
     reject_expired max_age now (p\<lparr>pc_model_next := filter (\<lambda>(_, t). \<not> t \<le> now) (pc_model_next p)\<rparr>)"

lemma expire_queue_fields:
  assumes "expire_queue max_age now p = (p1, refused)"
  shows "pc_timer p1 = pc_timer p" "pc_tasks p1 = pc_tasks p" "no_grant refused"
    "pc_queue p1 = filter (\<lambda>w. \<not> now - wt_queued_at w \<ge> max_age) (pc_queue p)"
  using assms by (auto simp: expire_queue_def reject_expired_def Let_def no_grant_def)

lemma inv_expired:
  assumes "pacer_inv max_depth max_age accepts h c p" and "pc_timer p = None" and "expire_queue max_age c p = (p1, refused)"
  shows "pacer_inv max_depth max_age accepts (h @ refused) c p1"
proof -
  let ?m = "p\<lparr>pc_model_next := filter (\<lambda>(_, t). \<not> t \<le> c) (pc_model_next p)\<rparr>"
  let ?x = "\<lambda>w. c - wt_queued_at w \<ge> max_age"
  have e: "p1 = ?m\<lparr>pc_queue := filter (\<lambda>w. \<not> ?x w) (pc_queue p)\<rparr>" and f: "map fst refused = rev (filter ?x (pc_queue p))"
    using assms(3) by (auto simp: expire_queue_def reject_expired_def Let_def comp_def)
  have d: "distinct (map wt_id (pc_queue p))" using assms(1) by (simp add: pacer_inv_def sound_queue_def)
  show ?thesis unfolding e
  proof (rule inv_dropped [OF inv_forgets_models [OF assms(1,2)]])
    show "no_grant refused" using expire_queue_fields(3) [OF assms(3)] .
    show "distinct (map wt_id (map fst refused) @ map wt_id (filter (\<lambda>w. \<not> ?x w) (pc_queue p)))"
      unfolding f using d by (auto simp: distinct_map rev_map [symmetric] intro: inj_on_subset dest: inj_onD)
  qed (use f in auto)
qed

lemma run_queue_busy:
  "pc_queue p \<noteq> [] \<Longrightarrow> pc_timer p = None \<Longrightarrow> expire_queue max_age now p = (p1, refused) \<Longrightarrow>
   run_queue max_age aborted now started p =
     (if pc_queue p1 = [] then (p1, refused)
      else (case dropWhile (\<lambda>w. \<not> startable now p1 w) (pc_queue p1) of
          [] \<Rightarrow> (set_wakeup max_age now p1, refused)
        | w # behind \<Rightarrow>
            (case start_waiter aborted started w
                (p1\<lparr>pc_queue := takeWhile (\<lambda>w. \<not> startable now p1 w) (pc_queue p1) @ behind\<rparr>) of
              (p2, e) \<Rightarrow> (p2, refused @ [e]))))"
  by (simp only: run_queue_def expire_queue_def [symmetric] prod.case if_False simp_thms)

lemma first_startable:
  assumes "dropWhile (\<lambda>w. \<not> P w) q = w # behind"
  shows "q = takeWhile (\<lambda>w. \<not> P w) q @ w # behind" "P w" "\<forall>b \<in> set (takeWhile (\<lambda>w. \<not> P w) q). \<not> P b"
proof -
  show "q = takeWhile (\<lambda>w. \<not> P w) q @ w # behind"
    using takeWhile_dropWhile_id [of "\<lambda>w. \<not> P w" q, symmetric] unfolding assms .
  have "\<not> \<not> P (hd (dropWhile (\<lambda>w. \<not> P w) q))" by (rule hd_dropWhile) (simp only: assms list.simps, simp)
  then show "P w" unfolding assms by simp
  show "\<forall>b \<in> set (takeWhile (\<lambda>w. \<not> P w) q). \<not> P b" by (blast dest: set_takeWhileD)
qed

text \<open>What a run did, as one of five outcomes.\<close>

definition starts_at :: "(nat \<Rightarrow> bool) \<Rightarrow> rat \<Rightarrow> rat \<Rightarrow> pacer \<Rightarrow> waiter list \<Rightarrow> waiter \<Rightarrow> waiter list \<Rightarrow> pacer \<Rightarrow> bool" where
  "starts_at aborted now started p1 before w behind p' \<longleftrightarrow> pc_queue p1 = before @ w # behind \<and> startable now p1 w
     \<and> (\<forall>b \<in> set before. \<not> startable now p1 b)
     \<and> start_waiter aborted started w (p1\<lparr>pc_queue := before @ behind\<rparr>) = (p', (w, Granted (length (pc_slots p1)) started))"

lemma run_queue_cases:
  assumes "run_queue max_age aborted now started p = (p', es)"
  obtains (idle) "pc_queue p = []" "p' = p\<lparr>pc_timer := None\<rparr>" "es = []"
  | (waiting) "pc_queue p \<noteq> []" "pc_timer p \<noteq> None" "p' = p" "es = []"
  | (drained) "pc_timer p = None" "expire_queue max_age now p = (p', es)" "pc_queue p' = []"
  | (asleep) p1 where "pc_timer p = None" "expire_queue max_age now p = (p1, es)" "pc_queue p1 \<noteq> []"
      "\<forall>w \<in> set (pc_queue p1). \<not> startable now p1 w" "p' = set_wakeup max_age now p1"
  | (started) p1 refused before w behind where "pc_timer p = None" "expire_queue max_age now p = (p1, refused)"
      "starts_at aborted now started p1 before w behind p'" "es = refused @ [(w, Granted (length (pc_slots p1)) started)]"
proof -
  obtain p1 refused where x: "expire_queue max_age now p = (p1, refused)" by fastforce
  consider "pc_queue p = []" | "pc_queue p \<noteq> []" "pc_timer p \<noteq> None" | (busy) "pc_queue p \<noteq> []" "pc_timer p = None" by blast
  then show ?thesis
  proof cases
    case 1
    show ?thesis by (rule idle) (use assms 1 in \<open>simp_all add: run_queue_def\<close>)
  next
    case 2
    show ?thesis by (rule waiting) (use assms 2 in \<open>simp_all add: run_queue_def\<close>)
  next
    case busy
    note r = assms [unfolded run_queue_busy [OF busy x]]
    consider (e) "pc_queue p1 = []"
      | (n) "pc_queue p1 \<noteq> []" "dropWhile (\<lambda>w. \<not> startable now p1 w) (pc_queue p1) = []"
      | (c) w behind where "pc_queue p1 \<noteq> []" "dropWhile (\<lambda>w. \<not> startable now p1 w) (pc_queue p1) = w # behind"
      by (metis list.exhaust)
    then show ?thesis
    proof cases
      case e
      show ?thesis by (rule drained) (use r e x busy in simp_all)
    next
      case n
      show ?thesis by (rule asleep [of p1]) (use r n x busy in \<open>simp_all add: dropWhile_eq_Nil_conv\<close>)
    next
      case c
      let ?before = "takeWhile (\<lambda>w. \<not> startable now p1 w) (pc_queue p1)"
      obtain p2 where p2: "start_waiter aborted started w (p1\<lparr>pc_queue := ?before @ behind\<rparr>)
          = (p2, (w, Granted (length (pc_slots p1)) started))"
        by (simp add: start_waiter_issue Let_def)
      have "p' = p2" "es = refused @ [(w, Granted (length (pc_slots p1)) started)]"
        using r unfolding c(2) list.case p2 prod.case using c(1) by simp_all
      moreover have "starts_at aborted now started p1 ?before w behind p2"
        unfolding starts_at_def using first_startable [OF c(2)] p2 by blast
      ultimately show ?thesis using started busy x by blast
    qed
  qed
qed

text \<open>The wake-up that a run leaves behind.\<close>

lemma fold_min_least: "fold min ts (t::rat) \<le> t" "x \<in> set ts \<Longrightarrow> fold min ts t \<le> x"
proof (induction ts arbitrary: t)
  case (Cons a ts)
  { case 1 show ?case using Cons.IH(1) [of "min a t"] by simp }
  { case 2 then show ?case using Cons.IH(1) [of "min a t"] Cons.IH(2) by auto }
qed simp_all

lemma wakeup_instant:
  assumes "pc_queue p \<noteq> []"
  obtains d where "set_wakeup max_age now p = p\<lparr>pc_timer := Some d\<rparr>"
    "\<forall>w \<in> set (pc_queue p). \<forall>x \<in> set (wake_candidates max_age now p w). now \<le> x \<longrightarrow> d \<le> x"
proof -
  let ?c = "concat (map (wake_candidates max_age now p) (pc_queue p))"
  have "?c \<noteq> []" using assms by (auto simp: wake_candidates_def Let_def neq_Nil_conv)
  then obtain t ts where c: "?c = t # ts" by (meson list.exhaust)
  let ?d = "now + max 0 (fold min ts t - now)"
  have least: "fold min ts t \<le> x" if "x \<in> set ?c" for x using that fold_min_least unfolding c by auto
  have "?d \<le> x" if "x \<in> set ?c" "now \<le> x" for x using least [OF that(1)] that(2) by (simp add: max_def)
  then have "\<forall>w \<in> set (pc_queue p). \<forall>x \<in> set (wake_candidates max_age now p w). now \<le> x \<longrightarrow> ?d \<le> x" by auto
  moreover have "set_wakeup max_age now p = p\<lparr>pc_timer := Some ?d\<rparr>" unfolding set_wakeup_def c by simp
  ultimately show ?thesis using that by blast
qed

lemma wakeup_timely:
  assumes "pc_queue p \<noteq> []" and "\<forall>w \<in> set (pc_queue p). now - wt_queued_at w < max_age \<and> \<not> startable now p w"
  obtains d where "set_wakeup max_age now p = p\<lparr>pc_timer := Some d\<rparr>" "timely max_age p d"
proof -
  obtain d where d: "set_wakeup max_age now p = p\<lparr>pc_timer := Some d\<rparr>"
    "\<forall>w \<in> set (pc_queue p). \<forall>x \<in> set (wake_candidates max_age now p w). now \<le> x \<longrightarrow> d \<le> x"
    using wakeup_instant [OF assms(1)] by blast
  have "d \<le> wt_queued_at w + max_age" if "w \<in> set (pc_queue p)" for w
  proof -
    have "now \<le> wt_queued_at w + max_age" using assms(2) that by fastforce
    then show ?thesis using d(2) that by (auto simp: wake_candidates_def Let_def)
  qed
  moreover have "d \<le> waiter_ready_at p (wt_model w) (lm_key w)" if w: "w \<in> set (pc_queue p)" "within_caps p w" for w
  proof -
    let ?r = "waiter_ready_at p (wt_model w) (lm_key w)"
    have "now < ?r" using assms(2) w by (auto simp: startable_def)
    moreover from this have "?r \<in> set (wake_candidates max_age now p w)" by (simp add: wake_candidates_def max_def)
    ultimately show ?thesis using d(2) w(1) by (meson less_imp_le)
  qed
  ultimately have "timely max_age p d" by (simp add: timely_def)
  with d(1) that show ?thesis by blast
qed

lemma inv_asleep:
  assumes "pacer_inv max_depth max_age accepts h c p" and "timely max_age p d"
  shows "pacer_inv max_depth max_age accepts h c (p\<lparr>pc_timer := Some d\<rparr>)"
  using assms by (simp add: pacer_inv_def timer_timely_def)

lemma expired_young:
  "expire_queue max_age now p = (p1, refused) \<Longrightarrow> w \<in> set (pc_queue p1) \<Longrightarrow> now - wt_queued_at w < max_age"
  using expire_queue_fields(4) by fastforce

text \<open>A run keeps the invariant and never leaves the queue asleep without a wake-up.\<close>

lemma inv_run:
  assumes inv: "pacer_inv max_depth max_age accepts h c p" and clock: "c \<le> now" "now \<le> started"
    and run: "run_queue max_age aborted now started p = (p', es)"
  shows "pacer_inv max_depth max_age accepts (h @ es) started p' \<and> awake p'"
  using run
proof (cases rule: run_queue_cases)
  case idle
  then show ?thesis using inv_later [OF inv] clock by (simp add: awake_def)
next
  case waiting
  then show ?thesis using inv_later [OF inv] clock by (simp add: awake_def)
next
  case drained
  then show ?thesis
    using inv_later [OF inv_expired [OF inv_later [OF inv clock(1)] drained(1,2)] clock(2)] by (simp add: awake_def)
next
  case (asleep p1)
  have "\<forall>w \<in> set (pc_queue p1). now - wt_queued_at w < max_age \<and> \<not> startable now p1 w"
    using asleep(4) expired_young [OF asleep(2)] by blast
  with asleep(3) obtain d where d: "set_wakeup max_age now p1 = p1\<lparr>pc_timer := Some d\<rparr>" "timely max_age p1 d"
    by (rule wakeup_timely)
  have "pacer_inv max_depth max_age accepts (h @ es) started p1"
    using inv_later [OF inv_expired [OF inv_later [OF inv clock(1)] asleep(1,2)] clock(2)] .
  from inv_asleep [OF this d(2)] show ?thesis using asleep(5) d(1) by (simp add: awake_def)
next
  case (started p1 refused before w behind)
  let ?p = "issue_slot started w (p1\<lparr>pc_queue := before @ behind\<rparr>)"
  let ?q = "if aborted (wt_id w) then release_slot (length (pc_slots p1)) ?p else ?p"
  note s = started(3) [unfolded starts_at_def]
  have "pacer_inv max_depth max_age accepts (h @ refused) now p1"
    using inv_expired [OF inv_later [OF inv clock(1)] started(1,2)] .
  then have "pacer_inv max_depth max_age accepts ((h @ refused) @ [(w, Granted (length (pc_slots p1)) started)]) started ?p"
    by (rule inv_started [OF _ order_refl clock(2)]) (use s started(1) expire_queue_fields(1) [OF started(2)] in simp_all)
  then have "pacer_inv max_depth max_age accepts (h @ es) started ?p" using started(4) by simp
  then have "pacer_inv max_depth max_age accepts (h @ es) started ?q" using inv_released by simp
  from inv_task_added [OF this, of Rerun]
  have "pacer_inv max_depth max_age accepts (h @ es) started (?q\<lparr>pc_tasks := pc_tasks ?q @ [Rerun]\<rparr>)" .
  moreover have "p' = ?q\<lparr>pc_tasks := pc_tasks ?q @ [Rerun]\<rparr>"
    using s by (simp add: start_waiter_issue Let_def split: if_splits)
  ultimately show ?thesis by (simp add: awake_def)
qed

section \<open>Whole operations\<close>

text \<open>A run loses no waiter: each is still queued or was settled by it.\<close>

lemma expire_queue_conserves:
  "expire_queue max_age now p = (p1, refused) \<Longrightarrow> mset (map fst refused) + mset (pc_queue p1) = mset (pc_queue p)"
proof -
  assume x: "expire_queue max_age now p = (p1, refused)"
  have "map fst refused = rev (filter (\<lambda>w. now - wt_queued_at w \<ge> max_age) (pc_queue p))"
    using x by (auto simp: expire_queue_def reject_expired_def Let_def comp_def)
  then have "mset (map fst refused) + mset (pc_queue p1) = mset (filter (\<lambda>w. now - wt_queued_at w \<ge> max_age) (pc_queue p))
      + mset (filter (\<lambda>w. \<not> now - wt_queued_at w \<ge> max_age) (pc_queue p))"
    unfolding expire_queue_fields(4) [OF x] by (simp only: mset_rev)
  also have "\<dots> = mset (pc_queue p)" by (simp only: mset_filter multiset_partition [symmetric])
  finally show ?thesis .
qed

lemma run_queue_conserves:
  assumes "run_queue max_age aborted now started p = (p', es)"
  shows "mset (map fst es) + mset (pc_queue p') = mset (pc_queue p)"
  using assms
proof (cases rule: run_queue_cases)
  case (asleep p1)
  then show ?thesis
    using expire_queue_conserves [OF asleep(2)] wakeup_instant [of p1 max_age now] by (metis pacer.select_convs(4) pacer.surjective pacer.update_convs(9))
next
  case (started p1 refused before w behind)
  note s = started(3) [unfolded starts_at_def]
  have "pc_queue p' = before @ behind"
    using s by (auto simp: start_waiter_issue Let_def split: if_splits)
  then show ?thesis using expire_queue_conserves [OF started(2)] s started(4) by simp
next
  case drained
  then show ?thesis using expire_queue_conserves [OF drained(2)] by simp
qed simp_all

lemma run_queue_members:
  assumes "run_queue max_age aborted now started p = (p', es)"
  shows "fst ` set es \<union> set (pc_queue p') = set (pc_queue p)"
  using arg_cong [OF run_queue_conserves [OF assms], of set_mset] by simp

lemma inv_aborted:
  assumes inv: "pacer_inv max_depth max_age accepts h c p" and w: "w \<in> set (pc_queue p)" and clock: "c \<le> now" "now \<le> started"
    and op: "abort_waiter max_age aborted now started w p = (p', es)"
  shows "pacer_inv max_depth max_age accepts (h @ es) started p' \<and> awake p'"
proof -
  let ?q = "filter (\<lambda>x. wt_id x \<noteq> wt_id w) (pc_queue p)"
  let ?p = "p\<lparr>pc_queue := ?q, pc_timer := None\<rparr>"
  obtain es' where r: "run_queue max_age aborted now started ?p = (p', es')" and es: "es = (w, AbortedWait) # es'"
    using op by (auto simp: abort_waiter_def split: prod.splits)
  have "distinct (map wt_id (pc_queue p))" using inv by (simp add: pacer_inv_def sound_queue_def)
  then have "pacer_inv max_depth max_age accepts (h @ [(w, AbortedWait)]) c (p\<lparr>pc_queue := ?q\<rparr>)"
    by (intro inv_dropped [OF inv]) (use w in \<open>auto simp: no_grant_def distinct_map intro: inj_on_subset\<close>)
  from inv_run [OF inv_no_timer [OF this] clock r] show ?thesis unfolding es by simp
qed

lemma retire_keys_timer: "(retire_keys cur t p)\<lparr>pc_timer := x\<rparr> = retire_keys cur t (p\<lparr>pc_timer := x\<rparr>)"
  by (simp add: retire_keys_def Let_def)

lemma inv_arrived:
  assumes inv: "pacer_inv max_depth max_age accepts h c p"
    and t: "c \<le> rd_retire rd" "rd_retire rd \<le> rd_first rd" "rd_first rd \<le> rd_first_start rd"
      "rd_first_start rd \<le> rd_second rd" "rd_second rd \<le> rd_second_start rd"
    and w: "accepts w" "0 \<le> lm_provider_interval w" "0 \<le> lm_key_interval w"
    and new: "wt_id w \<notin> wt_id ` set (pc_queue p) \<union> (\<lambda>e. wt_id (fst e)) ` set h"
    and op: "enqueue_waiter max_depth max_age aborted current rd w p = (p', es)"
  shows "pacer_inv max_depth max_age accepts (h @ es) (rd_second_start rd) p' \<and> awake p'"
proof -
  let ?p = "retire_keys current (rd_retire rd) (p\<lparr>pc_timer := None\<rparr>)"
  obtain p1 es1 where r1: "run_queue max_age aborted (rd_first rd) (rd_first_start rd) ?p = (p1, es1)" by fastforce
  have "pacer_inv max_depth max_age accepts h (rd_retire rd) ?p"
    by (rule inv_retired) (simp_all add: inv_later [OF inv t(1)])
  from inv_run [OF this t(2,3) r1]
  have one: "pacer_inv max_depth max_age accepts (h @ es1) (rd_first_start rd) p1" "awake p1" by simp_all
  have "fst ` set es1 \<union> set (pc_queue p1) = set (pc_queue p)" using run_queue_members [OF r1] by simp
  then have new1: "wt_id w \<notin> wt_id ` set (pc_queue p1) \<union> (\<lambda>e. wt_id (fst e)) ` set (h @ es1)"
    using new by (auto simp: image_iff)
  show ?thesis
  proof (cases "length (pc_queue p1) \<ge> max_depth")
    case True
    then obtain s where e: "p' = p1" "es = es1 @ [(w, QueueFull s)]"
      using op r1 by (auto simp: enqueue_waiter_def retire_keys_timer)
    have "pacer_inv max_depth max_age accepts ((h @ es1) @ [(w, QueueFull s)]) (rd_first_start rd) p1"
      by (rule inv_refused [OF one(1) new1 w(1)]) simp
    then show ?thesis using one(2) inv_later t(4,5) unfolding e by fastforce
  next
    case False
    let ?p2 = "p1\<lparr>pc_queue := pc_queue p1 @ [w], pc_timer := None\<rparr>"
    let ?p1 = "p1\<lparr>pc_timer := None\<rparr>"
    have e: "?p2 = ?p1\<lparr>pc_queue := pc_queue ?p1 @ [w]\<rparr>" by simp
    have p2: "pacer_inv max_depth max_age accepts (h @ es1) (rd_first_start rd) ?p2"
      unfolding e by (rule inv_pushed [OF inv_no_timer [OF one(1)]]) (use False w new1 in simp_all)
    obtain es2 where r2: "(if aborted (wt_id w) then abort_waiter max_age aborted (rd_second rd) (rd_second_start rd) w ?p2
        else run_queue max_age aborted (rd_second rd) (rd_second_start rd) ?p2) = (p', es2)" and es: "es = es1 @ es2"
      using op r1 False by (auto simp: enqueue_waiter_def retire_keys_timer abort_waiter_def Let_def split: prod.splits if_splits)
    have "w \<in> set (pc_queue ?p2)" by simp
    then show ?thesis
      using inv_aborted [OF p2 _ t(4,5)] inv_run [OF p2 t(4,5)] r2 unfolding es append_assoc [symmetric]
      by (metis (full_types))
  qed
qed

lemma inv_removed:
  assumes inv: "pacer_inv max_depth max_age accepts h c p" and op: "remove_pacer p = (p', es)"
  shows "pacer_inv max_depth max_age accepts (h @ es) c p' \<and> awake p'"
proof -
  have e: "p' = (p\<lparr>pc_queue := []\<rparr>)\<lparr>pc_timer := None\<rparr>" "es = map (\<lambda>w. (w, ProviderRemoved)) (pc_queue p)"
    using op by (auto simp: remove_pacer_def)
  have "pacer_inv max_depth max_age accepts (h @ es) c (p\<lparr>pc_queue := []\<rparr>)"
    using inv unfolding e
    by (intro inv_dropped [OF inv]) (auto simp: no_grant_def comp_def pacer_inv_def sound_queue_def)
  then show ?thesis unfolding e(1) by (simp add: awake_def)
qed

lemma awake_fields:
  "awake p \<Longrightarrow> i < length (pc_slots p) \<Longrightarrow> awake (release_slot i p)"
  "awake p \<Longrightarrow> awake (mark_body_tracked i p)"
  by (auto simp: awake_def release_slot_def mark_body_tracked_def Let_def)

theorem paced_inv:
  "paced max_depth max_age accepts h clock p \<Longrightarrow> pacer_inv max_depth max_age accepts h clock p \<and> awake p"
proof (induction rule: paced.induct)
  case begins
  show ?case using inv_begins by (simp add: awake_def) (simp add: fresh_pacer_def)
next
  case (task h clock p now started aborted p' es)
  then have inv: "pacer_inv max_depth max_age accepts h clock p" by blast
  show ?case
  proof (cases "pc_tasks p")
    case Nil
    then show ?thesis using task inv_later by (auto simp: run_task_def)
  next
    case (Cons m ts)
    show ?thesis
    proof (cases m)
      case Rerun
      then have "run_queue max_age aborted now started (p\<lparr>pc_tasks := ts\<rparr>) = (p', es)"
        using task.hyps Cons by (simp add: run_task_def)
      from inv_run [OF inv_task_done [OF inv] task.hyps(2,3) this] show ?thesis using Cons Rerun by simp
    next
      case TakeOver
      then have "run_queue max_age aborted now started (p\<lparr>pc_tasks := ts, pc_timer := None\<rparr>) = (p', es)"
        using task.hyps Cons by (simp add: run_task_def)
      from inv_run [OF inv_takeover [OF inv] task.hyps(2,3) this] show ?thesis .
    qed
  qed
next
  case (timer h clock p now started aborted p' es)
  then have "pacer_inv max_depth max_age accepts h clock (p\<lparr>pc_timer := None\<rparr>)" by simp
  from inv_run [OF this timer.hyps(2,3)] timer.hyps(5) show ?case by (simp add: fire_timer_def)
next
  case (aborts h clock p now started w aborted p' es)
  then show ?case using inv_aborted by blast
next
  case (release h clock p i)
  then show ?case using inv_released awake_fields(1) by blast
next
  case (boundary h clock p i)
  then show ?case using inv_released awake_fields(1) by (simp add: release_at_boundary_def)
next
  case (tracked h clock p i)
  then show ?case using inv_tracked awake_fields(2) by blast
next
  case (arrives h clock p rd w aborted current p' es)
  have "rd_first_start rd \<le> rd_second rd" using arrives.hyps by linarith
  then show ?case using inv_arrived arrives.hyps arrives.IH by blast
next
  case (removed h clock p p' es)
  then show ?case using inv_removed by blast
qed


lemma starts_distance: "paced max_depth max_age accepts h clock p \<Longrightarrow> sorted_wrt apart (starts h)"
  using paced_inv by (simp add: pacer_inv_def)

lemma granted_accepted: "paced max_depth max_age accepts h clock p \<Longrightarrow> (w, r) \<in> set h \<Longrightarrow> accepts w"
  using paced_inv unfolding pacer_inv_def sound_queue_def by fastforce

lemma paced_clock: "paced max_depth max_age accepts h clock p \<Longrightarrow> 0 \<le> clock"
  by (induction rule: paced.induct) auto

text \<open>What a run does for a waiter it finds too old, and for one it may start.\<close>

lemma expired_waiter_told:
  assumes "w \<in> set (pc_queue p)" and "pc_timer p = None" and "wt_queued_at w + max_age \<le> now"
  shows "\<exists>s. (w, QueueExpired s) \<in> set (snd (run_queue max_age aborted now started p))"
proof -
  obtain p1 refused where x: "expire_queue max_age now p = (p1, refused)" by fastforce
  have "max_age \<le> now - wt_queued_at w" using assms(3) by simp
  then obtain s where "(w, QueueExpired s) \<in> set refused"
    using x assms(1) by (fastforce simp: expire_queue_def reject_expired_def Let_def)
  moreover have "pc_queue p \<noteq> []" using assms(1) by auto
  from run_queue_busy [OF this assms(2) x] have "set refused \<subseteq> set (snd (run_queue max_age aborted now started p))"
    by (auto split: list.split prod.split)
  ultimately show ?thesis by blast
qed

lemma startable_expired:
  assumes "expire_queue max_age now p = (p1, refused)" and "jm_wf (pc_model_next p)" and "0 \<le> now"
  shows "startable now p1 w = startable now p w"
proof -
  have e: "pc_provider_next p1 = pc_provider_next p" "pc_key_next p1 = pc_key_next p" "within_caps p1 w = within_caps p w"
    "pc_model_next p1 = filter (\<lambda>(_, t). \<not> t \<le> now) (pc_model_next p)"
    using assms(1) by (auto simp: expire_queue_def reject_expired_def Let_def)
  have "lookup_time (pc_model_next p1) (Some m) \<le> now \<longleftrightarrow> lookup_time (pc_model_next p) (Some m) \<le> now" for m
    unfolding e using assms(2,3) by (auto simp: map_of_filter_wf split: option.split)
  then show ?thesis
    unfolding startable_def e(3) waiter_ready_at_def e(1,2) by (cases "wt_model w") simp_all
qed

lemma startable_settles:
  assumes "w \<in> set (pc_queue p)" and "pc_timer p = None" and "startable now p w" and "jm_wf (pc_model_next p)" and "0 \<le> now"
  shows "snd (run_queue max_age aborted now started p) \<noteq> []"
proof
  assume no: "snd (run_queue max_age aborted now started p) = []"
  obtain p' where r: "run_queue max_age aborted now started p = (p', [])" using no by (metis prod.collapse)
  then show False
  proof (cases rule: run_queue_cases)
    case (asleep p1)
    have "filter (\<lambda>w. now - wt_queued_at w \<ge> max_age) (pc_queue p) = []"
      using asleep(2) by (simp add: expire_queue_def reject_expired_def Let_def)
    then have "w \<in> set (pc_queue p1)" using assms(1) expire_queue_fields(4) [OF asleep(2)] by (auto simp: filter_empty_conv)
    moreover have "startable now p1 w" using startable_expired [OF asleep(2) assms(4,5)] assms(3) by simp
    ultimately show False using asleep(4) by blast
  next
    case drained
    then show False using expire_queue_conserves [OF drained(2)] assms(1) by simp
  qed (use assms in auto)
qed

end
