(* ===== verification/Pacing_Properties.thy ===== *)
theory Pacing_Properties
  imports Pacing_Steps
begin

text \<open>
  What request pacing promises, over every history of a pacer: the counters are exact, no cap is ever
  exceeded, starts keep their distance, a waiting request is always woken in time, every wait is
  settled once and requests of one lane do not overtake each other. A small history applies each.
\<close>

section \<open>The waiters of one policy\<close>

definition follows :: "(string \<Rightarrow> string) \<Rightarrow> pacing_policy \<Rightarrow> waiter \<Rightarrow> bool" where
  "follows digest pol w \<longleftrightarrow> (\<exists>pv model concurrency i queued. pv_policy pv = Some pol
     \<and> w = new_waiter (let l = request_pacing_intervals digest pv model in if concurrency then l else without_leases l) i model queued)"

lemma new_waiter_fields [simp]:
  "lm_key (new_waiter l i m q) = lm_key l" "lm_key_lease (new_waiter l i m q) = lm_key_lease l"
  "lm_key_interval (new_waiter l i m q) = lm_key_interval l" "lm_key_max (new_waiter l i m q) = lm_key_max l"
  "lm_provider_interval (new_waiter l i m q) = lm_provider_interval l" "lm_model_interval (new_waiter l i m q) = lm_model_interval l"
  "lm_provider_max (new_waiter l i m q) = lm_provider_max l" "lm_model_max (new_waiter l i m q) = lm_model_max l"
  "wt_id (new_waiter l i m q) = i" "wt_model (new_waiter l i m q) = m" "wt_queued_at (new_waiter l i m q) = q"
  by (simp_all add: new_waiter_def limits.defs)

lemma without_leases_fields [simp]:
  "lm_key (without_leases l) = lm_key l" "\<not> lm_key_lease (without_leases l)" "lm_key_interval (without_leases l) = lm_key_interval l"
  "lm_key_max (without_leases l) = 0" "lm_provider_interval (without_leases l) = lm_provider_interval l"
  "lm_model_interval (without_leases l) = lm_model_interval l" "lm_provider_max (without_leases l) = 0" "lm_model_max (without_leases l) = 0"
  by (simp_all add: without_leases_def)

lemma follows_limits:
  assumes "follows digest pol w" and "pol_enabled pol"
  shows "lm_provider_max w \<in> {0, normalized_max_concurrent (Some pol)}"
    "lm_model_max w \<in> {0, normalized_max_concurrent (model_rule pol (wt_model w))}"
    "lm_key w \<noteq> None \<Longrightarrow> lm_key_lease w \<Longrightarrow> lm_key_max w = normalized_max_concurrent (pol_keys pol)"
    "lm_provider_interval w = normalized_interval (Some pol)"
proof -
  obtain pv model concurrency i queued where pv: "pv_policy pv = Some pol"
    and w: "w = new_waiter (let l = request_pacing_intervals digest pv model in if concurrency then l else without_leases l) i model queued"
    using assms(1) unfolding follows_def by blast
  define l where "l = request_pacing_intervals digest pv model"
  have l: "lm_provider_max l = normalized_max_concurrent (Some pol)" "lm_model_max l = normalized_max_concurrent (model_rule pol model)"
    "lm_key l \<noteq> None \<Longrightarrow> lm_key_max l = normalized_max_concurrent (pol_keys pol)"
    "lm_provider_interval l = normalized_interval (Some pol)"
    using assms(2) pv by (simp_all add: l_def request_pacing_intervals_def Let_def)
  have e: "w = new_waiter (if concurrency then l else without_leases l) i model queued" using w by (simp add: l_def)
  show "lm_provider_max w \<in> {0, normalized_max_concurrent (Some pol)}"
    "lm_model_max w \<in> {0, normalized_max_concurrent (model_rule pol (wt_model w))}"
    "lm_key w \<noteq> None \<Longrightarrow> lm_key_lease w \<Longrightarrow> lm_key_max w = normalized_max_concurrent (pol_keys pol)"
    "lm_provider_interval w = normalized_interval (Some pol)"
    unfolding e by (cases concurrency; simp add: l)+
qed


section \<open>A history\<close>

lemma floor_three_halves [simp]: "\<lfloor>3 / 2 :: rat\<rfloor> = 1"
  by (simp add: floor_eq_iff)

text \<open>
  One request a second and one in flight: the first request starts at once, the second waits; the
  microtask of the first start finds a wake-up already set.
\<close>

definition demo_waiter :: "nat \<Rightarrow> rat \<Rightarrow> waiter" where
  "demo_waiter i t = \<lparr>lm_key = Some ''k'', lm_key_lease = True, lm_key_interval = 0, lm_key_max = 1,
     lm_provider_interval = 1000, lm_model_interval = 0, lm_provider_max = 1, lm_model_max = 1,
     wt_id = i, wt_model = Some ''m'', wt_queued_at = t\<rparr>"

definition demo_readings :: "rat \<Rightarrow> readings" where
  "demo_readings t = \<lparr>rd_retire = t, rd_first = t, rd_first_start = t, rd_full = t, rd_second = t, rd_second_start = t\<rparr>"

definition demo_policy :: pacing_policy where
  "demo_policy = \<lparr>rule_per_minute = Some 60, rule_min_interval = None, rule_max_concurrent = Some 1, pol_enabled = True,
     pol_keys = Some \<lparr>rule_per_minute = None, rule_min_interval = None, rule_max_concurrent = Some (3/2)\<rparr>,
     pol_round_robin = False,
     pol_models = [(''m'', \<lparr>rule_per_minute = None, rule_min_interval = None, rule_max_concurrent = Some 1\<rparr>)]\<rparr>"

definition demo_provider :: paced_provider where
  "demo_provider = \<lparr>pv_policy = Some demo_policy, pv_key_auth = True, pv_api_key = Some ''s'', pv_reference = None, pv_pool = []\<rparr>"

definition demo_started :: pacer where
  "demo_started = \<lparr>pc_key_next = [(''k'', 1)], pc_key_in_flight = [(''k'', 1)], pc_key_starts = [(''k'', 1)], pc_queue = [],
     pc_provider_next = 1001, pc_model_next = [], pc_provider_in_flight = 1, pc_model_in_flight = [(''m'', 1)],
     pc_timer = None, pc_last_started = Some 1, pc_last_model = Some ''m'',
     pc_slots = [\<lparr>sl_waiter = demo_waiter 0 1, sl_released = False, sl_tracked = False\<rparr>], pc_tasks = [Rerun]\<rparr>"

definition demo_asleep :: pacer where
  "demo_asleep = demo_started\<lparr>pc_queue := [demo_waiter 1 2], pc_timer := Some 1001\<rparr>"

lemmas demo_defs = demo_waiter_def demo_readings_def enqueue_waiter_def run_queue_def retire_keys_def
  reject_expired_def startable_def within_caps_def waiter_ready_at_def start_waiter_def take_leases_def space_starts_def
  set_wakeup_def wake_candidates_def

lemma demo_first: "enqueue_waiter 4 60000 (\<lambda>_. False) [Some ''k''] (demo_readings 1) (demo_waiter 0 1) fresh_pacer
    = (demo_started, [(demo_waiter 0 1, Granted 0 1)])"
  by (simp add: demo_defs demo_started_def fresh_pacer_def Let_def)

lemma demo_second: "enqueue_waiter 4 60000 (\<lambda>_. False) [Some ''k''] (demo_readings 2) (demo_waiter 1 2) demo_started = (demo_asleep, [])"
  by (simp add: demo_defs demo_started_def demo_asleep_def Let_def)

lemma demo_third: "run_task 60000 (\<lambda>_. False) 3 3 demo_asleep = (demo_asleep\<lparr>pc_tasks := []\<rparr>, [])"
  by (simp add: run_task_def run_queue_def demo_asleep_def demo_started_def)

lemma demo_follows: "follows (\<lambda>_. ''k'') demo_policy (demo_waiter i t)"
  unfolding follows_def
  by (intro exI [of _ demo_provider] exI [of _ "Some ''m''"] exI [of _ True] exI [of _ i] exI [of _ t])
    (simp add: demo_provider_def demo_policy_def demo_waiter_def new_waiter_def limits.defs request_pacing_intervals_def key_bucket_def
      model_rule_def normalized_interval_def normalized_max_concurrent_def positive_def Let_def)

lemma demo_waiter_fields [simp]:
  "wt_id (demo_waiter i t) = i" "wt_queued_at (demo_waiter i t) = t" "wt_model (demo_waiter i t) = Some ''m''"
  "lm_provider_interval (demo_waiter i t) = 1000" "lm_key_interval (demo_waiter i t) = 0" "lm_key (demo_waiter i t) = Some ''k''"
  by (simp_all add: demo_waiter_def)

lemma demo_paced: "paced 4 60000 (follows (\<lambda>_. ''k'') demo_policy) [(demo_waiter 0 1, Granted 0 1)] 3 (demo_asleep\<lparr>pc_tasks := []\<rparr>)"
proof -
  have "paced 4 60000 (follows (\<lambda>_. ''k'') demo_policy) ([] @ [(demo_waiter 0 1, Granted 0 1)]) (rd_second_start (demo_readings 1)) demo_started"
    by (rule paced.arrives [OF paced.begins _ _ _ _ _ _ _ _ _ _ demo_first])
      (simp_all add: demo_follows demo_readings_def fresh_pacer_def)
  then have "paced 4 60000 (follows (\<lambda>_. ''k'') demo_policy) (([] @ [(demo_waiter 0 1, Granted 0 1)]) @ []) (rd_second_start (demo_readings 2)) demo_asleep"
    by (rule paced.arrives [OF _ _ _ _ _ _ _ _ _ _ _ demo_second])
      (simp_all add: demo_follows demo_readings_def demo_started_def)
  then have "paced 4 60000 (follows (\<lambda>_. ''k'') demo_policy) ((([] @ [(demo_waiter 0 1, Granted 0 1)]) @ []) @ []) 3 (demo_asleep\<lparr>pc_tasks := []\<rparr>)"
    by (rule paced.task [OF _ _ _ demo_third]) (simp_all add: demo_readings_def)
  then show ?thesis by simp
qed


section \<open>Caps and counters\<close>

text \<open>The counters of a pacer are the leases that are out, in every history.\<close>

theorem pacing_counters_exact:
  assumes "paced max_depth max_age accepts h clock p"
  shows "pc_provider_in_flight p = held (\<lambda>w. lm_provider_max w > 0) p
    \<and> nullish (map_of (pc_model_in_flight p) m) 0 = held (\<lambda>w. wt_model w = Some m \<and> lm_model_max w > 0) p
    \<and> nullish (map_of (pc_key_in_flight p) k) 0 = held (\<lambda>w. lm_key w = Some k \<and> lm_key_lease w) p"
  using paced_inv [OF assms] by (simp add: pacer_inv_def counts_exact_def)

theorem pacing_counters_exact_witness:
  "held (\<lambda>w. lm_provider_max w > 0) (demo_asleep\<lparr>pc_tasks := []\<rparr>) = 1"
  using pacing_counters_exact [OF demo_paced] by (simp add: demo_asleep_def demo_started_def)

lemma caps_never_exceeded:
  assumes "paced max_depth max_age accepts h clock p" and "0 < c"
  shows "\<forall>w. accepts w \<longrightarrow> lm_provider_max w \<in> {0, c} \<Longrightarrow> held (\<lambda>w. lm_provider_max w > 0) p \<le> c"
    and "\<forall>w. accepts w \<and> wt_model w = Some m \<longrightarrow> lm_model_max w \<in> {0, c}
        \<Longrightarrow> held (\<lambda>w. wt_model w = Some m \<and> lm_model_max w > 0) p \<le> c"
    and "\<forall>w. accepts w \<and> lm_key w = Some k \<and> lm_key_lease w \<longrightarrow> lm_key_max w = c
        \<Longrightarrow> held (\<lambda>w. lm_key w = Some k \<and> lm_key_lease w) p \<le> c"
proof -
  have "counts_exact p" "caps_kept accepts p" using paced_inv [OF assms(1)] by (simp_all add: pacer_inv_def)
  note inv = this(1) [unfolded counts_exact_def] this(2) [unfolded caps_kept_def]
  show "\<forall>w. accepts w \<longrightarrow> lm_provider_max w \<in> {0, c} \<Longrightarrow> held (\<lambda>w. lm_provider_max w > 0) p \<le> c"
    using inv assms(2) by metis
  show "\<forall>w. accepts w \<and> wt_model w = Some m \<longrightarrow> lm_model_max w \<in> {0, c}
      \<Longrightarrow> held (\<lambda>w. wt_model w = Some m \<and> lm_model_max w > 0) p \<le> c"
    using inv assms(2) by metis
  show "\<forall>w. accepts w \<and> lm_key w = Some k \<and> lm_key_lease w \<longrightarrow> lm_key_max w = c
      \<Longrightarrow> held (\<lambda>w. lm_key w = Some k \<and> lm_key_lease w) p \<le> c"
    using inv assms(2) by metis
qed

text \<open>C25. While the waiters of a pacer follow one policy, the leases out at any time stay within the cap
  of the provider, of every model and of every key of that policy, where it sets one.\<close>

theorem policy_caps_kept:
  assumes "paced max_depth max_age (follows digest pol) h clock p" and "pol_enabled pol"
  shows "(if normalized_max_concurrent (Some pol) = 0 then True
      else held (\<lambda>w. lm_provider_max w > 0) p \<le> normalized_max_concurrent (Some pol))
    \<and> (if normalized_max_concurrent (model_rule pol (Some m)) = 0 then True
      else held (\<lambda>w. wt_model w = Some m \<and> lm_model_max w > 0) p \<le> normalized_max_concurrent (model_rule pol (Some m)))
    \<and> (if normalized_max_concurrent (pol_keys pol) = 0 then True
      else held (\<lambda>w. lm_key w = Some k \<and> lm_key_lease w) p \<le> normalized_max_concurrent (pol_keys pol))"
proof -
  note f = follows_limits [OF _ assms(2)]
  have "held (\<lambda>w. lm_provider_max w > 0) p \<le> normalized_max_concurrent (Some pol)"
    if "normalized_max_concurrent (Some pol) \<noteq> 0"
    using caps_never_exceeded(1) [OF assms(1)] that f(1) by blast
  moreover have "held (\<lambda>w. wt_model w = Some m \<and> lm_model_max w > 0) p \<le> normalized_max_concurrent (model_rule pol (Some m))"
    if "normalized_max_concurrent (model_rule pol (Some m)) \<noteq> 0"
    using that f(2) by (intro caps_never_exceeded(2) [OF assms(1)]) fastforce+
  moreover have "held (\<lambda>w. lm_key w = Some k \<and> lm_key_lease w) p \<le> normalized_max_concurrent (pol_keys pol)"
    if "normalized_max_concurrent (pol_keys pol) \<noteq> 0"
    using that f(3) by (intro caps_never_exceeded(3) [OF assms(1)]) fastforce+
  ultimately show ?thesis by simp
qed

lemma demo_caps:
  "normalized_max_concurrent (Some demo_policy) = 1" "normalized_max_concurrent (pol_keys demo_policy) = 1"
  by (simp_all add: demo_policy_def normalized_max_concurrent_def positive_def)

theorem policy_caps_kept_witness:
  "held (\<lambda>w. lm_provider_max w > 0) (demo_asleep\<lparr>pc_tasks := []\<rparr>) \<le> 1
   \<and> held (\<lambda>w. lm_key w = Some ''k'' \<and> lm_key_lease w) (demo_asleep\<lparr>pc_tasks := []\<rparr>) \<le> 1"
  using policy_caps_kept [OF demo_paced, of "''m''" "''k''"] demo_caps by (simp add: demo_policy_def)


section \<open>Spacing\<close>

text \<open>Starts keep the distance their waiters asked for: of the provider, and of the same key and the same model.\<close>

theorem starts_keep_distance:
  assumes "paced max_depth max_age accepts h clock p"
  shows "sorted_wrt apart (starts h)"
  by (rule starts_distance [OF assms])

theorem starts_keep_distance_witness:
  "apart (demo_waiter 0 1, 1) (demo_waiter 1 2, 1001) \<and> sorted_wrt apart (starts [(demo_waiter 0 1, Granted 0 1)])"
  using starts_keep_distance [OF demo_paced] by (simp add: apart_def demo_waiter_def)

lemma spread_length:
  assumes "sorted_wrt (\<lambda>a b. a + d \<le> b) ts" and "ts \<noteq> []"
  shows "hd ts + of_nat (length ts - 1) * d \<le> (last ts :: rat)"
  using assms
proof (induction ts)
  case (Cons a ts)
  show ?case
  proof (cases "ts = []")
    case False
    then have "a + d \<le> hd ts" using Cons.prems by (cases ts) auto
    moreover have "hd ts + of_nat (length ts - 1) * d \<le> last ts" using Cons False by simp
    moreover have "of_nat (length ts) * d = d + of_nat (length ts - 1) * d" using False by (cases ts) (simp_all add: algebra_simps)
    ultimately show ?thesis using False by simp
  qed simp
qed simp

lemma spread_in_window:
  assumes "sorted_wrt (\<lambda>a b. a + d \<le> b) ts" and "0 < (d::rat)" and "\<forall>t \<in> set ts. a \<le> t \<and> t < a + l" and "0 < l"
  shows "of_nat (length ts) < l / d + 1"
proof (cases "ts = []")
  case False
  have "hd ts + of_nat (length ts - 1) * d \<le> last ts" by (rule spread_length [OF assms(1) False])
  moreover have "a \<le> hd ts" "last ts < a + l" using assms(3) False by simp_all
  ultimately have "of_nat (length ts - 1) * d < l" by linarith
  then have "of_nat (length ts - 1) < l / d" using assms(2) by (simp add: pos_less_divide_eq)
  moreover have "of_nat (length ts) = of_nat (length ts - 1) + (1::rat)" using False by (cases ts) simp_all
  ultimately show ?thesis by linarith
next
  case True
  then show ?thesis using divide_pos_pos [OF assms(4,2)] by simp
qed

text \<open>C26. Under a policy of \<open>r\<close> requests per minute fewer than \<open>r + 1\<close> requests start in any minute.\<close>

theorem requests_per_minute_kept:
  assumes "paced max_depth max_age (follows digest pol) h clock p" and "pol_enabled pol"
    and "rule_per_minute pol = Some r" and "0 < r"
  shows "of_nat (length (filter (\<lambda>(w, t). a \<le> t \<and> t < a + 60000) (starts h))) < r + 1"
proof -
  let ?in = "filter (\<lambda>(w, t). a \<le> t \<and> t < a + 60000) (starts h)"
  have d: "60000 / r \<le> normalized_interval (Some pol)" using assms(3,4) by (simp add: normalized_interval_def positive_def)
  have "lm_provider_interval w = normalized_interval (Some pol)" if "(w, t) \<in> set (starts h)" for w t
    using granted_accepted [OF assms(1)] that follows_limits(4) [OF _ assms(2)] by (auto simp: starts_member)
  then have far: "apart x y \<Longrightarrow> x \<in> set (starts h) \<Longrightarrow> snd x + 60000 / r \<le> snd y" for x y
    using d by (cases x) (fastforce simp: apart_def)
  have "sorted_wrt apart ?in" using starts_distance [OF assms(1)] by (rule sorted_wrt_filter)
  then have "sorted_wrt (\<lambda>x y. snd x + 60000 / r \<le> snd y) ?in"
    by (rule sorted_wrt_mono_rel [rotated]) (use far in auto)
  then have "sorted_wrt (\<lambda>x y. x + 60000 / r \<le> y) (map snd ?in)" by (simp add: sorted_wrt_map)
  then have "of_nat (length (map snd ?in)) < 60000 / (60000 / r) + 1"
    by (rule spread_in_window [where a = a]) (use assms(4) in auto)
  then show ?thesis using assms(4) by simp
qed

theorem requests_per_minute_kept_witness:
  "of_nat (length (filter (\<lambda>(w, t). 0 \<le> t \<and> t < 0 + 60000) (starts [(demo_waiter 0 1, Granted 0 1)]))) < (60::rat) + 1"
  by (rule requests_per_minute_kept [OF demo_paced]) (simp_all add: demo_policy_def)

section \<open>Waiting\<close>

text \<open>C27. No wake-up is lost: when no run of the queue is scheduled, a timer is set for every waiting
  request, no later than its age limit and, unless a cap holds it, than its spacing; when the timer fires past
  the age limit the request is told so, and when the request may start something is settled.\<close>

theorem waiter_is_woken:
  assumes "paced max_depth max_age accepts h clock p" and "w \<in> set (pc_queue p)" and "pc_tasks p = []"
  shows "\<exists>d. pc_timer p = Some d \<and> d \<le> wt_queued_at w + max_age
    \<and> (if within_caps p w then d \<le> waiter_ready_at p (wt_model w) (lm_key w) else True)
    \<and> (\<forall>aborted now started. clock \<le> now \<and> wt_queued_at w + max_age \<le> now
        \<longrightarrow> (\<exists>s. (w, QueueExpired s) \<in> set (snd (fire_timer max_age aborted now started p))))
    \<and> (\<forall>aborted now started. clock \<le> now \<and> within_caps p w \<and> waiter_ready_at p (wt_model w) (lm_key w) \<le> now
        \<longrightarrow> snd (fire_timer max_age aborted now started p) \<noteq> [])"
proof -
  have inv: "timer_timely max_age p" "awake p" "jm_wf (pc_model_next p)" using paced_inv [OF assms(1)] by (simp_all add: pacer_inv_def)
  then obtain d where d: "pc_timer p = Some d" "timely max_age p d"
    using assms(2,3) by (auto simp: awake_def timer_timely_def)
  have busy: "pc_queue p \<noteq> []" using assms(2) by auto
  have old: "\<exists>s. (w, QueueExpired s) \<in> set (snd (fire_timer max_age aborted now started p))"
    if "wt_queued_at w + max_age \<le> now" for aborted now started
    unfolding fire_timer_def using expired_waiter_told [of w "p\<lparr>pc_timer := None\<rparr>" max_age now] assms(2) that by simp
  have free: "snd (fire_timer max_age aborted now started p) \<noteq> []"
    if "clock \<le> now" "within_caps p w" "waiter_ready_at p (wt_model w) (lm_key w) \<le> now" for aborted now started
    unfolding fire_timer_def using startable_settles [of w "p\<lparr>pc_timer := None\<rparr>" now] assms(2) that paced_clock [OF assms(1)] inv(3)
    by (simp add: startable_def)
  show ?thesis using d assms(2) old free unfolding timely_def by (intro exI [of _ d]) auto
qed


theorem waiter_is_woken_witness:
  "\<exists>d. pc_timer (demo_asleep\<lparr>pc_tasks := []\<rparr>) = Some d \<and> d \<le> 60002
   \<and> snd (fire_timer 60000 (\<lambda>_. False) 60002 60002 (demo_asleep\<lparr>pc_tasks := []\<rparr>)) \<noteq> []"
proof -
  have w: "demo_waiter 1 2 \<in> set (pc_queue (demo_asleep\<lparr>pc_tasks := []\<rparr>))" by (simp add: demo_asleep_def)
  from waiter_is_woken [OF demo_paced w] obtain d where
    d: "pc_timer (demo_asleep\<lparr>pc_tasks := []\<rparr>) = Some d" "d \<le> 60002"
      "\<exists>s. (demo_waiter 1 2, QueueExpired s) \<in> set (snd (fire_timer 60000 (\<lambda>_. False) 60002 60002 (demo_asleep\<lparr>pc_tasks := []\<rparr>)))"
    by (auto simp del: pacer.select_convs pacer.update_convs)
  then show ?thesis by (metis empty_iff list.set(1))
qed


section \<open>Settling\<close>

text \<open>Every wait is settled at most once and none both settled and queued, and the queue never passes its depth.\<close>

theorem waits_settled_once:
  assumes "paced max_depth max_age accepts h clock p"
  shows "distinct (map (\<lambda>e. wt_id (fst e)) h @ map wt_id (pc_queue p)) \<and> length (pc_queue p) \<le> max_depth"
  using paced_inv [OF assms] by (simp add: pacer_inv_def sound_queue_def)

theorem waits_settled_once_witness:
  "distinct (map (\<lambda>e. wt_id (fst e)) [(demo_waiter 0 1, Granted 0 1)] @ map wt_id (pc_queue (demo_asleep\<lparr>pc_tasks := []\<rparr>)))"
  using waits_settled_once [OF demo_paced] by blast

text \<open>A run starts the first request that may: nobody it passes has the same model, key and limits,
  and the others stay queued in their order.\<close>

theorem no_overtaking_in_a_lane:
  assumes "run_queue max_age aborted now started p = (p', es)" and "(w, Granted i t) \<in> set es"
  shows "\<exists>before behind. filter (\<lambda>x. now - wt_queued_at x < max_age) (pc_queue p) = before @ w # behind
    \<and> pc_queue p' = before @ behind
    \<and> list_all (\<lambda>b. (limits.truncate b, wt_model b) \<noteq> (limits.truncate w, wt_model w)) before"
  using assms(1)
proof (cases rule: run_queue_cases)
  case (started p1 refused before v behind)
  note s = started(3) [unfolded starts_at_def]
  have ref: "no_grant refused" by (rule expire_queue_fields(3) [OF started(2)])
  then have v: "v = w" using assms(2) started(4) by (auto simp: no_grant_def)
  have "pc_queue p1 = filter (\<lambda>x. now - wt_queued_at x < max_age) (pc_queue p)"
    unfolding expire_queue_fields(4) [OF started(2)] by (simp add: not_le)
  moreover have "pc_queue p' = before @ behind"
    using s by (auto simp: start_waiter_issue Let_def split: if_splits)
  moreover have "(limits.truncate b, wt_model b) \<noteq> (limits.truncate w, wt_model w)" if "b \<in> set before" for b
    using s that v startable_lane [of b w now p1] by auto
  ultimately show ?thesis using s v
    by (intro exI [of _ before] exI [of _ behind]) (simp add: list_all_iff)
qed (use assms(2) expire_queue_fields(3) in \<open>force simp: no_grant_def\<close>)+

text \<open>A request whose model is at its cap is passed by one of another model.\<close>

definition demo_free :: waiter where
  "demo_free = (demo_waiter 1 2)\<lparr>lm_model_max := 0, lm_provider_max := 0, lm_key := None, wt_model := Some ''n''\<rparr>"

definition demo_lanes :: pacer where
  "demo_lanes = demo_started\<lparr>pc_queue := [demo_waiter 1 2, demo_free], pc_provider_next := 0\<rparr>"

lemma demo_lanes_run: "(demo_free, Granted 1 5) \<in> set (snd (run_queue 60000 (\<lambda>_. False) 5 5 demo_lanes))"
  by (simp add: demo_defs demo_free_def demo_lanes_def demo_started_def Let_def)

theorem no_overtaking_in_a_lane_witness:
  "\<exists>before behind. pc_queue demo_lanes = before @ demo_free # behind
    \<and> list_all (\<lambda>b. (limits.truncate b, wt_model b) \<noteq> (limits.truncate demo_free, Some ''n'')) before"
proof -
  let ?run = "run_queue 60000 (\<lambda>_. False) 5 5 demo_lanes"
  have "filter (\<lambda>x. 5 - wt_queued_at x < 60000) (pc_queue demo_lanes) = pc_queue demo_lanes" "wt_model demo_free = Some ''n''"
    by (simp_all add: demo_lanes_def demo_free_def demo_waiter_def)
  then show ?thesis
    using no_overtaking_in_a_lane [of 60000 "\<lambda>_. False" 5 5 demo_lanes "fst ?run" "snd ?run", OF _ demo_lanes_run] by auto
qed

end
