(* ===== verification/Pacing_Body.thy ===== *)
theory Pacing_Body
  imports Pacing_Steps
begin

text \<open>
  The response body that owns a lease (\<open>trackProviderRequestSlotBody\<close> and the send boundaries of
  \<open>providers/request-pacing.ts\<close>). The body is a stream that is pulled, read, cancelled or abandoned;
  a deadline is armed as long as it holds the lease. Reads and the cancellation of the upstream body
  are events; what the rewrapped response copies of the original is not modelled.
\<close>

section \<open>The body\<close>

definition unconsumed_body_ms :: rat where
  "unconsumed_body_ms = 30000"

definition body_inactivity_ms :: rat where
  "body_inactivity_ms = 300000"

datatype deadline_kind = Unconsumed | Inactive
datatype stream_state = Readable | ClosedStream | ErroredStream
datatype read_result = Chunk | EndOfBody | ReadFailed

record tracked_body =
  tb_slot :: nat
  tb_released :: bool
  tb_expired :: bool
  tb_cancelled :: bool
  tb_deadline :: "(rat \<times> deadline_kind) option"
  tb_reader :: bool
  tb_pending :: bool
  tb_stream :: stream_state

datatype tracked_response = Original | Wrapped tracked_body

definition arm_expiry_timer :: "rat \<Rightarrow> rat \<Rightarrow> deadline_kind \<Rightarrow> tracked_body \<Rightarrow> tracked_body" where
  "arm_expiry_timer now delay kind b = b\<lparr>tb_deadline := Some (now + delay, kind)\<rparr>"

definition release_tracked :: "tracked_body \<Rightarrow> pacer \<Rightarrow> tracked_body \<times> pacer" where
  "release_tracked b p = (if tb_released b then (b, p)
     else (b\<lparr>tb_released := True, tb_deadline := None\<rparr>, release_slot (tb_slot b) p))"

definition expiry_fires :: "tracked_body \<Rightarrow> pacer \<Rightarrow> tracked_body \<times> pacer" where
  "expiry_fires b p = (let b0 = b\<lparr>tb_deadline := None\<rparr>
     in if tb_released b0 then (b0, p) else release_tracked (b0\<lparr>tb_expired := True\<rparr>) p)"

text \<open>\<open>has_body\<close>: the response has a body; \<open>rewraps\<close>: the constructor of the new response accepts it.\<close>

definition track_provider_request_slot_body :: "nat \<Rightarrow> bool \<Rightarrow> bool \<Rightarrow> rat \<Rightarrow> pacer \<Rightarrow> tracked_response \<times> pacer" where
  "track_provider_request_slot_body i has_body rewraps now p =
     (if \<not> is_leased (sl_waiter (pc_slots p ! i)) then (Original, p)
      else (let p1 = mark_body_tracked i p
        in if \<not> has_body then (Original, release_slot i p1)
           else (let b = arm_expiry_timer now unconsumed_body_ms Unconsumed
                   \<lparr>tb_slot = i, tb_released = False, tb_expired = False, tb_cancelled = False, tb_deadline = None,
                    tb_reader = False, tb_pending = False, tb_stream = Readable\<rparr>
             in if rewraps then (Wrapped b, p1) else (Original, snd (release_tracked b p1)))))"

text \<open>A pull up to its read; \<open>locked\<close>: somebody else holds the reader of the source.\<close>

definition pull_body :: "rat \<Rightarrow> bool \<Rightarrow> tracked_body \<Rightarrow> pacer \<Rightarrow> tracked_body \<times> pacer" where
  "pull_body now locked b p =
     (let b1 = (if tb_released b then b else arm_expiry_timer now body_inactivity_ms Inactive b)
      in if tb_reader b1 \<or> \<not> locked then (b1\<lparr>tb_reader := True, tb_pending := True\<rparr>, p)
         else if tb_cancelled b1 then (b1, p)
         else (case release_tracked b1 p of (b2, p2) \<Rightarrow> (b2\<lparr>tb_stream := ErroredStream\<rparr>, p2)))"

definition read_returns :: "read_result \<Rightarrow> tracked_body \<Rightarrow> pacer \<Rightarrow> tracked_body \<times> pacer" where
  "read_returns r b p = (let b0 = b\<lparr>tb_pending := False\<rparr>
     in if tb_cancelled b0 then (b0, p)
        else (case r of
            ReadFailed \<Rightarrow> (case release_tracked b0 p of (b1, p1) \<Rightarrow> (b1\<lparr>tb_stream := ErroredStream\<rparr>, p1))
          | _ \<Rightarrow> if tb_expired b0 then (b0\<lparr>tb_stream := ErroredStream\<rparr>, p)
                 else if r = EndOfBody then release_tracked (b0\<lparr>tb_stream := ClosedStream\<rparr>) p
                 else (b0, p)))"

definition cancel_body :: "tracked_body \<Rightarrow> pacer \<Rightarrow> tracked_body \<times> pacer" where
  "cancel_body b p = (case release_tracked (b\<lparr>tb_cancelled := True, tb_deadline := None\<rparr>) p of
     (b1, p1) \<Rightarrow> (b1\<lparr>tb_stream := ClosedStream\<rparr>, p1))"


section \<open>The boundaries of a send\<close>

text \<open>What the send did: it threw, or answered with or without a body.\<close>

datatype send_outcome = Threw | Answered bool bool

definition send_tracking_request_slot :: "nat \<Rightarrow> send_outcome \<Rightarrow> rat \<Rightarrow> pacer \<Rightarrow> tracked_response option \<times> pacer" where
  "send_tracking_request_slot i out now p = (case out of
     Threw \<Rightarrow> (None, release_slot i p)
   | Answered has_body rewraps \<Rightarrow> (case track_provider_request_slot_body i has_body rewraps now p of (r, p1) \<Rightarrow> (Some r, p1)))"

text \<open>The callback of \<open>withProviderRequestSlot\<close> sends, or returns or throws before it sends.\<close>

definition with_provider_request_slot :: "nat \<Rightarrow> send_outcome option \<Rightarrow> rat \<Rightarrow> pacer \<Rightarrow> tracked_response option \<times> pacer" where
  "with_provider_request_slot i sent now p =
     (case (case sent of None \<Rightarrow> (None, p) | Some out \<Rightarrow> send_tracking_request_slot i out now p) of
        (r, p1) \<Rightarrow> (r, release_at_boundary i p1))"


section \<open>Histories of a body\<close>

text \<open>Meanwhile the pacer goes on: slots are added, released and tracked, never taken back.\<close>

definition slots_grow :: "pacer \<Rightarrow> pacer \<Rightarrow> bool" where
  "slots_grow p p' \<longleftrightarrow> length (pc_slots p) \<le> length (pc_slots p')
     \<and> (\<forall>i < length (pc_slots p). sl_waiter (pc_slots p' ! i) = sl_waiter (pc_slots p ! i)
         \<and> (sl_released (pc_slots p ! i) \<longrightarrow> sl_released (pc_slots p' ! i))
         \<and> (sl_tracked (pc_slots p ! i) \<longrightarrow> sl_tracked (pc_slots p' ! i)))"

inductive body_run :: "rat \<Rightarrow> tracked_body \<Rightarrow> pacer \<Rightarrow> bool" where
  tracks: "i < length (pc_slots p) \<Longrightarrow> track_provider_request_slot_body i True True now p = (Wrapped b, p')
    \<Longrightarrow> body_run now b p'"
| pulls: "body_run seen b p \<Longrightarrow> seen \<le> now \<Longrightarrow> tb_stream b = Readable \<Longrightarrow> \<not> tb_pending b
    \<Longrightarrow> pull_body now locked b p = (b', p') \<Longrightarrow> body_run now b' p'"
| reads: "body_run seen b p \<Longrightarrow> tb_pending b \<Longrightarrow> read_returns r b p = (b', p') \<Longrightarrow> body_run seen b' p'"
| fires: "body_run seen b p \<Longrightarrow> tb_deadline b = Some (d, kind) \<Longrightarrow> expiry_fires b p = (b', p') \<Longrightarrow> body_run seen b' p'"
| cancels: "body_run seen b p \<Longrightarrow> tb_stream b = Readable \<Longrightarrow> cancel_body b p = (b', p') \<Longrightarrow> body_run seen b' p'"
| elsewhere: "body_run seen b p \<Longrightarrow> slots_grow p p' \<Longrightarrow> body_run seen b p'"

definition body_inv :: "rat \<Rightarrow> tracked_body \<Rightarrow> pacer \<Rightarrow> bool" where
  "body_inv seen b p \<longleftrightarrow> tb_slot b < length (pc_slots p) \<and> sl_tracked (pc_slots p ! tb_slot b)
     \<and> (if tb_released b then tb_deadline b = None \<and> sl_released (pc_slots p ! tb_slot b)
        else tb_stream b = Readable \<and> \<not> tb_cancelled b \<and> \<not> tb_expired b
          \<and> (\<exists>d kind. tb_deadline b = Some (d, kind) \<and> d \<le> seen + body_inactivity_ms))
     \<and> (tb_expired b \<and> tb_stream b = ClosedStream \<longrightarrow> tb_cancelled b)"

lemma release_slot_slots:
  "i < length (pc_slots p) \<Longrightarrow> pc_slots (release_slot i p) = (pc_slots p)[i := (pc_slots p ! i)\<lparr>sl_released := True\<rparr>]"
proof (cases "sl_released (pc_slots p ! i)")
  case True
  then have "(pc_slots p ! i)\<lparr>sl_released := True\<rparr> = pc_slots p ! i" by simp
  then have "(pc_slots p)[i := (pc_slots p ! i)\<lparr>sl_released := True\<rparr>] = pc_slots p" by simp
  then show ?thesis using True by (simp only: release_slot_def Let_def if_True)
qed (simp add: release_slot_live(1))

lemma release_tracked_inv:
  assumes "tb_slot b < length (pc_slots p)" and "sl_tracked (pc_slots p ! tb_slot b)"
    and "tb_released b \<Longrightarrow> tb_deadline b = None \<and> sl_released (pc_slots p ! tb_slot b)"
  obtains p' where "release_tracked b p = (b\<lparr>tb_released := True, tb_deadline := None\<rparr>, p')"
    "tb_slot b < length (pc_slots p')" "sl_tracked (pc_slots p' ! tb_slot b)" "sl_released (pc_slots p' ! tb_slot b)"
proof (cases "tb_released b")
  case True
  then have "b\<lparr>tb_released := True, tb_deadline := None\<rparr> = b" using assms(3) by simp
  then show ?thesis using that [of p] assms True by (simp add: release_tracked_def)
next
  case False
  then show ?thesis
    using that [of "release_slot (tb_slot b) p"] assms(1,2) by (simp add: release_tracked_def release_slot_slots)
qed

text \<open>The end of a body: its lease is given back, however it ends.\<close>

lemma inv_ended:
  assumes "body_inv seen b p" and "release_tracked b p = (b1, p1)" and "tb_cancelled b1 \<or> s = ErroredStream \<or> \<not> tb_expired b1"
  shows "body_inv seen (b1\<lparr>tb_stream := s, tb_pending := x\<rparr>) p1"
proof -
  have a: "tb_slot b < length (pc_slots p)" "sl_tracked (pc_slots p ! tb_slot b)"
    "tb_released b \<Longrightarrow> tb_deadline b = None \<and> sl_released (pc_slots p ! tb_slot b)"
    using assms(1) by (auto simp: body_inv_def)
  from release_tracked_inv [OF a] obtain p' where "release_tracked b p = (b\<lparr>tb_released := True, tb_deadline := None\<rparr>, p')"
    "tb_slot b < length (pc_slots p')" "sl_tracked (pc_slots p' ! tb_slot b)" "sl_released (pc_slots p' ! tb_slot b)"
    by blast
  with assms(2,3) show ?thesis by (auto simp: body_inv_def)
qed

lemma inv_armed: "body_inv seen b p \<Longrightarrow> seen \<le> now \<Longrightarrow> body_inv now (if tb_released b then b else arm_expiry_timer now body_inactivity_ms Inactive b) p"
  by (simp add: body_inv_def arm_expiry_timer_def)

lemma inv_reading [simp]:
  "body_inv seen (b\<lparr>tb_pending := x\<rparr>) p = body_inv seen b p" "body_inv seen (b\<lparr>tb_reader := y\<rparr>) p = body_inv seen b p"
  "body_inv seen (b\<lparr>tb_reader := y, tb_pending := x\<rparr>) p = body_inv seen b p"
  unfolding body_inv_def by simp_all

lemma inv_pulled:
  assumes "body_inv seen b p" and "seen \<le> now" and "tb_stream b = Readable" and "pull_body now locked b p = (b', p')"
  shows "body_inv now b' p'"
proof -
  let ?b = "if tb_released b then b else arm_expiry_timer now body_inactivity_ms Inactive b"
  have inv: "body_inv now ?b p" by (rule inv_armed [OF assms(1,2)])
  consider (ok) "tb_reader ?b \<or> \<not> locked" | (gone) "\<not> (tb_reader ?b \<or> \<not> locked)" "tb_cancelled ?b"
    | (fails) "\<not> (tb_reader ?b \<or> \<not> locked)" "\<not> tb_cancelled ?b" by blast
  then show ?thesis
  proof cases
    case ok
    then have "b' = ?b\<lparr>tb_reader := True, tb_pending := True\<rparr>" "p' = p"
      using assms(4) unfolding pull_body_def Let_def by simp_all
    then show ?thesis using inv by (simp only: inv_reading)
  next
    case gone
    then have "b' = ?b" "p' = p" using assms(4) unfolding pull_body_def Let_def by simp_all
    then show ?thesis using inv by simp
  next
    case fails
    obtain b2 p2 where r: "release_tracked ?b p = (b2, p2)" by fastforce
    have "b' = b2\<lparr>tb_stream := ErroredStream\<rparr>" "p' = p2"
      using assms(4) fails r unfolding pull_body_def Let_def by simp_all
    then show ?thesis using inv_ended [OF inv r, of ErroredStream "tb_pending b2"] by simp
  qed
qed

lemma inv_read:
  assumes "body_inv seen b p" and "read_returns r b p = (b', p')"
  shows "body_inv seen b' p'"
proof -
  let ?b = "b\<lparr>tb_pending := False\<rparr>"
  have inv: "body_inv seen ?b p" using assms(1) by simp
  consider (gone) "tb_cancelled b" | (fail) "\<not> tb_cancelled b" "r = ReadFailed"
    | (expired) "\<not> tb_cancelled b" "r \<noteq> ReadFailed" "tb_expired b"
    | (ended) "\<not> tb_cancelled b" "r = EndOfBody" "\<not> tb_expired b" | (chunk) "\<not> tb_cancelled b" "r = Chunk" "\<not> tb_expired b"
    by (cases r) auto
  then show ?thesis
  proof cases
    case gone
    then show ?thesis using assms(2) inv by (simp add: read_returns_def)
  next
    case fail
    obtain b1 p1 where r: "release_tracked ?b p = (b1, p1)" by fastforce
    have "b' = b1\<lparr>tb_stream := ErroredStream\<rparr>" "p' = p1" using assms(2) fail r by (simp_all add: read_returns_def)
    then show ?thesis using inv_ended [OF inv r, of ErroredStream "tb_pending b1"] by simp
  next
    case expired
    then have "b' = ?b\<lparr>tb_stream := ErroredStream\<rparr>" "p' = p" using assms(2) by (cases r; simp add: read_returns_def)+
    then show ?thesis using inv expired by (simp add: body_inv_def split: if_splits)
  next
    case ended
    obtain b1 p1 where r: "release_tracked ?b p = (b1, p1)" by fastforce
    have "release_tracked (?b\<lparr>tb_stream := ClosedStream\<rparr>) p = (b1\<lparr>tb_stream := ClosedStream\<rparr>, p1)"
      using r by (auto simp: release_tracked_def)
    then have "b' = b1\<lparr>tb_stream := ClosedStream\<rparr>" "p' = p1" using assms(2) ended by (simp_all add: read_returns_def)
    moreover have "\<not> tb_expired b1" using r ended(3) by (auto simp: release_tracked_def split: if_splits)
    ultimately show ?thesis using inv_ended [OF inv r, of ClosedStream "tb_pending b1"] by simp
  next
    case chunk
    then show ?thesis using assms(2) inv by (simp add: read_returns_def)
  qed
qed

lemma inv_expired_body:
  assumes "body_inv seen b p" and "tb_deadline b = Some d" and "expiry_fires b p = (b', p')"
  shows "body_inv seen b' p'"
proof -
  have live: "\<not> tb_released b" using assms(1,2) by (auto simp: body_inv_def)
  have "tb_slot b < length (pc_slots p)" "sl_tracked (pc_slots p ! tb_slot b)" "tb_stream b = Readable"
    using assms(1) live by (auto simp: body_inv_def)
  then show ?thesis
    using assms(3) live by (auto simp: expiry_fires_def release_tracked_def body_inv_def release_slot_slots)
qed

lemma inv_cancelled:
  assumes "body_inv seen b p" and "cancel_body b p = (b', p')"
  shows "body_inv seen b' p'"
proof -
  have a: "tb_slot b < length (pc_slots p)" "sl_tracked (pc_slots p ! tb_slot b)"
    "tb_released b \<Longrightarrow> sl_released (pc_slots p ! tb_slot b)"
    using assms(1) by (auto simp: body_inv_def)
  then show ?thesis
    using assms(2) by (cases "tb_released b") (auto simp: cancel_body_def release_tracked_def body_inv_def release_slot_slots)
qed

lemma inv_elsewhere: "body_inv seen b p \<Longrightarrow> slots_grow p p' \<Longrightarrow> body_inv seen b p'"
  unfolding body_inv_def slots_grow_def by (auto split: if_splits)

lemma inv_tracks:
  assumes "i < length (pc_slots p)" and "track_provider_request_slot_body i True True now p = (Wrapped b, p')"
  shows "body_inv now b p'"
  using assms
  by (auto simp: track_provider_request_slot_body_def Let_def body_inv_def arm_expiry_timer_def mark_body_tracked_def
      unconsumed_body_ms_def body_inactivity_ms_def split: if_splits)

lemma body_run_inv: "body_run seen b p \<Longrightarrow> body_inv seen b p"
proof (induction rule: body_run.induct)
  case (tracks i p now b p')
  then show ?case by (rule inv_tracks)
next
  case (pulls seen b p now locked b' p')
  then show ?case by (blast intro: inv_pulled)
next
  case (reads seen b p r b' p')
  then show ?case by (blast intro: inv_read)
next
  case (fires seen b p d kind b' p')
  then show ?case by (blast intro: inv_expired_body)
next
  case (cancels seen b p b' p')
  then show ?case by (blast intro: inv_cancelled)
next
  case (elsewhere seen b p p')
  then show ?case by (blast intro: inv_elsewhere)
qed

text \<open>The operations of the pacer are such a growth.\<close>

lemma slots_grow_refl [simp]: "slots_grow p p"
  by (simp add: slots_grow_def)

lemma slots_grow_trans: "slots_grow p q \<Longrightarrow> slots_grow q r \<Longrightarrow> slots_grow p r"
  unfolding slots_grow_def by (intro conjI allI impI) (auto dest: less_le_trans)

lemma slots_grow_same: "pc_slots p' = pc_slots p \<Longrightarrow> slots_grow p p'"
  by (simp add: slots_grow_def)

lemma slots_grow_release: "i < length (pc_slots p) \<Longrightarrow> slots_grow p (release_slot i p)"
  by (simp add: slots_grow_def release_slot_slots nth_list_update)

lemma slots_grow_run:
  assumes "run_queue max_age aborted now started p = (p', es)"
  shows "slots_grow p p'"
  using assms
proof (cases rule: run_queue_cases)
  case (asleep p1)
  have "pc_slots p1 = pc_slots p" using asleep(2) by (auto simp: expire_queue_def reject_expired_def Let_def)
  moreover have "pc_slots (set_wakeup max_age now p1) = pc_slots p1" by (simp add: set_wakeup_def split: list.split)
  ultimately show ?thesis using asleep(5) by (intro slots_grow_same) simp
next
  case drained
  then show ?thesis by (intro slots_grow_same) (auto simp: expire_queue_def reject_expired_def Let_def)
next
  case (started p1 refused before w behind)
  note s = started(3) [unfolded starts_at_def]
  let ?p = "issue_slot started w (p1\<lparr>pc_queue := before @ behind\<rparr>)"
  have e: "pc_slots p1 = pc_slots p" using started(2) by (auto simp: expire_queue_def reject_expired_def Let_def)
  have g: "slots_grow p ?p" by (simp add: slots_grow_def e nth_append)
  have "pc_slots p' = pc_slots (if aborted (wt_id w) then release_slot (length (pc_slots p1)) ?p else ?p)"
    using s by (auto simp: start_waiter_issue Let_def)
  moreover have "slots_grow ?p (release_slot (length (pc_slots p1)) ?p)" by (rule slots_grow_release) simp
  ultimately have "slots_grow ?p p'" by (auto simp: slots_grow_def)
  with g show ?thesis by (rule slots_grow_trans)
qed (auto intro: slots_grow_same)


section \<open>No lease is stranded\<close>

definition demo_slot_waiter :: waiter where
  "demo_slot_waiter = \<lparr>lm_key = None, lm_key_lease = True, lm_key_interval = 0, lm_key_max = 0, lm_provider_interval = 0,
     lm_model_interval = 0, lm_provider_max = 2, lm_model_max = 0, wt_id = 0, wt_model = None, wt_queued_at = 0\<rparr>"

definition demo_leased :: pacer where
  "demo_leased = fresh_pacer\<lparr>pc_provider_in_flight := 1,
     pc_slots := [\<lparr>sl_waiter = demo_slot_waiter, sl_released = False, sl_tracked = False\<rparr>]\<rparr>"

lemma demo_tracks:
  "track_provider_request_slot_body 0 True True 5 demo_leased
   = (Wrapped \<lparr>tb_slot = 0, tb_released = False, tb_expired = False, tb_cancelled = False, tb_deadline = Some (30005, Unconsumed),
        tb_reader = False, tb_pending = False, tb_stream = Readable\<rparr>, mark_body_tracked 0 demo_leased)"
  by (simp add: track_provider_request_slot_body_def demo_leased_def demo_slot_waiter_def is_leased_def arm_expiry_timer_def
      unconsumed_body_ms_def Let_def)

text \<open>C28. A response body that owns a lease gives it back: it has, or its stream is open with a deadline set at
  most five minutes after it was last pulled, and the deadline or a cancellation gives the lease back; a body
  its deadline cut off never ends like a complete one.\<close>

theorem body_gives_lease_back:
  assumes "body_run seen b p"
  shows "(if tb_released b then sl_released (pc_slots p ! tb_slot b)
      else tb_stream b = Readable \<and> (\<exists>d kind. tb_deadline b = Some (d, kind) \<and> d \<le> seen + body_inactivity_ms)
        \<and> sl_released (pc_slots (snd (expiry_fires b p)) ! tb_slot b)
        \<and> sl_released (pc_slots (snd (cancel_body b p)) ! tb_slot b))
    \<and> (if tb_expired b \<and> tb_stream b = ClosedStream then tb_cancelled b else True)"
proof -
  note inv = body_run_inv [OF assms, unfolded body_inv_def]
  then have s: "pc_slots (release_slot (tb_slot b) p) ! tb_slot b = (pc_slots p ! tb_slot b)\<lparr>sl_released := True\<rparr>"
    by (simp add: release_slot_slots)
  have "snd (expiry_fires b p) = release_slot (tb_slot b) p" "snd (cancel_body b p) = release_slot (tb_slot b) p"
    if "\<not> tb_released b"
    using that by (simp_all add: expiry_fires_def cancel_body_def release_tracked_def)
  then show ?thesis using inv s by (auto split: if_splits)
qed

theorem body_gives_lease_back_witness:
  "\<exists>b. track_provider_request_slot_body 0 True True 5 demo_leased = (Wrapped b, mark_body_tracked 0 demo_leased)
     \<and> tb_deadline b = Some (30005, Unconsumed)
     \<and> sl_released (pc_slots (snd (expiry_fires b (mark_body_tracked 0 demo_leased))) ! 0)"
proof -
  have "body_run 5 \<lparr>tb_slot = 0, tb_released = False, tb_expired = False, tb_cancelled = False, tb_deadline = Some (30005, Unconsumed),
      tb_reader = False, tb_pending = False, tb_stream = Readable\<rparr> (mark_body_tracked 0 demo_leased)"
    by (rule body_run.tracks [OF _ demo_tracks]) (simp add: demo_leased_def)
  from body_gives_lease_back [OF this] show ?thesis using demo_tracks by simp
qed

text \<open>After the boundary of a send the lease is given back or owned by a tracked response body, whether the
  send threw, never happened, or answered with or without a body.\<close>

theorem send_boundary_keeps_no_lease:
  assumes "i < length (pc_slots p)" and "\<not> sl_tracked (pc_slots p ! i)"
    and "with_provider_request_slot i sent now p = (r, p')"
  shows "case r of Some (Wrapped b) \<Rightarrow> tb_slot b = i \<and> body_run now b p' | _ \<Rightarrow> sl_released (pc_slots p' ! i)"
proof (cases "\<exists>b. r = Some (Wrapped b)")
  case True
  then obtain b where r: "r = Some (Wrapped b)" by blast
  then obtain hb rw p1 where p1: "track_provider_request_slot_body i hb rw now p = (Wrapped b, p1)" "p' = release_at_boundary i p1"
    using assms(3) by (auto simp: with_provider_request_slot_def send_tracking_request_slot_def
        split: option.splits send_outcome.splits prod.splits)
  then have w: "hb" "rw" "p1 = mark_body_tracked i p" "tb_slot b = i"
    by (auto simp: track_provider_request_slot_body_def Let_def arm_expiry_timer_def split: if_splits)
  then have "p' = p1" using assms(1) p1(2) by (simp add: release_at_boundary_def mark_body_tracked_def)
  then show ?thesis using r w p1(1) body_run.tracks [OF assms(1)] by simp
next
  case False
  have rel: "sl_released (pc_slots (release_slot i q) ! i)" if "i < length (pc_slots q)" for q
    using that by (simp add: release_slot_slots)
  have again: "sl_released (pc_slots (release_at_boundary i q) ! i)"
    if "i < length (pc_slots q)" "\<not> sl_tracked (pc_slots q ! i) \<or> sl_released (pc_slots q ! i)" for q
    using that rel by (auto simp: release_at_boundary_def)
  have tracked: "length (pc_slots (mark_body_tracked i p)) = length (pc_slots p)" by (simp add: mark_body_tracked_def)
  have "\<exists>q. p' = release_at_boundary i q \<and> i < length (pc_slots q) \<and> (\<not> sl_tracked (pc_slots q ! i) \<or> sl_released (pc_slots q ! i))"
    using assms False rel tracked
    by (auto simp: with_provider_request_slot_def send_tracking_request_slot_def track_provider_request_slot_body_def Let_def
        release_tracked_def arm_expiry_timer_def release_slot_slots
        split: option.splits send_outcome.splits prod.splits if_splits)
  then have "sl_released (pc_slots p' ! i)" using again by blast
  then show ?thesis using False by (auto split: option.split tracked_response.split)
qed

theorem send_boundary_keeps_no_lease_witness:
  "sl_released (pc_slots (snd (with_provider_request_slot 0 (Some Threw) 5 demo_leased)) ! 0)"
proof -
  have e: "with_provider_request_slot 0 (Some Threw) 5 demo_leased = (None, snd (with_provider_request_slot 0 (Some Threw) 5 demo_leased))"
    by (simp add: with_provider_request_slot_def send_tracking_request_slot_def)
  show ?thesis
    using send_boundary_keeps_no_lease [OF _ _ e] by (simp add: demo_leased_def)
qed

end
