(* ===== verification/Failure_Window.thy ===== *)
theory Failure_Window
  imports Prelude
begin

text \<open>
  The sliding failure window of a pool account (\<open>codex/routing/failure-window.ts\<close>): terminal outcomes
  of the last minute decide, with hysteresis, whether new threads avoid the account. Samples carry the
  generation of the credential they were sent with; one snapshot of the account store per operation says
  which generations are live. The set of accounts already warned about is kept as a list.
\<close>

section \<open>Credential generations\<close>

record account_record =
  ar_credential :: bool
  ar_deleted :: bool
  ar_generation :: nat
  ar_replaced_at :: "millis option"

definition credential_live :: "(string, account_record) jsmap \<Rightarrow> string \<Rightarrow> nat \<Rightarrow> bool" where
  "credential_live records account g = (case map_of records account of
     None \<Rightarrow> False
   | Some r \<Rightarrow> ar_credential r \<and> \<not> ar_deleted r \<and> ar_generation r = g)"

datatype live_records = SnapshotFailed | Snapshot "(string, account_record) jsmap"

definition generation_live :: "live_records \<Rightarrow> string \<Rightarrow> nat \<Rightarrow> bool" where
  "generation_live snap account g = (case snap of
     SnapshotFailed \<Rightarrow> False
   | Snapshot records \<Rightarrow> credential_live records account g)"


section \<open>State\<close>

definition sliding_window_ms :: millis where "sliding_window_ms = 60000"
definition min_samples :: nat where "min_samples = 20"
definition recover_sustain_ms :: millis where "recover_sustain_ms = 30000"
definition max_samples :: nat where "max_samples = 512"

record sample =
  sm_time :: millis
  sm_failed :: bool
  sm_generation :: "nat option"

record window =
  wn_samples :: "sample list"
  wn_degraded :: bool
  wn_healthy_since :: "millis option"
  wn_generation :: "nat option"

record failure_windows =
  fw_windows :: "(string, window) jsmap"
  fw_warned :: "string list"

definition fresh_window :: window where
  "fresh_window = \<lparr>wn_samples = [], wn_degraded = False, wn_healthy_since = None, wn_generation = None\<rparr>"

definition window_of :: "failure_windows \<Rightarrow> string \<Rightarrow> window" where
  "window_of fw account = nullish (map_of (fw_windows fw) account) fresh_window"

definition unwarn :: "string \<Rightarrow> failure_windows \<Rightarrow> failure_windows" where
  "unwarn account fw = fw\<lparr>fw_warned := removeAll account (fw_warned fw)\<rparr>"


section \<open>The verdict\<close>

definition count_failed :: "sample list \<Rightarrow> nat" where
  "count_failed ss = foldl (\<lambda>count s. count + (if sm_failed s then 1 else 0)) 0 ss"

definition failing :: "sample list \<Rightarrow> bool" where
  "failing ss \<longleftrightarrow> length ss \<ge> min_samples \<and> count_failed ss * 4 \<ge> length ss"

definition recovering :: "sample list \<Rightarrow> bool" where
  "recovering ss \<longleftrightarrow> length ss \<ge> min_samples \<and> count_failed ss * 10 \<le> length ss"

definition judge :: "millis \<Rightarrow> window \<Rightarrow> window" where
  "judge now w =
     (if failing (wn_samples w) then w\<lparr>wn_degraded := True, wn_healthy_since := None\<rparr>
      else if \<not> wn_degraded w then w\<lparr>wn_healthy_since := None\<rparr>
      else if \<not> recovering (wn_samples w) then w\<lparr>wn_healthy_since := None\<rparr>
      else (let since = nullish (wn_healthy_since w) now
        in if now - since \<ge> recover_sustain_ms then w\<lparr>wn_degraded := False, wn_healthy_since := None\<rparr>
           else w\<lparr>wn_healthy_since := Some since\<rparr>))"

definition is_tagged :: "window \<Rightarrow> bool" where
  "is_tagged w \<longleftrightarrow> wn_generation w \<noteq> None \<or> list_ex (\<lambda>s. sm_generation s \<noteq> None) (wn_samples w)"

definition alive :: "live_records option \<Rightarrow> string \<Rightarrow> nat option \<Rightarrow> bool" where
  "alive live account gen = (case gen of None \<Rightarrow> True
   | Some g \<Rightarrow> (case live of None \<Rightarrow> False | Some snap \<Rightarrow> generation_live snap account g))"

definition retire :: "live_records option \<Rightarrow> string \<Rightarrow> window \<Rightarrow> window" where
  "retire live account w = (if alive live account (wn_generation w) then w
     else w\<lparr>wn_degraded := False, wn_healthy_since := None, wn_generation := None\<rparr>)"

definition slide :: "live_records option \<Rightarrow> string \<Rightarrow> millis \<Rightarrow> window \<Rightarrow> window" where
  "slide live account now w =
     (let kept = filter (\<lambda>s. sm_time s > now - sliding_window_ms \<and> alive live account (sm_generation s)) (wn_samples w)
      in w\<lparr>wn_samples := kept,
           wn_generation := (case wn_generation w of
               Some g \<Rightarrow> Some g
             | None \<Rightarrow> (case List.find (\<lambda>s. sm_generation s \<noteq> None) kept of None \<Rightarrow> None | Some s \<Rightarrow> sm_generation s))\<rparr>)"

text \<open>\<open>given\<close> is the snapshot of an insertion; a read takes one when anything is tagged.\<close>

definition recompute :: "live_records option \<Rightarrow> live_records \<Rightarrow> string \<Rightarrow> millis \<Rightarrow> failure_windows \<Rightarrow> failure_windows" where
  "recompute given snap account now fw =
     (let w = window_of fw account;
          live = (case given of Some s \<Rightarrow> Some s | None \<Rightarrow> if is_tagged w then Some snap else None)
      in if live = Some SnapshotFailed then fw
         else (let w1 = judge now (slide live account now (retire live account w));
                   fw1 = (if alive live account (wn_generation w) then fw else unwarn account fw)
           in fw1\<lparr>fw_windows := AList.update account w1 (fw_windows fw1)\<rparr>))"


section \<open>Operations\<close>

definition unwarn_healthy :: "string \<Rightarrow> failure_windows \<Rightarrow> failure_windows" where
  "unwarn_healthy account fw = (if wn_degraded (window_of fw account) then fw else unwarn account fw)"

definition append_sample ::
    "bool \<Rightarrow> live_records \<Rightarrow> string \<Rightarrow> bool \<Rightarrow> millis \<Rightarrow> nat option \<Rightarrow> failure_windows \<Rightarrow> failure_windows" where
  "append_sample enabled snap account failed now gen fw =
     (if \<not> enabled then fw
      else (let existing = map_of (fw_windows fw) account;
                tagged = gen \<noteq> None \<or> (case existing of None \<Rightarrow> False | Some w \<Rightarrow> is_tagged w);
                live = (if tagged then Some snap else None)
        in if live = Some SnapshotFailed then fw
           else if \<not> alive live account gen then fw
           else (let w = window_of fw account;
                     ss = wn_samples w @ [\<lparr>sm_time = now, sm_failed = failed, sm_generation = gen\<rparr>];
                     w1 = w\<lparr>wn_samples := (if length ss > max_samples then drop (length ss - max_samples) ss else ss)\<rparr>
             in unwarn_healthy account (recompute live snap account now
                  (fw\<lparr>fw_windows := AList.update account w1 (fw_windows fw)\<rparr>)))))"

text \<open>\<open>main_live\<close> stands for the check of the dispatch of the main account, \<open>stored_live\<close> for the unlocked check.\<close>

datatype 'd main_dispatch = NotMain | NoProof | Dispatched 'd

definition note_failure_window_outcome ::
    "('d \<Rightarrow> bool) \<Rightarrow> (string \<Rightarrow> nat \<Rightarrow> bool) \<Rightarrow> bool \<Rightarrow> live_records \<Rightarrow> string \<Rightarrow> bool \<Rightarrow> millis
      \<Rightarrow> 'd main_dispatch \<Rightarrow> nat option \<Rightarrow> nat option \<Rightarrow> failure_windows \<Rightarrow> failure_windows" where
  "note_failure_window_outcome main_live stored_live enabled snap account failed now dispatch window_gen credential_gen fw =
     (if (case dispatch of NotMain \<Rightarrow> False | NoProof \<Rightarrow> True | Dispatched d \<Rightarrow> \<not> main_live d) then fw
      else (let gen = (case window_gen of Some g \<Rightarrow> Some g | None \<Rightarrow> credential_gen)
        in if (case gen of None \<Rightarrow> False | Some g \<Rightarrow> \<not> stored_live account g) then fw
           else append_sample enabled snap account failed now gen fw))"

definition is_failure_window_degraded :: "live_records \<Rightarrow> string \<Rightarrow> millis \<Rightarrow> failure_windows \<Rightarrow> bool \<times> failure_windows" where
  "is_failure_window_degraded snap account now fw =
     (if \<not> jm_has (fw_windows fw) account then (False, fw)
      else (let fw1 = unwarn_healthy account (recompute None snap account now fw)
        in (wn_degraded (window_of fw1 account), fw1)))"

definition failure_window_steers_new_threads ::
    "bool \<Rightarrow> string option \<Rightarrow> bool \<Rightarrow> live_records \<Rightarrow> string \<Rightarrow> millis \<Rightarrow> failure_windows \<Rightarrow> bool \<times> failure_windows" where
  "failure_window_steers_new_threads enabled pinned detour snap account now fw =
     (if \<not> enabled then (False, fw)
      else (case is_failure_window_degraded snap account now fw of (degraded, fw1) \<Rightarrow>
        if \<not> degraded then (False, fw1)
        else if pinned \<noteq> Some account then (True, fw1)
        else if detour then (True, fw1)
        else (False, fw1\<lparr>fw_warned := List.insert account (fw_warned fw1)\<rparr>)))"

definition forget_failure_window :: "string \<Rightarrow> failure_windows \<Rightarrow> failure_windows" where
  "forget_failure_window account fw = unwarn account (fw\<lparr>fw_windows := AList.delete account (fw_windows fw)\<rparr>)"

definition forget_failure_windows :: failure_windows where
  "forget_failure_windows = \<lparr>fw_windows = [], fw_warned = []\<rparr>"

end
