(* ===== verification/Failure_Window_Properties.thy ===== *)
theory Failure_Window_Properties
  imports Failure_Window
begin

text \<open>
  The failure window over every history: outcomes and reads on a clock that never goes back, store
  snapshots that fail, late outcomes of an old credential, replaced credentials and forgotten accounts.
  The log of the outcomes and reads that took effect is a ghost of the history, and the verdict is a
  function of that log alone.
\<close>

section \<open>The log\<close>

datatype fw_event = Noted sample | Looked millis

fun event_time :: "fw_event \<Rightarrow> millis" where
  "event_time (Noted s) = sm_time s"
| "event_time (Looked t) = t"

definition samples_of :: "fw_event list \<Rightarrow> sample list" where
  "samples_of es = List.map_filter (\<lambda>e. case e of Noted s \<Rightarrow> Some s | Looked t \<Rightarrow> None) es"

definition events_of :: "string \<Rightarrow> (string \<times> fw_event) list \<Rightarrow> fw_event list" where
  "events_of a evs = map snd (filter (\<lambda>e. fst e = a) evs)"

definition recent_log :: "millis \<Rightarrow> sample list \<Rightarrow> sample list" where
  "recent_log now = filter (\<lambda>s. sm_time s > now - sliding_window_ms)"

definition last_n :: "nat \<Rightarrow> 'a list \<Rightarrow> 'a list" where
  "last_n n xs = drop (length xs - n) xs"

text \<open>What the code decides on: the last 512 outcomes, those of the last minute.\<close>

definition evidence :: "millis \<Rightarrow> fw_event list \<Rightarrow> sample list" where
  "evidence now es = last_n max_samples (recent_log now (samples_of es))"

text \<open>Every event of the log is a reading: its time and its evidence, from the log up to it.\<close>

type_synonym reading = "millis \<times> sample list"

definition readings :: "fw_event list \<Rightarrow> reading list" where
  "readings es = map (\<lambda>p. (event_time (last p), evidence (event_time (last p)) p)) (tl (prefixes es))"

text \<open>
  The verdict, without a state: some reading failed, and the readings since hold no stretch that
  recovers throughout and lasts thirty seconds.
\<close>

definition recovers :: "reading \<Rightarrow> bool" where
  "recovers r = recovering (snd r)"

definition sustained :: "reading list \<Rightarrow> bool" where
  "sustained rs \<longleftrightarrow> (\<exists>q. sublist q rs \<and> q \<noteq> [] \<and> list_all recovers q \<and> recover_sustain_ms \<le> fst (last q) - fst (hd q))"

definition degraded_by :: "reading list \<Rightarrow> bool" where
  "degraded_by rs \<longleftrightarrow> (\<exists>before r since. rs = before @ r # since \<and> failing (snd r) \<and> \<not> sustained since)"

lemma samples_of_simps [simp]:
  "samples_of [] = []" "samples_of (es @ es') = samples_of es @ samples_of es'"
  "samples_of [Noted x] = [x]" "samples_of [Looked t] = []"
  by (simp_all add: samples_of_def List.map_filter_def)

lemma samples_of_mem: "x \<in> set (samples_of es) \<longleftrightarrow> Noted x \<in> set es"
  by (auto simp: samples_of_def List.map_filter_def split: fw_event.splits intro!: image_eqI [where x = "Noted x"])

lemma events_of_append: "events_of b (evs @ [(a, e)]) = (if a = b then events_of b evs @ [e] else events_of b evs)"
  by (simp add: events_of_def)

lemma readings_snoc [simp]:
  "readings [] = []" "readings (es @ [e]) = readings es @ [(event_time e, evidence (event_time e) (es @ [e]))]"
proof -
  have "prefixes es \<noteq> []" by (cases es) simp_all
  then show "readings (es @ [e]) = readings es @ [(event_time e, evidence (event_time e) (es @ [e]))]"
    by (simp add: readings_def tl_append2)
qed (simp add: readings_def)

lemma readings_times: "map fst (readings es) = map event_time es"
  by (induction es rule: rev_induct) simp_all


section \<open>The verdict on a log\<close>

text \<open>The two bits of state the code keeps instead.\<close>

definition judge_step :: "bool \<times> millis option \<Rightarrow> reading \<Rightarrow> bool \<times> millis option" where
  "judge_step st r = (case st of (was, since) \<Rightarrow>
     if failing (snd r) then (True, None)
     else if \<not> was \<or> \<not> recovers r then (was, None)
     else if fst r - nullish since (fst r) \<ge> recover_sustain_ms then (False, None)
     else (True, Some (nullish since (fst r))))"

definition judged :: "reading list \<Rightarrow> bool \<times> millis option" where
  "judged = foldl judge_step (False, None)"

definition streak :: "reading list \<Rightarrow> reading list" where
  "streak rs = rev (takeWhile recovers (rev rs))"

lemma failing_not_recovers: "failing (snd r) \<Longrightarrow> \<not> recovers r"
  by (auto simp: failing_def recovers_def recovering_def min_samples_def)

lemma streak_snoc: "streak (rs @ [r]) = (if recovers r then streak rs @ [r] else [])"
  by (simp add: streak_def)

lemma streak_recovers: "list_all recovers (streak rs)"
  by (auto simp: streak_def list_all_iff dest: set_takeWhileD)

lemma streak_suffix: "suffix (streak rs) rs"
  unfolding streak_def by (metis rev_append rev_rev_ident suffixI takeWhile_dropWhile_id)

lemma streak_after: "\<not> recovers r \<Longrightarrow> streak (before @ r # since) = streak since"
  unfolding streak_def by (cases "list_all recovers since") (auto simp: takeWhile_append list_all_iff takeWhile_eq_all_conv [THEN iffD2])

lemma streak_longest: "suffix q rs \<Longrightarrow> list_all recovers q \<Longrightarrow> suffix q (streak rs)"
proof -
  assume "suffix q rs" "list_all recovers q"
  then obtain zs where z: "rs = zs @ q" "\<forall>x \<in> set (rev q). recovers x" by (auto simp: suffix_def list_all_iff)
  then have "takeWhile recovers (rev q @ rev zs) = rev q @ takeWhile recovers (rev zs)" by (intro takeWhile_append2) simp
  then have "streak rs = rev (takeWhile recovers (rev zs)) @ q" by (simp add: streak_def z(1))
  then show ?thesis by (simp add: suffix_def)
qed

lemma degraded_snoc:
  "degraded_by (rs @ [r]) \<longleftrightarrow> failing (snd r)
     \<or> (\<exists>before x since. rs = before @ x # since \<and> failing (snd x) \<and> \<not> sustained (since @ [r]))"
proof -
  have n: "\<not> sustained []" by (simp add: sustained_def)
  have e: "rs @ [r] = before @ x # since \<longleftrightarrow> (since = [] \<and> before = rs \<and> x = r) \<or> (\<exists>s. since = s @ [r] \<and> rs = before @ x # s)"
    for before x since
    by (cases since rule: rev_cases) auto
  show ?thesis unfolding degraded_by_def e using n by blast
qed

lemma sustained_snoc:
  "sustained (rs @ [r]) \<longleftrightarrow> sustained rs
     \<or> (\<exists>q. suffix q rs \<and> list_all recovers (q @ [r]) \<and> recover_sustain_ms \<le> fst r - fst (hd (q @ [r])))"
  (is "?l \<longleftrightarrow> sustained rs \<or> ?r")
proof
  assume ?l
  then obtain q where q: "sublist q (rs @ [r])" "q \<noteq> []" "list_all recovers q" "recover_sustain_ms \<le> fst (last q) - fst (hd q)"
    by (auto simp: sustained_def)
  from q(1) consider "sublist q rs" | zs where "q = zs @ [r]" "suffix zs rs" using q(2) by (auto simp: sublist_snoc)
  then show "sustained rs \<or> ?r" using q by cases (auto simp: sustained_def)
next
  assume "sustained rs \<or> ?r"
  then show ?l
  proof
    assume "sustained rs"
    then show ?l by (auto simp: sustained_def sublist_snoc)
  next
    assume ?r
    then obtain q where "suffix q rs" "list_all recovers (q @ [r])" "recover_sustain_ms \<le> fst r - fst (hd (q @ [r]))" by blast
    then show ?l unfolding sustained_def by (intro exI [of _ "q @ [r]"]) (simp add: sublist_snoc)
  qed
qed

lemma judged_snoc [simp]: "judged [] = (False, None)" "judged (rs @ [r]) = judge_step (judged rs) r"
  by (simp_all add: judged_def)

text \<open>A recovering reading at the end of a degraded log.\<close>

lemma degraded_recovers:
  assumes sorted: "sorted (map fst (rs @ [r]))" and deg: "degraded_by rs" and rec: "recovers r"
  shows "degraded_by (rs @ [r]) \<longleftrightarrow> \<not> recover_sustain_ms \<le> fst r - fst (hd (streak rs @ [r]))"
proof -
  have nf: "\<not> failing (snd r)" using failing_not_recovers rec by blast
  have after: "sustained (since @ [r]) \<longleftrightarrow> sustained since \<or> recover_sustain_ms \<le> fst r - fst (hd (streak rs @ [r]))"
    if "rs = before @ x # since" "failing (snd x)" for before x since
  proof -
    have st: "streak rs = streak since" using streak_after failing_not_recovers that by blast
    have srt: "sorted (map fst (since @ [r]))" using sorted that(1) by (simp add: sorted_append)
    have "fst (hd (streak since @ [r])) \<le> fst (hd (q @ [r]))" if q: "suffix q since" "list_all recovers q" for q
    proof -
      obtain zs where z: "streak since = zs @ q" using streak_longest [OF q] by (auto simp: suffix_def)
      obtain us where u: "since = us @ streak since" using streak_suffix [of since] by (auto simp: suffix_def)
      have "sorted (map fst ((us @ streak since) @ [r]))" using srt unfolding u [symmetric] .
      then have "sorted (map fst (streak since @ [r]))" by (simp add: sorted_append)
      then show ?thesis unfolding z by (cases zs; cases q) (auto simp: sorted_append)
    qed
    then have "recover_sustain_ms \<le> fst r - fst (hd (streak since @ [r]))"
      if "suffix q since" "list_all recovers (q @ [r])" "recover_sustain_ms \<le> fst r - fst (hd (q @ [r]))" for q
      using that by (fastforce simp: list_all_iff)
    moreover have "suffix (streak since) since" "list_all recovers (streak since @ [r])"
      using streak_suffix streak_recovers rec by (simp_all add: list_all_iff)
    ultimately show ?thesis unfolding sustained_snoc st by blast
  qed
  obtain before x since where x: "rs = before @ x # since" "failing (snd x)" "\<not> sustained since"
    using deg by (auto simp: degraded_by_def)
  show ?thesis using nf after x unfolding degraded_snoc by (metis (no_types, lifting))
qed

lemma degraded_not_recovers:
  assumes "\<not> failing (snd r)" and "\<not> recovers r"
  shows "degraded_by (rs @ [r]) = degraded_by rs"
proof -
  have "sustained (since @ [r]) = sustained since" for since
    using assms(2) unfolding sustained_snoc by (simp add: list_all_iff)
  then show ?thesis using assms(1) unfolding degraded_snoc by (simp add: degraded_by_def)
qed

lemma healthy_stays: "\<not> failing (snd r) \<Longrightarrow> \<not> degraded_by rs \<Longrightarrow> \<not> degraded_by (rs @ [r])"
  unfolding degraded_snoc by (auto simp: degraded_by_def sustained_snoc)

lemma judged_degraded:
  assumes "sorted (map fst rs)"
  shows "judged rs = (degraded_by rs, if degraded_by rs \<and> streak rs \<noteq> [] then Some (fst (hd (streak rs))) else None)"
  using assms
proof (induction rs rule: rev_induct)
  case Nil
  then show ?case by (simp add: degraded_by_def)
next
  case (snoc r rs)
  have ih: "judged rs = (degraded_by rs, if degraded_by rs \<and> streak rs \<noteq> [] then Some (fst (hd (streak rs))) else None)"
    using snoc by (simp add: sorted_append)
  consider "failing (snd r)" | "\<not> failing (snd r)" "\<not> degraded_by rs" | "\<not> failing (snd r)" "degraded_by rs" "\<not> recovers r"
    | "\<not> failing (snd r)" "degraded_by rs" "recovers r" by blast
  then show ?case
  proof cases
    case 1
    then show ?thesis using failing_not_recovers [OF 1] by (simp add: judge_step_def ih streak_snoc degraded_snoc)
  next
    case 2
    then show ?thesis using healthy_stays [OF 2] by (simp add: judge_step_def ih)
  next
    case 3
    then show ?thesis using degraded_not_recovers [OF 3(1,3)] by (simp add: judge_step_def ih streak_snoc)
  next
    case 4
    have h: "nullish (snd (judged rs)) (fst r) = fst (hd (streak rs @ [r]))" using 4(2) by (simp add: ih)
    show ?thesis
      using degraded_recovers [OF snoc.prems 4(2,3)] 4 h by (simp add: judge_step_def ih streak_snoc)
  qed
qed


section \<open>Suffixes of a sorted log\<close>

lemma last_n_append_one: "0 < n \<Longrightarrow> last_n n (last_n n xs @ [x]) = last_n n (xs @ [x])"
  by (cases "length xs \<le> n") (simp_all add: last_n_def Suc_diff_le)

lemma last_n_mem: "x \<in> set (last_n n xs) \<Longrightarrow> x \<in> set xs"
  by (auto simp: last_n_def dest: in_set_dropD)

lemma recent_split:
  assumes "sorted (map sm_time xs)"
  obtains ys zs where "xs = ys @ zs" "\<forall>y \<in> set ys. sm_time y \<le> now - sliding_window_ms" "\<forall>z \<in> set zs. now - sliding_window_ms < sm_time z"
proof -
  let ?P = "\<lambda>s. sm_time s \<le> now - sliding_window_ms"
  have "now - sliding_window_ms < sm_time z" if "z \<in> set (dropWhile ?P xs)" for z
    using assms that by (induction xs) (auto split: if_splits)
  moreover have "\<forall>y \<in> set (takeWhile ?P xs). ?P y" by (auto dest: set_takeWhileD)
  ultimately show ?thesis using that [of "takeWhile ?P xs" "dropWhile ?P xs"] by simp
qed

lemma recent_last_n:
  assumes "sorted (map sm_time xs)"
  shows "recent_log now (last_n n xs) = last_n n (recent_log now xs)"
proof -
  obtain ys zs where x: "xs = ys @ zs" and y: "\<forall>y \<in> set ys. sm_time y \<le> now - sliding_window_ms"
    and z: "\<forall>z \<in> set zs. now - sliding_window_ms < sm_time z" by (rule recent_split [OF assms])
  have k: "recent_log now zs' = zs'" if "set zs' \<subseteq> set zs" for zs'
    using that z by (auto simp: recent_log_def filter_id_conv)
  have d: "recent_log now ys' = []" if "set ys' \<subseteq> set ys" for ys'
    using that y by (fastforce simp: recent_log_def filter_empty_conv)
  have r: "recent_log now (as @ bs) = recent_log now as @ recent_log now bs" for as bs by (simp add: recent_log_def)
  have "recent_log now xs = zs" unfolding x r using k [of zs] d [of ys] by simp
  moreover have "recent_log now (last_n n xs) = last_n n zs"
  proof (cases "n \<le> length zs")
    case True
    then have "last_n n xs = last_n n zs" by (simp add: x last_n_def)
    then show ?thesis using k [of "last_n n zs"] last_n_mem by (metis subsetI)
  next
    case False
    then have "last_n n xs = drop (length xs - n) ys @ zs" "last_n n zs = zs" by (simp_all add: x last_n_def)
    then show ?thesis using r d [OF set_drop_subset] k [of zs] by simp
  qed
  ultimately show ?thesis by simp
qed

lemma recent_recent: "t \<le> now \<Longrightarrow> recent_log now (recent_log t xs) = recent_log now xs"
  by (auto simp: recent_log_def intro: filter_cong)

lemma recent_sorted: "sorted (map sm_time xs) \<Longrightarrow> sorted (map sm_time (recent_log t xs))"
  by (simp add: recent_log_def sorted_filter)

text \<open>The cut to the window after a new sample, and at a later reading.\<close>

lemma evidence_slides:
  assumes "sorted (map sm_time xs)" and "t \<le> now"
  shows "recent_log now (last_n n (recent_log t xs)) = last_n n (recent_log now xs)"
  using recent_last_n [OF recent_sorted [OF assms(1)]] recent_recent [OF assms(2)] by simp

lemma evidence_grows:
  assumes "sorted (map sm_time xs)" and "t \<le> now" and "\<forall>x \<in> set xs. sm_time x \<le> now" and "sm_time s = now" and "0 < n"
  shows "recent_log now (last_n n (last_n n (recent_log t xs) @ [s])) = last_n n (recent_log now (xs @ [s]))"
proof -
  have "sorted (map sm_time (recent_log t xs @ [s]))"
    using recent_sorted [OF assms(1)] assms(3,4) by (auto simp: sorted_append recent_log_def)
  moreover have "recent_log now (recent_log t xs @ [s]) = recent_log now (xs @ [s])"
    using recent_recent [OF assms(2), of xs] by (simp add: recent_log_def)
  ultimately show ?thesis using recent_last_n last_n_append_one [OF assms(5)] by metis
qed


section \<open>Histories\<close>

text \<open>The store as read at one instant: unreadable, or with the credential of generation \<open>k\<close> live.\<close>

definition readable :: "nat \<Rightarrow> string \<Rightarrow> live_records \<Rightarrow> bool" where
  "readable k a snap \<longleftrightarrow> snap = SnapshotFailed \<or> generation_live snap a k"

text \<open>A read or an insertion is void when it needs the store and cannot read it.\<close>

definition void :: "live_records \<Rightarrow> nat option \<Rightarrow> window \<Rightarrow> bool" where
  "void snap g w \<longleftrightarrow> snap = SnapshotFailed \<and> (g \<noteq> None \<or> is_tagged w)"

text \<open>
  \<open>gen\<close> is the live generation of each account. A replaced credential starts a new log, if the old one
  holds tagged outcomes only, as those of a pool account are; an outcome of another generation arrives
  late and a disabled window takes none.
\<close>

inductive fw_run :: "(string \<Rightarrow> nat) \<Rightarrow> (string \<times> fw_event) list \<Rightarrow> millis \<Rightarrow> failure_windows \<Rightarrow> bool" where
  starts: "fw_run gen [] c forget_failure_windows"
| noted: "fw_run gen evs c fw \<Longrightarrow> c \<le> now \<Longrightarrow> g \<in> {None, Some (gen a)} \<Longrightarrow> readable (gen a) a snap
    \<Longrightarrow> append_sample True snap a failed now g fw = fw'
    \<Longrightarrow> evs' = (if void snap g (window_of fw a) then evs
          else evs @ [(a, Noted \<lparr>sm_time = now, sm_failed = failed, sm_generation = g\<rparr>)])
    \<Longrightarrow> fw_run gen evs' now fw'"
| ignored: "fw_run gen evs c fw \<Longrightarrow> c \<le> now \<Longrightarrow> readable (gen a) a snap
    \<Longrightarrow> \<not> enabled \<or> g \<notin> {None, Some (gen a)}
    \<Longrightarrow> append_sample enabled snap a failed now g fw = fw' \<Longrightarrow> fw_run gen evs now fw'"
| looked: "fw_run gen evs c fw \<Longrightarrow> c \<le> now \<Longrightarrow> readable (gen a) a snap
    \<Longrightarrow> is_failure_window_degraded snap a now fw = (d, fw')
    \<Longrightarrow> evs' = (if void snap None (window_of fw a) \<or> \<not> jm_has (fw_windows fw) a then evs else evs @ [(a, Looked now)])
    \<Longrightarrow> fw_run gen evs' now fw'"
| warned: "fw_run gen evs c fw \<Longrightarrow> fw_run gen evs c (fw\<lparr>fw_warned := ws\<rparr>)"
| forgot: "fw_run gen evs c fw \<Longrightarrow> fw_run gen (filter (\<lambda>e. fst e \<noteq> a) evs) c (forget_failure_window a fw)"
| replaced: "fw_run gen evs c fw \<Longrightarrow> gen a < k \<Longrightarrow> \<forall>x \<in> set (samples_of (events_of a evs)). sm_generation x \<noteq> None
    \<Longrightarrow> fw_run (gen(a := k)) (filter (\<lambda>e. fst e \<noteq> a) evs) c fw"


section \<open>One reading of the window\<close>

lemma judge_fields [simp]:
  "wn_samples (judge now w) = wn_samples w" "wn_generation (judge now w) = wn_generation w"
  by (simp_all add: judge_def Let_def)

lemma judge_steps:
  "(wn_degraded (judge now w), wn_healthy_since (judge now w))
    = judge_step (wn_degraded w, wn_healthy_since w) (now, wn_samples w)"
  unfolding judge_def judge_step_def recovers_def Let_def prod.case fst_conv snd_conv by simp

lemma window_of_other [simp]:
  "a \<noteq> b \<Longrightarrow> window_of (recompute given snap a now fw) b = window_of fw b" "window_of (unwarn a fw) b = window_of fw b"
  "window_of (unwarn_healthy a fw) b = window_of fw b"
  "window_of (fw\<lparr>fw_windows := AList.update a w (fw_windows fw)\<rparr>) b = (if a = b then w else window_of fw b)"
  by (simp_all add: recompute_def Let_def window_of_def unwarn_def unwarn_healthy_def)

lemma jm_has_kept [simp]:
  "map_of (fw_windows (unwarn a fw)) b = map_of (fw_windows fw) b"
  "map_of (fw_windows (unwarn_healthy a fw)) b = map_of (fw_windows fw) b"
  by (simp_all add: unwarn_def unwarn_healthy_def)

definition owned :: "nat \<Rightarrow> nat option \<Rightarrow> bool" where
  "owned k g \<longleftrightarrow> g = None \<or> g = Some k"

lemma owned_alive: "owned k g \<Longrightarrow> g = None \<or> live = Some snap \<and> generation_live snap a k \<Longrightarrow> alive live a g"
  by (auto simp: owned_def alive_def)

lemma only_one_live: "generation_live snap a k \<Longrightarrow> j \<noteq> k \<Longrightarrow> \<not> generation_live snap a j"
  by (auto simp: generation_live_def credential_live_def split: live_records.splits option.splits)

lemma recompute_reads:
  assumes "live = (case given of Some s \<Rightarrow> Some s | None \<Rightarrow> if is_tagged (window_of fw a) then Some snap else None)"
    and "live \<noteq> Some SnapshotFailed"
  shows "window_of (recompute given snap a now fw) a = judge now (slide live a now (retire live a (window_of fw a)))"
proof -
  have "\<exists>fw1. recompute given snap a now fw
      = fw1\<lparr>fw_windows := AList.update a (judge now (slide live a now (retire live a (window_of fw a)))) (fw_windows fw1)\<rparr>"
    unfolding recompute_def Let_def assms(1) [symmetric] using assms(2) by auto
  then show ?thesis by auto
qed

text \<open>The generation of a window after a reading: none only while no tagged sample is in it.\<close>

definition names_generation :: "window \<Rightarrow> sample list \<Rightarrow> nat option \<Rightarrow> bool" where
  "names_generation w ss g \<longleftrightarrow> g = None \<longrightarrow> wn_generation w = None \<and> (\<forall>x \<in> set ss. sm_generation x = None)"

lemma recompute_stable:
  assumes own: "owned k (wn_generation (window_of fw a))" "\<forall>s \<in> set (wn_samples (window_of fw a)). owned k (sm_generation s)"
    and given: "given = (if tagged then Some snap else None)"
    and ok: "\<not> (snap = SnapshotFailed \<and> (tagged \<or> is_tagged (window_of fw a)))" "readable k a snap"
  shows "\<exists>g. owned k g \<and> names_generation (window_of fw a) (recent_log now (wn_samples (window_of fw a))) g
    \<and> window_of (recompute given snap a now fw) a
      = judge now ((window_of fw a)\<lparr>wn_samples := recent_log now (wn_samples (window_of fw a)), wn_generation := g\<rparr>)"
proof -
  let ?w = "window_of fw a"
  define live where "live = (case given of Some s \<Rightarrow> Some s | None \<Rightarrow> if is_tagged ?w then Some snap else None)"
  have live: "live = (if tagged \<or> is_tagged ?w then Some snap else None)" unfolding live_def given by simp
  have no: "live \<noteq> Some SnapshotFailed" using ok(1) live by auto
  have alive: "alive live a g" if "owned k g" "g = None \<or> is_tagged ?w" for g
    by (rule owned_alive [OF that(1), where snap = snap]) (use that(2) live ok in \<open>auto simp: readable_def\<close>)
  have g1: "alive live a (wn_generation ?w)" using own(1) by (intro alive) (auto simp: is_tagged_def)
  have "alive live a (sm_generation s)" if "s \<in> set (wn_samples ?w)" for s
    using own(2) that by (intro alive) (auto simp: is_tagged_def list_ex_iff)
  then have kept: "filter (\<lambda>s. sm_time s > now - sliding_window_ms \<and> alive live a (sm_generation s)) (wn_samples ?w) = recent_log now (wn_samples ?w)"
    unfolding recent_log_def by (auto intro: filter_cong)
  define g where "g = wn_generation (slide live a now ?w)"
  have ge: "g = (case wn_generation ?w of Some j \<Rightarrow> Some j | None \<Rightarrow>
      (case List.find (\<lambda>s. sm_generation s \<noteq> None) (recent_log now (wn_samples ?w)) of None \<Rightarrow> None | Some s \<Rightarrow> sm_generation s))"
    unfolding g_def slide_def kept Let_def by simp
  have "owned k g \<and> names_generation ?w (recent_log now (wn_samples ?w)) g"
  proof (cases "wn_generation ?w")
    case None
    show ?thesis
    proof (cases "List.find (\<lambda>s. sm_generation s \<noteq> None) (recent_log now (wn_samples ?w))")
      case None
      have "g = None" unfolding ge \<open>wn_generation ?w = None\<close> None option.case ..
      then show ?thesis using \<open>wn_generation ?w = None\<close> None [unfolded find_None_iff]
        by (simp add: owned_def names_generation_def)
    next
      case (Some s)
      then have "s \<in> set (wn_samples ?w)" "sm_generation s \<noteq> None"
        by (auto simp: find_Some_iff recent_log_def dest!: nth_mem [of _ "filter _ _"])
      moreover have "g = sm_generation s" unfolding ge \<open>wn_generation ?w = None\<close> Some option.case ..
      ultimately show ?thesis using own(2) by (auto simp: names_generation_def)
    qed
  qed (use own(1) in \<open>simp add: ge names_generation_def\<close>)
  moreover have "slide live a now (retire live a ?w) = ?w\<lparr>wn_samples := recent_log now (wn_samples ?w), wn_generation := g\<rparr>"
    using g1 by (simp add: retire_def g_def slide_def Let_def kept)
  moreover have "window_of (recompute given snap a now fw) a = judge now (slide live a now (retire live a ?w))"
    by (rule recompute_reads [OF live_def no])
  ultimately show ?thesis by auto
qed

text \<open>A window of a replaced credential starts over at its next reading.\<close>

lemma recompute_stale:
  assumes w: "wn_generation (window_of fw a) = Some j" "j \<noteq> k" and snap: "readable k a snap" "snap \<noteq> SnapshotFailed"
    and given: "given \<in> {None, Some snap}"
    and ss: "filter (\<lambda>s. sm_time s > now - sliding_window_ms \<and> alive (Some snap) a (sm_generation s)) (wn_samples (window_of fw a)) = ss"
    and g: "(case List.find (\<lambda>s. sm_generation s \<noteq> None) ss of None \<Rightarrow> None | Some s \<Rightarrow> sm_generation s) = g"
  shows "window_of (recompute given snap a now fw) a = judge now (fresh_window\<lparr>wn_samples := ss, wn_generation := g\<rparr>)"
proof -
  have live: "Some snap = (case given of Some s \<Rightarrow> Some s | None \<Rightarrow> if is_tagged (window_of fw a) then Some snap else None)"
    using given w(1) by (auto simp: is_tagged_def)
  have "\<not> alive (Some snap) a (Some j)" using only_one_live [of snap a k j] snap w(2) by (simp add: readable_def alive_def)
  then have "slide (Some snap) a now (retire (Some snap) a (window_of fw a)) = fresh_window\<lparr>wn_samples := ss, wn_generation := g\<rparr>"
    using w(1) ss g by (simp add: retire_def slide_def Let_def fresh_window_def)
  then show ?thesis using recompute_reads [OF live] snap(2) by simp
qed


section \<open>The invariant\<close>

definition current :: "nat \<Rightarrow> millis \<Rightarrow> fw_event list \<Rightarrow> window \<Rightarrow> bool" where
  "current k c es w \<longleftrightarrow> (\<exists>t \<le> c. wn_samples w = evidence t es) \<and> owned k (wn_generation w)
     \<and> (wn_generation w = None \<longrightarrow> (\<forall>x \<in> set (samples_of es). sm_generation x = None))
     \<and> (wn_degraded w, wn_healthy_since w) = judged (readings es)"

definition stale :: "nat \<Rightarrow> fw_event list \<Rightarrow> window \<Rightarrow> bool" where
  "stale k es w \<longleftrightarrow> es = [] \<and> (\<exists>g < k. wn_generation w = Some g)
     \<and> (\<forall>x \<in> set (wn_samples w). \<exists>g < k. sm_generation x = Some g)"

definition log_ok :: "nat \<Rightarrow> millis \<Rightarrow> fw_event list \<Rightarrow> bool" where
  "log_ok k c es \<longleftrightarrow> sorted (map event_time es) \<and> (\<forall>e \<in> set es. event_time e \<le> c)
     \<and> (\<forall>x \<in> set (samples_of es). owned k (sm_generation x))"

definition account_inv :: "(string \<Rightarrow> nat) \<Rightarrow> (string \<times> fw_event) list \<Rightarrow> millis \<Rightarrow> failure_windows \<Rightarrow> string \<Rightarrow> bool" where
  "account_inv gen evs c fw a \<longleftrightarrow> log_ok (gen a) c (events_of a evs)
     \<and> (events_of a evs = [] \<or> jm_has (fw_windows fw) a)
     \<and> (current (gen a) c (events_of a evs) (window_of fw a) \<or> stale (gen a) (events_of a evs) (window_of fw a))"

lemma fresh_current: "current k c [] fresh_window"
  by (auto simp: current_def fresh_window_def evidence_def recent_log_def last_n_def owned_def)

lemma current_later: "current k c es w \<Longrightarrow> c \<le> c' \<Longrightarrow> current k c' es w"
  unfolding current_def by (meson order_trans)

lemma log_later: "log_ok k c es \<Longrightarrow> c \<le> c' \<Longrightarrow> log_ok k c' es"
  unfolding log_ok_def by (meson order_trans)

lemma evidence_mem: "x \<in> set (evidence t es) \<Longrightarrow> x \<in> set (samples_of es)"
  by (auto simp: evidence_def recent_log_def dest!: last_n_mem)

lemma log_times:
  assumes "log_ok k c es"
  shows "sorted (map sm_time (samples_of es))" "x \<in> set (samples_of es) \<Longrightarrow> sm_time x \<le> c"
proof -
  have "sorted (map event_time es) \<Longrightarrow> sorted (map sm_time (samples_of es))" for es
  proof (induction es rule: rev_induct)
    case (snoc e es)
    then have i: "sorted (map sm_time (samples_of es))" "\<forall>x \<in> set es. event_time x \<le> event_time e" by (simp_all add: sorted_append)
    have "sm_time x \<le> event_time e" if "x \<in> set (samples_of es)" for x
      using that i(2) unfolding samples_of_mem by fastforce
    then show ?case using i(1) by (cases e) (auto simp: sorted_append)
  qed simp
  then show "sorted (map sm_time (samples_of es))" using assms by (simp add: log_ok_def)
  show "x \<in> set (samples_of es) \<Longrightarrow> sm_time x \<le> c" using assms unfolding log_ok_def samples_of_mem by fastforce
qed

text \<open>A reading of a current window.\<close>

lemma read_current:
  assumes cur: "current k c es w" and g: "owned k g" "g = None \<longrightarrow> (\<forall>x \<in> set (samples_of (es @ [e])). sm_generation x = None)"
    and ss: "ss = evidence (event_time e) (es @ [e])"
  shows "current k (event_time e) (es @ [e]) (judge (event_time e) (w\<lparr>wn_samples := ss, wn_generation := g\<rparr>))"
proof -
  let ?w = "w\<lparr>wn_samples := ss, wn_generation := g\<rparr>"
  have "(wn_degraded (judge (event_time e) ?w), wn_healthy_since (judge (event_time e) ?w)) = judged (readings (es @ [e]))"
    unfolding judge_steps using cur ss by (simp add: current_def)
  then show ?thesis using g ss unfolding current_def by auto
qed

lemma log_grows:
  assumes "log_ok k c es" and "c \<le> event_time e" and "\<forall>x. e = Noted x \<longrightarrow> owned k (sm_generation x)"
  shows "log_ok k (event_time e) (es @ [e])"
proof -
  have "\<forall>x \<in> set es. event_time x \<le> event_time e" using assms(1,2) by (fastforce simp: log_ok_def)
  then show ?thesis using assms(1,3) by (cases e) (auto simp: log_ok_def sorted_append)
qed

section \<open>Every operation keeps it\<close>

lemma append_other: "a \<noteq> b \<Longrightarrow> window_of (append_sample e snap a failed now g fw) b = window_of fw b"
  by (simp add: append_sample_def Let_def)

lemma append_has: "a \<noteq> b \<Longrightarrow> map_of (fw_windows (append_sample e snap a failed now g fw)) b = map_of (fw_windows fw) b"
  by (simp add: append_sample_def Let_def recompute_def)

lemma existing_tagged: "(case map_of (fw_windows fw) a of None \<Rightarrow> False | Some w \<Rightarrow> is_tagged w) = is_tagged (window_of fw a)"
  by (simp add: window_of_def fresh_window_def is_tagged_def split: option.split)

lemma append_void: "void snap g (window_of fw a) \<Longrightarrow> append_sample e snap a failed now g fw = fw"
  unfolding append_sample_def existing_tagged Let_def void_def by auto

lemma append_ignored:
  assumes "readable k a snap" and "\<not> enabled \<or> g \<notin> {None, Some k}"
  shows "append_sample enabled snap a failed now g fw = fw"
proof (cases enabled)
  case True
  then obtain j where j: "g = Some j" "j \<noteq> k" using assms(2) by auto
  then have "snap \<noteq> SnapshotFailed \<Longrightarrow> \<not> generation_live snap a j"
    using only_one_live [of snap a k j] assms(1) by (simp add: readable_def)
  then show ?thesis using j by (auto simp: append_sample_def Let_def alive_def)
qed (simp add: append_sample_def)

lemma append_opens:
  fixes now failed g
  defines "s \<equiv> \<lparr>sm_time = now, sm_failed = failed, sm_generation = g\<rparr>"
  assumes "\<not> void snap g (window_of fw a)" and "owned k g" and "readable k a snap"
  shows "append_sample True snap a failed now g fw = unwarn_healthy a
    (recompute (if g \<noteq> None \<or> is_tagged (window_of fw a) then Some snap else None) snap a now
      (fw\<lparr>fw_windows := AList.update a ((window_of fw a)\<lparr>wn_samples := last_n max_samples (wn_samples (window_of fw a) @ [s])\<rparr>) (fw_windows fw)\<rparr>))"
proof -
  let ?w = "window_of fw a"
  let ?ss = "wn_samples ?w @ [s]"
  define tagged where "tagged = (g \<noteq> None \<or> is_tagged ?w)"
  let ?live = "if tagged then Some snap else None"
  have live: "?live \<noteq> Some SnapshotFailed" using assms(2) by (auto simp: void_def tagged_def)
  have al: "alive ?live a g"
    by (rule owned_alive [OF assms(3), where snap = snap]) (use assms(4) live in \<open>auto simp: readable_def tagged_def\<close>)
  have cut: "(if length ?ss > max_samples then drop (length ?ss - max_samples) ?ss else ?ss) = last_n max_samples ?ss"
    by (simp add: last_n_def)
  show ?thesis
    unfolding append_sample_def existing_tagged tagged_def [symmetric] Let_def s_def [symmetric] cut
    using live al by simp
qed

text \<open>
  After an insertion or a read that took effect, the window is a judgement over a current window: its
  own, or an empty one when the credential was replaced.
\<close>

lemma append_current:
  fixes now failed g
  defines "s \<equiv> \<lparr>sm_time = now, sm_failed = failed, sm_generation = g\<rparr>"
  assumes log: "log_ok k c es" and w: "current k c es (window_of fw a) \<or> stale k es (window_of fw a)"
    and le: "c \<le> now" and g: "owned k g" and snap: "readable k a snap" "\<not> void snap g (window_of fw a)"
  shows "current k now (es @ [Noted s]) (window_of (append_sample True snap a failed now g fw) a)"
proof -
  let ?w = "window_of fw a"
  let ?w1 = "?w\<lparr>wn_samples := last_n max_samples (wn_samples ?w @ [s])\<rparr>"
  let ?fw1 = "fw\<lparr>fw_windows := AList.update a ?w1 (fw_windows fw)\<rparr>"
  define tagged where "tagged = (g \<noteq> None \<or> is_tagged ?w)"
  let ?given = "if tagged then Some snap else None"
  have app: "window_of (append_sample True snap a failed now g fw) a = window_of (recompute ?given snap a now ?fw1) a"
    using append_opens [OF snap(2) g snap(1)] by (simp add: s_def tagged_def)
  have w1: "window_of ?fw1 a = ?w1" by simp
  have sm: "sm_time s = now" "sm_generation s = g" by (simp_all add: s_def)
  show ?thesis
  proof (cases "stale k es ?w")
    case True
    then obtain j where j: "es = []" "j < k" "wn_generation ?w = Some j" "\<forall>x \<in> set (wn_samples ?w). \<exists>g < k. sm_generation x = Some g"
      by (auto simp: stale_def)
    have tg: "tagged" using j(3) by (simp add: tagged_def is_tagged_def)
    have nf: "snap \<noteq> SnapshotFailed" using snap(2) tg by (auto simp: void_def tagged_def)
    then have live: "generation_live snap a k" using snap(1) by (simp add: readable_def)
    have dead: "\<not> alive (Some snap) a (sm_generation x)" if "x \<in> set (wn_samples ?w)" for x
      using j(4) that only_one_live [OF live] by (fastforce simp: alive_def)
    obtain old where old: "last_n max_samples (wn_samples ?w @ [s]) = old @ [s]" "set old \<subseteq> set (wn_samples ?w)"
      by (intro that [of "drop (length (wn_samples ?w) + 1 - max_samples) (wn_samples ?w)"])
        (auto simp: last_n_def max_samples_def dest: in_set_dropD)
    have kept: "filter (\<lambda>s. sm_time s > now - sliding_window_ms \<and> alive (Some snap) a (sm_generation s)) (wn_samples ?w1) = [s]"
    proof -
      have "filter (\<lambda>s. sm_time s > now - sliding_window_ms \<and> alive (Some snap) a (sm_generation s)) old = []"
        using old(2) dead by (auto simp: filter_empty_conv)
      moreover have "alive (Some snap) a g" using g live by (auto simp: owned_def alive_def)
      ultimately show ?thesis by (simp add: old(1) sm sliding_window_ms_def)
    qed
    have j1: "wn_generation (window_of ?fw1 a) = Some j" "j \<noteq> k" using j(2,3) by (simp_all add: w1)
    have given: "?given \<in> {None, Some snap}" by simp
    have kept1: "filter (\<lambda>s. sm_time s > now - sliding_window_ms \<and> alive (Some snap) a (sm_generation s)) (wn_samples (window_of ?fw1 a)) = [s]"
      using kept unfolding w1 .
    have named: "(case List.find (\<lambda>s. sm_generation s \<noteq> None) [s] of None \<Rightarrow> None | Some s \<Rightarrow> sm_generation s) = g"
      by (cases g) (simp_all add: sm)
    note started = recompute_stale [OF j1 snap(1) nf given kept1 named]
    have ev: "[s] = evidence (event_time (Noted s)) ([] @ [Noted s])"
      by (simp add: evidence_def recent_log_def last_n_def sm sliding_window_ms_def max_samples_def)
    have none: "g = None \<longrightarrow> (\<forall>x \<in> set (samples_of ([] @ [Noted s])). sm_generation x = None)" by (simp add: sm)
    from read_current [OF fresh_current [of k c] g none ev] show ?thesis
      unfolding app started j(1) by (simp only: event_time.simps sm)
  next
    case False
    then have cur: "current k c es ?w" using w by blast
    then obtain t where t: "t \<le> c" "wn_samples ?w = evidence t es" by (auto simp: current_def)
    have own: "owned k (wn_generation ?w)" using cur by (simp add: current_def)
    have old: "\<forall>x \<in> set (wn_samples ?w). owned k (sm_generation x)" using t(2) log evidence_mem by (fastforce simp: log_ok_def)
    have own1: "\<forall>x \<in> set (wn_samples ?w1). owned k (sm_generation x)" using old g sm by (auto dest!: last_n_mem)
    have tag: "is_tagged ?w1 \<longrightarrow> tagged"
    proof
      assume "is_tagged ?w1"
      then consider "wn_generation ?w \<noteq> None" | x where "x \<in> set (wn_samples ?w @ [s])" "sm_generation x \<noteq> None"
        using last_n_mem [of _ max_samples "wn_samples ?w @ [s]"] by (auto simp: is_tagged_def list_ex_iff simp del: set_append)
      then show tagged by cases (auto simp: tagged_def is_tagged_def list_ex_iff sm)
    qed
    let ?ss = "recent_log now (last_n max_samples (wn_samples ?w @ [s]))"
    have "\<not> (snap = SnapshotFailed \<and> (tagged \<or> is_tagged (window_of ?fw1 a)))"
      using snap(2) tag unfolding w1 by (auto simp: void_def tagged_def)
    from recompute_stable [of k ?fw1 a ?given tagged snap now, unfolded w1, OF _ _ refl this [unfolded w1] snap(1)]
    obtain g' where g': "owned k g'" "names_generation ?w1 ?ss g'"
      "window_of (recompute ?given snap a now ?fw1) a = judge now (?w1\<lparr>wn_samples := ?ss, wn_generation := g'\<rparr>)"
      using own own1 by auto
    have ev: "?ss = evidence now (es @ [Noted s])"
      unfolding t(2) evidence_def
      using evidence_grows [OF log_times(1) [OF log], of t now s max_samples] t(1) le log_times(2) [OF log] sm(1)
      by (force simp: max_samples_def)
    have "s \<in> set ?ss" by (simp add: recent_log_def last_n_def sm sliding_window_ms_def max_samples_def)
    then have "g' = None \<longrightarrow> (\<forall>x \<in> set (samples_of (es @ [Noted s])). sm_generation x = None)"
      using g'(2) cur unfolding names_generation_def current_def by auto
    from read_current [OF cur g'(1) this, of ?ss] show ?thesis unfolding app g'(3) using ev sm(1) by simp
  qed
qed

lemma look_void:
  "void snap None (window_of fw a) \<or> \<not> jm_has (fw_windows fw) a \<Longrightarrow> window_of (snd (is_failure_window_degraded snap a now fw)) b = window_of fw b"
  by (auto simp: is_failure_window_degraded_def void_def recompute_def Let_def)

lemma look_other: "a \<noteq> b \<Longrightarrow> window_of (snd (is_failure_window_degraded snap a now fw)) b = window_of fw b"
  by (simp add: is_failure_window_degraded_def Let_def)

lemma look_has: "jm_has (fw_windows (snd (is_failure_window_degraded snap a now fw))) b = jm_has (fw_windows fw) b"
  by (auto simp: is_failure_window_degraded_def Let_def recompute_def)

lemma look_current:
  assumes log: "log_ok k c es" and w: "current k c es (window_of fw a) \<or> stale k es (window_of fw a)"
    and le: "c \<le> now" and snap: "readable k a snap" "\<not> void snap None (window_of fw a)" and has: "jm_has (fw_windows fw) a"
  shows "current k now (es @ [Looked now]) (window_of (snd (is_failure_window_degraded snap a now fw)) a)"
proof -
  let ?w = "window_of fw a"
  have look: "window_of (snd (is_failure_window_degraded snap a now fw)) a = window_of (recompute None snap a now fw) a"
    using has by (simp add: is_failure_window_degraded_def Let_def)
  show ?thesis
  proof (cases "stale k es ?w")
    case True
    then obtain j where j: "es = []" "j < k" "wn_generation ?w = Some j" "\<forall>x \<in> set (wn_samples ?w). \<exists>g < k. sm_generation x = Some g"
      by (auto simp: stale_def)
    have nf: "snap \<noteq> SnapshotFailed" using snap(2) j(3) by (auto simp: void_def is_tagged_def)
    then have live: "generation_live snap a k" using snap(1) by (simp add: readable_def)
    have kept: "filter (\<lambda>s. sm_time s > now - sliding_window_ms \<and> alive (Some snap) a (sm_generation s)) (wn_samples ?w) = []"
      using j(4) only_one_live [OF live] by (fastforce simp: filter_empty_conv alive_def)
    have jk: "j \<noteq> k" using j(2) by simp
    have given: "None \<in> {None, Some snap}" by simp
    have named: "(case List.find (\<lambda>s. sm_generation s \<noteq> None) [] of None \<Rightarrow> None | Some s \<Rightarrow> sm_generation s) = None"
      by simp
    have "window_of (recompute None snap a now fw) a = judge now (fresh_window\<lparr>wn_samples := [], wn_generation := None\<rparr>)"
      by (rule recompute_stale [OF j(3) jk snap(1) nf given kept named])
    note started = this
    have ev: "[] = evidence (event_time (Looked now)) ([] @ [Looked now])"
      by (simp add: evidence_def recent_log_def last_n_def)
    have none: "None = None \<longrightarrow> (\<forall>x \<in> set (samples_of ([] @ [Looked now])). sm_generation x = None)" by simp
    have o: "owned k None" by (simp add: owned_def)
    from read_current [OF fresh_current [of k c] o none ev] show ?thesis
      unfolding look started j(1) by (simp only: event_time.simps)
  next
    case False
    then have cur: "current k c es ?w" using w by blast
    then obtain t where t: "t \<le> c" "wn_samples ?w = evidence t es" by (auto simp: current_def)
    have own: "owned k (wn_generation ?w)" using cur by (simp add: current_def)
    have old: "\<forall>x \<in> set (wn_samples ?w). owned k (sm_generation x)" using t(2) log evidence_mem by (fastforce simp: log_ok_def)
    let ?ss = "recent_log now (wn_samples ?w)"
    obtain g' where g': "owned k g'" "names_generation ?w ?ss g'"
      "window_of (recompute None snap a now fw) a = judge now (?w\<lparr>wn_samples := ?ss, wn_generation := g'\<rparr>)"
      using recompute_stable [OF own old, where tagged = False and snap = snap] snap by (auto simp: void_def)
    have ev: "?ss = evidence now (es @ [Looked now])"
      unfolding t(2) evidence_def using evidence_slides [OF log_times(1) [OF log], of t now max_samples] t(1) le by simp
    have "g' = None \<longrightarrow> (\<forall>x \<in> set (samples_of (es @ [Looked now])). sm_generation x = None)"
      using g'(2) cur unfolding names_generation_def current_def by auto
    from read_current [OF cur g'(1) this, of ?ss] show ?thesis unfolding look g'(3) using ev by simp
  qed
qed

lemma account_inv_same:
  assumes inv: "account_inv gen evs c fw a" and le: "c \<le> c'" and same: "window_of fw' a = window_of fw a"
    "jm_has (fw_windows fw') a = jm_has (fw_windows fw) a" "events_of a evs' = events_of a evs" "gen' a = gen a"
  shows "account_inv gen' evs' c' fw' a"
  using inv current_later [OF _ le] log_later [OF _ le] unfolding account_inv_def same by blast

lemma note_inv:
  assumes inv: "account_inv gen evs c fw b" and le: "c \<le> now" and g: "g \<in> {None, Some (gen a)}" and snap: "readable (gen a) a snap"
    and app: "append_sample True snap a failed now g fw = fw'"
    and evs': "evs' = (if void snap g (window_of fw a) then evs
          else evs @ [(a, Noted \<lparr>sm_time = now, sm_failed = failed, sm_generation = g\<rparr>)])"
  shows "account_inv gen evs' now fw' b"
proof (cases "a = b \<and> \<not> void snap g (window_of fw a)")
  case True
  let ?s = "\<lparr>sm_time = now, sm_failed = failed, sm_generation = g\<rparr>"
  have same: "a = b" "\<not> void snap g (window_of fw b)" using True by auto
  have own: "owned (gen b) g" using g True by (auto simp: owned_def)
  have parts: "log_ok (gen b) c (events_of b evs)"
    "current (gen b) c (events_of b evs) (window_of fw b) \<or> stale (gen b) (events_of b evs) (window_of fw b)"
    using inv by (simp_all add: account_inv_def)
  have "current (gen b) now (events_of b evs @ [Noted ?s]) (window_of (append_sample True snap b failed now g fw) b)"
    using append_current [OF parts le own] snap True by metis
  moreover have "log_ok (gen b) now (events_of b evs @ [Noted ?s])"
    using log_grows [OF parts(1), of "Noted ?s"] le own by simp
  moreover have "jm_has (fw_windows fw') b"
    using app True append_opens [of snap g fw b "gen b" failed now] own snap by (auto simp: recompute_def Let_def)
  ultimately show ?thesis using app evs' same by (simp add: account_inv_def events_of_append)
next
  case False
  have same: "window_of fw' b = window_of fw b" "jm_has (fw_windows fw') b = jm_has (fw_windows fw) b"
  proof -
    consider "a \<noteq> b" | "void snap g (window_of fw a)" using False by blast
    then have "window_of fw' b = window_of fw b \<and> jm_has (fw_windows fw') b = jm_has (fw_windows fw) b"
    proof cases
      case 1
      then show ?thesis using app append_other [OF 1] append_has [OF 1] by auto
    next
      case 2
      then show ?thesis using append_void [OF 2] app by simp
    qed
    then show "window_of fw' b = window_of fw b" "jm_has (fw_windows fw') b = jm_has (fw_windows fw) b" by blast+
  qed
  have "events_of b evs' = events_of b evs" using False evs' by (auto simp: events_of_append)
  from account_inv_same [OF inv le same this, of gen] show ?thesis by simp
qed

lemma look_inv:
  assumes inv: "account_inv gen evs c fw b" and le: "c \<le> now" and snap: "readable (gen a) a snap"
    and look: "is_failure_window_degraded snap a now fw = (d, fw')"
    and evs': "evs' = (if void snap None (window_of fw a) \<or> \<not> jm_has (fw_windows fw) a then evs else evs @ [(a, Looked now)])"
  shows "account_inv gen evs' now fw' b"
proof (cases "a = b \<and> \<not> void snap None (window_of fw a) \<and> jm_has (fw_windows fw) a")
  case True
  then have same: "a = b" "\<not> void snap None (window_of fw b)" "jm_has (fw_windows fw) b" by auto
  have parts: "log_ok (gen b) c (events_of b evs)"
    "current (gen b) c (events_of b evs) (window_of fw b) \<or> stale (gen b) (events_of b evs) (window_of fw b)"
    using inv by (simp_all add: account_inv_def)
  have fw': "fw' = snd (is_failure_window_degraded snap b now fw)" using look same(1) by simp
  have "current (gen b) now (events_of b evs @ [Looked now]) (window_of fw' b)"
    unfolding fw' using look_current [OF parts le] snap True by metis
  moreover have "log_ok (gen b) now (events_of b evs @ [Looked now])"
    using log_grows [OF parts(1), of "Looked now"] le by simp
  moreover have "jm_has (fw_windows fw') b" unfolding fw' look_has using same(3) .
  ultimately show ?thesis using evs' same by (simp add: account_inv_def events_of_append)
next
  case False
  have fw': "fw' = snd (is_failure_window_degraded snap a now fw)" using look by simp
  have same: "window_of fw' b = window_of fw b" unfolding fw' using look_void look_other False by metis
  have has: "jm_has (fw_windows fw') b = jm_has (fw_windows fw) b" unfolding fw' by (rule look_has)
  have "events_of b evs' = events_of b evs" using False evs' by (auto simp: events_of_append)
  from account_inv_same [OF inv le same has this, of gen] show ?thesis by simp
qed

lemma no_samples_judged: "samples_of es = [] \<Longrightarrow> judged (readings es) = (False, None)"
  by (induction es rule: rev_induct)
    (auto simp: judge_step_def evidence_def recent_log_def last_n_def failing_def min_samples_def)

lemma replaced_inv:
  assumes inv: "account_inv gen evs c fw a" and "gen a < k" and tagged: "\<forall>x \<in> set (samples_of (events_of a evs)). sm_generation x \<noteq> None"
  shows "current k c [] (window_of fw a) \<or> stale k [] (window_of fw a)"
proof -
  let ?w = "window_of fw a" and ?es = "events_of a evs"
  consider "stale (gen a) ?es ?w" | "current (gen a) c ?es ?w" using inv by (auto simp: account_inv_def)
  then show ?thesis
  proof cases
    case 1
    then show ?thesis using assms(2) unfolding stale_def by (meson order.strict_trans)
  next
    case 2
    then obtain t where t: "t \<le> c" "wn_samples ?w = evidence t ?es" by (auto simp: current_def)
    show ?thesis
    proof (cases "wn_generation ?w")
      case None
      then have "samples_of ?es = []" using 2 tagged by (cases "samples_of ?es") (auto simp: current_def)
      then show ?thesis using 2 t None no_samples_judged [of ?es]
        by (auto simp: current_def evidence_def recent_log_def last_n_def owned_def)
    next
      case (Some g)
      then have "g = gen a" using 2 by (auto simp: current_def owned_def)
      moreover have "\<exists>g < k. sm_generation x = Some g" if "x \<in> set (wn_samples ?w)" for x
      proof -
        have x: "x \<in> set (samples_of ?es)" using that t(2) evidence_mem by metis
        then have "owned (gen a) (sm_generation x)" using inv by (simp add: account_inv_def log_ok_def)
        then show ?thesis using tagged x assms(2) by (auto simp: owned_def)
      qed
      ultimately show ?thesis using Some assms(2) by (auto simp: stale_def)
    qed
  qed
qed

lemma events_filtered: "events_of b (filter (\<lambda>e. fst e \<noteq> a) evs) = (if a = b then [] else events_of b evs)"
  by (auto simp: events_of_def filter_empty_conv intro!: arg_cong [where f = "map snd"] filter_cong)

lemma empty_log: "log_ok k c []"
  by (simp add: log_ok_def)

lemma fw_run_inv: "fw_run gen evs c fw \<Longrightarrow> account_inv gen evs c fw b"
proof (induction rule: fw_run.induct)
  case (starts gen c)
  have "window_of forget_failure_windows b = fresh_window" by (simp add: window_of_def forget_failure_windows_def)
  then show ?case by (simp add: account_inv_def events_of_def empty_log fresh_current)
next
  case (noted gen evs c fw now g a snap failed fw' evs')
  then show ?case by (blast intro: note_inv)
next
  case (ignored gen evs c fw now a snap enabled g failed fw')
  have "fw' = fw" using append_ignored [OF ignored.hyps(3,4)] ignored.hyps(5) by simp
  then show ?case using account_inv_same [OF ignored.IH ignored.hyps(2)] by simp
next
  case (looked gen evs c fw now a snap d fw' evs')
  then show ?case by (blast intro: look_inv)
next
  case (warned gen evs c fw ws)
  show ?case by (rule account_inv_same [OF warned.IH]) (simp_all add: window_of_def)
next
  case (forgot gen evs c fw a)
  show ?case
  proof (cases "a = b")
    case True
    have "window_of (forget_failure_window a fw) b = fresh_window"
      using True by (simp add: window_of_def forget_failure_window_def unwarn_def)
    then show ?thesis using True by (simp add: account_inv_def events_filtered empty_log fresh_current)
  next
    case False
    then show ?thesis
      by (intro account_inv_same [OF forgot.IH])
        (simp_all add: window_of_def forget_failure_window_def unwarn_def events_filtered)
  qed
next
  case (replaced gen evs c fw a k)
  show ?case
  proof (cases "a = b")
    case True
    have "account_inv gen evs c fw a" using replaced.IH True by simp
    then have "current k c [] (window_of fw a) \<or> stale k [] (window_of fw a)"
      by (rule replaced_inv) (fact replaced.hyps(2), fact replaced.hyps(3))
    then show ?thesis using True by (simp add: account_inv_def events_filtered empty_log)
  next
    case False
    then show ?thesis by (intro account_inv_same [OF replaced.IH]) (simp_all add: events_filtered)
  qed
qed


section \<open>The verdict\<close>

lemma current_verdict:
  assumes "account_inv gen evs c fw a" and "events_of a evs \<noteq> []"
  shows "wn_degraded (window_of fw a) = degraded_by (readings (events_of a evs))"
proof -
  have "current (gen a) c (events_of a evs) (window_of fw a)" using assms by (auto simp: account_inv_def stale_def)
  moreover have "sorted (map fst (readings (events_of a evs)))"
    using assms(1) by (simp add: account_inv_def log_ok_def readings_times)
  ultimately show ?thesis using judged_degraded [of "readings (events_of a evs)"] unfolding current_def by simp
qed

lemma look_verdict:
  assumes run: "fw_run gen evs c fw" and "c \<le> now" and snap: "readable (gen a) a snap" "snap \<noteq> SnapshotFailed"
  shows "fst (is_failure_window_degraded snap a now fw) = degraded_by (readings (events_of a evs @ [Looked now]))"
proof (cases "jm_has (fw_windows fw) a")
  case True
  obtain d fw' where look: "is_failure_window_degraded snap a now fw = (d, fw')" by fastforce
  have "account_inv gen (evs @ [(a, Looked now)]) now fw' a"
    using look_inv [OF fw_run_inv [OF run] assms(2) snap(1) look refl] snap(2) True by (simp add: void_def)
  from current_verdict [OF this] have "wn_degraded (window_of fw' a) = degraded_by (readings (events_of a evs @ [Looked now]))"
    by (simp add: events_of_append)
  moreover have "d = wn_degraded (window_of fw' a)" using look True by (auto simp: is_failure_window_degraded_def Let_def)
  ultimately show ?thesis using look by simp
next
  case False
  then have "events_of a evs = []" using fw_run_inv [OF run, of a] by (simp add: account_inv_def)
  moreover have "\<not> degraded_by (readings [Looked now])"
    using degraded_snoc [of "[]" "(now, evidence now [Looked now])"] readings_snoc(2) [of "[]" "Looked now"]
    by (simp add: evidence_def recent_log_def last_n_def failing_def min_samples_def)
  ultimately show ?thesis using False by (simp add: is_failure_window_degraded_def)
qed

lemma note_verdict:
  assumes run: "fw_run gen evs c fw" and "c \<le> now" and g: "g \<in> {None, Some (gen a)}" and snap: "readable (gen a) a snap" "snap \<noteq> SnapshotFailed"
  shows "wn_degraded (window_of (append_sample True snap a failed now g fw) a)
    = degraded_by (readings (events_of a evs @ [Noted \<lparr>sm_time = now, sm_failed = failed, sm_generation = g\<rparr>]))"
proof -
  have "account_inv gen (evs @ [(a, Noted \<lparr>sm_time = now, sm_failed = failed, sm_generation = g\<rparr>)]) now
      (append_sample True snap a failed now g fw) a"
    using note_inv [OF fw_run_inv [OF run] assms(2) g snap(1) refl refl] snap(2) by (simp add: void_def)
  from current_verdict [OF this] show ?thesis by (simp add: events_of_append)
qed

text \<open>
  C31. The verdict is a function of the log. The window of an account is kept incrementally, with samples
  that slide out, are capped and are dropped with their credential, a degraded flag and the start of a
  recovery. In every history its answer, on a read and after an insertion, is the one computed from the whole
  log of the outcomes and reads of the account under its present credential, a replaced credential starting
  over: some reading so far found at least twenty outcomes, a quarter of them failures, among the last 512
  of its last minute, and no stretch of readings since, each with at least twenty outcomes and at most a tenth
  failures, has lasted thirty seconds.
\<close>

theorem window_verdict_from_log:
  assumes "fw_run gen evs c fw" and "c \<le> now" and "readable (gen a) a snap" and "snap \<noteq> SnapshotFailed"
    and "g \<in> {None, Some (gen a)}"
  shows "fst (is_failure_window_degraded snap a now fw) = degraded_by (readings (events_of a evs @ [Looked now]))
    \<and> wn_degraded (window_of (append_sample True snap a failed now g fw) a)
      = degraded_by (readings (events_of a evs @ [Noted \<lparr>sm_time = now, sm_failed = failed, sm_generation = g\<rparr>]))"
  using look_verdict [OF assms(1-4)] note_verdict [OF assms(1,2,5,3,4)] by blast

text \<open>Without twenty outcomes a minute a degraded account stays degraded, however long it is quiet.\<close>

theorem quiet_account_stays_degraded:
  assumes "fw_run gen evs c fw" and "c \<le> now" and "readable (gen a) a snap" and "snap \<noteq> SnapshotFailed"
    and "degraded_by (readings (events_of a evs))" and "length (recent_log now (samples_of (events_of a evs))) < min_samples"
  shows "fst (is_failure_window_degraded snap a now fw)"
proof -
  let ?r = "(now, evidence now (events_of a evs @ [Looked now]))"
  have "length (snd ?r) < min_samples" using assms(6) by (simp add: evidence_def last_n_def)
  then have "\<not> failing (snd ?r)" "\<not> recovers ?r" by (simp_all add: failing_def recovers_def recovering_def)
  from degraded_not_recovers [OF this] show ?thesis using look_verdict [OF assms(1-4)] assms(5) by simp
qed


section \<open>Two bursts\<close>

text \<open>Twenty failures, and twenty successes when those have left the window.\<close>

definition demo_snapshot :: live_records where
  "demo_snapshot = Snapshot [(''a'', \<lparr>ar_credential = True, ar_deleted = False, ar_generation = 0, ar_replaced_at = None\<rparr>)]"

definition demo_burst :: "bool \<Rightarrow> millis \<Rightarrow> failure_windows \<Rightarrow> failure_windows" where
  "demo_burst failed now = fold (\<lambda>_. append_sample True demo_snapshot ''a'' failed now (Some 0)) [0..<20]"

definition demo_note :: "bool \<Rightarrow> millis \<Rightarrow> fw_event" where
  "demo_note failed now = Noted \<lparr>sm_time = now, sm_failed = failed, sm_generation = Some 0\<rparr>"

definition demo_degraded :: failure_windows where
  "demo_degraded = demo_burst True 1 forget_failure_windows"

definition demo_recovering :: failure_windows where
  "demo_recovering = demo_burst False 100000 demo_degraded"

lemma demo_values:
  "fst (is_failure_window_degraded demo_snapshot ''a'' 2 demo_degraded)"
  "\<not> fst (is_failure_window_degraded demo_snapshot ''a'' 130000 demo_recovering)"
  by code_simp+

lemma demo_readable: "readable 0 ''a'' demo_snapshot" "demo_snapshot \<noteq> SnapshotFailed"
  by (simp_all add: readable_def demo_snapshot_def generation_live_def credential_live_def)

lemma demo_fold:
  assumes "fw_run (\<lambda>_. 0) evs c fw" and "c \<le> now"
  shows "\<exists>c'. c' \<le> now \<and> fw_run (\<lambda>_. 0) (evs @ map (\<lambda>_. (''a'', demo_note failed now)) xs) c'
    (fold (\<lambda>_. append_sample True demo_snapshot ''a'' failed now (Some 0)) xs fw)"
  using assms
proof (induction xs arbitrary: evs c fw)
  case (Cons x xs)
  have "fw_run (\<lambda>_. 0) (evs @ [(''a'', demo_note failed now)]) now (append_sample True demo_snapshot ''a'' failed now (Some 0) fw)"
    using fw_run.noted [where failed = failed, OF Cons.prems _ demo_readable(1) refl refl] demo_readable(2)
    by (simp add: demo_note_def void_def)
  from Cons.IH [OF this order_refl] show ?case by simp
qed auto

lemma demo_runs:
  "\<exists>c. c \<le> 1 \<and> fw_run (\<lambda>_. 0) (replicate 20 (''a'', demo_note True 1)) c demo_degraded"
  "\<exists>c. c \<le> 100000 \<and> fw_run (\<lambda>_. 0) (replicate 20 (''a'', demo_note True 1) @ replicate 20 (''a'', demo_note False 100000)) c demo_recovering"
proof -
  have r: "map (\<lambda>_. e) [0..<20] = replicate 20 e" for e :: "string \<times> fw_event" by (simp add: map_replicate_const)
  show one: "\<exists>c. c \<le> 1 \<and> fw_run (\<lambda>_. 0) (replicate 20 (''a'', demo_note True 1)) c demo_degraded"
    using demo_fold [OF fw_run.starts, of 1 1 True "[0..<20]"] unfolding r demo_degraded_def demo_burst_def by auto
  then obtain c where "c \<le> 1" "fw_run (\<lambda>_. 0) (replicate 20 (''a'', demo_note True 1)) c demo_degraded" by blast
  with demo_fold [OF this(2), of 100000 False "[0..<20]"]
  show "\<exists>c. c \<le> 100000 \<and> fw_run (\<lambda>_. 0) (replicate 20 (''a'', demo_note True 1) @ replicate 20 (''a'', demo_note False 100000)) c demo_recovering"
    unfolding r demo_recovering_def demo_burst_def by auto
qed

lemma demo_events:
  "events_of ''a'' (replicate 20 (''a'', demo_note True 1)) = replicate 20 (demo_note True 1)"
  "events_of ''a'' (replicate 20 (''a'', demo_note True 1) @ replicate 20 (''a'', demo_note False 100000))
    = replicate 20 (demo_note True 1) @ replicate 20 (demo_note False 100000)"
  by (simp_all add: events_of_def filter_replicate)

text \<open>Degraded after the failures, recovered thirty seconds after the successes.\<close>

theorem window_verdict_from_log_witness:
  "degraded_by (readings (replicate 20 (demo_note True 1) @ [Looked 2]))
   \<and> \<not> degraded_by (readings (replicate 20 (demo_note True 1) @ replicate 20 (demo_note False 100000) @ [Looked 130000]))"
proof -
  obtain c where r: "c \<le> 1" "fw_run (\<lambda>_. 0) (replicate 20 (''a'', demo_note True 1)) c demo_degraded" using demo_runs(1) by blast
  obtain c' where r': "c' \<le> 100000"
    "fw_run (\<lambda>_. 0) (replicate 20 (''a'', demo_note True 1) @ replicate 20 (''a'', demo_note False 100000)) c' demo_recovering"
    using demo_runs(2) by blast
  show ?thesis
    using window_verdict_from_log [OF r(2) _ demo_readable, of 2 None] r(1)
      window_verdict_from_log [OF r'(2) _ demo_readable, of 130000 None] r'(1) demo_values
    unfolding demo_events by simp
qed

theorem quiet_account_stays_degraded_witness:
  "fst (is_failure_window_degraded demo_snapshot ''a'' 100000000000 demo_degraded)"
proof -
  obtain c where r: "c \<le> 1" "fw_run (\<lambda>_. 0) (replicate 20 (''a'', demo_note True 1)) c demo_degraded" using demo_runs(1) by blast
  have "wn_degraded (window_of demo_degraded ''a'')" by code_simp
  then have "degraded_by (readings (events_of ''a'' (replicate 20 (''a'', demo_note True 1))))"
    using current_verdict [OF fw_run_inv [OF r(2)], of "''a''"] by (simp add: demo_events)
  moreover have "length (recent_log 100000000000 (samples_of (events_of ''a'' (replicate 20 (''a'', demo_note True 1))))) < min_samples"
    unfolding demo_events by code_simp
  ultimately show ?thesis
    using quiet_account_stays_degraded [OF r(2) _ demo_readable, of 100000000000] r(1) by simp
qed

end
