(* ===== verification/Codex_Health.thy ===== *)
theory Codex_Health
  imports Failure_Window Retry_Timing
begin

text \<open>
  The health of pool accounts (\<open>codex/routing/health-store.ts\<close>), the leases of quota probes
  (\<open>codex/routing/probe-lease.ts\<close>) and what an upstream outcome changes (\<open>recordCodexUpstreamOutcome\<close> of
  \<open>codex/routing.ts\<close>). Lease ids are the random ids the code draws, passed in. Calls into the thread map,
  the rotation, the active cursor and the host ledger are effects, returned in the order they are made.
\<close>

section \<open>State\<close>

datatype quota_scope = SharedScope | ReserveScope

record health =
  hl_failures :: nat
  hl_successes :: "nat option"
  hl_last_status :: "jsnum option"
  hl_last_failure :: "rat option"
  hl_until :: "rat option"
  hl_avoid_until :: "rat option"
  hl_since :: "rat option"
  hl_source :: "cooldown_source option"
  hl_generation :: "nat option"
  hl_lease :: "nat option"
  hl_lease_generation :: "nat option"
  hl_last_probe :: "rat option"
  hl_soft_until :: "rat option"
  hl_credential_generation :: "nat option"

record health_store =
  hs_accounts :: "(string, health) jsmap"
  hs_scoped :: "(string, (quota_scope, health) jsmap) jsmap"
  hs_reconciled :: nat
  hs_live :: "string list"

definition healthy :: health where
  "healthy = \<lparr>hl_failures = 0, hl_successes = None, hl_last_status = None, hl_last_failure = None, hl_until = None,
     hl_avoid_until = None, hl_since = None, hl_source = None, hl_generation = None, hl_lease = None,
     hl_lease_generation = None, hl_last_probe = None, hl_soft_until = None, hl_credential_generation = None\<rparr>"

definition empty_store :: health_store where
  "empty_store = \<lparr>hs_accounts = [], hs_scoped = [], hs_reconciled = 0, hs_live = []\<rparr>"


section \<open>The store\<close>

definition account_health :: "health_store \<Rightarrow> string \<Rightarrow> health option" where
  "account_health hs account = map_of (hs_accounts hs) account"

definition set_account_health :: "string \<Rightarrow> health \<Rightarrow> health_store \<Rightarrow> health_store" where
  "set_account_health account h hs = hs\<lparr>hs_accounts := AList.update account h (hs_accounts hs)\<rparr>"

definition delete_account_health :: "string \<Rightarrow> health_store \<Rightarrow> health_store" where
  "delete_account_health account hs = hs\<lparr>hs_accounts := AList.delete account (hs_accounts hs)\<rparr>"

definition scoped_health :: "health_store \<Rightarrow> string \<Rightarrow> quota_scope \<Rightarrow> health option" where
  "scoped_health hs account scope = (case map_of (hs_scoped hs) account of None \<Rightarrow> None | Some m \<Rightarrow> map_of m scope)"

definition set_scoped_health :: "string \<Rightarrow> quota_scope \<Rightarrow> health \<Rightarrow> health_store \<Rightarrow> health_store" where
  "set_scoped_health account scope h hs =
     hs\<lparr>hs_scoped := AList.update account (AList.update scope h (nullish (map_of (hs_scoped hs) account) [])) (hs_scoped hs)\<rparr>"

definition delete_scoped_health :: "string \<Rightarrow> quota_scope \<Rightarrow> health_store \<Rightarrow> health_store" where
  "delete_scoped_health account scope hs = (case map_of (hs_scoped hs) account of
     None \<Rightarrow> hs
   | Some m \<Rightarrow> (let m' = AList.delete scope m
       in hs\<lparr>hs_scoped := (if m' = [] then AList.delete account (hs_scoped hs) else AList.update account m' (hs_scoped hs))\<rparr>))"

definition delete_all_scoped_health :: "string \<Rightarrow> health_store \<Rightarrow> health_store" where
  "delete_all_scoped_health account hs = hs\<lparr>hs_scoped := AList.delete account (hs_scoped hs)\<rparr>"

definition delete_all_health :: "string \<Rightarrow> health_store \<Rightarrow> health_store" where
  "delete_all_health account hs = delete_all_scoped_health account (delete_account_health account hs)"

text \<open>A lane is the account as a whole, or one of its quota scopes.\<close>

definition lane_health :: "health_store \<Rightarrow> string \<Rightarrow> quota_scope option \<Rightarrow> health option" where
  "lane_health hs account lane = (case lane of None \<Rightarrow> account_health hs account | Some s \<Rightarrow> scoped_health hs account s)"

definition set_lane_health :: "string \<Rightarrow> quota_scope option \<Rightarrow> health \<Rightarrow> health_store \<Rightarrow> health_store" where
  "set_lane_health account lane h hs = (case lane of
     None \<Rightarrow> set_account_health account h hs | Some s \<Rightarrow> set_scoped_health account s h hs)"

definition drop_spent_credential_failure :: "(string, account_record) jsmap \<Rightarrow> string \<Rightarrow> health_store \<Rightarrow> health_store" where
  "drop_spent_credential_failure records account hs = (case account_health hs account of
     None \<Rightarrow> hs
   | Some h \<Rightarrow> (case hl_credential_generation h of
        None \<Rightarrow> hs
      | Some g \<Rightarrow> if credential_live records account g then hs else delete_account_health account hs))"

definition quota_scope_for_model :: "string option \<Rightarrow> quota_scope option" where
  "quota_scope_for_model model = (let m = to_lower (js_trim (nullish model []))
     in if m = [] then None else if m = ''gpt-reserve'' then Some ReserveScope else Some SharedScope)"

definition is_independent :: "quota_scope option \<Rightarrow> bool" where
  "is_independent scope \<longleftrightarrow> scope \<noteq> None \<and> scope \<noteq> Some SharedScope"

definition pool_key_for_scope :: "quota_scope option \<Rightarrow> string" where
  "pool_key_for_scope scope = (if is_independent scope then ''codex:reserve'' else ''codex'')"

definition live_value :: "rat \<Rightarrow> rat option \<Rightarrow> rat option" where
  "live_value now x = (case x of Some v \<Rightarrow> if v > now then Some v else None | None \<Rightarrow> None)"

definition quota_avoid_until :: "string \<Rightarrow> quota_scope option \<Rightarrow> rat \<Rightarrow> health_store \<Rightarrow> rat option" where
  "quota_avoid_until account scope now hs =
     (let live = (\<lambda>h. case h of None \<Rightarrow> None | Some x \<Rightarrow> live_value now (hl_avoid_until x));
          a = live (account_health hs account);
          s = (case scope of None \<Rightarrow> None | Some sc \<Rightarrow> live (scoped_health hs account sc))
      in case (a, s) of (None, _) \<Rightarrow> s | (Some x, None) \<Rightarrow> Some x | (Some x, Some y) \<Rightarrow> Some (max x y))"

definition preserved_cooldown_fields :: "health option \<Rightarrow> health" where
  "preserved_cooldown_fields h = (case h of
     None \<Rightarrow> healthy
   | Some x \<Rightarrow> x\<lparr>hl_failures := 0, hl_successes := None, hl_last_status := None, hl_last_failure := None,
       hl_soft_until := None, hl_credential_generation := None\<rparr>)"

definition account_cooldown_until :: "string \<Rightarrow> rat \<Rightarrow> health_store \<Rightarrow> rat option" where
  "account_cooldown_until account now hs = (case account_health hs account of None \<Rightarrow> None | Some h \<Rightarrow> live_value now (hl_until h))"

definition quota_health_snapshot ::
    "string \<Rightarrow> quota_scope option \<Rightarrow> rat \<Rightarrow> health_store \<Rightarrow> (rat \<times> cooldown_source option \<times> quota_scope option) option" where
  "quota_health_snapshot account scope now hs = (case account_cooldown_until account now hs of
     Some u \<Rightarrow> Some (u, (case account_health hs account of None \<Rightarrow> None | Some h \<Rightarrow> hl_source h), None)
   | None \<Rightarrow> (case scope of
        None \<Rightarrow> None
      | Some s \<Rightarrow> (case scoped_health hs account s of
           None \<Rightarrow> None
         | Some h \<Rightarrow> (case live_value now (hl_until h) of None \<Rightarrow> None | Some u \<Rightarrow> Some (u, hl_source h, Some s)))))"

definition soft_avoid_until :: "string \<Rightarrow> rat \<Rightarrow> health_store \<Rightarrow> rat option" where
  "soft_avoid_until account now hs = (case account_health hs account of None \<Rightarrow> None | Some h \<Rightarrow> live_value now (hl_soft_until h))"

text \<open>The operator lifts a cooldown; failure history stays.\<close>

definition lift_cooldown :: "rat \<Rightarrow> health \<Rightarrow> health option" where
  "lift_cooldown now h =
     (if live_value now (hl_until h) = None \<and> live_value now (hl_avoid_until h) = None then None
      else Some (h\<lparr>hl_until := None, hl_since := None, hl_source := None, hl_lease := None, hl_lease_generation := None,
        hl_avoid_until := None, hl_generation := Some (nullish (hl_generation h) 0 + 1), hl_last_probe := Some now\<rparr>))"

definition clear_account_cooldown :: "string \<Rightarrow> rat \<Rightarrow> health_store \<Rightarrow> bool \<times> health_store" where
  "clear_account_cooldown account now hs =
     (let first = (case account_health hs account of None \<Rightarrow> None | Some h \<Rightarrow> lift_cooldown now h);
          hs1 = (case first of None \<Rightarrow> hs | Some h \<Rightarrow> set_account_health account h hs);
          scopes = nullish (map_of (hs_scoped hs) account) [];
          hs2 = fold (\<lambda>(s, h) st. case lift_cooldown now h of None \<Rightarrow> st | Some h' \<Rightarrow> set_scoped_health account s h' st) scopes hs1
      in (first \<noteq> None \<or> list_ex (\<lambda>(s, h). lift_cooldown now h \<noteq> None) scopes, hs2))"

definition carries_quota_refusal :: "health option \<Rightarrow> bool" where
  "carries_quota_refusal h = (case h of None \<Rightarrow> False
   | Some x \<Rightarrow> hl_last_status x = Some (Fin 429) \<or> hl_last_status x = Some (Fin 402))"

definition has_unrecovered_quota_refusal :: "string \<Rightarrow> quota_scope option \<Rightarrow> health_store \<Rightarrow> bool" where
  "has_unrecovered_quota_refusal account scope hs \<longleftrightarrow> carries_quota_refusal (account_health hs account)
     \<or> (case scope of None \<Rightarrow> False | Some s \<Rightarrow> carries_quota_refusal (scoped_health hs account s))"

definition is_account_admissible :: "string \<Rightarrow> nat \<Rightarrow> health_store \<Rightarrow> bool" where
  "is_account_admissible account writer hs \<longleftrightarrow> writer \<ge> hs_reconciled hs \<or> account \<in> set (hs_live hs)"

definition reconcile_routing_health :: "nat \<Rightarrow> string list \<Rightarrow> health_store \<Rightarrow> nat \<times> health_store" where
  "reconcile_routing_health generation accounts hs =
     (if generation \<le> hs_reconciled hs then (0, hs)
      else (length (filter (\<lambda>(a, _). a \<notin> set accounts) (hs_accounts hs)) + length (filter (\<lambda>(a, _). a \<notin> set accounts) (hs_scoped hs)),
        \<lparr>hs_accounts = filter (\<lambda>(a, _). a \<in> set accounts) (hs_accounts hs),
         hs_scoped = filter (\<lambda>(a, _). a \<in> set accounts) (hs_scoped hs), hs_reconciled = generation, hs_live = accounts\<rparr>))"

end
