(* ===== verification/Codex_Probe.thy ===== *)
theory Codex_Probe
  imports Codex_Health
begin

text \<open>
  Leases of quota probes (\<open>codex/routing/probe-lease.ts\<close>): a cooled account sends nothing, so one request
  an interval is let through to find out whether its quota came back. Lease ids are the random ids of the code.
\<close>

section \<open>One lease\<close>

definition quota_probe_interval_ms :: rat where
  "quota_probe_interval_ms = 5 * 60000"

definition can_acquire_quota_probe_lease :: "health option \<Rightarrow> rat \<Rightarrow> bool" where
  "can_acquire_quota_probe_lease health now = (case health of
     None \<Rightarrow> False
   | Some h \<Rightarrow> (case live_value now (hl_until h) of
        None \<Rightarrow> False
      | Some until \<Rightarrow> hl_source h \<noteq> Some FromRetryAfter \<and> hl_lease h = None
          \<and> now - nullish (hl_last_probe h) (nullish (hl_since h) until) \<ge> quota_probe_interval_ms))"

definition with_lease :: "nat \<Rightarrow> rat \<Rightarrow> health \<Rightarrow> health" where
  "with_lease i now h = h\<lparr>hl_lease := Some i, hl_lease_generation := Some (nullish (hl_generation h) 0), hl_last_probe := Some now\<rparr>"

definition with_lease_released :: "rat \<Rightarrow> health \<Rightarrow> health" where
  "with_lease_released now h = h\<lparr>hl_lease := None, hl_lease_generation := None, hl_last_probe := Some now\<rparr>"

definition try_acquire_probe_lease :: "nat \<Rightarrow> string \<Rightarrow> quota_scope option \<Rightarrow> rat \<Rightarrow> health_store \<Rightarrow> nat option \<times> health_store" where
  "try_acquire_probe_lease i account lane now hs =
     (if \<not> can_acquire_quota_probe_lease (lane_health hs account lane) now then (None, hs)
      else (case lane_health hs account lane of
          None \<Rightarrow> (None, hs)
        | Some h \<Rightarrow> (Some i, set_lane_health account lane (with_lease i now h) hs)))"

definition release_probe_lease :: "nat \<Rightarrow> string \<Rightarrow> quota_scope option \<Rightarrow> rat \<Rightarrow> health_store \<Rightarrow> health_store" where
  "release_probe_lease i account lane now hs = (case lane_health hs account lane of
     None \<Rightarrow> hs
   | Some h \<Rightarrow> if hl_lease h \<noteq> Some i then hs else set_lane_health account lane (with_lease_released now h) hs)"

definition owns_lease :: "health option \<Rightarrow> nat option \<Rightarrow> bool" where
  "owns_lease health i \<longleftrightarrow> i \<noteq> None \<and> (case health of None \<Rightarrow> False | Some h \<Rightarrow> i = hl_lease h)"

definition probe_may_clear :: "health option \<Rightarrow> nat option \<Rightarrow> bool" where
  "probe_may_clear health i \<longleftrightarrow> owns_lease health i
     \<and> (case health of None \<Rightarrow> False | Some h \<Rightarrow> nullish (hl_lease_generation h) 0 = nullish (hl_generation h) 0)"


section \<open>Background claims\<close>

record claim =
  cl_account :: string
  cl_lane :: "quota_scope option"
  cl_lease :: nat
  cl_cooldown_generation :: nat

record pool_claim = claim +
  cl_credential_generation :: nat
  cl_replaced_at :: "millis option"

definition probe_age :: "health \<Rightarrow> rat" where
  "probe_age h = nullish (hl_last_probe h) (nullish (hl_since h) 0)"

text \<open>The due lanes of an account, oldest first: the account itself and its shared scope.\<close>

definition due_lanes :: "string \<Rightarrow> rat \<Rightarrow> health_store \<Rightarrow> (quota_scope option \<times> health) list" where
  "due_lanes account now hs =
     sort_key (\<lambda>(_, h). probe_age h)
       (filter (\<lambda>(lane, h). (lane = None \<or> lane = Some SharedScope) \<and> hl_source h = Some ResetDerived
            \<and> can_acquire_quota_probe_lease (Some h) now)
         ((case account_health hs account of None \<Rightarrow> [] | Some h \<Rightarrow> [(None, h)])
          @ map (\<lambda>(s, h). (Some s, h)) (nullish (map_of (hs_scoped hs) account) [])))"

definition candidate_of :: "(string, account_record) jsmap \<Rightarrow> (string \<Rightarrow> bool) \<Rightarrow> rat \<Rightarrow> health_store \<Rightarrow> string
    \<Rightarrow> (string \<times> quota_scope option \<times> health \<times> account_record) option" where
  "candidate_of records eligible now hs account =
     (if \<not> eligible account then None
      else (case map_of records account of
          None \<Rightarrow> None
        | Some r \<Rightarrow> if \<not> ar_credential r \<or> ar_deleted r then None
            else (case due_lanes account now hs of [] \<Rightarrow> None | (lane, h) # _ \<Rightarrow> Some (account, lane, h, r))))"

text \<open>\<open>eligible\<close>: selectable, not paused and not waiting for a new login; \<open>accounts\<close>: the configured ones in order.\<close>

definition claim_due_probes ::
    "(string, account_record) jsmap \<Rightarrow> (string \<Rightarrow> bool) \<Rightarrow> (nat \<Rightarrow> nat) \<Rightarrow> string list \<Rightarrow> int \<Rightarrow> rat
      \<Rightarrow> health_store \<Rightarrow> pool_claim list \<times> health_store" where
  "claim_due_probes records eligible ids accounts limit now hs =
     (let chosen = take (nat (max 0 limit)) (sort_key (\<lambda>(_, _, h, _). probe_age h)
            (List.map_filter (candidate_of records eligible now hs) accounts));
          claims = map (\<lambda>(i, (account, lane, h, r)).
            \<lparr>cl_account = account, cl_lane = lane, cl_lease = ids i, cl_cooldown_generation = nullish (hl_generation h) 0,
             cl_credential_generation = ar_generation r, cl_replaced_at = ar_replaced_at r\<rparr>) (enumerate 0 chosen)
      in (claims, fold (\<lambda>(i, (account, lane, h, r)) st. set_lane_health account lane (with_lease (ids i) now h) st)
           (enumerate 0 chosen) hs))"

definition settle_recovery_lease :: "'a claim_scheme \<Rightarrow> bool \<Rightarrow> rat \<Rightarrow> health_store \<Rightarrow> bool \<times> health_store" where
  "settle_recovery_lease c recovered now hs = (case lane_health hs (cl_account c) (cl_lane c) of
     None \<Rightarrow> (False, hs)
   | Some h \<Rightarrow>
       if hl_lease h \<noteq> Some (cl_lease c) then (False, hs)
       else (let fenced = (cl_lane c = None \<or> cl_lane c = Some SharedScope) \<and> hl_source h = Some ResetDerived
               \<and> nullish (hl_generation h) 0 = cl_cooldown_generation c
               \<and> nullish (hl_lease_generation h) 0 = cl_cooldown_generation c
         in if \<not> recovered \<or> \<not> fenced
            then (False, set_lane_health (cl_account c) (cl_lane c) (with_lease_released now h) hs)
            else (case cl_lane c of
                Some s \<Rightarrow> (True, delete_scoped_health (cl_account c) s hs)
              | None \<Rightarrow> (True, set_account_health (cl_account c)
                  (h\<lparr>hl_until := None, hl_since := None, hl_source := None, hl_lease := None, hl_lease_generation := None,
                     hl_avoid_until := None, hl_generation := Some (cl_cooldown_generation c + 1), hl_last_probe := Some now\<rparr>) hs))))"

definition settle_quota_recovery_probe ::
    "(string, account_record) jsmap \<Rightarrow> pool_claim \<Rightarrow> bool \<Rightarrow> nat option \<Rightarrow> rat \<Rightarrow> health_store \<Rightarrow> bool \<times> health_store" where
  "settle_quota_recovery_probe records c recovered proof now hs = (case lane_health hs (cl_account c) (cl_lane c) of
     None \<Rightarrow> (False, hs)
   | Some h \<Rightarrow>
       if hl_lease h \<noteq> Some (cl_lease c) then (False, hs)
       else (let live = credential_live records (cl_account c);
                 replaced = (case map_of records (cl_account c) of None \<Rightarrow> None | Some r \<Rightarrow> ar_replaced_at r);
                 fenced = (case proof of None \<Rightarrow> False
                   | Some g \<Rightarrow> if g = cl_credential_generation c then live g
                       else g = cl_credential_generation c + 1 \<and> replaced = cl_replaced_at c \<and> live g)
         in settle_recovery_lease c (recovered \<and> fenced) now hs))"


section \<open>Manual resets\<close>

datatype manual_claim = PoolReset pool_claim | MainReset claim

definition resettable :: "rat \<Rightarrow> health \<Rightarrow> bool" where
  "resettable now h \<longleftrightarrow> hl_source h = Some ResetDerived \<and> hl_lease h = None \<and> live_value now (hl_until h) \<noteq> None"

definition claim_lane ::
    "(string, account_record) jsmap \<Rightarrow> bool \<Rightarrow> nat \<Rightarrow> string \<Rightarrow> rat \<Rightarrow> quota_scope option \<Rightarrow> health_store \<Rightarrow> manual_claim list \<times> health_store" where
  "claim_lane records main i account now lane hs = (case lane_health hs account lane of
     None \<Rightarrow> ([], hs)
   | Some h \<Rightarrow> if \<not> resettable now h then ([], hs)
       else (let c = \<lparr>cl_account = account, cl_lane = lane, cl_lease = i, cl_cooldown_generation = nullish (hl_generation h) 0\<rparr>
         in ([case (if main then None else map_of records account) of
               None \<Rightarrow> MainReset c
             | Some r \<Rightarrow> PoolReset (claim.extend c \<lparr>cl_credential_generation = ar_generation r, cl_replaced_at = ar_replaced_at r\<rparr>)],
             set_lane_health account lane (with_lease i now h) hs)))"

definition claim_manual_reset ::
    "(string, account_record) jsmap \<Rightarrow> (string \<Rightarrow> bool) \<Rightarrow> string \<Rightarrow> (nat \<Rightarrow> nat) \<Rightarrow> string \<Rightarrow> rat \<Rightarrow> nat option
      \<Rightarrow> health_store \<Rightarrow> manual_claim list \<times> health_store" where
  "claim_manual_reset records eligible main_id ids account now expected hs =
     (let main = (account = main_id);
          known = (case map_of records account of
              None \<Rightarrow> False
            | Some r \<Rightarrow> ar_credential r \<and> \<not> ar_deleted r
                \<and> (case expected of None \<Rightarrow> True | Some g \<Rightarrow> ar_generation r = g))
      in if \<not> eligible account then ([], hs)
         else if \<not> main \<and> \<not> known then ([], hs)
         else (case claim_lane records main (ids 0) account now None hs of
             (c1, hs1) \<Rightarrow> (case claim_lane records main (ids 1) account now (Some SharedScope) hs1 of
               (c2, hs2) \<Rightarrow> (c1 @ c2, hs2))))"

datatype refresh_provenance = SelfRefresh | JoinedLineage | ExternalReplacement

definition settle_manual_reset ::
    "(string, account_record) jsmap \<Rightarrow> (string \<Rightarrow> bool) \<Rightarrow> manual_claim \<Rightarrow> bool \<Rightarrow> nat option
      \<Rightarrow> (nat \<times> nat \<times> refresh_provenance) option \<Rightarrow> rat \<Rightarrow> health_store \<Rightarrow> bool \<times> health_store" where
  "settle_manual_reset records eligible mc recovered proof lineage now hs = (case mc of
     MainReset c \<Rightarrow> settle_recovery_lease c (recovered \<and> eligible (cl_account c)) now hs
   | PoolReset c \<Rightarrow>
       if \<not> recovered then settle_recovery_lease c False now hs
       else (let g0 = cl_credential_generation c;
                 owned = (case proof of None \<Rightarrow> False
                   | Some g \<Rightarrow> g = g0 \<or> g = g0 + 1 \<and> (case lineage of None \<Rightarrow> False
                       | Some (from_gen, to_gen, p) \<Rightarrow> from_gen = g0 \<and> to_gen = g \<and> (p = SelfRefresh \<or> p = JoinedLineage)))
         in settle_quota_recovery_probe records c (eligible (cl_account c) \<and> owned) proof now hs))"

end
