(* ===== verification/Codex_Outcome.thy ===== *)
theory Codex_Outcome
  imports Codex_Probe
begin

text \<open>
  What an upstream outcome changes of the health of the account that served it
  (\<open>recordCodexUpstreamOutcome\<close> of \<open>codex/routing.ts\<close>, \<open>classifyCodexUpstreamOutcome\<close> of
  \<open>codex/routing/cooldown-math.ts\<close>, \<open>settleCodexSuccessStreak\<close> of \<open>codex/routing/failure-window.ts\<close>).
\<close>

section \<open>Classes of outcomes\<close>

datatype upstream_outcome = Status jsnum | ConnectError | Timeout | ConnectNeutral

datatype outcome_class = Success | Credential | Workspace | QuotaRefusal | Transient | Caller | Neutral | Unknown

datatype denial = WorkspaceDenial | EntitlementDenial

definition classify_outcome :: "upstream_outcome \<Rightarrow> denial option \<Rightarrow> outcome_class" where
  "classify_outcome out denial = (case out of
     ConnectNeutral \<Rightarrow> Neutral
   | ConnectError \<Rightarrow> Transient
   | Timeout \<Rightarrow> Transient
   | Status n \<Rightarrow> (case n of
        Fin q \<Rightarrow>
          if 200 \<le> q \<and> q < 300 then Success
          else if 300 \<le> q \<and> q < 400 then Neutral
          else if q = 403 \<and> denial \<noteq> None then Workspace
          else if q = 401 \<or> q = 403 then Credential
          else if q = 429 \<or> q = 402 then QuotaRefusal
          else if 400 \<le> q \<and> q < 500 then Caller
          else if 500 \<le> q \<and> q < 600 then Transient
          else Unknown
      | _ \<Rightarrow> Unknown))"


section \<open>What comes with an outcome\<close>

record outcome_meta =
  om_retry_after :: "string option"
  om_reset_at :: "json option"
  om_now :: rat
  om_host :: "string option"
  om_denial :: "denial option"
  om_model :: "string option"
  om_thread :: "string option"
  om_fixed :: bool
  om_lease :: "nat option"
  om_lease_scope :: "quota_scope option"
  om_promote :: "string option"
  om_writer :: "nat option"
  om_credential :: "nat option"

text \<open>
  What the code asks of the rest: the account records, the two readers of text of the language, the
  generation of the configuration, the failover threshold, the active account, the alternate the selection
  would pick, and whether the hold of a thread on an account has lasted too long.
\<close>

record routing_env =
  en_records :: "(string, account_record) jsmap"
  en_date :: "string \<Rightarrow> rat option"
  en_number :: "string \<Rightarrow> jsnum"
  en_generation :: nat
  en_threshold :: int
  en_active :: "string option"
  en_alternate :: "quota_scope option \<Rightarrow> string option"
  en_hold_spent :: "string \<Rightarrow> bool"

datatype effect =
    HostFailure string
  | SettleTransientProbe outcome_class
  | WindowSample bool
  | ConsumePreference string
  | MarkReauth nat "nat option"
  | ClearThreads
  | RotationFailure
  | PromoteActive string
  | DropThreadPin string
  | FailoverActive "quota_scope option"


section \<open>Parts\<close>

definition is_retired_spark :: "string option \<Rightarrow> bool" where
  "is_retired_spark model = (case model of None \<Rightarrow> False
   | Some m \<Rightarrow> rev (takeWhile (\<lambda>c. c \<noteq> CHR ''/'') (rev (to_lower (js_trim m)))) = ''gpt-5.3-codex-spark'')"

definition cooldown_of :: "routing_env \<Rightarrow> outcome_meta \<Rightarrow> rat \<times> cooldown_source" where
  "cooldown_of env om = compute_quota_cooldown (en_date env) (en_number env) (om_retry_after om) (om_reset_at om) (om_now om)"

text \<open>A concluded probe hands its lease back; any other request leaves the lane alone.\<close>

definition conclude_lane :: "string \<Rightarrow> quota_scope option \<Rightarrow> nat option \<Rightarrow> rat \<Rightarrow> health_store \<Rightarrow> health_store" where
  "conclude_lane account lane lease now hs = (case lane_health hs account lane of
     None \<Rightarrow> hs
   | Some h \<Rightarrow> if owns_lease (Some h) lease then set_lane_health account lane (with_lease_released now h) hs else hs)"

definition conclude_scoped_probe :: "string \<Rightarrow> outcome_meta \<Rightarrow> health_store \<Rightarrow> health_store" where
  "conclude_scoped_probe account om hs = (case om_lease_scope om of
     None \<Rightarrow> hs | Some s \<Rightarrow> conclude_lane account (Some s) (om_lease om) (om_now om) hs)"

definition settle_scoped_success :: "string \<Rightarrow> outcome_meta \<Rightarrow> health_store \<Rightarrow> health_store" where
  "settle_scoped_success account om hs = (case om_lease_scope om of
     None \<Rightarrow> hs
   | Some s \<Rightarrow> (case scoped_health hs account s of
        None \<Rightarrow> hs
      | Some h \<Rightarrow>
          if (case hl_until h of None \<Rightarrow> False | Some u \<Rightarrow> u \<noteq> 0) \<and> probe_may_clear (Some h) (om_lease om)
          then delete_scoped_health account s hs
          else conclude_lane account (Some s) (om_lease om) (om_now om) hs))"

definition only_failures :: "health \<Rightarrow> bool" where
  "only_failures h \<longleftrightarrow> hl_successes h = None \<and> hl_last_status h = None \<and> hl_last_failure h = None \<and> hl_until h = None
     \<and> hl_avoid_until h = None \<and> hl_since h = None \<and> hl_source h = None \<and> hl_generation h = None \<and> hl_lease h = None
     \<and> hl_lease_generation h = None \<and> hl_last_probe h = None \<and> hl_soft_until h = None \<and> hl_credential_generation h = None"

definition forget_refusal :: "string \<Rightarrow> quota_scope option \<Rightarrow> health_store \<Rightarrow> health_store" where
  "forget_refusal account scope hs = (case scope of
     None \<Rightarrow> hs
   | Some s \<Rightarrow> (case scoped_health hs account s of
        None \<Rightarrow> hs
      | Some h \<Rightarrow> if \<not> carries_quota_refusal (Some h) then hs
          else (let retained = h\<lparr>hl_last_status := None, hl_last_failure := None, hl_avoid_until := None\<rparr>
            in if \<not> only_failures retained then set_scoped_health account s retained hs
               else delete_scoped_health account s hs)))"

definition settle_success_streak ::
    "int \<Rightarrow> string \<Rightarrow> health option \<Rightarrow> health option \<Rightarrow> health \<Rightarrow> rat option \<Rightarrow> health_store \<Rightarrow> health_store" where
  "settle_success_streak threshold account current base preserved cooldown_until hs =
     (let settled = (if cooldown_until \<noteq> None then set_account_health account (preserved\<lparr>hl_failures := 0\<rparr>) hs
            else delete_account_health account hs)
      in case (current, base) of
           (Some c, Some b) \<Rightarrow>
             if threshold > 0 \<and> hl_failures c \<ge> 2 \<and> nullish (hl_successes c) 0 + 1 < 2
             then set_account_health account (b\<lparr>hl_successes := Some (nullish (hl_successes c) 0 + 1)\<rparr>) hs
             else settled
         | _ \<Rightarrow> settled)"

definition record_account_success :: "routing_env \<Rightarrow> string \<Rightarrow> outcome_meta \<Rightarrow> health_store \<Rightarrow> effect list \<times> health_store" where
  "record_account_success env account om hs =
     (let scope = quota_scope_for_model (om_model om); now = om_now om;
          hs1 = forget_refusal account scope (settle_scoped_success account om hs);
          current = account_health hs1 account; until = account_cooldown_until account now hs1;
          base = (case current of None \<Rightarrow> None
            | Some c \<Rightarrow> Some (if owns_lease current (om_lease om) then with_lease_released now c else c))
      in ([WindowSample False, ConsumePreference (pool_key_for_scope scope)],
          if until \<noteq> None \<and> probe_may_clear current (om_lease om) then delete_account_health account hs1
          else settle_success_streak (en_threshold env) account current base (preserved_cooldown_fields base) until hs1))"

definition record_concluded :: "string \<Rightarrow> outcome_meta \<Rightarrow> health_store \<Rightarrow> health_store" where
  "record_concluded account om hs =
     conclude_lane account None (om_lease om) (om_now om) (conclude_scoped_probe account om hs)"

definition status_of :: "upstream_outcome \<Rightarrow> jsnum" where
  "status_of out = (case out of Status n \<Rightarrow> n | _ \<Rightarrow> Fin 0)"

definition record_workspace :: "string \<Rightarrow> jsnum \<Rightarrow> rat \<Rightarrow> health_store \<Rightarrow> health_store" where
  "record_workspace account status now hs =
     set_account_health account
       (healthy\<lparr>hl_failures := (case account_health hs account of None \<Rightarrow> 0 | Some h \<Rightarrow> hl_failures h) + 1,
          hl_last_status := Some status, hl_last_failure := Some now\<rparr>) hs"

definition record_credential ::
    "routing_env \<Rightarrow> string \<Rightarrow> jsnum \<Rightarrow> nat \<Rightarrow> outcome_meta \<Rightarrow> health_store \<Rightarrow> effect list \<times> health_store" where
  "record_credential env account status writer om hs =
     (if (case om_credential om of None \<Rightarrow> False | Some g \<Rightarrow> \<not> credential_live (en_records env) account g) then ([], hs)
      else ([MarkReauth writer (om_credential om), ClearThreads],
        delete_all_scoped_health account (set_account_health account
          (healthy\<lparr>hl_failures := 1, hl_last_status := Some status, hl_last_failure := Some (om_now om),
             hl_credential_generation := om_credential om\<rparr>) hs)))"

text \<open>The entry a refusal writes: the cooldown of a new generation, with the lease of another request kept.\<close>

definition cooled_health :: "routing_env \<Rightarrow> jsnum \<Rightarrow> outcome_meta \<Rightarrow> bool \<Rightarrow> health option \<Rightarrow> health" where
  "cooled_health env status om owned prior =
     (let now = om_now om; until = fst (cooldown_of env om); old = nullish prior healthy
      in healthy\<lparr>hl_last_status := Some status, hl_last_failure := Some now, hl_until := Some until,
           hl_avoid_until := Some (quota_avoid_until_for (en_number env) (om_reset_at om) now until),
           hl_since := Some now, hl_source := Some (snd (cooldown_of env om)),
           hl_generation := Some (nullish (hl_generation old) 0 + 1),
           hl_lease := (if owned then None else hl_lease old),
           hl_lease_generation := (if owned then None else hl_lease_generation old),
           hl_last_probe := (if owned then Some now else hl_last_probe old)\<rparr>)"

definition rotate_away :: "routing_env \<Rightarrow> string \<Rightarrow> quota_scope option \<Rightarrow> outcome_meta \<Rightarrow> effect list" where
  "rotate_away env account scope om =
     RotationFailure # (if en_active env \<noteq> Some account then []
       else (let reused = (case om_promote om of None \<Rightarrow> None
                 | Some a \<Rightarrow> if a \<noteq> [] \<and> a \<noteq> account then Some a else None);
                 fallback = (case reused of Some a \<Rightarrow> Some a | None \<Rightarrow> en_alternate env scope)
         in case fallback of None \<Rightarrow> [] | Some a \<Rightarrow> if a = [] then [] else [PromoteActive a]))"

definition record_quota ::
    "routing_env \<Rightarrow> string \<Rightarrow> jsnum \<Rightarrow> outcome_meta \<Rightarrow> health_store \<Rightarrow> effect list \<times> health_store" where
  "record_quota env account status om hs =
     (let scope = quota_scope_for_model (om_model om)
      in case (if snd (cooldown_of env om) = ResetDerived then scope else None) of
           Some s \<Rightarrow>
             (let prior = scoped_health hs account s;
                  owned = om_lease_scope om = Some s \<and> owns_lease prior (om_lease om)
              in (if s = SharedScope \<and> \<not> om_fixed om then ClearThreads # rotate_away env account scope om else [],
                  set_scoped_health account s (cooled_health env status om owned prior) hs))
         | None \<Rightarrow>
             (let hs1 = conclude_scoped_probe account om hs; prior = account_health hs1 account
              in (if om_fixed om then []
                  else ClearThreads # (if is_independent scope then [] else rotate_away env account scope om),
                  set_account_health account (cooled_health env status om (owns_lease prior (om_lease om)) prior) hs1)))"

definition soft_avoid_escalation :: "rat list" where
  "soft_avoid_escalation = [30000, 2 * 60000, 10 * 60000, 30 * 60000]"

definition escalation_ms :: "int \<Rightarrow> nat \<Rightarrow> rat" where
  "escalation_ms threshold failures = soft_avoid_escalation ! nat (min (max (int failures - threshold) 0) 3)"

definition next_failures :: "rat \<Rightarrow> health option \<Rightarrow> nat" where
  "next_failures now current =
     (let stale = (case current of None \<Rightarrow> False
        | Some h \<Rightarrow> (case hl_last_failure h of None \<Rightarrow> False | Some t \<Rightarrow> t \<noteq> 0 \<and> now - t > 5 * 60000))
      in if stale then 1 else (case current of None \<Rightarrow> 0 | Some h \<Rightarrow> hl_failures h) + 1)"

definition record_transient ::
    "routing_env \<Rightarrow> string \<Rightarrow> jsnum \<Rightarrow> outcome_meta \<Rightarrow> health_store \<Rightarrow> effect list \<times> health_store" where
  "record_transient env account status om hs =
     (let now = om_now om; scope = quota_scope_for_model (om_model om); threshold = en_threshold env;
          current = account_health hs account;
          hs1 = conclude_scoped_probe account om hs;
          base = (case current of None \<Rightarrow> None
            | Some c \<Rightarrow> Some (if owns_lease current (om_lease om) then with_lease_released now c else c));
          failures = next_failures now current;
          ready = (threshold > 0 \<and> int failures \<ge> threshold);
          soft = (if ready then Some (max (nullish (soft_avoid_until account now hs1) 0) (now + escalation_ms threshold failures)) else None);
          preserved = preserved_cooldown_fields base
      in (WindowSample True
          # (case om_thread om of None \<Rightarrow> []
             | Some t \<Rightarrow> if \<not> om_fixed om \<and> ready \<and> t \<noteq> [] \<and> en_hold_spent env t then [DropThreadPin t] else [])
          @ (if \<not> om_fixed om \<and> \<not> is_independent scope \<and> en_active env = Some account then [FailoverActive scope] else []),
          set_account_health account
            (preserved\<lparr>hl_failures := failures, hl_last_status := Some status, hl_last_failure := Some now,
               hl_until := (case account_cooldown_until account now hs1 of Some u \<Rightarrow> Some u | None \<Rightarrow> hl_until preserved),
               hl_soft_until := soft\<rparr>) hs1))"


section \<open>The whole handler\<close>

definition record_upstream_outcome ::
    "routing_env \<Rightarrow> string option \<Rightarrow> upstream_outcome \<Rightarrow> outcome_meta \<Rightarrow> health_store \<Rightarrow> effect list \<times> health_store" where
  "record_upstream_outcome env account out om hs =
     (let host = (if out = ConnectNeutral then (case om_host om of None \<Rightarrow> [] | Some k \<Rightarrow> if k = [] then [] else [HostFailure k]) else []);
          class = classify_outcome out (om_denial om)
      in case account of
           None \<Rightarrow> (host, hs)
         | Some a \<Rightarrow>
             if a = [] then (host, hs)
             else (let before = host @ [SettleTransientProbe class]; writer = nullish (om_writer om) (en_generation env)
               in if \<not> is_account_admissible a writer hs then (before, hs)
                  else if class = QuotaRefusal \<and> is_retired_spark (om_model om) \<and> snd (cooldown_of env om) = ResetDerived
                  then (before, hs)
                  else (let hs0 = drop_spent_credential_failure (en_records env) a hs; status = status_of out;
                            after = (case class of
                                Success \<Rightarrow> record_account_success env a om hs0
                              | Caller \<Rightarrow> ([], record_concluded a om hs0)
                              | Neutral \<Rightarrow> ([], record_concluded a om hs0)
                              | Workspace \<Rightarrow> ([], record_workspace a status (om_now om) hs0)
                              | Credential \<Rightarrow> record_credential env a status writer om hs0
                              | QuotaRefusal \<Rightarrow> record_quota env a status om hs0
                              | _ \<Rightarrow> record_transient env a status om hs0)
                    in (before @ fst after, snd after))))"

end
