(* ===== verification/Codex_Health_Runs.thy ===== *)
theory Codex_Health_Runs
  imports Codex_Outcome
begin

text \<open>
  Every history of the health store: outcomes, probe leases and their conclusions, claims, lifts,
  reconciliations and deletions in any order, on a clock that never goes back. Ghosts remember for each
  lease id the lane and the number of refusals it was granted under, for each lane its refusals and its
  last grant.
\<close>

section \<open>Lanes\<close>

lemma lane_set [simp]:
  "lane_health (set_lane_health a l h hs) a' l' = (if a = a' \<and> l = l' then Some h else lane_health hs a' l')"
  by (auto simp: lane_health_def set_lane_health_def account_health_def scoped_health_def set_account_health_def
      set_scoped_health_def split: option.split)

lemma lane_simps:
  "account_health hs a = lane_health hs a None" "scoped_health hs a s = lane_health hs a (Some s)"
  "set_account_health a h hs = set_lane_health a None h hs" "set_scoped_health a s h hs = set_lane_health a (Some s) h hs"
  by (simp_all add: lane_health_def set_lane_health_def)

lemma lane_delete [simp]:
  "lane_health (delete_account_health a hs) a' l' = (if a = a' \<and> l' = None then None else lane_health hs a' l')"
  "lane_health (delete_all_scoped_health a hs) a' l' = (if a = a' \<and> l' \<noteq> None then None else lane_health hs a' l')"
  by (auto simp: lane_health_def account_health_def scoped_health_def delete_account_health_def delete_all_scoped_health_def
      split: option.split)

lemma lane_delete_scoped [simp]:
  "lane_health (delete_scoped_health a s hs) a' l' = (if a = a' \<and> l' = Some s then None else lane_health hs a' l')"
proof (cases "map_of (hs_scoped hs) a")
  case None
  then show ?thesis by (auto simp: delete_scoped_health_def lane_health_def scoped_health_def split: option.split)
next
  case (Some m)
  have "map_of m x = None" if "AList.delete s m = []" "x \<noteq> s" for x
    using arg_cong [OF that(1), of "\<lambda>m. map_of m x"] that(2) by simp
  then show ?thesis using Some
    by (auto simp: delete_scoped_health_def lane_health_def scoped_health_def account_health_def Let_def split: option.split)
qed

lemma lane_reconciled: "lane_health (snd (reconcile_routing_health g accounts hs)) a l = Some h \<Longrightarrow> lane_health hs a l = Some h"
  by (auto simp: reconcile_routing_health_def lane_health_def account_health_def scoped_health_def map_of_filter_keys
      split: option.splits if_splits)


section \<open>The invariant\<close>

record ghost =
  gh_grants :: "nat \<Rightarrow> (string \<times> quota_scope option \<times> nat) option"
  gh_refusals :: "string \<Rightarrow> quota_scope option \<Rightarrow> nat"
  gh_last :: "string \<Rightarrow> quota_scope option \<Rightarrow> rat option"

definition no_ghost :: ghost where
  "no_ghost = \<lparr>gh_grants = (\<lambda>_. None), gh_refusals = (\<lambda>_ _. 0), gh_last = (\<lambda>_ _. None)\<rparr>"

definition granted :: "nat \<Rightarrow> string \<Rightarrow> quota_scope option \<Rightarrow> rat \<Rightarrow> ghost \<Rightarrow> ghost" where
  "granted i a l now gh = gh\<lparr>gh_grants := (gh_grants gh)(i := Some (a, l, gh_refusals gh a l)),
     gh_last := (gh_last gh)(a := (gh_last gh a)(l := Some now))\<rparr>"

definition lane_refused :: "string \<Rightarrow> quota_scope option \<Rightarrow> ghost \<Rightarrow> ghost" where
  "lane_refused a l gh = gh\<lparr>gh_refusals := (gh_refusals gh)(a := (gh_refusals gh a)(l := gh_refusals gh a l + 1))\<rparr>"

definition lease_ok :: "ghost \<Rightarrow> string \<Rightarrow> quota_scope option \<Rightarrow> health \<Rightarrow> bool" where
  "lease_ok gh a l h \<longleftrightarrow> (\<forall>i. hl_lease h = Some i \<longrightarrow> (\<exists>e g. gh_grants gh i = Some (a, l, e) \<and> hl_lease_generation h = Some g
     \<and> e \<le> gh_refusals gh a l \<and> nullish (hl_generation h) 0 = g + (gh_refusals gh a l - e)))"

definition paced_ok :: "ghost \<Rightarrow> string \<Rightarrow> quota_scope option \<Rightarrow> health \<Rightarrow> bool" where
  "paced_ok gh a l h \<longleftrightarrow> (hl_until h \<noteq> None \<longrightarrow> hl_since h \<noteq> None \<and> hl_credential_generation h = None)
     \<and> (\<forall>t p. gh_last gh a l = Some t \<and> hl_last_probe h = Some p \<longrightarrow> t \<le> p)
     \<and> (\<forall>t s. gh_last gh a l = Some t \<and> hl_last_probe h = None \<and> hl_since h = Some s \<longrightarrow> t \<le> s)"

definition holds_ok :: "rat \<Rightarrow> health \<Rightarrow> bool" where
  "holds_ok clock h \<longleftrightarrow> (\<forall>u. hl_until h = Some u \<longrightarrow> u \<le> clock + 86400000)
     \<and> (\<forall>u. hl_avoid_until h = Some u \<longrightarrow> u \<le> clock + 86400000) \<and> (\<forall>u. hl_soft_until h = Some u \<longrightarrow> u \<le> clock + 1800000)"

definition lane_ok :: "rat \<Rightarrow> ghost \<Rightarrow> string \<Rightarrow> quota_scope option \<Rightarrow> health \<Rightarrow> bool" where
  "lane_ok clock gh a l h \<longleftrightarrow> lease_ok gh a l h \<and> paced_ok gh a l h \<and> holds_ok clock h"

text \<open>The scopes of an account are a map.\<close>

definition store_wf :: "health_store \<Rightarrow> bool" where
  "store_wf hs \<longleftrightarrow> (\<forall>a m. map_of (hs_scoped hs) a = Some m \<longrightarrow> jm_wf m)"

lemma store_wf_ops [simp]:
  "store_wf hs \<Longrightarrow> store_wf (set_lane_health a l h hs)" "store_wf hs \<Longrightarrow> store_wf (delete_account_health a hs)"
  "store_wf hs \<Longrightarrow> store_wf (delete_all_scoped_health a hs)" "store_wf hs \<Longrightarrow> store_wf (delete_scoped_health a s hs)"
  by (auto simp: store_wf_def set_lane_health_def set_account_health_def set_scoped_health_def delete_account_health_def
      delete_all_scoped_health_def delete_scoped_health_def Let_def split: option.splits if_splits)

lemma store_wf_reconciled: "store_wf hs \<Longrightarrow> store_wf (snd (reconcile_routing_health g accounts hs))"
  by (auto simp: store_wf_def reconcile_routing_health_def map_of_filter_keys split: if_splits)

definition run_inv :: "rat \<Rightarrow> ghost \<Rightarrow> health_store \<Rightarrow> bool" where
  "run_inv clock gh hs \<longleftrightarrow> store_wf hs \<and> 0 \<le> clock \<and> (\<forall>a l t. gh_last gh a l = Some t \<longrightarrow> t \<le> clock)
     \<and> (\<forall>a l h. lane_health hs a l = Some h \<longrightarrow> lane_ok clock gh a l h)"

lemma run_inv_later:
  assumes "run_inv clock gh hs" and "clock \<le> now"
  shows "run_inv now gh hs"
proof -
  have "holds_ok clock h \<Longrightarrow> holds_ok now h" for h using assms(2) by (fastforce simp: holds_ok_def)
  then show ?thesis using assms by (fastforce simp: run_inv_def lane_ok_def)
qed

lemma run_inv_set: "run_inv clock gh hs \<Longrightarrow> lane_ok clock gh a l h \<Longrightarrow> run_inv clock gh (set_lane_health a l h hs)"
  by (simp add: run_inv_def)

lemma run_inv_fewer:
  "run_inv clock gh hs \<Longrightarrow> (\<And>a l h. lane_health hs' a l = Some h \<Longrightarrow> lane_health hs a l = Some h)
    \<Longrightarrow> (store_wf hs \<Longrightarrow> store_wf hs') \<Longrightarrow> run_inv clock gh hs'"
  by (auto simp: run_inv_def)

lemma run_inv_lane: "run_inv clock gh hs \<Longrightarrow> lane_health hs a l = Some h \<Longrightarrow> lane_ok clock gh a l h"
  by (simp add: run_inv_def)

lemma lane_released:
  assumes "run_inv clock gh hs" and "lane_ok clock gh a l h"
  shows "lane_ok clock gh a l (with_lease_released clock h)"
  using assms by (auto simp: run_inv_def lane_ok_def lease_ok_def paced_ok_def holds_ok_def with_lease_released_def)

lemma lane_preserved: "lane_ok clock gh a l h \<Longrightarrow> lane_ok clock gh a l (preserved_cooldown_fields (Some h))"
  by (simp add: lane_ok_def lease_ok_def paced_ok_def holds_ok_def preserved_cooldown_fields_def)

lemma lane_healthy: "lane_ok clock gh a l (preserved_cooldown_fields None)"
  by (simp add: lane_ok_def lease_ok_def paced_ok_def holds_ok_def preserved_cooldown_fields_def healthy_def)

text \<open>Fields that carry no cooldown may be edited.\<close>

lemma lane_edits [simp]:
  "lane_ok clock gh a l (h\<lparr>hl_failures := n\<rparr>) = lane_ok clock gh a l h"
  "lane_ok clock gh a l (h\<lparr>hl_successes := x\<rparr>) = lane_ok clock gh a l h"
  "lane_ok clock gh a l (h\<lparr>hl_last_status := st\<rparr>) = lane_ok clock gh a l h"
  "lane_ok clock gh a l (h\<lparr>hl_last_failure := t\<rparr>) = lane_ok clock gh a l h"
  by (simp_all add: lane_ok_def lease_ok_def paced_ok_def holds_ok_def)

lemma lane_without_avoid: "lane_ok clock gh a l h \<Longrightarrow> lane_ok clock gh a l (h\<lparr>hl_avoid_until := None\<rparr>)"
  by (simp add: lane_ok_def lease_ok_def paced_ok_def holds_ok_def)

lemma run_inv_granted:
  assumes inv: "run_inv now gh hs" and fresh: "gh_grants gh i = None" and h: "holds_ok now h" "hl_until h \<noteq> None \<longrightarrow> hl_since h \<noteq> None \<and> hl_credential_generation h = None"
  shows "run_inv now (granted i a l now gh) (set_lane_health a l (with_lease i now h) hs)"
proof -
  have "lane_ok now (granted i a l now gh) a l (with_lease i now h)"
    using h by (simp add: lane_ok_def lease_ok_def paced_ok_def holds_ok_def with_lease_def granted_def)
  moreover have "lane_ok now (granted i a l now gh) a' l' h'"
    if "lane_health hs a' l' = Some h'" "a' = a \<longrightarrow> l' \<noteq> l" for a' l' h'
    using run_inv_lane [OF inv that(1)] that(2) fresh by (auto simp: lane_ok_def lease_ok_def paced_ok_def granted_def)
  ultimately show ?thesis using inv by (auto simp: run_inv_def granted_def)
qed


section \<open>Bounds of a refusal\<close>

lemma smallest_bound:
  assumes "smallest None (map (map_option f) xs) = Some r" and "\<And>d. f d \<le> (b :: rat)"
  shows "r \<le> b"
proof -
  have "Some r \<in> set (map (map_option f) xs)" using smallest_in [OF assms(1)] by simp
  then show ?thesis using assms(2) by (auto dest!: sym [of "Some r"])
qed

lemma avoid_bound:
  assumes "0 \<le> now" and "until \<le> now + 86400000"
  shows "quota_avoid_until_for read v now until \<le> now + 86400000"
proof -
  let ?s = "smallest None (map (map_option (\<lambda>d. now + min d codex_max_quota_avoid_ms)) (map (reset_delay read now) (reset_values v)))"
  have "nullish ?s 0 \<le> now + 86400000"
  proof (cases ?s)
    case (Some r)
    have "r \<le> now + codex_max_quota_avoid_ms" by (rule smallest_bound [OF Some]) simp
    then show ?thesis using Some by (simp add: codex_max_quota_avoid_ms_def)
  qed (use assms(1) in simp)
  then show ?thesis using assms(2) by (simp add: quota_avoid_until_for_def comp_def)
qed

lemma cooldown_bound: "fst (cooldown_of env om) \<le> om_now om + 86400000"
  using quota_cooldown_bounds [of "om_now om" "en_date env" "en_number env" "om_retry_after om" "om_reset_at om"]
  by (simp add: cooldown_of_def codex_max_quota_cooldown_ms_def)

text \<open>The refusal of a lane: its cooldown is new, the lease of another request survives it.\<close>

lemma run_inv_refused:
  assumes inv: "run_inv (om_now om) gh hs"
  shows "run_inv (om_now om) (lane_refused a l gh) (set_lane_health a l (cooled_health env status om owned (lane_health hs a l)) hs)"
proof -
  let ?h = "cooled_health env status om owned (lane_health hs a l)" and ?now = "om_now om"
  have now: "0 \<le> ?now" "\<And>t. gh_last gh a l = Some t \<Longrightarrow> t \<le> ?now" using inv by (simp_all add: run_inv_def)
  have holds: "holds_ok ?now ?h"
    using cooldown_bound [of env om] avoid_bound [OF now(1) cooldown_bound] by (auto simp: holds_ok_def cooled_health_def healthy_def Let_def)
  have "lease_ok (lane_refused a l gh) a l ?h \<and> paced_ok (lane_refused a l gh) a l ?h"
  proof (cases "lane_health hs a l")
    case None
    then show ?thesis using now by (auto simp: lease_ok_def paced_ok_def cooled_health_def healthy_def lane_refused_def Let_def)
  next
    case (Some h0)
    have "lane_ok ?now gh a l h0" by (rule run_inv_lane [OF inv Some])
    then have l0: "lease_ok gh a l h0" and p0: "paced_ok gh a l h0" by (simp_all add: lane_ok_def)
    have "lease_ok (lane_refused a l gh) a l ?h"
      using l0 Some by (auto simp: lease_ok_def cooled_health_def healthy_def lane_refused_def Let_def Suc_diff_le)
    moreover have "paced_ok (lane_refused a l gh) a l ?h"
      using p0 now Some by (auto simp: paced_ok_def cooled_health_def healthy_def lane_refused_def Let_def)
    ultimately show ?thesis by simp
  qed
  then have "lane_ok ?now (lane_refused a l gh) a l ?h" using holds by (simp add: lane_ok_def)
  moreover have "lane_ok ?now (lane_refused a l gh) a' l' h'" if "lane_health hs a' l' = Some h'" "a' = a \<longrightarrow> l' \<noteq> l" for a' l' h'
    using run_inv_lane [OF inv that(1)] that(2) by (auto simp: lane_ok_def lease_ok_def paced_ok_def lane_refused_def)
  ultimately show ?thesis using inv by (auto simp: run_inv_def lane_refused_def)
qed


section \<open>Outcomes\<close>

lemma run_inv_conclude: "run_inv now gh hs \<Longrightarrow> run_inv now gh (conclude_lane a l i now hs)"
  by (auto simp: conclude_lane_def split: option.split intro: run_inv_set lane_released run_inv_lane)

lemma run_inv_conclude_scoped: "run_inv (om_now om) gh hs \<Longrightarrow> run_inv (om_now om) gh (conclude_scoped_probe a om hs)"
  by (simp add: conclude_scoped_probe_def run_inv_conclude split: option.split)

lemma run_inv_scoped_success: "run_inv (om_now om) gh hs \<Longrightarrow> run_inv (om_now om) gh (settle_scoped_success a om hs)"
  by (auto simp: settle_scoped_success_def run_inv_conclude split: option.split intro: run_inv_fewer [of "om_now om" gh hs] split: if_splits)

lemma run_inv_forget_refusal:
  assumes "run_inv now gh hs"
  shows "run_inv now gh (forget_refusal a scope hs)"
proof -
  have "run_inv now gh (delete_scoped_health a s hs)" for s
    by (rule run_inv_fewer [OF assms]) (simp_all split: if_splits)
  moreover have "run_inv now gh (set_scoped_health a s (h\<lparr>hl_last_status := None, hl_last_failure := None, hl_avoid_until := None\<rparr>) hs)"
    if "scoped_health hs a s = Some h" for s h
  proof -
    have "lane_ok now gh a (Some s) h" using run_inv_lane [OF assms] that by (simp add: lane_simps)
    then have "lane_ok now gh a (Some s) ((h\<lparr>hl_last_status := None, hl_last_failure := None\<rparr>)\<lparr>hl_avoid_until := None\<rparr>)"
      by (intro lane_without_avoid) simp
    then show ?thesis unfolding lane_simps using run_inv_set [OF assms] by simp
  qed
  ultimately show ?thesis using assms by (simp add: forget_refusal_def Let_def split: option.split)
qed

definition concluded_base :: "nat option \<Rightarrow> rat \<Rightarrow> health option \<Rightarrow> health option" where
  "concluded_base i now current = (case current of None \<Rightarrow> None
     | Some c \<Rightarrow> Some (if owns_lease current i then with_lease_released now c else c))"

lemma lane_concluded_base:
  assumes "run_inv now gh hs" and "concluded_base i now (lane_health hs a l) = Some b"
  shows "lane_ok now gh a l b"
  using assms run_inv_lane [OF assms(1)] lane_released [OF assms(1)]
  by (auto simp: concluded_base_def split: option.splits if_splits)

lemma lane_concluded_preserved:
  assumes "run_inv now gh hs"
  shows "lane_ok now gh a l (preserved_cooldown_fields (concluded_base i now (lane_health hs a l)))"
  using lane_preserved [OF lane_concluded_base [OF assms]] lane_healthy
  by (cases "concluded_base i now (lane_health hs a l)") simp_all

lemma run_inv_success:
  assumes inv: "run_inv (om_now om) gh hs"
  shows "run_inv (om_now om) gh (snd (record_account_success env a om hs))"
proof -
  let ?now = "om_now om"
  define hs1 where "hs1 = forget_refusal a (quota_scope_for_model (om_model om)) (settle_scoped_success a om hs)"
  have i1: "run_inv ?now gh hs1" unfolding hs1_def by (intro run_inv_forget_refusal run_inv_scoped_success inv)
  let ?current = "lane_health hs1 a None"
  let ?base = "concluded_base (om_lease om) ?now ?current"
  let ?settled = "settle_success_streak (en_threshold env) a ?current ?base (preserved_cooldown_fields ?base) (account_cooldown_until a ?now hs1) hs1"
  have gone: "run_inv ?now gh (delete_account_health a hs1)" by (rule run_inv_fewer [OF i1]) (simp_all split: if_splits)
  have kept: "run_inv ?now gh (set_lane_health a None ((preserved_cooldown_fields ?base)\<lparr>hl_failures := 0\<rparr>) hs1)"
    by (rule run_inv_set [OF i1]) (simp add: lane_concluded_preserved [OF i1])
  have streak: "run_inv ?now gh (set_lane_health a None (b\<lparr>hl_successes := n\<rparr>) hs1)" if "?base = Some b" for b n
    by (rule run_inv_set [OF i1]) (simp add: lane_concluded_base [OF i1 that])
  have "run_inv ?now gh ?settled"
    using gone kept streak unfolding settle_success_streak_def lane_simps Let_def by (auto split: option.split)
  then have "run_inv ?now gh (if account_cooldown_until a ?now hs1 \<noteq> None \<and> probe_may_clear ?current (om_lease om)
      then delete_account_health a hs1 else ?settled)" using gone by simp
  then show ?thesis
    unfolding record_account_success_def Let_def hs1_def [symmetric] lane_simps(1) concluded_base_def [symmetric] by simp
qed

lemma run_inv_concluded: "run_inv (om_now om) gh hs \<Longrightarrow> run_inv (om_now om) gh (record_concluded a om hs)"
  unfolding record_concluded_def by (intro run_inv_conclude run_inv_conclude_scoped)

lemma lane_plain: "hl_until h = None \<Longrightarrow> hl_avoid_until h = None \<Longrightarrow> hl_soft_until h = None \<Longrightarrow> hl_lease h = None
    \<Longrightarrow> hl_last_probe h = None \<Longrightarrow> hl_since h = None \<Longrightarrow> lane_ok clock gh a l h"
  by (simp add: lane_ok_def lease_ok_def paced_ok_def holds_ok_def)

lemma run_inv_workspace: "run_inv clock gh hs \<Longrightarrow> run_inv clock gh (record_workspace a status now hs)"
  unfolding record_workspace_def lane_simps by (erule run_inv_set) (rule lane_plain; simp add: healthy_def)

lemma run_inv_credential:
  assumes "run_inv clock gh hs"
  shows "run_inv clock gh (snd (record_credential env a status writer om hs))"
proof -
  let ?h = "healthy\<lparr>hl_failures := 1, hl_last_status := Some status, hl_last_failure := Some (om_now om), hl_credential_generation := om_credential om\<rparr>"
  have "run_inv clock gh (set_account_health a ?h hs)"
    unfolding lane_simps by (rule run_inv_set [OF assms]) (rule lane_plain; simp add: healthy_def)
  then have "run_inv clock gh (delete_all_scoped_health a (set_account_health a ?h hs))"
    by (rule run_inv_fewer) (simp_all split: if_splits)
  then show ?thesis using assms by (simp add: record_credential_def split: option.split)
qed

definition quota_lane :: "routing_env \<Rightarrow> outcome_meta \<Rightarrow> quota_scope option" where
  "quota_lane env om = (if snd (cooldown_of env om) = ResetDerived then quota_scope_for_model (om_model om) else None)"

lemma run_inv_quota:
  assumes inv: "run_inv (om_now om) gh hs"
  shows "run_inv (om_now om) (lane_refused a (quota_lane env om) gh) (snd (record_quota env a status om hs))"
proof (cases "quota_lane env om")
  case None
  have "run_inv (om_now om) gh (conclude_scoped_probe a om hs)" by (rule run_inv_conclude_scoped [OF inv])
  from run_inv_refused [OF this, of a None env status]
  show ?thesis using None unfolding record_quota_def Let_def quota_lane_def [symmetric] lane_simps by simp
next
  case (Some s)
  from run_inv_refused [OF inv, of a "Some s" env status]
  show ?thesis using Some unfolding record_quota_def Let_def quota_lane_def [symmetric] lane_simps by simp
qed

lemma escalation_bound: "escalation_ms threshold n \<le> 1800000"
proof -
  have e: "\<forall>k \<in> {0, 1, 2, 3}. soft_avoid_escalation ! k \<le> 1800000" by (simp add: soft_avoid_escalation_def)
  have "nat (min (max (int n - threshold) 0) 3) \<in> {0, 1, 2, 3}" by auto
  then show ?thesis unfolding escalation_ms_def using e by blast
qed

lemma lane_conclude_scoped: "lane_health (conclude_scoped_probe a om hs) a None = lane_health hs a None"
  by (simp add: conclude_scoped_probe_def conclude_lane_def split: option.split)

lemma lane_softened:
  assumes "lane_ok clock gh a l h" and "s = None \<or> (\<exists>u. s = Some u \<and> u \<le> clock + 1800000)"
  shows "lane_ok clock gh a l (h\<lparr>hl_soft_until := s\<rparr>)"
  using assms by (auto simp: lane_ok_def lease_ok_def paced_ok_def holds_ok_def)

lemma run_inv_transient:
  assumes inv: "run_inv (om_now om) gh hs"
  shows "run_inv (om_now om) gh (snd (record_transient env a status om hs))"
proof -
  let ?now = "om_now om"
  define hs1 where "hs1 = conclude_scoped_probe a om hs"
  have i1: "run_inv ?now gh hs1" unfolding hs1_def by (rule run_inv_conclude_scoped [OF inv])
  have same: "lane_health hs1 a None = lane_health hs a None" unfolding hs1_def by (rule lane_conclude_scoped)
  define preserved where "preserved = preserved_cooldown_fields (concluded_base (om_lease om) ?now (lane_health hs a None))"
  have ok: "lane_ok ?now gh a None preserved" unfolding preserved_def by (rule lane_concluded_preserved [OF inv])
  let ?until = "account_cooldown_until a ?now hs1"
  have until: "(case ?until of Some u \<Rightarrow> Some u | None \<Rightarrow> hl_until preserved) = hl_until preserved"
    by (auto simp: account_cooldown_until_def lane_simps same preserved_def concluded_base_def preserved_cooldown_fields_def
        live_value_def with_lease_released_def split: option.splits if_splits)
  let ?old = "nullish (soft_avoid_until a ?now hs1) 0"
  have old: "?old \<le> ?now + 1800000"
  proof (cases "soft_avoid_until a ?now hs1")
    case None
    then show ?thesis using i1 by (simp add: run_inv_def)
  next
    case (Some u)
    then obtain h where "lane_health hs1 a None = Some h" "hl_soft_until h = Some u"
      by (auto simp: soft_avoid_until_def lane_simps live_value_def split: option.splits if_splits)
    then show ?thesis using run_inv_lane [OF i1] Some by (auto simp: lane_ok_def holds_ok_def)
  qed
  define failures where "failures = next_failures ?now (lane_health hs a None)"
  let ?ready = "en_threshold env > 0 \<and> int failures \<ge> en_threshold env"
  let ?soft = "if ?ready then Some (max ?old (?now + escalation_ms (en_threshold env) failures)) else None"
  let ?h = "preserved\<lparr>hl_failures := failures, hl_last_status := Some status, hl_last_failure := Some ?now,
      hl_until := (case ?until of Some u \<Rightarrow> Some u | None \<Rightarrow> hl_until preserved), hl_soft_until := ?soft\<rparr>"
  have "?h = (preserved\<lparr>hl_failures := failures, hl_last_status := Some status, hl_last_failure := Some ?now\<rparr>)\<lparr>hl_soft_until := ?soft\<rparr>"
    unfolding until by simp
  moreover have "lane_ok ?now gh a None ((preserved\<lparr>hl_failures := failures, hl_last_status := Some status, hl_last_failure := Some ?now\<rparr>)
      \<lparr>hl_soft_until := ?soft\<rparr>)"
    using old escalation_bound [of "en_threshold env" failures] by (intro lane_softened) (simp_all add: ok)
  ultimately have "run_inv ?now gh (set_lane_health a None ?h hs1)" using run_inv_set [OF i1] by metis
  moreover have "snd (record_transient env a status om hs) = set_lane_health a None ?h hs1"
    unfolding record_transient_def Let_def hs1_def [symmetric] lane_simps concluded_base_def [symmetric] preserved_def [symmetric]
      failures_def [symmetric] by simp
  ultimately show ?thesis by simp
qed

lemma run_inv_spent: "run_inv clock gh hs \<Longrightarrow> run_inv clock gh (drop_spent_credential_failure records a hs)"
  by (erule run_inv_fewer) (auto simp: drop_spent_credential_failure_def split: option.splits if_splits)

text \<open>The lane whose cooldown an outcome writes.\<close>

definition refused_lane :: "routing_env \<Rightarrow> string option \<Rightarrow> upstream_outcome \<Rightarrow> outcome_meta \<Rightarrow> health_store
    \<Rightarrow> (string \<times> quota_scope option) option" where
  "refused_lane env account out om hs = (case account of
     None \<Rightarrow> None
   | Some a \<Rightarrow> if a \<noteq> [] \<and> is_account_admissible a (nullish (om_writer om) (en_generation env)) hs
         \<and> classify_outcome out (om_denial om) = QuotaRefusal \<and> \<not> (is_retired_spark (om_model om) \<and> snd (cooldown_of env om) = ResetDerived)
       then Some (a, quota_lane env om) else None)"

definition after_outcome :: "(string \<times> quota_scope option) option \<Rightarrow> ghost \<Rightarrow> ghost" where
  "after_outcome r gh = (case r of None \<Rightarrow> gh | Some (a, l) \<Rightarrow> lane_refused a l gh)"

lemma run_inv_outcome:
  assumes inv: "run_inv (om_now om) gh hs"
  shows "run_inv (om_now om) (after_outcome (refused_lane env account out om hs) gh) (snd (record_upstream_outcome env account out om hs))"
proof (cases account)
  case None
  then show ?thesis using inv by (simp add: record_upstream_outcome_def refused_lane_def after_outcome_def Let_def)
next
  case (Some a)
  let ?kind = "classify_outcome out (om_denial om)"
  let ?stops = "a = [] \<or> \<not> is_account_admissible a (nullish (om_writer om) (en_generation env)) hs
      \<or> ?kind = QuotaRefusal \<and> is_retired_spark (om_model om) \<and> snd (cooldown_of env om) = ResetDerived"
  show ?thesis
  proof (cases ?stops)
    case True
    then have "refused_lane env account out om hs = None" "snd (record_upstream_outcome env account out om hs) = hs"
      using Some by (auto simp: refused_lane_def record_upstream_outcome_def Let_def)
    then show ?thesis using inv by (simp add: after_outcome_def)
  next
    case False
    let ?hs = "drop_spent_credential_failure (en_records env) a hs"
    have i: "run_inv (om_now om) gh ?hs" by (rule run_inv_spent [OF inv])
    note parts = run_inv_success [OF i] run_inv_concluded [OF i] run_inv_workspace [OF i] run_inv_credential [OF i]
      run_inv_quota [OF i] run_inv_transient [OF i]
    have l: "refused_lane env account out om hs = (if ?kind = QuotaRefusal then Some (a, quota_lane env om) else None)"
      using False Some by (simp add: refused_lane_def)
    show ?thesis
      unfolding l using False Some parts
      by (cases ?kind) (auto simp: record_upstream_outcome_def after_outcome_def Let_def)
  qed
qed


section \<open>Leases\<close>

lemma acquired_lane:
  assumes "try_acquire_probe_lease i a l now hs = (Some j, hs')"
  obtains h where "lane_health hs a l = Some h" "hs' = set_lane_health a l (with_lease i now h) hs" "j = i"
    "can_acquire_quota_probe_lease (Some h) now"
proof (cases "lane_health hs a l")
  case None
  then show ?thesis using assms by (simp add: try_acquire_probe_lease_def can_acquire_quota_probe_lease_def)
next
  case (Some h)
  show ?thesis
  proof (cases "can_acquire_quota_probe_lease (Some h) now")
    case False
    then show ?thesis using assms Some by (simp add: try_acquire_probe_lease_def)
  next
    case True
    then have "j = i" "hs' = set_lane_health a l (with_lease i now h) hs" using assms Some by (auto simp: try_acquire_probe_lease_def)
    then show ?thesis using that Some True by blast
  qed
qed

lemma run_inv_acquired:
  assumes inv: "run_inv now gh hs" and fresh: "gh_grants gh i = None" and op: "try_acquire_probe_lease i a l now hs = (Some j, hs')"
  shows "run_inv now (granted i a l now gh) hs'"
  using op
proof (rule acquired_lane)
  fix h assume h: "lane_health hs a l = Some h" and e: "hs' = set_lane_health a l (with_lease i now h) hs"
  have "lane_ok now gh a l h" by (rule run_inv_lane [OF inv h])
  then show ?thesis unfolding e using run_inv_granted [OF inv fresh] by (simp add: lane_ok_def paced_ok_def)
qed

lemma run_inv_release: "run_inv now gh hs \<Longrightarrow> run_inv now gh (release_probe_lease i a l now hs)"
  by (auto simp: release_probe_lease_def split: option.split intro: run_inv_set lane_released run_inv_lane)

lemma lane_lifted:
  assumes "run_inv now gh hs" and "holds_ok now h"
  shows "lane_ok now gh a l (h\<lparr>hl_until := None, hl_since := None, hl_source := None, hl_lease := None, hl_lease_generation := None,
    hl_avoid_until := None, hl_generation := g, hl_last_probe := Some now\<rparr>)"
  using assms by (auto simp: run_inv_def lane_ok_def lease_ok_def paced_ok_def holds_ok_def)

lemma run_inv_settle:
  assumes inv: "run_inv now gh hs"
  shows "run_inv now gh (snd (settle_recovery_lease c recovered now hs))"
proof (cases "lane_health hs (cl_account c) (cl_lane c)")
  case None
  then show ?thesis using inv by (simp add: settle_recovery_lease_def)
next
  case (Some h)
  have ok: "lane_ok now gh (cl_account c) (cl_lane c) h" by (rule run_inv_lane [OF inv Some])
  have released: "run_inv now gh (set_lane_health (cl_account c) (cl_lane c) (with_lease_released now h) hs)"
    by (rule run_inv_set [OF inv lane_released [OF inv ok]])
  have lifted: "run_inv now gh (set_lane_health a None (h\<lparr>hl_until := None, hl_since := None, hl_source := None, hl_lease := None,
      hl_lease_generation := None, hl_avoid_until := None, hl_generation := g, hl_last_probe := Some now\<rparr>) hs)" for a g
    using ok by (intro run_inv_set [OF inv] lane_lifted [OF inv]) (simp add: lane_ok_def)
  have gone: "run_inv now gh (delete_scoped_health a s hs)" for a s by (rule run_inv_fewer [OF inv]) (simp_all split: if_splits)
  show ?thesis using Some inv released lifted gone
    by (simp add: settle_recovery_lease_def lane_simps Let_def split: option.split)
qed

lemma run_inv_settle_probe: "run_inv now gh hs \<Longrightarrow> run_inv now gh (snd (settle_quota_recovery_probe records c recovered proof now hs))"
  by (simp add: settle_quota_recovery_probe_def run_inv_settle Let_def split: option.split)

lemma run_inv_settle_manual:
  "run_inv now gh hs \<Longrightarrow> run_inv now gh (snd (settle_manual_reset records eligible mc recovered proof lineage now hs))"
  by (simp add: settle_manual_reset_def run_inv_settle run_inv_settle_probe Let_def split: manual_claim.split)

lemma lift_cooldown_lane:
  "run_inv now gh hs \<Longrightarrow> lane_ok now gh a l h \<Longrightarrow> lift_cooldown now h = Some h' \<Longrightarrow> lane_ok now gh a l h'"
  using lane_lifted by (auto simp: lift_cooldown_def lane_ok_def split: if_splits)

lemma lift_holds: "holds_ok now h \<Longrightarrow> lift_cooldown now h = Some h' \<Longrightarrow> run_inv now gh hs \<Longrightarrow> lane_ok now gh a l h'"
  using lane_lifted by (auto simp: lift_cooldown_def split: if_splits)

definition lift_scope :: "rat \<Rightarrow> string \<Rightarrow> quota_scope \<times> health \<Rightarrow> health_store \<Rightarrow> health_store" where
  "lift_scope now a = (\<lambda>(s, h) st. case lift_cooldown now h of None \<Rightarrow> st | Some h' \<Rightarrow> set_scoped_health a s h' st)"

lemma run_inv_lift_scopes:
  "run_inv now gh st \<Longrightarrow> \<forall>x \<in> set scopes. holds_ok now (snd x) \<Longrightarrow> run_inv now gh (fold (lift_scope now a) scopes st)"
proof (induction scopes arbitrary: st)
  case (Cons x scopes)
  obtain s h where x: "x = (s, h)" by (cases x)
  have "run_inv now gh (lift_scope now a x st)"
  proof (cases "lift_cooldown now h")
    case None
    then show ?thesis using Cons.prems(1) x by (simp add: lift_scope_def)
  next
    case (Some h')
    have "lane_ok now gh a (Some s) h'" by (rule lift_holds [OF _ Some Cons.prems(1)]) (use Cons.prems(2) x in simp)
    then have "run_inv now gh (set_lane_health a (Some s) h' st)" by (rule run_inv_set [OF Cons.prems(1)])
    then show ?thesis using Some x by (simp add: lift_scope_def lane_simps)
  qed
  then show ?case using Cons.IH Cons.prems(2) by simp
qed simp

lemma run_inv_lift:
  assumes inv: "run_inv now gh hs"
  shows "run_inv now gh (snd (clear_account_cooldown a now hs))"
proof -
  define hs1 where "hs1 = (case (case account_health hs a of None \<Rightarrow> None | Some h \<Rightarrow> lift_cooldown now h) of
      None \<Rightarrow> hs | Some h \<Rightarrow> set_account_health a h hs)"
  have i1: "run_inv now gh hs1"
  proof (cases "lane_health hs a None")
    case None
    then show ?thesis using inv by (simp add: hs1_def lane_simps)
  next
    case (Some h)
    note ok = run_inv_lane [OF inv Some]
    show ?thesis
    proof (cases "lift_cooldown now h")
      case None
      then show ?thesis using inv Some by (simp add: hs1_def lane_simps)
    next
      case (Some h')
      have "hs1 = set_lane_health a None h' hs" using \<open>lane_health hs a None = Some h\<close> Some by (simp add: hs1_def lane_simps)
      then show ?thesis using run_inv_set [OF inv lift_cooldown_lane [OF inv ok Some]] by simp
    qed
  qed
  let ?scopes = "nullish (map_of (hs_scoped hs) a) []"
  have lane: "lane_health hs a (Some s) = Some h" if "(s, h) \<in> set ?scopes" for s h
  proof (cases "map_of (hs_scoped hs) a")
    case (Some m)
    then have "jm_wf m" using inv by (simp add: run_inv_def store_wf_def)
    moreover have "(s, h) \<in> set m" using that Some by simp
    ultimately have "map_of m s = Some h" by (simp add: map_of_is_SomeI)
    then show ?thesis using Some by (simp add: lane_health_def scoped_health_def)
  qed (use that in simp)
  have ok: "\<forall>x \<in> set ?scopes. holds_ok now (snd x)"
  proof
    fix x assume "x \<in> set ?scopes"
    then have "lane_health hs a (Some (fst x)) = Some (snd x)" using lane [of "fst x" "snd x"] by simp
    then show "holds_ok now (snd x)" using run_inv_lane [OF inv] lane_ok_def by blast
  qed
  have "snd (clear_account_cooldown a now hs) = fold (lift_scope now a) ?scopes hs1"
    unfolding clear_account_cooldown_def Let_def hs1_def lift_scope_def by (simp only: snd_conv)
  then show ?thesis using run_inv_lift_scopes [OF i1 ok] by simp
qed

end
