(* ===== verification/Codex_Health_Properties.thy ===== *)
theory Codex_Health_Properties
  imports Codex_Health_Runs "HOL-Library.Multiset"
begin

text \<open>
  What every history of the health store keeps: a lease clears the cooldown it was granted under and no
  other, grants of a lane are paced, holds are bounded, and an outcome without the lease of a cooldown leaves
  it standing.
\<close>

section \<open>Claims of the prober\<close>

definition note_claim :: "rat \<Rightarrow> 'a claim_scheme \<Rightarrow> ghost \<Rightarrow> ghost" where
  "note_claim now c = granted (cl_lease c) (cl_account c) (cl_lane c) now"

definition manual_base :: "manual_claim \<Rightarrow> claim" where
  "manual_base mc = (case mc of PoolReset c \<Rightarrow> claim.truncate c | MainReset c \<Rightarrow> c)"

lemma granted_grants [simp]: "gh_grants (granted i a l now gh) j = (if j = i then Some (a, l, gh_refusals gh a l) else gh_grants gh j)"
  by (simp add: granted_def)

lemma run_inv_claims:
  assumes "run_inv now gh hs" and "distinct (map fst xs)" and "inj ids" and "\<And>j. gh_grants gh (ids j) = None \<or> j \<notin> set (map fst xs)"
    and "\<forall>x \<in> set xs. (case snd x of (a, l, h, r) \<Rightarrow> holds_ok now h \<and> (hl_until h \<noteq> None \<longrightarrow> hl_since h \<noteq> None \<and> hl_credential_generation h = None))"
  shows "run_inv now (fold (\<lambda>(j, a, l, h, r). granted (ids j) a l now) xs gh)
    (fold (\<lambda>(j, a, l, h, r) st. set_lane_health a l (with_lease (ids j) now h) st) xs hs)"
  using assms
proof (induction xs arbitrary: gh hs)
  case (Cons x xs)
  obtain j a l h r where x: "x = (j, a, l, h, r)" by (cases x)
  have first: "run_inv now (granted (ids j) a l now gh) (set_lane_health a l (with_lease (ids j) now h) hs)"
    using Cons.prems(4) [of j] Cons.prems(5) x by (intro run_inv_granted [OF Cons.prems(1)]) auto
  have fresh: "gh_grants (granted (ids j) a l now gh) (ids k) = None \<or> k \<notin> set (map fst xs)" for k
    using Cons.prems(4) [of k] Cons.prems(2) x injD [OF \<open>inj ids\<close>, of k j] by auto
  have "distinct (map fst xs)" using Cons.prems(2) by simp
  from Cons.IH [OF first this \<open>inj ids\<close> fresh] show ?case using Cons.prems(5) x by simp
qed simp

lemma candidate_lane:
  assumes "store_wf hs" and "candidate_of records eligible now hs account = Some (a, l, h, r)"
  shows "a = account \<and> lane_health hs a l = Some h \<and> can_acquire_quota_probe_lease (Some h) now"
proof -
  have d: "(l, h) \<in> set (due_lanes account now hs)" and a: "a = account"
    using assms(2) by (auto simp: candidate_of_def split: if_splits option.splits list.splits)
  have "lane_health hs account l = Some h"
  proof (cases l)
    case None
    then show ?thesis using d by (auto simp: due_lanes_def lane_health_def split: option.splits)
  next
    case (Some s)
    then have m: "(s, h) \<in> set (nullish (map_of (hs_scoped hs) account) [])"
      using d by (auto simp: due_lanes_def split: option.splits)
    then obtain m where e: "map_of (hs_scoped hs) account = Some m" "(s, h) \<in> set m" by (cases "map_of (hs_scoped hs) account") auto
    then have "map_of m s = Some h" using assms(1) by (simp add: store_wf_def map_of_is_SomeI)
    then show ?thesis using e Some by (simp add: lane_health_def scoped_health_def)
  qed
  then show ?thesis using a d by (auto simp: due_lanes_def)
qed

lemma chosen_lane:
  assumes "store_wf hs" and "x \<in> set (take n (sort_key f (List.map_filter (candidate_of records eligible now hs) accounts)))"
  shows "case x of (a, l, h, r) \<Rightarrow> lane_health hs a l = Some h \<and> can_acquire_quota_probe_lease (Some h) now"
proof -
  have "x \<in> set (List.map_filter (candidate_of records eligible now hs) accounts)" using in_set_takeD [OF assms(2)] by simp
  then obtain account where "candidate_of records eligible now hs account = Some x"
    by (auto simp: List.map_filter_def)
  then show ?thesis using candidate_lane [OF assms(1)] by (cases x) simp
qed

lemma run_inv_due:
  assumes inv: "run_inv now gh hs" and "inj ids" and "\<And>j. gh_grants gh (ids j) = None"
    and op: "claim_due_probes records eligible ids accounts limit now hs = (claims, hs')"
  shows "run_inv now (fold (note_claim now) claims gh) hs'"
proof -
  define chosen where "chosen = take (nat (max 0 limit)) (sort_key (\<lambda>(_, _, h, _). probe_age h)
    (List.map_filter (candidate_of records eligible now hs) accounts))"
  have wf: "store_wf hs" using inv by (simp add: run_inv_def)
  have lanes: "\<forall>x \<in> set (enumerate 0 chosen). (case snd x of (a, l, h, r) \<Rightarrow>
      holds_ok now h \<and> (hl_until h \<noteq> None \<longrightarrow> hl_since h \<noteq> None \<and> hl_credential_generation h = None))"
  proof
    fix x assume "x \<in> set (enumerate 0 chosen)"
    then have "snd x \<in> set (map snd (enumerate 0 chosen))" by (simp only: set_map imageI)
    then have "snd x \<in> set chosen" by simp
    then have "case snd x of (a, l, h, r) \<Rightarrow> lane_health hs a l = Some h \<and> can_acquire_quota_probe_lease (Some h) now"
      unfolding chosen_def by (rule chosen_lane [OF wf])
    moreover obtain a l h r where x: "snd x = (a, l, h, r)" by (cases "snd x")
    ultimately have "lane_ok now gh a l h" using run_inv_lane [OF inv, of a l h] by simp
    then show "case snd x of (a, l, h, r) \<Rightarrow> holds_ok now h \<and> (hl_until h \<noteq> None \<longrightarrow> hl_since h \<noteq> None \<and> hl_credential_generation h = None)"
      unfolding x by (simp add: lane_ok_def paced_ok_def)
  qed
  have d: "distinct (map fst (enumerate 0 chosen))" by simp
  have "run_inv now (fold (\<lambda>(j, a, l, h, r). granted (ids j) a l now) (enumerate 0 chosen) gh)
      (fold (\<lambda>(j, a, l, h, r) st. set_lane_health a l (with_lease (ids j) now h) st) (enumerate 0 chosen) hs)"
    by (rule run_inv_claims [OF inv d assms(2) _ lanes]) (simp add: assms(3))
  moreover have "hs' = fold (\<lambda>(j, a, l, h, r) st. set_lane_health a l (with_lease (ids j) now h) st) (enumerate 0 chosen) hs"
    using op by (simp add: claim_due_probes_def chosen_def [symmetric] Let_def)
  moreover have "fold (note_claim now) claims gh = fold (\<lambda>(j, a, l, h, r). granted (ids j) a l now) (enumerate 0 chosen) gh"
  proof -
    have "claims = map (\<lambda>(j, a, l, h, r). \<lparr>cl_account = a, cl_lane = l, cl_lease = ids j, cl_cooldown_generation = nullish (hl_generation h) 0,
        cl_credential_generation = ar_generation r, cl_replaced_at = ar_replaced_at r\<rparr>) (enumerate 0 chosen)"
      using op by (simp add: claim_due_probes_def chosen_def [symmetric] Let_def)
    then show ?thesis by (simp add: fold_map note_claim_def comp_def case_prod_unfold)
  qed
  ultimately show ?thesis by simp
qed

lemma claim_lane_grants:
  assumes inv: "run_inv now gh hs" and "gh_grants gh i = None" and op: "claim_lane records main i a now l hs = (claims, hs')"
  shows "run_inv now (fold (note_claim now) (map manual_base claims) gh) hs'"
    "j \<noteq> i \<Longrightarrow> gh_grants (fold (note_claim now) (map manual_base claims) gh) j = gh_grants gh j"
proof -
  have "run_inv now (fold (note_claim now) (map manual_base claims) gh) hs'
    \<and> (j \<noteq> i \<longrightarrow> gh_grants (fold (note_claim now) (map manual_base claims) gh) j = gh_grants gh j)" for j
  proof (cases "lane_health hs a l")
    case (Some h)
    have "lane_ok now gh a l h" by (rule run_inv_lane [OF inv Some])
    then have g: "run_inv now (granted i a l now gh) (set_lane_health a l (with_lease i now h) hs)"
      by (intro run_inv_granted [OF inv assms(2)]) (auto simp: lane_ok_def paced_ok_def)
    show ?thesis
    proof (cases "resettable now h")
      case True
      let ?c = "\<lparr>cl_account = a, cl_lane = l, cl_lease = i, cl_cooldown_generation = nullish (hl_generation h) 0\<rparr>"
      have "map manual_base claims = [?c]" "hs' = set_lane_health a l (with_lease i now h) hs"
        using op Some True by (auto simp: claim_lane_def Let_def manual_base_def claim.defs split: option.splits)
      then show ?thesis using g by (simp add: note_claim_def)
    qed (use op Some inv in \<open>simp add: claim_lane_def\<close>)
  qed (use op inv in \<open>simp add: claim_lane_def\<close>)
  then show "run_inv now (fold (note_claim now) (map manual_base claims) gh) hs'"
    "j \<noteq> i \<Longrightarrow> gh_grants (fold (note_claim now) (map manual_base claims) gh) j = gh_grants gh j" by blast+
qed

lemma run_inv_manual:
  assumes inv: "run_inv now gh hs" and "ids 0 \<noteq> ids 1" and "gh_grants gh (ids 0) = None" "gh_grants gh (ids 1) = None"
    and op: "claim_manual_reset records eligible main_id ids a now expected hs = (claims, hs')"
  shows "run_inv now (fold (note_claim now) (map manual_base claims) gh) hs'"
proof -
  obtain c1 hs1 where o1: "claim_lane records (a = main_id) (ids 0) a now None hs = (c1, hs1)" by (cases "claim_lane records (a = main_id) (ids 0) a now None hs")
  obtain c2 hs2 where o2: "claim_lane records (a = main_id) (ids 1) a now (Some SharedScope) hs1 = (c2, hs2)"
    by (cases "claim_lane records (a = main_id) (ids 1) a now (Some SharedScope) hs1")
  note g1 = claim_lane_grants [OF inv assms(3) o1]
  have "gh_grants (fold (note_claim now) (map manual_base c1) gh) (ids 1) = None" using g1(2) [of "ids 1"] assms(2,4) by simp
  note g2 = claim_lane_grants(1) [OF g1(1) this o2]
  have "claims = [] \<and> hs' = hs \<or> claims = c1 @ c2 \<and> hs' = hs2"
    using op o1 o2 by (auto simp: claim_manual_reset_def Let_def split: if_splits)
  then show ?thesis using inv g2 by auto
qed


section \<open>Histories\<close>

inductive lease_run :: "rat \<Rightarrow> ghost \<Rightarrow> health_store \<Rightarrow> bool" where
  run_start: "0 \<le> now \<Longrightarrow> lease_run now no_ghost empty_store"
| run_later: "lease_run clock gh hs \<Longrightarrow> clock \<le> now \<Longrightarrow> lease_run now gh hs"
| run_outcome: "lease_run now gh hs \<Longrightarrow> om_now om = now \<Longrightarrow> record_upstream_outcome env account out om hs = (fx, hs')
    \<Longrightarrow> gh' = after_outcome (refused_lane env account out om hs) gh \<Longrightarrow> lease_run now gh' hs'"
| run_acquire: "lease_run now gh hs \<Longrightarrow> gh_grants gh i = None \<Longrightarrow> try_acquire_probe_lease i a l now hs = (Some j, hs')
    \<Longrightarrow> gh' = granted i a l now gh \<Longrightarrow> lease_run now gh' hs'"
| run_release: "lease_run now gh hs \<Longrightarrow> hs' = release_probe_lease i a l now hs \<Longrightarrow> lease_run now gh hs'"
| run_due: "lease_run now gh hs \<Longrightarrow> inj ids \<Longrightarrow> (\<And>j. gh_grants gh (ids j) = None)
    \<Longrightarrow> claim_due_probes records eligible ids accounts limit now hs = (claims, hs')
    \<Longrightarrow> gh' = fold (note_claim now) claims gh \<Longrightarrow> lease_run now gh' hs'"
| run_manual: "lease_run now gh hs \<Longrightarrow> ids 0 \<noteq> ids 1 \<Longrightarrow> gh_grants gh (ids 0) = None \<Longrightarrow> gh_grants gh (ids 1) = None
    \<Longrightarrow> claim_manual_reset records eligible main_id ids a now expected hs = (mclaims, hs')
    \<Longrightarrow> gh' = fold (note_claim now) (map manual_base mclaims) gh \<Longrightarrow> lease_run now gh' hs'"
| run_settle: "lease_run now gh hs \<Longrightarrow> settle_quota_recovery_probe records c recovered proof_gen now hs = (ok, hs') \<Longrightarrow> lease_run now gh hs'"
| run_settle_manual: "lease_run now gh hs \<Longrightarrow> settle_manual_reset records eligible mc recovered proof_gen lineage now hs = (ok, hs')
    \<Longrightarrow> lease_run now gh hs'"
| run_lift: "lease_run now gh hs \<Longrightarrow> clear_account_cooldown a now hs = (ok, hs') \<Longrightarrow> lease_run now gh hs'"
| run_reconcile: "lease_run now gh hs \<Longrightarrow> reconcile_routing_health generation accounts hs = (n, hs') \<Longrightarrow> lease_run now gh hs'"
| run_delete: "lease_run now gh hs \<Longrightarrow> hs' = delete_all_health a hs \<Longrightarrow> lease_run now gh hs'"

lemma run_inv_reconcile: "run_inv now gh hs \<Longrightarrow> run_inv now gh (snd (reconcile_routing_health g accounts hs))"
  by (erule run_inv_fewer) (erule lane_reconciled store_wf_reconciled)+

lemma run_inv_delete: "run_inv now gh hs \<Longrightarrow> run_inv now gh (delete_all_health a hs)"
  by (erule run_inv_fewer) (simp_all add: delete_all_health_def split: if_splits)

lemma lease_run_inv: "lease_run now gh hs \<Longrightarrow> run_inv now gh hs"
proof (induction rule: lease_run.induct)
  case (run_start now)
  then show ?case
    by (simp add: run_inv_def store_wf_def no_ghost_def empty_store_def lane_health_def account_health_def scoped_health_def split: option.split)
next
  case (run_later clock gh hs now)
  then show ?case using run_inv_later by blast
next
  case (run_outcome now gh hs om env account out fx hs' gh')
  then show ?case using run_inv_outcome [of om gh hs env account out] by simp
next
  case (run_acquire now gh hs i a l j hs' gh')
  then show ?case using run_inv_acquired by blast
next
  case (run_release now gh hs hs' i a l)
  then show ?case using run_inv_release by blast
next
  case (run_due now gh hs ids records eligible accounts limit claims hs' gh')
  then show ?case using run_inv_due by blast
next
  case (run_manual now gh hs ids records eligible main_id a expected mclaims hs' gh')
  then show ?case using run_inv_manual by blast
next
  case (run_settle now gh hs records c recovered proof_gen ok hs')
  then show ?case using run_inv_settle_probe [of now gh hs records c recovered proof_gen] by simp
next
  case (run_settle_manual now gh hs records eligible mc recovered proof_gen lineage ok hs')
  then show ?case using run_inv_settle_manual [of now gh hs records eligible mc recovered proof_gen lineage] by simp
next
  case (run_lift now gh hs a ok hs')
  then show ?case using run_inv_lift [of now gh hs a] by simp
next
  case (run_reconcile now gh hs generation accounts n hs')
  then show ?case using run_inv_reconcile [of now gh hs generation accounts] by simp
next
  case (run_delete now gh hs hs' a)
  then show ?case using run_inv_delete by blast
qed


section \<open>The deadline of a lane\<close>

definition lane_until :: "health_store \<Rightarrow> string \<Rightarrow> quota_scope option \<Rightarrow> rat option" where
  "lane_until hs a l = (case lane_health hs a l of None \<Rightarrow> None | Some h \<Rightarrow> hl_until h)"

definition live_cooldown :: "rat \<Rightarrow> health_store \<Rightarrow> string \<Rightarrow> quota_scope option \<Rightarrow> rat option" where
  "live_cooldown now hs a l = live_value now (lane_until hs a l)"

lemma until_set [simp]: "lane_until (set_lane_health a l h hs) a' l' = (if a = a' \<and> l = l' then hl_until h else lane_until hs a' l')"
  by (simp add: lane_until_def)

lemma until_delete [simp]:
  "lane_until (delete_account_health a hs) a' l' = (if a = a' \<and> l' = None then None else lane_until hs a' l')"
  "lane_until (delete_all_scoped_health a hs) a' l' = (if a = a' \<and> l' \<noteq> None then None else lane_until hs a' l')"
  "lane_until (delete_scoped_health a s hs) a' l' = (if a = a' \<and> l' = Some s then None else lane_until hs a' l')"
  by (auto simp: lane_until_def)

lemma until_released [simp]: "hl_until (with_lease_released now h) = hl_until h"
  by (simp add: with_lease_released_def)

lemma until_conclude [simp]: "lane_until (conclude_lane a l i now hs) a' l' = lane_until hs a' l'"
  by (auto simp: conclude_lane_def lane_until_def split: option.split)

lemma until_conclude_scoped [simp]: "lane_until (conclude_scoped_probe a om hs) a' l' = lane_until hs a' l'"
  by (simp add: conclude_scoped_probe_def split: option.split)

lemma until_concluded [simp]: "lane_until (record_concluded a om hs) a' l' = lane_until hs a' l'"
  by (simp add: record_concluded_def)

lemma until_forget [simp]: "lane_until (forget_refusal a scope hs) a' l' = lane_until hs a' l'"
proof (cases scope)
  case (Some s)
  show ?thesis
  proof (cases "lane_health hs a (Some s)")
    case None
    then show ?thesis using Some by (simp add: forget_refusal_def lane_simps)
  next
    case (Some h)
    let ?r = "h\<lparr>hl_last_status := None, hl_last_failure := None, hl_avoid_until := None\<rparr>"
    have u: "lane_until hs a (Some s) = hl_until h" using Some by (simp add: lane_until_def)
    have f: "only_failures ?r \<Longrightarrow> hl_until h = None" by (simp add: only_failures_def)
    show ?thesis using \<open>scope = Some s\<close> Some u f by (auto simp: forget_refusal_def lane_simps Let_def)
  qed
qed (simp add: forget_refusal_def)

lemma base_until: "concluded_base i now (lane_health hs a l) = Some b \<Longrightarrow> hl_until b = lane_until hs a l"
  by (auto simp: concluded_base_def lane_until_def split: option.splits if_splits)

lemma preserved_until: "hl_until (preserved_cooldown_fields (concluded_base i now (lane_health hs a l))) = lane_until hs a l"
  by (auto simp: preserved_cooldown_fields_def concluded_base_def lane_until_def healthy_def split: option.splits)

lemma cooldown_until_lane: "account_cooldown_until a now hs = live_cooldown now hs a None"
  by (simp add: account_cooldown_until_def live_cooldown_def lane_until_def lane_simps live_value_def split: option.split)


text \<open>A success takes a deadline away only through \<open>probe_may_clear\<close>.\<close>

lemma until_scoped_success:
  "lane_until (settle_scoped_success a om hs) a' l' = lane_until hs a' l'
   \<or> a' = a \<and> (\<exists>h. lane_health hs a l' = Some h \<and> probe_may_clear (Some h) (om_lease om))"
  by (auto simp: settle_scoped_success_def lane_simps split: option.split)

lemma account_lane_scoped_success: "lane_health (settle_scoped_success a om hs) a' None = lane_health hs a' None"
  by (auto simp: settle_scoped_success_def conclude_lane_def lane_simps split: option.split)

lemma account_lane_forget: "lane_health (forget_refusal a scope hs) a' None = lane_health hs a' None"
  by (simp add: forget_refusal_def lane_simps Let_def split: option.split)

lemma streak_results:
  obtains (kept) "until \<noteq> None" "settle_success_streak threshold a current base p until hs = set_lane_health a None (p\<lparr>hl_failures := 0\<rparr>) hs"
  | (gone) "until = None" "settle_success_streak threshold a current base p until hs = delete_account_health a hs"
  | (streak) b n where "base = Some b" "settle_success_streak threshold a current base p until hs = set_lane_health a None (b\<lparr>hl_successes := n\<rparr>) hs"
proof -
  let ?r = "settle_success_streak threshold a current base p until hs"
  have "?r = (if until \<noteq> None then set_lane_health a None (p\<lparr>hl_failures := 0\<rparr>) hs else delete_account_health a hs)
    \<or> (\<exists>b n. base = Some b \<and> ?r = set_lane_health a None (b\<lparr>hl_successes := n\<rparr>) hs)"
    unfolding settle_success_streak_def Let_def lane_simps by (cases current; cases base; simp only: option.case prod.case) (simp_all, blast?)
  then show ?thesis using that by (cases until) auto
qed

lemma until_success:
  assumes "live_cooldown (om_now om) hs a' l' = Some u"
  shows "live_cooldown (om_now om) (snd (record_account_success env a om hs)) a' l' = Some u
    \<or> a' = a \<and> (\<exists>h. lane_health hs a l' = Some h \<and> probe_may_clear (Some h) (om_lease om))"
proof -
  let ?now = "om_now om"
  define hs1 where "hs1 = forget_refusal a (quota_scope_for_model (om_model om)) (settle_scoped_success a om hs)"
  have account: "lane_health hs1 b None = lane_health hs b None" for b
    by (simp add: hs1_def account_lane_forget account_lane_scoped_success)
  define base where "base = concluded_base (om_lease om) ?now (lane_health hs1 a None)"
  define settled where "settled = settle_success_streak (en_threshold env) a (lane_health hs1 a None) base
      (preserved_cooldown_fields base) (account_cooldown_until a ?now hs1) hs1"
  define clears where "clears \<longleftrightarrow> account_cooldown_until a ?now hs1 \<noteq> None \<and> probe_may_clear (lane_health hs1 a None) (om_lease om)"
  have result: "snd (record_account_success env a om hs) = (if clears then delete_account_health a hs1 else settled)"
    unfolding record_account_success_def Let_def hs1_def [symmetric] lane_simps(1) concluded_base_def [symmetric] base_def [symmetric]
      settled_def [symmetric] clears_def by simp
  have others: "lane_until (snd (record_account_success env a om hs)) b k = lane_until hs1 b k" if "b \<noteq> a \<or> k \<noteq> None" for b k
  proof -
    have "lane_until settled b k = lane_until hs1 b k" unfolding settled_def
      by (rule streak_results [of "account_cooldown_until a ?now hs1" "en_threshold env" a "lane_health hs1 a None" base
            "preserved_cooldown_fields base" hs1]) (use that in auto)
    then show ?thesis using that by (auto simp: result)
  qed
  show ?thesis
  proof (cases "a' = a \<and> l' = None")
    case True
    then have u: "live_cooldown ?now hs1 a None = Some u" using assms by (simp add: live_cooldown_def lane_until_def account)
    then have until: "account_cooldown_until a ?now hs1 = Some u" by (simp add: cooldown_until_lane)
    show ?thesis
    proof (cases clears)
      case True
      then have "probe_may_clear (lane_health hs a None) (om_lease om)" by (simp add: clears_def account)
      then show ?thesis using \<open>a' = a \<and> l' = None\<close> by (cases "lane_health hs a None") (auto simp: probe_may_clear_def owns_lease_def)
    next
      case False
      have "lane_until settled a None = lane_until hs1 a None"
        unfolding settled_def
        by (rule streak_results [of "account_cooldown_until a ?now hs1" "en_threshold env" a "lane_health hs1 a None" base
            "preserved_cooldown_fields base" hs1])
          (use base_until [of "om_lease om" ?now hs1 a None] preserved_until [of "om_lease om" ?now hs1 a None] until
            in \<open>simp_all add: base_def\<close>)
      then show ?thesis using False u True by (simp add: result live_cooldown_def)
    qed
  next
    case False
    then have "lane_until (snd (record_account_success env a om hs)) a' l' = lane_until hs1 a' l'" by (intro others) auto
    moreover have "lane_until hs1 a' l' = lane_until (settle_scoped_success a om hs) a' l'" by (simp add: hs1_def)
    ultimately show ?thesis using until_scoped_success [of a om hs a' l'] assms by (auto simp: live_cooldown_def)
  qed
qed

lemma until_cooled: "hl_until (cooled_health env status om owned prior) = Some (fst (cooldown_of env om))"
  by (simp add: cooled_health_def healthy_def Let_def)

lemma cooled_live: "live_value (om_now om) (Some (fst (cooldown_of env om))) \<noteq> None"
  using quota_cooldown_bounds [of "om_now om" "en_date env" "en_number env" "om_retry_after om" "om_reset_at om"]
  by (simp add: cooldown_of_def live_value_def)

lemma until_quota:
  "live_cooldown (om_now om) hs a' l' = Some u \<Longrightarrow> live_cooldown (om_now om) (snd (record_quota env a status om hs)) a' l' = Some u
    \<or> a' = a \<and> live_cooldown (om_now om) (snd (record_quota env a status om hs)) a' l' \<noteq> None"
  using cooled_live by (auto simp: record_quota_def Let_def lane_simps live_cooldown_def until_cooled split: option.split)

lemma until_transient:
  assumes "live_cooldown (om_now om) hs a' l' = Some u"
  shows "live_cooldown (om_now om) (snd (record_transient env a status om hs)) a' l' = Some u"
proof -
  let ?now = "om_now om"
  define hs1 where "hs1 = conclude_scoped_probe a om hs"
  define preserved where "preserved = preserved_cooldown_fields (concluded_base (om_lease om) ?now (lane_health hs a None))"
  have p: "hl_until preserved = lane_until hs a None" by (simp add: preserved_def preserved_until)
  have same: "lane_until hs1 b k = lane_until hs b k" for b k by (simp add: hs1_def)
  obtain h where r: "snd (record_transient env a status om hs) = set_lane_health a None h hs1"
    and h: "hl_until h = (case account_cooldown_until a ?now hs1 of Some u \<Rightarrow> Some u | None \<Rightarrow> hl_until preserved)"
    unfolding record_transient_def Let_def hs1_def [symmetric] lane_simps concluded_base_def [symmetric] preserved_def [symmetric]
    by (simp add: that [rotated])
  have "hl_until h = lane_until hs a None"
    unfolding h cooldown_until_lane live_cooldown_def same p by (auto simp: live_value_def split: option.split)
  then show ?thesis using assms by (auto simp: r live_cooldown_def same)
qed

lemma until_spent:
  assumes "run_inv now gh hs" and "live_cooldown now hs a' l' = Some u"
  shows "lane_until (drop_spent_credential_failure records a hs) a' l' = lane_until hs a' l'"
proof (cases "lane_health hs a None")
  case (Some h)
  have "hl_until h \<noteq> None \<Longrightarrow> hl_credential_generation h = None"
    using run_inv_lane [OF assms(1) Some] by (simp add: lane_ok_def paced_ok_def)
  then show ?thesis using Some assms(2)
    by (auto simp: drop_spent_credential_failure_def lane_simps live_cooldown_def live_value_def lane_until_def split: option.splits)
qed (simp add: drop_spent_credential_failure_def lane_simps)

lemma spent_lane: "lane_health (drop_spent_credential_failure records a hs) a' l' = Some h \<Longrightarrow> lane_health hs a' l' = Some h"
  by (auto simp: drop_spent_credential_failure_def split: option.splits if_splits)

text \<open>A lease that may clear a lane was granted on that lane after its last refusal.\<close>

lemma clearing_grant:
  assumes "run_inv now gh hs" and "lane_health hs a l = Some h" and "probe_may_clear (Some h) i"
  shows "\<exists>j. i = Some j \<and> gh_grants gh j = Some (a, l, gh_refusals gh a l)"
proof -
  obtain j where i: "i = Some j" using assms(3) by (cases i) (simp_all add: probe_may_clear_def owns_lease_def)
  then have j: "i = Some j" "hl_lease h = Some j" using assms(3) by (simp_all add: probe_may_clear_def owns_lease_def)
  have "lease_ok gh a l h" using run_inv_lane [OF assms(1,2)] by (simp add: lane_ok_def)
  then obtain e g where "gh_grants gh j = Some (a, l, e)" "hl_lease_generation h = Some g" "e \<le> gh_refusals gh a l"
    "nullish (hl_generation h) 0 = g + (gh_refusals gh a l - e)" using j(2) by (auto simp: lease_ok_def)
  then show ?thesis using assms(3) j(1) by (auto simp: probe_may_clear_def)
qed


section \<open>What every history keeps\<close>

text \<open>C29. An upstream outcome changes the deadline of a live cooldown in these cases only: a success of the
account whose request carries the probe lease granted on that very lane since its last refusal, a further
refusal of the account (the lane is still cooled then), a failed credential of the account, or a denied
workspace. Requests without that lease, and probes granted before the cooldown was renewed, leave it
standing whatever they report.\<close>

theorem cooldown_outlives_bystanders:
  assumes run: "lease_run (om_now om) gh hs" and live: "live_cooldown (om_now om) hs a l = Some u"
    and op: "record_upstream_outcome env account out om hs = (fx, hs')"
  shows "live_cooldown (om_now om) hs' a l = Some u
    \<or> account = Some a \<and> (case classify_outcome out (om_denial om) of
        Success \<Rightarrow> (\<exists>i. om_lease om = Some i \<and> gh_grants gh i = Some (a, l, gh_refusals gh a l))
      | QuotaRefusal \<Rightarrow> live_cooldown (om_now om) hs' a l \<noteq> None
      | Credential \<Rightarrow> True
      | Workspace \<Rightarrow> l = None
      | _ \<Rightarrow> False)"
proof -
  let ?now = "om_now om" and ?kind = "classify_outcome out (om_denial om)"
  have inv: "run_inv ?now gh hs" by (rule lease_run_inv [OF run])
  show ?thesis
  proof (cases "hs' = hs")
    case False
    then obtain b where b: "account = Some b"
      using op by (auto simp: record_upstream_outcome_def Let_def split: option.splits)
    define hs0 where "hs0 = drop_spent_credential_failure (en_records env) b hs"
    define status where "status = status_of out"
    define writer where "writer = nullish (om_writer om) (en_generation env)"
    have live0: "live_cooldown ?now hs0 a l = Some u"
      using until_spent [OF inv live, of "en_records env" b] live by (simp add: hs0_def live_cooldown_def)
    have r: "hs' = snd (case ?kind of Success \<Rightarrow> record_account_success env b om hs0 | Caller \<Rightarrow> ([], record_concluded b om hs0)
        | Neutral \<Rightarrow> ([], record_concluded b om hs0) | Workspace \<Rightarrow> ([], record_workspace b status ?now hs0)
        | Credential \<Rightarrow> record_credential env b status writer om hs0 | QuotaRefusal \<Rightarrow> record_quota env b status om hs0
        | _ \<Rightarrow> record_transient env b status om hs0)"
    proof -
      have "snd (record_upstream_outcome env (Some b) out om hs) = hs'" "hs' \<noteq> hs" using op b False by simp_all
      then show ?thesis unfolding record_upstream_outcome_def Let_def option.case hs0_def status_def writer_def
        by (simp split: if_splits)
    qed
    show ?thesis
    proof (cases ?kind)
      case Success
      then have "live_cooldown ?now hs' a l = Some u
          \<or> a = b \<and> (\<exists>h. lane_health hs0 b l = Some h \<and> probe_may_clear (Some h) (om_lease om))"
        using until_success [OF live0, of env b] r by simp
      then show ?thesis using clearing_grant [OF inv spent_lane] Success b unfolding hs0_def by fastforce
    next
      case Credential
      then have "live_cooldown ?now hs' a l = Some u \<or> a = b"
        using live0 r by (auto simp: record_credential_def lane_simps live_cooldown_def)
      then show ?thesis using Credential b by auto
    next
      case Workspace
      then have "live_cooldown ?now hs' a l = Some u \<or> a = b \<and> l = None"
        using live0 r by (auto simp: record_workspace_def lane_simps live_cooldown_def)
      then show ?thesis using Workspace b by auto
    next
      case QuotaRefusal
      then show ?thesis using until_quota [OF live0, of env b status] r b by auto
    qed (use r live0 until_transient [OF live0, of env b status] in \<open>simp_all add: live_cooldown_def\<close>)
  qed (use live in simp)
qed

lemma paced_lane:
  assumes run: "lease_run now gh hs" and h: "lane_health hs a l = Some h" "can_acquire_quota_probe_lease (Some h) now"
    and last: "gh_last gh a l = Some t"
  shows "t + 300000 \<le> now"
proof -
  have p: "paced_ok gh a l h" using run_inv_lane [OF lease_run_inv [OF run] h(1)] by (simp add: lane_ok_def)
  have "hl_until h \<noteq> None" using h(2) by (cases "hl_until h") (simp_all add: can_acquire_quota_probe_lease_def live_value_def)
  then obtain s where s: "hl_since h = Some s" using p by (auto simp: paced_ok_def)
  have "t \<le> nullish (hl_last_probe h) s" using p s last by (auto simp: paced_ok_def split: option.split)
  moreover have "now - nullish (hl_last_probe h) s \<ge> 300000"
    using h(2) s by (auto simp: can_acquire_quota_probe_lease_def quota_probe_interval_ms_def split: option.splits)
  ultimately show ?thesis by simp
qed

lemma claimed_lane:
  assumes "store_wf hs" and "c \<in> set (fst (claim_due_probes records eligible ids accounts limit now hs))"
  obtains h where "lane_health hs (cl_account c) (cl_lane c) = Some h" "can_acquire_quota_probe_lease (Some h) now"
proof -
  define chosen where "chosen = take (nat (max 0 limit)) (sort_key (\<lambda>(_, _, h, _). probe_age h)
    (List.map_filter (candidate_of records eligible now hs) accounts))"
  obtain i a l h r where x: "(i, a, l, h, r) \<in> set (enumerate 0 chosen)" "cl_account c = a" "cl_lane c = l"
    using assms(2) by (auto simp: claim_due_probes_def chosen_def [symmetric] Let_def)
  have "(a, l, h, r) \<in> snd ` set (enumerate 0 chosen)" using image_eqI [OF _ x(1), of "(a, l, h, r)" snd] by simp
  then have "(a, l, h, r) \<in> set chosen" by (simp only: set_map [symmetric] map_snd_enumerate)
  from chosen_lane [OF assms(1) this [unfolded chosen_def]] show ?thesis using that x by simp
qed

lemma candidates_distinct:
  assumes "store_wf hs" and "distinct accounts"
  shows "distinct (map fst (List.map_filter (candidate_of records eligible now hs) accounts))"
proof -
  have one: "fst x = account" if "candidate_of records eligible now hs account = Some x" for account x
    using candidate_lane [OF assms(1), of records eligible now account "fst x" "fst (snd x)" "fst (snd (snd x))" "snd (snd (snd x))"] that
    by simp
  have "map fst (List.map_filter (candidate_of records eligible now hs) as)
      = filter (\<lambda>account. candidate_of records eligible now hs account \<noteq> None) as" for as
    by (induction as) (auto simp: List.map_filter_simps one split: option.split)
  then show ?thesis using assms(2) by simp
qed

lemma claims_distinct:
  assumes "store_wf hs" and "distinct accounts"
  shows "distinct (map cl_account (fst (claim_due_probes records eligible ids accounts limit now hs)))"
proof -
  define candidates where "candidates = List.map_filter (candidate_of records eligible now hs) accounts"
  define chosen where "chosen = take (nat (max 0 limit)) (sort_key (\<lambda>(_, _, h, _). probe_age h) candidates)"
  have e: "map cl_account (fst (claim_due_probes records eligible ids accounts limit now hs)) = map fst chosen"
    by (simp add: claim_due_probes_def chosen_def candidates_def Let_def comp_def case_prod_unfold map_snd_enumerate
        flip: map_map [of fst snd, unfolded comp_def])
  have "mset (map fst (sort_key (\<lambda>(_, _, h, _). probe_age h) candidates)) = mset (map fst candidates)" by simp
  then have "distinct (map fst (sort_key (\<lambda>(_, _, h, _). probe_age h) candidates))"
    using candidates_distinct [OF assms] mset_eq_imp_distinct_iff unfolding candidates_def by blast
  then show ?thesis unfolding e chosen_def by (simp only: take_map [symmetric] distinct_take)
qed

text \<open>C30. The pace of quota probes. Whatever happened before, releases, refusals, lifts, conclusions of
probes and manual resets, a request is let through on a cooled lane, and the background prober claims it, no
sooner than five minutes after the last grant of the lane, of either kind or by a manual reset; and one pass of
the prober claims no account twice. Only a manual reset ignores the pace, on purpose
(\<open>manual_reset_ignores_pace\<close>).\<close>

theorem probes_are_paced:
  assumes run: "lease_run now gh hs" and last: "gh_last gh a l = Some t"
  shows "(if fst (try_acquire_probe_lease i a l now hs) \<noteq> None then t + 300000 \<le> now else True)
    \<and> list_all (\<lambda>c. if cl_account c = a \<and> cl_lane c = l then t + 300000 \<le> now else True)
        (fst (claim_due_probes records eligible ids accounts limit now hs))
    \<and> (if distinct accounts
       then distinct (map cl_account (fst (claim_due_probes records eligible ids accounts limit now hs))) else True)"
proof -
  have wf: "store_wf hs" using lease_run_inv [OF run] by (simp add: run_inv_def)
  have "t + 300000 \<le> now" if "fst (try_acquire_probe_lease i a l now hs) = Some j" for j
  proof -
    have "try_acquire_probe_lease i a l now hs = (Some j, snd (try_acquire_probe_lease i a l now hs))"
      using that by (simp add: prod_eq_iff)
    then obtain h where "lane_health hs a l = Some h" "can_acquire_quota_probe_lease (Some h) now" by (rule acquired_lane) blast
    then show ?thesis by (rule paced_lane [OF run _ _ last])
  qed
  moreover have "t + 300000 \<le> now" if c: "c \<in> set (fst (claim_due_probes records eligible ids accounts limit now hs))"
    "cl_account c = a" "cl_lane c = l" for c
  proof -
    obtain h where "lane_health hs (cl_account c) (cl_lane c) = Some h" "can_acquire_quota_probe_lease (Some h) now"
      by (rule claimed_lane [OF wf c(1)])
    then show ?thesis unfolding c(2,3) by (rule paced_lane [OF run _ _ last])
  qed
  ultimately show ?thesis using claims_distinct [OF wf] by (auto simp: list_all_iff)
qed

text \<open>However long an upstream asks for, a health entry never holds an account beyond twenty-four hours
from the clock (cooldown, quota avoidance) or thirty minutes (soft avoidance).\<close>

theorem holds_are_bounded:
  assumes "lease_run now gh hs" and "lane_health hs a l = Some h"
  shows "(case hl_until h of None \<Rightarrow> True | Some u \<Rightarrow> u \<le> now + 86400000)
    \<and> (case hl_avoid_until h of None \<Rightarrow> True | Some u \<Rightarrow> u \<le> now + 86400000)
    \<and> (case hl_soft_until h of None \<Rightarrow> True | Some u \<Rightarrow> u \<le> now + 1800000)"
  using run_inv_lane [OF lease_run_inv [OF assms(1)] assms(2)] by (auto simp: lane_ok_def holds_ok_def split: option.split)


section \<open>Denied workspaces\<close>

text \<open>
  A denied workspace is the one report that takes a deadline away without a lease and without the account
  being taken out of the pool: the entry it writes has no cooldown, no generation and no lease, so that the
  probe of another request no longer owns the lane.
\<close>

lemma workspace_denial_erases_cooldown:
  assumes "classify_outcome out (om_denial om) = Workspace" and "a \<noteq> []"
    and "is_account_admissible a (nullish (om_writer om) (en_generation env)) hs"
  shows "live_cooldown now (snd (record_upstream_outcome env (Some a) out om hs)) a None = None
    \<and> \<not> owns_lease (account_health (snd (record_upstream_outcome env (Some a) out om hs)) a) i"
  using assms by (simp add: record_upstream_outcome_def Let_def record_workspace_def lane_simps live_cooldown_def live_value_def
      healthy_def owns_lease_def, auto)


section \<open>Concrete histories\<close>

definition health_env :: routing_env where
  "health_env = \<lparr>en_records = [], en_date = (\<lambda>_. None), en_number = (\<lambda>_. NaN), en_generation = 0, en_threshold = 3, en_active = None,
     en_alternate = (\<lambda>_. None), en_hold_spent = (\<lambda>_. False)\<rparr>"

definition health_meta :: "rat \<Rightarrow> outcome_meta" where
  "health_meta now = \<lparr>om_retry_after = None, om_reset_at = Some (JNum (Fin 2000000000000)), om_now = now, om_host = None, om_denial = None,
     om_model = None, om_thread = None, om_fixed = False, om_lease = None, om_lease_scope = None, om_promote = None, om_writer = None,
     om_credential = None\<rparr>"

text \<open>A refusal with a reset far ahead, a probe five minutes later, handed back a second after.\<close>

definition cooled_demo :: health where
  "cooled_demo = healthy\<lparr>hl_last_status := Some (Fin 429), hl_last_failure := Some 1000, hl_until := Some 901000,
     hl_avoid_until := Some 21601000, hl_since := Some 1000, hl_source := Some ResetDerived, hl_generation := Some 1\<rparr>"

definition cooled_store :: "health \<Rightarrow> health_store" where
  "cooled_store h = empty_store\<lparr>hs_accounts := [(''a'', h)]\<rparr>"

definition health_ghost :: ghost where
  "health_ghost = granted 7 ''a'' None 301000 (lane_refused ''a'' None no_ghost)"

lemmas health_defs = health_env_def health_meta_def cooled_demo_def cooled_store_def

lemma health_refusal: "snd (record_upstream_outcome health_env (Some ''a'') (Status (Fin 429)) (health_meta 1000) empty_store) = cooled_store cooled_demo"
  by code_simp

lemma health_refused: "refused_lane health_env (Some ''a'') (Status (Fin 429)) (health_meta 1000) empty_store = Some (''a'', None)"
  by code_simp

lemma health_acquire: "try_acquire_probe_lease 7 ''a'' None 301000 (cooled_store cooled_demo) = (Some 7, cooled_store (with_lease 7 301000 cooled_demo))"
  by code_simp

lemma health_run: "lease_run 301000 health_ghost (cooled_store (with_lease 7 301000 cooled_demo))"
proof -
  have "lease_run 1000 no_ghost empty_store" by (rule run_start) simp
  then have "lease_run 1000 (lane_refused ''a'' None no_ghost) (cooled_store cooled_demo)"
    by (rule run_outcome [where om = "health_meta 1000" and env = health_env and account = "Some ''a''" and out = "Status (Fin 429)"
          and fx = "fst (record_upstream_outcome health_env (Some ''a'') (Status (Fin 429)) (health_meta 1000) empty_store)"])
      (simp add: health_meta_def, simp add: health_refusal [symmetric], simp add: health_refused after_outcome_def)
  then have "lease_run 301000 (lane_refused ''a'' None no_ghost) (cooled_store cooled_demo)" by (rule run_later) simp
  then show ?thesis unfolding health_ghost_def by (rule run_acquire [OF _ _ health_acquire refl]) (simp add: lane_refused_def no_ghost_def)
qed

theorem cooldown_outlives_bystanders_witness:
  "live_cooldown 301000 (snd (record_upstream_outcome health_env (Some ''a'') (Status (Fin 200)) (health_meta 301000)
     (cooled_store (with_lease 7 301000 cooled_demo)))) ''a'' None = Some 901000"
proof -
  have m: "om_now (health_meta 301000) = 301000" "om_lease (health_meta 301000) = None" "om_denial (health_meta 301000) = None"
    by (simp_all add: health_meta_def)
  have l: "live_cooldown 301000 (cooled_store (with_lease 7 301000 cooled_demo)) ''a'' None = Some 901000" by code_simp
  have c: "classify_outcome (Status (Fin 200)) None = Success" by code_simp
  show ?thesis
    using cooldown_outlives_bystanders [of "health_meta 301000" health_ghost "cooled_store (with_lease 7 301000 cooled_demo)" "''a''" None 901000
        health_env "Some ''a''" "Status (Fin 200)", OF _ _ prod.collapse [symmetric]] health_run l c m by simp
qed

definition pooled_record :: account_record where
  "pooled_record = \<lparr>ar_credential = True, ar_deleted = False, ar_generation = 1, ar_replaced_at = None\<rparr>"

text \<open>Both probers at once, five minutes after the grant and a second after its release.\<close>

theorem probes_are_paced_witness:
  "fst (try_acquire_probe_lease 8 ''a'' None 602000 (release_probe_lease 7 ''a'' None 302000 (cooled_store (with_lease 7 301000 cooled_demo)))) = Some 8
   \<and> map cl_account (fst (claim_due_probes [(''a'', pooled_record)] (\<lambda>_. True) id [''a''] 1 602000
        (release_probe_lease 7 ''a'' None 302000 (cooled_store (with_lease 7 301000 cooled_demo))))) = [''a'']
   \<and> (301000 :: rat) + 300000 \<le> 602000"
proof -
  let ?hs = "release_probe_lease 7 ''a'' None 302000 (cooled_store (with_lease 7 301000 cooled_demo))"
  have "lease_run 302000 health_ghost (cooled_store (with_lease 7 301000 cooled_demo))" by (rule run_later [OF health_run]) simp
  then have "lease_run 302000 health_ghost ?hs" by (rule run_release) simp
  then have r: "lease_run 602000 health_ghost ?hs" by (rule run_later) simp
  have g: "gh_last health_ghost ''a'' None = Some 301000" by (simp add: health_ghost_def granted_def)
  have a: "fst (try_acquire_probe_lease 8 ''a'' None 602000 ?hs) = Some 8" by code_simp
  have c: "map cl_account (fst (claim_due_probes [(''a'', pooled_record)] (\<lambda>_. True) id [''a''] 1 602000 ?hs)) = [''a'']"
    by code_simp
  show ?thesis using probes_are_paced [OF r g, of 8] a c by simp
qed

text \<open>An operator who asks for a reset gets a grant at once: here a second after the release.\<close>

lemma manual_reset_ignores_pace:
  "(let hs = release_probe_lease 7 ''a'' None 302000 (cooled_store (with_lease 7 301000 cooled_demo))
    in fst (try_acquire_probe_lease 8 ''a'' None 303000 hs) = None
       \<and> length (fst (claim_manual_reset [(''a'', pooled_record)] (\<lambda>_. True) ''main'' id ''a'' 303000 None hs)) = 1)"
  by code_simp

theorem holds_are_bounded_witness:
  "901000 \<le> (301000 :: rat) + 86400000 \<and> 21601000 \<le> (301000 :: rat) + 86400000"
proof -
  have h: "lane_health (cooled_store (with_lease 7 301000 cooled_demo)) ''a'' None = Some (with_lease 7 301000 cooled_demo)"
    by (simp add: cooled_store_def lane_health_def account_health_def)
  show ?thesis using holds_are_bounded [OF health_run h] by (simp add: with_lease_def cooled_demo_def)
qed

end
