(* ===== verification/Pool_Rotation.thy ===== *)
theory Pool_Rotation
  imports Codex_Health
begin

text \<open>
  The rotation kernel of account pools (\<open>oauth/pool-kernel.ts\<close>): validation of its settings, the narrowing
  of an eligible list to a priority tier, and one smooth round robin with stickiness per pool.
\<close>

section \<open>Settings\<close>

datatype pool_strategy = QuotaStrategy | RoundRobinStrategy | FillFirstStrategy | ResetFirstStrategy

definition parse_account_pool_strategy :: "json \<Rightarrow> pool_strategy option" where
  "parse_account_pool_strategy raw =
     (if raw = JStr ''quota'' then Some QuotaStrategy
      else if raw = JStr ''round-robin'' then Some RoundRobinStrategy
      else if raw = JStr ''fill-first'' then Some FillFirstStrategy
      else None)"

definition parse_codex_account_pool_strategy :: "json \<Rightarrow> pool_strategy option" where
  "parse_codex_account_pool_strategy raw =
     (if raw = JStr ''reset-first'' then Some ResetFirstStrategy else parse_account_pool_strategy raw)"

definition normalize_codex_account_pool_strategy :: "json \<Rightarrow> pool_strategy" where
  "normalize_codex_account_pool_strategy raw = nullish (parse_codex_account_pool_strategy raw) QuotaStrategy"

definition normalize_account_pool_strategy :: "json \<Rightarrow> pool_strategy" where
  "normalize_account_pool_strategy raw = nullish (parse_account_pool_strategy raw) QuotaStrategy"

text \<open>An integer between two bounds.\<close>

definition parse_between :: "int \<Rightarrow> int \<Rightarrow> json \<Rightarrow> int option" where
  "parse_between lo hi raw = (case raw of
     JNum (Fin q) \<Rightarrow> if of_int \<lfloor>q\<rfloor> = q \<and> of_int lo \<le> q \<and> q \<le> of_int hi then Some \<lfloor>q\<rfloor> else None
   | _ \<Rightarrow> None)"

definition parse_account_pool_sticky_limit :: "json \<Rightarrow> int option" where
  "parse_account_pool_sticky_limit = parse_between 1 100"

definition normalize_account_pool_sticky_limit :: "json \<Rightarrow> int" where
  "normalize_account_pool_sticky_limit raw = nullish (parse_account_pool_sticky_limit raw) 1"

definition min_account_priority :: int where "min_account_priority = - 100"
definition max_account_priority :: int where "max_account_priority = 100"

definition parse_account_priority :: "json \<Rightarrow> int option" where
  "parse_account_priority = parse_between min_account_priority max_account_priority"

definition normalize_account_priority :: "json \<Rightarrow> int" where
  "normalize_account_priority raw = nullish (parse_account_priority raw) 0"


section \<open>Priority tiers\<close>

definition ceiling_of :: "string list \<Rightarrow> (string \<Rightarrow> int) \<Rightarrow> (string \<Rightarrow> bool) \<Rightarrow> string option \<Rightarrow> int option" where
  "ceiling_of ids priority_of headroom pinned = (case pinned of
     None \<Rightarrow> None
   | Some p \<Rightarrow> if p \<in> set ids \<and> headroom p then Some (priority_of p) else None)"

fun first_live_tier :: "int option \<Rightarrow> string list \<Rightarrow> (string \<Rightarrow> int) \<Rightarrow> (string \<Rightarrow> bool) \<Rightarrow> int list \<Rightarrow> string list option" where
  "first_live_tier cap ids priority_of headroom [] = None"
| "first_live_tier cap ids priority_of headroom (t # ts) =
     (if (case cap of None \<Rightarrow> False | Some c \<Rightarrow> t > c) then first_live_tier cap ids priority_of headroom ts
      else (let members = filter (\<lambda>i. priority_of i = t) ids
        in if list_ex headroom members then Some members
           else first_live_tier cap ids priority_of headroom ts))"

definition select_priority_tier :: "string list \<Rightarrow> (string \<Rightarrow> int) \<Rightarrow> (string \<Rightarrow> bool) \<Rightarrow> string option \<Rightarrow> string list" where
  "select_priority_tier ids priority_of headroom pinned =
     (if length ids \<le> 1 then ids
      else if list_all (\<lambda>i. priority_of i = priority_of (hd ids)) ids then ids
      else nullish (first_live_tier (ceiling_of ids priority_of headroom pinned) ids priority_of headroom
             (rev (sort (remdups (map priority_of ids))))) ids)"


section \<open>Rotation state\<close>

record rotation_state =
  ro_active :: "string option"
  ro_successes :: nat
  ro_weights :: "(string, int) jsmap"

record rotations =
  rt_states :: "(string, rotation_state) jsmap"
  rt_reconciled :: nat

definition fresh_rotation :: rotation_state where
  "fresh_rotation = \<lparr>ro_active = None, ro_successes = 0, ro_weights = []\<rparr>"

definition no_rotations :: rotations where
  "no_rotations = \<lparr>rt_states = [], rt_reconciled = 0\<rparr>"

definition rotation_of :: "rotations \<Rightarrow> string \<Rightarrow> rotation_state" where
  "rotation_of ro pool = nullish (map_of (rt_states ro) pool) fresh_rotation"

definition set_rotation :: "string \<Rightarrow> rotation_state \<Rightarrow> rotations \<Rightarrow> rotations" where
  "set_rotation pool st ro = ro\<lparr>rt_states := AList.update pool st (rt_states ro)\<rparr>"

text \<open>Every id gains its weight; the first with the greatest score pays the total.\<close>

fun scan_weights :: "string list \<Rightarrow> nat \<Rightarrow> (nat \<times> int) option \<Rightarrow> (string, int) jsmap \<Rightarrow> (nat \<times> int) option \<times> (string, int) jsmap" where
  "scan_weights [] i best ws = (best, ws)"
| "scan_weights (x # xs) i best ws =
     (let score = nullish (map_of ws x) 0 + 1
      in scan_weights xs (i + 1) (if (case best of None \<Rightarrow> True | Some (_, b) \<Rightarrow> score > b) then Some (i, score) else best)
           (AList.update x score ws))"

definition pool_weighted_index :: "string list \<Rightarrow> rotation_state \<Rightarrow> nat option \<times> rotation_state" where
  "pool_weighted_index ids st = (case scan_weights ids 0 None (ro_weights st) of
     (None, ws) \<Rightarrow> (None, st\<lparr>ro_weights := ws\<rparr>)
   | (Some (i, _), ws) \<Rightarrow>
       (Some i, st\<lparr>ro_weights := AList.update (ids ! i) (nullish (map_of ws (ids ! i)) 0 - int (length ids)) ws\<rparr>))"

definition next_in_rotation :: "string list \<Rightarrow> json \<Rightarrow> rotation_state \<Rightarrow> bool \<Rightarrow> string option \<times> rotation_state" where
  "next_in_rotation ids sticky st commit = (case pool_weighted_index ids st of
     (None, st1) \<Rightarrow> (None, st1)
   | (Some i, st1) \<Rightarrow>
       (Some (ids ! i), if commit \<and> normalize_account_pool_sticky_limit sticky > 1
          then st1\<lparr>ro_active := Some (ids ! i), ro_successes := 0\<rparr> else st1))"

definition pick_from_rotation :: "string list \<Rightarrow> json \<Rightarrow> rotation_state \<Rightarrow> bool \<Rightarrow> string option \<times> rotation_state" where
  "pick_from_rotation ids sticky st commit =
     (if ids = [] then (None, st)
      else (case ro_active st of
          None \<Rightarrow> next_in_rotation ids sticky st commit
        | Some k \<Rightarrow>
            if k = [] then next_in_rotation ids sticky st commit
            else if k \<in> set ids then (Some k, st)
            else next_in_rotation ids sticky (st\<lparr>ro_active := None, ro_successes := 0\<rparr>) commit))"

definition pick_round_robin_account :: "string \<Rightarrow> string list \<Rightarrow> json \<Rightarrow> rotations \<Rightarrow> string option \<times> rotations" where
  "pick_round_robin_account pool ids sticky ro =
     (case pick_from_rotation ids sticky (rotation_of ro pool) True of (r, st) \<Rightarrow> (r, set_rotation pool st ro))"

definition peek_round_robin_account :: "string \<Rightarrow> string list \<Rightarrow> json \<Rightarrow> rotations \<Rightarrow> string option" where
  "peek_round_robin_account pool ids sticky ro = fst (pick_from_rotation ids sticky (rotation_of ro pool) False)"

definition note_pool_rotation_success :: "string \<Rightarrow> string \<Rightarrow> json \<Rightarrow> rotations \<Rightarrow> rotations" where
  "note_pool_rotation_success pool account sticky ro = (case map_of (rt_states ro) pool of
     None \<Rightarrow> ro
   | Some st \<Rightarrow>
       (let st1 = (if ro_active st \<noteq> Some account then st\<lparr>ro_active := Some account, ro_successes := 0\<rparr> else st);
            st2 = st1\<lparr>ro_successes := ro_successes st1 + 1\<rparr>
        in set_rotation pool
             (if int (ro_successes st2) \<ge> normalize_account_pool_sticky_limit sticky
              then st2\<lparr>ro_active := None, ro_successes := 0\<rparr> else st2) ro))"

definition note_pool_rotation_failure :: "string \<Rightarrow> string \<Rightarrow> rotations \<Rightarrow> rotations" where
  "note_pool_rotation_failure pool account ro = (case map_of (rt_states ro) pool of
     None \<Rightarrow> ro
   | Some st \<Rightarrow> if ro_active st = Some account then set_rotation pool (st\<lparr>ro_active := None, ro_successes := 0\<rparr>) ro else ro)"

definition seed_pool_rotation_account :: "string \<Rightarrow> string \<Rightarrow> rotations \<Rightarrow> rotations" where
  "seed_pool_rotation_account pool account ro = set_rotation pool \<lparr>ro_active = Some account, ro_successes = 0, ro_weights = []\<rparr> ro"

definition clear_pool_rotation_state :: "string option \<Rightarrow> rotations \<Rightarrow> rotations" where
  "clear_pool_rotation_state pool ro = (case pool of
     None \<Rightarrow> ro\<lparr>rt_states := []\<rparr>
   | Some p \<Rightarrow> ro\<lparr>rt_states := AList.delete p (rt_states ro)\<rparr>)"


section \<open>Reconciliation\<close>

definition is_anthropic_instance_id :: "string \<Rightarrow> bool" where
  "is_anthropic_instance_id v \<longleftrightarrow> v = ''anthropic'' \<or> v = ''anthropic2''"

definition generic_pool_key :: "string \<Rightarrow> string" where
  "generic_pool_key provider = ''generic:'' @ provider"

text \<open>Keys of accounts are the provider, a NUL and the id; a key without a provider is skipped.\<close>

definition oauth_ids :: "string list \<Rightarrow> string \<Rightarrow> string list" where
  "oauth_ids keys provider = List.map_filter (\<lambda>key.
     let p = takeWhile (\<lambda>c. c \<noteq> CHR 0x00) key
     in if p \<noteq> [] \<and> p = provider \<and> length p < length key then Some (drop (length p + 1) key) else None) keys"

text \<open>The live ids of a pool; None for a pool the sweep does not know.\<close>

definition live_ids :: "string list \<Rightarrow> string list \<Rightarrow> string \<Rightarrow> string list option" where
  "live_ids codex_ids keys pool =
     (if is_anthropic_instance_id pool then Some (oauth_ids keys pool)
      else if pool = ''codex'' \<or> prefix ''codex:'' pool then Some codex_ids
      else if prefix ''generic:'' pool
      then (let provider = drop 8 pool in Some (if is_anthropic_instance_id provider then [] else oauth_ids keys provider))
      else None)"

definition sweep_rotation :: "string list \<Rightarrow> rotation_state \<Rightarrow> nat \<times> rotation_state" where
  "sweep_rotation valid st =
     (let gone = (case ro_active st of None \<Rightarrow> False | Some k \<Rightarrow> k \<noteq> [] \<and> k \<notin> set valid);
          st1 = (if gone then st\<lparr>ro_active := None, ro_successes := 0\<rparr> else st);
          ws = filter (\<lambda>(a, _). a \<in> set valid) (ro_weights st1)
      in ((if gone then 1 else 0) + (length (ro_weights st1) - length ws), st1\<lparr>ro_weights := ws\<rparr>))"

fun sweep_rotations :: "(string \<Rightarrow> string list option) \<Rightarrow> (string, rotation_state) jsmap \<Rightarrow> nat \<times> (string, rotation_state) jsmap" where
  "sweep_rotations live [] = (0, [])"
| "sweep_rotations live ((pool, st) # rest) =
     (case sweep_rotations live rest of (n, rest') \<Rightarrow>
        (case live pool of
           None \<Rightarrow> (n, (pool, st) # rest')
         | Some valid \<Rightarrow>
             if valid = [] then (n + 1, rest')
             else (case sweep_rotation valid st of (k, st') \<Rightarrow> (n + k, (pool, st') # rest'))))"

definition reconcile_pool_rotation_state :: "nat \<Rightarrow> string list \<Rightarrow> string list \<Rightarrow> rotations \<Rightarrow> nat \<times> rotations" where
  "reconcile_pool_rotation_state generation codex_ids keys ro =
     (if generation \<le> rt_reconciled ro then (0, ro)
      else (case sweep_rotations (live_ids codex_ids keys) (rt_states ro) of (n, states) \<Rightarrow>
          (n, \<lparr>rt_states = states, rt_reconciled = generation\<rparr>)))"

end
