(* ===== verification/Codex_Active.thy ===== *)
theory Codex_Active
  imports Pool_Rotation
begin

text \<open>
  Which account the pool is on (\<open>codex/routing/active-account.ts\<close>): the cursor of automatic picks, the
  choice the operator saved, its pin, and the unspent selection of the operator. The two fields of the
  configuration these functions write, and the number of times they save it, are part of the state.
\<close>

record active_state =
  as_runtime :: "string option"
  as_manual :: "(string, string) jsmap"
  as_saved :: "string option"
  as_pinned :: "string option"
  as_saves :: nat
  as_rotations :: rotations

definition fresh_active :: active_state where
  "fresh_active = \<lparr>as_runtime = None, as_manual = [], as_saved = None, as_pinned = None, as_saves = 0, as_rotations = no_rotations\<rparr>"

text \<open>The account routing is on: the automatic cursor, else the saved choice.\<close>

definition effective_active :: "active_state \<Rightarrow> string option" where
  "effective_active s = (case as_runtime s of Some a \<Rightarrow> Some a | None \<Rightarrow> as_saved s)"

definition is_effective_pinned :: "active_state \<Rightarrow> bool" where
  "is_effective_pinned s \<longleftrightarrow> as_pinned s \<noteq> None \<and> as_pinned s = effective_active s"

definition remember_active :: "string \<Rightarrow> active_state \<Rightarrow> active_state" where
  "remember_active account s = s\<lparr>as_runtime := Some account\<rparr>"

definition release_pin_for :: "string \<Rightarrow> active_state \<Rightarrow> bool \<times> active_state" where
  "release_pin_for account s =
     (if as_pinned s = None \<or> as_pinned s = Some account then (False, s) else (True, s\<lparr>as_pinned := None\<rparr>))"

definition set_active :: "string \<Rightarrow> active_state \<Rightarrow> active_state" where
  "set_active account s =
     (case release_pin_for account (s\<lparr>as_runtime := None\<rparr>) of (released, s1) \<Rightarrow>
        if as_saved s1 = Some account \<and> \<not> released then s1
        else s1\<lparr>as_saved := Some account, as_saves := as_saves s1 + 1\<rparr>)"

definition promote_active :: "pool_strategy \<Rightarrow> string \<Rightarrow> active_state \<Rightarrow> active_state" where
  "promote_active strategy account s =
     (if strategy = QuotaStrategy then set_active account s
      else remember_active account (snd (release_pin_for account s)))"

definition consume_manual_preference :: "string \<Rightarrow> string \<Rightarrow> active_state \<Rightarrow> active_state" where
  "consume_manual_preference account pool s =
     (if map_of (as_manual s) pool = Some account then s\<lparr>as_manual := AList.delete pool (as_manual s)\<rparr> else s)"

definition forget_manual_preference :: "string \<Rightarrow> active_state \<Rightarrow> active_state" where
  "forget_manual_preference account s = s\<lparr>as_manual := filter (\<lambda>(_, a). a \<noteq> account) (as_manual s)\<rparr>"

definition manual_preference_blocks :: "string \<Rightarrow> string \<Rightarrow> active_state \<Rightarrow> bool" where
  "manual_preference_blocks pool account s = (case map_of (as_manual s) pool of None \<Rightarrow> False | Some p \<Rightarrow> p \<noteq> account)"

definition clear_all_manual_preferences :: "active_state \<Rightarrow> active_state" where
  "clear_all_manual_preferences s = s\<lparr>as_manual := []\<rparr>"

definition forget_runtime_active :: "active_state \<Rightarrow> active_state" where
  "forget_runtime_active s = s\<lparr>as_runtime := None\<rparr>"

definition forget_preferences_outside :: "string list \<Rightarrow> active_state \<Rightarrow> active_state" where
  "forget_preferences_outside accounts s = s\<lparr>as_manual := filter (\<lambda>(_, a). a \<in> set accounts) (as_manual s)\<rparr>"

definition with_rotations :: "(rotations \<Rightarrow> rotations) \<Rightarrow> active_state \<Rightarrow> active_state" where
  "with_rotations f s = s\<lparr>as_rotations := f (as_rotations s)\<rparr>"

text \<open>The pools a selection reaches: the shared one and the independent one.\<close>

definition selection_pools :: "string list" where
  "selection_pools = [pool_key_for_scope None, pool_key_for_scope (Some ReserveScope)]"

text \<open>
  What naming an account leaves of an entry: the hard cooldown and its bookkeeping. An entry of which
  nothing is left is deleted.
\<close>

definition overrule :: "health \<Rightarrow> health" where
  "overrule h = (preserved_cooldown_fields (Some h))\<lparr>hl_avoid_until := None\<rparr>"

definition overrule_lane :: "string \<Rightarrow> quota_scope option \<Rightarrow> health \<Rightarrow> health_store \<Rightarrow> health_store" where
  "overrule_lane account lane h hs =
     (if overrule h \<noteq> healthy then set_lane_health account lane (overrule h) hs
      else (case lane of None \<Rightarrow> delete_account_health account hs | Some s \<Rightarrow> delete_scoped_health account s hs))"

definition overrule_health :: "string \<Rightarrow> health_store \<Rightarrow> health_store" where
  "overrule_health account hs =
     (let hs1 = (case account_health hs account of None \<Rightarrow> hs | Some h \<Rightarrow> overrule_lane account None h hs)
      in fold (\<lambda>(s, h). overrule_lane account (Some s) h) (nullish (map_of (hs_scoped hs) account) []) hs1)"

text \<open>The operator names an account; the code also clears the thread map.\<close>

definition reset_for_manual_selection :: "string \<Rightarrow> active_state \<Rightarrow> health_store \<Rightarrow> active_state \<times> health_store" where
  "reset_for_manual_selection account s hs =
     (with_rotations (fold (\<lambda>pool. seed_pool_rotation_account pool account) selection_pools)
        (s\<lparr>as_runtime := None, as_manual := AList.update (pool_key_for_scope None) account (as_manual s)\<rparr>),
      overrule_health account hs)"

definition reset_for_cleared_selection :: "active_state \<Rightarrow> active_state" where
  "reset_for_cleared_selection s =
     with_rotations (fold (\<lambda>pool. clear_pool_rotation_state (Some pool)) selection_pools)
       (s\<lparr>as_runtime := None, as_manual := AList.delete (pool_key_for_scope None) (as_manual s)\<rparr>)"

end
