(* ===== verification/Codex_Usage.thy ===== *)
theory Codex_Usage
  imports Codex_Active
begin

text \<open>
  How full a pool account is (\<open>computeCodexUsageScore\<close> of \<open>codex/routing/cooldown-math.ts\<close>,
  \<open>codex/quota-types.ts\<close>, \<open>codex/account-credit-use.ts\<close>, \<open>codex/plan.ts\<close>), and the settings an account
  is ordered and drained by (\<open>codex/account-auto-switch.ts\<close>, \<open>codex/account-priority.ts\<close>,
  \<open>codex/account-preservation.ts\<close>).
\<close>

section \<open>Quota snapshots\<close>

record credits =
  cr_has :: "bool option"
  cr_unlimited :: "bool option"
  cr_balance :: "jsnum option"
  cr_overage :: "bool option"
  cr_allowed :: "bool option"
  cr_observed :: jsnum

record account_quota =
  aq_weekly :: "jsnum option"
  aq_monthly :: "jsnum option"
  aq_weekly_reset :: "jsnum option"
  aq_monthly_reset :: "jsnum option"
  aq_short :: "jsnum option"
  aq_short_reset :: "jsnum option"
  aq_short_observed :: "jsnum option"
  aq_credits :: "credits option"

definition finite_part :: "jsnum option \<Rightarrow> rat option" where
  "finite_part x = (case x of Some (Fin q) \<Rightarrow> Some q | _ \<Rightarrow> None)"

definition exhausted_percent :: rat where "exhausted_percent = 100"
definition unknown_usage_score :: rat where "unknown_usage_score = 101"
definition credits_freshness_ms :: rat where "credits_freshness_ms = 5 * 60000"
definition terminal_freshness_ms :: rat where "terminal_freshness_ms = 5 * 60000"

definition reset_at_to_ms :: "rat \<Rightarrow> rat" where
  "reset_at_to_ms r = (if r < 10000000000 then r * 1000 else r)"

definition has_spendable_credits :: "account_quota option \<Rightarrow> rat \<Rightarrow> bool" where
  "has_spendable_credits quota now = (case quota of
     None \<Rightarrow> False
   | Some q \<Rightarrow> (case aq_credits q of
        None \<Rightarrow> False
      | Some c \<Rightarrow> (case cr_observed c of
           Fin t \<Rightarrow>
             if now - t < 0 \<or> now - t > credits_freshness_ms \<or> cr_allowed c = Some False \<or> cr_overage c = Some True
               \<or> cr_has c = Some False then False
             else cr_unlimited c = Some True
               \<or> cr_has c = Some True \<and> (case finite_part (cr_balance c) of None \<Rightarrow> False | Some b \<Rightarrow> b > 0)
         | _ \<Rightarrow> False)))"

definition is_terminal_short_window :: "account_quota \<Rightarrow> rat \<Rightarrow> bool" where
  "is_terminal_short_window q now = (case finite_part (aq_short q) of
     None \<Rightarrow> False
   | Some p \<Rightarrow>
       if p < exhausted_percent then False
       else (case finite_part (aq_short_reset q) of
           Some r \<Rightarrow> if r > 0 then reset_at_to_ms r > now
             else (case finite_part (aq_short_observed q) of None \<Rightarrow> False
               | Some t \<Rightarrow> 0 \<le> now - t \<and> now - t \<le> terminal_freshness_ms)
         | None \<Rightarrow> (case finite_part (aq_short_observed q) of None \<Rightarrow> False
             | Some t \<Rightarrow> 0 \<le> now - t \<and> now - t \<le> terminal_freshness_ms)))"

definition plan_key :: "string option \<Rightarrow> string option" where
  "plan_key plan = (case plan of None \<Rightarrow> None
   | Some p \<Rightarrow> if js_trim p = [] then None else Some (to_lower (js_trim p)))"

definition is_thirty_day_plan :: "string option \<Rightarrow> bool" where
  "is_thirty_day_plan plan \<longleftrightarrow> plan_key plan = Some ''go'' \<or> plan_key plan = Some ''free''"

definition usage_score :: "account_quota option \<Rightarrow> string option \<Rightarrow> rat \<Rightarrow> bool \<Rightarrow> rat" where
  "usage_score quota plan now allow_credits = (case quota of
     None \<Rightarrow> unknown_usage_score
   | Some q \<Rightarrow>
       (let long = List.map_filter finite_part (if is_thirty_day_plan plan then [aq_monthly q] else [aq_weekly q, aq_monthly q]);
            paid = allow_credits \<and> has_spendable_credits quota now
        in if long = [] then
             (if is_terminal_short_window q now then (if paid then exhausted_percent - 1 else exhausted_percent)
              else unknown_usage_score)
           else (let values = (case finite_part (aq_short q) of Some s \<Rightarrow> long @ [s] | None \<Rightarrow> long);
                     score = fold max (tl values) (hd values)
             in if paid then min score (exhausted_percent - 1) else score)))"

definition is_unknown_usage :: "rat \<Rightarrow> bool" where
  "is_unknown_usage usage \<longleftrightarrow> usage \<ge> unknown_usage_score"


section \<open>Accounts that spend no credits\<close>

text \<open>
  The resets of the windows that are full now. A percentage that is not a number counts as full, as
  \<open>NaN < 100\<close> is false; a reset that is not finite is taken as absent, as snapshots are read from JSON.
\<close>

definition below :: "jsnum \<Rightarrow> rat \<Rightarrow> bool" where
  "below x c = (case x of Fin q \<Rightarrow> q < c | NegInf \<Rightarrow> True | _ \<Rightarrow> False)"

definition full_long_window :: "rat \<Rightarrow> jsnum option \<times> jsnum option \<Rightarrow> rat option" where
  "full_long_window now w = (case w of
     (None, _) \<Rightarrow> None
   | (Some p, reset) \<Rightarrow> if below p exhausted_percent then None
       else (case finite_part reset of None \<Rightarrow> None
         | Some r \<Rightarrow> if r \<le> 0 then None
             else if reset_at_to_ms r > now then Some (reset_at_to_ms r) else None))"

definition usage_limit_resets :: "account_quota option \<Rightarrow> string option \<Rightarrow> rat \<Rightarrow> rat list" where
  "usage_limit_resets quota plan now = (case quota of
     None \<Rightarrow> []
   | Some q \<Rightarrow>
       (if is_terminal_short_window q now
        then [case finite_part (aq_short_reset q) of
                Some r \<Rightarrow> if r > 0 then reset_at_to_ms r else nullish (finite_part (aq_short_observed q)) now + terminal_freshness_ms
              | None \<Rightarrow> nullish (finite_part (aq_short_observed q)) now + terminal_freshness_ms]
        else [])
       @ List.map_filter (full_long_window now)
           (if is_thirty_day_plan plan then [(aq_monthly q, aq_monthly_reset q)]
            else [(aq_weekly q, aq_weekly_reset q), (aq_monthly q, aq_monthly_reset q)]))"

definition usage_limit_reset_at :: "account_quota option \<Rightarrow> string option \<Rightarrow> rat \<Rightarrow> rat option" where
  "usage_limit_reset_at quota plan now = (case usage_limit_resets quota plan now of
     [] \<Rightarrow> None | r # rs \<Rightarrow> Some (fold max rs r))"

definition is_usage_limit_reached :: "account_quota option \<Rightarrow> string option \<Rightarrow> rat \<Rightarrow> bool" where
  "is_usage_limit_reached quota plan now \<longleftrightarrow> usage_limit_reset_at quota plan now \<noteq> None"

definition is_held_for_credits :: "bool \<Rightarrow> account_quota option \<Rightarrow> string option \<Rightarrow> rat \<Rightarrow> bool" where
  "is_held_for_credits spends quota plan now \<longleftrightarrow>
     \<not> (spends \<and> has_spendable_credits quota now) \<and> is_usage_limit_reached quota plan now"


section \<open>Thresholds and priorities\<close>

definition effective_threshold :: "string list \<Rightarrow> (string, json) jsmap \<Rightarrow> rat option \<Rightarrow> string \<Rightarrow> rat" where
  "effective_threshold use_remaining overrides auto account =
     (if account \<in> set use_remaining then 0
      else (case map_of overrides account of
          None \<Rightarrow> nullish auto 80
        | Some raw \<Rightarrow> (case parse_between 0 100 raw of Some t \<Rightarrow> of_int t | None \<Rightarrow> nullish auto 80)))"

definition stored_priority :: "(string, json) jsmap option \<Rightarrow> string \<Rightarrow> int" where
  "stored_priority priorities account = (case priorities of
     None \<Rightarrow> 0
   | Some m \<Rightarrow> (case map_of m account of None \<Rightarrow> 0 | Some raw \<Rightarrow> normalize_account_priority raw))"

definition selection_priority :: "(string, json) jsmap option \<Rightarrow> bool \<Rightarrow> string list \<Rightarrow> string \<Rightarrow> int" where
  "selection_priority priorities preserve reserved account =
     (if \<not> preserve then stored_priority priorities account
      else stored_priority priorities account
        - (if account \<in> set reserved then max_account_priority - min_account_priority + 1 else 0))"

end
