(* ===== verification/Codex_Select.thy ===== *)
theory Codex_Select
  imports Codex_Usage
begin

text \<open>
  The choice of a pool account for a request without a binding (\<open>codex/routing/selection.ts\<close>,
  \<open>codex/account-usability.ts\<close>): the guards an account has to pass, the eligible list with its tiers, the
  picker of each strategy, the moves on quota, priority and failure. What the code reads of configuration,
  credentials, quota and health at one instant is an environment; the position of an id in the order of
  \<open>localeCompare\<close>, the checks of the native main login and the back-off of refreshes are given there. Two of
  its reads tidy up on the way (\<open>drop_spent_credential_failure\<close>, \<open>recompute\<close>); here only their verdicts count.
\<close>

section \<open>Environment\<close>

record pool_account =
  pa_id :: string
  pa_main :: bool
  pa_plan :: "string option"

record main_credential =
  mc_rejected :: bool
  mc_grant :: bool
  mc_usable :: bool

record select_env =
  se_now :: millis
  se_accounts :: "pool_account list"
  se_paused :: "string list"
  se_excluded_plans :: "string list"
  se_strategy :: json
  se_sticky :: json
  se_priorities :: "(string, json) jsmap option"
  se_preserve :: bool
  se_signed_in :: "string list"
  se_credit_ids :: "string list"
  se_use_remaining :: "string list"
  se_thresholds :: "(string, json) jsmap"
  se_auto_switch :: "rat option"
  se_cache_affinity :: "bool option"
  se_failover_threshold :: "int option"
  se_window_enabled :: bool
  se_detour_pinned :: bool
  se_quota :: "string \<Rightarrow> account_quota option"
  se_main_plan :: "string option"
  se_needs_reauth :: "string \<Rightarrow> bool"
  se_records :: "(string, account_record) jsmap"
  se_pending :: "string \<Rightarrow> bool"
  se_main_duplicate :: "string \<Rightarrow> bool"
  se_hard_locked :: bool
  se_main_blocked :: bool
  se_main_credential :: main_credential
  se_refresh_cooling :: "string \<Rightarrow> bool"
  se_health :: health_store
  se_windows :: failure_windows
  se_snapshot :: live_records
  se_collation :: "string \<Rightarrow> nat"

record select_options =
  so_native_main_only :: bool
  so_token_live :: "bool option"
  so_model_eligible :: "string list option"
  so_denied :: "string list option"
  so_request_owned_main :: bool

definition no_options :: select_options where
  "no_options = \<lparr>so_native_main_only = False, so_token_live = None, so_model_eligible = None, so_denied = None,
     so_request_owned_main = False\<rparr>"

definition clock :: "select_env \<Rightarrow> rat" where
  "clock e = of_int (se_now e)"

definition main_id :: string where
  "main_id = ''__main__''"


section \<open>Accounts\<close>

definition is_id_char :: "char \<Rightarrow> bool" where
  "is_id_char c \<longleftrightarrow> (let n = of_char c :: nat in 48 \<le> n \<and> n \<le> 57 \<or> 65 \<le> n \<and> n \<le> 90 \<or> 97 \<le> n \<and> n \<le> 122
     \<or> c \<in> {CHR ''.'', CHR ''_'', CHR ''-''})"

definition is_valid_account_id :: "string \<Rightarrow> bool" where
  "is_valid_account_id i \<longleftrightarrow> i \<noteq> main_id \<and> 1 \<le> length i \<and> length i \<le> 64 \<and> list_all is_id_char i
     \<and> to_lower i \<notin> {''__proto__'', ''prototype'', ''constructor''}"

definition is_selectable_pool_account :: "pool_account \<Rightarrow> bool" where
  "is_selectable_pool_account r \<longleftrightarrow> \<not> pa_main r \<and> is_valid_account_id (pa_id r)"

definition has_legacy_main :: "pool_account list \<Rightarrow> bool" where
  "has_legacy_main rows \<longleftrightarrow> list_ex (\<lambda>r. \<not> pa_main r \<and> pa_id r = main_id) rows"

definition pool_account_plan :: "select_env \<Rightarrow> string \<Rightarrow> string option" where
  "pool_account_plan e account =
     (if account = main_id then se_main_plan e
      else (case List.find (\<lambda>r. is_selectable_pool_account r \<and> pa_id r = account) (se_accounts e) of
          None \<Rightarrow> None | Some r \<Rightarrow> pa_plan r))"

definition plan_for_selection :: "select_env \<Rightarrow> select_options \<Rightarrow> string \<Rightarrow> string option" where
  "plan_for_selection e so account =
     (if account = main_id \<and> (so_native_main_only so \<or> so_request_owned_main so) then None else pool_account_plan e account)"

definition excluded_plan_keys :: "select_env \<Rightarrow> string list" where
  "excluded_plan_keys e = List.map_filter (\<lambda>p. plan_key (Some p)) (se_excluded_plans e)"

definition is_plan_excluded :: "select_env \<Rightarrow> string \<Rightarrow> bool" where
  "is_plan_excluded e account \<longleftrightarrow> account \<noteq> main_id \<and>
     (case plan_key (pool_account_plan e account) of None \<Rightarrow> False | Some k \<Rightarrow> k \<in> set (excluded_plan_keys e))"

definition spends_credits :: "select_env \<Rightarrow> string \<Rightarrow> bool" where
  "spends_credits e account \<longleftrightarrow> account \<in> set (se_credit_ids e)"

definition is_held_at_usage_limit :: "select_env \<Rightarrow> select_options \<Rightarrow> string \<Rightarrow> bool" where
  "is_held_at_usage_limit e so account \<longleftrightarrow>
     is_held_for_credits (spends_credits e account) (se_quota e account) (plan_for_selection e so account) (clock e)"

definition is_rotation_excluded :: "select_env \<Rightarrow> select_options \<Rightarrow> string \<Rightarrow> bool" where
  "is_rotation_excluded e so account \<longleftrightarrow> is_plan_excluded e account \<or> is_held_at_usage_limit e so account"

definition usage_of :: "select_env \<Rightarrow> select_options \<Rightarrow> string \<Rightarrow> rat" where
  "usage_of e so account = usage_score (se_quota e account) (plan_for_selection e so account) (clock e) (spends_credits e account)"

definition threshold_of :: "select_env \<Rightarrow> string \<Rightarrow> rat" where
  "threshold_of e = effective_threshold (se_use_remaining e) (se_thresholds e) (se_auto_switch e)"

definition priority_of :: "select_env \<Rightarrow> string \<Rightarrow> int" where
  "priority_of e = selection_priority (se_priorities e) (se_preserve e) (se_signed_in e)"


section \<open>Usability\<close>

datatype unusable =
    ModelNotEntitled | MainHardLocked | MainTrafficBlocked | LegacyPoolSentinel | NeedsReauth
  | MainCredentialUnavailable | NotInPool | MissingCredential | DeletedAccount | ValidationPending | DuplicateMain

definition main_unusable_reason :: "select_env \<Rightarrow> select_options \<Rightarrow> unusable option" where
  "main_unusable_reason e so =
     (let c = se_main_credential e
      in if se_hard_locked e then Some MainHardLocked
         else if \<not> so_native_main_only so \<and> se_main_blocked e then Some MainTrafficBlocked
         else if has_legacy_main (se_accounts e) then Some LegacyPoolSentinel
         else if so_native_main_only so then None
         else if so_request_owned_main so then (if so_token_live so = Some False then Some MainCredentialUnavailable else None)
         else if mc_rejected c then Some NeedsReauth
         else if se_needs_reauth e main_id \<and> \<not> mc_grant c then Some NeedsReauth
         else if nullish (so_token_live so) (mc_usable c) then None
         else Some MainCredentialUnavailable)"

definition unusable_reason :: "select_env \<Rightarrow> select_options \<Rightarrow> string \<Rightarrow> unusable option" where
  "unusable_reason e so account =
     (if (case so_model_eligible so of None \<Rightarrow> False | Some ids \<Rightarrow> account \<notin> set ids) then Some ModelNotEntitled
      else if account = main_id then main_unusable_reason e so
      else if \<not> list_ex (\<lambda>r. is_selectable_pool_account r \<and> pa_id r = account) (se_accounts e) then Some NotInPool
      else if se_needs_reauth e account then Some NeedsReauth
      else (case map_of (se_records e) account of
          None \<Rightarrow> Some MissingCredential
        | Some r \<Rightarrow>
            if \<not> ar_credential r then Some MissingCredential
            else if ar_deleted r then Some DeletedAccount
            else if se_pending e account then Some ValidationPending
            else if se_main_duplicate e account then Some DuplicateMain
            else None))"

definition is_usable :: "select_env \<Rightarrow> select_options \<Rightarrow> string \<Rightarrow> bool" where
  "is_usable e so account \<longleftrightarrow> unusable_reason e so account = None"


section \<open>Guards\<close>

definition is_paused :: "select_env \<Rightarrow> string \<Rightarrow> bool" where
  "is_paused e account \<longleftrightarrow> account \<in> set (se_paused e)"

definition is_cooling :: "select_env \<Rightarrow> quota_scope option \<Rightarrow> string \<Rightarrow> bool" where
  "is_cooling e scope account \<longleftrightarrow> quota_health_snapshot account scope (clock e) (se_health e) \<noteq> None"

definition is_quota_avoided :: "select_env \<Rightarrow> quota_scope option \<Rightarrow> string \<Rightarrow> bool" where
  "is_quota_avoided e scope account \<longleftrightarrow> quota_avoid_until account scope (clock e) (se_health e) \<noteq> None"

definition is_soft_avoided :: "select_env \<Rightarrow> string \<Rightarrow> bool" where
  "is_soft_avoided e account \<longleftrightarrow> soft_avoid_until account (clock e) (se_health e) \<noteq> None"

definition steers_away :: "select_env \<Rightarrow> string option \<Rightarrow> string \<Rightarrow> bool" where
  "steers_away e pin account \<longleftrightarrow>
     fst (failure_window_steers_new_threads (se_window_enabled e) pin (se_detour_pinned e) (se_snapshot e) account (se_now e) (se_windows e))"

definition should_failover :: "select_env \<Rightarrow> string \<Rightarrow> bool" where
  "should_failover e account \<longleftrightarrow>
     (let threshold = nullish (se_failover_threshold e) 3
      in threshold > 0 \<and>
        (case account_health (drop_spent_credential_failure (se_records e) account (se_health e)) account of
           None \<Rightarrow> False
         | Some h \<Rightarrow>
             (case hl_last_failure h of None \<Rightarrow> True | Some t \<Rightarrow> t = 0 \<or> clock e - t \<le> 5 * 60000)
             \<and> int (hl_failures h) \<ge> threshold))"

definition is_selectable :: "select_env \<Rightarrow> select_options \<Rightarrow> quota_scope option \<Rightarrow> string \<Rightarrow> bool" where
  "is_selectable e so scope account \<longleftrightarrow>
     \<not> is_paused e account \<and> \<not> is_plan_excluded e account \<and> \<not> is_held_at_usage_limit e so account
     \<and> \<not> is_cooling e scope account \<and> \<not> is_quota_avoided e scope account \<and> \<not> is_soft_avoided e account
     \<and> \<not> se_refresh_cooling e account \<and> is_usable e so account"

datatype block_reason = Paused | PlanExcluded | CreditsOff | CooldownBlock | QuotaAvoided | TransientBlock | UnusableBlock

definition account_block_reason :: "select_env \<Rightarrow> select_options \<Rightarrow> quota_scope option \<Rightarrow> string \<Rightarrow> block_reason option" where
  "account_block_reason e so scope account =
     (if is_paused e account then Some Paused
      else if is_plan_excluded e account then Some PlanExcluded
      else if is_held_at_usage_limit e so account then Some CreditsOff
      else if is_cooling e scope account then Some CooldownBlock
      else if is_quota_avoided e scope account then Some QuotaAvoided
      else if is_soft_avoided e account then Some TransientBlock
      else if se_refresh_cooling e account then Some TransientBlock
      else if \<not> is_usable e so account then Some UnusableBlock
      else None)"

end
