(* ===== verification/Codex_Pick.thy ===== *)
theory Codex_Pick
  imports Codex_Select
begin

text \<open>
  The eligible list and the pickers of \<open>codex/routing/selection.ts\<close>. The mutable part is the state of
  \<open>Codex_Active\<close>; the binding of a thread is an effect, returned.
\<close>

section \<open>The eligible list\<close>

definition without_denied :: "string list \<Rightarrow> string list option \<Rightarrow> string option \<Rightarrow> string list" where
  "without_denied ids denied pinned = (case denied of
     None \<Rightarrow> ids
   | Some ds \<Rightarrow> (let remaining = filter (\<lambda>i. i \<notin> set ds \<or> pinned = Some i) ids in if remaining \<noteq> [] then remaining else ids))"

definition has_headroom :: "select_env \<Rightarrow> select_options \<Rightarrow> string \<Rightarrow> bool" where
  "has_headroom e so account \<longleftrightarrow>
     (let threshold = threshold_of e account; usage = usage_of e so account
      in threshold \<le> 0 \<or> is_unknown_usage usage \<or> usage < threshold)"

definition pool_row_passes ::
    "select_env \<Rightarrow> select_options \<Rightarrow> quota_scope option \<Rightarrow> string option \<Rightarrow> bool \<Rightarrow> string option \<Rightarrow> pool_account \<Rightarrow> bool" where
  "pool_row_passes e so scope exclude skip pin r \<longleftrightarrow>
     is_selectable_pool_account r \<and> exclude \<noteq> Some (pa_id r) \<and> \<not> is_paused e (pa_id r) \<and> \<not> is_plan_excluded e (pa_id r)
     \<and> \<not> is_held_at_usage_limit e so (pa_id r) \<and> \<not> se_needs_reauth e (pa_id r)
     \<and> (\<not> skip \<or> \<not> should_failover e (pa_id r))
     \<and> \<not> is_cooling e scope (pa_id r) \<and> \<not> is_soft_avoided e (pa_id r) \<and> \<not> steers_away e pin (pa_id r)
     \<and> \<not> is_quota_avoided e scope (pa_id r) \<and> \<not> se_refresh_cooling e (pa_id r) \<and> is_usable e so (pa_id r)"

definition main_passes ::
    "select_env \<Rightarrow> select_options \<Rightarrow> quota_scope option \<Rightarrow> string option \<Rightarrow> bool \<Rightarrow> string option \<Rightarrow> bool" where
  "main_passes e so scope exclude skip pin \<longleftrightarrow>
     exclude \<noteq> Some main_id \<and> \<not> is_paused e main_id \<and> \<not> is_cooling e scope main_id \<and> \<not> is_soft_avoided e main_id
     \<and> \<not> steers_away e pin main_id \<and> \<not> is_quota_avoided e scope main_id \<and> \<not> se_refresh_cooling e main_id
     \<and> \<not> is_held_at_usage_limit e so main_id \<and> (\<not> skip \<or> \<not> should_failover e main_id) \<and> is_usable e so main_id"

definition passing_accounts ::
    "select_env \<Rightarrow> select_options \<Rightarrow> quota_scope option \<Rightarrow> string option \<Rightarrow> bool \<Rightarrow> string option \<Rightarrow> string list" where
  "passing_accounts e so scope exclude skip pin =
     (if main_passes e so scope exclude skip pin then [main_id] else [])
     @ map pa_id (filter (pool_row_passes e so scope exclude skip pin) (se_accounts e))"

definition eligible_accounts ::
    "select_env \<Rightarrow> select_options \<Rightarrow> quota_scope option \<Rightarrow> string option \<Rightarrow> bool \<Rightarrow> string option \<Rightarrow> string list" where
  "eligible_accounts e so scope exclude skip pin =
     select_priority_tier (without_denied (passing_accounts e so scope exclude skip pin) (so_denied so) pin)
       (priority_of e) (has_headroom e so) pin"

definition strategy_for_scope :: "select_env \<Rightarrow> quota_scope option \<Rightarrow> pool_strategy" where
  "strategy_for_scope e scope =
     (let s = normalize_codex_account_pool_strategy (se_strategy e)
      in if s = ResetFirstStrategy \<and> is_independent scope then QuotaStrategy else s)"

definition sticky_limit :: "select_env \<Rightarrow> json" where
  "sticky_limit e = JNum (Fin (of_int (normalize_account_pool_sticky_limit (se_sticky e))))"

definition is_cache_affinity_enabled :: "select_env \<Rightarrow> bool" where
  "is_cache_affinity_enabled e \<longleftrightarrow> se_cache_affinity e \<noteq> Some False"

definition has_shared_headroom :: "select_env \<Rightarrow> quota_scope option \<Rightarrow> select_options \<Rightarrow> string \<Rightarrow> bool" where
  "has_shared_headroom e scope so account \<longleftrightarrow>
     (if \<not> is_cache_affinity_enabled e \<or> strategy_for_scope e scope \<noteq> QuotaStrategy then has_headroom e so account
      else is_unknown_usage (usage_of e so account) \<or> usage_of e so account < 100)"


section \<open>Pickers\<close>

text \<open>The least usage, the first of equals.\<close>

fun least_usage :: "(string \<Rightarrow> rat) \<Rightarrow> string \<Rightarrow> string list \<Rightarrow> string" where
  "least_usage usage best [] = best"
| "least_usage usage best (i # xs) = least_usage usage (if usage i < usage best then i else best) xs"

definition pick_lowest_usage_among :: "select_env \<Rightarrow> select_options \<Rightarrow> string list \<Rightarrow> string option" where
  "pick_lowest_usage_among e so ids = (case ids of [] \<Rightarrow> None | i # xs \<Rightarrow> Some (least_usage (usage_of e so) i xs))"

fun lower_usage :: "(string \<Rightarrow> rat) \<Rightarrow> string \<Rightarrow> rat \<Rightarrow> string list \<Rightarrow> string" where
  "lower_usage usage best best_usage [] = best"
| "lower_usage usage best best_usage (i # xs) =
     (if usage i < best_usage then lower_usage usage i (usage i) xs else lower_usage usage best best_usage xs)"

definition pick_lower_usage_account ::
    "select_env \<Rightarrow> select_options \<Rightarrow> quota_scope option \<Rightarrow> string option \<Rightarrow> string \<Rightarrow> rat \<Rightarrow> bool \<Rightarrow> string" where
  "pick_lower_usage_account e so scope pin active active_usage skip =
     lower_usage (usage_of e so) active active_usage (eligible_accounts e so scope (Some active) skip pin)"

text \<open>The next reset of an account; None is \<open>Infinity\<close>.\<close>

definition next_reset :: "select_env \<Rightarrow> string \<Rightarrow> rat option" where
  "next_reset e account =
     smallest None (map Some (filter (\<lambda>r. r > clock e) (map reset_at_to_ms (List.map_filter finite_part
       (case se_quota e account of None \<Rightarrow> [] | Some q \<Rightarrow> [aq_short_reset q, aq_weekly_reset q])))))"

definition sooner :: "rat option \<Rightarrow> rat option \<Rightarrow> bool" where
  "sooner x y = (case (x, y) of (None, _) \<Rightarrow> False | (Some _, None) \<Rightarrow> True | (Some a, Some b) \<Rightarrow> a < b)"

fun soonest :: "(string \<Rightarrow> rat option) \<Rightarrow> rat option \<Rightarrow> string list \<Rightarrow> string list \<Rightarrow> string list" where
  "soonest reset earliest candidates [] = candidates"
| "soonest reset earliest candidates (i # xs) =
     (if sooner (reset i) earliest then soonest reset (reset i) [i] xs
      else if reset i = earliest then soonest reset earliest (candidates @ [i]) xs
      else soonest reset earliest candidates xs)"

definition pick_reset_first :: "select_env \<Rightarrow> select_options \<Rightarrow> string list \<Rightarrow> string option" where
  "pick_reset_first e so ids =
     (let available = filter (has_headroom e so) ids
      in if available = [] then pick_lowest_usage_among e so ids
         else pick_lowest_usage_among e so (soonest (next_reset e) None [] available))"

definition first_with_headroom :: "select_env \<Rightarrow> select_options \<Rightarrow> string list \<Rightarrow> string option" where
  "first_with_headroom e so ids = (case List.find (has_headroom e so) ids of
     Some i \<Rightarrow> Some i
   | None \<Rightarrow> (case ids of [] \<Rightarrow> None | i # _ \<Rightarrow> Some i))"

definition stable_order :: "select_env \<Rightarrow> string list \<Rightarrow> string list" where
  "stable_order e ids = sort_key (se_collation e) ids"

definition all_configured :: "select_env \<Rightarrow> select_options \<Rightarrow> string \<Rightarrow> string list" where
  "all_configured e so after =
     (if is_usable e so main_id \<or> after = main_id then [main_id] else [])
     @ map pa_id (filter (\<lambda>r. \<not> pa_main r) (se_accounts e))"

text \<open>The accounts after one of a list, wrapping, itself last; None when it is not there.\<close>

definition successors :: "string list \<Rightarrow> string \<Rightarrow> string list option" where
  "successors all after = (if after \<in> set all
     then (let i = length (takeWhile (\<lambda>x. x \<noteq> after) all) in Some (drop (i + 1) all @ take (i + 1) all)) else None)"

definition pick_next_fill_first :: "select_env \<Rightarrow> select_options \<Rightarrow> string option \<Rightarrow> string list \<Rightarrow> string option" where
  "pick_next_fill_first e so after eligible =
     (if eligible = [] then None
      else (let ordered = stable_order e eligible
        in case after of
            None \<Rightarrow> first_with_headroom e so ordered
          | Some a \<Rightarrow>
              if a = [] then first_with_headroom e so ordered
              else (case successors (stable_order e (rev (remdups (rev (all_configured e so a))))) a of
                  None \<Rightarrow> first_with_headroom e so ordered
                | Some next \<Rightarrow> (case first_with_headroom e so (filter (\<lambda>i. i \<in> set eligible) next) of
                      Some i \<Rightarrow> Some i
                    | None \<Rightarrow> Some (hd ordered)))))"

definition pick_fill_first ::
    "select_env \<Rightarrow> select_options \<Rightarrow> quota_scope option \<Rightarrow> active_state \<Rightarrow> string option" where
  "pick_fill_first e so scope s =
     (let eligible = eligible_accounts e so scope None False (as_pinned s); active = effective_active s
      in if eligible = [] then None
         else (case active of
             None \<Rightarrow> pick_next_fill_first e so None eligible
           | Some a \<Rightarrow> if a \<noteq> [] \<and> a \<in> set eligible \<and> has_headroom e so a then Some a
               else pick_next_fill_first e so (Some a) eligible))"

definition shares_active_selection :: "select_options \<Rightarrow> string \<Rightarrow> bool" where
  "shares_active_selection so account \<longleftrightarrow> \<not> (account = main_id \<and> so_request_owned_main so)"

text \<open>The alternate after an excluded account, and what it would be.\<close>

definition pick_alternate ::
    "select_env \<Rightarrow> select_options \<Rightarrow> quota_scope option \<Rightarrow> string \<Rightarrow> active_state \<Rightarrow> string option \<times> active_state" where
  "pick_alternate e so scope exclude s =
     (let eligible = eligible_accounts e so scope (Some exclude) False (as_pinned s)
      in case strategy_for_scope e scope of
          RoundRobinStrategy \<Rightarrow>
            (case pick_round_robin_account (pool_key_for_scope scope) eligible (sticky_limit e) (as_rotations s) of
               (r, ro) \<Rightarrow> (r, s\<lparr>as_rotations := ro\<rparr>))
        | FillFirstStrategy \<Rightarrow> (pick_next_fill_first e so (Some exclude) eligible, s)
        | ResetFirstStrategy \<Rightarrow> (pick_reset_first e so eligible, s)
        | QuotaStrategy \<Rightarrow> (pick_lowest_usage_among e so eligible, s))"

definition peek_alternate ::
    "select_env \<Rightarrow> select_options \<Rightarrow> quota_scope option \<Rightarrow> string \<Rightarrow> active_state \<Rightarrow> string option" where
  "peek_alternate e so scope exclude s =
     (if strategy_for_scope e scope = RoundRobinStrategy
      then peek_round_robin_account (pool_key_for_scope scope) (eligible_accounts e so scope (Some exclude) False (as_pinned s))
             (sticky_limit e) (as_rotations s)
      else fst (pick_alternate e so scope exclude s))"


section \<open>Requests without a binding\<close>

text \<open>The cursor follows an automatic pick unless an unspent selection of the operator names another account.\<close>

definition follow_pick ::
    "select_options \<Rightarrow> quota_scope option \<Rightarrow> bool \<Rightarrow> string \<Rightarrow> active_state \<Rightarrow> active_state" where
  "follow_pick so scope commit_shared picked s =
     (if commit_shared \<and> shares_active_selection so picked \<and> \<not> is_independent scope
         \<and> \<not> manual_preference_blocks (pool_key_for_scope scope) picked s
      then remember_active picked s else s)"

definition pick_unbound_strategy ::
    "select_env \<Rightarrow> select_options \<Rightarrow> quota_scope option \<Rightarrow> string option \<Rightarrow> bool \<Rightarrow> bool \<Rightarrow> bool \<Rightarrow> active_state
      \<Rightarrow> string option \<times> (string \<times> string) option \<times> active_state" where
  "pick_unbound_strategy e so scope thread commit commit_shared commit_affinity s =
     (let eligible = eligible_accounts e so scope None False (as_pinned s);
          bind = (\<lambda>picked. case thread of None \<Rightarrow> None | Some t \<Rightarrow> if commit_affinity \<and> t \<noteq> [] then Some (t, picked) else None)
      in case strategy_for_scope e scope of
          QuotaStrategy \<Rightarrow> (None, None, s)
        | RoundRobinStrategy \<Rightarrow>
            if \<not> commit then (peek_round_robin_account (pool_key_for_scope scope) eligible (sticky_limit e) (as_rotations s), None, s)
            else (case pick_round_robin_account (pool_key_for_scope scope) eligible (sticky_limit e) (as_rotations s) of
                (None, ro) \<Rightarrow> (None, None, s\<lparr>as_rotations := ro\<rparr>)
              | (Some picked, ro) \<Rightarrow>
                  (Some picked, bind picked,
                   with_rotations (note_pool_rotation_success (pool_key_for_scope scope) picked (sticky_limit e))
                     (follow_pick so scope commit_shared picked (s\<lparr>as_rotations := ro\<rparr>))))
        | strategy \<Rightarrow>
            (case (if strategy = ResetFirstStrategy then pick_reset_first e so eligible else pick_fill_first e so scope s) of
               None \<Rightarrow> (None, None, s)
             | Some picked \<Rightarrow> (Some picked, bind picked, follow_pick so scope commit_shared picked s)))"


section \<open>Moves of the active account\<close>

definition prefer_model_entitled ::
    "select_env \<Rightarrow> select_options \<Rightarrow> quota_scope option \<Rightarrow> string \<Rightarrow> active_state \<Rightarrow> string" where
  "prefer_model_entitled e so scope active s = (case so_denied so of
     None \<Rightarrow> active
   | Some denied \<Rightarrow>
       if active \<notin> set denied then active
       else if as_pinned s = Some active then active
       else nullish (pick_lowest_usage_among e so
              (filter (\<lambda>i. i \<notin> set denied) (eligible_accounts e so scope (Some active) False (as_pinned s)))) active)"

definition pick_priority_preemption ::
    "select_env \<Rightarrow> select_options \<Rightarrow> quota_scope option \<Rightarrow> string \<Rightarrow> active_state \<Rightarrow> string option" where
  "pick_priority_preemption e so scope active s =
     (let eligible = eligible_accounts e so scope None False (as_pinned s)
      in if eligible = [] \<or> active \<in> set eligible then None
         else if (case as_pinned s of None \<Rightarrow> False | Some p \<Rightarrow> p \<in> set eligible \<and> has_headroom e so p) then None
         else if priority_of e (hd eligible) \<le> priority_of e active then None
         else pick_lowest_usage_among e so (filter (has_headroom e so) eligible))"

definition commits_shared :: "select_options \<Rightarrow> quota_scope option \<Rightarrow> bool \<Rightarrow> string \<Rightarrow> bool" where
  "commits_shared so scope commit best \<longleftrightarrow> commit \<and> \<not> is_independent scope \<and> shares_active_selection so best"

definition apply_quota_auto_switch ::
    "select_env \<Rightarrow> select_options \<Rightarrow> quota_scope option \<Rightarrow> bool \<Rightarrow> string \<Rightarrow> active_state \<Rightarrow> string \<times> active_state" where
  "apply_quota_auto_switch e so scope commit active s =
     (let threshold = threshold_of e active; usage = usage_of e so active
      in if threshold \<le> 0 \<or> is_unknown_usage usage \<or> usage < threshold then (active, s)
         else (let best = pick_lower_usage_account e so scope (as_pinned s) active usage False
           in if best = active then (active, s)
              else (best, if commits_shared so scope commit best then set_active best s else s)))"

definition is_healthy_shared_selection :: "select_env \<Rightarrow> select_options \<Rightarrow> quota_scope option \<Rightarrow> string \<Rightarrow> bool" where
  "is_healthy_shared_selection e so scope account \<longleftrightarrow>
     is_selectable e so scope account \<and> has_shared_headroom e scope so account
     \<and> \<not> has_unrecovered_quota_refusal account scope (se_health e) \<and> \<not> should_failover e account"

definition shared_state_options :: "select_options \<Rightarrow> select_options" where
  "shared_state_options so = no_options\<lparr>so_native_main_only := so_native_main_only so, so_token_live := so_token_live so,
     so_request_owned_main := so_request_owned_main so\<rparr>"

definition options_for_model_detour :: "select_env \<Rightarrow> select_options \<Rightarrow> quota_scope option \<Rightarrow> select_options" where
  "options_for_model_detour e so scope = (case so_model_eligible so of
     None \<Rightarrow> so
   | Some ids \<Rightarrow> so\<lparr>so_model_eligible := Some (filter (is_healthy_shared_selection e (shared_state_options so) scope) ids)\<rparr>)"

definition apply_failure_failover ::
    "select_env \<Rightarrow> select_options \<Rightarrow> quota_scope option \<Rightarrow> bool \<Rightarrow> string \<Rightarrow> active_state \<Rightarrow> string \<times> active_state" where
  "apply_failure_failover e so scope commit active s =
     (if \<not> should_failover e active \<and> \<not> steers_away e (as_pinned s) active then (active, s)
      else (case pick_alternate e so scope active s of
          (None, s1) \<Rightarrow> (active, s1)
        | (Some best, s1) \<Rightarrow>
            if best = [] then (active, s1)
            else (best, if commits_shared so scope commit best
                        then promote_active (normalize_codex_account_pool_strategy (se_strategy e)) best s1 else s1)))"

end
