(* ===== verification/Pool_Rotation_Properties.thy ===== *)
theory Pool_Rotation_Properties
  imports Pool_Rotation
begin

text \<open>What the rotation kernel promises: the tier it narrows to, the order it serves, dry runs and sweeps.\<close>

section \<open>Tiers\<close>

definition within_cap :: "int option \<Rightarrow> int \<Rightarrow> bool" where
  "within_cap cap t \<longleftrightarrow> (case cap of None \<Rightarrow> True | Some c \<Rightarrow> t \<le> c)"

lemma first_live_tier_Some:
  assumes "first_live_tier cap ids pr live ts = Some ms" and "sorted_wrt (\<ge>) ts"
  shows "\<exists>t \<in> set ts. within_cap cap t \<and> ms = filter (\<lambda>i. pr i = t) ids \<and> list_ex live ms
    \<and> (\<forall>u \<in> set ts. u > t \<longrightarrow> within_cap cap u \<longrightarrow> \<not> list_ex live (filter (\<lambda>i. pr i = u) ids))"
  using assms
proof (induction ts)
  case (Cons t ts)
  show ?case
  proof (cases "within_cap cap t \<and> list_ex live (filter (\<lambda>i. pr i = t) ids)")
    case True
    then have "ms = filter (\<lambda>i. pr i = t) ids" using Cons.prems(1) by (auto simp: within_cap_def Let_def split: option.splits if_splits)
    then show ?thesis using True Cons.prems(2) by auto
  next
    case False
    then have "first_live_tier cap ids pr live ts = Some ms"
      using Cons.prems(1) by (auto simp: within_cap_def Let_def split: option.splits if_splits)
    from Cons.IH [OF this] Cons.prems(2) False show ?thesis by auto
  qed
qed simp

lemma first_live_tier_None:
  "first_live_tier cap ids pr live ts = None \<Longrightarrow> t \<in> set ts \<Longrightarrow> within_cap cap t \<Longrightarrow> \<not> list_ex live (filter (\<lambda>i. pr i = t) ids)"
  by (induction ts) (auto simp: within_cap_def Let_def split: option.splits if_splits)

lemma tiers_of: "set (rev (sort (remdups (map pr ids)))) = pr ` set ids" "sorted_wrt (\<ge>) (rev (sort (remdups (map pr ids))) :: int list)"
  by (simp_all add: sorted_wrt_rev)

definition allowed :: "string list \<Rightarrow> (string \<Rightarrow> int) \<Rightarrow> (string \<Rightarrow> bool) \<Rightarrow> string option \<Rightarrow> string \<Rightarrow> bool" where
  "allowed ids pr live pin i \<longleftrightarrow> live i \<and> within_cap (ceiling_of ids pr live pin) (pr i)"

lemma one_tier:
  fixes pr :: "string \<Rightarrow> int"
  assumes "length ids \<le> 1 \<or> list_all (\<lambda>i. pr i = pr (hd ids)) ids" and "j \<in> set ids"
  shows "filter (\<lambda>i. pr i = pr j) ids = ids \<and> (\<forall>i \<in> set ids. pr i \<le> pr j)"
proof -
  have "pr i = pr (hd ids)" if "i \<in> set ids" for i
    using assms(1) that by (cases ids) (auto simp: list_all_iff)
  then have "\<forall>i \<in> set ids. pr i = pr j" using assms(2) by metis
  then show ?thesis by (auto simp: filter_id_conv)
qed

lemma tier_cases:
  shows "if list_ex (allowed ids pr live pin) ids
    then \<exists>i \<in> set ids. allowed ids pr live pin i \<and> select_priority_tier ids pr live pin = filter (\<lambda>j. pr j = pr i) ids
      \<and> list_all (\<lambda>j. if allowed ids pr live pin j then pr j \<le> pr i else True) ids
    else select_priority_tier ids pr live pin = ids"
proof -
  let ?cap = "ceiling_of ids pr live pin" and ?ts = "rev (sort (remdups (map pr ids)))"
  let ?r = "select_priority_tier ids pr live pin"
  show ?thesis
  proof (cases "length ids \<le> 1 \<or> list_all (\<lambda>i. pr i = pr (hd ids)) ids")
    case True
    then have "?r = ids" by (auto simp: select_priority_tier_def)
    then show ?thesis using one_tier [OF True] by (fastforce simp: list_ex_iff list_all_iff)
  next
    case False
    then have r: "?r = nullish (first_live_tier ?cap ids pr live ?ts) ids" by (simp add: select_priority_tier_def)
    have live: "list_ex live (filter (\<lambda>i. pr i = t) ids) \<longleftrightarrow> (\<exists>i \<in> set ids. pr i = t \<and> live i)" for t
      by (auto simp: list_ex_iff)
    show ?thesis
    proof (cases "first_live_tier ?cap ids pr live ?ts")
      case None
      have "\<not> allowed ids pr live pin i" if "i \<in> set ids" for i
        using first_live_tier_None [OF None, of "pr i"] that tiers_of(1) [of pr ids] by (auto simp: allowed_def live)
      then show ?thesis using r None by (simp add: list_ex_iff)
    next
      case (Some ms)
      from first_live_tier_Some [OF Some tiers_of(2)] obtain t where t: "within_cap ?cap t" "ms = filter (\<lambda>i. pr i = t) ids"
        "list_ex live ms" and top: "\<And>u. u \<in> pr ` set ids \<Longrightarrow> u > t \<Longrightarrow> within_cap ?cap u \<Longrightarrow> \<not> list_ex live (filter (\<lambda>i. pr i = u) ids)"
        unfolding tiers_of(1) by blast
      obtain i where i: "i \<in> set ids" "pr i = t" "live i" using t(2,3) by (auto simp: live)
      then have a: "allowed ids pr live pin i" using t(1) by (simp add: allowed_def)
      have "pr j \<le> pr i" if "j \<in> set ids" "allowed ids pr live pin j" for j
        using top [of "pr j"] that i(2) by (fastforce simp: allowed_def live)
      then have best: "list_all (\<lambda>j. if allowed ids pr live pin j then pr j \<le> pr i else True) ids" by (simp add: list_all_iff)
      have "list_ex (allowed ids pr live pin) ids" using a i(1) by (auto simp: list_ex_iff)
      moreover have "?r = filter (\<lambda>j. pr j = pr i) ids" using r Some t(2) i(2) by simp
      ultimately show ?thesis using a i(1) best by (simp only: if_True) blast
    qed
  qed
qed

text \<open>The narrowing to a tier never empties a list and never adds to it. When some account still has
headroom, not above the tier of a live pin, the answer is exactly the accounts of the highest priority
that such an account has, in their order; otherwise it is the list as it came.\<close>

theorem tier_is_best_live:
  "if list_ex (allowed ids pr live pin) ids
    then \<exists>i \<in> set ids. allowed ids pr live pin i \<and> select_priority_tier ids pr live pin = filter (\<lambda>j. pr j = pr i) ids
      \<and> list_all (\<lambda>j. if allowed ids pr live pin j then pr j \<le> pr i else True) ids
    else select_priority_tier ids pr live pin = ids"
  by (rule tier_cases)

lemma tier_subset: "set (select_priority_tier ids pr live pin) \<subseteq> set ids"
  using tier_cases [of ids pr live pin] by (auto split: if_splits)

lemma tier_empty: "select_priority_tier ids pr live pin = [] \<longleftrightarrow> ids = []"
proof
  assume e: "select_priority_tier ids pr live pin = []"
  show "ids = []"
  proof (cases "list_ex (allowed ids pr live pin) ids")
    case True
    then obtain i where "i \<in> set ids" "select_priority_tier ids pr live pin = filter (\<lambda>j. pr j = pr i) ids"
      using tier_cases [of ids pr live pin] by auto
    then have "i \<in> set (select_priority_tier ids pr live pin)" by simp
    then show ?thesis using e by simp
  qed (use tier_cases [of ids pr live pin] e in simp)
qed (simp add: select_priority_tier_def)


section \<open>The order of service\<close>

definition weight_in :: "(string, int) jsmap \<Rightarrow> string \<Rightarrow> int" where
  "weight_in ws x = nullish (map_of ws x) 0"

lemma weight_update [simp]: "weight_in (AList.update k v ws) x = (if x = k then v else weight_in ws x)"
  by (simp add: weight_in_def)

lemma scan_weights_lookup:
  "distinct xs \<Longrightarrow> weight_in (snd (scan_weights xs i best ws)) x = weight_in ws x + (if x \<in> set xs then 1 else 0)"
proof (induction xs arbitrary: i best ws)
  case (Cons y ys)
  have "weight_in (AList.update y (weight_in ws y + 1) ws) x = weight_in ws x + (if x = y then 1 else 0)" by simp
  then show ?case using Cons by (auto simp: Let_def weight_in_def [symmetric])
qed simp

lemma scan_weights_keeps:
  "distinct xs \<Longrightarrow> (\<And>x. x \<in> set xs \<Longrightarrow> weight_in ws x + 1 \<le> s) \<Longrightarrow> fst (scan_weights xs i (Some (b, s)) ws) = Some (b, s)"
proof (induction xs arbitrary: i ws)
  case (Cons y ys)
  have "weight_in (AList.update y (weight_in ws y + 1) ws) x + 1 \<le> s" if "x \<in> set ys" for x
    using Cons.prems(1) Cons.prems(2) [of x] that by auto
  then show ?case using Cons.IH Cons.prems(1) Cons.prems(2) [of y] by (simp add: Let_def weight_in_def [symmetric])
qed simp

lemma scan_weights_best:
  assumes "distinct xs" and "j < length xs" and "\<And>k. k < j \<Longrightarrow> weight_in ws (xs ! k) < weight_in ws (xs ! j)"
    and "\<And>k. k < length xs \<Longrightarrow> weight_in ws (xs ! k) \<le> weight_in ws (xs ! j)"
    and "case best of None \<Rightarrow> True | Some (_, s) \<Rightarrow> s < weight_in ws (xs ! j) + 1"
  shows "fst (scan_weights xs i best ws) = Some (i + j, weight_in ws (xs ! j) + 1)"
  using assms
proof (induction xs arbitrary: i j best ws)
  case (Cons y ys)
  let ?ws = "AList.update y (weight_in ws y + 1) ws"
  let ?best = "if (case best of None \<Rightarrow> True | Some (_, s) \<Rightarrow> weight_in ws y + 1 > s) then Some (i, weight_in ws y + 1) else best"
  have step: "scan_weights (y # ys) i best ws = scan_weights ys (i + 1) ?best ?ws"
    unfolding weight_in_def by (simp add: Let_def)
  have same: "weight_in ?ws x = weight_in ws x" if "x \<in> set ys" for x using that Cons.prems(1) by auto
  show ?case
  proof (cases j)
    case 0
    have "?best = Some (i, weight_in ws y + 1)" using Cons.prems(5) 0 by (auto split: option.splits)
    moreover have "weight_in ?ws x + 1 \<le> weight_in ws y + 1" if x: "x \<in> set ys" for x
    proof -
      obtain k where "k < length ys" "x = ys ! k" using x by (auto simp: in_set_conv_nth)
      then show ?thesis using Cons.prems(4) [of "Suc k"] 0 same [OF x] by simp
    qed
    ultimately show ?thesis unfolding step using scan_weights_keeps [of ys ?ws "weight_in ws y + 1"] Cons.prems(1) 0 by simp
  next
    case (Suc m)
    have m: "m < length ys" using Cons.prems(2) Suc by simp
    have at: "weight_in ?ws (ys ! k) = weight_in ws (ys ! k)" if "k < length ys" for k using same that by simp
    have "fst (scan_weights ys (i + 1) ?best ?ws) = Some (i + 1 + m, weight_in ?ws (ys ! m) + 1)"
    proof (rule Cons.IH)
      show "distinct ys" using Cons.prems(1) by simp
      show "weight_in ?ws (ys ! k) < weight_in ?ws (ys ! m)" if "k < m" for k
        using Cons.prems(3) [of "Suc k"] that m Suc by (simp add: at del: weight_update)
      show "weight_in ?ws (ys ! k) \<le> weight_in ?ws (ys ! m)" if "k < length ys" for k
        using Cons.prems(4) [of "Suc k"] that m Suc by (simp add: at del: weight_update)
      show "case ?best of None \<Rightarrow> True | Some (_, s) \<Rightarrow> s < weight_in ?ws (ys ! m) + 1"
        using Cons.prems(3) [of 0] Cons.prems(5) m Suc by (auto simp: at simp del: weight_update split: option.splits)
    qed (rule m)
    then show ?thesis unfolding step using Suc m by (simp add: at del: weight_update)
  qed
qed simp


text \<open>Serving: pick, and the account answers with success.\<close>

fun serve_rotation :: "string \<Rightarrow> string list \<Rightarrow> json \<Rightarrow> nat \<Rightarrow> rotations \<Rightarrow> string option list \<times> rotations" where
  "serve_rotation pool ids sticky 0 ro = ([], ro)"
| "serve_rotation pool ids sticky (Suc n) ro =
     (case pick_round_robin_account pool ids sticky ro of (r, ro1) \<Rightarrow>
        (case serve_rotation pool ids sticky n
            (case r of None \<Rightarrow> ro1 | Some a \<Rightarrow> note_pool_rotation_success pool a sticky ro1) of
          (rs, ro2) \<Rightarrow> (r # rs, ro2)))"

text \<open>The state when the account at \<open>j\<close> has served \<open>m\<close> of its turn.\<close>

definition cycle_weights :: "string list \<Rightarrow> nat \<Rightarrow> (string, int) jsmap \<Rightarrow> bool" where
  "cycle_weights ids j ws \<longleftrightarrow> (\<forall>i < length ids. weight_in ws (ids ! i) = (if i < j then int j - int (length ids) else int j))"

definition in_cycle :: "string list \<Rightarrow> nat \<Rightarrow> nat \<Rightarrow> rotation_state \<Rightarrow> bool" where
  "in_cycle ids j m st \<longleftrightarrow> (if m = 0 then ro_active st = None \<and> cycle_weights ids j (ro_weights st)
     else ro_active st = Some (ids ! j) \<and> ro_successes st = m \<and> cycle_weights ids (Suc j) (ro_weights st))"

lemma cycle_wraps: "cycle_weights ids (length ids) ws \<Longrightarrow> cycle_weights ids 0 ws"
  by (simp add: cycle_weights_def)

lemma cycle_pick:
  assumes d: "distinct ids" and j: "j < length ids" and w: "cycle_weights ids j (ro_weights st)"
  obtains st' where "pool_weighted_index ids st = (Some j, st')" "cycle_weights ids (Suc j) (ro_weights st')"
    "ro_active st' = ro_active st" "ro_successes st' = ro_successes st"
proof -
  have v: "weight_in (ro_weights st) (ids ! i) = (if i < j then int j - int (length ids) else int j)" if "i < length ids" for i
    using w that by (simp add: cycle_weights_def)
  have "fst (scan_weights ids 0 None (ro_weights st)) = Some (0 + j, weight_in (ro_weights st) (ids ! j) + 1)"
    by (rule scan_weights_best [OF d j]) (use v j in auto)
  then obtain ws where f: "scan_weights ids 0 None (ro_weights st) = (Some (j, int j + 1), ws)"
    using v [OF j] by (cases "scan_weights ids 0 None (ro_weights st)") simp
  have l: "weight_in ws (ids ! i) = weight_in (ro_weights st) (ids ! i) + 1" if "i < length ids" for i
    using scan_weights_lookup [OF d, of 0 None "ro_weights st" "ids ! i"] that by (simp add: f)
  let ?ws' = "AList.update (ids ! j) (nullish (map_of ws (ids ! j)) 0 - int (length ids)) ws"
  have "weight_in ?ws' (ids ! i) = (if i < Suc j then int (Suc j) - int (length ids) else int (Suc j))" if i: "i < length ids" for i
  proof (cases "i = j")
    case True
    then show ?thesis using l [OF j] v [OF j] by (simp add: weight_in_def [symmetric])
  next
    case False
    then have "ids ! i \<noteq> ids ! j" using d i j by (simp add: nth_eq_iff_index_eq)
    then show ?thesis using l [OF i] v [OF i] False by auto
  qed
  then have "cycle_weights ids (Suc j) ?ws'" by (simp add: cycle_weights_def)
  moreover have "pool_weighted_index ids st = (Some j, st\<lparr>ro_weights := ?ws'\<rparr>)"
    by (simp add: pool_weighted_index_def f)
  ultimately show ?thesis using that by simp
qed

lemma cycle_serves:
  assumes d: "distinct ids" and j: "j < length ids" and ne: "[] \<notin> set ids" and m: "m < L"
    and L: "L = nat (normalize_account_pool_sticky_limit sticky)"
    and c: "in_cycle ids j m (rotation_of ro pool)"
  obtains ro1 where "pick_round_robin_account pool ids sticky ro = (Some (ids ! j), ro1)"
    "in_cycle ids (if Suc m = L then Suc j mod length ids else j) (if Suc m = L then 0 else Suc m)
       (rotation_of (note_pool_rotation_success pool (ids ! j) sticky ro1) pool)"
proof -
  let ?st = "rotation_of ro pool"
  have id: "ids \<noteq> []" "ids ! j \<in> set ids" "ids ! j \<noteq> []" using j ne by (auto simp: in_set_conv_nth)
  have wrap: "cycle_weights ids (Suc j) ws \<Longrightarrow> cycle_weights ids (Suc j mod length ids) ws" for ws
    using j cycle_wraps by (cases "Suc j = length ids") auto
  have noted: "in_cycle ids (if Suc m = L then Suc j mod length ids else j) (if Suc m = L then 0 else Suc m)
      (rotation_of (note_pool_rotation_success pool (ids ! j) sticky (set_rotation pool st' ro)) pool)"
    if "cycle_weights ids (Suc j) (ro_weights st')" "ro_active st' = Some (ids ! j) \<and> ro_successes st' = m \<or> ro_active st' = None \<and> m = 0" for st'
  proof -
    have "int (Suc m) \<ge> normalize_account_pool_sticky_limit sticky \<longleftrightarrow> Suc m = L" using m L by linarith
    then show ?thesis using that wrap [OF that(1)]
      by (auto simp: note_pool_rotation_success_def set_rotation_def rotation_of_def in_cycle_def Let_def)
  qed
  show ?thesis
  proof (cases "m = 0")
    case True
    then have w: "cycle_weights ids j (ro_weights ?st)" "ro_active ?st = None" using c by (simp_all add: in_cycle_def)
    obtain st' where p: "pool_weighted_index ids ?st = (Some j, st')" "cycle_weights ids (Suc j) (ro_weights st')" "ro_active st' = ro_active ?st"
      using cycle_pick [OF d j w(1)] by blast
    let ?st1 = "if normalize_account_pool_sticky_limit sticky > 1 then st'\<lparr>ro_active := Some (ids ! j), ro_successes := 0\<rparr> else st'"
    have "pick_round_robin_account pool ids sticky ro = (Some (ids ! j), set_rotation pool ?st1 ro)"
      using id(1) w(2) p(1) by (simp add: pick_round_robin_account_def pick_from_rotation_def next_in_rotation_def)
    moreover have "cycle_weights ids (Suc j) (ro_weights ?st1)" "ro_active ?st1 = Some (ids ! j) \<and> ro_successes ?st1 = m \<or> ro_active ?st1 = None \<and> m = 0"
      using p w(2) True by auto
    ultimately show ?thesis using that noted by blast
  next
    case False
    then have w: "cycle_weights ids (Suc j) (ro_weights ?st)" "ro_active ?st = Some (ids ! j)" "ro_successes ?st = m"
      using c by (simp_all add: in_cycle_def)
    have "pick_round_robin_account pool ids sticky ro = (Some (ids ! j), set_rotation pool ?st ro)"
      using id w(2) by (simp add: pick_round_robin_account_def pick_from_rotation_def)
    then show ?thesis using that noted w by blast
  qed
qed


lemma serve_from:
  assumes "distinct ids" and "ids \<noteq> []" and "[] \<notin> set ids" and L: "L = nat (normalize_account_pool_sticky_limit sticky)"
    and "in_cycle ids (q mod length ids) m (rotation_of ro pool)" and "m < L"
  shows "fst (serve_rotation pool ids sticky n ro) = map (\<lambda>k. Some (ids ! ((k div L) mod length ids))) [q * L + m..<q * L + m + n]"
  using assms(5,6)
proof (induction n arbitrary: q m ro)
  case (Suc n)
  let ?j = "q mod length ids"
  have j: "?j < length ids" using assms(2) by simp
  obtain ro1 where p: "pick_round_robin_account pool ids sticky ro = (Some (ids ! ?j), ro1)"
    and c: "in_cycle ids (if Suc m = L then Suc ?j mod length ids else ?j) (if Suc m = L then 0 else Suc m)
       (rotation_of (note_pool_rotation_success pool (ids ! ?j) sticky ro1) pool)"
    by (rule cycle_serves [OF assms(1) j assms(3) Suc.prems(2) L Suc.prems(1)])
  let ?ro2 = "note_pool_rotation_success pool (ids ! ?j) sticky ro1"
  have first: "(q * L + m) div L = q" using Suc.prems(2) by simp
  have rest: "fst (serve_rotation pool ids sticky n ?ro2)
      = map (\<lambda>k. Some (ids ! ((k div L) mod length ids))) [Suc (q * L + m)..<Suc (q * L + m) + n]"
  proof (cases "Suc m = L")
    case True
    then have "in_cycle ids (Suc q mod length ids) 0 (rotation_of ?ro2 pool)" using c by (simp add: mod_Suc_eq)
    moreover have "0 < L" using Suc.prems(2) by simp
    ultimately have "fst (serve_rotation pool ids sticky n ?ro2)
        = map (\<lambda>k. Some (ids ! ((k div L) mod length ids))) [Suc q * L + 0..<Suc q * L + 0 + n]" by (rule Suc.IH)
    moreover have "Suc q * L + 0 = Suc (q * L + m)" using True by simp
    ultimately show ?thesis by (simp only:)
  next
    case False
    then have "in_cycle ids ?j (Suc m) (rotation_of ?ro2 pool)" "Suc m < L" using c Suc.prems(2) by simp_all
    from Suc.IH [OF this] show ?thesis by simp
  qed
  have "[q * L + m..<q * L + m + Suc n] = (q * L + m) # [Suc (q * L + m)..<Suc (q * L + m) + n]" by (simp add: upt_conv_Cons)
  then show ?case using rest p first by (simp add: case_prod_unfold)
qed simp

lemma sticky_positive: "0 < nat (normalize_account_pool_sticky_limit sticky)"
  by (auto simp: normalize_account_pool_sticky_limit_def parse_account_pool_sticky_limit_def parse_between_def
      split: json.split jsnum.split option.split)

text \<open>While the eligible accounts stay the same, a new rotation serves them in the order of the list,
each as many times in a row as the sticky limit says, again and again: the k-th request goes to
account (k div limit) mod n.\<close>

theorem round_robin_is_cyclic:
  assumes "distinct ids" and "ids \<noteq> []" and "[] \<notin> set ids" and "map_of (rt_states ro) pool = None"
  shows "fst (serve_rotation pool ids sticky n ro)
    = map (\<lambda>k. Some (ids ! ((k div nat (normalize_account_pool_sticky_limit sticky)) mod length ids))) [0..<n]"
proof -
  have "in_cycle ids (0 mod length ids) 0 (rotation_of ro pool)"
    using assms(4) by (simp add: rotation_of_def in_cycle_def fresh_rotation_def cycle_weights_def weight_in_def)
  from serve_from [OF assms(1-3) refl this sticky_positive] show ?thesis by simp
qed

theorem round_robin_is_cyclic_witness:
  "fst (serve_rotation ''codex'' [''a'', ''b''] (JNum (Fin 2)) 5 no_rotations) = [Some ''a'', Some ''a'', Some ''b'', Some ''b'', Some ''a'']"
proof -
  have l: "nat (normalize_account_pool_sticky_limit (JNum (Fin 2))) = 2" by code_simp
  have r: "map (\<lambda>k. Some ([''a'', ''b''] ! ((k div 2) mod length [''a'', ''b'']))) [0..<5]
      = [Some ''a'', Some ''a'', Some ''b'', Some ''b'', Some ''a'']" by code_simp
  have "map_of (rt_states no_rotations) ''codex'' = None" by (simp add: no_rotations_def)
  from round_robin_is_cyclic [OF _ _ _ this, of "[''a'', ''b'']" "JNum (Fin 2)" 5] show ?thesis unfolding l r by simp
qed


section \<open>Dry runs\<close>

lemma commit_same_pick: "fst (pick_from_rotation ids sticky st True) = fst (pick_from_rotation ids sticky st False)"
proof -
  have "fst (next_in_rotation ids sticky st True) = fst (next_in_rotation ids sticky st False)" for st
    by (auto simp: next_in_rotation_def split: prod.split option.split)
  then show ?thesis by (auto simp: pick_from_rotation_def split: option.split)
qed

lemma peek_is_pick: "peek_round_robin_account pool ids sticky ro = fst (pick_round_robin_account pool ids sticky ro)"
  by (simp add: peek_round_robin_account_def pick_round_robin_account_def commit_same_pick case_prod_unfold)

lemma pick_from_list:
  assumes "ids \<noteq> []"
  shows "\<exists>i \<in> set ids. fst (pick_round_robin_account pool ids sticky ro) = Some i"
proof -
  have grows: "\<exists>b. fst (scan_weights xs i (Some a) ws) = Some b \<and> (b = a \<or> i \<le> fst b \<and> fst b < i + length xs)" for xs i a ws
  proof (induction xs arbitrary: i a ws)
    case (Cons x xs)
    show ?case using Cons.IH [of "i + 1" "(i, nullish (map_of ws x) 0 + 1)" "AList.update x (nullish (map_of ws x) 0 + 1) ws"]
        Cons.IH [of "i + 1" a "AList.update x (nullish (map_of ws x) 0 + 1) ws"]
      by (auto simp: Let_def split: prod.split)
  qed simp
  have index: "\<exists>k < length ids. fst (pool_weighted_index ids st) = Some k" for st
  proof -
    obtain x xs where ids: "ids = x # xs" using assms by (cases ids) auto
    let ?s = "nullish (map_of (ro_weights st) x) 0 + 1"
    have "scan_weights ids 0 None (ro_weights st) = scan_weights xs 1 (Some (0, ?s)) (AList.update x ?s (ro_weights st))"
      by (simp add: ids Let_def)
    then obtain k s ws where "scan_weights ids 0 None (ro_weights st) = (Some (k, s), ws)" "k < length ids"
      using grows [of xs 1 "(0, ?s)" "AList.update x ?s (ro_weights st)"] ids
      by (cases "scan_weights ids 0 None (ro_weights st)") fastforce
    then show ?thesis by (simp add: pool_weighted_index_def)
  qed
  have "\<exists>i \<in> set ids. fst (next_in_rotation ids sticky st c) = Some i" for st c
  proof -
    obtain k st1 where "pool_weighted_index ids st = (Some k, st1)" "k < length ids"
      using index [of st] by (cases "pool_weighted_index ids st") auto
    then show ?thesis by (simp add: next_in_rotation_def)
  qed
  then have "\<exists>i \<in> set ids. fst (pick_from_rotation ids sticky st c) = Some i" for st c
    using assms by (simp add: pick_from_rotation_def split: option.split)
  then show ?thesis by (simp add: pick_round_robin_account_def case_prod_unfold)
qed

lemma pick_from_none: "fst (pick_round_robin_account pool [] sticky ro) = None"
  by (simp add: pick_round_robin_account_def pick_from_rotation_def)


section \<open>Sweeps\<close>

text \<open>After a sweep a rotation of a known pool names live accounts only; unknown pools stay.\<close>

lemma sweep_rotations_lookup:
  assumes "jm_wf states"
  shows "map_of (snd (sweep_rotations live states)) pool = (case map_of states pool of
      None \<Rightarrow> None
    | Some st \<Rightarrow> (case live pool of None \<Rightarrow> Some st
        | Some valid \<Rightarrow> if valid = [] then None else Some (snd (sweep_rotation valid st))))"
  using assms
proof (induction states)
  case (Cons x states)
  obtain p st where x: "x = (p, st)" by (cases x)
  have "map_of states p = None" using Cons.prems x by (auto simp: map_of_eq_None_iff)
  with Cons.IH Cons.prems x show ?case
    by (auto simp: case_prod_unfold split: option.splits)
qed simp

lemma swept_names_live:
  "(case ro_active (snd (sweep_rotation valid st)) of None \<Rightarrow> True | Some a \<Rightarrow> a = [] \<or> a \<in> set valid)
    \<and> fst ` set (ro_weights (snd (sweep_rotation valid st))) \<subseteq> set valid"
  by (auto simp: sweep_rotation_def Let_def split: option.split)

end
