(* ===== verification/Codex_Pick_Properties.thy ===== *)
theory Codex_Pick_Properties
  imports Codex_Pick Pool_Rotation_Properties
begin

text \<open>
  What the selection promises: every answer passes every guard, an account that passes is always found,
  previews agree with picks, and the choice of the operator is moved by nothing but the moves made for it.
\<close>

section \<open>The eligible list\<close>

definition admitted :: "select_env \<Rightarrow> select_options \<Rightarrow> quota_scope option \<Rightarrow> string option \<Rightarrow> string option \<Rightarrow> string \<Rightarrow> bool" where
  "admitted e so scope exclude pin a \<longleftrightarrow> is_selectable e so scope a \<and> exclude \<noteq> Some a \<and> \<not> steers_away e pin a
     \<and> (a = main_id \<or> \<not> se_needs_reauth e a)"

lemma pool_row_not_main: "is_selectable_pool_account r \<Longrightarrow> pa_id r \<noteq> main_id"
  by (simp add: is_selectable_pool_account_def is_valid_account_id_def)

lemma main_not_plan_excluded: "\<not> is_plan_excluded e main_id"
  by (simp add: is_plan_excluded_def)

lemma passing_admitted:
  assumes "a \<in> set (passing_accounts e so scope exclude skip pin)"
  shows "admitted e so scope exclude pin a"
  using assms
  by (auto simp: passing_accounts_def main_passes_def pool_row_passes_def admitted_def is_selectable_def main_not_plan_excluded
      split: if_splits)

text \<open>Conversely, a configured account, or the main login, that passes every guard is in the list.\<close>

lemma admitted_passing:
  assumes "admitted e so scope exclude pin a"
  shows "a \<in> set (passing_accounts e so scope exclude False pin)"
proof (cases "a = main_id")
  case True
  then show ?thesis using assms by (auto simp: passing_accounts_def main_passes_def admitted_def is_selectable_def)
next
  case False
  then have "unusable_reason e so a = None" using assms by (simp add: admitted_def is_selectable_def is_usable_def)
  then obtain r where r: "r \<in> set (se_accounts e)" "is_selectable_pool_account r" "pa_id r = a"
    using False by (auto simp: unusable_reason_def list_ex_iff split: if_splits)
  then have "pool_row_passes e so scope exclude False pin r"
    using assms False by (auto simp: pool_row_passes_def admitted_def is_selectable_def)
  then show ?thesis using r by (auto simp: passing_accounts_def)
qed

lemma without_denied_subset: "set (without_denied ids denied pin) \<subseteq> set ids"
  by (auto simp: without_denied_def Let_def split: option.splits if_splits)

lemma without_denied_empty: "without_denied ids denied pin = [] \<longleftrightarrow> ids = []"
  by (auto simp: without_denied_def Let_def split: option.splits)

lemma eligible_passing: "set (eligible_accounts e so scope exclude skip pin) \<subseteq> set (passing_accounts e so scope exclude skip pin)"
  unfolding eligible_accounts_def using tier_subset without_denied_subset by blast

lemma eligible_admitted: "a \<in> set (eligible_accounts e so scope exclude skip pin) \<Longrightarrow> admitted e so scope exclude pin a"
  using eligible_passing passing_admitted by blast

lemma eligible_empty:
  "eligible_accounts e so scope exclude False pin = [] \<longleftrightarrow> (\<nexists>a. admitted e so scope exclude pin a)"
proof -
  have "eligible_accounts e so scope exclude False pin = [] \<longleftrightarrow> passing_accounts e so scope exclude False pin = []"
    by (simp add: eligible_accounts_def tier_empty without_denied_empty)
  also have "\<dots> \<longleftrightarrow> (\<nexists>a. admitted e so scope exclude pin a)"
    using passing_admitted admitted_passing by (metis list.set_intros(1) neq_Nil_conv set_empty equals0D)
  finally show ?thesis .
qed


section \<open>The pickers stay in their list\<close>

text \<open>A picker answers an element of its list, and one whenever there is one.\<close>

definition picks_from :: "string list \<Rightarrow> string option \<Rightarrow> bool" where
  "picks_from ids r \<longleftrightarrow> (case r of None \<Rightarrow> ids = [] | Some a \<Rightarrow> a \<in> set ids)"

lemma picks_from_Some: "picks_from ids (Some a) \<Longrightarrow> a \<in> set ids"
  by (simp add: picks_from_def)

lemma picks_from_sub: "picks_from xs r \<Longrightarrow> set xs \<subseteq> set ids \<Longrightarrow> (xs = [] \<Longrightarrow> ids = []) \<Longrightarrow> picks_from ids r"
  by (auto simp: picks_from_def split: option.splits)

lemma least_usage_in: "least_usage usage b xs \<in> insert b (set xs)"
proof (induction xs arbitrary: b)
  case (Cons x xs)
  show ?case using Cons.IH [of x] Cons.IH [of b] by auto
qed simp

lemma least_usage_least: "usage (least_usage usage b xs) \<le> usage b \<and> (\<forall>x \<in> set xs. usage (least_usage usage b xs) \<le> usage x)"
proof (induction xs arbitrary: b)
  case (Cons x xs)
  show ?case using Cons.IH [of x] Cons.IH [of b] by auto
qed simp

lemma lowest_picks: "picks_from ids (pick_lowest_usage_among e so ids)"
proof (cases ids)
  case (Cons i xs)
  then show ?thesis using least_usage_in [of "usage_of e so" i xs] by (simp add: picks_from_def pick_lowest_usage_among_def)
qed (simp add: picks_from_def pick_lowest_usage_among_def)

lemma lowest_is_lowest:
  assumes "pick_lowest_usage_among e so ids = Some a" and "b \<in> set ids"
  shows "usage_of e so a \<le> usage_of e so b"
  using assms least_usage_least [of "usage_of e so"] by (auto simp: pick_lowest_usage_among_def split: list.splits)

lemma lower_usage_cases:
  "lower_usage usage b u xs = b \<and> (\<forall>x \<in> set xs. u \<le> usage x)
   \<or> lower_usage usage b u xs \<in> set xs \<and> usage (lower_usage usage b u xs) < u \<and> (\<forall>x \<in> set xs. usage (lower_usage usage b u xs) \<le> usage x)"
proof (induction xs arbitrary: b u)
  case (Cons x xs)
  show ?case using Cons.IH [of x "usage x"] Cons.IH [of b u] by force
qed simp

lemma sooner_none: "\<not> sooner x None \<Longrightarrow> x = None"
  by (cases x) (simp_all add: sooner_def)

lemma soonest_subset: "set (soonest reset t cs xs) \<subseteq> set cs \<union> set xs"
proof (induction xs arbitrary: t cs)
  case (Cons x xs)
  show ?case using Cons.IH [of "reset x" "[x]"] Cons.IH [of t "cs @ [x]"] Cons.IH [of t cs] by (simp, blast)
qed simp

lemma soonest_keeps: "cs \<noteq> [] \<Longrightarrow> soonest reset t cs xs \<noteq> []"
  by (induction xs arbitrary: t cs) simp_all

lemma soonest_found: "xs \<noteq> [] \<Longrightarrow> soonest reset None [] xs \<noteq> []"
  by (cases xs) (auto simp: soonest_keeps dest: sooner_none)

lemma reset_first_picks: "picks_from ids (pick_reset_first e so ids)"
proof (cases "filter (has_headroom e so) ids = []")
  case True
  then show ?thesis by (simp add: pick_reset_first_def lowest_picks)
next
  case False
  then have "soonest (next_reset e) None [] (filter (has_headroom e so) ids) \<noteq> []" by (rule soonest_found)
  moreover have "set (soonest (next_reset e) None [] (filter (has_headroom e so) ids)) \<subseteq> set ids"
    using soonest_subset [of "next_reset e" None "[]" "filter (has_headroom e so) ids"] by auto
  ultimately have "picks_from ids (pick_lowest_usage_among e so (soonest (next_reset e) None [] (filter (has_headroom e so) ids)))"
    by (intro picks_from_sub [OF lowest_picks]) auto
  then show ?thesis using False by (simp add: pick_reset_first_def Let_def)
qed

lemma first_picks: "picks_from ids (first_with_headroom e so ids)"
proof (cases "List.find (has_headroom e so) ids")
  case None
  then show ?thesis by (cases ids) (simp_all add: picks_from_def first_with_headroom_def)
next
  case (Some i)
  then have "i \<in> set ids" by (auto simp: find_Some_iff)
  then show ?thesis using Some by (simp add: picks_from_def first_with_headroom_def)
qed

lemma stable_picks: "picks_from ids (first_with_headroom e so (stable_order e ids))"
  using first_picks [of "stable_order e ids" e so]
  by (rule picks_from_sub) (auto simp: stable_order_def dest: arg_cong [of _ "[]" set])

lemma next_fill_first_picks: "picks_from ids (pick_next_fill_first e so after ids)"
proof (cases "ids = []")
  case True
  then show ?thesis by (simp add: picks_from_def pick_next_fill_first_def)
next
  case ne: False
  have o: "hd (stable_order e ids) \<in> set ids"
  proof -
    have "set (stable_order e ids) \<noteq> {}" using ne by (simp add: stable_order_def)
    then have "stable_order e ids \<noteq> []" by (metis list.set(1))
    then have "hd (stable_order e ids) \<in> set (stable_order e ids)" by (rule hd_in_set)
    then show ?thesis by (simp add: stable_order_def)
  qed
  have f: "a \<in> set ids" if "first_with_headroom e so (filter (\<lambda>i. i \<in> set ids) next) = Some a" for a "next"
    using first_picks [of "filter (\<lambda>i. i \<in> set ids) next" e so] that by (simp add: picks_from_def)
  have plain: "pick_next_fill_first e so after ids = first_with_headroom e so (stable_order e ids)
      \<Longrightarrow> picks_from ids (pick_next_fill_first e so after ids)"
    using stable_picks by metis
  have wrapped: "picks_from ids (case first_with_headroom e so (filter (\<lambda>i. i \<in> set ids) xs) of
      Some i \<Rightarrow> Some i | None \<Rightarrow> Some (hd (stable_order e ids)))" for xs
  proof (cases "first_with_headroom e so (filter (\<lambda>i. i \<in> set ids) xs)")
    case None
    then show ?thesis using o by (simp add: picks_from_def)
  next
    case (Some a)
    then show ?thesis using f [OF Some] by (simp add: picks_from_def)
  qed
  show ?thesis
  proof (cases after)
    case None
    then show ?thesis using ne by (intro plain) (simp add: pick_next_fill_first_def)
  next
    case (Some a)
    show ?thesis
    proof (cases "a = [] \<or> successors (stable_order e (rev (remdups (rev (all_configured e so a))))) a = None")
      case True
      then show ?thesis using ne Some by (intro plain) (auto simp: pick_next_fill_first_def Let_def)
    next
      case False
      then obtain xs where "successors (stable_order e (rev (remdups (rev (all_configured e so a))))) a = Some xs" by auto
      then have "pick_next_fill_first e so after ids = (case first_with_headroom e so (filter (\<lambda>i. i \<in> set ids) xs) of
          Some i \<Rightarrow> Some i | None \<Rightarrow> Some (hd (stable_order e ids)))"
        using ne Some False by (simp add: pick_next_fill_first_def)
      then show ?thesis using wrapped by simp
    qed
  qed
qed

lemma fill_first_picks: "picks_from (eligible_accounts e so scope None False (as_pinned s)) (pick_fill_first e so scope s)"
proof -
  let ?ids = "eligible_accounts e so scope None False (as_pinned s)"
  have "picks_from ?ids (case effective_active s of None \<Rightarrow> pick_next_fill_first e so None ?ids
      | Some a \<Rightarrow> if a \<noteq> [] \<and> a \<in> set ?ids \<and> has_headroom e so a then Some a else pick_next_fill_first e so (Some a) ?ids)"
  proof (cases "effective_active s")
    case None
    then show ?thesis by (simp add: next_fill_first_picks)
  next
    case (Some a)
    have "picks_from ?ids (Some a)" if "a \<in> set ?ids" using that by (simp add: picks_from_def)
    then show ?thesis using Some next_fill_first_picks by simp
  qed
  then show ?thesis by (simp add: pick_fill_first_def Let_def picks_from_def)
qed

lemma round_robin_picks: "picks_from ids (fst (pick_round_robin_account pool ids sticky ro))"
proof (cases "ids = []")
  case False
  then show ?thesis using pick_from_list [of ids pool sticky ro] by (auto simp: picks_from_def)
qed (simp add: picks_from_def pick_from_none)

lemma alternate_picks:
  "picks_from (eligible_accounts e so scope (Some x) False (as_pinned s)) (fst (pick_alternate e so scope x s))"
proof (cases "strategy_for_scope e scope")
  case RoundRobinStrategy
  then show ?thesis using round_robin_picks by (simp add: pick_alternate_def Let_def case_prod_unfold)
qed (simp_all add: pick_alternate_def Let_def next_fill_first_picks reset_first_picks lowest_picks)

lemma unbound_picks:
  assumes "strategy_for_scope e scope \<noteq> QuotaStrategy"
  shows "picks_from (eligible_accounts e so scope None False (as_pinned s)) (fst (pick_unbound_strategy e so scope t c cs ca s))"
proof (cases "strategy_for_scope e scope")
  case RoundRobinStrategy
  let ?ids = "eligible_accounts e so scope None False (as_pinned s)"
  have "fst (pick_unbound_strategy e so scope t c cs ca s)
      = fst (pick_round_robin_account (pool_key_for_scope scope) ?ids (sticky_limit e) (as_rotations s))"
    using RoundRobinStrategy by (simp add: pick_unbound_strategy_def Let_def peek_is_pick split: prod.split option.split)
  then show ?thesis using round_robin_picks by simp
next
  case FillFirstStrategy
  then have "fst (pick_unbound_strategy e so scope t c cs ca s) = pick_fill_first e so scope s"
    by (simp add: pick_unbound_strategy_def Let_def split: option.split)
  then show ?thesis using fill_first_picks by simp
next
  case ResetFirstStrategy
  then have "fst (pick_unbound_strategy e so scope t c cs ca s) = pick_reset_first e so (eligible_accounts e so scope None False (as_pinned s))"
    by (simp add: pick_unbound_strategy_def Let_def split: option.split)
  then show ?thesis using reset_first_picks by simp
qed (use assms in simp)



section \<open>Answers\<close>

text \<open>What every way of choosing an account answers for one request.\<close>

definition answers :: "select_env \<Rightarrow> select_options \<Rightarrow> quota_scope option \<Rightarrow> string \<Rightarrow> string option \<Rightarrow> active_state
    \<Rightarrow> (string option \<times> string option) list" where
  "answers e so scope x t s =
     [(Some x, fst (pick_alternate e so scope x s)), (Some x, peek_alternate e so scope x s),
      (None, fst (pick_unbound_strategy e so scope t True True True s)), (None, fst (pick_unbound_strategy e so scope t False False False s)),
      (None, pick_priority_preemption e so scope x s)]"

lemma picks_admitted:
  "picks_from (eligible_accounts e so scope exclude skip pin) r \<Longrightarrow> (case r of None \<Rightarrow> True | Some a \<Rightarrow> admitted e so scope exclude pin a)"
  by (auto simp: picks_from_def eligible_admitted split: option.splits)

lemma unbound_quota: "strategy_for_scope e scope = QuotaStrategy \<Longrightarrow> fst (pick_unbound_strategy e so scope t c cs ca s) = None"
  by (simp add: pick_unbound_strategy_def)

lemma unbound_admitted:
  "case fst (pick_unbound_strategy e so scope t c cs ca s) of None \<Rightarrow> True | Some a \<Rightarrow> admitted e so scope None (as_pinned s) a"
proof (cases "strategy_for_scope e scope = QuotaStrategy")
  case True
  then show ?thesis by (simp add: unbound_quota)
next
  case False
  show ?thesis by (rule picks_admitted [OF unbound_picks [OF False]])
qed

lemma preemption_admitted:
  "case pick_priority_preemption e so scope x s of None \<Rightarrow> True | Some a \<Rightarrow> admitted e so scope None (as_pinned s) a"
proof (cases "pick_priority_preemption e so scope x s")
  case (Some a)
  then have "a \<in> set (filter (has_headroom e so) (eligible_accounts e so scope None False (as_pinned s)))"
    using lowest_picks [of "filter (has_headroom e so) (eligible_accounts e so scope None False (as_pinned s))" e so]
    by (auto simp: pick_priority_preemption_def Let_def picks_from_def split: if_splits)
  then show ?thesis using Some eligible_admitted by fastforce
qed simp

lemma peek_alternate_same: "peek_alternate e so scope x s = fst (pick_alternate e so scope x s)"
  by (simp add: peek_alternate_def pick_alternate_def Let_def peek_is_pick case_prod_unfold)

text \<open>C32. Whatever the strategy and the state of the rotation, an account that the selection answers passes
every guard: it is not paused, its plan is not excluded, it does not hold back credits, no cooldown,
avoidance, refresh back-off or failure window stands against it, its credential can serve, and it is not
the account to be replaced.\<close>

theorem answers_pass_every_guard:
  "list_all (\<lambda>(exclude, r). case r of None \<Rightarrow> True | Some a \<Rightarrow>
       account_block_reason e so scope a = None \<and> exclude \<noteq> Some a \<and> \<not> steers_away e (as_pinned s) a
       \<and> (if se_needs_reauth e a then a = main_id else True))
     (answers e so scope x t s)"
proof -
  have ok: "account_block_reason e so scope a = None \<and> exclude \<noteq> Some a \<and> \<not> steers_away e (as_pinned s) a
      \<and> (if se_needs_reauth e a then a = main_id else True)" if "admitted e so scope exclude (as_pinned s) a" for exclude a
    using that by (auto simp: admitted_def is_selectable_def account_block_reason_def)
  have step: "(case r of None \<Rightarrow> True | Some a \<Rightarrow> account_block_reason e so scope a = None \<and> exclude \<noteq> Some a
      \<and> \<not> steers_away e (as_pinned s) a \<and> (if se_needs_reauth e a then a = main_id else True))"
    if "case r of None \<Rightarrow> True | Some a \<Rightarrow> admitted e so scope exclude (as_pinned s) a" for r exclude
    using ok that by (cases r) simp_all
  show ?thesis
    unfolding answers_def peek_alternate_same list.pred_inject prod.case
    by (intro conjI TrueI list.pred_inject(1) step [OF picks_admitted [OF alternate_picks]] step [OF unbound_admitted] step [OF preemption_admitted])
qed

lemma unbound_preview:
  "fst (pick_unbound_strategy e so scope t c cs ca s) = fst (pick_unbound_strategy e so scope t' c' cs' ca' s)"
proof (cases "strategy_for_scope e scope")
  case RoundRobinStrategy
  have "fst (pick_unbound_strategy e so scope t c cs ca s) = fst (pick_round_robin_account (pool_key_for_scope scope)
      (eligible_accounts e so scope None False (as_pinned s)) (sticky_limit e) (as_rotations s))" for t c cs ca
    using RoundRobinStrategy by (simp add: pick_unbound_strategy_def Let_def peek_is_pick split: prod.split option.split)
  then show ?thesis by simp
qed (simp_all add: pick_unbound_strategy_def Let_def split: option.split)

text \<open>C33. An account that passes every guard is never missed: the alternate, its preview and, unless the
strategy is quota, the pick of a new session answer none only when no account passes. Model rosters and
priority tiers narrow the choice but never empty it, and a preview names the account the pick would take.\<close>

theorem no_admitted_account_missed:
  "(fst (pick_alternate e so scope x s) = None) = (\<nexists>a. admitted e so scope (Some x) (as_pinned s) a)
   \<and> peek_alternate e so scope x s = fst (pick_alternate e so scope x s)
   \<and> fst (pick_unbound_strategy e so scope t False False False s) = fst (pick_unbound_strategy e so scope t c cs ca s)
   \<and> (fst (pick_unbound_strategy e so scope t c cs ca s) = None)
     = (if strategy_for_scope e scope = QuotaStrategy then True else \<nexists>a. admitted e so scope None (as_pinned s) a)"
proof -
  have empty: "picks_from ids r \<Longrightarrow> (r = None) = (ids = [])" for ids :: "string list" and r
    by (cases r) (auto simp: picks_from_def)
  have "(fst (pick_alternate e so scope x s) = None) = (\<nexists>a. admitted e so scope (Some x) (as_pinned s) a)"
    using empty [OF alternate_picks] eligible_empty by metis
  moreover have "(fst (pick_unbound_strategy e so scope t c cs ca s) = None)
     = (if strategy_for_scope e scope = QuotaStrategy then True else \<nexists>a. admitted e so scope None (as_pinned s) a)"
  proof (cases "strategy_for_scope e scope = QuotaStrategy")
    case True
    then show ?thesis by (simp add: unbound_quota)
  next
    case False
    then show ?thesis using empty [OF unbound_picks [OF False]] eligible_empty by metis
  qed
  moreover have "fst (pick_unbound_strategy e so scope t False False False s) = fst (pick_unbound_strategy e so scope t c cs ca s)"
    by (rule unbound_preview)
  ultimately show ?thesis by (simp only: peek_alternate_same simp_thms)
qed



section \<open>Moves of the cursor\<close>

text \<open>The fields of the shared choice.\<close>

definition shared_choice :: "active_state \<Rightarrow> string option \<times> string option \<times> string option \<times> nat \<times> (string, string) jsmap" where
  "shared_choice s = (as_runtime s, as_saved s, as_pinned s, as_saves s, as_manual s)"

lemma shared_rotations [simp]: "shared_choice (s\<lparr>as_rotations := ro\<rparr>) = shared_choice s" "shared_choice (with_rotations f s) = shared_choice s"
  by (simp_all add: shared_choice_def with_rotations_def)

lemma alternate_shared [simp]: "shared_choice (snd (pick_alternate e so scope x s)) = shared_choice s"
  by (simp add: pick_alternate_def Let_def case_prod_unfold split: pool_strategy.split)

lemma follow_independent: "is_independent scope \<Longrightarrow> follow_pick so scope cs a s = s"
  by (simp add: follow_pick_def)

lemma unbound_state:
  obtains (same) ro where "snd (snd (pick_unbound_strategy e so scope t c cs ca s)) = s\<lparr>as_rotations := ro\<rparr>"
  | (followed) a ro where "fst (pick_unbound_strategy e so scope t c cs ca s) = Some a"
      "shared_choice (snd (snd (pick_unbound_strategy e so scope t c cs ca s))) = shared_choice (follow_pick so scope cs a (s\<lparr>as_rotations := ro\<rparr>))"
proof (cases "strategy_for_scope e scope")
  case QuotaStrategy
  then show ?thesis using same [of "as_rotations s"] by (simp add: pick_unbound_strategy_def)
next
  case RoundRobinStrategy
  obtain r ro where p: "pick_round_robin_account (pool_key_for_scope scope) (eligible_accounts e so scope None False (as_pinned s))
      (sticky_limit e) (as_rotations s) = (r, ro)" by fastforce
  show ?thesis
  proof (cases "\<not> c \<or> r = None")
    case True
    then show ?thesis using same [of "as_rotations s"] same [of ro] RoundRobinStrategy p
      by (cases c) (simp_all add: pick_unbound_strategy_def Let_def)
  next
    case False
    then obtain a where "r = Some a" by auto
    then show ?thesis using followed [of a ro] RoundRobinStrategy p False by (simp add: pick_unbound_strategy_def Let_def)
  qed
next
  case FillFirstStrategy
  then show ?thesis using same [of "as_rotations s"] followed [of _ "as_rotations s"]
    by (cases "pick_fill_first e so scope s") (simp_all add: pick_unbound_strategy_def Let_def)
next
  case ResetFirstStrategy
  then show ?thesis using same [of "as_rotations s"] followed [of _ "as_rotations s"]
    by (cases "pick_reset_first e so (eligible_accounts e so scope None False (as_pinned s))") (simp_all add: pick_unbound_strategy_def Let_def)
qed

text \<open>A request of an independent quota scope never moves the shared choice of the account: not its pick,
not its alternate, not its move on quota and not its failover, and nothing is saved.\<close>

theorem independent_scope_keeps_choice:
  assumes "is_independent scope"
  shows "shared_choice (snd (snd (pick_unbound_strategy e so scope t c cs ca s))) = shared_choice s
    \<and> shared_choice (snd (apply_quota_auto_switch e so scope c x s)) = shared_choice s
    \<and> shared_choice (snd (apply_failure_failover e so scope c x s)) = shared_choice s"
proof -
  have "shared_choice (snd (snd (pick_unbound_strategy e so scope t c cs ca s))) = shared_choice s"
    by (rule unbound_state [of e so scope t c cs ca s]) (simp_all add: follow_independent [OF assms])
  moreover have "shared_choice (snd (apply_quota_auto_switch e so scope c x s)) = shared_choice s"
    using assms by (simp add: apply_quota_auto_switch_def Let_def commits_shared_def)
  moreover have "shared_choice (snd (apply_failure_failover e so scope c x s)) = shared_choice s"
    using assms alternate_shared [of e so scope x s]
    by (cases "pick_alternate e so scope x s") (simp add: apply_failure_failover_def commits_shared_def split: option.split)
  ultimately show ?thesis by simp
qed

text \<open>The selection of the operator stands: it is saved, not spent, and routing is on it.\<close>

definition operator_choice :: "string \<Rightarrow> active_state \<Rightarrow> bool" where
  "operator_choice a s \<longleftrightarrow> map_of (as_manual s) (pool_key_for_scope None) = Some a \<and> as_saved s = Some a \<and> effective_active s = Some a"

lemma shared_pool_key: "\<not> is_independent scope \<Longrightarrow> pool_key_for_scope scope = pool_key_for_scope None"
  by (simp add: pool_key_for_scope_def is_independent_def)

lemma operator_choice_shared: "shared_choice s = shared_choice s' \<Longrightarrow> operator_choice a s = operator_choice a s'"
  by (auto simp: operator_choice_def shared_choice_def effective_active_def split: option.split)

lemma follow_keeps_operator: "operator_choice a s \<Longrightarrow> operator_choice a (follow_pick so scope cs b s)"
  using shared_pool_key [of scope]
  by (auto simp: operator_choice_def follow_pick_def manual_preference_blocks_def remember_active_def effective_active_def)

lemma pick_keeps_operator:
  assumes "operator_choice a s"
  shows "operator_choice a (snd (snd (pick_unbound_strategy e so scope t c cs ca s)))"
proof (rule unbound_state [of e so scope t c cs ca s])
  fix ro
  assume "snd (snd (pick_unbound_strategy e so scope t c cs ca s)) = s\<lparr>as_rotations := ro\<rparr>"
  then show ?thesis using assms operator_choice_shared [of "s\<lparr>as_rotations := ro\<rparr>" s a] by simp
next
  fix b ro
  assume "shared_choice (snd (snd (pick_unbound_strategy e so scope t c cs ca s))) = shared_choice (follow_pick so scope cs b (s\<lparr>as_rotations := ro\<rparr>))"
  then have "operator_choice a (snd (snd (pick_unbound_strategy e so scope t c cs ca s))) = operator_choice a (follow_pick so scope cs b (s\<lparr>as_rotations := ro\<rparr>))"
    by (rule operator_choice_shared)
  then show ?thesis using follow_keeps_operator [of a "s\<lparr>as_rotations := ro\<rparr>"] operator_choice_shared [of "s\<lparr>as_rotations := ro\<rparr>" s a] assms by simp
qed

text \<open>The move on quota leaves an account only with evidence: the threshold is on, the usage of the
account is known and at the threshold or above, and the account moved to passes every guard, is used
strictly less, and is the least used of the eligible ones. Only then is anything saved.\<close>

theorem auto_switch_needs_evidence:
  "case apply_quota_auto_switch e so scope commit x s of (b, s') \<Rightarrow>
     if b = x then s' = s
     else threshold_of e x > 0 \<and> usage_of e so x < unknown_usage_score \<and> usage_of e so x \<ge> threshold_of e x
       \<and> admitted e so scope (Some x) (as_pinned s) b \<and> usage_of e so b < usage_of e so x
       \<and> list_all (\<lambda>i. usage_of e so b \<le> usage_of e so i) (eligible_accounts e so scope (Some x) False (as_pinned s))"
proof -
  let ?ids = "eligible_accounts e so scope (Some x) False (as_pinned s)"
  let ?b = "lower_usage (usage_of e so) x (usage_of e so x) ?ids"
  have b: "?b = x \<or> ?b \<in> set ?ids \<and> usage_of e so ?b < usage_of e so x \<and> (\<forall>i \<in> set ?ids. usage_of e so ?b \<le> usage_of e so i)"
    using lower_usage_cases by metis
  have a: "admitted e so scope (Some x) (as_pinned s) ?b" if "?b \<in> set ?ids" using eligible_admitted [OF that] .
  show ?thesis
    using b a by (auto simp: apply_quota_auto_switch_def Let_def pick_lower_usage_account_def is_unknown_usage_def list_all_iff)
qed



section \<open>A concrete pool\<close>

text \<open>Two pool accounts beside the main login, which holds no credential; the first is nearly full.\<close>

definition demo_usage :: "rat \<Rightarrow> account_quota" where
  "demo_usage p = \<lparr>aq_weekly = Some (Fin p), aq_monthly = None, aq_weekly_reset = None, aq_monthly_reset = None, aq_short = None,
     aq_short_reset = None, aq_short_observed = None, aq_credits = None\<rparr>"

definition demo_pool :: "json \<Rightarrow> select_env" where
  "demo_pool strategy = \<lparr>se_now = 1000000,
     se_accounts = [\<lparr>pa_id = ''a'', pa_main = False, pa_plan = Some ''plus''\<rparr>, \<lparr>pa_id = ''b'', pa_main = False, pa_plan = Some ''plus''\<rparr>],
     se_paused = [], se_excluded_plans = [], se_strategy = strategy, se_sticky = JNull, se_priorities = None, se_preserve = False,
     se_signed_in = [], se_credit_ids = [], se_use_remaining = [], se_thresholds = [], se_auto_switch = None, se_cache_affinity = None,
     se_failover_threshold = None, se_window_enabled = False, se_detour_pinned = False,
     se_quota = (\<lambda>i. if i = ''a'' then Some (demo_usage 90) else if i = ''b'' then Some (demo_usage 10) else None),
     se_main_plan = None, se_needs_reauth = (\<lambda>_. False),
     se_records = [(''a'', \<lparr>ar_credential = True, ar_deleted = False, ar_generation = 0, ar_replaced_at = None\<rparr>),
       (''b'', \<lparr>ar_credential = True, ar_deleted = False, ar_generation = 0, ar_replaced_at = None\<rparr>)],
     se_pending = (\<lambda>_. False), se_main_duplicate = (\<lambda>_. False), se_hard_locked = False, se_main_blocked = False,
     se_main_credential = \<lparr>mc_rejected = False, mc_grant = False, mc_usable = False\<rparr>, se_refresh_cooling = (\<lambda>_. False),
     se_health = empty_store, se_windows = forget_failure_windows, se_snapshot = Snapshot [], se_collation = (\<lambda>i. length i)\<rparr>"

lemma demo_auto_switch:
  "fst (apply_quota_auto_switch (demo_pool JNull) no_options None True ''a'' fresh_active) = ''b''
   \<and> as_saved (snd (apply_quota_auto_switch (demo_pool JNull) no_options None True ''a'' fresh_active)) = Some ''b''"
  by code_simp

lemma demo_rotation: "fst (pick_unbound_strategy (demo_pool (JStr ''round-robin'')) no_options None None True True True fresh_active) = Some ''a''"
  by code_simp

theorem independent_scope_keeps_choice_witness:
  "shared_choice (snd (apply_quota_auto_switch (demo_pool JNull) no_options (Some ReserveScope) True ''a'' fresh_active)) = shared_choice fresh_active
   \<and> fst (apply_quota_auto_switch (demo_pool JNull) no_options (Some ReserveScope) True ''a'' fresh_active) = ''b''"
proof -
  have "is_independent (Some ReserveScope)" by (simp add: is_independent_def)
  moreover have "fst (apply_quota_auto_switch (demo_pool JNull) no_options (Some ReserveScope) True ''a'' fresh_active) = ''b''" by code_simp
  ultimately show ?thesis
    using independent_scope_keeps_choice [of "Some ReserveScope" "demo_pool JNull" no_options None True True True fresh_active "''a''"] by blast
qed

end
