(* ===== verification/Codex_Affinity.thy ===== *)
theory Codex_Affinity
  imports Codex_Select
begin

text \<open>
  Which account a conversation is bound to (\<open>codex/routing/thread-affinity.ts\<close>): one entry per thread and
  scope, a counter of all entries, the accounts that issued carried state, and the reasons of releases not
  yet reported. A scope is a quota scope, the legacy scope of requests without one, or a detour of one model.
\<close>

section \<open>State\<close>

datatype affinity_base = LegacyScope | QuotaBase quota_scope

datatype affinity_scope = BaseScope affinity_base | ModelDetour affinity_base string

datatype affinity_reason =
    HealthyReason | QuotaHeadroom | QuotaRefusalReason | Blocked block_reason | TransientHoldExpired | GenerationGone
  | AffinityExpired | ModelLane | LineageParent | LineageSibling

record affinity =
  af_account :: string
  af_generation :: nat
  af_created :: rat
  af_last_used :: rat
  af_last_reeval :: rat
  af_hold_since :: "rat option"
  af_detour :: "string option"

record affinity_state =
  at_map :: "(string, (affinity_scope, affinity) jsmap) jsmap"
  at_total :: nat
  at_issuers :: "(string, string \<times> rat) jsmap"
  at_pending :: "(string, affinity_reason) jsmap"

definition empty_affinities :: affinity_state where
  "empty_affinities = \<lparr>at_map = [], at_total = 0, at_issuers = [], at_pending = []\<rparr>"

definition affinity_idle_ttl_ms :: rat where "affinity_idle_ttl_ms = 24 * 60 * 60000"
definition affinity_max_entries :: nat where "affinity_max_entries = 2048"
definition max_component_bytes :: nat where "max_component_bytes = 512"
definition affinity_reeval_ms :: rat where "affinity_reeval_ms = 60000"
definition affinity_hold_ms :: rat where "affinity_hold_ms = 10 * 60000"
definition max_pending_reasons :: nat where "max_pending_reasons = 4096"

text \<open>Bytes of a text in UTF-8; characters are below 256.\<close>

definition utf8_bytes :: "string \<Rightarrow> nat" where
  "utf8_bytes s = sum_list (map (\<lambda>c. if (of_char c :: nat) < 128 then 1 else 2) s)"

definition admissible_component :: "string \<Rightarrow> bool" where
  "admissible_component v \<longleftrightarrow> utf8_bytes v \<le> max_component_bytes"

definition base_scope :: "quota_scope option \<Rightarrow> affinity_base" where
  "base_scope scope = (case scope of None \<Rightarrow> LegacyScope | Some s \<Rightarrow> QuotaBase s)"

definition detour_scope :: "string option \<Rightarrow> quota_scope option \<Rightarrow> affinity_scope option" where
  "detour_scope model scope = (case model of None \<Rightarrow> None
   | Some m \<Rightarrow> (let c = to_lower (js_trim m)
       in if c = [] \<or> \<not> admissible_component c then None else Some (ModelDetour (base_scope scope) c)))"

definition is_detour :: "affinity_scope \<Rightarrow> bool" where
  "is_detour s = (case s of ModelDetour _ _ \<Rightarrow> True | BaseScope _ \<Rightarrow> False)"


section \<open>Entries\<close>

definition affinity_for :: "string \<Rightarrow> affinity_scope \<Rightarrow> affinity_state \<Rightarrow> affinity option" where
  "affinity_for thread sc s = (if \<not> admissible_component thread then None
     else (case map_of (at_map s) thread of None \<Rightarrow> None | Some m \<Rightarrow> map_of m sc))"

definition thread_affinity :: "string \<Rightarrow> quota_scope option \<Rightarrow> affinity_state \<Rightarrow> affinity option" where
  "thread_affinity thread scope = affinity_for thread (BaseScope (base_scope scope))"

definition model_detour_affinity :: "string \<Rightarrow> string option \<Rightarrow> quota_scope option \<Rightarrow> affinity_state \<Rightarrow> affinity option" where
  "model_detour_affinity thread model scope s = (case detour_scope model scope of
     None \<Rightarrow> None | Some sc \<Rightarrow> affinity_for thread sc s)"

text \<open>The code edits an entry in place.\<close>

definition edit_affinity :: "string \<Rightarrow> affinity_scope \<Rightarrow> (affinity \<Rightarrow> affinity) \<Rightarrow> affinity_state \<Rightarrow> affinity_state" where
  "edit_affinity thread sc f s = (case map_of (at_map s) thread of
     None \<Rightarrow> s
   | Some m \<Rightarrow> (case map_of m sc of
        None \<Rightarrow> s
      | Some a \<Rightarrow> s\<lparr>at_map := AList.update thread (AList.update sc (f a) m) (at_map s)\<rparr>))"

definition put_scopes :: "string \<Rightarrow> (affinity_scope, affinity) jsmap \<Rightarrow> affinity_state \<Rightarrow> affinity_state" where
  "put_scopes thread m s =
     s\<lparr>at_map := (if m = [] then AList.delete thread (at_map s) else AList.update thread m (at_map s))\<rparr>"

definition delete_affinity :: "string \<Rightarrow> affinity_scope \<Rightarrow> affinity_state \<Rightarrow> affinity_state" where
  "delete_affinity thread sc s =
     (if \<not> admissible_component thread then s
      else (case map_of (at_map s) thread of
          None \<Rightarrow> s
        | Some m \<Rightarrow> put_scopes thread (AList.delete sc m)
            (if jm_has m sc then s\<lparr>at_total := at_total s - 1\<rparr> else s)))"

definition delete_thread_affinity :: "string \<Rightarrow> quota_scope option \<Rightarrow> affinity_state \<Rightarrow> affinity_state" where
  "delete_thread_affinity thread scope = delete_affinity thread (BaseScope (base_scope scope))"

definition delete_model_detour :: "string \<Rightarrow> string option \<Rightarrow> quota_scope option \<Rightarrow> affinity_state \<Rightarrow> affinity_state" where
  "delete_model_detour thread model scope s = (case detour_scope model scope of
     None \<Rightarrow> s | Some sc \<Rightarrow> delete_affinity thread sc s)"

text \<open>Keeping the entries of a thread that pass a test.\<close>

definition keep_entries :: "(affinity \<Rightarrow> bool) \<Rightarrow> string \<Rightarrow> affinity_state \<Rightarrow> affinity_state" where
  "keep_entries keep thread s = (case map_of (at_map s) thread of
     None \<Rightarrow> s
   | Some m \<Rightarrow> (let kept = filter (\<lambda>(_, a). keep a) m
       in put_scopes thread kept (s\<lparr>at_total := at_total s - (length m - length kept)\<rparr>)))"

definition delete_affinities_for_account :: "string \<Rightarrow> string \<Rightarrow> affinity_state \<Rightarrow> affinity_state" where
  "delete_affinities_for_account thread account s =
     (if \<not> admissible_component thread \<or> \<not> admissible_component account then s
      else keep_entries (\<lambda>a. af_account a \<noteq> account) thread s)"


section \<open>Reasons of releases\<close>

definition note_pending :: "string option \<Rightarrow> affinity_reason \<Rightarrow> affinity_state \<Rightarrow> affinity_state" where
  "note_pending thread reason s = (case thread of
     None \<Rightarrow> s
   | Some t \<Rightarrow> (let p = at_pending s;
         p1 = (if \<not> jm_has p t \<and> length p \<ge> max_pending_reasons then tl p else p)
       in s\<lparr>at_pending := AList.update t reason p1\<rparr>))"

definition peek_pending :: "string option \<Rightarrow> affinity_state \<Rightarrow> affinity_reason option" where
  "peek_pending thread s = (case thread of None \<Rightarrow> None | Some t \<Rightarrow> map_of (at_pending s) t)"

definition clear_pending :: "string option \<Rightarrow> affinity_state \<Rightarrow> affinity_state" where
  "clear_pending thread s = (case thread of None \<Rightarrow> s | Some t \<Rightarrow> s\<lparr>at_pending := AList.delete t (at_pending s)\<rparr>)"

text \<open>
  The part of the reset that is kept here; the recovery state goes with it in \<open>clear_thread_state\<close> of
  \<open>Codex_Binding\<close>, and the refresh back-offs it forgets are read from the environment.
\<close>

definition clear_thread_account_map :: "affinity_state \<Rightarrow> affinity_state" where
  "clear_thread_account_map s = s\<lparr>at_map := [], at_total := 0, at_issuers := []\<rparr>"

definition drop_account_of :: "affinity_reason \<Rightarrow> string \<Rightarrow> string \<Rightarrow> affinity_state \<Rightarrow> affinity_state" where
  "drop_account_of reason account thread s =
     (case map_of (at_map s) thread of
        None \<Rightarrow> s
      | Some m \<Rightarrow> (let s1 = keep_entries (\<lambda>a. af_account a \<noteq> account) thread s
          in if list_ex (\<lambda>(_, a). af_account a = account) m then note_pending (Some thread) reason s1 else s1))"

definition clear_account_affinities :: "string \<Rightarrow> affinity_reason \<Rightarrow> affinity_state \<Rightarrow> affinity_state" where
  "clear_account_affinities account reason s = fold (drop_account_of reason account) (map fst (at_map s)) s"


section \<open>Liveness\<close>

definition is_affinity_expired :: "affinity \<Rightarrow> rat \<Rightarrow> bool" where
  "is_affinity_expired a now \<longleftrightarrow> now - af_last_used a > affinity_idle_ttl_ms"

definition is_generation_live :: "(string, account_record) jsmap \<Rightarrow> affinity \<Rightarrow> bool" where
  "is_generation_live records a \<longleftrightarrow>
     (if af_account a = main_id then af_generation a = 0 else credential_live records (af_account a) (af_generation a))"

definition hand_off_generation ::
    "(string, account_record) jsmap \<Rightarrow> string \<Rightarrow> nat \<Rightarrow> nat \<Rightarrow> affinity_state \<Rightarrow> bool \<times> affinity_state" where
  "hand_off_generation records account from_gen to_gen s =
     (if account = main_id \<or> to_gen \<noteq> from_gen + 1 \<or> \<not> credential_live records account to_gen then (False, s)
      else (let match = (\<lambda>a. af_account a = account \<and> af_generation a = from_gen)
        in (list_ex (\<lambda>(_, m). list_ex (\<lambda>(_, a). match a) m) (at_map s),
            s\<lparr>at_map := map (\<lambda>(t, m). (t, map (\<lambda>(sc, a). (sc, if match a then a\<lparr>af_generation := to_gen\<rparr> else a)) m)) (at_map s)\<rparr>)))"


section \<open>Bounds\<close>

definition prune_expired :: "rat \<Rightarrow> affinity_state \<Rightarrow> affinity_state" where
  "prune_expired now s = fold (keep_entries (\<lambda>a. \<not> is_affinity_expired a now)) (map fst (at_map s)) s"

text \<open>The victim of the bound: detours first, then the one used longest ago, the first of equals.\<close>

definition better_victim :: "(string \<times> affinity_scope \<times> affinity) option \<Rightarrow> string \<times> affinity_scope \<times> affinity \<Rightarrow> bool" where
  "better_victim best c = (case c of (_, sc, a) \<Rightarrow> (case best of
     None \<Rightarrow> True
   | Some (_, sc', a') \<Rightarrow> is_detour sc \<and> \<not> is_detour sc' \<or> is_detour sc = is_detour sc' \<and> af_last_used a < af_last_used a'))"

definition all_entries :: "affinity_state \<Rightarrow> (string \<times> affinity_scope \<times> affinity) list" where
  "all_entries s = concat (map (\<lambda>(t, m). map (\<lambda>(sc, a). (t, sc, a)) m) (at_map s))"

definition lru_victim :: "affinity_state \<Rightarrow> (string \<times> affinity_scope \<times> affinity) option" where
  "lru_victim s = fold (\<lambda>c best. if better_victim best c then Some c else best) (all_entries s) None"

text \<open>The loop removes one entry a round; with the counter as fuel it ends at the bound, see \<open>prune_lru_bound\<close>.\<close>

fun prune_lru_rounds :: "nat \<Rightarrow> affinity_state \<Rightarrow> affinity_state" where
  "prune_lru_rounds 0 s = s"
| "prune_lru_rounds (Suc n) s =
     (if at_total s \<le> affinity_max_entries then s
      else (case lru_victim s of
          None \<Rightarrow> s
        | Some (t, sc, _) \<Rightarrow> if t = [] then s else prune_lru_rounds n (delete_affinity t sc s)))"

definition prune_lru :: "affinity_state \<Rightarrow> affinity_state" where
  "prune_lru s = prune_lru_rounds (at_total s) s"

definition bind_affinity ::
    "(string, account_record) jsmap \<Rightarrow> string \<Rightarrow> string \<Rightarrow> rat \<Rightarrow> affinity_scope \<Rightarrow> affinity_state \<Rightarrow> affinity_state" where
  "bind_affinity records thread account now sc s =
     (if \<not> admissible_component thread \<or> \<not> admissible_component account then s
      else (case (if account = main_id then Some 0
                  else (case map_of records account of None \<Rightarrow> None
                    | Some r \<Rightarrow> if ar_credential r \<and> \<not> ar_deleted r then Some (ar_generation r) else None)) of
          None \<Rightarrow> s
        | Some g \<Rightarrow>
            (let s1 = prune_expired now s; m = nullish (map_of (at_map s1) thread) []; previous = map_of m sc;
                 a = \<lparr>af_account = account, af_generation = g,
                   af_created = (case previous of None \<Rightarrow> now | Some p \<Rightarrow> af_created p), af_last_used = now, af_last_reeval = now,
                   af_hold_since = None, af_detour = None\<rparr>
             in prune_lru (s1\<lparr>at_map := AList.update thread (AList.update sc a m) (at_map s1),
                   at_total := at_total s1 + (if previous = None then 1 else 0)\<rparr>))))"

definition bind_thread_affinity ::
    "(string, account_record) jsmap \<Rightarrow> string \<Rightarrow> string \<Rightarrow> rat \<Rightarrow> quota_scope option \<Rightarrow> affinity_state \<Rightarrow> affinity_state" where
  "bind_thread_affinity records thread account now scope = bind_affinity records thread account now (BaseScope (base_scope scope))"

definition bind_model_detour ::
    "(string, account_record) jsmap \<Rightarrow> string \<Rightarrow> string \<Rightarrow> rat \<Rightarrow> string option \<Rightarrow> quota_scope option \<Rightarrow> affinity_state \<Rightarrow> affinity_state" where
  "bind_model_detour records thread account now model scope s = (case detour_scope model scope of
     None \<Rightarrow> s | Some sc \<Rightarrow> bind_affinity records thread account now sc s)"


section \<open>Migration and issuers\<close>

definition adopt_legacy_for_scope ::
    "(string, account_record) jsmap \<Rightarrow> string \<Rightarrow> string \<Rightarrow> rat \<Rightarrow> affinity_scope \<Rightarrow> affinity_state \<Rightarrow> affinity_state" where
  "adopt_legacy_for_scope records thread legacy now sc s =
     (if affinity_for thread sc s \<noteq> None then s
      else (case affinity_for legacy sc s of
          None \<Rightarrow> s
        | Some a \<Rightarrow> delete_affinity legacy sc
            (if \<not> is_affinity_expired a now \<and> is_generation_live records a
             then bind_affinity records thread (af_account a) now sc s else s)))"

definition adopt_legacy_lineage ::
    "(string, account_record) jsmap \<Rightarrow> string \<Rightarrow> string option \<Rightarrow> rat \<Rightarrow> quota_scope option \<Rightarrow> string option \<Rightarrow> affinity_state \<Rightarrow> affinity_state" where
  "adopt_legacy_lineage records thread legacy now scope model s = (case legacy of
     None \<Rightarrow> s
   | Some l \<Rightarrow> if l = thread then s
       else (let s1 = adopt_legacy_for_scope records thread l now (BaseScope (base_scope scope)) s
         in case detour_scope model scope of None \<Rightarrow> s1 | Some sc \<Rightarrow> adopt_legacy_for_scope records thread l now sc s1))"

definition oldest_issuer :: "(string, string \<times> rat) jsmap \<Rightarrow> (string \<times> rat) option" where
  "oldest_issuer m = fold (\<lambda>(k, (_, t)) best. case best of None \<Rightarrow> Some (k, t)
     | Some (_, b) \<Rightarrow> if t < b then Some (k, t) else best) m None"

fun bound_issuers :: "nat \<Rightarrow> (string, string \<times> rat) jsmap \<Rightarrow> (string, string \<times> rat) jsmap" where
  "bound_issuers 0 m = m"
| "bound_issuers (Suc n) m =
     (if length m \<le> affinity_max_entries then m
      else (case oldest_issuer m of None \<Rightarrow> m | Some (k, _) \<Rightarrow> if k = [] then m else bound_issuers n (AList.delete k m)))"

definition prune_issuers :: "rat \<Rightarrow> (string, string \<times> rat) jsmap \<Rightarrow> (string, string \<times> rat) jsmap" where
  "prune_issuers now m = (let kept = filter (\<lambda>(_, (_, t)). now - t \<le> affinity_idle_ttl_ms) m in bound_issuers (length kept) kept)"

definition remember_issuer :: "string \<Rightarrow> string \<Rightarrow> rat \<Rightarrow> affinity_state \<Rightarrow> affinity_state" where
  "remember_issuer key account now s =
     (if js_trim key = [] \<or> js_trim account = [] \<or> \<not> admissible_component key \<or> \<not> admissible_component account then s
      else s\<lparr>at_issuers := prune_issuers now (AList.update key (account, now) (prune_issuers now (at_issuers s)))\<rparr>)"

definition peek_issuer :: "string \<Rightarrow> rat \<Rightarrow> affinity_state \<Rightarrow> string option \<times> affinity_state" where
  "peek_issuer key now s =
     (if js_trim key = [] \<or> \<not> admissible_component key then (None, s)
      else (let m = prune_issuers now (at_issuers s)
        in case map_of m key of
            None \<Rightarrow> (None, s\<lparr>at_issuers := m\<rparr>)
          | Some (account, _) \<Rightarrow> (Some account, s\<lparr>at_issuers := AList.update key (account, now) m\<rparr>)))"

end
