(* ===== verification/Codex_Affinity_Properties.thy ===== *)
theory Codex_Affinity_Properties
  imports Codex_Affinity
begin

text \<open>
  The binding map in every history: its counter, its bound and the order in which the bound takes entries,
  what a binding answers afterwards, and the hand-over of bindings to a refreshed credential.
\<close>

section \<open>The invariant\<close>

definition scopes_ok :: "string \<times> (affinity_scope, affinity) jsmap \<Rightarrow> bool" where
  "scopes_ok x \<longleftrightarrow> jm_wf (snd x) \<and> snd x \<noteq> [] \<and> admissible_component (fst x) \<and> fst x \<noteq> []"

definition affinity_ok :: "affinity_state \<Rightarrow> bool" where
  "affinity_ok s \<longleftrightarrow> jm_wf (at_map s) \<and> (\<forall>x \<in> set (at_map s). scopes_ok x) \<and> at_total s = length (all_entries s)"

lemma length_all_entries: "length (all_entries s) = sum_list (map (\<lambda>x. length (snd x)) (at_map s))"
  by (simp add: all_entries_def length_concat comp_def case_prod_unfold)

lemma ok_admissible: "affinity_ok s \<Longrightarrow> map_of (at_map s) t = Some m \<Longrightarrow> admissible_component t \<and> t \<noteq> [] \<and> jm_wf m \<and> m \<noteq> []"
  using map_of_SomeD [of "at_map s" t m] by (auto simp: affinity_ok_def scopes_ok_def)

lemma in_all_entries:
  assumes "affinity_ok s"
  shows "(t, sc, a) \<in> set (all_entries s) \<longleftrightarrow> affinity_for t sc s = Some a"
proof -
  have wf: "jm_wf (at_map s)" using assms by (simp add: affinity_ok_def)
  have "(t, sc, a) \<in> set (all_entries s) \<longleftrightarrow> (\<exists>m. (t, m) \<in> set (at_map s) \<and> (sc, a) \<in> set m)"
    by (force simp: all_entries_def)
  also have "\<dots> \<longleftrightarrow> (\<exists>m. map_of (at_map s) t = Some m \<and> map_of m sc = Some a)"
    using jm_in_iff [OF wf] jm_in_iff ok_admissible [OF assms] by metis
  also have "\<dots> \<longleftrightarrow> affinity_for t sc s = Some a"
    using ok_admissible [OF assms] by (auto simp: affinity_for_def split: option.splits)
  finally show ?thesis .
qed

lemma entries_le_total:
  assumes "affinity_ok s" and "map_of (at_map s) t = Some m"
  shows "length m \<le> at_total s"
proof -
  have "(t, m) \<in> set (at_map s)" using assms(2) by (rule map_of_SomeD)
  then have "length m \<in> set (map (\<lambda>x. length (snd x)) (at_map s))" by force
  then have "length m \<le> sum_list (map (\<lambda>x. length (snd x)) (at_map s))" by (intro member_le_sum_list) simp_all
  then show ?thesis using assms(1) by (simp add: affinity_ok_def length_all_entries)
qed

lemma sum_update:
  fixes f :: "'b \<Rightarrow> nat"
  assumes "jm_wf m" and "map_of m k = Some v"
  shows "sum_list (map (\<lambda>x. f (snd x)) (AList.update k w m)) + f v = sum_list (map (\<lambda>x. f (snd x)) m) + f w"
  using assms
proof (induction m)
  case (Cons x m)
  then show ?case by (cases x) (auto split: if_splits)
qed simp

lemma sum_update_new:
  fixes f :: "'b \<Rightarrow> nat"
  shows "map_of m k = None \<Longrightarrow> sum_list (map (\<lambda>x. f (snd x)) (AList.update k w m)) = sum_list (map (\<lambda>x. f (snd x)) m) + f w"
proof (induction m)
  case (Cons x m)
  then show ?case by (cases x) (auto split: if_splits)
qed simp

lemma sum_delete:
  fixes f :: "'b \<Rightarrow> nat"
  assumes "jm_wf m" and "map_of m k = Some v"
  shows "sum_list (map (\<lambda>x. f (snd x)) (AList.delete k m)) + f v = sum_list (map (\<lambda>x. f (snd x)) m)"
  using assms
proof (induction m)
  case (Cons x m)
  obtain k' v' where x: "x = (k', v')" by (cases x)
  show ?case
  proof (cases "k' = k")
    case True
    then have "map_of m k = None" using Cons.prems x by (auto simp: map_of_eq_None_iff)
    then have "AList.delete k m = m" by (simp add: delete_absent)
    then show ?thesis using True x Cons.prems by simp
  next
    case False
    then show ?thesis using Cons x by simp
  qed
qed simp

lemma set_update_subset: "set (AList.update k v m) \<subseteq> insert (k, v) (set m)"
  by (induction m) auto

lemma set_delete_subset: "set (AList.delete k m) \<subseteq> set m"
  by (auto simp: AList.delete_eq)

text \<open>Replacing the entries of a thread and moving the counter by the difference.\<close>

lemma ok_put_scopes:
  assumes ok: "affinity_ok s" and m: "map_of (at_map s) t = Some m" and w: "jm_wf m'" and n: "n + length m = at_total s + length m'"
  shows "affinity_ok (put_scopes t m' (s\<lparr>at_total := n\<rparr>))"
proof -
  have wf: "jm_wf (at_map s)" "\<forall>x \<in> set (at_map s). scopes_ok x" and tot: "at_total s = sum_list (map (\<lambda>x. length (snd x)) (at_map s))"
    using ok by (simp_all add: affinity_ok_def length_all_entries)
  have t: "admissible_component t \<and> t \<noteq> []" using wf(2) map_of_SomeD [OF m] by (auto simp: scopes_ok_def)
  show ?thesis
  proof (cases "m' = []")
    case True
    have "sum_list (map (\<lambda>x. length (snd x)) (AList.delete t (at_map s))) + length m = at_total s"
      unfolding tot by (rule sum_delete [OF wf(1) m])
    then show ?thesis using True wf n set_delete_subset [of t "at_map s"]
      by (auto simp: put_scopes_def affinity_ok_def length_all_entries)
  next
    case False
    have "sum_list (map (\<lambda>x. length (snd x)) (AList.update t m' (at_map s))) + length m = at_total s + length m'"
      unfolding tot by (rule sum_update [OF wf(1) m])
    moreover have "\<forall>x \<in> set (AList.update t m' (at_map s)). scopes_ok x"
      using wf(2) set_update_subset [of t m' "at_map s"] False w t by (auto simp: scopes_ok_def)
    ultimately show ?thesis using False wf(1) n by (simp add: put_scopes_def affinity_ok_def length_all_entries)
  qed
qed

lemma ok_delete: "affinity_ok s \<Longrightarrow> affinity_ok (delete_affinity t sc s)"
proof -
  assume ok: "affinity_ok s"
  show ?thesis
  proof (cases "map_of (at_map s) t")
    case None
    then show ?thesis using ok by (simp add: delete_affinity_def)
  next
    case (Some m)
    have w: "jm_wf m" using ok map_of_SomeD [OF Some] by (auto simp: affinity_ok_def scopes_ok_def)
    have big: "length m \<le> at_total s" by (rule entries_le_total [OF ok Some])
    show ?thesis
    proof (cases "jm_has m sc")
      case True
      then have l: "length (AList.delete sc m) + 1 = length m" using length_delete_present [OF w] by simp
      have "affinity_ok (put_scopes t (AList.delete sc m) (s\<lparr>at_total := at_total s - 1\<rparr>))"
        by (rule ok_put_scopes [OF ok Some]) (use w l big in auto)
      then show ?thesis using ok Some True by (simp add: delete_affinity_def)
    next
      case False
      then have "AList.delete sc m = m" by (simp add: delete_absent)
      moreover have "affinity_ok (put_scopes t m (s\<lparr>at_total := at_total s\<rparr>))"
        by (rule ok_put_scopes [OF ok Some w]) simp
      ultimately show ?thesis using ok Some False by (simp add: delete_affinity_def)
    qed
  qed
qed

lemma ok_keep: "affinity_ok s \<Longrightarrow> affinity_ok (keep_entries keep t s)"
proof -
  assume ok: "affinity_ok s"
  show ?thesis
  proof (cases "map_of (at_map s) t")
    case None
    then show ?thesis using ok by (simp add: keep_entries_def)
  next
    case (Some m)
    have w: "jm_wf m" using ok map_of_SomeD [OF Some] by (auto simp: affinity_ok_def scopes_ok_def)
    have big: "length m \<le> at_total s" by (rule entries_le_total [OF ok Some])
    let ?kept = "filter (\<lambda>(_, a). keep a) m"
    have "affinity_ok (put_scopes t ?kept (s\<lparr>at_total := at_total s - (length m - length ?kept)\<rparr>))"
      by (rule ok_put_scopes [OF ok Some]) (use w big length_filter_le [of "\<lambda>(_, a). keep a" m] in auto)
    then show ?thesis using Some by (simp add: keep_entries_def Let_def)
  qed
qed

lemma ok_fold: "affinity_ok s \<Longrightarrow> (\<And>x s. affinity_ok s \<Longrightarrow> affinity_ok (f x s)) \<Longrightarrow> affinity_ok (fold f xs s)"
  by (induction xs arbitrary: s) simp_all

lemma ok_prune_expired: "affinity_ok s \<Longrightarrow> affinity_ok (prune_expired now s)"
  unfolding prune_expired_def by (rule ok_fold) (simp_all add: ok_keep)

lemma ok_same_map: "affinity_ok s \<Longrightarrow> at_map s' = at_map s \<Longrightarrow> at_total s' = at_total s \<Longrightarrow> affinity_ok s'"
  by (simp add: affinity_ok_def all_entries_def)

lemma ok_edit: "affinity_ok s \<Longrightarrow> affinity_ok (edit_affinity t sc f s)"
proof -
  assume ok: "affinity_ok s"
  show ?thesis
  proof (cases "\<exists>m a. map_of (at_map s) t = Some m \<and> map_of m sc = Some a")
    case False
    then show ?thesis using ok by (auto simp: edit_affinity_def split: option.split)
  next
    case True
    then obtain m a where m: "map_of (at_map s) t = Some m" "map_of m sc = Some a" by blast
    have w: "jm_wf m" using ok map_of_SomeD [OF m(1)] by (auto simp: affinity_ok_def scopes_ok_def)
    have l: "length (AList.update sc (f a) m) = length m" using length_update_present [of m sc] m(2) by simp
    then have ne: "AList.update sc (f a) m \<noteq> []" using m(2) by (metis length_0_conv map_of.simps(1) option.distinct(1))
    have "affinity_ok (put_scopes t (AList.update sc (f a) m) (s\<lparr>at_total := at_total s\<rparr>))"
      by (rule ok_put_scopes [OF ok m(1)]) (use w l in auto)
    then show ?thesis using m ne by (simp add: edit_affinity_def put_scopes_def)
  qed
qed


lemma ok_bound_entry:
  assumes ok: "affinity_ok s" and t: "admissible_component t" "t \<noteq> []" and m: "m = nullish (map_of (at_map s) t) []"
  shows "affinity_ok (s\<lparr>at_map := AList.update t (AList.update sc a m) (at_map s),
      at_total := at_total s + (if map_of m sc = None then 1 else 0)\<rparr>)"
proof (cases "map_of (at_map s) t")
  case None
  have m0: "m = []" using None m by simp
  have "sum_list (map (\<lambda>x. length (snd x)) (AList.update t [(sc, a)] (at_map s)))
      = sum_list (map (\<lambda>x. length (snd x)) (at_map s)) + length [(sc, a)]"
    by (rule sum_update_new [OF None])
  moreover have "\<forall>x \<in> set (AList.update t [(sc, a)] (at_map s)). scopes_ok x"
    using ok set_update_subset [of t "[(sc, a)]" "at_map s"] t by (auto simp: affinity_ok_def scopes_ok_def)
  ultimately show ?thesis using ok m0 by (simp add: affinity_ok_def length_all_entries)
next
  case (Some m0)
  then have m0: "m = m0" using m by simp
  then have w: "jm_wf m" using ok_admissible [OF ok Some] by simp
  have l: "length (AList.update sc a m) = length m + (if map_of m sc = None then 1 else 0)"
    using length_update_absent [of m sc a] length_update_present [of m sc a] by auto
  have ne: "AList.update sc a m \<noteq> []" by (cases m) (auto split: if_splits)
  have "affinity_ok (put_scopes t (AList.update sc a m) (s\<lparr>at_total := at_total s + (if map_of m sc = None then 1 else 0)\<rparr>))"
    by (rule ok_put_scopes [OF ok Some]) (use w l m0 in auto)
  then show ?thesis using ne by (auto simp: put_scopes_def affinity_ok_def all_entries_def)
qed


section \<open>The bound\<close>

definition goes_before :: "string \<times> affinity_scope \<times> affinity \<Rightarrow> string \<times> affinity_scope \<times> affinity \<Rightarrow> bool" where
  "goes_before c d \<longleftrightarrow> (case (c, d) of ((_, sc, a), (_, sc', a')) \<Rightarrow>
     is_detour sc \<and> \<not> is_detour sc' \<or> is_detour sc = is_detour sc' \<and> af_last_used a < af_last_used a')"

lemma better_is_before: "better_victim (Some b) c = goes_before c b"
  by (simp add: better_victim_def goes_before_def case_prod_unfold)

lemma goes_before_trans: "\<not> goes_before x b \<Longrightarrow> goes_before c b \<Longrightarrow> \<not> goes_before x c"
  by (auto simp: goes_before_def case_prod_unfold)

lemma victim_fold:
  "\<exists>v. fold (\<lambda>c best. if better_victim best c then Some c else best) xs (Some b) = Some v
     \<and> v \<in> insert b (set xs) \<and> (\<forall>x \<in> insert b (set xs). \<not> goes_before x v)"
proof (induction xs arbitrary: b)
  case Nil
  show ?case by (auto simp: goes_before_def case_prod_unfold)
next
  case (Cons c xs)
  show ?case
  proof (cases "goes_before c b")
    case True
    then obtain v where v: "fold (\<lambda>c best. if better_victim best c then Some c else best) xs (Some c) = Some v"
        "v \<in> insert c (set xs)" "\<forall>x \<in> insert c (set xs). \<not> goes_before x v" using Cons.IH [of c] by blast
    have "\<not> goes_before b v"
    proof
      assume "goes_before b v"
      then have "\<not> goes_before c b" using v(3) goes_before_trans by blast
      then show False using True by blast
    qed
    then show ?thesis using v True by (auto simp: better_is_before)
  next
    case False
    obtain v where v: "fold (\<lambda>c best. if better_victim best c then Some c else best) xs (Some b) = Some v"
        "v \<in> insert b (set xs)" "\<forall>x \<in> insert b (set xs). \<not> goes_before x v" using Cons.IH [of b] by blast
    have "\<not> goes_before c v"
    proof
      assume "goes_before c v"
      then have "\<not> goes_before b c" using v(3) goes_before_trans by blast
      then show False using \<open>goes_before c v\<close> False v(3) by (auto simp: goes_before_def case_prod_unfold)
    qed
    then show ?thesis using v False by (auto simp: better_is_before)
  qed
qed

lemma lru_victim_first:
  assumes "all_entries s \<noteq> []"
  obtains v where "lru_victim s = Some v" and "v \<in> set (all_entries s)" and "\<forall>x \<in> set (all_entries s). \<not> goes_before x v"
proof -
  obtain c xs where c: "all_entries s = c # xs" using assms by (cases "all_entries s") auto
  have "lru_victim s = fold (\<lambda>c best. if better_victim best c then Some c else best) xs (Some c)"
    by (simp add: lru_victim_def c better_victim_def case_prod_unfold)
  then show ?thesis using victim_fold [of xs c] c that by auto
qed

lemma lookup_delete:
  assumes "affinity_ok s"
  shows "affinity_for t' sc' (delete_affinity t sc s) = (if t' = t \<and> sc' = sc then None else affinity_for t' sc' s)"
proof (cases "map_of (at_map s) t")
  case None
  then show ?thesis by (auto simp: delete_affinity_def affinity_for_def)
next
  case (Some m)
  have adm: "admissible_component t" using ok_admissible [OF assms Some] by simp
  have gone: "map_of m sc' = None" if "AList.delete sc m = []" "sc' \<noteq> sc" for sc'
  proof -
    have "map_of (AList.delete sc m) sc' = None" using that by simp
    then show ?thesis using that(2) by simp
  qed
  show ?thesis using Some adm gone by (auto simp: delete_affinity_def affinity_for_def put_scopes_def split: option.splits)
qed

lemma total_delete:
  assumes "affinity_ok s" and "affinity_for t sc s = Some a"
  shows "at_total (delete_affinity t sc s) = at_total s - 1"
  using assms by (auto simp: affinity_for_def delete_affinity_def put_scopes_def split: if_splits option.splits)

text \<open>What the rounds leave is what was there; every entry they take goes before no entry they leave.\<close>

definition trimmed :: "affinity_state \<Rightarrow> affinity_state \<Rightarrow> bool" where
  "trimmed s s' \<longleftrightarrow> affinity_ok s' \<and> (\<forall>t sc. affinity_for t sc s' \<in> {None, affinity_for t sc s})
     \<and> (\<forall>x \<in> set (all_entries s) - set (all_entries s'). \<forall>y \<in> set (all_entries s'). \<not> goes_before y x)"

lemma trimmed_entries: "affinity_ok s \<Longrightarrow> trimmed s s' \<Longrightarrow> set (all_entries s') \<subseteq> set (all_entries s)"
proof
  fix x
  assume a: "affinity_ok s" "trimmed s s'" "x \<in> set (all_entries s')"
  obtain t sc e where x: "x = (t, sc, e)" by (cases x)
  have "affinity_for t sc s' = Some e" using a x in_all_entries [of s'] by (simp add: trimmed_def)
  then have "affinity_for t sc s = Some e" using a(2) unfolding trimmed_def by (metis insertE option.distinct(1) singletonD)
  then show "x \<in> set (all_entries s)" using a(1) x in_all_entries by simp
qed

lemma prune_rounds_trim:
  assumes "affinity_ok s" and "at_total s \<le> n + affinity_max_entries"
  shows "trimmed s (prune_lru_rounds n s) \<and> at_total (prune_lru_rounds n s) = min (at_total s) affinity_max_entries"
  using assms
proof (induction n arbitrary: s)
  case 0
  then show ?case by (auto simp: trimmed_def)
next
  case (Suc n)
  show ?case
  proof (cases "at_total s \<le> affinity_max_entries")
    case True
    then show ?thesis using Suc.prems by (auto simp: trimmed_def)
  next
    case False
    then have "all_entries s \<noteq> []" using Suc.prems(1) by (auto simp: affinity_ok_def)
    then obtain v where v: "lru_victim s = Some v" "v \<in> set (all_entries s)" "\<forall>x \<in> set (all_entries s). \<not> goes_before x v"
      by (rule lru_victim_first)
    obtain t sc a where vv: "v = (t, sc, a)" by (cases v)
    have l: "affinity_for t sc s = Some a" using v(2) vv in_all_entries [OF Suc.prems(1)] by simp
    then obtain m where "map_of (at_map s) t = Some m" by (auto simp: affinity_for_def split: if_splits option.splits)
    then have t: "t \<noteq> []" using ok_admissible [OF Suc.prems(1)] by blast
    let ?s1 = "delete_affinity t sc s"
    have ok1: "affinity_ok ?s1" by (rule ok_delete [OF Suc.prems(1)])
    have tot: "at_total ?s1 = at_total s - 1" by (rule total_delete [OF Suc.prems(1) l])
    have run: "prune_lru_rounds (Suc n) s = prune_lru_rounds n ?s1" using False v(1) vv t by simp
    have IH: "trimmed ?s1 (prune_lru_rounds n ?s1) \<and> at_total (prune_lru_rounds n ?s1) = min (at_total ?s1) affinity_max_entries"
      by (rule Suc.IH [OF ok1]) (use tot Suc.prems(2) in simp)
    have sub: "set (all_entries (prune_lru_rounds n ?s1)) \<subseteq> set (all_entries ?s1)" using trimmed_entries [OF ok1] IH by blast
    have look: "affinity_for t' sc' ?s1 = (if t' = t \<and> sc' = sc then None else affinity_for t' sc' s)" for t' sc'
      by (rule lookup_delete [OF Suc.prems(1)])
    have rest: "set (all_entries s) \<subseteq> insert v (set (all_entries ?s1))" and sub1: "set (all_entries ?s1) \<subseteq> set (all_entries s)"
      using in_all_entries [OF Suc.prems(1)] in_all_entries [OF ok1] look l vv by (auto split: if_splits)
    have "trimmed s (prune_lru_rounds n ?s1)"
      unfolding trimmed_def
    proof (intro conjI allI ballI)
      show "affinity_ok (prune_lru_rounds n ?s1)" using IH by (simp add: trimmed_def)
    next
      fix t' sc'
      have "affinity_for t' sc' (prune_lru_rounds n ?s1) \<in> {None, affinity_for t' sc' ?s1}" using IH by (simp add: trimmed_def)
      then show "affinity_for t' sc' (prune_lru_rounds n ?s1) \<in> {None, affinity_for t' sc' s}" using look by (auto split: if_splits)
    next
      fix x y
      assume x: "x \<in> set (all_entries s) - set (all_entries (prune_lru_rounds n ?s1))" and y: "y \<in> set (all_entries (prune_lru_rounds n ?s1))"
      show "\<not> goes_before y x"
      proof (cases "x = v")
        case True
        then show ?thesis using v(3) y sub sub1 by blast
      next
        case False
        then have "x \<in> set (all_entries ?s1)" using x rest by blast
        then show ?thesis using IH x y by (simp add: trimmed_def)
      qed
    qed
    then show ?thesis using run IH tot False by simp
  qed
qed

lemma prune_lru_bound:
  assumes "affinity_ok s"
  shows "trimmed s (prune_lru s)" and "at_total (prune_lru s) = min (at_total s) affinity_max_entries"
  using prune_rounds_trim [OF assms, of "at_total s"] by (simp_all add: prune_lru_def)


lemma prune_one:
  assumes ok: "affinity_ok s" and n: "at_total s = Suc affinity_max_entries"
  obtains t sc a where "affinity_for t sc s = Some a" and "\<forall>x \<in> set (all_entries s). \<not> goes_before x (t, sc, a)"
    and "prune_lru s = delete_affinity t sc s"
proof -
  have "all_entries s \<noteq> []" using ok n by (auto simp: affinity_ok_def)
  then obtain v where v: "lru_victim s = Some v" "v \<in> set (all_entries s)" "\<forall>x \<in> set (all_entries s). \<not> goes_before x v"
    by (rule lru_victim_first)
  obtain t sc a where vv: "v = (t, sc, a)" by (cases v)
  have l: "affinity_for t sc s = Some a" using v(2) vv in_all_entries [OF ok] by simp
  then obtain m where "map_of (at_map s) t = Some m" by (auto simp: affinity_for_def split: if_splits option.splits)
  then have t: "t \<noteq> []" using ok_admissible [OF ok] by blast
  have "at_total (delete_affinity t sc s) = affinity_max_entries" using total_delete [OF ok l] n by simp
  then have stop: "prune_lru_rounds k (delete_affinity t sc s) = delete_affinity t sc s" for k by (cases k) simp_all
  have "prune_lru s = delete_affinity t sc s" using n v(1) vv t stop by (simp add: prune_lru_def)
  then show ?thesis using that l v(3) vv by blast
qed


section \<open>Look-ups\<close>

definition keep_opt :: "(affinity \<Rightarrow> bool) \<Rightarrow> affinity option \<Rightarrow> affinity option" where
  "keep_opt keep x = (case x of None \<Rightarrow> None | Some a \<Rightarrow> if keep a then Some a else None)"

lemma keep_opt_twice: "keep_opt keep (keep_opt keep x) = keep_opt keep x"
  by (simp add: keep_opt_def split: option.split)

lemma lookup_keep:
  assumes "affinity_ok s"
  shows "affinity_for t' sc (keep_entries keep t s) = (if t' = t then keep_opt keep (affinity_for t' sc s) else affinity_for t' sc s)"
proof (cases "map_of (at_map s) t")
  case None
  then show ?thesis by (auto simp: keep_entries_def affinity_for_def keep_opt_def)
next
  case (Some m)
  have w: "jm_wf m" using ok_admissible [OF assms Some] by simp
  have kept: "map_of (filter (\<lambda>(_, a). keep a) m) sc = keep_opt keep (map_of m sc)" for sc
    by (cases "map_of m sc") (simp_all add: map_of_filter_wf [OF w] keep_opt_def)
  have gone: "keep_opt keep (map_of m sc) = None" if "filter (\<lambda>(_, a). keep a) m = []" for sc
    using kept [of sc] that by simp
  show ?thesis using Some gone [of sc] kept [of sc]
    by (cases "filter (\<lambda>(_, a). keep a) m = []") (auto simp: keep_entries_def Let_def put_scopes_def affinity_for_def keep_opt_def)
qed

lemma lookup_keep_all:
  "affinity_ok s \<Longrightarrow> affinity_for t sc (fold (keep_entries keep) ts s) = (if t \<in> set ts then keep_opt keep (affinity_for t sc s) else affinity_for t sc s)"
proof (induction ts arbitrary: s)
  case (Cons x ts)
  then show ?case using ok_keep [OF Cons.prems, of keep x] by (auto simp: lookup_keep keep_opt_twice)
qed simp

lemma lookup_pruned:
  assumes "affinity_ok s"
  shows "affinity_for t sc (prune_expired now s) = keep_opt (\<lambda>a. \<not> is_affinity_expired a now) (affinity_for t sc s)"
proof (cases "t \<in> set (map fst (at_map s))")
  case True
  then show ?thesis by (simp add: prune_expired_def lookup_keep_all [OF assms])
next
  case False
  then have "map_of (at_map s) t = None" by (simp add: map_of_eq_None_iff)
  then have none: "affinity_for t sc s = None" by (simp add: affinity_for_def)
  have "affinity_for t sc (prune_expired now s) = affinity_for t sc s"
    unfolding prune_expired_def lookup_keep_all [OF assms] using False by (rule if_not_P)
  then show ?thesis using none by (simp add: keep_opt_def)
qed

lemma lookup_bound:
  assumes "admissible_component t" and "m = nullish (map_of (at_map s) t) []"
  shows "affinity_for t' sc' (s\<lparr>at_map := AList.update t (AList.update sc a m) (at_map s), at_total := n\<rparr>)
    = (if t' = t \<and> sc' = sc then Some a else affinity_for t' sc' s)"
  using assms by (auto simp: affinity_for_def split: option.split)

lemma lookup_handed:
  "affinity_for t sc (s\<lparr>at_map := map (\<lambda>(t, m). (t, map (\<lambda>(sc, a). (sc, f a)) m)) (at_map s)\<rparr>)
    = map_option f (affinity_for t sc s)"
proof -
  have m: "map_of (map (\<lambda>(sc, a). (sc, f a)) m) sc = map_option f (map_of m sc)" for m :: "(affinity_scope, affinity) jsmap"
    by (induction m) auto
  have out: "map_of (map (\<lambda>(t, m). (t, map (\<lambda>(sc, a). (sc, f a)) m)) xs) t = map_option (map (\<lambda>(sc, a). (sc, f a))) (map_of xs t)"
    for xs :: "(string, (affinity_scope, affinity) jsmap) jsmap"
    by (induction xs) auto
  show ?thesis by (cases "map_of (at_map s) t") (simp_all add: affinity_for_def m out)
qed


section \<open>Binding\<close>

definition bound_generation :: "(string, account_record) jsmap \<Rightarrow> string \<Rightarrow> nat option" where
  "bound_generation records account = (if account = main_id then Some 0 else (case map_of records account of
     None \<Rightarrow> None | Some r \<Rightarrow> if ar_credential r \<and> \<not> ar_deleted r then Some (ar_generation r) else None))"

definition new_binding :: "string \<Rightarrow> nat \<Rightarrow> rat \<Rightarrow> affinity option \<Rightarrow> affinity" where
  "new_binding account g now previous = \<lparr>af_account = account, af_generation = g,
     af_created = (case previous of None \<Rightarrow> now | Some p \<Rightarrow> af_created p), af_last_used = now, af_last_reeval = now,
     af_hold_since = None, af_detour = None\<rparr>"

lemma bind_refused: "\<not> admissible_component thread \<or> \<not> admissible_component account \<or> bound_generation records account = None
    \<Longrightarrow> bind_affinity records thread account now sc s = s"
  by (auto simp: bind_affinity_def bound_generation_def split: if_splits option.splits)

definition written :: "string \<Rightarrow> affinity_scope \<Rightarrow> affinity \<Rightarrow> affinity_state \<Rightarrow> affinity_state" where
  "written thread sc a s = s\<lparr>at_map := AList.update thread (AList.update sc a (nullish (map_of (at_map s) thread) [])) (at_map s),
     at_total := at_total s + (if map_of (nullish (map_of (at_map s) thread) []) sc = None then 1 else 0)\<rparr>"

lemma bind_written:
  assumes "admissible_component thread" and "admissible_component account" and "bound_generation records account = Some g"
  shows "bind_affinity records thread account now sc s =
    (let s1 = prune_expired now s in prune_lru (written thread sc (new_binding account g now (affinity_for thread sc s1)) s1))"
proof -
  have "map_of (nullish (map_of (at_map s1) thread) []) sc = affinity_for thread sc s1" for s1
    using assms(1) by (simp add: affinity_for_def split: option.split)
  then show ?thesis
    using assms by (simp add: bind_affinity_def bound_generation_def [symmetric] written_def new_binding_def Let_def)
qed

lemma ok_written:
  assumes "affinity_ok s" and "admissible_component thread" and "thread \<noteq> []"
  shows "affinity_ok (written thread sc a s)"
  unfolding written_def by (rule ok_bound_entry [OF assms refl])

lemma total_written:
  assumes "admissible_component thread"
  shows "at_total (written thread sc a s) = at_total s + (if affinity_for thread sc s = None then 1 else 0)"
  using assms by (auto simp: written_def affinity_for_def split: option.split)

lemma lookup_written:
  assumes "admissible_component thread"
  shows "affinity_for t' sc' (written thread sc a s) = (if t' = thread \<and> sc' = sc then Some a else affinity_for t' sc' s)"
  unfolding written_def by (rule lookup_bound [OF assms refl])

lemma pruned_total: "affinity_ok s \<Longrightarrow> at_total (prune_expired now s) \<le> at_total s"
proof -
  have "affinity_ok s \<Longrightarrow> at_total (fold (keep_entries keep) ts s) \<le> at_total s" for ts keep
  proof (induction ts arbitrary: s)
    case (Cons t ts)
    have "at_total (keep_entries keep t s) \<le> at_total s"
      by (cases "map_of (at_map s) t") (simp_all add: keep_entries_def put_scopes_def Let_def le_diff_conv)
    then show ?case using Cons.IH [OF ok_keep [OF Cons.prems, of keep t]] by simp
  qed simp
  then show "affinity_ok s \<Longrightarrow> ?thesis" by (simp add: prune_expired_def)
qed

lemma bind_ok:
  assumes "affinity_ok s" and "thread \<noteq> []"
  shows "affinity_ok (bind_affinity records thread account now sc s)
    \<and> at_total (bind_affinity records thread account now sc s) \<le> max (at_total s) affinity_max_entries"
proof (cases "\<not> admissible_component thread \<or> \<not> admissible_component account \<or> bound_generation records account = None")
  case True
  then show ?thesis using assms by (simp add: bind_refused)
next
  case False
  then obtain g where g: "bound_generation records account = Some g" by auto
  let ?s1 = "prune_expired now s"
  let ?w = "written thread sc (new_binding account g now (affinity_for thread sc ?s1)) ?s1"
  have "affinity_ok ?w" using False assms ok_prune_expired ok_written by blast
  then show ?thesis using prune_lru_bound [of ?w] bind_written [of thread account records g now sc s] False g
    by (simp add: Let_def trimmed_def)
qed


section \<open>Runs\<close>

text \<open>The binding map and its companions through any sequence of operations.\<close>

inductive affinity_run :: "affinity_state \<Rightarrow> bool" where
  start: "affinity_run empty_affinities"
| bind: "affinity_run s \<Longrightarrow> thread \<noteq> [] \<Longrightarrow> affinity_run (bind_affinity records thread account now sc s)"
| forget: "affinity_run s \<Longrightarrow> affinity_run (delete_affinity thread sc s)"
| forget_account: "affinity_run s \<Longrightarrow> affinity_run (delete_affinities_for_account thread account s)"
| drop_account: "affinity_run s \<Longrightarrow> affinity_run (clear_account_affinities account reason s)"
| edit: "affinity_run s \<Longrightarrow> affinity_run (edit_affinity thread sc f s)"
| hand_off: "affinity_run s \<Longrightarrow> affinity_run (snd (hand_off_generation records account g g' s))"
| adopt: "affinity_run s \<Longrightarrow> thread \<noteq> [] \<Longrightarrow> affinity_run (adopt_legacy_lineage records thread legacy now scope model s)"
| issue: "affinity_run s \<Longrightarrow> affinity_run (remember_issuer key account now s)"
| peek: "affinity_run s \<Longrightarrow> affinity_run (snd (peek_issuer key now s))"
| note_reason: "affinity_run s \<Longrightarrow> affinity_run (note_pending t reason s)"
| reported: "affinity_run s \<Longrightarrow> affinity_run (clear_pending t s)"
| clear: "affinity_run s \<Longrightarrow> affinity_run (clear_thread_account_map s)"

definition side_ok :: "affinity_state \<Rightarrow> bool" where
  "side_ok s \<longleftrightarrow> length (at_issuers s) \<le> affinity_max_entries \<and> jm_wf (at_issuers s) \<and> [] \<notin> fst ` set (at_issuers s)
     \<and> length (at_pending s) \<le> max_pending_reasons"

definition affinity_inv :: "affinity_state \<Rightarrow> bool" where
  "affinity_inv s \<longleftrightarrow> affinity_ok s \<and> at_total s \<le> affinity_max_entries \<and> side_ok s"

lemma ok_note: "affinity_ok (note_pending t r s) = affinity_ok s" "at_total (note_pending t r s) = at_total s"
    "at_issuers (note_pending t r s) = at_issuers s"
  by (simp_all add: note_pending_def affinity_ok_def all_entries_def Let_def split: option.split)

lemma side_ok_note: "side_ok s \<Longrightarrow> side_ok (note_pending t r s)"
proof (cases t)
  case None
  then show "side_ok s \<Longrightarrow> ?thesis" by (simp add: note_pending_def)
next
  case (Some x)
  assume ok: "side_ok s"
  let ?p = "at_pending s"
  let ?p1 = "if \<not> jm_has ?p x \<and> length ?p \<ge> max_pending_reasons then tl ?p else ?p"
  have len: "length ?p \<le> max_pending_reasons" and pos: "max_pending_reasons > 0"
    using ok by (simp_all add: side_ok_def max_pending_reasons_def)
  have "length (AList.update x r ?p1) \<le> max_pending_reasons"
  proof (cases "jm_has ?p x")
    case True
    then show ?thesis using len by (simp add: length_update_present)
  next
    case False
    then show ?thesis using len pos length_update_le [of x r ?p1] by auto
  qed
  then show ?thesis using ok Some by (simp add: side_ok_def note_pending_def Let_def)
qed

lemma inv_note: "affinity_inv s \<Longrightarrow> affinity_inv (note_pending t r s)"
  by (simp add: affinity_inv_def ok_note side_ok_note)

lemma side_same: "side_ok s \<Longrightarrow> at_issuers s' = at_issuers s \<Longrightarrow> at_pending s' = at_pending s \<Longrightarrow> side_ok s'"
  by (simp add: side_ok_def)

lemma put_sides: "at_issuers (put_scopes t m s) = at_issuers s" "at_pending (put_scopes t m s) = at_pending s"
  by (simp_all add: put_scopes_def)

lemma delete_sides: "at_issuers (delete_affinity t sc s) = at_issuers s" "at_pending (delete_affinity t sc s) = at_pending s"
  by (simp_all add: delete_affinity_def put_sides split: option.split)

lemma keep_sides: "at_issuers (keep_entries keep t s) = at_issuers s" "at_pending (keep_entries keep t s) = at_pending s"
  by (simp_all add: keep_entries_def put_sides Let_def split: option.split)

lemma prune_expired_sides: "at_issuers (prune_expired now s) = at_issuers s \<and> at_pending (prune_expired now s) = at_pending s"
proof -
  have "at_issuers (fold (keep_entries keep) ts s) = at_issuers s \<and> at_pending (fold (keep_entries keep) ts s) = at_pending s" for keep ts
    by (induction ts arbitrary: s) (simp_all add: keep_sides)
  then show ?thesis by (simp add: prune_expired_def)
qed

lemma prune_rounds_sides: "at_issuers (prune_lru_rounds n s) = at_issuers s \<and> at_pending (prune_lru_rounds n s) = at_pending s"
  by (induction n arbitrary: s) (auto simp: delete_sides split: option.split)

lemma bind_sides: "side_ok s \<Longrightarrow> side_ok (bind_affinity records thread account now sc s)"
proof -
  assume ok: "side_ok s"
  show ?thesis
  proof (cases "\<not> admissible_component thread \<or> \<not> admissible_component account \<or> bound_generation records account = None")
    case True
    then show ?thesis using ok by (simp add: bind_refused)
  next
    case False
    then obtain g where "bound_generation records account = Some g" by auto
    then have "bind_affinity records thread account now sc s = (let s1 = prune_expired now s
        in prune_lru (written thread sc (new_binding account g now (affinity_for thread sc s1)) s1))"
      using False by (intro bind_written) simp_all
    then show ?thesis using ok
      by (intro side_same [OF ok]) (simp_all add: Let_def prune_lru_def prune_rounds_sides written_def prune_expired_sides)
  qed
qed

lemma total_deleted: "at_total (delete_affinity t sc s) \<le> at_total s"
  by (simp add: delete_affinity_def put_scopes_def split: option.split)

lemma inv_delete: "affinity_inv s \<Longrightarrow> affinity_inv (delete_affinity t sc s)"
  using total_deleted [of t sc s] side_same [OF _ delete_sides, of s t sc] by (simp add: affinity_inv_def ok_delete)

lemma inv_keep: "affinity_inv s \<Longrightarrow> affinity_inv (keep_entries keep t s)"
proof -
  assume inv: "affinity_inv s"
  have "at_total (keep_entries keep t s) \<le> at_total s"
    by (cases "map_of (at_map s) t") (simp_all add: keep_entries_def put_scopes_def Let_def le_diff_conv)
  then show ?thesis using inv side_same [OF _ keep_sides, of s keep t] by (simp add: affinity_inv_def ok_keep)
qed

lemma inv_bind: "affinity_inv s \<Longrightarrow> thread \<noteq> [] \<Longrightarrow> affinity_inv (bind_affinity records thread account now sc s)"
  using bind_ok [of s thread records account now sc] bind_sides [of s records thread account now sc] by (simp add: affinity_inv_def)

lemma inv_adopt_scope: "affinity_inv s \<Longrightarrow> thread \<noteq> [] \<Longrightarrow> affinity_inv (adopt_legacy_for_scope records thread l now sc s)"
  by (simp add: adopt_legacy_for_scope_def inv_delete inv_bind split: option.split)

lemma inv_adopt: "affinity_inv s \<Longrightarrow> thread \<noteq> [] \<Longrightarrow> affinity_inv (adopt_legacy_lineage records thread l now scope model s)"
  by (simp add: adopt_legacy_lineage_def Let_def inv_adopt_scope split: option.split)

lemma inv_drop_of: "affinity_inv s \<Longrightarrow> affinity_inv (drop_account_of reason account t s)"
  by (simp add: drop_account_of_def Let_def inv_keep inv_note split: option.split)

lemma inv_fold: "affinity_inv s \<Longrightarrow> (\<And>x s. affinity_inv s \<Longrightarrow> affinity_inv (f x s)) \<Longrightarrow> affinity_inv (fold f xs s)"
  by (induction xs arbitrary: s) simp_all

lemma inv_edit: "affinity_inv s \<Longrightarrow> affinity_inv (edit_affinity t sc f s)"
proof -
  assume inv: "affinity_inv s"
  have "at_total (edit_affinity t sc f s) = at_total s" "at_issuers (edit_affinity t sc f s) = at_issuers s"
    "at_pending (edit_affinity t sc f s) = at_pending s"
    by (simp_all add: edit_affinity_def split: option.split)
  then show ?thesis using inv ok_edit [of s t sc f] side_same [of s "edit_affinity t sc f s"] by (simp add: affinity_inv_def)
qed

lemma ok_handed:
  assumes "affinity_ok s"
  shows "affinity_ok (s\<lparr>at_map := map (\<lambda>(t, m). (t, map (\<lambda>(sc, a). (sc, f a)) m)) (at_map s)\<rparr>)"
proof -
  have k: "map fst (map (\<lambda>(t, m). (t, g m)) xs) = map fst xs" for xs :: "('a \<times> 'b) list" and g :: "'b \<Rightarrow> 'c"
    by (induction xs) auto
  have scopes: "scopes_ok (t, map (\<lambda>(sc, a). (sc, f a)) m)" if "(t, m) \<in> set (at_map s)" for t m
  proof -
    have "scopes_ok (t, m)" using assms that by (auto simp: affinity_ok_def)
    then show ?thesis unfolding scopes_ok_def fst_conv snd_conv k by simp
  qed
  have "jm_wf (at_map s)" using assms by (simp add: affinity_ok_def)
  then have "jm_wf (map (\<lambda>(t, m). (t, map (\<lambda>(sc, a). (sc, f a)) m)) (at_map s))" unfolding k .
  then show ?thesis using assms scopes by (auto simp: affinity_ok_def length_all_entries comp_def case_prod_unfold)
qed

lemma inv_handed: "affinity_inv s \<Longrightarrow> affinity_inv (snd (hand_off_generation records account g g' s))"
proof -
  assume inv: "affinity_inv s"
  let ?f = "\<lambda>a. if af_account a = account \<and> af_generation a = g then a\<lparr>af_generation := g'\<rparr> else a"
  have "snd (hand_off_generation records account g g' s) \<in>
      {s, s\<lparr>at_map := map (\<lambda>(t, m). (t, map (\<lambda>(sc, a). (sc, ?f a)) m)) (at_map s)\<rparr>}"
    by (simp add: hand_off_generation_def)
  then show ?thesis using inv ok_handed [of s ?f] by (auto simp: affinity_inv_def side_ok_def)
qed

lemma oldest_in: "m \<noteq> [] \<Longrightarrow> \<exists>k t. oldest_issuer m = Some (k, t) \<and> k \<in> fst ` set m"
proof -
  let ?f = "\<lambda>(k, (_ :: string, t)) best. case best of None \<Rightarrow> Some (k, t) | Some (_, b) \<Rightarrow> if t < b then Some (k, t :: rat) else best"
  have some: "\<exists>k' t'. fold ?f m (Some (k, t)) = Some (k', t') \<and> k' \<in> insert k (fst ` set m)" for k :: string and t m
  proof (induction m arbitrary: k t)
    case (Cons x m)
    obtain k1 a1 t1 where x: "x = (k1, a1, t1)" by (cases x)
    show ?case using Cons.IH [of k1 t1] Cons.IH [of k t] x by auto
  qed simp
  assume "m \<noteq> []"
  then obtain k1 a1 t1 m' where "m = (k1, a1, t1) # m'" by (cases m) auto
  then show ?thesis using some [of m' k1 t1] by (auto simp: oldest_issuer_def)
qed

lemma bound_issuers_ok:
  assumes "jm_wf m" and "[] \<notin> fst ` set m" and "length m \<le> n + affinity_max_entries"
  shows "length (bound_issuers n m) \<le> affinity_max_entries \<and> jm_wf (bound_issuers n m) \<and> set (bound_issuers n m) \<subseteq> set m"
  using assms
proof (induction n arbitrary: m)
  case (Suc n)
  show ?case
  proof (cases "length m \<le> affinity_max_entries")
    case False
    then have "m \<noteq> []" by auto
    then obtain k t where k: "oldest_issuer m = Some (k, t)" "k \<in> fst ` set m" using oldest_in by blast
    let ?d = "AList.delete k m"
    have len: "Suc (length ?d) = length m"
      using length_delete_present [OF Suc.prems(1), of k] k(2) by (auto simp: map_of_eq_None_iff)
    have sub: "set ?d \<subseteq> set m" by (rule set_delete_subset)
    have ne: "k \<noteq> []" using k(2) Suc.prems(2) by metis
    have "length (bound_issuers n ?d) \<le> affinity_max_entries \<and> jm_wf (bound_issuers n ?d) \<and> set (bound_issuers n ?d) \<subseteq> set ?d"
      by (rule Suc.IH) (use Suc.prems sub len in auto)
    moreover have "bound_issuers (Suc n) m = bound_issuers n ?d" using False k(1) ne by simp
    ultimately show ?thesis using sub by (metis order.trans)
  qed (use Suc.prems in simp)
qed simp

lemma prune_issuers_ok:
  assumes "jm_wf m" and "[] \<notin> fst ` set m"
  shows "length (prune_issuers now m) \<le> affinity_max_entries \<and> jm_wf (prune_issuers now m) \<and> [] \<notin> fst ` set (prune_issuers now m)"
proof -
  let ?kept = "filter (\<lambda>(_, (_, t)). now - t \<le> affinity_idle_ttl_ms) m"
  have "jm_wf ?kept" using assms(1) by simp
  moreover have "[] \<notin> fst ` set ?kept" using assms(2) by auto
  ultimately show ?thesis using bound_issuers_ok [of ?kept "length ?kept"] by (auto simp: prune_issuers_def Let_def)
qed

lemma inv_issued: "affinity_inv s \<Longrightarrow> affinity_inv (remember_issuer key account now s)"
proof -
  assume inv: "affinity_inv s"
  let ?m = "AList.update key (account, now) (prune_issuers now (at_issuers s))"
  have base: "jm_wf (prune_issuers now (at_issuers s))" "[] \<notin> fst ` set (prune_issuers now (at_issuers s))"
    using inv prune_issuers_ok [of "at_issuers s" now] by (simp_all add: affinity_inv_def side_ok_def)
  have "[] \<notin> fst ` set ?m" if "js_trim key \<noteq> []"
  proof -
    have "key \<noteq> []" using that by (auto simp: js_trim_def)
    then show ?thesis using base(2) by (auto simp: dom_update)
  qed
  then show ?thesis using inv base(1) prune_issuers_ok [of ?m now]
    by (auto simp: remember_issuer_def affinity_inv_def side_ok_def affinity_ok_def all_entries_def)
qed

lemma inv_peeked: "affinity_inv s \<Longrightarrow> affinity_inv (snd (peek_issuer key now s))"
proof -
  assume inv: "affinity_inv s"
  have base: "length (prune_issuers now (at_issuers s)) \<le> affinity_max_entries" "jm_wf (prune_issuers now (at_issuers s))"
      "[] \<notin> fst ` set (prune_issuers now (at_issuers s))"
    using inv prune_issuers_ok [of "at_issuers s" now] by (simp_all add: affinity_inv_def side_ok_def)
  have "length (AList.update key v (prune_issuers now (at_issuers s))) \<le> affinity_max_entries
      \<and> [] \<notin> fst ` set (AList.update key v (prune_issuers now (at_issuers s)))"
    if "map_of (prune_issuers now (at_issuers s)) key = Some w" "js_trim key \<noteq> []" for v w
  proof -
    have "key \<noteq> []" using that(2) by (auto simp: js_trim_def)
    then show ?thesis using base that(1) length_update_present [of "prune_issuers now (at_issuers s)" key v]
      by (auto simp: dom_update)
  qed
  then show ?thesis using inv base
    by (auto simp: peek_issuer_def Let_def affinity_inv_def side_ok_def affinity_ok_def all_entries_def split: option.splits)
qed

lemma affinity_run_inv: "affinity_run s \<Longrightarrow> affinity_inv s"
proof (induction rule: affinity_run.induct)
  case start
  show ?case by (simp add: affinity_inv_def affinity_ok_def side_ok_def empty_affinities_def all_entries_def)
next
  case (clear s)
  then show ?case by (simp add: affinity_inv_def affinity_ok_def side_ok_def clear_thread_account_map_def all_entries_def)
next
  case (reported s t)
  then show ?case
    by (cases t) (auto simp: clear_pending_def affinity_inv_def affinity_ok_def side_ok_def all_entries_def
        intro: order.trans [OF length_delete_le])
next
  case (drop_account s account reason)
  then show ?case unfolding clear_account_affinities_def by (intro inv_fold) (simp_all add: inv_drop_of)
next
  case (forget_account s thread account)
  then show ?case by (simp add: delete_affinities_for_account_def inv_keep)
qed (simp_all add: inv_bind inv_delete inv_edit inv_handed inv_adopt inv_issued inv_peeked inv_note)



section \<open>Properties\<close>

text \<open>Through any sequence of operations the counter is exactly the number of bindings, never above the
bound; no thread is kept without a binding, and the issuers and the pending reasons are bounded too.\<close>

theorem affinity_counter_exact:
  assumes "affinity_run s"
  shows "at_total s = sum_list (map (\<lambda>(t, m). length m) (at_map s)) \<and> at_total s \<le> affinity_max_entries
    \<and> list_all (\<lambda>(t, m). m \<noteq> []) (at_map s) \<and> distinct (map fst (at_map s))
    \<and> length (at_issuers s) \<le> affinity_max_entries \<and> length (at_pending s) \<le> max_pending_reasons"
proof -
  have inv: "affinity_inv s" by (rule affinity_run_inv [OF assms])
  moreover have "list_all (\<lambda>(t, m). m \<noteq> []) (at_map s)"
    using inv by (auto simp: affinity_inv_def affinity_ok_def scopes_ok_def list_all_iff)
  ultimately show ?thesis by (simp add: affinity_inv_def affinity_ok_def side_ok_def length_all_entries case_prod_unfold)
qed

text \<open>All bindings, as a function.\<close>

definition bindings :: "affinity_state \<Rightarrow> string \<Rightarrow> affinity_scope \<Rightarrow> affinity option" where
  "bindings s t sc = affinity_for t sc s"

lemma bindings_deleted:
  "affinity_ok s \<Longrightarrow> bindings (delete_affinity t sc s) = (\<lambda>t' sc'. if t' = t \<and> sc' = sc then None else bindings s t' sc')"
  by (intro ext) (simp add: bindings_def lookup_delete)

lemma new_binding_live: "bound_generation records account = Some g \<Longrightarrow> is_generation_live records (new_binding account g now previous)"
  by (auto simp: bound_generation_def new_binding_def is_generation_live_def credential_live_def split: if_splits option.splits)

lemma run_pruned_total: "affinity_run s \<Longrightarrow> at_total (prune_expired now s) \<le> affinity_max_entries"
  using affinity_run_inv [of s] pruned_total [of s now] by (simp add: affinity_inv_def)

lemma bound_written:
  fixes now :: rat and sc :: affinity_scope
  assumes run: "affinity_run s" and t: "admissible_component thread" "thread \<noteq> []" and a: "admissible_component account"
    and g: "bound_generation records account = Some g"
  defines "s1 \<equiv> prune_expired now s"
  defines "new \<equiv> new_binding account g now (bindings s1 thread sc)"
  defines "w \<equiv> written thread sc new s1"
  shows "affinity_ok w" "bind_affinity records thread account now sc s = prune_lru w"
    "bindings w = (\<lambda>t' sc'. if t' = thread \<and> sc' = sc then Some new else bindings s1 t' sc')"
    "at_total w = at_total s1 + (if bindings s1 thread sc = None then 1 else 0)"
proof -
  have ok: "affinity_ok s" using affinity_run_inv [OF run] by (simp add: affinity_inv_def)
  show "affinity_ok w" unfolding w_def s1_def by (rule ok_written [OF ok_prune_expired [OF ok] t])
  show "bind_affinity records thread account now sc s = prune_lru w"
    by (simp add: bind_written [OF t(1) a g] Let_def bindings_def w_def new_def s1_def)
  show "bindings w = (\<lambda>t' sc'. if t' = thread \<and> sc' = sc then Some new else bindings s1 t' sc')"
    by (intro ext) (simp add: bindings_def w_def lookup_written [OF t(1)])
  show "at_total w = at_total s1 + (if bindings s1 thread sc = None then 1 else 0)"
    by (simp add: bindings_def w_def total_written [OF t(1)])
qed

lemma one_goes:
  assumes "affinity_ok w" and "at_total w = Suc affinity_max_entries"
  obtains t0 sc0 a0 where "bindings w t0 sc0 = Some a0"
    and "bindings (prune_lru w) = (\<lambda>t' sc'. if t' = t0 \<and> sc' = sc0 then None else bindings w t' sc')"
    and "\<nexists>t' sc' a'. bindings w t' sc' = Some a' \<and> goes_before (t', sc', a') (t0, sc0, a0)"
proof -
  obtain t0 sc0 a0 where v: "affinity_for t0 sc0 w = Some a0" "\<forall>x \<in> set (all_entries w). \<not> goes_before x (t0, sc0, a0)"
      "prune_lru w = delete_affinity t0 sc0 w" by (rule prune_one [OF assms])
  have "bindings w t0 sc0 = Some a0" using v(1) by (simp add: bindings_def)
  moreover have "bindings (prune_lru w) = (\<lambda>t' sc'. if t' = t0 \<and> sc' = sc0 then None else bindings w t' sc')"
    using bindings_deleted [OF assms(1)] unfolding v(3) .
  moreover have "\<nexists>t' sc' a'. bindings w t' sc' = Some a' \<and> goes_before (t', sc', a') (t0, sc0, a0)"
    using v(2) in_all_entries [OF assms(1)] by (metis bindings_def)
  ultimately show ?thesis by (rule that)
qed

text \<open>C35. While there is room a binding reads back as it was made, on the live generation of its account, and
expired bindings apart it costs no other. At the bound it costs exactly one entry: a detour of one model before
any binding of a conversation, and of equals one that was used longest ago. The new binding itself reads
back whenever some entry goes before it in that order; it is the one to go only where none does, see
\<open>lone_detour_is_dropped\<close>.\<close>

theorem binding_costs_least_recent:
  assumes run: "affinity_run s" and t: "admissible_component thread" "thread \<noteq> []" and a: "admissible_component account"
    and g: "bound_generation records account = Some g"
  shows "let s' = bind_affinity records thread account now sc s; s1 = prune_expired now s;
        new = new_binding account g now (bindings s1 thread sc);
        wanted = (\<lambda>t' sc'. if t' = thread \<and> sc' = sc then Some new else bindings s1 t' sc');
        room = (at_total s1 + (if bindings s1 thread sc = None then 1 else 0) \<le> affinity_max_entries)
      in is_generation_live records new
        \<and> (if room then bindings s' = wanted
           else \<exists>t0 sc0 a0. wanted t0 sc0 = Some a0
             \<and> bindings s' = (\<lambda>t' sc'. if t' = t0 \<and> sc' = sc0 then None else wanted t' sc')
             \<and> (\<nexists>t' sc' a'. wanted t' sc' = Some a' \<and> goes_before (t', sc', a') (t0, sc0, a0)))
        \<and> (if room \<or> (\<exists>t' sc' a'. wanted t' sc' = Some a' \<and> goes_before (t', sc', a') (thread, sc, new))
           then bindings s' thread sc = Some new else True)"
proof -
  define s1 where "s1 = prune_expired now s"
  define new where "new = new_binding account g now (bindings s1 thread sc)"
  define w where "w = written thread sc new s1"
  note b = bound_written [OF run t a g, where now = now and sc = sc, folded s1_def, folded new_def, folded w_def]
  have live: "is_generation_live records new" unfolding new_def by (rule new_binding_live [OF g])
  have own: "bindings w thread sc = Some new" by (simp add: b(3))
  note goal = Let_def s1_def [symmetric] new_def [symmetric] b(2) b(4) [symmetric]
  show ?thesis
  proof (cases "at_total w \<le> affinity_max_entries")
    case True
    then have "prune_lru w = w" by (cases "at_total w") (simp_all add: prune_lru_def)
    then have "bindings (prune_lru w) = bindings w" by simp
    then show ?thesis unfolding goal if_P [OF True] using live by (simp add: b(3))
  next
    case False
    then have "at_total w = Suc affinity_max_entries" using b(4) run_pruned_total [OF run, of now] by (simp add: s1_def split: if_splits)
    then obtain t0 sc0 a0 where v: "bindings w t0 sc0 = Some a0"
        "bindings (prune_lru w) = (\<lambda>t' sc'. if t' = t0 \<and> sc' = sc0 then None else bindings w t' sc')"
        "\<nexists>t' sc' a'. bindings w t' sc' = Some a' \<and> goes_before (t', sc', a') (t0, sc0, a0)" by (rule one_goes [OF b(1)])
    have stays: "bindings (prune_lru w) thread sc = Some new"
      if "\<exists>t' sc' a'. bindings w t' sc' = Some a' \<and> goes_before (t', sc', a') (thread, sc, new)"
    proof -
      have "\<not> (thread = t0 \<and> sc = sc0)"
      proof
        assume "thread = t0 \<and> sc = sc0"
        then have e: "thread = t0" "sc = sc0" "new = a0" using v(1) own by simp_all
        show False using v(3) that unfolding e by blast
      qed
      then show ?thesis using own by (auto simp: v(2))
    qed
    have given: "if P then Q else True" if "P \<Longrightarrow> Q" for P Q using that by simp
    show ?thesis unfolding goal if_not_P [OF False]
      using live v [unfolded b(3)] stays [unfolded b(3)] False by (intro conjI given) blast+
  qed
qed

text \<open>
  At a full map of ordinary bindings a detour that is remembered for the first time is the entry that goes: the
  conversation never reads it back, and the map is as it was.
\<close>

lemma lone_detour_is_dropped:
  assumes run: "affinity_run s" and t: "admissible_component thread" "thread \<noteq> []" and a: "admissible_component account"
    and g: "bound_generation records account = Some g"
    and full: "at_total (prune_expired now s) = affinity_max_entries" and d: "is_detour sc"
    and base: "\<And>t' sc' a'. bindings (prune_expired now s) t' sc' = Some a' \<Longrightarrow> \<not> is_detour sc'"
  shows "bindings (bind_affinity records thread account now sc s) = bindings (prune_expired now s)"
proof -
  define s1 where "s1 = prune_expired now s"
  define new where "new = new_binding account g now (bindings s1 thread sc)"
  define w where "w = written thread sc new s1"
  note b = bound_written [OF run t a g, where now = now and sc = sc, folded s1_def, folded new_def, folded w_def]
  have none: "bindings s1 thread sc = None"
  proof (cases "bindings s1 thread sc")
    case (Some x)
    then show ?thesis using base [of thread sc x] d by (simp add: s1_def)
  qed
  have "at_total w = Suc affinity_max_entries" using b(4) none full by (simp add: s1_def)
  then obtain t0 sc0 a0 where v: "bindings w t0 sc0 = Some a0"
      "bindings (prune_lru w) = (\<lambda>t' sc'. if t' = t0 \<and> sc' = sc0 then None else bindings w t' sc')"
      "\<nexists>t' sc' a'. bindings w t' sc' = Some a' \<and> goes_before (t', sc', a') (t0, sc0, a0)" by (rule one_goes [OF b(1)])
  have "\<not> goes_before (thread, sc, new) (t0, sc0, a0)" using v(3) by (simp add: b(3))
  then have "is_detour sc0" using d by (simp add: goes_before_def)
  then have "t0 = thread \<and> sc0 = sc" using v(1) base by (auto simp: b(3) s1_def split: if_splits)
  then show ?thesis using none unfolding b(2) v(2) b(3) s1_def [symmetric] by (auto intro!: ext)
qed

text \<open>C36. A refresh of the credential by the proxy itself carries the bindings of the account over to the new
generation, where they are live; bindings of any other generation stay dead and those of other accounts are
untouched. A credential replaced from outside carries nothing over: its bindings are dead.\<close>

theorem hand_off_keeps_bindings:
  assumes "account \<noteq> main_id" and "credential_live records account (Suc g)"
  shows "case hand_off_generation records account g (Suc g) s of (moved, s') \<Rightarrow>
      (case bindings s t sc of
         None \<Rightarrow> bindings s' t sc = None
       | Some a \<Rightarrow>
           if af_account a = account then is_generation_live records a = (af_generation a = Suc g)
             \<and> bindings s' t sc = Some (if af_generation a = g then a\<lparr>af_generation := Suc g\<rparr> else a)
             \<and> map_option (is_generation_live records) (bindings s' t sc) = Some (af_generation a \<in> {g, Suc g})
             \<and> (if g' = g then True else hand_off_generation records account g' (Suc g) s = (False, s))
           else bindings s' t sc = Some a)"
proof -
  let ?f = "\<lambda>a. if af_account a = account \<and> af_generation a = g then a\<lparr>af_generation := Suc g\<rparr> else a"
  have look: "bindings (snd (hand_off_generation records account g (Suc g) s)) t sc = map_option ?f (bindings s t sc)"
    using assms lookup_handed [where f = ?f and s = s and t = t and sc = sc] by (simp add: hand_off_generation_def bindings_def Let_def)
  have live: "credential_live records account n \<longleftrightarrow> n = Suc g" for n
    using assms(2) by (auto simp: credential_live_def split: option.splits)
  have other: "hand_off_generation records account g' (Suc g) s = (False, s)" if "g' \<noteq> g"
    using that by (simp add: hand_off_generation_def)
  show ?thesis
    using look assms(1) live other by (auto simp: is_generation_live_def case_prod_unfold split: option.split)
qed


section \<open>Witnesses\<close>

definition demo_records :: "(string, account_record) jsmap" where
  "demo_records = [(''a'', \<lparr>ar_credential = True, ar_deleted = False, ar_generation = 4, ar_replaced_at = None\<rparr>)]"

definition demo_scope :: affinity_scope where
  "demo_scope = BaseScope LegacyScope"

definition demo_bound :: affinity_state where
  "demo_bound = bind_affinity demo_records ''t'' ''a'' 5 demo_scope empty_affinities"

lemma demo_bound_run: "affinity_run demo_bound"
  unfolding demo_bound_def by (intro affinity_run.bind affinity_run.start) simp

lemma demo_bound_state: "demo_bound = \<lparr>at_map = [(''t'', [(demo_scope, new_binding ''a'' 4 5 None)])], at_total = 1, at_issuers = [], at_pending = []\<rparr>"
  by code_simp

lemma demo_replaced: "credential_live [(''a'', \<lparr>ar_credential = True, ar_deleted = False, ar_generation = 5, ar_replaced_at = None\<rparr>)] ''a'' (Suc 4)"
  by (simp add: credential_live_def)

theorem affinity_counter_exact_witness: "at_total demo_bound = 1 \<and> at_total demo_bound = sum_list (map (\<lambda>(t, m). length m) (at_map demo_bound))"
  using affinity_counter_exact [OF demo_bound_run] by (simp add: demo_bound_state)

theorem binding_costs_least_recent_witness:
  "bindings (bind_affinity demo_records ''u'' ''a'' 7 demo_scope demo_bound) ''u'' demo_scope = Some (new_binding ''a'' 4 7 None)
   \<and> bindings (bind_affinity demo_records ''u'' ''a'' 7 demo_scope demo_bound) ''t'' demo_scope = Some (new_binding ''a'' 4 5 None)"
proof -
  have adm: "admissible_component ''u''" "admissible_component ''a''" by code_simp+
  have g: "bound_generation demo_records ''a'' = Some 4" by code_simp
  have one: "bindings (prune_expired 7 demo_bound) ''u'' demo_scope = None"
      "bindings (prune_expired 7 demo_bound) ''t'' demo_scope = Some (new_binding ''a'' 4 5 None)"
      "at_total (prune_expired 7 demo_bound) = 1"
    by code_simp+
  have "at_total (prune_expired 7 demo_bound) + (if bindings (prune_expired 7 demo_bound) ''u'' demo_scope = None then 1 else 0) \<le> affinity_max_entries"
    using one by (simp add: affinity_max_entries_def)
  then have "bindings (bind_affinity demo_records ''u'' ''a'' 7 demo_scope demo_bound)
      = (\<lambda>t' sc'. if t' = ''u'' \<and> sc' = demo_scope
          then Some (new_binding ''a'' 4 7 (bindings (prune_expired 7 demo_bound) ''u'' demo_scope)) else bindings (prune_expired 7 demo_bound) t' sc')"
    using binding_costs_least_recent [OF demo_bound_run adm(1) _ adm(2) g, of 7 demo_scope] by (simp add: Let_def)
  then show ?thesis using one(1,2) by simp
qed

theorem hand_off_keeps_bindings_witness:
  "bindings (snd (hand_off_generation [(''a'', \<lparr>ar_credential = True, ar_deleted = False, ar_generation = 5, ar_replaced_at = None\<rparr>)]
      ''a'' 4 5 demo_bound)) ''t'' demo_scope = Some ((new_binding ''a'' 4 5 None)\<lparr>af_generation := 5\<rparr>)"
proof -
  have b: "bindings demo_bound ''t'' demo_scope = Some (new_binding ''a'' 4 5 None)" by code_simp
  have acc: "af_account (new_binding ''a'' 4 5 None) = ''a''" "af_generation (new_binding ''a'' 4 5 None) = 4"
    by (simp_all add: new_binding_def)
  show ?thesis
    using hand_off_keeps_bindings [OF _ demo_replaced, where s = demo_bound and g' = 4 and t = "''t''" and sc = demo_scope] acc
    by (simp add: b main_id_def case_prod_unfold)
qed

end
