(* ===== verification/Codex_Binding.thy ===== *)
theory Codex_Binding
  imports Codex_Affinity Codex_Pick Codex_Outcome Held_Dispatch
begin

text \<open>
  What may become of a binding (\<open>codex/routing.ts\<close>, \<open>codex/routing/cache-affinity.ts\<close>,
  \<open>codex/routing/idle-window.ts\<close>, \<open>codex/routing/pin-drain.ts\<close>, \<open>codex/routing/transient-hold-dispatch.ts\<close>,
  \<open>codex/routing/pool-recovery.ts\<close>): when a failure is only transient, who serves meanwhile, when quota may
  move a conversation, where a new conversation starts, and when a pinned choice of the operator is spent.
\<close>

section \<open>Environment and state\<close>

text \<open>
  The settings and readings of one request beside those of \<open>Codex_Select\<close>. The instants a quota was read at
  and the end of a refresh back-off are given per account.
\<close>

record quota_seen =
  qs_updated :: jsnum
  qs_weekly_at :: "rat option"
  qs_monthly_at :: "rat option"
  qs_short_at :: "rat option"
  qs_short_seconds :: "jsnum option"

record resolve_env =
  re_select :: select_env
  re_retain_files :: bool
  re_start_idle :: bool
  re_failback :: bool
  re_seen :: "string \<Rightarrow> quota_seen"
  re_refresh_until :: "string \<Rightarrow> rat option"

record lineage =
  ln_key :: string
  ln_parent :: "string option"
  ln_siblings :: "string list"
  ln_legacy :: "string option"

record resolve_state =
  rs_active :: active_state
  rs_affinity :: affinity_state
  rs_recovery :: pool_recovery
  rs_steered :: "(string, rat) jsmap"

text \<open>The reset of the roster: bindings, issuers and the recovery state learned beside them.\<close>

definition clear_thread_state :: "resolve_state \<Rightarrow> resolve_state" where
  "clear_thread_state s = s\<lparr>rs_affinity := clear_thread_account_map (rs_affinity s), rs_recovery := clear_pool_recovery (rs_recovery s)\<rparr>"

text \<open>An empty text counts as none.\<close>

definition named :: "string option \<Rightarrow> string option" where
  "named x = (case x of Some [] \<Rightarrow> None | _ \<Rightarrow> x)"

definition records_of :: "resolve_env \<Rightarrow> (string, account_record) jsmap" where
  "records_of r = se_records (re_select r)"

definition now_of :: "resolve_env \<Rightarrow> rat" where
  "now_of r = clock (re_select r)"


section \<open>Transient failures\<close>

definition is_hold_expired :: "affinity \<Rightarrow> rat \<Rightarrow> bool" where
  "is_hold_expired a now \<longleftrightarrow> (case af_hold_since a of None \<Rightarrow> False | Some t \<Rightarrow> now - t > affinity_hold_ms)"

definition refused :: "resolve_env \<Rightarrow> quota_scope option \<Rightarrow> string \<Rightarrow> bool" where
  "refused r scope account \<longleftrightarrow> has_unrecovered_quota_refusal account scope (se_health (re_select r))"

definition is_transient_only_block :: "resolve_env \<Rightarrow> select_options \<Rightarrow> quota_scope option \<Rightarrow> affinity \<Rightarrow> bool" where
  "is_transient_only_block r so scope a \<longleftrightarrow>
     (let e = re_select r; account = af_account a
      in is_generation_live (records_of r) a \<and> \<not> refused r scope account \<and> \<not> is_paused e account
         \<and> \<not> is_rotation_excluded e so account \<and> is_usable e so account \<and> \<not> is_cooling e scope account
         \<and> \<not> is_quota_avoided e scope account
         \<and> (should_failover e account \<or> is_soft_avoided e account \<or> se_refresh_cooling e account))"

definition is_hold_spent_for_account :: "string \<Rightarrow> string \<Rightarrow> rat \<Rightarrow> affinity_state \<Rightarrow> bool" where
  "is_hold_spent_for_account thread account now s = (case map_of (at_map s) thread of
     None \<Rightarrow> False
   | Some m \<Rightarrow> (let own = filter (\<lambda>(_, a). af_account a = account) m
       in own \<noteq> [] \<and> list_all (\<lambda>(_, a). is_hold_expired a now) own))"

text \<open>An account that can take a conversation over.\<close>

definition can_serve :: "resolve_env \<Rightarrow> select_options \<Rightarrow> quota_scope option \<Rightarrow> string \<Rightarrow> bool" where
  "can_serve r so scope account \<longleftrightarrow>
     (let e = re_select r in is_selectable e so scope account \<and> \<not> refused r scope account
        \<and> \<not> should_failover e account \<and> \<not> is_soft_avoided e account)"

definition standing_detour :: "resolve_env \<Rightarrow> select_options \<Rightarrow> quota_scope option \<Rightarrow> affinity \<Rightarrow> string option" where
  "standing_detour r so scope a = (case af_detour a of
     None \<Rightarrow> None | Some d \<Rightarrow> if d \<noteq> af_account a \<and> can_serve r so scope d then Some d else None)"

definition transient_detour_account ::
    "resolve_env \<Rightarrow> select_options \<Rightarrow> quota_scope option \<Rightarrow> affinity \<Rightarrow> active_state \<Rightarrow> string option \<times> active_state" where
  "transient_detour_account r so scope a s = (case standing_detour r so scope a of
     Some d \<Rightarrow> (Some d, s) | None \<Rightarrow> pick_alternate (re_select r) so scope (af_account a) s)"

definition peek_transient_detour ::
    "resolve_env \<Rightarrow> select_options \<Rightarrow> quota_scope option \<Rightarrow> affinity \<Rightarrow> active_state \<Rightarrow> string option" where
  "peek_transient_detour r so scope a s = (case standing_detour r so scope a of
     Some d \<Rightarrow> Some d | None \<Rightarrow> peek_alternate (re_select r) so scope (af_account a) s)"


section \<open>Answers\<close>

datatype affinity_move = Reused | HeldMove | DetourMove | Rebound | NewBind | ClearedMove

type_synonym affinity_decision = "affinity_move \<times> affinity_reason"

datatype resolution =
    Selected string affinity_decision "(probe_lease \<times> nat) option"
  | NoAccount "affinity_decision option"
  | ExpiredBinding string affinity_decision
  | WithheldUntil string millis "string option" affinity_decision

abbreviation transient_reason :: affinity_reason where
  "transient_reason \<equiv> Blocked TransientBlock"

text \<open>Where a request bound to a held account goes this turn.\<close>

definition held_question :: "resolve_env \<Rightarrow> string \<Rightarrow> held_input" where
  "held_question r account = \<lparr>bound_account = account, detour_account = None, asked_at = se_now (re_select r),
     lease_ms = None, min_probe_interval_ms = None\<rparr>"

definition note_detour :: "string \<Rightarrow> affinity_scope \<Rightarrow> string \<Rightarrow> resolve_state \<Rightarrow> resolve_state" where
  "note_detour thread sc account s =
     s\<lparr>rs_affinity := edit_affinity thread sc (\<lambda>a. a\<lparr>af_detour := Some account\<rparr>) (rs_affinity s)\<rparr>"

definition resolve_transient_hold ::
    "resolve_env \<Rightarrow> string \<Rightarrow> affinity_scope \<Rightarrow> affinity \<Rightarrow> string option \<Rightarrow> resolve_state \<Rightarrow> resolution \<times> resolve_state" where
  "resolve_transient_hold r thread sc a detour s =
     (let ask = (case resolve_held_shared (held_question r (af_account a)) (rs_recovery s) of
          (Probe lease, pr) \<Rightarrow> (Selected (af_account a) (HeldMove, transient_reason) (Some (lease, af_generation a)), s\<lparr>rs_recovery := pr\<rparr>)
        | (Withheld b _ t, pr) \<Rightarrow> (WithheldUntil b t (af_detour a) (HeldMove, transient_reason), s\<lparr>rs_recovery := pr\<rparr>)
        | (Detour d, pr) \<Rightarrow> (Selected d (DetourMove, transient_reason) None, note_detour thread sc d (s\<lparr>rs_recovery := pr\<rparr>)))
      in case detour of
          None \<Rightarrow> ask
        | Some d \<Rightarrow> if d = af_account a then ask else (Selected d (DetourMove, transient_reason) None, note_detour thread sc d s))"

text \<open>The end of the trial a request was granted.\<close>

definition settle_transient_probe_for_outcome ::
    "(string, account_record) jsmap \<Rightarrow> string \<Rightarrow> (probe_lease \<times> nat) option \<Rightarrow> outcome_class \<Rightarrow> millis \<Rightarrow> probe_table \<Rightarrow> probe_table" where
  "settle_transient_probe_for_outcome records account grant cls now tb = (case grant of
     None \<Rightarrow> tb
   | Some (lease, g) \<Rightarrow>
       if \<not> (if account = main_id then g = 0 else credential_live records account g) then invalidate_probe account tb
       else if cls \<in> {Neutral, Caller, Unknown} then release_probe lease tb
       else snd (settle_probe lease (if cls = Success then Recovered else Failed) now tb))"


section \<open>Placement of new conversations\<close>

definition lineage_serving_account ::
    "resolve_env \<Rightarrow> select_options \<Rightarrow> quota_scope option \<Rightarrow> string option \<Rightarrow> affinity_state \<Rightarrow> string \<Rightarrow> string option" where
  "lineage_serving_account r so scope model s key =
     (case (case model_detour_affinity key model scope s of
              Some a \<Rightarrow> Some a | None \<Rightarrow> thread_affinity key scope s) of
        None \<Rightarrow> None
      | Some a \<Rightarrow>
          if is_affinity_expired a (now_of r) \<or> \<not> is_generation_live (records_of r) a then None
          else (let live = af_hold_since a \<noteq> None \<and> \<not> is_hold_expired a (now_of r);
                    serving = (case af_detour a of Some d \<Rightarrow> if live then d else af_account a | None \<Rightarrow> af_account a)
            in if can_serve r so scope serving then Some serving else None))"

fun first_serving :: "(string \<Rightarrow> string option) \<Rightarrow> string list \<Rightarrow> string option" where
  "first_serving f [] = None"
| "first_serving f (k # ks) = (case named (f k) of Some a \<Rightarrow> Some a | None \<Rightarrow> first_serving f ks)"

definition pick_lineage_serving ::
    "resolve_env \<Rightarrow> select_options \<Rightarrow> quota_scope option \<Rightarrow> string option \<Rightarrow> lineage \<Rightarrow> affinity_state \<Rightarrow> (string \<times> affinity_reason) option" where
  "pick_lineage_serving r so scope model li s = (case ln_parent li of
     None \<Rightarrow> None
   | Some p \<Rightarrow>
       if p = ln_key li then None
       else (case named (lineage_serving_account r so scope model s p) of
           Some a \<Rightarrow> Some (a, LineageParent)
         | None \<Rightarrow> map_option (\<lambda>a. (a, LineageSibling)) (first_serving (lineage_serving_account r so scope model s) (ln_siblings li))))"

definition idle_window_ms :: rat where "idle_window_ms = 5 * 60 * 60000"
definition idle_tolerance_ms :: rat where "idle_tolerance_ms = 60000"
definition idle_freshness_ms :: rat where "idle_freshness_ms = 5 * 60000"

text \<open>An account whose five-hour window has not started, freshly read, and not steered to before.\<close>

definition starts_idle_window ::
    "resolve_env \<Rightarrow> select_options \<Rightarrow> quota_scope option \<Rightarrow> resolve_state \<Rightarrow> string \<Rightarrow> rat option" where
  "starts_idle_window r so scope s account =
     (let e = re_select r; now = now_of r
      in if manual_preference_blocks (pool_key_for_scope scope) account (rs_active s)
            \<or> (case so_denied so of None \<Rightarrow> False | Some ds \<Rightarrow> account \<in> set ds) \<or> \<not> has_headroom e so account then None
         else (case se_quota e account of
             None \<Rightarrow> None
           | Some q \<Rightarrow>
               if aq_short q \<noteq> Some (Fin 0) \<or> qs_short_seconds (re_seen r account) \<noteq> Some (Fin (idle_window_ms / 1000)) then None
               else (case (finite_part (aq_short_observed q), finite_part (aq_short_reset q)) of
                   (Some observed, Some reset) \<Rightarrow>
                     if now < observed \<or> now - observed > idle_freshness_ms
                        \<or> \<bar>reset_at_to_ms reset - observed - idle_window_ms\<bar> > idle_tolerance_ms \<or> reset_at_to_ms reset \<le> now
                        \<or> (case map_of (rs_steered s) account of None \<Rightarrow> False | Some previous \<Rightarrow> now \<le> previous \<or> observed \<le> previous)
                     then None else Some (reset_at_to_ms reset)
                 | _ \<Rightarrow> None)))"

definition pick_idle_window_account ::
    "resolve_env \<Rightarrow> select_options \<Rightarrow> quota_scope option \<Rightarrow> string option \<Rightarrow> bool \<Rightarrow> resolve_state \<Rightarrow> string option \<times> resolve_state" where
  "pick_idle_window_account r so scope thread commit s =
     (if \<not> re_start_idle r \<or> is_independent scope \<or> as_pinned (rs_active s) \<noteq> None then (None, s)
      else (case List.find (\<lambda>i. starts_idle_window r so scope s i \<noteq> None)
               (eligible_accounts (re_select r) so scope None True (as_pinned (rs_active s))) of
          None \<Rightarrow> (None, s)
        | Some i \<Rightarrow>
            if \<not> commit then (Some i, s)
            else (let now = now_of r; reset = nullish (starts_idle_window r so scope s i) now;
                      steered = filter (\<lambda>(_, u). u \<ge> now - idle_freshness_ms) (rs_steered s);
                      s1 = s\<lparr>rs_steered := AList.update i (max reset (now + idle_window_ms) + idle_tolerance_ms) steered\<rparr>
              in (Some i, case named thread of
                    None \<Rightarrow> s1
                  | Some t \<Rightarrow> s1\<lparr>rs_affinity := bind_thread_affinity (records_of r) t i now scope (rs_affinity s1)\<rparr>))))"


section \<open>Moves of a bound conversation\<close>

definition may_rebind_for_quota :: "resolve_env \<Rightarrow> select_options \<Rightarrow> string \<Rightarrow> rat \<Rightarrow> rat \<Rightarrow> bool" where
  "may_rebind_for_quota r so account usage threshold \<longleftrightarrow>
     (if \<not> (is_cache_affinity_enabled (re_select r) \<or> re_retain_files r)
      then threshold > 0 \<and> \<not> is_unknown_usage usage \<and> usage \<ge> threshold
      else \<not> is_usable (re_select r) so account \<or> \<not> is_unknown_usage usage \<and> usage \<ge> 100)"

definition priority_failback_refresh_ms :: rat where "priority_failback_refresh_ms = 5 * 60000"

definition failback_enabled :: "resolve_env \<Rightarrow> string \<Rightarrow> bool" where
  "failback_enabled r account \<longleftrightarrow> re_failback r \<and> se_strategy (re_select r) \<in> {JNull, JStr ''quota''}
     \<and> threshold_of (re_select r) account > 0"

text \<open>Every window the usage is computed from was read lately.\<close>

definition has_fresh_usage :: "account_quota \<Rightarrow> quota_seen \<Rightarrow> string option \<Rightarrow> rat \<Rightarrow> rat \<Rightarrow> bool" where
  "has_fresh_usage q seen plan now max_age =
     (let long = filter (\<lambda>(w, _). finite_part w \<noteq> None)
            (if is_thirty_day_plan plan then [(aq_monthly q, qs_monthly_at seen)]
             else [(aq_weekly q, qs_weekly_at seen), (aq_monthly q, qs_monthly_at seen)]);
          all = (if finite_part (aq_short q) \<noteq> None then long @ [(aq_short q, qs_short_at seen)] else long)
      in long \<noteq> [] \<and> list_all (\<lambda>(_, t). case t of None \<Rightarrow> False | Some u \<Rightarrow> now - u < max_age) all)"

definition read_long_ago :: "rat \<Rightarrow> jsnum option \<Rightarrow> bool" where
  "read_long_ago now x = (case x of Some (Fin t) \<Rightarrow> now - t \<ge> priority_failback_refresh_ms | Some NegInf \<Rightarrow> True | _ \<Rightarrow> False)"

definition failback_candidate :: "resolve_env \<Rightarrow> select_options \<Rightarrow> quota_scope option \<Rightarrow> string \<Rightarrow> bool" where
  "failback_candidate r so scope account \<longleftrightarrow>
     (let e = re_select r; now = now_of r; usage = usage_of e so account; threshold = threshold_of e account; seen = re_seen r account
      in has_headroom e so account \<and> \<not> refused r scope account \<and> \<not> should_failover e account
         \<and> (case se_quota e account of
              None \<Rightarrow> False
            | Some q \<Rightarrow> has_fresh_usage q seen (plan_for_selection e so account) now priority_failback_refresh_ms
                \<and> js_is_finite (qs_updated seen) \<and> \<not> read_long_ago now (Some (qs_updated seen)) \<and> \<not> read_long_ago now (aq_short_observed q))
         \<and> \<not> is_unknown_usage usage \<and> usage < 100 \<and> (threshold \<le> 0 \<or> usage < threshold))"

definition pick_priority_failback ::
    "resolve_env \<Rightarrow> select_options \<Rightarrow> quota_scope option \<Rightarrow> string \<Rightarrow> active_state \<Rightarrow> string option" where
  "pick_priority_failback r so scope account s =
     (let e = re_select r
      in if \<not> failback_enabled r account \<or> strategy_for_scope e scope \<noteq> QuotaStrategy then None
         else if named (pick_priority_preemption e so scope account s) = None then None
         else pick_lowest_usage_among e so
                (filter (failback_candidate r so scope) (eligible_accounts e so scope None False (as_pinned s))))"

definition reset_first_replacement ::
    "resolve_env \<Rightarrow> select_options \<Rightarrow> quota_scope option \<Rightarrow> string \<Rightarrow> active_state \<Rightarrow> string option" where
  "reset_first_replacement r so scope account s =
     (let e = re_select r; threshold = threshold_of e account
      in if threshold \<le> 0 \<or> \<not> may_rebind_for_quota r so account (usage_of e so account) threshold then None
         else pick_reset_first e so (filter (\<lambda>i. has_headroom e so i \<and> \<not> is_unknown_usage (usage_of e so i))
                (eligible_accounts e so scope (Some account) True (as_pinned s))))"

definition pick_cache_safe_replacement ::
    "resolve_env \<Rightarrow> select_options \<Rightarrow> quota_scope option \<Rightarrow> string \<Rightarrow> rat \<Rightarrow> active_state \<Rightarrow> string option" where
  "pick_cache_safe_replacement r so scope account usage s =
     (let e = re_select r
      in case pick_lowest_usage_among e so
            (filter (has_headroom e so) (eligible_accounts e so scope (Some account) True (as_pinned s))) of
          None \<Rightarrow> None
        | Some best \<Rightarrow> if best = account \<or> \<not> usage_of e so best < usage then None else Some best)"

definition reevaluate_affinity_quota ::
    "resolve_env \<Rightarrow> select_options \<Rightarrow> quota_scope option \<Rightarrow> affinity \<Rightarrow> active_state \<Rightarrow> string option \<times> affinity" where
  "reevaluate_affinity_quota r so scope a s =
     (let e = re_select r; now = now_of r; account = af_account a; strategy = strategy_for_scope e scope;
          due = now - af_last_reeval a \<ge> affinity_reeval_ms; read = a\<lparr>af_last_reeval := now\<rparr>
      in if strategy = ResetFirstStrategy then
           (let best = reset_first_replacement r so scope account s in (best, if named best \<noteq> None \<or> due then read else a))
         else if strategy \<noteq> QuotaStrategy then (None, a)
         else (case named (pick_priority_failback r so scope account s) of
             Some best \<Rightarrow> (Some best, read)
           | None \<Rightarrow>
               (let threshold = threshold_of e account; usage = (if threshold > 0 then usage_of e so account else 0);
                    may = may_rebind_for_quota r so account usage threshold
                in if \<not> may \<and> \<not> due then (None, a)
                   else (if may then pick_cache_safe_replacement r so scope account usage s else None, read))))"


section \<open>The pinned choice\<close>

datatype pin_drain = PinNeedsReauth | PinPaused | PinUnusable | PinOverThreshold

definition pin_drain_reason :: "select_env \<Rightarrow> select_options \<Rightarrow> string \<Rightarrow> pin_drain option" where
  "pin_drain_reason e so account =
     (if se_needs_reauth e account then Some PinNeedsReauth
      else if is_paused e account then Some PinPaused
      else if account = main_id \<and> so_native_main_only so then None
      else if \<not> is_usable e so account then Some PinUnusable
      else if \<not> has_headroom e so account then Some PinOverThreshold
      else None)"

definition release_drained_pin :: "select_env \<Rightarrow> select_options \<Rightarrow> active_state \<Rightarrow> active_state" where
  "release_drained_pin e so s = (case as_pinned s of
     None \<Rightarrow> s
   | Some p \<Rightarrow> if pin_drain_reason e so p = None then s else s\<lparr>as_pinned := None, as_saves := as_saves s + 1\<rparr>)"

text \<open>An account leaves the pool by the hand of the operator.\<close>

definition reconcile_active_after_exclusion :: "select_env \<Rightarrow> string \<Rightarrow> active_state \<Rightarrow> string option \<times> active_state" where
  "reconcile_active_after_exclusion e excluded s =
     (let was = nullish (effective_active s) main_id = excluded; s1 = forget_manual_preference excluded s;
          s2 = s1\<lparr>as_saved := (if as_saved s1 = Some excluded then None else as_saved s1),
            as_pinned := (if as_pinned s1 = Some excluded then None else as_pinned s1)\<rparr>
      in if \<not> was then (effective_active s2, s2)
         else (case pick_alternate e no_options None excluded (forget_runtime_active s2) of
             (fallback, s3) \<Rightarrow> (fallback, case named fallback of
                None \<Rightarrow> s3 | Some f \<Rightarrow> promote_active (normalize_codex_account_pool_strategy (se_strategy e)) f s3)))"


section \<open>When the pool recovers\<close>

text \<open>The end of every hold of an account; None for one that is out for another reason or without an end.\<close>

definition pool_holds ::
    "resolve_env \<Rightarrow> quota_scope option \<Rightarrow> string list option \<Rightarrow> string list option \<Rightarrow> string option \<Rightarrow> pool_account \<Rightarrow> rat list option" where
  "pool_holds r scope denied eligible pin row =
     (let e = re_select r; now = now_of r; i = pa_id row
      in if \<not> is_selectable_pool_account row \<or> (case denied of None \<Rightarrow> False | Some ds \<Rightarrow> i \<in> set ds)
            \<or> (case eligible of None \<Rightarrow> False | Some ids \<Rightarrow> i \<notin> set ids) \<or> is_paused e i \<or> is_plan_excluded e i
            \<or> se_needs_reauth e i \<or> \<not> is_usable e no_options i \<or> steers_away e pin i then None
         else if is_held_at_usage_limit e no_options i
                 \<and> usage_limit_reset_at (se_quota e i) (plan_for_selection e no_options i) now = None then None
         else Some ((case quota_health_snapshot i scope now (se_health e) of None \<Rightarrow> [] | Some (u, _) \<Rightarrow> [u])
           @ (case quota_avoid_until i scope now (se_health e) of None \<Rightarrow> [] | Some u \<Rightarrow> [u])
           @ (case soft_avoid_until i now (se_health e) of None \<Rightarrow> [] | Some u \<Rightarrow> [u])
           @ (case re_refresh_until r i of None \<Rightarrow> [] | Some u \<Rightarrow> [u])
           @ (if is_held_at_usage_limit e no_options i
              then (case usage_limit_reset_at (se_quota e i) (plan_for_selection e no_options i) now of None \<Rightarrow> [] | Some u \<Rightarrow> [u]) else [])))"

definition pool_recovery_of ::
    "resolve_env \<Rightarrow> quota_scope option \<Rightarrow> string list option \<Rightarrow> string list option \<Rightarrow> string option \<Rightarrow> pool_account \<Rightarrow> rat option" where
  "pool_recovery_of r scope denied eligible pin row = (case pool_holds r scope denied eligible pin row of
     None \<Rightarrow> None
   | Some [] \<Rightarrow> None
   | Some (h # hs) \<Rightarrow> if fold max hs h > now_of r then Some (fold max hs h) else None)"

definition next_pool_recovery_at ::
    "resolve_env \<Rightarrow> quota_scope option \<Rightarrow> string list option \<Rightarrow> string list option \<Rightarrow> string option \<Rightarrow> rat option" where
  "next_pool_recovery_at r scope denied eligible pin =
     smallest None (map (pool_recovery_of r scope denied eligible pin) (se_accounts (re_select r)))"

end
