(* ===== verification/Codex_Resolve.thy ===== *)
theory Codex_Resolve
  imports Codex_Binding
begin

text \<open>
  The account that serves a request of a conversation (\<open>resolveCodexAccountForThreadDetailed\<close> of
  \<open>codex/routing.ts\<close>), in the stages of the function: the lane of a model, the binding of the conversation,
  the placement of a new one, the strategy, and the active account with its corrections; and the preview of
  the same choice. The request has its options, its quota scope, its thread, its model and its lineage.
\<close>

section \<open>Requests\<close>

record request =
  rq_options :: select_options
  rq_scope :: "quota_scope option"
  rq_thread :: "string option"
  rq_model :: "string option"
  rq_lineage :: "lineage option"

definition model_scoped :: "request \<Rightarrow> bool" where
  "model_scoped q \<longleftrightarrow> so_model_eligible (rq_options q) \<noteq> None"

definition shared_options :: "request \<Rightarrow> select_options" where
  "shared_options q = (if model_scoped q then shared_state_options (rq_options q) else rq_options q)"

definition has_configured_account :: "resolve_env \<Rightarrow> select_options \<Rightarrow> string \<Rightarrow> bool" where
  "has_configured_account r so account \<longleftrightarrow>
     (if account = main_id then is_usable (re_select r) so account
      else list_ex (\<lambda>x. is_selectable_pool_account x \<and> pa_id x = account) (se_accounts (re_select r)))"

definition pick_lowest_usage_account ::
    "select_env \<Rightarrow> select_options \<Rightarrow> quota_scope option \<Rightarrow> string option \<Rightarrow> active_state \<Rightarrow> string option" where
  "pick_lowest_usage_account e so scope exclude s =
     pick_lowest_usage_among e so (eligible_accounts e so scope exclude False (as_pinned s))"

definition with_active :: "(active_state \<Rightarrow> active_state) \<Rightarrow> resolve_state \<Rightarrow> resolve_state" where
  "with_active f s = s\<lparr>rs_active := f (rs_active s)\<rparr>"

definition with_affinity :: "(affinity_state \<Rightarrow> affinity_state) \<Rightarrow> resolve_state \<Rightarrow> resolve_state" where
  "with_affinity f s = s\<lparr>rs_affinity := f (rs_affinity s)\<rparr>"

text \<open>The decision to report once a binding is gone, and when no account is left.\<close>

definition affinity_after_release ::
    "string option \<Rightarrow> affinity_reason option \<Rightarrow> resolve_state \<Rightarrow> affinity_decision \<times> resolve_state" where
  "affinity_after_release thread release s =
     ((case release of None \<Rightarrow> (NewBind, HealthyReason) | Some reason \<Rightarrow> (Rebound, reason)), with_affinity (clear_pending thread) s)"

definition answer :: "request \<Rightarrow> affinity_reason option \<Rightarrow> string \<Rightarrow> resolve_state \<Rightarrow> resolution \<times> resolve_state" where
  "answer q release account s = (case affinity_after_release (rq_thread q) release s of (d, s1) \<Rightarrow> (Selected account d None, s1))"

definition no_answer :: "request \<Rightarrow> affinity_reason option \<Rightarrow> resolve_state \<Rightarrow> resolution \<times> resolve_state" where
  "no_answer q release s = (case release of
     None \<Rightarrow> (NoAccount None, s)
   | Some reason \<Rightarrow> (NoAccount (Some (ClearedMove, reason)), with_affinity (note_pending (rq_thread q) reason) s))"


section \<open>The lane of a model\<close>

text \<open>A binding that serves: its clock moves and any hold ends.\<close>

definition is_reusable :: "resolve_env \<Rightarrow> select_options \<Rightarrow> quota_scope option \<Rightarrow> affinity \<Rightarrow> bool" where
  "is_reusable r so scope a \<longleftrightarrow> is_generation_live (records_of r) a \<and> is_selectable (re_select r) so scope (af_account a)
     \<and> \<not> refused r scope (af_account a) \<and> \<not> should_failover (re_select r) (af_account a)"

definition served :: "rat \<Rightarrow> affinity \<Rightarrow> affinity" where
  "served now a = a\<lparr>af_last_used := now, af_hold_since := None, af_detour := None\<rparr>"

definition held :: "rat \<Rightarrow> affinity \<Rightarrow> affinity" where
  "held now a = a\<lparr>af_hold_since := Some (nullish (af_hold_since a) now), af_last_used := now\<rparr>"

definition put_affinity :: "string \<Rightarrow> affinity_scope \<Rightarrow> affinity \<Rightarrow> resolve_state \<Rightarrow> resolve_state" where
  "put_affinity thread sc a = with_affinity (edit_affinity thread sc (\<lambda>_. a))"

definition hold_binding ::
    "resolve_env \<Rightarrow> select_options \<Rightarrow> quota_scope option \<Rightarrow> string \<Rightarrow> affinity_scope \<Rightarrow> affinity \<Rightarrow> resolve_state \<Rightarrow> resolution \<times> resolve_state" where
  "hold_binding r so scope thread sc a s =
     (case transient_detour_account r so scope a (rs_active s) of
        (detour, ac) \<Rightarrow> resolve_transient_hold r thread sc (held (now_of r) a) detour
           (put_affinity thread sc (held (now_of r) a) (s\<lparr>rs_active := ac\<rparr>)))"

definition resolve_model_lane ::
    "resolve_env \<Rightarrow> request \<Rightarrow> string \<Rightarrow> resolve_state \<Rightarrow> resolution option \<times> resolve_state" where
  "resolve_model_lane r q thread s =
     (let so = rq_options q; scope = rq_scope q; now = now_of r
      in case detour_scope (rq_model q) scope of
          None \<Rightarrow> (None, s)
        | Some sc \<Rightarrow> (case affinity_for thread sc (rs_affinity s) of
             None \<Rightarrow> (None, s)
           | Some a \<Rightarrow>
               if \<not> is_affinity_expired a now \<and> is_reusable r so scope a then
                 (case reevaluate_affinity_quota r so scope (served now a) (rs_active s) of
                    (cooler, a1) \<Rightarrow> (case named cooler of
                       Some c \<Rightarrow> (Some (Selected c (Rebound, ModelLane) None),
                         with_affinity (bind_model_detour (records_of r) thread c now (rq_model q) scope) (put_affinity thread sc a1 s))
                     | None \<Rightarrow> (Some (Selected (af_account a) (Reused, ModelLane) None), put_affinity thread sc a1 s)))
               else if \<not> is_hold_expired a now \<and> is_transient_only_block r so scope a then
                 (case hold_binding r so scope thread sc a s of (x, s1) \<Rightarrow> (Some x, s1))
               else (None, with_affinity (delete_model_detour thread (rq_model q) scope) s)))"


section \<open>The binding of the conversation\<close>

text \<open>The active account follows a move of the shared scope.\<close>

definition promote_shared :: "resolve_env \<Rightarrow> request \<Rightarrow> string \<Rightarrow> resolve_state \<Rightarrow> resolve_state" where
  "promote_shared r q account s =
     (if \<not> is_independent (rq_scope q) \<and> shares_active_selection (rq_options q) account
      then with_active (promote_active (normalize_codex_account_pool_strategy (se_strategy (re_select r))) account) s else s)"

definition rebind :: "resolve_env \<Rightarrow> request \<Rightarrow> string \<Rightarrow> string \<Rightarrow> resolve_state \<Rightarrow> resolve_state" where
  "rebind r q thread account s =
     with_affinity (bind_thread_affinity (records_of r) thread account (now_of r) (rq_scope q)) (promote_shared r q account s)"

definition is_healthy_shared_affinity :: "resolve_env \<Rightarrow> request \<Rightarrow> affinity \<Rightarrow> bool" where
  "is_healthy_shared_affinity r q a \<longleftrightarrow>
     (let e = re_select r; scope = rq_scope q; so = shared_options q; account = af_account a
      in is_generation_live (records_of r) a \<and> is_selectable e so scope account \<and> has_shared_headroom e scope so account
         \<and> \<not> refused r scope account \<and> \<not> should_failover e account)"

definition release_reason :: "resolve_env \<Rightarrow> request \<Rightarrow> affinity \<Rightarrow> affinity_reason" where
  "release_reason r q a =
     (if \<not> is_generation_live (records_of r) a then GenerationGone
      else if refused r (rq_scope q) (af_account a) then QuotaRefusalReason
      else if is_hold_expired a (now_of r) then TransientHoldExpired
      else (case account_block_reason (re_select r) (rq_options q) (rq_scope q) (af_account a) of
          Some b \<Rightarrow> Blocked b | None \<Rightarrow> QuotaHeadroom))"

text \<open>The detour that outlives an expired hold.\<close>

definition surviving_detour :: "resolve_env \<Rightarrow> request \<Rightarrow> affinity \<Rightarrow> string option" where
  "surviving_detour r q a =
     (if is_hold_expired a (now_of r) \<and> is_generation_live (records_of r) a \<and> \<not> refused r (rq_scope q) (af_account a)
      then standing_detour r (rq_options q) (rq_scope q) a else None)"

text \<open>An answer, or the reason of a release and whether the binding stays for another lane.\<close>

datatype stage = Answered resolution | Open "affinity_reason option" bool

definition resolve_binding :: "resolve_env \<Rightarrow> request \<Rightarrow> string \<Rightarrow> affinity \<Rightarrow> resolve_state \<Rightarrow> stage \<times> resolve_state" where
  "resolve_binding r q thread a s =
     (let so = rq_options q; scope = rq_scope q; now = now_of r; sc = BaseScope (base_scope scope)
      in if is_affinity_expired a now then
           (Answered (ExpiredBinding (af_account a) (ClearedMove, AffinityExpired)), with_affinity (delete_thread_affinity thread scope) s)
         else if is_reusable r so scope a \<and> is_selectable (re_select r) (shared_options q) scope (af_account a) then
           (case reevaluate_affinity_quota r so scope (served now a) (rs_active s) of
              (cooler, a1) \<Rightarrow> (case named cooler of
                 Some c \<Rightarrow> (Answered (Selected c (Rebound, QuotaHeadroom) None), rebind r q thread c (put_affinity thread sc a1 s))
               | None \<Rightarrow> (Answered (Selected (af_account a) (Reused, HealthyReason) None), put_affinity thread sc a1 s)))
         else if \<not> is_hold_expired a now \<and> is_transient_only_block r so scope a then
           (case hold_binding r so scope thread sc a s of (x, s1) \<Rightarrow> (Answered x, s1))
         else if model_scoped q \<and> is_healthy_shared_affinity r q a then (Open None True, s)
         else (case surviving_detour r q a of
             Some d \<Rightarrow> (Answered (Selected d (Rebound, TransientHoldExpired) None), rebind r q thread d s)
           | None \<Rightarrow> (Open (Some (release_reason r q a)) False, with_affinity (delete_thread_affinity thread scope) s)))"


section \<open>The strategy\<close>

definition bind_request :: "resolve_env \<Rightarrow> request \<Rightarrow> bool \<Rightarrow> string \<Rightarrow> resolve_state \<Rightarrow> resolve_state" where
  "bind_request r q keep account s = (case named (rq_thread q) of
     None \<Rightarrow> s
   | Some t \<Rightarrow> with_affinity
       (if keep then bind_model_detour (records_of r) t account (now_of r) (rq_model q) (rq_scope q)
        else bind_thread_affinity (records_of r) t account (now_of r) (rq_scope q)) s)"

definition resolve_strategy ::
    "resolve_env \<Rightarrow> request \<Rightarrow> bool \<Rightarrow> bool \<Rightarrow> affinity_reason option \<Rightarrow> resolve_state \<Rightarrow> resolution option \<times> resolve_state" where
  "resolve_strategy r q preserve_shared keep release s =
     (let e = re_select r; scope = rq_scope q; so = options_for_model_detour e (rq_options q) scope
      in case pick_unbound_strategy e so scope (rq_thread q) True (\<not> model_scoped q) (\<not> keep) (rs_active s) of
          (pick, bind, ac) \<Rightarrow>
            (let s1 = s\<lparr>rs_active := ac\<rparr>;
                 s2 = (case bind of None \<Rightarrow> s1
                   | Some (t, account) \<Rightarrow> with_affinity (bind_thread_affinity (records_of r) t account (now_of r) scope) s1)
             in case named pick of
                 None \<Rightarrow> (None, s2)
               | Some p \<Rightarrow>
                   (let s3 = (if keep then bind_request r q True p s2 else s2);
                        s4 = (if model_scoped q \<and> \<not> preserve_shared then promote_shared r q p s3 else s3)
                    in case answer q release p s4 of (x, s5) \<Rightarrow> (Some x, s5))))"


section \<open>The active account\<close>

definition finish_active ::
    "resolve_env \<Rightarrow> request \<Rightarrow> bool \<Rightarrow> affinity_reason option \<Rightarrow> string \<Rightarrow> resolve_state \<Rightarrow> resolution \<times> resolve_state" where
  "finish_active r q keep release active s =
     (let e = re_select r; so = rq_options q
      in if \<not> is_usable e so active then
           (if has_configured_account r so active then answer q release active s else no_answer q release s)
         else if is_paused e active then no_answer q release s
         else if is_cooling e (rq_scope q) active then
           (if has_configured_account r so active then answer q release active s else no_answer q release s)
         else answer q release active (bind_request r q keep active s))"

definition correct_active ::
    "resolve_env \<Rightarrow> request \<Rightarrow> bool \<Rightarrow> string \<Rightarrow> resolve_state \<Rightarrow> string \<times> resolve_state" where
  "correct_active r q preserve_shared active s =
     (let e = re_select r; so = rq_options q; scope = rq_scope q;
          (active1, ac1) = (case named (pick_priority_preemption e so scope active (rs_active s)) of
             None \<Rightarrow> (active, rs_active s)
           | Some p \<Rightarrow> (p, if \<not> preserve_shared \<and> \<not> is_independent scope \<and> shares_active_selection so p
                 \<and> \<not> manual_preference_blocks (pool_key_for_scope None) p (rs_active s)
               then remember_active p (rs_active s) else rs_active s));
          (active2, ac2) = apply_quota_auto_switch e so scope (\<not> preserve_shared) active1 ac1;
          (active3, ac3) = apply_failure_failover e so scope (\<not> preserve_shared) active2 ac2
      in (prefer_model_entitled e so scope active3 ac3, s\<lparr>rs_active := ac3\<rparr>))"

definition is_healthy_active :: "resolve_env \<Rightarrow> request \<Rightarrow> string \<Rightarrow> bool" where
  "is_healthy_active r q active \<longleftrightarrow>
     (let e = re_select r; scope = rq_scope q; so = shared_options q
      in is_selectable e so scope active \<and> has_shared_headroom e scope so active \<and> \<not> should_failover e active)"

definition save_shared :: "request \<Rightarrow> bool \<Rightarrow> string \<Rightarrow> resolve_state \<Rightarrow> resolve_state" where
  "save_shared q moves account s =
     (if moves \<and> \<not> is_independent (rq_scope q) \<and> shares_active_selection (rq_options q) account
      then with_active (set_active account) s else s)"

definition from_active ::
    "resolve_env \<Rightarrow> request \<Rightarrow> bool \<Rightarrow> bool \<Rightarrow> affinity_reason option \<Rightarrow> string \<Rightarrow> resolve_state \<Rightarrow> resolution \<times> resolve_state" where
  "from_active r q preserve_shared keep release active s =
     (let e = re_select r; so = rq_options q; scope = rq_scope q;
          finish = (\<lambda>account s1. case correct_active r q preserve_shared account s1 of (b, s2) \<Rightarrow> finish_active r q keep release b s2)
      in if is_selectable e so scope active then finish active s
         else (case named (pick_lowest_usage_account e so scope (Some active) (rs_active s)) of
             Some f \<Rightarrow> finish f (save_shared q (\<not> (model_scoped q \<and> preserve_shared \<and> is_healthy_active r q active)) f s)
           | None \<Rightarrow>
               if so_native_main_only so \<and> model_scoped q then answer q release main_id s
               else if has_configured_account r so active \<and> \<not> is_paused e active \<and> \<not> is_rotation_excluded e so active
               then answer q release active s
               else no_answer q release s))"

definition resolve_active ::
    "resolve_env \<Rightarrow> request \<Rightarrow> bool \<Rightarrow> bool \<Rightarrow> affinity_reason option \<Rightarrow> resolve_state \<Rightarrow> resolution \<times> resolve_state" where
  "resolve_active r q preserve_shared keep release s =
     (let e = re_select r; so = rq_options q; scope = rq_scope q
      in case named (effective_active (rs_active s)) of
          Some a \<Rightarrow> from_active r q preserve_shared keep release a s
        | None \<Rightarrow> (case named (pick_lowest_usage_account e so scope None (rs_active s)) of
             Some a \<Rightarrow> from_active r q preserve_shared keep release a (save_shared q (\<not> model_scoped q) a s)
           | None \<Rightarrow>
               if so_native_main_only so \<and> model_scoped q then answer q release main_id s else no_answer q release s))"


section \<open>The resolver\<close>

definition resolve_lineage ::
    "resolve_env \<Rightarrow> request \<Rightarrow> affinity_reason option \<Rightarrow> resolve_state \<Rightarrow> resolution option \<times> resolve_state" where
  "resolve_lineage r q release s = (case (named (rq_thread q), rq_lineage q) of
     (Some t, Some li) \<Rightarrow>
       (case pick_lineage_serving r (rq_options q) (rq_scope q) (rq_model q) li (rs_affinity s) of
          None \<Rightarrow> (None, s)
        | Some (account, reason) \<Rightarrow>
            (let s1 = with_affinity (bind_thread_affinity (records_of r) t account (now_of r) (rq_scope q)) s
             in if release = None then (Some (Selected account (NewBind, reason) None), s1)
                else (case answer q release account s1 of (x, s2) \<Rightarrow> (Some x, s2))))
   | _ \<Rightarrow> (None, s))"

definition resolve_open ::
    "resolve_env \<Rightarrow> request \<Rightarrow> bool \<Rightarrow> bool \<Rightarrow> bool \<Rightarrow> bool \<Rightarrow> affinity_reason option \<Rightarrow> resolve_state \<Rightarrow> resolution \<times> resolve_state" where
  "resolve_open r q preserve_shared entry had_model keep released s =
     (let release = (case released of None \<Rightarrow> peek_pending (rq_thread q) (rs_affinity s) | Some x \<Rightarrow> Some x)
      in case (if entry then (None, s) else resolve_lineage r q release s) of
          (Some x, s1) \<Rightarrow> (x, s1)
        | (None, s1) \<Rightarrow>
            (case (if entry \<or> release \<noteq> None \<or> had_model then (None, s1)
                   else pick_idle_window_account r (rq_options q) (rq_scope q) (rq_thread q) True s1) of
               (idle, s2) \<Rightarrow> (case named idle of
                  Some i \<Rightarrow> answer q release i s2
                | None \<Rightarrow> (case resolve_strategy r q preserve_shared keep release s2 of
                     (Some x, s3) \<Rightarrow> (x, s3)
                   | (None, s3) \<Rightarrow> resolve_active r q preserve_shared keep release s3))))"

definition preserves_shared :: "resolve_env \<Rightarrow> request \<Rightarrow> active_state \<Rightarrow> bool" where
  "preserves_shared r q ac \<longleftrightarrow> model_scoped q \<and> (case effective_active ac of
     None \<Rightarrow> True | Some b \<Rightarrow> is_healthy_shared_selection (re_select r) (shared_options q) (rq_scope q) b)"

definition resolve_account :: "resolve_env \<Rightarrow> request \<Rightarrow> resolve_state \<Rightarrow> resolution \<times> resolve_state" where
  "resolve_account r q s =
     (let s0 = (if is_independent (rq_scope q) then s
                else with_active (release_drained_pin (re_select r) (shared_state_options (rq_options q))) s);
          preserve_shared = preserves_shared r q (rs_active s0)
      in case named (rq_thread q) of
          None \<Rightarrow> resolve_open r q preserve_shared False False False None s0
        | Some t \<Rightarrow>
            (let s1 = with_affinity (adopt_legacy_lineage (records_of r) t
                   (case rq_lineage q of None \<Rightarrow> None | Some li \<Rightarrow> ln_legacy li) (now_of r) (rq_scope q) (rq_model q)) s0;
                 had_model = (model_detour_affinity t (rq_model q) (rq_scope q) (rs_affinity s1) \<noteq> None)
             in case (if model_scoped q then resolve_model_lane r q t s1 else (None, s1)) of
                 (Some x, s2) \<Rightarrow> (x, s2)
               | (None, s2) \<Rightarrow> (case thread_affinity t (rq_scope q) (rs_affinity s2) of
                    None \<Rightarrow> resolve_open r q preserve_shared False had_model False None s2
                  | Some a \<Rightarrow> (case resolve_binding r q t a s2 of
                       (Answered x, s3) \<Rightarrow> (x, s3)
                     | (Open release keep, s3) \<Rightarrow> resolve_open r q preserve_shared True had_model keep release s3))))"

text \<open>The wrapper answers an account only when one is selected.\<close>

definition resolve_account_for_thread :: "resolve_env \<Rightarrow> request \<Rightarrow> resolve_state \<Rightarrow> string option \<times> resolve_state" where
  "resolve_account_for_thread r q s = (case resolve_account r q s of
     (Selected a _ _, s1) \<Rightarrow> (Some a, s1) | (_, s1) \<Rightarrow> (None, s1))"


section \<open>The preview\<close>

definition preview_reusable ::
    "resolve_env \<Rightarrow> select_options \<Rightarrow> quota_scope option \<Rightarrow> active_state \<Rightarrow> affinity option \<Rightarrow> string option" where
  "preview_reusable r so scope s entry = (case entry of
     None \<Rightarrow> None
   | Some a \<Rightarrow>
       (let e = re_select r; now = now_of r; account = af_account a; threshold = threshold_of e account
        in if is_affinity_expired a now then None
           else if \<not> is_reusable r so scope a then
             (if \<not> is_hold_expired a now \<and> is_transient_only_block r so scope a
              then (case peek_transient_detour r so scope a s of
                  None \<Rightarrow> Some account | Some d \<Rightarrow> if d \<noteq> account then Some d else Some account)
              else None)
           else if strategy_for_scope e scope = ResetFirstStrategy
           then Some (nullish (reset_first_replacement r so scope account s) account)
           else (case named (pick_priority_failback r so scope account s) of
               Some b \<Rightarrow> Some b
             | None \<Rightarrow>
                 if strategy_for_scope e scope = QuotaStrategy \<and> threshold > 0
                    \<and> may_rebind_for_quota r so account (usage_of e so account) threshold
                 then (case named (pick_cache_safe_replacement r so scope account (usage_of e so account) s) of
                     Some b \<Rightarrow> Some b | None \<Rightarrow> Some account)
                 else Some account)))"

definition preview_active :: "resolve_env \<Rightarrow> request \<Rightarrow> active_state \<Rightarrow> string \<Rightarrow> string option" where
  "preview_active r q s active =
     (let e = re_select r; so = rq_options q; scope = rq_scope q;
          a1 = nullish (pick_priority_preemption e so scope active s) active;
          usage = usage_of e so a1;
          a2 = (if threshold_of e a1 > 0 \<and> \<not> is_unknown_usage usage \<and> usage \<ge> threshold_of e a1
                then pick_lower_usage_account e so scope (as_pinned s) a1 usage False else a1);
          a3 = (if should_failover e a2 \<or> steers_away e (as_pinned s) a2
                then nullish (named (pick_lowest_usage_account e so scope (Some a2) s)) a2 else a2);
          a4 = prefer_model_entitled e so scope a3 s
      in if \<not> is_usable e so a4 then (if has_configured_account r so a4 then Some a4 else None)
         else if is_paused e a4 then None
         else if is_cooling e scope a4 then (if has_configured_account r so a4 then Some a4 else None)
         else Some a4)"

definition preview_unbound :: "resolve_env \<Rightarrow> request \<Rightarrow> active_state \<Rightarrow> string option" where
  "preview_unbound r q s =
     (let e = re_select r; so = rq_options q; scope = rq_scope q
      in case named (fst (pick_unbound_strategy e (options_for_model_detour e so scope) scope (rq_thread q) False True True s)) of
          Some p \<Rightarrow> Some p
        | None \<Rightarrow> (case named (effective_active s) of
             None \<Rightarrow> pick_lowest_usage_account e so scope None s
           | Some active \<Rightarrow>
               if is_selectable e so scope active then preview_active r q s active
               else (case named (pick_lowest_usage_account e so scope (Some active) s) of
                   Some f \<Rightarrow> preview_active r q s f
                 | None \<Rightarrow> if has_configured_account r so active \<and> \<not> is_paused e active \<and> \<not> is_rotation_excluded e so active
                     then Some active else None)))"

fun first_named :: "string option list \<Rightarrow> string option" where
  "first_named [] = None"
| "first_named (x # xs) = (case named x of Some a \<Rightarrow> Some a | None \<Rightarrow> first_named xs)"

definition preview_account :: "resolve_env \<Rightarrow> request \<Rightarrow> resolve_state \<Rightarrow> string option" where
  "preview_account r q s =
     (let so = rq_options q; scope = rq_scope q; af = rs_affinity s; look = preview_reusable r so scope (rs_active s);
          thread = named (rq_thread q);
          entry = (case thread of None \<Rightarrow> None | Some t \<Rightarrow> thread_affinity t scope af);
          lane = (case thread of None \<Rightarrow> None | Some t \<Rightarrow> model_detour_affinity t (rq_model q) scope af);
          legacy = (case (thread, entry, rq_lineage q) of
             (Some _, None, Some li) \<Rightarrow> (case ln_legacy li of None \<Rightarrow> None | Some l \<Rightarrow> look (thread_affinity l scope af))
           | _ \<Rightarrow> None);
          family = (case (thread, entry, rq_lineage q) of
             (Some _, None, Some li) \<Rightarrow> map_option fst (pick_lineage_serving r so scope (rq_model q) li af)
           | _ \<Rightarrow> None);
          idle = (if entry = None \<and> peek_pending (rq_thread q) af = None \<and> lane = None
             then fst (pick_idle_window_account r so scope (rq_thread q) False s) else None)
      in case first_named [if model_scoped q then look lane else None, look entry, legacy, family, idle] of
          Some a \<Rightarrow> Some a
        | None \<Rightarrow> preview_unbound r q (rs_active s))"

end
