(* ===== verification/Codex_Resolve_Properties.thy ===== *)
theory Codex_Resolve_Properties
  imports Codex_Resolve Codex_Affinity_Properties Codex_Pick_Properties
begin

text \<open>
  What the resolver promises a bound conversation: it leaves an account that can serve it only on evidence,
  a transient failure costs it neither its binding nor a send at the failing account that was not granted as
  a trial, and the preview names the account the request would get.
\<close>

section \<open>Requests of a bound conversation\<close>

text \<open>The bindings once the conversation has taken over what is kept under its legacy key.\<close>

definition adopted :: "resolve_env \<Rightarrow> request \<Rightarrow> string \<Rightarrow> affinity_state \<Rightarrow> affinity_state" where
  "adopted r q t = adopt_legacy_lineage (records_of r) t (case rq_lineage q of None \<Rightarrow> None | Some li \<Rightarrow> ln_legacy li)
     (now_of r) (rq_scope q) (rq_model q)"

text \<open>
  A request of a conversation that has a live binding of its scope. With a roster for its model, no lane is
  remembered for that model: a lane answers before the binding does.
\<close>

definition is_bound :: "resolve_env \<Rightarrow> request \<Rightarrow> string \<Rightarrow> affinity \<Rightarrow> resolve_state \<Rightarrow> bool" where
  "is_bound r q t a s \<longleftrightarrow> named (rq_thread q) = Some t
     \<and> (if model_scoped q then model_detour_affinity t (rq_model q) (rq_scope q) (adopted r q t (rs_affinity s)) = None else True)
     \<and> thread_affinity t (rq_scope q) (adopted r q t (rs_affinity s)) = Some a \<and> \<not> is_affinity_expired a (now_of r)"

text \<open>The active state once a drained pin is let go.\<close>

definition unpinned :: "resolve_env \<Rightarrow> request \<Rightarrow> active_state \<Rightarrow> active_state" where
  "unpinned r q ac = (if is_independent (rq_scope q) then ac
     else release_drained_pin (re_select r) (shared_state_options (rq_options q)) ac)"

definition own_scope :: "request \<Rightarrow> affinity_scope" where
  "own_scope q = BaseScope (base_scope (rq_scope q))"

lemma named_Some: "named x = Some a \<longleftrightarrow> x = Some a \<and> a \<noteq> []"
  by (auto simp: named_def split: option.splits list.splits)

lemma named_ne: "a \<noteq> [] \<Longrightarrow> named (Some a) = Some a"
  by (simp add: named_Some)

definition ready :: "resolve_env \<Rightarrow> request \<Rightarrow> string \<Rightarrow> resolve_state \<Rightarrow> resolve_state" where
  "ready r q t s = with_affinity (adopted r q t) (with_active (unpinned r q) s)"

lemma ready_keeps [simp]:
  "rs_active (ready r q t s) = unpinned r q (rs_active s)" "rs_affinity (ready r q t s) = adopted r q t (rs_affinity s)"
  "rs_recovery (ready r q t s) = rs_recovery s" "rs_steered (ready r q t s) = rs_steered s"
  by (simp_all add: ready_def with_affinity_def with_active_def)

lemma no_lane: "model_detour_affinity t (rq_model q) (rq_scope q) (rs_affinity s) = None \<Longrightarrow> resolve_model_lane r q t s = (None, s)"
  by (auto simp: resolve_model_lane_def model_detour_affinity_def split: option.splits)

lemma released_pin:
  "(if is_independent (rq_scope q) then s
    else with_active (release_drained_pin (re_select r) (shared_state_options (rq_options q))) s) = with_active (unpinned r q) s"
  by (simp add: unpinned_def with_active_def)

lemma resolve_bound:
  assumes "is_bound r q t a s"
  shows "resolve_account r q s = (case resolve_binding r q t a (ready r q t s) of
      (Answered x, s3) \<Rightarrow> (x, s3)
    | (Open release keep, s3) \<Rightarrow> resolve_open r q (preserves_shared r q (unpinned r q (rs_active s))) True
        (model_detour_affinity t (rq_model q) (rq_scope q) (adopted r q t (rs_affinity s)) \<noteq> None) keep release s3)"
proof -
  have adopt: "with_affinity (adopt_legacy_lineage (records_of r) t (case rq_lineage q of None \<Rightarrow> None | Some li \<Rightarrow> ln_legacy li)
      (now_of r) (rq_scope q) (rq_model q)) (with_active (unpinned r q) s) = ready r q t s"
    by (simp add: ready_def adopted_def)
  have n: "named (rq_thread q) = Some t" and l: "thread_affinity t (rq_scope q) (adopted r q t (rs_affinity s)) = Some a"
    using assms by (simp_all add: is_bound_def)
  have lane: "(if model_scoped q then resolve_model_lane r q t (ready r q t s) else (None, ready r q t s)) = (None, ready r q t s)"
    using assms by (auto simp: is_bound_def intro: no_lane)
  have w: "rs_active (with_active (unpinned r q) s) = unpinned r q (rs_active s)" by (simp add: with_active_def)
  show ?thesis
    unfolding resolve_account_def Let_def released_pin n option.case adopt lane prod.case ready_keeps w l ..
qed

lemma lookup_edit:
  "affinity_for t' sc' (edit_affinity t sc f s) = (if t' = t \<and> sc' = sc then map_option f (affinity_for t' sc' s) else affinity_for t' sc' s)"
  by (auto simp: affinity_for_def edit_affinity_def split: option.split)

lemma thread_is_bound: "is_bound r q t a s \<Longrightarrow> bindings (adopted r q t (rs_affinity s)) t (own_scope q) = Some a"
  by (simp add: is_bound_def thread_affinity_def bindings_def own_scope_def)

lemma bindings_put:
  assumes "bindings (rs_affinity s) t sc = Some a"
  shows "bindings (rs_affinity (put_affinity t sc a' s))
    = (\<lambda>t' sc'. if t' = t \<and> sc' = sc then Some a' else bindings (rs_affinity s) t' sc')"
  using assms by (intro ext) (auto simp: put_affinity_def with_affinity_def bindings_def lookup_edit)


section \<open>Candidates\<close>

lemma usable_named: "is_usable e so a \<Longrightarrow> a \<noteq> []"
proof
  assume use: "is_usable e so a" and "a = []"
  then have "\<not> list_ex (\<lambda>r. is_selectable_pool_account r \<and> pa_id r = a) (se_accounts e)" "a \<noteq> main_id"
    by (auto simp: list_ex_iff is_selectable_pool_account_def is_valid_account_id_def main_id_def)
  then show False using use by (auto simp: is_usable_def unusable_reason_def split: if_splits)
qed

lemma admitted_named: "admitted e so scope exclude pin a \<Longrightarrow> a \<noteq> []"
  using usable_named [of e so a] by (simp add: admitted_def is_selectable_def)

lemma picks_filter:
  "picks_from (filter P (eligible_accounts e so scope exclude skip pin)) (Some c) \<Longrightarrow> P c \<and> admitted e so scope exclude pin c"
  using eligible_admitted by (auto simp: picks_from_def)

lemma admitted_weaken: "admitted e so scope (Some x) pin c \<Longrightarrow> admitted e so scope None pin c \<and> c \<noteq> x"
  by (auto simp: admitted_def)

lemma lowest_filtered:
  assumes "pick_lowest_usage_among e so (filter P (eligible_accounts e so scope exclude skip pin)) = Some c"
  shows "P c \<and> admitted e so scope exclude pin c"
  using lowest_picks [of "filter P (eligible_accounts e so scope exclude skip pin)" e so] assms picks_filter by metis

lemma cache_safe_evidence:
  assumes "pick_cache_safe_replacement r so scope account usage s = Some c"
  shows "admitted (re_select r) so scope None (as_pinned s) c \<and> c \<noteq> account \<and> has_headroom (re_select r) so c
    \<and> usage_of (re_select r) so c < usage"
proof -
  have p: "pick_lowest_usage_among (re_select r) so (filter (has_headroom (re_select r) so)
      (eligible_accounts (re_select r) so scope (Some account) True (as_pinned s))) = Some c"
    and l: "usage_of (re_select r) so c < usage"
    using assms by (auto simp: pick_cache_safe_replacement_def Let_def split: option.splits if_splits)
  show ?thesis using lowest_filtered [OF p] l admitted_weaken by blast
qed

lemma reset_first_evidence:
  assumes "reset_first_replacement r so scope account s = Some c"
  shows "admitted (re_select r) so scope None (as_pinned s) c \<and> c \<noteq> account \<and> has_headroom (re_select r) so c
    \<and> \<not> is_unknown_usage (usage_of (re_select r) so c) \<and> threshold_of (re_select r) account > 0
    \<and> may_rebind_for_quota r so account (usage_of (re_select r) so account) (threshold_of (re_select r) account)"
proof -
  let ?e = "re_select r"
  let ?ids = "filter (\<lambda>i. has_headroom ?e so i \<and> \<not> is_unknown_usage (usage_of ?e so i)) (eligible_accounts ?e so scope (Some account) True (as_pinned s))"
  have p: "pick_reset_first ?e so ?ids = Some c" and m: "threshold_of ?e account > 0"
      "may_rebind_for_quota r so account (usage_of ?e so account) (threshold_of ?e account)"
    using assms by (auto simp: reset_first_replacement_def Let_def split: if_splits)
  have "picks_from ?ids (Some c)" using reset_first_picks [of ?ids ?e so] p by simp
  then show ?thesis using picks_filter m admitted_weaken by blast
qed

lemma failback_evidence:
  assumes "pick_priority_failback r so scope account s = Some c"
  shows "admitted (re_select r) so scope None (as_pinned s) c \<and> c \<noteq> account \<and> has_headroom (re_select r) so c
    \<and> failback_enabled r account \<and> strategy_for_scope (re_select r) scope = QuotaStrategy \<and> usage_of (re_select r) so c < 100"
proof -
  let ?e = "re_select r"
  have p: "pick_lowest_usage_among ?e so (filter (failback_candidate r so scope) (eligible_accounts ?e so scope None False (as_pinned s))) = Some c"
    and m: "failback_enabled r account" "strategy_for_scope ?e scope = QuotaStrategy"
      "named (pick_priority_preemption ?e so scope account s) \<noteq> None"
    using assms by (auto simp: pick_priority_failback_def Let_def split: if_splits)
  have "picks_from (filter (failback_candidate r so scope) (eligible_accounts ?e so scope None False (as_pinned s))) (Some c)"
    using lowest_picks p by metis
  then have c: "failback_candidate r so scope c" "c \<in> set (eligible_accounts ?e so scope None False (as_pinned s))"
    by (auto simp: picks_from_def)
  have "account \<notin> set (eligible_accounts ?e so scope None False (as_pinned s))"
    using m(3) by (auto simp: pick_priority_preemption_def Let_def named_def split: if_splits)
  then show ?thesis using c m eligible_admitted [OF c(2)] by (auto simp: failback_candidate_def Let_def)
qed


section \<open>Reevaluation\<close>

text \<open>What the settings ask of a bound account before its conversation may leave.\<close>

definition has_cause :: "resolve_env \<Rightarrow> select_options \<Rightarrow> quota_scope option \<Rightarrow> string \<Rightarrow> bool" where
  "has_cause r so scope account \<longleftrightarrow>
     (let e = re_select r; usage = usage_of e so account
      in failback_enabled r account \<and> strategy_for_scope e scope = QuotaStrategy
         \<or> threshold_of e account > 0 \<and> usage < unknown_usage_score
           \<and> usage \<ge> (if is_cache_affinity_enabled e \<or> re_retain_files r then 100 else threshold_of e account))"

lemma may_rebind_cause:
  assumes "is_usable (re_select r) so account" and "threshold_of (re_select r) account > 0"
  shows "may_rebind_for_quota r so account (usage_of (re_select r) so account) (threshold_of (re_select r) account) \<longleftrightarrow>
    usage_of (re_select r) so account < unknown_usage_score
      \<and> usage_of (re_select r) so account \<ge> (if is_cache_affinity_enabled (re_select r) \<or> re_retain_files r then 100 else threshold_of (re_select r) account)"
  using assms by (auto simp: may_rebind_for_quota_def is_unknown_usage_def)

lemma may_rebind_threshold:
  assumes "is_usable (re_select r) so account" and "\<not> threshold_of (re_select r) account > 0"
  shows "\<not> may_rebind_for_quota r so account 0 (threshold_of (re_select r) account)"
  using assms by (simp add: may_rebind_for_quota_def)

lemma reevaluated_entry: "\<exists>u. snd (reevaluate_affinity_quota r so scope a s) = a\<lparr>af_last_reeval := u\<rparr>"
proof -
  have "snd (reevaluate_affinity_quota r so scope a s) \<in> {a\<lparr>af_last_reeval := af_last_reeval a\<rparr>, a\<lparr>af_last_reeval := now_of r\<rparr>}"
    by (simp add: reevaluate_affinity_quota_def Let_def split: option.split)
  then show ?thesis by blast
qed

lemma reevaluated_pick:
  assumes "is_usable (re_select r) so (af_account a)"
  shows "fst (reevaluate_affinity_quota r so scope a s) =
    (let e = re_select r; account = af_account a
     in if strategy_for_scope e scope = ResetFirstStrategy then reset_first_replacement r so scope account s
        else if strategy_for_scope e scope \<noteq> QuotaStrategy then None
        else (case named (pick_priority_failback r so scope account s) of
            Some b \<Rightarrow> Some b
          | None \<Rightarrow> if threshold_of e account > 0 \<and> may_rebind_for_quota r so account (usage_of e so account) (threshold_of e account)
              then pick_cache_safe_replacement r so scope account (usage_of e so account) s else None))"
  using may_rebind_threshold [OF assms] by (auto simp: reevaluate_affinity_quota_def Let_def split: option.split)

lemma reevaluated_evidence:
  assumes use: "is_usable (re_select r) so (af_account a)" and c: "fst (reevaluate_affinity_quota r so scope a s) = Some c"
  shows "admitted (re_select r) so scope None (as_pinned s) c \<and> c \<noteq> af_account a \<and> has_headroom (re_select r) so c
    \<and> strategy_for_scope (re_select r) scope \<in> {QuotaStrategy, ResetFirstStrategy} \<and> has_cause r so scope (af_account a)"
proof (cases "strategy_for_scope (re_select r) scope = ResetFirstStrategy")
  case True
  then have "reset_first_replacement r so scope (af_account a) s = Some c" using c reevaluated_pick [OF use] by (simp add: Let_def)
  from reset_first_evidence [OF this] show ?thesis using True may_rebind_cause [OF use] by (simp add: has_cause_def Let_def)
next
  case False
  then have q: "strategy_for_scope (re_select r) scope = QuotaStrategy" using c reevaluated_pick [OF use] by (auto simp: Let_def split: if_splits)
  show ?thesis
  proof (cases "named (pick_priority_failback r so scope (af_account a) s)")
    case (Some b)
    then have "fst (reevaluate_affinity_quota r so scope a s) = Some b" using q reevaluated_pick [OF use] by (simp add: Let_def)
    then have "pick_priority_failback r so scope (af_account a) s = Some c" using c Some by (simp add: named_Some)
    from failback_evidence [OF this] show ?thesis by (simp add: has_cause_def Let_def)
  next
    case None
    then have "pick_cache_safe_replacement r so scope (af_account a) (usage_of (re_select r) so (af_account a)) s = Some c"
      and m: "threshold_of (re_select r) (af_account a) > 0"
        "may_rebind_for_quota r so (af_account a) (usage_of (re_select r) so (af_account a)) (threshold_of (re_select r) (af_account a))"
      using c q reevaluated_pick [OF use] by (auto simp: Let_def split: if_splits)
    from cache_safe_evidence [OF this(1)] show ?thesis using q m may_rebind_cause [OF use] by (simp add: has_cause_def Let_def)
  qed
qed

lemma reusable_usable: "is_reusable r so scope a \<Longrightarrow> is_usable (re_select r) so (af_account a)"
  by (simp add: is_reusable_def is_selectable_def)


section \<open>A binding that serves\<close>

text \<open>An account that can take the request of a model can take any request.\<close>

lemma usable_shared: "is_usable e (rq_options q) account \<Longrightarrow> is_usable e (shared_options q) account"
  by (auto simp: is_usable_def unusable_reason_def main_unusable_reason_def shared_options_def shared_state_options_def no_options_def Let_def
      split: if_splits option.splits)

lemma selectable_shared: "is_selectable e (rq_options q) scope account \<Longrightarrow> is_selectable e (shared_options q) scope account"
proof -
  have "plan_for_selection e (shared_options q) = plan_for_selection e (rq_options q)"
    by (intro ext) (auto simp: plan_for_selection_def shared_options_def shared_state_options_def no_options_def)
  then have "is_held_at_usage_limit e (shared_options q) account = is_held_at_usage_limit e (rq_options q) account"
    by (simp add: is_held_at_usage_limit_def)
  then show "is_selectable e (rq_options q) scope account \<Longrightarrow> is_selectable e (shared_options q) scope account"
    using usable_shared by (simp add: is_selectable_def)
qed

lemma bound_alive: "is_bound r q t a s \<Longrightarrow> \<not> is_affinity_expired a (now_of r)"
  by (simp add: is_bound_def)

lemma with_active_keeps [simp]:
  "rs_affinity (with_active f s) = rs_affinity s" "rs_recovery (with_active f s) = rs_recovery s"
  "rs_steered (with_active f s) = rs_steered s" "rs_active (with_active f s) = f (rs_active s)"
  by (simp_all add: with_active_def)

lemma put_affinity_keeps [simp]:
  "rs_active (put_affinity t sc a s) = rs_active s" "rs_recovery (put_affinity t sc a s) = rs_recovery s"
  by (simp_all add: put_affinity_def with_affinity_def)

lemma served_account: "af_account (served now a) = af_account a"
  by (simp add: served_def)

lemma resolve_serving:
  assumes b: "is_bound r q t a s" and u: "is_reusable r (rq_options q) (rq_scope q) a"
  shows "resolve_account r q s =
    (case reevaluate_affinity_quota r (rq_options q) (rq_scope q) (served (now_of r) a) (unpinned r q (rs_active s)) of
       (cooler, a1) \<Rightarrow> (case cooler of
          Some c \<Rightarrow> (Selected c (Rebound, QuotaHeadroom) None, rebind r q t c (put_affinity t (own_scope q) a1 (ready r q t s)))
        | None \<Rightarrow> (Selected (af_account a) (Reused, HealthyReason) None, put_affinity t (own_scope q) a1 (ready r q t s))))"
proof -
  have sel: "is_selectable (re_select r) (rq_options q) (rq_scope q) (af_account a)" using u by (simp add: is_reusable_def)
  have "resolve_binding r q t a (ready r q t s) =
      (case reevaluate_affinity_quota r (rq_options q) (rq_scope q) (served (now_of r) a) (unpinned r q (rs_active s)) of
         (cooler, a1) \<Rightarrow> (case named cooler of
            Some c \<Rightarrow> (Answered (Selected c (Rebound, QuotaHeadroom) None), rebind r q t c (put_affinity t (own_scope q) a1 (ready r q t s)))
          | None \<Rightarrow> (Answered (Selected (af_account a) (Reused, HealthyReason) None), put_affinity t (own_scope q) a1 (ready r q t s))))"
    using bound_alive [OF b] u sel selectable_shared [OF sel] unfolding resolve_binding_def Let_def own_scope_def ready_keeps by simp
  moreover have "named cooler = cooler"
    if "cooler = fst (reevaluate_affinity_quota r (rq_options q) (rq_scope q) (served (now_of r) a) (unpinned r q (rs_active s)))" for cooler
  proof (cases cooler)
    case (Some c)
    have "admitted (re_select r) (rq_options q) (rq_scope q) None (as_pinned (unpinned r q (rs_active s))) c"
      using reevaluated_evidence [of r "rq_options q" "served (now_of r) a" "rq_scope q" "unpinned r q (rs_active s)" c]
        reusable_usable [OF u] that Some by (simp add: served_account)
    then have "c \<noteq> []" by (rule admitted_named)
    then show ?thesis using Some by (simp add: named_ne)
  qed (simp add: named_def)
  ultimately show ?thesis
    unfolding resolve_bound [OF b]
    by (cases "reevaluate_affinity_quota r (rq_options q) (rq_scope q) (served (now_of r) a) (unpinned r q (rs_active s))")
      (simp split: option.split)
qed



section \<open>A binding whose account fails for the moment\<close>

lemma transient_not_reusable:
  "is_transient_only_block r so scope a \<Longrightarrow> \<not> is_reusable r so scope a"
  by (auto simp: is_transient_only_block_def is_reusable_def is_selectable_def Let_def)

lemma held_account [simp]: "af_account (held now a) = af_account a" "af_generation (held now a) = af_generation a"
  "af_hold_since (held now a) = Some (nullish (af_hold_since a) now)" "af_detour (held now a) = af_detour a"
  by (simp_all add: held_def)

lemma resolve_transient:
  assumes b: "is_bound r q t a s" and x: "\<not> is_hold_expired a (now_of r)"
    and tr: "is_transient_only_block r (rq_options q) (rq_scope q) a"
  shows "resolve_account r q s = hold_binding r (rq_options q) (rq_scope q) t (own_scope q) a (ready r q t s)"
proof -
  have "resolve_binding r q t a (ready r q t s) =
      (case hold_binding r (rq_options q) (rq_scope q) t (own_scope q) a (ready r q t s) of (x, s1) \<Rightarrow> (Answered x, s1))"
    using bound_alive [OF b] transient_not_reusable [OF tr] x tr unfolding resolve_binding_def Let_def own_scope_def by simp
  then show ?thesis unfolding resolve_bound [OF b]
    by (cases "hold_binding r (rq_options q) (rq_scope q) t (own_scope q) a (ready r q t s)") simp
qed

lemma detour_serves:
  assumes "fst (transient_detour_account r so scope a s) = Some d"
  shows "d \<noteq> af_account a \<and> is_selectable (re_select r) so scope d"
proof (cases "standing_detour r so scope a")
  case None
  then have "fst (pick_alternate (re_select r) so scope (af_account a) s) = Some d" using assms by (simp add: transient_detour_account_def)
  then have "admitted (re_select r) so scope (Some (af_account a)) (as_pinned s) d"
    using picks_admitted [OF alternate_picks, of "re_select r" so scope "af_account a" s] by simp
  then show ?thesis by (auto simp: admitted_def)
next
  case (Some x)
  then show ?thesis using assms
    by (auto simp: transient_detour_account_def standing_detour_def can_serve_def Let_def split: option.splits if_splits)
qed

lemma alternate_none: "fst (pick_alternate e so scope x s) = None \<Longrightarrow> \<not> admitted e so scope (Some x) (as_pinned s) b"
  using alternate_picks [of e so scope x s] eligible_empty [of e so scope "Some x" "as_pinned s"] by (auto simp: picks_from_def)

lemma no_detour_none:
  "fst (transient_detour_account r so scope a s) = None \<Longrightarrow> \<not> admitted (re_select r) so scope (Some (af_account a)) (as_pinned s) b"
  by (simp add: transient_detour_account_def alternate_none split: option.splits)

lemma bindings_twice:
  assumes "bindings (rs_affinity s) t sc = Some a"
  shows "bindings (rs_affinity (note_detour t sc d (put_affinity t sc a' s)))
    = (\<lambda>t' sc'. if t' = t \<and> sc' = sc then Some (a'\<lparr>af_detour := Some d\<rparr>) else bindings (rs_affinity s) t' sc')"
  using assms by (intro ext) (auto simp: put_affinity_def with_affinity_def note_detour_def bindings_def lookup_edit)

text \<open>The limiter of recoveries in force has a positive window.\<close>

definition recovery_ok :: "pool_recovery \<Rightarrow> bool" where
  "recovery_ok p \<longleftrightarrow> (case shared_limiter p of None \<Rightarrow> True | Some l \<Rightarrow> policy_ok (policy l))"

lemma held_subject:
  "case fst (resolve_held_shared (held_question r account) p) of Probe lease \<Rightarrow> True | Withheld b d u \<Rightarrow> b = account | Detour d \<Rightarrow> False"
  by (simp add: resolve_held_shared_def resolve_held_with_def held_question_def Let_def split: option.split prod.split)

lemma held_answer:
  assumes "recovery_ok p"
  shows "case resolve_held_shared (held_question r account) p of
      (Probe lease, p') \<Rightarrow> fst (shared_permit (se_now (re_select r)) (shared_limiter p))
        \<and> try_acquire account (se_now (re_select r)) None None (probe_entries p) = (Some lease, probe_entries p')
    | (Withheld b d u, p') \<Rightarrow> b = account \<and> se_now (re_select r) < u
    | (Detour d, p') \<Rightarrow> False"
proof -
  have ok: "policy_ok (policy (shared_backpressure (shared_limiter p)))"
    using assms by (cases "shared_limiter p") (auto simp: recovery_ok_def)
  obtain d l tb where res: "resolve_held_with shared_permit shared_next_at (held_question r account) (shared_limiter p, probe_entries p) = (d, l, tb)"
    by (metis prod_cases3)
  show ?thesis
  proof (cases d)
    case (Probe lease)
    then show ?thesis using res shared.resolve_probe_grant [of "held_question r account" "shared_limiter p" "probe_entries p" lease l tb]
      by (simp add: resolve_held_shared_def held_question_def)
  next
    case (Withheld b x u)
    have "b = account" using res Withheld by (auto simp: resolve_held_with_def held_question_def Let_def split: option.splits prod.splits)
    then show ?thesis using res Withheld shared.resolve_withheld_waits [OF ok, of "held_question r account" "probe_entries p" b x u l tb]
      by (simp add: resolve_held_shared_def held_question_def)
  next
    case (Detour x)
    then show ?thesis using res by (auto simp: resolve_held_with_def held_question_def Let_def split: option.splits prod.splits)
  qed
qed

text \<open>C38. While the account of a conversation only fails for the moment, and its hold has not run out, the
conversation keeps its binding, the hold counts from its first request, and no other binding changes. The
request goes to another account that passes every guard. Only when no account is left to go to does it concern
its own: it is sent there only with a trial that both the limiter and the probe table granted to this
request, on the generation of the binding; otherwise it is withheld until an instant in the future. A request
with a roster for its model is covered when the roster names the account and no lane of the model is
remembered; of a roster without the account see \<open>roster_spends_held_binding\<close>.\<close>

theorem transient_failure_keeps_conversation:
  assumes b: "is_bound r q t a s" and x: "\<not> is_hold_expired a (now_of r)"
    and tr: "is_transient_only_block r (rq_options q) (rq_scope q) a" and ok: "recovery_ok (rs_recovery s)"
  shows "case resolve_account r q s of (x, s') \<Rightarrow>
     (\<exists>d. bindings (rs_affinity s') = (\<lambda>t' sc'. if t' = t \<and> sc' = own_scope q
         then Some ((held (now_of r) a)\<lparr>af_detour := d\<rparr>) else bindings (adopted r q t (rs_affinity s)) t' sc'))
     \<and> (case x of
          Selected c dec grant \<Rightarrow>
            if c = af_account a
            then (\<nexists>b. admitted (re_select r) (rq_options q) (rq_scope q) (Some c) (as_pinned (unpinned r q (rs_active s))) b)
              \<and> fst (shared_permit (se_now (re_select r)) (shared_limiter (rs_recovery s)))
              \<and> (case grant of None \<Rightarrow> False | Some (lease, g) \<Rightarrow> g = af_generation a
                  \<and> try_acquire c (se_now (re_select r)) None None (probe_entries (rs_recovery s)) = (Some lease, probe_entries (rs_recovery s')))
            else grant = None \<and> is_selectable (re_select r) (rq_options q) (rq_scope q) c \<and> rs_recovery s' = rs_recovery s
        | WithheldUntil b u d dec \<Rightarrow> b = af_account a \<and> se_now (re_select r) < u
            \<and> (\<nexists>b. admitted (re_select r) (rq_options q) (rq_scope q) (Some (af_account a)) (as_pinned (unpinned r q (rs_active s))) b)
        | _ \<Rightarrow> False)"
proof -
  let ?s0 = "ready r q t s"
  let ?h = "held (now_of r) a"
  obtain detour ac where d: "transient_detour_account r (rq_options q) (rq_scope q) a (unpinned r q (rs_active s)) = (detour, ac)"
    by (metis surj_pair)
  let ?s1 = "put_affinity t (own_scope q) ?h (?s0\<lparr>rs_active := ac\<rparr>)"
  have res: "resolve_account r q s = resolve_transient_hold r t (own_scope q) ?h detour ?s1"
    using resolve_transient [OF b x tr] d by (simp add: hold_binding_def)
  have af: "rs_affinity (?s0\<lparr>rs_active := ac\<rparr>) = adopted r q t (rs_affinity s)" by simp
  have b1: "bindings (rs_affinity (?s0\<lparr>rs_active := ac\<rparr>)) t (own_scope q) = Some a"
    using thread_is_bound [OF b] unfolding af .
  have binds: "bindings (rs_affinity ?s1) = (\<lambda>t' sc'. if t' = t \<and> sc' = own_scope q
      then Some (?h\<lparr>af_detour := af_detour a\<rparr>) else bindings (adopted r q t (rs_affinity s)) t' sc')"
  proof -
    have h: "?h\<lparr>af_detour := af_detour a\<rparr> = ?h" by (simp add: held_def)
    show ?thesis unfolding h using bindings_put [OF b1, of ?h] unfolding af .
  qed
  show ?thesis
  proof (cases detour)
    case (Some c)
    then have c: "c \<noteq> af_account a" "is_selectable (re_select r) (rq_options q) (rq_scope q) c"
      using detour_serves [of r "rq_options q" "rq_scope q" a "unpinned r q (rs_active s)" c] d by simp_all
    have "resolve_account r q s = (Selected c (DetourMove, transient_reason) None, note_detour t (own_scope q) c ?s1)"
      using res Some c(1) by (simp add: resolve_transient_hold_def Let_def)
    moreover have "bindings (rs_affinity (note_detour t (own_scope q) c ?s1)) = (\<lambda>t' sc'. if t' = t \<and> sc' = own_scope q
        then Some (?h\<lparr>af_detour := Some c\<rparr>) else bindings (adopted r q t (rs_affinity s)) t' sc')"
      using bindings_twice [OF b1, of c ?h] unfolding af .
    moreover have "rs_recovery (note_detour t (own_scope q) c ?s1) = rs_recovery s" by (simp add: note_detour_def)
    ultimately show ?thesis using c by auto
  next
    case None
    then have none: "\<nexists>b. admitted (re_select r) (rq_options q) (rq_scope q) (Some (af_account a)) (as_pinned (unpinned r q (rs_active s))) b"
      using no_detour_none d by (metis fst_conv)
    obtain y p' where y: "resolve_held_shared (held_question r (af_account a)) (rs_recovery s) = (y, p')" by (metis surj_pair)
    note ans = held_answer [OF ok, of r "af_account a", unfolded y]
    show ?thesis
    proof (cases y)
      case (Probe lease)
      have "resolve_account r q s = (Selected (af_account a) (HeldMove, transient_reason) (Some (lease, af_generation a)), ?s1\<lparr>rs_recovery := p'\<rparr>)"
        using res None y Probe by (simp add: resolve_transient_hold_def Let_def)
      then show ?thesis using none ans Probe binds by auto
    next
      case (Withheld b' d' u)
      have "resolve_account r q s = (WithheldUntil b' u (af_detour a) (HeldMove, transient_reason), ?s1\<lparr>rs_recovery := p'\<rparr>)"
        using res None y Withheld by (simp add: resolve_transient_hold_def Let_def)
      then show ?thesis using none ans Withheld binds by auto
    next
      case (Detour d')
      then show ?thesis using ans by simp
    qed
  qed
qed


section \<open>The preview\<close>

definition answered_account :: "resolution \<Rightarrow> string option" where
  "answered_account x = (case x of Selected a _ _ \<Rightarrow> Some a | WithheldUntil a _ _ _ \<Rightarrow> Some a | ExpiredBinding a _ \<Rightarrow> Some a | NoAccount _ \<Rightarrow> None)"

lemma own_scope_stays: "affinity_for t sc s \<noteq> None \<Longrightarrow> adopt_legacy_for_scope records t l now sc s = s"
  by (simp add: adopt_legacy_for_scope_def)

lemma own_lane:
  assumes "thread_affinity t (rq_scope q) s = Some a" and "model_detour_affinity t (rq_model q) (rq_scope q) (adopted r q t s) = None"
  shows "model_detour_affinity t (rq_model q) (rq_scope q) s = None"
proof (cases "detour_scope (rq_model q) (rq_scope q)")
  case None
  then show ?thesis by (simp add: model_detour_affinity_def)
next
  case (Some sc)
  show ?thesis
  proof (rule ccontr)
    assume n: "model_detour_affinity t (rq_model q) (rq_scope q) s \<noteq> None"
    then have "adopted r q t s = s"
      using own_scope_stays [of t sc s] own_scope_stays [of t "BaseScope (base_scope (rq_scope q))" s] assms(1) Some
      by (simp add: adopted_def adopt_legacy_lineage_def thread_affinity_def model_detour_affinity_def Let_def split: option.split)
    then show False using n assms(2) by simp
  qed
qed

lemma preview_bound:
  assumes b: "is_bound r q t a s" and own: "thread_affinity t (rq_scope q) (rs_affinity s) = Some a"
    and n: "preview_reusable r (rq_options q) (rq_scope q) (unpinned r q (rs_active s)) (Some a) = Some c" "c \<noteq> []"
  shows "preview_account r q (with_active (unpinned r q) s) = Some c"
proof -
  have f: "first_named (None # Some c # xs) = Some c" for xs using n(2) by (cases c) (simp_all add: named_def)
  have t: "named (rq_thread q) = Some t" using b by (simp add: is_bound_def)
  have lane: "(if model_scoped q then preview_reusable r (rq_options q) (rq_scope q) (unpinned r q (rs_active s))
      (model_detour_affinity t (rq_model q) (rq_scope q) (rs_affinity s)) else None) = None"
    using b own_lane [OF own, of r] by (auto simp: is_bound_def preview_reusable_def)
  show ?thesis unfolding preview_account_def Let_def t own option.case with_active_keeps lane n(1) f ..
qed

text \<open>C39. The preview names the account the request of a bound conversation would get: the one that serves it or
takes it over, also by a detour, and while it is withheld the account it waits for. The binding is one the
conversation has of its own and not one it takes over with this request; with a roster for the model no lane of
it is remembered. The preview looks at the shared choice with a drained pin let go, as the resolver leaves it;
of a drained pin that is still stored see \<open>drained_pin_splits_preview\<close>.\<close>

theorem preview_agrees_for_bound:
  assumes b: "is_bound r q t a s" and own: "thread_affinity t (rq_scope q) (rs_affinity s) = Some a"
    and live: "is_reusable r (rq_options q) (rq_scope q) a
      \<or> \<not> is_hold_expired a (now_of r) \<and> is_transient_only_block r (rq_options q) (rq_scope q) a"
  shows "preview_account r q (with_active (unpinned r q) s) = answered_account (fst (resolve_account r q s))"
proof (cases "is_reusable r (rq_options q) (rq_scope q) a")
  case True
  let ?so = "rq_options q" and ?scope = "rq_scope q" and ?acc = "af_account a" and ?ac = "unpinned r q (rs_active s)"
  let ?p = "fst (reevaluate_affinity_quota r ?so ?scope (served (now_of r) a) ?ac)"
  have use: "is_usable (re_select r) ?so ?acc" by (rule reusable_usable [OF True])
  have pick: "?p = (let e = re_select r in if strategy_for_scope e ?scope = ResetFirstStrategy then reset_first_replacement r ?so ?scope ?acc ?ac
        else if strategy_for_scope e ?scope \<noteq> QuotaStrategy then None
        else (case named (pick_priority_failback r ?so ?scope ?acc ?ac) of
            Some b \<Rightarrow> Some b
          | None \<Rightarrow> if threshold_of e ?acc > 0 \<and> may_rebind_for_quota r ?so ?acc (usage_of e ?so ?acc) (threshold_of e ?acc)
              then pick_cache_safe_replacement r ?so ?scope ?acc (usage_of e ?so ?acc) ?ac else None))"
    using reevaluated_pick [of r ?so "served (now_of r) a" ?scope ?ac] use by (simp add: served_account Let_def)
  have safe: "named (pick_cache_safe_replacement r ?so ?scope ?acc u ?ac) = pick_cache_safe_replacement r ?so ?scope ?acc u ?ac" for u
  proof (cases "pick_cache_safe_replacement r ?so ?scope ?acc u ?ac")
    case (Some c)
    then have "c \<noteq> []" using cache_safe_evidence [OF Some] admitted_named by blast
    then show ?thesis using Some by (simp add: named_ne)
  qed (simp add: named_def)
  have returns: "strategy_for_scope (re_select r) ?scope \<noteq> QuotaStrategy \<Longrightarrow> named (pick_priority_failback r ?so ?scope ?acc ?ac) = None"
    by (simp add: pick_priority_failback_def named_def)
  have look: "preview_reusable r ?so ?scope ?ac (Some a) = Some (nullish ?p ?acc)"
    using bound_alive [OF b] True returns unfolding pick preview_reusable_def Let_def option.case safe
    by (auto split: option.split)
  have "nullish ?p ?acc \<noteq> []"
  proof (cases ?p)
    case None
    then show ?thesis using usable_named [OF use] by simp
  next
    case (Some c)
    then have "admitted (re_select r) ?so ?scope None (as_pinned ?ac) c"
      using reevaluated_evidence [OF _ Some] use by (simp add: served_account)
    then show ?thesis using Some admitted_named by simp
  qed
  then show ?thesis
    using preview_bound [OF b own look] resolve_serving [OF b True] by (simp add: answered_account_def split: prod.split option.split)
next
  case False
  let ?so = "rq_options q" and ?scope = "rq_scope q" and ?acc = "af_account a" and ?ac = "unpinned r q (rs_active s)"
  have tr: "\<not> is_hold_expired a (now_of r)" "is_transient_only_block r ?so ?scope a" using live False by blast+
  have use: "?acc \<noteq> []" using tr(2) usable_named by (auto simp: is_transient_only_block_def Let_def)
  obtain detour ac where d: "transient_detour_account r ?so ?scope a ?ac = (detour, ac)" by (metis surj_pair)
  have peek: "peek_transient_detour r ?so ?scope a ?ac = detour"
    using d by (auto simp: peek_transient_detour_def transient_detour_account_def peek_alternate_same split: option.splits)
  have look: "preview_reusable r ?so ?scope ?ac (Some a) = Some (nullish detour ?acc)"
    using bound_alive [OF b] False tr by (simp add: preview_reusable_def Let_def peek split: option.split)
  have res: "fst (resolve_account r q s) = fst (resolve_transient_hold r t (own_scope q) (held (now_of r) a) detour
      (put_affinity t (own_scope q) (held (now_of r) a) ((ready r q t s)\<lparr>rs_active := ac\<rparr>)))"
    using resolve_transient [OF b tr] d by (simp add: hold_binding_def)
  show ?thesis
  proof (cases detour)
    case None
    then have "preview_account r q (with_active (unpinned r q) s) = Some ?acc" using preview_bound [OF b own look] use by simp
    then show ?thesis
      using held_subject [where r = r and account = ?acc and p = "rs_recovery s"] unfolding res None
      by (auto simp: resolve_transient_hold_def Let_def answered_account_def split: prod.splits held_dispatch.splits)
  next
    case (Some c)
    then have c: "c \<noteq> ?acc" "is_selectable (re_select r) ?so ?scope c" using detour_serves [of r ?so ?scope a ?ac c] d by simp_all
    then have "c \<noteq> []" using usable_named by (auto simp: is_selectable_def)
    then have "preview_account r q (with_active (unpinned r q) s) = Some c" using preview_bound [OF b own look] Some by simp
    then show ?thesis unfolding res Some using c(1) by (simp add: resolve_transient_hold_def Let_def answered_account_def)
  qed
qed


section \<open>Witnesses\<close>

text \<open>A pool of two accounts, the first bound to a conversation, with and without a streak of failures.\<close>

definition demo_env :: "health_store \<Rightarrow> resolve_env" where
  "demo_env hs = \<lparr>re_select = (demo_pool JNull)\<lparr>se_health := hs\<rparr>, re_retain_files = False, re_start_idle = False, re_failback = False,
     re_seen = (\<lambda>_. \<lparr>qs_updated = NaN, qs_weekly_at = None, qs_monthly_at = None, qs_short_at = None, qs_short_seconds = None\<rparr>),
     re_refresh_until = (\<lambda>_. None)\<rparr>"

definition demo_outage :: health_store where
  "demo_outage = empty_store\<lparr>hs_accounts := [(''a'', healthy\<lparr>hl_failures := 1, hl_soft_until := Some 1060000\<rparr>),
     (''b'', healthy\<lparr>hl_failures := 1, hl_soft_until := Some 1060000\<rparr>)]\<rparr>"

definition demo_request :: request where
  "demo_request = \<lparr>rq_options = no_options, rq_scope = None, rq_thread = Some ''t'', rq_model = None, rq_lineage = None\<rparr>"

definition demo_entry :: affinity where
  "demo_entry = new_binding ''a'' 0 999000 None"

definition demo_state :: resolve_state where
  "demo_state = \<lparr>rs_active = fresh_active,
     rs_affinity = \<lparr>at_map = [(''t'', [(demo_scope, demo_entry)])], at_total = 1, at_issuers = [], at_pending = []\<rparr>,
     rs_recovery = quiet_recovery, rs_steered = []\<rparr>"

lemma demo_is_bound: "is_bound (demo_env hs) demo_request ''t'' demo_entry demo_state"
proof -
  have "named (rq_thread demo_request) = Some ''t''" "\<not> model_scoped demo_request"
    "thread_affinity ''t'' (rq_scope demo_request) (rs_affinity demo_state) = Some demo_entry"
    by code_simp+
  moreover have "adopted (demo_env hs) demo_request ''t'' s = s" for s
    by (simp add: adopted_def adopt_legacy_lineage_def demo_request_def)
  moreover have "\<not> is_affinity_expired demo_entry (now_of (demo_env hs))"
    by (simp add: is_affinity_expired_def demo_entry_def new_binding_def now_of_def demo_env_def clock_def demo_pool_def affinity_idle_ttl_ms_def)
  ultimately show ?thesis by (simp add: is_bound_def)
qed

lemma demo_serves: "is_reusable (demo_env empty_store) (rq_options demo_request) (rq_scope demo_request) demo_entry"
  by code_simp

lemma demo_answer: "fst (resolve_account (demo_env empty_store) demo_request demo_state) = Selected ''a'' (Reused, HealthyReason) None"
  by code_simp


lemma demo_fails: "is_transient_only_block (demo_env demo_outage) (rq_options demo_request) (rq_scope demo_request) demo_entry"
  by code_simp

lemma demo_no_hold: "\<not> is_hold_expired demo_entry (now_of (demo_env hs))"
  by (simp add: is_hold_expired_def demo_entry_def new_binding_def)

lemma demo_trial: "case fst (resolve_account (demo_env demo_outage) demo_request demo_state) of
    Selected c d g \<Rightarrow> c = ''a'' \<and> d = (HeldMove, transient_reason) \<and> g \<noteq> None | _ \<Rightarrow> False"
  by code_simp

theorem transient_failure_keeps_conversation_witness:
  "case resolve_account (demo_env demo_outage) demo_request demo_state of (x, s') \<Rightarrow>
     (case bindings (rs_affinity s') ''t'' demo_scope of None \<Rightarrow> False | Some b \<Rightarrow> af_account b = ''a'' \<and> af_hold_since b = Some 1000000)
     \<and> fst (shared_permit 1000000 (shared_limiter quiet_recovery)) \<and> answered_account x = Some ''a''"
proof -
  have ok: "recovery_ok (rs_recovery demo_state)" by (simp add: recovery_ok_def demo_state_def quiet_recovery_def)
  have sc: "own_scope demo_request = demo_scope" by (simp add: own_scope_def demo_scope_def demo_request_def base_scope_def)
  have now: "now_of (demo_env demo_outage) = 1000000" "se_now (re_select (demo_env demo_outage)) = 1000000"
    by (simp_all add: now_of_def demo_env_def clock_def demo_pool_def)
  have a: "af_account demo_entry = ''a''" "rs_recovery demo_state = quiet_recovery" "af_hold_since demo_entry = None"
    by (simp_all add: demo_entry_def new_binding_def demo_state_def)
  obtain x s' where r: "resolve_account (demo_env demo_outage) demo_request demo_state = (x, s')" by (metis surj_pair)
  have "bindings (rs_affinity s') ''t'' demo_scope \<in> range (\<lambda>d. Some ((held 1000000 demo_entry)\<lparr>af_detour := d\<rparr>))"
    using transient_failure_keeps_conversation [OF demo_is_bound demo_no_hold demo_fails ok] unfolding r sc now by auto
  moreover have "fst (shared_permit 1000000 (shared_limiter quiet_recovery)) \<and> answered_account x = Some ''a''"
    using transient_failure_keeps_conversation [OF demo_is_bound demo_no_hold demo_fails ok] demo_trial unfolding r now a
    by (auto simp: answered_account_def split: resolution.splits)
  ultimately show ?thesis using a unfolding r by auto
qed

theorem preview_agrees_for_bound_witness:
  "preview_account (demo_env demo_outage) demo_request demo_state = Some ''a''"
proof -
  have pin: "with_active (unpinned (demo_env demo_outage) demo_request) demo_state = demo_state"
    by (simp add: with_active_def unpinned_def release_drained_pin_def demo_state_def fresh_active_def)
  have own: "thread_affinity ''t'' (rq_scope demo_request) (rs_affinity demo_state) = Some demo_entry" by code_simp
  have "preview_account (demo_env demo_outage) demo_request (with_active (unpinned (demo_env demo_outage) demo_request) demo_state)
      = answered_account (fst (resolve_account (demo_env demo_outage) demo_request demo_state))"
    by (rule preview_agrees_for_bound [OF demo_is_bound own]) (simp add: demo_no_hold demo_fails)
  then show ?thesis using demo_trial unfolding pin by (auto simp: answered_account_def split: resolution.splits)
qed


section \<open>Where the comments promise more\<close>

text \<open>
  A request whose roster leaves out the failing account of its conversation spends the binding within the
  hold: the first failure of the account counts as evidence against the shared binding, it is released, and
  the conversation is bound to the account of the request. Without the roster the binding stays.
\<close>

definition demo_stumble :: health_store where
  "demo_stumble = empty_store\<lparr>hs_accounts := [(''a'', healthy\<lparr>hl_failures := 1, hl_soft_until := Some 1060000\<rparr>)]\<rparr>"

definition demo_roster_request :: request where
  "demo_roster_request = demo_request\<lparr>rq_options := no_options\<lparr>so_model_eligible := Some [''b'']\<rparr>, rq_model := Some ''m''\<rparr>"

definition bound_account :: "resolve_env \<Rightarrow> request \<Rightarrow> resolve_state \<Rightarrow> string option" where
  "bound_account r q s = map_option af_account (bindings (rs_affinity (snd (resolve_account r q s))) ''t'' demo_scope)"

lemma roster_spends_held_binding:
  "bound_account (demo_env demo_stumble) demo_request demo_state = Some ''a''
   \<and> bound_account (demo_env demo_stumble) demo_roster_request demo_state = Some ''b''
   \<and> fst (resolve_account (demo_env demo_stumble) demo_roster_request demo_state) = Selected ''b'' (Rebound, Blocked TransientBlock) None"
  by code_simp

text \<open>
  A drained pin that is still stored: the preview keeps the pinned account among the candidates, although the
  roster of the model denies it, and names it; the resolver lets the pin go first and answers the other.
\<close>

definition demo_pinned_env :: resolve_env where
  "demo_pinned_env = (demo_env demo_stumble)\<lparr>re_select := (demo_pool JNull)\<lparr>se_health := demo_stumble,
     se_accounts := map (\<lambda>i. \<lparr>pa_id = i, pa_main = False, pa_plan = Some ''plus''\<rparr>) [''a'', ''p'', ''b''],
     se_quota := (\<lambda>i. if i = ''a'' then Some (demo_usage 10) else if i = ''p'' then Some (demo_usage 90)
       else if i = ''b'' then Some (demo_usage 95) else None),
     se_records := map (\<lambda>i. (i, \<lparr>ar_credential = True, ar_deleted = False, ar_generation = 0, ar_replaced_at = None\<rparr>)) [''a'', ''p'', ''b'']\<rparr>\<rparr>"

definition demo_denied_request :: request where
  "demo_denied_request = demo_request\<lparr>rq_options := no_options\<lparr>so_denied := Some [''p'']\<rparr>\<rparr>"

definition demo_pinned_state :: resolve_state where
  "demo_pinned_state = demo_state\<lparr>rs_active := fresh_active\<lparr>as_saved := Some ''p'', as_pinned := Some ''p''\<rparr>\<rparr>"

lemma drained_pin_splits_preview:
  "pin_drain_reason (re_select demo_pinned_env) no_options ''p'' = Some PinOverThreshold
   \<and> preview_account demo_pinned_env demo_denied_request demo_pinned_state = Some ''p''
   \<and> answered_account (fst (resolve_account demo_pinned_env demo_denied_request demo_pinned_state)) = Some ''b''"
  by code_simp

end
