(* ===== verification/Codex_Operator_Properties.thy ===== *)
theory Codex_Operator_Properties
  imports Codex_Resolve_Properties
begin

text \<open>
  The account the operator selected under a rotating strategy: which requests leave it the active one, and
  the moves of bound conversations and of the quota strategy that do not.
\<close>

section \<open>Stages that leave the shared choice\<close>

lemma with_affinity_active [simp]: "rs_active (with_affinity f s) = rs_active s"
  by (simp add: with_affinity_def)

lemma answer_active [simp]: "rs_active (snd (answer q release a s)) = rs_active s"
  by (simp add: answer_def affinity_after_release_def)

lemma no_answer_active [simp]: "rs_active (snd (no_answer q release s)) = rs_active s"
  by (simp add: no_answer_def split: option.split)

lemma bind_request_active [simp]: "rs_active (bind_request r q keep a s) = rs_active s"
  by (simp add: bind_request_def split: option.split)

lemma finish_active_active [simp]: "rs_active (snd (finish_active r q keep release a s)) = rs_active s"
  by (simp add: finish_active_def Let_def)

lemma note_detour_active [simp]: "rs_active (note_detour t sc d s) = rs_active s"
  by (simp add: note_detour_def)

lemma transient_hold_active [simp]: "rs_active (snd (resolve_transient_hold r t sc a detour s)) = rs_active s"
  by (auto simp: resolve_transient_hold_def Let_def split: prod.split held_dispatch.split option.split)

lemma lineage_active [simp]: "rs_active (snd (resolve_lineage r q release s)) = rs_active s"
proof (cases "named (rq_thread q) = None \<or> rq_lineage q = None")
  case True
  then show ?thesis by (auto simp: resolve_lineage_def split: option.split)
next
  case False
  then obtain t li where t: "named (rq_thread q) = Some t" "rq_lineage q = Some li" by auto
  show ?thesis
  proof (cases "pick_lineage_serving r (rq_options q) (rq_scope q) (rq_model q) li (rs_affinity s)")
    case None
    then show ?thesis using t by (simp add: resolve_lineage_def)
  next
    case (Some x)
    then show ?thesis using t by (cases x) (simp add: resolve_lineage_def Let_def case_prod_unfold)
  qed
qed

lemma idle_active [simp]: "rs_active (snd (pick_idle_window_account r so scope t c s)) = rs_active s"
  by (simp add: pick_idle_window_account_def Let_def split: option.split)

lemma detour_choice: "shared_choice (snd (transient_detour_account r so scope a s)) = shared_choice s"
  by (simp add: transient_detour_account_def split: option.split)

lemma hold_choice: "shared_choice (rs_active (snd (hold_binding r so scope t sc a s))) = shared_choice (rs_active s)"
  using detour_choice [of r so scope a "rs_active s"] by (simp add: hold_binding_def case_prod_unfold)


section \<open>The active account when no account passes\<close>

lemma eligible_excluding: "eligible_accounts e so scope None False pin = [] \<Longrightarrow> eligible_accounts e so scope (Some x) False pin = []"
  using eligible_empty [of e so scope None pin] eligible_empty [of e so scope "Some x" pin] by (auto simp: admitted_def)

lemma round_robin_empty: "fst (pick_round_robin_account pool [] sticky ro) = None"
  by (simp add: pick_from_none)

lemma alternate_empty:
  "eligible_accounts e so scope None False (as_pinned s) = [] \<Longrightarrow> fst (pick_alternate e so scope x s) = None"
  using alternate_picks [of e so scope x s] eligible_excluding [of e so scope "as_pinned s" x]
  by (cases "fst (pick_alternate e so scope x s)") (auto simp: picks_from_def)

lemma no_candidate_keeps:
  assumes "eligible_accounts e so scope None False (as_pinned s) = []"
  shows "pick_priority_preemption e so scope x s = None" "apply_quota_auto_switch e so scope c x s = (x, s)"
    "shared_choice (snd (apply_failure_failover e so scope c x s)) = shared_choice s"
proof -
  show "pick_priority_preemption e so scope x s = None" using assms by (simp add: pick_priority_preemption_def)
  show "apply_quota_auto_switch e so scope c x s = (x, s)"
    using eligible_excluding [OF assms] by (simp add: apply_quota_auto_switch_def pick_lower_usage_account_def Let_def)
  show "shared_choice (snd (apply_failure_failover e so scope c x s)) = shared_choice s"
    using alternate_empty [OF assms, of x] alternate_shared [of e so scope x s]
    by (cases "pick_alternate e so scope x s") (simp add: apply_failure_failover_def)
qed

lemma correct_active_choice:
  assumes "is_independent (rq_scope q) \<or> eligible_accounts (re_select r) (rq_options q) (rq_scope q) None False (as_pinned (rs_active s)) = []"
  shows "shared_choice (rs_active (snd (correct_active r q ps a s))) = shared_choice (rs_active s)"
proof (cases "is_independent (rq_scope q)")
  case True
  let ?sw = "apply_quota_auto_switch (re_select r) (rq_options q) (rq_scope q) (\<not> ps)"
  let ?fo = "apply_failure_failover (re_select r) (rq_options q) (rq_scope q) (\<not> ps)"
  have "shared_choice (snd (?sw x ac)) = shared_choice ac" "shared_choice (snd (?fo x ac)) = shared_choice ac" for x ac
    using independent_scope_keeps_choice [OF True] by blast+
  then have "shared_choice (snd (?fo (fst (?sw x ac)) (snd (?sw x ac)))) = shared_choice ac" for x ac by simp
  then show ?thesis using True by (simp add: correct_active_def Let_def case_prod_unfold split: option.split)
next
  case False
  then have e: "eligible_accounts (re_select r) (rq_options q) (rq_scope q) None False (as_pinned (rs_active s)) = []" using assms by simp
  show ?thesis using no_candidate_keeps [OF e]
    by (simp add: correct_active_def Let_def case_prod_unfold named_def)
qed

lemma save_shared_independent: "is_independent (rq_scope q) \<Longrightarrow> save_shared q m a s = s"
  by (simp add: save_shared_def)

lemma lowest_empty:
  "eligible_accounts e so scope None False (as_pinned s) = [] \<Longrightarrow> pick_lowest_usage_account e so scope x s = None"
  using eligible_excluding by (cases x) (auto simp: pick_lowest_usage_account_def pick_lowest_usage_among_def)

lemma from_active_choice:
  assumes "is_independent (rq_scope q) \<or> eligible_accounts (re_select r) (rq_options q) (rq_scope q) None False (as_pinned (rs_active s)) = []"
  shows "shared_choice (rs_active (snd (from_active r q ps keep release a s))) = shared_choice (rs_active s)"
proof -
  have finish: "shared_choice (rs_active (snd (case correct_active r q ps x s of (b, s2) \<Rightarrow> finish_active r q keep release b s2)))
      = shared_choice (rs_active s)" for x
    using correct_active_choice [OF assms, of ps x] by (simp add: case_prod_unfold)
  have moved: "named (pick_lowest_usage_account (re_select r) (rq_options q) (rq_scope q) (Some a) (rs_active s)) \<noteq> None
      \<Longrightarrow> save_shared q m f s = s" for m f
    using assms save_shared_independent lowest_empty [of "re_select r" "rq_options q" "rq_scope q" "rs_active s" "Some a"]
    by (auto simp: named_def)
  show ?thesis
  proof (cases "is_selectable (re_select r) (rq_options q) (rq_scope q) a")
    case True
    then show ?thesis using finish by (simp add: from_active_def Let_def)
  next
    case False
    then show ?thesis using finish moved by (simp add: from_active_def Let_def split: option.split)
  qed
qed

lemma resolve_active_choice:
  assumes "is_independent (rq_scope q) \<or> eligible_accounts (re_select r) (rq_options q) (rq_scope q) None False (as_pinned (rs_active s)) = []"
  shows "shared_choice (rs_active (snd (resolve_active r q ps keep release s))) = shared_choice (rs_active s)"
proof -
  have "named (pick_lowest_usage_account (re_select r) (rq_options q) (rq_scope q) None (rs_active s)) \<noteq> None
      \<Longrightarrow> save_shared q m f s = s" for m f
    using assms save_shared_independent lowest_empty [of "re_select r" "rq_options q" "rq_scope q" "rs_active s" None] by (auto simp: named_def)
  then show ?thesis using from_active_choice [OF assms]
    by (simp add: resolve_active_def Let_def split: option.split)
qed


section \<open>Requests under a rotating strategy\<close>

definition rotating :: "resolve_env \<Rightarrow> bool" where
  "rotating r \<longleftrightarrow> normalize_codex_account_pool_strategy (se_strategy (re_select r)) \<noteq> QuotaStrategy"

lemma rotating_scope: "rotating r \<Longrightarrow> \<not> is_independent scope \<Longrightarrow> strategy_for_scope (re_select r) scope \<noteq> QuotaStrategy"
  by (simp add: rotating_def strategy_for_scope_def Let_def)

lemma plain_options: "\<not> model_scoped q \<Longrightarrow> options_for_model_detour e (rq_options q) scope = rq_options q"
  by (simp add: model_scoped_def options_for_model_detour_def)

lemma strategy_active:
  assumes "\<not> model_scoped q"
  shows "rs_active (snd (resolve_strategy r q ps keep release s)) = snd (snd (pick_unbound_strategy (re_select r) (rq_options q) (rq_scope q)
      (rq_thread q) True True (\<not> keep) (rs_active s)))"
  using assms by (simp add: resolve_strategy_def Let_def plain_options case_prod_unfold split: option.split)

lemma strategy_none:
  assumes m: "\<not> model_scoped q" and ro: "rotating r" and n: "fst (resolve_strategy r q ps keep release s) = None"
    and ind: "\<not> is_independent (rq_scope q)"
  shows "eligible_accounts (re_select r) (rq_options q) (rq_scope q) None False (as_pinned (rs_active (snd (resolve_strategy r q ps keep release s)))) = []"
proof -
  let ?pick = "pick_unbound_strategy (re_select r) (rq_options q) (rq_scope q) (rq_thread q) True True (\<not> keep) (rs_active s)"
  have "named (fst ?pick) = None" using m n by (simp add: resolve_strategy_def Let_def plain_options case_prod_unfold split: option.splits)
  moreover have "c \<noteq> []" if "fst ?pick = Some c" for c
    using unbound_admitted [where e = "re_select r" and so = "rq_options q" and scope = "rq_scope q" and t = "rq_thread q" and c = True
        and cs = True and ca = "\<not> keep" and s = "rs_active s"] that admitted_named by simp
  ultimately have none: "fst ?pick = None" by (cases "fst ?pick") (auto simp: named_ne)
  have "eligible_accounts (re_select r) (rq_options q) (rq_scope q) None False (as_pinned (rs_active s)) = []"
    using unbound_picks [OF rotating_scope [OF ro ind], where so = "rq_options q" and s = "rs_active s" and t = "rq_thread q"
        and c = True and cs = True and ca = "\<not> keep"] none
    by (simp add: picks_from_def)
  moreover have "as_pinned (snd (snd ?pick)) = as_pinned (rs_active s)"
    by (rule unbound_state [of "re_select r" "rq_options q" "rq_scope q" "rq_thread q" True True "\<not> keep" "rs_active s"]) (use none in simp_all)
  ultimately show ?thesis using strategy_active [OF m] by simp
qed

lemma open_keeps_operator:
  assumes m: "\<not> model_scoped q" and ro: "rotating r" and op: "operator_choice a (rs_active s)"
  shows "operator_choice a (rs_active (snd (resolve_open r q ps entry had keep released s)))"
proof -
  define release where "release = (case released of None \<Rightarrow> peek_pending (rq_thread q) (rs_affinity s) | Some x \<Rightarrow> Some x)"
  define l where "l = (if entry then (None, s) else resolve_lineage r q release s)"
  define i where "i = (if entry \<or> release \<noteq> None \<or> had then (None, snd l)
    else pick_idle_window_account r (rq_options q) (rq_scope q) (rq_thread q) True (snd l))"
  define x where "x = resolve_strategy r q ps keep release (snd i)"
  have l: "rs_active (snd l) = rs_active s" by (simp add: l_def)
  have i: "rs_active (snd i) = rs_active s" using l by (simp add: i_def)
  have x: "operator_choice a (rs_active (snd x))"
    unfolding x_def strategy_active [OF m] i by (rule pick_keeps_operator [OF op])
  have last: "operator_choice a (rs_active (snd (resolve_active r q ps keep release (snd x))))" if "fst x = None"
  proof -
    have "is_independent (rq_scope q)
        \<or> eligible_accounts (re_select r) (rq_options q) (rq_scope q) None False (as_pinned (rs_active (snd x))) = []"
      using strategy_none [OF m ro, of ps keep release "snd i"] that unfolding x_def by blast
    from resolve_active_choice [OF this] show ?thesis using x operator_choice_shared by blast
  qed
  obtain y s1 where ly: "l = (y, s1)" by fastforce
  obtain idle s2 where id: "i = (idle, s2)" by fastforce
  have i1: "i = (if entry \<or> release \<noteq> None \<or> had then (None, s1)
    else pick_idle_window_account r (rq_options q) (rq_scope q) (rq_thread q) True s1)"
    by (simp add: i_def ly)
  have x2: "resolve_strategy r q ps keep release s2 = x" by (simp add: x_def id)
  have res: "resolve_open r q ps entry had keep released s = (case y of Some z \<Rightarrow> (z, s1) | None \<Rightarrow> (case named idle of
       Some z \<Rightarrow> answer q release z s2
     | None \<Rightarrow> (case x of (Some z, s3) \<Rightarrow> (z, s3) | (None, s3) \<Rightarrow> resolve_active r q ps keep release s3)))"
    unfolding resolve_open_def Let_def release_def [symmetric] l_def [symmetric] ly prod.case i1 [symmetric] id x2
    by (cases y) simp_all
  have "operator_choice a (rs_active s1)" "operator_choice a (rs_active s2)" using l i op by (simp_all add: ly id)
  then show ?thesis unfolding res using x last by (cases x) (simp split: option.split)
qed

text \<open>An answer that moves a bound conversation: on quota, or because the hold of its account ran out.\<close>

definition moves_conversation :: "resolution \<Rightarrow> bool" where
  "moves_conversation x \<longleftrightarrow> (case x of
     Selected _ d _ \<Rightarrow> d = (Rebound, QuotaHeadroom) \<or> d = (Rebound, TransientHoldExpired) | _ \<Rightarrow> False)"

lemma binding_keeps_operator:
  assumes m: "\<not> model_scoped q" and op: "operator_choice a (rs_active s)"
    and stay: "case fst (resolve_binding r q t b s) of Answered x \<Rightarrow> \<not> moves_conversation x | Open _ _ \<Rightarrow> True"
  shows "operator_choice a (rs_active (snd (resolve_binding r q t b s)))"
proof -
  have h: "operator_choice a (rs_active (snd (hold_binding r (rq_options q) (rq_scope q) t sc b s)))" for sc
    using op operator_choice_shared [OF hold_choice [of r "rq_options q" "rq_scope q" t sc b s]] by blast
  show ?thesis
    using stay op h unfolding resolve_binding_def Let_def
    by (auto simp: m moves_conversation_def case_prod_unfold split: if_splits option.splits)
qed

lemma request_keeps_operator:
  assumes m: "\<not> model_scoped q" and ro: "rotating r" and op: "operator_choice a (rs_active s)"
    and stay: "\<not> moves_conversation (fst (resolve_account r q s))"
  shows "operator_choice a (rs_active (snd (resolve_account r q s)))"
proof -
  have pin: "operator_choice a (rs_active (with_active (unpinned r q) s))"
    using op by (auto simp: operator_choice_def effective_active_def unpinned_def release_drained_pin_def split: option.split)
  show ?thesis
  proof (cases "named (rq_thread q)")
    case None
    then show ?thesis using open_keeps_operator [OF m ro pin] unfolding resolve_account_def Let_def released_pin by simp
  next
    case (Some t)
    have p: "operator_choice a (rs_active (ready r q t s))" using pin by simp
    have adopt: "with_affinity (adopt_legacy_lineage (records_of r) t (case rq_lineage q of None \<Rightarrow> None | Some li \<Rightarrow> ln_legacy li)
        (now_of r) (rq_scope q) (rq_model q)) (with_active (unpinned r q) s) = ready r q t s"
      by (simp add: ready_def adopted_def)
    let ?ps = "preserves_shared r q (rs_active (with_active (unpinned r q) s))"
    let ?had = "model_detour_affinity t (rq_model q) (rq_scope q) (rs_affinity (ready r q t s)) \<noteq> None"
    have res: "resolve_account r q s = (case thread_affinity t (rq_scope q) (rs_affinity (ready r q t s)) of
        None \<Rightarrow> resolve_open r q ?ps False ?had False None (ready r q t s)
      | Some b \<Rightarrow> (case resolve_binding r q t b (ready r q t s) of
           (Answered x, s3) \<Rightarrow> (x, s3)
         | (Open release keep, s3) \<Rightarrow> resolve_open r q ?ps True ?had keep release s3))"
      unfolding resolve_account_def Let_def released_pin Some option.case adopt if_not_P [OF m] prod.case ..
    show ?thesis
    proof (cases "thread_affinity t (rq_scope q) (rs_affinity (ready r q t s))")
      case None
      then show ?thesis using open_keeps_operator [OF m ro p] by (simp add: res)
    next
      case (Some b)
      obtain st s3 where st: "resolve_binding r q t b (ready r q t s) = (st, s3)" by fastforce
      have "case st of Answered x \<Rightarrow> \<not> moves_conversation x | Open _ _ \<Rightarrow> True"
        using stay unfolding res Some option.case st prod.case by (cases st) simp_all
      then have "operator_choice a (rs_active (snd (resolve_binding r q t b (ready r q t s))))"
        by (intro binding_keeps_operator [OF m p]) (simp add: st)
      then have "operator_choice a (rs_active s3)" by (simp add: st)
      then show ?thesis using open_keeps_operator [OF m ro] unfolding res Some option.case st prod.case by (cases st) simp_all
    qed
  qed
qed

text \<open>The requests of a while, each at its instant, and their answers.\<close>

fun serve_requests :: "(resolve_env \<times> request) list \<Rightarrow> resolve_state \<Rightarrow> resolution list \<times> resolve_state" where
  "serve_requests [] s = ([], s)"
| "serve_requests ((r, q) # es) s =
     (case resolve_account r q s of (x, s1) \<Rightarrow> (case serve_requests es s1 of (xs, s2) \<Rightarrow> (x # xs, s2)))"

lemma serve_keeps_operator:
  assumes "list_all (\<lambda>(r, q). rotating r \<and> \<not> model_scoped q) es" and "operator_choice a (rs_active s)"
    and "list_all (\<lambda>x. \<not> moves_conversation x) (fst (serve_requests es s))"
  shows "operator_choice a (rs_active (snd (serve_requests es s)))"
  using assms
proof (induction es s rule: serve_requests.induct)
  case (2 r q es s)
  have "operator_choice a (rs_active (snd (resolve_account r q s)))"
    using 2(2-4) by (intro request_keeps_operator) (simp_all add: case_prod_unfold)
  then show ?case
    using 2(1) [OF prod.collapse] 2(2,4) by (simp add: case_prod_unfold)
qed simp

text \<open>C34. Under the rotating strategies an account the operator selected, and saved, stays the saved and the active
one through any sequence of requests without a roster for their model, of new and of bound conversations and
whatever their scope and options, until an answer moves a bound conversation away on quota or after its hold.
The code means the quota strategy and the detours for a model to move the choice: see
\<open>quota_strategy_moves_selection\<close>.\<close>

theorem operator_selection_stays:
  assumes "as_saved (rs_active s) = Some a" and "list_all (\<lambda>(r, q). rotating r \<and> \<not> model_scoped q) es"
    and "serve_requests es (with_active (\<lambda>ac. fst (reset_for_manual_selection a ac hs)) s) = (xs, s')"
    and "list_all (\<lambda>x. \<not> moves_conversation x) xs"
  shows "as_saved (rs_active s') = Some a \<and> effective_active (rs_active s') = Some a"
proof -
  have "operator_choice a (rs_active (with_active (\<lambda>ac. fst (reset_for_manual_selection a ac hs)) s))"
    using assms(1) by (simp add: operator_choice_def reset_for_manual_selection_def with_rotations_def effective_active_def)
  from serve_keeps_operator [OF assms(2) this] show ?thesis using assms(3,4) by (simp add: operator_choice_def)
qed

text \<open>
  One request of a new conversation under the quota strategy: the selected account is over its threshold, and
  the cooler one is saved in its place.
\<close>

lemma quota_strategy_moves_selection:
  "let s = demo_state\<lparr>rs_active := fst (reset_for_manual_selection ''a'' (fresh_active\<lparr>as_saved := Some ''a''\<rparr>) empty_store)\<rparr>;
       s' = snd (resolve_account (demo_env empty_store) (demo_request\<lparr>rq_thread := None\<rparr>) s)
   in effective_active (rs_active s) = Some ''a'' \<and> effective_active (rs_active s') = Some ''b'' \<and> as_saved (rs_active s') = Some ''b''"
  by code_simp


section \<open>Witness\<close>

text \<open>Three new conversations rotate over both accounts while the selected one stays the active one.\<close>

definition demo_turns :: "(resolve_env \<times> request) list" where
  "demo_turns = map (\<lambda>t. ((demo_env empty_store)\<lparr>re_select := demo_pool (JStr ''round-robin'')\<rparr>, demo_request\<lparr>rq_thread := Some t\<rparr>))
     [''t1'', ''t2'', ''t3'']"

definition demo_selected :: resolve_state where
  "demo_selected = demo_state\<lparr>rs_active := fresh_active\<lparr>as_saved := Some ''b''\<rparr>\<rparr>"

lemma demo_turns_plain: "list_all (\<lambda>(r, q). rotating r \<and> \<not> model_scoped q) demo_turns"
  by code_simp

lemma demo_turns_answers:
  "fst (serve_requests demo_turns (with_active (\<lambda>ac. fst (reset_for_manual_selection ''b'' ac empty_store)) demo_selected))
   = map (\<lambda>a. Selected a (NewBind, HealthyReason) None) [''b'', ''a'', ''b'']"
  by code_simp

theorem operator_selection_stays_witness:
  "effective_active (rs_active (snd (serve_requests demo_turns (with_active (\<lambda>ac. fst (reset_for_manual_selection ''b'' ac empty_store)) demo_selected)))) = Some ''b''"
proof -
  have saved: "as_saved (rs_active demo_selected) = Some ''b''" by (simp add: demo_selected_def)
  have stay: "list_all (\<lambda>x. \<not> moves_conversation x)
      (fst (serve_requests demo_turns (with_active (\<lambda>ac. fst (reset_for_manual_selection ''b'' ac empty_store)) demo_selected)))"
    unfolding demo_turns_answers by (simp add: moves_conversation_def)
  show ?thesis
    using operator_selection_stays [OF saved demo_turns_plain prod.collapse [symmetric] stay] by simp
qed

end
