(* ===== verification/Codex_Settle.thy ===== *)
theory Codex_Settle
  imports Codex_Binding Codex_Affinity_Properties
begin

text \<open>
  An outcome and the bindings: \<open>recordCodexUpstreamOutcome\<close> asks for its changes outside the health store as
  effects (\<open>Codex_Outcome\<close>); here those on the map of bindings and on the table of trials are carried out, and
  the question about holds is answered from the map.
\<close>

section \<open>Carrying out the effects\<close>

definition apply_outcome_effect ::
    "(string, account_record) jsmap \<Rightarrow> string \<Rightarrow> (probe_lease \<times> nat) option \<Rightarrow> millis \<Rightarrow> effect
      \<Rightarrow> affinity_state \<times> probe_table \<Rightarrow> affinity_state \<times> probe_table" where
  "apply_outcome_effect records account grant now x s = (case s of (af, tb) \<Rightarrow> (case x of
     SettleTransientProbe cls \<Rightarrow> (af, settle_transient_probe_for_outcome records account grant cls now tb)
   | ClearThreads \<Rightarrow> (clear_account_affinities account QuotaRefusalReason af, tb)
   | DropThreadPin t \<Rightarrow> (delete_affinities_for_account t account af, tb)
   | _ \<Rightarrow> (af, tb)))"

definition asking_holds :: "string \<Rightarrow> rat \<Rightarrow> affinity_state \<Rightarrow> routing_env \<Rightarrow> routing_env" where
  "asking_holds account now af env = env\<lparr>en_hold_spent := (\<lambda>t. is_hold_spent_for_account t account now af)\<rparr>"

definition record_outcome ::
    "routing_env \<Rightarrow> string \<Rightarrow> upstream_outcome \<Rightarrow> outcome_meta \<Rightarrow> (probe_lease \<times> nat) option \<Rightarrow> millis
      \<Rightarrow> health_store \<times> affinity_state \<times> probe_table \<Rightarrow> health_store \<times> affinity_state \<times> probe_table" where
  "record_outcome env account out om grant now s = (case s of (hs, af, tb) \<Rightarrow>
     (case record_upstream_outcome (asking_holds account (of_int now) af env) (Some account) out (om\<lparr>om_now := of_int now\<rparr>) hs of
        (effects, hs1) \<Rightarrow> (hs1, fold (apply_outcome_effect (en_records env) account grant now) effects (af, tb))))"


section \<open>Which effects an outcome has\<close>

definition bystander :: "effect \<Rightarrow> bool" where
  "bystander x \<longleftrightarrow> (case x of ClearThreads \<Rightarrow> False | DropThreadPin _ \<Rightarrow> False | SettleTransientProbe _ \<Rightarrow> False | _ \<Rightarrow> True)"

lemma success_effects: "list_all bystander (fst (record_account_success env account om hs))"
  by (simp add: record_account_success_def Let_def bystander_def)

lemma credential_effects: "x \<in> set (fst (record_credential env account status writer om hs)) \<Longrightarrow> bystander x \<or> x = ClearThreads"
  by (auto simp: record_credential_def bystander_def split: if_splits)

lemma rotate_effects: "x \<in> set (rotate_away env account scope om) \<Longrightarrow> bystander x"
  by (auto simp: rotate_away_def bystander_def Let_def split: if_splits option.splits)

lemma quota_effects:
  "x \<in> set (fst (record_quota env account status om hs)) \<Longrightarrow> bystander x \<or> x = ClearThreads \<and> \<not> om_fixed om"
  by (cases "if snd (cooldown_of env om) = ResetDerived then quota_scope_for_model (om_model om) else None")
    (auto simp: record_quota_def Let_def dest: rotate_effects split: if_splits)

lemma transient_effects:
  "x \<in> set (fst (record_transient env account status om hs)) \<Longrightarrow>
     bystander x \<or> (\<exists>t. x = DropThreadPin t \<and> om_thread om = Some t \<and> en_hold_spent env t)"
  by (auto simp: record_transient_def Let_def bystander_def split: if_splits option.splits)

definition host_effects :: "upstream_outcome \<Rightarrow> outcome_meta \<Rightarrow> effect list" where
  "host_effects out om = (if out = ConnectNeutral then (case om_host om of None \<Rightarrow> [] | Some k \<Rightarrow> if k = [] then [] else [HostFailure k]) else [])"

lemma host_bystanders: "list_all bystander (host_effects out om)"
  by (simp add: host_effects_def bystander_def split: option.split)

definition class_effects :: "routing_env \<Rightarrow> string \<Rightarrow> upstream_outcome \<Rightarrow> outcome_meta \<Rightarrow> health_store \<Rightarrow> effect list" where
  "class_effects env account out om hs = fst (case classify_outcome out (om_denial om) of
      Success \<Rightarrow> record_account_success env account om hs
    | Caller \<Rightarrow> ([], record_concluded account om hs)
    | Neutral \<Rightarrow> ([], record_concluded account om hs)
    | Workspace \<Rightarrow> ([], record_workspace account (status_of out) (om_now om) hs)
    | Credential \<Rightarrow> record_credential env account (status_of out) (nullish (om_writer om) (en_generation env)) om hs
    | QuotaRefusal \<Rightarrow> record_quota env account (status_of out) om hs
    | _ \<Rightarrow> record_transient env account (status_of out) om hs)"

text \<open>An effect that this outcome may ask for.\<close>

definition asked_by :: "routing_env \<Rightarrow> outcome_class \<Rightarrow> outcome_meta \<Rightarrow> effect \<Rightarrow> bool" where
  "asked_by env cls om x \<longleftrightarrow> bystander x \<or> x = ClearThreads \<and> (cls = Credential \<or> cls = QuotaRefusal \<and> \<not> om_fixed om)
     \<or> (\<exists>t. x = DropThreadPin t \<and> om_thread om = Some t \<and> en_hold_spent env t \<and> cls \<in> {Transient, Unknown})"

lemma class_effects_asked:
  assumes "x \<in> set (class_effects env account out om hs)"
  shows "asked_by env (classify_outcome out (om_denial om)) om x"
proof (cases "classify_outcome out (om_denial om)")
  case Success
  then have "bystander x" using assms success_effects [of env account om hs] by (simp add: class_effects_def list_all_iff)
  then show ?thesis by (simp add: asked_by_def)
next
  case Credential
  then show ?thesis using assms credential_effects [of x env account] by (auto simp: class_effects_def asked_by_def)
next
  case QuotaRefusal
  then show ?thesis using assms quota_effects [of x env account] by (auto simp: class_effects_def asked_by_def)
next
  case Transient
  then show ?thesis using assms transient_effects [of x env account] by (auto simp: class_effects_def asked_by_def)
next
  case Unknown
  then show ?thesis using assms transient_effects [of x env account] by (auto simp: class_effects_def asked_by_def)
qed (use assms in \<open>simp_all add: class_effects_def\<close>)

lemma outcome_effects:
  assumes "account \<noteq> []"
  obtains after where "fst (record_upstream_outcome env (Some account) out om hs)
      = host_effects out om @ SettleTransientProbe (classify_outcome out (om_denial om)) # after"
    and "\<forall>x \<in> set after. asked_by env (classify_outcome out (om_denial om)) om x"
proof -
  let ?c = "classify_outcome out (om_denial om)"
  let ?stop = "\<not> is_account_admissible account (nullish (om_writer om) (en_generation env)) hs
         \<or> ?c = QuotaRefusal \<and> is_retired_spark (om_model om) \<and> snd (cooldown_of env om) = ResetDerived"
  let ?tail = "class_effects env account out om (drop_spent_credential_failure (en_records env) account hs)"
  have shape: "fst (record_upstream_outcome env (Some account) out om hs) =
      (if ?stop then host_effects out om @ [SettleTransientProbe ?c] else host_effects out om @ SettleTransientProbe ?c # ?tail)"
    unfolding record_upstream_outcome_def Let_def host_effects_def [symmetric] option.case class_effects_def using assms by simp blast
  show ?thesis
  proof (cases ?stop)
    case True
    then have "fst (record_upstream_outcome env (Some account) out om hs) = host_effects out om @ SettleTransientProbe ?c # []"
      unfolding shape by (rule if_P)
    then show ?thesis by (rule that) simp
  next
    case False
    then have "fst (record_upstream_outcome env (Some account) out om hs) = host_effects out om @ SettleTransientProbe ?c # ?tail"
      unfolding shape by (rule if_not_P)
    then show ?thesis by (rule that) (simp add: class_effects_asked)
  qed
qed


section \<open>What the effects do to the bindings\<close>

lemma lookup_noted: "affinity_for t sc (note_pending x reason s) = affinity_for t sc s"
  by (simp add: note_pending_def affinity_for_def Let_def split: option.split)

lemma lookup_drop_of:
  assumes "affinity_ok s"
  shows "affinity_for t sc (drop_account_of reason account x s)
    = (if t = x then keep_opt (\<lambda>a. af_account a \<noteq> account) (affinity_for t sc s) else affinity_for t sc s)"
proof (cases "map_of (at_map s) x")
  case None
  then show ?thesis by (auto simp: drop_account_of_def affinity_for_def keep_opt_def)
next
  case (Some m)
  then show ?thesis by (simp add: drop_account_of_def Let_def lookup_noted lookup_keep [OF assms])
qed

lemma ok_drop_of: "affinity_ok s \<Longrightarrow> affinity_ok (drop_account_of reason account x s)"
  by (simp add: drop_account_of_def Let_def ok_keep ok_note split: option.split)

lemma lookup_drop_all:
  "affinity_ok s \<Longrightarrow> affinity_for t sc (fold (drop_account_of reason account) ts s)
    = (if t \<in> set ts then keep_opt (\<lambda>a. af_account a \<noteq> account) (affinity_for t sc s) else affinity_for t sc s)"
proof (induction ts arbitrary: s)
  case (Cons x ts)
  then show ?case using ok_drop_of [OF Cons.prems, of reason account x] by (auto simp: lookup_drop_of keep_opt_twice)
qed simp

lemma bindings_cleared:
  assumes "affinity_ok s"
  shows "bindings (clear_account_affinities account reason s) t sc = keep_opt (\<lambda>a. af_account a \<noteq> account) (bindings s t sc)"
proof (cases "t \<in> set (map fst (at_map s))")
  case True
  then show ?thesis by (simp add: clear_account_affinities_def bindings_def lookup_drop_all [OF assms])
next
  case False
  then have "map_of (at_map s) t = None" by (simp add: map_of_eq_None_iff)
  then have none: "affinity_for t sc s = None" by (simp add: affinity_for_def)
  have "affinity_for t sc (clear_account_affinities account reason s) = affinity_for t sc s"
    unfolding clear_account_affinities_def lookup_drop_all [OF assms] using False by (rule if_not_P)
  then show ?thesis using none by (simp add: keep_opt_def bindings_def)
qed

lemma bindings_dropped:
  assumes "affinity_ok s"
  shows "bindings (delete_affinities_for_account x account s) t sc =
    (if t = x \<and> admissible_component x \<and> admissible_component account
     then keep_opt (\<lambda>a. af_account a \<noteq> account) (bindings s t sc) else bindings s t sc)"
  by (simp add: delete_affinities_for_account_def bindings_def lookup_keep [OF assms])

text \<open>Nothing is lost but bindings of the account, and those only by one of the two effects.\<close>

definition loses_only :: "string \<Rightarrow> effect set \<Rightarrow> affinity_state \<Rightarrow> affinity_state \<Rightarrow> bool" where
  "loses_only account S s s' \<longleftrightarrow> affinity_ok s' \<and> (\<forall>t sc. bindings s' t sc = bindings s t sc
     \<or> bindings s' t sc = None \<and> (\<exists>b. bindings s t sc = Some b \<and> af_account b = account) \<and> (ClearThreads \<in> S \<or> DropThreadPin t \<in> S))"

lemma loses_only_trans:
  assumes "loses_only account S s s'" and "loses_only account S s' s''"
  shows "loses_only account S s s''"
  unfolding loses_only_def
proof (intro conjI allI)
  show "affinity_ok s''" using assms(2) by (simp add: loses_only_def)
next
  fix t sc
  show "bindings s'' t sc = bindings s t sc
     \<or> bindings s'' t sc = None \<and> (\<exists>b. bindings s t sc = Some b \<and> af_account b = account) \<and> (ClearThreads \<in> S \<or> DropThreadPin t \<in> S)"
    using assms unfolding loses_only_def by (metis option.distinct(1))
qed

lemma keep_opt_cases: "keep_opt keep x = x \<or> keep_opt keep x = None \<and> (\<exists>a. x = Some a \<and> \<not> keep a)"
  by (simp add: keep_opt_def split: option.split)

lemma effect_loses_only:
  assumes ok: "affinity_ok s" and x: "x \<in> S"
  shows "loses_only account S s (fst (apply_outcome_effect records account grant now x (s, tb)))"
proof (cases x)
  case ClearThreads
  have "affinity_ok (clear_account_affinities account QuotaRefusalReason s)"
    unfolding clear_account_affinities_def by (rule ok_fold [OF ok ok_drop_of])
  then show ?thesis using ClearThreads x keep_opt_cases [of "\<lambda>a. af_account a \<noteq> account"]
    unfolding loses_only_def by (simp add: apply_outcome_effect_def bindings_cleared [OF ok])
next
  case (DropThreadPin t)
  have "affinity_ok (delete_affinities_for_account t account s)" by (simp add: delete_affinities_for_account_def ok ok_keep)
  then show ?thesis using DropThreadPin x keep_opt_cases [of "\<lambda>a. af_account a \<noteq> account"]
    unfolding loses_only_def by (simp add: apply_outcome_effect_def bindings_dropped [OF ok])
qed (simp_all add: apply_outcome_effect_def loses_only_def ok)

lemma effects_lose_only:
  "affinity_ok s \<Longrightarrow> set xs \<subseteq> S \<Longrightarrow> loses_only account S s (fst (fold (apply_outcome_effect records account grant now) xs (s, tb)))"
proof (induction xs arbitrary: s tb)
  case Nil
  then show ?case by (simp add: loses_only_def)
next
  case (Cons x xs)
  obtain s1 tb1 where a: "apply_outcome_effect records account grant now x (s, tb) = (s1, tb1)" by (metis surj_pair)
  have "loses_only account S s s1" using effect_loses_only [OF Cons.prems(1), of x S account records grant now tb] Cons.prems(2) a by simp
  moreover from this have "loses_only account S s1 (fst (fold (apply_outcome_effect records account grant now) xs (s1, tb1)))"
    using Cons.IH [of s1 tb1] Cons.prems(2) by (simp add: loses_only_def)
  ultimately show ?case using loses_only_trans a by simp
qed

text \<open>The trial is settled by exactly one effect.\<close>

lemma trial_untouched:
  assumes "\<forall>x \<in> set xs. \<forall>c. x \<noteq> SettleTransientProbe c"
  shows "snd (fold (apply_outcome_effect records account grant now) xs (s, tb)) = tb"
  using assms
proof (induction xs arbitrary: s)
  case (Cons x xs)
  have "snd (apply_outcome_effect records account grant now x (s, tb)) = tb"
    using Cons.prems by (cases x) (auto simp: apply_outcome_effect_def)
  then show ?case using Cons by (cases "apply_outcome_effect records account grant now x (s, tb)") simp
qed simp

lemma settled_lost:
  assumes "account_id lease = account"
  shows "(if expires_at lease \<le> now then True else lost lease (settle_transient_probe_for_outcome records account (Some (lease, g)) cls now tb))"
  using assms
  by (auto simp: settle_transient_probe_for_outcome_def invalidate_probe_def release_probe_def settle_probe_def lost_def holds_def
      split: option.split)


section \<open>Properties\<close>

lemma spent_hold_expired:
  assumes "is_hold_spent_for_account t account now af" and "bindings af t sc = Some b" and "af_account b = account"
  shows "is_hold_expired b now"
proof -
  obtain m where m: "map_of (at_map af) t = Some m" "map_of m sc = Some b"
    using assms(2) by (auto simp: bindings_def affinity_for_def split: if_splits option.splits)
  have "(sc, b) \<in> set (filter (\<lambda>(_, a). af_account a = account) m)" using map_of_SomeD [OF m(2)] assms(3) by simp
  then show ?thesis using assms(1) m(1) by (auto simp: is_hold_spent_for_account_def Let_def list_all_iff)
qed

text \<open>C40. What an outcome may take from conversations: a success, an error of the caller, a failure on the way to the
host and a denied workspace take no binding; a refused credential, and a refusal of quota outside a fixed
account, take bindings of that account only; a transient failure takes at most the bindings of its own
conversation to that account, and those only when their hold has run out. In every case the trial that the
request was granted is over: its lease is spent, unless its time was up before.\<close>

theorem outcome_takes_only_its_bindings:
  assumes run: "affinity_run af" and named: "account \<noteq> []"
    and own: "case grant of None \<Rightarrow> True | Some (lease, g) \<Rightarrow> account_id lease = account"
  shows "case record_outcome env account out om grant now (hs, af, tb) of (hs', af', tb') \<Rightarrow>
     (case bindings af t sc of
        None \<Rightarrow> bindings af' t sc = None
      | Some b \<Rightarrow>
          if bindings af' t sc = None
          then af_account b = account \<and>
            (case classify_outcome out (om_denial om) of
               Credential \<Rightarrow> True | QuotaRefusal \<Rightarrow> \<not> om_fixed om
             | Transient \<Rightarrow> om_thread om = Some t \<and> is_hold_expired b (of_int now)
             | Unknown \<Rightarrow> om_thread om = Some t \<and> is_hold_expired b (of_int now)
             | _ \<Rightarrow> False)
          else bindings af' t sc = Some b)
     \<and> (case grant of None \<Rightarrow> tb' = tb | Some (lease, g) \<Rightarrow> if expires_at lease \<le> now then True else lost lease tb')"
proof -
  let ?env = "asking_holds account (of_int now) af env"
  let ?om = "om\<lparr>om_now := of_int now\<rparr>"
  let ?c = "classify_outcome out (om_denial om)"
  let ?apply = "fold (apply_outcome_effect (en_records env) account grant now)"
  obtain effects hs' where e: "record_upstream_outcome ?env (Some account) out ?om hs = (effects, hs')" by (metis surj_pair)
  obtain after where eff: "effects = host_effects out ?om @ SettleTransientProbe ?c # after" and asked: "\<forall>x \<in> set after. asked_by ?env ?c ?om x"
    using outcome_effects [OF named, of ?env out ?om hs] e by auto
  obtain af' tb' where r: "?apply effects (af, tb) = (af', tb')" by (metis surj_pair)
  have res: "record_outcome env account out om grant now (hs, af, tb) = (hs', af', tb')"
    using e r by (simp add: record_outcome_def)
  have ok: "affinity_ok af" using affinity_run_inv [OF run] by (simp add: affinity_inv_def)
  have "loses_only account (set effects) af af'"
    using effects_lose_only [OF ok order_refl, of account effects "en_records env" grant now tb] r by simp
  then have lose: "bindings af' t sc = bindings af t sc
     \<or> bindings af' t sc = None \<and> (\<exists>b. bindings af t sc = Some b \<and> af_account b = account)
       \<and> (ClearThreads \<in> set effects \<or> DropThreadPin t \<in> set effects)" by (simp add: loses_only_def)
  have host: "bystander x" if "x \<in> set (host_effects out ?om)" for x using host_bystanders [of out ?om] that by (simp add: list_all_iff)
  have clear: "?c = Credential \<or> ?c = QuotaRefusal \<and> \<not> om_fixed om" if "ClearThreads \<in> set effects"
    using that eff asked host [of ClearThreads] by (auto simp: asked_by_def bystander_def)
  have pin: "?c \<in> {Transient, Unknown} \<and> om_thread om = Some t \<and> is_hold_spent_for_account t account (of_int now) af"
    if "DropThreadPin t \<in> set effects"
    using that eff asked host [of "DropThreadPin t"] by (auto simp: asked_by_def bystander_def asking_holds_def)
  have one: "case bindings af t sc of
        None \<Rightarrow> bindings af' t sc = None
      | Some b \<Rightarrow>
          if bindings af' t sc = None
          then af_account b = account \<and>
            (case ?c of
               Credential \<Rightarrow> True | QuotaRefusal \<Rightarrow> \<not> om_fixed om
             | Transient \<Rightarrow> om_thread om = Some t \<and> is_hold_expired b (of_int now)
             | Unknown \<Rightarrow> om_thread om = Some t \<and> is_hold_expired b (of_int now)
             | _ \<Rightarrow> False)
          else bindings af' t sc = Some b"
    using lose clear pin spent_hold_expired [of t account "of_int now" af sc] by (auto split: option.split)
  have two: "tb' = (case grant of None \<Rightarrow> tb | Some _ \<Rightarrow> settle_transient_probe_for_outcome (en_records env) account grant ?c now tb)"
  proof -
    have h: "\<forall>x \<in> set (host_effects out ?om). \<forall>c. x \<noteq> SettleTransientProbe c" using host by (force simp: bystander_def)
    have a: "\<forall>x \<in> set after. \<forall>c. x \<noteq> SettleTransientProbe c" using asked by (force simp: asked_by_def bystander_def)
    obtain af0 where f: "?apply (host_effects out ?om) (af, tb) = (af0, tb)"
      using trial_untouched [OF h, of "en_records env" account grant now af tb] by (metis prod.collapse)
    have "?apply effects (af, tb) = ?apply after (af0, settle_transient_probe_for_outcome (en_records env) account grant ?c now tb)"
      by (simp add: eff f apply_outcome_effect_def)
    then have "tb' = settle_transient_probe_for_outcome (en_records env) account grant ?c now tb"
      using r trial_untouched [OF a, of "en_records env" account grant now af0] by (metis snd_conv)
    then show ?thesis by (simp add: settle_transient_probe_for_outcome_def split: option.split)
  qed
  have "case grant of None \<Rightarrow> tb' = tb | Some (lease, g) \<Rightarrow> if expires_at lease \<le> now then True else lost lease tb'"
    using two own settled_lost [of _ account now "en_records env" _ ?c tb] by (cases grant) auto
  then show ?thesis unfolding res prod.case using one by blast
qed


section \<open>Witness\<close>

definition demo_routing :: routing_env where
  "demo_routing = \<lparr>en_records = demo_records, en_date = (\<lambda>_. None), en_number = (\<lambda>_. NaN), en_generation = 0, en_threshold = 3,
     en_active = None, en_alternate = (\<lambda>_. None), en_hold_spent = (\<lambda>_. False)\<rparr>"

definition demo_meta :: outcome_meta where
  "demo_meta = \<lparr>om_retry_after = None, om_reset_at = None, om_now = 0, om_host = None, om_denial = None, om_model = None,
     om_thread = Some ''t'', om_fixed = False, om_lease = None, om_lease_scope = None, om_promote = None, om_writer = None, om_credential = None\<rparr>"

definition demo_trial_lease :: probe_lease where
  "demo_trial_lease = \<lparr>account_id = ''a'', lease_id = ''x'', lease_generation = 1, expires_at = 100\<rparr>"

text \<open>A refusal of quota takes the binding; an error of the server does not.\<close>

theorem outcome_takes_only_its_bindings_witness:
  "(case record_outcome demo_routing ''a'' (Status (Fin 429)) demo_meta (Some (demo_trial_lease, 4)) 20 (empty_store, demo_bound, empty_probe_table)
     of (hs', af', tb') \<Rightarrow> bindings af' ''t'' demo_scope = None \<and> lost demo_trial_lease tb')
   \<and> (case record_outcome demo_routing ''a'' (Status (Fin 503)) demo_meta (Some (demo_trial_lease, 4)) 20 (empty_store, demo_bound, empty_probe_table)
     of (hs', af', tb') \<Rightarrow> bindings af' ''t'' demo_scope = Some (new_binding ''a'' 4 5 None))"
proof -
  have own: "case Some (demo_trial_lease, 4 :: nat) of None \<Rightarrow> True | Some (lease, g) \<Rightarrow> account_id lease = ''a''"
    by (simp add: demo_trial_lease_def)
  have b: "bindings demo_bound ''t'' demo_scope = Some (new_binding ''a'' 4 5 None)" by code_simp
  have fresh: "\<not> is_hold_expired (new_binding ''a'' 4 5 None) 20" "\<not> expires_at demo_trial_lease \<le> 20"
    by (simp_all add: is_hold_expired_def new_binding_def demo_trial_lease_def)
  have cls: "classify_outcome (Status (Fin 503)) (om_denial demo_meta) = Transient" by code_simp
  have gone: "case record_outcome demo_routing ''a'' (Status (Fin 429)) demo_meta (Some (demo_trial_lease, 4)) 20 (empty_store, demo_bound, empty_probe_table)
     of (hs', af', tb') \<Rightarrow> bindings af' ''t'' demo_scope = None" by code_simp
  show ?thesis
    using gone
      outcome_takes_only_its_bindings [OF demo_bound_run _ own, where env = demo_routing and out = "Status (Fin 429)" and om = demo_meta
        and now = 20 and hs = empty_store and tb = empty_probe_table and t = "''t''" and sc = demo_scope]
      outcome_takes_only_its_bindings [OF demo_bound_run _ own, where env = demo_routing and out = "Status (Fin 503)" and om = demo_meta
        and now = 20 and hs = empty_store and tb = empty_probe_table and t = "''t''" and sc = demo_scope]
    by (auto simp: b cls fresh split: if_splits)
qed

end
