(* ===== verification/Spec2Isabelle.thy ===== *)
theory Spec2Isabelle
  imports Held_Dispatch Workflow_Properties Request_Properties Combo_Properties Combo_Rotation
    Combo_Waiting Combo_Config_Properties Pacing_Properties Pacing_Body
    Failure_Window_Properties Codex_Health_Properties
    Codex_Pick_Properties Codex_Affinity_Properties Codex_Resolve_Properties
    Codex_Operator_Properties Codex_Settle
begin

text \<open>
  A verification library for the control logic of opencodex, a proxy in TypeScript that sends each
  turn of a coding client to one of many model providers. The program under \<open>src/src\<close> is
  large; the library models the parts that decide, without I/O, whether a send may happen, where
  it goes, what it is charged to and what a failure changes. They are the parts whose mistakes cost
  money or lock an account out, and each is a small state machine in one file.

  \<^bold>\<open>Parts and theories.\<close> Every operation has its own definition, named after the function of the
  source; state is a record with the fields of the module, passed in and returned.

  \<^item> \<open>Prelude\<close>: insertion-ordered JavaScript maps as association lists, numbers that may be
    non-finite, parsed JSON, \<open>trim\<close>; facts about lookups, sizes and sums.
  \<^item> \<open>Pool_Backpressure\<close>, \<open>Probe_Lease\<close>, \<open>Held_Dispatch\<close> (\<open>routing/probe-lease.ts\<close>): the limiter
    of recovery sends, the table of half-open probe leases per account, and the answer for an
    account that is held, which needs both.
  \<^item> \<open>Spend_Journal\<close>, \<open>Spend_Pool\<close>, \<open>Spend_Ledger\<close>, \<open>Spend_Ops\<close> (\<open>lib/spend-reservation-ledger.ts\<close>,
    \<open>lib/spend-pool-*.ts\<close>): records of the spend journal and their validation, aliases of provider
    pools, and the ledger: reserve, dispatch, settle, lose, abandon, seeds, compaction, eviction,
    restart. \<open>Spend_Books\<close> is its abstract view (scope and reservation tables), \<open>Spend_Steps\<close> the
    reachable ledgers, \<open>Spend_Outcomes\<close> the contract of one send, \<open>Spend_Properties\<close> the theorems.
  \<^item> \<open>Workflow_Window\<close>, \<open>Workflow_Budget\<close>, \<open>Workflow_Properties\<close> (\<open>lib/workflow-budget.ts\<close>): the
    ring of send slots of a workflow root, admission of turns against its policy and the shared
    spend ledger, leases, events and views.
  \<^item> \<open>Request_Budget\<close>, \<open>Request_Properties\<close> (\<open>lib/request-execution-budget.ts\<close>): the sends one
    request may make, single-use permits, receipts and replacement of ambiguous failures.
  \<^item> \<open>Retry_Timing\<close>, \<open>Failure_Text\<close> (\<open>combos/failover.ts\<close>, \<open>codex/routing/cooldown-math.ts\<close>):
    \<open>Retry-After\<close> in seconds and in the three HTTP date forms, quota resets, and the codes and
    phrases that classify a failure.
  \<^item> \<open>Combo_Failover\<close>, \<open>Combo_Steps\<close>, \<open>Combo_Properties\<close> (\<open>combos/failover.ts\<close>): cooldowns, circuit
    breakers, the shared failure ledger, the capacity ladder, half-open probes, and the cooling of
    a failed pick (\<open>combos/resolve.ts\<close>).
  \<^item> \<open>Combo_Pick\<close> (\<open>combos/resolve.ts\<close>, \<open>combos/reset-window.ts\<close>): the choice of a target by each
    strategy, what its outcome changes, and waiting for a cooldown, cut into stages where it sleeps.
    \<open>Combo_Checks\<close> is the interface of the checks the picker calls, \<open>Combo_Pick_Properties\<close>,
    \<open>Combo_Rotation\<close> and \<open>Combo_Waiting\<close> the theorems.
  \<^item> \<open>Combo_Config\<close>, \<open>Combo_Config_Properties\<close> (\<open>combos/types.ts\<close>, \<open>combos/identifiers.ts\<close>,
    \<open>combos/jev-*.ts\<close>): names and aliases of combos, the validation of a definition with every
    issue it reports, and its normal form.
  \<^item> \<open>Request_Pacing\<close>, \<open>Pacing_Steps\<close>, \<open>Pacing_Properties\<close> (\<open>providers/request-pacing.ts\<close>): the
    queue of waiting requests of a provider, spacing and concurrency caps, leases, wake-ups and
    microtasks as explicit state, and every history of them. \<open>Pacing_Body\<close>: the response body that
    owns a lease and the boundaries of a send.
  \<^item> \<open>Failure_Window\<close>, \<open>Failure_Window_Properties\<close> (\<open>codex/routing/failure-window.ts\<close>): the sliding
    minute of outcomes of a pool account and when it steers new threads away.
  \<^item> \<open>Codex_Health\<close> (\<open>codex/routing/health-store.ts\<close>), \<open>Codex_Probe\<close> (\<open>codex/routing/probe-lease.ts\<close>),
    \<open>Codex_Outcome\<close> (\<open>recordCodexUpstreamOutcome\<close> of \<open>codex/routing.ts\<close>): cooldowns of accounts and of
    their quota scopes, leases of the requests that probe them, and what each outcome changes.
    \<open>Codex_Health_Runs\<close> has the invariant of every operation, \<open>Codex_Health_Properties\<close> the histories, with
    ghosts for grants and refusals, and the theorems.
  \<^item> \<open>Pool_Rotation\<close>, \<open>Pool_Rotation_Properties\<close> (\<open>oauth/pool-kernel.ts\<close>): priority tiers and the smooth
    round robin of every account pool.
  \<^item> \<open>Codex_Active\<close>, \<open>Codex_Usage\<close>, \<open>Codex_Select\<close>, \<open>Codex_Pick\<close>, \<open>Codex_Pick_Properties\<close>
    (\<open>codex/routing/active-account.ts\<close>, \<open>codex/routing/selection.ts\<close> and the account policies they read): the
    cursor and the selection of the operator, usage scores, the guards of an account, and the pickers.
  \<^item> \<open>Codex_Affinity\<close>, \<open>Codex_Affinity_Properties\<close> (\<open>codex/routing/thread-affinity.ts\<close>): the bindings of
    conversations to accounts, with their bound, their order of eviction and the hand-over of credentials.
  \<^item> \<open>Codex_Binding\<close>, \<open>Codex_Resolve\<close>, \<open>Codex_Resolve_Properties\<close> (\<open>codex/routing.ts\<close> with the
    policies it reads): holds and detours of a bound conversation, moves for quota, the placement of a new
    one, and the resolver of a request with its preview, in the stages of the function. The theorems on a
    bound conversation are about its ordinary binding: a lane remembered for the model of the request
    answers before it. \<open>Codex_Operator_Properties\<close>: the selection of the operator through requests of the
    rotating strategies. \<open>Codex_Settle\<close>: what an outcome does to the bindings and to the trial of its request.

  \<^bold>\<open>How they interact.\<close> The workflow budget reserves in the spend ledger and gives the send back when
  a lease ends; a request budget reports each send to an observer, which stands for the tracker of that spend
  and of which nothing is assumed. A held
  account is answered by the probe table and the limiter together. A combo's failure reads the
  timing and the text of the response and updates the state the picker reads. The outcome of a pool
  account reads the same timing, feeds its failure window and asks, as returned effects, for the thread map,
  the rotation and the active account to change. The resolver of the pool composes the bindings, the
  selection, the active account and, for a held account, the probe table with the limiter.

  \<^bold>\<open>What is shown.\<close> Safety over every reachable state (one holder per account, admission within every
  ceiling, no exhausted scope forgotten, no laundering of a busy root); conservation of spend
  through settle, loss, abandonment and restart; refinement (the rebuilt ledger, the ring of slots
  against a rolling window of sends, the circuit against a breaker machine); bounds (recovery
  sends, tracked entries, cooldowns, probes); stability (a conversation leaves its account only for a cause,
  an outcome takes bindings of its own account only, a preview names what a request gets, and the
  choice of the operator outlasts the rotation); time (a capacity rung takes at least the rungs before
  it, less ninety seconds each); round trip of journal records; and for each error path, that a refusal
  leaves the books as they were. Reachability is an inductive predicate with one rule per operation; interfaces between
  components are locales, interpreted on the definitions of the provider.

  \<^bold>\<open>Conventions.\<close> Instants and amounts are integers or rationals; a double is taken as the exact
  number it holds, and where a number may be non-finite it is a \<open>jsnum\<close>. Text is of characters below
  256. Parameters stand for code outside a component: the hash of identifiers, the language's
  \<open>Number\<close> and \<open>Date.parse\<close> on text, \<open>Math.random\<close>, configuration lookups, cached quota evidence.
  Recursion is structural or has its measure; only the two loops that trim the bindings and their issuers
  take a number of rounds, the number of entries, and \<open>prune_lru_bound\<close> and \<open>bound_issuers_ok\<close> show that
  they end at their bound. Disk writes are a list of faults
  consumed one per write, so that a failed append is a branch of every operation that appends.

  \<^bold>\<open>Not modelled.\<close> Transport, streaming, adapters and wire formats; OAuth and credential storage;
  configuration parsing and schema validation outside combos; the GUI, the CLI, installers and the tray; usage
  analytics; provider catalogues. They are I/O, generated or presentation code around the parts
  above, or belong to other state machines than these. Of the modelled files: lease files and salts
  on disk (file I/O), async-local rebinding of the physical send reporter, log lines; of the account pool,
  the setters of the configuration, log-ins and refreshes of credentials, and the native main login.
\<close>

end
